(* ===== verification/Prelude.thy ===== *)
theory Prelude
  imports Main "HOL-Library.Word"
begin

text \<open>
  Shared vocabulary of the development: the C integer types as words, the fault values
  that stand for an aborted C execution, and the lemmas on words, lists and finite ranges
  that several components use.

  Conventions. An unsigned C type of \<open>n\<close> bits is an \<open>n word\<close>; a signed one is read with
  \<open>sint\<close> where its sign matters, or is an \<open>int\<close> where the source cannot overflow it.
  \<open>fault\<close> lists the ways a C call can stop without returning: a failed \<open>assert\<close>, an
  \<open>abort()\<close>, a null or dangling pointer that is followed, a jump through a null function
  pointer, an instruction the processor refuses, \<open>exit(-1)\<close>, and a loop that never ends
  (\<open>No_return\<close>), and a division by zero. An operation that can stop is a function
  into \<open>fault + 'a\<close>.
\<close>

unbundle bit_operations_syntax

type_synonym u8 = "8 word"
type_synonym u16 = "16 word"
type_synonym u32 = "32 word"
type_synonym u64 = "64 word"

text \<open>Addresses of heap objects; 0 is the null pointer.\<close>

type_synonym addr = nat

datatype fault =
    Assert_failed
  | Aborted
  | Null_deref
  | Dangling_deref
  | Null_call
  | Invalid_opcode
  | Exit_failure
  | No_return
  | Div_by_zero

type_synonym 'a result = "fault + 'a"

named_theorems bnd_defs \<open>definitions of field bounds and well-formedness predicates\<close>
named_theorems word_conv \<open>conversions between word comparisons and unat comparisons\<close>

definition bind_result :: "'a result \<Rightarrow> ('a \<Rightarrow> 'b result) \<Rightarrow> 'b result" where
  "bind_result r f = (case r of Inl e \<Rightarrow> Inl e | Inr x \<Rightarrow> f x)"

lemma bind_result_simps [simp]:
  "bind_result (Inl e) f = Inl e"
  "bind_result (Inr x) f = f x"
  by (simp_all add: bind_result_def)

lemma bind_result_Inr_iff:
  "bind_result r f = Inr y \<longleftrightarrow> (\<exists>x. r = Inr x \<and> f x = Inr y)"
  by (cases r) auto

section \<open>Words\<close>

declare word_le_nat_alt [word_conv] word_less_nat_alt [word_conv]

text \<open>Addition and subtraction that do not wrap.\<close>

lemma unat_add_nowrap:
  fixes a b :: "'a::len word"
  assumes "unat a + unat b < 2 ^ LENGTH('a)"
  shows "unat (a + b) = unat a + unat b"
  using assms by (simp add: unat_add_lem)

lemma unat_diff_nowrap:
  fixes a b :: "'a::len word"
  assumes "b \<le> a"
  shows "unat (a - b) = unat a - unat b"
  using assms by (simp add: unat_sub)

lemma unat_lt_2p: "unat (x::'a::len word) < 2 ^ LENGTH('a)"
  by (rule unsigned_less)

lemma word_eq_iff_unat: "(x::'a::len word) = y \<longleftrightarrow> unat x = unat y"
  by (rule word_unat_eq_iff)

lemma unat_and_le1: "unat (x AND y) \<le> unat (y::'a::len word)"
  by (metis word_and_le1 word_le_nat_alt)

lemma unat_and_le2: "unat (x AND y) \<le> unat (x::'a::len word)"
  by (metis word_and_le2 word_le_nat_alt)

lemma sint_of_nat_64: "n < 2 ^ 63 \<Longrightarrow> sint (of_nat n :: u64) = int n"
  by (simp add: signed_of_nat signed_take_bit_int_eq_self_iff)

lemma sint_diff_pos:
  assumes "t < n" "n < t + 2 ^ 63"
  shows "sint (of_nat n - of_nat t :: u64) > 0"
proof -
  have "(of_nat n - of_nat t :: u64) = of_nat (n - t)" using assms(1) by (simp add: of_nat_diff)
  then show ?thesis using assms sint_of_nat_64 [of "n - t"] by simp
qed

lemma sint_small_64: "unat x < 2 ^ 63 \<Longrightarrow> sint (x :: u64) = int (unat x)"
  using sint_of_nat_64 [of "unat x"] by simp

text \<open>Conversions and shifts, as arithmetic on natural numbers.\<close>

lemma unat_ucast_mod: "unat (ucast (w::'a::len word) :: 'b::len word) = unat w mod 2 ^ LENGTH('b)"
  by (simp only: unsigned_ucast_eq take_bit_eq_mod)

lemma unat_ucast_fits: "unat (w::'a::len word) < 2 ^ LENGTH('b) \<Longrightarrow> unat (ucast w :: 'b::len word) = unat w"
  by (simp add: unat_ucast_mod)

lemma unat_push_bit_mod: "unat (push_bit n (w::'a::len word)) = unat w * 2 ^ n mod 2 ^ LENGTH('a)"
  unfolding unsigned_push_bit_eq by (simp only: take_bit_eq_mod push_bit_eq_mult)

lemma unat_drop_bit_div: "unat (drop_bit n (w::'a::len word)) = unat w div 2 ^ n"
  unfolding unat_drop_bit_eq by (rule drop_bit_eq_div)

lemma unat_mult_nowrap:
  fixes a b :: "'a::len word"
  assumes "unat a * unat b < 2 ^ LENGTH('a)"
  shows "unat (a * b) = unat a * unat b"
  using assms by (simp add: unat_mult_lem)

text \<open>C's integer division truncates towards zero.\<close>

definition c_div :: "int \<Rightarrow> int \<Rightarrow> int" where
  "c_div a b = sgn a * sgn b * (\<bar>a\<bar> div \<bar>b\<bar>)"

definition c_mod :: "int \<Rightarrow> int \<Rightarrow> int" where
  "c_mod a b = a - b * c_div a b"

lemma c_div_nonneg [simp]: "0 \<le> a \<Longrightarrow> 0 < b \<Longrightarrow> c_div a b = a div b"
  by (cases "a = 0") (simp_all add: c_div_def)

lemma c_mod_nonneg [simp]: "0 \<le> a \<Longrightarrow> 0 < b \<Longrightarrow> c_mod a b = a mod b"
  by (simp add: c_mod_def minus_mult_div_eq_mod)

section \<open>Lists\<close>

lemma in_set_tl: "x \<in> set (tl xs) \<Longrightarrow> x \<in> set xs"
  by (cases xs) auto

lemma distinct_last_notin_butlast:
  "distinct xs \<Longrightarrow> xs \<noteq> [] \<Longrightarrow> last xs \<notin> set (butlast xs)"
  by (metis append_butlast_last_id distinct_append disjoint_iff list.set_intros(1))

end
