(* ===== verification/Atomic.thy ===== *)
theory Atomic
  imports Prelude
begin

text \<open>
  The atomic primitives of COREMU: \<open>incl/atomic-template.h\<close> (included once per operand
  width, so its functions are polymorphic in the word width here), the bit and 128-bit
  operations of \<open>incl/coremu-atomic.h\<close>, and the spin lock of \<open>incl/coremu-spinlock.h\<close>.
  Each primitive is one locked x86 instruction: a function from the old contents of the
  memory operand to the returned value and the new contents.
\<close>

section \<open>atomic-template.h\<close>

definition atomic_inc :: "'a::len word \<Rightarrow> 'a word" where
  "atomic_inc p = p + 1"

definition atomic_dec :: "'a::len word \<Rightarrow> 'a word" where
  "atomic_dec p = p - 1"

definition atomic_add :: "'a::len word \<Rightarrow> 'a word \<Rightarrow> 'a word" where
  "atomic_add p val = p + val"

text \<open>\<open>xchg\<close>: the value swapped out of memory is returned.\<close>

definition atomic_exchange :: "'a::len word \<Rightarrow> 'a word \<Rightarrow> 'a word \<times> 'a word" where
  "atomic_exchange p val = (let out = p in (out, val))"

text \<open>
  \<open>cmpxchg\<close>: the accumulator holds \<open>oldval\<close>. If it equals the memory operand, the operand
  becomes \<open>newval\<close>; otherwise the accumulator is loaded with the operand. The accumulator is
  returned.
\<close>

definition atomic_compare_exchange :: "'a::len word \<Rightarrow> 'a word \<Rightarrow> 'a word \<Rightarrow> 'a word \<times> 'a word"
  where
  "atomic_compare_exchange p oldval newval =
     (if p = oldval then (oldval, newval) else (p, p))"

definition atomic_and :: "'a::len word \<Rightarrow> 'a word \<Rightarrow> 'a word" where
  "atomic_and p m = p AND m"

definition atomic_or :: "'a::len word \<Rightarrow> 'a word \<Rightarrow> 'a word" where
  "atomic_or p m = p OR m"

definition atomic_xadd :: "'a::len word \<Rightarrow> 'a word \<Rightarrow> 'a word \<times> 'a word" where
  "atomic_xadd p val = (p, p + val)"

section \<open>coremu-atomic.h\<close>

text \<open>
  \<open>bts\<close> and \<open>btr\<close> with a memory operand address a bit string: offset \<open>off\<close> is bit
  \<open>off mod 32\<close> of the doubleword \<open>off div 32\<close> (rounding down) after \<open>base\<close>. The memory is
  the array of doublewords around \<open>base\<close>. The carry flag is the old bit, and \<open>setb\<close> returns
  it as 0 or 1.
\<close>

type_synonym bitstring = "int \<Rightarrow> u32"

definition bit_get :: "bitstring \<Rightarrow> int \<Rightarrow> bool" where
  "bit_get base off = bit (base (off div 32)) (nat (off mod 32))"

definition bit_testandset :: "bitstring \<Rightarrow> int \<Rightarrow> u8 \<times> bitstring" where
  "bit_testandset base off =
     (of_bool (bit_get base off),
      base(off div 32 := set_bit (nat (off mod 32)) (base (off div 32))))"

definition bit_testandreset :: "bitstring \<Rightarrow> int \<Rightarrow> u8 \<times> bitstring" where
  "bit_testandreset base off =
     (of_bool (bit_get base off),
      base(off div 32 := unset_bit (nat (off mod 32)) (base (off div 32))))"

text \<open>
  \<open>bit_test\<close> puts a \<open>lock\<close> prefix on \<open>bt\<close>. That instruction does not write its operand
  and is not lockable: the processor raises an invalid-opcode exception, whatever the
  operands are.
\<close>

definition bit_test :: "bitstring \<Rightarrow> int \<Rightarrow> u8 result" where
  "bit_test base off = Inl Invalid_opcode"

text \<open>\<open>cmpxchg16b\<close> on the two quadwords at \<open>memp\<close>; the result is the zero flag.\<close>

definition atomic_compare_exchange16b ::
  "u64 \<times> u64 \<Rightarrow> u64 \<Rightarrow> u64 \<Rightarrow> u64 \<Rightarrow> u64 \<Rightarrow> u8 \<times> (u64 \<times> u64)" where
  "atomic_compare_exchange16b mem rax rdx rbx rcx =
     (if mem = (rax, rdx) then (1, (rbx, rcx)) else (0, mem))"

section \<open>coremu-spinlock.h\<close>

record CMSpinLock =
  lock :: u32

text \<open>\<open>cmpxchgl\<close> of 1 against an accumulator of 0; the accumulator is returned.\<close>

definition testandset :: "CMSpinLock \<Rightarrow> u32 \<times> CMSpinLock" where
  "testandset p =
     (let (readval, new) = atomic_compare_exchange (lock p) 0 1 in (readval, p\<lparr>lock := new\<rparr>))"

text \<open>
  \<open>coremu_spin_lock\<close> retries while \<open>__testandset\<close> returns non-zero. Between two attempts
  other threads may change the lock word, so the attempts are given as the list of lock words
  the successive \<open>cmpxchg\<close> instructions find; \<open>None\<close> means that the caller is still spinning.
\<close>

fun coremu_spin_lock :: "CMSpinLock list \<Rightarrow> CMSpinLock option" where
  "coremu_spin_lock [] = None"
| "coremu_spin_lock (p # ps) =
     (let (readval, p') = testandset p in if readval \<noteq> 0 then coremu_spin_lock ps else Some p')"

definition coremu_spin_unlock :: "CMSpinLock \<Rightarrow> CMSpinLock" where
  "coremu_spin_unlock s = s\<lparr>lock := 0\<rparr>"

section \<open>Lemmas\<close>

lemma compare_exchange_swapped [simp]:
  "fst (atomic_compare_exchange p old new) = old \<longleftrightarrow> p = old"
  by (simp add: atomic_compare_exchange_def)

lemma compare_exchange_mem [simp]:
  "snd (atomic_compare_exchange p old new) = (if p = old then new else p)"
  by (simp add: atomic_compare_exchange_def)

lemma compare_exchange_prev [simp]:
  "fst (atomic_compare_exchange p old new) = p"
  by (simp add: atomic_compare_exchange_def)

lemma testandset_free [simp]:
  "fst (testandset p) = 0 \<longleftrightarrow> lock p = 0"
  by (simp add: testandset_def atomic_compare_exchange_def)

lemma testandset_held [simp]:
  "lock p \<noteq> 0 \<Longrightarrow> testandset p = (lock p, p)"
  by (simp add: testandset_def atomic_compare_exchange_def)

lemma testandset_takes [simp]:
  "lock p = 0 \<Longrightarrow> testandset p = (0, p\<lparr>lock := 1\<rparr>)"
  by (simp add: testandset_def atomic_compare_exchange_def)

lemma spin_lock_Some_iff:
  "coremu_spin_lock ps = Some p' \<longleftrightarrow>
     (\<exists>qs p rs. ps = qs @ p # rs \<and> (\<forall>q \<in> set qs. lock q \<noteq> 0) \<and> lock p = 0 \<and> p' = p\<lparr>lock := 1\<rparr>)"
proof (induction ps)
  case Nil
  then show ?case by simp
next
  case (Cons p ps)
  show ?case
  proof (cases "lock p = 0")
    case True
    have "qs = []" if "p # ps = qs @ q # rs" "\<forall>q \<in> set qs. lock q \<noteq> 0" for qs q rs
      using that True by (cases qs) auto
    with True show ?thesis by fastforce
  next
    case False
    have "(\<exists>qs q rs. p # ps = qs @ q # rs \<and> (\<forall>r \<in> set qs. lock r \<noteq> 0) \<and> lock q = 0
             \<and> p' = q\<lparr>lock := 1\<rparr>) \<longleftrightarrow>
          (\<exists>qs q rs. ps = qs @ q # rs \<and> (\<forall>r \<in> set qs. lock r \<noteq> 0) \<and> lock q = 0
             \<and> p' = q\<lparr>lock := 1\<rparr>)" (is "?L \<longleftrightarrow> ?R")
    proof
      assume ?L
      then obtain qs q rs where *: "p # ps = qs @ q # rs" "\<forall>r \<in> set qs. lock r \<noteq> 0"
        "lock q = 0" "p' = q\<lparr>lock := 1\<rparr>" by blast
      with False show ?R by (cases qs) auto
    next
      assume ?R
      then obtain qs q rs where "ps = qs @ q # rs" "\<forall>r \<in> set qs. lock r \<noteq> 0"
        "lock q = 0" "p' = q\<lparr>lock := 1\<rparr>" by blast
      with False have "p # ps = (p # qs) @ q # rs \<and> (\<forall>r \<in> set (p # qs). lock r \<noteq> 0) \<and> lock q = 0
        \<and> p' = q\<lparr>lock := 1\<rparr>" by simp
      then show ?L by blast
    qed
    with False Cons.IH show ?thesis by simp
  qed
qed

lemma div32_mod32_eq: "(i::int) div 32 = j div 32 \<Longrightarrow> i mod 32 = j mod 32 \<Longrightarrow> i = j"
  by (metis mult_div_mod_eq)

lemma bit_get_update:
  assumes "\<And>k. k < 32 \<Longrightarrow>
      bit w k = (if k = nat (off mod 32) then b else bit (base (off div 32)) k)"
  shows "bit_get (base(off div 32 := w)) i = (if i = off then b else bit_get base i)"
proof -
  have lt: "nat (i mod 32) < 32" by simp
  have eq: "i div 32 = off div 32 \<Longrightarrow> nat (i mod 32) = nat (off mod 32) \<Longrightarrow> i = off"
    by (rule div32_mod32_eq) (auto simp: nat_eq_iff)
  show ?thesis
    using assms [OF lt] eq by (auto simp: bit_get_def)
qed

lemma bit_testandset_get:
  "bit_get (snd (bit_testandset base off)) i \<longleftrightarrow> i = off \<or> bit_get base i"
  by (simp add: bit_testandset_def) (subst bit_get_update [where b = True], auto simp: bit_set_bit_iff)

lemma bit_testandreset_get:
  "bit_get (snd (bit_testandreset base off)) i \<longleftrightarrow> i \<noteq> off \<and> bit_get base i"
  by (simp add: bit_testandreset_def)
    (subst bit_get_update [where b = False], auto simp: bit_unset_bit_iff)

end
