(* ===== verification/Queue_Spec.thy ===== *)
theory Queue_Spec
  imports Prelude
begin

text \<open>
  The concurrent queue interface of \<open>incl/queue.h\<close> as its client \<open>main/intr.c\<close> sees it,
  and what both implementations share: loads from a heap of nodes and chains of nodes linked
  by their \<open>next\<close> field.

  \<open>new_queue\<close>, \<open>enqueue\<close>, \<open>dequeue\<close> and \<open>queue_get_size\<close> are the fields of a record
  of operations, so that \<open>intr.c\<close> is modelled once for the two implementations the build can
  select (\<open>lock-queue.c\<close>, or \<open>ms-queue.c\<close> with \<open>LOCKFREE\<close>). Where an operation calls
  \<open>malloc\<close>, the returned address is an argument: any address the allocator may return,
  with 0 for NULL.
\<close>

section \<open>Heap access\<close>

definition load :: "(addr \<rightharpoonup> 'n) \<Rightarrow> addr \<Rightarrow> 'n result" where
  "load h a = (if a = 0 then Inl Null_deref
     else case h a of None \<Rightarrow> Inl Dangling_deref | Some n \<Rightarrow> Inr n)"

lemma load_Inr [simp]: "a \<noteq> 0 \<Longrightarrow> h a = Some n \<Longrightarrow> load h a = Inr n"
  by (simp add: load_def)

lemma load_Inr_iff: "load h a = Inr n \<longleftrightarrow> a \<noteq> 0 \<and> h a = Some n"
  by (simp add: load_def split: option.splits)

text \<open>
  \<open>chain f a ns\<close>: following the successor map \<open>f\<close> from \<open>a\<close> visits exactly the nodes
  \<open>ns\<close> and ends at the null pointer.
\<close>

fun chain :: "(addr \<rightharpoonup> addr) \<Rightarrow> addr \<Rightarrow> addr list \<Rightarrow> bool" where
  "chain f a [] \<longleftrightarrow> a = 0"
| "chain f a (n # ns) \<longleftrightarrow> a = n \<and> n \<noteq> 0 \<and> (\<exists>b. f n = Some b \<and> chain f b ns)"

lemma chain_hd: "chain f a ns \<Longrightarrow> ns \<noteq> [] \<Longrightarrow> a = hd ns"
  by (cases ns) auto

lemma chain_nonzero: "chain f a ns \<Longrightarrow> n \<in> set ns \<Longrightarrow> n \<noteq> 0"
  by (induction f a ns rule: chain.induct) auto

lemma chain_dom: "chain f a ns \<Longrightarrow> n \<in> set ns \<Longrightarrow> n \<in> dom f"
  by (induction f a ns rule: chain.induct) auto

lemma chain_upd_notin [simp]: "n \<notin> set ns \<Longrightarrow> chain (f(n := x)) a ns = chain f a ns"
  by (induction f a ns rule: chain.induct) auto

lemma chain_last: "chain f a ns \<Longrightarrow> ns \<noteq> [] \<Longrightarrow> f (last ns) = Some 0"
  by (induction f a ns rule: chain.induct) (auto split: if_splits)

text \<open>Linking a fresh last node behind the chain.\<close>

lemma chain_append:
  assumes "chain f a ns" "ns \<noteq> []" "distinct ns" "n \<notin> set ns" "n \<noteq> 0" "f n = Some 0"
  shows "chain (f(last ns \<mapsto> n)) a (ns @ [n])"
  using assms
proof (induction f a ns rule: chain.induct)
  case (1 f a)
  then show ?case by simp
next
  case (2 f a m ns)
  show ?case
  proof (cases "ns = []")
    case True
    with 2 show ?thesis by auto
  next
    case False
    from 2 obtain b where b: "a = m" "m \<noteq> 0" "f m = Some b" "chain f b ns" by auto
    have "chain (f(last ns \<mapsto> n)) b (ns @ [n])"
      by (rule "2.IH") (use 2 False b in auto)
    moreover from 2 False have "m \<noteq> last ns" by auto
    ultimately show ?thesis using b False by (auto simp: fun_upd_def)
  qed
qed

lemma chain_tl:
  assumes "chain f a ns" "ns \<noteq> []" "f a = Some b"
  shows "chain f b (tl ns)"
  using assms by (cases ns) auto

lemma chain_tl_Nil: "chain f a ns \<Longrightarrow> ns \<noteq> [] \<Longrightarrow> f a = Some b \<Longrightarrow> tl ns = [] \<longleftrightarrow> b = 0"
  by (cases ns; cases "tl ns") auto

section \<open>The interface\<close>

record 'q queue_ops =
  q_enqueue :: "addr \<Rightarrow> u64 \<Rightarrow> 'q \<Rightarrow> 'q result"
  q_dequeue :: "'q \<Rightarrow> (u64 option \<times> 'q) result"
  q_get_size :: "'q \<Rightarrow> int"

text \<open>
  A sequence of calls, what it returns, and the same calls on a list. \<open>fresh_run\<close> says that
  every address \<open>malloc\<close> returns along the way is fresh.
\<close>

datatype qop = Enq u64 addr | Deq

fun run_ops :: "'q queue_ops \<Rightarrow> qop list \<Rightarrow> 'q \<Rightarrow> (u64 option list \<times> 'q) result" where
  "run_ops ops [] q = Inr ([], q)"
| "run_ops ops (Enq v a # os) q = bind_result (q_enqueue ops a v q) (run_ops ops os)"
| "run_ops ops (Deq # os) q = bind_result (q_dequeue ops q) (\<lambda>(r, q').
     bind_result (run_ops ops os q') (\<lambda>(rs, q''). Inr (r # rs, q'')))"

fun spec_ops :: "qop list \<Rightarrow> u64 list \<Rightarrow> u64 option list \<times> u64 list" where
  "spec_ops [] xs = ([], xs)"
| "spec_ops (Enq v a # os) xs = spec_ops os (xs @ [v])"
| "spec_ops (Deq # os) xs =
     (let (r, ys) = (case xs of [] \<Rightarrow> (None, []) | y # ys \<Rightarrow> (Some y, ys));
          (rs, zs) = spec_ops os ys
      in (r # rs, zs))"

fun fresh_run :: "'q queue_ops \<Rightarrow> ('q \<Rightarrow> addr \<Rightarrow> bool) \<Rightarrow> qop list \<Rightarrow> 'q \<Rightarrow> bool" where
  "fresh_run ops fr [] q \<longleftrightarrow> True"
| "fresh_run ops fr (Enq v a # os) q \<longleftrightarrow> fr q a \<and>
     (case q_enqueue ops a v q of Inl _ \<Rightarrow> True | Inr q' \<Rightarrow> fresh_run ops fr os q')"
| "fresh_run ops fr (Deq # os) q \<longleftrightarrow>
     (case q_dequeue ops q of Inl _ \<Rightarrow> True | Inr (r, q') \<Rightarrow> fresh_run ops fr os q')"

text \<open>
  The contract: \<open>repr q xs\<close> says that \<open>q\<close> is a usable queue that holds \<open>xs\<close>, oldest
  first, and \<open>fresh q a\<close> that \<open>malloc\<close> may return \<open>a\<close> in this state.
\<close>

locale fifo_queue =
  fixes ops :: "'q queue_ops"
    and repr :: "'q \<Rightarrow> u64 list \<Rightarrow> bool"
    and fresh :: "'q \<Rightarrow> addr \<Rightarrow> bool"
  assumes enqueue_repr:
      "repr q xs \<Longrightarrow> fresh q a \<Longrightarrow> \<exists>q'. q_enqueue ops a v q = Inr q' \<and> repr q' (xs @ [v])"
    and dequeue_empty:
      "repr q [] \<Longrightarrow> \<exists>q'. q_dequeue ops q = Inr (None, q') \<and> repr q' []"
    and dequeue_repr:
      "repr q (x # xs) \<Longrightarrow> \<exists>q'. q_dequeue ops q = Inr (Some x, q') \<and> repr q' xs"
    and get_size_repr:
      "repr q xs \<Longrightarrow> length xs < 2 ^ 63 \<Longrightarrow> q_get_size ops q = int (length xs)"
begin

text \<open>
  Any sequence of operations returns what the list model returns and ends in a
  representation of the list model's state.
\<close>

lemma run_ops_refines:
  "repr q xs \<Longrightarrow> fresh_run ops fresh os q \<Longrightarrow>
     \<exists>q'. run_ops ops os q = Inr (fst (spec_ops os xs), q') \<and> repr q' (snd (spec_ops os xs))"
proof (induction os arbitrary: q xs)
  case Nil
  then show ?case by simp
next
  case (Cons p os)
  show ?case
  proof (cases p)
    case (Enq v a)
    with Cons.prems obtain q' where "q_enqueue ops a v q = Inr q'" "repr q' (xs @ [v])"
      "fresh_run ops fresh os q'"
      using enqueue_repr [of q xs a v] by auto
    with Cons.IH [of q' "xs @ [v]"] Enq show ?thesis by (auto split: prod.splits)
  next
    case Deq
    show ?thesis
    proof (cases xs)
      case Nil
      with Cons.prems Deq obtain q' where "q_dequeue ops q = Inr (None, q')" "repr q' []"
        "fresh_run ops fresh os q'"
        using dequeue_empty [of q] by auto
      with Cons.IH [of q' "[]"] Deq Nil show ?thesis by (auto split: prod.splits)
    next
      case ys: (Cons y ys)
      with Cons.prems Deq obtain q' where "q_dequeue ops q = Inr (Some y, q')" "repr q' ys"
        "fresh_run ops fresh os q'"
        using dequeue_repr [of q y ys] by auto
      with Cons.IH [of q' ys] Deq ys show ?thesis by (auto split: prod.splits)
    qed
  qed
qed

end

end
