(* ===== verification/Lock_Queue.thy ===== *)
theory Lock_Queue
  imports Atomic Queue_Spec
begin

text \<open>
  \<open>main/lock-queue.c\<close>: a linked queue with a dummy head node. Producers take the spin lock
  \<open>t_lock\<close>; the single consumer (the core that owns the queue) takes no lock. The first part
  gives the operations as one thread runs them, over an explicit heap of nodes; the second
  part splits them into their accesses to shared memory and interleaves any number of
  producers with the consumer.
\<close>

section \<open>Data\<close>

record lq_node =
  lq_next :: addr
  lq_value :: u64

record lq_queue =
  lq_Head :: addr
  lq_Tail :: addr
  lq_count :: u64
  t_lock :: CMSpinLock

record lq_state =
  lq_heap :: "addr \<rightharpoonup> lq_node"
  lq_Q :: lq_queue

section \<open>Operations\<close>

text \<open>\<open>coremu_mallocz\<close>: abort when \<open>malloc\<close> fails, otherwise a zeroed node.\<close>

definition lq_new_node :: "addr \<Rightarrow> (addr \<rightharpoonup> lq_node) \<Rightarrow> (addr \<rightharpoonup> lq_node) result" where
  "lq_new_node a h =
     (if a = 0 then Inl Aborted else Inr (h(a \<mapsto> \<lparr>lq_next = 0, lq_value = 0\<rparr>)))"

definition lq_initialize :: "addr \<Rightarrow> lq_state \<Rightarrow> lq_state result" where
  "lq_initialize node s = bind_result (lq_new_node node (lq_heap s)) (\<lambda>h.
     bind_result (load h node) (\<lambda>n.
       Inr (s\<lparr>lq_heap := h(node \<mapsto> n\<lparr>lq_next := 0\<rparr>),
              lq_Q := \<lparr>lq_Head = node, lq_Tail = node, lq_count = 0,
                       t_lock = coremu_spin_unlock (t_lock (lq_Q s))\<rparr>\<rparr>)))"

text \<open>
  \<open>new_queue\<close>: \<open>q\<close> is the address of the queue object, \<open>node\<close> that of the dummy. The
  object is zeroed before it is initialised.
\<close>

definition lq_new_queue :: "addr \<Rightarrow> addr \<Rightarrow> (addr \<rightharpoonup> lq_node) \<Rightarrow> lq_state result" where
  "lq_new_queue q node h =
     (if q = 0 then Inl Aborted
      else bind_result
        (lq_initialize node
           \<lparr>lq_heap = h,
            lq_Q = \<lparr>lq_Head = 0, lq_Tail = 0, lq_count = 0, t_lock = \<lparr>lock = 0\<rparr>\<rparr>\<rparr>)
        (\<lambda>s. if lq_Head (lq_Q s) \<noteq> 0 \<and> lq_Tail (lq_Q s) \<noteq> 0
                \<and> lq_Head (lq_Q s) = lq_Tail (lq_Q s)
             then Inr s else Inl Assert_failed))"

text \<open>
  \<open>enqueue\<close>. The thread runs alone: when the lock is held nobody releases it and the call
  never returns.
\<close>

definition lq_enqueue :: "addr \<Rightarrow> u64 \<Rightarrow> lq_state \<Rightarrow> lq_state result" where
  "lq_enqueue node v s = bind_result (lq_new_node node (lq_heap s)) (\<lambda>h0.
     let h1 = h0(node \<mapsto> \<lparr>lq_next = 0, lq_value = v\<rparr>) in
     case coremu_spin_lock [t_lock (lq_Q s)] of
       None \<Rightarrow> Inl No_return
     | Some l \<Rightarrow>
         let Q = (lq_Q s)\<lparr>t_lock := l\<rparr> in
         bind_result (load h1 (lq_Tail Q)) (\<lambda>t.
           Inr (s\<lparr>lq_heap := h1(lq_Tail Q \<mapsto> t\<lparr>lq_next := node\<rparr>),
                  lq_Q := Q\<lparr>lq_Tail := node,
                            lq_count := atomic_inc (lq_count Q),
                            t_lock := coremu_spin_unlock (t_lock Q)\<rparr>\<rparr>)))"

definition lq_dequeue :: "lq_state \<Rightarrow> (u64 option \<times> lq_state) result" where
  "lq_dequeue s =
     (let node = lq_Head (lq_Q s) in
      bind_result (load (lq_heap s) node) (\<lambda>n.
        let new_head = lq_next n in
        if new_head = 0 then Inr (None, s)
        else bind_result (load (lq_heap s) new_head) (\<lambda>m.
          Inr (Some (lq_value m),
               s\<lparr>lq_heap := (lq_heap s)(node := None),
                 lq_Q := (lq_Q s)\<lparr>lq_Head := new_head,
                                   lq_count := atomic_dec (lq_count (lq_Q s))\<rparr>\<rparr>))))"

definition lq_get_size :: "lq_state \<Rightarrow> int" where
  "lq_get_size s = sint (lq_count (lq_Q s))"

definition lq_version :: string where
  "lq_version = ''spinlock based concurrent queue''"

definition lock_queue_ops :: "lq_state queue_ops" where
  "lock_queue_ops = \<lparr>q_enqueue = lq_enqueue, q_dequeue = lq_dequeue, q_get_size = lq_get_size\<rparr>"

section \<open>Interleaving\<close>

text \<open>
  Program counters. A producer allocates and fills its node (which no other thread can see),
  spins for the lock, reads \<open>Q->Tail\<close>, writes \<open>Tail->next\<close>, writes \<open>Q->Tail\<close>, increments
  \<open>Q->count\<close> and releases the lock. The consumer reads \<open>Q->Head\<close>, reads \<open>node->next\<close>, tests
  it and reads the value, writes \<open>Q->Head\<close>, frees the old dummy and decrements the count.
\<close>

datatype lq_ppc =
    P_idle
  | P_spin addr
  | P_load addr
  | P_link addr addr
  | P_tail addr
  | P_count
  | P_unlock

datatype lq_cpc =
    C_idle
  | C_next addr
  | C_test addr addr
  | C_head addr addr u64
  | C_free addr
  | C_dec

text \<open>
  The last four fields are history: the nodes from \<open>Head\<close> on, the values in the order they
  were linked, the values handed to the consumer, and the producer inside the lock. No step
  reads them.
\<close>

record lq_sys = lq_state +
  ppc :: "nat \<Rightarrow> lq_ppc"
  cpc :: lq_cpc
  nodes :: "addr list"
  linked :: "u64 list"
  taken :: "u64 list"
  holder :: "nat option"

datatype lq_event =
    Produce nat u64 addr
  | Prod_step nat
  | Cons_step

text \<open>The value a history field records for a node.\<close>

definition lq_val :: "(addr \<rightharpoonup> lq_node) \<Rightarrow> addr \<Rightarrow> u64" where
  "lq_val h a = (case h a of None \<Rightarrow> 0 | Some n \<Rightarrow> lq_value n)"

definition lq_start :: "nat \<Rightarrow> u64 \<Rightarrow> addr \<Rightarrow> lq_sys \<Rightarrow> lq_sys result option" where
  "lq_start i v a s = (case ppc s i of
     P_idle \<Rightarrow>
       if a \<noteq> 0 \<and> lq_heap s a \<noteq> None then None
       else Some (bind_result (lq_new_node a (lq_heap s)) (\<lambda>h.
         Inr (s\<lparr>lq_heap := h(a \<mapsto> \<lparr>lq_next = 0, lq_value = v\<rparr>),
                ppc := (ppc s)(i := P_spin a)\<rparr>)))
   | _ \<Rightarrow> None)"

definition lq_prod :: "nat \<Rightarrow> lq_sys \<Rightarrow> lq_sys result option" where
  "lq_prod i s = (case ppc s i of
     P_idle \<Rightarrow> None
   | P_spin n \<Rightarrow>
       (let (readval, l) = testandset (t_lock (lq_Q s)) in
        if readval \<noteq> 0 then Some (Inr s)
        else Some (Inr (s\<lparr>lq_Q := (lq_Q s)\<lparr>t_lock := l\<rparr>,
                          ppc := (ppc s)(i := P_load n), holder := Some i\<rparr>)))
   | P_load n \<Rightarrow> Some (Inr (s\<lparr>ppc := (ppc s)(i := P_link n (lq_Tail (lq_Q s)))\<rparr>))
   | P_link n t \<Rightarrow>
       Some (bind_result (load (lq_heap s) t) (\<lambda>tn.
         Inr (s\<lparr>lq_heap := (lq_heap s)(t \<mapsto> tn\<lparr>lq_next := n\<rparr>),
                ppc := (ppc s)(i := P_tail n),
                nodes := nodes s @ [n],
                linked := linked s @ [lq_val (lq_heap s) n]\<rparr>)))
   | P_tail n \<Rightarrow> Some (Inr (s\<lparr>lq_Q := (lq_Q s)\<lparr>lq_Tail := n\<rparr>, ppc := (ppc s)(i := P_count)\<rparr>))
   | P_count \<Rightarrow>
       Some (Inr (s\<lparr>lq_Q := (lq_Q s)\<lparr>lq_count := atomic_inc (lq_count (lq_Q s))\<rparr>,
                    ppc := (ppc s)(i := P_unlock)\<rparr>))
   | P_unlock \<Rightarrow>
       Some (Inr (s\<lparr>lq_Q := (lq_Q s)\<lparr>t_lock := coremu_spin_unlock (t_lock (lq_Q s))\<rparr>,
                    ppc := (ppc s)(i := P_idle), holder := None\<rparr>)))"

definition lq_cons :: "lq_sys \<Rightarrow> lq_sys result" where
  "lq_cons s = (case cpc s of
     C_idle \<Rightarrow> Inr (s\<lparr>cpc := C_next (lq_Head (lq_Q s))\<rparr>)
   | C_next node \<Rightarrow>
       bind_result (load (lq_heap s) node) (\<lambda>n. Inr (s\<lparr>cpc := C_test node (lq_next n)\<rparr>))
   | C_test node nh \<Rightarrow>
       if nh = 0 then Inr (s\<lparr>cpc := C_idle\<rparr>)
       else bind_result (load (lq_heap s) nh) (\<lambda>m. Inr (s\<lparr>cpc := C_head node nh (lq_value m)\<rparr>))
   | C_head node nh v \<Rightarrow>
       Inr (s\<lparr>lq_Q := (lq_Q s)\<lparr>lq_Head := nh\<rparr>, cpc := C_free node,
              nodes := tl (nodes s), taken := taken s @ [v]\<rparr>)
   | C_free node \<Rightarrow>
       bind_result (load (lq_heap s) node) (\<lambda>_.
         Inr (s\<lparr>lq_heap := (lq_heap s)(node := None), cpc := C_dec\<rparr>))
   | C_dec \<Rightarrow>
       Inr (s\<lparr>lq_Q := (lq_Q s)\<lparr>lq_count := atomic_dec (lq_count (lq_Q s))\<rparr>, cpc := C_idle\<rparr>))"

text \<open>One step of the machine; \<open>None\<close> when the event is not enabled.\<close>

fun lq_exec :: "lq_event \<Rightarrow> lq_sys \<Rightarrow> lq_sys result option" where
  "lq_exec (Produce i v a) s = lq_start i v a s"
| "lq_exec (Prod_step i) s = lq_prod i s"
| "lq_exec Cons_step s = Some (lq_cons s)"

text \<open>
  A queue made by \<open>new_queue\<close> before the threads start, and the states that an interleaving
  can reach from it. A step that faults ends the run.
\<close>

definition lq_init :: "lq_state \<Rightarrow> lq_sys" where
  "lq_init q = \<lparr>lq_heap = lq_heap q, lq_Q = lq_Q q, ppc = (\<lambda>_. P_idle), cpc = C_idle,
     nodes = [lq_Head (lq_Q q)], linked = [], taken = [], holder = None\<rparr>"

inductive lq_reachable :: "lq_sys \<Rightarrow> bool" where
  start: "lq_new_queue q a Map.empty = Inr st \<Longrightarrow> lq_reachable (lq_init st)"
| step: "lq_reachable s \<Longrightarrow> lq_exec e s = Some (Inr t) \<Longrightarrow> lq_reachable t"

fun lq_run :: "lq_event list \<Rightarrow> lq_sys \<Rightarrow> lq_sys result option" where
  "lq_run [] s = Some (Inr s)"
| "lq_run (e # es) s = (case lq_exec e s of
     None \<Rightarrow> None
   | Some (Inl f) \<Rightarrow> Some (Inl f)
   | Some (Inr t) \<Rightarrow> lq_run es t)"

section \<open>The sequential contract\<close>

text \<open>The successor map of the heap, and the chain of nodes from the head.\<close>

definition lq_succ :: "(addr \<rightharpoonup> lq_node) \<Rightarrow> addr \<rightharpoonup> addr" where
  "lq_succ h a = map_option lq_next (h a)"

definition lq_nodes_ok :: "(addr \<rightharpoonup> lq_node) \<Rightarrow> addr \<Rightarrow> addr list \<Rightarrow> bool" where
  "lq_nodes_ok h a ns \<longleftrightarrow> chain (lq_succ h) a ns \<and> ns \<noteq> [] \<and> distinct ns"

definition lq_repr :: "lq_state \<Rightarrow> u64 list \<Rightarrow> bool" where
  "lq_repr s xs \<longleftrightarrow> (\<exists>ns. lq_nodes_ok (lq_heap s) (lq_Head (lq_Q s)) ns
     \<and> lq_Tail (lq_Q s) = last ns
     \<and> xs = map (lq_val (lq_heap s)) (tl ns)
     \<and> lq_count (lq_Q s) = of_nat (length xs)
     \<and> lock (t_lock (lq_Q s)) = 0)"

definition lq_fresh :: "lq_state \<Rightarrow> addr \<Rightarrow> bool" where
  "lq_fresh s a \<longleftrightarrow> a \<noteq> 0 \<and> lq_heap s a = None"

lemma lq_succ_upd [simp]: "lq_succ (h(a \<mapsto> n)) = (lq_succ h)(a \<mapsto> lq_next n)"
  by (auto simp: lq_succ_def)

lemma lq_succ_free [simp]: "lq_succ (h(a := None)) = (lq_succ h)(a := None)"
  by (auto simp: lq_succ_def)

lemma lq_succ_Some [simp]: "h a = Some n \<Longrightarrow> lq_succ h a = Some (lq_next n)"
  by (simp add: lq_succ_def)

lemma lq_val_Some [simp]: "h a = Some n \<Longrightarrow> lq_val h a = lq_value n"
  by (simp add: lq_val_def)

lemma lq_val_upd: "lq_val (h(a := x)) b = (if a = b then (case x of None \<Rightarrow> 0 | Some n \<Rightarrow> lq_value n) else lq_val h b)"
  by (simp add: lq_val_def)

lemma lq_nodes_dom:
  "lq_nodes_ok h a ns \<Longrightarrow> n \<in> set ns \<Longrightarrow> n \<noteq> 0 \<and> (\<exists>m. h n = Some m)"
  unfolding lq_nodes_ok_def
  using chain_dom [of "lq_succ h"] chain_nonzero [of "lq_succ h"]
  by (fastforce simp: lq_succ_def)

lemma lq_nodes_hd: "lq_nodes_ok h a ns \<Longrightarrow> ns = a # tl ns"
  unfolding lq_nodes_ok_def by (metis chain_hd list.collapse)

lemma lq_nodes_last:
  "lq_nodes_ok h a ns \<Longrightarrow> \<exists>m. h (last ns) = Some m \<and> lq_next m = 0"
  unfolding lq_nodes_ok_def using chain_last [of "lq_succ h" a ns]
  by (auto simp: lq_succ_def)

lemma lq_nodes_append:
  assumes "lq_nodes_ok h a ns" "n \<notin> set ns" "n \<noteq> 0" "h n = Some m" "lq_next m = 0"
    "h (last ns) = Some t"
  shows "lq_nodes_ok (h(last ns \<mapsto> t\<lparr>lq_next := n\<rparr>)) a (ns @ [n])"
  using assms chain_append [of "lq_succ h" a ns n] by (simp add: lq_nodes_ok_def)

text \<open>Two facts about the successor of the first node: it is null exactly at the end of the
  chain, and otherwise it is the second node.\<close>

lemma lq_nodes_next:
  assumes "lq_nodes_ok h a ns" "h a = Some n"
  shows "lq_next n = 0 \<longleftrightarrow> tl ns = []"
    and "tl ns \<noteq> [] \<Longrightarrow> lq_next n = hd (tl ns)"
    and "tl ns \<noteq> [] \<Longrightarrow> lq_nodes_ok h (lq_next n) (tl ns)"
proof -
  from assms have s: "lq_succ h a = Some (lq_next n)" and c: "chain (lq_succ h) a ns" "ns \<noteq> []"
    "distinct ns"
    by (auto simp: lq_nodes_ok_def)
  from chain_tl_Nil [OF c(1,2) s] show "lq_next n = 0 \<longleftrightarrow> tl ns = []" by simp
  from chain_tl [OF c(1,2) s] have t: "chain (lq_succ h) (lq_next n) (tl ns)" .
  then show "tl ns \<noteq> [] \<Longrightarrow> lq_next n = hd (tl ns)" by (rule chain_hd)
  from t c show "tl ns \<noteq> [] \<Longrightarrow> lq_nodes_ok h (lq_next n) (tl ns)"
    by (simp add: lq_nodes_ok_def distinct_tl)
qed

lemma map_lq_val_upd_notin [simp]:
  "a \<notin> set ns \<Longrightarrow> map (lq_val (h(a := x))) ns = map (lq_val h) ns"
  by (auto simp: lq_val_upd)

lemma map_lq_val_next [simp]:
  "h a = Some n \<Longrightarrow> map (lq_val (h(a \<mapsto> n\<lparr>lq_next := b\<rparr>))) ns = map (lq_val h) ns"
  by (auto simp: lq_val_upd)

lemma lq_nodes_insert [simp]:
  "a \<notin> set ns \<Longrightarrow> lq_nodes_ok (h(a := x)) b ns = lq_nodes_ok h b ns"
  by (cases x) (simp_all add: lq_nodes_ok_def)

lemma lq_nodes_hd_mem: "lq_nodes_ok h a ns \<Longrightarrow> a \<in> set ns"
  unfolding lq_nodes_ok_def by (metis chain_hd list.set_sel(1))

lemma lq_nodes_hd_notin: "lq_nodes_ok h a ns \<Longrightarrow> a \<notin> set (tl ns)"
  unfolding lq_nodes_ok_def by (cases ns) auto

lemma lq_reprE:
  assumes "lq_repr s xs"
  obtains ns where "lq_nodes_ok (lq_heap s) (lq_Head (lq_Q s)) ns"
    "lq_Tail (lq_Q s) = last ns" "xs = map (lq_val (lq_heap s)) (tl ns)"
    "lq_count (lq_Q s) = of_nat (length xs)" "lock (t_lock (lq_Q s)) = 0"
  using assms unfolding lq_repr_def by blast

lemma lq_new_queue_repr:
  assumes "q \<noteq> 0" "a \<noteq> 0"
  shows "\<exists>s. lq_new_queue q a h = Inr s \<and> lq_repr s []"
proof -
  let ?s = "\<lparr>lq_heap = h(a \<mapsto> \<lparr>lq_next = 0, lq_value = 0\<rparr>),
     lq_Q = \<lparr>lq_Head = a, lq_Tail = a, lq_count = 0, t_lock = \<lparr>lock = 0\<rparr>\<rparr>\<rparr>"
  have "lq_new_queue q a h = Inr ?s"
    using assms by (simp add: lq_new_queue_def lq_initialize_def lq_new_node_def
        coremu_spin_unlock_def)
  moreover have "lq_repr ?s []"
    unfolding lq_repr_def by (rule exI [of _ "[a]"]) (use assms in \<open>simp add: lq_nodes_ok_def\<close>)
  ultimately show ?thesis by blast
qed

lemma lq_enqueue_repr:
  assumes "lq_repr s xs" "lq_fresh s a"
  shows "\<exists>s'. lq_enqueue a v s = Inr s' \<and> lq_repr s' (xs @ [v])"
proof -
  from assms(1) obtain ns where ns: "lq_nodes_ok (lq_heap s) (lq_Head (lq_Q s)) ns"
    and tail: "lq_Tail (lq_Q s) = last ns" and xs: "xs = map (lq_val (lq_heap s)) (tl ns)"
    and cnt: "lq_count (lq_Q s) = of_nat (length xs)" and free: "lock (t_lock (lq_Q s)) = 0"
    by (rule lq_reprE)
  from assms(2) have a: "a \<noteq> 0" "lq_heap s a = None" by (auto simp: lq_fresh_def)
  with ns have notin: "a \<notin> set ns" by (metis lq_nodes_dom option.distinct(1))
  have ne: "ns \<noteq> []" using ns by (simp add: lq_nodes_ok_def)
  obtain t where t: "lq_heap s (last ns) = Some t" "last ns \<noteq> 0"
    using lq_nodes_dom [OF ns, of "last ns"] ne by auto
  define h1 where "h1 = (lq_heap s)(a \<mapsto> \<lparr>lq_next = 0, lq_value = v\<rparr>)"
  from a t have al: "last ns \<noteq> a" by auto
  with t have h1t: "h1 (last ns) = Some t" by (simp add: h1_def)
  let ?s = "s\<lparr>lq_heap := h1(last ns \<mapsto> t\<lparr>lq_next := a\<rparr>),
    lq_Q := (lq_Q s)\<lparr>lq_Tail := a, lq_count := of_nat (length xs) + 1, t_lock := \<lparr>lock = 0\<rparr>\<rparr>\<rparr>"
  have "lq_enqueue a v s = Inr ?s"
    using a t free tail cnt h1t
    by (simp add: lq_enqueue_def lq_new_node_def h1_def atomic_inc_def coremu_spin_unlock_def)
  moreover have "lq_repr ?s (xs @ [v])"
    unfolding lq_repr_def
  proof (intro exI conjI)
    have "lq_nodes_ok h1 (lq_Head (lq_Q s)) ns" using ns notin by (simp add: h1_def)
    then show "lq_nodes_ok (lq_heap ?s) (lq_Head (lq_Q ?s)) (ns @ [a])"
      using notin a h1t by (auto intro!: lq_nodes_append simp: h1_def)
    have "map (lq_val h1) (tl ns) = xs"
      using notin xs ne unfolding h1_def by (subst map_lq_val_upd_notin) (auto dest: list.set_sel(2))
    then show "xs @ [v] = map (lq_val (lq_heap ?s)) (tl (ns @ [a]))"
      using ne h1t al by (simp add: h1_def lq_val_def)
  qed simp_all
  ultimately show ?thesis by blast
qed

lemma lq_dequeue_empty:
  assumes "lq_repr s []"
  shows "lq_dequeue s = Inr (None, s)"
proof -
  from assms obtain ns where ns: "lq_nodes_ok (lq_heap s) (lq_Head (lq_Q s)) ns"
    and xs: "tl ns = []"
    unfolding lq_repr_def by auto
  obtain n where n: "lq_heap s (lq_Head (lq_Q s)) = Some n" "lq_Head (lq_Q s) \<noteq> 0"
    using lq_nodes_dom [OF ns lq_nodes_hd_mem [OF ns]] by blast
  with lq_nodes_next(1) [OF ns n(1)] xs show ?thesis by (simp add: lq_dequeue_def)
qed

lemma lq_dequeue_repr:
  assumes "lq_repr s (x # xs)"
  shows "\<exists>s'. lq_dequeue s = Inr (Some x, s') \<and> lq_repr s' xs"
proof -
  let ?hd = "lq_Head (lq_Q s)"
  from assms obtain ns where ns: "lq_nodes_ok (lq_heap s) ?hd ns"
    and tail: "lq_Tail (lq_Q s) = last ns" and xs: "x # xs = map (lq_val (lq_heap s)) (tl ns)"
    and cnt: "lq_count (lq_Q s) = of_nat (length (x # xs))" and free: "lock (t_lock (lq_Q s)) = 0"
    by (rule lq_reprE)
  obtain n where n: "lq_heap s ?hd = Some n" "?hd \<noteq> 0"
    using lq_nodes_dom [OF ns lq_nodes_hd_mem [OF ns]] by blast
  from xs have ne: "tl ns \<noteq> []" by auto
  note nx = lq_nodes_next [OF ns n(1)]
  obtain m where m: "lq_heap s (lq_next n) = Some m"
    using lq_nodes_dom [OF nx(3) [OF ne] lq_nodes_hd_mem [OF nx(3) [OF ne]]] by blast
  have hd_notin: "?hd \<notin> set (tl ns)"
    by (rule lq_nodes_hd_notin [OF ns])
  let ?s = "s\<lparr>lq_heap := (lq_heap s)(?hd := None),
    lq_Q := (lq_Q s)\<lparr>lq_Head := lq_next n, lq_count := of_nat (length xs)\<rparr>\<rparr>"
  have x: "x = lq_value m" using xs nx(2) ne m by (cases "tl ns") auto
  have "lq_dequeue s = Inr (Some x, ?s)"
    using n m nx(1) ne x cnt by (simp add: lq_dequeue_def atomic_dec_def)
  moreover have "lq_repr ?s xs"
    unfolding lq_repr_def
  proof (intro exI conjI)
    show "lq_nodes_ok (lq_heap ?s) (lq_Head (lq_Q ?s)) (tl ns)"
      using nx(3) [OF ne] hd_notin by simp
    show "lq_Tail (lq_Q ?s) = last (tl ns)"
      using tail ne by (simp add: last_tl)
    have "tl (tl ns) \<noteq> tl ns \<longrightarrow> ?hd \<notin> set (tl (tl ns))"
      using hd_notin ne by (meson list.set_sel(2))
    then show "xs = map (lq_val (lq_heap ?s)) (tl (tl ns))"
      using xs ne hd_notin by (cases "tl ns") auto
  qed (use cnt free in simp_all)
  ultimately show ?thesis by blast
qed

lemma lq_get_size_repr: "lq_repr s xs \<Longrightarrow> length xs < 2 ^ 63 \<Longrightarrow> lq_get_size s = int (length xs)"
  unfolding lq_repr_def lq_get_size_def by (metis sint_of_nat_64)

interpretation lq: fifo_queue lock_queue_ops lq_repr lq_fresh
proof
  show "\<exists>q'. q_enqueue lock_queue_ops a v q = Inr q' \<and> lq_repr q' (xs @ [v])"
    if "lq_repr q xs" "lq_fresh q a" for q xs a v
    using lq_enqueue_repr [OF that] by (simp add: lock_queue_ops_def)
  show "\<exists>q'. q_dequeue lock_queue_ops q = Inr (None, q') \<and> lq_repr q' []" if "lq_repr q []" for q
    using lq_dequeue_empty [OF that] that by (simp add: lock_queue_ops_def)
  show "\<exists>q'. q_dequeue lock_queue_ops q = Inr (Some x, q') \<and> lq_repr q' xs"
    if "lq_repr q (x # xs)" for q x xs
    using lq_dequeue_repr [OF that] by (simp add: lock_queue_ops_def)
  show "q_get_size lock_queue_ops q = int (length xs)"
    if "lq_repr q xs" "length xs < 2 ^ 63" for q xs
    using lq_get_size_repr [OF that] by (simp add: lock_queue_ops_def)
qed
section \<open>Safety of every interleaving\<close>

text \<open>What a program counter says about its thread: the node it has allocated and not linked
  yet, whether it is inside the lock, and whether it has linked a node it has not counted.\<close>

fun pend :: "lq_ppc \<Rightarrow> addr option" where
  "pend (P_spin n) = Some n"
| "pend (P_load n) = Some n"
| "pend (P_link n t) = Some n"
| "pend _ = None"

fun in_cs :: "lq_ppc \<Rightarrow> bool" where
  "in_cs P_idle = False"
| "in_cs (P_spin n) = False"
| "in_cs _ = True"

fun uncounted :: "lq_ppc \<Rightarrow> bool" where
  "uncounted (P_tail n) = True"
| "uncounted P_count = True"
| "uncounted _ = False"

definition lq_lock_inv :: "lq_sys \<Rightarrow> bool" where
  "lq_lock_inv s \<longleftrightarrow> (lock (t_lock (lq_Q s)) = 0 \<longleftrightarrow> holder s = None)
     \<and> (\<forall>i. in_cs (ppc s i) \<longleftrightarrow> holder s = Some i)"

definition lq_tail_inv :: "lq_sys \<Rightarrow> bool" where
  "lq_tail_inv s \<longleftrightarrow> (case holder s of
       None \<Rightarrow> lq_Tail (lq_Q s) = last (nodes s)
     | Some i \<Rightarrow> (case ppc s i of
           P_tail n \<Rightarrow> last (nodes s) = n
         | P_link n t \<Rightarrow> t = last (nodes s) \<and> lq_Tail (lq_Q s) = last (nodes s)
         | _ \<Rightarrow> lq_Tail (lq_Q s) = last (nodes s)))"

definition lq_pend_inv :: "lq_sys \<Rightarrow> bool" where
  "lq_pend_inv s \<longleftrightarrow>
     (\<forall>i n. pend (ppc s i) = Some n \<longrightarrow>
        n \<noteq> 0 \<and> n \<notin> set (nodes s) \<and> (\<exists>m. lq_heap s n = Some m \<and> lq_next m = 0))
     \<and> (\<forall>i j n. pend (ppc s i) = Some n \<longrightarrow> pend (ppc s j) = Some n \<longrightarrow> i = j)"

definition lq_cons_inv :: "lq_sys \<Rightarrow> bool" where
  "lq_cons_inv s \<longleftrightarrow> (case cpc s of
       C_idle \<Rightarrow> True
     | C_next node \<Rightarrow> node = lq_Head (lq_Q s)
     | C_test node nh \<Rightarrow> node = lq_Head (lq_Q s) \<and>
         (nh \<noteq> 0 \<longrightarrow> tl (nodes s) \<noteq> [] \<and> nh = hd (tl (nodes s)))
     | C_head node nh v \<Rightarrow> node = lq_Head (lq_Q s) \<and> tl (nodes s) \<noteq> [] \<and> nh = hd (tl (nodes s))
         \<and> v = lq_val (lq_heap s) nh
     | C_free node \<Rightarrow> node \<noteq> 0 \<and> node \<notin> set (nodes s) \<and> (\<exists>m. lq_heap s node = Some m)
         \<and> (\<forall>i. pend (ppc s i) \<noteq> Some node)
     | C_dec \<Rightarrow> True)"

definition lq_hist_inv :: "lq_sys \<Rightarrow> bool" where
  "lq_hist_inv s \<longleftrightarrow> linked s = taken s @ map (lq_val (lq_heap s)) (tl (nodes s))"

definition undec :: "lq_cpc \<Rightarrow> bool" where
  "undec c \<longleftrightarrow> (case c of C_free _ \<Rightarrow> True | C_dec \<Rightarrow> True | _ \<Rightarrow> False)"

definition lq_count_inv :: "lq_sys \<Rightarrow> bool" where
  "lq_count_inv s \<longleftrightarrow>
     lq_count (lq_Q s) + of_bool (\<exists>i. holder s = Some i \<and> uncounted (ppc s i)) + of_nat (length (taken s))
       = of_nat (length (linked s)) + of_bool (undec (cpc s))"

definition lq_inv :: "lq_sys \<Rightarrow> bool" where
  "lq_inv s \<longleftrightarrow> lq_nodes_ok (lq_heap s) (lq_Head (lq_Q s)) (nodes s)
     \<and> lq_lock_inv s \<and> lq_tail_inv s \<and> lq_pend_inv s \<and> lq_cons_inv s \<and> lq_hist_inv s
     \<and> lq_count_inv s"

lemmas lq_inv_defs = lq_lock_inv_def lq_tail_inv_def lq_pend_inv_def lq_cons_inv_def
  lq_hist_inv_def lq_count_inv_def undec_def

declare lq_ppc.case_cong [cong] lq_cpc.case_cong [cong]

lemma lq_inv_init:
  assumes "lq_new_queue q a Map.empty = Inr st"
  shows "lq_inv (lq_init st)"
proof -
  from assms have "a \<noteq> 0"
    by (auto simp: lq_new_queue_def lq_initialize_def lq_new_node_def split: if_splits)
  then have "st = \<lparr>lq_heap = [a \<mapsto> \<lparr>lq_next = 0, lq_value = 0\<rparr>],
     lq_Q = \<lparr>lq_Head = a, lq_Tail = a, lq_count = 0, t_lock = \<lparr>lock = 0\<rparr>\<rparr>\<rparr>"
    using assms by (auto simp: lq_new_queue_def lq_initialize_def lq_new_node_def
        coremu_spin_unlock_def split: if_splits)
  with \<open>a \<noteq> 0\<close> show ?thesis
    by (simp add: lq_inv_def lq_inv_defs lq_init_def lq_nodes_ok_def)
qed

lemma lq_invD:
  assumes "lq_inv s"
  shows "lq_nodes_ok (lq_heap s) (lq_Head (lq_Q s)) (nodes s)"
    and "lq_lock_inv s" and "lq_tail_inv s" and "lq_pend_inv s" and "lq_cons_inv s"
    and "lq_hist_inv s" and "lq_count_inv s"
  using assms by (simp_all add: lq_inv_def)

lemma lq_inv_holder: "lq_inv s \<Longrightarrow> in_cs (ppc s i) \<longleftrightarrow> holder s = Some i"
  by (simp add: lq_inv_def lq_lock_inv_def)

lemma lq_inv_pend:
  assumes "lq_inv s" "pend (ppc s i) = Some n"
  shows "n \<noteq> 0" "n \<notin> set (nodes s)" "\<exists>m. lq_heap s n = Some m \<and> lq_next m = 0"
    and "pend (ppc s j) = Some n \<Longrightarrow> j = i"
  using assms by (auto simp: lq_inv_def lq_pend_inv_def)

text \<open>What a producer's step keeps when it touches neither the heap nor the chain.\<close>

lemma lq_frame:
  assumes "lq_inv s" "lq_heap t = lq_heap s" "nodes t = nodes s" "cpc t = cpc s"
    "lq_Head (lq_Q t) = lq_Head (lq_Q s)" "linked t = linked s" "taken t = taken s"
    and "\<And>j. pend (ppc t j) = pend (ppc s j)"
  shows "lq_nodes_ok (lq_heap t) (lq_Head (lq_Q t)) (nodes t)"
    and "lq_pend_inv t" and "lq_cons_inv t" and "lq_hist_inv t"
  using assms
  by (simp_all add: lq_inv_def lq_pend_inv_def lq_cons_inv_def lq_hist_inv_def)

lemma lq_start_inv:
  assumes inv: "lq_inv s" and st: "lq_start i v a s = Some (Inr t)"
  shows "lq_inv t"
proof -
  let ?m = "\<lparr>lq_next = 0, lq_value = v\<rparr>"
  from st have idle: "ppc s i = P_idle" and a: "a \<noteq> 0" "lq_heap s a = None"
    and t: "t = s\<lparr>lq_heap := (lq_heap s)(a \<mapsto> ?m), ppc := (ppc s)(i := P_spin a)\<rparr>"
    by (auto simp: lq_start_def lq_new_node_def split: lq_ppc.splits if_splits)
  from inv have ok: "lq_nodes_ok (lq_heap s) (lq_Head (lq_Q s)) (nodes s)"
    by (simp add: lq_inv_def)
  with a have notin: "a \<notin> set (nodes s)" by (metis lq_nodes_dom option.distinct(1))
  then have notin': "a \<notin> set (tl (nodes s))" by (blast dest: in_set_tl)
  have hol: "holder s \<noteq> Some i" using lq_inv_holder [OF inv, of i] idle by simp
  have np: "pend (ppc s j) \<noteq> Some a" for j
    using lq_inv_pend(3) [OF inv, of j a] a by auto
  show ?thesis
    unfolding lq_inv_def
  proof (intro conjI)
    show "lq_nodes_ok (lq_heap t) (lq_Head (lq_Q t)) (nodes t)" using ok notin t by simp
    show "lq_lock_inv t" using lq_invD(2) [OF inv] hol t by (auto simp: lq_lock_inv_def)
    show "lq_tail_inv t"
      using inv hol t by (auto simp: lq_inv_def lq_tail_inv_def split: option.splits)
    show "lq_pend_inv t"
      using inv np notin a t by (auto simp: lq_inv_def lq_pend_inv_def)
    show "lq_cons_inv t"
      using inv a np notin t notin'
      by (auto simp: lq_inv_def lq_cons_inv_def lq_val_upd split: lq_cpc.splits)
    show "lq_hist_inv t" using inv notin' t by (simp add: lq_inv_def lq_hist_inv_def)
    have "(\<exists>j. holder t = Some j \<and> uncounted (ppc t j))
        = (\<exists>j. holder s = Some j \<and> uncounted (ppc s j))"
      using hol t by auto
    with lq_invD(7) [OF inv] t show "lq_count_inv t" by (simp add: lq_count_inv_def)
  qed
qed

lemma lq_spin_inv:
  assumes inv: "lq_inv s" and pc: "ppc s i = P_spin n" and st: "lq_prod i s = Some (Inr t)"
  shows "lq_inv t"
proof (cases "lock (t_lock (lq_Q s)) = 0")
  case False
  with pc st inv show ?thesis by (simp add: lq_prod_def)
next
  case True
  with pc st have t: "t = s\<lparr>lq_Q := (lq_Q s)\<lparr>t_lock := (t_lock (lq_Q s))\<lparr>lock := 1\<rparr>\<rparr>,
      ppc := (ppc s)(i := P_load n), holder := Some i\<rparr>"
    by (simp add: lq_prod_def)
  from lq_invD(2) [OF inv] True have none: "holder s = None" "\<And>j. \<not> in_cs (ppc s j)"
    by (auto simp: lq_lock_inv_def)
  have pe: "pend (ppc t j) = pend (ppc s j)" for j using pc t by simp
  have "lq_lock_inv t" using none t by (auto simp: lq_lock_inv_def)
  moreover have "lq_tail_inv t" using lq_invD(3) [OF inv] none t by (simp add: lq_tail_inv_def)
  moreover have "lq_count_inv t" using lq_invD(7) [OF inv] none t
    by (auto simp: lq_count_inv_def)
  ultimately show ?thesis using lq_frame [OF inv _ _ _ _ _ _ pe] t by (simp add: lq_inv_def)
qed

lemma lq_load_inv:
  assumes inv: "lq_inv s" and pc: "ppc s i = P_load n" and st: "lq_prod i s = Some (Inr t)"
  shows "lq_inv t"
proof -
  from pc st have t: "t = s\<lparr>ppc := (ppc s)(i := P_link n (lq_Tail (lq_Q s)))\<rparr>"
    by (simp add: lq_prod_def)
  from lq_inv_holder [OF inv, of i] pc have hol: "holder s = Some i" by simp
  have pe: "pend (ppc t j) = pend (ppc s j)" for j using pc t by simp
  have "lq_lock_inv t" using lq_invD(2) [OF inv] hol t by (auto simp: lq_lock_inv_def)
  moreover have "lq_tail_inv t" using lq_invD(3) [OF inv] hol pc t by (simp add: lq_tail_inv_def)
  moreover have "lq_count_inv t" using lq_invD(7) [OF inv] hol pc t
    by (auto simp: lq_count_inv_def)
  ultimately show ?thesis using lq_frame [OF inv _ _ _ _ _ _ pe] t by (simp add: lq_inv_def)
qed

lemma lq_link_safe:
  assumes inv: "lq_inv s" and pc: "ppc s i = P_link n t"
  shows "t = last (nodes s)" "t \<noteq> 0" "\<exists>m. lq_heap s t = Some m"
proof -
  from lq_inv_holder [OF inv, of i] pc have hol: "holder s = Some i" by simp
  with lq_invD(3) [OF inv] pc show t: "t = last (nodes s)" by (simp add: lq_tail_inv_def)
  have "nodes s \<noteq> []" using lq_invD(1) [OF inv] by (simp add: lq_nodes_ok_def)
  then show "t \<noteq> 0" "\<exists>m. lq_heap s t = Some m"
    using lq_nodes_dom [OF lq_invD(1) [OF inv], of t] t by auto
qed

lemma lq_link_inv:
  assumes inv: "lq_inv s" and pc: "ppc s i = P_link n tl'" and st: "lq_prod i s = Some (Inr t)"
  shows "lq_inv t"
proof -
  note safe = lq_link_safe [OF inv pc]
  then obtain tn where tn: "lq_heap s tl' = Some tn" by blast
  define h where "h = (lq_heap s)(tl' \<mapsto> tn\<lparr>lq_next := n\<rparr>)"
  from pc st tn safe have t: "t = s\<lparr>lq_heap := h, ppc := (ppc s)(i := P_tail n),
      nodes := nodes s @ [n], linked := linked s @ [lq_val (lq_heap s) n]\<rparr>"
    by (simp add: lq_prod_def h_def)
  from lq_inv_holder [OF inv, of i] pc have hol: "holder s = Some i" by simp
  have ne: "nodes s \<noteq> []" using lq_invD(1) [OF inv] by (simp add: lq_nodes_ok_def)
  have pn: "pend (ppc s i) = Some n" using pc by simp
  obtain m where n: "n \<noteq> 0" "n \<notin> set (nodes s)" "lq_heap s n = Some m" "lq_next m = 0"
    using lq_inv_pend [OF inv pn] by blast
  have uniq: "pend (ppc s j) = Some n \<Longrightarrow> j = i" for j
    by (rule lq_inv_pend(4) [OF inv pn])
  have vals: "map (lq_val h) ns = map (lq_val (lq_heap s)) ns" for ns
    using tn by (simp add: h_def)
  have val: "lq_val h a = lq_val (lq_heap s) a" for a
    using tn by (simp add: h_def lq_val_upd lq_val_def)
  have inh: "h a = (if a = tl' then Some (tn\<lparr>lq_next := n\<rparr>) else lq_heap s a)" for a
    by (simp add: h_def)
  have tl_in: "tl' \<in> set (nodes s)" using safe ne by simp
  have "lq_nodes_ok h (lq_Head (lq_Q s)) (nodes s @ [n])"
    using lq_nodes_append [OF lq_invD(1) [OF inv] n(2,1,3,4)] tn safe by (simp add: h_def)
  moreover have "lq_lock_inv t" using lq_invD(2) [OF inv] hol t by (auto simp: lq_lock_inv_def)
  moreover have "lq_tail_inv t" using hol t by (simp add: lq_tail_inv_def)
  moreover have "lq_pend_inv t"
    unfolding lq_pend_inv_def
  proof (intro conjI allI impI)
    fix j k assume *: "pend (ppc t j) = Some k"
    with t have j: "j \<noteq> i" "pend (ppc s j) = Some k" by (auto split: if_splits)
    with uniq have "k \<noteq> n" by auto
    with lq_inv_pend [OF inv j(2)] tl_in t show "k \<noteq> 0" "k \<notin> set (nodes t)"
      "\<exists>m. lq_heap t k = Some m \<and> lq_next m = 0"
      by (auto simp: inh)
  next
    fix j k l assume "pend (ppc t j) = Some l" "pend (ppc t k) = Some l"
    with lq_invD(4) [OF inv] t show "j = k" by (auto simp: lq_pend_inv_def split: if_splits)
  qed
  moreover have "lq_cons_inv t" using lq_invD(5) [OF inv] pc t ne n(3)
    by (auto simp: lq_cons_inv_def val inh hd_append split: lq_cpc.splits) (metis pend.simps(3))+
  moreover have "lq_hist_inv t" using lq_invD(6) [OF inv] t ne by (simp add: lq_hist_inv_def vals val)
  moreover have "lq_count_inv t" using lq_invD(7) [OF inv] hol pc t
    by (simp add: lq_count_inv_def algebra_simps)
  ultimately show ?thesis using t by (simp add: lq_inv_def)
qed

lemma lq_tail_step_inv:
  assumes inv: "lq_inv s" and pc: "ppc s i = P_tail n" and st: "lq_prod i s = Some (Inr t)"
  shows "lq_inv t"
proof -
  from pc st have t: "t = s\<lparr>lq_Q := (lq_Q s)\<lparr>lq_Tail := n\<rparr>, ppc := (ppc s)(i := P_count)\<rparr>"
    by (simp add: lq_prod_def)
  from lq_inv_holder [OF inv, of i] pc have hol: "holder s = Some i" by simp
  have pe: "pend (ppc t j) = pend (ppc s j)" for j using pc t by simp
  have "lq_lock_inv t" using lq_invD(2) [OF inv] hol t by (auto simp: lq_lock_inv_def)
  moreover have "lq_tail_inv t" using lq_invD(3) [OF inv] hol pc t by (simp add: lq_tail_inv_def)
  moreover have "lq_count_inv t" using lq_invD(7) [OF inv] hol pc t
    by (auto simp: lq_count_inv_def)
  ultimately show ?thesis using lq_frame [OF inv _ _ _ _ _ _ pe] t by (simp add: lq_inv_def)
qed

lemma lq_count_step_inv:
  assumes inv: "lq_inv s" and pc: "ppc s i = P_count" and st: "lq_prod i s = Some (Inr t)"
  shows "lq_inv t"
proof -
  from pc st have t: "t = s\<lparr>lq_Q := (lq_Q s)\<lparr>lq_count := lq_count (lq_Q s) + 1\<rparr>,
      ppc := (ppc s)(i := P_unlock)\<rparr>"
    by (simp add: lq_prod_def atomic_inc_def)
  from lq_inv_holder [OF inv, of i] pc have hol: "holder s = Some i" by simp
  have pe: "pend (ppc t j) = pend (ppc s j)" for j using pc t by simp
  have "lq_lock_inv t" using lq_invD(2) [OF inv] hol t by (auto simp: lq_lock_inv_def)
  moreover have "lq_tail_inv t" using lq_invD(3) [OF inv] hol pc t by (simp add: lq_tail_inv_def)
  moreover have "lq_count_inv t" using lq_invD(7) [OF inv] hol pc t
    by (simp add: lq_count_inv_def algebra_simps)
  ultimately show ?thesis using lq_frame [OF inv _ _ _ _ _ _ pe] t by (simp add: lq_inv_def)
qed

lemma lq_unlock_step_inv:
  assumes inv: "lq_inv s" and pc: "ppc s i = P_unlock" and st: "lq_prod i s = Some (Inr t)"
  shows "lq_inv t"
proof -
  from pc st have t: "t = s\<lparr>lq_Q := (lq_Q s)\<lparr>t_lock := (t_lock (lq_Q s))\<lparr>lock := 0\<rparr>\<rparr>,
      ppc := (ppc s)(i := P_idle), holder := None\<rparr>"
    by (simp add: lq_prod_def coremu_spin_unlock_def)
  from lq_inv_holder [OF inv, of i] pc have hol: "holder s = Some i" by simp
  have pe: "pend (ppc t j) = pend (ppc s j)" for j using pc t by simp
  have "lq_lock_inv t" using lq_invD(2) [OF inv] hol t by (auto simp: lq_lock_inv_def)
  moreover have "lq_tail_inv t" using lq_invD(3) [OF inv] hol pc t by (simp add: lq_tail_inv_def)
  moreover have "lq_count_inv t" using lq_invD(7) [OF inv] hol pc t
    by (simp add: lq_count_inv_def)
  ultimately show ?thesis using lq_frame [OF inv _ _ _ _ _ _ pe] t by (simp add: lq_inv_def)
qed

lemma lq_prod_inv:
  assumes "lq_inv s" "lq_prod i s = Some (Inr t)"
  shows "lq_inv t"
proof (cases "ppc s i")
  case P_idle
  with assms show ?thesis by (simp add: lq_prod_def)
qed (use assms in \<open>auto intro: lq_spin_inv lq_load_inv lq_link_inv lq_tail_step_inv
       lq_count_step_inv lq_unlock_step_inv\<close>)

lemma lq_prod_safe: "lq_inv s \<Longrightarrow> lq_prod i s = Some r \<Longrightarrow> \<exists>t. r = Inr t"
  using lq_link_safe [of s i]
  by (fastforce simp: lq_prod_def split: lq_ppc.splits if_splits prod.splits)

text \<open>The consumer. The dummy node is always there to be read, and a non-null successor is
  the second node of the chain.\<close>

lemma lq_head_node:
  assumes "lq_inv s"
  obtains n where "lq_heap s (lq_Head (lq_Q s)) = Some n" "lq_Head (lq_Q s) \<noteq> 0"
    "lq_next n \<noteq> 0 \<longrightarrow> tl (nodes s) \<noteq> [] \<and> lq_next n = hd (tl (nodes s))"
proof -
  note ok = lq_invD(1) [OF assms]
  obtain n where n: "lq_heap s (lq_Head (lq_Q s)) = Some n" "lq_Head (lq_Q s) \<noteq> 0"
    using lq_nodes_dom [OF ok lq_nodes_hd_mem [OF ok]] by blast
  with lq_nodes_next [OF ok n(1)] that show thesis by blast
qed

lemma lq_second_node:
  assumes "lq_inv s" "tl (nodes s) \<noteq> []"
  shows "hd (tl (nodes s)) \<noteq> 0" "\<exists>m. lq_heap s (hd (tl (nodes s))) = Some m"
    "lq_nodes_ok (lq_heap s) (hd (tl (nodes s))) (tl (nodes s))"
proof -
  note ok = lq_invD(1) [OF assms(1)]
  have "hd (tl (nodes s)) \<in> set (nodes s)" using assms(2) by (blast intro: in_set_tl list.set_sel(1))
  then show "hd (tl (nodes s)) \<noteq> 0" "\<exists>m. lq_heap s (hd (tl (nodes s))) = Some m"
    using lq_nodes_dom [OF ok] by blast+
  obtain n where n: "lq_heap s (lq_Head (lq_Q s)) = Some n" using lq_head_node [OF assms(1)] .
  from lq_nodes_next(2,3) [OF ok n assms(2)]
  show "lq_nodes_ok (lq_heap s) (hd (tl (nodes s))) (tl (nodes s))" by simp
qed

lemma lq_cons_safe:
  assumes inv: "lq_inv s"
  shows "\<exists>t. lq_cons s = Inr t"
proof (cases "cpc s")
  case (C_next node)
  obtain n where "lq_heap s (lq_Head (lq_Q s)) = Some n" "lq_Head (lq_Q s) \<noteq> 0"
    by (rule lq_head_node [OF inv])
  with C_next lq_invD(5) [OF inv] show ?thesis
    by (simp add: lq_cons_def lq_cons_inv_def)
next
  case (C_test node nh)
  with lq_invD(5) [OF inv] lq_second_node [OF inv] show ?thesis
    by (auto simp: lq_cons_def lq_cons_inv_def)
next
  case (C_free node)
  with lq_invD(5) [OF inv] show ?thesis by (auto simp: lq_cons_def lq_cons_inv_def)
qed (simp_all add: lq_cons_def)

text \<open>A consumer step that changes only its own program counter.\<close>

lemma lq_cons_pc_inv:
  assumes inv: "lq_inv s" and "t = s\<lparr>cpc := c\<rparr>" and "lq_cons_inv t"
    and "undec c \<longleftrightarrow> undec (cpc s)"
  shows "lq_inv t"
  using assms by (auto simp: lq_inv_def lq_lock_inv_def lq_tail_inv_def lq_pend_inv_def
      lq_hist_inv_def lq_count_inv_def)

lemma lq_cons_read_inv:
  assumes inv: "lq_inv s" and st: "lq_cons s = Inr t"
    and pc: "cpc s = C_idle \<or> cpc s = C_next node \<or> cpc s = C_test node nh"
  shows "lq_inv t"
proof -
  obtain n where n: "lq_heap s (lq_Head (lq_Q s)) = Some n" "lq_Head (lq_Q s) \<noteq> 0"
    "lq_next n \<noteq> 0 \<longrightarrow> tl (nodes s) \<noteq> [] \<and> lq_next n = hd (tl (nodes s))"
    by (rule lq_head_node [OF inv])
  from pc show ?thesis
  proof (elim disjE)
    assume pc: "cpc s = C_idle"
    with st have t: "t = s\<lparr>cpc := C_next (lq_Head (lq_Q s))\<rparr>" by (simp add: lq_cons_def)
    show ?thesis by (rule lq_cons_pc_inv [OF inv t]) (simp_all add: pc t lq_cons_inv_def undec_def)
  next
    assume pc: "cpc s = C_next node"
    with lq_invD(5) [OF inv] have "node = lq_Head (lq_Q s)" by (simp add: lq_cons_inv_def)
    with st pc n have t: "t = s\<lparr>cpc := C_test node (lq_next n)\<rparr>" by (simp add: lq_cons_def)
    show ?thesis
      by (rule lq_cons_pc_inv [OF inv t])
        (use n(3) \<open>node = _\<close> in \<open>simp_all add: pc t lq_cons_inv_def undec_def\<close>)
  next
    assume pc: "cpc s = C_test node nh"
    show ?thesis
    proof (cases "nh = 0")
      case True
      with st pc have t: "t = s\<lparr>cpc := C_idle\<rparr>" by (simp add: lq_cons_def)
      show ?thesis by (rule lq_cons_pc_inv [OF inv t]) (simp_all add: pc t lq_cons_inv_def undec_def)
    next
      case False
      with lq_invD(5) [OF inv] pc have nh: "tl (nodes s) \<noteq> []" "nh = hd (tl (nodes s))"
        "node = lq_Head (lq_Q s)"
        by (auto simp: lq_cons_inv_def)
      then obtain m where m: "lq_heap s nh = Some m" using lq_second_node [OF inv] by blast
      with st pc False have t: "t = s\<lparr>cpc := C_head node nh (lq_value m)\<rparr>"
        by (simp add: lq_cons_def)
      show ?thesis
        by (rule lq_cons_pc_inv [OF inv t])
          (use nh m in \<open>simp_all add: pc t lq_cons_inv_def undec_def lq_val_def\<close>)
    qed
  qed
qed

lemma lq_cons_head_inv:
  assumes inv: "lq_inv s" and pc: "cpc s = C_head node nh v" and st: "lq_cons s = Inr t"
  shows "lq_inv t"
proof -
  from pc st have t: "t = s\<lparr>lq_Q := (lq_Q s)\<lparr>lq_Head := nh\<rparr>, cpc := C_free node,
      nodes := tl (nodes s), taken := taken s @ [v]\<rparr>"
    by (simp add: lq_cons_def)
  from lq_invD(5) [OF inv] pc have c: "node = lq_Head (lq_Q s)" "tl (nodes s) \<noteq> []"
    "nh = hd (tl (nodes s))" "v = lq_val (lq_heap s) nh"
    by (auto simp: lq_cons_inv_def)
  note ok = lq_invD(1) [OF inv]
  have lst: "last (tl (nodes s)) = last (nodes s)" using c(2) by (simp add: last_tl)
  have mem: "node \<in> set (nodes s)" "node \<notin> set (tl (nodes s))"
    using lq_nodes_hd_mem [OF ok] lq_nodes_hd_notin [OF ok] c(1) by auto
  have "lq_nodes_ok (lq_heap t) (lq_Head (lq_Q t)) (nodes t)"
    using lq_second_node(3) [OF inv c(2)] c(3) t by simp
  moreover have "lq_lock_inv t" "lq_tail_inv t"
    using lq_invD(2,3) [OF inv] lst t
    by (auto simp: lq_lock_inv_def lq_tail_inv_def split: option.splits lq_ppc.splits)
  moreover have "lq_pend_inv t"
    using lq_invD(4) [OF inv] t by (auto simp: lq_pend_inv_def dest: in_set_tl)
  moreover have "lq_cons_inv t"
    using mem lq_nodes_dom [OF ok mem(1)] lq_inv_pend(2) [OF inv] t
    by (auto simp: lq_cons_inv_def)
  moreover have "lq_hist_inv t"
    using lq_invD(6) [OF inv] c t by (cases "tl (nodes s)") (auto simp: lq_hist_inv_def)
  moreover have "lq_count_inv t"
    using lq_invD(7) [OF inv] pc t by (simp add: lq_count_inv_def undec_def algebra_simps)
  ultimately show ?thesis by (simp add: lq_inv_def)
qed

lemma lq_cons_free_inv:
  assumes inv: "lq_inv s" and pc: "cpc s = C_free node" and st: "lq_cons s = Inr t"
  shows "lq_inv t"
proof -
  from lq_invD(5) [OF inv] pc obtain m where c: "node \<noteq> 0" "node \<notin> set (nodes s)"
    "lq_heap s node = Some m" "\<And>i. pend (ppc s i) \<noteq> Some node"
    by (auto simp: lq_cons_inv_def)
  with pc st have t: "t = s\<lparr>lq_heap := (lq_heap s)(node := None), cpc := C_dec\<rparr>"
    by (simp add: lq_cons_def)
  have nt: "node \<notin> set (tl (nodes s))" using c(2) by (blast dest: in_set_tl)
  have "lq_nodes_ok (lq_heap t) (lq_Head (lq_Q t)) (nodes t)"
    using lq_invD(1) [OF inv] c t by simp
  moreover have "lq_lock_inv t" "lq_tail_inv t"
    using lq_invD(2,3) [OF inv] t by (auto simp: lq_lock_inv_def lq_tail_inv_def)
  moreover have "lq_pend_inv t"
    using lq_invD(4) [OF inv] c(4) t by (auto simp: lq_pend_inv_def)
  moreover have "lq_cons_inv t" using t by (simp add: lq_cons_inv_def)
  moreover have "lq_hist_inv t" using lq_invD(6) [OF inv] nt t by (simp add: lq_hist_inv_def)
  moreover have "lq_count_inv t"
    using lq_invD(7) [OF inv] pc t by (simp add: lq_count_inv_def undec_def)
  ultimately show ?thesis by (simp add: lq_inv_def)
qed

lemma lq_cons_dec_inv:
  assumes inv: "lq_inv s" and pc: "cpc s = C_dec" and st: "lq_cons s = Inr t"
  shows "lq_inv t"
proof -
  from pc st have t: "t = s\<lparr>lq_Q := (lq_Q s)\<lparr>lq_count := lq_count (lq_Q s) - 1\<rparr>, cpc := C_idle\<rparr>"
    by (simp add: lq_cons_def atomic_dec_def)
  have "lq_nodes_ok (lq_heap t) (lq_Head (lq_Q t)) (nodes t)"
    using lq_invD(1) [OF inv] t by simp
  moreover have "lq_lock_inv t" "lq_tail_inv t" "lq_pend_inv t" "lq_cons_inv t" "lq_hist_inv t"
    using lq_invD(2,3,4,6) [OF inv] t
    by (auto simp: lq_lock_inv_def lq_tail_inv_def lq_pend_inv_def lq_cons_inv_def lq_hist_inv_def)
  moreover have "lq_count_inv t"
    using lq_invD(7) [OF inv] pc t by (simp add: lq_count_inv_def undec_def algebra_simps)
  ultimately show ?thesis by (simp add: lq_inv_def)
qed

lemma lq_cons_step_inv:
  assumes "lq_inv s" "lq_cons s = Inr t"
  shows "lq_inv t"
proof (cases "cpc s")
  case (C_head node nh v)
  with assms show ?thesis by (blast intro: lq_cons_head_inv)
next
  case (C_free node)
  with assms show ?thesis by (blast intro: lq_cons_free_inv)
next
  case C_dec
  with assms show ?thesis by (blast intro: lq_cons_dec_inv)
qed (use assms in \<open>auto intro: lq_cons_read_inv\<close>)

lemma lq_exec_inv: "lq_inv s \<Longrightarrow> lq_exec e s = Some (Inr t) \<Longrightarrow> lq_inv t"
  by (cases e) (auto intro: lq_start_inv lq_prod_inv lq_cons_step_inv)

lemma lq_reachable_inv: "lq_reachable s \<Longrightarrow> lq_inv s"
  by (induction rule: lq_reachable.induct) (auto intro: lq_inv_init lq_exec_inv)

text \<open>A run from a new queue only meets reachable states.\<close>

lemma lq_run_reachable: "lq_run es s = Some (Inr t) \<Longrightarrow> lq_reachable s \<Longrightarrow> lq_reachable t"
proof (induction es s rule: lq_run.induct)
  case (1 s)
  then show ?case by simp
next
  case (2 e es s)
  then show ?case by (auto split: option.splits sum.splits intro: lq_reachable.step)
qed

section \<open>Properties\<close>

text \<open>A concrete queue, with its dummy node at address 1, for the witnesses.\<close>

definition lq_ex :: lq_state where
  "lq_ex = \<lparr>lq_heap = [1 \<mapsto> \<lparr>lq_next = 0, lq_value = 0\<rparr>],
     lq_Q = \<lparr>lq_Head = 1, lq_Tail = 1, lq_count = 0, t_lock = \<lparr>lock = 0\<rparr>\<rparr>\<rparr>"

lemma lq_ex_new: "lq_new_queue 9 1 Map.empty = Inr lq_ex"
  by (simp add: lq_ex_def lq_new_queue_def lq_initialize_def lq_new_node_def coremu_spin_unlock_def)

lemma lq_ex_reachable: "lq_reachable (lq_init lq_ex)"
  by (rule lq_reachable.start [OF lq_ex_new])

lemmas lq_run_simps = lq_init_def lq_ex_def lq_start_def lq_prod_def lq_cons_def lq_new_node_def
  atomic_inc_def atomic_dec_def coremu_spin_unlock_def lq_val_def load_def

text \<open>
  A queue made by \<open>new_queue\<close> and used by one thread is a FIFO queue: any sequence of
  \<open>enqueue\<close> and \<open>dequeue\<close> calls returns exactly what the same calls on a list return, no call
  faults or fails to return, and afterwards \<open>queue_get_size\<close> is the number of elements.
\<close>

theorem lq_refines_list:
  assumes "q \<noteq> 0" "a \<noteq> 0"
    and "\<And>s. lq_new_queue q a h = Inr s \<Longrightarrow> fresh_run lock_queue_ops lq_fresh os s"
    and "length (snd (spec_ops os [])) < 2 ^ 63"
  shows "\<exists>s s'. lq_new_queue q a h = Inr s
     \<and> run_ops lock_queue_ops os s = Inr (fst (spec_ops os []), s')
     \<and> lq_get_size s' = int (length (snd (spec_ops os [])))"
proof -
  obtain s where s: "lq_new_queue q a h = Inr s" "lq_repr s []"
    using lq_new_queue_repr [OF assms(1,2)] by blast
  from lq.run_ops_refines [OF s(2) assms(3) [OF s(1)]] obtain s'
    where "run_ops lock_queue_ops os s = Inr (fst (spec_ops os []), s')"
      and "lq_repr s' (snd (spec_ops os []))" by blast
  with s(1) lq_get_size_repr assms(4) show ?thesis by blast
qed

theorem lq_refines_list_witness:
  "\<exists>s s'. lq_new_queue 9 1 Map.empty = Inr s
     \<and> run_ops lock_queue_ops [Enq 5 2, Enq 6 3, Deq, Deq, Deq] s = Inr ([Some 5, Some 6, None], s')
     \<and> lq_get_size s' = 0"
proof -
  have fr: "fresh_run lock_queue_ops lq_fresh [Enq 5 2, Enq 6 3, Deq, Deq, Deq] s"
    if "lq_new_queue 9 1 Map.empty = Inr s" for s
    using that lq_ex_new
    by (auto simp: lq_ex_def lock_queue_ops_def lq_fresh_def lq_enqueue_def lq_dequeue_def
        lq_new_node_def load_def coremu_spin_unlock_def split: sum.splits)
  show ?thesis
    using lq_refines_list [of 9 1 Map.empty "[Enq 5 2, Enq 6 3, Deq, Deq, Deq]", OF _ _ fr]
    by simp
qed

text \<open>
  C1. In every interleaving of any number of producers with the consumer, no value is lost,
  duplicated or reordered: the values linked so far are those the consumer has taken,
  followed by those on the chain from \<open>Head\<close>, which ends at a null pointer.
\<close>

theorem lq_concurrent_fifo:
  assumes "lq_reachable s"
  shows "linked s = taken s @ map (lq_val (lq_heap s)) (tl (nodes s))
     \<and> chain (lq_succ (lq_heap s)) (lq_Head (lq_Q s)) (nodes s) \<and> distinct (nodes s)"
  using lq_reachable_inv [OF assms]
  by (simp add: lq_inv_def lq_hist_inv_def lq_nodes_ok_def)

text \<open>A run in which two producers overlap with the consumer.\<close>

definition lq_ex_run :: "lq_event list" where
  "lq_ex_run = [Produce 0 7 2, Produce 1 8 3, Prod_step 1, Prod_step 0, Prod_step 1, Prod_step 1, Cons_step, Cons_step,
     Prod_step 1, Prod_step 1, Prod_step 1, Prod_step 0, Prod_step 0, Prod_step 0, Prod_step 0,
     Prod_step 0, Prod_step 0, Cons_step, Cons_step]"

lemma lq_ex_run_result:
  "\<exists>s. lq_run lq_ex_run (lq_init lq_ex) = Some (Inr s) \<and> taken s = [8] \<and> linked s = [8, 7]"
  by (simp add: lq_ex_run_def lq_run_simps)

theorem lq_concurrent_fifo_witness:
  "\<exists>s. lq_reachable s \<and> taken s = [8] \<and> linked s = [8, 7]
     \<and> map (lq_val (lq_heap s)) (tl (nodes s)) = [7]"
proof -
  obtain s where s: "lq_run lq_ex_run (lq_init lq_ex) = Some (Inr s)" "taken s = [8]"
    "linked s = [8, 7]"
    using lq_ex_run_result by blast
  from lq_run_reachable [OF s(1) lq_ex_reachable] have r: "lq_reachable s" .
  show ?thesis using lq_concurrent_fifo [OF r] s r by auto
qed

text \<open>
  C2. No step of any interleaving follows a null or dangling pointer or frees a node twice:
  the only fault a step can end in is the \<open>abort()\<close> of a producer whose \<open>malloc\<close> fails.
\<close>

theorem lq_concurrent_memory_safe:
  assumes "lq_reachable s" "lq_exec e s = Some r"
  shows "(\<exists>t. r = Inr t) \<or> (\<exists>i v. e = Produce i v 0 \<and> r = Inl Aborted)"
proof (cases e)
  case (Produce i v a)
  with assms(2) show ?thesis
    by (auto simp: lq_start_def lq_new_node_def split: lq_ppc.splits if_splits)
next
  case (Prod_step i)
  with assms(2) lq_prod_safe [OF lq_reachable_inv [OF assms(1)], of i r] show ?thesis by simp
next
  case Cons_step
  with assms(2) lq_cons_safe [OF lq_reachable_inv [OF assms(1)]] show ?thesis by auto
qed

theorem lq_concurrent_memory_safe_witness:
  "\<exists>s r. lq_reachable s \<and> cpc s = C_free 1 \<and> lq_exec Cons_step s = Some r \<and> (\<exists>t. r = Inr t)"
proof -
  have "\<exists>s. lq_run lq_ex_run (lq_init lq_ex) = Some (Inr s) \<and> cpc s = C_free 1"
    by (simp add: lq_ex_run_def lq_run_simps)
  then obtain s where s: "lq_run lq_ex_run (lq_init lq_ex) = Some (Inr s)"
    "cpc s = C_free 1" by blast
  from lq_run_reachable [OF s(1) lq_ex_reachable] have r: "lq_reachable s" .
  show ?thesis using lq_concurrent_memory_safe [OF r, of Cons_step] s r by auto
qed

text \<open>
  Two producers are never inside the lock at the same time, and the lock word is non-zero
  exactly while one is.
\<close>

theorem lq_mutual_exclusion:
  assumes "lq_reachable s"
  shows "(in_cs (ppc s i) \<and> in_cs (ppc s j) \<longrightarrow> i = j)
     \<and> (lock (t_lock (lq_Q s)) \<noteq> 0 \<longleftrightarrow> (\<exists>i. in_cs (ppc s i)))"
proof -
  from lq_reachable_inv [OF assms] have h: "\<And>k. in_cs (ppc s k) \<longleftrightarrow> holder s = Some k"
    and l: "lock (t_lock (lq_Q s)) = 0 \<longleftrightarrow> holder s = None"
    by (auto simp: lq_inv_def lq_lock_inv_def)
  from h l show ?thesis by auto
qed

theorem lq_mutual_exclusion_witness:
  "\<exists>s. lq_reachable s \<and> in_cs (ppc s 1) \<and> \<not> in_cs (ppc s 0) \<and> lock (t_lock (lq_Q s)) \<noteq> 0"
proof -
  have "\<exists>s. lq_run (take 5 lq_ex_run) (lq_init lq_ex) = Some (Inr s) \<and> in_cs (ppc s 1)"
    by (simp add: lq_ex_run_def lq_run_simps)
  then obtain s where s: "lq_run (take 5 lq_ex_run) (lq_init lq_ex) = Some (Inr s)"
    "in_cs (ppc s 1)" by blast
  from lq_run_reachable [OF s(1) lq_ex_reachable] have r: "lq_reachable s" .
  show ?thesis using lq_mutual_exclusion [OF r, of 0 1] s r by auto
qed

text \<open>
  The element count drifts from the chain only while an operation is under way: when every
  producer is outside its counting window and the consumer is not between unlinking and
  decrementing, \<open>queue_get_size\<close> is the number of elements on the chain.
\<close>

theorem lq_count_quiescent:
  assumes "lq_reachable s" "\<And>i. \<not> uncounted (ppc s i)" "\<not> undec (cpc s)"
    and "length (nodes s) \<le> 2 ^ 63"
  shows "sint (lq_count (lq_Q s)) = int (length (tl (nodes s)))"
proof -
  note inv = lq_reachable_inv [OF assms(1)]
  have "linked s = taken s @ map (lq_val (lq_heap s)) (tl (nodes s))"
    using lq_invD(6) [OF inv] by (simp add: lq_hist_inv_def)
  moreover have "lq_count (lq_Q s) + of_nat (length (taken s)) = of_nat (length (linked s))"
    using lq_invD(7) [OF inv] assms(2,3) by (simp add: lq_count_inv_def)
  ultimately have "lq_count (lq_Q s) = of_nat (length (tl (nodes s)))" by simp
  then show ?thesis
    using assms(4) lq_invD(1) [OF inv]
    by (cases "nodes s") (auto simp: sint_of_nat_64 lq_nodes_ok_def)
qed

theorem lq_count_quiescent_witness:
  "\<exists>s. lq_reachable s \<and> sint (lq_count (lq_Q s)) = 2"
proof -
  have "\<exists>s. lq_run (take 17 lq_ex_run) (lq_init lq_ex) = Some (Inr s)
      \<and> (\<forall>i. \<not> uncounted (ppc s i)) \<and> \<not> undec (cpc s) \<and> length (nodes s) = 3"
    by (simp add: lq_ex_run_def lq_run_simps undec_def)
  then obtain s where s: "lq_run (take 17 lq_ex_run) (lq_init lq_ex) = Some (Inr s)"
    "\<And>i. \<not> uncounted (ppc s i)" "\<not> undec (cpc s)" "length (nodes s) = 3" by blast
  from lq_run_reachable [OF s(1) lq_ex_reachable] have r: "lq_reachable s" .
  show ?thesis using lq_count_quiescent [OF r s(2,3)] s(4) r by auto
qed

text \<open>
  While a producer has linked a node but not yet counted it, the consumer can already take
  the value and decrement: \<open>queue_get_size\<close> is then -1, so its clients must treat a
  non-positive size as "nothing to do" and not as an impossible value.
\<close>

theorem lq_count_can_be_negative:
  "\<exists>s. lq_reachable s \<and> sint (lq_count (lq_Q s)) = - 1"
proof -
  have "\<exists>s. lq_run [Produce 0 7 2, Prod_step 0, Prod_step 0, Prod_step 0, Cons_step, Cons_step,
      Cons_step, Cons_step, Cons_step, Cons_step] (lq_init lq_ex) = Some (Inr s)
      \<and> sint (lq_count (lq_Q s)) = - 1"
    by (simp add: lq_run_simps)
  then show ?thesis using lq_run_reachable lq_ex_reachable by blast
qed

end
