(* ===== verification/MS_Queue.thy ===== *)
theory MS_Queue
  imports Atomic Queue_Spec
begin

text \<open>
  \<open>main/ms-queue.c\<close>: the lock-free queue of Michael and Scott with counted pointers, built
  when \<open>LOCKFREE\<close> is set. Every pointer is a pair of an address and a modification count that
  a 128-bit compare-and-swap replaces together. The operations are given as one thread runs
  them, with the retry loops under a fuel parameter and the signal mask of the calling thread
  as part of the state.
\<close>

section \<open>Data\<close>

record pointer_t =
  ptr :: addr
  pcount :: u64

record ms_node =
  ms_next :: pointer_t
  ms_value :: u64

record ms_queue =
  ms_Head :: pointer_t
  ms_Tail :: pointer_t
  ms_count :: u64

text \<open>
  \<open>ms_addr\<close> is the address of the queue object: \<open>Head\<close> is at offset 0 and \<open>Tail\<close> at offset
  16, as \<open>next\<close> is at offset 0 of a node. \<open>sigblocked\<close> is the calling thread's signal mask:
  whether all signals are blocked.
\<close>

record ms_state =
  ms_addr :: addr
  ms_heap :: "addr \<rightharpoonup> ms_node"
  ms_Q :: ms_queue
  sigblocked :: bool

section \<open>Compare and swap\<close>

definition ptr_pair :: "pointer_t \<Rightarrow> u64 \<times> u64" where
  "ptr_pair p = (of_nat (ptr p), pcount p)"

text \<open>
  \<open>CAS(loc, old, new)\<close> on the contents \<open>p\<close> of \<open>loc\<close>, which has to be 16-byte aligned.
  Addresses are 64-bit values, so the
  two quadwords that \<open>cmpxchg16b\<close> compares and stores are the fields of the pointers.
\<close>

definition CAS :: "addr \<Rightarrow> pointer_t \<Rightarrow> pointer_t \<Rightarrow> pointer_t \<Rightarrow> (u8 \<times> pointer_t) result" where
  "CAS loc p old new =
     (if loc mod 16 \<noteq> 0 then Inl Assert_failed else
      let rax = of_nat (ptr old); rdx = pcount old;
          rbx = of_nat (ptr new); rcx = pcount new;
          (z, mem) = atomic_compare_exchange16b (ptr_pair p) rax rdx rbx rcx
      in Inr (z, \<lparr>ptr = unat (fst mem), pcount = snd mem\<rparr>))"

text \<open>\<open>cmp128\<close> compares by swapping \<open>*p1\<close> for itself.\<close>

definition cmp128 :: "addr \<Rightarrow> pointer_t \<Rightarrow> pointer_t \<Rightarrow> (u8 \<times> pointer_t) result" where
  "cmp128 loc p1 p2 =
     bind_result (CAS loc p1 p2 p1) (\<lambda>(z, p1'). Inr (if z \<noteq> 0 then 1 else 0, p1'))"

section \<open>Operations\<close>

text \<open>
  \<open>ms_allocaligned\<close> does not check for NULL, so a failed allocation is a null pointer that
  the caller follows. The memory is not cleared: \<open>junk\<close> is what the allocator left there.
\<close>

definition ms_new_node :: "addr \<Rightarrow> ms_node \<Rightarrow> (addr \<rightharpoonup> ms_node) \<Rightarrow> (addr \<rightharpoonup> ms_node) result"
  where
  "ms_new_node a junk h = (if a = 0 then Inl Null_deref else Inr (h(a \<mapsto> junk)))"

definition ms_initialize :: "addr \<Rightarrow> ms_node \<Rightarrow> ms_state \<Rightarrow> ms_state result" where
  "ms_initialize node junk s = bind_result (ms_new_node node junk (ms_heap s)) (\<lambda>h.
     Inr (s\<lparr>ms_heap := h(node \<mapsto> junk\<lparr>ms_next := (ms_next junk)\<lparr>ptr := 0\<rparr>\<rparr>),
            ms_Q := \<lparr>ms_Head = \<lparr>ptr = node, pcount = 0\<rparr>, ms_Tail = \<lparr>ptr = node, pcount = 0\<rparr>,
                     ms_count = 0\<rparr>\<rparr>))"

definition ms_new_queue :: "addr \<Rightarrow> addr \<Rightarrow> ms_node \<Rightarrow> ms_state \<Rightarrow> ms_state result" where
  "ms_new_queue q node junk s =
     (if q = 0 then Inl Null_deref
      else bind_result (ms_initialize node junk s) (\<lambda>s'.
        if ptr (ms_Head (ms_Q s')) \<noteq> 0 \<and> ptr (ms_Tail (ms_Q s')) \<noteq> 0
           \<and> ptr (ms_Head (ms_Q s')) = ptr (ms_Tail (ms_Q s'))
        then Inr (s'\<lparr>ms_addr := q\<rparr>) else Inl Assert_failed))"

text \<open>
  The retry loop of \<open>enqueue\<close>. It ends with the value of \<open>tail\<close> that the caller uses for
  the final swing of \<open>Tail\<close>.
\<close>

fun ms_enq_loop :: "nat \<Rightarrow> addr \<Rightarrow> ms_state \<Rightarrow> (pointer_t \<times> ms_state) result" where
  "ms_enq_loop 0 node s = Inl No_return"
| "ms_enq_loop (Suc fuel) node s =
     (let tail = ms_Tail (ms_Q s) in
      bind_result (load (ms_heap s) (ptr tail)) (\<lambda>tn.
      let next = ms_next tn in
      bind_result (cmp128 (ms_addr s + 16) (ms_Tail (ms_Q s)) tail) (\<lambda>(same, T).
      let s1 = s\<lparr>ms_Q := (ms_Q s)\<lparr>ms_Tail := T\<rparr>\<rparr> in
      if same \<noteq> 0 then
        if ptr next = 0 then
          let new_ptr = \<lparr>ptr = node, pcount = pcount next + 1\<rparr> in
          bind_result (CAS (ptr tail) (ms_next tn) next new_ptr) (\<lambda>(ok, nx).
          let s2 = s1\<lparr>ms_heap := (ms_heap s1)(ptr tail \<mapsto> tn\<lparr>ms_next := nx\<rparr>)\<rparr> in
          if ok \<noteq> 0 then Inr (tail, s2) else ms_enq_loop fuel node s2)
        else
          let new_ptr = \<lparr>ptr = ptr next, pcount = pcount tail + 1\<rparr> in
          bind_result (CAS (ms_addr s1 + 16) (ms_Tail (ms_Q s1)) tail new_ptr) (\<lambda>(ok, T').
          ms_enq_loop fuel node (s1\<lparr>ms_Q := (ms_Q s1)\<lparr>ms_Tail := T'\<rparr>\<rparr>))
      else ms_enq_loop fuel node s1)))"

definition ms_enqueue :: "nat \<Rightarrow> addr \<Rightarrow> ms_node \<Rightarrow> u64 \<Rightarrow> ms_state \<Rightarrow> ms_state result" where
  "ms_enqueue fuel node junk v s =
     (let save_sig_set = sigblocked s; s0 = s\<lparr>sigblocked := True\<rparr> in
      bind_result (ms_new_node node junk (ms_heap s0)) (\<lambda>h.
      let s1 = s0\<lparr>ms_heap := h(node \<mapsto>
                   junk\<lparr>ms_value := v, ms_next := (ms_next junk)\<lparr>ptr := 0\<rparr>\<rparr>)\<rparr> in
      bind_result (ms_enq_loop fuel node s1) (\<lambda>(tail, s2).
      let new_ptr = \<lparr>ptr = node, pcount = pcount tail + 1\<rparr> in
      bind_result (CAS (ms_addr s2 + 16) (ms_Tail (ms_Q s2)) tail new_ptr) (\<lambda>(ok, T).
      Inr (s2\<lparr>ms_Q := (ms_Q s2)\<lparr>ms_Tail := T, ms_count := atomic_inc (ms_count (ms_Q s2))\<rparr>,
              sigblocked := save_sig_set\<rparr>)))))"

text \<open>
  The retry loop of \<open>dequeue\<close>: \<open>None\<close> for an empty queue, otherwise the old head and the
  value.
\<close>

fun ms_deq_loop :: "nat \<Rightarrow> ms_state \<Rightarrow> ((pointer_t \<times> u64) option \<times> ms_state) result" where
  "ms_deq_loop 0 s = Inl No_return"
| "ms_deq_loop (Suc fuel) s =
     (let head = ms_Head (ms_Q s); tail = ms_Tail (ms_Q s) in
      bind_result (load (ms_heap s) (ptr head)) (\<lambda>hn.
      let next = ms_next hn in
      bind_result (cmp128 (ms_addr s) (ms_Head (ms_Q s)) head) (\<lambda>(same, H).
      let s1 = s\<lparr>ms_Q := (ms_Q s)\<lparr>ms_Head := H\<rparr>\<rparr> in
      if same \<noteq> 0 then
        if ptr head = ptr tail then
          if ptr next = 0 then Inr (None, s1)
          else
            let new_ptr = \<lparr>ptr = ptr next, pcount = pcount tail + 1\<rparr> in
            bind_result (CAS (ms_addr s1 + 16) (ms_Tail (ms_Q s1)) tail new_ptr) (\<lambda>(ok, T).
            ms_deq_loop fuel (s1\<lparr>ms_Q := (ms_Q s1)\<lparr>ms_Tail := T\<rparr>\<rparr>))
        else
          bind_result (load (ms_heap s1) (ptr next)) (\<lambda>m.
          let new_ptr = \<lparr>ptr = ptr next, pcount = pcount head + 1\<rparr> in
          bind_result (CAS (ms_addr s1) (ms_Head (ms_Q s1)) head new_ptr) (\<lambda>(ok, H').
          let s2 = s1\<lparr>ms_Q := (ms_Q s1)\<lparr>ms_Head := H'\<rparr>\<rparr> in
          if ok \<noteq> 0 then Inr (Some (head, ms_value m), s2) else ms_deq_loop fuel s2))
      else ms_deq_loop fuel s1)))"

text \<open>
  \<open>dequeue\<close>. On the empty queue it returns before \<open>coremu_sigmask_res\<close>, which stands after
  the \<open>return\<close>: the signals stay blocked.
\<close>

definition ms_dequeue :: "nat \<Rightarrow> ms_state \<Rightarrow> (u64 option \<times> ms_state) result" where
  "ms_dequeue fuel s =
     (let save_sig_set = sigblocked s; s0 = s\<lparr>sigblocked := True\<rparr> in
      bind_result (ms_deq_loop fuel s0) (\<lambda>(r, s1).
        case r of
          None \<Rightarrow> Inr (None, s1)
        | Some (head, v) \<Rightarrow>
            Inr (Some v,
                 s1\<lparr>ms_heap := (ms_heap s1)(ptr head := None),
                    ms_Q := (ms_Q s1)\<lparr>ms_count := atomic_dec (ms_count (ms_Q s1))\<rparr>,
                    sigblocked := save_sig_set\<rparr>)))"

definition ms_get_size :: "ms_state \<Rightarrow> int" where
  "ms_get_size s = sint (ms_count (ms_Q s))"

text \<open>
  \<open>print_queue\<close>: the values it prints, from the dummy node on, under a fuel bound.
\<close>

fun ms_print_nodes :: "nat \<Rightarrow> (addr \<rightharpoonup> ms_node) \<Rightarrow> addr \<Rightarrow> u64 list result" where
  "ms_print_nodes 0 h cur = (if cur = 0 then Inr [] else Inl No_return)"
| "ms_print_nodes (Suc fuel) h cur =
     (if cur = 0 then Inr []
      else bind_result (load h cur) (\<lambda>n.
        bind_result (ms_print_nodes fuel h (ptr (ms_next n))) (\<lambda>vs. Inr (ms_value n # vs))))"

definition ms_print_queue :: "nat \<Rightarrow> ms_state \<Rightarrow> (u64 \<times> u64 list) result" where
  "ms_print_queue fuel s = bind_result (ms_print_nodes fuel (ms_heap s) (ptr (ms_Head (ms_Q s))))
     (\<lambda>vs. Inr (ms_count (ms_Q s), vs))"

definition ms_version :: string where
  "ms_version = ''lock free concurrent queue''"

text \<open>
  One thread needs at most one extra turn of a loop, to advance a \<open>Tail\<close> that lags behind by
  one node: fuel 2 is enough (lemmas \<open>ms_enqueue_repr\<close> and \<open>ms_dequeue_repr\<close>). The memory
  a node is allocated in holds any value.
\<close>

definition ms_queue_ops :: "ms_node \<Rightarrow> ms_state queue_ops" where
  "ms_queue_ops junk =
     \<lparr>q_enqueue = (\<lambda>a v s. ms_enqueue 2 a junk v s), q_dequeue = ms_dequeue 2,
      q_get_size = ms_get_size\<rparr>"

section \<open>The sequential contract\<close>

definition ms_succ :: "(addr \<rightharpoonup> ms_node) \<Rightarrow> addr \<rightharpoonup> addr" where
  "ms_succ h a = map_option (\<lambda>n. ptr (ms_next n)) (h a)"

definition ms_val :: "(addr \<rightharpoonup> ms_node) \<Rightarrow> addr \<Rightarrow> u64" where
  "ms_val h a = (case h a of None \<Rightarrow> 0 | Some n \<Rightarrow> ms_value n)"

text \<open>Addresses that a 64-bit processor can hold and that \<open>posix_memalign\<close> returns.\<close>

definition ms_aligned :: "addr \<Rightarrow> bool" where
  "ms_aligned a \<longleftrightarrow> a \<noteq> 0 \<and> a < 2 ^ 64 \<and> a mod 16 = 0"

text \<open>
  The shape of the queue: \<open>ns\<close> are the nodes from \<open>Head\<close> on. \<open>lag = False\<close>: \<open>Tail\<close> points to
  the last node. \<open>lag = True\<close>: another thread has linked the last node and has not advanced
  \<open>Tail\<close> yet.
\<close>

definition ms_shape :: "bool \<Rightarrow> ms_state \<Rightarrow> addr list \<Rightarrow> bool" where
  "ms_shape lag s ns \<longleftrightarrow> chain (ms_succ (ms_heap s)) (ptr (ms_Head (ms_Q s))) ns
     \<and> distinct ns \<and> (\<forall>n \<in> set ns. ms_aligned n) \<and> ms_aligned (ms_addr s)
     \<and> (if lag then tl ns \<noteq> [] \<and> ptr (ms_Tail (ms_Q s)) = last (butlast ns)
        else ns \<noteq> [] \<and> ptr (ms_Tail (ms_Q s)) = last ns)"

definition ms_vals :: "ms_state \<Rightarrow> addr list \<Rightarrow> u64 list" where
  "ms_vals s ns = map (ms_val (ms_heap s)) (tl ns)"

definition ms_repr :: "ms_state \<Rightarrow> u64 list \<Rightarrow> bool" where
  "ms_repr s xs \<longleftrightarrow> (\<exists>ns. ms_shape False s ns \<and> xs = ms_vals s ns
     \<and> ms_count (ms_Q s) = of_nat (length xs))"

definition ms_fresh :: "ms_state \<Rightarrow> addr \<Rightarrow> bool" where
  "ms_fresh s a \<longleftrightarrow> ms_aligned a \<and> ms_heap s a = None"

lemma CAS_same [simp]:
  "loc mod 16 = 0 \<Longrightarrow> ptr new < 2 ^ 64 \<Longrightarrow> CAS loc p p new = Inr (1, new)"
  by (simp add: CAS_def ptr_pair_def atomic_compare_exchange16b_def unat_of_nat)

lemma cmp128_same [simp]:
  "loc mod 16 = 0 \<Longrightarrow> ptr p < 2 ^ 64 \<Longrightarrow> cmp128 loc p p = Inr (1, p)"
  by (simp add: cmp128_def)

lemma ms_aligned_mod [simp]: "ms_aligned a \<Longrightarrow> a mod 16 = 0"
  by (simp add: ms_aligned_def)

lemma ms_succ_upd [simp]: "ms_succ (h(a \<mapsto> n)) = (ms_succ h)(a \<mapsto> ptr (ms_next n))"
  by (auto simp: ms_succ_def)

lemma ms_succ_free [simp]: "ms_succ (h(a := None)) = (ms_succ h)(a := None)"
  by (auto simp: ms_succ_def)

lemma ms_succ_Some [simp]: "h a = Some n \<Longrightarrow> ms_succ h a = Some (ptr (ms_next n))"
  by (simp add: ms_succ_def)

lemma ms_val_upd: "ms_val (h(a := x)) b =
    (if a = b then (case x of None \<Rightarrow> 0 | Some n \<Rightarrow> ms_value n) else ms_val h b)"
  by (simp add: ms_val_def)

lemma map_ms_val_upd_notin:
  "a \<notin> set ns \<Longrightarrow> map (ms_val (h(a := x))) ns = map (ms_val h) ns"
  by (auto simp: ms_val_upd)

lemma map_ms_val_next:
  "h a = Some n \<Longrightarrow> map (ms_val (h(a \<mapsto> n\<lparr>ms_next := p\<rparr>))) ns = map (ms_val h) ns"
  by (auto simp: ms_val_upd ms_val_def)

lemma ms_shape_node:
  assumes "ms_shape lag s ns" "n \<in> set ns"
  obtains m where "ms_heap s n = Some m" "n \<noteq> 0" "n < 2 ^ 64" "n mod 16 = 0"
proof -
  from assms have "n \<in> dom (ms_succ (ms_heap s))" "ms_aligned n"
    by (auto simp: ms_shape_def dest: chain_dom)
  with that show thesis by (auto simp: ms_succ_def ms_aligned_def)
qed

lemma ms_shape_head:
  assumes "ms_shape lag s ns"
  shows "ns \<noteq> []" "ptr (ms_Head (ms_Q s)) = hd ns" "hd ns \<in> set ns"
proof -
  show ne: "ns \<noteq> []" using assms by (cases ns) (auto simp: ms_shape_def split: if_splits)
  with assms show "ptr (ms_Head (ms_Q s)) = hd ns" by (auto simp: ms_shape_def dest: chain_hd)
  from ne show "hd ns \<in> set ns" by simp
qed

lemma ms_shape_succ_last:
  "ms_shape lag s ns \<Longrightarrow> ms_heap s (last ns) = Some m \<Longrightarrow> ptr (ms_next m) = 0"
  using chain_last [of "ms_succ (ms_heap s)" "ptr (ms_Head (ms_Q s))" ns]
    ms_shape_head(1) [of lag s ns]
  by (simp add: ms_shape_def)

text \<open>In a chain, the successor of the last but one node is the last node.\<close>

lemma chain_succ_butlast:
  "chain f a ns \<Longrightarrow> tl ns \<noteq> [] \<Longrightarrow> f (last (butlast ns)) = Some (last ns)"
proof (induction f a ns rule: chain.induct)
  case (1 f a)
  then show ?case by simp
next
  case (2 f a n ns)
  then obtain b where b: "f n = Some b" "chain f b ns" "ns \<noteq> []" by auto
  show ?case
  proof (cases "tl ns = []")
    case True
    with b have "ns = [b]" by (cases ns) auto
    with b show ?thesis by simp
  next
    case False
    with "2.IH" b have "f (last (butlast ns)) = Some (last ns)" by blast
    moreover have "butlast ns \<noteq> []" using False by (cases ns) auto
    ultimately show ?thesis using b(3) by simp
  qed
qed

text \<open>One turn of the enqueue loop with \<open>Tail\<close> at the last node links the new node.\<close>

lemma ms_enq_turn:
  assumes sh: "ms_shape False s ns" and a: "a < 2 ^ 64"
    and t: "ms_heap s (last ns) = Some t"
  shows "ms_enq_loop (Suc fuel) a s = Inr (ms_Tail (ms_Q s),
     s\<lparr>ms_heap := (ms_heap s)(last ns \<mapsto> t\<lparr>ms_next := \<lparr>ptr = a, pcount = pcount (ms_next t) + 1\<rparr>\<rparr>)\<rparr>)"
proof -
  have tl: "ptr (ms_Tail (ms_Q s)) = last ns" "ms_aligned (ms_addr s)" "last ns \<in> set ns"
    using sh by (auto simp: ms_shape_def)
  obtain "last ns \<noteq> 0" "last ns < 2 ^ 64" "last ns mod 16 = 0"
    by (rule ms_shape_node [OF sh tl(3)])
  moreover have "ptr (ms_next t) = 0" by (rule ms_shape_succ_last [OF sh t])
  ultimately show ?thesis using tl t a by (simp add: load_def Let_def)
qed

text \<open>With a lagging \<open>Tail\<close> a turn advances it and tries again.\<close>

lemma ms_advance_shape:
  assumes "ms_shape True s ns" "T = \<lparr>ptr = last ns, pcount = c\<rparr>"
  shows "ms_shape False (s\<lparr>ms_Q := (ms_Q s)\<lparr>ms_Tail := T\<rparr>\<rparr>) ns"
  using assms by (auto simp: ms_shape_def)

lemma ms_lag_next:
  assumes sh: "ms_shape True s ns"
  obtains t where "ms_heap s (last (butlast ns)) = Some t" "ptr (ms_next t) = last ns"
    "last (butlast ns) \<noteq> 0" "last (butlast ns) < 2 ^ 64" "last ns < 2 ^ 64" "last ns \<noteq> 0"
proof -
  have mem: "last (butlast ns) \<in> set ns" "last ns \<in> set ns"
    using sh by (cases ns; auto simp: ms_shape_def intro: in_set_butlastD)+
  obtain t where "ms_heap s (last (butlast ns)) = Some t" "last (butlast ns) \<noteq> 0"
    "last (butlast ns) < 2 ^ 64"
    by (rule ms_shape_node [OF sh mem(1)])
  moreover obtain "last ns < 2 ^ 64" "last ns \<noteq> 0" by (rule ms_shape_node [OF sh mem(2)])
  moreover have "ms_succ (ms_heap s) (last (butlast ns)) = Some (last ns)"
    using sh by (auto simp: ms_shape_def intro: chain_succ_butlast)
  ultimately show thesis using that by simp
qed

lemma ms_enq_help:
  assumes sh: "ms_shape True s ns"
  shows "ms_enq_loop (Suc fuel) a s = ms_enq_loop fuel a
     (s\<lparr>ms_Q := (ms_Q s)\<lparr>ms_Tail := \<lparr>ptr = last ns, pcount = pcount (ms_Tail (ms_Q s)) + 1\<rparr>\<rparr>\<rparr>)"
proof -
  obtain t where t: "ms_heap s (last (butlast ns)) = Some t" "ptr (ms_next t) = last ns"
    "last (butlast ns) \<noteq> 0" "last (butlast ns) < 2 ^ 64" "last ns < 2 ^ 64" "last ns \<noteq> 0"
    by (rule ms_lag_next [OF sh])
  moreover have "ptr (ms_Tail (ms_Q s)) = last (butlast ns)" "ms_aligned (ms_addr s)"
    using sh by (auto simp: ms_shape_def)
  ultimately show ?thesis by (simp add: load_def Let_def)
qed

text \<open>The state after the new node is linked to the last node.\<close>

lemma ms_link_shape:
  assumes sh: "ms_shape False s ns" and a: "ms_aligned a" "a \<notin> set ns"
    and n: "ms_heap s a = Some n" "ptr (ms_next n) = 0" and t: "ms_heap s (last ns) = Some t"
    and s': "ms_heap s' = (ms_heap s)(last ns \<mapsto> t\<lparr>ms_next := \<lparr>ptr = a, pcount = c\<rparr>\<rparr>)"
      "ms_Head (ms_Q s') = ms_Head (ms_Q s)" "ptr (ms_Tail (ms_Q s')) = a" "ms_addr s' = ms_addr s"
  shows "ms_shape False s' (ns @ [a])" and "ms_vals s' (ns @ [a]) = ms_vals s ns @ [ms_value n]"
proof -
  have "chain ((ms_succ (ms_heap s))(last ns \<mapsto> a)) (ptr (ms_Head (ms_Q s))) (ns @ [a])"
    using sh a n by (intro chain_append) (auto simp: ms_shape_def ms_aligned_def)
  then show "ms_shape False s' (ns @ [a])"
    using sh a s' by (auto simp: ms_shape_def)
  have "a \<noteq> last ns" using a ms_shape_head(1) [OF sh] by auto
  then show "ms_vals s' (ns @ [a]) = ms_vals s ns @ [ms_value n]"
    using ms_shape_head(1) [OF sh] s' n t
    by (simp add: ms_vals_def map_ms_val_next) (simp add: ms_val_def)
qed

lemma ms_enqueue_shape:
  assumes sh: "ms_shape lag s ns" and fr: "ms_fresh s a"
  shows "\<exists>s'. ms_enqueue 2 a junk v s = Inr s' \<and> ms_shape False s' (ns @ [a])
     \<and> ms_vals s' (ns @ [a]) = ms_vals s ns @ [v]
     \<and> ms_count (ms_Q s') = ms_count (ms_Q s) + 1 \<and> sigblocked s' = sigblocked s"
proof -
  let ?n = "junk\<lparr>ms_value := v, ms_next := (ms_next junk)\<lparr>ptr := 0\<rparr>\<rparr>"
  define s1 where "s1 = s\<lparr>sigblocked := True, ms_heap := (ms_heap s)(a \<mapsto> ?n)\<rparr>"
  from fr have a: "a \<noteq> 0" "a < 2 ^ 64" "ms_aligned a" and free: "ms_heap s a = None"
    by (auto simp: ms_fresh_def ms_aligned_def)
  have notin: "a \<notin> set ns"
    using ms_shape_node [OF sh] free by (metis option.distinct(1))
  have sh1: "ms_shape lag s1 ns"
    using sh notin by (auto simp: ms_shape_def s1_def)
  have vals1: "ms_vals s1 ns = ms_vals s ns"
    using notin by (auto simp: ms_vals_def s1_def ms_val_upd dest: in_set_tl)
  define s2 where "s2 = (if lag then s1\<lparr>ms_Q := (ms_Q s1)\<lparr>ms_Tail :=
      \<lparr>ptr = last ns, pcount = pcount (ms_Tail (ms_Q s1)) + 1\<rparr>\<rparr>\<rparr> else s1)"
  have sh2: "ms_shape False s2 ns"
    using sh1 ms_advance_shape [OF _ refl] by (cases lag) (auto simp: s2_def)
  have lst: "last ns \<in> set ns" using ms_shape_head(1) [OF sh] by simp
  obtain t where t: "ms_heap s2 (last ns) = Some t" by (rule ms_shape_node [OF sh2 lst])
  let ?s3 = "s2\<lparr>ms_heap := (ms_heap s2)(last ns \<mapsto>
      t\<lparr>ms_next := \<lparr>ptr = a, pcount = pcount (ms_next t) + 1\<rparr>\<rparr>)\<rparr>"
  have loop: "ms_enq_loop 2 a s1 = Inr (ms_Tail (ms_Q s2), ?s3)"
    using ms_enq_help [of s1 ns 1 a] ms_enq_turn [OF sh2 a(2) t] sh1
    by (cases lag) (auto simp: s2_def numeral_2_eq_2)
  let ?s' = "?s3\<lparr>ms_Q := (ms_Q s2)\<lparr>ms_Tail := \<lparr>ptr = a, pcount = pcount (ms_Tail (ms_Q s2)) + 1\<rparr>,
      ms_count := ms_count (ms_Q s2) + 1\<rparr>, sigblocked := sigblocked s\<rparr>"
  have al: "ms_aligned (ms_addr s2)" using sh2 by (simp add: ms_shape_def)
  have "ms_enqueue 2 a junk v s = Inr ?s'"
    using a loop al by (simp add: ms_enqueue_def Let_def ms_new_node_def atomic_inc_def s1_def [symmetric])
  moreover have n: "ms_heap s2 a = Some ?n" by (simp add: s2_def s1_def)
  note link = ms_link_shape [OF sh2 a(3) notin n _ t, of ?s']
  have "ms_shape False ?s' (ns @ [a])" "ms_vals ?s' (ns @ [a]) = ms_vals s2 ns @ [v]"
    using link by simp_all
  moreover have "ms_vals s2 ns = ms_vals s ns" using vals1 by (simp add: s2_def ms_vals_def)
  moreover have "ms_count (ms_Q s2) = ms_count (ms_Q s)" by (simp add: s2_def s1_def)
  ultimately show ?thesis by auto
qed

text \<open>Dequeue. The head node and its successor.\<close>

lemma ms_head_next:
  assumes sh: "ms_shape lag s ns"
  obtains n where "ms_heap s (hd ns) = Some n" "hd ns \<noteq> 0" "hd ns < 2 ^ 64" "hd ns mod 16 = 0"
    "ptr (ms_next n) = 0 \<longleftrightarrow> tl ns = []" "tl ns \<noteq> [] \<longrightarrow> ptr (ms_next n) = hd (tl ns)"
proof -
  note hd = ms_shape_head [OF sh]
  obtain n where n: "ms_heap s (hd ns) = Some n" "hd ns \<noteq> 0" "hd ns < 2 ^ 64" "hd ns mod 16 = 0"
    by (rule ms_shape_node [OF sh hd(3)])
  have c: "chain (ms_succ (ms_heap s)) (hd ns) ns" using sh hd(2) by (simp add: ms_shape_def)
  have sc: "ms_succ (ms_heap s) (hd ns) = Some (ptr (ms_next n))" using n by simp
  from chain_tl_Nil [OF c hd(1) sc] chain_tl [OF c hd(1) sc] n that show thesis
    by (metis chain_hd)
qed

lemma ms_dequeue_empty:
  assumes sh: "ms_shape lag s ns" and "tl ns = []"
  shows "ms_dequeue (Suc fuel) s = Inr (None, s\<lparr>sigblocked := True\<rparr>)"
proof -
  obtain n where n: "ms_heap s (hd ns) = Some n" "hd ns \<noteq> 0" "hd ns < 2 ^ 64" "ptr (ms_next n) = 0"
    using assms(2) by (auto intro: ms_head_next [OF sh])
  have "lag = False" "ms_aligned (ms_addr s)" using sh assms(2) by (auto simp: ms_shape_def split: if_splits)
  moreover have "last ns = hd ns" using assms(2) ms_shape_head(1) [OF sh] by (cases ns) auto
  ultimately show ?thesis
    using sh n ms_shape_head(2) [OF sh]
    by (simp add: ms_dequeue_def Let_def ms_shape_def load_def)
qed

text \<open>One turn of the dequeue loop when \<open>Tail\<close> is not at the dummy node.\<close>

lemma ms_deq_turn:
  assumes sh: "ms_shape lag s ns" and ne: "tl ns \<noteq> []" and nt: "ptr (ms_Tail (ms_Q s)) \<noteq> hd ns"
  shows "ms_deq_loop (Suc fuel) s =
     Inr (Some (ms_Head (ms_Q s), hd (ms_vals s ns)), s\<lparr>ms_Q := (ms_Q s)\<lparr>ms_Head :=
       \<lparr>ptr = hd (tl ns), pcount = pcount (ms_Head (ms_Q s)) + 1\<rparr>\<rparr>\<rparr>)"
proof -
  obtain n where n: "ms_heap s (hd ns) = Some n" "hd ns \<noteq> 0" "hd ns < 2 ^ 64" "hd ns mod 16 = 0"
    "ptr (ms_next n) = hd (tl ns)"
    using ne by (auto intro: ms_head_next [OF sh])
  have mem: "hd (tl ns) \<in> set ns" using ne by (blast intro: in_set_tl list.set_sel(1))
  obtain m where m: "ms_heap s (hd (tl ns)) = Some m" "hd (tl ns) \<noteq> 0" "hd (tl ns) < 2 ^ 64"
    by (rule ms_shape_node [OF sh mem])
  have "ms_value m = hd (ms_vals s ns)"
    using m(1) ne by (cases "tl ns") (auto simp: ms_vals_def ms_val_def)
  moreover have "ms_aligned (ms_addr s)" using sh by (simp add: ms_shape_def)
  ultimately show ?thesis
    using n m nt ms_shape_head(2) [OF sh] by (auto simp: Let_def load_def)
qed

text \<open>Removing the dummy: the second node is the new dummy.\<close>

lemma ms_unlink_shape:
  assumes sh: "ms_shape lag s ns" and ne: "tl ns \<noteq> []" and nt: "ptr (ms_Tail (ms_Q s)) \<noteq> hd ns"
    and s': "ms_heap s' = (ms_heap s)(hd ns := None)" "ptr (ms_Head (ms_Q s')) = hd (tl ns)"
      "ms_Tail (ms_Q s') = ms_Tail (ms_Q s)" "ms_addr s' = ms_addr s"
  shows "ms_shape lag s' (tl ns)" and "ms_vals s' (tl ns) = tl (ms_vals s ns)"
proof -
  have hd: "hd ns \<notin> set (tl ns)" "distinct (tl ns)" "last (tl ns) = last ns"
    using sh ne by (cases ns; auto simp: ms_shape_def)+
  obtain n where n: "ms_heap s (hd ns) = Some n" "ptr (ms_next n) = hd (tl ns)"
    using ne by (auto intro: ms_head_next [OF sh])
  have "chain (ms_succ (ms_heap s)) (hd (tl ns)) (tl ns)"
    using chain_tl [of "ms_succ (ms_heap s)" "hd ns" ns "hd (tl ns)"] n sh ms_shape_head [OF sh]
    by (simp add: ms_shape_def)
  moreover have "tl (tl ns) \<noteq> [] \<and> last (butlast ns) = last (butlast (tl ns))" if lag
  proof -
    from that sh ne have *: "last (butlast ns) \<noteq> hd ns" "ptr (ms_Tail (ms_Q s)) = last (butlast ns)"
      using nt by (auto simp: ms_shape_def)
    with ne show ?thesis by (cases ns; cases "tl ns") (auto split: if_splits)
  qed
  ultimately show "ms_shape lag s' (tl ns)"
    using sh ne s' hd by (auto simp: ms_shape_def dest: in_set_tl)
  have "hd ns \<notin> set (tl (tl ns))" using hd(1) by (blast dest: in_set_tl)
  then show "ms_vals s' (tl ns) = tl (ms_vals s ns)"
    using s'(1) by (simp add: ms_vals_def map_tl [symmetric] map_ms_val_upd_notin)
qed

lemma ms_deq_help:
  assumes sh: "ms_shape True s ns" and eq: "ptr (ms_Tail (ms_Q s)) = hd ns"
  shows "ms_deq_loop (Suc fuel) s = ms_deq_loop fuel
     (s\<lparr>ms_Q := (ms_Q s)\<lparr>ms_Tail := \<lparr>ptr = last ns, pcount = pcount (ms_Tail (ms_Q s)) + 1\<rparr>\<rparr>\<rparr>)"
proof -
  have bl: "last (butlast ns) = hd ns" using sh eq by (simp add: ms_shape_def)
  obtain t where t: "ms_heap s (last (butlast ns)) = Some t" "ptr (ms_next t) = last ns"
    "last (butlast ns) \<noteq> 0" "last (butlast ns) < 2 ^ 64" "last ns < 2 ^ 64" "last ns \<noteq> 0"
    by (rule ms_lag_next [OF sh])
  moreover have "ms_aligned (ms_addr s)" using sh by (simp add: ms_shape_def)
  ultimately show ?thesis using bl eq ms_shape_head(2) [OF sh] by (simp add: load_def Let_def)
qed

lemma ms_dequeue_shape:
  assumes sh: "ms_shape lag s ns" and ne: "tl ns \<noteq> []"
  shows "\<exists>s' lag'. ms_dequeue 2 s = Inr (Some (hd (ms_vals s ns)), s') \<and> ms_shape lag' s' (tl ns)
     \<and> (lag' \<longrightarrow> lag) \<and> ms_vals s' (tl ns) = tl (ms_vals s ns)
     \<and> ms_count (ms_Q s') = ms_count (ms_Q s) - 1 \<and> sigblocked s' = sigblocked s"
proof -
  define lagged where "lagged \<longleftrightarrow> ptr (ms_Tail (ms_Q s)) = hd ns"
  define s0 where "s0 = s\<lparr>sigblocked := True\<rparr>"
  have sh0: "ms_shape lag s0 ns" using sh by (simp add: ms_shape_def s0_def)
  have lh: "lag" if lagged
    using that sh ne by (cases lag; cases ns) (auto simp: lagged_def ms_shape_def split: if_splits)
  define s1 where "s1 = (if lagged then s0\<lparr>ms_Q := (ms_Q s0)\<lparr>ms_Tail :=
      \<lparr>ptr = last ns, pcount = pcount (ms_Tail (ms_Q s0)) + 1\<rparr>\<rparr>\<rparr> else s0)"
  let ?lag = "lag \<and> \<not> lagged"
  have sh1: "ms_shape ?lag s1 ns"
    using sh0 lh ms_advance_shape [OF _ refl] by (cases lagged) (auto simp: s1_def)
  have "last ns \<in> set (tl ns)" using ne by (metis last_in_set last_tl)
  then have "last ns \<noteq> hd ns" using sh by (cases ns) (auto simp: ms_shape_def)
  then have nt: "ptr (ms_Tail (ms_Q s1)) \<noteq> hd ns" by (simp add: s1_def lagged_def s0_def)
  let ?s2 = "s1\<lparr>ms_Q := (ms_Q s1)\<lparr>ms_Head :=
       \<lparr>ptr = hd (tl ns), pcount = pcount (ms_Head (ms_Q s1)) + 1\<rparr>\<rparr>\<rparr>"
  have loop: "ms_deq_loop 2 s0 = Inr (Some (ms_Head (ms_Q s1), hd (ms_vals s1 ns)), ?s2)"
  proof (cases lagged)
    case True
    have eq0: "ptr (ms_Tail (ms_Q s0)) = hd ns" using True by (simp add: lagged_def s0_def)
    from sh0 lh True have "ms_shape True s0 ns" by simp
    from ms_deq_help [OF this eq0, of 1] ms_deq_turn [OF sh1 ne nt, of 0] True
    show ?thesis by (simp add: s1_def numeral_2_eq_2)
  next
    case False
    with ms_deq_turn [OF sh1 ne nt, of 1] show ?thesis by (simp add: s1_def numeral_2_eq_2)
  qed
  let ?s' = "?s2\<lparr>ms_heap := (ms_heap s1)(hd ns := None),
     ms_Q := (ms_Q ?s2)\<lparr>ms_count := ms_count (ms_Q s1) - 1\<rparr>, sigblocked := sigblocked s\<rparr>"
  have vals: "ms_vals s1 ns = ms_vals s ns" by (simp add: ms_vals_def s1_def s0_def)
  have "ms_dequeue 2 s = Inr (Some (hd (ms_vals s ns)), ?s')"
    using loop vals ms_shape_head(2) [OF sh1]
    by (simp add: ms_dequeue_def Let_def s0_def [symmetric] atomic_dec_def)
  moreover have "ms_shape ?lag ?s' (tl ns)" "ms_vals ?s' (tl ns) = tl (ms_vals s1 ns)"
    using ms_unlink_shape [OF sh1 ne nt, of ?s'] by simp_all
  moreover have "ms_count (ms_Q s1) = ms_count (ms_Q s)" by (simp add: s1_def s0_def)
  ultimately show ?thesis using vals
    by (intro exI [of _ ?s'] exI [of _ ?lag]) simp
qed

lemma ms_new_queue_repr:
  assumes "ms_aligned q" "ms_aligned a"
  shows "\<exists>s'. ms_new_queue q a junk s = Inr s' \<and> ms_repr s' [] \<and> sigblocked s' = sigblocked s"
proof -
  let ?s' = "s\<lparr>ms_addr := q, ms_heap := (ms_heap s)(a \<mapsto> junk\<lparr>ms_next := (ms_next junk)\<lparr>ptr := 0\<rparr>\<rparr>),
     ms_Q := \<lparr>ms_Head = \<lparr>ptr = a, pcount = 0\<rparr>, ms_Tail = \<lparr>ptr = a, pcount = 0\<rparr>, ms_count = 0\<rparr>\<rparr>"
  have nz: "q \<noteq> 0" "a \<noteq> 0" using assms by (auto simp: ms_aligned_def)
  then have "ms_new_queue q a junk s = Inr ?s'"
    by (simp add: ms_new_queue_def ms_initialize_def ms_new_node_def)
  moreover have "ms_shape False ?s' [a]" using assms nz by (simp add: ms_shape_def)
  then have "ms_repr ?s' []" unfolding ms_repr_def by (intro exI [of _ "[a]"]) (simp add: ms_vals_def)
  ultimately show ?thesis by simp
qed

interpretation ms: fifo_queue "ms_queue_ops junk" ms_repr ms_fresh
proof
  show "\<exists>q'. q_enqueue (ms_queue_ops junk) a v q = Inr q' \<and> ms_repr q' (xs @ [v])"
    if "ms_repr q xs" "ms_fresh q a" for q xs a v
  proof -
    from that(1) obtain ns where ns: "ms_shape False q ns" "xs = ms_vals q ns"
      "ms_count (ms_Q q) = of_nat (length xs)"
      unfolding ms_repr_def by blast
    from ms_enqueue_shape [OF ns(1) that(2), of junk v] obtain q' where
      "ms_enqueue 2 a junk v q = Inr q'" "ms_shape False q' (ns @ [a])"
      "ms_vals q' (ns @ [a]) = ms_vals q ns @ [v]" "ms_count (ms_Q q') = ms_count (ms_Q q) + 1"
      by blast
    with ns show ?thesis by (auto simp: ms_queue_ops_def ms_repr_def)
  qed
  show "\<exists>q'. q_dequeue (ms_queue_ops junk) q = Inr (None, q') \<and> ms_repr q' []"
    if "ms_repr q []" for q
  proof -
    from that obtain ns where ns: "ms_shape False q ns" "ms_vals q ns = []" "ms_count (ms_Q q) = 0"
      unfolding ms_repr_def by auto
    then have "tl ns = []" by (simp add: ms_vals_def)
    with ns ms_dequeue_empty [OF ns(1), of 1] show ?thesis
      by (auto simp: ms_queue_ops_def ms_repr_def ms_shape_def ms_vals_def numeral_2_eq_2)
  qed
  show "\<exists>q'. q_dequeue (ms_queue_ops junk) q = Inr (Some x, q') \<and> ms_repr q' xs"
    if "ms_repr q (x # xs)" for q x xs
  proof -
    from that obtain ns where ns: "ms_shape False q ns" "x # xs = ms_vals q ns"
      "ms_count (ms_Q q) = of_nat (length (x # xs))"
      unfolding ms_repr_def by metis
    then have "tl ns \<noteq> []" by (auto simp: ms_vals_def)
    from ms_dequeue_shape [OF ns(1) this] obtain q' where
      "ms_dequeue 2 q = Inr (Some (hd (ms_vals q ns)), q')" "ms_shape False q' (tl ns)"
      "ms_vals q' (tl ns) = tl (ms_vals q ns)" "ms_count (ms_Q q') = ms_count (ms_Q q) - 1"
      by auto
    with ns(2,3) show ?thesis
      by (metis (no_types, lifting) add_diff_cancel_left' length_Cons list.sel(1,3) ms_queue_ops_def
          ms_repr_def of_nat_Suc queue_ops.select_convs(2))
  qed
  show "q_get_size (ms_queue_ops junk) q = int (length xs)"
    if "ms_repr q xs" "length xs < 2 ^ 63" for q xs
    using that by (auto simp: ms_queue_ops_def ms_get_size_def ms_repr_def sint_of_nat_64)
qed

section \<open>Interleaving\<close>

text \<open>
  The accesses of the two operations to shared memory, one per step, for any number of
  threads. The names follow the local variables of the source: \<open>E_cmp node tail next\<close> is an
  \<open>enqueue\<close> that has read \<open>tail\<close> and \<open>next\<close> and is about to execute \<open>cmp128\<close>.
\<close>

datatype ms_pc =
    M_idle
  | E_tail addr
  | E_next addr pointer_t
  | E_cmp addr pointer_t pointer_t
  | E_link addr pointer_t pointer_t
  | E_help addr pointer_t pointer_t
  | E_swing addr pointer_t
  | E_count
  | D_head
  | D_tail pointer_t
  | D_next pointer_t pointer_t
  | D_cmp pointer_t pointer_t pointer_t
  | D_help pointer_t pointer_t pointer_t
  | D_value pointer_t pointer_t
  | D_swing pointer_t pointer_t u64
  | D_free pointer_t u64
  | D_count u64

record ms_sys = ms_state +
  mpc :: "nat \<Rightarrow> ms_pc"
  returned :: "(nat \<times> u64 option) list"

datatype ms_event = Start_enq nat u64 addr ms_node | Start_deq nat | Step nat

definition ms_at :: "nat \<Rightarrow> ms_pc \<Rightarrow> ms_sys \<Rightarrow> ms_sys" where
  "ms_at i pc s = s\<lparr>mpc := (mpc s)(i := pc)\<rparr>"

definition set_Tail :: "pointer_t \<Rightarrow> ms_sys \<Rightarrow> ms_sys" where
  "set_Tail T s = s\<lparr>ms_Q := (ms_Q s)\<lparr>ms_Tail := T\<rparr>\<rparr>"

definition set_Head :: "pointer_t \<Rightarrow> ms_sys \<Rightarrow> ms_sys" where
  "set_Head H s = s\<lparr>ms_Q := (ms_Q s)\<lparr>ms_Head := H\<rparr>\<rparr>"

definition ms_enq_step :: "nat \<Rightarrow> ms_sys \<Rightarrow> ms_sys result" where
  "ms_enq_step i s = (case mpc s i of
     E_tail node \<Rightarrow> Inr (ms_at i (E_next node (ms_Tail (ms_Q s))) s)
   | E_next node tail \<Rightarrow>
       bind_result (load (ms_heap s) (ptr tail)) (\<lambda>tn. Inr (ms_at i (E_cmp node tail (ms_next tn)) s))
   | E_cmp node tail next \<Rightarrow>
       bind_result (cmp128 (ms_addr s + 16) (ms_Tail (ms_Q s)) tail) (\<lambda>(same, T).
         Inr (ms_at i (if same \<noteq> 0 then
                      if ptr next = 0 then E_link node tail next else E_help node tail next
                    else E_tail node) (set_Tail T s)))
   | E_link node tail next \<Rightarrow>
       bind_result (load (ms_heap s) (ptr tail)) (\<lambda>tn.
       bind_result (CAS (ptr tail) (ms_next tn) next \<lparr>ptr = node, pcount = pcount next + 1\<rparr>)
         (\<lambda>(ok, nx). Inr (ms_at i (if ok \<noteq> 0 then E_swing node tail else E_tail node)
           (s\<lparr>ms_heap := (ms_heap s)(ptr tail \<mapsto> tn\<lparr>ms_next := nx\<rparr>)\<rparr>))))
   | E_help node tail next \<Rightarrow>
       bind_result (CAS (ms_addr s + 16) (ms_Tail (ms_Q s)) tail
           \<lparr>ptr = ptr next, pcount = pcount tail + 1\<rparr>)
         (\<lambda>(ok, T). Inr (ms_at i (E_tail node) (set_Tail T s)))
   | E_swing node tail \<Rightarrow>
       bind_result (CAS (ms_addr s + 16) (ms_Tail (ms_Q s)) tail
           \<lparr>ptr = node, pcount = pcount tail + 1\<rparr>)
         (\<lambda>(ok, T). Inr (ms_at i E_count (set_Tail T s)))
   | E_count \<Rightarrow>
       Inr (ms_at i M_idle (s\<lparr>ms_Q := (ms_Q s)\<lparr>ms_count := atomic_inc (ms_count (ms_Q s))\<rparr>\<rparr>))
   | _ \<Rightarrow> Inr s)"

definition ms_deq_step :: "nat \<Rightarrow> ms_sys \<Rightarrow> ms_sys result" where
  "ms_deq_step i s = (case mpc s i of
     D_head \<Rightarrow> Inr (ms_at i (D_tail (ms_Head (ms_Q s))) s)
   | D_tail head \<Rightarrow> Inr (ms_at i (D_next head (ms_Tail (ms_Q s))) s)
   | D_next head tail \<Rightarrow>
       bind_result (load (ms_heap s) (ptr head)) (\<lambda>hn. Inr (ms_at i (D_cmp head tail (ms_next hn)) s))
   | D_cmp head tail next \<Rightarrow>
       bind_result (cmp128 (ms_addr s) (ms_Head (ms_Q s)) head) (\<lambda>(same, H).
         if same \<noteq> 0 then
           if ptr head = ptr tail then
             if ptr next = 0
             then Inr (ms_at i M_idle ((set_Head H s)\<lparr>returned := returned s @ [(i, None)]\<rparr>))
             else Inr (ms_at i (D_help head tail next) (set_Head H s))
           else Inr (ms_at i (D_value head next) (set_Head H s))
         else Inr (ms_at i D_head (set_Head H s)))
   | D_help head tail next \<Rightarrow>
       bind_result (CAS (ms_addr s + 16) (ms_Tail (ms_Q s)) tail
           \<lparr>ptr = ptr next, pcount = pcount tail + 1\<rparr>)
         (\<lambda>(ok, T). Inr (ms_at i D_head (set_Tail T s)))
   | D_value head next \<Rightarrow>
       bind_result (load (ms_heap s) (ptr next)) (\<lambda>m. Inr (ms_at i (D_swing head next (ms_value m)) s))
   | D_swing head next v \<Rightarrow>
       bind_result (CAS (ms_addr s) (ms_Head (ms_Q s)) head
           \<lparr>ptr = ptr next, pcount = pcount head + 1\<rparr>)
         (\<lambda>(ok, H). Inr (ms_at i (if ok \<noteq> 0 then D_free head v else D_head) (set_Head H s)))
   | D_free head v \<Rightarrow>
       bind_result (load (ms_heap s) (ptr head)) (\<lambda>_.
         Inr (ms_at i (D_count v) (s\<lparr>ms_heap := (ms_heap s)(ptr head := None)\<rparr>)))
   | D_count v \<Rightarrow>
       Inr (ms_at i M_idle (s\<lparr>ms_Q := (ms_Q s)\<lparr>ms_count := atomic_dec (ms_count (ms_Q s))\<rparr>,
                           returned := returned s @ [(i, Some v)]\<rparr>))
   | _ \<Rightarrow> Inr s)"

fun is_enq :: "ms_pc \<Rightarrow> bool" where
  "is_enq (E_tail _) = True"
| "is_enq (E_next _ _) = True"
| "is_enq (E_cmp _ _ _) = True"
| "is_enq (E_link _ _ _) = True"
| "is_enq (E_help _ _ _) = True"
| "is_enq (E_swing _ _) = True"
| "is_enq E_count = True"
| "is_enq _ = False"

fun ms_exec :: "ms_event \<Rightarrow> ms_sys \<Rightarrow> ms_sys result option" where
  "ms_exec (Start_enq i v a junk) s =
     (if mpc s i = M_idle \<and> (a = 0 \<or> ms_heap s a = None) then
        Some (bind_result (ms_new_node a junk (ms_heap s)) (\<lambda>h.
          Inr (ms_at i (E_tail a) (s\<lparr>ms_heap := h(a \<mapsto>
            junk\<lparr>ms_value := v, ms_next := (ms_next junk)\<lparr>ptr := 0\<rparr>\<rparr>)\<rparr>))))
      else None)"
| "ms_exec (Start_deq i) s = (if mpc s i = M_idle then Some (Inr (ms_at i D_head s)) else None)"
| "ms_exec (Step i) s = (if mpc s i = M_idle then None
     else Some (if is_enq (mpc s i) then ms_enq_step i s else ms_deq_step i s))"

fun ms_run :: "ms_event list \<Rightarrow> ms_sys \<Rightarrow> ms_sys result option" where
  "ms_run [] s = Some (Inr s)"
| "ms_run (e # es) s = (case ms_exec e s of
     None \<Rightarrow> None
   | Some (Inl f) \<Rightarrow> Some (Inl f)
   | Some (Inr t) \<Rightarrow> ms_run es t)"

definition ms_init :: "ms_state \<Rightarrow> ms_sys" where
  "ms_init q = \<lparr>ms_addr = ms_addr q, ms_heap = ms_heap q, ms_Q = ms_Q q,
     sigblocked = sigblocked q, mpc = (\<lambda>_. M_idle), returned = []\<rparr>"

section \<open>Properties\<close>

definition ms_junk :: ms_node where
  "ms_junk = \<lparr>ms_next = \<lparr>ptr = 5, pcount = 3\<rparr>, ms_value = 9\<rparr>"

definition ms_blank :: ms_state where
  "ms_blank = \<lparr>ms_addr = 0, ms_heap = Map.empty,
     ms_Q = \<lparr>ms_Head = \<lparr>ptr = 0, pcount = 0\<rparr>, ms_Tail = \<lparr>ptr = 0, pcount = 0\<rparr>, ms_count = 0\<rparr>,
     sigblocked = False\<rparr>"

text \<open>A concrete queue object at 160 with its dummy node at 16.\<close>

definition ms_ex :: ms_state where
  "ms_ex = \<lparr>ms_addr = 160, ms_heap = [16 \<mapsto> ms_junk\<lparr>ms_next := \<lparr>ptr = 0, pcount = 3\<rparr>\<rparr>],
     ms_Q = \<lparr>ms_Head = \<lparr>ptr = 16, pcount = 0\<rparr>, ms_Tail = \<lparr>ptr = 16, pcount = 0\<rparr>, ms_count = 0\<rparr>,
     sigblocked = False\<rparr>"

lemma ms_ex_new: "ms_new_queue 160 16 ms_junk ms_blank = Inr ms_ex"
  by (simp add: ms_new_queue_def ms_initialize_def ms_new_node_def ms_blank_def ms_ex_def ms_junk_def)

lemmas ms_run_simps = ms_ex_def ms_init_def ms_junk_def ms_enq_step_def ms_deq_step_def ms_at_def
  set_Tail_def set_Head_def load_def cmp128_def CAS_def ptr_pair_def
  atomic_compare_exchange16b_def ms_new_node_def atomic_inc_def atomic_dec_def

text \<open>
  C3. The lock-free queue, used by one thread, is a FIFO queue as well: any sequence of calls
  on a new queue returns what the same calls on a list return; every retry loop ends within
  two turns; afterwards \<open>queue_get_size\<close> is the number of elements.
\<close>

theorem ms_refines_list:
  assumes "ms_aligned q" "ms_aligned a"
    and "\<And>s. ms_new_queue q a junk s0 = Inr s \<Longrightarrow> fresh_run (ms_queue_ops junk) ms_fresh os s"
    and "length (snd (spec_ops os [])) < 2 ^ 63"
  shows "\<exists>s s'. ms_new_queue q a junk s0 = Inr s
     \<and> run_ops (ms_queue_ops junk) os s = Inr (fst (spec_ops os []), s')
     \<and> ms_get_size s' = int (length (snd (spec_ops os [])))"
proof -
  obtain s where s: "ms_new_queue q a junk s0 = Inr s" "ms_repr s []"
    using ms_new_queue_repr [OF assms(1,2)] by blast
  from ms.run_ops_refines [OF s(2) assms(3) [OF s(1)]] obtain s'
    where r: "run_ops (ms_queue_ops junk) os s = Inr (fst (spec_ops os []), s')"
      and "ms_repr s' (snd (spec_ops os []))" by blast
  then have "q_get_size (ms_queue_ops junk) s' = int (length (snd (spec_ops os [])))"
    using ms.get_size_repr assms(4) by blast
  with s(1) r show ?thesis by (auto simp: ms_queue_ops_def)
qed

theorem ms_refines_list_witness:
  "\<exists>s s'. ms_new_queue 160 16 ms_junk ms_blank = Inr s
     \<and> run_ops (ms_queue_ops ms_junk) [Enq 5 32, Deq, Deq] s = Inr ([Some 5, None], s')
     \<and> ms_get_size s' = 0"
proof -
  have fr: "fresh_run (ms_queue_ops ms_junk) ms_fresh [Enq 5 32, Deq, Deq] s"
    if "ms_new_queue 160 16 ms_junk ms_blank = Inr s" for s
  proof -
    from that ms_ex_new have s: "s = ms_ex" by simp
    then have "ms_fresh s 32" by (simp add: ms_fresh_def ms_aligned_def ms_ex_def)
    then show ?thesis by (simp split: sum.splits prod.splits)
  qed
  show ?thesis
    using ms_refines_list [of 160 16 ms_junk ms_blank "[Enq 5 32, Deq, Deq]", OF _ _ fr]
    by (simp add: ms_aligned_def)
qed

text \<open>
  C4. A lagging \<open>Tail\<close> is repaired by whoever meets it: if another thread has linked a node
  and stopped before it advanced \<open>Tail\<close>, both \<open>enqueue\<close> and \<open>dequeue\<close> still return within two
  turns of their loops, with the right element and in FIFO order, the stopped thread's element
  included.
\<close>

theorem ms_helps_stalled_enqueue:
  assumes "ms_shape True s ns" "ms_fresh s a"
  shows "(\<exists>s'. ms_enqueue 2 a junk v s = Inr s' \<and> ms_shape False s' (ns @ [a])
            \<and> ms_vals s' (ns @ [a]) = ms_vals s ns @ [v])
       \<and> (\<exists>s' lag. ms_dequeue 2 s = Inr (Some (hd (ms_vals s ns)), s') \<and> ms_shape lag s' (tl ns)
            \<and> ms_vals s' (tl ns) = tl (ms_vals s ns))"
proof -
  have "tl ns \<noteq> []" using assms(1) by (simp add: ms_shape_def)
  then show ?thesis
    using ms_enqueue_shape [OF assms, of junk v] ms_dequeue_shape [OF assms(1)] by blast
qed

definition ms_lagging :: ms_state where
  "ms_lagging = ms_ex\<lparr>ms_heap := [16 \<mapsto> \<lparr>ms_next = \<lparr>ptr = 32, pcount = 4\<rparr>, ms_value = 9\<rparr>,
     32 \<mapsto> \<lparr>ms_next = \<lparr>ptr = 0, pcount = 1\<rparr>, ms_value = 7\<rparr>]\<rparr>"

theorem ms_helps_stalled_enqueue_witness:
  "\<exists>s'. ms_dequeue 2 ms_lagging = Inr (Some 7, s')"
proof -
  have "ms_shape True ms_lagging [16, 32]" "ms_fresh ms_lagging 48"
    by (simp_all add: ms_shape_def ms_lagging_def ms_ex_def ms_aligned_def ms_fresh_def ms_succ_def)
  from ms_helps_stalled_enqueue [OF this] show ?thesis
    by (auto simp: ms_vals_def ms_val_def ms_lagging_def)
qed

text \<open>
  C5. \<open>dequeue\<close> on an empty queue leaves every signal of the calling thread blocked: the call
  that would restore the signal mask stands behind the \<open>return\<close>. Both operations restore the
  mask on their other paths.
\<close>

theorem ms_dequeue_empty_blocks_signals:
  assumes "ms_repr s xs" "ms_fresh s a"
  shows "(\<exists>s'. ms_enqueue 2 a junk v s = Inr s' \<and> sigblocked s' = sigblocked s)
     \<and> (xs \<noteq> [] \<longrightarrow> (\<exists>x s'. ms_dequeue 2 s = Inr (Some x, s') \<and> sigblocked s' = sigblocked s))
     \<and> (xs = [] \<longrightarrow> (\<exists>s'. ms_dequeue 2 s = Inr (None, s') \<and> sigblocked s'))"
proof -
  from assms(1) obtain ns where ns: "ms_shape False s ns" "xs = ms_vals s ns"
    unfolding ms_repr_def by blast
  have "tl ns = [] \<longleftrightarrow> xs = []" using ns(2) by (simp add: ms_vals_def)
  with ns ms_dequeue_shape [OF ns(1)] ms_dequeue_empty [OF ns(1), of 1] ms_enqueue_shape [OF ns(1) assms(2), of junk v]
  show ?thesis by (auto simp: numeral_2_eq_2)
qed

theorem ms_dequeue_empty_blocks_signals_witness:
  "\<exists>s'. \<not> sigblocked ms_ex \<and> ms_dequeue 2 ms_ex = Inr (None, s') \<and> sigblocked s'"
proof -
  have "ms_repr ms_ex []" using ms_new_queue_repr [of 160 16 ms_junk ms_blank] ms_ex_new
    by (auto simp: ms_aligned_def)
  moreover have "ms_fresh ms_ex 32" by (simp add: ms_fresh_def ms_ex_def ms_aligned_def)
  ultimately show ?thesis using ms_dequeue_empty_blocks_signals [of ms_ex "[]" 32]
    by (simp add: ms_ex_def)
qed

text \<open>
  With the nodes returned to \<open>malloc\<close> as soon as they are unlinked, the lock-free queue is
  not memory safe under concurrency: an \<open>enqueue\<close> that has read \<open>Q->Tail\<close> and is delayed while
  other threads complete one \<open>enqueue\<close> and one \<open>dequeue\<close> reads the \<open>next\<close> field of a freed node.
\<close>

theorem ms_use_after_free:
  "\<exists>es. ms_run es (ms_init ms_ex) = Some (Inl Dangling_deref)"
proof -
  let ?es = "[Start_enq 0 7 32 ms_junk, Step 0, Start_enq 1 8 48 ms_junk, Step 1, Step 1, Step 1,
     Step 1, Step 1, Step 1, Start_deq 2, Step 2, Step 2, Step 2, Step 2, Step 2, Step 2, Step 2,
     Step 0]"
  have "ms_run ?es (ms_init ms_ex) = Some (Inl Dangling_deref)"
    by (simp add: ms_run_simps)
  then show ?thesis by blast
qed

end
