(* ===== verification/Coremu_Utils.thy ===== *)
theory Coremu_Utils
  imports Atomic
begin

text \<open>
  \<open>main/utils.c\<close> and \<open>main/malloc-helper.c\<close>: time arithmetic, the time stamp counter,
  random numbers and the allocation wrappers.
\<close>

section \<open>Time\<close>

record timespec =
  ts_sec :: int
  ts_nsec :: int

definition maketimeout :: "int \<Rightarrow> timespec" where
  "maketimeout seconds = \<lparr>ts_sec = seconds, ts_nsec = 0\<rparr>"

record timeval =
  tv_sec :: int
  tv_usec :: int

text \<open>
  \<open>timeval_subtract(result, x, y)\<close>: the returned flag, the result and the new value of \<open>*y\<close>,
  which the carries are written to.
\<close>

definition timeval_subtract :: "timeval \<Rightarrow> timeval \<Rightarrow> bool \<times> timeval \<times> timeval" where
  "timeval_subtract x y0 =
     (let y1 = (if tv_usec x < tv_usec y0 then
                  let nsec = c_div (tv_usec y0 - tv_usec x) 1000000 + 1
                  in y0\<lparr>tv_usec := tv_usec y0 - 1000000 * nsec, tv_sec := tv_sec y0 + nsec\<rparr>
                else y0);
          y2 = (if tv_usec x - tv_usec y1 > 1000000 then
                  let nsec = c_div (tv_usec x - tv_usec y1) 1000000
                  in y1\<lparr>tv_usec := tv_usec y1 + 1000000 * nsec, tv_sec := tv_sec y1 - nsec\<rparr>
                else y1)
      in (tv_sec x < tv_sec y2,
          \<lparr>tv_sec = tv_sec x - tv_sec y2, tv_usec = tv_usec x - tv_usec y2\<rparr>, y2))"

text \<open>\<open>rdtsc\<close> returns the counter in two 32-bit halves.\<close>

definition read_host_tsc :: "u32 \<Rightarrow> u32 \<Rightarrow> u64" where
  "read_host_tsc a d = ucast a OR push_bit 32 (ucast d)"

text \<open>\<open>rnd\<close> is what \<open>random()\<close> returned.\<close>

definition coremu_random :: "int \<Rightarrow> int \<Rightarrow> int \<Rightarrow> int result" where
  "coremu_random rnd mn mx =
     (if mx - mn = 0 then Inl Div_by_zero else Inr (c_mod rnd (mx - mn) + mn))"

definition coremu_fopen :: "addr \<Rightarrow> addr result" where
  "coremu_fopen stream = (if stream \<noteq> 0 then Inr stream else Inl Assert_failed)"

section \<open>Allocation\<close>

text \<open>\<open>p\<close> is what \<open>malloc\<close> or \<open>realloc\<close> returned. A block is its list of bytes.\<close>

type_synonym blocks = "addr \<rightharpoonup> u8 list"

definition oom_check :: "addr \<Rightarrow> addr result" where
  "oom_check p = (if p = 0 then Inl Aborted else Inr p)"

definition coremu_malloc :: "addr \<Rightarrow> u8 list \<Rightarrow> blocks \<Rightarrow> (addr \<times> blocks) result" where
  "coremu_malloc p junk m = bind_result (oom_check p) (\<lambda>p. Inr (p, m(p \<mapsto> junk)))"

definition coremu_mallocz :: "addr \<Rightarrow> u8 list \<Rightarrow> blocks \<Rightarrow> (addr \<times> blocks) result" where
  "coremu_mallocz p junk m = bind_result (coremu_malloc p junk m) (\<lambda>(p, m').
     Inr (p, m'(p \<mapsto> replicate (length junk) 0)))"

definition coremu_realloc_size :: "nat \<Rightarrow> nat" where
  "coremu_realloc_size sz = (if sz \<noteq> 0 then sz else 1)"

text \<open>
  \<open>realloc\<close> keeps the common prefix of the old contents; \<open>junk\<close> fills the rest. The requested
  size is \<open>coremu_realloc_size size\<close>.
\<close>

definition coremu_realloc :: "addr \<Rightarrow> u8 list \<Rightarrow> addr \<Rightarrow> nat \<Rightarrow> blocks \<Rightarrow> (addr \<times> blocks) result"
  where
  "coremu_realloc p junk old sz m = bind_result (oom_check p) (\<lambda>p.
     let n = coremu_realloc_size sz;
         before = (case m old of None \<Rightarrow> [] | Some bs \<Rightarrow> bs);
         new = take n before @ take (n - length before) junk
     in Inr (p, (m(old := None))(p \<mapsto> new)))"

definition coremu_free :: "addr \<Rightarrow> blocks \<Rightarrow> blocks" where
  "coremu_free p m = (if p = 0 then m else m(p := None))"

text \<open>
  \<open>coremu_atomic_mallocz(pp, size)\<close>: install a zeroed block in \<open>*pp\<close> unless another thread has
  installed one. \<open>pp\<close> is the contents of the pointer cell when the compare-and-swap executes.
\<close>

definition coremu_atomic_mallocz ::
  "addr \<Rightarrow> u8 list \<Rightarrow> u64 \<Rightarrow> blocks \<Rightarrow> (bool \<times> u64 \<times> blocks) result" where
  "coremu_atomic_mallocz p junk pp m = bind_result (coremu_mallocz p junk m) (\<lambda>(p, m').
     let (res, pp') = atomic_compare_exchange pp 0 (of_nat p);
         m'' = (if res \<noteq> 0 then coremu_free p m' else m')
     in Inr (res = 0, pp', m''))"

section \<open>Lemmas\<close>

definition tv_micro :: "timeval \<Rightarrow> int" where
  "tv_micro t = tv_sec t * 1000000 + tv_usec t"

lemma timeval_subtract_value:
  "timeval_subtract x y = (neg, r, y') \<Longrightarrow> tv_micro r = tv_micro x - tv_micro y \<and> tv_micro y' = tv_micro y"
  by (auto simp: timeval_subtract_def Let_def tv_micro_def split: if_splits)

definition tv_normal :: "timeval \<Rightarrow> bool" where
  "tv_normal t \<longleftrightarrow> 0 \<le> tv_usec t \<and> tv_usec t < 1000000"

section \<open>Properties\<close>

text \<open>
  \<open>timeval_subtract\<close> on normalised times: the result is normalised, it is the exact
  difference in microseconds, and the flag says whether the difference is negative; the time
  that the carried \<open>*y\<close> denotes is unchanged.
\<close>

theorem timeval_subtract_correct:
  assumes "tv_normal x" "tv_normal y" "timeval_subtract x y = (neg, r, y')"
  shows "tv_normal r \<and> tv_micro r = tv_micro x - tv_micro y
     \<and> (neg \<longleftrightarrow> tv_micro x < tv_micro y) \<and> tv_micro y' = tv_micro y"
proof -
  have d: "c_div (tv_usec y - tv_usec x) 1000000 = 0" if "tv_usec x < tv_usec y"
    using that assms(1,2) by (simp add: tv_normal_def)
  have n: "tv_normal r \<and> (neg \<longleftrightarrow> tv_sec r < 0)"
    using assms d by (auto simp: timeval_subtract_def Let_def tv_normal_def split: if_splits)
  have v: "tv_micro r = tv_micro x - tv_micro y \<and> tv_micro y' = tv_micro y"
    by (rule timeval_subtract_value [OF assms(3)])
  have "tv_micro r < 0 \<longleftrightarrow> tv_sec r < 0"
    using n by (auto simp: tv_micro_def tv_normal_def)
  with n v show ?thesis by auto
qed

theorem timeval_subtract_correct_witness:
  "timeval_subtract \<lparr>tv_sec = 5, tv_usec = 100\<rparr> \<lparr>tv_sec = 3, tv_usec = 200\<rparr>
     = (False, \<lparr>tv_sec = 1, tv_usec = 999900\<rparr>, \<lparr>tv_sec = 4, tv_usec = -999800\<rparr>)
   \<and> tv_normal \<lparr>tv_sec = 1, tv_usec = 999900\<rparr>"
proof -
  have e: "timeval_subtract \<lparr>tv_sec = 5, tv_usec = 100\<rparr> \<lparr>tv_sec = 3, tv_usec = 200\<rparr>
     = (False, \<lparr>tv_sec = 1, tv_usec = 999900\<rparr>, \<lparr>tv_sec = 4, tv_usec = -999800\<rparr>)"
    by (simp add: timeval_subtract_def)
  show ?thesis using timeval_subtract_correct [OF _ _ e] e by (simp add: tv_normal_def)
qed

text \<open>
  \<open>coremu_atomic_mallocz\<close> installs a block exactly when the cell was empty: then it reports
  success, the cell holds the new zeroed block and nothing else changes. Otherwise it reports
  failure, the cell keeps its value and the new block is freed again, so no memory is leaked.
\<close>

theorem coremu_atomic_mallocz_correct:
  assumes "p \<noteq> 0" "m p = None"
  shows "coremu_atomic_mallocz p junk pp m =
     (if pp = 0 then Inr (True, of_nat p, m(p \<mapsto> replicate (length junk) 0))
      else Inr (False, pp, m))"
proof -
  have "(m(p := None)) = m" using assms(2) by auto
  then show ?thesis using assms(1)
    by (simp add: coremu_atomic_mallocz_def coremu_mallocz_def coremu_malloc_def oom_check_def
        atomic_compare_exchange_def coremu_free_def)
qed

theorem coremu_atomic_mallocz_correct_witness:
  "coremu_atomic_mallocz 64 [1, 2] 0 Map.empty = Inr (True, 64, [64 \<mapsto> [0, 0]])"
  using coremu_atomic_mallocz_correct [of 64 Map.empty "[1, 2]" 0] by simp

end
