(* ===== verification/Coremu.thy ===== *)
theory Coremu
  imports Queue_Spec Coremu_Utils
begin

text \<open>
  The emulation library proper: core objects (\<open>main/core.c\<close>, \<open>main/core.h\<close>), the hardware
  thread (\<open>main/hw.c\<close>), scheduling support (\<open>main/sched.c\<close>) and interrupt delivery with its
  adaptive signalling (\<open>main/intr.c\<close>).

  The state is a record of the global variables of these files. Thread-local variables are
  maps from threads, and the calling thread (what \<open>pthread_self()\<close> returns) is the argument
  \<open>me\<close>. The queue of a core is of any type \<open>'q\<close>, with its operations as an argument. What
  the program asks of the operating system and of the emulator (priorities, signals, sleeping,
  the registered callbacks) is recorded in order in \<open>effects\<close>.
\<close>

section \<open>Data\<close>

datatype CMCoreState = CM_STATE_RUN | CM_STATE_HALT | CM_STATE_PAUSE

datatype CMSchedEvent = CM_EVENT_HALTED | CM_EVENT_PAUSE | CM_EVENT_CNT

type_synonym thread_id = nat

record 'q CMCore =
  serial :: u32
  thread :: thread_id
  tid :: int
  intr_queue :: 'q
  time_stamp :: u64
  intr_thresh_hold :: u64
  sig_pending :: u8
  opaque :: u64
  core_state :: CMCoreState

datatype effect =
    Eff_setpriority int int
  | Eff_kill thread_id
  | Eff_kill_hw int
  | Eff_notify thread_id
  | Eff_handle u64
  | Eff_yield
  | Eff_nanosleep int
  | Eff_bind int

record 'q coremu =
  cm_smp_cpus :: int
  cm_cores :: "'q CMCore list"
  cm_core_self :: "thread_id \<rightharpoonup> nat"
  init_done :: bool
  hw_thrid :: thread_id
  ioreq_exit :: u32
  host_cpu_avail :: int
  min_prio :: int
  max_prio :: int
  low_prio :: int
  avg_prio :: int
  high_prio :: int
  topo_cores :: int
  pause_cnt :: "thread_id \<Rightarrow> u64"
  event_handler :: bool
  event_notifier :: bool
  effects :: "effect list"

text \<open>
  The host: return values of \<open>setpriority\<close> (by \<open>who\<close> and \<open>prio\<close>), of \<open>sysconf\<close>, of
  \<open>pthread_create\<close> (the error and the new thread, by core number), the kernel thread id of a
  thread, its scheduling policy check, and the result of binding it to a processor.
\<close>

record host =
  os_setpriority :: "int \<Rightarrow> int \<Rightarrow> int"
  os_nprocs :: int
  os_topo_cores :: int
  os_pthread_create :: "nat \<Rightarrow> int \<times> thread_id"
  os_gettid :: "thread_id \<Rightarrow> int"
  os_policy_ok :: "thread_id \<Rightarrow> bool"
  os_cpubind :: "int \<Rightarrow> int"

definition emit :: "effect \<Rightarrow> 'q coremu \<Rightarrow> 'q coremu" where
  "emit e s = s\<lparr>effects := effects s @ [e]\<rparr>"

definition upd_core :: "nat \<Rightarrow> ('q CMCore \<Rightarrow> 'q CMCore) \<Rightarrow> 'q coremu \<Rightarrow> 'q coremu" where
  "upd_core i f s = s\<lparr>cm_cores := (cm_cores s)[i := f (cm_cores s ! i)]\<rparr>"

section \<open>hw.c\<close>

definition register_hw_thr :: "thread_id \<Rightarrow> 'q coremu \<Rightarrow> 'q coremu" where
  "register_hw_thr me s = s\<lparr>hw_thrid := me\<rparr>"

definition coremu_init_hw :: "thread_id \<Rightarrow> 'q coremu \<Rightarrow> 'q coremu" where
  "coremu_init_hw me s = register_hw_thr me s"

definition coremu_signal_hw_thr :: "int \<Rightarrow> 'q coremu \<Rightarrow> 'q coremu" where
  "coremu_signal_hw_thr signo s = emit (Eff_kill_hw signo) s"

definition coremu_get_hw_id :: "'q coremu \<Rightarrow> thread_id" where
  "coremu_get_hw_id s = hw_thrid s"

definition coremu_hw_thr_p :: "thread_id \<Rightarrow> 'q coremu \<Rightarrow> bool" where
  "coremu_hw_thr_p me s \<longleftrightarrow> me = hw_thrid s"

definition coremu_assert_hw_thr :: "thread_id \<Rightarrow> 'q coremu \<Rightarrow> unit result" where
  "coremu_assert_hw_thr me s = (if hw_thrid s \<noteq> me then Inl Assert_failed else Inr ())"

definition coremu_assert_not_hw_thr :: "thread_id \<Rightarrow> 'q coremu \<Rightarrow> unit result" where
  "coremu_assert_not_hw_thr me s = (if hw_thrid s = me then Inl Assert_failed else Inr ())"

definition coremu_ioreq_exit_p :: "'q coremu \<Rightarrow> u32" where
  "coremu_ioreq_exit_p s = ioreq_exit s"

definition coremu_inc_ioreq_exit :: "'q coremu \<Rightarrow> 'q coremu" where
  "coremu_inc_ioreq_exit s = s\<lparr>ioreq_exit := atomic_inc (ioreq_exit s)\<rparr>"

definition coremu_dec_ioreq_exit :: "'q coremu \<Rightarrow> 'q coremu" where
  "coremu_dec_ioreq_exit s = s\<lparr>ioreq_exit := atomic_dec (ioreq_exit s)\<rparr>"

section \<open>core.h and the accessors of core.c\<close>

definition coremu_assert_core_thr :: "thread_id \<Rightarrow> 'q coremu \<Rightarrow> unit result" where
  "coremu_assert_core_thr me s = (if me = coremu_get_hw_id s then Inl Assert_failed else Inr ())"

text \<open>The index of the first core that runs on thread \<open>me\<close>.\<close>

fun find_core :: "thread_id \<Rightarrow> nat \<Rightarrow> 'q CMCore list \<Rightarrow> nat option" where
  "find_core me i [] = None"
| "find_core me i (c # cs) = (if thread c = me then Some i else find_core me (Suc i) cs)"

text \<open>
  \<open>coremu_get_core_self\<close>: the core of the calling thread, cached in a thread-local variable.
  \<open>None\<close> is the null pointer that an unknown thread gets.
\<close>

definition coremu_get_core_self ::
  "thread_id \<Rightarrow> 'q coremu \<Rightarrow> (nat option \<times> 'q coremu) result" where
  "coremu_get_core_self me s = bind_result (coremu_assert_core_thr me s) (\<lambda>_.
     case cm_core_self s me of
       Some i \<Rightarrow> Inr (Some i, s)
     | None \<Rightarrow>
         (case find_core me 0 (take (nat (cm_smp_cpus s)) (cm_cores s)) of
            None \<Rightarrow> Inr (None, s)
          | Some i \<Rightarrow> Inr (Some i, s\<lparr>cm_core_self := (cm_core_self s)(me \<mapsto> i)\<rparr>)))"

text \<open>Following the returned pointer: the index of an existing core.\<close>

definition self_core :: "thread_id \<Rightarrow> 'q coremu \<Rightarrow> (nat \<times> 'q coremu) result" where
  "self_core me s = bind_result (coremu_get_core_self me s) (\<lambda>(r, s').
     case r of None \<Rightarrow> Inl Null_deref
     | Some i \<Rightarrow> if i < length (cm_cores s') then Inr (i, s') else Inl Dangling_deref)"

section \<open>sched.c\<close>

definition coremu_thread_setpriority :: "host \<Rightarrow> int \<Rightarrow> int \<Rightarrow> 'q coremu \<Rightarrow> 'q coremu result" where
  "coremu_thread_setpriority os who prio s =
     (if os_setpriority os who prio \<noteq> 0 then Inl Assert_failed
      else Inr (emit (Eff_setpriority who prio) s))"

definition topology_init :: "host \<Rightarrow> 'q coremu \<Rightarrow> 'q coremu" where
  "topology_init os s = s\<lparr>topo_cores := os_topo_cores os\<rparr>"

definition coremu_init_sched_all :: "host \<Rightarrow> 'q coremu \<Rightarrow> 'q coremu result" where
  "coremu_init_sched_all os s =
     (let s1 = s\<lparr>host_cpu_avail := os_nprocs os\<rparr>;
          s2 = s1\<lparr>max_prio := -21, min_prio := 19\<rparr>;
          s3 = s2\<lparr>avg_prio := c_div (max_prio s2 + min_prio s2) 2\<rparr>;
          s4 = s3\<lparr>low_prio := c_div (avg_prio s3 + min_prio s3) 2\<rparr>;
          s5 = s4\<lparr>high_prio := c_div (max_prio s4 + avg_prio s4) 2\<rparr>
      in bind_result (coremu_thread_setpriority os 0 (high_prio s5) s5) (\<lambda>s6.
         Inr (topology_init os s6)))"

definition coremu_get_hostcpu :: "'q coremu \<Rightarrow> int" where
  "coremu_get_hostcpu s = host_cpu_avail s"

definition coremu_get_targetcpu :: "'q coremu \<Rightarrow> int" where
  "coremu_get_targetcpu s = cm_smp_cpus s"

definition coremu_get_thrs_per_core :: "'q coremu \<Rightarrow> int result" where
  "coremu_get_thrs_per_core s =
     (if host_cpu_avail s = 0 then Inl Div_by_zero
      else Inr (c_div (host_cpu_avail s + cm_smp_cpus s - 1) (host_cpu_avail s)))"

definition coremu_physical_core_enough_p :: "'q coremu \<Rightarrow> bool" where
  "coremu_physical_core_enough_p s \<longleftrightarrow> host_cpu_avail s \<ge> cm_smp_cpus s"

definition coremu_get_maxprio :: "'q coremu \<Rightarrow> int" where
  "coremu_get_maxprio s = high_prio s"

definition coremu_get_minprio :: "'q coremu \<Rightarrow> int" where
  "coremu_get_minprio s = low_prio s"

text \<open>\<open>topology_bind_core\<close>: \<open>self->serial\<close> is unsigned, and so is \<open>cores\<close>.\<close>

definition topology_bind_core :: "host \<Rightarrow> nat \<Rightarrow> 'q coremu \<Rightarrow> 'q coremu result" where
  "topology_bind_core os i s =
     (if topo_cores s = 0 then Inl Div_by_zero
      else let index = uint (serial (cm_cores s ! i)) mod topo_cores s in
        if os_cpubind os index \<noteq> 0 then Inl Exit_failure else Inr (emit (Eff_bind index) s))"

definition coremu_init_sched_core :: "host \<Rightarrow> thread_id \<Rightarrow> 'q coremu \<Rightarrow> 'q coremu result" where
  "coremu_init_sched_core os me s =
     (if \<not> os_policy_ok os me then Inl Assert_failed
      else bind_result (coremu_thread_setpriority os 0 (avg_prio s) s) (\<lambda>s1.
        bind_result (self_core me s1) (\<lambda>(i, s2).
        topology_bind_core os i (upd_core i (\<lambda>c. c\<lparr>tid := os_gettid os me\<rparr>) s2))))"

definition HALT_SLEEP_MAX_TIME :: int where "HALT_SLEEP_MAX_TIME = 5000000"
definition PAUSE_THRESHOLD :: u64 where "PAUSE_THRESHOLD = 100"
definition PAUSE_SLEEP_TIME :: int where "PAUSE_SLEEP_TIME = 100000"

definition sched_halted :: "thread_id \<Rightarrow> 'q coremu \<Rightarrow> 'q coremu result" where
  "sched_halted me s = bind_result (self_core me s) (\<lambda>(i, s1).
     let s2 = upd_core i (\<lambda>c. c\<lparr>core_state := CM_STATE_HALT\<rparr>) s1;
         s3 = emit (Eff_nanosleep HALT_SLEEP_MAX_TIME) s2
     in Inr (upd_core i (\<lambda>c. c\<lparr>core_state := CM_STATE_RUN\<rparr>) s3))"

definition sched_pause :: "thread_id \<Rightarrow> 'q coremu \<Rightarrow> 'q coremu result" where
  "sched_pause me s = bind_result (self_core me s) (\<lambda>(i, s1).
     if pause_cnt s1 me < PAUSE_THRESHOLD then
       Inr (s1\<lparr>pause_cnt := (pause_cnt s1)(me := pause_cnt s1 me + 1)\<rparr>)
     else if pause_cnt s1 me \<le> PAUSE_THRESHOLD + 1 then
       Inr (emit Eff_yield (s1\<lparr>pause_cnt := (pause_cnt s1)(me := pause_cnt s1 me + 1)\<rparr>))
     else
       let s2 = upd_core i (\<lambda>c. c\<lparr>core_state := CM_STATE_PAUSE\<rparr>) s1;
           s3 = emit (Eff_nanosleep PAUSE_SLEEP_TIME) s2;
           s4 = upd_core i (\<lambda>c. c\<lparr>core_state := CM_STATE_RUN\<rparr>) s3
       in Inr (s4\<lparr>pause_cnt := (pause_cnt s4)(me := 0)\<rparr>))"

definition coremu_cpu_sched :: "thread_id \<Rightarrow> CMSchedEvent \<Rightarrow> 'q coremu \<Rightarrow> 'q coremu result" where
  "coremu_cpu_sched me e s = (case e of
     CM_EVENT_HALTED \<Rightarrow> sched_halted me s
   | CM_EVENT_PAUSE \<Rightarrow> sched_pause me s
   | CM_EVENT_CNT \<Rightarrow> Inl Assert_failed)"

section \<open>core.c\<close>

text \<open>
  \<open>coremu_init\<close>. The core array is zeroed memory; \<open>nullq\<close> is the null queue pointer in it.
\<close>

definition zero_core :: "'q \<Rightarrow> 'q CMCore" where
  "zero_core nullq = \<lparr>serial = 0, thread = 0, tid = 0, intr_queue = nullq, time_stamp = 0,
     intr_thresh_hold = 0, sig_pending = 0, opaque = 0, core_state = CM_STATE_RUN\<rparr>"

definition coremu_init :: "host \<Rightarrow> thread_id \<Rightarrow> 'q \<Rightarrow> int \<Rightarrow> 'q coremu \<Rightarrow> 'q coremu result" where
  "coremu_init os me nullq smp_cpus s =
     bind_result (coremu_init_sched_all os (s\<lparr>cm_smp_cpus := smp_cpus\<rparr>)) (\<lambda>s1.
     let s2 = s1\<lparr>cm_cores := replicate (nat (cm_smp_cpus s1)) (zero_core nullq)\<rparr>
     in Inr (coremu_init_hw me s2))"

text \<open>
  \<open>q\<close> is the result of \<open>new_queue()\<close>; \<open>err1\<close> and \<open>err2\<close> are those of \<open>pthread_mutexattr_init\<close>
  and \<open>pthread_mutexattr_settype\<close>.
\<close>

definition coremu_core_init :: "int \<Rightarrow> int \<Rightarrow> 'q \<Rightarrow> nat \<Rightarrow> u64 \<Rightarrow> 'q coremu \<Rightarrow> 'q coremu result"
  where
  "coremu_core_init err1 err2 q i opq s =
     (if err1 \<noteq> 0 \<or> err2 \<noteq> 0 then Inl Assert_failed
      else if i < length (cm_cores s) then
        Inr (upd_core i (\<lambda>c. c\<lparr>serial := of_nat i, intr_queue := q, opaque := opq,
                               core_state := CM_STATE_RUN\<rparr>) s)
      else Inl Dangling_deref)"

fun create_threads :: "host \<Rightarrow> nat \<Rightarrow> 'q CMCore list \<Rightarrow> 'q CMCore list result" where
  "create_threads os i [] = Inr []"
| "create_threads os i (c # cs) =
     (let (err, thr) = os_pthread_create os i in
      if err \<noteq> 0 then Inl Assert_failed
      else bind_result (create_threads os (Suc i) cs) (\<lambda>cs'. Inr (c\<lparr>thread := thr\<rparr> # cs')))"

definition coremu_run_all_cores :: "host \<Rightarrow> 'q coremu \<Rightarrow> 'q coremu result" where
  "coremu_run_all_cores os s =
     bind_result (create_threads os 0 (cm_cores s)) (\<lambda>cs.
       Inr (s\<lparr>cm_cores := cs, init_done := True\<rparr>))"

definition coremu_init_done_p :: "'q coremu \<Rightarrow> bool" where
  "coremu_init_done_p s = init_done s"

section \<open>intr.c\<close>

definition MAX_INTR_THRESHOLD :: int where "MAX_INTR_THRESHOLD = 50"

definition SIG_HANDLE_INTERVAL :: "'q coremu \<Rightarrow> int result" where
  "SIG_HANDLE_INTERVAL s =
     bind_result (coremu_get_thrs_per_core s) (\<lambda>n. Inr (2500000 * c_div n 8))"

definition coremu_intr_get_size :: "'q queue_ops \<Rightarrow> 'q CMCore \<Rightarrow> int" where
  "coremu_intr_get_size ops c = q_get_size ops (intr_queue c)"

definition coremu_intr_p :: "'q queue_ops \<Rightarrow> 'q CMCore \<Rightarrow> bool" where
  "coremu_intr_p ops c \<longleftrightarrow> coremu_intr_get_size ops c > 0"

definition coremu_put_intr :: "'q queue_ops \<Rightarrow> addr \<Rightarrow> u64 \<Rightarrow> 'q CMCore \<Rightarrow> 'q CMCore result" where
  "coremu_put_intr ops a e c =
     bind_result (q_enqueue ops a e (intr_queue c)) (\<lambda>q. Inr (c\<lparr>intr_queue := q\<rparr>))"

text \<open>The interrupt and the core; 0 is the null pointer for "no interrupt".\<close>

definition coremu_get_intr :: "'q queue_ops \<Rightarrow> 'q CMCore \<Rightarrow> (u64 \<times> 'q CMCore) result" where
  "coremu_get_intr ops c =
     (if \<not> coremu_intr_p ops c then Inr (0, c)
      else bind_result (q_dequeue ops (intr_queue c)) (\<lambda>(r, q).
        case r of None \<Rightarrow> Inr (0, c\<lparr>intr_queue := q\<rparr>)
        | Some v \<Rightarrow> Inr (v, c\<lparr>intr_queue := q\<rparr>)))"

text \<open>The part of \<open>coremu_send_signal\<close> before the decision: the core and \<open>send_sig_p\<close>.\<close>

definition adapt_threshold :: "'q queue_ops \<Rightarrow> 'q CMCore \<Rightarrow> 'q CMCore \<times> bool" where
  "adapt_threshold ops c =
     (let pending_intr = coremu_intr_get_size ops c in
      if pending_intr > sint (intr_thresh_hold c) then
        if sig_pending c = 0 then
          (c\<lparr>sig_pending := 1, core_state := CM_STATE_RUN\<rparr>, True)
        else if sint (intr_thresh_hold c) < MAX_INTR_THRESHOLD then
          (c\<lparr>intr_thresh_hold := push_bit 1 (intr_thresh_hold c + 1)\<rparr>, False)
        else (c, False)
      else (c, False))"

definition coremu_send_signal :: "host \<Rightarrow> 'q queue_ops \<Rightarrow> nat \<Rightarrow> 'q coremu \<Rightarrow> 'q coremu result" where
  "coremu_send_signal os ops i s =
     (let (c, send_sig_p) = adapt_threshold ops (cm_cores s ! i);
          s1 = s\<lparr>cm_cores := (cm_cores s)[i := c]\<rparr>
      in if coremu_physical_core_enough_p s1 \<or> send_sig_p
            \<or> core_state c = CM_STATE_HALT \<or> core_state c = CM_STATE_PAUSE
         then bind_result (coremu_thread_setpriority os (tid c) (high_prio s1) s1) (\<lambda>s2.
           Inr (emit (Eff_kill (thread c)) s2))
         else Inr s1)"

text \<open>\<open>tsc\<close> is what \<open>read_host_tsc()\<close> returned.\<close>

definition adjust_intr_threshold :: "thread_id \<Rightarrow> u64 \<Rightarrow> 'q coremu \<Rightarrow> 'q coremu result" where
  "adjust_intr_threshold me tsc s = bind_result (self_core me s) (\<lambda>(i, s1).
     let c = cm_cores s1 ! i in
     bind_result
       (if time_stamp c \<noteq> 0 then
          bind_result (SIG_HANDLE_INTERVAL s1) (\<lambda>interval.
            if tsc - time_stamp c > of_int interval then Inr (c\<lparr>intr_thresh_hold := 0\<rparr>)
            else if sint (intr_thresh_hold c) > 0
            then Inr (c\<lparr>intr_thresh_hold := intr_thresh_hold c - 1\<rparr>)
            else Inr c)
        else Inr c)
       (\<lambda>c'. Inr (s1\<lparr>cm_cores := (cm_cores s1)[i := c'\<lparr>time_stamp := tsc\<rparr>]\<rparr>)))"

definition coremu_register_event_handler :: "bool \<Rightarrow> 'q coremu \<Rightarrow> 'q coremu" where
  "coremu_register_event_handler fn s = s\<lparr>event_handler := fn\<rparr>"

definition coremu_register_event_notifier :: "bool \<Rightarrow> 'q coremu \<Rightarrow> 'q coremu" where
  "coremu_register_event_notifier fn s = s\<lparr>event_notifier := fn\<rparr>"

text \<open>
  The loop of \<open>coremu_receive_intr\<close>. \<open>handler\<close> is the registered event handler; a turn of the
  loop costs one unit of fuel.
\<close>

fun receive_loop ::
  "nat \<Rightarrow> 'q queue_ops \<Rightarrow> (u64 \<Rightarrow> 'q coremu \<Rightarrow> 'q coremu) \<Rightarrow> nat \<Rightarrow> 'q coremu \<Rightarrow> 'q coremu result"
  where
  "receive_loop 0 ops handler i s = Inl No_return"
| "receive_loop (Suc fuel) ops handler i s =
     bind_result (coremu_get_intr ops (cm_cores s ! i)) (\<lambda>(intr, c).
       let s1 = s\<lparr>cm_cores := (cm_cores s)[i := c]\<rparr> in
       if intr \<noteq> 0 then receive_loop fuel ops handler i (handler intr (emit (Eff_handle intr) s1))
       else Inr s1)"

definition coremu_receive_intr ::
  "nat \<Rightarrow> 'q queue_ops \<Rightarrow> (u64 \<Rightarrow> 'q coremu \<Rightarrow> 'q coremu) \<Rightarrow> thread_id \<Rightarrow> 'q coremu \<Rightarrow> 'q coremu result"
  where
  "coremu_receive_intr fuel ops handler me s = bind_result (self_core me s) (\<lambda>(i, s1).
     if event_handler s1 then receive_loop fuel ops handler i s1 else Inr s1)"

text \<open>
  \<open>coremu_send_intr(e, coreid)\<close>; \<open>a\<close> is the node that \<open>enqueue\<close> allocates. The notifier is
  called without a test for null when a core interrupts itself.
\<close>

definition coremu_send_intr ::
  "host \<Rightarrow> 'q queue_ops \<Rightarrow> thread_id \<Rightarrow> addr \<Rightarrow> u64 \<Rightarrow> nat \<Rightarrow> 'q coremu \<Rightarrow> 'q coremu result" where
  "coremu_send_intr os ops me a e coreid s =
     (if e = 0 then Inl Assert_failed
      else if \<not> coremu_init_done_p s then Inr s
      else if coreid \<ge> length (cm_cores s) then Inl Dangling_deref
      else bind_result (coremu_put_intr ops a e (cm_cores s ! coreid)) (\<lambda>c.
        let s1 = s\<lparr>cm_cores := (cm_cores s)[coreid := c]\<rparr> in
        if \<not> coremu_hw_thr_p me s1 then
          bind_result (coremu_get_core_self me s1) (\<lambda>(self, s2).
            if self = Some coreid then
              if event_notifier s2 then Inr (emit (Eff_notify me) s2) else Inl Null_call
            else coremu_send_signal os ops coreid s2)
        else coremu_send_signal os ops coreid s1))"

definition coremu_core_signal_handler ::
  "host \<Rightarrow> thread_id \<Rightarrow> u64 \<Rightarrow> 'q coremu \<Rightarrow> 'q coremu result" where
  "coremu_core_signal_handler os me tsc s = bind_result (self_core me s) (\<lambda>(i, s1).
     bind_result (adjust_intr_threshold me tsc s1) (\<lambda>s2.
     bind_result (coremu_thread_setpriority os 0 (avg_prio s2) s2) (\<lambda>s3.
     let s4 = (if event_notifier s3 then emit (Eff_notify me) s3 else s3)
     in Inr (upd_core i (\<lambda>c. c\<lparr>sig_pending := 0\<rparr>) s4))))"

section \<open>Delivery over any FIFO queue\<close>

text \<open>The interrupts that were passed to the registered handler.\<close>

definition handled :: "effect list \<Rightarrow> u64 list" where
  "handled es = concat (map (\<lambda>e. case e of Eff_handle v \<Rightarrow> [v] | _ \<Rightarrow> []) es)"

lemma handled_simps [simp]: "handled [] = []" "handled (es @ fs) = handled es @ handled fs" "handled [Eff_handle v] = [v]"
  by (simp_all add: handled_def)

text \<open>
  What the interrupt code relies on in the registered handler, which belongs to the emulator: it uses the
  queue of the core only to send interrupts, \<open>sends e\<close> being those it sends to its own core when it is
  called with \<open>e\<close>, and it does not call \<open>coremu_receive_intr\<close> itself. Everything else of the state it may
  change: it may send interrupts and signals to other cores.
\<close>

definition handler_contract ::
  "('q \<Rightarrow> u64 list \<Rightarrow> bool) \<Rightarrow> nat \<Rightarrow> (u64 \<Rightarrow> u64 list) \<Rightarrow> (u64 \<Rightarrow> 'q coremu \<Rightarrow> 'q coremu) \<Rightarrow> bool" where
  "handler_contract repr i sends handler \<longleftrightarrow>
     (\<forall>e s xs. i < length (cm_cores s) \<and> repr (intr_queue (cm_cores s ! i)) xs \<longrightarrow>
        length (cm_cores (handler e s)) = length (cm_cores s)
        \<and> repr (intr_queue (cm_cores (handler e s) ! i)) (xs @ sends e)
        \<and> handled (effects (handler e s)) = handled (effects s))"

text \<open>
  The order in which a core serves interrupts, when serving one may queue others: \<open>None\<close> if they are not
  all served within \<open>n\<close> turns.
\<close>

fun serve :: "nat \<Rightarrow> (u64 \<Rightarrow> u64 list) \<Rightarrow> u64 list \<Rightarrow> u64 list option" where
  "serve 0 sends xs = None"
| "serve (Suc n) sends [] = Some []"
| "serve (Suc n) sends (x # xs) = map_option (Cons x) (serve n sends (xs @ sends x))"

text \<open>First the pending ones, then everything that is sent meanwhile, in the order in which it is sent.\<close>

lemma serve_order: "serve n sends xs = Some ys \<Longrightarrow> ys = xs @ concat (map sends ys)"
  by (induction n sends xs arbitrary: ys rule: serve.induct) auto

lemma serve_nothing_new: "length xs < n \<Longrightarrow> serve n (\<lambda>_. []) xs = Some xs"
  by (induction n "\<lambda>_ :: u64. [] :: u64 list" xs rule: serve.induct) auto

lemma emit_simps [simp]:
  "cm_cores (emit e s) = cm_cores s" "effects (emit e s) = effects s @ [e]"
  "init_done (emit e s) = init_done s" "hw_thrid (emit e s) = hw_thrid s"
  "event_notifier (emit e s) = event_notifier s" "event_handler (emit e s) = event_handler s"
  "avg_prio (emit e s) = avg_prio s" "cm_core_self (emit e s) = cm_core_self s"
  "cm_smp_cpus (emit e s) = cm_smp_cpus s" "host_cpu_avail (emit e s) = host_cpu_avail s"
  "pause_cnt (emit e s) = pause_cnt s"
  by (simp_all add: emit_def)

text \<open>The client of a queue: interrupt delivery, over any queue that keeps the contract.\<close>

locale intr_delivery = fifo_queue
begin

lemma get_intr_empty:
  assumes "repr (intr_queue c) []"
  shows "coremu_get_intr ops c = Inr (0, c)"
  using get_size_repr [OF assms]
  by (simp add: coremu_get_intr_def coremu_intr_p_def coremu_intr_get_size_def)

lemma get_intr_first:
  assumes "repr (intr_queue c) (x # xs)" "length (x # xs) < 2 ^ 63"
  shows "\<exists>q. coremu_get_intr ops c = Inr (x, c\<lparr>intr_queue := q\<rparr>) \<and> repr q xs"
  using get_size_repr [OF assms] dequeue_repr [OF assms(1)]
  by (auto simp: coremu_get_intr_def coremu_intr_p_def coremu_intr_get_size_def)

text \<open>The receive loop ends, and it handles every pending interrupt, oldest first.\<close>

lemma receive_loop_drains:
  assumes "handler_contract repr i sends handler"
  shows "i < length (cm_cores s) \<Longrightarrow> repr (intr_queue (cm_cores s ! i)) xs \<Longrightarrow> serve fuel sends xs = Some ys \<Longrightarrow>
     0 \<notin> set ys \<Longrightarrow> length ys < 2 ^ 63 \<Longrightarrow>
     \<exists>s'. receive_loop fuel ops handler i s = Inr s' \<and> handled (effects s') = handled (effects s) @ ys
       \<and> repr (intr_queue (cm_cores s' ! i)) []"
proof (induction fuel arbitrary: s xs ys)
  case 0
  then show ?case by simp
next
  case (Suc fuel)
  show ?case
  proof (cases xs)
    case Nil
    with Suc.prems get_intr_empty [of "cm_cores s ! i"] show ?thesis by simp
  next
    case (Cons x xs1)
    with Suc.prems(3) obtain ys1 where ys: "ys = x # ys1" "serve fuel sends (xs1 @ sends x) = Some ys1" by auto
    have "length xs \<le> length ys" using arg_cong [OF serve_order [OF Suc.prems(3)], of length] by simp
    with Suc.prems Cons get_intr_first [of "cm_cores s ! i" x xs1] obtain q where
      q: "coremu_get_intr ops (cm_cores s ! i) = Inr (x, (cm_cores s ! i)\<lparr>intr_queue := q\<rparr>)"
        "repr q xs1" by auto
    let ?s1 = "s\<lparr>cm_cores := (cm_cores s)[i := (cm_cores s ! i)\<lparr>intr_queue := q\<rparr>]\<rparr>"
    let ?s2 = "handler x (emit (Eff_handle x) ?s1)"
    have fr: "length (cm_cores ?s2) = length (cm_cores s)"
      "repr (intr_queue (cm_cores ?s2 ! i)) (xs1 @ sends x)" "handled (effects ?s2) = handled (effects s) @ [x]"
      using assms [unfolded handler_contract_def, rule_format, of "emit (Eff_handle x) ?s1" xs1 x] Suc.prems(1) q(2) by simp_all
    have "\<exists>s'. receive_loop fuel ops handler i ?s2 = Inr s'
        \<and> handled (effects s') = handled (effects ?s2) @ ys1 \<and> repr (intr_queue (cm_cores s' ! i)) []"
      by (rule Suc.IH [OF _ fr(2) ys(2)]) (use Suc.prems ys(1) fr(1) in simp_all)
    with q ys(1) Suc.prems fr show ?thesis by auto
  qed
qed

lemma put_intr_repr:
  assumes "repr (intr_queue c) xs" "fresh (intr_queue c) a"
  shows "\<exists>q. coremu_put_intr ops a e c = Inr (c\<lparr>intr_queue := q\<rparr>) \<and> repr q (xs @ [e])"
  using enqueue_repr [OF assms, of e] by (auto simp: coremu_put_intr_def)

end

section \<open>The core of a thread\<close>

lemma get_core_self_frame:
  "coremu_get_core_self me s = Inr (r, s') \<Longrightarrow> cm_cores s' = cm_cores s \<and> effects s' = effects s
     \<and> host_cpu_avail s' = host_cpu_avail s \<and> cm_smp_cpus s' = cm_smp_cpus s
     \<and> event_handler s' = event_handler s \<and> event_notifier s' = event_notifier s
     \<and> avg_prio s' = avg_prio s \<and> high_prio s' = high_prio s \<and> pause_cnt s' = pause_cnt s
     \<and> hw_thrid s' = hw_thrid s \<and> init_done s' = init_done s"
  by (auto simp: coremu_get_core_self_def bind_result_Inr_iff split: option.splits)

lemma self_core_frame:
  assumes "self_core me s = Inr (i, s')"
  shows "i < length (cm_cores s)" "cm_cores s' = cm_cores s" "effects s' = effects s"
    "host_cpu_avail s' = host_cpu_avail s" "cm_smp_cpus s' = cm_smp_cpus s"
    "event_handler s' = event_handler s" "event_notifier s' = event_notifier s"
    "pause_cnt s' = pause_cnt s" "avg_prio s' = avg_prio s"
proof -
  from assms have r: "coremu_get_core_self me s = Inr (Some i, s')" "i < length (cm_cores s')"
    by (auto simp: self_core_def bind_result_Inr_iff split: option.splits if_splits)
  with get_core_self_frame [OF r(1)]
  show "i < length (cm_cores s)" "cm_cores s' = cm_cores s" "effects s' = effects s"
    "host_cpu_avail s' = host_cpu_avail s" "cm_smp_cpus s' = cm_smp_cpus s"
    "event_handler s' = event_handler s" "event_notifier s' = event_notifier s"
    "pause_cnt s' = pause_cnt s" "avg_prio s' = avg_prio s" by simp_all
qed

text \<open>After the first look-up, the cached core is returned and the state does not change.\<close>

lemma self_core_again: "self_core me s = Inr (i, s') \<Longrightarrow> self_core me s' = Inr (i, s')"
  by (auto simp: self_core_def coremu_get_core_self_def coremu_assert_core_thr_def
      coremu_get_hw_id_def bind_result_Inr_iff split: option.splits if_splits)

end
