(* ===== verification/Coremu_Delivery.thy ===== *)
theory Coremu_Delivery
  imports Lock_Queue MS_Queue Coremu
begin

text \<open>
  Properties of interrupt delivery and scheduling in COREMU, with the queue contract
  discharged by the two queue implementations.
\<close>

interpretation lqi: intr_delivery lock_queue_ops lq_repr lq_fresh
  by unfold_locales

interpretation msi: intr_delivery "ms_queue_ops junk" ms_repr ms_fresh
  by unfold_locales

section \<open>A concrete system\<close>

text \<open>Two cores on threads 10 and 11, one host processor, hardware thread 1.\<close>

definition ex_host :: host where
  "ex_host = \<lparr>os_setpriority = (\<lambda>_ _. 0), os_nprocs = 1, os_topo_cores = 4,
     os_pthread_create = (\<lambda>i. (0, 10 + i)), os_gettid = (\<lambda>t. int t + 100),
     os_policy_ok = (\<lambda>_. True), os_cpubind = (\<lambda>_. 0)\<rparr>"

definition ex_core :: "u32 \<Rightarrow> thread_id \<Rightarrow> lq_state CMCore" where
  "ex_core n t = \<lparr>serial = n, thread = t, tid = int t + 100, intr_queue = lq_ex, time_stamp = 0,
     intr_thresh_hold = 0, sig_pending = 0, opaque = 0, core_state = CM_STATE_RUN\<rparr>"

definition ex_sys :: "lq_state coremu" where
  "ex_sys = \<lparr>cm_smp_cpus = 2, cm_cores = [ex_core 0 10, ex_core 1 11], cm_core_self = Map.empty,
     init_done = True, hw_thrid = 1, ioreq_exit = 0, host_cpu_avail = 1, min_prio = 19,
     max_prio = -21, low_prio = 9, avg_prio = -1, high_prio = -11, topo_cores = 4,
     pause_cnt = (\<lambda>_. 0), event_handler = True, event_notifier = True, effects = []\<rparr>"

lemma lq_ex_repr: "lq_repr lq_ex []"
  using lq_new_queue_repr [of 9 1 Map.empty] lq_ex_new by auto

text \<open>What \<open>coremu_send_intr\<close> leaves alone: the other cores, and what has been handled.\<close>

lemma send_signal_others:
  assumes "coremu_send_signal os ops j s = Inr s'"
  shows "length (cm_cores s') = length (cm_cores s)" "i \<noteq> j \<Longrightarrow> cm_cores s' ! i = cm_cores s ! i" "handled (effects s') = handled (effects s)"
proof -
  obtain c b where cb: "adapt_threshold ops (cm_cores s ! j) = (c, b)" by fastforce
  have h: "handled [Eff_setpriority p v, Eff_kill v'] = []" for p v v' by (simp add: handled_def)
  show "length (cm_cores s') = length (cm_cores s)" "i \<noteq> j \<Longrightarrow> cm_cores s' ! i = cm_cores s ! i" "handled (effects s') = handled (effects s)"
    using assms cb by (auto simp: coremu_send_signal_def Let_def coremu_thread_setpriority_def bind_result_Inr_iff h split: if_splits)
qed

lemma send_intr_others:
  assumes "coremu_send_intr os ops me a e j s = Inr s'"
  shows "length (cm_cores s') = length (cm_cores s) \<and> (\<forall>i. i \<noteq> j \<longrightarrow> cm_cores s' ! i = cm_cores s ! i) \<and> handled (effects s') = handled (effects s)"
proof (cases "s' = s")
  case False
  with assms obtain c where c: "coremu_put_intr ops a e (cm_cores s ! j) = Inr c"
    by (auto simp: coremu_send_intr_def bind_result_Inr_iff split: if_splits)
  let ?s1 = "s\<lparr>cm_cores := (cm_cores s)[j := c]\<rparr>"
  consider (hw) "coremu_send_signal os ops j ?s1 = Inr s'"
    | (self) s2 where "coremu_get_core_self me ?s1 = Inr (Some j, s2)" "s' = emit (Eff_notify me) s2"
    | (other) r s2 where "coremu_get_core_self me ?s1 = Inr (r, s2)" "coremu_send_signal os ops j s2 = Inr s'"
    using assms False c by (auto simp: coremu_send_intr_def Let_def bind_result_Inr_iff split: if_splits)
  then show ?thesis
  proof cases
    case hw
    from send_signal_others [OF hw] show ?thesis by simp
  next
    case self
    with get_core_self_frame [OF self(1)] show ?thesis by (simp add: handled_def)
  next
    case other
    from get_core_self_frame [OF other(1)] send_signal_others [OF other(2)] show ?thesis by simp
  qed
qed simp

section \<open>Delivery\<close>


text \<open>The emulator of the example passes every interrupt on to core 0, as far as there is memory for it.\<close>

definition forward :: "u64 \<Rightarrow> lq_state coremu \<Rightarrow> lq_state coremu" where
  "forward e s = (case coremu_send_intr ex_host lock_queue_ops 11 3 e 0 s of Inl _ \<Rightarrow> s | Inr s' \<Rightarrow> s')"

lemma forward_contract: "handler_contract lq_repr 1 (\<lambda>_. []) forward"
  unfolding handler_contract_def forward_def
proof (intro allI impI, elim conjE)
  fix e :: u64 and s :: "lq_state coremu" and xs
  assume "1 < length (cm_cores s)" "lq_repr (intr_queue (cm_cores s ! 1)) xs"
  then show "length (cm_cores (case coremu_send_intr ex_host lock_queue_ops 11 3 e 0 s of Inl _ \<Rightarrow> s | Inr s' \<Rightarrow> s')) = length (cm_cores s)
      \<and> lq_repr (intr_queue (cm_cores (case coremu_send_intr ex_host lock_queue_ops 11 3 e 0 s of Inl _ \<Rightarrow> s | Inr s' \<Rightarrow> s') ! 1)) (xs @ [])
      \<and> handled (effects (case coremu_send_intr ex_host lock_queue_ops 11 3 e 0 s of Inl _ \<Rightarrow> s | Inr s' \<Rightarrow> s')) = handled (effects s)"
    using send_intr_others [of ex_host lock_queue_ops 11 3 e 0 s] by (cases "coremu_send_intr ex_host lock_queue_ops 11 3 e 0 s") simp_all
qed

text \<open>Core 1 with the interrupts 7 and 8 in its queue.\<close>

lemma lq_ex_pending: "\<exists>q. lq_repr q [7, 8]"
proof -
  obtain q where q: "q_enqueue lock_queue_ops 2 7 lq_ex = Inr q" "lq_repr q [7]"
    using lq.enqueue_repr [OF lq_ex_repr, of 2 7] by (auto simp: lq_fresh_def lq_ex_def)
  have "lq_fresh q 3" using q(1) by (auto simp: lock_queue_ops_def lq_enqueue_def lq_new_node_def lq_ex_def load_def Let_def lq_fresh_def)
  from lq.enqueue_repr [OF q(2) this, of 8] show ?thesis by auto
qed


text \<open>
  The same for the lock-free queue.
\<close>

theorem receive_intr_drains_lockfree:
  assumes "self_core me s = Inr (i, s1)" "event_handler s" "handler_contract ms_repr i sends handler"
    and "ms_repr (intr_queue (cm_cores s ! i)) xs" "serve fuel sends xs = Some ys" "0 \<notin> set ys" "length ys < 2 ^ 63"
  shows "\<exists>s'. coremu_receive_intr fuel (ms_queue_ops junk) handler me s = Inr s'
     \<and> handled (effects s') = handled (effects s) @ ys \<and> ms_repr (intr_queue (cm_cores s' ! i)) []"
  using msi.receive_loop_drains [OF assms(3), of s1 xs fuel ys] self_core_frame [OF assms(1)] assms
  by (simp add: coremu_receive_intr_def)

text \<open>
  The queue of the target core after \<open>coremu_send_intr\<close>: signalling does not touch it.
\<close>

lemma adapt_threshold_queue: "adapt_threshold ops c = (c', b) \<Longrightarrow> intr_queue c' = intr_queue c"
  by (auto simp: adapt_threshold_def Let_def split: if_splits)

lemma send_signal_queue:
  assumes "coremu_send_signal os ops i s = Inr s'" "i < length (cm_cores s)"
  shows "intr_queue (cm_cores s' ! i) = intr_queue (cm_cores s ! i)"
proof -
  obtain c b where cb: "adapt_threshold ops (cm_cores s ! i) = (c, b)" by fastforce
  with assms show ?thesis
    by (auto simp: coremu_send_signal_def Let_def coremu_thread_setpriority_def bind_result_Inr_iff
        adapt_threshold_queue split: if_splits)
qed

text \<open>
  Sending an interrupt queues it behind the pending ones of the target core, whichever
  thread sends it and whether or not a signal follows: no interrupt is lost at the sender.
\<close>

theorem send_intr_queues:
  assumes "coremu_send_intr os lock_queue_ops me a e i s = Inr s'" "init_done s"
    and "lq_repr (intr_queue (cm_cores s ! i)) xs" "lq_fresh (intr_queue (cm_cores s ! i)) a"
  shows "e \<noteq> 0 \<and> i < length (cm_cores s) \<and> lq_repr (intr_queue (cm_cores s' ! i)) (xs @ [e])"
proof -
  from assms(1,2) have ei: "e \<noteq> 0" "i < length (cm_cores s)"
    by (auto simp: coremu_send_intr_def coremu_init_done_p_def split: if_splits)
  obtain q where q: "coremu_put_intr lock_queue_ops a e (cm_cores s ! i)
      = Inr ((cm_cores s ! i)\<lparr>intr_queue := q\<rparr>)" "lq_repr q (xs @ [e])"
    using lqi.put_intr_repr [OF assms(3,4)] by blast
  let ?s1 = "s\<lparr>cm_cores := (cm_cores s)[i := (cm_cores s ! i)\<lparr>intr_queue := q\<rparr>]\<rparr>"
  consider (hw) "coremu_send_signal os lock_queue_ops i ?s1 = Inr s'"
    | (self) s2 where "coremu_get_core_self me ?s1 = Inr (Some i, s2)" "s' = emit (Eff_notify me) s2"
    | (other) r s2 where "coremu_get_core_self me ?s1 = Inr (r, s2)"
        "coremu_send_signal os lock_queue_ops i s2 = Inr s'"
    using assms(1,2) ei q(1)
    by (auto simp: coremu_send_intr_def coremu_init_done_p_def Let_def bind_result_Inr_iff
        split: if_splits)
  then have "intr_queue (cm_cores s' ! i) = q"
  proof cases
    case hw
    with send_signal_queue [OF hw] ei show ?thesis by simp
  next
    case self
    with get_core_self_frame [OF self(1)] ei show ?thesis by simp
  next
    case other
    with get_core_self_frame [OF other(1)] send_signal_queue [OF other(2)] ei show ?thesis by simp
  qed
  with ei q(2) show ?thesis by simp
qed

theorem send_intr_queues_witness:
  "\<exists>s'. coremu_send_intr ex_host lock_queue_ops 1 2 7 1 ex_sys = Inr s'
     \<and> lq_repr (intr_queue (cm_cores s' ! 1)) [7]"
proof -
  have "\<exists>s'. coremu_send_intr ex_host lock_queue_ops 1 2 7 1 ex_sys = Inr s'"
    by (simp add: coremu_send_intr_def ex_sys_def ex_core_def coremu_init_done_p_def coremu_put_intr_def
        lock_queue_ops_def lq_enqueue_def lq_new_node_def lq_ex_def load_def coremu_hw_thr_p_def
        coremu_send_signal_def adapt_threshold_def coremu_intr_get_size_def lq_get_size_def
        coremu_thread_setpriority_def ex_host_def atomic_inc_def Let_def)
  then obtain s' where s': "coremu_send_intr ex_host lock_queue_ops 1 2 7 1 ex_sys = Inr s'" by blast
  have "lq_repr (intr_queue (cm_cores ex_sys ! 1)) []" "lq_fresh (intr_queue (cm_cores ex_sys ! 1)) 2"
    "init_done ex_sys"
    using lq_ex_repr by (simp_all add: ex_sys_def ex_core_def lq_fresh_def lq_ex_def)
  with send_intr_queues [OF s'] s' show ?thesis by fastforce
qed

section \<open>Adaptive signalling\<close>

text \<open>
  C8. When \<open>coremu_send_signal\<close> interrupts the target thread: exactly when the host has a
  processor for every core, or the target sleeps, or more interrupts are pending than its
  threshold and no signal is on its way. It then raises the priority of the target and sends
  one signal; otherwise it does neither. So an unsignalled running core has a signal on its
  way, or at most \<open>intr_thresh_hold\<close> pending interrupts.
\<close>

theorem send_signal_exactly_when_needed:
  assumes "coremu_send_signal os ops i s = Inr s'" "i < length (cm_cores s)"
    and c: "c = cm_cores s ! i"
  shows "effects s' =
     (if host_cpu_avail s \<ge> cm_smp_cpus s \<or> core_state c \<noteq> CM_STATE_RUN
         \<or> (coremu_intr_get_size ops c > sint (intr_thresh_hold c) \<and> sig_pending c = 0)
      then effects s @ [Eff_setpriority (tid c) (high_prio s), Eff_kill (thread c)]
      else effects s)"
proof -
  have st: "core_state d \<noteq> CM_STATE_RUN \<longleftrightarrow> core_state d = CM_STATE_HALT \<or> core_state d = CM_STATE_PAUSE"
    for d :: "'a CMCore"
    by (cases "core_state d") auto
  obtain c' b where cb: "adapt_threshold ops c = (c', b)" by fastforce
  then have "tid c' = tid c" "thread c' = thread c"
    and b: "b \<longleftrightarrow> coremu_intr_get_size ops c > sint (intr_thresh_hold c) \<and> sig_pending c = 0"
    and "core_state c' = (if b then CM_STATE_RUN else core_state c)"
    by (auto simp: adapt_threshold_def Let_def split: if_splits)
  with assms(1,2) cb show ?thesis
    by (auto simp: c coremu_send_signal_def Let_def coremu_thread_setpriority_def
        coremu_physical_core_enough_p_def emit_def bind_result_Inr_iff st split: if_splits)
qed

theorem send_signal_exactly_when_needed_witness:
  "\<exists>s'. coremu_send_signal ex_host lock_queue_ops 1 ex_sys = Inr s' \<and> effects s' = []"
proof -
  have "\<exists>s'. coremu_send_signal ex_host lock_queue_ops 1 ex_sys = Inr s'"
    by (simp add: ex_sys_def ex_core_def ex_host_def coremu_send_signal_def adapt_threshold_def
        coremu_thread_setpriority_def coremu_intr_get_size_def lock_queue_ops_def lq_get_size_def
        lq_ex_def coremu_physical_core_enough_p_def Let_def)
  then obtain s' where s': "coremu_send_signal ex_host lock_queue_ops 1 ex_sys = Inr s'" by blast
  show ?thesis
    using send_signal_exactly_when_needed [OF s' _ refl] s'
    by (simp add: ex_sys_def ex_core_def coremu_intr_get_size_def lock_queue_ops_def lq_get_size_def
        lq_ex_def)
qed

section \<open>Scheduling\<close>

text \<open>
  \<open>coremu_get_thrs_per_core\<close> is the number of emulated cores per host processor, rounded
  up, and it is 1 exactly when \<open>coremu_physical_core_enough_p\<close> holds.
\<close>

theorem thrs_per_core_is_ceiling:
  assumes "host_cpu_avail s > 0" "cm_smp_cpus s > 0"
  shows "\<exists>n. coremu_get_thrs_per_core s = Inr n \<and> (n - 1) * host_cpu_avail s < cm_smp_cpus s
     \<and> cm_smp_cpus s \<le> n * host_cpu_avail s \<and> (n = 1 \<longleftrightarrow> coremu_physical_core_enough_p s)"
proof -
  let ?h = "host_cpu_avail s" and ?m = "cm_smp_cpus s"
  define n where "n = (?h + ?m - 1) div ?h"
  have "coremu_get_thrs_per_core s = Inr n"
    using assms by (simp add: coremu_get_thrs_per_core_def n_def)
  moreover have up: "?m \<le> n * ?h" and lo: "(n - 1) * ?h < ?m"
  proof -
    have "n * ?h + (?h + ?m - 1) mod ?h = ?h + ?m - 1" unfolding n_def by simp
    moreover have "0 \<le> (?h + ?m - 1) mod ?h" "(?h + ?m - 1) mod ?h < ?h" using assms by simp_all
    ultimately show "?m \<le> n * ?h" "(n - 1) * ?h < ?m" by (simp_all add: algebra_simps)
  qed
  moreover have "n = 1 \<longleftrightarrow> coremu_physical_core_enough_p s"
  proof
    assume "n = 1"
    with up show "coremu_physical_core_enough_p s" by (simp add: coremu_physical_core_enough_p_def)
  next
    assume "coremu_physical_core_enough_p s"
    then have "(n - 1) * ?h < 1 * ?h" using lo by (simp add: coremu_physical_core_enough_p_def)
    then have "n - 1 < 1" using assms(1) by (simp add: mult_less_cancel_right)
    moreover have "0 < n * ?h" using up assms(2) by simp
    then have "0 < n" using assms(1) by (simp add: zero_less_mult_iff)
    ultimately show "n = 1" by simp
  qed
  ultimately show ?thesis by blast
qed

theorem thrs_per_core_is_ceiling_witness:
  "\<exists>n. coremu_get_thrs_per_core ex_sys = Inr n \<and> n - 1 < 2 \<and> 2 \<le> n"
  using thrs_per_core_is_ceiling [of ex_sys] by (auto simp: ex_sys_def)

text \<open>Repeated pause events of one core thread.\<close>

fun pause_times :: "nat \<Rightarrow> thread_id \<Rightarrow> 'q coremu \<Rightarrow> 'q coremu result" where
  "pause_times 0 me s = Inr s"
| "pause_times (Suc n) me s = bind_result (coremu_cpu_sched me CM_EVENT_PAUSE s) (pause_times n me)"

lemma pause_times_add:
  "pause_times (m + n) me s = bind_result (pause_times m me s) (pause_times n me)"
proof (induction m arbitrary: s)
  case 0
  then show ?case by simp
next
  case (Suc m)
  then show ?case by (cases "coremu_cpu_sched me CM_EVENT_PAUSE s") simp_all
qed

text \<open>Thread \<open>me\<close> runs core \<open>i\<close> and has looked its core object up before.\<close>

definition runs_core :: "thread_id \<Rightarrow> nat \<Rightarrow> 'q coremu \<Rightarrow> bool" where
  "runs_core me i s \<longleftrightarrow> me \<noteq> hw_thrid s \<and> cm_core_self s me = Some i \<and> i < length (cm_cores s)"

lemma runs_core_self: "runs_core me i s \<Longrightarrow> self_core me s = Inr (i, s)"
  by (simp add: runs_core_def self_core_def coremu_get_core_self_def coremu_assert_core_thr_def
      coremu_get_hw_id_def)

text \<open>Counting up: below the threshold a pause event costs nothing but the increment.\<close>

lemma pause_count_up:
  assumes "runs_core me i s" "unat (pause_cnt s me) + n \<le> 100"
  shows "\<exists>s'. pause_times n me s = Inr s' \<and> runs_core me i s' \<and> effects s' = effects s
     \<and> unat (pause_cnt s' me) = unat (pause_cnt s me) + n"
  using assms
proof (induction n arbitrary: s)
  case 0
  then show ?case by auto
next
  case (Suc n)
  let ?s1 = "s\<lparr>pause_cnt := (pause_cnt s)(me := pause_cnt s me + 1)\<rparr>"
  have "pause_cnt s me < PAUSE_THRESHOLD"
    using Suc.prems(2) by (simp add: PAUSE_THRESHOLD_def word_less_nat_alt)
  with runs_core_self [OF Suc.prems(1)] have st: "coremu_cpu_sched me CM_EVENT_PAUSE s = Inr ?s1"
    by (simp add: coremu_cpu_sched_def sched_pause_def)
  have inc: "unat (pause_cnt s me + 1) = unat (pause_cnt s me) + 1"
    using Suc.prems(2) by (subst unat_add_nowrap) simp_all
  have self: "runs_core me i ?s1" using Suc.prems(1) by (simp add: runs_core_def)
  from Suc.IH [OF self] Suc.prems(2) inc show ?case by (auto simp: st)
qed

lemma pause_yields:
  assumes "runs_core me i s" "pause_cnt s me = 100 \<or> pause_cnt s me = 101"
  shows "\<exists>s'. coremu_cpu_sched me CM_EVENT_PAUSE s = Inr s' \<and> runs_core me i s'
     \<and> effects s' = effects s @ [Eff_yield] \<and> pause_cnt s' me = pause_cnt s me + 1"
  using assms runs_core_self [OF assms(1)]
  by (auto simp: coremu_cpu_sched_def sched_pause_def PAUSE_THRESHOLD_def runs_core_def emit_def)

lemma pause_sleeps:
  assumes "runs_core me i s" "pause_cnt s me = 102"
  shows "\<exists>s'. coremu_cpu_sched me CM_EVENT_PAUSE s = Inr s' \<and> pause_cnt s' me = 0
     \<and> effects s' = effects s @ [Eff_nanosleep 100000] \<and> core_state (cm_cores s' ! i) = CM_STATE_RUN"
  using assms runs_core_self [OF assms(1)]
  by (auto simp: coremu_cpu_sched_def sched_pause_def PAUSE_THRESHOLD_def PAUSE_SLEEP_TIME_def
      runs_core_def upd_core_def Let_def)

text \<open>
  A core that keeps executing \<open>PAUSE\<close> spins 100 times, yields the processor twice and then
  sleeps for 100 microseconds: after 103 events it has done exactly that, its counter is back
  at zero and it is in the state \<open>CM_STATE_RUN\<close>.
\<close>

theorem pause_cycle:
  assumes "runs_core me i s" "pause_cnt s me = 0"
  shows "\<exists>s'. pause_times 103 me s = Inr s' \<and> pause_cnt s' me = 0
     \<and> effects s' = effects s @ [Eff_yield, Eff_yield, Eff_nanosleep 100000]
     \<and> core_state (cm_cores s' ! i) = CM_STATE_RUN"
proof -
  from pause_count_up [OF assms(1), of 100] assms(2) obtain s1 where
    s1: "pause_times 100 me s = Inr s1" "runs_core me i s1" "effects s1 = effects s"
      "pause_cnt s1 me = 100"
    by (auto simp: word_eq_iff_unat)
  from pause_yields [OF s1(2)] s1(4) obtain s2 where
    s2: "coremu_cpu_sched me CM_EVENT_PAUSE s1 = Inr s2" "runs_core me i s2"
      "effects s2 = effects s1 @ [Eff_yield]" "pause_cnt s2 me = 101" by auto
  from pause_yields [OF s2(2)] s2(4) obtain s3 where
    s3: "coremu_cpu_sched me CM_EVENT_PAUSE s2 = Inr s3" "runs_core me i s3"
      "effects s3 = effects s2 @ [Eff_yield]" "pause_cnt s3 me = 102" by auto
  from pause_sleeps [OF s3(2,4)] obtain s4 where
    s4: "coremu_cpu_sched me CM_EVENT_PAUSE s3 = Inr s4" "pause_cnt s4 me = 0"
      "effects s4 = effects s3 @ [Eff_nanosleep 100000]" "core_state (cm_cores s4 ! i) = CM_STATE_RUN"
    by auto
  have "pause_times (100 + 3) me s = Inr s4"
    unfolding pause_times_add using s1(1) s2(1) s3(1) s4(1) by (simp add: numeral_3_eq_3)
  then show ?thesis using s1(3) s2(3) s3(3) s4 by simp
qed

theorem pause_cycle_witness:
  "\<exists>s'. pause_times 103 11 (ex_sys\<lparr>cm_core_self := [11 \<mapsto> 1]\<rparr>) = Inr s'
     \<and> effects s' = [Eff_yield, Eff_yield, Eff_nanosleep 100000]"
  using pause_cycle [of 11 1 "ex_sys\<lparr>cm_core_self := [11 \<mapsto> 1]\<rparr>"]
  by (auto simp: runs_core_def ex_sys_def)
end
