(* ===== verification/Coremu_Signal.thy ===== *)
theory Coremu_Signal
  imports Coremu
begin

text \<open>
  The adaptive signal threshold of \<open>main/intr.c\<close> under concurrency. Any number of threads run
  \<open>coremu_send_signal\<close> for the same core while its own thread runs the signal handler; none of the accesses to
  the core is synchronised. Here every access to shared memory is a step of its own, and the steps of the
  threads are interleaved in any way. The calls of \<open>Coremu\<close> are the runs that nothing interrupts.
\<close>

section \<open>The threads\<close>

text \<open>
  Where a sender is: before the load of the threshold, with the number of pending interrupts; before the load
  and the stores of \<open>sig_pending\<close> and \<open>state\<close>; before the two further loads of the threshold and its store,
  with the value loaded last; and in the decision at the end, with \<open>send_sig_p\<close>.
\<close>

datatype send_pc = S_out | S_size int | S_sig | S_pend | S_run | S_check | S_load | S_store u64 | S_halt bool | S_pause | S_kill

text \<open>Where the signal handler is, with the time stamp it has read, and before its store the value loaded.\<close>

datatype hnd_pc = H_out | H_stamp u64 | H_diff u64 | H_reset u64 | H_pos u64 | H_dec u64 | H_put u64 u64 | H_set u64 | H_clear

record sigstate =
  g_thresh :: u64
  g_pending :: u8
  g_stamp :: u64
  g_state :: CMCoreState
  g_kills :: nat
  g_send :: "nat \<Rightarrow> send_pc"
  g_hnd :: hnd_pc

text \<open>What does not change: \<open>SIG_HANDLE_INTERVAL\<close>, and \<open>coremu_physical_core_enough_p\<close>.\<close>

record sig_cfg =
  cf_interval :: u64
  cf_enough :: bool

text \<open>
  A step: a sender enters \<open>coremu_send_signal\<close>, having read the size of the queue, or continues; the signal
  handler is entered, having read the time stamp counter, or continues; or the thread of the core stores its
  state (\<open>sched_halted\<close>, \<open>sched_pause\<close>).
\<close>

datatype sig_event = E_call nat int | E_send nat | E_signal u64 | E_handle | E_state CMCoreState

fun send_step :: "sig_cfg \<Rightarrow> send_pc \<Rightarrow> sigstate \<Rightarrow> (send_pc \<times> sigstate) option" where
  "send_step cfg S_out g = None"
| "send_step cfg (S_size k) g = Some (if k > sint (g_thresh g) then S_sig else S_halt False, g)"
| "send_step cfg S_sig g = Some (if g_pending g = 0 then S_pend else S_check, g)"
| "send_step cfg S_pend g = Some (S_run, g\<lparr>g_pending := 1\<rparr>)"
| "send_step cfg S_run g = Some (S_halt True, g\<lparr>g_state := CM_STATE_RUN\<rparr>)"
| "send_step cfg S_check g = Some (if sint (g_thresh g) < MAX_INTR_THRESHOLD then S_load else S_halt False, g)"
| "send_step cfg S_load g = Some (S_store (g_thresh g), g)"
| "send_step cfg (S_store t) g = Some (S_halt False, g\<lparr>g_thresh := push_bit 1 (t + 1)\<rparr>)"
| "send_step cfg (S_halt b) g = Some (if cf_enough cfg \<or> b \<or> g_state g = CM_STATE_HALT then S_kill else S_pause, g)"
| "send_step cfg S_pause g = Some (if g_state g = CM_STATE_PAUSE then S_kill else S_out, g)"
| "send_step cfg S_kill g = Some (S_out, g\<lparr>g_kills := g_kills g + 1\<rparr>)"

fun handle_step :: "sig_cfg \<Rightarrow> hnd_pc \<Rightarrow> sigstate \<Rightarrow> (hnd_pc \<times> sigstate) option" where
  "handle_step cfg H_out g = None"
| "handle_step cfg (H_stamp tsc) g = Some (if g_stamp g \<noteq> 0 then H_diff tsc else H_set tsc, g)"
| "handle_step cfg (H_diff tsc) g = Some (if tsc - g_stamp g > cf_interval cfg then H_reset tsc else H_pos tsc, g)"
| "handle_step cfg (H_reset tsc) g = Some (H_set tsc, g\<lparr>g_thresh := 0\<rparr>)"
| "handle_step cfg (H_pos tsc) g = Some (if sint (g_thresh g) > 0 then H_dec tsc else H_set tsc, g)"
| "handle_step cfg (H_dec tsc) g = Some (H_put tsc (g_thresh g), g)"
| "handle_step cfg (H_put tsc t) g = Some (H_set tsc, g\<lparr>g_thresh := t - 1\<rparr>)"
| "handle_step cfg (H_set tsc) g = Some (H_clear, g\<lparr>g_stamp := tsc\<rparr>)"
| "handle_step cfg H_clear g = Some (H_out, g\<lparr>g_pending := 0\<rparr>)"

fun sig_step :: "sig_cfg \<Rightarrow> sig_event \<Rightarrow> sigstate \<Rightarrow> sigstate option" where
  "sig_step cfg (E_call n k) g = (if g_send g n = S_out then Some (g\<lparr>g_send := (g_send g)(n := S_size k)\<rparr>) else None)"
| "sig_step cfg (E_send n) g = map_option (\<lambda>(pc, g1). g1\<lparr>g_send := (g_send g1)(n := pc)\<rparr>) (send_step cfg (g_send g n) g)"
| "sig_step cfg (E_signal tsc) g = (if g_hnd g = H_out then Some (g\<lparr>g_hnd := H_stamp tsc\<rparr>) else None)"
| "sig_step cfg E_handle g = map_option (\<lambda>(pc, g1). g1\<lparr>g_hnd := pc\<rparr>) (handle_step cfg (g_hnd g) g)"
| "sig_step cfg (E_state st) g = Some (g\<lparr>g_state := st\<rparr>)"

text \<open>The states that interleaved steps reach; with \<open>serial\<close>, a sender enters only while no other is inside.\<close>

definition alone :: "sig_event \<Rightarrow> sigstate \<Rightarrow> bool" where
  "alone e g \<longleftrightarrow> (\<forall>n k. e = E_call n k \<longrightarrow> g_send g = (\<lambda>_. S_out))"

inductive sig_reach :: "bool \<Rightarrow> sig_cfg \<Rightarrow> sigstate \<Rightarrow> sigstate \<Rightarrow> bool" for serial cfg g0 where
  start: "sig_reach serial cfg g0 g0"
| next_step: "sig_reach serial cfg g0 g \<Longrightarrow> sig_step cfg e g = Some g' \<Longrightarrow> (serial \<Longrightarrow> alone e g) \<Longrightarrow> sig_reach serial cfg g0 g'"

fun sig_run :: "sig_cfg \<Rightarrow> sig_event list \<Rightarrow> sigstate \<Rightarrow> sigstate option" where
  "sig_run cfg [] g = Some g"
| "sig_run cfg (e # es) g = (case sig_step cfg e g of None \<Rightarrow> None | Some g1 \<Rightarrow> sig_run cfg es g1)"

lemma sig_run_append: "sig_run cfg (es @ fs) g = (case sig_run cfg es g of None \<Rightarrow> None | Some g1 \<Rightarrow> sig_run cfg fs g1)"
  by (induction es arbitrary: g) (auto split: option.split)

lemma sig_run_reach: "sig_run cfg es g = Some g' \<Longrightarrow> sig_reach False cfg g0 g \<Longrightarrow> sig_reach False cfg g0 g'"
  by (induction es arbitrary: g) (auto split: option.splits intro: next_step)

lemma sig_run_serial:
  "sig_run cfg es g = Some g' \<Longrightarrow> sig_reach True cfg g0 g \<Longrightarrow> \<forall>e\<in>set es. \<forall>n k. e \<noteq> E_call n k \<Longrightarrow> sig_reach True cfg g0 g'"
proof (induction es arbitrary: g)
  case (Cons e es)
  obtain g1 where g1: "sig_step cfg e g = Some g1" "sig_run cfg es g1 = Some g'" using Cons.prems(1) by (auto split: option.splits)
  have "sig_reach True cfg g0 g1" by (rule sig_reach.next_step[OF Cons.prems(2) g1(1)]) (use Cons.prems(3) in \<open>simp add: alone_def\<close>)
  then show ?case using Cons.IH[OF g1(2)] Cons.prems(3) by simp
qed simp

section \<open>Runs that nothing interrupts\<close>

text \<open>A core, with no thread inside.\<close>

definition core_view :: "'q CMCore \<Rightarrow> sigstate" where
  "core_view c = \<lparr>g_thresh = intr_thresh_hold c, g_pending = sig_pending c, g_stamp = time_stamp c, g_state = core_state c,
     g_kills = 0, g_send = (\<lambda>_. S_out), g_hnd = H_out\<rparr>"

lemma replicate_steps: "replicate (Suc m) e = e # replicate m e" "replicate 0 e = []"
  by simp_all

text \<open>A call of \<open>coremu_send_signal\<close>: what \<open>adapt_threshold\<close> makes of the core, and a signal on its conditions.\<close>

lemma send_signal_uninterrupted:
  assumes "adapt_threshold ops c = (c', b)"
  shows "\<exists>m. sig_run cfg (E_call n (coremu_intr_get_size ops c) # replicate m (E_send n)) (core_view c)
    = Some ((core_view c')\<lparr>g_kills := if cf_enough cfg \<or> b \<or> core_state c' = CM_STATE_HALT \<or> core_state c' = CM_STATE_PAUSE then 1 else 0\<rparr>)"
proof -
  let ?k = "coremu_intr_get_size ops c"
  have upd: "((\<lambda>_. S_out)(n := S_out)) = (\<lambda>_. S_out)" by auto
  have fin: "\<exists>m. sig_run cfg (replicate m (E_send n)) ((core_view c')\<lparr>g_send := (\<lambda>_. S_out)(n := S_halt b)\<rparr>)
      = Some ((core_view c')\<lparr>g_kills := if cf_enough cfg \<or> b \<or> core_state c' = CM_STATE_HALT \<or> core_state c' = CM_STATE_PAUSE then 1 else 0\<rparr>)"
  proof (cases "cf_enough cfg \<or> b \<or> core_state c' = CM_STATE_HALT")
    case True
    then show ?thesis by (intro exI[of _ "Suc (Suc 0)"]) (auto simp: core_view_def upd)
  next
    case False
    then show ?thesis
      by (cases "core_state c' = CM_STATE_PAUSE")
         (intro exI[of _ "Suc (Suc (Suc 0))"], simp add: core_view_def upd, intro exI[of _ "Suc (Suc 0)"], simp add: core_view_def upd)
  qed
  have "\<exists>m. sig_run cfg (E_call n ?k # replicate m (E_send n)) (core_view c) = Some ((core_view c')\<lparr>g_send := (\<lambda>_. S_out)(n := S_halt b)\<rparr>)"
  proof -
    consider "\<not> ?k > sint (intr_thresh_hold c)" | "?k > sint (intr_thresh_hold c)" "sig_pending c = 0"
      | "?k > sint (intr_thresh_hold c)" "sig_pending c \<noteq> 0" "sint (intr_thresh_hold c) < MAX_INTR_THRESHOLD"
      | "?k > sint (intr_thresh_hold c)" "sig_pending c \<noteq> 0" "\<not> sint (intr_thresh_hold c) < MAX_INTR_THRESHOLD" by blast
    then show ?thesis
    proof cases
      case 1
      then show ?thesis using assms by (intro exI[of _ "Suc 0"]) (auto simp: core_view_def adapt_threshold_def)
    next
      case 2
      then show ?thesis using assms by (intro exI[of _ "Suc (Suc (Suc (Suc 0)))"]) (auto simp: core_view_def adapt_threshold_def)
    next
      case 3
      then show ?thesis using assms by (intro exI[of _ "Suc (Suc (Suc (Suc (Suc 0))))"]) (auto simp: core_view_def adapt_threshold_def)
    next
      case 4
      then show ?thesis using assms by (intro exI[of _ "Suc (Suc (Suc 0))"]) (auto simp: core_view_def adapt_threshold_def)
    qed
  qed
  then obtain m where m: "sig_run cfg (E_call n ?k # replicate m (E_send n)) (core_view c) = Some ((core_view c')\<lparr>g_send := (\<lambda>_. S_out)(n := S_halt b)\<rparr>)" by blast
  obtain m' where "sig_run cfg (replicate m' (E_send n)) ((core_view c')\<lparr>g_send := (\<lambda>_. S_out)(n := S_halt b)\<rparr>)
      = Some ((core_view c')\<lparr>g_kills := if cf_enough cfg \<or> b \<or> core_state c' = CM_STATE_HALT \<or> core_state c' = CM_STATE_PAUSE then 1 else 0\<rparr>)"
    using fin by blast
  then show ?thesis
    using m sig_run_append[of cfg "E_call n ?k # replicate m (E_send n)" "replicate m' (E_send n)"] by (intro exI[of _ "m + m'"]) (simp add: replicate_add)
qed

text \<open>A run of the signal handler: what \<open>adjust_intr_threshold\<close> makes of the core, with \<open>sig_pending\<close> cleared.\<close>

lemma signal_handler_uninterrupted:
  assumes "self_core me s = Inr (i, s1)" "adjust_intr_threshold me tsc s = Inr s'" "SIG_HANDLE_INTERVAL s1 = Inr v" "cf_interval cfg = of_int v"
  shows "\<exists>m. sig_run cfg (E_signal tsc # replicate m E_handle) (core_view (cm_cores s ! i)) = Some (core_view ((cm_cores s' ! i)\<lparr>sig_pending := 0\<rparr>))"
proof -
  have i: "i < length (cm_cores s)" "cm_cores s1 = cm_cores s" using self_core_frame[OF assms(1)] by simp_all
  let ?c = "cm_cores s ! i"
  consider "time_stamp ?c = 0" | "time_stamp ?c \<noteq> 0" "tsc - time_stamp ?c > of_int v"
    | "time_stamp ?c \<noteq> 0" "\<not> tsc - time_stamp ?c > of_int v" "sint (intr_thresh_hold ?c) > 0"
    | "time_stamp ?c \<noteq> 0" "\<not> tsc - time_stamp ?c > of_int v" "\<not> sint (intr_thresh_hold ?c) > 0" by blast
  then show ?thesis
  proof cases
    case 1
    then show ?thesis using assms i by (intro exI[of _ "Suc (Suc (Suc 0))"]) (auto simp: core_view_def adjust_intr_threshold_def Let_def)
  next
    case 2
    then show ?thesis using assms i by (intro exI[of _ "Suc (Suc (Suc (Suc (Suc 0))))"]) (auto simp: core_view_def adjust_intr_threshold_def Let_def)
  next
    case 3
    then show ?thesis using assms i by (intro exI[of _ "Suc (Suc (Suc (Suc (Suc (Suc (Suc 0))))))"]) (auto simp: core_view_def adjust_intr_threshold_def Let_def)
  next
    case 4
    then show ?thesis using assms i by (intro exI[of _ "Suc (Suc (Suc (Suc (Suc 0))))"]) (auto simp: core_view_def adjust_intr_threshold_def Let_def)
  qed
qed
section \<open>Start-up\<close>

text \<open>The calls with which an emulator sets the library up: \<open>coremu_init\<close>, then \<open>coremu_core_init\<close> for its cores, then \<open>coremu_run_all_cores\<close>.\<close>

fun core_inits :: "(int \<times> int \<times> 'q \<times> nat \<times> u64) list \<Rightarrow> 'q coremu \<Rightarrow> 'q coremu result" where
  "core_inits [] s = Inr s"
| "core_inits ((err1, err2, q, i, opq) # cs) s = bind_result (coremu_core_init err1 err2 q i opq s) (core_inits cs)"

definition start_up :: "host \<Rightarrow> thread_id \<Rightarrow> 'q \<Rightarrow> int \<Rightarrow> (int \<times> int \<times> 'q \<times> nat \<times> u64) list \<Rightarrow> 'q coremu \<Rightarrow> 'q coremu result" where
  "start_up os me nullq n cs s = bind_result (coremu_init os me nullq n s) (\<lambda>s1. bind_result (core_inits cs s1) (coremu_run_all_cores os))"

definition idle_core :: "'q CMCore \<Rightarrow> bool" where
  "idle_core c \<longleftrightarrow> intr_thresh_hold c = 0 \<and> sig_pending c = 0 \<and> time_stamp c = 0 \<and> core_state c = CM_STATE_RUN"

lemma core_inits_idle: "core_inits cs s = Inr s' \<Longrightarrow> \<forall>c\<in>set (cm_cores s). idle_core c \<Longrightarrow> \<forall>c\<in>set (cm_cores s'). idle_core c"
proof (induction cs arbitrary: s)
  case (Cons a cs)
  obtain err1 err2 q i opq where a: "a = (err1, err2, q, i, opq)" by (cases a)
  with Cons.prems(1) obtain s1 where s1: "coremu_core_init err1 err2 q i opq s = Inr s1" "core_inits cs s1 = Inr s'"
    by (auto simp: bind_result_Inr_iff)
  then have "i < length (cm_cores s)" "cm_cores s1 = (cm_cores s)[i := (cm_cores s ! i)\<lparr>serial := of_nat i, intr_queue := q, opaque := opq, core_state := CM_STATE_RUN\<rparr>]"
    by (auto simp: coremu_core_init_def upd_core_def split: if_splits)
  then have "\<forall>c\<in>set (cm_cores s1). idle_core c"
    using Cons.prems(2) nth_mem[of i "cm_cores s"] by (auto simp: idle_core_def dest!: set_update_subset_insert[THEN subsetD])
  then show ?case using Cons.IH s1(2) by blast
qed simp

lemma create_threads_idle: "create_threads os i cs = Inr cs' \<Longrightarrow> \<forall>c\<in>set cs. idle_core c \<Longrightarrow> \<forall>c\<in>set cs'. idle_core c"
  by (induction os i cs arbitrary: cs' rule: create_threads.induct) (auto simp: bind_result_Inr_iff Let_def idle_core_def split: if_splits prod.splits)

lemma start_up_idle:
  assumes "start_up os me nullq n cs s0 = Inr s" "i < length (cm_cores s)"
  shows "core_view (cm_cores s ! i) = \<lparr>g_thresh = 0, g_pending = 0, g_stamp = 0, g_state = CM_STATE_RUN, g_kills = 0, g_send = (\<lambda>_. S_out), g_hnd = H_out\<rparr>"
proof -
  obtain s1 s2 where s1: "coremu_init os me nullq n s0 = Inr s1" "core_inits cs s1 = Inr s2" "coremu_run_all_cores os s2 = Inr s"
    using assms(1) by (auto simp: start_up_def bind_result_Inr_iff)
  have "\<forall>c\<in>set (cm_cores s1). idle_core c"
    using s1(1) by (auto simp: coremu_init_def Let_def coremu_init_hw_def register_hw_thr_def idle_core_def zero_core_def bind_result_Inr_iff)
  then have "\<forall>c\<in>set (cm_cores s2). idle_core c" by (rule core_inits_idle[OF s1(2)])
  then have "\<forall>c\<in>set (cm_cores s). idle_core c"
    using s1(3) create_threads_idle[of os 0 "cm_cores s2"] by (auto simp: coremu_run_all_cores_def bind_result_Inr_iff)
  then have "idle_core (cm_cores s ! i)" using assms(2) by simp
  then show ?thesis by (simp add: core_view_def idle_core_def)
qed

section \<open>One sender at a time\<close>

lemma double_thresh:
  assumes "unat (t :: u64) < 2 ^ 62"
  shows "unat (push_bit 1 (t + 1)) = 2 * unat t + 2"
proof -
  have "unat (t + 1) = unat t + 1" using assms by (subst unat_add_nowrap) simp_all
  then show ?thesis using assms unfolding unat_push_bit_mod by simp
qed

text \<open>
  What holds in between: a sender that has passed the test has loaded, or will load, a threshold below 50,
  since the handler only lowers it; and what the handler has loaded is not above the threshold, since a
  sender only raises it.
\<close>

fun send_ok :: "u64 \<Rightarrow> send_pc \<Rightarrow> bool" where
  "send_ok thr S_load = (unat thr \<le> 49)"
| "send_ok thr (S_store t) = (unat t \<le> 49 \<and> unat thr \<le> unat t)"
| "send_ok thr pc = True"

fun handle_ok :: "u64 \<Rightarrow> hnd_pc \<Rightarrow> bool" where
  "handle_ok thr (H_dec tsc) = (0 < unat thr)"
| "handle_ok thr (H_put tsc t) = (0 < unat t \<and> unat t \<le> unat thr)"
| "handle_ok thr pc = True"

definition serial_inv :: "sigstate \<Rightarrow> bool" where
  "serial_inv g \<longleftrightarrow> unat (g_thresh g) \<le> 100 \<and> handle_ok (g_thresh g) (g_hnd g) \<and> (\<exists>n. \<forall>m. m \<noteq> n \<longrightarrow> g_send g m = S_out)
     \<and> (\<forall>n. send_ok (g_thresh g) (g_send g n))"

lemma send_ok_lower: "send_ok thr pc \<Longrightarrow> unat thr' \<le> unat thr \<Longrightarrow> send_ok thr' pc"
  by (cases pc) auto

lemma handle_ok_raise: "handle_ok thr pc \<Longrightarrow> unat thr \<le> unat thr' \<Longrightarrow> handle_ok thr' pc"
  by (cases pc) auto

lemma serial_inv_sint:
  assumes "serial_inv g"
  shows "sint (g_thresh g) < 50 \<longleftrightarrow> unat (g_thresh g) \<le> 49" "0 < sint (g_thresh g) \<longleftrightarrow> 0 < unat (g_thresh g)"
    "0 \<le> sint (g_thresh g)" "sint (g_thresh g) \<le> 100"
proof -
  have "unat (g_thresh g) \<le> 100" using assms by (simp add: serial_inv_def)
  moreover from this have "sint (g_thresh g) = int (unat (g_thresh g))" by (intro sint_small_64) simp
  ultimately show "sint (g_thresh g) < 50 \<longleftrightarrow> unat (g_thresh g) \<le> 49" "0 < sint (g_thresh g) \<longleftrightarrow> 0 < unat (g_thresh g)"
    "0 \<le> sint (g_thresh g)" "sint (g_thresh g) \<le> 100" by linarith+
qed

text \<open>A step of a sender: no other is inside.\<close>

lemma send_step_inv:
  assumes inv: "serial_inv g" and st: "send_step cfg (g_send g n) g = Some (pc, g1)"
  shows "serial_inv (g1\<lparr>g_send := (g_send g1)(n := pc)\<rparr>)"
proof -
  have others: "g_send g m = S_out" if "m \<noteq> n" for m
  proof -
    have "g_send g n \<noteq> S_out" using st by auto
    moreover obtain k where "\<forall>m. m \<noteq> k \<longrightarrow> g_send g m = S_out" using inv by (auto simp: serial_inv_def)
    ultimately show ?thesis using that by metis
  qed
  have pre: "unat (g_thresh g) \<le> 100" "handle_ok (g_thresh g) (g_hnd g)" "send_ok (g_thresh g) (g_send g n)" using inv by (auto simp: serial_inv_def)
  have same: "g_send g1 = g_send g" "g_hnd g1 = g_hnd g" using st by (cases "g_send g n"; force)+
  have "unat (g_thresh g1) \<le> 100 \<and> handle_ok (g_thresh g1) (g_hnd g) \<and> send_ok (g_thresh g1) pc"
  proof (cases "\<exists>t. g_send g n = S_store t")
    case True
    then obtain t where t: "g_send g n = S_store t" by blast
    then have u: "unat t \<le> 49" "unat (g_thresh g) \<le> unat t" "unat (push_bit 1 (t + 1)) = 2 * unat t + 2"
      using pre(3) double_thresh[of t] by simp_all
    have "g_thresh g1 = push_bit 1 (t + 1)" "pc = S_halt False" using st t by auto
    then show ?thesis using u handle_ok_raise[OF pre(2), of "push_bit 1 (t + 1)"] by simp
  next
    case False
    then have "g_thresh g1 = g_thresh g" "send_ok (g_thresh g) pc"
      using st pre(3) serial_inv_sint(1)[OF inv] by (cases "g_send g n"; force simp: MAX_INTR_THRESHOLD_def)+
    then show ?thesis using pre by simp
  qed
  then show ?thesis using others same by (auto simp: serial_inv_def)
qed

text \<open>A step of the handler: it does not raise the threshold.\<close>

lemma handle_step_inv:
  assumes inv: "serial_inv g" and st: "handle_step cfg (g_hnd g) g = Some (pc, g1)"
  shows "serial_inv (g1\<lparr>g_hnd := pc\<rparr>)"
proof -
  have pre: "handle_ok (g_thresh g) (g_hnd g)" "unat (g_thresh g) \<le> 100" using inv by (simp_all add: serial_inv_def)
  have same: "g_send g1 = g_send g" using st by (cases "g_hnd g"; force)
  have low: "unat (g_thresh g1) \<le> unat (g_thresh g) \<and> handle_ok (g_thresh g1) pc"
  proof (cases "\<exists>tsc t. g_hnd g = H_put tsc t")
    case True
    then obtain tsc t where t: "g_hnd g = H_put tsc t" by blast
    then have u: "0 < unat t" "unat t \<le> unat (g_thresh g)" "g_thresh g1 = t - 1" "pc = H_set tsc" using pre(1) st by auto
    then have "unat (t - 1) = unat t - 1" by (simp add: unat_minus_one unat_gt_0)
    then show ?thesis using u by simp
  next
    case False
    then show ?thesis using st pre(1) serial_inv_sint(2)[OF inv] by (cases "g_hnd g"; force)
  qed
  then have "send_ok (g_thresh g1) (g_send g n)" for n using inv send_ok_lower unfolding serial_inv_def by blast
  then show ?thesis using inv low pre(2) same by (simp add: serial_inv_def)
qed

lemma sig_step_inv:
  assumes "serial_inv g" "sig_step cfg e g = Some g'" "alone e g"
  shows "serial_inv g'"
proof (cases e)
  case (E_call n k)
  then have out: "g_send g = (\<lambda>_. S_out)" using assms(3) by (auto simp: alone_def)
  have g': "g' = g\<lparr>g_send := (\<lambda>_. S_out)(n := S_size k)\<rparr>" using assms(2) E_call out by simp
  show ?thesis using assms(1) unfolding g' serial_inv_def by (intro conjI exI[of _ n]) auto
next
  case (E_send n)
  then show ?thesis using assms(1,2) send_step_inv by auto
next
  case (E_signal tsc)
  then have "g' = g\<lparr>g_hnd := H_stamp tsc\<rparr>" using assms(2) by (simp split: if_splits)
  then show ?thesis using assms(1) by (simp add: serial_inv_def)
next
  case E_handle
  then show ?thesis using assms(1,2) handle_step_inv by auto
next
  case (E_state st)
  then have "g' = g\<lparr>g_state := st\<rparr>" using assms(2) by simp
  then show ?thesis using assms(1) by (simp add: serial_inv_def)
qed

text \<open>
  C9. With one sender at a time the adaptive threshold of a core stays between 0 and 100. From start-up on,
  through any interleaving of the single memory accesses of \<open>coremu_send_signal\<close> with those of the signal
  handler and with the scheduler's changes of the core's state, where a thread enters \<open>coremu_send_signal\<close>
  only when no other thread is inside for this core: at most 100 interrupts wait for a running core without a
  signal, and the doubling never overflows.
\<close>

theorem threshold_bounded:
  assumes "start_up os me nullq n cs s0 = Inr s" "i < length (cm_cores s)" "sig_reach True cfg (core_view (cm_cores s ! i)) g"
  shows "0 \<le> sint (g_thresh g) \<and> sint (g_thresh g) \<le> 100"
proof -
  have "serial_inv g" using assms(3)
  proof induction
    case start
    show ?case unfolding start_up_idle[OF assms(1,2)] by (simp add: serial_inv_def)
  next
    case (next_step g e g')
    then show ?case using sig_step_inv by blast
  qed
  then show ?thesis using serial_inv_sint by blast
qed
text \<open>
  The hypotheses at a concrete system: one core, and the hardware thread 1 is the sender. Of two interrupts
  the first makes it send a signal, and the second, with the signal still on its way, raise the threshold.
\<close>

definition sig_host :: host where
  "sig_host = \<lparr>os_setpriority = (\<lambda>_ _. 0), os_nprocs = 2, os_topo_cores = 2, os_pthread_create = (\<lambda>i. (0, 10 + i)),
     os_gettid = (\<lambda>t. int t + 100), os_policy_ok = (\<lambda>_. True), os_cpubind = (\<lambda>_. 0)\<rparr>"

definition sig_blank :: "unit coremu" where
  "sig_blank = \<lparr>cm_smp_cpus = 0, cm_cores = [], cm_core_self = Map.empty, init_done = False, hw_thrid = 0, ioreq_exit = 0,
     host_cpu_avail = 0, min_prio = 0, max_prio = 0, low_prio = 0, avg_prio = 0, high_prio = 0, topo_cores = 0,
     pause_cnt = (\<lambda>_. 0), event_handler = False, event_notifier = False, effects = []\<rparr>"

lemma sig_start: "\<exists>s. start_up sig_host 1 () 1 [(0, 0, (), 0, 5)] sig_blank = Inr s \<and> length (cm_cores s) = 1"
  by (simp add: start_up_def coremu_init_def coremu_init_sched_all_def coremu_thread_setpriority_def sig_host_def sig_blank_def Let_def
      topology_init_def emit_def coremu_init_hw_def register_hw_thr_def coremu_core_init_def upd_core_def coremu_run_all_cores_def)

definition sig_conf :: sig_cfg where "sig_conf = \<lparr>cf_interval = 2500000, cf_enough = False\<rparr>"

theorem threshold_bounded_witness:
  "\<exists>s g. start_up sig_host 1 () 1 [(0, 0, (), 0, 5)] sig_blank = Inr s \<and> sig_reach True sig_conf (core_view (cm_cores s ! 0)) g
     \<and> g_thresh g = 2 \<and> g_kills g = 1 \<and> sint (g_thresh g) \<le> 100"
proof -
  obtain s where s: "start_up sig_host 1 () 1 [(0, 0, (), 0, 5)] sig_blank = Inr s" "length (cm_cores s) = 1" using sig_start by blast
  let ?g0 = "core_view (cm_cores s ! 0)"
  note v = start_up_idle[OF s(1), of 0, unfolded s(2), simplified]
  have call: "sig_reach True sig_conf ?g0 (g\<lparr>g_send := (g_send g)(1 := S_size 3)\<rparr>)" if "sig_reach True sig_conf ?g0 g" "g_send g = (\<lambda>_. S_out)" for g
    by (rule sig_reach.next_step[OF that(1), of "E_call 1 3"]) (simp_all add: that(2) alone_def)
  define g1 where "g1 = ?g0\<lparr>g_pending := 1, g_kills := 1\<rparr>"
  have "sig_run sig_conf (replicate 6 (E_send 1)) (?g0\<lparr>g_send := (g_send ?g0)(1 := S_size 3)\<rparr>) = Some g1"
    by (simp add: numeral_eq_Suc g1_def v sig_conf_def fun_upd_idem)
  from sig_run_serial[OF this call[OF sig_reach.start]] have r1: "sig_reach True sig_conf ?g0 g1" by (simp add: v)
  obtain g where g: "sig_run sig_conf (replicate 5 (E_send 1)) (g1\<lparr>g_send := (g_send g1)(1 := S_size 3)\<rparr>) = Some g" "g_thresh g = 2" "g_kills g = 1"
    by (simp add: numeral_eq_Suc g1_def v sig_conf_def MAX_INTR_THRESHOLD_def)
  from sig_run_serial[OF g(1) call[OF r1]] have r: "sig_reach True sig_conf ?g0 g" by (simp add: g1_def v)
  show ?thesis using threshold_bounded[OF s(1) _ r] s r g(2,3) by (intro exI[of _ s] exI[of _ g]) simp
qed

section \<open>Two senders\<close>

text \<open>
  With two senders the test does not protect the update. Sender \<open>a\<close> has loaded \<open>k\<close> and is about to store; the
  handler resets the threshold, \<open>b\<close> passes the test, \<open>a\<close> stores, and \<open>b\<close> loads what \<open>a\<close> has stored.
\<close>

definition about_to_store :: "nat \<Rightarrow> nat \<Rightarrow> nat \<Rightarrow> sigstate \<Rightarrow> bool" where
  "about_to_store a b k g \<longleftrightarrow> g_send g a = S_store (of_nat k) \<and> g_send g b = S_out \<and> g_hnd g = H_out \<and> g_stamp g \<noteq> 0"

lemma late_tsc:
  assumes "interval < 2 ^ 63"
  shows "\<exists>tsc. tsc \<noteq> 0 \<and> tsc - stamp > (interval :: u64)"
proof (cases "stamp + interval + 1 = 0")
  case True
  have "unat interval < 2 ^ 63" using assms by (simp add: word_less_nat_alt)
  then have "unat (interval + 2) = unat interval + 2" by (subst unat_add_nowrap) simp_all
  then have less: "interval < interval + 2" by (simp add: word_less_nat_alt)
  have "stamp + interval + 2 = (stamp + interval + 1) + 1" by simp
  then have one: "stamp + interval + 2 = 1" unfolding True by simp
  have "stamp + interval + 2 - stamp = interval + 2" by simp
  then show ?thesis using less one by (intro exI[of _ "stamp + interval + 2"]) (simp only: one, simp)
next
  case False
  have "unat interval < 2 ^ 63" using assms by (simp add: word_less_nat_alt)
  then have "unat (interval + 1) = unat interval + 1" by (subst unat_add_nowrap) simp_all
  then have "interval < interval + 1" by (simp add: word_less_nat_alt)
  then show ?thesis using False by (intro exI[of _ "stamp + interval + 1"]) (simp add: algebra_simps)
qed

lemma race_round:
  assumes "about_to_store a b k g" "a \<noteq> b" "cf_interval cfg < 2 ^ 63"
  shows "\<exists>es g'. sig_run cfg es g = Some g' \<and> about_to_store b a (2 * k + 2) g' \<and> g_thresh g' = of_nat (2 * k + 2)"
proof -
  obtain tsc where tsc: "tsc \<noteq> 0" "tsc - g_stamp g > cf_interval cfg" using late_tsc[OF assms(3)] by blast
  have g: "g_send g a = S_store (of_nat k)" "g_send g b = S_out" "g_hnd g = H_out" "g_stamp g \<noteq> 0" "b \<noteq> a"
    using assms(1,2) by (simp_all add: about_to_store_def)
  define g1 where "g1 = g\<lparr>g_thresh := 0, g_stamp := tsc, g_pending := 0\<rparr>"
  have r1: "sig_run cfg (E_signal tsc # replicate 5 E_handle) g = Some g1"
    using g tsc by (simp add: numeral_eq_Suc g1_def)
  define g2 where "g2 = g1\<lparr>g_pending := 1, g_state := CM_STATE_RUN, g_kills := g_kills g1 + 1\<rparr>"
  have r2: "sig_run cfg (E_call b 1 # replicate 6 (E_send b)) g1 = Some g2"
    using g by (simp add: numeral_eq_Suc g1_def g2_def fun_upd_idem)
  define g3 where "g3 = g2\<lparr>g_send := (g_send g2)(b := S_load)\<rparr>"
  have r3: "sig_run cfg (E_call b 1 # replicate 3 (E_send b)) g2 = Some g3"
    using g by (simp add: numeral_eq_Suc g1_def g2_def g3_def MAX_INTR_THRESHOLD_def)
  have "push_bit 1 (of_nat k + 1 :: u64) = of_nat (2 * k + 2)" by (simp add: push_bit_eq_mult algebra_simps)
  then obtain g4 where r4: "sig_run cfg [E_send a, E_send a, E_send a, E_send b] g3 = Some g4"
      "about_to_store b a (2 * k + 2) g4" "g_thresh g4 = of_nat (2 * k + 2)"
    using g tsc(1) by (cases "cf_enough cfg") (simp_all add: g1_def g2_def g3_def about_to_store_def)
  show ?thesis
    using r1 r2 r3 r4 by (intro exI[of _ "((E_signal tsc # replicate 5 E_handle) @ (E_call b 1 # replicate 6 (E_send b)) @ (E_call b 1 # replicate 3 (E_send b))
        @ [E_send a, E_send a, E_send a, E_send b])"] exI[of _ g4]) (simp only: sig_run_append option.case simp_thms)
qed

lemma race_rounds:
  assumes "about_to_store a b k g" "a \<noteq> b" "cf_interval cfg < 2 ^ 63" "sig_reach False cfg g0 g"
  shows "\<exists>g'. sig_reach False cfg g0 g' \<and> g_thresh g' = of_nat (2 ^ Suc j * (k + 2) - 2)"
  using assms
proof (induction j arbitrary: a b k g)
  case 0
  obtain es g' where g': "sig_run cfg es g = Some g'" "g_thresh g' = of_nat (2 * k + 2)" using race_round[OF 0(1-3)] by blast
  have "2 ^ Suc 0 * (k + 2) - 2 = 2 * k + 2" by simp
  then show ?case using sig_run_reach[OF g'(1) 0(4)] g'(2) by (intro exI[of _ g']) (simp only:)
next
  case (Suc j)
  obtain es g' where g': "sig_run cfg es g = Some g'" "about_to_store b a (2 * k + 2) g'" using race_round[OF Suc.prems(1-3)] by blast
  have "\<exists>g''. sig_reach False cfg g0 g'' \<and> g_thresh g'' = of_nat (2 ^ Suc j * (2 * k + 2 + 2) - 2)"
    by (rule Suc.IH[OF g'(2) _ Suc.prems(3) sig_run_reach[OF g'(1) Suc.prems(4)]]) (use Suc.prems(2) in simp)
  moreover have "2 ^ Suc j * (2 * k + 2 + 2) = 2 ^ Suc (Suc j) * (k + 2)" by (simp add: algebra_simps)
  ultimately show ?case by (simp only:)
qed


end
