(* ===== verification/E820.thy ===== *)
theory E820
  imports Prelude
begin

text \<open>
  \<open>bios/seabios/src/memmap.c\<close>: the memory map that the firmware reports through interrupt 15h,
  function E820h. The array \<open>e820_list\<close> with its counter \<open>e820_count\<close> is a list of entries.
\<close>

section \<open>Data\<close>

definition E820_RAM :: u32 where "E820_RAM = 1"
definition E820_RESERVED :: u32 where "E820_RESERVED = 2"
definition E820_HOLE :: u32 where "E820_HOLE = - 1"
definition CONFIG_MAX_E820 :: nat where "CONFIG_MAX_E820 = 32"

record e820entry =
  e_start :: u64
  e_size :: u64
  e_type :: u32

definition e_end :: "e820entry \<Rightarrow> u64" where
  "e_end e = e_start e + e_size e"

section \<open>Operations\<close>

definition remove_e820 :: "nat \<Rightarrow> e820entry list \<Rightarrow> e820entry list" where
  "remove_e820 i es = take i es @ drop (Suc i) es"

definition insert_e820 :: "nat \<Rightarrow> u64 \<Rightarrow> u64 \<Rightarrow> u32 \<Rightarrow> e820entry list \<Rightarrow> e820entry list" where
  "insert_e820 i start sz ty es =
     (if length es \<ge> CONFIG_MAX_E820 then es
      else take i es @ \<lparr>e_start = start, e_size = sz, e_type = ty\<rparr> # drop i es)"

text \<open>
  The first loop of \<open>add_e820\<close>: the position of the new item, with \<open>start\<close>, \<open>size\<close> and the list
  as the loop leaves them. \<open>en\<close> is the variable \<open>end\<close>.
\<close>

function add_scan ::
  "u64 \<Rightarrow> u64 \<Rightarrow> u64 \<Rightarrow> u32 \<Rightarrow> nat \<Rightarrow> e820entry list \<Rightarrow> nat \<times> u64 \<times> u64 \<times> e820entry list" where
  "add_scan start en sz ty i es =
     (if i < length es then
        let e = es ! i in
        if start > e_end e then add_scan start en sz ty (Suc i) es
        else if start > e_start e then
          if ty = e_type e then (i, e_start e, sz + (start - e_start e), es)
          else
            let es1 = es[i := e\<lparr>e_size := start - e_start e\<rparr>] in
            (Suc i, start, sz,
             if e_end e > en then insert_e820 (Suc i) en (e_end e - en) (e_type e) es1 else es1)
        else (i, start, sz, es)
      else (i, start, sz, es))"
  by pat_completeness auto
termination
  by (relation "measure (\<lambda>(start, en, sz, ty, i, es). length es - i)") auto

text \<open>The second loop: items that the new one overlaps are removed or cut at its end.\<close>

function add_trim :: "u64 \<Rightarrow> u64 \<Rightarrow> u32 \<Rightarrow> nat \<Rightarrow> e820entry list \<Rightarrow> u64 \<times> e820entry list" where
  "add_trim en sz ty i es =
     (if i < length es then
        let e = es ! i in
        if en < e_start e then (sz, es)
        else if en \<ge> e_end e then add_trim en sz ty i (remove_e820 i es)
        else
          let e' = e\<lparr>e_start := en, e_size := e_end e - en\<rparr> in
          if ty = e_type e then (sz + e_size e', remove_e820 i (es[i := e']))
          else (sz, es[i := e'])
      else (sz, es))"
  by pat_completeness auto
termination
  by (relation "measure (\<lambda>(en, sz, ty, i, es). length es - i)") (auto simp: remove_e820_def)

declare add_scan.simps [simp del] add_trim.simps [simp del]

definition add_e820 :: "u64 \<Rightarrow> u64 \<Rightarrow> u32 \<Rightarrow> e820entry list \<Rightarrow> e820entry list" where
  "add_e820 start0 size0 ty es0 =
     (if size0 = 0 then es0
      else
        let en = start0 + size0;
            (i, start, sz1, es1) = add_scan start0 en size0 ty 0 es0;
            (sz, es2) = add_trim en sz1 ty i es1
        in if ty \<noteq> E820_HOLE then insert_e820 i start sz ty es2 else es2)"

text \<open>
  \<open>find_high_area\<close> walks the list from its end; the result is the index of the entry. The sum
  \<open>1024*1024 + size\<close> is computed in 32 bits.
\<close>

fun find_high_from :: "u32 \<Rightarrow> nat \<Rightarrow> e820entry list \<Rightarrow> nat option" where
  "find_high_from sz 0 es = None"
| "find_high_from sz (Suc i) es =
     (let e = es ! i in
      if e_type e \<noteq> E820_RAM \<or> e_end e > 0xffffffff \<or> e_size e < ucast sz
      then find_high_from sz i es
      else if e_end e < ucast (1024 * 1024 + sz) then None
      else Some i)"

definition find_high_area :: "u32 \<Rightarrow> e820entry list \<Rightarrow> nat option" where
  "find_high_area sz es = find_high_from sz (length es) es"

definition memmap_setup :: "e820entry list" where
  "memmap_setup = []"

section \<open>Meaning of a map\<close>

definition covers :: "e820entry \<Rightarrow> nat \<Rightarrow> bool" where
  "covers e x \<longleftrightarrow> unat (e_start e) \<le> x \<and> x < unat (e_start e) + unat (e_size e)"

text \<open>The type that the map gives the byte at address \<open>x\<close>; \<open>None\<close> is a hole.\<close>

fun type_at :: "e820entry list \<Rightarrow> nat \<Rightarrow> u32 option" where
  "type_at [] x = None"
| "type_at (e # es) x = (if covers e x then Some (e_type e) else type_at es x)"

definition entry_ok :: "e820entry \<Rightarrow> bool" where
  "entry_ok e \<longleftrightarrow> 0 < unat (e_size e) \<and> unat (e_start e) + unat (e_size e) < 2 ^ 64
     \<and> e_type e \<noteq> E820_HOLE"

text \<open>Entries in order, disjoint, and merged where entries of one type touch.\<close>

definition apart :: "e820entry \<Rightarrow> e820entry \<Rightarrow> bool" where
  "apart e f \<longleftrightarrow> unat (e_start e) + unat (e_size e) < unat (e_start f)
     \<or> unat (e_start e) + unat (e_size e) = unat (e_start f) \<and> e_type e \<noteq> e_type f"

definition e820_wf :: "e820entry list \<Rightarrow> bool" where
  "e820_wf es \<longleftrightarrow> length es \<le> CONFIG_MAX_E820 \<and> (\<forall>e\<in>set es. entry_ok e) \<and> sorted_wrt apart es"

lemma unat_e_end: "entry_ok e \<Longrightarrow> unat (e_end e) = unat (e_start e) + unat (e_size e)"
  by (simp add: entry_ok_def e_end_def unat_add_nowrap)

lemma type_at_append:
  "type_at (l @ r) x = (case type_at l x of Some t \<Rightarrow> Some t | None \<Rightarrow> type_at r x)"
  by (induction l) auto

lemma type_at_None: "(\<And>e. e \<in> set es \<Longrightarrow> \<not> covers e x) \<Longrightarrow> type_at es x = None"
  by (induction es) auto

section \<open>The second loop\<close>

lemma nth_length_append [simp]: "(l @ e # r) ! length l = e"
  by (rule nth_append_length)

lemma remove_e820_at: "remove_e820 (length l) (l @ e # r) = l @ r"
  by (simp add: remove_e820_def)

lemma add_trim_Nil: "add_trim en sz ty (length l) l = (sz, l)"
  by (simp add: add_trim.simps)

lemma add_trim_Cons:
  "add_trim en sz ty (length l) (l @ e # r) =
     (if en < e_start e then (sz, l @ e # r)
      else if e_end e \<le> en then add_trim en sz ty (length l) (l @ r)
      else if ty = e_type e then (sz + (e_end e - en), l @ r)
      else (sz, l @ e\<lparr>e_start := en, e_size := e_end e - en\<rparr> # r))"
  by (subst add_trim.simps) (simp add: Let_def remove_e820_at list_update_append)

text \<open>
  What the second loop leaves to the right of the new item, which then ends at
  \<open>unat start + unat sz'\<close>: a suffix of well-formed entries, apart from the new item, that types
  every byte behind the new item as before; bytes that the new item gained had its type.
\<close>

definition trimmed :: "u64 \<Rightarrow> nat \<Rightarrow> u32 \<Rightarrow> u64 \<Rightarrow> e820entry list \<Rightarrow> e820entry list \<Rightarrow> bool" where
  "trimmed start en ty sz' r r' \<longleftrightarrow>
     length r' \<le> length r \<and> (\<forall>e\<in>set r'. entry_ok e) \<and> sorted_wrt apart r'
     \<and> en \<le> unat start + unat sz' \<and> unat start + unat sz' < 2 ^ 64
     \<and> (\<forall>e\<in>set r'. apart \<lparr>e_start = start, e_size = sz', e_type = ty\<rparr> e)
     \<and> (\<forall>x. unat start + unat sz' \<le> x \<longrightarrow> type_at r' x = type_at r x)
     \<and> (\<forall>x. en \<le> x \<and> x < unat start + unat sz' \<longrightarrow> type_at r x = Some ty)
     \<and> (ty = E820_HOLE \<longrightarrow> unat start + unat sz' = en)"

lemma add_trim_spec:
  assumes "\<forall>e\<in>set r. entry_ok e" "sorted_wrt apart r"
    and "unat start + unat sz = unat en"
  shows "\<exists>sz' r'. add_trim en sz ty (length l) (l @ r) = (sz', l @ r') \<and> trimmed start (unat en) ty sz' r r'"
  using assms(1,2)
proof (induction r)
  case Nil
  then show ?case using assms(3) unat_lt_2p[of en] by (simp add: add_trim_Nil trimmed_def)
next
  case (Cons e r)
  then have ok: "entry_ok e" and r: "\<forall>e\<in>set r. entry_ok e" "sorted_wrt apart r"
    and ap: "\<forall>f\<in>set r. apart e f" by auto
  have ee: "unat (e_end e) = unat (e_start e) + unat (e_size e)" using ok by (rule unat_e_end)
  have right: "unat (e_end e) \<le> unat (e_start f)" if "f \<in> set r" for f
    using ap that ee by (auto simp: apart_def)
  have rNone: "type_at r x = None" if "x < unat (e_end e)" for x
    using right that by (intro type_at_None) (force simp: covers_def)
  have en64: "unat en < 2 ^ 64" using unat_lt_2p[of en] by simp
  show ?case
  proof (cases "en < e_start e")
    case True
    then have "unat en < unat (e_start e)" by (simp add: word_less_nat_alt)
    moreover have "unat en < unat (e_start f)" if "f \<in> set r" for f
      using right[OF that] calculation ee by simp
    ultimately have "\<forall>f\<in>set (e # r). apart \<lparr>e_start = start, e_size = sz, e_type = ty\<rparr> f"
      using assms(3) by (simp add: apart_def)
    then have "trimmed start (unat en) ty sz (e # r) (e # r)"
      using assms(3) en64 Cons.prems unfolding trimmed_def by auto
    then show ?thesis using True by (simp add: add_trim_Cons)
  next
    case before: False
    show ?thesis
    proof (cases "e_end e \<le> en")
      case True
      obtain sz' r' where t: "add_trim en sz ty (length l) (l @ r) = (sz', l @ r')"
        "trimmed start (unat en) ty sz' r r'" using Cons.IH r by blast
      have "\<not> covers e x" if "unat en \<le> x" for x
        using True that ee by (auto simp: covers_def word_le_nat_alt)
      then have "trimmed start (unat en) ty sz' (e # r) r'"
        using t(2) by (auto simp: trimmed_def)
      then show ?thesis using t(1) True before by (auto simp: add_trim_Cons)
    next
      case False
      have lt: "unat en < unat (e_end e)" and ge: "unat (e_start e) \<le> unat en"
        using False before by (simp_all add: word_le_nat_alt word_less_nat_alt)
      have d: "unat (e_end e - en) = unat (e_end e) - unat en"
        using False by (intro unat_diff_nowrap) simp
      have e64: "unat (e_end e) < 2 ^ 64" using unat_lt_2p[of "e_end e"] by simp
      show ?thesis
      proof (cases "ty = e_type e")
        case True
        have s: "unat (sz + (e_end e - en)) = unat sz + (unat (e_end e) - unat en)"
          using d assms(3) lt e64 by (subst unat_add_nowrap) auto
        then have s': "unat start + unat (sz + (e_end e - en)) = unat (e_end e)"
          using assms(3) lt by simp
        have "apart \<lparr>e_start = start, e_size = sz + (e_end e - en), e_type = ty\<rparr> f" if "f \<in> set r" for f
          using ap that s assms(3) lt ee True by (auto simp: apart_def)
        moreover have "type_at (e # r) x = type_at r x" if "unat (e_end e) \<le> x" for x
          using that ee by (simp add: covers_def)
        moreover have "covers e x" if "unat en \<le> x" "x < unat (e_end e)" for x
          using that ee ge by (simp add: covers_def)
        moreover have "ty \<noteq> E820_HOLE" using ok True by (simp add: entry_ok_def)
        ultimately have "trimmed start (unat en) ty (sz + (e_end e - en)) (e # r) r"
          using r lt e64 True unfolding trimmed_def s' by auto
        then show ?thesis using True False before by (auto simp: add_trim_Cons)
      next
        case ne: False
        let ?e = "e\<lparr>e_start := en, e_size := e_end e - en\<rparr>"
        have ok': "entry_ok ?e" using ok d lt e64 by (simp add: entry_ok_def)
        have ap': "apart ?e f" if "f \<in> set r" for f
          using ap that d lt ee by (auto simp: apart_def)
        have "apart \<lparr>e_start = start, e_size = sz, e_type = ty\<rparr> f" if "f \<in> set r" for f
          using right[OF that] lt assms(3) by (simp add: apart_def)
        moreover have "apart \<lparr>e_start = start, e_size = sz, e_type = ty\<rparr> ?e"
          using assms(3) ne by (simp add: apart_def)
        moreover have "covers ?e x = covers e x" if "unat en \<le> x" for x
          using that d lt ee ge by (auto simp: covers_def)
        ultimately have "trimmed start (unat en) ty sz (e # r) (?e # r)"
          using r ok' ap' assms(3) en64 unfolding trimmed_def by auto
        then show ?thesis using ne False before by (auto simp: add_trim_Cons)
      qed
    qed
  qed
qed

section \<open>The first loop\<close>

lemma add_scan_Nil: "add_scan start en sz ty (length l) l = (length l, start, sz, l)"
  by (simp add: add_scan.simps)

lemma add_scan_Cons:
  "add_scan start en sz ty (length l) (l @ e # r) =
     (if e_end e < start then add_scan start en sz ty (length (l @ [e])) ((l @ [e]) @ r)
      else if e_start e < start then
        if ty = e_type e then (length l, e_start e, sz + (start - e_start e), l @ e # r)
        else (Suc (length l), start, sz,
          (let es1 = l @ e\<lparr>e_size := start - e_start e\<rparr> # r in
           if en < e_end e then insert_e820 (Suc (length l)) en (e_end e - en) (e_type e) es1 else es1))
      else (length l, start, sz, l @ e # r))"
  by (subst add_scan.simps) (simp add: Let_def list_update_append)

text \<open>What the first loop establishes of the position \<open>length l\<close> that it stops at.\<close>

definition placed :: "u64 \<Rightarrow> u64 \<Rightarrow> u32 \<Rightarrow> u64 \<Rightarrow> u64 \<Rightarrow> e820entry list \<Rightarrow> e820entry list \<Rightarrow> e820entry list \<Rightarrow> bool" where
  "placed start en ty s sz es l r \<longleftrightarrow>
     e820_wf (l @ r) \<and> length (l @ r) \<le> Suc (length es)
     \<and> (\<forall>e\<in>set l. apart e \<lparr>e_start = s, e_size = sz, e_type = ty\<rparr>)
     \<and> (\<forall>f\<in>set r. unat s \<le> unat (e_start f))
     \<and> unat s + unat sz = unat en \<and> unat s \<le> unat start \<and> (ty = E820_HOLE \<longrightarrow> s = start)
     \<and> (\<forall>x. unat s \<le> x \<and> x < unat start \<longrightarrow> type_at es x = Some ty)
     \<and> (length es < CONFIG_MAX_E820 \<longrightarrow>
          (\<forall>x. x < unat start \<or> unat en \<le> x \<longrightarrow> type_at (l @ r) x = type_at es x))"

lemma wf_split:
  "e820_wf (l @ e # r) \<Longrightarrow> entry_ok e \<and> (\<forall>f\<in>set r. apart e f) \<and> (\<forall>f\<in>set l. apart f e)
     \<and> (\<forall>f\<in>set l. \<forall>g\<in>set r. apart f g)"
  by (simp add: e820_wf_def sorted_wrt_append)

lemma placed_here:
  assumes "e820_wf (l @ r)" "\<forall>e\<in>set l. unat (e_end e) < unat start"
    and "\<forall>f\<in>set r. unat start \<le> unat (e_start f)"
    and "unat start + unat sz = unat en"
  shows "placed start en ty start sz (l @ r) l r"
proof -
  have "entry_ok e" if "e \<in> set l" for e using assms(1) that by (auto simp: e820_wf_def)
  then have "apart e \<lparr>e_start = start, e_size = sz, e_type = ty\<rparr>" if "e \<in> set l" for e
    using that assms(2) by (auto simp: apart_def unat_e_end)
  then show ?thesis using assms unfolding placed_def by auto
qed

lemma placed_merge:
  assumes wf: "e820_wf (l @ e # r)" and l: "\<forall>e\<in>set l. unat (e_end e) < unat start"
    and "unat start + unat sz = unat en" "e_start e < start" "start \<le> e_end e"
  shows "placed start en (e_type e) (e_start e) (sz + (start - e_start e)) (l @ e # r) l (e # r)"
proof -
  note w = wf_split[OF wf]
  have ee: "unat (e_end e) = unat (e_start e) + unat (e_size e)" using w by (simp add: unat_e_end)
  have lt: "unat (e_start e) < unat start" and le: "unat start \<le> unat (e_end e)"
    using assms(4,5) by (simp_all add: word_less_nat_alt word_le_nat_alt)
  have d: "unat (start - e_start e) = unat start - unat (e_start e)"
    using assms(4) by (simp add: unat_diff_nowrap)
  have "unat en < 2 ^ 64" using unat_lt_2p[of en] by simp
  then have s: "unat (sz + (start - e_start e)) = unat sz + (unat start - unat (e_start e))"
    using d assms(3) lt by (subst unat_add_nowrap) auto
  have "type_at (l @ e # r) x = Some (e_type e)" if "unat (e_start e) \<le> x" "x < unat start" for x
  proof -
    have "\<not> covers f x" if "f \<in> set l" for f
      using w that \<open>unat (e_start e) \<le> x\<close> by (auto simp: covers_def apart_def)
    then have "type_at l x = None" by (rule type_at_None)
    then show ?thesis using that le ee by (simp add: type_at_append covers_def)
  qed
  moreover have "\<forall>f\<in>set (e # r). unat (e_start e) \<le> unat (e_start f)"
    using w by (auto simp: apart_def)
  moreover have "\<forall>f\<in>set l. apart f \<lparr>e_start = e_start e, e_size = sz + (start - e_start e), e_type = e_type e\<rparr>"
    using w by (auto simp: apart_def)
  moreover have "e_type e \<noteq> E820_HOLE" using w by (simp add: entry_ok_def)
  ultimately show ?thesis using wf s assms(3) lt by (simp add: placed_def)
qed

text \<open>An entry of another type is cut at the start of the new item.\<close>

lemma placed_cut:
  assumes wf: "e820_wf (l @ e # r)" and l: "\<forall>e\<in>set l. unat (e_end e) < unat start"
    and "unat start + unat sz = unat en" "0 < unat sz" "e_start e < start" "start \<le> e_end e"
    and ne: "ty \<noteq> e_type e"
    and r': "r' = r \<and> e_end e \<le> en
      \<or> r' = r \<and> CONFIG_MAX_E820 \<le> length (l @ e # r)
      \<or> r' = \<lparr>e_start = en, e_size = e_end e - en, e_type = e_type e\<rparr> # r \<and> en < e_end e
          \<and> length (l @ e # r) < CONFIG_MAX_E820"
  shows "placed start en ty start sz (l @ e # r) (l @ [e\<lparr>e_size := start - e_start e\<rparr>]) r'"
proof -
  let ?c = "e\<lparr>e_size := start - e_start e\<rparr>"
  let ?t = "\<lparr>e_start = en, e_size = e_end e - en, e_type = e_type e\<rparr>"
  note w = wf_split[OF wf]
  have ee: "unat (e_end e) = unat (e_start e) + unat (e_size e)" using w by (simp add: unat_e_end)
  have lt: "unat (e_start e) < unat start" and le: "unat start \<le> unat (e_end e)"
    using assms(5,6) by (simp_all add: word_less_nat_alt word_le_nat_alt)
  have d: "unat (start - e_start e) = unat start - unat (e_start e)"
    using assms(5) by (simp add: unat_diff_nowrap)
  have s64: "unat start < 2 ^ 64" "unat (e_end e) < 2 ^ 64"
    using unat_lt_2p[of start] unat_lt_2p[of "e_end e"] by simp_all
  have c: "entry_ok ?c" "apart ?c \<lparr>e_start = start, e_size = sz, e_type = ty\<rparr>"
    using w d lt s64 ne by (simp_all add: entry_ok_def apart_def)
  have cr: "apart ?c f" if "f \<in> set r" for f
  proof -
    have "apart e f" using w that by blast
    then show ?thesis using d le ee lt by (auto simp: apart_def)
  qed
  have lc: "apart f ?c" "apart f \<lparr>e_start = start, e_size = sz, e_type = ty\<rparr>" if "f \<in> set l" for f
    using w that lt by (auto simp: apart_def)
  have rs: "unat start \<le> unat (e_start f)" if "f \<in> set r" for f
  proof -
    have "apart e f" using w that by blast
    then show ?thesis using le ee by (auto simp: apart_def)
  qed
  have cut: "e820_wf ((l @ [?c]) @ r)"
    using wf c cr lc by (auto simp: e820_wf_def sorted_wrt_append)
  have t: "unat (e_end e - en) = unat (e_end e) - unat en" if "en < e_end e"
    using that by (simp add: unat_diff_nowrap)
  have tok: "entry_ok ?t" "apart ?c ?t" "\<forall>f\<in>set l. apart f ?t" "\<forall>f\<in>set r. apart ?t f"
    if "en < e_end e"
  proof -
    have lt': "unat en < unat (e_end e)" using that by (simp add: word_less_nat_alt)
    show "entry_ok ?t" using w t[OF that] lt' s64 by (simp add: entry_ok_def)
    show "apart ?c ?t" using d lt assms(3,4) by (simp add: apart_def)
    have "unat (e_start e) < unat en" using lt assms(3) by simp
    then show "\<forall>f\<in>set l. apart f ?t" using w by (auto simp: apart_def)
    show "\<forall>f\<in>set r. apart ?t f" using w t[OF that] lt' ee by (auto simp: apart_def)
  qed
  have wf': "e820_wf ((l @ [?c]) @ r')" using r'
  proof (elim disjE conjE)
    assume a: "r' = ?t # r" "en < e_end e" "length (l @ e # r) < CONFIG_MAX_E820"
    show ?thesis using cut tok[OF a(2)] a by (auto simp: e820_wf_def sorted_wrt_append)
  qed (use cut in simp_all)
  have "type_at ((l @ [?c]) @ r') x = type_at (l @ e # r) x"
    if x: "x < unat start \<or> unat en \<le> x" and len: "length (l @ e # r) < CONFIG_MAX_E820" for x
  proof (cases "x < unat start")
    case True
    then have "covers ?c x = covers e x" using d lt le ee by (auto simp: covers_def)
    moreover have "type_at r x = None" if "\<not> covers e x"
      using rs True by (intro type_at_None) (force simp: covers_def)
    moreover have "type_at r' x = None" if "\<not> covers e x"
      using r' rs True assms(3) by (intro type_at_None) (force simp: covers_def)
    ultimately show ?thesis by (simp add: type_at_append split: option.split)
  next
    case False
    then have nc: "\<not> covers ?c x" using d lt by (auto simp: covers_def)
    have "type_at r' x = type_at (e # r) x" using r'
    proof (elim disjE conjE)
      assume a: "r' = r" "e_end e \<le> en"
      then have "\<not> covers e x" using False x ee by (auto simp: covers_def word_le_nat_alt)
      then show ?thesis using a by simp
    next
      assume a: "r' = ?t # r" "en < e_end e"
      then have "covers ?t x = covers e x"
        using False x ee t lt assms(3) by (auto simp: covers_def word_less_nat_alt)
      then show ?thesis using a by simp
    qed (use len in simp)
    then show ?thesis using nc by (simp add: type_at_append split: option.split)
  qed
  moreover have "\<forall>f\<in>set r'. unat start \<le> unat (e_start f)"
    using r' rs assms(3) by auto
  moreover have "length r' \<le> Suc (length r)" using r' by auto
  ultimately show ?thesis using wf' c lc assms(3) unfolding placed_def by auto
qed

lemma add_scan_spec:
  assumes "e820_wf (l @ r)" "\<forall>e\<in>set l. unat (e_end e) < unat start"
    and "unat start + unat sz = unat en" "0 < unat sz"
  shows "\<exists>s sz' l' r'. add_scan start en sz ty (length l) (l @ r) = (length l', s, sz', l' @ r')
     \<and> placed start en ty s sz' (l @ r) l' r'"
  using assms(1,2)
proof (induction r arbitrary: l)
  case Nil
  then show ?case using placed_here[of l "[]" start sz en ty] assms(3)
    by (auto simp: add_scan_Nil)
next
  case (Cons e r)
  note w = wf_split[OF Cons.prems(1)]
  have ee: "unat (e_end e) = unat (e_start e) + unat (e_size e)" using w by (simp add: unat_e_end)
  consider "e_end e < start" | "\<not> e_end e < start" "e_start e < start" "ty = e_type e"
    | "\<not> e_end e < start" "e_start e < start" "ty \<noteq> e_type e"
    | "\<not> e_end e < start" "\<not> e_start e < start" by blast
  then show ?case
  proof cases
    case 1
    then have "\<forall>e\<in>set (l @ [e]). unat (e_end e) < unat start"
      using Cons.prems(2) by (simp add: word_less_nat_alt)
    then show ?thesis using Cons.IH[of "l @ [e]"] Cons.prems(1) 1 by (simp add: add_scan_Cons)
  next
    case 2
    then show ?thesis using placed_merge[OF Cons.prems assms(3)] unfolding add_scan_Cons by auto
  next
    case 3
    let ?c = "e\<lparr>e_size := start - e_start e\<rparr>"
    define r' where "r' = (if en < e_end e \<and> length (l @ e # r) < CONFIG_MAX_E820
      then \<lparr>e_start = en, e_size = e_end e - en, e_type = e_type e\<rparr> # r else r)"
    have "add_scan start en sz ty (length l) (l @ e # r) = (length (l @ [?c]), start, sz, (l @ [?c]) @ r')"
      using 3 by (auto simp: add_scan_Cons insert_e820_def r'_def Let_def)
    moreover have "placed start en ty start sz (l @ e # r) (l @ [?c]) r'"
      by (rule placed_cut[OF Cons.prems assms(3,4)]) (use 3 in \<open>auto simp: r'_def\<close>)
    ultimately show ?thesis by blast
  next
    case 4
    then have "\<forall>f\<in>set (e # r). unat start \<le> unat (e_start f)"
      using w ee by (auto simp: apart_def word_less_nat_alt)
    then show ?thesis using placed_here[OF Cons.prems _ assms(3)] 4 by (auto simp: add_scan_Cons)
  qed
qed

section \<open>Adding an item\<close>

lemma apart_covers:
  "apart e f \<Longrightarrow> unat (e_start f) \<le> x \<Longrightarrow> \<not> covers e x"
  "apart e f \<Longrightarrow> x < unat (e_start e) + unat (e_size e) \<Longrightarrow> \<not> covers f x"
  by (auto simp: apart_def covers_def)

text \<open>The list that \<open>add_e820\<close> has before it inserts the new item, and the item.\<close>

lemma add_e820_shape:
  assumes "e820_wf es" "0 < unat sz" "unat start + unat sz < 2 ^ 64"
  obtains s sz1 sz' l r r' where
    "add_e820 start sz ty es =
       (if ty \<noteq> E820_HOLE then insert_e820 (length l) s sz' ty (l @ r') else l @ r')"
    "placed start (start + sz) ty s sz1 es l r" "trimmed s (unat (start + sz)) ty sz' r r'"
proof -
  have en: "unat start + unat sz = unat (start + sz)" using assms(3) by (simp add: unat_add_nowrap)
  obtain s sz1 l r where p: "add_scan start (start + sz) sz ty 0 es = (length l, s, sz1, l @ r)"
    "placed start (start + sz) ty s sz1 es l r"
    using add_scan_spec[of "[]" es start sz "start + sz" ty] assms(1,2) en by auto
  have r: "\<forall>e\<in>set r. entry_ok e" "sorted_wrt apart r" "unat s + unat sz1 = unat (start + sz)"
    using p(2) by (auto simp: placed_def e820_wf_def sorted_wrt_append)
  obtain sz' r' where t: "add_trim (start + sz) sz1 ty (length l) (l @ r) = (sz', l @ r')"
    "trimmed s (unat (start + sz)) ty sz' r r'" using add_trim_spec[OF r] by blast
  have "sz \<noteq> 0" using assms(2) by auto
  then have "add_e820 start sz ty es =
      (if ty \<noteq> E820_HOLE then insert_e820 (length l) s sz' ty (l @ r') else l @ r')"
    using p(1) t(1) by (simp add: add_e820_def)
  then show thesis using that p(2) t(2) by blast
qed

lemma add_e820_list_wf:
  assumes p: "placed start en ty s sz1 es l r" and t: "trimmed s (unat en) ty sz' r r'"
    and "0 < unat sz" "unat start + unat sz = unat en"
  shows "e820_wf (l @ r')"
    and "ty \<noteq> E820_HOLE \<Longrightarrow> length (l @ r') < CONFIG_MAX_E820 \<Longrightarrow>
      e820_wf (l @ \<lparr>e_start = s, e_size = sz', e_type = ty\<rparr> # r')"
proof -
  let ?n = "\<lparr>e_start = s, e_size = sz', e_type = ty\<rparr>"
  have l: "apart e ?n" if "e \<in> set l" for e
    using p that by (auto simp: placed_def apart_def)
  have pos: "0 < unat sz'" using assms by (auto simp: placed_def trimmed_def)
  have lr: "apart e f" if "e \<in> set l" "f \<in> set r'" for e f
    using l[OF that(1)] t that(2) pos by (auto simp: trimmed_def apart_def)
  show wf: "e820_wf (l @ r')"
    using p t lr by (auto simp: placed_def trimmed_def e820_wf_def sorted_wrt_append)
  show "e820_wf (l @ ?n # r')" if "ty \<noteq> E820_HOLE" "length (l @ r') < CONFIG_MAX_E820"
  proof -
    have "entry_ok ?n" using t pos that(1) by (simp add: entry_ok_def trimmed_def)
    then show ?thesis using wf t l that(2)
      by (auto simp: trimmed_def e820_wf_def sorted_wrt_append)
  qed
qed

lemma add_e820_type_at:
  assumes p: "placed start en ty s sz1 es l r" and t: "trimmed s (unat en) ty sz' r r'"
    and "unat start \<le> unat en" "length es < CONFIG_MAX_E820"
  shows "type_at (l @ (if ty = E820_HOLE then [] else [\<lparr>e_start = s, e_size = sz', e_type = ty\<rparr>]) @ r') x =
    (if unat start \<le> x \<and> x < unat en then (if ty = E820_HOLE then None else Some ty) else type_at es x)"
proof -
  let ?n = "\<lparr>e_start = s, e_size = sz', e_type = ty\<rparr>"
  have orig: "type_at (l @ r) x = type_at es x" if "x < unat start \<or> unat en \<le> x"
    using p assms(4) that unfolding placed_def by blast
  have ends: "unat s \<le> unat start" "unat en \<le> unat s + unat sz'" using p t by (auto simp: placed_def trimmed_def)
  have lN: "type_at l x = None" if "unat s \<le> x"
    using p that by (intro type_at_None apart_covers(1)) (auto simp: placed_def)
  have r'N: "type_at r' x = None" if "x < unat s + unat sz'"
    using t that by (intro type_at_None apart_covers(2)[of ?n]) (auto simp: trimmed_def)
  have rN: "type_at r x = None" if "x < unat s"
    using p that by (intro type_at_None) (force simp: placed_def covers_def)
  consider "x < unat s" | "unat s \<le> x" "x < unat s + unat sz'" | "unat s + unat sz' \<le> x" by linarith
  then show ?thesis
  proof cases
    case 1
    then have "type_at l x = type_at es x" using orig rN ends by (simp add: type_at_append split: option.splits)
    then show ?thesis using 1 r'N ends by (auto simp: type_at_append covers_def split: option.split)
  next
    case 2
    have "type_at es x = Some ty" if "\<not> (unat start \<le> x \<and> x < unat en)"
    proof (cases "x < unat start")
      case True
      then show ?thesis using p 2(1) by (simp add: placed_def)
    next
      case False
      then have "type_at r x = Some ty" using t 2(2) that by (simp add: trimmed_def)
      then show ?thesis using orig False that lN 2(1) by (simp add: type_at_append)
    qed
    moreover have "unat start \<le> x \<and> x < unat en" if "ty = E820_HOLE"
      using that p t 2 by (auto simp: placed_def trimmed_def)
    ultimately show ?thesis using 2 lN r'N by (auto simp: type_at_append covers_def)
  next
    case 3
    then have "type_at r' x = type_at r x" using t by (simp add: trimmed_def)
    moreover have "unat s \<le> x" "unat en \<le> x" using 3 ends by simp_all
    ultimately show ?thesis using 3 lN orig by (auto simp: type_at_append covers_def)
  qed
qed

text \<open>A map as the firmware first builds it: low memory and memory above 1M.\<close>

definition ex_map :: "e820entry list" where
  "ex_map = [\<lparr>e_start = 0, e_size = 0x9fc00, e_type = E820_RAM\<rparr>,
             \<lparr>e_start = 0x100000, e_size = 0x7f00000, e_type = E820_RAM\<rparr>]"

lemma ex_map_wf: "e820_wf ex_map"
  by (simp add: e820_wf_def ex_map_def CONFIG_MAX_E820_def entry_ok_def apart_def E820_RAM_def E820_HOLE_def)

text \<open>
  C10. \<open>add_e820\<close> keeps the map well formed (entries of positive size in ascending order, disjoint,
  with touching entries of one type merged, at most \<open>CONFIG_MAX_E820\<close> of them, no hole stored),
  whatever the item overlaps and even when the table is full.
\<close>

theorem add_e820_wf:
  assumes "e820_wf es" "unat start + unat sz < 2 ^ 64"
  shows "e820_wf (add_e820 start sz ty es)"
proof (cases "sz = 0")
  case True
  then show ?thesis using assms(1) by (simp add: add_e820_def)
next
  case False
  then have pos: "0 < unat sz" by (simp add: unat_gt_0)
  obtain s sz1 sz' l r r' where a:
    "add_e820 start sz ty es = (if ty \<noteq> E820_HOLE then insert_e820 (length l) s sz' ty (l @ r') else l @ r')"
    "placed start (start + sz) ty s sz1 es l r" "trimmed s (unat (start + sz)) ty sz' r r'"
    by (rule add_e820_shape[OF assms(1) pos assms(2)])
  have "unat start + unat sz = unat (start + sz)" using assms(2) by (simp add: unat_add_nowrap)
  note w = add_e820_list_wf[OF a(2,3) pos this]
  show ?thesis
  proof (cases "ty \<noteq> E820_HOLE \<and> length (l @ r') < CONFIG_MAX_E820")
    case True
    then show ?thesis using w(2) by (simp add: a(1) insert_e820_def)
  next
    case False
    then show ?thesis using w(1) by (auto simp: a(1) insert_e820_def)
  qed
qed

theorem add_e820_wf_witness: "e820_wf (add_e820 0x200000 0x1000 E820_RESERVED ex_map)"
  by (rule add_e820_wf[OF ex_map_wf]) simp

text \<open>
  C11. \<open>add_e820\<close> gives every byte of the new range the new type (or makes it a hole), and leaves
  the type of every other byte as it was, if the table has room for the at most two entries that
  a call can add.
\<close>

theorem add_e820_functional:
  assumes "e820_wf es" "0 < unat sz" "unat start + unat sz < 2 ^ 64"
    and "length es + 2 \<le> CONFIG_MAX_E820"
  shows "type_at (add_e820 start sz ty es) x =
    (if unat start \<le> x \<and> x < unat start + unat sz
     then (if ty = E820_HOLE then None else Some ty) else type_at es x)"
proof -
  obtain s sz1 sz' l r r' where a:
    "add_e820 start sz ty es = (if ty \<noteq> E820_HOLE then insert_e820 (length l) s sz' ty (l @ r') else l @ r')"
    "placed start (start + sz) ty s sz1 es l r" "trimmed s (unat (start + sz)) ty sz' r r'"
    by (rule add_e820_shape[OF assms(1-3)])
  have en: "unat (start + sz) = unat start + unat sz" using assms(3) by (simp add: unat_add_nowrap)
  have "length (l @ r') < CONFIG_MAX_E820" using a(2,3) assms(4) by (auto simp: placed_def trimmed_def)
  then have "add_e820 start sz ty es =
      l @ (if ty = E820_HOLE then [] else [\<lparr>e_start = s, e_size = sz', e_type = ty\<rparr>]) @ r'"
    by (simp add: a(1) insert_e820_def)
  then show ?thesis using add_e820_type_at[OF a(2,3), of x] en assms(4) by simp
qed

theorem add_e820_functional_witness:
  "type_at (add_e820 0x200000 0x1000 E820_RESERVED ex_map) 0x200fff = Some E820_RESERVED
   \<and> type_at (add_e820 0x200000 0x1000 E820_RESERVED ex_map) 0x201000 = Some E820_RAM
   \<and> type_at (add_e820 0x200000 0x1000 E820_HOLE ex_map) 0x200000 = None"
proof -
  have "length ex_map + 2 \<le> CONFIG_MAX_E820" by (simp add: ex_map_def CONFIG_MAX_E820_def)
  note f = add_e820_functional[OF ex_map_wf _ _ this, of "0x1000" "0x200000"]
  show ?thesis by (simp add: f) (simp add: ex_map_def covers_def E820_RESERVED_def E820_HOLE_def)
qed

section \<open>Searching\<close>

text \<open>What \<open>find_high_area\<close> looks for in an entry.\<close>

definition high_fit :: "u32 \<Rightarrow> e820entry \<Rightarrow> bool" where
  "high_fit sz e \<longleftrightarrow> e_type e = E820_RAM \<and> e_end e \<le> 0xffffffff \<and> ucast sz \<le> e_size e
     \<and> ucast (1024 * 1024 + sz) \<le> e_end e"

lemma find_high_from_spec:
  assumes "i \<le> length es" "e820_wf es"
  shows "find_high_from sz i es = Some k \<longleftrightarrow>
     k < i \<and> high_fit sz (es ! k) \<and> (\<forall>j. k < j \<and> j < i \<longrightarrow> \<not> high_fit sz (es ! j))"
  using assms(1)
proof (induction i)
  case 0
  then show ?case by simp
next
  case (Suc i)
  have below: "e_end (es ! j) \<le> e_end (es ! i)" if "j < i" for j
  proof -
    have "apart (es ! j) (es ! i)" using assms(2) that Suc.prems
      by (auto simp: e820_wf_def sorted_wrt_iff_nth_less)
    moreover have "entry_ok (es ! j)" "entry_ok (es ! i)"
      using assms(2) that Suc.prems by (auto simp: e820_wf_def)
    ultimately show ?thesis by (auto simp: apart_def unat_e_end word_le_nat_alt)
  qed
  let ?skip = "e_type (es ! i) \<noteq> E820_RAM \<or> e_end (es ! i) > 0xffffffff \<or> e_size (es ! i) < ucast sz"
  let ?stop = "e_end (es ! i) < ucast (1024 * 1024 + sz)"
  consider ?skip | "\<not> ?skip" ?stop | "\<not> ?skip" "\<not> ?stop" by blast
  then show ?case
  proof cases
    case 1
    then have "\<not> high_fit sz (es ! i)" by (auto simp: high_fit_def)
    moreover have "find_high_from sz (Suc i) es = find_high_from sz i es" using 1 by (simp add: Let_def)
    ultimately show ?thesis using Suc by (auto simp: less_Suc_eq)
  next
    case 2
    then have "find_high_from sz (Suc i) es = None" by (simp add: Let_def)
    moreover have "\<not> high_fit sz (es ! j)" if "j < Suc i" for j
      using that below[of j] 2(2) by (auto simp: high_fit_def less_Suc_eq)
    ultimately show ?thesis by auto
  next
    case 3
    then have "high_fit sz (es ! i)" by (simp add: high_fit_def not_less)
    moreover have "find_high_from sz (Suc i) es = Some i" using 3 by (simp add: Let_def)
    moreover have "i = k" if "k < Suc i" "\<forall>j. k < j \<and> j < Suc i \<longrightarrow> \<not> high_fit sz (es ! j)"
      using that calculation(1) by (metis lessI less_SucE)
    ultimately show ?thesis by auto
  qed
qed

text \<open>
  \<open>find_high_area\<close> returns an entry exactly when the map has one that fits (RAM below 4G, at
  least \<open>size\<close> bytes, ending at least \<open>size\<close> bytes above 1M), and then the highest such entry: the
  early exit of the loop is sound because the map is sorted.
\<close>

theorem find_high_area_highest:
  assumes "e820_wf es"
  shows "(find_high_area sz es = Some k \<longleftrightarrow>
     k < length es \<and> high_fit sz (es ! k) \<and> (\<forall>j. k < j \<and> j < length es \<longrightarrow> \<not> high_fit sz (es ! j)))
   \<and> (find_high_area sz es = None \<longleftrightarrow> (\<forall>j < length es. \<not> high_fit sz (es ! j)))"
proof -
  let ?k = "Max {j. j < length es \<and> high_fit sz (es ! j)}"
  note f = find_high_from_spec[OF order_refl assms, of sz]
  have "find_high_area sz es \<noteq> None" if "j < length es" "high_fit sz (es ! j)" for j
  proof -
    have "?k \<in> {j. j < length es \<and> high_fit sz (es ! j)}" using that by (intro Max_in) auto
    moreover have "i \<le> ?k" if "i < length es" "high_fit sz (es ! i)" for i
      using that by (intro Max_ge) auto
    ultimately have "find_high_from sz (length es) es = Some ?k"
      by (subst f) (metis (mono_tags, lifting) mem_Collect_eq not_le)
    then show ?thesis by (simp add: find_high_area_def)
  qed
  moreover have "find_high_area sz es = None" if "\<forall>j < length es. \<not> high_fit sz (es ! j)"
    using that f unfolding find_high_area_def by (metis option.exhaust)
  ultimately have "find_high_area sz es = None \<longleftrightarrow> (\<forall>j < length es. \<not> high_fit sz (es ! j))" by blast
  then show ?thesis using f[of k] unfolding find_high_area_def by blast
qed

theorem find_high_area_highest_witness:
  "find_high_area 0x10000 ex_map = Some 1 \<and> find_high_area 0x8000000 ex_map = None"
proof -
  have "high_fit 0x10000 (ex_map ! 1)" "\<And>j. j < length ex_map \<Longrightarrow> \<not> high_fit 0x8000000 (ex_map ! j)"
    by (auto simp: high_fit_def ex_map_def e_end_def less_Suc_eq_0_disj)
  then show ?thesis using find_high_area_highest[OF ex_map_wf, of "0x10000" 1]
      find_high_area_highest[OF ex_map_wf, of "0x8000000"]
    by (auto simp: ex_map_def)
qed

end
