(* ===== verification/Bios_Util.thy ===== *)
theory Bios_Util
  imports Prelude
begin

text \<open>
  \<open>bios/seabios/src/util.c\<close> and the macros of \<open>types.h\<close>: alignment, check sums, memory and string
  operations of the 32-bit flat code. Memory is a function from 32-bit addresses to bytes, and
  address arithmetic wraps as it does in the code. Loops that end only when they find a zero
  byte are partial functions.
\<close>

type_synonym memory = "u32 \<Rightarrow> u8"

section \<open>Alignment and bits\<close>

definition ALIGN_DOWN :: "'a::len word \<Rightarrow> 'a word \<Rightarrow> 'a word" where
  "ALIGN_DOWN x a = x AND NOT (a - 1)"

definition ALIGN :: "'a::len word \<Rightarrow> 'a word \<Rightarrow> 'a word" where
  "ALIGN x a = (x + (a - 1)) AND NOT (a - 1)"

text \<open>\<open>bsf\<close> and \<open>bsr\<close>: the lowest and the highest bit that is set (the operand is not 0).\<close>

definition ffs :: "u32 \<Rightarrow> nat" where
  "ffs w = length (takeWhile (\<lambda>i. \<not> bit w i) [0..<32])"

definition fls :: "u32 \<Rightarrow> nat" where
  "fls w = 31 - length (takeWhile (\<lambda>i. \<not> bit w i) (rev [0..<32]))"

section \<open>Check sums\<close>

text \<open>The bytes of an integer in memory.\<close>

definition le_bytes :: "nat \<Rightarrow> 'a::len word \<Rightarrow> u8 list" where
  "le_bytes n w = map (\<lambda>i. ucast (drop_bit (8 * i) w)) [0..<n]"

definition checksum :: "u8 list \<Rightarrow> u8" where
  "checksum buf = fold (\<lambda>b sum. sum + b) buf 0"

section \<open>Strings and memory\<close>

partial_function (option) strlen_loop :: "memory \<Rightarrow> u32 \<Rightarrow> u32 option" where
  "strlen_loop m p = (if m p = 0 then Some p else strlen_loop m (p + 1))"

definition strlen :: "memory \<Rightarrow> u32 \<Rightarrow> u32 option" where
  "strlen m s = map_option (\<lambda>p. p - s) (strlen_loop m s)"

fun memcmp :: "memory \<Rightarrow> u32 \<Rightarrow> u32 \<Rightarrow> nat \<Rightarrow> int" where
  "memcmp m s1 s2 0 = 0"
| "memcmp m s1 s2 (Suc n) =
     (if m s1 \<noteq> m s2 then (if m s1 < m s2 then - 1 else 1) else memcmp m (s1 + 1) (s2 + 1) n)"

text \<open>\<open>char\<close> is signed.\<close>

partial_function (option) strcmp :: "memory \<Rightarrow> u32 \<Rightarrow> u32 \<Rightarrow> int option" where
  "strcmp m s1 s2 =
     (if m s1 \<noteq> m s2 then Some (if m s1 <s m s2 then - 1 else 1)
      else if m s1 = 0 then Some 0 else strcmp m (s1 + 1) (s2 + 1))"

fun memset_loop :: "memory \<Rightarrow> u32 \<Rightarrow> u8 \<Rightarrow> nat \<Rightarrow> memory" where
  "memset_loop m s c 0 = m"
| "memset_loop m s c (Suc n) = memset_loop (m(s + of_nat n := c)) s c n"

definition memset :: "memory \<Rightarrow> u32 \<Rightarrow> u8 \<Rightarrow> nat \<Rightarrow> memory" where
  "memset m s c n = memset_loop m s c n"

text \<open>\<open>rep movsb\<close>, and \<open>rep movsl\<close> with a 32-bit load and a 32-bit store in each turn.\<close>

fun movsb :: "memory \<Rightarrow> u32 \<Rightarrow> u32 \<Rightarrow> nat \<Rightarrow> memory" where
  "movsb m d s 0 = m"
| "movsb m d s (Suc n) = movsb (m(d := m s)) (d + 1) (s + 1) n"

fun movsl :: "memory \<Rightarrow> u32 \<Rightarrow> u32 \<Rightarrow> nat \<Rightarrow> memory" where
  "movsl m d s 0 = m"
| "movsl m d s (Suc n) =
     movsl (m(d := m s, d + 1 := m (s + 1), d + 2 := m (s + 2), d + 3 := m (s + 3))) (d + 4) (s + 4) n"

definition memcpy :: "memory \<Rightarrow> u32 \<Rightarrow> u32 \<Rightarrow> u32 \<Rightarrow> memory" where
  "memcpy m d s len =
     (if (d OR s OR len) AND 3 \<noteq> 0 then movsb m d s (unat len)
      else movsl m d s (unat len div 4))"

text \<open>
  Addresses with a segment, as the 16-bit build uses them; offsets wrap at 64K. \<open>rep movsb\<close> of that build moves \<open>s_far\<close>
  and \<open>d_far\<close> as 16-bit registers.
\<close>

definition far_addr :: "u16 \<Rightarrow> u16 \<Rightarrow> u32" where
  "far_addr seg off = push_bit 4 (ucast seg) + ucast off"

definition FLATPTR_TO_SEG :: "u32 \<Rightarrow> u16" where "FLATPTR_TO_SEG p = ucast (drop_bit 4 p)"
definition FLATPTR_TO_OFFSET :: "u32 \<Rightarrow> u16" where "FLATPTR_TO_OFFSET p = ucast (p AND 0xf)"

fun memcpy_far :: "memory \<Rightarrow> u16 \<Rightarrow> u16 \<Rightarrow> u16 \<Rightarrow> u16 \<Rightarrow> nat \<Rightarrow> memory" where
  "memcpy_far m d_seg d_far s_seg s_far 0 = m"
| "memcpy_far m d_seg d_far s_seg s_far (Suc n) =
     memcpy_far (m(far_addr d_seg d_far := m (far_addr s_seg s_far))) d_seg (d_far + 1) s_seg (s_far + 1) n"

fun memmove_down :: "memory \<Rightarrow> u32 \<Rightarrow> u32 \<Rightarrow> nat \<Rightarrow> u32 \<times> memory" where
  "memmove_down m d s 0 = (d, m)"
| "memmove_down m d s (Suc n) = memmove_down (m(d := m s)) (d - 1) (s - 1) n"

text \<open>The returned pointer and the memory.\<close>

definition memmove :: "memory \<Rightarrow> u32 \<Rightarrow> u32 \<Rightarrow> u32 \<Rightarrow> u32 \<times> memory" where
  "memmove m d s len =
     (if s \<ge> d then (d, memcpy m d s len)
      else memmove_down m (d + (len - 1)) (s + (len - 1)) (unat len))"

text \<open>
  \<open>iomemcpy\<close>: blocks of at most 2048 bytes with a yield between them; \<open>yields\<close> counts the yields.
\<close>

function iomemcpy_loop :: "memory \<Rightarrow> u32 \<Rightarrow> u32 \<Rightarrow> nat \<Rightarrow> nat \<Rightarrow> nat \<times> memory" where
  "iomemcpy_loop m d s len yields =
     (if len = 0 then (yields, m)
      else let copylen = min len 2048; w = copylen div 4
           in iomemcpy_loop (movsl m d s w) (d + of_nat (4 * w)) (s + of_nat (4 * w))
                (len - copylen) (Suc yields))"
  by pat_completeness auto
termination by (relation "measure (\<lambda>(m, d, s, len, yields). len)") (auto simp: Let_def)

definition iomemcpy :: "memory \<Rightarrow> u32 \<Rightarrow> u32 \<Rightarrow> u32 \<Rightarrow> nat \<times> memory" where
  "iomemcpy m d s len = iomemcpy_loop m d s (unat len) 1"

text \<open>\<open>--len\<close> is done before the test, so \<open>n\<close> below is one less than \<open>len\<close>, modulo 2 to the 32.\<close>

fun strtcpy_loop :: "memory \<Rightarrow> u32 \<Rightarrow> u32 \<Rightarrow> nat \<Rightarrow> memory" where
  "strtcpy_loop m d src 0 = m(d := 0)"
| "strtcpy_loop m d src (Suc n) =
     (if m src \<noteq> 0 then strtcpy_loop (m(d := m src)) (d + 1) (src + 1) n else m(d := 0))"

definition strtcpy :: "memory \<Rightarrow> u32 \<Rightarrow> u32 \<Rightarrow> u32 \<Rightarrow> memory" where
  "strtcpy m dest src len = strtcpy_loop m dest src (unat (len - 1))"

text \<open>
  \<open>get_keystroke(msec)\<close>. \<open>pressed\<close> gives the answers of the successive keyboard checks and \<open>key\<close>
  the scan code that interrupt 16h then returns.
\<close>

function get_keystroke :: "(nat \<Rightarrow> bool) \<Rightarrow> (nat \<Rightarrow> u8) \<Rightarrow> nat \<Rightarrow> int \<Rightarrow> int" where
  "get_keystroke pressed key i msec =
     (if pressed i then uint (key i)
      else if msec \<le> 0 then - 1
      else get_keystroke pressed key (Suc i) (msec - 50))"
  by pat_completeness auto
termination by (relation "measure (\<lambda>(p, k, i, msec). nat msec)") auto

declare iomemcpy_loop.simps [simp del] get_keystroke.simps [simp del]

section \<open>Alignment\<close>

lemma and_not_mask_eq: "(x::'a::len word) AND NOT (mask k) = x - take_bit k x"
proof -
  have "x AND NOT (mask k) = push_bit k (drop_bit k x)"
    by (rule bit_eqI) (auto simp: bit_simps)
  also have "\<dots> = x - take_bit k x" by (metis add_diff_cancel_right' bits_ident)
  finally show ?thesis .
qed

lemma unat_ALIGN_DOWN:
  fixes x :: "'a::len word"
  shows "unat (ALIGN_DOWN x (2 ^ k)) = unat x - unat x mod 2 ^ k"
proof -
  have u: "unat (take_bit k x) = unat x mod 2 ^ k"
    unfolding unsigned_take_bit_eq by (rule take_bit_eq_mod)
  have "take_bit k x \<le> x" by (simp add: word_le_nat_alt u)
  then show ?thesis
    by (simp add: ALIGN_DOWN_def mask_eq_decr_exp [symmetric] and_not_mask_eq unat_diff_nowrap u)
qed

lemma unat_ALIGN_DOWN_le: "unat (ALIGN_DOWN (x::'a::len word) (2 ^ k)) \<le> unat x"
  by (simp add: unat_ALIGN_DOWN)

lemma unat_ALIGN_DOWN_gt: "unat (x::'a::len word) < unat (ALIGN_DOWN x (2 ^ k)) + 2 ^ k"
proof -
  have "unat x mod 2 ^ k < 2 ^ k" "unat x mod 2 ^ k \<le> unat x" by simp_all
  then show ?thesis unfolding unat_ALIGN_DOWN by linarith
qed

lemma ALIGN_DOWN_dvd: "2 ^ k dvd unat (ALIGN_DOWN (x::'a::len word) (2 ^ k))"
  by (simp add: unat_ALIGN_DOWN)

text \<open>Alignment keeps a value above any aligned bound.\<close>

lemma ALIGN_DOWN_bound:
  assumes "2 ^ k dvd b" "b \<le> unat (x::'a::len word)"
  shows "b \<le> unat (ALIGN_DOWN x (2 ^ k))"
proof -
  have "unat (ALIGN_DOWN x (2 ^ k)) = unat x div 2 ^ k * 2 ^ k"
    by (simp add: unat_ALIGN_DOWN minus_mod_eq_div_mult)
  moreover have "b div 2 ^ k * 2 ^ k \<le> unat x div 2 ^ k * 2 ^ k" using assms(2) by (simp add: div_le_mono)
  ultimately show ?thesis using assms(1) by simp
qed

lemma ALIGN_eq_ALIGN_DOWN: "ALIGN x a = ALIGN_DOWN (x + (a - 1)) a"
  by (simp add: ALIGN_def ALIGN_DOWN_def)

section \<open>Check sums\<close>

lemma checksum_fold: "fold (\<lambda>b sum. sum + b) buf s = s + (checksum buf :: u8)"
  unfolding checksum_def
proof (induction buf arbitrary: s)
  case (Cons b buf)
  show ?case using Cons[of "s + b"] Cons[of "0 + b"] by simp
qed simp

lemma checksum_simps [simp]:
  "checksum [] = 0" "checksum (b # bs) = b + checksum bs"
  "checksum (xs @ ys) = checksum xs + checksum ys"
  using checksum_fold[of bs b] checksum_fold[of ys "checksum xs"]
  by (simp_all add: checksum_def)

text \<open>Subtracting the sum from one byte makes the sum zero.\<close>

lemma checksum_fixed:
  assumes "i < length bs"
  shows "checksum (bs[i := bs ! i - checksum bs]) = 0"
proof -
  have "bs = take i bs @ bs ! i # drop (Suc i) bs" using assms by (rule id_take_nth_drop)
  then have "checksum bs = checksum (take i bs) + (bs ! i + checksum (drop (Suc i) bs))"
    by (metis checksum_simps(2,3))
  then show ?thesis using assms by (simp add: upd_conv_take_nth_drop)
qed

section \<open>Copying\<close>

text \<open>The memory after \<open>n\<close> bytes were copied from \<open>s\<close> to \<open>d\<close>, as the caller of \<open>memmove\<close> means it.\<close>

definition copied :: "memory \<Rightarrow> nat \<Rightarrow> nat \<Rightarrow> nat \<Rightarrow> memory" where
  "copied m d s n = (\<lambda>x. if d \<le> unat x \<and> unat x < d + n then m (of_nat (s + (unat x - d))) else m x)"

lemma unat_of_nat_32: "n < 2 ^ 32 \<Longrightarrow> unat (of_nat n :: u32) = n"
  by (simp add: unsigned_of_nat take_bit_nat_eq_self)

lemma eq_of_nat_32: "k < 2 ^ 32 \<Longrightarrow> (x :: u32) = of_nat k \<longleftrightarrow> unat x = k"
  by (simp add: word_eq_iff_unat unat_of_nat_32)

lemma of_nat_32_eq_iff: "a < 2 ^ 32 \<Longrightarrow> b < 2 ^ 32 \<Longrightarrow> (of_nat a :: u32) = of_nat b \<longleftrightarrow> a = b"
  by (metis unat_of_nat_32)

lemma movsb_copied:
  assumes "d \<le> s \<or> s + n \<le> d" "s + n \<le> 2 ^ 32" "d + n \<le> 2 ^ 32"
  shows "movsb m (of_nat d) (of_nat s) n = copied m d s n"
  using assms
proof (induction n arbitrary: m d s)
  case 0
  then show ?case by (auto simp: copied_def fun_eq_iff)
next
  case (Suc n)
  let ?m = "m(of_nat d := m (of_nat s))"
  have "movsb m (of_nat d) (of_nat s) (Suc n) = movsb ?m (of_nat (Suc d)) (of_nat (Suc s)) n"
    by (simp add: add.commute)
  also have "\<dots> = copied ?m (Suc d) (Suc s) n" using Suc.prems by (intro Suc.IH) auto
  also have "\<dots> = copied m d s (Suc n)"
  proof
    fix x :: u32
    have d: "x = of_nat d \<longleftrightarrow> unat x = d" using Suc.prems by (intro eq_of_nat_32) simp
    have neq: "of_nat (Suc s + (unat x - Suc d)) \<noteq> (of_nat d :: u32)" if "Suc d \<le> unat x" "unat x < Suc d + n"
      using that Suc.prems by (subst of_nat_32_eq_iff) auto
    have "Suc s + (unat x - Suc d) = s + (unat x - d)" if "Suc d \<le> unat x" using that by simp
    then show "copied ?m (Suc d) (Suc s) n x = copied m d s (Suc n) x"
      using d neq by (cases "unat x = d") (simp_all add: copied_def del: of_nat_add of_nat_Suc)
  qed
  finally show ?case .
qed

lemma movsb_4: "movsb m d s (Suc (Suc (Suc (Suc n)))) = movsb
   (m(d := m s, d + 1 := (m(d := m s)) (s + 1), d + 2 := (m(d := m s, d + 1 := (m(d := m s)) (s + 1))) (s + 2),
      d + 3 := (m(d := m s, d + 1 := (m(d := m s)) (s + 1),
                  d + 2 := (m(d := m s, d + 1 := (m(d := m s)) (s + 1))) (s + 2))) (s + 3))) (d + 4) (s + 4) n"
  by (simp add: add.commute add.left_commute)

lemma movsl_movsb:
  assumes "d \<le> s \<or> s + 4 * n \<le> d" "s + 4 * n \<le> 2 ^ 32" "d + 4 * n \<le> 2 ^ 32"
  shows "movsl m (of_nat d) (of_nat s) n = movsb m (of_nat d) (of_nat s) (4 * n)"
  using assms
proof (induction n arbitrary: m d s)
  case 0
  then show ?case by simp
next
  case (Suc n)
  have ne: "of_nat s + of_nat i \<noteq> (of_nat d + of_nat j :: u32)" if "j < i" "i < 4" for i j
  proof -
    have "s + i \<noteq> d + j" using that Suc.prems(1) by auto
    then show ?thesis using that Suc.prems(2,3) of_nat_32_eq_iff[of "s + i" "d + j"] by simp
  qed
  have ne': "of_nat s + 1 \<noteq> (of_nat d :: u32)" "of_nat s + 2 \<noteq> (of_nat d :: u32)" "of_nat s + 3 \<noteq> (of_nat d :: u32)"
    "of_nat s + 2 \<noteq> (of_nat d + 1 :: u32)" "of_nat s + 3 \<noteq> (of_nat d + 1 :: u32)"
    "of_nat s + 3 \<noteq> (of_nat d + 2 :: u32)"
    using ne[of 0 1] ne[of 0 2] ne[of 0 3] ne[of 1 2] ne[of 1 3] ne[of 2 3] by simp_all
  let ?m = "m(of_nat d := m (of_nat s), of_nat d + 1 := m (of_nat s + 1), of_nat d + 2 := m (of_nat s + 2),
    of_nat d + 3 := m (of_nat s + 3))"
  have "movsl m (of_nat d) (of_nat s) (Suc n) = movsl ?m (of_nat (d + 4)) (of_nat (s + 4)) n" by simp
  also have "\<dots> = movsb ?m (of_nat (d + 4)) (of_nat (s + 4)) (4 * n)" using Suc.prems by (intro Suc.IH) auto
  also have "\<dots> = movsb m (of_nat d) (of_nat s) (Suc (Suc (Suc (Suc (4 * n)))))"
    using ne' by (simp only: movsb_4 fun_upd_apply if_False of_nat_add of_nat_numeral)
  also have "Suc (Suc (Suc (Suc (4 * n)))) = 4 * Suc n" by simp
  finally show ?case .
qed

text \<open>\<open>memcpy\<close> copies when the destination is below the source or apart from it.\<close>

lemma memcpy_copied:
  assumes "unat d \<le> unat s \<or> unat s + unat len \<le> unat d" "unat s + unat len \<le> 2 ^ 32" "unat d + unat len \<le> 2 ^ 32"
  shows "memcpy m d s len = copied m (unat d) (unat s) (unat len)"
proof -
  have "4 * (unat len div 4) = unat len" if "(d OR s OR len) AND 3 = 0"
  proof -
    have "len AND 3 = 0" using that by (simp add: bit.conj_disj_distrib2 or_eq_0_iff)
    then have "take_bit 2 len = 0" by (simp add: take_bit_eq_mask mask_eq_decr_exp)
    then have "unat len mod 4 = 0" by (metis take_bit_eq_mod unsigned_take_bit_eq unat_0 power2_eq_square mult_2_right numeral_Bit0)
    then show ?thesis by presburger
  qed
  then show ?thesis
    using movsb_copied[OF assms, of m] movsl_movsb[of "unat d" "unat s" "unat len div 4" m] assms
    by (auto simp: memcpy_def)
qed

lemma memcpy_up:
  assumes "d \<le> s" "unat s + unat len \<le> 2 ^ 32"
  shows "memcpy m d s len = copied m (unat d) (unat s) (unat len)"
  using assms by (intro memcpy_copied) (simp_all add: word_le_nat_alt)

lemma memmove_down_copied:
  assumes "s < d" "d + n \<le> 2 ^ 32"
  shows "memmove_down m (of_nat d + of_nat n - 1) (of_nat s + of_nat n - 1) n = (of_nat d - 1, copied m d s n)"
  using assms
proof (induction n arbitrary: m)
  case 0
  then show ?case by (auto simp: copied_def fun_eq_iff)
next
  case (Suc n)
  let ?m = "m(of_nat (d + n) := m (of_nat (s + n)))"
  have "memmove_down m (of_nat d + of_nat (Suc n) - 1) (of_nat s + of_nat (Suc n) - 1) (Suc n)
      = memmove_down ?m (of_nat d + of_nat n - 1) (of_nat s + of_nat n - 1) n" by simp
  also have "\<dots> = (of_nat d - 1, copied ?m d s n)" using Suc by simp
  also have "copied ?m d s n = copied m d s (Suc n)"
  proof
    fix x :: u32
    have d: "x = of_nat (d + n) \<longleftrightarrow> unat x = d + n" using Suc.prems by (intro eq_of_nat_32) simp
    have neq: "of_nat (s + (unat x - d)) \<noteq> (of_nat (d + n) :: u32)" if "unat x < d + n"
      using that Suc.prems by (subst of_nat_32_eq_iff) auto
    show "copied ?m d s n x = copied m d s (Suc n) x"
      using d neq by (cases "unat x = d + n") (auto simp: copied_def simp del: of_nat_add)
  qed
  finally show ?case .
qed

lemma memmove_copied:
  assumes "unat d + unat len \<le> 2 ^ 32" "unat s + unat len \<le> 2 ^ 32"
  shows "memmove m d s len = (if d \<le> s then d else d - 1, copied m (unat d) (unat s) (unat len))"
proof (cases "d \<le> s")
  case True
  then show ?thesis using memcpy_up[OF True assms(2)] by (simp add: memmove_def)
next
  case False
  then have "unat s < unat d" by (simp add: word_le_nat_alt)
  from memmove_down_copied[OF this, of "unat len" m] assms(1) False show ?thesis
    by (simp add: memmove_def add_diff_eq)
qed

text \<open>
  \<open>memmove\<close> copies the block as it was before the call, also when source and destination
  overlap, and changes nothing else. It returns its first argument only when it copies upwards;
  after copying downwards it returns the address before it.
\<close>

theorem memmove_correct:
  assumes "unat d + unat len \<le> 2 ^ 32" "unat s + unat len \<le> 2 ^ 32"
  shows "memmove m d s len = (if d \<le> s then d else d - 1,
     \<lambda>x. if unat d \<le> unat x \<and> unat x < unat d + unat len then m (s + (x - d)) else m x)"
  unfolding memmove_copied[OF assms]
  by (auto simp: copied_def fun_eq_iff of_nat_diff add_diff_eq)

theorem memmove_correct_witness:
  "snd (memmove (\<lambda>x. ucast x) 0x1003 0x1000 8) 0x1005 = 2 \<and> fst (memmove (\<lambda>x. ucast x) 0x1003 0x1000 8) = 0x1002"
  using memmove_correct[of "0x1003" 8 "0x1000" "\<lambda>x. ucast x"] by simp

section \<open>Addresses with a segment\<close>

lemma far_addr_eq_iff [simp]: "far_addr seg a = far_addr seg b \<longleftrightarrow> a = b"
proof -
  have "(ucast a :: u32) = ucast b \<longleftrightarrow> a = b"
    using unat_lt_2p[of a] unat_lt_2p[of b] by (simp add: word_eq_iff_unat unat_ucast_mod)
  then show ?thesis by (simp add: far_addr_def)
qed

lemma memcpy_far_frame:
  "(\<And>i. i < n \<Longrightarrow> x \<noteq> far_addr ds (d + of_nat i)) \<Longrightarrow> memcpy_far m ds d ss s n x = m x"
proof (induction n arbitrary: m d s)
  case (Suc n)
  have "x \<noteq> far_addr ds (d + 1 + of_nat i)" if "i < n" for i
    using Suc.prems[of "Suc i"] that by (simp add: algebra_simps)
  then show ?case using Suc.IH Suc.prems[of 0] by simp
qed simp

lemma memcpy_far_copies:
  assumes "n \<le> 65536" "\<And>i j. i < n \<Longrightarrow> j < n \<Longrightarrow> far_addr ds (d + of_nat i) \<noteq> far_addr ss (s + of_nat j)" "i < n"
    and inj: "\<And>i j. i < n \<Longrightarrow> j < n \<Longrightarrow> far_addr ds (d + of_nat i) = far_addr ds (d + of_nat j) \<Longrightarrow> i = j"
  shows "memcpy_far m ds d ss s n (far_addr ds (d + of_nat i)) = m (far_addr ss (s + of_nat i))"
  using assms
proof (induction n arbitrary: m d s i)
  case (Suc n)
  let ?m = "m(far_addr ds d := m (far_addr ss s))"
  show ?case
  proof (cases i)
    case 0
    have "far_addr ds d \<noteq> far_addr ds (d + 1 + of_nat j)" if "j < n" for j
      using Suc.prems(4)[of 0 "Suc j"] that by (auto simp: algebra_simps)
    then show ?thesis using 0 by (simp add: memcpy_far_frame)
  next
    case (Suc k)
    have "memcpy_far ?m ds (d + 1) ss (s + 1) n (far_addr ds (d + 1 + of_nat k)) = ?m (far_addr ss (s + 1 + of_nat k))"
    proof (rule Suc.IH)
      show "n \<le> 65536" "k < n" using Suc.prems(1,3) Suc by simp_all
      show "far_addr ds (d + 1 + of_nat i) \<noteq> far_addr ss (s + 1 + of_nat j)" if "i < n" "j < n" for i j
        using Suc.prems(2)[of "Suc i" "Suc j"] that by (simp add: algebra_simps)
      show "i = j" if "i < n" "j < n" "far_addr ds (d + 1 + of_nat i) = far_addr ds (d + 1 + of_nat j)" for i j
        using Suc.prems(4)[of "Suc i" "Suc j"] that by (simp add: algebra_simps)
    qed
    moreover have "far_addr ds d \<noteq> far_addr ss (s + 1 + of_nat k)"
      using Suc.prems(2)[of 0 "Suc k"] Suc.prems(3) Suc by (simp add: algebra_simps)
    ultimately show ?thesis using Suc by (simp add: algebra_simps)
  qed
qed simp

text \<open>Below 1M, the segment and offset of a flat address denote that address.\<close>

lemma far_addr_flat:
  assumes "unat p + n \<le> 2 ^ 20" "i < n" "n \<le> 0x8000"
  shows "far_addr (FLATPTR_TO_SEG p) (FLATPTR_TO_OFFSET p + of_nat i) = p + of_nat i"
proof -
  have o: "unat (p AND 0xf) = unat p mod 16"
  proof -
    have "(0xf :: u32) = mask 4" by (simp add: mask_eq_exp_minus_1)
    then show ?thesis by (simp only: take_bit_eq_mask[symmetric] unsigned_take_bit_eq) (simp add: take_bit_eq_mod)
  qed
  have p: "unat p < 2 ^ 20" using assms by simp
  have d: "unat (drop_bit 4 p) = unat p div 16" using unat_drop_bit_div[of 4 p] by simp
  have q: "unat p div 16 < 65536" using p by (intro div_less_iff_less_mult[THEN iffD2]) simp_all
  have s: "unat (FLATPTR_TO_SEG p) = unat p div 16" using q unfolding FLATPTR_TO_SEG_def unat_ucast_mod d by simp
  have f0: "unat (FLATPTR_TO_OFFSET p) = unat p mod 16"
    unfolding FLATPTR_TO_OFFSET_def unat_ucast_mod o by (simp add: mod_less_eq_dividend order.strict_trans1[of _ 15])
  have m16: "unat p mod 16 < 16" by simp
  have i: "unat (of_nat i :: u16) = i" using assms by (simp add: unat_of_nat)
  have f: "unat (FLATPTR_TO_OFFSET p + of_nat i) = unat p mod 16 + i"
    using assms m16 unfolding f0[symmetric] by (subst unat_add_nowrap) (simp_all add: i f0)
  have u1: "unat (ucast (FLATPTR_TO_SEG p) :: u32) = unat p div 16" using q by (simp add: unat_ucast_mod s)
  have a1: "unat (push_bit 4 (ucast (FLATPTR_TO_SEG p)) :: u32) = unat p div 16 * 16"
    unfolding unat_push_bit_mod u1 using q by simp
  have a2: "unat (ucast (FLATPTR_TO_OFFSET p + of_nat i) :: u32) = unat p mod 16 + i"
    unfolding unat_ucast_mod f using assms m16 by simp
  have r: "unat (p + of_nat i) = unat p + i" using assms by (subst unat_add_nowrap) (simp_all add: unat_of_nat)
  have e: "unat p div 16 * 16 + (unat p mod 16 + i) = unat p + i" by simp
  have "unat (far_addr (FLATPTR_TO_SEG p) (FLATPTR_TO_OFFSET p + of_nat i)) = unat p + i"
    unfolding far_addr_def using assms by (subst unat_add_nowrap) (simp_all only: a1 a2 e, simp)
  then show ?thesis using r by (simp add: word_eq_iff_unat)
qed

lemma far_addr_wraps: "far_addr (FLATPTR_TO_SEG p) (FLATPTR_TO_OFFSET p) = p AND 0xfffff"
proof -
  have m: "(0xf :: u32) = mask 4" "(0xfffff :: u32) = mask 20" by (simp_all add: mask_eq_exp_minus_1)
  have "unat (p AND 0xf) = unat p mod 16"
    unfolding m(1) take_bit_eq_mask[symmetric] unsigned_take_bit_eq by (simp add: take_bit_eq_mod)
  then have o: "unat (ucast (FLATPTR_TO_OFFSET p) :: u32) = unat p mod 16"
    using mod_less_divisor[of 16 "unat p"] by (simp add: FLATPTR_TO_OFFSET_def unat_ucast_mod)
  have s: "unat (push_bit 4 (ucast (FLATPTR_TO_SEG p) :: u32)) = unat p div 16 mod 65536 * 16"
    unfolding FLATPTR_TO_SEG_def unat_push_bit_mod unat_ucast_mod unat_drop_bit_div by simp
  have "unat p div 16 mod 65536 * 16 + unat p mod 16 = unat p mod 2 ^ 20"
    using mod_mult2_eq[of "unat p" 16 65536] by simp
  moreover have "unat (p AND 0xfffff) = unat p mod 2 ^ 20"
    unfolding m(2) take_bit_eq_mask[symmetric] unsigned_take_bit_eq by (simp add: take_bit_eq_mod)
  moreover have "unat (far_addr (FLATPTR_TO_SEG p) (FLATPTR_TO_OFFSET p)) = unat p div 16 mod 65536 * 16 + unat p mod 16"
    unfolding far_addr_def o[symmetric] s[symmetric] by (rule unat_add_nowrap) (simp only: o s, simp)
  ultimately show ?thesis by (simp add: word_unat_eq_iff)
qed

lemma far_addr_add:
  assumes "unat off + n < 65536"
  shows "far_addr seg (off + of_nat n) = far_addr seg off + of_nat n"
proof -
  have n: "unat (of_nat n :: u16) = n" using assms by (simp add: unat_of_nat)
  have "unat (off + of_nat n) = unat off + n" using assms by (subst unat_add_nowrap) (simp_all add: n)
  then have "unat (ucast (off + of_nat n) :: u32) = unat off + n" using assms by (simp add: unat_ucast_mod)
  moreover have "unat (ucast off + of_nat n :: u32) = unat off + n"
    using assms by (subst unat_add_nowrap) (simp_all add: unat_ucast_mod unat_of_nat)
  ultimately have "(ucast (off + of_nat n) :: u32) = ucast off + of_nat n" by (simp add: word_eq_iff_unat)
  then show ?thesis by (simp add: far_addr_def algebra_simps)
qed

section \<open>Bytes in memory\<close>

text \<open>Memory with some bytes stored from an address on, and the bytes that it holds there.\<close>

fun put_bytes :: "u32 \<Rightarrow> u8 list \<Rightarrow> memory \<Rightarrow> memory" where
  "put_bytes p [] m = m"
| "put_bytes p (b # bs) m = put_bytes (p + 1) bs (m(p := b))"

definition mem_bytes :: "memory \<Rightarrow> u32 \<Rightarrow> nat \<Rightarrow> u8 list" where
  "mem_bytes m p n = map (\<lambda>i. m (p + of_nat i)) [0..<n]"

lemma put_bytes_append: "put_bytes p (xs @ ys) m = put_bytes (p + of_nat (length xs)) ys (put_bytes p xs m)"
  by (induction xs arbitrary: p m) (simp_all add: algebra_simps)

lemma put_bytes_other: "(\<And>i. i < length bs \<Longrightarrow> a \<noteq> p + of_nat i) \<Longrightarrow> put_bytes p bs m a = m a"
proof (induction bs arbitrary: p m)
  case (Cons b bs)
  have "put_bytes (p + 1) bs (m(p := b)) a = (m(p := b)) a"
    by (rule Cons.IH) (use Cons.prems[of "Suc i" for i] in \<open>simp add: algebra_simps\<close>)
  then show ?case using Cons.prems[of 0] by simp
qed simp

lemma put_bytes_at:
  assumes "length bs \<le> 2 ^ 32" "i < length bs"
  shows "put_bytes p bs m (p + of_nat i) = bs ! i"
  using assms
proof (induction bs arbitrary: p m i)
  case (Cons b bs)
  show ?case
  proof (cases i)
    case 0
    have "p \<noteq> p + 1 + of_nat j" if "j < length bs" for j
    proof -
      have "unat (of_nat (Suc j) :: u32) = Suc j" using that Cons.prems(1) by (simp only: unat_of_nat) simp
      then have "(of_nat (Suc j) :: u32) \<noteq> 0" by (metis nat.distinct(2) unat_0)
      then show ?thesis by (simp add: add.assoc)
    qed
    then have "put_bytes (p + 1) bs (m(p := b)) p = (m(p := b)) p" by (rule put_bytes_other)
    then show ?thesis using 0 by simp
  next
    case (Suc j)
    then show ?thesis using Cons.IH[of j "p + 1" "m(p := b)"] Cons.prems by (simp add: algebra_simps fun_upd_def)
  qed
qed simp

lemma mem_bytes_step: "mem_bytes m p (Suc (Suc n)) = m p # m (p + 1) # mem_bytes m (p + 2) n"
proof -
  have "[0..<Suc (Suc n)] = 0 # 1 # map (\<lambda>i. i + 2) [0..<n]"
    by (rule nth_equalityI) (auto simp: nth_Cons nth_append simp del: upt_Suc split: nat.splits)
  then show ?thesis by (simp add: mem_bytes_def comp_def algebra_simps)
qed

lemma mem_bytes_append: "mem_bytes m p (n + k) = mem_bytes m p n @ mem_bytes m (p + of_nat n) k"
proof -
  have "[0..<n + k] = [0..<n] @ map (\<lambda>i. i + n) [0..<k]" using upt_add_eq_append[of 0 n k] by (simp add: map_add_upt add.commute)
  then show ?thesis by (simp add: mem_bytes_def comp_def algebra_simps)
qed

lemma length_mem_bytes [simp]: "length (mem_bytes m p n) = n"
  by (simp add: mem_bytes_def)

text \<open>The addresses of a block.\<close>

definition span :: "u32 \<Rightarrow> nat \<Rightarrow> u32 set" where
  "span p n = (\<lambda>i. p + of_nat i) ` {..<n}"

lemma span_iff: "a \<in> span p n \<longleftrightarrow> (\<exists>i<n. a = p + of_nat i)"
  by (auto simp: span_def)

end
