(* ===== verification/Pmm.thy ===== *)
theory Pmm
  imports E820 Bios_Util
begin

text \<open>
  \<open>bios/seabios/src/pmm.c\<close>: the allocator of the firmware. Memory is cut from the top of five
  zones; every allocation is tracked in the list \<open>PMMAllocs\<close>, whose nodes are themselves cut from
  the temporary zones. The low zone grows by moving the extended BIOS data area (EBDA) down.
\<close>

section \<open>Data\<close>

record zone_s =
  z_top :: u32
  z_bottom :: u32
  z_cur :: u32

text \<open>The zones, in the order of the array \<open>Zones\<close>.\<close>

datatype zone_id = ZoneTmpLow | ZoneLow | ZoneFSeg | ZoneTmpHigh | ZoneHigh

definition Zones :: "zone_id list" where
  "Zones = [ZoneTmpLow, ZoneLow, ZoneFSeg, ZoneTmpHigh, ZoneHigh]"

text \<open>A node of the list, with its own address; the list order is that of the \<open>next\<close> pointers.\<close>

record pmmalloc_s =
  p_info :: u32
  p_data :: u32
  p_olddata :: u32
  p_handle :: u32
  p_oldallocdata :: u32

text \<open>
  The allocator's variables with what it touches of the machine: the two fields of the BIOS data
  area, the memory, and the memory map. The size of the EBDA in kilobytes is its first byte. The file is
  compiled twice: \<open>mode16\<close> says that the 16-bit build runs, as it does for an option ROM that calls the PMM entry point.
\<close>

record pmm =
  zones :: "zone_id \<Rightarrow> zone_s"
  PMMAllocs :: "pmmalloc_s list"
  mem_size_kb :: u16
  ebda_seg :: u16
  ram :: memory
  mode16 :: bool
  e820_list :: "e820entry list"

definition zcur :: "zone_id \<Rightarrow> pmm \<Rightarrow> u32" where "zcur z s = z_cur (zones s z)"
definition zbottom :: "zone_id \<Rightarrow> pmm \<Rightarrow> u32" where "zbottom z s = z_bottom (zones s z)"
definition ztop :: "zone_id \<Rightarrow> pmm \<Rightarrow> u32" where "ztop z s = z_top (zones s z)"

definition set_cur :: "zone_id \<Rightarrow> u32 \<Rightarrow> pmm \<Rightarrow> pmm" where
  "set_cur z p s = s\<lparr>zones := (zones s)(z := (zones s z)\<lparr>z_cur := p\<rparr>)\<rparr>"

definition set_bottom :: "zone_id \<Rightarrow> u32 \<Rightarrow> pmm \<Rightarrow> pmm" where
  "set_bottom z p s = s\<lparr>zones := (zones s)(z := (zones s z)\<lparr>z_bottom := p\<rparr>)\<rparr>"

definition MALLOC_MIN_ALIGN :: u32 where "MALLOC_MIN_ALIGN = 16"
definition PMM_DEFAULT_HANDLE :: u32 where "PMM_DEFAULT_HANDLE = 0xffffffff"
definition PMM_FUNCTION_NOT_SUPPORTED :: u32 where "PMM_FUNCTION_NOT_SUPPORTED = 0xffffffff"
definition BUILD_STACK_ADDR :: u32 where "BUILD_STACK_ADDR = 0x7000"
definition BUILD_EBDA_MINIMUM :: u32 where "BUILD_EBDA_MINIMUM = 0x90000"
definition BUILD_LOWRAM_END :: u32 where "BUILD_LOWRAM_END = 0xa0000"
definition BUILD_BIOS_ADDR :: u32 where "BUILD_BIOS_ADDR = 0xf0000"
definition CONFIG_MAX_BIOSTABLE :: u32 where "CONFIG_MAX_BIOSTABLE = 4 * 2048"
definition CONFIG_MAX_HIGHTABLE :: u32 where "CONFIG_MAX_HIGHTABLE = 64 * 1024"
definition PAGE_SIZE :: u32 where "PAGE_SIZE = 4096"
definition sizeof_pmmalloc :: u32 where "sizeof_pmmalloc = 20"

lemmas pmm_consts = MALLOC_MIN_ALIGN_def BUILD_STACK_ADDR_def BUILD_EBDA_MINIMUM_def
  BUILD_LOWRAM_END_def BUILD_BIOS_ADDR_def CONFIG_MAX_BIOSTABLE_def CONFIG_MAX_HIGHTABLE_def
  PAGE_SIZE_def sizeof_pmmalloc_def PMM_DEFAULT_HANDLE_def PMM_FUNCTION_NOT_SUPPORTED_def

section \<open>Moving the EBDA\<close>

definition ebda_pos :: "pmm \<Rightarrow> u32" where
  "ebda_pos s = push_bit 4 (ucast (ebda_seg s))"

definition ebda_size :: "pmm \<Rightarrow> u8" where
  "ebda_size s = ram s (ebda_pos s)"

definition ebda_bytes :: "u8 \<Rightarrow> u32" where
  "ebda_bytes sz = ucast sz * 1024"

text \<open>
  The copy of the EBDA: with \<open>memcpy_far\<close> in the 16-bit build, where the count is that of a 16-bit register, and with
  \<open>memmove\<close> otherwise. The result is the returned code and the new state.
\<close>

definition copy_ebda :: "u32 \<Rightarrow> u32 \<Rightarrow> u8 \<Rightarrow> pmm \<Rightarrow> memory" where
  "copy_ebda newebda oldebda sz s =
     (if mode16 s
      then memcpy_far (ram s) (FLATPTR_TO_SEG newebda) (FLATPTR_TO_OFFSET newebda) (FLATPTR_TO_SEG oldebda) (FLATPTR_TO_OFFSET oldebda)
             (unat (ucast (ebda_bytes sz) :: u16))
      else snd (memmove (ram s) newebda oldebda (ebda_bytes sz)))"

definition relocate_ebda :: "u32 \<Rightarrow> u32 \<Rightarrow> u8 \<Rightarrow> pmm \<Rightarrow> int \<times> pmm" where
  "relocate_ebda newebda oldebda sz s =
     (let lowram = ucast (mem_size_kb s) * 1024 in
      if oldebda \<noteq> lowram then (- 1, s)
      else (0, s\<lparr>ram := copy_ebda newebda oldebda sz s,
                 mem_size_kb := ucast (newebda div 1024),
                 ebda_seg := FLATPTR_TO_SEG newebda\<rparr>))"

text \<open>Is the space for an allocation in the low zone present already?\<close>

definition zonelow_space :: "u32 \<Rightarrow> u32 \<Rightarrow> pmm \<Rightarrow> bool" where
  "zonelow_space sz align s =
     (let oldpos = zcur ZoneLow s; newpos = ALIGN_DOWN (oldpos - sz) align
      in newpos \<ge> zbottom ZoneLow s \<and> newpos \<le> oldpos)"

definition zonelow_move :: "u32 \<Rightarrow> u32 \<Rightarrow> pmm \<Rightarrow> pmm" where
  "zonelow_move sz align s =
     (let bottom = zbottom ZoneLow s;
          pos = ebda_pos s;
          esize = ebda_size s;
          ebda_end = pos + ebda_bytes esize;
          oldpos = (if ebda_end \<noteq> bottom then ebda_end else zcur ZoneLow s);
          newpos = ALIGN_DOWN (oldpos - sz) align;
          newbottom = ALIGN_DOWN newpos 1024;
          newebda = ALIGN_DOWN (newbottom - ebda_bytes esize) 1024
      in if newebda < BUILD_EBDA_MINIMUM then s
         else let (ret, s1) = relocate_ebda newebda pos esize s
              in if ret \<noteq> 0 then s1 else set_bottom ZoneLow newbottom (set_cur ZoneLow oldpos s1))"

text \<open>
  The loop of \<open>zonelow_expand\<close> while \<open>wait_preempt\<close> returns true, which it does only in a build
  with \<open>CONFIG_THREAD_OPTIONROMS\<close>. The configuration has it switched off.
\<close>

definition zonelow_expand :: "u32 \<Rightarrow> u32 \<Rightarrow> pmm \<Rightarrow> pmm" where
  "zonelow_expand sz align s =
     (if zonelow_space sz align s then s else zonelow_move sz align s)"

section \<open>Zone allocations\<close>

text \<open>The null pointer is 0.\<close>

definition zone_malloc :: "zone_id \<Rightarrow> u32 \<Rightarrow> u32 \<Rightarrow> pmm \<Rightarrow> u32 \<times> pmm" where
  "zone_malloc z sz align s =
     (let oldpos = zcur z s; newpos = ALIGN_DOWN (oldpos - sz) align
      in if newpos < zbottom z s \<or> newpos > oldpos then (0, s)
         else (newpos, set_cur z newpos s))"

definition zone_find :: "u32 \<Rightarrow> pmm \<Rightarrow> zone_id option" where
  "zone_find data s = List.find (\<lambda>z. data \<ge> zcur z s \<and> data < ztop z s) Zones"

definition zone_free :: "u32 \<Rightarrow> u32 \<Rightarrow> pmm \<Rightarrow> int \<times> pmm" where
  "zone_free data olddata s =
     (case zone_find data s of None \<Rightarrow> (- 1, s)
      | Some z \<Rightarrow> if data = 0 \<or> zcur z s \<noteq> data then (- 1, s) else (0, set_cur z olddata s))"

section \<open>Tracked allocations\<close>

text \<open>A node for the list: its address (0 if there is no room) and the \<open>cur\<close> it was cut from.\<close>

definition pmm_info :: "pmm \<Rightarrow> u32 \<times> u32 \<times> pmm" where
  "pmm_info s =
     (let old = zcur ZoneTmpHigh s; (info, s1) = zone_malloc ZoneTmpHigh sizeof_pmmalloc MALLOC_MIN_ALIGN s
      in if info \<noteq> 0 then (info, old, s1)
         else let old = zcur ZoneTmpLow s1; (info, s2) = zone_malloc ZoneTmpLow sizeof_pmmalloc MALLOC_MIN_ALIGN s1
              in (info, old, s2))"

definition pmm_malloc ::
  "zone_id \<Rightarrow> u32 \<Rightarrow> u32 \<Rightarrow> u32 \<Rightarrow> pmm \<Rightarrow> u32 \<times> pmm" where
  "pmm_malloc z handle sz align s =
     (let (info, oldallocdata, s1) = pmm_info s in
      if info = 0 then (0, s1)
      else
        let s2 = (if z = ZoneLow then zonelow_expand sz align s1 else s1);
            olddata = zcur z s2;
            (data, s3) = zone_malloc z sz align s2
        in if data = 0 then (0, snd (zone_free info oldallocdata s3))
           else (data, s3\<lparr>PMMAllocs := \<lparr>p_info = info, p_data = data, p_olddata = olddata, p_handle = handle,
                     p_oldallocdata = oldallocdata\<rparr> # PMMAllocs s3\<rparr>))"

text \<open>The loop of \<open>pmm_free_data\<close> over the list.\<close>

fun adopt_space :: "u32 \<Rightarrow> u32 \<Rightarrow> pmmalloc_s list \<Rightarrow> pmmalloc_s list" where
  "adopt_space data olddata [] = []"
| "adopt_space data olddata (i # is) =
     (if p_olddata i = data then i\<lparr>p_olddata := olddata\<rparr> # is
      else if p_oldallocdata i = data then i\<lparr>p_oldallocdata := olddata\<rparr> # is
      else i # adopt_space data olddata is)"

definition pmm_free_data :: "u32 \<Rightarrow> u32 \<Rightarrow> pmm \<Rightarrow> pmm" where
  "pmm_free_data data olddata s =
     (let (ret, s1) = zone_free data olddata s
      in if ret = 0 then s1 else s1\<lparr>PMMAllocs := adopt_space data olddata (PMMAllocs s1)\<rparr>)"

text \<open>The first node with the given data, and the list without it.\<close>

fun unlink :: "u32 \<Rightarrow> pmmalloc_s list \<Rightarrow> (pmmalloc_s \<times> pmmalloc_s list) option" where
  "unlink data [] = None"
| "unlink data (i # is) =
     (if p_data i = data then Some (i, is)
      else map_option (\<lambda>(j, js). (j, i # js)) (unlink data is))"

definition pmm_free :: "u32 \<Rightarrow> pmm \<Rightarrow> int \<times> pmm" where
  "pmm_free data s =
     (case unlink data (PMMAllocs s) of None \<Rightarrow> (- 1, s)
      | Some (i, rest) \<Rightarrow>
          (0, pmm_free_data (p_info i) (p_oldallocdata i)
                (pmm_free_data data (p_olddata i) (s\<lparr>PMMAllocs := rest\<rparr>))))"

definition pmm_getspace :: "zone_id \<Rightarrow> pmm \<Rightarrow> u32" where
  "pmm_getspace z s =
     (let space = zcur z s - zbottom z s in
      if z \<noteq> ZoneTmpHigh \<and> z \<noteq> ZoneTmpLow then space
      else let reserve = ALIGN sizeof_pmmalloc MALLOC_MIN_ALIGN
           in if space \<le> reserve then 0 else space - reserve)"

definition pmm_find :: "u32 \<Rightarrow> pmm \<Rightarrow> u32" where
  "pmm_find handle s =
     (case List.find (\<lambda>i. p_handle i = handle) (PMMAllocs s) of None \<Rightarrow> 0 | Some i \<Rightarrow> p_data i)"

section \<open>Start and end of the allocator\<close>

text \<open>
  \<open>code32flat\<close> and \<open>tables\<close> are the addresses of \<open>code32flat_start\<close> and \<open>BiosTableSpace\<close>, which the
  linker chooses.
\<close>

definition mk_zone :: "u32 \<Rightarrow> u32 \<Rightarrow> zone_s" where
  "mk_zone lo hi = \<lparr>z_top = hi, z_bottom = lo, z_cur = hi\<rparr>"

definition malloc_setup :: "u32 \<Rightarrow> u32 \<Rightarrow> pmm \<Rightarrow> pmm" where
  "malloc_setup code32flat tables s =
     (let m1 = (if code32flat > BUILD_BIOS_ADDR
                then memset (ram s) BUILD_BIOS_ADDR 0 (unat (code32flat - BUILD_BIOS_ADDR)) else ram s);
          m2 = memset m1 tables 0 (unat CONFIG_MAX_BIOSTABLE);
          z = (zones s)(ZoneFSeg := mk_zone tables (tables + CONFIG_MAX_BIOSTABLE),
                        ZoneTmpLow := mk_zone BUILD_STACK_ADDR BUILD_EBDA_MINIMUM,
                        ZoneLow := mk_zone BUILD_LOWRAM_END BUILD_LOWRAM_END);
          s1 = s\<lparr>PMMAllocs := [], ram := m2\<rparr>
      in case find_high_area (CONFIG_MAX_HIGHTABLE + MALLOC_MIN_ALIGN) (e820_list s) of
           None \<Rightarrow> s1\<lparr>zones := z(ZoneHigh := mk_zone 0 0, ZoneTmpHigh := mk_zone 0 0)\<rparr>
         | Some k \<Rightarrow>
             let e = e820_list s ! k;
                 hi = ucast (e_end e); lo = ucast (e_start e);
                 hb = ALIGN (hi - CONFIG_MAX_HIGHTABLE) MALLOC_MIN_ALIGN
             in s1\<lparr>zones := z(ZoneHigh := mk_zone hb (hb + CONFIG_MAX_HIGHTABLE),
                             ZoneTmpHigh := mk_zone (ALIGN lo MALLOC_MIN_ALIGN) hb),
                   e820_list := add_e820 (ucast hb) (ucast CONFIG_MAX_HIGHTABLE) E820_RESERVED (e820_list s)\<rparr>)"

definition malloc_finalize :: "pmm \<Rightarrow> pmm" where
  "malloc_finalize s =
     (let endlow = ucast (mem_size_kb s) * 1024;
          m1 = add_e820 (ucast (endlow :: u32)) (ucast (BUILD_LOWRAM_END - endlow)) E820_RESERVED (e820_list s);
          giveback = ALIGN_DOWN (zcur ZoneHigh s - zbottom ZoneHigh s) PAGE_SIZE;
          m2 = add_e820 (ucast (zbottom ZoneHigh s)) (ucast giveback) E820_RAM m1
      in s\<lparr>e820_list := m2,
           ram := memset (ram s) (zbottom ZoneTmpLow s) 0 (unat (ztop ZoneTmpLow s - zbottom ZoneTmpLow s))\<rparr>)"

section \<open>The PMM entry point\<close>

text \<open>\<open>args\<close> are the 16-bit words on the stack of the caller.\<close>

definition arg32 :: "(nat \<Rightarrow> u16) \<Rightarrow> nat \<Rightarrow> u32" where
  "arg32 args i = ucast (args i) OR push_bit 16 (ucast (args (Suc i)))"

definition pmm_align :: "u16 \<Rightarrow> u32 \<Rightarrow> u32" where
  "pmm_align flags sz =
     (if flags AND 4 \<noteq> 0 then max (push_bit (ffs sz) 1) MALLOC_MIN_ALIGN else MALLOC_MIN_ALIGN)"

definition handle_pmm00 :: "(nat \<Rightarrow> u16) \<Rightarrow> pmm \<Rightarrow> u32 \<times> pmm" where
  "handle_pmm00 args s =
     (let len = arg32 args 1; handle = arg32 args 3; flags = args 5;
          lowzone = (if flags AND 8 \<noteq> 0 then ZoneLow else ZoneTmpLow);
          highzone = (if flags AND 8 \<noteq> 0 then ZoneHigh else ZoneTmpHigh)
      in if len = 0 then
           (if flags AND 3 = 1 then (pmm_getspace lowzone s, s)
            else if flags AND 3 = 2 then (pmm_getspace highzone s, s)
            else if flags AND 3 = 3 then
              let spacelow = pmm_getspace lowzone s; spacehigh = pmm_getspace highzone s
              in (if spacelow > spacehigh then spacelow else spacehigh, s)
            else (0, s))
         else
           let sz = len * 16; align = pmm_align flags sz in
           if sz \<le>s 0 then (0, s)
           else if flags AND 3 = 1 then pmm_malloc lowzone handle sz align s
           else if flags AND 3 = 2 then pmm_malloc highzone handle sz align s
           else if flags AND 3 = 3 then
             let (data, s1) = pmm_malloc lowzone handle sz align s
             in if data \<noteq> 0 then (data, s1) else pmm_malloc highzone handle sz align s1
           else (0, s))"

definition handle_pmm01 :: "(nat \<Rightarrow> u16) \<Rightarrow> pmm \<Rightarrow> u32 \<times> pmm" where
  "handle_pmm01 args s =
     (let handle = arg32 args 1 in if handle = PMM_DEFAULT_HANDLE then (0, s) else (pmm_find handle s, s))"

definition handle_pmm02 :: "(nat \<Rightarrow> u16) \<Rightarrow> pmm \<Rightarrow> u32 \<times> pmm" where
  "handle_pmm02 args s =
     (let (ret, s1) = pmm_free (arg32 args 1) s in (if ret \<noteq> 0 then 1 else 0, s1))"

definition handle_pmmXX :: "(nat \<Rightarrow> u16) \<Rightarrow> pmm \<Rightarrow> u32 \<times> pmm" where
  "handle_pmmXX args s = (PMM_FUNCTION_NOT_SUPPORTED, s)"

text \<open>The entry point is code of the 16-bit build.\<close>

definition handle_pmm :: "(nat \<Rightarrow> u16) \<Rightarrow> pmm \<Rightarrow> u32 \<times> pmm" where
  "handle_pmm args s =
     (let arg1 = args 0; s0 = s\<lparr>mode16 := True\<rparr>;
          (r, s1) = (if arg1 = 0 then handle_pmm00 args s0
                     else if arg1 = 1 then handle_pmm01 args s0
                     else if arg1 = 2 then handle_pmm02 args s0
                     else handle_pmmXX args s0)
      in (r, s1\<lparr>mode16 := mode16 s\<rparr>))"

text \<open>The header that announces the entry point, and its bytes.\<close>

record pmmheader =
  h_signature :: u32
  h_version :: u8
  h_length :: u8
  h_checksum :: u8
  h_entry_offset :: u16
  h_entry_seg :: u16
  h_reserved :: "u8 list"

definition pmmheader_bytes :: "pmmheader \<Rightarrow> u8 list" where
  "pmmheader_bytes h = le_bytes 4 (h_signature h) @ [h_version h, h_length h, h_checksum h]
     @ le_bytes 2 (h_entry_offset h) @ le_bytes 2 (h_entry_seg h) @ h_reserved h"

definition PMM_SIGNATURE :: u32 where "PMM_SIGNATURE = 0x4d4d5024"

definition pmm_setup :: "u32 \<Rightarrow> pmmheader \<Rightarrow> pmmheader" where
  "pmm_setup entry_pmm h =
     (let h1 = h\<lparr>h_signature := PMM_SIGNATURE, h_entry_offset := ucast (entry_pmm - BUILD_BIOS_ADDR)\<rparr>
      in h1\<lparr>h_checksum := h_checksum h1 - checksum (pmmheader_bytes h1)\<rparr>)"

definition pmm_finalize :: "pmmheader \<Rightarrow> pmmheader" where
  "pmm_finalize h = h\<lparr>h_signature := 0, h_entry_offset := 0\<rparr>"

section \<open>Blocks\<close>

type_synonym block = "nat \<times> nat"

text \<open>
  The memory that the list accounts for: for every node the block it tracks, with the space of
  freed neighbours that it has taken over, and the block of the node itself.
\<close>

definition node_blocks :: "pmmalloc_s \<Rightarrow> block list" where
  "node_blocks i = [(unat (p_data i), unat (p_olddata i)), (unat (p_info i), unat (p_oldallocdata i))]"

definition blocks :: "pmmalloc_s list \<Rightarrow> block list" where
  "blocks is = concat (map node_blocks is)"

definition sep :: "block \<Rightarrow> block \<Rightarrow> bool" where
  "sep b c \<longleftrightarrow> snd b \<le> fst c \<or> snd c \<le> fst b"

definition in_zone :: "pmm \<Rightarrow> block \<Rightarrow> zone_id \<Rightarrow> bool" where
  "in_zone s b z \<longleftrightarrow> unat (zcur z s) \<le> fst b \<and> snd b \<le> unat (ztop z s)"

text \<open>
  The zones are ordered triples, disjoint from each other; the low zone lies in the last 64K of
  conventional memory, where no other zone is, and the EBDA lies below it.
\<close>

definition zones_ok :: "pmm \<Rightarrow> bool" where
  "zones_ok s \<longleftrightarrow>
     (\<forall>z. unat (zbottom z s) \<le> unat (zcur z s) \<and> unat (zcur z s) \<le> unat (ztop z s)
        \<and> (unat (zbottom z s) = 0 \<longrightarrow> unat (ztop z s) = 0))
     \<and> (\<forall>z z'. z \<noteq> z' \<longrightarrow> sep (unat (zbottom z s), unat (ztop z s)) (unat (zbottom z' s), unat (ztop z' s)))
     \<and> (\<forall>z. z \<noteq> ZoneLow \<longrightarrow> unat (ztop z s) \<le> 0x90000 \<or> 0xa0000 \<le> unat (zbottom z s))
     \<and> 0x90000 \<le> unat (zbottom ZoneLow s) \<and> unat (ztop ZoneLow s) \<le> 0xa0000
     \<and> 0x90000 \<le> unat (ebda_pos s) \<and> 0 < unat (ebda_size s)
     \<and> unat (ebda_pos s) + 1024 * unat (ebda_size s) \<le> unat (zbottom ZoneLow s)"

definition holds :: "pmm \<Rightarrow> block list \<Rightarrow> bool" where
  "holds s bs \<longleftrightarrow> zones_ok s \<and> (\<forall>b\<in>set bs. fst b < snd b \<and> (\<exists>z. in_zone s b z)) \<and> sorted_wrt sep bs"

definition pmm_inv :: "pmm \<Rightarrow> bool" where
  "pmm_inv s \<longleftrightarrow> holds s (blocks (PMMAllocs s))"

lemma blocks_simps [simp]:
  "blocks [] = []" "blocks (i # is) = node_blocks i @ blocks is" "blocks (xs @ ys) = blocks xs @ blocks ys"
  by (simp_all add: blocks_def)

lemma zone_simps [simp]:
  "zcur z (set_cur z' p s) = (if z = z' then p else zcur z s)"
  "zbottom z (set_cur z' p s) = zbottom z s" "ztop z (set_cur z' p s) = ztop z s"
  "zcur z (set_bottom z' p s) = zcur z s" "ztop z (set_bottom z' p s) = ztop z s"
  "zbottom z (set_bottom z' p s) = (if z = z' then p else zbottom z s)"
  "ebda_pos (set_cur z' p s) = ebda_pos s" "ebda_size (set_cur z' p s) = ebda_size s"
  "ebda_pos (set_bottom z' p s) = ebda_pos s" "ebda_size (set_bottom z' p s) = ebda_size s"
  "PMMAllocs (set_cur z' p s) = PMMAllocs s" "PMMAllocs (set_bottom z' p s) = PMMAllocs s"
  "mem_size_kb (set_cur z' p s) = mem_size_kb s" "mem_size_kb (set_bottom z' p s) = mem_size_kb s"
  "ram (set_cur z' p s) = ram s" "ram (set_bottom z' p s) = ram s"
  by (simp_all add: zcur_def zbottom_def ztop_def set_cur_def set_bottom_def ebda_pos_def ebda_size_def)

lemma allocs_simps [simp]:
  "zcur z (s\<lparr>PMMAllocs := l\<rparr>) = zcur z s" "zbottom z (s\<lparr>PMMAllocs := l\<rparr>) = zbottom z s"
  "ztop z (s\<lparr>PMMAllocs := l\<rparr>) = ztop z s" "ebda_pos (s\<lparr>PMMAllocs := l\<rparr>) = ebda_pos s"
  "ebda_size (s\<lparr>PMMAllocs := l\<rparr>) = ebda_size s"
  by (simp_all add: zcur_def zbottom_def ztop_def ebda_pos_def ebda_size_def)

lemma set_cur_again [simp]:
  "set_cur z a (set_cur z b s) = set_cur z a s" "set_cur z (zcur z s) s = s"
  "(set_cur z a s)\<lparr>PMMAllocs := PMMAllocs s\<rparr> = set_cur z a s"
  by (simp_all add: set_cur_def zcur_def)

lemma holds_allocs [simp]: "holds (s\<lparr>PMMAllocs := l\<rparr>) bs = holds s bs"
  by (simp add: holds_def zones_ok_def in_zone_def)

lemma holds_block:
  assumes "holds s bs" "b \<in> set bs"
  obtains z where "in_zone s b z" "fst b < snd b"
proof -
  have "fst b < snd b \<and> (\<exists>z. in_zone s b z)" using assms by (simp add: holds_def)
  then show thesis using that by auto
qed

lemma sep_sym: "sep b c \<longleftrightarrow> sep c b"
  by (auto simp: sep_def)

section \<open>Cutting a block from a zone\<close>

definition req_ok :: "u32 \<Rightarrow> nat \<Rightarrow> bool" where
  "req_ok sz k \<longleftrightarrow> 0 < unat sz \<and> unat sz < 2 ^ 31 \<and> k < 32"

text \<open>A difference that wraps around is above \<open>oldpos\<close>, also after it has been aligned.\<close>

lemma cut_fits:
  assumes "req_ok sz k" "ALIGN_DOWN (old - sz) (2 ^ k) \<le> (old :: u32)"
  shows "unat sz \<le> unat old"
    and "unat (ALIGN_DOWN (old - sz) (2 ^ k)) + unat sz \<le> unat old"
proof -
  have s: "unat sz < 2 ^ 31" "k \<le> 31" using assms(1) by (auto simp: req_ok_def)
  show le: "unat sz \<le> unat old"
  proof (rule ccontr)
    assume "\<not> unat sz \<le> unat old"
    then have lt: "unat old < unat sz" by simp
    have "unat (old - sz) = 2 ^ 32 + unat old - unat sz"
      using lt by (simp add: unat_sub_if_size size_word.rep_eq)
    then have big: "2 ^ 31 \<le> unat (old - sz)" using s(1) by simp
    have "2 ^ k dvd (2 ^ 31 :: nat)" using s(2) by (rule le_imp_power_dvd)
    then have "2 ^ 31 \<le> unat (ALIGN_DOWN (old - sz) (2 ^ k))" using big by (rule ALIGN_DOWN_bound)
    then show False using assms(2) lt s(1) by (simp add: word_le_nat_alt)
  qed
  have "unat (ALIGN_DOWN (old - sz) (2 ^ k)) \<le> unat (old - sz)" by (rule unat_ALIGN_DOWN_le)
  also have "unat (old - sz) = unat old - unat sz" using le by (simp add: unat_diff_nowrap word_le_nat_alt)
  finally show "unat (ALIGN_DOWN (old - sz) (2 ^ k)) + unat sz \<le> unat old" using le by simp
qed

lemma zone_malloc_cases:
  assumes "zones_ok s" "req_ok sz k"
  obtains (None) "zone_malloc z sz (2 ^ k) s = (0, s)"
  | (Some) p where "zone_malloc z sz (2 ^ k) s = (p, set_cur z p s)" "p \<noteq> 0"
      "2 ^ k dvd unat p" "unat (zbottom z s) \<le> unat p" "unat p + unat sz \<le> unat (zcur z s)"
proof -
  let ?p = "ALIGN_DOWN (zcur z s - sz) (2 ^ k)"
  show thesis
  proof (cases "?p < zbottom z s \<or> ?p > zcur z s")
    case True
    then show thesis using None by (auto simp: zone_malloc_def)
  next
    case False
    then have le: "?p \<le> zcur z s" and b: "unat (zbottom z s) \<le> unat ?p"
      by (simp_all add: not_less word_le_nat_alt)
    note f = cut_fits[OF assms(2) le]
    have "?p \<noteq> 0"
    proof
      assume "?p = 0"
      then have "unat (ztop z s) = 0" using b assms(1) by (auto simp: zones_ok_def)
      moreover have "unat (zcur z s) \<le> unat (ztop z s)" using assms(1) by (simp add: zones_ok_def)
      moreover have "0 < unat sz" using assms(2) by (simp add: req_ok_def)
      ultimately show False using f(1) by linarith
    qed
    then show thesis using Some[of ?p] False f(2) b ALIGN_DOWN_dvd[of k "zcur z s - sz"]
      by (auto simp: zone_malloc_def Let_def)
  qed
qed

text \<open>The new block joins the blocks that the zones hold.\<close>

lemma holds_cut:
  assumes "holds s bs" "unat (zbottom z s) \<le> unat p" "unat p < unat (zcur z s)"
  shows "holds (set_cur z p s) ((unat p, unat (zcur z s)) # bs)"
proof -
  let ?s = "set_cur z p s" and ?b = "(unat p, unat (zcur z s))"
  have z: "zones_ok s" using assms(1) by (simp add: holds_def)
  have ok: "zones_ok ?s" using z assms(2,3) unfolding zones_ok_def by (auto dest: spec[of _ z])
  have top: "unat (zcur z s) \<le> unat (ztop z s)" using z by (simp add: zones_ok_def)
  have "sep ?b b \<and> (\<exists>z. in_zone ?s b z)" if b: "b \<in> set bs" for b
  proof -
    obtain z' where z': "in_zone s b z'" "fst b < snd b" by (rule holds_block[OF assms(1) b])
    show ?thesis
    proof (cases "z' = z")
      case True
      then show ?thesis using z'(1) assms(3) by (auto simp: in_zone_def sep_def)
    next
      case False
      have "unat (zbottom z' s) \<le> unat (zcur z' s)" using z by (simp add: zones_ok_def)
      moreover have "sep (unat (zbottom z s), unat (ztop z s)) (unat (zbottom z' s), unat (ztop z' s))"
        using z False by (simp add: zones_ok_def)
      ultimately have "sep ?b b" using z' assms(2,3) top by (auto simp: in_zone_def sep_def)
      then show ?thesis using z'(1) False by (auto simp: in_zone_def intro!: exI[of _ z'])
    qed
  qed
  then show ?thesis using ok assms top by (auto simp: holds_def in_zone_def)
qed

section \<open>Returning a block to its zone\<close>

lemma holds_zone: "holds s bs \<Longrightarrow> zones_ok s"
  by (simp add: holds_def)

lemma zone_unique:
  assumes "zones_ok s" "unat (zcur z s) \<le> x" "x < unat (ztop z s)" "unat (zcur z' s) \<le> x" "x < unat (ztop z' s)"
  shows "z = z'"
proof (rule ccontr)
  assume "z \<noteq> z'"
  then have "sep (unat (zbottom z s), unat (ztop z s)) (unat (zbottom z' s), unat (ztop z' s))"
    using assms(1) by (simp add: zones_ok_def)
  moreover have "unat (zbottom z s) \<le> unat (zcur z s)" "unat (zbottom z' s) \<le> unat (zcur z' s)"
    using assms(1) by (simp_all add: zones_ok_def)
  ultimately show False using assms(2-5) by (auto simp: sep_def)
qed

text \<open>\<open>zone_find\<close> finds the zone that holds a block.\<close>

lemma zone_find_in:
  assumes "zones_ok s" "in_zone s (unat d, e) z" "unat d < e"
  shows "zone_find d s = Some z"
proof -
  have i: "unat (zcur z s) \<le> unat d" "unat d < unat (ztop z s)" using assms(2,3) by (auto simp: in_zone_def)
  let ?P = "\<lambda>z. zcur z s \<le> d \<and> d < ztop z s"
  have "?P z' \<longleftrightarrow> z' = z" for z'
    unfolding word_le_nat_alt word_less_nat_alt
    using zone_unique[OF assms(1) _ _ i, of z'] i by blast
  moreover have "List.find (\<lambda>z'. z' = z) Zones = Some z" by (cases z) (simp_all add: Zones_def)
  ultimately show ?thesis by (simp add: zone_find_def)
qed

lemma zone_free_cases:
  assumes "holds s ((unat d, unat e) # bs)"
  obtains (Cur) z where "zone_free d e s = (0, set_cur z e s)" "zcur z s = d"
      "in_zone s (unat d, unat e) z" "holds (set_cur z e s) bs"
  | (Inner) z where "zone_free d e s = (- 1, s)" "unat (zcur z s) < unat d" "in_zone s (unat d, unat e) z"
proof -
  have z: "zones_ok s" and lt: "unat d < unat e" using assms by (auto simp: holds_def)
  obtain z where iz: "in_zone s (unat d, unat e) z" using assms by (auto simp: holds_def)
  note f = zone_find_in[OF z iz lt]
  have "unat (zbottom z s) = 0 \<longrightarrow> unat (ztop z s) = 0" "unat (zbottom z s) \<le> unat (zcur z s)"
    using z by (simp_all add: zones_ok_def)
  then have "0 < unat d" using iz lt by (auto simp: in_zone_def)
  then have d0: "d \<noteq> 0" by auto
  show thesis
  proof (cases "zcur z s = d")
    case True
    let ?s = "set_cur z e s"
    have bt: "unat (zbottom z s) \<le> unat d" "unat e \<le> unat (ztop z s)"
      using z iz True by (auto simp: zones_ok_def in_zone_def)
    then have ok: "zones_ok ?s" using z lt unfolding zones_ok_def by (auto dest: spec[of _ z])
    have "\<exists>z. in_zone ?s b z" if b: "b \<in> set bs" for b
    proof -
      have "b \<in> set ((unat d, unat e) # bs)" using b by simp
      then obtain z' where z': "in_zone s b z'" "fst b < snd b" by (rule holds_block[OF assms])
      have "sep (unat d, unat e) b" using assms b by (auto simp: holds_def)
      then have "unat e \<le> fst b" if "z' = z" using z' that True by (auto simp: sep_def in_zone_def)
      then have "in_zone ?s b z'" using z'(1) by (auto simp: in_zone_def)
      then show ?thesis by blast
    qed
    then have "holds ?s bs" using assms ok by (simp add: holds_def)
    then show thesis using Cur[of z] f d0 True iz by (simp add: zone_free_def)
  next
    case False
    then have "unat (zcur z s) < unat d" using iz by (auto simp: in_zone_def word_eq_iff_unat)
    then show thesis using Inner[of z] f False iz by (simp add: zone_free_def)
  qed
qed

lemma sorted_sep_iff:
  "sorted_wrt sep bs \<longleftrightarrow> (\<forall>i<length bs. \<forall>j<length bs. i \<noteq> j \<longrightarrow> sep (bs ! i) (bs ! j))"
  unfolding sorted_wrt_iff_nth_less
proof (safe, goal_cases)
  case (1 i j)
  then show ?case by (metis linorder_neqE_nat sep_sym)
qed auto

lemma sorted_sep_update:
  assumes "sorted_wrt sep bs" "j < length bs" "\<And>i. i < length bs \<Longrightarrow> i \<noteq> j \<Longrightarrow> sep b (bs ! i)"
  shows "sorted_wrt sep (bs[j := b])"
  using assms unfolding sorted_sep_iff by (auto simp: nth_list_update sep_sym)

text \<open>The loop that hands the space to the neighbour changes the end of one block.\<close>

lemma adopt_space_blocks:
  "blocks (adopt_space d e is) = blocks is \<or>
   (\<exists>j lo. j < length (blocks is) \<and> blocks is ! j = (lo, unat d)
      \<and> blocks (adopt_space d e is) = (blocks is)[j := (lo, unat e)])"
proof (induction "is")
  case (Cons i "is")
  show ?case
  proof (cases "p_olddata i = d \<or> p_oldallocdata i = d")
    case True
    then consider "p_olddata i = d" | "p_olddata i \<noteq> d" "p_oldallocdata i = d" by blast
    then show ?thesis
    proof cases
      case 1
      then show ?thesis
        by (intro disjI2 exI[of _ 0] exI[of _ "unat (p_data i)"]) (simp add: node_blocks_def)
    next
      case 2
      then show ?thesis
        by (intro disjI2 exI[of _ 1] exI[of _ "unat (p_info i)"]) (simp add: node_blocks_def)
    qed
  next
    case False
    from Cons.IH show ?thesis
    proof
      assume "\<exists>j lo. j < length (blocks is) \<and> blocks is ! j = (lo, unat d)
        \<and> blocks (adopt_space d e is) = (blocks is)[j := (lo, unat e)]"
      then obtain j lo where "j < length (blocks is)" "blocks is ! j = (lo, unat d)"
        "blocks (adopt_space d e is) = (blocks is)[j := (lo, unat e)]" by blast
      then show ?thesis using False
        by (intro disjI2 exI[of _ "Suc (Suc j)"] exI[of _ lo]) (simp add: node_blocks_def)
    qed (use False in simp)
  qed
qed simp

lemma holds_adopt:
  assumes h: "holds s ((unat d, unat e) # bs)" and z: "in_zone s (unat d, unat e) z" "unat (zcur z s) < unat d"
    and j: "j < length bs" "bs ! j = (lo, unat d)"
  shows "holds s (bs[j := (lo, unat e)])"
proof -
  have b: "lo < unat d" "\<exists>z. in_zone s (lo, unat d) z"
    using h j nth_mem[OF j(1)] by (auto simp: holds_def)
  then obtain z' where z': "in_zone s (lo, unat d) z'" by blast
  have ok: "zones_ok s" and lt: "unat d < unat e" using h by (auto simp: holds_def)
  have zb: "unat (zbottom z s) \<le> unat (zcur z s)" "unat (zbottom z' s) \<le> unat (zcur z' s)"
    using ok by (simp_all add: zones_ok_def)
  have "z' = z"
  proof (rule ccontr)
    assume "z' \<noteq> z"
    then have "sep (unat (zbottom z' s), unat (ztop z' s)) (unat (zbottom z s), unat (ztop z s))"
      using ok by (simp add: zones_ok_def)
    then show False using z z' b(1) lt zb by (auto simp: sep_def in_zone_def)
  qed
  then have "in_zone s (lo, unat e) z" using z z' by (simp add: in_zone_def)
  moreover have "sep (lo, unat e) (bs ! i)" if "i < length bs" "i \<noteq> j" for i
  proof -
    have "sep (unat d, unat e) (bs ! i)" "fst (bs ! i) < snd (bs ! i)" using h that(1) by (auto simp: holds_def)
    moreover have "sep (lo, unat d) (bs ! i)" using h that j by (auto simp: holds_def sorted_sep_iff)
    ultimately show ?thesis by (auto simp: sep_def)
  qed
  then have "sorted_wrt sep (bs[j := (lo, unat e)])"
    using h j(1) by (intro sorted_sep_update) (auto simp: holds_def)
  moreover have "\<forall>b\<in>set bs. fst b < snd b \<and> (\<exists>z. in_zone s b z)" using h by (simp add: holds_def)
  ultimately show ?thesis using ok b(1) lt set_update_subset_insert[of bs j "(lo, unat e)"]
    unfolding holds_def by fastforce
qed

lemma pmm_free_data_holds:
  assumes "holds s ((unat d, unat e) # pend @ blocks (PMMAllocs s))"
  shows "holds (pmm_free_data d e s) (pend @ blocks (PMMAllocs (pmm_free_data d e s)))"
  using assms
proof (cases rule: zone_free_cases)
  case (Cur z)
  then show ?thesis by (simp add: pmm_free_data_def)
next
  case (Inner z)
  let ?l = "adopt_space d e (PMMAllocs s)"
  have eq: "pmm_free_data d e s = s\<lparr>PMMAllocs := ?l\<rparr>" using Inner(1) by (simp add: pmm_free_data_def)
  have "holds s (pend @ blocks ?l)" using adopt_space_blocks[of d e "PMMAllocs s"]
  proof (elim disjE exE conjE)
    fix j lo
    assume a: "j < length (blocks (PMMAllocs s))" "blocks (PMMAllocs s) ! j = (lo, unat d)"
      "blocks ?l = (blocks (PMMAllocs s))[j := (lo, unat e)]"
    from holds_adopt[OF assms Inner(3,2), of "length pend + j" lo] a show ?thesis
      by (simp add: list_update_append)
  qed (use assms in \<open>simp add: holds_def\<close>)
  then show ?thesis by (simp add: eq)
qed

section \<open>Growing the low zone\<close>

text \<open>What a request for low memory must satisfy for the arithmetic of \<open>zonelow_expand\<close> not to wrap.\<close>

definition low_ok :: "u32 \<Rightarrow> nat \<Rightarrow> bool" where
  "low_ok sz k \<longleftrightarrow> unat sz \<le> 0x40000 \<and> k \<le> 16"

lemma unat_ebda_bytes: "unat (ebda_bytes e) = 1024 * unat e"
proof -
  have e: "unat e < 256" using unat_lt_2p[of e] by simp
  then have "unat (ucast e :: u32) = unat e" by (intro unat_ucast_fits) simp
  then show ?thesis using e unfolding ebda_bytes_def by (subst unat_mult_nowrap) auto
qed

lemma relocate_pos:
  assumes "unat newebda < 2 ^ 20" "16 dvd unat newebda" "ebda_seg t = FLATPTR_TO_SEG newebda"
  shows "ebda_pos t = newebda"
proof -
  obtain q where q: "unat newebda = 16 * q" using assms(2) by (elim dvdE)
  then have q16: "q < 2 ^ 16" using assms(1) by simp
  then have "unat (ebda_pos t) = unat newebda"
    by (simp add: ebda_pos_def assms(3) FLATPTR_TO_SEG_def unat_push_bit_mod unat_ucast_mod unat_drop_bit_div q)
  then show ?thesis by (simp add: word_eq_iff_unat)
qed

text \<open>
  The first byte of the EBDA arrives in both builds. In the 16-bit build a size of 64K would count as 0, but an EBDA of
  that size cannot be moved inside the last 64K.
\<close>

lemma relocate_size:
  assumes "unat ne + 1024 * unat e \<le> 0xa0000" "unat old + 1024 * unat e \<le> 0xa0000" "0x90000 \<le> unat ne" "0x90000 \<le> unat old" "0 < unat e"
  shows "copy_ebda ne old e s ne = ram s old"
proof (cases "mode16 s")
  case True
  have flat: "far_addr (FLATPTR_TO_SEG p) (FLATPTR_TO_OFFSET p) = p" if "unat p < 0xa0000" for p
    using far_addr_flat[of p 1 0] that by simp
  define n where "n = unat (ucast (ebda_bytes e) :: u16)"
  have n: "n = 1024 * unat e mod 65536" by (simp add: n_def unat_ucast_mod unat_ebda_bytes)
  show ?thesis
  proof (cases n)
    case 0
    then obtain c where c: "1024 * unat e = 65536 * c" using n by (metis mod_0_imp_dvd dvdE)
    have "1024 * unat e \<le> 65536" using assms by linarith
    then have "unat e = 64" using c assms(5) by (cases "c = 0") auto
    then have "ne = old" using assms by (simp add: word_eq_iff_unat)
    then show ?thesis using True 0 by (simp add: copy_ebda_def n_def[symmetric])
  next
    case (Suc k)
    have "1024 * unat e mod 65536 < 65536" by simp
    then have k: "k < 65535" using n Suc by linarith
    let ?D = "FLATPTR_TO_SEG ne" and ?d = "FLATPTR_TO_OFFSET ne" and ?S = "FLATPTR_TO_SEG old" and ?s = "FLATPTR_TO_OFFSET old"
    have "far_addr ?D ?d \<noteq> far_addr ?D (?d + 1 + of_nat i)" if "i < k" for i
    proof -
      have "unat (of_nat (Suc i) :: u16) = Suc i" using that k by (simp only: unat_of_nat) simp
      then have "(of_nat (Suc i) :: u16) \<noteq> 0" by (metis nat.distinct(2) unat_0)
      then show ?thesis by (simp add: add.assoc)
    qed
    then have "memcpy_far (ram s) ?D ?d ?S ?s (Suc k) (far_addr ?D ?d) = ram s (far_addr ?S ?s)" by (simp add: memcpy_far_frame)
    then show ?thesis using True Suc flat[of ne] flat[of old] assms by (simp add: copy_ebda_def n_def[symmetric])
  qed
next
  case False
  then show ?thesis using assms by (subst copy_ebda_def, subst memmove_copied) (auto simp: copied_def unat_ebda_bytes)
qed

text \<open>The numbers that \<open>zonelow_move\<close> computes from the position \<open>oldpos\<close>.\<close>

lemma move_arith:
  fixes oldpos :: u32 and e :: u8
  assumes "low_ok sz k" "0x90000 \<le> unat oldpos"
  defines "nb \<equiv> ALIGN_DOWN (ALIGN_DOWN (oldpos - sz) (2 ^ k)) 1024"
  defines "ne \<equiv> ALIGN_DOWN (nb - ebda_bytes e) 1024"
  shows "unat nb \<le> unat oldpos" "unat ne + 1024 * unat e = unat nb" "16 dvd unat ne"
proof -
  let ?np = "ALIGN_DOWN (oldpos - sz) (2 ^ k)"
  have s: "unat sz \<le> 0x40000" "k \<le> 16" using assms(1) by (simp_all add: low_ok_def)
  have d: "unat (oldpos - sz) = unat oldpos - unat sz"
    using s(1) assms(2) by (intro unat_diff_nowrap) (simp add: word_le_nat_alt)
  have "2 ^ k dvd (2 ^ 16 :: nat)" using s(2) by (rule le_imp_power_dvd)
  then have "2 ^ k dvd (0x50000 :: nat)" by (rule dvd_trans) simp
  then have np: "0x50000 \<le> unat ?np" by (rule ALIGN_DOWN_bound) (use d s(1) assms(2) in simp)
  have k10: "ALIGN_DOWN x 1024 = ALIGN_DOWN x (2 ^ 10)" for x :: u32 by simp
  have nb: "0x50000 \<le> unat nb" "1024 dvd unat nb" "unat nb \<le> unat ?np"
  proof -
    show "0x50000 \<le> unat nb" unfolding nb_def k10 by (rule ALIGN_DOWN_bound[OF _ np]) simp
    show "1024 dvd unat nb" unfolding nb_def k10 using ALIGN_DOWN_dvd[of 10 ?np] by simp
    show "unat nb \<le> unat ?np" unfolding nb_def k10 by (rule unat_ALIGN_DOWN_le)
  qed
  show "unat nb \<le> unat oldpos" using nb(3) unat_ALIGN_DOWN_le[of "oldpos - sz" k] d by simp
  have e: "unat e < 256" using unat_lt_2p[of e] by simp
  then have db: "unat (nb - ebda_bytes e) = unat nb - 1024 * unat e"
    using nb(1) by (subst unat_diff_nowrap) (simp_all add: word_le_nat_alt unat_ebda_bytes)
  have dv: "1024 dvd unat nb - 1024 * unat e" using nb(2) by (simp add: dvd_diff_nat)
  then have "(unat nb - 1024 * unat e) mod 1024 = 0" by presburger
  then have ne: "unat ne = unat nb - 1024 * unat e"
    unfolding ne_def k10 unat_ALIGN_DOWN db by simp
  then show "unat ne + 1024 * unat e = unat nb" using nb(1) e by simp
  show "16 dvd unat ne" unfolding ne using dv by (rule dvd_trans[rotated]) simp
qed

lemma zonelow_move_allocs [simp]: "PMMAllocs (zonelow_move sz a s) = PMMAllocs s"
  by (simp add: zonelow_move_def relocate_ebda_def Let_def)

lemma zonelow_move_holds:
  assumes h: "holds s bs" and l: "low_ok sz k"
  shows "holds (zonelow_move sz (2 ^ k) s) bs"
proof -
  define e where "e = ebda_size s"
  define ee where "ee = ebda_pos s + ebda_bytes e"
  define old where "old = (if ee \<noteq> zbottom ZoneLow s then ee else zcur ZoneLow s)"
  define nb where "nb = ALIGN_DOWN (ALIGN_DOWN (old - sz) (2 ^ k)) 1024"
  define ne where "ne = ALIGN_DOWN (nb - ebda_bytes e) 1024"
  define t where "t = set_bottom ZoneLow nb (set_cur ZoneLow old (snd (relocate_ebda ne (ebda_pos s) e s)))"
  note defs = e_def ee_def old_def nb_def ne_def t_def
  have z: "zones_ok s" using h by (simp add: holds_def)
  have low: "unat (zbottom ZoneLow s) \<le> unat (zcur ZoneLow s)" "unat (zcur ZoneLow s) \<le> unat (ztop ZoneLow s)"
    "0x90000 \<le> unat (zbottom ZoneLow s)" "unat (ztop ZoneLow s) \<le> 0xa0000"
    "0x90000 \<le> unat (ebda_pos s)" "0 < unat e" "unat (ebda_pos s) + 1024 * unat e \<le> unat (zbottom ZoneLow s)"
    using z by (simp_all add: zones_ok_def e_def)
  have ee: "unat ee = unat (ebda_pos s) + 1024 * unat e"
    unfolding ee_def using low by (subst unat_add_nowrap) (simp_all add: unat_ebda_bytes)
  have old: "0x90000 \<le> unat old" "unat old \<le> unat (zcur ZoneLow s)"
    using low ee by (auto simp: old_def)
  note ar = move_arith(1)[OF l old(1), folded nb_def]
    move_arith(2,3)[OF l old(1), where e = e, folded nb_def, folded ne_def]
  show ?thesis
  proof (cases "ne < BUILD_EBDA_MINIMUM \<or> ebda_pos s \<noteq> ucast (mem_size_kb s) * 1024")
    case True
    then have "zonelow_move sz (2 ^ k) s = s"
      by (auto simp: zonelow_move_def relocate_ebda_def Let_def defs)
    then show ?thesis using h by simp
  next
    case False
    then have "zonelow_move sz (2 ^ k) s = t"
      by (auto simp: zonelow_move_def relocate_ebda_def Let_def defs)
    moreover have ne: "0x90000 \<le> unat ne" using False by (auto simp: word_less_nat_alt pmm_consts)
    have r: "zcur x t = (if x = ZoneLow then old else zcur x s)" "ztop x t = ztop x s"
      "zbottom x t = (if x = ZoneLow then nb else zbottom x s)" for x
      by (simp_all add: t_def relocate_ebda_def Let_def zcur_def ztop_def zbottom_def set_cur_def set_bottom_def)
    have pos: "ebda_pos t = ne" using False ar old low
      by (intro relocate_pos) (simp_all add: t_def relocate_ebda_def Let_def set_cur_def set_bottom_def)
    have "ram t = copy_ebda ne (ebda_pos s) e s"
      using False by (simp add: t_def relocate_ebda_def Let_def set_cur_def set_bottom_def)
    then have size: "ebda_size t = e"
      using relocate_size[of ne e "ebda_pos s" s] ar ne old low pos by (simp add: ebda_size_def e_def)
    have nbl: "0x90000 \<le> unat nb" "unat nb \<le> unat old" "unat old \<le> unat (ztop ZoneLow s)"
      using ar ne old low by simp_all
    have zs: "unat (zbottom x s) \<le> unat (zcur x s)" "unat (zcur x s) \<le> unat (ztop x s)"
      "unat (zbottom x s) = 0 \<Longrightarrow> unat (ztop x s) = 0" for x using z by (simp_all add: zones_ok_def)
    have out: "unat (ztop x s) \<le> 0x90000 \<or> 0xa0000 \<le> unat (zbottom x s)" if "x \<noteq> ZoneLow" for x
      using z that by (simp add: zones_ok_def)
    have sp: "sep (unat (zbottom x t), unat (ztop x t)) (unat (zbottom x' t), unat (ztop x' t))"
      if "x \<noteq> x'" for x x'
    proof -
      consider "x = ZoneLow" | "x' = ZoneLow" | "x \<noteq> ZoneLow" "x' \<noteq> ZoneLow" by blast
      then show ?thesis
      proof cases
        case 1
        then show ?thesis using out[of x'] that nbl low(4) unfolding r sep_def by auto
      next
        case 2
        then show ?thesis using out[of x] that nbl low(4) unfolding r sep_def by auto
      next
        case 3
        then show ?thesis using z that unfolding r by (simp add: zones_ok_def)
      qed
    qed
    have "zones_ok t" unfolding zones_ok_def pos size
      using sp zs out nbl ar ne low by (intro conjI allI impI) (auto simp: r split: if_splits)
    moreover have "in_zone t b x" if "in_zone s b x" for b x
      using that old by (auto simp: in_zone_def r)
    ultimately show ?thesis using h unfolding holds_def by metis
  qed
qed

lemma zonelow_expand_holds:
  "holds s bs \<Longrightarrow> low_ok sz k \<Longrightarrow> holds (zonelow_expand sz (2 ^ k) s) bs"
  by (simp add: zonelow_expand_def zonelow_move_holds)

section \<open>Allocation and release\<close>

lemma req_ok_info: "req_ok sizeof_pmmalloc 4"
  by (simp add: req_ok_def pmm_consts)

lemma min_align: "MALLOC_MIN_ALIGN = 2 ^ 4"
  by (simp add: pmm_consts)

lemma pmm_info_cases:
  assumes h: "holds s bs"
  obtains (None) old where "pmm_info s = (0, old, s)"
  | (Some) z p where "pmm_info s = (p, zcur z s, set_cur z p s)" "p \<noteq> 0" "z = ZoneTmpHigh \<or> z = ZoneTmpLow"
      "holds (set_cur z p s) ((unat p, unat (zcur z s)) # bs)"
proof -
  have z: "zones_ok s" and pos: "0 < unat sizeof_pmmalloc" using h by (simp_all add: holds_def pmm_consts)
  have cut: "holds (set_cur z p s) ((unat p, unat (zcur z s)) # bs)"
    if "unat (zbottom z s) \<le> unat p" "unat p + unat sizeof_pmmalloc \<le> unat (zcur z s)" for z p
    using that pos by (intro holds_cut[OF h]) auto
  from z req_ok_info show thesis
  proof (cases rule: zone_malloc_cases[where z = ZoneTmpHigh])
    case none: None
    from z req_ok_info show thesis
    proof (cases rule: zone_malloc_cases[where z = ZoneTmpLow])
      case None
      then show thesis using none that(1) by (simp add: pmm_info_def min_align)
    next
      case (Some p)
      then show thesis using none that(2)[of p ZoneTmpLow] cut by (simp add: pmm_info_def min_align)
    qed
  next
    case (Some p)
    then show thesis using that(2)[of p ZoneTmpHigh] cut by (simp add: pmm_info_def min_align)
  qed
qed

lemma zone_free_top:
  assumes "holds s ((unat d, unat e) # bs)" "in_zone s (unat d, unat e) z" "zcur z s = d"
  shows "zone_free d e s = (0, set_cur z e s)"
proof -
  have z: "zones_ok s" and lt: "unat d < unat e" using assms(1) by (auto simp: holds_def)
  have "unat (zbottom z s) = 0 \<longrightarrow> unat (ztop z s) = 0" "unat (zbottom z s) \<le> unat (zcur z s)"
    using z by (simp_all add: zones_ok_def)
  then have "d \<noteq> 0" using assms(2,3) lt by (auto simp: in_zone_def)
  then show ?thesis using zone_find_in[OF z assms(2) lt] assms(3) by (simp add: zone_free_def)
qed

lemma in_zone_cut: "zones_ok s \<Longrightarrow> in_zone (set_cur z p s) (unat p, unat (zcur z s)) z"
  by (simp add: in_zone_def zones_ok_def)

text \<open>
  The state after the node has been cut from its zone and the low zone has been grown, and the
  two outcomes of the allocation from there.
\<close>

lemma pmm_malloc_cases:
  assumes inv: "pmm_inv s" and req: "req_ok sz k" and low: "z = ZoneLow \<longrightarrow> low_ok sz k"
  obtains (None) s' where "pmm_malloc z handle sz (2 ^ k) s = (0, s')" "pmm_inv s'" "PMMAllocs s' = PMMAllocs s"
  | (Some) zi i t where
      "pmm_malloc z handle sz (2 ^ k) s =
         (p_data i, (set_cur z (p_data i) t)\<lparr>PMMAllocs := i # PMMAllocs s\<rparr>)"
      "t = (if z = ZoneLow then zonelow_expand sz (2 ^ k) (set_cur zi (p_info i) s) else set_cur zi (p_info i) s)"
      "zi = ZoneTmpHigh \<or> zi = ZoneTmpLow" "p_oldallocdata i = zcur zi s" "p_olddata i = zcur z t"
      "p_handle i = handle" "p_data i \<noteq> 0" "2 ^ k dvd unat (p_data i)"
      "unat (zbottom z t) \<le> unat (p_data i)" "unat (p_data i) + unat sz \<le> unat (zcur z t)"
      "holds t ((unat (p_info i), unat (zcur zi s)) # blocks (PMMAllocs s))"
      "PMMAllocs t = PMMAllocs s"
      "holds (set_cur z (p_data i) t) (blocks (i # PMMAllocs s))"
proof -
  have h: "holds s (blocks (PMMAllocs s))" using inv by (simp add: pmm_inv_def)
  then show thesis
  proof (cases rule: pmm_info_cases)
    case (None old)
    then show thesis using that(1)[of s] inv by (simp add: pmm_malloc_def)
  next
    case (Some zi p)
    let ?s1 = "set_cur zi p s"
    define t where "t = (if z = ZoneLow then zonelow_expand sz (2 ^ k) ?s1 else ?s1)"
    have t: "holds t ((unat p, unat (zcur zi s)) # blocks (PMMAllocs s))"
      using Some(4) low by (simp add: t_def zonelow_expand_holds)
    have zi: "zi \<noteq> ZoneLow" using Some(3) by auto
    have zc: "zcur x t = zcur x ?s1" "ztop x t = ztop x ?s1" if "x \<noteq> ZoneLow" for x
      using that by (auto simp: t_def zonelow_expand_def zonelow_move_def relocate_ebda_def Let_def
          zcur_def ztop_def set_cur_def set_bottom_def)
    have at: "PMMAllocs t = PMMAllocs s" by (simp add: t_def zonelow_expand_def)
    have zt: "zones_ok t" using t by (rule holds_zone)
    from zt req show thesis
    proof (cases rule: zone_malloc_cases[where z = z])
      case None
      have "zones_ok s" using h by (rule holds_zone)
      then have "in_zone t (unat p, unat (zcur zi s)) zi" "zcur zi t = p"
        using zc[OF zi] by (simp_all add: in_zone_def zones_ok_def)
      from zone_free_top[OF t this] have f: "zone_free p (zcur zi s) t = (0, set_cur zi (zcur zi s) t)" .
      from t have "holds (set_cur zi (zcur zi s) t) (blocks (PMMAllocs s))"
        by (cases rule: zone_free_cases) (use f in auto)
      moreover have "pmm_malloc z handle sz (2 ^ k) s = (0, set_cur zi (zcur zi s) t)"
        using Some(1,2) None f by (simp add: pmm_malloc_def t_def[symmetric])
      ultimately show thesis using that(1) at by (simp add: pmm_inv_def)
    next
      case (Some q)
      define i where "i = \<lparr>p_info = p, p_data = q, p_olddata = zcur z t, p_handle = handle, p_oldallocdata = zcur zi s\<rparr>"
      have "0 < unat sz" using req by (simp add: req_ok_def)
      then have "holds (set_cur z q t) ((unat q, unat (zcur z t)) # (unat p, unat (zcur zi s)) # blocks (PMMAllocs s))"
        using Some by (intro holds_cut[OF t]) auto
      moreover have "pmm_malloc z handle sz (2 ^ k) s = (q, (set_cur z q t)\<lparr>PMMAllocs := i # PMMAllocs s\<rparr>)"
        using \<open>pmm_info s = _\<close> \<open>p \<noteq> 0\<close> Some at by (simp add: pmm_malloc_def t_def[symmetric] i_def)
      ultimately show thesis
        using that(2)[of i t zi] Some t at \<open>zi = _ \<or> _\<close>
        by (simp add: i_def t_def node_blocks_def)
    qed
  qed
qed

text \<open>
  The state of the allocator after start-up on a machine with 128M: the zones as \<open>malloc_setup\<close>
  lays them out, and an EBDA of one kilobyte at the end of conventional memory.
\<close>

definition ex_pmm :: pmm where
  "ex_pmm = \<lparr>zones = (\<lambda>z. case z of ZoneTmpLow \<Rightarrow> mk_zone 0x7000 0x90000 | ZoneLow \<Rightarrow> mk_zone 0xa0000 0xa0000
      | ZoneFSeg \<Rightarrow> mk_zone 0xfd000 0xff000 | ZoneTmpHigh \<Rightarrow> mk_zone 0x100000 0x7ff0000
      | ZoneHigh \<Rightarrow> mk_zone 0x7ff0000 0x8000000),
     PMMAllocs = [], mem_size_kb = 639, ebda_seg = 0x9fc0, ram = (\<lambda>x. if x = 0x9fc00 then 1 else 0), mode16 = False,
     e820_list = ex_map\<rparr>"

lemma ex_pmm_cur: "zcur z ex_pmm = ztop z ex_pmm"
  by (cases z) (simp_all add: ex_pmm_def zcur_def ztop_def mk_zone_def)

lemma ex_pmm_fields:
  "PMMAllocs ex_pmm = []" "ebda_pos ex_pmm = 0x9fc00" "ebda_size ex_pmm = 1"
  "mem_size_kb ex_pmm = 639"
  "zbottom ZoneTmpLow ex_pmm = 0x7000" "ztop ZoneTmpLow ex_pmm = 0x90000"
  "zbottom ZoneLow ex_pmm = 0xa0000" "ztop ZoneLow ex_pmm = 0xa0000"
  "zbottom ZoneFSeg ex_pmm = 0xfd000" "ztop ZoneFSeg ex_pmm = 0xff000"
  "zbottom ZoneTmpHigh ex_pmm = 0x100000" "ztop ZoneTmpHigh ex_pmm = 0x7ff0000"
  "zbottom ZoneHigh ex_pmm = 0x7ff0000" "ztop ZoneHigh ex_pmm = 0x8000000"
  by (simp_all add: ex_pmm_def ztop_def zbottom_def mk_zone_def ebda_pos_def ebda_size_def)

lemmas ex_pmm_zones = ex_pmm_cur ex_pmm_fields

lemma ex_pmm_inv: "pmm_inv ex_pmm"
proof -
  have "zones_ok ex_pmm" unfolding zones_ok_def
  proof (intro conjI allI impI, goal_cases)
    case (4 x x')
    then show ?case by (cases x; cases x') (simp_all add: ex_pmm_zones sep_def)
  next
    case (1 x)
    show ?case by (cases x) (simp_all add: ex_pmm_zones)
  next
    case (3 x)
    then show ?case by (cases x) (simp_all add: ex_pmm_zones)
  next
    case (5 x)
    then show ?case by (cases x) (simp_all add: ex_pmm_zones)
  qed (simp_all add: ex_pmm_zones)
  then show ?thesis by (simp add: pmm_inv_def holds_def ex_pmm_zones)
qed

lemma ex_malloc:
  "fst (pmm_malloc ZoneHigh 7 0x100 (2 ^ 4) ex_pmm) = 0x7ffff00"
  by (simp add: pmm_malloc_def pmm_info_def zone_malloc_def ex_pmm_zones ALIGN_DOWN_def pmm_consts)

text \<open>
  C12. \<open>pmm_malloc\<close> keeps the invariant of the allocator. When it succeeds, the block lies inside
  the zone, is aligned, overlaps no block handed out before nor any node of the list, and is
  recorded at the head of the list; when it fails, the list is unchanged. This holds for every
  zone, with requests for low memory limited to 256K.
\<close>

theorem pmm_malloc_safe:
  assumes "pmm_inv s" "req_ok sz k" "z = ZoneLow \<longrightarrow> low_ok sz k"
  shows "case pmm_malloc z handle sz (2 ^ k) s of (p, s') \<Rightarrow> pmm_inv s'
    \<and> (if p = 0 then PMMAllocs s' = PMMAllocs s
       else (\<exists>i. PMMAllocs s' = i # PMMAllocs s \<and> p_data i = p \<and> p_handle i = handle)
         \<and> 2 ^ k dvd unat p \<and> unat (zbottom z s') \<le> unat p \<and> unat p + unat sz \<le> unat (ztop z s')
         \<and> (\<forall>b\<in>set (blocks (PMMAllocs s)). sep (unat p, unat p + unat sz) b))"
proof -
  have low: "z = ZoneLow \<longrightarrow> low_ok sz k" using assms(3) by simp
  from assms(1,2) low show ?thesis
  proof (cases rule: pmm_malloc_cases[where handle = handle])
    case (None s')
    then show ?thesis by simp
  next
    case (Some zi i t)
    have "zones_ok t" using Some(11) by (rule holds_zone)
    then have "unat (zcur z t) \<le> unat (ztop z t)" by (simp add: zones_ok_def)
    moreover have "sep (unat (p_data i), unat (p_data i) + unat sz) b" if "b \<in> set (blocks (PMMAllocs s))" for b
      using Some(13,5,10) that by (auto simp: holds_def node_blocks_def sep_def)
    ultimately show ?thesis using Some by (simp add: pmm_inv_def)
  qed
qed

theorem pmm_malloc_safe_witness:
  "pmm_inv (snd (pmm_malloc ZoneHigh 7 0x100 (2 ^ 4) ex_pmm))
   \<and> map p_data (PMMAllocs (snd (pmm_malloc ZoneHigh 7 0x100 (2 ^ 4) ex_pmm))) = [0x7ffff00]"
  using pmm_malloc_safe[OF ex_pmm_inv, of "0x100" 4 ZoneHigh 7] ex_malloc
  by (auto simp: req_ok_def ex_pmm_zones split: prod.splits)

lemma unlink_Some:
  "unlink d is = Some (i, rest) \<Longrightarrow> \<exists>xs ys. is = xs @ i # ys \<and> rest = xs @ ys \<and> p_data i = d"
proof (induction "is" arbitrary: rest)
  case (Cons j js)
  show ?case
  proof (cases "p_data j = d")
    case True
    then show ?thesis using Cons.prems by (intro exI[of _ "[]"] exI[of _ js]) auto
  next
    case False
    then obtain r where r: "unlink d js = Some (i, r)" "rest = j # r" using Cons.prems by auto
    then obtain xs ys where "js = xs @ i # ys" "r = xs @ ys" "p_data i = d" using Cons.IH by blast
    then show ?thesis using r(2) by (intro exI[of _ "j # xs"] exI[of _ ys]) auto
  qed
qed simp

lemma unlink_None: "unlink d is = None \<longleftrightarrow> d \<notin> p_data ` set is"
  by (induction "is") auto

lemma adopt_space_ids [simp]:
  "map (\<lambda>i. (p_data i, p_handle i)) (adopt_space d e is) = map (\<lambda>i. (p_data i, p_handle i)) is"
  by (induction "is") auto

lemma pmm_free_data_ids:
  "map (\<lambda>i. (p_data i, p_handle i)) (PMMAllocs (pmm_free_data d e s)) = map (\<lambda>i. (p_data i, p_handle i)) (PMMAllocs s)"
  by (simp add: pmm_free_data_def zone_free_def split: option.split)

lemma holds_permute:
  assumes "holds s (xs @ b # c # ys)"
  shows "holds s (b # c # xs @ ys)"
proof -
  have "sorted_wrt sep (b # c # xs @ ys)"
    using assms unfolding holds_def by (auto simp: sorted_wrt_append intro: sep_sym[THEN iffD1])
  then show ?thesis using assms by (simp add: holds_def)
qed

lemma pmm_free_spec:
  assumes "pmm_inv s"
  shows "case pmm_free d s of (ret, s') \<Rightarrow> pmm_inv s'
    \<and> (if d \<notin> p_data ` set (PMMAllocs s) then ret = - 1 \<and> s' = s
       else ret = 0 \<and> (\<exists>xs i ys. PMMAllocs s = xs @ i # ys \<and> p_data i = d \<and>
         map (\<lambda>i. (p_data i, p_handle i)) (PMMAllocs s') = map (\<lambda>i. (p_data i, p_handle i)) (xs @ ys)))"
proof (cases "unlink d (PMMAllocs s)")
  case None
  then show ?thesis using assms unlink_None[of d "PMMAllocs s"] by (simp add: pmm_free_def)
next
  case (Some a)
  obtain i rest where a: "a = (i, rest)" by (cases a)
  with Some obtain xs ys where l: "PMMAllocs s = xs @ i # ys" "rest = xs @ ys" "p_data i = d"
    using unlink_Some by blast
  let ?s1 = "s\<lparr>PMMAllocs := rest\<rparr>"
  let ?s2 = "pmm_free_data d (p_olddata i) ?s1"
  let ?s3 = "pmm_free_data (p_info i) (p_oldallocdata i) ?s2"
  have "holds s (blocks xs @ (unat d, unat (p_olddata i)) # (unat (p_info i), unat (p_oldallocdata i)) # blocks ys)"
    using assms l by (simp add: pmm_inv_def node_blocks_def)
  then have "holds ?s1 ((unat d, unat (p_olddata i)) # [(unat (p_info i), unat (p_oldallocdata i))] @ blocks (PMMAllocs ?s1))"
    using holds_permute l(2) by simp
  then have "holds ?s2 ((unat (p_info i), unat (p_oldallocdata i)) # [] @ blocks (PMMAllocs ?s2))"
    using pmm_free_data_holds by fastforce
  then have "pmm_inv ?s3" using pmm_free_data_holds unfolding pmm_inv_def by fastforce
  moreover have "pmm_free d s = (0, ?s3)" using Some a by (simp add: pmm_free_def)
  moreover have "d \<in> p_data ` set (PMMAllocs s)" using l by auto
  ultimately show ?thesis using l by (auto simp: pmm_free_data_ids)
qed

text \<open>
  \<open>pmm_free\<close> keeps the invariant, whatever the order in which blocks are released. It fails
  exactly for an address that is not tracked, and then changes nothing; otherwise exactly that
  entry leaves the list and every other allocation keeps its address and its handle.
\<close>

theorem pmm_free_safe:
  assumes "pmm_inv s"
  shows "case pmm_free d s of (ret, s') \<Rightarrow> pmm_inv s'
    \<and> (if d \<notin> p_data ` set (PMMAllocs s) then ret = - 1 \<and> s' = s
       else ret = 0 \<and> (\<exists>xs i ys. PMMAllocs s = xs @ i # ys \<and> p_data i = d \<and>
         map (\<lambda>i. (p_data i, p_handle i)) (PMMAllocs s') = map (\<lambda>i. (p_data i, p_handle i)) (xs @ ys)))"
  by (rule pmm_free_spec[OF assms])

theorem pmm_free_safe_witness: "fst (pmm_free 0x1234 ex_pmm) = - 1 \<and> pmm_inv (snd (pmm_free 0x1234 ex_pmm))"
  using pmm_free_safe[OF ex_pmm_inv, of "0x1234"] by (auto simp: ex_pmm_zones split: prod.splits)

text \<open>
  Releasing the block just allocated undoes the allocation: outside the low zone, \<open>pmm_free\<close>
  after a successful \<open>pmm_malloc\<close> gives back the state from before it, zones and list included.
\<close>

theorem pmm_malloc_free_roundtrip:
  assumes "pmm_inv s" "req_ok sz k" "z \<noteq> ZoneLow" "pmm_malloc z handle sz (2 ^ k) s = (p, s')" "p \<noteq> 0"
  shows "pmm_free p s' = (0, s)"
proof -
  have low: "z = ZoneLow \<longrightarrow> low_ok sz k" using assms(3) by simp
  from assms(1,2) low show ?thesis
  proof (cases rule: pmm_malloc_cases[where handle = handle])
    case (None s')
    then show ?thesis using assms(4,5) by simp
  next
    case (Some zi i t)
    have p: "p = p_data i" and s': "s' = (set_cur z p t)\<lparr>PMMAllocs := i # PMMAllocs s\<rparr>"
      using Some(1) assms(4) by simp_all
    have t: "t = set_cur zi (p_info i) s" using Some(2) assms(3) by simp
    let ?u = "(set_cur z p t)\<lparr>PMMAllocs := PMMAllocs s\<rparr>"
    have zt: "zones_ok t" and zs: "zones_ok s" using Some(11) assms(1) by (auto simp: pmm_inv_def dest: holds_zone)
    have h: "holds ?u ((unat p, unat (p_olddata i)) # (unat (p_info i), unat (p_oldallocdata i)) # blocks (PMMAllocs s))"
      using Some(13) p by (simp add: node_blocks_def)
    have f1: "zone_free p (p_olddata i) ?u = (0, set_cur z (p_olddata i) ?u)"
      using in_zone_cut[OF zt, of z p] Some(5) by (intro zone_free_top[OF h]) (simp_all add: in_zone_def)
    have "?u = set_cur z p t" unfolding Some(12)[symmetric] by (rule set_cur_again(3))
    then have undo: "set_cur z (p_olddata i) ?u = t" using Some(5) by simp
    have h2: "holds t ((unat (p_info i), unat (p_oldallocdata i)) # blocks (PMMAllocs s))"
      using Some(11,4) by simp
    have f2: "zone_free (p_info i) (p_oldallocdata i) t = (0, set_cur zi (p_oldallocdata i) t)"
      using in_zone_cut[OF zs, of zi "p_info i"] Some(4) by (intro zone_free_top[OF h2]) (simp_all add: t)
    have "set_cur zi (p_oldallocdata i) t = s" using Some(4) by (simp add: t set_cur_def zcur_def)
    then show ?thesis using f1 f2 undo p by (simp add: s' pmm_free_def pmm_free_data_def)
  qed
qed

theorem pmm_malloc_free_roundtrip_witness:
  "pmm_free 0x7ffff00 (snd (pmm_malloc ZoneHigh 7 0x100 (2 ^ 4) ex_pmm)) = (0, ex_pmm)"
proof (rule pmm_malloc_free_roundtrip[OF ex_pmm_inv])
  show "req_ok 0x100 4" by (simp add: req_ok_def)
  show "ZoneHigh \<noteq> ZoneLow" by simp
  show "pmm_malloc ZoneHigh 7 0x100 (2 ^ 4) ex_pmm = (0x7ffff00, snd (pmm_malloc ZoneHigh 7 0x100 (2 ^ 4) ex_pmm))"
    by (rule prod_eqI) (simp_all only: fst_conv snd_conv ex_malloc)
  show "(0x7ffff00 :: u32) \<noteq> 0" by simp
qed

section \<open>Start\<close>

lemma unat_ALIGN_16:
  assumes "unat (x::u32) + 15 < 2 ^ 32"
  shows "unat x \<le> unat (ALIGN x 16)" "unat (ALIGN x 16) \<le> unat x + 15" "16 dvd unat x \<Longrightarrow> ALIGN x 16 = x"
proof -
  have u: "unat (x + 15) = unat x + 15" using assms by (subst unat_add_nowrap) simp_all
  have a: "ALIGN x 16 = ALIGN_DOWN (x + 15) (2 ^ 4)" by (simp add: ALIGN_eq_ALIGN_DOWN)
  show le: "unat x \<le> unat (ALIGN x 16)" using unat_ALIGN_DOWN_gt[of "x + 15" 4] unfolding a u by simp
  show ge: "unat (ALIGN x 16) \<le> unat x + 15" using unat_ALIGN_DOWN_le[of "x + 15" 4] unfolding a u by simp
  show "ALIGN x 16 = x" if "16 dvd unat x"
  proof -
    have "16 dvd unat (ALIGN x 16)" using ALIGN_DOWN_dvd[of 4 "x + 15"] unfolding a by simp
    then obtain p where p: "unat (ALIGN x 16) = 16 * p" by (elim dvdE)
    obtain q where q: "unat x = 16 * q" using \<open>16 dvd unat x\<close> by (elim dvdE)
    show ?thesis using le ge unfolding word_eq_iff_unat p q by simp
  qed
qed

text \<open>What the rest of the start-up code has prepared when \<open>malloc_setup\<close> is called.\<close>

definition setup_ok :: "u32 \<Rightarrow> u32 \<Rightarrow> pmm \<Rightarrow> bool" where
  "setup_ok code32flat tables s \<longleftrightarrow>
     e820_wf (e820_list s) \<and> type_at (e820_list s) 0xfffff \<noteq> Some E820_RAM
     \<and> (\<forall>e\<in>set (e820_list s). 16 dvd unat (e_end e))
     \<and> unat code32flat \<le> 0x100000 \<and> 0xa0000 \<le> unat tables \<and> unat tables + 0x2000 \<le> 0x100000
     \<and> 0x90000 \<le> unat (ebda_pos s) \<and> 0 < unat (ebda_size s)
     \<and> unat (ebda_pos s) + 1024 * unat (ebda_size s) \<le> 0xa0000"

lemma memset_other:
  assumes "unat s + n \<le> 2 ^ 32" "unat x < unat s"
  shows "memset m s c n x = m x"
  unfolding memset_def using assms(1)
proof (induction n arbitrary: m)
  case (Suc n)
  have "unat (s + of_nat n) = unat s + n" using Suc.prems by (subst unat_add_nowrap) (simp_all add: unat_of_nat_32)
  then have "x \<noteq> s + of_nat n" using assms(2) by auto
  then show ?case using Suc by simp
qed simp

lemma setup_ram:
  assumes "setup_ok c tb s" "unat x < 0xa0000"
  shows "ram (malloc_setup c tb s) x = ram s x"
proof -
  have "unat (c - 0xf0000) \<le> 0x10000" if "0xf0000 < c"
    using that assms(1) by (subst unat_diff_nowrap) (auto simp: setup_ok_def word_less_nat_alt word_le_nat_alt)
  then have "memset m 0xf0000 0 (unat (c - 0xf0000)) x = m x" if "0xf0000 < c" for m
    using that assms(2) by (intro memset_other) simp_all
  moreover have "memset m tb 0 0x2000 x = m x" for m
    using assms by (intro memset_other) (auto simp: setup_ok_def)
  ultimately show ?thesis by (simp add: malloc_setup_def Let_def pmm_consts split: option.split)
qed

text \<open>The area that \<open>find_high_area\<close> gives \<open>malloc_setup\<close>.\<close>

lemma setup_high:
  assumes "setup_ok c tb s" "find_high_area 0x10010 (e820_list s) = Some j"
  defines "e \<equiv> e820_list s ! j"
  shows "unat (ucast (e_end e) :: u32) = unat (e_end e)" "unat (ucast (e_start e) :: u32) = unat (e_start e)"
    "0x100000 \<le> unat (e_start e)" "unat (e_start e) + 0x10010 \<le> unat (e_end e)" "16 dvd unat (e_end e)"
proof -
  have wf: "e820_wf (e820_list s)" using assms(1) by (simp add: setup_ok_def)
  have f: "j < length (e820_list s)" "high_fit 0x10010 e"
    using assms(2) find_high_from_spec[OF order_refl wf, of "0x10010" j] by (auto simp: find_high_area_def e_def)
  have m: "e \<in> set (e820_list s)" using f(1) by (simp add: e_def)
  then have ok: "entry_ok e" using wf by (simp add: e820_wf_def)
  have hf: "e_type e = E820_RAM" "unat (e_end e) \<le> 0xffffffff" "0x10010 \<le> unat (e_size e)" "0x110010 \<le> unat (e_end e)"
    using f(2) by (simp_all add: high_fit_def word_le_nat_alt)
  show "16 dvd unat (e_end e)" using assms(1) m by (simp add: setup_ok_def)
  show "unat (e_start e) + 0x10010 \<le> unat (e_end e)" using hf unat_e_end[OF ok] by simp
  then show "unat (ucast (e_start e) :: u32) = unat (e_start e)" "unat (ucast (e_end e) :: u32) = unat (e_end e)"
    using hf by (intro unat_ucast_fits; simp)+
  show "0x100000 \<le> unat (e_start e)"
  proof (rule ccontr)
    assume "\<not> 0x100000 \<le> unat (e_start e)"
    then have c: "covers e 0xfffff" using hf(4) unat_e_end[OF ok] by (simp add: covers_def)
    obtain l r where l: "e820_list s = l @ e # r" using m by (meson split_list)
    have "\<not> covers g 0xfffff" if "g \<in> set l" for g
      using wf_split[of l e r] wf l that c by (auto simp: covers_def apart_def)
    then have "type_at (e820_list s) 0xfffff = Some E820_RAM"
      using c hf(1) by (simp add: l type_at_append type_at_None)
    then show False using assms(1) by (simp add: setup_ok_def)
  qed
qed

text \<open>
  \<open>malloc_setup\<close> establishes the invariant of the allocator: the five zones it lays out are
  disjoint, and disjoint from the EBDA, for any well-formed memory map whose RAM ends on
  16-byte boundaries and in which the byte below 1M is not RAM.
\<close>

theorem malloc_setup_inv:
  assumes "setup_ok c tb s"
  shows "pmm_inv (malloc_setup c tb s)"
proof -
  let ?t = "malloc_setup c tb s"
  have pos: "ebda_pos ?t = ebda_pos s"
    by (simp add: malloc_setup_def Let_def ebda_pos_def split: option.split)
  have size: "ebda_size ?t = ebda_size s"
    using assms setup_ram[OF assms, of "ebda_pos s"] by (auto simp: ebda_size_def pos setup_ok_def)
  have al: "PMMAllocs ?t = []" by (simp add: malloc_setup_def Let_def split: option.split)
  have tb: "unat (tb + 0x2000) = unat tb + 0x2000"
    using assms by (subst unat_add_nowrap) (auto simp: setup_ok_def)
  have tbb: "0xa0000 \<le> unat tb" "unat tb + 0x2000 \<le> 0x100000" using assms by (simp_all add: setup_ok_def)
  have e: "0x90000 \<le> unat (ebda_pos s)" "0 < unat (ebda_size s)" "unat (ebda_pos s) + 1024 * unat (ebda_size s) \<le> 0xa0000"
    using assms by (simp_all add: setup_ok_def)
  have low: "zones ?t ZoneTmpLow = mk_zone 0x7000 0x90000" "zones ?t ZoneLow = mk_zone 0xa0000 0xa0000"
    "zones ?t ZoneFSeg = mk_zone tb (tb + 0x2000)"
    by (simp_all add: malloc_setup_def Let_def pmm_consts split: option.split)
  obtain lo hb hi where high: "zones ?t ZoneTmpHigh = mk_zone lo hb" "zones ?t ZoneHigh = mk_zone hb hi"
    "unat lo \<le> unat hb" "unat hb \<le> unat hi" "lo = 0 \<and> hi = 0 \<or> 0x100000 \<le> unat lo"
  proof (cases "find_high_area 0x10010 (e820_list s)")
    case None
    then show thesis using that[of 0 0 0]
      by (simp add: malloc_setup_def Let_def pmm_consts)
  next
    case (Some j)
    let ?e = "e820_list s ! j"
    let ?hi = "ucast (e_end ?e) :: u32" and ?lo = "ucast (e_start ?e) :: u32"
    note h = setup_high[OF assms Some]
    have d: "unat (?hi - 0x10000) = unat (e_end ?e) - 0x10000"
      using h by (subst unat_diff_nowrap) (simp_all add: word_le_nat_alt)
    have "unat (e_end ?e) < 2 ^ 32" using h(1) unat_lt_2p[of ?hi] by simp
    moreover have "16 dvd unat (?hi - 0x10000)" unfolding d using h(5) by (simp add: dvd_diff_nat)
    ultimately have hb: "ALIGN (?hi - 0x10000) 16 = ?hi - 0x10000"
      using d h(4) by (intro unat_ALIGN_16(3)) simp_all
    have "unat ?lo + 15 < 2 ^ 32" using h \<open>unat (e_end ?e) < 2 ^ 32\<close> by simp
    note lo = unat_ALIGN_16(1,2)[OF this]
    show thesis
    proof (rule that[of "ALIGN ?lo 16" "?hi - 0x10000" "?hi"])
      show "zones ?t ZoneTmpHigh = mk_zone (ALIGN ?lo 16) (?hi - 0x10000)" "zones ?t ZoneHigh = mk_zone (?hi - 0x10000) ?hi"
        using Some hb by (simp_all add: malloc_setup_def Let_def pmm_consts)
      show "unat (ALIGN ?lo 16) \<le> unat (?hi - 0x10000)" "unat (?hi - 0x10000) \<le> unat ?hi"
        using lo h d by simp_all
      show "ALIGN ?lo 16 = 0 \<and> ?hi = 0 \<or> 0x100000 \<le> unat (ALIGN ?lo 16)" using lo h by simp
    qed
  qed
  define L H where "L z = unat (zbottom z ?t)" and "H z = unat (ztop z ?t)" for z
  have cur: "zcur z ?t = ztop z ?t" for z
    by (cases z) (simp_all add: zcur_def ztop_def low high(1,2) mk_zone_def)
  have LH: "L ZoneTmpLow = 0x7000" "H ZoneTmpLow = 0x90000" "L ZoneLow = 0xa0000" "H ZoneLow = 0xa0000"
    "L ZoneFSeg = unat tb" "H ZoneFSeg = unat tb + 0x2000" "L ZoneTmpHigh = unat lo" "H ZoneTmpHigh = unat hb"
    "L ZoneHigh = unat hb" "H ZoneHigh = unat hi"
    by (simp_all add: L_def H_def zbottom_def ztop_def low high(1,2) mk_zone_def tb)
  have hz: "unat hi = 0 \<or> 0x100000 \<le> unat lo" using high(5) by auto
  have le: "L z \<le> H z" and nz: "L z = 0 \<longrightarrow> H z = 0"
    and out: "z \<noteq> ZoneLow \<longrightarrow> H z \<le> 0x90000 \<or> 0xa0000 \<le> L z" for z
    using LH high(3,4) hz tbb by (cases z; simp; linarith)+
  have sp: "H z \<le> L z' \<or> H z' \<le> L z" if "z \<noteq> z'" for z z'
    using hz
  proof
    assume "unat hi = 0"
    then have "unat hb = 0" "unat lo = 0" using high(3,4) by simp_all
    then show ?thesis using that LH tbb \<open>unat hi = 0\<close> by (cases z; cases z') simp_all
  next
    assume "0x100000 \<le> unat lo"
    then show ?thesis using that LH tbb high(3,4) by (cases z; cases z') simp_all
  qed
  have "zones_ok ?t"
    unfolding zones_ok_def pos size cur L_def[symmetric] H_def[symmetric] sep_def fst_conv snd_conv
    using le nz out sp e LH(3,4) by simp
  then show ?thesis by (simp add: pmm_inv_def al holds_def)
qed

theorem malloc_setup_inv_witness: "pmm_inv (malloc_setup 0xf8000 0xfd000 ex_pmm)"
proof (rule malloc_setup_inv)
  have "e820_list ex_pmm = ex_map" by (simp add: ex_pmm_def)
  moreover have "type_at ex_map 0xfffff = None" "\<forall>e\<in>set ex_map. 16 dvd unat (e_end e)"
    by (simp_all add: ex_map_def covers_def e_end_def)
  ultimately show "setup_ok 0xf8000 0xfd000 ex_pmm"
    using ex_map_wf by (simp add: setup_ok_def ex_pmm_zones)
qed

section \<open>A request that is too large\<close>

lemma unat_wrapped: "unat (a :: u32) < unat b \<Longrightarrow> unat (a - b) = 2 ^ 32 + unat a - unat b"
  by (simp add: unat_sub_if' not_le)

text \<open>The numbers that \<open>zonelow_move\<close> computes when the subtraction wraps.\<close>

lemma move_wraps:
  fixes oldpos sz :: u32 and e :: u8
  assumes "unat oldpos \<le> 0xa0000" "0xa0000 < unat sz" "unat sz < 2 ^ 31"
  defines "np \<equiv> ALIGN_DOWN (oldpos - sz) 16" and "nb \<equiv> ALIGN_DOWN (ALIGN_DOWN (oldpos - sz) 16) 1024"
  shows "0xa0000 < unat np" "0xa0000 < unat nb" "\<not> ALIGN_DOWN (nb - ebda_bytes e) 1024 < BUILD_EBDA_MINIMUM"
proof -
  have k: "ALIGN_DOWN x 16 = ALIGN_DOWN x (2 ^ 4)" "ALIGN_DOWN x 1024 = ALIGN_DOWN x (2 ^ 10)" for x :: u32 by simp_all
  have "unat (oldpos - sz) = 2 ^ 32 + unat oldpos - unat sz" using assms(1,2) by (intro unat_wrapped) simp
  then have d: "0x7fffff00 \<le> unat (oldpos - sz)" using assms(2,3) by simp
  have np: "0x7fffff00 \<le> unat np" unfolding np_def k by (rule ALIGN_DOWN_bound[OF _ d]) simp
  have nb: "0x7ffffc00 \<le> unat nb" unfolding nb_def np_def[symmetric] k(2) by (rule ALIGN_DOWN_bound) (use np in simp_all)
  have e: "unat e < 256" using unat_lt_2p[of e] by simp
  then have "unat (nb - ebda_bytes e) = unat nb - 1024 * unat e"
    using nb by (subst unat_diff_nowrap) (simp_all add: word_le_nat_alt unat_ebda_bytes)
  then have b: "0x7ff00000 \<le> unat (nb - ebda_bytes e)" using nb e by simp
  have "0x7ff00000 \<le> unat (ALIGN_DOWN (nb - ebda_bytes e) 1024)" unfolding k by (rule ALIGN_DOWN_bound[OF _ b]) simp
  then show "\<not> ALIGN_DOWN (nb - ebda_bytes e) 1024 < BUILD_EBDA_MINIMUM" by (simp add: word_less_nat_alt pmm_consts)
  show "0xa0000 < unat np" "0xa0000 < unat nb" using np nb by simp_all
qed

lemma free_bounds [simp]: "zbottom z (snd (zone_free p old s)) = zbottom z s" "ztop z (snd (zone_free p old s)) = ztop z s"
  by (simp_all add: zone_free_def split: option.split)

lemma expand_top [simp]: "ztop z (zonelow_expand sz a s) = ztop z s"
proof -
  have "ztop z (snd (relocate_ebda ne old e s)) = ztop z s" for ne old e by (simp add: relocate_ebda_def ztop_def Let_def)
  then show ?thesis by (simp add: zonelow_expand_def zonelow_move_def Let_def case_prod_beta)
qed

lemma expand_wraps:
  assumes h: "holds s bs" and e: "ebda_pos s = ucast (mem_size_kb s) * 1024" and sz: "0xa0000 < unat sz" "unat sz < 2 ^ 31"
  shows "0xa0000 < unat (zbottom ZoneLow (zonelow_expand sz 16 s))" "zone_malloc ZoneLow sz 16 (zonelow_expand sz 16 s) = (0, zonelow_expand sz 16 s)"
proof -
  define old where "old = (if ebda_pos s + ebda_bytes (ebda_size s) \<noteq> zbottom ZoneLow s then ebda_pos s + ebda_bytes (ebda_size s) else zcur ZoneLow s)"
  have low: "unat (zcur ZoneLow s) \<le> unat (ztop ZoneLow s)" "unat (ztop ZoneLow s) \<le> 0xa0000" "unat (zbottom ZoneLow s) \<le> unat (zcur ZoneLow s)"
    "unat (ebda_pos s) + 1024 * unat (ebda_size s) \<le> unat (zbottom ZoneLow s)" using h by (simp_all add: holds_def zones_ok_def)
  have "unat (ebda_pos s + ebda_bytes (ebda_size s)) \<le> 0xa0000"
    using low by (subst unat_add_nowrap) (simp_all add: unat_ebda_bytes)
  then have o: "unat old \<le> 0xa0000" using low by (simp add: old_def)
  note w = move_wraps[OF o sz] and wc = move_wraps[OF order.trans[OF low(1,2)] sz]
  have "\<not> zonelow_space sz 16 s" using wc(1) low by (auto simp: zonelow_space_def Let_def word_le_nat_alt)
  then have t: "zonelow_expand sz 16 s = set_bottom ZoneLow (ALIGN_DOWN (ALIGN_DOWN (old - sz) 16) 1024) (set_cur ZoneLow old
      (snd (relocate_ebda (ALIGN_DOWN (ALIGN_DOWN (ALIGN_DOWN (old - sz) 16) 1024 - ebda_bytes (ebda_size s)) 1024) (ebda_pos s) (ebda_size s) s)))"
    using w(3)[of "ebda_size s"] e by (auto simp: zonelow_expand_def zonelow_move_def relocate_ebda_def Let_def old_def)
  then have z: "zbottom ZoneLow (zonelow_expand sz 16 s) = ALIGN_DOWN (ALIGN_DOWN (old - sz) 16) 1024" "zcur ZoneLow (zonelow_expand sz 16 s) = old" by simp_all
  show "0xa0000 < unat (zbottom ZoneLow (zonelow_expand sz 16 s))" using w(2) z by simp
  have "old < ALIGN_DOWN (old - sz) 16" using w(1) o by (simp add: word_less_nat_alt)
  then show "zone_malloc ZoneLow sz 16 (zonelow_expand sz 16 s) = (0, zonelow_expand sz 16 s)" using z by (simp add: zone_malloc_def)
qed



section \<open>The header\<close>

text \<open>\<open>pmm_setup\<close> leaves a header whose bytes sum to zero.\<close>

lemma pmm_setup_checksum: "checksum (pmmheader_bytes (pmm_setup entry_pmm h)) = 0"
  by (simp add: pmm_setup_def pmmheader_bytes_def Let_def)

end
