(* ===== verification/Bregs.thy ===== *)
theory Bregs
  imports Prelude
begin

text \<open>
  \<open>bios/seabios/src/bregs.h\<close>: the registers that an interrupt handler receives and returns. The
  unions of the C structure are 32-bit registers with accessors for their parts.
\<close>

section \<open>Parts of a register\<close>

definition lo8 :: "u32 \<Rightarrow> u8" where "lo8 w = ucast w"
definition hi8 :: "u32 \<Rightarrow> u8" where "hi8 w = ucast (drop_bit 8 w)"
definition lo16 :: "u32 \<Rightarrow> u16" where "lo16 w = ucast w"

definition put_lo8 :: "u8 \<Rightarrow> u32 \<Rightarrow> u32" where
  "put_lo8 v w = (w AND NOT 0xff) OR ucast v"

definition put_hi8 :: "u8 \<Rightarrow> u32 \<Rightarrow> u32" where
  "put_hi8 v w = (w AND NOT 0xff00) OR push_bit 8 (ucast v)"

definition put_lo16 :: "u16 \<Rightarrow> u32 \<Rightarrow> u32" where
  "put_lo16 v w = (w AND NOT 0xffff) OR ucast v"

lemma mask_ff: "(0xff :: u32) = mask 8" "(0xff00 :: u32) = push_bit 8 (mask 8)" "(0xffff :: u32) = mask 16"
  by (simp_all add: mask_eq_decr_exp push_bit_eq_mult)

lemma reg_simps [simp]:
  "lo8 (put_lo8 v w) = v" "hi8 (put_hi8 v w) = v" "lo16 (put_lo16 u w) = u"
  "hi8 (put_lo8 v w) = hi8 w" "lo8 (put_hi8 v w) = lo8 w"
  unfolding lo8_def hi8_def lo16_def put_lo8_def put_hi8_def put_lo16_def mask_ff
  by (rule bit_eqI; auto simp: bit_simps dest: bit_imp_le_length)+

section \<open>The register file\<close>

record bregs =
  r_ds :: u16
  r_es :: u16
  r_edi :: u32
  r_esi :: u32
  r_ebp :: u32
  r_ebx :: u32
  r_edx :: u32
  r_ecx :: u32
  r_eax :: u32
  r_flags :: u16

definition r_al :: "bregs \<Rightarrow> u8" where "r_al r = lo8 (r_eax r)"
definition r_ah :: "bregs \<Rightarrow> u8" where "r_ah r = hi8 (r_eax r)"
definition r_ax :: "bregs \<Rightarrow> u16" where "r_ax r = lo16 (r_eax r)"
definition r_bl :: "bregs \<Rightarrow> u8" where "r_bl r = lo8 (r_ebx r)"
definition r_bh :: "bregs \<Rightarrow> u8" where "r_bh r = hi8 (r_ebx r)"
definition r_bx :: "bregs \<Rightarrow> u16" where "r_bx r = lo16 (r_ebx r)"
definition r_cl :: "bregs \<Rightarrow> u8" where "r_cl r = lo8 (r_ecx r)"
definition r_ch :: "bregs \<Rightarrow> u8" where "r_ch r = hi8 (r_ecx r)"
definition r_cx :: "bregs \<Rightarrow> u16" where "r_cx r = lo16 (r_ecx r)"
definition r_dl :: "bregs \<Rightarrow> u8" where "r_dl r = lo8 (r_edx r)"
definition r_dh :: "bregs \<Rightarrow> u8" where "r_dh r = hi8 (r_edx r)"
definition r_dx :: "bregs \<Rightarrow> u16" where "r_dx r = lo16 (r_edx r)"

definition set_al :: "u8 \<Rightarrow> bregs \<Rightarrow> bregs" where "set_al v r = r\<lparr>r_eax := put_lo8 v (r_eax r)\<rparr>"
definition set_ah :: "u8 \<Rightarrow> bregs \<Rightarrow> bregs" where "set_ah v r = r\<lparr>r_eax := put_hi8 v (r_eax r)\<rparr>"
definition set_ax :: "u16 \<Rightarrow> bregs \<Rightarrow> bregs" where "set_ax v r = r\<lparr>r_eax := put_lo16 v (r_eax r)\<rparr>"
definition set_bl :: "u8 \<Rightarrow> bregs \<Rightarrow> bregs" where "set_bl v r = r\<lparr>r_ebx := put_lo8 v (r_ebx r)\<rparr>"
definition set_bh :: "u8 \<Rightarrow> bregs \<Rightarrow> bregs" where "set_bh v r = r\<lparr>r_ebx := put_hi8 v (r_ebx r)\<rparr>"
definition set_bx :: "u16 \<Rightarrow> bregs \<Rightarrow> bregs" where "set_bx v r = r\<lparr>r_ebx := put_lo16 v (r_ebx r)\<rparr>"
definition set_cl :: "u8 \<Rightarrow> bregs \<Rightarrow> bregs" where "set_cl v r = r\<lparr>r_ecx := put_lo8 v (r_ecx r)\<rparr>"
definition set_ch :: "u8 \<Rightarrow> bregs \<Rightarrow> bregs" where "set_ch v r = r\<lparr>r_ecx := put_hi8 v (r_ecx r)\<rparr>"
definition set_cx :: "u16 \<Rightarrow> bregs \<Rightarrow> bregs" where "set_cx v r = r\<lparr>r_ecx := put_lo16 v (r_ecx r)\<rparr>"
definition set_dl :: "u8 \<Rightarrow> bregs \<Rightarrow> bregs" where "set_dl v r = r\<lparr>r_edx := put_lo8 v (r_edx r)\<rparr>"
definition set_dh :: "u8 \<Rightarrow> bregs \<Rightarrow> bregs" where "set_dh v r = r\<lparr>r_edx := put_hi8 v (r_edx r)\<rparr>"
definition set_dx :: "u16 \<Rightarrow> bregs \<Rightarrow> bregs" where "set_dx v r = r\<lparr>r_edx := put_lo16 v (r_edx r)\<rparr>"

lemmas reg_defs = r_al_def r_ah_def r_ax_def r_bl_def r_bh_def r_bx_def r_cl_def r_ch_def r_cx_def
  r_dl_def r_dh_def r_dx_def set_al_def set_ah_def set_ax_def set_bl_def set_bh_def set_bx_def
  set_cl_def set_ch_def set_cx_def set_dl_def set_dh_def set_dx_def

section \<open>Return codes\<close>

definition F_CF :: u16 where "F_CF = 1"
definition F_ZF :: u16 where "F_ZF = 0x40"
definition F_IF :: u16 where "F_IF = 0x200"
definition RET_EUNSUPPORTED :: u8 where "RET_EUNSUPPORTED = 0x86"

definition set_cf :: "bool \<Rightarrow> bregs \<Rightarrow> bregs" where
  "set_cf c r = r\<lparr>r_flags := (if c then r_flags r OR F_CF else r_flags r AND NOT F_CF)\<rparr>"

definition cf :: "bregs \<Rightarrow> bool" where
  "cf r \<longleftrightarrow> r_flags r AND F_CF \<noteq> 0"

definition set_success :: "bregs \<Rightarrow> bregs" where "set_success r = set_cf False r"
definition set_code_success :: "bregs \<Rightarrow> bregs" where "set_code_success r = set_cf False (set_ah 0 r)"
definition set_invalid :: "bregs \<Rightarrow> bregs" where "set_invalid r = set_cf True r"
definition set_code_invalid :: "u8 \<Rightarrow> bregs \<Rightarrow> bregs" where "set_code_invalid c r = set_cf True (set_ah c r)"

lemma bit_F_CF: "cf r \<longleftrightarrow> bit (r_flags r) 0"
proof -
  have "r_flags r AND F_CF = (if bit (r_flags r) 0 then 1 else 0)"
    by (rule bit_eqI) (auto simp: bit_simps F_CF_def intro: gr0I)
  then show ?thesis by (simp add: cf_def)
qed

lemma cf_simps [simp]:
  "cf (set_cf c r) = c" "cf (set_success r) = False" "cf (set_code_success r) = False"
  "cf (set_invalid r) = True" "cf (set_code_invalid v r) = True"
  "r_ah (set_code_success r) = 0" "r_ah (set_code_invalid v r) = v" "r_ah (set_cf c r) = r_ah r"
  "r_al (set_cf c r) = r_al r"
  by (simp_all add: bit_F_CF set_cf_def F_CF_def set_success_def set_code_success_def set_invalid_def
      set_code_invalid_def reg_defs bit_simps)

lemma set_cf_regs [simp]:
  "r_eax (set_cf b r) = r_eax r" "r_ebx (set_cf b r) = r_ebx r" "r_ecx (set_cf b r) = r_ecx r"
  "r_edx (set_cf b r) = r_edx r" "r_edi (set_cf b r) = r_edi r" "r_esi (set_cf b r) = r_esi r"
  "r_ds (set_cf b r) = r_ds r" "r_es (set_cf b r) = r_es r"
  by (simp_all add: set_cf_def)

end
