(* ===== verification/Kbd.thy ===== *)
theory Kbd
  imports Bregs
begin

text \<open>
  \<open>bios/seabios/src/kbd.c\<close>: the keyboard buffer in the BIOS data area, interrupt 16h, and the
  interrupt-time translation of scan codes. The buffer is a ring of 16 two-byte slots at the
  offsets 0x1e to 0x3d of the data segment of the BIOS.
\<close>

section \<open>Data\<close>

definition KF0_RSHIFT :: u8 where "KF0_RSHIFT = 0x01"
definition KF0_LSHIFT :: u8 where "KF0_LSHIFT = 0x02"
definition KF0_CTRLACTIVE :: u8 where "KF0_CTRLACTIVE = 0x04"
definition KF0_ALTACTIVE :: u8 where "KF0_ALTACTIVE = 0x08"
definition KF0_SCROLLACTIVE :: u8 where "KF0_SCROLLACTIVE = 0x10"
definition KF0_NUMACTIVE :: u8 where "KF0_NUMACTIVE = 0x20"
definition KF0_CAPSACTIVE :: u8 where "KF0_CAPSACTIVE = 0x40"
definition KF1_LCTRL :: u8 where "KF1_LCTRL = 0x01"
definition KF1_LALT :: u8 where "KF1_LALT = 0x02"
definition KF1_SCROLL :: u8 where "KF1_SCROLL = 0x10"
definition KF1_NUM :: u8 where "KF1_NUM = 0x20"
definition KF1_CAPS :: u8 where "KF1_CAPS = 0x40"
definition KF2_LAST_E1 :: u8 where "KF2_LAST_E1 = 0x01"
definition KF2_LAST_E0 :: u8 where "KF2_LAST_E0 = 0x02"
definition KF2_RCTRL :: u8 where "KF2_RCTRL = 0x04"
definition KF2_RALT :: u8 where "KF2_RALT = 0x08"
definition KF2_101KBD :: u8 where "KF2_101KBD = 0x10"

lemmas kf_defs = KF0_RSHIFT_def KF0_LSHIFT_def KF0_CTRLACTIVE_def KF0_ALTACTIVE_def KF0_SCROLLACTIVE_def
  KF0_NUMACTIVE_def KF0_CAPSACTIVE_def KF1_LCTRL_def KF1_LALT_def KF1_SCROLL_def KF1_NUM_def KF1_CAPS_def
  KF2_LAST_E1_def KF2_LAST_E0_def KF2_RCTRL_def KF2_RALT_def KF2_101KBD_def

text \<open>The keyboard's part of the BIOS data area; \<open>bda\<close> is the memory of its segment.\<close>

record kbd =
  kbd_flag0 :: u8
  kbd_flag1 :: u8
  kbd_flag2 :: u8
  kbd_led :: u8
  kbd_buf_head :: u16
  kbd_buf_tail :: u16
  kbd_buf_start_offset :: u16
  kbd_buf_end_offset :: u16
  soft_reset_flag :: u16
  bda :: "u16 \<Rightarrow> u8"

section \<open>The buffer\<close>

definition kbd_setup :: "kbd \<Rightarrow> kbd" where
  "kbd_setup s = s\<lparr>kbd_flag2 := KF2_101KBD, kbd_buf_head := 0x1e, kbd_buf_tail := 0x1e,
     kbd_buf_start_offset := 0x1e, kbd_buf_end_offset := 0x1e + 32\<rparr>"

definition enqueue_key :: "u8 \<Rightarrow> u8 \<Rightarrow> kbd \<Rightarrow> u8 \<times> kbd" where
  "enqueue_key scan_code ascii_code s =
     (let temp_tail = kbd_buf_tail s;
          t1 = temp_tail + 2;
          tail = (if t1 \<ge> kbd_buf_end_offset s then kbd_buf_start_offset s else t1)
      in if tail = kbd_buf_head s then (0, s)
         else (1, s\<lparr>bda := (bda s)(temp_tail := ascii_code, temp_tail + 1 := scan_code), kbd_buf_tail := tail\<rparr>))"

text \<open>
  \<open>dequeue_key\<close> with its flags \<open>incr\<close> and \<open>extended\<close>. Each element of \<open>irqs\<close> is what happens to the
  keyboard state during one \<open>wait_irq\<close>; \<open>None\<close> means that the interrupts end with the buffer
  still empty, so that the call keeps waiting.
\<close>

fun dequeue_key :: "(kbd \<Rightarrow> kbd) list \<Rightarrow> bool \<Rightarrow> bool \<Rightarrow> bregs \<Rightarrow> kbd \<Rightarrow> (bregs \<times> kbd) option" where
  "dequeue_key irqs incr extended r s =
     (if kbd_buf_head s \<noteq> kbd_buf_tail s then
        let head = kbd_buf_head s;
            a0 = bda s head; scan_code = bda s (head + 1);
            ascii_code = (if (a0 = 0xF0 \<and> scan_code \<noteq> 0) \<or> (a0 = 0xE0 \<and> \<not> extended) then 0 else a0);
            r1 = set_ax (push_bit 8 (ucast scan_code) OR ucast ascii_code) r
        in if \<not> incr then Some (r1\<lparr>r_flags := r_flags r1 AND NOT F_ZF\<rparr>, s)
           else let h1 = head + 2
                in Some (r1, s\<lparr>kbd_buf_head := (if h1 \<ge> kbd_buf_end_offset s then kbd_buf_start_offset s else h1)\<rparr>)
      else if \<not> incr then Some (r\<lparr>r_flags := r_flags r OR F_ZF\<rparr>, s)
      else case irqs of [] \<Rightarrow> None | w # ws \<Rightarrow> dequeue_key ws incr extended r (w s))"

declare dequeue_key.simps [simp del]

section \<open>Interrupt 16h\<close>

text \<open>\<open>cmd\<close> is the keyboard: what a command with its parameter bytes returns, \<open>None\<close> on an error.\<close>

definition set_leds :: "(u8 \<Rightarrow> u8 list \<Rightarrow> u8 list option) \<Rightarrow> kbd \<Rightarrow> kbd" where
  "set_leds cmd s =
     (let shift_flags = drop_bit 4 (kbd_flag0 s) AND 7; led_flags = kbd_led s AND 7
      in if shift_flags = led_flags then s
         else case cmd 0xed [shift_flags] of None \<Rightarrow> s
              | Some _ \<Rightarrow> s\<lparr>kbd_led := (kbd_led s AND NOT 7) OR shift_flags\<rparr>)"

definition handle_1600 :: "(kbd \<Rightarrow> kbd) list \<Rightarrow> bregs \<Rightarrow> kbd \<Rightarrow> (bregs \<times> kbd) option" where
  "handle_1600 irqs r s = dequeue_key irqs True False r s"

definition handle_1601 :: "bregs \<Rightarrow> kbd \<Rightarrow> (bregs \<times> kbd) option" where
  "handle_1601 r s = dequeue_key [] False False r s"

definition handle_1602 :: "bregs \<Rightarrow> kbd \<Rightarrow> (bregs \<times> kbd) option" where
  "handle_1602 r s = Some (set_al (kbd_flag0 s) r, s)"

definition handle_1605 :: "bregs \<Rightarrow> kbd \<Rightarrow> (bregs \<times> kbd) option" where
  "handle_1605 r s =
     (let (ok, s1) = enqueue_key (r_ch r) (r_cl r) s in Some (set_al (if ok = 0 then 1 else 0) r, s1))"

definition handle_1609 :: "bregs \<Rightarrow> kbd \<Rightarrow> (bregs \<times> kbd) option" where
  "handle_1609 r s = Some (set_al 0x30 r, s)"

definition handle_160a :: "(u8 \<Rightarrow> u8 list \<Rightarrow> u8 list option) \<Rightarrow> bregs \<Rightarrow> kbd \<Rightarrow> (bregs \<times> kbd) option" where
  "handle_160a cmd r s =
     Some (case cmd 0xf2 [] of None \<Rightarrow> set_bx 0 r
           | Some p \<Rightarrow> set_bx (push_bit 8 (ucast (p ! 1)) OR ucast (p ! 0)) r, s)"

definition handle_1610 :: "(kbd \<Rightarrow> kbd) list \<Rightarrow> bregs \<Rightarrow> kbd \<Rightarrow> (bregs \<times> kbd) option" where
  "handle_1610 irqs r s = dequeue_key irqs True True r s"

definition handle_1611 :: "bregs \<Rightarrow> kbd \<Rightarrow> (bregs \<times> kbd) option" where
  "handle_1611 r s = dequeue_key [] False True r s"

definition handle_1612 :: "bregs \<Rightarrow> kbd \<Rightarrow> (bregs \<times> kbd) option" where
  "handle_1612 r s =
     Some (set_ah ((kbd_flag1 s AND NOT (KF2_RCTRL OR KF2_RALT)) OR (kbd_flag2 s AND (KF2_RCTRL OR KF2_RALT)))
             (set_al (kbd_flag0 s) r), s)"

definition handle_166f :: "bregs \<Rightarrow> kbd \<Rightarrow> (bregs \<times> kbd) option" where
  "handle_166f r s = Some (if r_al r = 8 then set_ah 2 r else r, s)"

definition handle_1692 :: "bregs \<Rightarrow> kbd \<Rightarrow> (bregs \<times> kbd) option" where
  "handle_1692 r s = Some (set_ah 0x80 r, s)"

definition handle_16a2 :: "bregs \<Rightarrow> kbd \<Rightarrow> (bregs \<times> kbd) option" where
  "handle_16a2 r s = Some (r, s)"

definition handle_16XX :: "bregs \<Rightarrow> kbd \<Rightarrow> (bregs \<times> kbd) option" where
  "handle_16XX r s = Some (r, s)"

definition handle_16 ::
  "(u8 \<Rightarrow> u8 list \<Rightarrow> u8 list option) \<Rightarrow> (kbd \<Rightarrow> kbd) list \<Rightarrow> bregs \<Rightarrow> kbd \<Rightarrow> (bregs \<times> kbd) option" where
  "handle_16 cmd irqs r s0 =
     (let s = set_leds cmd s0; f = r_ah r in
      if f = 0x00 then handle_1600 irqs r s
      else if f = 0x01 then handle_1601 r s
      else if f = 0x02 then handle_1602 r s
      else if f = 0x05 then handle_1605 r s
      else if f = 0x09 then handle_1609 r s
      else if f = 0x0a then handle_160a cmd r s
      else if f = 0x10 then handle_1610 irqs r s
      else if f = 0x11 then handle_1611 r s
      else if f = 0x12 then handle_1612 r s
      else if f = 0x92 then handle_1692 r s
      else if f = 0xa2 then handle_16a2 r s
      else if f = 0x6f then handle_166f r s
      else handle_16XX r s)"

section \<open>Scan codes\<close>

text \<open>Rows: normal, with shift, with control, with alt, and the lock that exchanges the first two.\<close>

type_synonym scaninfo = "u16 \<times> u16 \<times> u16 \<times> u16 \<times> u8"

definition scan_to_scanascii :: "scaninfo list" where
  "scan_to_scanascii =
   [(0, 0, 0, 0, 0), (0x011b, 0x011b, 0x011b, 0x0100, 0), (0x0231, 0x0221, 0, 0x7800, 0),
    (0x0332, 0x0340, 0x0300, 0x7900, 0), (0x0433, 0x0423, 0, 0x7a00, 0), (0x0534, 0x0524, 0, 0x7b00, 0),
    (0x0635, 0x0625, 0, 0x7c00, 0), (0x0736, 0x075e, 0x071e, 0x7d00, 0), (0x0837, 0x0826, 0, 0x7e00, 0),
    (0x0938, 0x092a, 0, 0x7f00, 0), (0x0a39, 0x0a28, 0, 0x8000, 0), (0x0b30, 0x0b29, 0, 0x8100, 0),
    (0x0c2d, 0x0c5f, 0x0c1f, 0x8200, 0), (0x0d3d, 0x0d2b, 0, 0x8300, 0), (0x0e08, 0x0e08, 0x0e7f, 0, 0),
    (0x0f09, 0x0f00, 0, 0, 0), (0x1071, 0x1051, 0x1011, 0x1000, KF0_CAPSACTIVE),
    (0x1177, 0x1157, 0x1117, 0x1100, KF0_CAPSACTIVE), (0x1265, 0x1245, 0x1205, 0x1200, KF0_CAPSACTIVE),
    (0x1372, 0x1352, 0x1312, 0x1300, KF0_CAPSACTIVE), (0x1474, 0x1454, 0x1414, 0x1400, KF0_CAPSACTIVE),
    (0x1579, 0x1559, 0x1519, 0x1500, KF0_CAPSACTIVE), (0x1675, 0x1655, 0x1615, 0x1600, KF0_CAPSACTIVE),
    (0x1769, 0x1749, 0x1709, 0x1700, KF0_CAPSACTIVE), (0x186f, 0x184f, 0x180f, 0x1800, KF0_CAPSACTIVE),
    (0x1970, 0x1950, 0x1910, 0x1900, KF0_CAPSACTIVE), (0x1a5b, 0x1a7b, 0x1a1b, 0, 0),
    (0x1b5d, 0x1b7d, 0x1b1d, 0, 0), (0x1c0d, 0x1c0d, 0x1c0a, 0, 0), (0, 0, 0, 0, 0),
    (0x1e61, 0x1e41, 0x1e01, 0x1e00, KF0_CAPSACTIVE), (0x1f73, 0x1f53, 0x1f13, 0x1f00, KF0_CAPSACTIVE),
    (0x2064, 0x2044, 0x2004, 0x2000, KF0_CAPSACTIVE), (0x2166, 0x2146, 0x2106, 0x2100, KF0_CAPSACTIVE),
    (0x2267, 0x2247, 0x2207, 0x2200, KF0_CAPSACTIVE), (0x2368, 0x2348, 0x2308, 0x2300, KF0_CAPSACTIVE),
    (0x246a, 0x244a, 0x240a, 0x2400, KF0_CAPSACTIVE), (0x256b, 0x254b, 0x250b, 0x2500, KF0_CAPSACTIVE),
    (0x266c, 0x264c, 0x260c, 0x2600, KF0_CAPSACTIVE), (0x273b, 0x273a, 0, 0, 0), (0x2827, 0x2822, 0, 0, 0),
    (0x2960, 0x297e, 0, 0, 0), (0, 0, 0, 0, 0), (0x2b5c, 0x2b7c, 0x2b1c, 0, 0),
    (0x2c7a, 0x2c5a, 0x2c1a, 0x2c00, KF0_CAPSACTIVE), (0x2d78, 0x2d58, 0x2d18, 0x2d00, KF0_CAPSACTIVE),
    (0x2e63, 0x2e43, 0x2e03, 0x2e00, KF0_CAPSACTIVE), (0x2f76, 0x2f56, 0x2f16, 0x2f00, KF0_CAPSACTIVE),
    (0x3062, 0x3042, 0x3002, 0x3000, KF0_CAPSACTIVE), (0x316e, 0x314e, 0x310e, 0x3100, KF0_CAPSACTIVE),
    (0x326d, 0x324d, 0x320d, 0x3200, KF0_CAPSACTIVE), (0x332c, 0x333c, 0, 0, 0), (0x342e, 0x343e, 0, 0, 0),
    (0x352f, 0x353f, 0, 0, 0), (0, 0, 0, 0, 0), (0x372a, 0x372a, 0, 0, 0), (0, 0, 0, 0, 0),
    (0x3920, 0x3920, 0x3920, 0x3920, 0), (0, 0, 0, 0, 0), (0x3b00, 0x5400, 0x5e00, 0x6800, 0),
    (0x3c00, 0x5500, 0x5f00, 0x6900, 0), (0x3d00, 0x5600, 0x6000, 0x6a00, 0),
    (0x3e00, 0x5700, 0x6100, 0x6b00, 0), (0x3f00, 0x5800, 0x6200, 0x6c00, 0),
    (0x4000, 0x5900, 0x6300, 0x6d00, 0), (0x4100, 0x5a00, 0x6400, 0x6e00, 0),
    (0x4200, 0x5b00, 0x6500, 0x6f00, 0), (0x4300, 0x5c00, 0x6600, 0x7000, 0),
    (0x4400, 0x5d00, 0x6700, 0x7100, 0), (0, 0, 0, 0, 0), (0, 0, 0, 0, 0),
    (0x4700, 0x4737, 0x7700, 0, KF0_NUMACTIVE), (0x4800, 0x4838, 0, 0, KF0_NUMACTIVE),
    (0x4900, 0x4939, 0x8400, 0, KF0_NUMACTIVE), (0x4a2d, 0x4a2d, 0, 0, 0),
    (0x4b00, 0x4b34, 0x7300, 0, KF0_NUMACTIVE), (0x4c00, 0x4c35, 0, 0, KF0_NUMACTIVE),
    (0x4d00, 0x4d36, 0x7400, 0, KF0_NUMACTIVE), (0x4e2b, 0x4e2b, 0, 0, 0),
    (0x4f00, 0x4f31, 0x7500, 0, KF0_NUMACTIVE), (0x5000, 0x5032, 0, 0, KF0_NUMACTIVE),
    (0x5100, 0x5133, 0x7600, 0, KF0_NUMACTIVE), (0x5200, 0x5230, 0, 0, KF0_NUMACTIVE),
    (0x5300, 0x532e, 0, 0, KF0_NUMACTIVE), (0, 0, 0, 0, 0), (0, 0, 0, 0, 0), (0x565c, 0x567c, 0, 0, 0),
    (0x8500, 0x8700, 0x8900, 0x8b00, 0), (0x8600, 0x8800, 0x8a00, 0x8c00, 0)]"

datatype key_result = Key_done kbd | Key_reset kbd

text \<open>The code that a key press puts into the buffer.\<close>

definition key_code :: "u8 \<Rightarrow> u8 \<Rightarrow> u8 \<Rightarrow> u16" where
  "key_code flags0 flags2 scancode =
     (let (normal, shift, control, alt, lock_flags) = scan_to_scanascii ! unat scancode in
      if flags0 AND KF0_ALTACTIVE \<noteq> 0 then alt
      else if flags0 AND KF0_CTRLACTIVE \<noteq> 0 then control
      else if flags2 AND KF2_LAST_E0 \<noteq> 0 \<and> scancode \<ge> 0x47 \<and> scancode \<le> 0x53
      then (normal AND 0xff00) OR 0xe0
      else if flags0 AND (KF0_RSHIFT OR KF0_LSHIFT) \<noteq> 0
      then (if flags0 AND lock_flags \<noteq> 0 then normal else shift)
      else (if flags0 AND lock_flags \<noteq> 0 then shift else normal))"

text \<open>The tail of \<open>__process_key\<close> that every branch with a \<open>break\<close> reaches.\<close>

definition put_flags :: "u8 \<Rightarrow> u8 \<Rightarrow> u8 \<Rightarrow> kbd \<Rightarrow> key_result" where
  "put_flags f0 f1 f2 s = Key_done (s\<lparr>kbd_flag0 := f0, kbd_flag1 := f1, kbd_flag2 := f2 AND NOT KF2_LAST_E0\<rparr>)"

definition press_key :: "u8 \<Rightarrow> kbd \<Rightarrow> key_result" where
  "press_key scancode s =
     (let f0 = kbd_flag0 s; f1 = kbd_flag1 s; f2 = kbd_flag2 s in
      if scancode AND 0x80 \<noteq> 0 then put_flags f0 f1 f2 s
      else if scancode = 0x53 \<and> f0 AND (KF0_CTRLACTIVE OR KF0_ALTACTIVE) = KF0_CTRLACTIVE OR KF0_ALTACTIVE
      then Key_reset (s\<lparr>soft_reset_flag := 0x1234\<rparr>)
      else if unat scancode \<ge> length scan_to_scanascii then Key_done s
      else let code = key_code f0 f2 scancode;
               (_, s1) = enqueue_key (ucast (drop_bit 8 code)) (ucast code) s
           in put_flags f0 f1 f2 s1)"

definition process_key_code :: "u8 \<Rightarrow> kbd \<Rightarrow> key_result" where
  "process_key_code scancode s =
     (let f0 = kbd_flag0 s; f1 = kbd_flag1 s; f2 = kbd_flag2 s; e0 = (f2 AND KF2_LAST_E0 \<noteq> 0) in
      if f2 AND KF2_LAST_E1 \<noteq> 0 then
        (if scancode AND NOT 0x80 = 0x1d then Key_done s
         else Key_done (s\<lparr>kbd_flag2 := f2 AND NOT KF2_LAST_E1\<rparr>))
      else if scancode = 0x00 then Key_done s
      else if scancode = 0x3a then put_flags (f0 XOR KF0_CAPSACTIVE) (f1 OR KF1_CAPS) f2 s
      else if scancode = 0xba then put_flags f0 (f1 AND NOT KF1_CAPS) f2 s
      else if scancode = 0x2a then put_flags (f0 OR KF0_LSHIFT) f1 f2 s
      else if scancode = 0xaa then put_flags (f0 AND NOT KF0_LSHIFT) f1 f2 s
      else if scancode = 0x36 then put_flags (f0 OR KF0_RSHIFT) f1 f2 s
      else if scancode = 0xb6 then put_flags (f0 AND NOT KF0_RSHIFT) f1 f2 s
      else if scancode = 0x1d then
        put_flags (f0 OR KF0_CTRLACTIVE) (if e0 then f1 else f1 OR KF1_LCTRL) (if e0 then f2 OR KF2_RCTRL else f2) s
      else if scancode = 0x9d then
        put_flags (f0 AND NOT KF0_CTRLACTIVE) (if e0 then f1 else f1 AND NOT KF1_LCTRL)
          (if e0 then f2 AND NOT KF2_RCTRL else f2) s
      else if scancode = 0x38 then
        put_flags (f0 OR KF0_ALTACTIVE) (if e0 then f1 else f1 OR KF1_LALT) (if e0 then f2 OR KF2_RALT else f2) s
      else if scancode = 0xb8 then
        put_flags (f0 AND NOT KF0_ALTACTIVE) (if e0 then f1 else f1 AND NOT KF1_LALT)
          (if e0 then f2 AND NOT KF2_RALT else f2) s
      else if scancode = 0x45 then put_flags (f0 XOR KF0_NUMACTIVE) (f1 OR KF1_NUM) f2 s
      else if scancode = 0xc5 then put_flags f0 (f1 AND NOT KF1_NUM) f2 s
      else if scancode = 0x46 then put_flags (f0 XOR KF0_SCROLLACTIVE) (f1 OR KF1_SCROLL) f2 s
      else if scancode = 0xc6 then put_flags f0 (f1 AND NOT KF1_SCROLL) f2 s
      else if scancode = 0xe0 then Key_done (s\<lparr>kbd_flag2 := f2 OR KF2_LAST_E0\<rparr>)
      else if scancode = 0xe1 then put_flags f0 f1 (f2 OR KF2_LAST_E1) s
      else press_key scancode s)"

text \<open>
  \<open>process_key\<close>: the intercept through interrupt 15h, function 4Fh. \<open>int15 key\<close> is the carry flag
  and the \<open>eax\<close> that it returns.
\<close>

definition process_key :: "(u8 \<Rightarrow> bool \<times> u32) \<Rightarrow> u8 \<Rightarrow> kbd \<Rightarrow> key_result" where
  "process_key int15 key s =
     (let (carry, eax) = int15 key in if \<not> carry then Key_done s else process_key_code (ucast eax) s)"

section \<open>Bounded queues\<close>

text \<open>
  The contract of a bounded queue: \<open>put\<close> accepts an element unless there are \<open>cap\<close> of them, \<open>get\<close>
  returns the oldest one as the reader sees it.
\<close>

datatype 'k fop = Put 'k | Get

fun bf_run :: "('k \<Rightarrow> 's \<Rightarrow> bool \<times> 's) \<Rightarrow> ('s \<Rightarrow> ('v \<times> 's) option) \<Rightarrow> 'k fop list \<Rightarrow> 's \<Rightarrow> (bool + 'v option) list" where
  "bf_run put get [] s = []"
| "bf_run put get (Put k # ops) s = (let (ok, s1) = put k s in Inl ok # bf_run put get ops s1)"
| "bf_run put get (Get # ops) s =
     (case get s of None \<Rightarrow> Inr None # bf_run put get ops s
      | Some (v, s1) \<Rightarrow> Inr (Some v) # bf_run put get ops s1)"

fun bf_spec :: "nat \<Rightarrow> ('k \<Rightarrow> 'v) \<Rightarrow> 'k fop list \<Rightarrow> 'k list \<Rightarrow> (bool + 'v option) list" where
  "bf_spec cap view [] q = []"
| "bf_spec cap view (Put k # ops) q =
     (if length q < cap then Inl True # bf_spec cap view ops (q @ [k]) else Inl False # bf_spec cap view ops q)"
| "bf_spec cap view (Get # ops) [] = Inr None # bf_spec cap view ops []"
| "bf_spec cap view (Get # ops) (k # q) = Inr (Some (view k)) # bf_spec cap view ops q"

locale bounded_fifo =
  fixes put :: "'k \<Rightarrow> 's \<Rightarrow> bool \<times> 's"
    and get :: "'s \<Rightarrow> ('v \<times> 's) option"
    and view :: "'k \<Rightarrow> 'v"
    and repr :: "'s \<Rightarrow> 'k list \<Rightarrow> bool"
    and cap :: nat
  assumes put_room: "repr s q \<Longrightarrow> length q < cap \<Longrightarrow> \<exists>s'. put k s = (True, s') \<and> repr s' (q @ [k])"
    and put_full: "repr s q \<Longrightarrow> length q \<ge> cap \<Longrightarrow> \<exists>s'. put k s = (False, s') \<and> repr s' q"
    and get_empty: "repr s [] \<Longrightarrow> get s = None"
    and get_some: "repr s (k # q) \<Longrightarrow> \<exists>s'. get s = Some (view k, s') \<and> repr s' q"
begin

lemma run_is_spec: "repr s q \<Longrightarrow> bf_run put get ops s = bf_spec cap view ops q"
proof (induction ops arbitrary: s q)
  case (Cons c ops)
  show ?case
  proof (cases c)
    case (Put k)
    then show ?thesis using Cons put_room[of s q k] put_full[of s q k] by (cases "length q < cap") auto
  next
    case Get
    then show ?thesis using Cons get_empty get_some by (cases q) fastforce+
  qed
qed simp

end

section \<open>The buffer is a bounded queue\<close>

text \<open>Slot \<open>i\<close> of the ring.\<close>

definition slot :: "nat \<Rightarrow> u16" where
  "slot i = 0x1e + 2 * of_nat (i mod 16)"

definition kbd_repr :: "kbd \<Rightarrow> (u8 \<times> u8) list \<Rightarrow> bool" where
  "kbd_repr s q \<longleftrightarrow> kbd_buf_start_offset s = 0x1e \<and> kbd_buf_end_offset s = 0x3e \<and> length q \<le> 15
     \<and> (\<exists>h < 16. kbd_buf_head s = slot h \<and> kbd_buf_tail s = slot (h + length q)
          \<and> (\<forall>i < length q. bda s (slot (h + i)) = snd (q ! i) \<and> bda s (slot (h + i) + 1) = fst (q ! i)))"

lemma unat_slot: "unat (slot i) = 30 + 2 * (i mod 16)"
proof -
  have m: "i mod 16 < 16" by simp
  have "unat (of_nat (i mod 16) :: u16) = i mod 16"
    using m by (simp add: unsigned_of_nat take_bit_nat_eq_self)
  then have "unat (2 * of_nat (i mod 16) :: u16) = 2 * (i mod 16)" using m by (subst unat_mult_nowrap) simp_all
  then show ?thesis unfolding slot_def using m by (subst unat_add_nowrap) simp_all
qed

lemma slot_eq_iff: "slot i = slot j \<longleftrightarrow> i mod 16 = j mod 16"
  by (simp add: word_eq_iff_unat unat_slot)

lemma slot_odd: "slot i + 1 \<noteq> slot j" "slot i + 1 = slot j + 1 \<longleftrightarrow> i mod 16 = j mod 16"
proof -
  have u: "unat (slot i + 1) = 31 + 2 * (i mod 16)" for i
  proof -
    have "i mod 16 < 16" by simp
    then show ?thesis by (subst unat_add_nowrap) (simp_all add: unat_slot)
  qed
  have "31 + 2 * a \<noteq> 30 + 2 * b" for a b :: nat by presburger
  then show "slot i + 1 \<noteq> slot j" unfolding word_eq_iff_unat u unat_slot .
  show "slot i + 1 = slot j + 1 \<longleftrightarrow> i mod 16 = j mod 16" unfolding word_eq_iff_unat u by simp
qed

text \<open>Both pointers advance in the same way.\<close>

lemma slot_next: "(if slot i + 2 \<ge> 0x3e then 0x1e else slot i + 2) = slot (Suc i)"
proof -
  have m: "i mod 16 < 16" by simp
  have u: "unat (slot i + 2) = 32 + 2 * (i mod 16)" using m by (subst unat_add_nowrap) (simp_all add: unat_slot)
  show ?thesis
  proof (cases "i mod 16 = 15")
    case True
    then have "slot i + 2 \<ge> 0x3e" using u by (simp add: word_le_nat_alt)
    moreover have "slot (Suc i) = 0x1e" using True by (simp add: slot_def mod_Suc)
    ultimately show ?thesis by simp
  next
    case False
    then have s: "Suc i mod 16 = Suc (i mod 16)" by (simp add: mod_Suc)
    have "\<not> slot i + 2 \<ge> 0x3e" using u m False by (simp add: word_le_nat_alt)
    moreover have "slot i + 2 = slot (Suc i)" unfolding word_eq_iff_unat u unat_slot s by simp
    ultimately show ?thesis by simp
  qed
qed

lemma mod16_neq: "a < b \<Longrightarrow> b < a + 16 \<Longrightarrow> a mod 16 \<noteq> b mod (16::nat)"
proof
  assume "a < b" "b < a + 16" "a mod 16 = b mod 16"
  then have "16 dvd b - a" by (metis mod_eq_dvd_iff_nat less_imp_le)
  then show False using \<open>a < b\<close> \<open>b < a + 16\<close> by (auto dest: dvd_imp_le)
qed

lemma enqueue_room:
  assumes "kbd_repr s q" "length q < 15"
  shows "\<exists>s'. enqueue_key sc a s = (1, s') \<and> kbd_repr s' (q @ [(sc, a)])
     \<and> kbd_flag0 s' = kbd_flag0 s \<and> kbd_flag1 s' = kbd_flag1 s \<and> kbd_flag2 s' = kbd_flag2 s"
proof -
  let ?n = "length q"
  obtain h where h: "h < 16" "kbd_buf_head s = slot h" "kbd_buf_tail s = slot (h + ?n)"
    "\<forall>i < ?n. bda s (slot (h + i)) = snd (q ! i) \<and> bda s (slot (h + i) + 1) = fst (q ! i)"
    and off: "kbd_buf_start_offset s = 0x1e" "kbd_buf_end_offset s = 0x3e"
    using assms(1) by (auto simp: kbd_repr_def)
  let ?s = "s\<lparr>bda := (bda s)(slot (h + ?n) := a, slot (h + ?n) + 1 := sc), kbd_buf_tail := slot (Suc (h + ?n))\<rparr>"
  have "slot (Suc (h + ?n)) \<noteq> slot h"
    using mod16_neq[of h "Suc (h + ?n)"] assms(2) by (simp add: slot_eq_iff)
  then have e: "enqueue_key sc a s = (1, ?s)"
    unfolding enqueue_key_def Let_def off h(2,3) slot_next by simp
  have ne: "(h + i) mod 16 \<noteq> (h + ?n) mod 16" if "i < ?n" for i
    using mod16_neq[of "h + i" "h + ?n"] that assms(2) by simp
  have "bda ?s (slot (h + i)) = snd ((q @ [(sc, a)]) ! i) \<and> bda ?s (slot (h + i) + 1) = fst ((q @ [(sc, a)]) ! i)"
    if "i < Suc ?n" for i
  proof (cases "i = ?n")
    case True
    then show ?thesis using slot_odd by simp
  next
    case False
    then have "i < ?n" using that by simp
    then show ?thesis using h(4) ne slot_odd slot_odd(1)[symmetric] by (simp add: nth_append slot_eq_iff)
  qed
  then have "kbd_repr ?s (q @ [(sc, a)])"
    using h off assms(2) unfolding kbd_repr_def by (intro conjI exI[of _ h]) auto
  then show ?thesis using e by auto
qed

lemma enqueue_full:
  assumes "kbd_repr s q" "15 \<le> length q"
  shows "enqueue_key sc a s = (0, s)"
proof -
  have "length q = 15" using assms by (simp add: kbd_repr_def)
  then obtain h where h: "h < 16" "kbd_buf_head s = slot h" "kbd_buf_tail s = slot (h + 15)"
    and off: "kbd_buf_start_offset s = 0x1e" "kbd_buf_end_offset s = 0x3e"
    using assms(1) by (auto simp: kbd_repr_def)
  have "slot (Suc (h + 15)) = slot h" by (simp add: slot_eq_iff)
  then show ?thesis unfolding enqueue_key_def Let_def off h(2,3) slot_next by simp
qed

text \<open>What a reader sees of a key: the code in \<open>ax\<close>.\<close>

definition key_view :: "bool \<Rightarrow> u8 \<times> u8 \<Rightarrow> u16" where
  "key_view extended k =
     (let (sc, a) = k
      in push_bit 8 (ucast sc) OR ucast (if (a = 0xF0 \<and> sc \<noteq> 0) \<or> (a = 0xE0 \<and> \<not> extended) then 0 else a))"

lemma dequeue_some:
  assumes "kbd_repr s (k # q)"
  shows "\<exists>s'. dequeue_key irqs True ext r s = Some (set_ax (key_view ext k) r, s') \<and> kbd_repr s' q"
    and "dequeue_key irqs False ext r s =
      Some ((set_ax (key_view ext k) r)\<lparr>r_flags := r_flags r AND NOT F_ZF\<rparr>, s)"
proof -
  obtain h where h: "h < 16" "kbd_buf_head s = slot h" "kbd_buf_tail s = slot (h + Suc (length q))"
    "\<forall>i < Suc (length q). bda s (slot (h + i)) = snd ((k # q) ! i) \<and> bda s (slot (h + i) + 1) = fst ((k # q) ! i)"
    and off: "kbd_buf_start_offset s = 0x1e" "kbd_buf_end_offset s = 0x3e" and len: "Suc (length q) \<le> 15"
    using assms by (auto simp: kbd_repr_def)
  have ne: "slot h \<noteq> slot (h + Suc (length q))"
    using mod16_neq[of h "h + Suc (length q)"] len by (simp add: slot_eq_iff)
  have k0: "bda s (slot h) = snd k" "bda s (slot h + 1) = fst k" using h(4)[rule_format, of 0] by simp_all
  let ?s = "s\<lparr>kbd_buf_head := slot (Suc h)\<rparr>"
  have "kbd_buf_head s \<noteq> kbd_buf_tail s" using ne h by simp
  then show "dequeue_key irqs False ext r s = Some ((set_ax (key_view ext k) r)\<lparr>r_flags := r_flags r AND NOT F_ZF\<rparr>, s)"
    by (subst dequeue_key.simps) (simp add: Let_def h(2) k0 key_view_def split_beta set_ax_def)
  have "dequeue_key irqs True ext r s = Some (set_ax (key_view ext k) r, ?s)"
    using \<open>kbd_buf_head s \<noteq> kbd_buf_tail s\<close>
    unfolding dequeue_key.simps[of irqs] Let_def off h(2) slot_next k0 key_view_def split_beta by simp
  moreover have "kbd_repr ?s q"
  proof -
    have "slot (Suc h) = slot (Suc h mod 16)" "slot (h + Suc (length q)) = slot (Suc h mod 16 + length q)"
      by (simp_all add: slot_eq_iff mod_simps)
    moreover have "slot (Suc h mod 16 + i) = slot (h + Suc i)" for i by (simp add: slot_eq_iff mod_simps)
    ultimately show ?thesis using h off len unfolding kbd_repr_def
      by (intro conjI exI[of _ "Suc h mod 16"]) auto
  qed
  ultimately show "\<exists>s'. dequeue_key irqs True ext r s = Some (set_ax (key_view ext k) r, s') \<and> kbd_repr s' q" by blast
qed

lemma dequeue_empty:
  assumes "kbd_repr s []"
  shows "dequeue_key [] True ext r s = None"
    and "dequeue_key irqs False ext r s = Some (r\<lparr>r_flags := r_flags r OR F_ZF\<rparr>, s)"
proof -
  have "kbd_buf_head s = kbd_buf_tail s" using assms by (auto simp: kbd_repr_def)
  then show "dequeue_key [] True ext r s = None" "dequeue_key irqs False ext r s = Some (r\<lparr>r_flags := r_flags r OR F_ZF\<rparr>, s)"
    by (subst dequeue_key.simps; simp)+
qed

text \<open>The functions 05h and 10h of interrupt 16h as the operations of a queue.\<close>

definition kbd_put :: "u8 \<times> u8 \<Rightarrow> kbd \<Rightarrow> bool \<times> kbd" where
  "kbd_put k s = (let (ok, s1) = enqueue_key (fst k) (snd k) s in (ok = 1, s1))"

definition kbd_get :: "bregs \<Rightarrow> kbd \<Rightarrow> (u16 \<times> kbd) option" where
  "kbd_get r s = map_option (\<lambda>(r1, s1). (r_ax r1, s1)) (handle_1610 [] r s)"

interpretation kb: bounded_fifo kbd_put "kbd_get r" "key_view True" kbd_repr 15
proof (unfold_locales, goal_cases)
  case (1 s q k)
  then show ?case using enqueue_room[of s q "fst k" "snd k"] by (auto simp: kbd_put_def)
next
  case (2 s q k)
  then show ?case using enqueue_full[of s q "fst k" "snd k"] by (auto simp: kbd_put_def)
next
  case (3 s)
  then show ?case by (simp add: kbd_get_def handle_1610_def dequeue_empty)
next
  case (4 s k q)
  then show ?case using dequeue_some(1)[of s k q "[]" True r]
    by (auto simp: kbd_get_def handle_1610_def reg_defs)
qed

lemma kbd_setup_repr: "kbd_repr (kbd_setup s) []"
  by (auto simp: kbd_repr_def kbd_setup_def slot_def intro: exI[of _ 0])

text \<open>
  C15. After \<open>kbd_setup\<close> the keyboard buffer is a queue of 15 keys: for any sequence of keys stored
  and keys read, a store is refused exactly when 15 keys are pending, and a read returns the
  oldest pending key, with its code as an extended keyboard reports it.
\<close>

theorem kbd_buffer_fifo:
  "bf_run kbd_put (kbd_get r) ops (kbd_setup s) = bf_spec 15 (key_view True) ops []"
  by (rule kb.run_is_spec [OF kbd_setup_repr])

section \<open>Typing\<close>

text \<open>
  A key press without control, alt or a prefix puts one key into the buffer: its shifted code
  exactly when one of shift and the lock that applies to the key is active and the other is not.
  The modifier flags are unchanged.
\<close>

theorem press_types_key:
  assumes "kbd_repr s q" "length q < 15" "unat c < 89" "c AND 0x80 = 0"
    and "kbd_flag0 s AND (KF0_CTRLACTIVE OR KF0_ALTACTIVE) = 0"
    and "kbd_flag2 s AND (KF2_LAST_E0 OR KF2_LAST_E1) = 0"
    and "c \<notin> {0x00, 0x1d, 0x2a, 0x36, 0x38, 0x3a, 0x45, 0x46}"
  shows "\<exists>s'. process_key_code c s = Key_done s'
    \<and> (let (normal, shift, control, alt, lock) = scan_to_scanascii ! unat c;
           code = (if (kbd_flag0 s AND (KF0_RSHIFT OR KF0_LSHIFT) \<noteq> 0) \<noteq> (kbd_flag0 s AND lock \<noteq> 0)
                   then shift else normal)
       in kbd_repr s' (q @ [(ucast (drop_bit 8 code), ucast code)]))
    \<and> kbd_flag0 s' = kbd_flag0 s \<and> kbd_flag1 s' = kbd_flag1 s"
proof -
  have split0: "kbd_flag0 s AND KF0_CTRLACTIVE = 0" "kbd_flag0 s AND KF0_ALTACTIVE = 0"
    using assms(5) by (simp_all add: bit.conj_disj_distrib or_eq_0_iff)
  have split2: "kbd_flag2 s AND KF2_LAST_E0 = 0" "kbd_flag2 s AND KF2_LAST_E1 = 0"
    using assms(6) by (simp_all add: bit.conj_disj_distrib or_eq_0_iff)
  have hi: "c \<noteq> x" if "x AND 0x80 \<noteq> 0" for x using assms(4) that by auto
  have rel: "c \<notin> {0xba, 0xaa, 0xb6, 0x9d, 0xb8, 0xc5, 0xc6, 0xe0, 0xe1}" using hi by auto
  have "process_key_code c s = press_key c s"
    using assms(7) rel split2 unfolding process_key_code_def Let_def by auto
  moreover define code where "code = key_code (kbd_flag0 s) (kbd_flag2 s) c"
  obtain s1 where s1: "enqueue_key (ucast (drop_bit 8 code)) (ucast code) s = (1, s1)"
    "kbd_repr s1 (q @ [(ucast (drop_bit 8 code), ucast code)])"
    "kbd_flag0 s1 = kbd_flag0 s" "kbd_flag1 s1 = kbd_flag1 s" "kbd_flag2 s1 = kbd_flag2 s"
    using enqueue_room[OF assms(1,2)] by blast
  let ?s = "s1\<lparr>kbd_flag0 := kbd_flag0 s, kbd_flag1 := kbd_flag1 s, kbd_flag2 := kbd_flag2 s AND NOT KF2_LAST_E0\<rparr>"
  have len: "length scan_to_scanascii = 89" by (simp add: scan_to_scanascii_def)
  have nz: "KF0_CTRLACTIVE OR KF0_ALTACTIVE \<noteq> 0" by (simp add: kf_defs)
  have "press_key c s = Key_done ?s"
    using assms(3,4,5) nz s1(1) by (simp add: press_key_def Let_def len code_def[symmetric] put_flags_def)
  moreover have "kbd_repr ?s (q @ [(ucast (drop_bit 8 code), ucast code)])" using s1(2) by (simp add: kbd_repr_def)
  moreover have "code = (let (normal, shift, control, alt, lock) = scan_to_scanascii ! unat c
       in if (kbd_flag0 s AND (KF0_RSHIFT OR KF0_LSHIFT) \<noteq> 0) \<noteq> (kbd_flag0 s AND lock \<noteq> 0) then shift else normal)"
    unfolding code_def key_code_def using split0 split2 by (auto split: prod.split)
  ultimately show ?thesis by (auto simp: Let_def split_beta)
qed

definition ex_kbd :: kbd where
  "ex_kbd = kbd_setup \<lparr>kbd_flag0 = KF0_LSHIFT, kbd_flag1 = 0, kbd_flag2 = 0, kbd_led = 0, kbd_buf_head = 0, kbd_buf_tail = 0,
     kbd_buf_start_offset = 0, kbd_buf_end_offset = 0, soft_reset_flag = 0, bda = (\<lambda>_. 0)\<rparr>"

theorem press_types_key_witness:
  "\<exists>s'. process_key_code 0x10 ex_kbd = Key_done s' \<and> kbd_repr s' [(0x10, 0x51)]"
proof -
  have f: "kbd_flag0 ex_kbd = KF0_LSHIFT" "kbd_flag2 ex_kbd = KF2_101KBD"
    by (simp_all add: ex_kbd_def kbd_setup_def)
  have e: "kbd_repr ex_kbd []" unfolding ex_kbd_def by (rule kbd_setup_repr)
  have row: "scan_to_scanascii ! 16 = (0x1071, 0x1051, 0x1011, 0x1000, KF0_CAPSACTIVE)"
    by (simp add: scan_to_scanascii_def)
  have w: "(0x1051 :: u8) = 0x51" by simp
  from press_types_key[OF e, of "0x10"] f row show ?thesis by (auto simp: kf_defs w)
qed

text \<open>
  A press with an unknown code after the prefix E0 returns without clearing the prefix: the next
  key is then taken for an extended one.
\<close>

lemma unknown_key_keeps_prefix:
  assumes "kbd_flag2 s AND KF2_LAST_E1 = 0" "kbd_flag0 s AND (KF0_CTRLACTIVE OR KF0_ALTACTIVE) = 0"
  shows "process_key_code 0x5b (s\<lparr>kbd_flag2 := kbd_flag2 s OR KF2_LAST_E0\<rparr>)
     = Key_done (s\<lparr>kbd_flag2 := kbd_flag2 s OR KF2_LAST_E0\<rparr>)"
proof -
  have "(kbd_flag2 s OR KF2_LAST_E0) AND KF2_LAST_E1 = 0"
    using assms(1) by (simp add: bit.conj_disj_distrib2 kf_defs)
  then show ?thesis
    by (simp add: process_key_code_def press_key_def Let_def scan_to_scanascii_def)
qed

end
