(* ===== verification/Block.thy ===== *)
theory Block
  imports Bios_Util
begin

text \<open>
  \<open>bios/seabios/src/block.c\<close> with the types of \<open>disk.h\<close>: drives, the translation of disk geometry
  for the old BIOS interface, the maps from BIOS drive numbers to drives, and the dispatch of
  disk requests to drivers.
\<close>

section \<open>Data\<close>

record chs_s =
  heads :: u16
  cylinders :: u16
  spt :: u16

record drive_s =
  d_type :: u8
  floppy_type :: u8
  lchs :: chs_s
  sectors :: u64
  cntl_id :: u32
  removable :: u8
  translation :: u8
  blksize :: u16
  pchs :: chs_s

definition DTYPE_NONE :: u8 where "DTYPE_NONE = 0"
definition DTYPE_FLOPPY :: u8 where "DTYPE_FLOPPY = 1"
definition DTYPE_ATA :: u8 where "DTYPE_ATA = 2"
definition DTYPE_ATAPI :: u8 where "DTYPE_ATAPI = 3"
definition DTYPE_RAMDISK :: u8 where "DTYPE_RAMDISK = 4"
definition DTYPE_CDEMU :: u8 where "DTYPE_CDEMU = 5"
definition DTYPE_USB :: u8 where "DTYPE_USB = 6"

lemmas dtype_defs = DTYPE_NONE_def DTYPE_FLOPPY_def DTYPE_ATA_def DTYPE_ATAPI_def DTYPE_RAMDISK_def
  DTYPE_CDEMU_def DTYPE_USB_def

definition TRANSLATION_NONE :: u8 where "TRANSLATION_NONE = 0"
definition TRANSLATION_LBA :: u8 where "TRANSLATION_LBA = 1"
definition TRANSLATION_LARGE :: u8 where "TRANSLATION_LARGE = 2"
definition TRANSLATION_RECHS :: u8 where "TRANSLATION_RECHS = 3"

lemmas translation_defs = TRANSLATION_NONE_def TRANSLATION_LBA_def TRANSLATION_LARGE_def TRANSLATION_RECHS_def

definition DISK_RET_SUCCESS :: u8 where "DISK_RET_SUCCESS = 0x00"
definition DISK_RET_EPARAM :: u8 where "DISK_RET_EPARAM = 0x01"
definition DISK_RET_EADDRNOTFOUND :: u8 where "DISK_RET_EADDRNOTFOUND = 0x02"
definition DISK_RET_EWRITEPROTECT :: u8 where "DISK_RET_EWRITEPROTECT = 0x03"
definition CONFIG_MAX_EXTDRIVE :: nat where "CONFIG_MAX_EXTDRIVE = 16"

record fdpt_s =
  f_cylinders :: u16
  f_heads :: u8
  a0h_signature :: u8
  phys_sectors :: u8
  precompensation :: u16
  f_reserved :: u8
  drive_control_byte :: u8
  phys_cylinders :: u16
  phys_heads :: u8
  landing_zone :: u16
  f_sectors :: u8
  f_checksum :: u8

text \<open>
  \<open>Drives\<close> with the fields of the BIOS data area that the maps touch. A drive pointer is an
  address, 0 for null; \<open>drive_at\<close> gives the drive that a pointer refers to. \<open>fdpt\<close> are the
  parameter tables in the EBDA, and \<open>fdpt_vector\<close> tells which table an interrupt vector points to.
\<close>

datatype exttype = EXTTYPE_FLOPPY | EXTTYPE_HD | EXTTYPE_CD

record drives_s =
  floppycount :: u8
  cdcount :: u8
  hdcount :: u8
  idmap :: "exttype \<Rightarrow> addr list"
  drive_at :: "addr \<Rightarrow> drive_s"
  equipment_list_flags :: u16
  floppy_harddisk_info :: u8
  fdpt :: "nat \<Rightarrow> fdpt_s"
  fdpt_vector :: "nat \<rightharpoonup> nat"

definition getDrive :: "exttype \<Rightarrow> u8 \<Rightarrow> drives_s \<Rightarrow> addr" where
  "getDrive t off s =
     (if unat off \<ge> CONFIG_MAX_EXTDRIVE then 0 else idmap s t ! unat off)"

section \<open>Geometry translation\<close>

text \<open>\<open>cmos i\<close> is the byte of the non-volatile memory at \<open>CMOS_BIOS_DISKTRANSFLAG + i\<close>.\<close>

definition get_translation :: "(nat \<Rightarrow> u8) \<Rightarrow> drive_s \<Rightarrow> u8" where
  "get_translation cmos d =
     (if d_type d = DTYPE_ATA then
        let ataid = ucast (cntl_id d) :: u8; channel = ataid div 2
        in drop_bit (2 * unat (ataid mod 4)) (cmos (unat (channel div 2))) AND 3
      else
        let h = heads (pchs d); c = cylinders (pchs d); t = spt (pchs d);
            psectors = ucast h * ucast c * ucast t :: u64
        in if h = 0 \<or> c = 0 \<or> t = 0 \<or> psectors > sectors d then TRANSLATION_LBA
           else if c \<le> 1024 \<and> h \<le> 16 \<and> t \<le> 63 then TRANSLATION_NONE
           else if (ucast c * ucast h :: u32) \<le>s 131072 then TRANSLATION_LARGE
           else TRANSLATION_LBA)"

text \<open>The loop that halves the cylinders and doubles the heads.\<close>

function large_loop :: "u16 \<Rightarrow> u16 \<Rightarrow> u16 \<times> u16" where
  "large_loop c h =
     (if c > 1024 then
        let c' = drop_bit 1 c; h' = push_bit 1 h
        in if h' > 127 then (c', h') else large_loop c' h'
      else (c, h))"
  by pat_completeness auto
termination
  by (relation "measure (\<lambda>(c, h). unat c)")
     (auto simp: Let_def unat_drop_bit_div word_less_nat_alt)

declare large_loop.simps [simp del]

definition lba_heads :: "u16 \<Rightarrow> u16" where
  "lba_heads h = (if h > 128 then 255 else if h > 64 then 128 else if h > 32 then 64 else if h > 16 then 32 else 16)"

text \<open>Cylinders, heads and sectors per track before the cylinders are clipped.\<close>

definition translate :: "u8 \<Rightarrow> u64 \<Rightarrow> chs_s \<Rightarrow> u16 \<times> u16 \<times> u16" where
  "translate tr secs p =
     (let h = heads p; c = cylinders p; t = spt p in
      if tr = TRANSLATION_LBA then
        (if secs > 63 * 255 * 1024 then (1024, 255, 63)
         else let sect = ucast secs div 63 :: u32; h' = lba_heads (ucast (sect div 1024))
              in (ucast (sect div ucast h'), h', 63))
      else if tr = TRANSLATION_RECHS then
        (let (c1, h1) = (if h = 16 then
               (ucast ((ucast (if c > 61439 then 61439 else c) :: u32) * 16 div 15), 15) else (c, h));
             (c2, h2) = large_loop c1 h1
         in (c2, h2, t))
      else if tr = TRANSLATION_LARGE then (let (c2, h2) = large_loop c h in (c2, h2, t))
      else (c, h, t))"

definition setup_translation :: "(nat \<Rightarrow> u8) \<Rightarrow> drive_s \<Rightarrow> drive_s" where
  "setup_translation cmos d =
     (let tr = get_translation cmos d;
          (c, h, t) = translate tr (sectors d) (pchs d)
      in d\<lparr>translation := tr,
           lchs := \<lparr>heads = h, cylinders = (if c > 1024 then 1024 else c), spt = t\<rparr>\<rparr>)"

section \<open>Drive maps\<close>

definition w16 :: "u16 \<Rightarrow> u8 list" where
  "w16 w = [ucast w, ucast (drop_bit 8 w)]"

definition fdpt_bytes :: "fdpt_s \<Rightarrow> u8 list" where
  "fdpt_bytes f = w16 (f_cylinders f) @ [f_heads f, a0h_signature f, phys_sectors f] @ w16 (precompensation f)
     @ [f_reserved f, drive_control_byte f] @ w16 (phys_cylinders f) @ [phys_heads f] @ w16 (landing_zone f)
     @ [f_sectors f, f_checksum f]"

text \<open>The table for a disk and the interrupt vector that is set to it; \<open>None\<close> from the third disk on.\<close>

definition fill_fdpt :: "drive_s \<Rightarrow> nat \<Rightarrow> fdpt_s \<Rightarrow> (fdpt_s \<times> nat) option" where
  "fill_fdpt d hdid f0 =
     (if hdid > 1 then None
      else
        let nlc = cylinders (lchs d); nlh = heads (lchs d); nlspt = spt (lchs d);
            npc = cylinders (pchs d); nph = heads (pchs d); npspt = spt (pchs d);
            f1 = f0\<lparr>precompensation := 0xffff,
                    drive_control_byte := 0xc0 OR (if nph > 8 then 8 else 0),
                    landing_zone := npc, f_cylinders := nlc, f_heads := ucast nlh, f_sectors := ucast nlspt\<rparr>;
            f2 = (if nlc \<noteq> npc \<or> nlh \<noteq> nph \<or> nlspt \<noteq> npspt then
                    let g = f1\<lparr>phys_cylinders := npc, phys_heads := ucast nph, phys_sectors := ucast npspt,
                              a0h_signature := 0xa0\<rparr>
                    in g\<lparr>f_checksum := f_checksum g - checksum (fdpt_bytes g)\<rparr>
                  else f1)
        in Some (f2, if hdid = 0 then 0x41 else 0x46))"

definition map_hd_drive :: "addr \<Rightarrow> drives_s \<Rightarrow> drives_s" where
  "map_hd_drive p s =
     (if unat (hdcount s) \<ge> CONFIG_MAX_EXTDRIVE then s
      else
        let n = unat (hdcount s);
            s1 = s\<lparr>idmap := (idmap s)(EXTTYPE_HD := (idmap s EXTTYPE_HD)[n := p]), hdcount := hdcount s + 1\<rparr>
        in case fill_fdpt (drive_at s p) n (fdpt s n) of None \<Rightarrow> s1
           | Some (f, v) \<Rightarrow> s1\<lparr>fdpt := (fdpt s1)(n := f), fdpt_vector := (fdpt_vector s1)(v \<mapsto> n)\<rparr>)"

text \<open>The order that \<open>add_ordered_drive\<close> keeps: by driver, then by the number of the controller.\<close>

definition drive_before :: "drive_s \<Rightarrow> drive_s \<Rightarrow> bool" where
  "drive_before d e \<longleftrightarrow> d_type d < d_type e \<or> (d_type d = d_type e \<and> cntl_id d < cntl_id e)"

fun ordered_pos :: "(addr \<Rightarrow> drive_s) \<Rightarrow> addr list \<Rightarrow> drive_s \<Rightarrow> nat \<Rightarrow> nat" where
  "ordered_pos at m d 0 = 0"
| "ordered_pos at m d (Suc prev) =
     (if drive_before (at (m ! prev)) d then Suc prev else ordered_pos at m d prev)"

text \<open>\<open>memmove(pos+1, pos, end-pos)\<close> followed by \<open>*pos = drive_g\<close>, on an array of fixed length.\<close>

definition shift_in :: "nat \<Rightarrow> nat \<Rightarrow> 'a \<Rightarrow> 'a list \<Rightarrow> 'a list" where
  "shift_in pos en p m = (take pos m @ p # take (en - pos) (drop pos m)) @ drop (Suc en) m"

definition add_ordered_drive ::
  "(addr \<Rightarrow> drive_s) \<Rightarrow> addr list \<Rightarrow> u8 \<Rightarrow> addr \<Rightarrow> addr list \<times> u8" where
  "add_ordered_drive at m count p =
     (if unat count \<ge> CONFIG_MAX_EXTDRIVE then (m, count)
      else (shift_in (ordered_pos at m (at p) (unat count)) (unat count) p m, count + 1))"

definition map_cd_drive :: "addr \<Rightarrow> drives_s \<Rightarrow> drives_s" where
  "map_cd_drive p s =
     (let (m, n) = add_ordered_drive (drive_at s) (idmap s EXTTYPE_CD) (cdcount s) p
      in s\<lparr>idmap := (idmap s)(EXTTYPE_CD := m), cdcount := n\<rparr>)"

definition map_floppy_drive :: "addr \<Rightarrow> drives_s \<Rightarrow> drives_s" where
  "map_floppy_drive p s =
     (let (m, n) = add_ordered_drive (drive_at s) (idmap s EXTTYPE_FLOPPY) (floppycount s) p;
          s1 = s\<lparr>idmap := (idmap s)(EXTTYPE_FLOPPY := m), floppycount := n\<rparr>
      in if n = 1 then s1\<lparr>equipment_list_flags := equipment_list_flags s1 OR 0x01, floppy_harddisk_info := 0x07\<rparr>
         else if n \<ge> 2 then s1\<lparr>equipment_list_flags := equipment_list_flags s1 OR 0x41, floppy_harddisk_info := 0x77\<rparr>
         else s1)"

definition drive_setup :: "drives_s \<Rightarrow> drives_s" where
  "drive_setup s = s\<lparr>floppycount := 0, cdcount := 0, idmap := (\<lambda>_. replicate CONFIG_MAX_EXTDRIVE 0)\<rparr>"

section \<open>Requests\<close>

record disk_op_s =
  op_lba :: u64
  op_buf :: u32
  op_drive :: drive_s
  op_count :: u16
  op_command :: u8

text \<open>\<open>drv\<close> gives the driver for each kind of drive: the returned code and the request after it.\<close>

definition process_op ::
  "(u8 \<Rightarrow> disk_op_s \<Rightarrow> 's \<Rightarrow> (u8 \<times> disk_op_s) \<times> 's) \<Rightarrow> disk_op_s \<Rightarrow> 's \<Rightarrow> (u8 \<times> disk_op_s) \<times> 's" where
  "process_op drv op s =
     (let t = d_type (op_drive op) in
      if t \<in> {DTYPE_FLOPPY, DTYPE_ATA, DTYPE_ATAPI, DTYPE_RAMDISK, DTYPE_CDEMU, DTYPE_USB} then drv t op s
      else ((DISK_RET_EPARAM, op\<lparr>op_count := 0\<rparr>), s))"

text \<open>
  \<open>send_disk_op\<close> and \<open>__send_disk_op\<close>: the request is copied to a stack in the EBDA; of what the
  driver changes in the copy, only the count is copied back.
\<close>

definition send_disk_op ::
  "(u8 \<Rightarrow> disk_op_s \<Rightarrow> 's \<Rightarrow> (u8 \<times> disk_op_s) \<times> 's) \<Rightarrow> disk_op_s \<Rightarrow> 's \<Rightarrow> (u8 \<times> disk_op_s) \<times> 's" where
  "send_disk_op drv op s =
     (let ((status, dop), s1) = process_op drv op s in ((status, op\<lparr>op_count := op_count dop\<rparr>), s1))"

section \<open>Properties of the translation\<close>

lemma large_loop_fits:
  assumes "unat h \<le> 127"
  shows "case large_loop c h of (c', h') \<Rightarrow> unat c' * unat h' \<le> unat c * unat h \<and> unat h' \<le> 255"
  using assms
proof (induction c h rule: large_loop.induct)
  case (1 c h)
  let ?c = "drop_bit 1 c" and ?h = "push_bit 1 h"
  have h: "unat ?h = 2 * unat h" using "1.prems" unfolding unat_push_bit_mod by simp
  have c: "unat ?c = unat c div 2" unfolding unat_drop_bit_div by simp
  have "unat c div 2 * 2 \<le> unat c" by simp
  then have "unat c div 2 * 2 * unat h \<le> unat c * unat h" by (rule mult_le_mono1)
  then have le: "unat ?c * unat ?h \<le> unat c * unat h" unfolding c h by (simp add: mult.assoc)
  show ?case
  proof (cases "c > 1024")
    case True
    show ?thesis
    proof (cases "?h > 127")
      case big: True
      then have "large_loop c h = (?c, ?h)" using True by (simp add: large_loop.simps[of c h] Let_def)
      then show ?thesis using le h "1.prems" by simp
    next
      case False
      then have s: "unat ?h \<le> 127" by (simp add: word_less_nat_alt)
      have "large_loop c h = large_loop ?c ?h" using True False by (subst large_loop.simps) (simp add: Let_def)
      then show ?thesis using "1.IH"[OF True refl refl False s] le by (auto split: prod.splits)
    qed
  next
    case False
    then show ?thesis using "1.prems" by (subst large_loop.simps) simp
  qed
qed

lemma lba_heads_range: "0 < unat (lba_heads h)" "unat (lba_heads h) \<le> 255"
  by (simp_all add: lba_heads_def)

lemma translate_lba_fits:
  assumes "translate TRANSLATION_LBA secs p = (c, h, t)"
  shows "unat c * unat h * unat t \<le> unat secs \<and> unat h \<le> 255"
proof (cases "secs > 63 * 255 * 1024")
  case True
  then show ?thesis using assms by (simp add: translate_def translation_defs word_less_nat_alt)
next
  case False
  then have s: "unat secs \<le> 16450560" by (simp add: word_less_nat_alt)
  let ?s = "ucast secs div 63 :: u32"
  let ?h = "lba_heads (ucast (?s div 1024))"
  have us: "unat ?s = unat secs div 63"
    using s by (simp add: unat_div_distrib unat_ucast_fits)
  have uh: "unat (ucast ?h :: u32) = unat ?h" using lba_heads_range(2)[of "ucast (?s div 1024)"]
    by (intro unat_ucast_fits) simp
  have r: "c = ucast (?s div ucast ?h)" "h = ?h" "t = 63"
    using assms False by (auto simp: translate_def translation_defs Let_def)
  have "unat c \<le> unat (?s div ucast ?h)" unfolding r(1) by (simp add: unat_ucast_mod)
  also have "\<dots> = unat ?s div unat ?h" by (simp add: unat_div_distrib uh)
  finally have "unat c * unat h \<le> unat ?s div unat ?h * unat ?h" unfolding r(2) by (rule mult_le_mono1)
  also have "\<dots> \<le> unat ?s" by simp
  finally have "unat c * unat h * 63 \<le> unat ?s * 63" by (rule mult_le_mono1)
  also have "\<dots> \<le> unat secs" by (simp add: us)
  finally show ?thesis using r lba_heads_range by simp
qed

definition capacity :: "chs_s \<Rightarrow> nat" where
  "capacity g = unat (heads g) * unat (cylinders g) * unat (spt g)"

lemma rechs_fits:
  fixes c :: u16
  defines "c1 \<equiv> ucast ((ucast (if c > 61439 then 61439 else c) :: u32) * 16 div 15) :: u16"
  shows "unat c1 * 15 \<le> unat c * 16"
proof -
  let ?c = "if c > 61439 then 61439 else c"
  have le: "unat ?c \<le> 61439" "unat ?c \<le> unat c" by (auto simp: word_less_nat_alt)
  have "unat ((ucast ?c :: u32) * 16) = unat ?c * 16"
    using le(1) by (subst unat_mult_nowrap) (simp_all add: unat_ucast_fits)
  then have "unat ((ucast ?c :: u32) * 16 div 15) = unat ?c * 16 div 15" by (simp add: unat_div_distrib)
  then have "unat c1 \<le> unat ?c * 16 div 15" unfolding c1_def by (simp add: unat_ucast_mod)
  then show ?thesis using le(2) by linarith
qed

lemma translate_other_fits:
  assumes "tr \<noteq> TRANSLATION_LBA" "translate tr secs p = (c, h, t)" "unat (heads p) \<le> 127"
  shows "unat c * unat h * unat t \<le> capacity p \<and> unat h \<le> 255"
proof -
  have cap: "unat c * unat h * unat t \<le> capacity p" if "unat c * unat h \<le> unat (cylinders p) * unat (heads p)" "t = spt p"
    using mult_le_mono1[OF that(1), of "unat t"] that(2) by (simp add: capacity_def mult.commute)
  consider "tr = TRANSLATION_RECHS" | "tr = TRANSLATION_LARGE" | "tr \<noteq> TRANSLATION_RECHS" "tr \<noteq> TRANSLATION_LARGE"
    by blast
  then show ?thesis
  proof cases
    case 1
    show ?thesis
    proof (cases "heads p = 16")
      case True
      let ?c1 = "ucast ((ucast (if cylinders p > 61439 then 61439 else cylinders p) :: u32) * 16 div 15) :: u16"
      have "large_loop ?c1 15 = (c, h)" "t = spt p"
        using assms(1,2) 1 True by (auto simp: translate_def Let_def split: prod.splits)
      then have "unat c * unat h \<le> unat ?c1 * 15 \<and> unat h \<le> 255" "t = spt p"
        using large_loop_fits[of 15 ?c1] by auto
      then show ?thesis using cap rechs_fits[of "cylinders p"] True by simp
    next
      case False
      then have "large_loop (cylinders p) (heads p) = (c, h)" "t = spt p"
        using assms(1,2) 1 by (auto simp: translate_def Let_def split: prod.splits)
      then show ?thesis using cap large_loop_fits[OF assms(3), of "cylinders p"] by auto
    qed
  next
    case 2
    then have "large_loop (cylinders p) (heads p) = (c, h)" "t = spt p"
      using assms(1,2) by (auto simp: translate_def translation_defs Let_def split: prod.splits)
    then show ?thesis using cap large_loop_fits[OF assms(3), of "cylinders p"] by auto
  next
    case 3
    then have "c = cylinders p" "h = heads p" "t = spt p"
      using assms(1,2) by (auto simp: translate_def Let_def)
    then show ?thesis using cap assms(3) by simp
  qed
qed

lemma heuristic_fits:
  assumes "d_type d \<noteq> DTYPE_ATA" "get_translation cmos d \<noteq> TRANSLATION_LBA"
  shows "capacity (pchs d) \<le> unat (sectors d)"
proof -
  let ?h = "heads (pchs d)" and ?c = "cylinders (pchs d)" and ?t = "spt (pchs d)"
  have b: "unat ?h < 2 ^ 16" "unat ?c < 2 ^ 16" "unat ?t < 2 ^ 16"
    using unat_lt_2p[of ?h] unat_lt_2p[of ?c] unat_lt_2p[of ?t] by simp_all
  then have hc: "unat ?h * unat ?c \<le> 2 ^ 16 * 2 ^ 16" by (intro mult_le_mono) simp_all
  then have hct: "unat ?h * unat ?c * unat ?t \<le> 2 ^ 16 * 2 ^ 16 * 2 ^ 16" using b(3) by (intro mult_le_mono[OF hc]) simp
  have u: "unat (ucast ?h * ucast ?c :: u64) = unat ?h * unat ?c"
    using b hc by (subst unat_mult_nowrap) (simp_all add: unat_ucast_fits)
  have "unat (ucast ?h * ucast ?c * ucast ?t :: u64) = capacity (pchs d)"
    using b hct by (subst unat_mult_nowrap) (simp_all add: u unat_ucast_fits capacity_def)
  moreover have "\<not> (ucast ?h * ucast ?c * ucast ?t :: u64) > sectors d"
    using assms by (auto simp: get_translation_def Let_def)
  ultimately show ?thesis by (simp add: word_less_nat_alt)
qed

lemma translate_spt: "translate tr secs p = (c, h, t) \<Longrightarrow> t = 63 \<or> t = spt p"
  by (auto simp: translate_def Let_def split: if_splits prod.splits)

text \<open>
  C14. The logical geometry that \<open>setup_translation\<close> computes can be addressed with the packed fields of interrupt
  13h (at most 1024 cylinders, 255 heads and 63 sectors per track) and never addresses more sectors than the disk has, for
  a drive whose physical geometry has at most 127 heads and 63 sectors per track, as the ATA standard allows 16 and 63. For
  ATA drives, whose translation is read from non-volatile memory, the physical geometry has to be within the disk; for the
  other drives the heuristic checks that itself.
\<close>

theorem setup_translation_fits:
  assumes "d_type d = DTYPE_ATA \<longrightarrow> capacity (pchs d) \<le> unat (sectors d)" "unat (heads (pchs d)) \<le> 127" "unat (spt (pchs d)) \<le> 63"
  shows "unat (cylinders (lchs (setup_translation cmos d))) \<le> 1024
     \<and> unat (heads (lchs (setup_translation cmos d))) \<le> 255
     \<and> unat (spt (lchs (setup_translation cmos d))) \<le> 63
     \<and> capacity (lchs (setup_translation cmos d)) \<le> unat (sectors d)"
proof -
  let ?tr = "get_translation cmos d"
  obtain c h t where tr: "translate ?tr (sectors d) (pchs d) = (c, h, t)" by (metis prod_cases3)
  let ?c = "if c > 1024 then 1024 else c"
  have l: "lchs (setup_translation cmos d) = \<lparr>heads = h, cylinders = ?c, spt = t\<rparr>"
    by (simp add: setup_translation_def tr)
  have "unat c * unat h * unat t \<le> unat (sectors d) \<and> unat h \<le> 255"
  proof (cases "?tr = TRANSLATION_LBA")
    case True
    then show ?thesis using translate_lba_fits[of "sectors d" "pchs d"] tr by simp
  next
    case False
    have "capacity (pchs d) \<le> unat (sectors d)" using assms(1) heuristic_fits False by blast
    then show ?thesis using translate_other_fits[OF False tr assms(2)] by linarith
  qed
  moreover have "unat t \<le> 63" using translate_spt[OF tr] assms(3) by auto
  moreover have c: "unat ?c \<le> unat c" "unat ?c \<le> 1024" by (auto simp: word_less_nat_alt)
  moreover have "capacity (lchs (setup_translation cmos d)) \<le> unat c * unat h * unat t"
    unfolding l capacity_def using mult_le_mono1[OF c(1), of "unat h * unat t"]
    by (simp add: mult.commute mult.left_commute)
  ultimately show ?thesis unfolding l by simp
qed

definition ex_drive :: drive_s where
  "ex_drive = \<lparr>d_type = DTYPE_ATA, floppy_type = 0, lchs = \<lparr>heads = 0, cylinders = 0, spt = 0\<rparr>, sectors = 16514064,
     cntl_id = 0, removable = 0, translation = 0, blksize = 512, pchs = \<lparr>heads = 16, cylinders = 16383, spt = 63\<rparr>\<rparr>"

theorem setup_translation_fits_witness:
  "capacity (lchs (setup_translation (\<lambda>_. 2) ex_drive)) \<le> 16514064 \<and> unat (spt (lchs (setup_translation (\<lambda>_. 2) ex_drive))) \<le> 63"
  using setup_translation_fits[of ex_drive "\<lambda>_. 2"] by (simp add: ex_drive_def capacity_def)

section \<open>Properties of the drive maps\<close>

lemma ordered_pos_le: "ordered_pos at m d n \<le> n"
  by (induction n) auto

lemma ordered_pos_spec:
  "(\<forall>i. ordered_pos at m d n \<le> i \<and> i < n \<longrightarrow> \<not> drive_before (at (m ! i)) d)
   \<and> (0 < ordered_pos at m d n \<longrightarrow> drive_before (at (m ! (ordered_pos at m d n - 1))) d)"
  by (induction n) (auto simp: less_Suc_eq)

lemma drive_before_trans: "drive_before a b \<Longrightarrow> drive_before b c \<Longrightarrow> drive_before a c"
  by (auto simp: drive_before_def)

lemma drive_before_irrefl: "\<not> drive_before a a"
  by (simp add: drive_before_def)

lemma drive_before_linear: "\<not> drive_before a b \<Longrightarrow> drive_before a c \<Longrightarrow> drive_before b c"
  by (auto simp: drive_before_def)

text \<open>
  \<open>add_ordered_drive\<close> inserts the new drive into the used part of the map and keeps that part in
  the order of driver and controller number, whatever the order in which the drives are found;
  the rest of the map and its length are unchanged, and a full map is left alone.
\<close>

theorem add_ordered_drive_sorted:
  assumes "length m = CONFIG_MAX_EXTDRIVE" "unat n < CONFIG_MAX_EXTDRIVE"
    and "sorted_wrt (\<lambda>a b. \<not> drive_before (at b) (at a)) (take (unat n) m)"
  shows "case add_ordered_drive at m n p of (m', n') \<Rightarrow>
     n' = n + 1 \<and> length m' = CONFIG_MAX_EXTDRIVE \<and> drop (unat n') m' = drop (unat n') m
     \<and> (\<exists>xs ys. take (unat n) m = xs @ ys \<and> take (unat n') m' = xs @ p # ys)
     \<and> sorted_wrt (\<lambda>a b. \<not> drive_before (at b) (at a)) (take (unat n') m')"
proof -
  define N where "N = unat n"
  define k where "k = ordered_pos at m (at p) N"
  define xs where "xs = take k m"
  define ys where "ys = take (N - k) (drop k m)"
  have N: "N < 16" "unat (n + 1) = Suc N" "length m = 16"
    using assms(1,2) by (simp_all add: N_def CONFIG_MAX_EXTDRIVE_def unat_add_nowrap)
  have k: "k \<le> N" unfolding k_def by (rule ordered_pos_le)
  have t: "take N m = xs @ ys" using k by (simp add: xs_def ys_def take_add[symmetric])
  have r: "add_ordered_drive at m n p = ((xs @ p # ys) @ drop (Suc N) m, n + 1)"
    using assms(2) by (simp add: add_ordered_drive_def shift_in_def N_def k_def xs_def ys_def not_le)
  have len: "length (xs @ p # ys) = Suc N" using k N by (simp add: xs_def ys_def)
  have sorted: "sorted_wrt (\<lambda>a b. \<not> drive_before (at b) (at a)) (xs @ ys)" using assms(3) t by (simp add: N_def)
  have idx: "m ! i = xs ! i" if "i < k" for i using that by (simp add: xs_def)
  have ysb: "\<not> drive_before (at y) (at p)" if y: "y \<in> set ys" for y
  proof -
    obtain i where "i < N - k" "y = m ! (k + i)" using y N k by (auto simp: ys_def in_set_conv_nth)
    then show ?thesis using ordered_pos_spec[of at m "at p" N] unfolding k_def[symmetric] by auto
  qed
  have xsb: "\<not> drive_before (at p) (at x)" if x: "x \<in> set xs" for x
  proof
    assume bad: "drive_before (at p) (at x)"
    obtain i where i: "i < k" "x = m ! i" using x N k by (auto simp: xs_def in_set_conv_nth)
    have last: "drive_before (at (m ! (k - 1))) (at p)"
      using ordered_pos_spec[of at m "at p" N] i(1) unfolding k_def[symmetric] by simp
    have "\<not> drive_before (at (m ! (k - 1))) (at x)" if "i < k - 1"
      using sorted N k i that unfolding sorted_wrt_append
      by (auto simp: sorted_wrt_iff_nth_less xs_def)
    moreover have "i = k - 1" if "\<not> i < k - 1" using i(1) that by simp
    ultimately show False using drive_before_trans[OF last bad] i(2) drive_before_irrefl by metis
  qed
  have "sorted_wrt (\<lambda>a b. \<not> drive_before (at b) (at a)) (xs @ p # ys)"
    using sorted xsb ysb by (auto simp: sorted_wrt_append)
  moreover define m' where "m' = (xs @ p # ys) @ drop (Suc N) m"
  moreover have m': "take (Suc N) m' = xs @ p # ys" "drop (Suc N) m' = drop (Suc N) m" "length m' = 16"
    unfolding m'_def using len N append_eq_conv_conj by (metis, metis, simp)
  moreover have "add_ordered_drive at m n p = (m', n + 1)" unfolding r m'_def ..
  ultimately show ?thesis using t N unfolding N_def CONFIG_MAX_EXTDRIVE_def by auto
qed

theorem add_ordered_drive_sorted_witness:
  "snd (add_ordered_drive (\<lambda>a. ex_drive\<lparr>cntl_id := of_nat a\<rparr>) ([3, 7] @ replicate 14 0) 2 5) = 3
   \<and> drop 3 (fst (add_ordered_drive (\<lambda>a. ex_drive\<lparr>cntl_id := of_nat a\<rparr>) ([3, 7] @ replicate 14 0) 2 5))
       = replicate 13 0"
proof -
  let ?at = "\<lambda>a. ex_drive\<lparr>cntl_id := of_nat a\<rparr>" and ?m = "[3, 7] @ replicate 14 (0::nat)"
  have "sorted_wrt (\<lambda>a b. \<not> drive_before (?at b) (?at a)) (take (unat (2::u8)) ?m)"
    by (simp add: drive_before_def)
  then show ?thesis using add_ordered_drive_sorted[of ?m 2 ?at 5]
    by (auto simp: CONFIG_MAX_EXTDRIVE_def split: prod.splits)
qed

lemma fill_fdpt_checksum:
  assumes "fill_fdpt d hdid f = Some (g, v)" "lchs d \<noteq> pchs d"
  shows "checksum (fdpt_bytes g) = 0"
proof -
  have "cylinders (lchs d) \<noteq> cylinders (pchs d) \<or> heads (lchs d) \<noteq> heads (pchs d) \<or> spt (lchs d) \<noteq> spt (pchs d)"
    using assms(2) by (metis chs_s.equality old.unit.exhaust)
  then show ?thesis using assms(1)
    by (auto simp: fill_fdpt_def Let_def fdpt_bytes_def split: if_splits)
qed

end
