(* ===== verification/Disk.thy ===== *)
theory Disk
  imports Block Bregs
begin

text \<open>
  \<open>bios/seabios/src/disk.c\<close>: interrupt 13h, the disk interface of the BIOS, with the emulation of
  a disk on a CD where it meets that interface (\<open>cdemu_134b\<close> of \<open>cdrom.c\<close>).
\<close>

section \<open>Data\<close>

definition EXTSTART_HD :: u8 where "EXTSTART_HD = 0x80"
definition EXTSTART_CD :: u8 where "EXTSTART_CD = 0xE0"
definition DISK_RET_ECHANGED :: u8 where "DISK_RET_ECHANGED = 0x06"
definition DISK_RET_ENOTLOCKED :: u8 where "DISK_RET_ENOTLOCKED = 0xb0"
definition DISK_RET_ELOCKED :: u8 where "DISK_RET_ELOCKED = 0xb1"
definition DISK_RET_ENOTREMOVABLE :: u8 where "DISK_RET_ENOTREMOVABLE = 0xb2"
definition DISK_RET_ETOOMANYLOCKS :: u8 where "DISK_RET_ETOOMANYLOCKS = 0xb4"
definition CMD_RESET :: u8 where "CMD_RESET = 0x00"
definition CMD_READ :: u8 where "CMD_READ = 0x02"
definition CMD_WRITE :: u8 where "CMD_WRITE = 0x03"
definition CMD_VERIFY :: u8 where "CMD_VERIFY = 0x04"
definition CMD_FORMAT :: u8 where "CMD_FORMAT = 0x05"
definition CMD_SEEK :: u8 where "CMD_SEEK = 0x07"
definition CMD_ISREADY :: u8 where "CMD_ISREADY = 0x10"

text \<open>The request packet of the extended calls, at \<open>ds:si\<close> of the caller.\<close>

record int13ext_s =
  x_count :: u16
  x_seg :: u16
  x_off :: u16
  x_lba :: u64

text \<open>The drive parameter packet, also at \<open>ds:si\<close>, and the table that it points to.\<close>

record int13dpt_s =
  p_size :: u16
  p_infos :: u16
  p_cylinders :: u32
  p_heads :: u32
  p_spt :: u32
  p_sector_count :: u64
  p_blksize :: u16
  p_dpte_offset :: u16
  p_dpte_segment :: u16
  p_key :: u16
  p_dpi_length :: u8
  p_reserved1 :: u8
  p_reserved2 :: u16
  p_host_bus :: "u8 list"
  p_iface_type :: "u8 list"
  p_iface_path :: u64
  p_device_path :: u64
  p_reserved3 :: u8
  p_checksum :: u8

record dpte_s =
  dpte_iobase1 :: u16
  dpte_iobase2 :: u16
  dpte_prefix :: u8
  dpte_unused :: u8
  dpte_irq :: u8
  dpte_blkcount :: u8
  dpte_dma :: u8
  dpte_pio :: u8
  dpte_options :: u16
  dpte_reserved :: u16
  dpte_revision :: u8
  dpte_checksum :: u8

record cdemu_s =
  emulated_drive :: addr
  ilba :: u32
  buffer_segment :: u16
  load_segment :: u16
  sector_count :: u16
  active :: u8
  media :: u8
  emulated_extdrive :: u8
  cd_lchs :: chs_s

record eltorito_s =
  et_size :: u8
  et_media :: u8
  et_emulated_drive :: u8
  et_controller_index :: u8
  et_ilba :: u32
  et_device_spec :: u16
  et_buffer_segment :: u16
  et_load_segment :: u16
  et_sector_count :: u16
  et_cylinders :: u8
  et_sectors :: u8
  et_heads :: u8

text \<open>Of the structure of an ATA drive, what the drive parameters report.\<close>

record ata_info =
  ata_slave :: bool
  ata_iobase1 :: u16
  ata_iobase2 :: u16
  ata_irq :: u8
  ata_bdf :: "u16 option"

text \<open>
  The state of the disk services. \<open>hw\<close> is the state of the devices and of memory, which only the
  drivers change; the packets are those that \<open>ds:si\<close> of the current caller points to.
\<close>

record 'h disk =
  floppy_last_status :: u8
  disk_last_status :: u8
  disk_interrupt_flag :: u8
  drives :: drives_s
  cdemu :: cdemu_s
  cdemu_drive :: addr
  cdrom_locks :: "u8 list"
  dpte :: dpte_s
  int13ext :: int13ext_s
  int13dpt :: int13dpt_s
  eltorito :: eltorito_s
  hw :: 'h

text \<open>
  What the services call outside this file: the drivers, the eject request (interrupt 15h,
  function 52h, which returns \<open>ah\<close> and the carry flag), and addresses that the linker chooses.
\<close>

record 'h disk_env =
  env_drv :: "u8 \<Rightarrow> disk_op_s \<Rightarrow> 'h \<Rightarrow> (u8 \<times> disk_op_s) \<times> 'h"
  env_eject :: "u8 \<Rightarrow> u8 \<times> bool"
  env_ata :: "addr \<Rightarrow> ata_info"
  env_param_table :: u16
  env_ebda_seg :: u16
  env_dpte_offset :: u16

section \<open>Helpers\<close>

definition disk_status :: "u8 \<Rightarrow> bregs \<Rightarrow> 'h disk \<Rightarrow> 'h disk" where
  "disk_status code r s =
     (if r_dl r < EXTSTART_HD then s\<lparr>floppy_last_status := code\<rparr> else s\<lparr>disk_last_status := code\<rparr>)"

definition disk_ret :: "u8 \<Rightarrow> bregs \<Rightarrow> 'h disk \<Rightarrow> bregs \<times> 'h disk" where
  "disk_ret code r s =
     (if code \<noteq> 0 then set_code_invalid code r else set_code_success r, disk_status code r s)"

definition disk_ret_unimplemented :: "u8 \<Rightarrow> bregs \<Rightarrow> 'h disk \<Rightarrow> bregs \<times> 'h disk" where
  "disk_ret_unimplemented code r s = (set_code_invalid code r, disk_status code r s)"

definition DISK_STUB :: "bregs \<Rightarrow> 'h disk \<Rightarrow> bregs \<times> 'h disk" where
  "DISK_STUB r s = disk_ret DISK_RET_SUCCESS r s"

definition fillLCHS :: "addr \<Rightarrow> 'h disk \<Rightarrow> chs_s" where
  "fillLCHS d s = (if d = cdemu_drive s then cd_lchs (cdemu s) else lchs (drive_at (drives s) d))"

text \<open>Sending a request: the status, the request afterwards, and the state.\<close>

definition send_op :: "'h disk_env \<Rightarrow> disk_op_s \<Rightarrow> 'h disk \<Rightarrow> u8 \<times> disk_op_s \<times> 'h disk" where
  "send_op env op s =
     (let ((status, op1), h) = send_disk_op (env_drv env) op (hw s) in (status, op1, s\<lparr>hw := h\<rparr>))"

definition MAKE_FLATPTR :: "u16 \<Rightarrow> u16 \<Rightarrow> u32" where
  "MAKE_FLATPTR seg off = push_bit 4 (ucast seg) + ucast off"

definition chs_cylinder :: "bregs \<Rightarrow> u16" where
  "chs_cylinder r = ucast (r_ch r) OR (push_bit 2 (ucast (r_cl r)) AND 0x300)"

definition chs_lba :: "u16 \<Rightarrow> u16 \<Rightarrow> u16 \<Rightarrow> chs_s \<Rightarrow> u32" where
  "chs_lba cylinder head sector g =
     (ucast cylinder * ucast (heads g) + ucast head) * ucast (spt g) + ucast sector - 1"

definition basic_access :: "'h disk_env \<Rightarrow> addr \<Rightarrow> u8 \<Rightarrow> bregs \<Rightarrow> 'h disk \<Rightarrow> bregs \<times> 'h disk" where
  "basic_access env d command r s =
     (let count = r_al r; cylinder = chs_cylinder r; sector = ucast (r_cl r AND 0x3f) :: u16;
          head = ucast (r_dh r) :: u16
      in if count > 128 \<or> count = 0 \<or> sector = 0 then disk_ret DISK_RET_EPARAM r s
         else
           let g = fillLCHS d s in
           if cylinder \<ge> cylinders g \<or> head \<ge> heads g \<or> sector > spt g then disk_ret DISK_RET_EPARAM r s
           else
             let op = \<lparr>op_lba = ucast (chs_lba cylinder head sector g), op_buf = MAKE_FLATPTR (r_es r) (r_bx r),
                       op_drive = drive_at (drives s) d, op_count = ucast count, op_command = command\<rparr>;
                 (status, op1, s1) = send_op env op s
             in disk_ret status (set_al (ucast (op_count op1)) r) s1)"

definition extended_access :: "'h disk_env \<Rightarrow> addr \<Rightarrow> u8 \<Rightarrow> bregs \<Rightarrow> 'h disk \<Rightarrow> bregs \<times> 'h disk" where
  "extended_access env d command r s =
     (let x = int13ext s; drive = drive_at (drives s) d in
      if x_lba x \<ge> sectors drive then disk_ret DISK_RET_EPARAM r s
      else
        let op = \<lparr>op_lba = x_lba x, op_buf = MAKE_FLATPTR (x_seg x) (x_off x), op_drive = drive,
                  op_count = x_count x, op_command = command\<rparr>;
            (status, op1, s1) = send_op env op s
        in disk_ret status r (s1\<lparr>int13ext := (int13ext s1)\<lparr>x_count := op_count op1\<rparr>\<rparr>))"

text \<open>
  A request of which only the drive and the command are set; the code leaves the other fields
  uninitialised, and \<open>junk\<close> is what they hold.
\<close>

definition plain_op :: "disk_op_s \<Rightarrow> addr \<Rightarrow> u8 \<Rightarrow> 'h disk \<Rightarrow> disk_op_s" where
  "plain_op junk d command s = junk\<lparr>op_drive := drive_at (drives s) d, op_command := command\<rparr>"

section \<open>The functions of interrupt 13h\<close>

definition disk_1300 :: "'h disk_env \<Rightarrow> disk_op_s \<Rightarrow> addr \<Rightarrow> bregs \<Rightarrow> 'h disk \<Rightarrow> bregs \<times> 'h disk" where
  "disk_1300 env junk d r s =
     (let (status, _, s1) = send_op env (plain_op junk d CMD_RESET s) s in disk_ret status r s1)"

definition disk_1301 :: "bregs \<Rightarrow> 'h disk \<Rightarrow> bregs \<times> 'h disk" where
  "disk_1301 r s =
     (let v = (if r_dl r < EXTSTART_HD then floppy_last_status s else disk_last_status s)
      in (set_cf (v \<noteq> 0) (set_ah v r), s))"

definition disk_1302 :: "'h disk_env \<Rightarrow> addr \<Rightarrow> bregs \<Rightarrow> 'h disk \<Rightarrow> bregs \<times> 'h disk" where
  "disk_1302 env d r s = basic_access env d CMD_READ r s"

definition disk_1303 :: "'h disk_env \<Rightarrow> addr \<Rightarrow> bregs \<Rightarrow> 'h disk \<Rightarrow> bregs \<times> 'h disk" where
  "disk_1303 env d r s = basic_access env d CMD_WRITE r s"

definition disk_1304 :: "'h disk_env \<Rightarrow> addr \<Rightarrow> bregs \<Rightarrow> 'h disk \<Rightarrow> bregs \<times> 'h disk" where
  "disk_1304 env d r s = basic_access env d CMD_VERIFY r s"

definition disk_1305 :: "'h disk_env \<Rightarrow> addr \<Rightarrow> bregs \<Rightarrow> 'h disk \<Rightarrow> bregs \<times> 'h disk" where
  "disk_1305 env d r s =
     (let g = fillLCHS d s; num_sectors = r_al r; head = r_dh r in
      if ucast head \<ge> heads g \<or> num_sectors = 0 \<or> ucast num_sectors > spt g then disk_ret DISK_RET_EPARAM r s
      else
        let op = \<lparr>op_lba = ucast head, op_buf = MAKE_FLATPTR (r_es r) (r_bx r), op_drive = drive_at (drives s) d,
                  op_count = ucast num_sectors, op_command = CMD_FORMAT\<rparr>;
            (status, _, s1) = send_op env op s
        in disk_ret status r s1)"

definition disk_1308 :: "'h disk_env \<Rightarrow> addr \<Rightarrow> bregs \<Rightarrow> 'h disk \<Rightarrow> bregs \<times> 'h disk" where
  "disk_1308 env d r s =
     (let g = fillLCHS d s; nlc = cylinders g - 1; nlh = heads g - 1; nlspt = spt g in
      if r_dl r \<ge> EXTSTART_CD then disk_ret DISK_RET_EPARAM r s
      else
        let (count, nlc, r1) =
              (if r_dl r < EXTSTART_HD then
                 (floppycount (drives s), nlc,
                  (set_bx (if d = cdemu_drive s then ucast (media (cdemu s)) * 2
                           else ucast (floppy_type (drive_at (drives s) d))) r)
                  \<lparr>r_es := 0xf000, r_edi := put_lo16 (env_param_table env) (r_edi r)\<rparr>)
               else (hdcount (drives s), nlc - 1, r));
            count = (if active (cdemu s) \<noteq> 0 then
                let c1 = (if (emulated_extdrive (cdemu s) XOR r_dl r1) AND 0x80 = 0 then count + 1 else count)
                in (if r_dl r1 < EXTSTART_HD \<and> c1 > 2 then 2 else c1)
              else count);
            r2 = set_dh (ucast nlh) (set_cl (ucast (drop_bit 2 nlc AND 0xc0) OR ucast (nlspt AND 0x3f))
                   (set_ch (ucast nlc) (set_al 0 r1)));
            (r3, s1) = disk_ret DISK_RET_SUCCESS r2 s
        in (set_dl count r3, s1))"

definition disk_1309 :: "bregs \<Rightarrow> 'h disk \<Rightarrow> bregs \<times> 'h disk" where "disk_1309 r s = DISK_STUB r s"
definition disk_130c :: "bregs \<Rightarrow> 'h disk \<Rightarrow> bregs \<times> 'h disk" where "disk_130c r s = DISK_STUB r s"
definition disk_130d :: "bregs \<Rightarrow> 'h disk \<Rightarrow> bregs \<times> 'h disk" where "disk_130d r s = DISK_STUB r s"

definition disk_1310 :: "'h disk_env \<Rightarrow> disk_op_s \<Rightarrow> addr \<Rightarrow> bregs \<Rightarrow> 'h disk \<Rightarrow> bregs \<times> 'h disk" where
  "disk_1310 env junk d r s =
     (let (status, _, s1) = send_op env (plain_op junk d CMD_ISREADY s) s in disk_ret status r s1)"

definition disk_1311 :: "bregs \<Rightarrow> 'h disk \<Rightarrow> bregs \<times> 'h disk" where "disk_1311 r s = DISK_STUB r s"
definition disk_1314 :: "bregs \<Rightarrow> 'h disk \<Rightarrow> bregs \<times> 'h disk" where "disk_1314 r s = DISK_STUB r s"

definition disk_1315 :: "addr \<Rightarrow> bregs \<Rightarrow> 'h disk \<Rightarrow> bregs \<times> 'h disk" where
  "disk_1315 d r s =
     (let (r1, s1) = disk_ret DISK_RET_SUCCESS r s in
      if r_dl r1 < EXTSTART_HD \<or> r_dl r1 \<ge> EXTSTART_CD then (set_ah 1 r1, s1)
      else
        let g = fillLCHS d s1;
            lba = (ucast (cylinders g) - 1) * ucast (heads g) * ucast (spt g) :: u32
        in (set_ah 3 (set_dx (ucast lba) (set_cx (ucast (drop_bit 16 lba)) r1)), s1))"

definition disk_1316 :: "bregs \<Rightarrow> 'h disk \<Rightarrow> bregs \<times> 'h disk" where
  "disk_1316 r s =
     (if r_dl r \<ge> EXTSTART_HD then disk_ret DISK_RET_EPARAM r s else disk_ret DISK_RET_ECHANGED r s)"

definition disk_1341 :: "bregs \<Rightarrow> 'h disk \<Rightarrow> bregs \<times> 'h disk" where
  "disk_1341 r s =
     (let (r1, s1) = disk_ret DISK_RET_SUCCESS (set_cx 0x0007 (set_bx 0xaa55 r)) s in (set_ah 0x30 r1, s1))"

definition disk_1342 :: "'h disk_env \<Rightarrow> addr \<Rightarrow> bregs \<Rightarrow> 'h disk \<Rightarrow> bregs \<times> 'h disk" where
  "disk_1342 env d r s = extended_access env d CMD_READ r s"

definition disk_1343 :: "'h disk_env \<Rightarrow> addr \<Rightarrow> bregs \<Rightarrow> 'h disk \<Rightarrow> bregs \<times> 'h disk" where
  "disk_1343 env d r s = extended_access env d CMD_WRITE r s"

definition disk_1344 :: "'h disk_env \<Rightarrow> addr \<Rightarrow> bregs \<Rightarrow> 'h disk \<Rightarrow> bregs \<times> 'h disk" where
  "disk_1344 env d r s = extended_access env d CMD_VERIFY r s"

definition cd_index :: "bregs \<Rightarrow> nat" where
  "cd_index r = unat (r_dl r - EXTSTART_CD)"

definition disk_134500 :: "bregs \<Rightarrow> 'h disk \<Rightarrow> bregs \<times> 'h disk" where
  "disk_134500 r s =
     (let i = cd_index r; locks = cdrom_locks s ! i in
      if locks = 0xff then disk_ret DISK_RET_ETOOMANYLOCKS (set_al 1 r) s
      else disk_ret DISK_RET_SUCCESS (set_al 1 r) (s\<lparr>cdrom_locks := (cdrom_locks s)[i := locks + 1]\<rparr>))"

definition disk_134501 :: "bregs \<Rightarrow> 'h disk \<Rightarrow> bregs \<times> 'h disk" where
  "disk_134501 r s =
     (let i = cd_index r; locks = cdrom_locks s ! i in
      if locks = 0 then disk_ret DISK_RET_ENOTLOCKED (set_al 0 r) s
      else disk_ret DISK_RET_SUCCESS (set_al (if locks - 1 \<noteq> 0 then 1 else 0) r)
             (s\<lparr>cdrom_locks := (cdrom_locks s)[i := locks - 1]\<rparr>))"

definition disk_134502 :: "bregs \<Rightarrow> 'h disk \<Rightarrow> bregs \<times> 'h disk" where
  "disk_134502 r s =
     disk_ret DISK_RET_SUCCESS (set_al (if cdrom_locks s ! cd_index r \<noteq> 0 then 1 else 0) r) s"

definition disk_1345XX :: "bregs \<Rightarrow> 'h disk \<Rightarrow> bregs \<times> 'h disk" where
  "disk_1345XX r s = disk_ret_unimplemented DISK_RET_EPARAM r s"

definition disk_1345 :: "bregs \<Rightarrow> 'h disk \<Rightarrow> bregs \<times> 'h disk" where
  "disk_1345 r s =
     (if r_dl r < EXTSTART_CD then disk_ret DISK_RET_SUCCESS r s
      else if r_al r = 0 then disk_134500 r s
      else if r_al r = 1 then disk_134501 r s
      else if r_al r = 2 then disk_134502 r s
      else disk_1345XX r s)"

definition disk_1346 :: "'h disk_env \<Rightarrow> bregs \<Rightarrow> 'h disk \<Rightarrow> bregs \<times> 'h disk" where
  "disk_1346 env r s =
     (if r_dl r < EXTSTART_CD then disk_ret DISK_RET_ENOTREMOVABLE r s
      else if cdrom_locks s ! cd_index r \<noteq> 0 then disk_ret DISK_RET_ELOCKED r s
      else let (ah, carry) = env_eject env (r_dl r)
           in if ah \<noteq> 0 \<or> carry then disk_ret DISK_RET_ELOCKED r s else disk_ret DISK_RET_SUCCESS r s)"

definition disk_1347 :: "'h disk_env \<Rightarrow> addr \<Rightarrow> bregs \<Rightarrow> 'h disk \<Rightarrow> bregs \<times> 'h disk" where
  "disk_1347 env d r s = extended_access env d CMD_SEEK r s"

section \<open>Drive parameters\<close>

definition dpte_bytes :: "dpte_s \<Rightarrow> u8 list" where
  "dpte_bytes t = le_bytes 2 (dpte_iobase1 t) @ le_bytes 2 (dpte_iobase2 t)
     @ [dpte_prefix t, dpte_unused t, dpte_irq t, dpte_blkcount t, dpte_dma t, dpte_pio t]
     @ le_bytes 2 (dpte_options t) @ le_bytes 2 (dpte_reserved t) @ [dpte_revision t]"

text \<open>The 35 bytes of the packet from offset 30 on, which its check sum covers.\<close>

definition dpi_bytes :: "int13dpt_s \<Rightarrow> u8 list" where
  "dpi_bytes p = le_bytes 2 (p_key p) @ [p_dpi_length p, p_reserved1 p] @ le_bytes 2 (p_reserved2 p)
     @ p_host_bus p @ p_iface_type p @ le_bytes 8 (p_iface_path p) @ le_bytes 8 (p_device_path p) @ [p_reserved3 p]"

definition dpt_edd1 :: "drive_s \<Rightarrow> int13dpt_s \<Rightarrow> int13dpt_s" where
  "dpt_edd1 dr p0 =
     (let npc = cylinders (pchs dr); nph = heads (pchs dr); npspt = spt (pchs dr); lba = sectors dr;
          p1 = p0\<lparr>p_size := 26\<rparr>;
          p2 = (if d_type dr = DTYPE_ATAPI then
                  p1\<lparr>p_infos := 0x74, p_cylinders := 0xffffffff, p_heads := 0xffffffff, p_spt := 0xffffffff,
                     p_sector_count := - 1\<rparr>
                else
                  let q = (if lba > ucast npspt * ucast nph * 0x3fff
                           then p1\<lparr>p_infos := 0x00, p_cylinders := 0x3fff\<rparr>
                           else p1\<lparr>p_infos := 0x02, p_cylinders := ucast npc\<rparr>)
                  in q\<lparr>p_heads := ucast nph, p_spt := ucast npspt, p_sector_count := lba\<rparr>)
      in p2\<lparr>p_blksize := blksize dr\<rparr>)"

definition dpte_options_of :: "drive_s \<Rightarrow> u16" where
  "dpte_options_of dr =
     (let opts = (if d_type dr = DTYPE_ATA then
                    (if translation dr \<noteq> TRANSLATION_NONE
                     then 0x8 OR (if translation dr = TRANSLATION_LBA then 0x200 else 0)
                          OR (if translation dr = TRANSLATION_RECHS then 0x600 else 0)
                     else 0)
                  else 0x20 OR 0x40)
      in opts OR 0x10)"

definition fill_dpte :: "drive_s \<Rightarrow> ata_info \<Rightarrow> dpte_s \<Rightarrow> dpte_s" where
  "fill_dpte dr a t0 =
     (let t = t0\<lparr>dpte_iobase1 := ata_iobase1 a, dpte_iobase2 := ata_iobase2 a + 2,
                dpte_prefix := (if ata_slave a then 0xb0 else 0xa0) OR 0x40, dpte_unused := 0xcb,
                dpte_irq := ata_irq a, dpte_blkcount := 1, dpte_dma := 0, dpte_pio := 0,
                dpte_options := dpte_options_of dr, dpte_reserved := 0, dpte_revision := 0x11\<rparr>
      in t\<lparr>dpte_checksum := - checksum (dpte_bytes t)\<rparr>)"

definition dpt_edd3 :: "ata_info \<Rightarrow> int13dpt_s \<Rightarrow> int13dpt_s" where
  "dpt_edd3 a p0 =
     (let p1 = p0\<lparr>p_key := 0xbedd, p_dpi_length := 36, p_reserved1 := 0, p_reserved2 := 0\<rparr>;
          p2 = (case ata_bdf a of
                  Some bdf \<Rightarrow> p1\<lparr>p_host_bus := [0x50, 0x43, 0x49, 0],
                    p_iface_path := ucast ((ucast (drop_bit 8 bdf) OR push_bit 8 (ucast (drop_bit 3 bdf AND 0x1f))
                                            OR push_bit 16 (ucast (bdf AND 0x07))) :: u32)\<rparr>
                | None \<Rightarrow> p1\<lparr>p_host_bus := [0x49, 0x53, 0x41, 0], p_iface_path := ucast (ata_iobase1 a)\<rparr>);
          p3 = p2\<lparr>p_iface_type := [0x41, 0x54, 0x41, 0, 0, 0, 0, 0], p_device_path := (if ata_slave a then 1 else 0)\<rparr>
      in p3\<lparr>p_checksum := - checksum (dpi_bytes p3)\<rparr>)"

definition disk_1348 :: "'h disk_env \<Rightarrow> addr \<Rightarrow> bregs \<Rightarrow> 'h disk \<Rightarrow> bregs \<times> 'h disk" where
  "disk_1348 env d r s =
     (let size = p_size (int13dpt s); dr = drive_at (drives s) d; a = env_ata env d in
      if size < 26 then disk_ret DISK_RET_EPARAM r s
      else
        let s1 = s\<lparr>int13dpt := dpt_edd1 dr (int13dpt s)\<rparr> in
        if size < 30 \<or> (d_type dr \<noteq> DTYPE_ATA \<and> d_type dr \<noteq> DTYPE_ATAPI) then disk_ret DISK_RET_SUCCESS r s1
        else
          let s2 = s1\<lparr>int13dpt := (int13dpt s1)\<lparr>p_size := 30, p_dpte_segment := env_ebda_seg env,
                        p_dpte_offset := env_dpte_offset env\<rparr>,
                     dpte := fill_dpte dr a (dpte s1)\<rparr>
          in if size < 66 then disk_ret DISK_RET_SUCCESS r s2
             else disk_ret DISK_RET_SUCCESS r (s2\<lparr>int13dpt := dpt_edd3 a (int13dpt s2)\<rparr>))"

section \<open>The entry points\<close>

definition disk_1349 :: "bregs \<Rightarrow> 'h disk \<Rightarrow> bregs \<times> 'h disk" where
  "disk_1349 r s =
     (if r_dl r < EXTSTART_CD then disk_ret DISK_RET_SUCCESS r s
      else (set_ah DISK_RET_ECHANGED (set_invalid r), s))"

definition disk_134e01 :: "bregs \<Rightarrow> 'h disk \<Rightarrow> bregs \<times> 'h disk" where "disk_134e01 r s = disk_ret DISK_RET_SUCCESS r s"
definition disk_134e03 :: "bregs \<Rightarrow> 'h disk \<Rightarrow> bregs \<times> 'h disk" where "disk_134e03 r s = disk_ret DISK_RET_SUCCESS r s"
definition disk_134e04 :: "bregs \<Rightarrow> 'h disk \<Rightarrow> bregs \<times> 'h disk" where "disk_134e04 r s = disk_ret DISK_RET_SUCCESS r s"
definition disk_134e06 :: "bregs \<Rightarrow> 'h disk \<Rightarrow> bregs \<times> 'h disk" where "disk_134e06 r s = disk_ret DISK_RET_SUCCESS r s"
definition disk_134eXX :: "bregs \<Rightarrow> 'h disk \<Rightarrow> bregs \<times> 'h disk" where "disk_134eXX r s = disk_ret DISK_RET_EPARAM r s"

definition disk_134e :: "bregs \<Rightarrow> 'h disk \<Rightarrow> bregs \<times> 'h disk" where
  "disk_134e r s =
     (if r_al r = 0x01 then disk_134e01 r s else if r_al r = 0x03 then disk_134e03 r s
      else if r_al r = 0x04 then disk_134e04 r s else if r_al r = 0x06 then disk_134e06 r s
      else disk_134eXX r s)"

definition disk_13XX :: "bregs \<Rightarrow> 'h disk \<Rightarrow> bregs \<times> 'h disk" where
  "disk_13XX r s = disk_ret_unimplemented DISK_RET_EPARAM r s"

definition disk_13 :: "'h disk_env \<Rightarrow> disk_op_s \<Rightarrow> addr \<Rightarrow> bregs \<Rightarrow> 'h disk \<Rightarrow> bregs \<times> 'h disk" where
  "disk_13 env junk d r s0 =
     (let s = s0\<lparr>disk_interrupt_flag := 0\<rparr>; f = r_ah r in
      if f = 0x00 then disk_1300 env junk d r s
      else if f = 0x01 then disk_1301 r s
      else if f = 0x02 then disk_1302 env d r s
      else if f = 0x03 then disk_1303 env d r s
      else if f = 0x04 then disk_1304 env d r s
      else if f = 0x05 then disk_1305 env d r s
      else if f = 0x08 then disk_1308 env d r s
      else if f = 0x09 then disk_1309 r s
      else if f = 0x0c then disk_130c r s
      else if f = 0x0d then disk_130d r s
      else if f = 0x10 then disk_1310 env junk d r s
      else if f = 0x11 then disk_1311 r s
      else if f = 0x14 then disk_1314 r s
      else if f = 0x15 then disk_1315 d r s
      else if f = 0x16 then disk_1316 r s
      else if f = 0x41 then disk_1341 r s
      else if f = 0x42 then disk_1342 env d r s
      else if f = 0x43 then disk_1343 env d r s
      else if f = 0x44 then disk_1344 env d r s
      else if f = 0x45 then disk_1345 r s
      else if f = 0x46 then disk_1346 env r s
      else if f = 0x47 then disk_1347 env d r s
      else if f = 0x48 then disk_1348 env d r s
      else if f = 0x49 then disk_1349 r s
      else if f = 0x4e then disk_134e r s
      else disk_13XX r s)"

definition floppy_13 :: "'h disk_env \<Rightarrow> disk_op_s \<Rightarrow> addr \<Rightarrow> bregs \<Rightarrow> 'h disk \<Rightarrow> bregs \<times> 'h disk" where
  "floppy_13 env junk d r s =
     (if r_ah r \<in> {0x00, 0x01, 0x02, 0x03, 0x04, 0x05, 0x08, 0x15, 0x16} then disk_13 env junk d r s
      else disk_13XX r s)"

definition legacy_drive :: "u8 \<Rightarrow> 'h disk \<Rightarrow> addr" where
  "legacy_drive extdrive s =
     (if extdrive < EXTSTART_HD then getDrive EXTTYPE_FLOPPY extdrive (drives s)
      else if extdrive \<ge> EXTSTART_CD then getDrive EXTTYPE_CD (extdrive - EXTSTART_CD) (drives s)
      else getDrive EXTTYPE_HD (extdrive - EXTSTART_HD) (drives s))"

definition handle_legacy_disk :: "'h disk_env \<Rightarrow> disk_op_s \<Rightarrow> u8 \<Rightarrow> bregs \<Rightarrow> 'h disk \<Rightarrow> bregs \<times> 'h disk" where
  "handle_legacy_disk env junk extdrive r s =
     (let d = legacy_drive extdrive s in
      if d = 0 then disk_ret DISK_RET_EPARAM r s
      else if extdrive < EXTSTART_HD then floppy_13 env junk d r s
      else disk_13 env junk d r s)"

definition handle_40 :: "'h disk_env \<Rightarrow> disk_op_s \<Rightarrow> bregs \<Rightarrow> 'h disk \<Rightarrow> bregs \<times> 'h disk" where
  "handle_40 env junk r s = handle_legacy_disk env junk (r_dl r) r s"

definition cdemu_134b :: "bregs \<Rightarrow> 'h disk \<Rightarrow> bregs \<times> 'h disk" where
  "cdemu_134b r s =
     (let c = cdemu s; g = cd_lchs c;
          id = (if emulated_drive c \<noteq> 0 then ucast (cntl_id (drive_at (drives s) (emulated_drive c))) else 0) :: u8;
          et = \<lparr>et_size = 0x13, et_media = media c, et_emulated_drive = emulated_extdrive c,
                et_controller_index = id div 2, et_ilba = ilba c, et_device_spec = ucast (id mod 2),
                et_buffer_segment = buffer_segment c, et_load_segment = load_segment c,
                et_sector_count = sector_count c, et_cylinders = ucast (cylinders g), et_sectors = ucast (spt g),
                et_heads = ucast (heads g)\<rparr>;
          s1 = s\<lparr>eltorito := et\<rparr>;
          s2 = (if r_al r = 0 then s1\<lparr>cdemu := c\<lparr>active := 0\<rparr>\<rparr> else s1)
      in disk_ret DISK_RET_SUCCESS r s2)"

definition handle_13 :: "'h disk_env \<Rightarrow> disk_op_s \<Rightarrow> bregs \<Rightarrow> 'h disk \<Rightarrow> bregs \<times> 'h disk" where
  "handle_13 env junk r s =
     (let extdrive = r_dl r; emudrive = emulated_extdrive (cdemu s) in
      if r_ah r = 0x4b then cdemu_134b r s
      else if active (cdemu s) \<noteq> 0 then
        (if extdrive = emudrive then
           (if r_ah r > 0x16 then disk_13XX r s else disk_13 env junk (cdemu_drive s) r s)
         else if extdrive < EXTSTART_CD \<and> (emudrive XOR extdrive) AND 0x80 = 0
         then handle_legacy_disk env junk (extdrive - 1) r s
         else handle_legacy_disk env junk extdrive r s)
      else handle_legacy_disk env junk extdrive r s)"

definition handle_76 :: "'h disk \<Rightarrow> 'h disk" where
  "handle_76 s = s\<lparr>disk_interrupt_flag := 0xff\<rparr>"

section \<open>Properties\<close>

lemma unat_ucast_16_32: "unat (ucast (w::u16) :: u32) = unat w"
  using unat_lt_2p[of w] by (intro unat_ucast_fits) simp

text \<open>The sector address in 32 bits is the one in unbounded arithmetic.\<close>

lemma unat_chs_lba:
  assumes "unat c < unat (cylinders g)" "unat h < unat (heads g)" "0 < unat t" "unat t \<le> unat (spt g)"
    and "capacity g < 2 ^ 32"
  shows "unat (chs_lba c h t g) = (unat c * unat (heads g) + unat h) * unat (spt g) + unat t - 1"
    and "(unat c * unat (heads g) + unat h) * unat (spt g) + unat t \<le> capacity g"
proof -
  let ?H = "unat (heads g)" and ?S = "unat (spt g)"
  have "unat c * ?H + unat h < (unat c + 1) * ?H" using assms(2) by simp
  also have "\<dots> \<le> unat (cylinders g) * ?H" using assms(1) by (intro mult_le_mono1) simp
  finally have ch: "unat c * ?H + unat h + 1 \<le> unat (cylinders g) * ?H" by simp
  have "(unat c * ?H + unat h) * ?S + ?S = (unat c * ?H + unat h + 1) * ?S" by (simp add: algebra_simps)
  also have "\<dots> \<le> unat (cylinders g) * ?H * ?S" using ch by (intro mult_le_mono1)
  finally show cap: "(unat c * ?H + unat h) * ?S + unat t \<le> capacity g"
    using assms(4) by (simp add: capacity_def mult.commute)
  have S1: "1 \<le> ?S" using assms(3,4) by simp
  have lt: "(unat c * ?H + unat h) * ?S < 2 ^ 32" using cap assms(3,5) by simp
  have "unat c * ?H + unat h \<le> (unat c * ?H + unat h) * ?S" using S1 by simp
  then have l1: "unat c * ?H + unat h < 2 ^ 32" using lt by linarith
  have a: "unat (ucast c * ucast (heads g) :: u32) = unat c * ?H"
    using l1 by (subst unat_mult_nowrap) (simp_all add: unat_ucast_16_32)
  have b: "unat (ucast c * ucast (heads g) + ucast h :: u32) = unat c * ?H + unat h"
    using l1 by (subst unat_add_nowrap) (simp_all add: a unat_ucast_16_32)
  have d: "unat ((ucast c * ucast (heads g) + ucast h) * ucast (spt g) :: u32) = (unat c * ?H + unat h) * ?S"
    using lt by (subst unat_mult_nowrap) (simp_all add: b unat_ucast_16_32)
  have e: "unat ((ucast c * ucast (heads g) + ucast h) * ucast (spt g) + ucast t :: u32)
      = (unat c * ?H + unat h) * ?S + unat t"
    using cap assms(5) by (subst unat_add_nowrap) (simp_all add: d unat_ucast_16_32)
  show "unat (chs_lba c h t g) = (unat c * ?H + unat h) * ?S + unat t - 1"
    unfolding chs_lba_def using assms(3) by (subst unat_diff_nowrap) (simp_all add: e word_le_nat_alt)
qed

text \<open>
  C16. A read, write or verify by cylinder, head and sector that passes the checks reaches the driver
  as one request for the sector with exactly that position: the address lies below the capacity of
  the logical geometry, and cylinder, head and sector can be recovered from it. A request outside
  the geometry is refused with the parameter error and the carry flag, and no driver is called.
\<close>

theorem basic_access_addresses:
  fixes r :: bregs and s :: "'h disk" and d :: addr
  assumes "capacity (fillLCHS d s) < 2 ^ 32"
  defines "g \<equiv> fillLCHS d s" and "c \<equiv> chs_cylinder r" and "h \<equiv> r_dh r" and "t \<equiv> r_cl r AND 0x3f"
  shows "if 0 < unat (r_al r) \<and> unat (r_al r) \<le> 128 \<and> 0 < unat t
            \<and> unat c < unat (cylinders g) \<and> unat h < unat (heads g) \<and> unat t \<le> unat (spt g)
         then \<exists>op. unat (op_lba op) < capacity g
            \<and> unat (op_lba op) mod unat (spt g) + 1 = unat t
            \<and> unat (op_lba op) div unat (spt g) mod unat (heads g) = unat h
            \<and> unat (op_lba op) div unat (spt g) div unat (heads g) = unat c
            \<and> op_count op = ucast (r_al r) \<and> op_command op = command \<and> op_drive op = drive_at (drives s) d
            \<and> (let (status, op1, s1) = send_op env op s
               in basic_access env d command r s = disk_ret status (set_al (ucast (op_count op1)) r) s1)
         else basic_access env d command r s = disk_ret DISK_RET_EPARAM r s"
proof -
  have u: "unat (ucast h :: u16) = unat h" "unat (ucast t :: u16) = unat t"
    using unat_lt_2p[of h] unat_lt_2p[of t] by (intro unat_ucast_fits; simp)+
  let ?ok = "0 < unat (r_al r) \<and> unat (r_al r) \<le> 128 \<and> 0 < unat t
    \<and> unat c < unat (cylinders g) \<and> unat h < unat (heads g) \<and> unat t \<le> unat (spt g)"
  have t0: "(ucast t :: u16) = 0 \<longleftrightarrow> unat t = 0" unfolding word_eq_iff_unat u by simp
  have al: "r_al r = 0 \<longleftrightarrow> unat (r_al r) = 0" "r_al r > 128 \<longleftrightarrow> \<not> unat (r_al r) \<le> 128"
    by (simp_all add: word_eq_iff_unat word_less_nat_alt not_le)
  have ge: "c \<ge> cylinders g \<longleftrightarrow> \<not> unat c < unat (cylinders g)" "ucast h \<ge> heads g \<longleftrightarrow> \<not> unat h < unat (heads g)"
    "ucast t > spt g \<longleftrightarrow> \<not> unat t \<le> unat (spt g)" by (simp_all add: word_le_nat_alt word_less_nat_alt u not_less not_le)
  define op where "op = \<lparr>op_lba = ucast (chs_lba c (ucast h) (ucast t) g), op_buf = MAKE_FLATPTR (r_es r) (r_bx r),
    op_drive = drive_at (drives s) d, op_count = ucast (r_al r), op_command = command\<rparr>"
  have ba: "basic_access env d command r s = (if \<not> ?ok then disk_ret DISK_RET_EPARAM r s else
      let (status, op1, s1) = send_op env op s in disk_ret status (set_al (ucast (op_count op1)) r) s1)"
    unfolding basic_access_def Let_def g_def[symmetric] c_def[symmetric] h_def[symmetric] t_def[symmetric]
      op_def[symmetric] t0 al ge by auto
  show ?thesis
  proof (cases ?ok)
    case False
    show ?thesis unfolding ba if_not_P[OF False] if_P[OF False] ..
  next
    case True
    let ?H = "unat (heads g)" and ?S = "unat (spt g)" and ?l = "chs_lba c (ucast h) (ucast t) g"
    have cap: "capacity g < 2 ^ 32" using assms(1) by (simp add: g_def)
    note l = unat_chs_lba[of c g "ucast h" "ucast t", unfolded u, OF _ _ _ _ cap]
    have lba: "unat (op_lba op) = unat ?l" unfolding op_def using unat_lt_2p[of ?l] by (simp add: unat_ucast_fits)
    have eq: "unat ?l = (unat c * ?H + unat h) * ?S + (unat t - 1)" using l(1) True by simp
    have t1: "unat t - 1 < ?S" using True by linarith
    have m: "unat ?l mod ?S = unat t - 1" "unat ?l div ?S = unat c * ?H + unat h" unfolding eq using t1 by simp_all
    have "unat ?l < capacity g" using l True by linarith
    moreover have "unat ?l mod ?S + 1 = unat t" using m True by simp
    moreover have "unat ?l div ?S mod ?H = unat h" "unat ?l div ?S div ?H = unat c"
      unfolding m(2) using True by simp_all
    moreover have "op_count op = ucast (r_al r) \<and> op_command op = command \<and> op_drive op = drive_at (drives s) d"
      by (simp add: op_def)
    ultimately show ?thesis unfolding ba using True lba
      by (simp split: prod.split) (metis (no_types, lifting) prod.inject)
  qed
qed

definition ex_regs :: bregs where
  "ex_regs = \<lparr>r_ds = 0, r_es = 0, r_edi = 0, r_esi = 0, r_ebp = 0, r_ebx = 0x7c00, r_edx = 0x380, r_ecx = 0x507,
     r_eax = 0x201, r_flags = 0\<rparr>"

definition ex_disk :: "disk_op_s list disk" where
  "ex_disk = \<lparr>floppy_last_status = 0, disk_last_status = 0, disk_interrupt_flag = 0,
     drives = \<lparr>floppycount = 0, cdcount = 0, hdcount = 1, idmap = (\<lambda>_. replicate 16 0),
       drive_at = (\<lambda>_. ex_drive\<lparr>lchs := \<lparr>heads = 16, cylinders = 1024, spt = 63\<rparr>\<rparr>),
       equipment_list_flags = 0, floppy_harddisk_info = 0, fdpt = undefined, fdpt_vector = Map.empty\<rparr>,
     cdemu = \<lparr>emulated_drive = 0, ilba = 0, buffer_segment = 0, load_segment = 0, sector_count = 0, active = 0,
       media = 0, emulated_extdrive = 0, cd_lchs = \<lparr>heads = 0, cylinders = 0, spt = 0\<rparr>\<rparr>,
     cdemu_drive = 9, cdrom_locks = replicate 16 0, dpte = undefined, int13ext = undefined, int13dpt = undefined,
     eltorito = undefined, hw = []\<rparr>"

definition ex_env :: "disk_op_s list disk_env" where
  "ex_env = \<lparr>env_drv = (\<lambda>t op h. ((0, op), op # h)), env_eject = (\<lambda>_. (0, False)), env_ata = undefined,
     env_param_table = 0, env_ebda_seg = 0, env_dpte_offset = 0\<rparr>"

theorem basic_access_addresses_witness:
  "\<exists>op. unat (op_lba op) mod 63 = 6 \<and> unat (op_lba op) div 63 mod 16 = 3 \<and> unat (op_lba op) div 63 div 16 = 5
     \<and> hw (snd (basic_access ex_env 1 CMD_READ ex_regs ex_disk)) = [op]"
proof -
  have g: "fillLCHS 1 ex_disk = \<lparr>heads = 16, cylinders = 1024, spt = 63\<rparr>" by (simp add: fillLCHS_def ex_disk_def)
  have r: "r_al ex_regs = 1" "chs_cylinder ex_regs = 5" "r_dh ex_regs = 3" "r_cl ex_regs AND 0x3f = 7"
    by (simp_all add: ex_regs_def reg_defs lo8_def hi8_def chs_cylinder_def)
  have cap: "capacity (fillLCHS 1 ex_disk) < 2 ^ 32" unfolding g capacity_def by simp
  obtain op where op: "unat (op_lba op) mod 63 + 1 = 7" "unat (op_lba op) div 63 mod 16 = 3" "unat (op_lba op) div 63 div 16 = 5"
    "op_drive op = drive_at (drives ex_disk) 1"
    "let (status, op1, s1) = send_op ex_env op ex_disk
     in basic_access ex_env 1 CMD_READ ex_regs ex_disk = disk_ret status (set_al (ucast (op_count op1)) ex_regs) s1"
    using basic_access_addresses[OF cap, of ex_regs CMD_READ ex_env] unfolding g r by auto
  have "d_type (op_drive op) = DTYPE_ATA" using op(4) by (simp add: ex_disk_def ex_drive_def)
  then have "send_op ex_env op ex_disk = (0, op, ex_disk\<lparr>hw := [op]\<rparr>)"
    by (simp add: send_op_def send_disk_op_def process_op_def ex_env_def Let_def) (simp add: ex_disk_def)
  then show ?thesis using op by (auto simp: disk_ret_def disk_status_def)
qed

text \<open>
  A drive number that no map has an entry for is refused by every function (but the emulation
  call), with the parameter error and the carry flag set, and reaches no driver.
\<close>

lemma absent_drive_refused:
  assumes "active (cdemu s) = 0" "legacy_drive (r_dl r) s = 0" "r_ah r \<noteq> 0x4b"
  shows "case handle_13 env junk r s of (r', s') \<Rightarrow> r_ah r' = DISK_RET_EPARAM \<and> cf r' \<and> hw s' = hw s"
  using assms by (simp add: handle_13_def handle_legacy_disk_def disk_ret_def disk_status_def DISK_RET_EPARAM_def)

text \<open>The tables that function 48h fills sum to zero with their check sums.\<close>

lemma fill_dpte_checksum:
  "checksum (dpte_bytes (fill_dpte dr a t)) + dpte_checksum (fill_dpte dr a t) = 0"
  by (simp add: fill_dpte_def Let_def dpte_bytes_def)

lemma dpt_edd3_checksum: "checksum (dpi_bytes (dpt_edd3 a p)) + p_checksum (dpt_edd3 a p) = 0"
  by (simp add: dpt_edd3_def Let_def dpi_bytes_def split: option.split)

text \<open>Locking a drive 255 times is possible, and each unlock undoes one lock.\<close>

lemma lock_unlock:
  assumes "cd_index r < length (cdrom_locks s)" "cdrom_locks s ! cd_index r \<noteq> 0xff"
  shows "cdrom_locks (snd (disk_134501 r (snd (disk_134500 r s)))) = cdrom_locks s"
proof -
  let ?i = "cd_index r"
  have ff: "(0xff :: u8) = - 1" by simp
  have "cdrom_locks s ! ?i + 1 \<noteq> 0" using assms(2) unfolding ff by (simp only: eq_neg_iff_add_eq_0 not_False_eq_True)
  then show ?thesis using assms
    by (simp add: disk_134501_def disk_134500_def disk_ret_def disk_status_def Let_def)
qed

end
