(* ===== verification/Clock.thy ===== *)
theory Clock
  imports Bios_Util Bregs
begin

text \<open>
  \<open>bios/seabios/src/clock.c\<close>: the time stamp counter and delays, the real time clock in the CMOS
  memory, the tick counter of interrupt 08h, interrupt 1Ah, and the interval timer that interrupt
  15h offers over the periodic interrupt of the clock (\<open>handle_70\<close>).

  A loop that polls takes the list of the values that it reads; \<open>None\<close> means that the list ends
  while the loop still waits. Reading status register C of the clock clears it, as its data sheet
  says. Interrupts that call code of the guest (1Ch, 4Ah) and the poll of the USB keyboard are
  parameters.
\<close>

definition RTC_A_UIP :: u8 where "RTC_A_UIP = 0x80"
definition RTC_B_SET :: u8 where "RTC_B_SET = 0x80"
definition RTC_B_PIE :: u8 where "RTC_B_PIE = 0x40"
definition RTC_B_AIE :: u8 where "RTC_B_AIE = 0x20"
definition RTC_B_24HR :: u8 where "RTC_B_24HR = 0x02"
definition RTC_B_DSE :: u8 where "RTC_B_DSE = 0x01"
definition RWS_WAIT_PENDING :: u8 where "RWS_WAIT_PENDING = 0x01"
definition RET_ECLOCKINUSE :: u8 where "RET_ECLOCKINUSE = 0x83"

lemmas rtc_defs = RTC_A_UIP_def RTC_B_SET_def RTC_B_PIE_def RTC_B_AIE_def RTC_B_24HR_def RTC_B_DSE_def
  RWS_WAIT_PENDING_def

definition CMOS_RTC_SECONDS :: u8 where "CMOS_RTC_SECONDS = 0x00"
definition CMOS_RTC_SECONDS_ALARM :: u8 where "CMOS_RTC_SECONDS_ALARM = 0x01"
definition CMOS_RTC_MINUTES :: u8 where "CMOS_RTC_MINUTES = 0x02"
definition CMOS_RTC_MINUTES_ALARM :: u8 where "CMOS_RTC_MINUTES_ALARM = 0x03"
definition CMOS_RTC_HOURS :: u8 where "CMOS_RTC_HOURS = 0x04"
definition CMOS_RTC_HOURS_ALARM :: u8 where "CMOS_RTC_HOURS_ALARM = 0x05"
definition CMOS_RTC_DAY_MONTH :: u8 where "CMOS_RTC_DAY_MONTH = 0x07"
definition CMOS_RTC_MONTH :: u8 where "CMOS_RTC_MONTH = 0x08"
definition CMOS_RTC_YEAR :: u8 where "CMOS_RTC_YEAR = 0x09"
definition CMOS_STATUS_A :: u8 where "CMOS_STATUS_A = 0x0a"
definition CMOS_STATUS_B :: u8 where "CMOS_STATUS_B = 0x0b"
definition CMOS_STATUS_C :: u8 where "CMOS_STATUS_C = 0x0c"
definition CMOS_STATUS_D :: u8 where "CMOS_STATUS_D = 0x0d"
definition CMOS_CENTURY :: u8 where "CMOS_CENTURY = 0x32"

lemmas cmos_defs = CMOS_RTC_SECONDS_def CMOS_RTC_SECONDS_ALARM_def CMOS_RTC_MINUTES_def CMOS_RTC_MINUTES_ALARM_def
  CMOS_RTC_HOURS_def CMOS_RTC_HOURS_ALARM_def CMOS_RTC_DAY_MONTH_def CMOS_RTC_MONTH_def CMOS_RTC_YEAR_def
  CMOS_STATUS_A_def CMOS_STATUS_B_def CMOS_STATUS_C_def CMOS_STATUS_D_def CMOS_CENTURY_def

definition PIT_TICK_RATE :: nat where "PIT_TICK_RATE = 1193180"
definition PIT_TICK_INTERVAL :: nat where "PIT_TICK_INTERVAL = 65536"
definition TICKS_PER_DAY :: u32 where
  "TICKS_PER_DAY = of_nat (60 * 60 * 24 * PIT_TICK_RATE div PIT_TICK_INTERVAL)"
definition CALIBRATE_COUNT :: nat where "CALIBRATE_COUNT = 0x800"
definition USEC_PER_RTC :: u32 where "USEC_PER_RTC = (1000000 + 1024 div 2) div 1024"

text \<open>
  The state: fields of the BIOS data area, the users of the periodic interrupt (in the EBDA), the
  speed of the processor, the CMOS memory, the main memory (for the flag of a waiting caller), the
  output register of the floppy controller, and the writes to the other ports, in order.
\<close>

record clock =
  timer_counter :: u32
  timer_rollover :: u8
  rtc_wait_flag :: u8
  user_wait_complete_flag :: "u16 \<times> u16"
  user_wait_timeout :: u32
  floppy_motor_counter :: u8
  RTCusers :: int
  cpu_khz :: u32
  cmos :: "u8 \<Rightarrow> u8"
  ck_mem :: memory
  port_fd_dor :: u8
  port_writes :: "(u16 \<times> u8) list"

definition outb :: "u8 \<Rightarrow> u16 \<Rightarrow> clock \<Rightarrow> clock" where
  "outb v port s = s\<lparr>port_writes := port_writes s @ [(port, v)]\<rparr>"

definition inb_cmos :: "u8 \<Rightarrow> clock \<Rightarrow> u8 \<times> clock" where
  "inb_cmos reg s =
     (cmos s reg, if reg = CMOS_STATUS_C then s\<lparr>cmos := (cmos s)(reg := 0)\<rparr> else s)"

definition outb_cmos :: "u8 \<Rightarrow> u8 \<Rightarrow> clock \<Rightarrow> clock" where
  "outb_cmos v reg s = s\<lparr>cmos := (cmos s)(reg := v)\<rparr>"

definition eoi_pic1 :: "clock \<Rightarrow> clock" where "eoi_pic1 s = outb 0x20 0x20 s"
definition eoi_pic2 :: "clock \<Rightarrow> clock" where "eoi_pic2 s = eoi_pic1 (outb 0x20 0xa0 s)"

section \<open>The time stamp counter\<close>

text \<open>\<open>check_time\<close>: the difference is read as a signed number, so that the counter may wrap.\<close>

definition check_time :: "u64 \<Rightarrow> u64 \<Rightarrow> bool" where
  "check_time now end_time = (sint (now - end_time) > 0)"

definition calc_future_tsc :: "u64 \<Rightarrow> u32 \<Rightarrow> u32 \<Rightarrow> u64" where
  "calc_future_tsc now khz msecs = now + ucast khz * ucast msecs"

definition calc_future_tsc_usec :: "u64 \<Rightarrow> u32 \<Rightarrow> u32 \<Rightarrow> u64" where
  "calc_future_tsc_usec now khz usecs = now + ucast (khz div 1000) * ucast usecs"

text \<open>
  \<open>calibrate_tsc\<close>: \<open>orig\<close> is the byte of the control port, \<open>polls\<close> what the loop reads from it, and
  \<open>start\<close>, \<open>stop\<close> are the two readings of the counter.
\<close>

definition calibrate_tsc :: "u8 \<Rightarrow> u8 list \<Rightarrow> u64 \<Rightarrow> u64 \<Rightarrow> clock \<Rightarrow> clock option" where
  "calibrate_tsc orig polls start stop s =
     (let s1 = outb ((orig AND NOT 0x02) OR 0x01) 0x61 s;
          s2 = outb 0xb0 0x43 s1;
          s3 = outb (of_nat (CALIBRATE_COUNT mod 256)) 0x42 s2;
          s4 = outb (of_nat (CALIBRATE_COUNT div 256)) 0x42 s3
      in if \<forall>p \<in> set polls. p AND 0x20 = 0 then None
         else
           let s5 = outb orig 0x61 s4;
               diff = stop - start;
               hz = ucast (diff * of_nat PIT_TICK_RATE div of_nat CALIBRATE_COUNT) :: u32
           in Some (s5\<lparr>cpu_khz := hz div 1000\<rparr>))"

text \<open>
  \<open>tscdelay\<close> and \<open>tscsleep\<close>: the number of turns of the loop, over the counter values that
  \<open>check_time\<close> reads.
\<close>

fun tsc_wait :: "u64 \<Rightarrow> u64 list \<Rightarrow> nat option" where
  "tsc_wait end_time [] = None"
| "tsc_wait end_time (now # ts) =
     (if check_time now end_time then Some 0 else map_option Suc (tsc_wait end_time ts))"

definition tscdelay :: "u64 \<Rightarrow> u64 \<Rightarrow> u64 list \<Rightarrow> nat option" where
  "tscdelay diff start ts = tsc_wait (start + diff) ts"

definition ndelay :: "u32 \<Rightarrow> u64 \<Rightarrow> u64 list \<Rightarrow> clock \<Rightarrow> nat option" where
  "ndelay count start ts s = tscdelay (ucast (count * cpu_khz s div 1000000)) start ts"

definition udelay :: "u32 \<Rightarrow> u64 \<Rightarrow> u64 list \<Rightarrow> clock \<Rightarrow> nat option" where
  "udelay count start ts s = tscdelay (ucast (count * cpu_khz s div 1000)) start ts"

definition mdelay :: "u32 \<Rightarrow> u64 \<Rightarrow> u64 list \<Rightarrow> clock \<Rightarrow> nat option" where
  "mdelay count start ts s = tscdelay (ucast (count * cpu_khz s)) start ts"

section \<open>Initialisation\<close>

text \<open>
  \<open>rtc_updating\<close>: each sample is the update bit of status register A and the counter value read
  next; the first counter value is the one that the deadline is computed from.
\<close>

fun rtc_updating_loop :: "u64 \<Rightarrow> (bool \<times> u64) list \<Rightarrow> int option" where
  "rtc_updating_loop end_time [] = None"
| "rtc_updating_loop end_time ((uip, now) # w) =
     (if \<not> uip then Some 0 else if check_time now end_time then Some (- 1) else rtc_updating_loop end_time w)"

fun rtc_updating :: "u32 \<Rightarrow> (bool \<times> u64) list \<Rightarrow> int option" where
  "rtc_updating khz [] = None"
| "rtc_updating khz ((uip, now) # w) =
     (if \<not> uip then Some 0 else rtc_updating_loop (calc_future_tsc now khz 15) w)"

definition pit_setup :: "clock \<Rightarrow> clock" where
  "pit_setup s = outb 0x0 0x40 (outb 0x0 0x40 (outb 0x34 0x43 s))"

definition init_rtc :: "clock \<Rightarrow> clock" where
  "init_rtc s =
     (let s1 = outb_cmos 0x26 CMOS_STATUS_A s;
          (regB, s2) = inb_cmos CMOS_STATUS_B s1;
          s3 = outb_cmos ((regB AND RTC_B_DSE) OR RTC_B_24HR) CMOS_STATUS_B s2;
          (_, s4) = inb_cmos CMOS_STATUS_C s3;
          (_, s5) = inb_cmos CMOS_STATUS_D s4
      in s5)"

definition bcd2bin :: "u8 \<Rightarrow> u32" where
  "bcd2bin val = ucast (val AND 0xf) + ucast (drop_bit 4 val) * 10"

text \<open>\<open>enable_hwirq\<close> (pic.c) installs the handlers of interrupts 08h and 70h and is left out.\<close>

definition timer_setup ::
  "u8 \<Rightarrow> u8 list \<Rightarrow> u64 \<Rightarrow> u64 \<Rightarrow> (bool \<times> u64) list \<Rightarrow> clock \<Rightarrow> clock option" where
  "timer_setup orig polls start stop w s = Option.bind (calibrate_tsc orig polls start stop s) (\<lambda>s1.
     let s2 = init_rtc (pit_setup s1) in
     Option.bind (rtc_updating (cpu_khz s2) w) (\<lambda>_.
     let (sec, s3) = inb_cmos CMOS_RTC_SECONDS s2;
         (mnt, s4) = inb_cmos CMOS_RTC_MINUTES s3;
         (hr, s5) = inb_cmos CMOS_RTC_HOURS s4;
         ticks = (bcd2bin hr * 60 + bcd2bin mnt) * 60 + bcd2bin sec;
         ticks' = ucast ((ucast ticks :: u64) * of_nat PIT_TICK_RATE div of_nat PIT_TICK_INTERVAL) :: u32
     in Some (s5\<lparr>timer_counter := ticks', timer_rollover := 0\<rparr>)))"

section \<open>Interrupt 1Ah\<close>

definition handle_1a00 :: "bregs \<Rightarrow> clock \<Rightarrow> (bregs \<times> clock) option" where
  "handle_1a00 r s =
     (let ticks = timer_counter s;
          r1 = set_al (timer_rollover s) (set_dx (ucast ticks) (set_cx (ucast (drop_bit 16 ticks)) r))
      in Some (set_success r1, s\<lparr>timer_rollover := 0\<rparr>))"

definition reg_cxdx :: "bregs \<Rightarrow> u32" where
  "reg_cxdx r = push_bit 16 (ucast (r_cx r)) OR ucast (r_dx r)"

definition handle_1a01 :: "bregs \<Rightarrow> clock \<Rightarrow> (bregs \<times> clock) option" where
  "handle_1a01 r s =
     Some (set_success (set_ah 0 r), s\<lparr>timer_counter := reg_cxdx r, timer_rollover := 0\<rparr>)"

definition handle_1a02 :: "(bool \<times> u64) list \<Rightarrow> bregs \<Rightarrow> clock \<Rightarrow> (bregs \<times> clock) option" where
  "handle_1a02 w r s = Option.bind (rtc_updating (cpu_khz s) w) (\<lambda>u.
     if u \<noteq> 0 then Some (set_invalid r, s)
     else
       let (sec, s1) = inb_cmos CMOS_RTC_SECONDS s;
           (mnt, s2) = inb_cmos CMOS_RTC_MINUTES s1;
           (hr, s3) = inb_cmos CMOS_RTC_HOURS s2;
           (b, s4) = inb_cmos CMOS_STATUS_B s3;
           r1 = set_dl (b AND RTC_B_DSE) (set_ch hr (set_cl mnt (set_dh sec r)));
           r2 = set_ah 0 r1
       in Some (set_success (set_al (r_ch r2) r2), s4))"

definition handle_1a03 :: "(bool \<times> u64) list \<Rightarrow> bregs \<Rightarrow> clock \<Rightarrow> (bregs \<times> clock) option" where
  "handle_1a03 w r s = Option.bind (rtc_updating (cpu_khz s) w) (\<lambda>u.
     let s0 = (if u \<noteq> 0 then init_rtc s else s);
         s1 = outb_cmos (r_dh r) CMOS_RTC_SECONDS s0;
         s2 = outb_cmos (r_cl r) CMOS_RTC_MINUTES s1;
         s3 = outb_cmos (r_ch r) CMOS_RTC_HOURS s2;
         (b, s4) = inb_cmos CMOS_STATUS_B s3;
         val8 = (b AND (RTC_B_PIE OR RTC_B_AIE)) OR RTC_B_24HR OR (r_dl r AND RTC_B_DSE);
         s5 = outb_cmos val8 CMOS_STATUS_B s4
     in Some (set_success (set_al val8 (set_ah 0 r)), s5))"

definition handle_1a04 :: "(bool \<times> u64) list \<Rightarrow> bregs \<Rightarrow> clock \<Rightarrow> (bregs \<times> clock) option" where
  "handle_1a04 w r0 s = (let r = set_ah 0 r0 in Option.bind (rtc_updating (cpu_khz s) w) (\<lambda>u.
     if u \<noteq> 0 then Some (set_invalid r, s)
     else
       let (y, s1) = inb_cmos CMOS_RTC_YEAR s;
           (m, s2) = inb_cmos CMOS_RTC_MONTH s1;
           (d, s3) = inb_cmos CMOS_RTC_DAY_MONTH s2;
           (c, s4) = inb_cmos CMOS_CENTURY s3;
           r1 = set_ch c (set_dl d (set_dh m (set_cl y r)))
       in Some (set_success (set_al (r_ch r1) r1), s4)))"

definition handle_1a05 :: "(bool \<times> u64) list \<Rightarrow> bregs \<Rightarrow> clock \<Rightarrow> (bregs \<times> clock) option" where
  "handle_1a05 w r s = Option.bind (rtc_updating (cpu_khz s) w) (\<lambda>u.
     if u \<noteq> 0 then Some (set_invalid r, init_rtc s)
     else
       let s1 = outb_cmos (r_cl r) CMOS_RTC_YEAR s;
           s2 = outb_cmos (r_dh r) CMOS_RTC_MONTH s1;
           s3 = outb_cmos (r_dl r) CMOS_RTC_DAY_MONTH s2;
           s4 = outb_cmos (r_ch r) CMOS_CENTURY s3;
           (b, s5) = inb_cmos CMOS_STATUS_B s4;
           val8 = b AND NOT RTC_B_SET;
           s6 = outb_cmos val8 CMOS_STATUS_B s5
       in Some (set_success (set_al val8 (set_ah 0 r)), s6))"

definition handle_1a06 :: "(bool \<times> u64) list \<Rightarrow> bregs \<Rightarrow> clock \<Rightarrow> (bregs \<times> clock) option" where
  "handle_1a06 w r0 s0 =
     (let (val8, s) = inb_cmos CMOS_STATUS_B s0; r = set_ax 0 r0 in
      if val8 AND RTC_B_AIE \<noteq> 0 then Some (set_invalid r, s)
      else Option.bind (rtc_updating (cpu_khz s) w) (\<lambda>u.
        let s1 = (if u \<noteq> 0 then init_rtc s else s);
            s2 = outb_cmos (r_dh r) CMOS_RTC_SECONDS_ALARM s1;
            s3 = outb_cmos (r_cl r) CMOS_RTC_MINUTES_ALARM s2;
            s4 = outb_cmos (r_ch r) CMOS_RTC_HOURS_ALARM s3;
            s5 = outb_cmos ((val8 AND NOT RTC_B_SET) OR RTC_B_AIE) CMOS_STATUS_B s4
        in Some (set_success r, s5)))"

definition handle_1a07 :: "bregs \<Rightarrow> clock \<Rightarrow> (bregs \<times> clock) option" where
  "handle_1a07 r s =
     (let (val8, s1) = inb_cmos CMOS_STATUS_B s;
          s2 = outb_cmos (val8 AND NOT (RTC_B_SET OR RTC_B_AIE)) CMOS_STATUS_B s1
      in Some (set_success (set_al val8 (set_ah 0 r)), s2))"

definition handle_1aXX :: "bregs \<Rightarrow> clock \<Rightarrow> (bregs \<times> clock) option" where
  "handle_1aXX r s = Some (set_invalid r, s)"

text \<open>\<open>pci\<close> is the PCI service of function B1h.\<close>

definition handle_1a ::
  "(bregs \<Rightarrow> clock \<Rightarrow> (bregs \<times> clock) option) \<Rightarrow> (bool \<times> u64) list \<Rightarrow> bregs \<Rightarrow> clock \<Rightarrow> (bregs \<times> clock) option" where
  "handle_1a pci w r s =
     (let f = r_ah r in
      if f = 0x00 then handle_1a00 r s
      else if f = 0x01 then handle_1a01 r s
      else if f = 0x02 then handle_1a02 w r s
      else if f = 0x03 then handle_1a03 w r s
      else if f = 0x04 then handle_1a04 w r s
      else if f = 0x05 then handle_1a05 w r s
      else if f = 0x06 then handle_1a06 w r s
      else if f = 0x07 then handle_1a07 r s
      else if f = 0xb1 then pci r s
      else handle_1aXX r s)"

section \<open>The timer tick\<close>

definition floppy_tick :: "clock \<Rightarrow> clock" where
  "floppy_tick s =
     (let fcount = floppy_motor_counter s in
      if fcount \<noteq> 0 then
        let s1 = s\<lparr>floppy_motor_counter := fcount - 1\<rparr>
        in if fcount - 1 = 0 then s1\<lparr>port_fd_dor := port_fd_dor s1 AND 0xcf\<rparr> else s1
      else s)"

text \<open>\<open>usb_check\<close> and \<open>int1c\<close> are what the USB keyboard and the tick handler of the guest do.\<close>

definition handle_08 :: "(clock \<Rightarrow> clock) \<Rightarrow> (clock \<Rightarrow> clock) \<Rightarrow> clock \<Rightarrow> clock" where
  "handle_08 usb_check int1c s0 =
     (let s = floppy_tick s0;
          c = timer_counter s + 1;
          s1 = (if c \<ge> TICKS_PER_DAY
                then s\<lparr>timer_rollover := timer_rollover s + 1, timer_counter := 0\<rparr>
                else s\<lparr>timer_counter := c\<rparr>)
      in eoi_pic1 (int1c (usb_check s1)))"

section \<open>The periodic interrupt\<close>

definition useRTC :: "clock \<Rightarrow> clock" where
  "useRTC s =
     (let count = RTCusers s; s1 = s\<lparr>RTCusers := count + 1\<rparr> in
      if count \<noteq> 0 then s1
      else let (b, s2) = inb_cmos CMOS_STATUS_B s1 in outb_cmos (b OR RTC_B_PIE) CMOS_STATUS_B s2)"

definition releaseRTC :: "clock \<Rightarrow> clock" where
  "releaseRTC s =
     (let count = RTCusers s; s1 = s\<lparr>RTCusers := count - 1\<rparr> in
      if count \<noteq> 1 then s1
      else let (b, s2) = inb_cmos CMOS_STATUS_B s1 in outb_cmos (b AND NOT RTC_B_PIE) CMOS_STATUS_B s2)"

definition set_usertimer :: "u32 \<Rightarrow> u16 \<Rightarrow> u16 \<Rightarrow> clock \<Rightarrow> int \<times> clock" where
  "set_usertimer usecs seg off s =
     (if rtc_wait_flag s AND RWS_WAIT_PENDING \<noteq> 0 then (- 1, s)
      else (0, useRTC (s\<lparr>rtc_wait_flag := RWS_WAIT_PENDING, user_wait_complete_flag := (seg, off),
                         user_wait_timeout := usecs\<rparr>)))"

definition clear_usertimer :: "clock \<Rightarrow> clock" where
  "clear_usertimer s =
     (if rtc_wait_flag s AND RWS_WAIT_PENDING = 0 then s else releaseRTC (s\<lparr>rtc_wait_flag := 0\<rparr>))"

text \<open>
  \<open>handle_1586\<close>: the flag is a byte on the stack at \<open>(seg, off)\<close>. Each element of \<open>irqs\<close> is what
  happens during one \<open>wait_irq\<close>.
\<close>

fun wait_flag :: "(clock \<Rightarrow> clock) list \<Rightarrow> u32 \<Rightarrow> clock \<Rightarrow> clock option" where
  "wait_flag irqs a s =
     (if ck_mem s a \<noteq> 0 then Some s
      else case irqs of [] \<Rightarrow> None | f # fs \<Rightarrow> wait_flag fs a (f s))"

declare wait_flag.simps [simp del]

definition handle_1586 :: "(clock \<Rightarrow> clock) list \<Rightarrow> u16 \<Rightarrow> u16 \<Rightarrow> bregs \<Rightarrow> clock \<Rightarrow> (bregs \<times> clock) option" where
  "handle_1586 irqs seg off r s0 =
     (let s = s0\<lparr>ck_mem := (ck_mem s0)(far_addr seg off := 0)\<rparr>;
          (ret, s1) = set_usertimer (reg_cxdx r) seg off s
      in if ret \<noteq> 0 then Some (set_code_invalid RET_ECLOCKINUSE r, s1)
         else map_option (\<lambda>s2. (set_success r, s2)) (wait_flag irqs (far_addr seg off) s1))"

definition handle_158300 :: "bregs \<Rightarrow> clock \<Rightarrow> bregs \<times> clock" where
  "handle_158300 r s =
     (let (ret, s1) = set_usertimer (reg_cxdx r) (r_es r) (r_bx r) s
      in if ret \<noteq> 0 then (set_code_invalid RET_EUNSUPPORTED r, s1) else (set_success r, s1))"

definition handle_158301 :: "bregs \<Rightarrow> clock \<Rightarrow> bregs \<times> clock" where
  "handle_158301 r s = (set_success r, clear_usertimer s)"

definition handle_1583XX :: "bregs \<Rightarrow> clock \<Rightarrow> bregs \<times> clock" where
  "handle_1583XX r s = (let r1 = set_code_invalid RET_EUNSUPPORTED r in (set_al (r_al r1 - 1) r1, s))"

definition handle_1583 :: "bregs \<Rightarrow> clock \<Rightarrow> bregs \<times> clock" where
  "handle_1583 r s =
     (if r_al r = 0x00 then handle_158300 r s
      else if r_al r = 0x01 then handle_158301 r s
      else handle_1583XX r s)"

text \<open>\<open>int4a\<close> is the alarm handler of the guest.\<close>

definition user_wait_tick :: "clock \<Rightarrow> clock" where
  "user_wait_tick s =
     (let time = user_wait_timeout s in
      if time < USEC_PER_RTC then
        let (seg, off) = user_wait_complete_flag s; a = far_addr seg off
        in clear_usertimer (s\<lparr>ck_mem := (ck_mem s)(a := ck_mem s a OR 0x80)\<rparr>)
      else s\<lparr>user_wait_timeout := time - USEC_PER_RTC\<rparr>)"

definition handle_70 :: "(clock \<Rightarrow> clock) \<Rightarrow> clock \<Rightarrow> clock" where
  "handle_70 int4a s0 =
     (let (registerB, s1) = inb_cmos CMOS_STATUS_B s0;
          (registerC, s2) = inb_cmos CMOS_STATUS_C s1
      in eoi_pic2
        (if registerB AND (RTC_B_PIE OR RTC_B_AIE) = 0 then s2
         else
           let s3 = (if registerC AND RTC_B_AIE \<noteq> 0 then int4a s2 else s2) in
           if registerC AND RTC_B_PIE = 0 then s3
           else if rtc_wait_flag s3 = 0 then s3
           else user_wait_tick s3))"

section \<open>The tick counter\<close>

lemma TICKS_PER_DAY_val: "TICKS_PER_DAY = 1573040" "unat TICKS_PER_DAY = 1573040"
  by (simp_all add: TICKS_PER_DAY_def PIT_TICK_RATE_def PIT_TICK_INTERVAL_def)

lemma handle_08_time:
  assumes "\<And>s. timer_counter (int1c (usb s)) = timer_counter s" "\<And>s. timer_rollover (int1c (usb s)) = timer_rollover s"
  shows "timer_counter (handle_08 usb int1c s) = (if timer_counter s + 1 \<ge> TICKS_PER_DAY then 0 else timer_counter s + 1)"
    "timer_rollover (handle_08 usb int1c s) = (if timer_counter s + 1 \<ge> TICKS_PER_DAY then timer_rollover s + 1 else timer_rollover s)"
  by (simp_all add: handle_08_def floppy_tick_def eoi_pic1_def outb_def Let_def assms)

lemma carry_step:
  fixes c n p :: nat assumes "0 < p"
  shows "(if (c + n) mod p + 1 = p then 0 else (c + n) mod p + 1) = (c + Suc n) mod p"
    "(c + n) div p + (if (c + n) mod p + 1 = p then 1 else 0) = (c + Suc n) div p"
  using assms by (auto simp: mod_Suc div_Suc)

lemma ticks_after:
  assumes "\<And>s. timer_counter (int1c (usb s)) = timer_counter s" "\<And>s. timer_rollover (int1c (usb s)) = timer_rollover s"
    and start: "unat (timer_counter s) < 1573040"
  shows "unat (timer_counter ((handle_08 usb int1c ^^ n) s)) = (unat (timer_counter s) + n) mod 1573040"
    "unat (timer_rollover ((handle_08 usb int1c ^^ n) s))
       = (unat (timer_rollover s) + (unat (timer_counter s) + n) div 1573040) mod 256"
proof (induction n)
  case 0
  { case 1 show ?case using start by simp }
  { case 2 show ?case using start unat_lt_2p[of "timer_rollover s"] by simp }
next
  case (Suc n)
  let ?s = "(handle_08 usb int1c ^^ n) s" and ?c = "unat (timer_counter s)"
  have lt: "unat (timer_counter ?s) < 1573040" by (subst Suc(1)) simp
  have u: "unat (timer_counter ?s + 1) = unat (timer_counter ?s) + 1"
    using lt by (subst unat_add_nowrap) simp_all
  have t: "timer_counter ?s + 1 \<ge> TICKS_PER_DAY \<longleftrightarrow> (?c + n) mod 1573040 + 1 = 1573040"
    unfolding word_le_nat_alt TICKS_PER_DAY_val u using lt unfolding Suc(1) by auto
  have v: "unat (timer_rollover ?s + 1) = (unat (timer_rollover s) + ((?c + n) div 1573040 + 1)) mod 256"
    by (simp add: unat_word_ariths Suc(2) mod_Suc_eq)
  { case 1 show ?case
      unfolding funpow.simps o_apply handle_08_time[of int1c usb, OF assms(1,2)] t if_distrib[of unat] u Suc(1) unat_0
      by (rule carry_step(1)) simp }
  { case 2 show ?case
      unfolding funpow.simps o_apply handle_08_time[of int1c usb, OF assms(1,2)] t if_distrib[of unat] v Suc(2)
        carry_step(2)[of 1573040 ?c n, symmetric, OF zero_less_numeral] by simp }
qed

text \<open>
  C17. The tick counter keeps the time of day: after any number of timer interrupts it holds the
  number of ticks since midnight, and the rollover flag counts the midnights (modulo 256), provided
  the handlers that are chained to the tick leave the two fields alone.
\<close>

theorem clock_counts_ticks:
  assumes "\<And>s. timer_counter (int1c (usb s)) = timer_counter s" "\<And>s. timer_rollover (int1c (usb s)) = timer_rollover s"
    "unat (timer_counter s) < 1573040"
  shows "unat (timer_counter ((handle_08 usb int1c ^^ n) s)) = (unat (timer_counter s) + n) mod 1573040
    \<and> unat (timer_rollover ((handle_08 usb int1c ^^ n) s))
       = (unat (timer_rollover s) + (unat (timer_counter s) + n) div 1573040) mod 256"
  using ticks_after[of int1c usb s n, OF assms] by blast

definition ex_clock :: clock where
  "ex_clock = \<lparr>timer_counter = 1573039, timer_rollover = 0, rtc_wait_flag = 0, user_wait_complete_flag = (0, 0),
     user_wait_timeout = 0, floppy_motor_counter = 1, RTCusers = 0, cpu_khz = 1000, cmos = (\<lambda>_. 0), ck_mem = (\<lambda>_. 0),
     port_fd_dor = 0xff, port_writes = []\<rparr>"

theorem clock_counts_ticks_witness:
  "unat (timer_counter ((handle_08 id id ^^ 1573041) ex_clock)) = 0
   \<and> unat (timer_rollover ((handle_08 id id ^^ 1573041) ex_clock)) = 2"
  using clock_counts_ticks[of id id ex_clock 1573041] by (simp add: ex_clock_def del: funpow.simps)

section \<open>The wait service\<close>

text \<open>A periodic interrupt: the clock sets its flag in status register C and raises IRQ 8.\<close>

definition rtc_periodic :: "(clock \<Rightarrow> clock) \<Rightarrow> clock \<Rightarrow> clock" where
  "rtc_periodic int4a s = handle_70 int4a (s\<lparr>cmos := (cmos s)(CMOS_STATUS_C := RTC_B_PIE)\<rparr>)"

definition rtc_waiting :: "u32 \<Rightarrow> clock \<Rightarrow> bool" where
  "rtc_waiting a s \<longleftrightarrow> far_addr (fst (user_wait_complete_flag s)) (snd (user_wait_complete_flag s)) = a
     \<and> rtc_wait_flag s = RWS_WAIT_PENDING \<and> cmos s CMOS_STATUS_B AND RTC_B_PIE \<noteq> 0 \<and> ck_mem s a = 0"

lemma pie_or_aie: "b AND RTC_B_PIE \<noteq> 0 \<Longrightarrow> b AND (RTC_B_PIE OR RTC_B_AIE) \<noteq> 0"
  by (metis bit.conj_disj_distrib or_eq_0_iff)

lemma rtc_periodic_waiting:
  assumes "rtc_waiting a s"
  shows "rtc_periodic int4a s = eoi_pic2 (user_wait_tick (s\<lparr>cmos := (cmos s)(CMOS_STATUS_C := 0)\<rparr>))"
  using assms pie_or_aie[of "cmos s CMOS_STATUS_B"]
  by (simp add: rtc_periodic_def handle_70_def inb_cmos_def Let_def rtc_waiting_def cmos_defs)
     (simp add: rtc_defs)

lemma periodic_counts_down:
  assumes "rtc_waiting a s" "user_wait_timeout s \<ge> USEC_PER_RTC"
  shows "rtc_waiting a (rtc_periodic int4a s)"
    "user_wait_timeout (rtc_periodic int4a s) = user_wait_timeout s - USEC_PER_RTC"
    "RTCusers (rtc_periodic int4a s) = RTCusers s" "ck_mem (rtc_periodic int4a s) = ck_mem s"
  using assms by (simp_all add: rtc_periodic_waiting user_wait_tick_def not_less[symmetric] eoi_pic2_def eoi_pic1_def outb_def)
     (simp add: rtc_waiting_def cmos_defs)

lemma periodic_fires:
  assumes "rtc_waiting a s" "user_wait_timeout s < USEC_PER_RTC"
  shows "ck_mem (rtc_periodic int4a s) = (ck_mem s)(a := 0x80)" "rtc_wait_flag (rtc_periodic int4a s) = 0"
    "RTCusers (rtc_periodic int4a s) = RTCusers s - 1"
    "RTCusers s = 1 \<Longrightarrow> cmos (rtc_periodic int4a s) CMOS_STATUS_B AND RTC_B_PIE = 0"
  using assms unfolding rtc_periodic_waiting[OF assms(1)]
  by (auto simp: user_wait_tick_def clear_usertimer_def releaseRTC_def inb_cmos_def outb_cmos_def rtc_waiting_def
      eoi_pic2_def eoi_pic1_def outb_def Let_def cmos_defs rtc_defs and.assoc split: prod.split)

lemma wait_flag_periodic:
  assumes "rtc_waiting a s" "0 < RTCusers s"
  shows "case wait_flag (replicate n (rtc_periodic int4a)) a s of
      None \<Rightarrow> n \<le> unat (user_wait_timeout s) div 977
    | Some s' \<Rightarrow> unat (user_wait_timeout s) div 977 < n \<and> rtc_wait_flag s' = 0 \<and> RTCusers s' = RTCusers s - 1
        \<and> ck_mem s' = (ck_mem s)(a := 0x80) \<and> (RTCusers s = 1 \<longrightarrow> cmos s' CMOS_STATUS_B AND RTC_B_PIE = 0)"
  using assms
proof (induction n arbitrary: s)
  case 0
  then show ?case by (simp add: wait_flag.simps rtc_waiting_def)
next
  case (Suc n)
  let ?f = "rtc_periodic int4a" and ?t = "unat (user_wait_timeout s)"
  have usec: "unat USEC_PER_RTC = 977" by (simp add: USEC_PER_RTC_def)
  have step: "wait_flag (replicate (Suc n) ?f) a s = wait_flag (replicate n ?f) a (?f s)"
    using Suc.prems by (subst wait_flag.simps) (simp add: rtc_waiting_def)
  show ?case
  proof (cases "user_wait_timeout s < USEC_PER_RTC")
    case True
    note fire = periodic_fires[OF Suc.prems(1) True]
    have "wait_flag (replicate n ?f) a (?f s) = Some (?f s)" by (subst wait_flag.simps) (simp add: fire)
    moreover have "?t div 977 = 0" using True usec by (simp add: word_less_nat_alt)
    ultimately show ?thesis unfolding step by (simp add: fire)
  next
    case False
    then have ge: "USEC_PER_RTC \<le> user_wait_timeout s" by simp
    note down = periodic_counts_down[OF Suc.prems(1) ge, of int4a]
    have t: "unat (user_wait_timeout (?f s)) = ?t - 977" "977 \<le> ?t"
      using ge usec by (simp_all add: down unat_diff_nowrap word_le_nat_alt)
    have d: "?t div 977 = Suc ((?t - 977) div 977)" using t(2) by (simp add: le_div_geq)
    show ?thesis using Suc.IH[OF down(1)] Suc.prems(2) unfolding step t d down(3,4)
      by (auto split: option.splits)
  qed
qed

lemma set_usertimer_waiting:
  assumes "rtc_wait_flag s AND RWS_WAIT_PENDING = 0" "RTCusers s \<noteq> 0 \<longrightarrow> cmos s CMOS_STATUS_B AND RTC_B_PIE \<noteq> 0"
    "ck_mem s (far_addr seg off) = 0"
  shows "\<exists>s1. set_usertimer usecs seg off s = (0, s1) \<and> rtc_waiting (far_addr seg off) s1
    \<and> user_wait_timeout s1 = usecs \<and> RTCusers s1 = RTCusers s + 1 \<and> ck_mem s1 = ck_mem s"
proof -
  have "(b OR RTC_B_PIE) AND RTC_B_PIE \<noteq> 0" for b by (simp add: rtc_defs bit.conj_disj_distrib2)
  then show ?thesis using assms
    by (auto simp: set_usertimer_def useRTC_def inb_cmos_def outb_cmos_def rtc_waiting_def Let_def cmos_defs)
qed

text \<open>
  The wait service (interrupt 15h, function 86h) returns after exactly as many periodic
  interrupts as it takes for the requested time to pass: it still waits while \<open>n\<close> interrupts of 977
  microseconds do not exceed it, and returns with the next one. It then has given back its use of
  the periodic interrupt, which is switched off if it was the only user.
\<close>

theorem handle_1586_waits:
  assumes "rtc_wait_flag s AND RWS_WAIT_PENDING = 0" "0 \<le> RTCusers s"
    "RTCusers s \<noteq> 0 \<longrightarrow> cmos s CMOS_STATUS_B AND RTC_B_PIE \<noteq> 0"
  shows "case handle_1586 (replicate n (rtc_periodic int4a)) seg off r s of
      None \<Rightarrow> n \<le> unat (reg_cxdx r) div 977
    | Some (r', s') \<Rightarrow> unat (reg_cxdx r) div 977 < n \<and> \<not> cf r' \<and> rtc_wait_flag s' = 0 \<and> RTCusers s' = RTCusers s
        \<and> (\<forall>x. x \<noteq> far_addr seg off \<longrightarrow> ck_mem s' x = ck_mem s x)
        \<and> (RTCusers s = 0 \<longrightarrow> cmos s' CMOS_STATUS_B AND RTC_B_PIE = 0)"
proof -
  let ?a = "far_addr seg off"
  let ?s = "s\<lparr>ck_mem := (ck_mem s)(?a := 0)\<rparr>"
  obtain s1 where s1: "set_usertimer (reg_cxdx r) seg off ?s = (0, s1)" "rtc_waiting ?a s1"
    "user_wait_timeout s1 = reg_cxdx r" "RTCusers s1 = RTCusers s + 1" "ck_mem s1 = (ck_mem s)(?a := 0)"
    using set_usertimer_waiting[of ?s seg off "reg_cxdx r"] assms(1,3) by auto
  have "0 < RTCusers s1" using s1(4) assms(2) by simp
  from wait_flag_periodic[OF s1(2) this, of n int4a]
  show ?thesis unfolding handle_1586_def Let_def s1 by (simp add: set_success_def split: option.splits)
qed

definition ex_wait :: bregs where
  "ex_wait = \<lparr>r_ds = 0, r_es = 0, r_edi = 0, r_esi = 0, r_ebp = 0, r_ebx = 0, r_edx = 2000, r_ecx = 0, r_eax = 0x8600, r_flags = 0\<rparr>"

theorem handle_1586_waits_witness:
  "(case handle_1586 (replicate 3 (rtc_periodic id)) 0 0 ex_wait ex_clock of
      None \<Rightarrow> False | Some (r', s') \<Rightarrow> \<not> cf r' \<and> RTCusers s' = 0 \<and> cmos s' CMOS_STATUS_B AND RTC_B_PIE = 0)
   \<and> handle_1586 (replicate 2 (rtc_periodic id)) 0 0 ex_wait ex_clock = None"
proof -
  have c: "reg_cxdx ex_wait = 2000" by (simp add: reg_cxdx_def ex_wait_def reg_defs lo16_def)
  have h: "rtc_wait_flag ex_clock AND RWS_WAIT_PENDING = 0" "0 \<le> RTCusers ex_clock" "RTCusers ex_clock = 0"
    by (simp_all add: ex_clock_def)
  then have h3: "RTCusers ex_clock \<noteq> 0 \<longrightarrow> cmos ex_clock CMOS_STATUS_B AND RTC_B_PIE \<noteq> 0" by simp
  note w = handle_1586_waits[OF h(1,2) h3, where r = ex_wait and int4a = id and seg = 0 and off = 0, unfolded c h(3)]
  show ?thesis using w[of 3] w[of 2] by (auto split: option.splits prod.splits)
qed

section \<open>Setting and reading the clock\<close>

text \<open>
  What interrupt 1Ah stores in the real time clock can be read back: after setting the time and
  the date, reading the time and the date returns them, with the century, and the daylight saving
  bit, and no call reports an error, as long as no update of the clock is in progress.
\<close>

theorem rtc_set_get:
  assumes "rtc_updating (cpu_khz s) w1 = Some 0" "rtc_updating (cpu_khz s) w2 = Some 0"
    "rtc_updating (cpu_khz s) w3 = Some 0" "rtc_updating (cpu_khz s) w4 = Some 0"
    "r_ah t = 3" "r_ah d = 5" "r_ah t' = 2" "r_ah d' = 4"
  shows "\<exists>t1 d1 t2 d2 s1 s2 s3 s4. handle_1a pci w1 t s = Some (t1, s1) \<and> handle_1a pci w2 d s1 = Some (d1, s2)
    \<and> handle_1a pci w3 t' s2 = Some (t2, s3) \<and> handle_1a pci w4 d' s3 = Some (d2, s4)
    \<and> \<not> cf t1 \<and> \<not> cf d1 \<and> \<not> cf t2 \<and> \<not> cf d2
    \<and> r_ch t2 = r_ch t \<and> r_cl t2 = r_cl t \<and> r_dh t2 = r_dh t \<and> r_dl t2 = r_dl t AND RTC_B_DSE
    \<and> r_ch d2 = r_ch d \<and> r_cl d2 = r_cl d \<and> r_dh d2 = r_dh d \<and> r_dl d2 = r_dl d"
proof -
  have dse: "(((b AND (RTC_B_PIE OR RTC_B_AIE)) OR RTC_B_24HR OR (x AND RTC_B_DSE)) AND NOT RTC_B_SET) AND RTC_B_DSE
      = x AND RTC_B_DSE" for b x
    by (simp add: rtc_defs bit.conj_disj_distrib2 and.assoc)
  show ?thesis using assms
    by (simp add: handle_1a_def handle_1a02_def handle_1a03_def handle_1a04_def handle_1a05_def inb_cmos_def
        outb_cmos_def set_success_def Let_def cmos_defs dse reg_defs)
qed

theorem rtc_set_get_witness:
  "\<exists>t1 d1 t2 s1 s2 s3.
     handle_1a (\<lambda>r s. None) [(False, 0)] (ex_wait\<lparr>r_eax := 0x300, r_ecx := 0x2359, r_edx := 0x5801\<rparr>) ex_clock = Some (t1, s1)
     \<and> handle_1a (\<lambda>r s. None) [(False, 0)] (ex_wait\<lparr>r_eax := 0x500\<rparr>) s1 = Some (d1, s2)
     \<and> handle_1a (\<lambda>r s. None) [(False, 0)] (ex_wait\<lparr>r_eax := 0x200\<rparr>) s2 = Some (t2, s3)
     \<and> r_ch t2 = 0x23 \<and> r_cl t2 = 0x59 \<and> r_dh t2 = 0x58 \<and> r_dl t2 = 1"
proof -
  have r: "r_ah (ex_wait\<lparr>r_eax := 0x300, r_ecx := 0x2359, r_edx := 0x5801\<rparr>) = 3"
    "r_ah (ex_wait\<lparr>r_eax := 0x500\<rparr>) = 5" "r_ah (ex_wait\<lparr>r_eax := 0x200\<rparr>) = 2" "r_ah (ex_wait\<lparr>r_eax := 0x400\<rparr>) = 4"
    "r_ch (ex_wait\<lparr>r_eax := 0x300, r_ecx := 0x2359, r_edx := 0x5801\<rparr>) = 0x23"
    "r_cl (ex_wait\<lparr>r_eax := 0x300, r_ecx := 0x2359, r_edx := 0x5801\<rparr>) = 0x59"
    "r_dh (ex_wait\<lparr>r_eax := 0x300, r_ecx := 0x2359, r_edx := 0x5801\<rparr>) = 0x58"
    "r_dl (ex_wait\<lparr>r_eax := 0x300, r_ecx := 0x2359, r_edx := 0x5801\<rparr>) AND RTC_B_DSE = 1"
    by (simp_all add: reg_defs hi8_def lo8_def RTC_B_DSE_def)
  have u: "rtc_updating (cpu_khz ex_clock) [(False, 0)] = Some 0" by simp
  show ?thesis using rtc_set_get[OF u u u u r(1-4), of "\<lambda>r s. None"] unfolding r(5-8) by blast
qed

section \<open>Start-up and delays\<close>

text \<open>The number that two BCD digits stand for.\<close>

lemma unat_bcd2bin: "unat (bcd2bin v) = 10 * (unat v div 16) + unat v mod 16"
proof -
  have l: "unat (v AND 0xf) = unat v mod 16"
  proof -
    have "(0xf :: u8) = mask 4" by (simp add: mask_eq_exp_minus_1)
    then show ?thesis by (simp only: take_bit_eq_mask[symmetric] unsigned_take_bit_eq) (simp add: take_bit_eq_mod)
  qed
  have h: "unat (drop_bit 4 v) = unat v div 16" by (simp add: unat_drop_bit_div)
  have v: "unat v < 256" using unat_lt_2p[of v] by simp
  have "unat (ucast (v AND 0xf) :: u32) = unat v mod 16" "unat (ucast (drop_bit 4 v) :: u32) = unat v div 16"
    using v by (simp_all add: unat_ucast_mod l h)
  then show ?thesis using v unfolding bcd2bin_def by (simp add: unat_word_ariths)
qed

lemma timer_setup_time:
  assumes "timer_setup orig polls start stop w s = Some s'"
    and h: "unat (bcd2bin (cmos s CMOS_RTC_HOURS)) < 24" and m: "unat (bcd2bin (cmos s CMOS_RTC_MINUTES)) < 60"
    and sec: "unat (bcd2bin (cmos s CMOS_RTC_SECONDS)) < 60"
  shows "unat (timer_counter s') = ((unat (bcd2bin (cmos s CMOS_RTC_HOURS)) * 60 + unat (bcd2bin (cmos s CMOS_RTC_MINUTES))) * 60
      + unat (bcd2bin (cmos s CMOS_RTC_SECONDS))) * 1193180 div 65536"
    "unat (timer_counter s') < 1573040"
proof -
  define H where "H = bcd2bin (cmos s CMOS_RTC_HOURS)"
  define M where "M = bcd2bin (cmos s CMOS_RTC_MINUTES)"
  define S where "S = bcd2bin (cmos s CMOS_RTC_SECONDS)"
  note b = h[folded H_def] m[folded M_def] sec[folded S_def]
  have tc: "timer_counter s' = ucast ((ucast ((H * 60 + M) * 60 + S) :: u64) * of_nat PIT_TICK_RATE div of_nat PIT_TICK_INTERVAL)"
    using assms(1)
    by (auto simp: timer_setup_def calibrate_tsc_def init_rtc_def pit_setup_def inb_cmos_def outb_cmos_def outb_def Let_def
        cmos_defs H_def M_def S_def bind_eq_Some_conv split: if_splits)
  have u: "unat ((H * 60 + M) * 60 + S) = (unat H * 60 + unat M) * 60 + unat S" (is "_ = ?t")
    using b by (simp add: unat_word_ariths)
  have t: "?t < 86400" using b by simp
  have "unat (ucast ((H * 60 + M) * 60 + S) :: u64) = ?t"
    using t unfolding u[symmetric] by (intro unat_ucast_fits) simp
  then have "unat ((ucast ((H * 60 + M) * 60 + S) :: u64) * of_nat PIT_TICK_RATE) = ?t * 1193180"
    using t by (subst unat_mult_nowrap) (simp_all add: PIT_TICK_RATE_def)
  then have d: "unat ((ucast ((H * 60 + M) * 60 + S) :: u64) * of_nat PIT_TICK_RATE div of_nat PIT_TICK_INTERVAL) = ?t * 1193180 div 65536"
    by (simp add: unat_div_distrib PIT_TICK_INTERVAL_def)
  have lt: "?t * 1193180 div 65536 < 1573040" using t by (intro div_less_iff_less_mult[THEN iffD2]) simp_all
  have r: "unat (timer_counter s') = ?t * 1193180 div 65536" unfolding tc unat_ucast_mod d using lt by simp
  show "unat (timer_counter s') = ((unat (bcd2bin (cmos s CMOS_RTC_HOURS)) * 60 + unat (bcd2bin (cmos s CMOS_RTC_MINUTES))) * 60
      + unat (bcd2bin (cmos s CMOS_RTC_SECONDS))) * 1193180 div 65536" using r unfolding H_def M_def S_def .
  show "unat (timer_counter s') < 1573040" using r lt by simp
qed

text \<open>
  The products of the delay functions are computed in 32 bits. On a processor of 3 GHz a delay of
  two seconds therefore ends after 1705032704 instead of 6000000000 counts.
\<close>

lemma mdelay_wraps:
  assumes "cpu_khz s = 3000000"
  shows "mdelay 2000 start [start + 1705032705] s = Some 0"
  using assms by (simp add: mdelay_def tscdelay_def check_time_def)

text \<open>Function 07h returns in \<open>al\<close> the value read from status register B, not the one it writes.\<close>

lemma alarm_off_returns_old_status:
  assumes "handle_1a07 r s = Some (r', s')"
  shows "r_al r' = cmos s CMOS_STATUS_B" "cmos s' CMOS_STATUS_B = cmos s CMOS_STATUS_B AND NOT (RTC_B_SET OR RTC_B_AIE)"
  using assms by (auto simp: handle_1a07_def inb_cmos_def outb_cmos_def Let_def set_success_def reg_defs)

end
