(* ===== verification/System.thy ===== *)
theory System
  imports E820 Clock
begin

text \<open>
  \<open>bios/seabios/src/system.c\<close>: interrupt 15h. The state is that of the clock services (which functions
  83h and 86h belong to, and which holds the memory) with the memory map, the amount of memory below
  4G, the A20 port and the code segment that a switch to protected mode returns to. The power
  management and mouse services (\<open>apm.c\<close>, \<open>mouse.c\<close>, \<open>vgahooks.c\<close>) are parameters.
\<close>

record sys =
  clk :: clock
  e820_list :: "e820entry list"
  RamSize :: u32
  port_a20 :: u8
  code_seg :: u16

definition A20_ENABLE_BIT :: u8 where "A20_ENABLE_BIT = 0x02"

definition set_a20 :: "bool \<Rightarrow> sys \<Rightarrow> bool \<times> sys" where
  "set_a20 cond s =
     (let oldval = port_a20 s;
          newval = (if cond then oldval OR A20_ENABLE_BIT else oldval AND NOT A20_ENABLE_BIT)
      in (oldval AND A20_ENABLE_BIT \<noteq> 0, s\<lparr>port_a20 := newval\<rparr>))"

definition handle_152400 :: "bregs \<Rightarrow> sys \<Rightarrow> bregs \<times> sys" where
  "handle_152400 r s = (set_code_success r, snd (set_a20 False s))"

definition handle_152401 :: "bregs \<Rightarrow> sys \<Rightarrow> bregs \<times> sys" where
  "handle_152401 r s = (set_code_success r, snd (set_a20 True s))"

definition handle_152402 :: "bregs \<Rightarrow> sys \<Rightarrow> bregs \<times> sys" where
  "handle_152402 r s =
     (set_code_success (set_al (if port_a20 s AND A20_ENABLE_BIT \<noteq> 0 then 1 else 0) r), s)"

definition handle_152403 :: "bregs \<Rightarrow> sys \<Rightarrow> bregs \<times> sys" where
  "handle_152403 r s = (set_code_success (set_bx 3 r), s)"

definition handle_1524XX :: "bregs \<Rightarrow> sys \<Rightarrow> bregs \<times> sys" where
  "handle_1524XX r s = (set_code_invalid RET_EUNSUPPORTED r, s)"

definition handle_1524 :: "bregs \<Rightarrow> sys \<Rightarrow> bregs \<times> sys" where
  "handle_1524 r s =
     (if r_al r = 0x00 then handle_152400 r s
      else if r_al r = 0x01 then handle_152401 r s
      else if r_al r = 0x02 then handle_152402 r s
      else if r_al r = 0x03 then handle_152403 r s
      else handle_1524XX r s)"

definition handle_1552 :: "bregs \<Rightarrow> sys \<Rightarrow> bregs \<times> sys" where
  "handle_1552 r s = (set_code_success r, s)"

section \<open>Far memory\<close>

text \<open>Bytes at a segmented address; the offset wraps at 64K.\<close>

fun far_write :: "memory \<Rightarrow> u16 \<Rightarrow> u16 \<Rightarrow> u8 list \<Rightarrow> memory" where
  "far_write m seg off [] = m"
| "far_write m seg off (b # bs) = far_write (m(far_addr seg off := b)) seg (off + 1) bs"

definition far_read :: "memory \<Rightarrow> u16 \<Rightarrow> u16 \<Rightarrow> nat \<Rightarrow> u8 list" where
  "far_read m seg off n = map (\<lambda>i. m (far_addr seg (off + of_nat i))) [0..<n]"

definition le_word :: "u8 list \<Rightarrow> 'a::len word" where
  "le_word bs = foldr (\<lambda>b w. ucast b OR push_bit 8 w) bs 0"

section \<open>Block move and protected mode\<close>

definition GDT_BASE :: "u32 \<Rightarrow> u64" where
  "GDT_BASE v = push_bit 32 (ucast v AND 0xff000000) OR push_bit 16 (ucast v AND 0x00ffffff)"

definition GDT_LIMIT :: "u32 \<Rightarrow> u64" where
  "GDT_LIMIT v = push_bit 32 (ucast v AND 0x000f0000) OR (ucast v AND 0x0000ffff)"

definition GDT_CODE :: u64 where "GDT_CODE = push_bit 40 0x9b"
definition GDT_DATA :: u64 where "GDT_DATA = push_bit 40 0x93"

text \<open>The base that the processor takes from a descriptor.\<close>

definition desc_base :: "u64 \<Rightarrow> u32" where
  "desc_base d = ucast (drop_bit 16 d AND 0xffffff) OR push_bit 24 (ucast (drop_bit 56 d))"

text \<open>\<open>rep movsw\<close> with the 16-bit index registers, from one segment base to another.\<close>

fun movsw :: "memory \<Rightarrow> u32 \<Rightarrow> u32 \<Rightarrow> u16 \<Rightarrow> u16 \<Rightarrow> nat \<Rightarrow> memory" where
  "movsw m sb db si di 0 = m"
| "movsw m sb db si di (Suc n) =
     movsw (m(db + ucast di := m (sb + ucast si), db + ucast di + 1 := m (sb + ucast si + 1)))
       sb db (si + 2) (di + 2) n"

definition upd_mem :: "(memory \<Rightarrow> memory) \<Rightarrow> sys \<Rightarrow> sys" where
  "upd_mem f s = s\<lparr>clk := (clk s)\<lparr>ck_mem := f (ck_mem (clk s))\<rparr>\<rparr>"

text \<open>\<open>ss\<close> is the stack segment.\<close>

definition handle_1587 :: "u16 \<Rightarrow> bregs \<Rightarrow> sys \<Rightarrow> bregs \<times> sys" where
  "handle_1587 ss r s =
     (let (prev_a20_enable, s1) = set_a20 True s;
          si = lo16 (r_esi r); seg = r_es r;
          s2 = upd_mem (\<lambda>m. far_write m seg (si + 8)
                 (le_bytes 8 (GDT_DATA OR GDT_LIMIT (6 * 8 - 1) OR GDT_BASE (far_addr seg si)))) s1;
          s3 = upd_mem (\<lambda>m. far_write m seg (si + 32)
                 (le_bytes 8 (GDT_CODE OR GDT_LIMIT (0x10000 - 1) OR GDT_BASE 0xf0000))) s2;
          s4 = upd_mem (\<lambda>m. far_write m seg (si + 40)
                 (le_bytes 8 (GDT_DATA OR GDT_LIMIT 0x0ffff OR GDT_BASE (far_addr ss 0)))) s3;
          m = ck_mem (clk s4);
          src = desc_base (le_word (far_read m seg (si + 16) 8));
          dst = desc_base (le_word (far_read m seg (si + 24) 8));
          s5 = upd_mem (\<lambda>m. movsw m src dst 0 0 (unat (r_cx r))) s4
      in (set_code_success r, snd (set_a20 prev_a20_enable s5)))"

definition handle_1588 :: "bregs \<Rightarrow> sys \<Rightarrow> bregs \<times> sys" where
  "handle_1588 r s =
     (let rs = RamSize s;
          ax = (if rs > 64 * 1024 * 1024 then 63 * 1024 else ucast ((rs - 1 * 1024 * 1024) div 1024))
      in (set_success (set_ax ax r), s))"

definition set_pics :: "u8 \<Rightarrow> u8 \<Rightarrow> clock \<Rightarrow> clock" where
  "set_pics irq0 irq8 s = fold (\<lambda>(port, v). outb v port)
     [(0x20, 0x11), (0xa0, 0x11), (0x21, irq0), (0xa1, irq8), (0x21, 0x04), (0xa1, 0x02), (0x21, 0x01), (0xa1, 0x01),
      (0x21, 0xfb), (0xa1, 0xff)] s"

text \<open>
  \<open>handle_1589\<close>: the descriptor that it adds to the caller's table and the selectors it returns.
  The switch of the processor mode itself is not part of the model.
\<close>

definition handle_1589 :: "bregs \<Rightarrow> sys \<Rightarrow> bregs \<times> sys" where
  "handle_1589 r s =
     (let s1 = snd (set_a20 True s);
          s2 = s1\<lparr>clk := set_pics (r_bl r) (r_bh r) (clk s1)\<rparr>;
          s3 = upd_mem (\<lambda>m. far_write m (r_es r) (lo16 (r_esi r) + 56)
                 (le_bytes 8 (GDT_CODE OR GDT_LIMIT (0x10000 - 1) OR GDT_BASE 0xf0000))) s2
      in (set_code_success (r\<lparr>r_ds := 24, r_es := 32\<rparr>), s3\<lparr>code_seg := 48\<rparr>))"

section \<open>Other functions\<close>

definition handle_1590 :: "bregs \<Rightarrow> sys \<Rightarrow> bregs \<times> sys" where "handle_1590 r s = (r, s)"
definition handle_1591 :: "bregs \<Rightarrow> sys \<Rightarrow> bregs \<times> sys" where "handle_1591 r s = (r, s)"
definition handle_154f :: "bregs \<Rightarrow> sys \<Rightarrow> bregs \<times> sys" where "handle_154f r s = (set_invalid r, s)"

text \<open>\<open>table\<close> is the offset of the configuration table, \<open>ebda_seg\<close> the segment of the EBDA.\<close>

definition handle_15c0 :: "u16 \<Rightarrow> bregs \<Rightarrow> sys \<Rightarrow> bregs \<times> sys" where
  "handle_15c0 table r s = (set_code_success (set_bx table (r\<lparr>r_es := 0xf000\<rparr>)), s)"

definition handle_15c1 :: "u16 \<Rightarrow> bregs \<Rightarrow> sys \<Rightarrow> bregs \<times> sys" where
  "handle_15c1 ebda_seg r s = (set_success (r\<lparr>r_es := ebda_seg\<rparr>), s)"

definition handle_15e801 :: "bregs \<Rightarrow> sys \<Rightarrow> bregs \<times> sys" where
  "handle_15e801 r s =
     (let rs = RamSize s;
          r1 = (if rs > 16 * 1024 * 1024
                then set_dx (ucast ((rs - 16 * 1024 * 1024) div (64 * 1024))) (set_cx (15 * 1024) r)
                else set_dx 0 (set_cx (ucast ((rs - 1 * 1024 * 1024) div 1024)) r))
      in (set_success (set_bx (r_dx r1) (set_ax (r_cx r1) r1)), s))"

definition e820_bytes :: "e820entry \<Rightarrow> u8 list" where
  "e820_bytes e = le_bytes 8 (e_start e) @ le_bytes 8 (e_size e) @ le_bytes 4 (e_type e)"

definition SMAP :: u32 where "SMAP = 0x534D4150"

definition handle_15e820 :: "bregs \<Rightarrow> sys \<Rightarrow> bregs \<times> sys" where
  "handle_15e820 r s =
     (let count = length (e820_list s) in
      if r_edx r \<noteq> SMAP \<or> unat (r_bx r) \<ge> count \<or> r_ecx r < 20 then (set_code_invalid RET_EUNSUPPORTED r, s)
      else
        let s1 = upd_mem (\<lambda>m. far_write m (r_es r) (lo16 (r_edi r)) (e820_bytes (e820_list s ! unat (r_bx r)))) s;
            r1 = (if unat (r_bx r) = count - 1 then r\<lparr>r_ebx := 0\<rparr> else r\<lparr>r_ebx := r_ebx r + 1\<rparr>)
        in (set_success (r1\<lparr>r_eax := SMAP, r_ecx := 20\<rparr>), s1))"

definition handle_15e8XX :: "bregs \<Rightarrow> sys \<Rightarrow> bregs \<times> sys" where
  "handle_15e8XX r s = (set_code_invalid RET_EUNSUPPORTED r, s)"

definition handle_15e8 :: "bregs \<Rightarrow> sys \<Rightarrow> bregs \<times> sys" where
  "handle_15e8 r s =
     (if r_al r = 0x01 then handle_15e801 r s
      else if r_al r = 0x20 then handle_15e820 r s
      else handle_15e8XX r s)"

definition handle_15XX :: "bregs \<Rightarrow> sys \<Rightarrow> bregs \<times> sys" where
  "handle_15XX r s = (set_code_invalid RET_EUNSUPPORTED r, s)"

text \<open>What interrupt 15h calls in other files, and the addresses it needs.\<close>

record sys_env =
  env_1553 :: "bregs \<Rightarrow> sys \<Rightarrow> bregs \<times> sys"
  env_155f :: "bregs \<Rightarrow> sys \<Rightarrow> bregs \<times> sys"
  env_15c2 :: "bregs \<Rightarrow> sys \<Rightarrow> bregs \<times> sys"
  env_ss :: u16
  env_wait_flag :: "u16 \<times> u16"
  env_irqs :: "(clock \<Rightarrow> clock) list"
  env_config_table :: u16
  env_ebda :: u16

definition handle_15 :: "sys_env \<Rightarrow> bregs \<Rightarrow> sys \<Rightarrow> (bregs \<times> sys) option" where
  "handle_15 env r s =
     (let f = r_ah r in
      if f = 0x24 then Some (handle_1524 r s)
      else if f = 0x4f then Some (handle_154f r s)
      else if f = 0x52 then Some (handle_1552 r s)
      else if f = 0x53 then Some (env_1553 env r s)
      else if f = 0x5f then Some (env_155f env r s)
      else if f = 0x83 then Some (let (r1, c) = handle_1583 r (clk s) in (r1, s\<lparr>clk := c\<rparr>))
      else if f = 0x86 then
        map_option (\<lambda>(r1, c). (r1, s\<lparr>clk := c\<rparr>))
          (handle_1586 (env_irqs env) (fst (env_wait_flag env)) (snd (env_wait_flag env)) r (clk s))
      else if f = 0x87 then Some (handle_1587 (env_ss env) r s)
      else if f = 0x88 then Some (handle_1588 r s)
      else if f = 0x89 then Some (handle_1589 r s)
      else if f = 0x90 then Some (handle_1590 r s)
      else if f = 0x91 then Some (handle_1591 r s)
      else if f = 0xc0 then Some (handle_15c0 (env_config_table env) r s)
      else if f = 0xc1 then Some (handle_15c1 (env_ebda env) r s)
      else if f = 0xc2 then Some (env_15c2 env r s)
      else if f = 0xe8 then Some (handle_15e8 r s)
      else Some (handle_15XX r s))"

section \<open>Reading back far memory\<close>

lemma far_write_frame:
  "(\<And>i. i < length bs \<Longrightarrow> x \<noteq> far_addr seg (off + of_nat i)) \<Longrightarrow> far_write m seg off bs x = m x"
proof (induction bs arbitrary: m off)
  case (Cons b bs)
  have "x \<noteq> far_addr seg (off + 1 + of_nat i)" if "i < length bs" for i
    using Cons.prems[of "Suc i"] that by (simp add: algebra_simps)
  moreover have "x \<noteq> far_addr seg off" using Cons.prems[of 0] by simp
  ultimately show ?case using Cons.IH by simp
qed simp

lemma of_nat_16_neq_0: "0 < i \<Longrightarrow> i < 65536 \<Longrightarrow> (of_nat i :: u16) \<noteq> 0"
  by (simp add: word_eq_iff_unat unat_of_nat)

lemma far_read_write:
  "length bs \<le> 65536 \<Longrightarrow> far_read (far_write m seg off bs) seg off (length bs) = bs"
proof (induction bs arbitrary: m off)
  case Nil
  then show ?case by (simp add: far_read_def)
next
  case (Cons b bs)
  let ?m = "far_write (m(far_addr seg off := b)) seg (off + 1) bs"
  have "?m (far_addr seg off) = b"
  proof (subst far_write_frame)
    fix i assume "i < length bs"
    then have "(of_nat (Suc i) :: u16) \<noteq> 0" using Cons.prems by (intro of_nat_16_neq_0) simp_all
    then show "far_addr seg off \<noteq> far_addr seg (off + 1 + of_nat i)" by (simp add: algebra_simps)
  qed simp
  moreover have "far_read ?m seg (off + 1) (length bs) = bs" using Cons by simp
  ultimately show ?case
    by (simp add: far_read_def upt_conv_Cons map_Suc_upt[symmetric] comp_def algebra_simps del: upt_Suc)
qed

section \<open>The memory map as the guest reads it\<close>

text \<open>
  A guest reads the map by calling function E820h with \<open>ebx\<close> 0, then with the \<open>ebx\<close> that the last
  call returned, until a call fails or returns 0. \<open>None\<close> means that the calls do not end within the
  fuel.
\<close>

fun e820_scan :: "nat \<Rightarrow> sys_env \<Rightarrow> bregs \<Rightarrow> sys \<Rightarrow> u8 list list option" where
  "e820_scan 0 env r s = None"
| "e820_scan (Suc fuel) env r s = (case handle_15 env r s of
       None \<Rightarrow> None
     | Some (r1, s1) \<Rightarrow>
         if cf r1 then Some []
         else
           let entry = far_read (ck_mem (clk s1)) (r_es r) (lo16 (r_edi r)) 20 in
           if r_ebx r1 = 0 then Some [entry]
           else map_option ((#) entry) (e820_scan fuel env (r\<lparr>r_ebx := r_ebx r1\<rparr>) s1))"

lemma length_le_bytes [simp]: "length (le_bytes n w) = n"
  by (simp add: le_bytes_def)

lemma length_e820_bytes: "length (e820_bytes e) = 20"
  by (simp add: e820_bytes_def)

lemma e820_call:
  assumes "r_ah r = 0xe8" "r_al r = 0x20" "r_edx r = SMAP" "20 \<le> r_ecx r" "r_ebx r = of_nat i" "i < length (e820_list s)"
    "length (e820_list s) \<le> CONFIG_MAX_E820"
  shows "\<exists>r1 s1. handle_15 env r s = Some (r1, s1) \<and> \<not> cf r1
    \<and> r_ebx r1 = (if Suc i = length (e820_list s) then 0 else of_nat (Suc i))
    \<and> e820_list s1 = e820_list s
    \<and> far_read (ck_mem (clk s1)) (r_es r) (lo16 (r_edi r)) 20 = e820_bytes (e820_list s ! i)"
proof -
  have b: "unat (r_bx r) = i" using assms(5-7)
    by (simp add: r_bx_def lo16_def unat_ucast_mod unat_of_nat CONFIG_MAX_E820_def)
  have "far_read (far_write m seg off (e820_bytes e)) seg off 20 = e820_bytes e" for m seg off e
    using far_read_write[of "e820_bytes e" m seg off] by (simp add: length_e820_bytes)
  then show ?thesis using assms
    by (auto simp: handle_15_def handle_15e8_def handle_15e820_def b Let_def upd_mem_def set_success_def not_less not_le)
qed

lemma e820_scan_from:
  assumes "r_ah r = 0xe8" "r_al r = 0x20" "r_edx r = SMAP" "20 \<le> r_ecx r" "r_ebx r = of_nat i" "i < length (e820_list s)"
    "length (e820_list s) \<le> CONFIG_MAX_E820" "length (e820_list s) - i \<le> fuel"
  shows "e820_scan fuel env r s = Some (map e820_bytes (drop i (e820_list s)))"
  using assms
proof (induction fuel arbitrary: r s i)
  case (Suc fuel)
  obtain r1 s1 where c: "handle_15 env r s = Some (r1, s1)" "\<not> cf r1"
    "r_ebx r1 = (if Suc i = length (e820_list s) then 0 else of_nat (Suc i))" "e820_list s1 = e820_list s"
    "far_read (ck_mem (clk s1)) (r_es r) (lo16 (r_edi r)) 20 = e820_bytes (e820_list s ! i)"
    using e820_call[OF Suc.prems(1-7), of env] by blast
  have d: "drop i (e820_list s) = e820_list s ! i # drop (Suc i) (e820_list s)" using Suc.prems(6) by (simp add: Cons_nth_drop_Suc)
  show ?case
  proof (cases "Suc i = length (e820_list s)")
    case True
    then show ?thesis using c d by simp
  next
    case False
    then have i: "Suc i < length (e820_list s1)" using Suc.prems(6) c(4) by simp
    have nz: "(of_nat (Suc i) :: u32) \<noteq> 0" using i Suc.prems(7) c(4)
      by (simp add: word_eq_iff_unat unat_of_nat CONFIG_MAX_E820_def del: of_nat_Suc)
    have "e820_scan fuel env (r\<lparr>r_ebx := of_nat (Suc i)\<rparr>) s1 = Some (map e820_bytes (drop (Suc i) (e820_list s1)))"
      using Suc.prems i c(4) by (intro Suc.IH) (simp_all add: reg_defs)
    then show ?thesis using c d False nz by (simp del: of_nat_Suc)
  qed
qed simp

text \<open>
  A guest that asks for the memory map reads exactly the map: the sequence of calls ends, after
  as many calls as the map has entries, and returns the bytes of every entry, in order.
\<close>

theorem e820_scan_reads_map:
  assumes "e820_list s \<noteq> []" "length (e820_list s) \<le> CONFIG_MAX_E820"
    "r_ah r = 0xe8" "r_al r = 0x20" "r_edx r = SMAP" "20 \<le> r_ecx r" "r_ebx r = 0"
  shows "e820_scan (length (e820_list s)) env r s = Some (map e820_bytes (e820_list s))"
  using e820_scan_from[OF assms(3-6), of 0 s "length (e820_list s)" env] assms by simp

definition ex_sys :: sys where
  "ex_sys = \<lparr>clk = ex_clock,
     e820_list = [\<lparr>e_start = 0, e_size = 0x9fc00, e_type = 1\<rparr>, \<lparr>e_start = 0x100000, e_size = 0x7f00000, e_type = 1\<rparr>],
     RamSize = 0x8000000, port_a20 = 0, code_seg = 0\<rparr>"

definition ex_sys_env :: sys_env where
  "ex_sys_env = \<lparr>env_1553 = Pair, env_155f = Pair, env_15c2 = Pair, env_ss = 0, env_wait_flag = (0, 0), env_irqs = [],
     env_config_table = 0, env_ebda = 0x9fc0\<rparr>"

theorem e820_scan_reads_map_witness:
  "\<exists>a b. e820_scan 2 ex_sys_env (ex_wait\<lparr>r_eax := 0xe820, r_edx := SMAP, r_ecx := 24\<rparr>) ex_sys = Some [a, b]
     \<and> take 8 b = [0, 0, 0x10, 0, 0, 0, 0, 0]"
proof -
  have l: "e820_list ex_sys = [\<lparr>e_start = 0, e_size = 0x9fc00, e_type = 1\<rparr>, \<lparr>e_start = 0x100000, e_size = 0x7f00000, e_type = 1\<rparr>]"
    by (simp add: ex_sys_def)
  have r: "r_ah (ex_wait\<lparr>r_eax := 0xe820, r_edx := SMAP, r_ecx := 24\<rparr>) = 0xe8"
    "r_al (ex_wait\<lparr>r_eax := 0xe820, r_edx := SMAP, r_ecx := 24\<rparr>) = 0x20"
    by (simp_all add: reg_defs hi8_def lo8_def)
  have n: "length (e820_list ex_sys) = 2" by (simp add: l)
  have h: "e820_list ex_sys \<noteq> []" "length (e820_list ex_sys) \<le> CONFIG_MAX_E820" by (simp_all add: l CONFIG_MAX_E820_def)
  note w = e820_scan_reads_map[OF h r, of ex_sys_env, unfolded n]
  have "e820_scan 2 ex_sys_env (ex_wait\<lparr>r_eax := 0xe820, r_edx := SMAP, r_ecx := 24\<rparr>) ex_sys = Some (map e820_bytes (e820_list ex_sys))"
    by (rule w) (simp_all add: ex_wait_def)
  moreover have "take 8 (e820_bytes (e820_list ex_sys ! 1)) = [0, 0, 0x10, 0, 0, 0, 0, 0]"
    by (simp add: l e820_bytes_def le_bytes_def upt_rec)
  ultimately show ?thesis by (auto simp: l)
qed

section \<open>Memory sizes\<close>

text \<open>
  The two older functions report the memory above 1M, in units of 1K and of 64K above 16M, rounded
  down and never more than there is.
\<close>

lemma handle_15e801_reports:
  assumes "handle_15e801 r s = (r', s')" "0x100000 \<le> RamSize s"
  shows "unat (r_cx r') * 1024 + unat (r_dx r') * 65536 \<le> unat (RamSize s) - 0x100000"
    "unat (RamSize s) - 0x100000 < unat (r_cx r') * 1024 + unat (r_dx r') * 65536 + 65536"
    "r_ax r' = r_cx r'" "r_bx r' = r_dx r'"
proof -
  let ?n = "unat (RamSize s)"
  have b: "?n < 4294967296" using unat_lt_2p[of "RamSize s"] by simp
  have lo: "0x100000 \<le> ?n" using assms(2) by (simp add: word_le_nat_alt)
  have r: "r' = fst (handle_15e801 r s)" using assms(1) by simp
  have "unat (r_cx r') * 1024 + unat (r_dx r') * 65536 \<le> ?n - 0x100000
      \<and> ?n - 0x100000 < unat (r_cx r') * 1024 + unat (r_dx r') * 65536 + 65536"
  proof (cases "RamSize s > 0x1000000")
    case True
    then have gt: "?n > 0x1000000" by (simp add: word_less_nat_alt)
    have d: "unat (RamSize s - 0x1000000) = ?n - 0x1000000"
      using gt by (subst unat_diff_nowrap) (simp_all add: word_le_nat_alt)
    have "unat ((RamSize s - 0x1000000) div 0x10000) = (?n - 0x1000000) div 65536" by (simp add: unat_div_distrib d)
    moreover have "(?n - 0x1000000) div 65536 < 65536" using b by (intro div_less_iff_less_mult[THEN iffD2]) simp_all
    ultimately have dx: "unat (ucast ((RamSize s - 0x1000000) div 0x10000) :: u16) = (?n - 0x1000000) div 65536"
      by (simp add: unat_ucast_mod)
    have "unat (r_cx r') = 15360" "unat (r_dx r') = (?n - 0x1000000) div 65536"
      using True dx unfolding r by (simp_all add: handle_15e801_def set_success_def reg_defs Let_def)
    moreover obtain x where x: "?n - 0x1000000 = x" "?n - 0x100000 = x + 15728640" using gt by simp
    moreover have "x div 65536 * 65536 \<le> x" "x < x div 65536 * 65536 + 65536"
      using div_times_less_eq_dividend[of x 65536] dividend_less_div_times[of 65536 x] by simp_all
    ultimately show ?thesis by simp
  next
    case False
    then have le: "?n \<le> 0x1000000" by (simp add: word_less_nat_alt not_less)
    have d: "unat (RamSize s - 0x100000) = ?n - 0x100000"
      using assms(2) by (subst unat_diff_nowrap) simp_all
    have "unat ((RamSize s - 0x100000) div 1024) = (?n - 0x100000) div 1024" by (simp add: unat_div_distrib d)
    moreover have "(?n - 0x100000) div 1024 < 65536" using le by (intro div_less_iff_less_mult[THEN iffD2]) simp_all
    ultimately have cx: "unat (ucast ((RamSize s - 0x100000) div 1024) :: u16) = (?n - 0x100000) div 1024"
      by (simp add: unat_ucast_mod)
    have "unat (r_cx r') = (?n - 0x100000) div 1024" "unat (r_dx r') = 0"
      using False cx unfolding r by (simp_all add: handle_15e801_def set_success_def reg_defs Let_def)
    then show ?thesis using div_times_less_eq_dividend[of "?n - 0x100000" 1024] dividend_less_div_times[of 1024 "?n - 0x100000"]
      by (simp add: algebra_simps)
  qed
  then show "unat (r_cx r') * 1024 + unat (r_dx r') * 65536 \<le> ?n - 0x100000"
    "?n - 0x100000 < unat (r_cx r') * 1024 + unat (r_dx r') * 65536 + 65536" by auto
  show "r_ax r' = r_cx r'" "r_bx r' = r_dx r'"
    unfolding r by (simp_all add: handle_15e801_def set_success_def reg_defs Let_def)
qed

section \<open>Block moves\<close>

lemma le_word_le_bytes: "8 * n \<le> LENGTH('a) \<Longrightarrow> (le_word (le_bytes n w) :: 'a::len word) = take_bit (8 * n) w"
proof (induction n arbitrary: w)
  case 0
  then show ?case by (simp add: le_word_def le_bytes_def)
next
  case (Suc n)
  have b: "le_bytes (Suc n) w = ucast w # le_bytes n (drop_bit 8 w)"
    by (simp add: le_bytes_def upt_conv_Cons map_Suc_upt[symmetric] comp_def drop_bit_drop_bit ac_simps del: upt_Suc)
  have "(le_word (le_bytes (Suc n) w) :: 'a word) = ucast (ucast w :: u8) OR push_bit 8 (take_bit (8 * n) (drop_bit 8 w))"
    using Suc by (simp add: b le_word_def)
  also have "\<dots> = take_bit (8 * Suc n) w"
    by (rule bit_eqI) (auto simp: bit_simps)
  finally show ?case .
qed

text \<open>A descriptor that the code builds has the base it was built from.\<close>

lemma desc_base_GDT_BASE: "desc_base (GDT_DATA OR GDT_LIMIT lim OR GDT_BASE v) = v"
proof -
  have m: "(0x00ffffff :: u64) = mask 24" "(0xff000000 :: u64) = push_bit 24 (mask 8)" "(0xffff :: u64) = mask 16"
    "(0xf0000 :: u64) = push_bit 16 (mask 4)" "(0x93 :: u64) = take_bit 8 0x93"
    by (simp_all add: mask_eq_exp_minus_1 push_bit_eq_mult)
  have k: "desc_base (push_bit 40 (take_bit 8 k) OR GDT_LIMIT lim OR GDT_BASE v) = v" for k :: u64
    unfolding desc_base_def GDT_LIMIT_def GDT_BASE_def m(1-4) by (rule bit_word_eqI) (auto simp: bit_simps)
  from k[of "0x93"] show ?thesis unfolding m(5)[symmetric] GDT_DATA_def .
qed

end
