(* ===== verification/Cdrom.thy ===== *)
theory Cdrom
  imports Disk System
begin

text \<open>
  \<open>bios/seabios/src/cdrom.c\<close> and \<open>blockcmd.c\<close>: the emulation of a disk with sectors of 512 bytes by an
  image on a compact disc with blocks of 2048 bytes, and booting from a compact disc (El Torito).

  The state of the drivers is memory and a part \<open>'d\<close> for the devices. The drivers (of \<open>ata.c\<close>,
  \<open>usb-msc.c\<close>) are parameters.
\<close>

type_synonym 'd driver = "u8 \<Rightarrow> disk_op_s \<Rightarrow> memory \<times> 'd \<Rightarrow> (u8 \<times> disk_op_s) \<times> memory \<times> 'd"

section \<open>Disk emulation\<close>

text \<open>
  What \<open>cdemu_read\<close> takes from the EBDA: the drive with the disc, the first block of the image, and
  where the buffer for partial blocks is.
\<close>

record cd_conf =
  cc_drive :: drive_s
  cc_ilba :: u32
  cc_ebda_seg :: u16
  cc_cdbuf :: u16

text \<open>
  The three parts of \<open>cdemu_read\<close>. \<open>Inl\<close> is a return from the function; \<open>Inr\<close> carries the request,
  the request to the disc, the number of sectors left, and the state.
\<close>

type_synonym 'd cd_stage = "((u8 \<times> disk_op_s) \<times> memory \<times> 'd) + (disk_op_s \<times> disk_op_s \<times> nat \<times> memory \<times> 'd)"

definition cdemu_first :: "'d driver \<Rightarrow> cd_conf \<Rightarrow> disk_op_s \<Rightarrow> disk_op_s \<Rightarrow> nat \<Rightarrow> memory \<times> 'd \<Rightarrow> 'd cd_stage" where
  "cdemu_first drv conf op dop count s =
     (if op_lba op AND 3 \<noteq> 0 then
        let ((ret, dop1), m, h) = process_op drv (dop\<lparr>op_count := 1, op_buf := far_addr (cc_ebda_seg conf) (cc_cdbuf conf)\<rparr>) s in
        if ret \<noteq> 0 then Inl ((ret, op), m, h)
        else
          let k = unat (op_lba op AND 3);
              thiscount = min (4 - k) count;
              m1 = memcpy_far m (FLATPTR_TO_SEG (op_buf op)) (FLATPTR_TO_OFFSET (op_buf op))
                     (cc_ebda_seg conf) (cc_cdbuf conf + of_nat (k * 512)) (thiscount * 512)
          in Inr (op\<lparr>op_buf := op_buf op + of_nat (thiscount * 512), op_count := op_count op + of_nat thiscount\<rparr>,
                  dop1\<lparr>op_lba := op_lba dop1 + 1\<rparr>, count - thiscount, m1, h)
      else Inr (op, dop, count, s))"

definition cdemu_middle :: "'d driver \<Rightarrow> disk_op_s \<Rightarrow> disk_op_s \<Rightarrow> nat \<Rightarrow> memory \<times> 'd \<Rightarrow> 'd cd_stage" where
  "cdemu_middle drv op dop count s =
     (if count > 3 then
        let ((ret, dop1), m, h) = process_op drv (dop\<lparr>op_count := of_nat (count div 4), op_buf := op_buf op\<rparr>) s;
            op1 = op\<lparr>op_count := op_count op + op_count dop1 * 4\<rparr>
        in if ret \<noteq> 0 then Inl ((ret, op1), m, h)
           else
             let thiscount = of_nat (4 * (count div 4)) :: u8
             in Inr (op1\<lparr>op_buf := op_buf op1 + ucast thiscount * 512\<rparr>,
                     dop1\<lparr>op_lba := op_lba dop1 + ucast (thiscount div 4)\<rparr>, count mod 4, m, h)
      else Inr (op, dop, count, s))"

definition cdemu_last ::
  "'d driver \<Rightarrow> cd_conf \<Rightarrow> disk_op_s \<Rightarrow> disk_op_s \<Rightarrow> nat \<Rightarrow> memory \<times> 'd \<Rightarrow> (u8 \<times> disk_op_s) \<times> memory \<times> 'd" where
  "cdemu_last drv conf op dop count s =
     (if count \<noteq> 0 then
        let ((ret, dop1), m, h) = process_op drv (dop\<lparr>op_count := 1, op_buf := far_addr (cc_ebda_seg conf) (cc_cdbuf conf)\<rparr>) s in
        if ret \<noteq> 0 then ((ret, op), m, h)
        else
          ((DISK_RET_SUCCESS, op\<lparr>op_count := op_count op + of_nat count\<rparr>),
           memcpy_far m (FLATPTR_TO_SEG (op_buf op)) (FLATPTR_TO_OFFSET (op_buf op))
             (cc_ebda_seg conf) (cc_cdbuf conf) (count * 512), h)
      else ((DISK_RET_SUCCESS, op), s))"

definition cdemu_read :: "'d driver \<Rightarrow> cd_conf \<Rightarrow> disk_op_s \<Rightarrow> memory \<times> 'd \<Rightarrow> (u8 \<times> disk_op_s) \<times> memory \<times> 'd" where
  "cdemu_read drv conf op0 s0 =
     (let dop = \<lparr>op_lba = ucast (cc_ilba conf) + op_lba op0 div 4, op_buf = 0, op_drive = cc_drive conf, op_count = 0,
                 op_command = op_command op0\<rparr>
      in case cdemu_first drv conf (op0\<lparr>op_count := 0\<rparr>) dop (unat (op_count op0)) s0 of
           Inl r \<Rightarrow> r
         | Inr (op1, dop1, count1, s1) \<Rightarrow>
             (case cdemu_middle drv op1 dop1 count1 s1 of
                Inl r \<Rightarrow> r
              | Inr (op2, dop2, count2, s2) \<Rightarrow> cdemu_last drv conf op2 dop2 count2 s2))"

definition process_cdemu_op :: "'d driver \<Rightarrow> cd_conf \<Rightarrow> disk_op_s \<Rightarrow> memory \<times> 'd \<Rightarrow> (u8 \<times> disk_op_s) \<times> memory \<times> 'd" where
  "process_cdemu_op drv conf op s =
     (if op_command op = CMD_READ then cdemu_read drv conf op s
      else if op_command op \<in> {CMD_WRITE, CMD_FORMAT} then ((DISK_RET_EWRITEPROTECT, op), s)
      else if op_command op \<in> {CMD_VERIFY, CMD_RESET, CMD_SEEK, CMD_ISREADY} then ((DISK_RET_SUCCESS, op), s)
      else ((DISK_RET_EPARAM, op\<lparr>op_count := 0\<rparr>), s))"

text \<open>
  \<open>cdemu_setup\<close>: \<open>a\<close> is the address that the allocator returns for the structure of the emulated
  drive, 0 if there is no memory.
\<close>

definition zero_chs :: chs_s where "zero_chs = \<lparr>heads = 0, cylinders = 0, spt = 0\<rparr>"

definition zero_drive :: drive_s where
  "zero_drive = \<lparr>d_type = 0, floppy_type = 0, lchs = zero_chs, sectors = 0, cntl_id = 0, removable = 0, translation = 0,
     blksize = 0, pchs = zero_chs\<rparr>"

definition cdemu_setup :: "addr \<Rightarrow> 'h disk \<Rightarrow> 'h disk" where
  "cdemu_setup a s =
     (if a = 0 then s\<lparr>cdemu_drive := 0\<rparr>
      else s\<lparr>cdemu_drive := a, drives := (drives s)\<lparr>drive_at := (drive_at (drives s))(a :=
             zero_drive\<lparr>d_type := DTYPE_CDEMU, blksize := 512, sectors := - 1\<rparr>)\<rparr>\<rparr>)"

section \<open>Packet commands\<close>

text \<open>
  \<open>blockcmd.c\<close>: a command is the 16 bytes that the code sends, multi-byte fields in network order.
  The packet drivers (\<open>atapi_cmd_data\<close>, \<open>usb_cmd_data\<close>) are parameters.
\<close>

type_synonym 'd cmd_driver = "u8 \<Rightarrow> disk_op_s \<Rightarrow> u8 list \<Rightarrow> u16 \<Rightarrow> memory \<times> 'd \<Rightarrow> (u8 \<times> disk_op_s) \<times> memory \<times> 'd"

definition be_bytes :: "nat \<Rightarrow> 'a::len word \<Rightarrow> u8 list" where
  "be_bytes n w = rev (le_bytes n w)"

definition cdb_cmd_data :: "'d cmd_driver \<Rightarrow> disk_op_s \<Rightarrow> u8 list \<Rightarrow> u16 \<Rightarrow> memory \<times> 'd \<Rightarrow> (u8 \<times> disk_op_s) \<times> memory \<times> 'd" where
  "cdb_cmd_data cd op cdb blocksize s =
     (let t = d_type (op_drive op) in
      if t = DTYPE_ATAPI \<or> t = DTYPE_USB then cd t op cdb blocksize s
      else ((DISK_RET_EPARAM, op\<lparr>op_count := 0\<rparr>), s))"

definition cdb_get_inquiry :: "'d cmd_driver \<Rightarrow> disk_op_s \<Rightarrow> u32 \<Rightarrow> memory \<times> 'd \<Rightarrow> (u8 \<times> disk_op_s) \<times> memory \<times> 'd" where
  "cdb_get_inquiry cd op data s =
     cdb_cmd_data cd (op\<lparr>op_count := 1, op_buf := data\<rparr>) ([0x12, 0, 0, 0, 36, 0] @ replicate 10 0) 36 s"

definition cdb_get_sense :: "'d cmd_driver \<Rightarrow> disk_op_s \<Rightarrow> u32 \<Rightarrow> memory \<times> 'd \<Rightarrow> (u8 \<times> disk_op_s) \<times> memory \<times> 'd" where
  "cdb_get_sense cd op data s =
     cdb_cmd_data cd (op\<lparr>op_count := 1, op_buf := data\<rparr>) ([0x03, 0, 0, 0, 18, 0] @ replicate 10 0) 18 s"

definition cdb_read_capacity :: "'d cmd_driver \<Rightarrow> disk_op_s \<Rightarrow> u32 \<Rightarrow> memory \<times> 'd \<Rightarrow> (u8 \<times> disk_op_s) \<times> memory \<times> 'd" where
  "cdb_read_capacity cd op data s =
     cdb_cmd_data cd (op\<lparr>op_count := 1, op_buf := data\<rparr>) (0x25 # replicate 15 0) 8 s"

definition cdb_read :: "'d cmd_driver \<Rightarrow> disk_op_s \<Rightarrow> memory \<times> 'd \<Rightarrow> (u8 \<times> disk_op_s) \<times> memory \<times> 'd" where
  "cdb_read cd op s =
     cdb_cmd_data cd op ([0x28, 0] @ be_bytes 4 (ucast (op_lba op) :: u32) @ [0] @ be_bytes 2 (op_count op) @ [0] @ replicate 6 0)
       (blksize (op_drive op)) s"

section \<open>Booting\<close>

definition peek :: "memory \<Rightarrow> u32 \<Rightarrow> nat \<Rightarrow> u8 list" where
  "peek m a n = map (\<lambda>i. m (a + of_nat i)) [0..<n]"

text \<open>
  The loop of \<open>atapi_is_ready\<close> over the readings of the time stamp counter: \<open>end_time\<close> is the deadline,
  \<open>info\<close> and \<open>sense\<close> are the addresses of the two result structures on the stack.
\<close>

fun ready_loop ::
  "'d cmd_driver \<Rightarrow> u32 \<Rightarrow> u32 \<Rightarrow> u32 \<Rightarrow> u64 \<Rightarrow> bool \<Rightarrow> u64 list \<Rightarrow> disk_op_s \<Rightarrow> memory \<times> 'd \<Rightarrow> (bool \<times> disk_op_s \<times> memory \<times> 'd) option"
  where
  "ready_loop cd khz info sense end_time in_progress [] op s = None"
| "ready_loop cd khz info sense end_time in_progress (now # ts) op s =
     (if check_time now end_time then Some (False, op, s)
      else let ((ret, op1), s1) = cdb_read_capacity cd op info s in
        if ret = 0 then Some (True, op1, s1)
        else let ((ret2, op2), s2) = cdb_get_sense cd op1 sense s1; asc = fst s2 (sense + 12); ascq = fst s2 (sense + 13) in
          if ret2 \<noteq> 0 then ready_loop cd khz info sense end_time in_progress ts op2 s2
          else if asc = 0x3a then Some (False, op2, s2)
          else if asc = 0x04 \<and> ascq = 0x01 \<and> \<not> in_progress then
            (case ts of [] \<Rightarrow> None
             | now2 # ts2 \<Rightarrow> ready_loop cd khz info sense (calc_future_tsc now2 khz 30000) True ts2 op2 s2)
          else ready_loop cd khz info sense end_time in_progress ts op2 s2)"

definition atapi_is_ready ::
  "'d cmd_driver \<Rightarrow> u32 \<Rightarrow> u32 \<Rightarrow> u32 \<Rightarrow> u64 list \<Rightarrow> disk_op_s \<Rightarrow> memory \<times> 'd \<Rightarrow> (int \<times> disk_op_s \<times> memory \<times> 'd) option" where
  "atapi_is_ready cd khz info sense ts op s = (case ts of [] \<Rightarrow> None
     | now # ts1 \<Rightarrow> map_option (\<lambda>(ok, op1, s1).
         if \<not> ok then (- 1, op1, s1)
         else if (le_word (rev (peek (fst s1) (info + 4) 4)) :: u32) \<noteq> ucast (blksize (op_drive op1)) then (- 1, op1, s1)
         else (0, op1, s1)) (ready_loop cd khz info sense (calc_future_tsc now khz 5000) False ts1 op s))"

text \<open>The string of a boot record: \<open>CD001\<close>, 1, \<open>EL TORITO SPECIFICATION\<close>.\<close>

definition el_torito_id :: "u8 list" where
  "el_torito_id = [0x43, 0x44, 0x30, 0x30, 0x31, 1, 0x45, 0x4c, 0x20, 0x54, 0x4f, 0x52, 0x49, 0x54, 0x4f, 0x20, 0x53, 0x50, 0x45,
     0x43, 0x49, 0x46, 0x49, 0x43, 0x41, 0x54, 0x49, 0x4f, 0x4e]"

text \<open>The geometry of the emulated drive: fixed for a floppy, from the first partition for a hard disk.\<close>

definition cd_floppy_chs :: "u8 \<Rightarrow> chs_s \<Rightarrow> chs_s" where
  "cd_floppy_chs md g =
     (if md = 1 then \<lparr>heads = 2, cylinders = 80, spt = 15\<rparr>
      else if md = 2 then \<lparr>heads = 2, cylinders = 80, spt = 18\<rparr>
      else if md = 3 then \<lparr>heads = 2, cylinders = 80, spt = 36\<rparr>
      else g)"

definition cd_hd_chs :: "memory \<Rightarrow> u16 \<Rightarrow> chs_s" where
  "cd_hd_chs m boot_segment =
     (let hd = m (far_addr boot_segment 0x1c3); sptcyl = m (far_addr boot_segment 0x1c4); cyllow = m (far_addr boot_segment 0x1c5)
      in \<lparr>heads = ucast hd + 1, cylinders = (push_bit 2 (ucast sptcyl) AND 0x300) + ucast cyllow + 1,
          spt = ucast (sptcyl AND 0x3f)\<rparr>)"

text \<open>The last part of \<open>cdrom_boot\<close>: the emulation of a floppy or hard disk.\<close>

definition cd_start_emulation :: "u8 \<Rightarrow> u16 \<Rightarrow> (memory \<times> 'd) disk \<Rightarrow> int \<times> (memory \<times> 'd) disk" where
  "cd_start_emulation md boot_segment s =
     (if cdemu_drive s = 0 then (13, s)
      else
        let s1 = (if md < 4 then
                    s\<lparr>cdemu := (cdemu s)\<lparr>emulated_extdrive := 0x00, cd_lchs := cd_floppy_chs md (cd_lchs (cdemu s))\<rparr>,
                      drives := (drives s)\<lparr>equipment_list_flags := equipment_list_flags (drives s) OR 0x41\<rparr>\<rparr>
                  else
                    s\<lparr>cdemu := (cdemu s)\<lparr>emulated_extdrive := 0x80, cd_lchs := cd_hd_chs (fst (hw s)) boot_segment\<rparr>,
                      drives := (drives s)\<lparr>hdcount := hdcount (drives s) + 1\<rparr>\<rparr>)
        in (0, s1\<lparr>cdemu := (cdemu s1)\<lparr>active := 0x01\<rparr>\<rparr>))"

text \<open>The boot catalogue: the checks, and what is taken from its first entry.\<close>

definition cd_catalog_error :: "memory \<Rightarrow> u32 \<Rightarrow> int" where
  "cd_catalog_error m b =
     (if m b \<noteq> 0x01 then 8
      else if m (b + 0x01) \<noteq> 0x00 then 9
      else if m (b + 0x1e) \<noteq> 0x55 then 10
      else if m (b + 0x1f) \<noteq> 0xaa then 10
      else if m (b + 0x20) \<noteq> 0x88 then 11
      else 0)"

definition cd_load_image ::
  "'d cmd_driver \<Rightarrow> u8 \<Rightarrow> addr \<Rightarrow> u32 \<Rightarrow> disk_op_s \<Rightarrow> (memory \<times> 'd) disk \<Rightarrow> int \<times> (memory \<times> 'd) disk" where
  "cd_load_image cd cdid d b dop s =
     (let m = fst (hw s);
          md = m (b + 0x21);
          bs0 = le_word (peek m (b + 0x22) 2) :: u16;
          boot_segment = (if bs0 = 0 then 0x07c0 else bs0);
          nbsectors = le_word (peek m (b + 0x26) 2) :: u16;
          lba = le_word (peek m (b + 0x28) 4) :: u32;
          s1 = s\<lparr>cdemu := (cdemu s)\<lparr>media := md, emulated_drive := d, load_segment := boot_segment, buffer_segment := 0,
                    sector_count := nbsectors, ilba := lba\<rparr>\<rparr>;
          ((ret, _), h) = cdb_read cd (dop\<lparr>op_lba := ucast lba, op_count := of_nat ((unat nbsectors + 3) div 4),
                            op_buf := far_addr boot_segment 0\<rparr>) (hw s1);
          s2 = s1\<lparr>hw := h\<rparr>
      in if ret \<noteq> 0 then (12, s2)
         else if md = 0 then (0, s2\<lparr>cdemu := (cdemu s2)\<lparr>emulated_extdrive := EXTSTART_CD + cdid\<rparr>\<rparr>)
         else cd_start_emulation md boot_segment s2)"

text \<open>\<open>b\<close> is the address of the sector buffer on the stack.\<close>

definition cdrom_boot ::
  "'d cmd_driver \<Rightarrow> u32 \<Rightarrow> u32 \<Rightarrow> u32 \<Rightarrow> u32 \<Rightarrow> u64 list \<Rightarrow> u8 \<Rightarrow> (memory \<times> 'd) disk \<Rightarrow> (int \<times> (memory \<times> 'd) disk) option" where
  "cdrom_boot cd khz info sense b ts cdid s =
     (let d = getDrive EXTTYPE_CD cdid (drives s) in
      if d = 0 then Some (1, s)
      else
        let dop = \<lparr>op_lba = 0, op_buf = 0, op_drive = drive_at (drives s) d, op_count = 0, op_command = 0\<rparr> in
        Option.bind (atapi_is_ready cd khz info sense ts dop (hw s)) (\<lambda>(_, dop1, h1).
        let ((ret2, dop2), h2) = cdb_read cd (dop1\<lparr>op_lba := 0x11, op_count := 1, op_buf := b\<rparr>) h1; m2 = fst h2 in
        if ret2 \<noteq> 0 then Some (3, s\<lparr>hw := h2\<rparr>)
        else if m2 b \<noteq> 0 then Some (4, s\<lparr>hw := h2\<rparr>)
        else if peek m2 (b + 1) 30 \<noteq> el_torito_id @ [0] then Some (5, s\<lparr>hw := h2\<rparr>)
        else
          let lba = le_word (peek m2 (b + 0x47) 4) :: u32;
              ((ret3, dop3), h3) = cdb_read cd (dop2\<lparr>op_lba := ucast lba, op_count := 1\<rparr>) h2 in
          if ret3 \<noteq> 0 then Some (7, s\<lparr>hw := h3\<rparr>)
          else if cd_catalog_error (fst h3) b \<noteq> 0 then Some (cd_catalog_error (fst h3) b, s\<lparr>hw := h3\<rparr>)
          else Some (cd_load_image cd cdid d b dop3 (s\<lparr>hw := h3\<rparr>))))"

section \<open>Reading blocks\<close>

lemma span_shift:
  assumes "k + n \<le> N"
  shows "span (p + of_nat k) n \<subseteq> span p N"
proof
  fix a assume "a \<in> span (p + of_nat k) n"
  then obtain i where "i < n" "a = p + of_nat (k + i)" by (auto simp: span_iff add.assoc)
  with assms show "a \<in> span p N" unfolding span_iff by (intro exI[of _ "k + i"]) simp
qed

lemma of_nat_add_inj:
  fixes p :: u32 assumes "i < 2 ^ 32" "j < 2 ^ 32" "p + of_nat i = p + of_nat j"
  shows "i = j"
proof -
  have "unat (of_nat i :: u32) = unat (of_nat j :: u32)" using assms(3) by simp
  then show ?thesis using assms(1,2) by (simp only: unat_of_nat) simp
qed

text \<open>
  The contract of a driver that reads, with its device in the state \<open>h\<close>: a request for at most \<open>maxc\<close> blocks of \<open>blk\<close> bytes within the
  first \<open>len\<close> blocks, to a buffer below 1M, succeeds, fills the buffer with the bytes of the medium
  \<open>img\<close>, reports the number of blocks, and changes no other memory but \<open>scratch\<close>.
\<close>

definition reads_blocks_at ::
  "nat \<Rightarrow> nat \<Rightarrow> (nat \<Rightarrow> u8) \<Rightarrow> nat \<Rightarrow> u32 set
   \<Rightarrow> (disk_op_s \<Rightarrow> memory \<times> 'd \<Rightarrow> (u8 \<times> disk_op_s) \<times> memory \<times> 'd) \<Rightarrow> drive_s \<Rightarrow> 'd \<Rightarrow> bool" where
  "reads_blocks_at blk maxc img len scratch rd dr h \<longleftrightarrow> (\<forall>op m.
     op_drive op = dr \<and> op_command op = CMD_READ \<and> 0 < unat (op_count op) \<and> unat (op_count op) \<le> maxc
     \<and> unat (op_lba op) + unat (op_count op) \<le> len \<and> unat (op_buf op) + blk * unat (op_count op) \<le> 2 ^ 20
     \<and> span (op_buf op) (blk * unat (op_count op)) \<inter> scratch = {} \<longrightarrow>
     (\<exists>op' m' h'. rd op (m, h) = ((DISK_RET_SUCCESS, op'), m', h')
        \<and> op_count op' = op_count op \<and> op_lba op' = op_lba op \<and> op_drive op' = dr \<and> op_command op' = CMD_READ
        \<and> (\<forall>i < blk * unat (op_count op). m' (op_buf op + of_nat i) = img (blk * unat (op_lba op) + i))
        \<and> (\<forall>a. a \<notin> scratch \<union> span (op_buf op) (blk * unat (op_count op)) \<longrightarrow> m' a = m a)))"

definition reads_blocks ::
  "nat \<Rightarrow> nat \<Rightarrow> (nat \<Rightarrow> u8) \<Rightarrow> nat \<Rightarrow> u32 set
   \<Rightarrow> (disk_op_s \<Rightarrow> memory \<times> 'd \<Rightarrow> (u8 \<times> disk_op_s) \<times> memory \<times> 'd) \<Rightarrow> drive_s \<Rightarrow> bool" where
  "reads_blocks blk maxc img len scratch rd dr \<longleftrightarrow> (\<forall>h. reads_blocks_at blk maxc img len scratch rd dr h)"

lemma reads_blocks_atD:
  assumes "reads_blocks_at blk maxc img len scratch rd dr h"
    "op_drive op = dr" "op_command op = CMD_READ" "0 < unat (op_count op)" "unat (op_count op) \<le> maxc"
    "unat (op_lba op) + unat (op_count op) \<le> len" "unat (op_buf op) + blk * unat (op_count op) \<le> 2 ^ 20"
    "span (op_buf op) (blk * unat (op_count op)) \<inter> scratch = {}"
  obtains op' m' h' where "rd op (m, h) = ((DISK_RET_SUCCESS, op'), m', h')"
    "op_count op' = op_count op" "op_lba op' = op_lba op" "op_drive op' = dr" "op_command op' = CMD_READ"
    "\<And>i. i < blk * unat (op_count op) \<Longrightarrow> m' (op_buf op + of_nat i) = img (blk * unat (op_lba op) + i)"
    "\<And>a. a \<notin> scratch \<Longrightarrow> a \<notin> span (op_buf op) (blk * unat (op_count op)) \<Longrightarrow> m' a = m a"
proof -
  have "\<exists>op' m' h'. rd op (m, h) = ((DISK_RET_SUCCESS, op'), m', h')
        \<and> op_count op' = op_count op \<and> op_lba op' = op_lba op \<and> op_drive op' = dr \<and> op_command op' = CMD_READ
        \<and> (\<forall>i < blk * unat (op_count op). m' (op_buf op + of_nat i) = img (blk * unat (op_lba op) + i))
        \<and> (\<forall>a. a \<notin> scratch \<union> span (op_buf op) (blk * unat (op_count op)) \<longrightarrow> m' a = m a)"
    using assms(1)[unfolded reads_blocks_at_def, rule_format, of op m] assms(2-) by blast
  then show ?thesis using that by blast
qed

lemmas reads_blocksD = reads_blocks_atD[OF reads_blocks_def[THEN iffD1, rule_format]]

text \<open>Reading one block into the buffer of the EBDA and copying \<open>t\<close> of its sectors from the \<open>j\<close>-th on.\<close>

lemma partial_read:
  assumes drv: "reads_blocks 2048 64 img len D (process_op drv) dr"
    and B: "B = far_addr seg cdbuf" "unat B + 2048 \<le> 2 ^ 20" "unat cdbuf + 2048 \<le> 65536" "span B 2048 \<inter> D = {}"
    and dop: "op_drive dop = dr" "op_command dop = CMD_READ" "unat (op_lba dop) < len"
    and p: "unat p + 512 * t \<le> 2 ^ 20" "span p (512 * t) \<inter> (D \<union> span B 2048) = {}" "j + t \<le> 4"
  obtains dop1 m1 h1 where "process_op drv (dop\<lparr>op_count := 1, op_buf := B\<rparr>) (m, h) = ((DISK_RET_SUCCESS, dop1), m1, h1)"
    "op_lba dop1 = op_lba dop" "op_drive dop1 = dr" "op_command dop1 = CMD_READ"
    "\<And>i. i < 512 * t \<Longrightarrow> memcpy_far m1 (FLATPTR_TO_SEG p) (FLATPTR_TO_OFFSET p) seg (cdbuf + of_nat (j * 512)) (t * 512) (p + of_nat i)
        = img (2048 * unat (op_lba dop) + 512 * j + i)"
    "\<And>a. a \<notin> D \<Longrightarrow> a \<notin> span B 2048 \<Longrightarrow> a \<notin> span p (512 * t)
        \<Longrightarrow> memcpy_far m1 (FLATPTR_TO_SEG p) (FLATPTR_TO_OFFSET p) seg (cdbuf + of_nat (j * 512)) (t * 512) a = m a"
proof -
  let ?op = "dop\<lparr>op_count := 1, op_buf := B\<rparr>"
  obtain dop1 m1 h1 where r: "process_op drv ?op (m, h) = ((DISK_RET_SUCCESS, dop1), m1, h1)"
    "op_count dop1 = 1" "op_lba dop1 = op_lba dop" "op_drive dop1 = dr" "op_command dop1 = CMD_READ"
    and c: "\<And>i. i < 2048 \<Longrightarrow> m1 (B + of_nat i) = img (2048 * unat (op_lba dop) + i)"
    and f: "\<And>a. a \<notin> D \<Longrightarrow> a \<notin> span B 2048 \<Longrightarrow> m1 a = m a"
    using reads_blocksD[OF drv, of ?op m h] dop B by (auto simp: Suc_le_eq)
  let ?m2 = "memcpy_far m1 (FLATPTR_TO_SEG p) (FLATPTR_TO_OFFSET p) seg (cdbuf + of_nat (j * 512)) (t * 512)"
  have d: "far_addr (FLATPTR_TO_SEG p) (FLATPTR_TO_OFFSET p + of_nat i) = p + of_nat i" if "i < t * 512" for i
    using that p by (intro far_addr_flat[of p "t * 512"]) simp_all
  have sB: "far_addr seg (cdbuf + of_nat (j * 512) + of_nat i) = B + of_nat (j * 512 + i)" if "i < t * 512" for i
    using that p(3) B(3) far_addr_add[of cdbuf "j * 512 + i" seg] by (simp add: B(1) algebra_simps)
  have inB: "B + of_nat (j * 512 + i) \<in> span B 2048" if "i < t * 512" for i
    unfolding span_iff using that p(3) by (intro exI[of _ "j * 512 + i"]) simp
  have inp: "p + of_nat i \<in> span p (512 * t)" if "i < t * 512" for i
    unfolding span_iff using that by (intro exI[of _ i]) simp
  have "?m2 (p + of_nat i) = img (2048 * unat (op_lba dop) + 512 * j + i)" if "i < 512 * t" for i
  proof -
    have "?m2 (far_addr (FLATPTR_TO_SEG p) (FLATPTR_TO_OFFSET p + of_nat i)) = m1 (far_addr seg (cdbuf + of_nat (j * 512) + of_nat i))"
    proof (rule memcpy_far_copies)
      show "t * 512 \<le> 65536" "i < t * 512" using p(3) that by simp_all
      show "far_addr (FLATPTR_TO_SEG p) (FLATPTR_TO_OFFSET p + of_nat i) \<noteq> far_addr seg (cdbuf + of_nat (j * 512) + of_nat k)"
        if "i < t * 512" "k < t * 512" for i k
        using inB[OF that(2)] inp[OF that(1)] p(2) unfolding d[OF that(1)] sB[OF that(2)] by auto
      show "i = k" if "i < t * 512" "k < t * 512" "far_addr (FLATPTR_TO_SEG p) (FLATPTR_TO_OFFSET p + of_nat i)
          = far_addr (FLATPTR_TO_SEG p) (FLATPTR_TO_OFFSET p + of_nat k)" for i k
        using that p(3) unfolding d[OF that(1)] d[OF that(2)] by (intro of_nat_add_inj[of i k p]) simp_all
    qed
    then show ?thesis using that c[of "j * 512 + i"] p(3) d[of i] sB[of i] by (simp add: algebra_simps)
  qed
  moreover have "?m2 a = m a" if "a \<notin> D" "a \<notin> span B 2048" "a \<notin> span p (512 * t)" for a
  proof -
    have "?m2 a = m1 a"
    proof (rule memcpy_far_frame)
      fix i assume i: "i < t * 512"
      then show "a \<noteq> far_addr (FLATPTR_TO_SEG p) (FLATPTR_TO_OFFSET p + of_nat i)"
        using inp[OF i] that(3) unfolding d[OF i] by auto
    qed
    then show ?thesis using f[OF that(1,2)] by simp
  qed
  ultimately show ?thesis using r that by blast
qed

section \<open>The emulated disk\<close>

text \<open>The buffer for partial blocks.\<close>

definition cd_bounce :: "cd_conf \<Rightarrow> u32" where
  "cd_bounce conf = far_addr (cc_ebda_seg conf) (cc_cdbuf conf)"

definition cd_scratch :: "u32 set \<Rightarrow> cd_conf \<Rightarrow> u32 set" where
  "cd_scratch D conf = D \<union> span (cd_bounce conf) 2048"

text \<open>The driver, the place of the buffer, and the length of the disc.\<close>

definition cd_setup :: "'d driver \<Rightarrow> cd_conf \<Rightarrow> (nat \<Rightarrow> u8) \<Rightarrow> nat \<Rightarrow> u32 set \<Rightarrow> bool" where
  "cd_setup drv conf img len D \<longleftrightarrow> reads_blocks 2048 64 img len D (process_op drv) (cc_drive conf)
     \<and> unat (cd_bounce conf) + 2048 \<le> 2 ^ 20 \<and> unat (cc_cdbuf conf) + 2048 \<le> 65536
     \<and> span (cd_bounce conf) 2048 \<inter> D = {} \<and> len \<le> 2 ^ 32"

definition cd_request :: "cd_conf \<Rightarrow> nat \<Rightarrow> u32 set \<Rightarrow> disk_op_s \<Rightarrow> bool" where
  "cd_request conf len D op \<longleftrightarrow> op_command op = CMD_READ \<and> 0 < unat (op_count op) \<and> unat (op_count op) \<le> 255
     \<and> unat (op_lba op) + unat (op_count op) \<le> 4 * (len - unat (cc_ilba conf))
     \<and> unat (op_buf op) + 512 * unat (op_count op) \<le> 2 ^ 20
     \<and> span (op_buf op) (512 * unat (op_count op)) \<inter> cd_scratch D conf = {}"

text \<open>
  The state between two parts of \<open>cdemu_read\<close>: \<open>k\<close> of the sectors of the request \<open>op0\<close> are in
  memory, and the next block to read is the one with sector \<open>k\<close>.
\<close>

definition cd_progress ::
  "cd_conf \<Rightarrow> (nat \<Rightarrow> u8) \<Rightarrow> u32 set \<Rightarrow> disk_op_s \<Rightarrow> memory \<Rightarrow> nat \<Rightarrow> disk_op_s \<Rightarrow> disk_op_s \<Rightarrow> memory \<Rightarrow> bool" where
  "cd_progress conf img D op0 m0 k op dop m \<longleftrightarrow> k \<le> unat (op_count op0)
     \<and> op_count op = of_nat k \<and> op_buf op = op_buf op0 + of_nat (512 * k) \<and> op_lba op = op_lba op0
     \<and> op_drive op = op_drive op0 \<and> op_command op = CMD_READ
     \<and> op_drive dop = cc_drive conf \<and> op_command dop = CMD_READ
     \<and> (k < unat (op_count op0) \<longrightarrow> unat (op_lba dop) = unat (cc_ilba conf) + (unat (op_lba op0) + k) div 4)
     \<and> (\<forall>i < 512 * k. m (op_buf op0 + of_nat i) = img (2048 * unat (cc_ilba conf) + 512 * unat (op_lba op0) + i))
     \<and> (\<forall>a. a \<notin> cd_scratch D conf \<union> span (op_buf op0) (512 * unat (op_count op0)) \<longrightarrow> m a = m0 a)"

lemma contents_extend:
  fixes p :: u32 and g :: "nat \<Rightarrow> u8"
  assumes "\<forall>i < 512 * k. m (p + of_nat i) = g i"
    "\<And>i. i < 512 * t \<Longrightarrow> m2 (p + of_nat (512 * k) + of_nat i) = g (512 * k + i)"
    "\<And>a. a \<notin> S \<Longrightarrow> a \<notin> span (p + of_nat (512 * k)) (512 * t) \<Longrightarrow> m2 a = m a"
    "span p (512 * N) \<inter> S = {}" "k + t \<le> N" "N \<le> 255"
  shows "\<forall>i < 512 * (k + t). m2 (p + of_nat i) = g i"
proof (intro allI impI)
  fix i assume i: "i < 512 * (k + t)"
  show "m2 (p + of_nat i) = g i"
  proof (cases "i < 512 * k")
    case True
    have "p + of_nat i \<in> span p (512 * N)" unfolding span_iff using i assms(5) by (intro exI[of _ i]) simp
    moreover have "p + of_nat i \<notin> span (p + of_nat (512 * k)) (512 * t)"
    proof
      assume "p + of_nat i \<in> span (p + of_nat (512 * k)) (512 * t)"
      then obtain j where j: "j < 512 * t" "p + of_nat i = p + of_nat (512 * k + j)" unfolding span_iff of_nat_add by (auto simp: add.assoc)
      have "i = 512 * k + j" using i j assms(5,6) by (intro of_nat_add_inj[OF _ _ j(2)]) simp_all
      with True show False by simp
    qed
    ultimately show ?thesis using assms(1,3,4) True by (metis disjoint_iff)
  next
    case False
    then have "m2 (p + of_nat (512 * k) + of_nat (i - 512 * k)) = g (512 * k + (i - 512 * k))" using i by (intro assms(2)) simp
    moreover have "p + of_nat (512 * k) + of_nat (i - 512 * k) = p + of_nat i"
      using False by (simp only: add.assoc of_nat_add[symmetric]) simp
    ultimately show ?thesis using False by simp
  qed
qed

text \<open>One more part of the buffer is filled.\<close>

lemma cd_progress_extend:
  assumes req: "cd_request conf len D op0" and pr: "cd_progress conf img D op0 m0 k op dop m"
    and kt: "k + t \<le> unat (op_count op0)"
    and q: "\<And>i. i < 512 * t \<Longrightarrow> m2 (op_buf op + of_nat i) = img (2048 * unat (cc_ilba conf) + 512 * unat (op_lba op0) + 512 * k + i)"
    and f: "\<And>a. a \<notin> cd_scratch D conf \<Longrightarrow> a \<notin> span (op_buf op) (512 * t) \<Longrightarrow> m2 a = m a"
    and op: "op_count op1 = of_nat (k + t)" "op_buf op1 = op_buf op + of_nat (512 * t)" "op_lba op1 = op_lba op"
      "op_drive op1 = op_drive op" "op_command op1 = op_command op" "op_drive dop1 = cc_drive conf" "op_command dop1 = CMD_READ"
      "k + t < unat (op_count op0) \<longrightarrow> unat (op_lba dop1) = unat (cc_ilba conf) + (unat (op_lba op0) + (k + t)) div 4"
  shows "cd_progress conf img D op0 m0 (k + t) op1 dop1 m2"
proof -
  let ?N = "unat (op_count op0)"
  have c: "\<forall>i < 512 * (k + t). m2 (op_buf op0 + of_nat i) = img (2048 * unat (cc_ilba conf) + 512 * unat (op_lba op0) + i)"
    using pr q f req kt unfolding cd_progress_def cd_request_def
    by (intro contents_extend[where m = m and k = k and t = t and S = "cd_scratch D conf" and N = ?N]) (auto simp: add.assoc)
  have sub: "span (op_buf op0 + of_nat (512 * k)) (512 * t) \<subseteq> span (op_buf op0) (512 * ?N)"
    using kt by (intro span_shift) simp
  have "m2 a = m0 a" if "a \<notin> cd_scratch D conf \<union> span (op_buf op0) (512 * ?N)" for a
    using that f[of a] sub pr unfolding cd_progress_def by auto
  moreover have "op_buf op1 = op_buf op0 + of_nat (512 * (k + t))"
    using pr op(2) unfolding cd_progress_def by (simp add: algebra_simps)
  ultimately show ?thesis using pr op kt c unfolding cd_progress_def by simp
qed

lemma sectors_of_blocks: "2048 * (x div 4) + 512 * (x mod 4) = 512 * (x::nat)"
proof -
  obtain a b where ab: "x div 4 = a" "x mod 4 = b" "a * 4 + b = x" using div_mult_mod_eq[of x 4] by blast
  then show ?thesis unfolding ab(1,2) by linarith
qed

lemma block_end:
  fixes x :: nat assumes "x mod 4 + t = 4"
  shows "x + t = 4 * (x div 4 + 1)"
proof -
  obtain a b where ab: "x div 4 = a" "x mod 4 = b" "a * 4 + b = x" using div_mult_mod_eq[of x 4] by blast
  then show ?thesis using assms unfolding ab(1,2) by (simp add: algebra_simps)
qed

text \<open>A part of a block, through the buffer of the EBDA.\<close>

lemma cd_partial:
  assumes st: "cd_setup drv conf img len D" and req: "cd_request conf len D op0"
    and pr: "cd_progress conf img D op0 m0 k op dop m" and kt: "k + t \<le> unat (op_count op0)" "0 < t"
    and j: "j = (unat (op_lba op0) + k) mod 4" "j + t \<le> 4"
  obtains dop1 m1 h1 where
    "process_op drv (dop\<lparr>op_count := 1, op_buf := cd_bounce conf\<rparr>) (m, h) = ((DISK_RET_SUCCESS, dop1), m1, h1)"
    "op_lba dop1 = op_lba dop" "op_drive dop1 = cc_drive conf" "op_command dop1 = CMD_READ"
    "\<And>op1 dop2. op_count op1 = of_nat (k + t) \<Longrightarrow> op_buf op1 = op_buf op + of_nat (512 * t) \<Longrightarrow> op_lba op1 = op_lba op
      \<Longrightarrow> op_drive op1 = op_drive op \<Longrightarrow> op_command op1 = op_command op \<Longrightarrow> op_drive dop2 = cc_drive conf \<Longrightarrow> op_command dop2 = CMD_READ
      \<Longrightarrow> k + t < unat (op_count op0) \<longrightarrow> unat (op_lba dop2) = unat (cc_ilba conf) + (unat (op_lba op0) + (k + t)) div 4
      \<Longrightarrow> cd_progress conf img D op0 m0 (k + t) op1 dop2
        (memcpy_far m1 (FLATPTR_TO_SEG (op_buf op)) (FLATPTR_TO_OFFSET (op_buf op)) (cc_ebda_seg conf)
          (cc_cdbuf conf + of_nat (j * 512)) (t * 512))"
proof -
  let ?L = "unat (op_lba op0)" and ?N = "unat (op_count op0)" and ?il = "unat (cc_ilba conf)"
  have lba: "unat (op_lba dop) = ?il + (?L + k) div 4" using pr kt unfolding cd_progress_def by simp
  have "(?L + k) div 4 < len - ?il" using req kt unfolding cd_request_def by (intro div_less_iff_less_mult[THEN iffD2]) auto
  then have lt: "unat (op_lba dop) < len" unfolding lba by simp
  have p: "op_buf op = op_buf op0 + of_nat (512 * k)" using pr unfolding cd_progress_def by simp
  have N: "?N \<le> 255" "unat (op_buf op0) + 512 * ?N \<le> 2 ^ 20" using req unfolding cd_request_def by simp_all
  have "512 * k < 2 ^ 32" using kt N(1) by simp
  then have uk: "unat (of_nat (512 * k) :: u32) = 512 * k" unfolding unat_of_nat by simp
  have "unat (op_buf op0) + 512 * k < 2 ^ LENGTH(32)" using kt N by simp
  then have "unat (op_buf op) = unat (op_buf op0) + 512 * k" unfolding p by (subst unat_add_nowrap) (simp_all only: uk)
  then have up: "unat (op_buf op) + 512 * t \<le> 2 ^ 20" using req kt unfolding cd_request_def by simp
  have "span (op_buf op) (512 * t) \<subseteq> span (op_buf op0) (512 * ?N)" unfolding p using kt by (intro span_shift) simp
  then have dis: "span (op_buf op) (512 * t) \<inter> (D \<union> span (cd_bounce conf) 2048) = {}"
    using req unfolding cd_request_def cd_scratch_def by blast
  obtain dop1 m1 h1 where r:
    "process_op drv (dop\<lparr>op_count := 1, op_buf := cd_bounce conf\<rparr>) (m, h) = ((DISK_RET_SUCCESS, dop1), m1, h1)"
    "op_lba dop1 = op_lba dop" "op_drive dop1 = cc_drive conf" "op_command dop1 = CMD_READ"
    and c: "\<And>i. i < 512 * t \<Longrightarrow> memcpy_far m1 (FLATPTR_TO_SEG (op_buf op)) (FLATPTR_TO_OFFSET (op_buf op)) (cc_ebda_seg conf)
          (cc_cdbuf conf + of_nat (j * 512)) (t * 512) (op_buf op + of_nat i) = img (2048 * unat (op_lba dop) + 512 * j + i)"
    and f: "\<And>a. a \<notin> D \<Longrightarrow> a \<notin> span (cd_bounce conf) 2048 \<Longrightarrow> a \<notin> span (op_buf op) (512 * t)
        \<Longrightarrow> memcpy_far m1 (FLATPTR_TO_SEG (op_buf op)) (FLATPTR_TO_OFFSET (op_buf op)) (cc_ebda_seg conf)
          (cc_cdbuf conf + of_nat (j * 512)) (t * 512) a = m a"
    using partial_read[where drv = drv and img = img and len = len and D = D and dr = "cc_drive conf" and B = "cd_bounce conf"
        and seg = "cc_ebda_seg conf" and cdbuf = "cc_cdbuf conf" and dop = dop and p = "op_buf op" and t = t and j = j and m = m and h = h]
      st pr lt up dis j(2) unfolding cd_setup_def cd_progress_def by (metis cd_bounce_def)
  have e: "2048 * unat (op_lba dop) + 512 * j = 2048 * ?il + 512 * ?L + 512 * k"
    unfolding lba j(1) using sectors_of_blocks[of "?L + k"] by (simp only: distrib_left add.assoc)
  show ?thesis
    by (rule that[OF r]; rule cd_progress_extend[OF req pr kt(1)])
       (use c f in \<open>simp_all add: e cd_scratch_def\<close>)
qed

lemma unat_and_3: "unat (w AND 3) = unat (w :: u64) mod 4"
proof -
  have "(3 :: u64) = mask 2" by (simp add: mask_eq_exp_minus_1)
  then show ?thesis by (simp only: take_bit_eq_mask[symmetric] unsigned_take_bit_eq) (simp add: take_bit_eq_mod)
qed

lemma cd_first_ok:
  assumes st: "cd_setup drv conf img len D" and req: "cd_request conf len D op0"
    and pr: "cd_progress conf img D op0 m0 0 op dop m0"
  shows "\<exists>k op1 dop1 m1 h1. cdemu_first drv conf op dop (unat (op_count op0)) (m0, h)
      = Inr (op1, dop1, unat (op_count op0) - k, m1, h1) \<and> cd_progress conf img D op0 m0 k op1 dop1 m1
    \<and> (k < unat (op_count op0) \<longrightarrow> (unat (op_lba op0) + k) mod 4 = 0)"
proof -
  let ?L = "unat (op_lba op0)" and ?N = "unat (op_count op0)" and ?il = "unat (cc_ilba conf)"
  have lba: "op_lba op = op_lba op0" "op_count op = 0" using pr unfolding cd_progress_def by simp_all
  show ?thesis
  proof (cases "op_lba op0 AND 3 = 0")
    case True
    then have "?L mod 4 = 0" using unat_and_3[of "op_lba op0"] by simp
    then show ?thesis using True pr lba by (intro exI[of _ 0]) (auto simp: cdemu_first_def)
  next
    case False
    define j where "j = ?L mod 4"
    have j0: "0 < j" "j < 4" using False unat_and_3[of "op_lba op0"] by (auto simp: j_def word_eq_iff_unat)
    define t where "t = min (4 - j) ?N"
    have t: "0 < t" "t \<le> ?N" "j + t \<le> 4" using j0 req by (auto simp: t_def cd_request_def)
    obtain dop1 m1 h1 where r:
      "process_op drv (dop\<lparr>op_count := 1, op_buf := cd_bounce conf\<rparr>) (m0, h) = ((DISK_RET_SUCCESS, dop1), m1, h1)"
      "op_lba dop1 = op_lba dop" "op_drive dop1 = cc_drive conf" "op_command dop1 = CMD_READ"
      and p: "\<And>op1 dop2. op_count op1 = of_nat (0 + t) \<Longrightarrow> op_buf op1 = op_buf op + of_nat (512 * t) \<Longrightarrow> op_lba op1 = op_lba op
        \<Longrightarrow> op_drive op1 = op_drive op \<Longrightarrow> op_command op1 = op_command op \<Longrightarrow> op_drive dop2 = cc_drive conf \<Longrightarrow> op_command dop2 = CMD_READ
        \<Longrightarrow> 0 + t < ?N \<longrightarrow> unat (op_lba dop2) = ?il + (?L + (0 + t)) div 4
        \<Longrightarrow> cd_progress conf img D op0 m0 (0 + t) op1 dop2
          (memcpy_far m1 (FLATPTR_TO_SEG (op_buf op)) (FLATPTR_TO_OFFSET (op_buf op)) (cc_ebda_seg conf)
            (cc_cdbuf conf + of_nat (j * 512)) (t * 512))"
      using cd_partial[OF st req pr, of t j h] t j_def by auto
    have full: "j + t = 4" if "t < ?N" using that j0 by (auto simp: t_def)
    have e: "(?L + t) mod 4 = 0" "(?L + t) div 4 = ?L div 4 + 1" if "t < ?N"
    proof -
      have "?L + t = 4 * (?L div 4 + 1)" using block_end[of ?L t] full[OF that] unfolding j_def .
      then show "(?L + t) mod 4 = 0" "(?L + t) div 4 = ?L div 4 + 1" by simp_all
    qed
    have d: "unat (op_lba dop) = ?il + ?L div 4" using pr req unfolding cd_progress_def cd_request_def by simp
    have "?il + ?L div 4 < len" using req unfolding cd_request_def by linarith
    then have u: "unat (op_lba dop + 1) = ?il + ?L div 4 + 1"
      using st d unfolding cd_setup_def by (subst unat_add_nowrap) auto
    let ?op1 = "op\<lparr>op_buf := op_buf op + of_nat (t * 512), op_count := op_count op + of_nat t\<rparr>"
    let ?m2 = "memcpy_far m1 (FLATPTR_TO_SEG (op_buf op)) (FLATPTR_TO_OFFSET (op_buf op)) (cc_ebda_seg conf)
            (cc_cdbuf conf + of_nat (j * 512)) (t * 512)"
    have "cd_progress conf img D op0 m0 (0 + t) ?op1 (dop1\<lparr>op_lba := op_lba dop1 + 1\<rparr>) ?m2"
      by (rule p) (use lba r u e in \<open>simp_all add: mult.commute\<close>)
    moreover have "cdemu_first drv conf op dop ?N (m0, h) = Inr (?op1, dop1\<lparr>op_lba := op_lba dop1 + 1\<rparr>, ?N - t, ?m2, h1)"
      using False r(1) unfolding cdemu_first_def lba cd_bounce_def[symmetric] unat_and_3 j_def[symmetric] t_def
      by (simp add: DISK_RET_SUCCESS_def Let_def)
    ultimately show ?thesis using e by (intro exI[of _ t]) auto
  qed
qed

lemma cd_middle_ok:
  assumes st: "cd_setup drv conf img len D" and req: "cd_request conf len D op0"
    and pr: "cd_progress conf img D op0 m0 k op dop m" and al: "k < unat (op_count op0) \<longrightarrow> (unat (op_lba op0) + k) mod 4 = 0"
  shows "\<exists>k' op1 dop1 m1 h1. cdemu_middle drv op dop (unat (op_count op0) - k) (m, h)
      = Inr (op1, dop1, unat (op_count op0) - k', m1, h1) \<and> cd_progress conf img D op0 m0 k' op1 dop1 m1
    \<and> (k' < unat (op_count op0) \<longrightarrow> (unat (op_lba op0) + k') mod 4 = 0) \<and> unat (op_count op0) - k' < 4"
proof (cases "unat (op_count op0) - k > 3")
  case False
  then show ?thesis using pr al by (intro exI[of _ k]) (auto simp: cdemu_middle_def)
next
  case True
  let ?L = "unat (op_lba op0)" and ?N = "unat (op_count op0)" and ?il = "unat (cc_ilba conf)"
  define q where "q = (?N - k) div 4"
  have q: "0 < q" "4 * q \<le> ?N - k" "?N - k < 4 * q + 4" using True by (auto simp: q_def)
  have N: "?N \<le> 255" "unat (op_buf op0) + 512 * ?N \<le> 2 ^ 20" "?L + ?N \<le> 4 * (len - ?il)"
    using req unfolding cd_request_def by simp_all
  have al: "(?L + k) mod 4 = 0" using al True by simp
  have lba: "unat (op_lba dop) = ?il + (?L + k) div 4" using pr True unfolding cd_progress_def by simp
  have p: "op_buf op = op_buf op0 + of_nat (512 * k)" using pr unfolding cd_progress_def by simp
  have "512 * k < 2 ^ 32" using True N(1) by simp
  then have uk: "unat (of_nat (512 * k) :: u32) = 512 * k" unfolding unat_of_nat by simp
  have "unat (op_buf op0) + 512 * k < 2 ^ LENGTH(32)" using True N by simp
  then have up: "unat (op_buf op) = unat (op_buf op0) + 512 * k" unfolding p by (subst unat_add_nowrap) (simp_all only: uk)
  have uq: "unat (of_nat q :: u16) = q" using q N(1) by (simp add: unat_of_nat)
  have "(?L + k) div 4 + q \<le> len - ?il" using N(3) q al by linarith
  then have lq: "unat (op_lba dop) + q \<le> len" unfolding lba using q(1) by linarith
  have sub: "span (op_buf op) (2048 * q) \<subseteq> span (op_buf op0) (512 * ?N)" unfolding p using q True by (intro span_shift) linarith
  let ?dop = "dop\<lparr>op_count := of_nat q, op_buf := op_buf op\<rparr>"
  obtain dop1 m1 h1 where r: "process_op drv ?dop (m, h) = ((DISK_RET_SUCCESS, dop1), m1, h1)"
    "op_count dop1 = of_nat q" "op_lba dop1 = op_lba dop" "op_drive dop1 = cc_drive conf" "op_command dop1 = CMD_READ"
    and c: "\<And>i. i < 2048 * q \<Longrightarrow> m1 (op_buf op + of_nat i) = img (2048 * unat (op_lba dop) + i)"
    and f: "\<And>a. a \<notin> D \<Longrightarrow> a \<notin> span (op_buf op) (2048 * q) \<Longrightarrow> m1 a = m a"
  proof (rule reads_blocksD[where op = ?dop and m = m and h = h])
    show "reads_blocks 2048 64 img len D (process_op drv) (cc_drive conf)" using st unfolding cd_setup_def by simp
    show "span (op_buf ?dop) (2048 * unat (op_count ?dop)) \<inter> D = {}"
      using sub req unfolding cd_request_def cd_scratch_def by (auto simp: uq)
  qed (use pr q N uq lq up True in \<open>auto simp: cd_progress_def\<close>)
  have t: "(of_nat (4 * q) :: u8) div 4 = of_nat q" "unat (of_nat (4 * q) :: u8) = 4 * q"
  proof -
    show u: "unat (of_nat (4 * q) :: u8) = 4 * q" using q N(1) unfolding unat_of_nat by simp
    have "unat ((of_nat (4 * q) :: u8) div 4) = 4 * q div 4" unfolding unat_div_distrib u by simp
    then show "(of_nat (4 * q) :: u8) div 4 = of_nat q" using q N(1) by (simp add: word_eq_iff_unat unat_of_nat)
  qed
  have u32: "(ucast (of_nat (4 * q) :: u8) :: u32) * 512 = of_nat (512 * (4 * q))"
  proof -
    have "(ucast (of_nat (4 * q) :: u8) :: u32) = of_nat (4 * q)"
      unfolding word_eq_iff_unat unat_ucast_mod t(2) unat_of_nat using q N(1) by simp
    then show ?thesis by (simp add: mult.commute)
  qed
  have "unat (of_nat q :: u8) = q" using q N(1) by (simp add: unat_of_nat)
  then have u64: "(ucast (of_nat q :: u8) :: u64) = of_nat q"
    unfolding word_eq_iff_unat unat_ucast_mod unat_of_nat using q N(1) by simp
  have ul: "unat (op_lba dop + of_nat q) = ?il + (?L + (k + 4 * q)) div 4"
  proof -
    have "unat (op_lba dop + of_nat q) = unat (op_lba dop) + q"
      using lq st q N(1) unfolding cd_setup_def by (subst unat_add_nowrap) (simp_all add: unat_of_nat)
    moreover have "?L + (k + 4 * q) = (?L + k) + q * 4" by simp
    ultimately show ?thesis using lba by (simp only: div_mult_self1)
  qed
  have cnt: "op_count op + op_count dop1 * 4 = of_nat (k + 4 * q)"
    using pr r(2) unfolding cd_progress_def by (simp add: mult.commute)
  let ?op1 = "op\<lparr>op_count := op_count op + op_count dop1 * 4, op_buf := op_buf op + ucast (of_nat (4 * q) :: u8) * 512\<rparr>"
  let ?dop1 = "dop1\<lparr>op_lba := op_lba dop1 + ucast ((of_nat (4 * q) :: u8) div 4)\<rparr>"
  have g: "2048 * unat (op_lba dop) = 2048 * ?il + 512 * ?L + 512 * k"
    unfolding lba using sectors_of_blocks[of "?L + k"] al by simp
  have "cd_progress conf img D op0 m0 (k + 4 * q) ?op1 ?dop1 m1"
    by (rule cd_progress_extend[OF req pr]) (use q r c f u32 u64 ul cnt t(1) g in \<open>simp_all add: cd_scratch_def\<close>)
  moreover have "cdemu_middle drv op dop (?N - k) (m, h) = Inr (?op1, ?dop1, (?N - k) mod 4, m1, h1)"
    using True r(1) unfolding cdemu_middle_def q_def[symmetric] by (simp add: DISK_RET_SUCCESS_def Let_def)
  moreover have "(?N - k) mod 4 = ?N - (k + 4 * q)" unfolding q_def by (simp add: minus_mult_div_eq_mod[symmetric])
  moreover have "(?L + (k + 4 * q)) mod 4 = 0" using al by (simp add: add.assoc[symmetric])
  ultimately show ?thesis using q by (intro exI[of _ "k + 4 * q"]) auto
qed

lemma cd_last_ok:
  assumes st: "cd_setup drv conf img len D" and req: "cd_request conf len D op0"
    and pr: "cd_progress conf img D op0 m0 k op dop m" and al: "k < unat (op_count op0) \<longrightarrow> (unat (op_lba op0) + k) mod 4 = 0"
    and lt: "unat (op_count op0) - k < 4"
  shows "\<exists>op1 dop1 m1 h1. cdemu_last drv conf op dop (unat (op_count op0) - k) (m, h) = ((DISK_RET_SUCCESS, op1), m1, h1)
    \<and> op_count op1 = op_count op0 \<and> cd_progress conf img D op0 m0 (unat (op_count op0)) (op1\<lparr>op_buf := op_buf op0 + of_nat (512 * unat (op_count op0))\<rparr>) dop1 m1"
proof -
  let ?N = "unat (op_count op0)" and ?L = "unat (op_lba op0)"
  show ?thesis
  proof (cases "?N - k = 0")
    case True
    then have k: "k = ?N" using pr unfolding cd_progress_def by simp
    have "op\<lparr>op_buf := op_buf op0 + of_nat (512 * ?N)\<rparr> = op" "op_count op = op_count op0"
      using pr unfolding cd_progress_def k by simp_all
    then show ?thesis using pr unfolding k by (intro exI[of _ op] exI[of _ dop] exI[of _ m] exI[of _ h]) (simp add: cdemu_last_def)
  next
    case False
    define t where "t = ?N - k"
    have t: "0 < t" "k + t = ?N" "t \<le> 4" using False pr lt unfolding cd_progress_def t_def by simp_all
    have j: "0 = (?L + k) mod 4" using al False by simp
    obtain dop1 m1 h1 where r:
      "process_op drv (dop\<lparr>op_count := 1, op_buf := cd_bounce conf\<rparr>) (m, h) = ((DISK_RET_SUCCESS, dop1), m1, h1)"
      "op_lba dop1 = op_lba dop" "op_drive dop1 = cc_drive conf" "op_command dop1 = CMD_READ"
      and p: "\<And>op1 dop2. op_count op1 = of_nat (k + t) \<Longrightarrow> op_buf op1 = op_buf op + of_nat (512 * t) \<Longrightarrow> op_lba op1 = op_lba op
        \<Longrightarrow> op_drive op1 = op_drive op \<Longrightarrow> op_command op1 = op_command op \<Longrightarrow> op_drive dop2 = cc_drive conf \<Longrightarrow> op_command dop2 = CMD_READ
        \<Longrightarrow> k + t < ?N \<longrightarrow> unat (op_lba dop2) = unat (cc_ilba conf) + (?L + (k + t)) div 4
        \<Longrightarrow> cd_progress conf img D op0 m0 (k + t) op1 dop2
          (memcpy_far m1 (FLATPTR_TO_SEG (op_buf op)) (FLATPTR_TO_OFFSET (op_buf op)) (cc_ebda_seg conf)
            (cc_cdbuf conf + of_nat (0 * 512)) (t * 512))"
      using cd_partial[OF st req pr _ t(1) j, of h] t by auto
    let ?m2 = "memcpy_far m1 (FLATPTR_TO_SEG (op_buf op)) (FLATPTR_TO_OFFSET (op_buf op)) (cc_ebda_seg conf) (cc_cdbuf conf) (t * 512)"
    let ?op1 = "op\<lparr>op_count := op_count op + of_nat t\<rparr>"
    have op: "op_count op = of_nat k" "op_buf op = op_buf op0 + of_nat (512 * k)" using pr unfolding cd_progress_def by simp_all
    have c: "op_count op + of_nat t = op_count op0" unfolding op(1) of_nat_add[symmetric] t(2) by simp
    have b: "op_buf op + of_nat (512 * t) = op_buf op0 + of_nat (512 * ?N)"
      unfolding op(2) t(2)[symmetric] by (simp add: algebra_simps)
    have "cd_progress conf img D op0 m0 (k + t) (?op1\<lparr>op_buf := op_buf op0 + of_nat (512 * ?N)\<rparr>) dop1
          (memcpy_far m1 (FLATPTR_TO_SEG (op_buf op)) (FLATPTR_TO_OFFSET (op_buf op)) (cc_ebda_seg conf)
            (cc_cdbuf conf + of_nat (0 * 512)) (t * 512))"
      by (rule p) (use r c b t in \<open>simp_all add: op\<close>)
    moreover have "cdemu_last drv conf op dop t (m, h) = ((DISK_RET_SUCCESS, ?op1), ?m2, h1)"
      using t(1) r(1) unfolding cdemu_last_def cd_bounce_def[symmetric] by (simp add: DISK_RET_SUCCESS_def)
    ultimately show ?thesis unfolding t_def[symmetric] t(2) using c
      by (intro exI[of _ ?op1] exI[of _ dop1] exI[of _ ?m2] exI[of _ h1]) simp
  qed
qed

lemma cdemu_read_ok:
  assumes st: "cd_setup drv conf img len D" and req: "cd_request conf len D op0"
  shows "\<exists>op1 m1 h1. cdemu_read drv conf op0 (m0, h) = ((DISK_RET_SUCCESS, op1), m1, h1)
    \<and> op_count op1 = op_count op0 \<and> op_lba op1 = op_lba op0 \<and> op_drive op1 = op_drive op0 \<and> op_command op1 = CMD_READ
    \<and> (\<forall>i < 512 * unat (op_count op0). m1 (op_buf op0 + of_nat i) = img (2048 * unat (cc_ilba conf) + 512 * unat (op_lba op0) + i))
    \<and> (\<forall>a. a \<notin> cd_scratch D conf \<union> span (op_buf op0) (512 * unat (op_count op0)) \<longrightarrow> m1 a = m0 a)"
proof -
  let ?L = "unat (op_lba op0)" and ?N = "unat (op_count op0)" and ?il = "unat (cc_ilba conf)"
  let ?op = "op0\<lparr>op_count := 0\<rparr>"
  let ?dop = "\<lparr>op_lba = ucast (cc_ilba conf) + op_lba op0 div 4, op_buf = 0, op_drive = cc_drive conf, op_count = 0,
                 op_command = op_command op0\<rparr>"
  have il: "unat (ucast (cc_ilba conf) :: u64) = ?il" using unat_lt_2p[of "cc_ilba conf"] by (intro unat_ucast_fits) simp
  have d4: "unat (op_lba op0 div 4) = ?L div 4" by (simp add: unat_div_distrib)
  have "?il + ?L div 4 < 2 ^ LENGTH(64)" 
  proof -
    have "?L \<le> 4 * len" "len \<le> 2 ^ 32" "?il < 2 ^ 32"
      using req st unat_lt_2p[of "cc_ilba conf"] unfolding cd_request_def cd_setup_def by auto
    then show ?thesis by simp
  qed
  then have "unat (ucast (cc_ilba conf) + op_lba op0 div 4) = ?il + ?L div 4"
    by (subst unat_add_nowrap) (simp_all only: il d4)
  then have "cd_progress conf img D op0 m0 0 ?op ?dop m0" using req unfolding cd_progress_def cd_request_def by simp
  from cd_first_ok[OF st req this, of h] obtain k1 op1 dop1 m1 h1 where
    s1: "cdemu_first drv conf ?op ?dop ?N (m0, h) = Inr (op1, dop1, ?N - k1, m1, h1)" "cd_progress conf img D op0 m0 k1 op1 dop1 m1"
      "k1 < ?N \<longrightarrow> (?L + k1) mod 4 = 0" by (elim exE conjE) (rule that)
  from cd_middle_ok[OF st req s1(2,3), of h1] obtain k2 op2 dop2 m2 h2 where
    s2: "cdemu_middle drv op1 dop1 (?N - k1) (m1, h1) = Inr (op2, dop2, ?N - k2, m2, h2)" "cd_progress conf img D op0 m0 k2 op2 dop2 m2"
      "k2 < ?N \<longrightarrow> (?L + k2) mod 4 = 0" "?N - k2 < 4" by (elim exE conjE) (rule that)
  from cd_last_ok[OF st req s2(2,3,4), of h2] obtain op3 dop3 m3 h3 where
    s3: "cdemu_last drv conf op2 dop2 (?N - k2) (m2, h2) = ((DISK_RET_SUCCESS, op3), m3, h3)" "op_count op3 = op_count op0"
      "cd_progress conf img D op0 m0 ?N (op3\<lparr>op_buf := op_buf op0 + of_nat (512 * ?N)\<rparr>) dop3 m3" by (elim exE conjE) (rule that)
  have "cdemu_read drv conf op0 (m0, h) = ((DISK_RET_SUCCESS, op3), m3, h3)"
    unfolding cdemu_read_def Let_def by (simp add: s1(1) s2(1) s3(1))
  then show ?thesis using s3(2,3) unfolding cd_progress_def by simp
qed

text \<open>
  C18. If the driver of the compact disc reads blocks of 2048 bytes, the emulated disk reads sectors
  of 512 bytes: for every request of at most 255 sectors, at whatever position in its block it
  starts and ends, the buffer receives exactly the bytes of the image from that sector on, the count
  is reported, and no other memory is changed but the buffer of the EBDA.
\<close>

theorem cdemu_reads_image:
  assumes "cd_setup drv conf img len D"
  shows "reads_blocks 512 255 (\<lambda>i. img (2048 * unat (cc_ilba conf) + i)) (4 * (len - unat (cc_ilba conf)))
    (cd_scratch D conf) (process_cdemu_op drv conf) dr"
  unfolding reads_blocks_def reads_blocks_at_def
proof (intro allI impI, elim conjE)
  fix op :: disk_op_s and m h
  assume a: "op_drive op = dr" "op_command op = CMD_READ" "0 < unat (op_count op)" "unat (op_count op) \<le> 255"
    "unat (op_lba op) + unat (op_count op) \<le> 4 * (len - unat (cc_ilba conf))"
    "unat (op_buf op) + 512 * unat (op_count op) \<le> 2 ^ 20" "span (op_buf op) (512 * unat (op_count op)) \<inter> cd_scratch D conf = {}"
  then have "cd_request conf len D op" unfolding cd_request_def by simp
  from cdemu_read_ok[OF assms this, of m h] a(1,2)
  show "\<exists>op' m' h'. process_cdemu_op drv conf op (m, h) = ((DISK_RET_SUCCESS, op'), m', h')
        \<and> op_count op' = op_count op \<and> op_lba op' = op_lba op \<and> op_drive op' = dr \<and> op_command op' = CMD_READ
        \<and> (\<forall>i < 512 * unat (op_count op). m' (op_buf op + of_nat i) = img (2048 * unat (cc_ilba conf) + (512 * unat (op_lba op) + i)))
        \<and> (\<forall>a. a \<notin> cd_scratch D conf \<union> span (op_buf op) (512 * unat (op_count op)) \<longrightarrow> m' a = m a)"
    by (simp add: process_cdemu_op_def add.assoc)
qed

text \<open>A driver that reads every block at once.\<close>

definition ideal_reader :: "nat \<Rightarrow> (nat \<Rightarrow> u8) \<Rightarrow> unit driver" where
  "ideal_reader blk img t op s = (case s of (m, h) \<Rightarrow> ((DISK_RET_SUCCESS, op), (\<lambda>a. let i = unat (a - op_buf op) in
     if i < blk * unat (op_count op) then img (blk * unat (op_lba op) + i) else m a), h))"

lemma ideal_reader_reads:
  assumes "d_type dr \<in> {DTYPE_ATA, DTYPE_ATAPI}" "blk * maxc < 2 ^ 32"
  shows "reads_blocks blk maxc img len {} (process_op (ideal_reader blk img)) dr"
  unfolding reads_blocks_def reads_blocks_at_def
proof (intro allI impI, elim conjE)
  fix op :: disk_op_s and m h
  assume a: "op_drive op = dr" "op_command op = CMD_READ" "unat (op_count op) \<le> maxc"
  have b: "blk * unat (op_count op) < 2 ^ 32" using a(3) assms(2) by (meson le_less_trans mult_le_mono2)
  have i: "unat (of_nat i :: u32) = i" if "i < blk * unat (op_count op)" for i using that b by (simp add: unat_of_nat)
  have out: "\<not> unat (x - op_buf op) < blk * unat (op_count op)" if "x \<notin> span (op_buf op) (blk * unat (op_count op))" for x
  proof
    assume "unat (x - op_buf op) < blk * unat (op_count op)"
    then have "x \<in> span (op_buf op) (blk * unat (op_count op))"
      unfolding span_iff by (intro exI[of _ "unat (x - op_buf op)"]) simp
    with that show False ..
  qed
  show "\<exists>op' m' h'. process_op (ideal_reader blk img) op (m, h) = ((DISK_RET_SUCCESS, op'), m', h')
        \<and> op_count op' = op_count op \<and> op_lba op' = op_lba op \<and> op_drive op' = dr \<and> op_command op' = CMD_READ
        \<and> (\<forall>i < blk * unat (op_count op). m' (op_buf op + of_nat i) = img (blk * unat (op_lba op) + i))
        \<and> (\<forall>x. x \<notin> {} \<union> span (op_buf op) (blk * unat (op_count op)) \<longrightarrow> m' x = m x)"
    using a assms(1) out i by (auto simp: process_op_def ideal_reader_def Let_def)
qed

definition ex_cd_conf :: cd_conf where
  "ex_cd_conf = \<lparr>cc_drive = ex_drive\<lparr>d_type := DTYPE_ATAPI\<rparr>, cc_ilba = 20, cc_ebda_seg = 0x9fc0, cc_cdbuf = 0\<rparr>"

theorem cdemu_reads_image_witness:
  "cd_setup (ideal_reader 2048 of_nat) ex_cd_conf of_nat 1000 {}
   \<and> reads_blocks 512 255 (\<lambda>i. of_nat (40960 + i)) 3920 (cd_scratch {} ex_cd_conf)
       (process_cdemu_op (ideal_reader 2048 of_nat) ex_cd_conf) ex_drive"
proof -
  have "cd_bounce ex_cd_conf = 0x9fc00" by (simp add: cd_bounce_def ex_cd_conf_def far_addr_def)
  then have s: "cd_setup (ideal_reader 2048 of_nat) ex_cd_conf of_nat 1000 {}"
    unfolding cd_setup_def using ideal_reader_reads[of "cc_drive ex_cd_conf" 2048 64 of_nat 1000] by (simp add: ex_cd_conf_def)
  have il: "unat (cc_ilba ex_cd_conf) = 20" by (simp add: ex_cd_conf_def)
  show ?thesis using s cdemu_reads_image[OF s, of ex_drive] unfolding il by simp
qed

text \<open>
  A failed attempt to boot leaves the emulation as it was; a successful one that emulates a drive
  ends with it active.
\<close>

lemma cd_start_emulation_active:
  "cd_start_emulation md sg s = (ret, s') \<Longrightarrow> media (cdemu s') = media (cdemu s)
    \<and> (if ret = 0 then active (cdemu s') = 1 else active (cdemu s') = active (cdemu s))"
  by (auto simp: cd_start_emulation_def Let_def split: if_splits)

lemma cd_load_image_active:
  assumes "cd_load_image cd cdid d b dop s = (ret, s')"
  shows "if ret = 0 \<and> media (cdemu s') \<noteq> 0 then active (cdemu s') = 1 else active (cdemu s') = active (cdemu s)"
  using assms unfolding cd_load_image_def Let_def
  by (auto dest!: cd_start_emulation_active split: if_splits prod.splits)

lemma cdrom_boot_active:
  assumes "cdrom_boot cd khz info sense b ts cdid s = Some (ret, s')"
  shows "if ret = 0 \<and> media (cdemu s') \<noteq> 0 then active (cdemu s') = 1 else active (cdemu s') = active (cdemu s)"
  using assms cd_load_image_active[of cd cdid "getDrive EXTTYPE_CD cdid (drives s)" b]
  unfolding cdrom_boot_def Let_def by (fastforce simp: bind_eq_Some_conv split: if_splits prod.splits)

text \<open>The geometry that the partition table gives fits the packed fields of a CHS request.\<close>

lemma cd_hd_chs_bounds:
  "0 < unat (heads (cd_hd_chs m sg))" "unat (heads (cd_hd_chs m sg)) \<le> 256"
  "0 < unat (cylinders (cd_hd_chs m sg))" "unat (cylinders (cd_hd_chs m sg)) \<le> 1024" "unat (spt (cd_hd_chs m sg)) \<le> 63"
proof -
  let ?h = "m (far_addr sg 0x1c3)" and ?sc = "m (far_addr sg 0x1c4)" and ?cl = "m (far_addr sg 0x1c5)"
  have w8: "unat (ucast x :: u16) = unat x" "unat x < 256" for x :: u8
    using unat_lt_2p[of x] by (simp_all add: unat_ucast_mod)
  have h: "unat (heads (cd_hd_chs m sg)) = unat ?h + 1"
    unfolding cd_hd_chs_def Let_def using w8[of ?h] by (simp, subst unat_add_nowrap) simp_all
  show "0 < unat (heads (cd_hd_chs m sg))" "unat (heads (cd_hd_chs m sg)) \<le> 256" using h w8(2)[of ?h] by simp_all
  let ?x = "(push_bit 2 (ucast ?sc) AND 0x300) :: u16"
  have "unat ?x \<le> 0x300" using unat_and_le1[of "push_bit 2 (ucast ?sc)" "0x300 :: u16"] by simp
  then have le: "unat ?x + unat ?cl \<le> 1023" using w8(2)[of ?cl] by linarith
  have x: "unat (?x + ucast ?cl) = unat ?x + unat ?cl"
    by (subst unat_add_nowrap) (use le in \<open>simp_all add: w8(1)\<close>)
  have c: "unat (cylinders (cd_hd_chs m sg)) = unat ?x + unat ?cl + 1"
    unfolding cd_hd_chs_def Let_def using x le by (simp, subst unat_add_nowrap) simp_all
  show "0 < unat (cylinders (cd_hd_chs m sg))" "unat (cylinders (cd_hd_chs m sg)) \<le> 1024" using c le by simp_all
  have "unat (?sc AND 0x3f) \<le> 63" using unat_and_le1[of ?sc "0x3f"] by simp
  then show "unat (spt (cd_hd_chs m sg)) \<le> 63" unfolding cd_hd_chs_def Let_def by (simp add: w8)
qed

end
