(* ===== verification/Boot.thy ===== *)
theory Boot
  imports Cdrom
begin

text \<open>
  \<open>bios/seabios/src/boot.c\<close> and \<open>boot.h\<close>: the tables of boot devices (BEV) and of connection
  vectors (BCV), the boot menu, the preparation of the drives, and interrupts 18h and 19h.

  The build has no coreboot support, so that there is no CBFS entry. Interrupt 13h is the handler
  of \<open>disk.c\<close>; the loaded code, option ROMs and the keyboard are parameters.
\<close>

section \<open>Data\<close>

definition IPL_TYPE_FLOPPY :: u16 where "IPL_TYPE_FLOPPY = 0x01"
definition IPL_TYPE_HARDDISK :: u16 where "IPL_TYPE_HARDDISK = 0x02"
definition IPL_TYPE_CDROM :: u16 where "IPL_TYPE_CDROM = 0x03"
definition IPL_TYPE_CBFS :: u16 where "IPL_TYPE_CBFS = 0x20"
definition IPL_TYPE_BEV :: u16 where "IPL_TYPE_BEV = 0x80"
definition BCV_TYPE_EXTERNAL :: u16 where "BCV_TYPE_EXTERNAL = 0x80"
definition BCV_TYPE_INTERNAL :: u16 where "BCV_TYPE_INTERNAL = 0x02"

lemmas ipl_type_defs = IPL_TYPE_FLOPPY_def IPL_TYPE_HARDDISK_def IPL_TYPE_CDROM_def IPL_TYPE_CBFS_def IPL_TYPE_BEV_def
lemmas bcv_type_defs = BCV_TYPE_EXTERNAL_def BCV_TYPE_INTERNAL_def

text \<open>A description is a string of the firmware or one in the memory of an option ROM.\<close>

datatype description = Own string | At u32

record ipl_entry_s =
  ie_type :: u16
  ie_subchoice :: u16
  ie_vector :: u32
  ie_description :: description

record ipl_s =
  bev :: "ipl_entry_s list"
  bcv :: "ipl_entry_s list"
  bevcount :: nat
  bcvcount :: nat
  bootorder :: u32
  checkfloppysig :: bool

definition IPL_SIZE :: nat where "IPL_SIZE = 8"

definition CMOS_BIOS_BOOTFLAG1 :: u8 where "CMOS_BIOS_BOOTFLAG1 = 0x38"
definition CMOS_BIOS_BOOTFLAG2 :: u8 where "CMOS_BIOS_BOOTFLAG2 = 0x3d"

record 'd boot =
  ipl :: ipl_s
  boot_sequence :: u16
  bdisk :: "(memory \<times> 'd) disk"

text \<open>
  What the code calls: the disk drivers, the packet driver with the places of its buffers on the
  stack and the readings of the time stamp counter for the \<open>n\<close>-th boot attempt, an option ROM's
  connection vector, and the code that a boot entry jumps to (\<open>None\<close> when it keeps the machine).
\<close>

record 'd boot_env =
  be_disk :: "(memory \<times> 'd) disk_env"
  be_junk :: disk_op_s
  be_cmd :: "'d cmd_driver"
  be_khz :: u32
  be_info :: u32
  be_sense :: u32
  be_buf :: u32
  be_tsc :: "u16 \<Rightarrow> u64 list"
  be_bcv :: "u16 \<Rightarrow> u16 \<Rightarrow> (memory \<times> 'd) disk \<Rightarrow> (memory \<times> 'd) disk"
  be_entry :: "u16 \<Rightarrow> u16 \<Rightarrow> bregs \<Rightarrow> (memory \<times> 'd) disk \<Rightarrow> (memory \<times> 'd) disk option"

section \<open>The tables\<close>

definition zero_entry :: ipl_entry_s where
  "zero_entry = \<lparr>ie_type = 0, ie_subchoice = 0, ie_vector = 0, ie_description = At 0\<rparr>"

definition own_entry :: "u16 \<Rightarrow> string \<Rightarrow> ipl_entry_s" where
  "own_entry t d = zero_entry\<lparr>ie_type := t, ie_description := Own d\<rparr>"

text \<open>\<open>nv\<close> is the non-volatile memory.\<close>

definition boot_setup :: "(u8 \<Rightarrow> u8) \<Rightarrow> 'd boot \<Rightarrow> 'd boot" where
  "boot_setup nv s =
     s\<lparr>ipl := \<lparr>bev = [own_entry IPL_TYPE_FLOPPY ''Floppy'', own_entry IPL_TYPE_HARDDISK ''Hard Disk'',
                      own_entry IPL_TYPE_CDROM ''CD-Rom''] @ replicate (IPL_SIZE - 3) zero_entry,
               bcv = replicate IPL_SIZE zero_entry, bevcount = 3, bcvcount = 0,
               bootorder = ucast (nv CMOS_BIOS_BOOTFLAG2) OR push_bit 4 (ucast (nv CMOS_BIOS_BOOTFLAG1) AND 0xf0),
               checkfloppysig = (nv CMOS_BIOS_BOOTFLAG1 AND 1 = 0)\<rparr>,
       boot_sequence := 0xffff\<rparr>"

definition rom_entry :: "ipl_entry_s \<Rightarrow> u16 \<Rightarrow> u16 \<Rightarrow> u16 \<Rightarrow> u16 \<Rightarrow> string \<Rightarrow> ipl_entry_s" where
  "rom_entry ie t seg off desc dflt =
     ie\<lparr>ie_type := t, ie_vector := push_bit 16 (ucast seg) OR ucast off,
        ie_description := (if desc \<noteq> 0 then At (MAKE_FLATPTR seg desc) else Own dflt)\<rparr>"

definition add_bev :: "u16 \<Rightarrow> u16 \<Rightarrow> u16 \<Rightarrow> ipl_s \<Rightarrow> ipl_s" where
  "add_bev seg off desc p =
     (if bevcount p \<ge> IPL_SIZE then p
      else p\<lparr>bev := (bev p)[bevcount p := rom_entry (bev p ! bevcount p) IPL_TYPE_BEV seg off desc ''Unknown''],
             bevcount := bevcount p + 1\<rparr>)"

definition add_bcv :: "u16 \<Rightarrow> u16 \<Rightarrow> u16 \<Rightarrow> ipl_s \<Rightarrow> ipl_s" where
  "add_bcv seg ip desc p =
     (if bcvcount p \<ge> IPL_SIZE then p
      else p\<lparr>bcv := (bcv p)[bcvcount p := rom_entry (bcv p ! bcvcount p) BCV_TYPE_EXTERNAL seg ip desc ''Legacy option rom''],
             bcvcount := bcvcount p + 1\<rparr>)"

text \<open>
  The place for a drive: behind the last entry that is not an internal drive, or is one that comes
  before the new drive. \<open>at\<close> gives the drive at an address.
\<close>

fun bcv_pos :: "(addr \<Rightarrow> drive_s) \<Rightarrow> ipl_entry_s list \<Rightarrow> drive_s \<Rightarrow> nat \<Rightarrow> nat" where
  "bcv_pos at es d 0 = 0"
| "bcv_pos at es d (Suc prev) =
     (if ie_type (es ! prev) \<noteq> BCV_TYPE_INTERNAL \<or> drive_before (at (unat (ie_vector (es ! prev)))) d then Suc prev
      else bcv_pos at es d prev)"

text \<open>
  \<open>memmove\<close> shifts the entries from the place on; the entry at the place keeps the sub-choice that
  it had before.
\<close>

definition add_bcv_internal :: "(addr \<Rightarrow> drive_s) \<Rightarrow> addr \<Rightarrow> ipl_s \<Rightarrow> ipl_s" where
  "add_bcv_internal at d p =
     (if bcvcount p \<ge> IPL_SIZE then p
      else
        let en = bcvcount p; pos = bcv_pos at (bcv p) (at d) en;
            ie = (bcv p ! pos)\<lparr>ie_type := BCV_TYPE_INTERNAL, ie_vector := of_nat d, ie_description := Own ''''\<rparr>
        in p\<lparr>bcv := shift_in pos en ie (bcv p), bcvcount := en + 1\<rparr>)"

section \<open>The boot menu\<close>

text \<open>A line of the menu: its number, and what the text describes.\<close>

datatype menu_text = Show_desc description | Show_floppy addr | Show_disk addr | Show_cd addr

type_synonym menu_line = "nat \<times> menu_text"

definition menu_show_default :: "ipl_entry_s \<Rightarrow> nat \<Rightarrow> nat \<times> menu_line list" where
  "menu_show_default ie menupos = (1, [(menupos, Show_desc (ie_description ie))])"

definition menu_show_floppy :: "drives_s \<Rightarrow> nat \<Rightarrow> nat \<times> menu_line list" where
  "menu_show_floppy ds menupos =
     (unat (floppycount ds),
      map (\<lambda>i. (menupos + i, Show_floppy (getDrive EXTTYPE_FLOPPY (of_nat i) ds))) [0..<unat (floppycount ds)])"

definition menu_show_harddisk :: "ipl_s \<Rightarrow> nat \<Rightarrow> nat \<times> menu_line list" where
  "menu_show_harddisk p menupos =
     (bcvcount p,
      concat (map (\<lambda>i. let ie = bcv p ! i in
        if ie_type ie = BCV_TYPE_INTERNAL then [(menupos + i, Show_disk (unat (ie_vector ie)))]
        else snd (menu_show_default ie (menupos + i))) [0..<bcvcount p]))"

definition menu_show_cdrom :: "drives_s \<Rightarrow> nat \<Rightarrow> nat \<times> menu_line list" where
  "menu_show_cdrom ds menupos =
     (unat (cdcount ds),
      map (\<lambda>i. (menupos + i, Show_cd (getDrive EXTTYPE_CD (of_nat i) ds))) [0..<unat (cdcount ds)])"

text \<open>Without coreboot, \<open>cbfs_findprefix\<close> finds no file.\<close>

definition menu_show_cbfs :: "nat \<Rightarrow> nat \<times> menu_line list" where
  "menu_show_cbfs menupos = (0, [])"

definition menu_show :: "drives_s \<Rightarrow> ipl_s \<Rightarrow> ipl_entry_s \<Rightarrow> nat \<Rightarrow> nat \<times> menu_line list" where
  "menu_show ds p ie menupos =
     (if ie_type ie = IPL_TYPE_FLOPPY then menu_show_floppy ds menupos
      else if ie_type ie = IPL_TYPE_HARDDISK then menu_show_harddisk p menupos
      else if ie_type ie = IPL_TYPE_CDROM then menu_show_cdrom ds menupos
      else if ie_type ie = IPL_TYPE_CBFS then menu_show_cbfs menupos
      else menu_show_default ie menupos)"

text \<open>The loop that shows the menu: the array \<open>subcount\<close>, the lines, and the final \<open>menupos\<close>.\<close>

fun show_all :: "drives_s \<Rightarrow> ipl_s \<Rightarrow> ipl_entry_s list \<Rightarrow> nat \<Rightarrow> nat list \<times> menu_line list \<times> nat" where
  "show_all ds p [] menupos = ([], [], menupos)"
| "show_all ds p (ie # ies) menupos =
     (let (sc, ls) = menu_show ds p ie menupos; (subcount, lines, mp) = show_all ds p ies (menupos + sc)
      in (sc # subcount, ls @ lines, mp))"

text \<open>
  Which entry a choice belongs to. The array \<open>subcount\<close> is filled up to \<open>bevcount\<close>; \<open>None\<close> is an access
  behind that.
\<close>

fun find_bev :: "nat list \<Rightarrow> nat \<Rightarrow> nat \<Rightarrow> (nat \<times> nat) option" where
  "find_bev [] bv choice = None"
| "find_bev (c # cs) bv choice = (if choice > c then find_bev cs (bv + 1) (choice - c) else Some (bv, choice))"

text \<open>
  The keyboard is the list of the results of \<open>get_keystroke\<close>, and a function that needs more results
  does not return. \<open>drain\<close> is the loop that empties the keyboard buffer.
\<close>

fun drain :: "int list \<Rightarrow> int list option" where
  "drain [] = None"
| "drain (k # ks) = (if k \<ge> 0 then drain ks else Some ks)"

text \<open>A choice made in the menu: the sub-choice and the boot order.\<close>

definition take_choice :: "nat \<Rightarrow> nat \<Rightarrow> ipl_s \<Rightarrow> ipl_s" where
  "take_choice bv choice p =
     p\<lparr>bev := (bev p)[bv := (bev p ! bv)\<lparr>ie_subchoice := of_nat (choice - 1)\<rparr>],
       bootorder := push_bit 4 (bootorder p) OR of_nat (bv + 1)\<rparr>"

fun menu_keys :: "nat list \<Rightarrow> nat \<Rightarrow> ipl_s \<Rightarrow> int list \<Rightarrow> ipl_s option" where
  "menu_keys subcount menupos p [] = None"
| "menu_keys subcount menupos p (scan_code # ks) =
     (if scan_code = 0x01 then Some p
      else if scan_code < 1 \<or> scan_code > int menupos then menu_keys subcount menupos p ks
      else map_option (\<lambda>(bv, choice). take_choice bv choice p) (find_bev subcount 0 (nat (scan_code - 1))))"

definition interactive_bootmenu :: "bool \<Rightarrow> int list \<Rightarrow> drives_s \<Rightarrow> ipl_s \<Rightarrow> (ipl_s \<times> menu_line list) option" where
  "interactive_bootmenu show keys ds p =
     (if \<not> show then Some (p, [])
      else case drain keys of None \<Rightarrow> None | Some [] \<Rightarrow> None
      | Some (scan_code # keys1) \<Rightarrow>
          if scan_code \<noteq> 0x86 then Some (p, [])
          else case drain keys1 of None \<Rightarrow> None
          | Some keys2 \<Rightarrow>
              let (subcount, lines, menupos) = show_all ds p (take (bevcount p) (bev p)) 1
              in map_option (\<lambda>p1. (p1, lines)) (menu_keys subcount menupos p keys2))"

section \<open>Preparation\<close>

definition run_bcv :: "'d boot_env \<Rightarrow> ipl_entry_s \<Rightarrow> (memory \<times> 'd) disk \<Rightarrow> (memory \<times> 'd) disk" where
  "run_bcv env ie s =
     (if ie_type ie = BCV_TYPE_INTERNAL then s\<lparr>drives := map_hd_drive (unat (ie_vector ie)) (drives s)\<rparr>
      else if ie_type ie = BCV_TYPE_EXTERNAL then be_bcv env (ucast (drop_bit 16 (ie_vector ie))) (ucast (ie_vector ie)) s
      else s)"

text \<open>The exchange of two drive numbers.\<close>

definition swap_first :: "nat \<Rightarrow> 'a list \<Rightarrow> 'a list" where
  "swap_first i xs = xs[0 := xs ! i, i := xs ! 0]"

definition run_bcvs :: "'d boot_env \<Rightarrow> ipl_s \<Rightarrow> nat \<Rightarrow> (memory \<times> 'd) disk \<Rightarrow> (memory \<times> 'd) disk" where
  "run_bcvs env p ovr s =
     (let s1 = (if ovr < bcvcount p then run_bcv env (bcv p ! ovr) s else s)
      in fold (\<lambda>i s. if i \<noteq> ovr then run_bcv env (bcv p ! i) s else s) [0..<bcvcount p] s1)"

definition boot_prep :: "'d boot_env \<Rightarrow> bool \<Rightarrow> int list \<Rightarrow> 'd boot \<Rightarrow> 'd boot option" where
  "boot_prep env show keys s =
     (case interactive_bootmenu show keys (drives (bdisk s)) (ipl s) of None \<Rightarrow> None
      | Some (p, _) \<Rightarrow>
          let ovr = unat (ie_subchoice (bev p ! 0)); ds = drives (bdisk s);
              ds1 = ds\<lparr>idmap := (idmap ds)(EXTTYPE_FLOPPY := swap_first ovr (idmap ds EXTTYPE_FLOPPY))\<rparr>;
              d1 = run_bcvs env p (unat (ie_subchoice (bev p ! 1))) ((bdisk s)\<lparr>drives := ds1\<rparr>)
          in Some (s\<lparr>ipl := p, bdisk := d1\<rparr>))"

section \<open>Booting\<close>

text \<open>
  An attempt to boot either passes control to code that keeps the machine, or comes back. The two
  other ends of a boot: no device is left, and a wait for a compact disc that the given readings of
  the time stamp counter do not end. \<open>Bad_shift\<close> is a shift of a 32-bit number by 32 bits or more.
\<close>

datatype 's boot_end =
    Runs u16 u16 bregs 's
  | No_device 's
  | Waiting
  | Bad_shift

type_synonym 's attempt = "'s boot_end + 's"

definition zero_regs :: bregs where
  "zero_regs = \<lparr>r_ds = 0, r_es = 0, r_edi = 0, r_esi = 0, r_ebp = 0, r_ebx = 0, r_edx = 0, r_ecx = 0, r_eax = 0, r_flags = 0\<rparr>"

definition call_boot_entry ::
  "'d boot_env \<Rightarrow> u16 \<Rightarrow> u16 \<Rightarrow> u8 \<Rightarrow> (memory \<times> 'd) disk \<Rightarrow> (memory \<times> 'd) disk attempt" where
  "call_boot_entry env bootseg bootip bootdrv s =
     (let br = set_ax 0xaa55 (set_dl bootdrv (zero_regs\<lparr>r_flags := F_IF\<rparr>))
      in case be_entry env bootseg bootip br s of None \<Rightarrow> Inl (Runs bootseg bootip br s) | Some s1 \<Rightarrow> Inr s1)"

definition MBR_SIGNATURE :: u16 where "MBR_SIGNATURE = 0xaa55"

definition boot_disk :: "'d boot_env \<Rightarrow> u8 \<Rightarrow> bool \<Rightarrow> (memory \<times> 'd) disk \<Rightarrow> (memory \<times> 'd) disk attempt" where
  "boot_disk env bootdrv checksig s =
     (let bootseg = 0x07c0 :: u16;
          br = set_cl 1 (set_al 1 (set_ah 2 ((set_dl bootdrv (zero_regs\<lparr>r_flags := F_IF\<rparr>))\<lparr>r_es := bootseg\<rparr>)));
          (br1, s1) = handle_13 (be_disk env) (be_junk env) br s
      in if cf br1 then Inr s1
         else if checksig \<and> le_word (far_read (fst (hw s1)) bootseg 0x1fe 2) \<noteq> MBR_SIGNATURE then Inr s1
         else call_boot_entry env (bootseg AND 0xf000) (push_bit 4 (bootseg AND 0x0fff)) bootdrv s1)"

definition boot_cdrom :: "'d boot_env \<Rightarrow> u16 \<Rightarrow> ipl_entry_s \<Rightarrow> (memory \<times> 'd) disk \<Rightarrow> (memory \<times> 'd) disk attempt" where
  "boot_cdrom env seq ie s =
     (case cdrom_boot (be_cmd env) (be_khz env) (be_info env) (be_sense env) (be_buf env) (be_tsc env seq)
             (ucast (ie_subchoice ie)) s of
        None \<Rightarrow> Inl Waiting
      | Some (status, s1) \<Rightarrow>
          if status \<noteq> 0 then Inr s1
          else
            let bootdrv = emulated_extdrive (cdemu s1); bootseg = load_segment (cdemu s1)
            in call_boot_entry env (bootseg AND 0xf000) (push_bit 4 (bootseg AND 0x0fff)) bootdrv s1)"

text \<open>One turn of \<open>do_boot\<close>: the device of an entry.\<close>

definition boot_entry :: "'d boot_env \<Rightarrow> u16 \<Rightarrow> ipl_s \<Rightarrow> ipl_entry_s \<Rightarrow> (memory \<times> 'd) disk \<Rightarrow> (memory \<times> 'd) disk attempt" where
  "boot_entry env seq p ie s =
     (if ie_type ie = IPL_TYPE_FLOPPY then boot_disk env 0x00 (checkfloppysig p) s
      else if ie_type ie = IPL_TYPE_HARDDISK then boot_disk env 0x80 True s
      else if ie_type ie = IPL_TYPE_CDROM then boot_cdrom env seq ie s
      else if ie_type ie = IPL_TYPE_BEV
      then call_boot_entry env (ucast (drop_bit 16 (ie_vector ie))) (ucast (ie_vector ie)) 0 s
      else Inr s)"

text \<open>
  \<open>do_boot\<close>: \<open>Inr\<close> when it ends by invoking interrupt 18h.
\<close>

definition do_boot :: "'d boot_env \<Rightarrow> u16 \<Rightarrow> 'd boot \<Rightarrow> 'd boot attempt" where
  "do_boot env seq_nr s =
     (if seq_nr \<ge> 8 then Inl Bad_shift
      else
        let p = ipl s; bootdev = (drop_bit (4 * unat seq_nr) (bootorder p) AND 0xf) - 1 in
        if unat bootdev \<ge> bevcount p then Inl (No_device s)
        else
          case boot_entry env seq_nr p (bev p ! unat bootdev) (bdisk s) of
            Inl e \<Rightarrow> Inl (map_boot_end (\<lambda>d. s\<lparr>bdisk := d\<rparr>) e)
          | Inr d \<Rightarrow> Inr (s\<lparr>bdisk := d\<rparr>))"

lemma do_boot_Inr:
  assumes "do_boot env q s = Inr s'"
  shows "unat q < 8" "boot_sequence s' = boot_sequence s" "ipl s' = ipl s"
  using assms by (auto simp: do_boot_def Let_def word_le_nat_alt not_le split: if_splits sum.splits)

text \<open>Interrupt 18h, and 19h; each attempt that fails invokes interrupt 18h again.\<close>

function handle_18 :: "'d boot_env \<Rightarrow> 'd boot \<Rightarrow> 'd boot boot_end" where
  "handle_18 env s =
     (let q = boot_sequence s + 1
      in case do_boot env q (s\<lparr>boot_sequence := q\<rparr>) of Inl e \<Rightarrow> e | Inr s1 \<Rightarrow> handle_18 env s1)"
  by pat_completeness auto
termination
proof (relation "measure (\<lambda>(env, s). 9 - unat (boot_sequence s + 1))")
  fix env :: "'d boot_env" and s q s1
  assume q: "q = boot_sequence s + 1" and d: "do_boot env q (s\<lparr>boot_sequence := q\<rparr>) = Inr s1"
  have "unat q < 8" "boot_sequence s1 = q" using do_boot_Inr[OF d] by simp_all
  then have "unat (boot_sequence s1 + 1) = unat q + 1" by (subst unat_add_nowrap) simp_all
  then show "((env, s1), env, s) \<in> measure (\<lambda>(env, s). 9 - unat (boot_sequence s + 1))"
    using \<open>unat q < 8\<close> q by simp
qed simp

declare handle_18.simps [simp del]

definition handle_19 :: "'d boot_env \<Rightarrow> 'd boot \<Rightarrow> 'd boot boot_end" where
  "handle_19 env s =
     (case do_boot env 0 (s\<lparr>boot_sequence := 0\<rparr>) of Inl e \<Rightarrow> e | Inr s1 \<Rightarrow> handle_18 env s1)"

section \<open>The order of the attempts\<close>

text \<open>
  The specification: the digits of the boot order, from the least significant on, name the entries
  to try, up to the first digit that names none. \<open>try_all\<close> tries a list of entries.
\<close>

definition digit :: "u32 \<Rightarrow> nat \<Rightarrow> nat" where
  "digit w i = unat w div 16 ^ i mod 16"

definition boot_list :: "ipl_s \<Rightarrow> nat list" where
  "boot_list p = map (\<lambda>n. n - 1) (takeWhile (\<lambda>n. 1 \<le> n \<and> n \<le> bevcount p) (map (digit (bootorder p)) [0..<8]))"

fun try_all :: "'d boot_env \<Rightarrow> ipl_s \<Rightarrow> nat \<Rightarrow> nat list \<Rightarrow> (memory \<times> 'd) disk \<Rightarrow> (memory \<times> 'd) disk boot_end" where
  "try_all env p n [] d = No_device d"
| "try_all env p n (i # is) d =
     (case boot_entry env (of_nat n) p (bev p ! i) d of Inl e \<Rightarrow> e | Inr d1 \<Rightarrow> try_all env p (Suc n) is d1)"

lemma unat_digit: "unat (drop_bit (4 * i) w AND 0xf) = digit w i"
proof -
  have f: "(0xf :: u32) = mask 4" by (simp add: mask_eq_exp_minus_1)
  have "drop_bit (4 * i) w AND 0xf = take_bit 4 (drop_bit (4 * i) w)" unfolding f by (simp only: take_bit_eq_mask)
  moreover have "unat (take_bit 4 (drop_bit (4 * i) w)) = unat (drop_bit (4 * i) w) mod 16"
    by (simp only: unsigned_take_bit_eq) (simp add: take_bit_eq_mod)
  ultimately show ?thesis unfolding unat_drop_bit_div digit_def by (simp add: power_mult)
qed

lemma digit_lt: "digit w i < 16"
  by (simp add: digit_def)

text \<open>The device number of a digit: the subtraction takes 0 to the largest number.\<close>

lemma bootdev_ge_iff:
  assumes "c \<le> 15"
  shows "c \<le> unat ((drop_bit (4 * i) w AND 0xf) - 1) \<longleftrightarrow> \<not> (1 \<le> digit w i \<and> digit w i \<le> c)"
proof (cases "digit w i = 0")
  case True
  then have "drop_bit (4 * i) w AND 0xf = 0" using unat_digit[of i w] by (simp add: word_eq_iff_unat)
  moreover have "unat (- 1 :: u32) = 2 ^ 32 - 1" by (simp add: unsigned_minus_1_eq_mask mask_eq_exp_minus_1)
  ultimately show ?thesis using True assms by simp
next
  case False
  then have "unat ((drop_bit (4 * i) w AND 0xf) - 1) = digit w i - 1"
    using unat_digit[of i w] by (subst unat_diff_nowrap) (simp_all add: word_le_nat_alt)
  then show ?thesis using False by arith
qed

lemma bootdev_eq: "1 \<le> digit w i \<Longrightarrow> unat ((drop_bit (4 * i) w AND 0xf) - 1) = digit w i - 1"
  using unat_digit[of i w] by (subst unat_diff_nowrap) (simp_all add: word_le_nat_alt)

definition boot_list_from :: "nat \<Rightarrow> ipl_s \<Rightarrow> nat list" where
  "boot_list_from k p =
     map (\<lambda>n. n - 1) (takeWhile (\<lambda>n. 1 \<le> n \<and> n \<le> bevcount p) (map (digit (bootorder p)) [k..<8]))"

lemma boot_list_from_step:
  assumes "k < 8"
  shows "boot_list_from k p =
     (if 1 \<le> digit (bootorder p) k \<and> digit (bootorder p) k \<le> bevcount p
      then (digit (bootorder p) k - 1) # boot_list_from (Suc k) p else [])"
  unfolding boot_list_from_def using assms by (simp add: upt_conv_Cons)

lemma do_boot_digit:
  assumes "k < 8" "bevcount (ipl s) \<le> 8"
  shows "do_boot env (of_nat k) s =
     (if 1 \<le> digit (bootorder (ipl s)) k \<and> digit (bootorder (ipl s)) k \<le> bevcount (ipl s)
      then case boot_entry env (of_nat k) (ipl s) (bev (ipl s) ! (digit (bootorder (ipl s)) k - 1)) (bdisk s) of
             Inl e \<Rightarrow> Inl (map_boot_end (\<lambda>d. s\<lparr>bdisk := d\<rparr>) e) | Inr d \<Rightarrow> Inr (s\<lparr>bdisk := d\<rparr>)
      else Inl (No_device s))"
proof -
  have k: "unat (of_nat k :: u16) = k" "\<not> (8 \<le> (of_nat k :: u16))"
    using assms(1) by (simp_all add: word_le_nat_alt unat_of_nat)
  show ?thesis
    unfolding do_boot_def Let_def k(1) using k(2) bootdev_ge_iff[of "bevcount (ipl s)" k] bootdev_eq assms(2)
    by auto
qed

text \<open>The attempts from the \<open>k\<close>-th digit on, when the last digit of the order is 0.\<close>

definition attempts :: "'d boot_env \<Rightarrow> nat \<Rightarrow> 'd boot \<Rightarrow> 'd boot boot_end" where
  "attempts env k s = (case do_boot env (of_nat k) s of Inl e \<Rightarrow> e | Inr s1 \<Rightarrow> handle_18 env s1)"

lemma attempts_eq_try_all:
  assumes "k < 8" "boot_sequence s = of_nat k" "bevcount (ipl s) \<le> 8" "digit (bootorder (ipl s)) 7 = 0"
  shows "map_boot_end bdisk (attempts env k s) = try_all env (ipl s) k (boot_list_from k (ipl s)) (bdisk s)"
  using assms
proof (induction "7 - k" arbitrary: k s)
  case 0
  then have "k = 7" by simp
  then show ?case using 0 do_boot_digit[of 7 s env] by (simp add: attempts_def boot_list_from_step)
next
  case (Suc m)
  let ?p = "ipl s" and ?n = "digit (bootorder (ipl s)) k"
  have sq: "boot_sequence s + 1 = of_nat (Suc k)" using Suc.prems(2) by simp
  show ?case
  proof (cases "1 \<le> ?n \<and> ?n \<le> bevcount ?p")
    case False
    then have "do_boot env (of_nat k) s = Inl (No_device s)" "boot_list_from k ?p = []"
      using Suc.prems unfolding do_boot_digit[OF Suc.prems(1,3)] boot_list_from_step[OF Suc.prems(1)] by (meson | simp)+
    then show ?thesis by (simp add: attempts_def)
  next
    case True
    have step: "boot_list_from k ?p = (?n - 1) # boot_list_from (Suc k) ?p"
      "do_boot env (of_nat k) s =
         (case boot_entry env (of_nat k) ?p (bev ?p ! (?n - 1)) (bdisk s) of
            Inl e \<Rightarrow> Inl (map_boot_end (\<lambda>d. s\<lparr>bdisk := d\<rparr>) e) | Inr d \<Rightarrow> Inr (s\<lparr>bdisk := d\<rparr>))"
      unfolding do_boot_digit[OF Suc.prems(1,3)] boot_list_from_step[OF Suc.prems(1)] if_P[OF True] by (rule refl)+
    show ?thesis
    proof (cases "boot_entry env (of_nat k) ?p (bev ?p ! (?n - 1)) (bdisk s)")
      case (Inl e)
      have "map_boot_end (\<lambda>x. x) e = e" by (rule boot_end.map_ident)
      then show ?thesis using Inl step by (simp add: attempts_def boot_end.map_comp comp_def)
    next
      case (Inr d)
      let ?s = "s\<lparr>bdisk := d, boot_sequence := of_nat (Suc k)\<rparr>"
      have "attempts env k s = handle_18 env (s\<lparr>bdisk := d\<rparr>)"
        using Inr step by (simp add: attempts_def)
      also have "\<dots> = attempts env (Suc k) ?s"
        unfolding attempts_def by (subst handle_18.simps) (use sq in \<open>simp add: Let_def add.commute\<close>)
      finally have "map_boot_end bdisk (attempts env k s) = map_boot_end bdisk (attempts env (Suc k) ?s)" by simp
      also have "\<dots> = try_all env ?p (Suc k) (boot_list_from (Suc k) ?p) d"
        using Suc.hyps(1)[of "Suc k" ?s] Suc.hyps(2) Suc.prems by simp
      finally show ?thesis using Inr step by simp
    qed
  qed
qed

lemma handle_19_tries:
  assumes "bevcount (ipl s) \<le> 8" "digit (bootorder (ipl s)) 7 = 0"
  shows "map_boot_end bdisk (handle_19 env s) = try_all env (ipl s) 0 (boot_list (ipl s)) (bdisk s)"
proof -
  have "handle_19 env s = attempts env 0 (s\<lparr>boot_sequence := 0\<rparr>)" by (simp add: handle_19_def attempts_def)
  then show ?thesis using attempts_eq_try_all[of 0 "s\<lparr>boot_sequence := 0\<rparr>" env] assms
    by (simp add: boot_list_def boot_list_from_def)
qed

section \<open>The tables\<close>

text \<open>The bounds of the tables, and that the entries for floppy, hard disk and compact disc stay first.\<close>

definition ipl_ok :: "ipl_s \<Rightarrow> bool" where
  "ipl_ok p \<longleftrightarrow> length (bev p) = IPL_SIZE \<and> length (bcv p) = IPL_SIZE
     \<and> 3 \<le> bevcount p \<and> bevcount p \<le> IPL_SIZE \<and> bcvcount p \<le> IPL_SIZE
     \<and> ie_type (bev p ! 0) = IPL_TYPE_FLOPPY \<and> ie_type (bev p ! 1) = IPL_TYPE_HARDDISK
     \<and> ie_type (bev p ! 2) = IPL_TYPE_CDROM
     \<and> (\<forall>i < bevcount p. ie_subchoice (bev p ! i) = 0) \<and> unat (bootorder p) < 2 ^ 12"

lemma bcv_pos_le: "bcv_pos at es d n \<le> n"
  by (induction n) auto

lemma length_shift_in: "pos \<le> en \<Longrightarrow> en < length m \<Longrightarrow> length (shift_in pos en x m) = length m"
  by (simp add: shift_in_def)

text \<open>The registration of devices before the boot.\<close>

datatype registration = Add_bev u16 u16 u16 | Add_bcv u16 u16 u16 | Add_bcv_internal addr

fun register :: "(addr \<Rightarrow> drive_s) \<Rightarrow> registration \<Rightarrow> ipl_s \<Rightarrow> ipl_s" where
  "register at (Add_bev seg off desc) p = add_bev seg off desc p"
| "register at (Add_bcv seg ip desc) p = add_bcv seg ip desc p"
| "register at (Add_bcv_internal d) p = add_bcv_internal at d p"

lemma boot_order_setup:
  fixes a b :: u8
  shows "unat (ucast a OR push_bit 4 (ucast b AND 0xf0) :: u32) < 2 ^ 12"
proof -
  have "(ucast a OR push_bit 4 (ucast b AND 0xf0) :: u32) = take_bit 12 (ucast a OR push_bit 4 (ucast b AND 0xf0))"
    by (rule bit_eqI) (auto simp: bit_simps dest: bit_imp_le_length)
  also have "unat \<dots> < 2 ^ 12" by (simp only: unsigned_take_bit_eq take_bit_nat_less_exp)
  finally show ?thesis .
qed

definition unused_zero :: "ipl_s \<Rightarrow> bool" where
  "unused_zero p \<longleftrightarrow> (\<forall>i. bevcount p \<le> i \<and> i < IPL_SIZE \<longrightarrow> ie_subchoice (bev p ! i) = 0)"

lemma boot_setup_ok: "ipl_ok (ipl (boot_setup nv s)) \<and> unused_zero (ipl (boot_setup nv s))"
proof -
  have "unused_zero (ipl (boot_setup nv s))"
    by (auto simp: unused_zero_def boot_setup_def IPL_SIZE_def own_entry_def zero_entry_def nth_Cons' nth_append)
  moreover have "ipl_ok (ipl (boot_setup nv s))"
    unfolding ipl_ok_def boot_setup_def using boot_order_setup
    by (auto simp: IPL_SIZE_def own_entry_def zero_entry_def nth_Cons' less_Suc_eq)
  ultimately show ?thesis by simp
qed

lemma register_ok:
  assumes "ipl_ok p" "unused_zero p"
  shows "ipl_ok (register at r p) \<and> unused_zero (register at r p)"
proof (cases r)
  case (Add_bev seg off desc)
  show ?thesis using assms unfolding Add_bev
    by (auto simp: ipl_ok_def unused_zero_def add_bev_def rom_entry_def nth_list_update less_Suc_eq)
next
  case (Add_bcv seg ip desc)
  show ?thesis using assms unfolding Add_bcv
    by (auto simp: ipl_ok_def unused_zero_def add_bcv_def)
next
  case (Add_bcv_internal d)
  show ?thesis using assms bcv_pos_le unfolding Add_bcv_internal
    by (auto simp: ipl_ok_def unused_zero_def add_bcv_internal_def Let_def length_shift_in)
qed

lemma register_all_ok:
  "ipl_ok (fold (register at) rs (ipl (boot_setup nv s))) \<and> unused_zero (fold (register at) rs (ipl (boot_setup nv s)))"
proof (induction rs rule: rev_induct)
  case Nil
  show ?case by (simp add: boot_setup_ok)
next
  case (snoc r rs)
  then show ?case by (simp add: register_ok)
qed

section \<open>The menu\<close>

text \<open>The specification of the menu: what the \<open>c\<close>-th line of an entry shows, and the lines in order.\<close>

definition item_text :: "drives_s \<Rightarrow> ipl_s \<Rightarrow> ipl_entry_s \<Rightarrow> nat \<Rightarrow> menu_text" where
  "item_text ds p ie c =
     (if ie_type ie = IPL_TYPE_FLOPPY then Show_floppy (getDrive EXTTYPE_FLOPPY (of_nat c) ds)
      else if ie_type ie = IPL_TYPE_HARDDISK then
        (if ie_type (bcv p ! c) = BCV_TYPE_INTERNAL then Show_disk (unat (ie_vector (bcv p ! c)))
         else Show_desc (ie_description (bcv p ! c)))
      else if ie_type ie = IPL_TYPE_CDROM then Show_cd (getDrive EXTTYPE_CD (of_nat c) ds)
      else Show_desc (ie_description ie))"

definition item_count :: "drives_s \<Rightarrow> ipl_s \<Rightarrow> ipl_entry_s \<Rightarrow> nat" where
  "item_count ds p ie =
     (if ie_type ie = IPL_TYPE_FLOPPY then unat (floppycount ds)
      else if ie_type ie = IPL_TYPE_HARDDISK then bcvcount p
      else if ie_type ie = IPL_TYPE_CDROM then unat (cdcount ds)
      else if ie_type ie = IPL_TYPE_CBFS then 0 else 1)"

lemma menu_show_eq:
  "menu_show ds p ie mp =
     (item_count ds p ie, map (\<lambda>c. (mp + c, item_text ds p ie c)) [0..<item_count ds p ie])"
proof -
  have "menu_show_harddisk p mp = (bcvcount p, map (\<lambda>c. (mp + c, if ie_type (bcv p ! c) = BCV_TYPE_INTERNAL
      then Show_disk (unat (ie_vector (bcv p ! c))) else Show_desc (ie_description (bcv p ! c)))) [0..<bcvcount p])"
  proof -
    have "concat (map (\<lambda>i. if P i then [f i] else [g i]) xs) = map (\<lambda>i. if P i then f i else g i) xs"
      for P and f g :: "nat \<Rightarrow> menu_line" and xs by (induction xs) simp_all
    then show ?thesis by (simp add: menu_show_harddisk_def menu_show_default_def Let_def if_distrib cong: if_cong)
  qed
  then show ?thesis
    by (simp add: menu_show_def item_count_def item_text_def menu_show_floppy_def menu_show_cdrom_def
        menu_show_cbfs_def menu_show_default_def ipl_type_defs)
qed

text \<open>The line with number \<open>mp + j\<close> is item \<open>c\<close> of entry \<open>b\<close>, which is what the search for \<open>j + 1\<close> finds.\<close>

lemma show_all_find:
  assumes "show_all ds p ies mp = (subcount, lines, mp')"
  shows "mp' = mp + length lines \<and> (\<forall>j < length lines. \<exists>b c. b < length ies \<and> c < item_count ds p (ies ! b)
     \<and> find_bev subcount n (Suc j) = Some (n + b, Suc c) \<and> lines ! j = (mp + j, item_text ds p (ies ! b) c))"
  using assms
proof (induction ies arbitrary: mp subcount lines n)
  case Nil
  then show ?case by simp
next
  case (Cons ie ies)
  let ?k = "item_count ds p ie"
  obtain sub ls where r: "show_all ds p ies (mp + ?k) = (sub, ls, mp')" "subcount = ?k # sub"
    "lines = map (\<lambda>c. (mp + c, item_text ds p ie c)) [0..<?k] @ ls"
    using Cons.prems by (auto simp: menu_show_eq split: prod.splits)
  note ih = Cons.IH[OF r(1), of "n + 1"]
  have "\<exists>b c. b < length (ie # ies) \<and> c < item_count ds p ((ie # ies) ! b)
     \<and> find_bev subcount n (Suc j) = Some (n + b, Suc c) \<and> lines ! j = (mp + j, item_text ds p ((ie # ies) ! b) c)"
    if j: "j < length lines" for j
  proof (cases "j < ?k")
    case True
    then show ?thesis using r by (intro exI[of _ 0] exI[of _ j]) (simp add: nth_append)
  next
    case False
    then have "j - ?k < length ls" using j r(3) by simp
    then obtain b c where bc: "b < length ies" "c < item_count ds p (ies ! b)"
      "find_bev sub (n + 1) (Suc (j - ?k)) = Some (n + 1 + b, Suc c)"
      "ls ! (j - ?k) = (mp + ?k + (j - ?k), item_text ds p (ies ! b) c)" using ih by blast
    then show ?thesis using False r
      by (intro exI[of _ "Suc b"] exI[of _ c]) (simp add: nth_append Suc_diff_le)
  qed
  then show ?case using ih r(3) by simp
qed

text \<open>A keystroke in the menu, for a line number \<open>k\<close>: the number keys have the scan codes from 2 on.\<close>

lemma menu_key_selects:
  assumes "show_all ds p (take (bevcount p) (bev p)) 1 = (subcount, lines, mp)"
    "bevcount p \<le> length (bev p)" "1 \<le> k" "k \<le> length lines"
  obtains b c where "b < bevcount p" "c < item_count ds p (bev p ! b)"
    "lines ! (k - 1) = (k, item_text ds p (bev p ! b) c)"
    "menu_keys subcount mp p ((int k + 1) # ks) = Some (take_choice b (Suc c) p)"
proof -
  obtain j where j: "k = Suc j" using assms(3) by (cases k) auto
  obtain b c where bc: "b < length (take (bevcount p) (bev p))" "c < item_count ds p (take (bevcount p) (bev p) ! b)"
    "find_bev subcount 0 (Suc j) = Some (b, Suc c)" "lines ! j = (1 + j, item_text ds p (take (bevcount p) (bev p) ! b) c)"
    using show_all_find[OF assms(1), of 0, THEN conjunct2, rule_format, of j] assms(4) j by auto
  moreover have "mp = 1 + length lines" using show_all_find[OF assms(1)] by simp
  ultimately show ?thesis using that[of b c] assms(2,4) j by (simp add: nat_add_distrib)
qed

lemma push_digit:
  assumes "unat w < 2 ^ 12" "n < 16"
  shows "unat (push_bit 4 w OR of_nat n :: u32) = 16 * unat w + n"
proof -
  have n: "unat (of_nat n :: u32) = n" using assms(2) by (simp add: unat_of_nat)
  have w: "unat (push_bit 4 w) = 16 * unat w" using assms(1) unfolding unat_push_bit_mod by simp
  have "of_nat n = (take_bit 4 (of_nat n) :: u32)"
    unfolding word_eq_iff_unat unsigned_take_bit_eq n using assms(2) by (simp add: take_bit_eq_mod)
  then have "push_bit 4 w AND of_nat n = (push_bit 4 w AND take_bit 4 (of_nat n) :: u32)" by simp
  also have "\<dots> = 0" by (rule bit_eqI) (simp add: bit_simps)
  finally have "push_bit 4 w OR of_nat n = (push_bit 4 w + of_nat n :: u32)" by (simp add: disjunctive_add_eq_or)
  then show ?thesis using assms by (simp add: unat_add_nowrap w n)
qed

lemma digits_take_choice:
  assumes "unat (bootorder p) < 2 ^ 12" "b + 1 < 16"
  shows "digit (bootorder (take_choice b c p)) 0 = b + 1"
    "digit (bootorder (take_choice b c p)) (Suc i) = digit (bootorder p) i"
proof -
  have u: "unat (bootorder (take_choice b c p)) = 16 * unat (bootorder p) + (b + 1)"
    unfolding take_choice_def using push_digit[of "bootorder p" "b + 1"] assms by simp
  show "digit (bootorder (take_choice b c p)) 0 = b + 1" unfolding digit_def u using assms(2) by simp
  have "(16 * unat (bootorder p) + (b + 1)) div 16 ^ Suc i = unat (bootorder p) div 16 ^ i"
  proof -
    have "(16 * unat (bootorder p) + (b + 1)) div 16 = unat (bootorder p)" using assms(2) by linarith
    then show ?thesis unfolding power_Suc div_mult2_eq by simp
  qed
  then show "digit (bootorder (take_choice b c p)) (Suc i) = digit (bootorder p) i" by (simp add: digit_def u)
qed

lemma high_digits_zero: "unat w < 2 ^ 12 \<Longrightarrow> 3 \<le> i \<Longrightarrow> digit w i = 0"
proof -
  assume w: "unat w < 2 ^ 12" and i: "3 \<le> i"
  have "(16::nat) ^ 3 \<le> 16 ^ i" using i by (intro power_increasing) simp_all
  then have "unat w < 16 ^ i" using w by simp
  then show ?thesis by (simp add: digit_def)
qed

lemma boot_list_take_choice:
  assumes "unat (bootorder p) < 2 ^ 12" "b < bevcount p" "bevcount p \<le> 8"
  shows "boot_list (take_choice b c p) = b # boot_list p"
proof -
  let ?q = "take_choice b c p"
  have bc: "bevcount ?q = bevcount p" by (simp add: take_choice_def)
  note d = digits_take_choice[OF assms(1), of b c]
  have "map (digit (bootorder ?q)) [1..<8] = map (digit (bootorder p)) [0..<7]"
    using d(2) assms(2,3) by (simp add: upt_rec_numeral numeral_eq_Suc)
  moreover have "map (digit (bootorder ?q)) [0..<8] = (b + 1) # map (digit (bootorder ?q)) [1..<8]"
    using d(1) assms(2,3) by (simp add: upt_conv_Cons)
  moreover have "map (digit (bootorder p)) [0..<8] = map (digit (bootorder p)) [0..<7] @ [0]"
    using high_digits_zero[OF assms(1), of 7] upt_Suc_append[of 0 7] by simp
  ultimately show ?thesis unfolding boot_list_def bc using assms(2) by (simp add: takeWhile_tail)
qed

section \<open>The hard disks\<close>

lemma map_hd_drive_first:
  assumes "hdcount ds = 0" "length (idmap ds EXTTYPE_HD) = CONFIG_MAX_EXTDRIVE"
  shows "idmap (map_hd_drive d ds) EXTTYPE_HD ! 0 = d \<and> hdcount (map_hd_drive d ds) = 1
    \<and> length (idmap (map_hd_drive d ds) EXTTYPE_HD) = CONFIG_MAX_EXTDRIVE"
  using assms by (auto simp: map_hd_drive_def Let_def CONFIG_MAX_EXTDRIVE_def split: option.split prod.split)

definition first_hd :: "addr \<Rightarrow> drives_s \<Rightarrow> bool" where
  "first_hd d ds \<longleftrightarrow> idmap ds EXTTYPE_HD ! 0 = d \<and> 1 \<le> unat (hdcount ds)"

lemma map_hd_drive_keeps: "first_hd d ds \<Longrightarrow> first_hd d (map_hd_drive e ds)"
proof -
  assume f: "first_hd d ds"
  show ?thesis
  proof (cases "unat (hdcount ds) \<ge> CONFIG_MAX_EXTDRIVE")
    case True
    then show ?thesis using f by (simp add: map_hd_drive_def)
  next
    case False
    then have "unat (hdcount ds + 1) = unat (hdcount ds) + 1"
      by (subst unat_add_nowrap) (simp_all add: CONFIG_MAX_EXTDRIVE_def)
    then show ?thesis using f False
      by (auto simp: first_hd_def map_hd_drive_def Let_def split: option.split prod.split)
  qed
qed

text \<open>
  What is asked of option ROMs: a connection vector adds the drives of its controller, so that the number of hard disks in
  the BIOS data area does not decrease, and leaves the firmware's own maps alone.
\<close>

definition roms_add_drives :: "'d boot_env \<Rightarrow> bool" where
  "roms_add_drives env \<longleftrightarrow> (\<forall>seg ip d. idmap (drives (be_bcv env seg ip d)) = idmap (drives d)
     \<and> hdcount (drives d) \<le> hdcount (drives (be_bcv env seg ip d)))"

lemma run_bcv_keeps:
  assumes "roms_add_drives env" "first_hd d (drives s)"
  shows "first_hd d (drives (run_bcv env ie s))"
proof -
  have "first_hd d (drives (be_bcv env seg ip s))" for seg ip
  proof -
    have "idmap (drives (be_bcv env seg ip s)) = idmap (drives s)" "unat (hdcount (drives s)) \<le> unat (hdcount (drives (be_bcv env seg ip s)))"
      using assms(1) by (simp_all add: roms_add_drives_def word_le_nat_alt)
    then show ?thesis using assms(2) by (simp add: first_hd_def)
  qed
  then show ?thesis using assms(2) by (simp add: run_bcv_def map_hd_drive_keeps)
qed

lemma run_bcvs_override:
  assumes "roms_add_drives env" "c < bcvcount p" "ie_type (bcv p ! c) = BCV_TYPE_INTERNAL" "hdcount (drives s) = 0"
    "length (idmap (drives s) EXTTYPE_HD) = CONFIG_MAX_EXTDRIVE"
  shows "first_hd (unat (ie_vector (bcv p ! c))) (drives (run_bcvs env p c s))"
proof -
  let ?d = "unat (ie_vector (bcv p ! c))"
  let ?f = "\<lambda>i s. if i \<noteq> c then run_bcv env (bcv p ! i) s else s"
  have fold: "first_hd ?d (drives s1) \<Longrightarrow> first_hd ?d (drives (fold ?f xs s1))" for xs s1
    using run_bcv_keeps[OF assms(1)] by (induction xs arbitrary: s1) auto
  have "first_hd ?d (drives (run_bcv env (bcv p ! c) s))"
    using assms map_hd_drive_first[of "drives s" ?d] by (simp add: run_bcv_def first_hd_def)
  then show ?thesis unfolding run_bcvs_def Let_def using fold assms(2) by simp
qed

text \<open>Of the drive maps, running the vectors changes the one of the hard disks only.\<close>

lemma run_bcvs_floppy:
  assumes "roms_add_drives env"
  shows "idmap (drives (run_bcvs env p c s)) EXTTYPE_FLOPPY = idmap (drives s) EXTTYPE_FLOPPY"
proof -
  have m: "idmap (map_hd_drive d ds) EXTTYPE_FLOPPY = idmap ds EXTTYPE_FLOPPY" for d ds
    by (auto simp: map_hd_drive_def Let_def split: option.split prod.split)
  have r: "idmap (drives (run_bcv env ie s)) EXTTYPE_FLOPPY = idmap (drives s) EXTTYPE_FLOPPY" for ie s
    using assms m by (simp add: run_bcv_def roms_add_drives_def)
  have "idmap (drives (fold (\<lambda>i s. if i \<noteq> c then run_bcv env (bcv p ! i) s else s) xs s)) EXTTYPE_FLOPPY
      = idmap (drives s) EXTTYPE_FLOPPY" for xs s
    using r by (induction xs arbitrary: s) auto
  then show ?thesis using r by (simp add: run_bcvs_def Let_def)
qed

section \<open>The menu and the boot together\<close>

lemma item_count_lt: "bcvcount p \<le> IPL_SIZE \<Longrightarrow> item_count ds p ie < 256"
  using unat_lt_2p[of "floppycount ds"] unat_lt_2p[of "cdcount ds"] by (simp add: item_count_def IPL_SIZE_def)

lemma swap_first_0: "xs \<noteq> [] \<Longrightarrow> swap_first i xs ! 0 = xs ! i"
  by (cases "i = 0") (simp_all add: swap_first_def)

lemma menu_returns:
  assumes "ipl_ok p" "drain keys = Some (0x86 # keys1)" "drain keys1 = Some ((int k + 1) # ks)"
    and "show_all ds p (take (bevcount p) (bev p)) 1 = (subcount, lines, mp)" "1 \<le> k" "k \<le> length lines"
  obtains b c where "b < bevcount p" "c < item_count ds p (bev p ! b)"
    "lines ! (k - 1) = (k, item_text ds p (bev p ! b) c)"
    "interactive_bootmenu True keys ds p = Some (take_choice b (Suc c) p, lines)"
proof -
  have "bevcount p \<le> length (bev p)" using assms(1) by (simp add: ipl_ok_def)
  then obtain b c where "b < bevcount p" "c < item_count ds p (bev p ! b)"
    "lines ! (k - 1) = (k, item_text ds p (bev p ! b) c)"
    "menu_keys subcount mp p ((int k + 1) # ks) = Some (take_choice b (Suc c) p)"
    using menu_key_selects[OF assms(4) _ assms(5,6)] by blast
  then show ?thesis using that assms(2-4) by (simp add: interactive_bootmenu_def)
qed

text \<open>The vectors after the chosen one.\<close>

definition run_others :: "'d boot_env \<Rightarrow> ipl_s \<Rightarrow> nat \<Rightarrow> (memory \<times> 'd) disk \<Rightarrow> (memory \<times> 'd) disk" where
  "run_others env p c = fold (\<lambda>i. run_bcv env (bcv p ! i)) (filter (\<lambda>i. i \<noteq> c) [0..<bcvcount p])"

lemma run_bcvs_first:
  assumes "c < bcvcount p"
  shows "run_bcvs env p c s = run_others env p c (run_bcv env (bcv p ! c) s)"
proof -
  have "(\<lambda>i s. if i \<noteq> c then run_bcv env (bcv p ! i) s else s) = (\<lambda>i. if i \<noteq> c then run_bcv env (bcv p ! i) else id)" by (auto simp: fun_eq_iff)
  then show ?thesis using assms by (simp add: run_bcvs_def run_others_def fold_filter)
qed

text \<open>C24.
  The boot menu does what it shows. After any registration of devices, the user who presses F12 and
  then the key of the line with number \<open>k\<close> boots first from the device that this line describes, and
  then from the devices of the configured order: a floppy drive becomes the first one; a hard disk is connected before
  all others, whether it is one of the firmware, which becomes drive 80h, or one of an option ROM, whose
  connection vector finds no hard disk yet; and for a compact disc the drive number is passed on. Before, no hard disk is
  connected; option ROMs add to the count of the hard disks but leave the maps of the firmware alone.
\<close>

theorem menu_choice_boots_first:
  assumes "ipl s = fold (register at) rs (ipl (boot_setup nv s0))"
    and "drain keys = Some (0x86 # keys1)" "drain keys1 = Some ((int k + 1) # ks)"
    and "show_all (drives (bdisk s)) (ipl s) (take (bevcount (ipl s)) (bev (ipl s))) 1 = (subcount, lines, mp)"
    and "1 \<le> k" "k \<le> length lines"
    and "roms_add_drives env" "hdcount (drives (bdisk s)) = 0"
    and "length (idmap (drives (bdisk s)) EXTTYPE_HD) = CONFIG_MAX_EXTDRIVE"
    and "length (idmap (drives (bdisk s)) EXTTYPE_FLOPPY) = CONFIG_MAX_EXTDRIVE"
  shows "\<exists>s' b c. boot_prep env True keys s = Some s' \<and> b < bevcount (ipl s)
     \<and> c < item_count (drives (bdisk s)) (ipl s) (bev (ipl s) ! b)
     \<and> lines ! (k - 1) = (k, item_text (drives (bdisk s)) (ipl s) (bev (ipl s) ! b) c)
     \<and> boot_list (ipl s') = b # boot_list (ipl s)
     \<and> (b = 0 \<longrightarrow> idmap (drives (bdisk s')) EXTTYPE_FLOPPY ! 0 = idmap (drives (bdisk s)) EXTTYPE_FLOPPY ! c)
     \<and> (b = 1 \<longrightarrow> (\<exists>ds. hdcount ds = 0 \<and> bdisk s' = run_others env (ipl s) c (run_bcv env (bcv (ipl s) ! c) ((bdisk s)\<lparr>drives := ds\<rparr>))))
     \<and> (b = 1 \<and> ie_type (bcv (ipl s) ! c) = BCV_TYPE_INTERNAL
          \<longrightarrow> idmap (drives (bdisk s')) EXTTYPE_HD ! 0 = unat (ie_vector (bcv (ipl s) ! c)))
     \<and> (b = 2 \<longrightarrow> ie_subchoice (bev (ipl s') ! b) = of_nat c)"
proof -
  let ?p = "ipl s" and ?ds = "drives (bdisk s)"
  have ok: "ipl_ok ?p" using register_all_ok[of at rs nv s0] assms(1) by simp
  obtain b c where bc: "b < bevcount ?p" "c < item_count ?ds ?p (bev ?p ! b)"
    "lines ! (k - 1) = (k, item_text ?ds ?p (bev ?p ! b) c)"
    "interactive_bootmenu True keys ?ds ?p = Some (take_choice b (Suc c) ?p, lines)"
    by (rule menu_returns[OF ok assms(2-6)]) (assumption | rule that)+
  let ?q = "take_choice b (Suc c) ?p"
  let ?ds1 = "?ds\<lparr>idmap := (idmap ?ds)(EXTTYPE_FLOPPY := swap_first (unat (ie_subchoice (bev ?q ! 0))) (idmap ?ds EXTTYPE_FLOPPY))\<rparr>"
  let ?d1 = "(bdisk s)\<lparr>drives := ?ds1\<rparr>"
  let ?r = "run_bcvs env ?q (unat (ie_subchoice (bev ?q ! 1))) ?d1"
  have prep: "boot_prep env True keys s = Some (s\<lparr>ipl := ?q, bdisk := ?r\<rparr>)"
    by (simp add: boot_prep_def bc(4) Let_def)
  have lens: "bevcount ?p \<le> 8" "length (bev ?p) = 8" "bcvcount ?p \<le> 8" using ok by (simp_all add: ipl_ok_def IPL_SIZE_def)
  have c: "unat (of_nat c :: u16) = c" using bc(2) item_count_lt[of ?p ?ds "bev ?p ! b"] lens
    by (simp add: unat_of_nat IPL_SIZE_def)
  have sub: "ie_subchoice (bev ?q ! b) = of_nat c" using bc(1) lens by (simp add: take_choice_def)
  have bcv: "bcv ?q = bcv ?p" "bcvcount ?q = bcvcount ?p" by (simp_all add: take_choice_def)
  have order: "boot_list ?q = b # boot_list ?p"
    using ok bc(1) lens by (intro boot_list_take_choice) (simp_all add: ipl_ok_def)
  have fl: "idmap (drives ?r) EXTTYPE_FLOPPY ! 0 = idmap ?ds EXTTYPE_FLOPPY ! c" if "b = 0"
  proof -
    have ne: "idmap ?ds EXTTYPE_FLOPPY \<noteq> []" using assms(10) by (auto simp: CONFIG_MAX_EXTDRIVE_def)
    show ?thesis using run_bcvs_floppy[OF assms(7)] sub that c swap_first_0[OF ne] by simp
  qed
  have hd: "idmap (drives ?r) EXTTYPE_HD ! 0 = unat (ie_vector (bcv ?p ! c))"
    if b: "b = 1" and i: "ie_type (bcv ?p ! c) = BCV_TYPE_INTERNAL"
  proof -
    have "c < bcvcount ?q" using bc(2) ok b bcv by (simp add: item_count_def ipl_ok_def ipl_type_defs)
    then have "first_hd (unat (ie_vector (bcv ?q ! c))) (drives (run_bcvs env ?q c ?d1))"
      using i assms(7-9) bcv by (intro run_bcvs_override) simp_all
    then show ?thesis using sub b c bcv by (simp add: first_hd_def)
  qed
  have cd: "ie_subchoice (bev ?q ! 2) = of_nat c" if "b = 2" using sub that by simp
  have first: "\<exists>ds. hdcount ds = 0 \<and> ?r = run_others env ?p c (run_bcv env (bcv ?p ! c) ((bdisk s)\<lparr>drives := ds\<rparr>))" if b: "b = 1"
  proof -
    have "c < bcvcount ?q" using bc(2) ok b bcv by (simp add: item_count_def ipl_ok_def ipl_type_defs)
    then have "?r = run_others env ?p c (run_bcv env (bcv ?p ! c) ?d1)" using sub b c bcv by (simp add: run_bcvs_first run_others_def)
    moreover have "hdcount ?ds1 = 0" using assms(8) by simp
    ultimately show ?thesis by blast
  qed
  show ?thesis
    by (rule exI[of _ "s\<lparr>ipl := ?q, bdisk := ?r\<rparr>"], rule exI[of _ b], rule exI[of _ c])
       (use prep bc(1-3) order fl hd cd first in \<open>simp del: fun_upd_apply\<close>)
qed

section \<open>Booting from the first hard disk\<close>

lemma le_word_2: "(le_word [a, b] :: u16) = 0xaa55 \<longleftrightarrow> a = 0x55 \<and> b = 0xaa"
proof
  assume e: "(le_word [a, b] :: u16) = 0xaa55"
  have w: "le_word [a, b] = (ucast a OR push_bit 8 (ucast b) :: u16)" by (simp add: le_word_def)
  have "a = ucast (le_word [a, b] :: u16)" unfolding w by (rule bit_eqI) (auto simp: bit_simps)
  moreover have "b = ucast (drop_bit 8 (le_word [a, b] :: u16))" unfolding w
    by (rule bit_eqI) (auto simp: bit_simps dest: bit_imp_le_length)
  ultimately show "a = 0x55 \<and> b = 0xaa" using e by simp
qed (simp add: le_word_def)

lemma far_read_signature: "far_read m 0x7c0 0x1fe 2 = [m (0x7c00 + of_nat 510), m (0x7c00 + of_nat 511)]"
  by (simp add: far_read_def far_addr_def upt_rec)

definition boot_regs :: "u8 \<Rightarrow> bregs" where
  "boot_regs drv = set_cl 1 (set_al 1 (set_ah 2 ((set_dl drv (zero_regs\<lparr>r_flags := F_IF\<rparr>))\<lparr>r_es := 0x7c0\<rparr>)))"

lemma boot_regs_simps [simp]:
  "r_dl (boot_regs drv) = drv" "r_ah (boot_regs drv) = 2" "r_al (boot_regs drv) = 1" "r_es (boot_regs drv) = 0x7c0"
  "r_bx (boot_regs drv) = 0" "r_cl (boot_regs drv) = 1" "r_ch (boot_regs drv) = 0" "r_dh (boot_regs drv) = 0"
  by (simp_all add: boot_regs_def reg_defs zero_regs_def, simp_all add: lo16_def hi8_def lo8_def put_lo8_def)

text \<open>The read of the first sector through interrupt 13h, when no drive is emulated.\<close>

lemma int13_first_sector:
  fixes s :: "(memory \<times> 'd) disk"
  defines "d \<equiv> idmap (drives s) EXTTYPE_HD ! 0"
  assumes "active (cdemu s) = 0" "d \<noteq> 0" "d \<noteq> cdemu_drive s" "0 < capacity (lchs (drive_at (drives s) d))"
    and rd: "reads_blocks_at 512 n img len D (process_op (env_drv env)) (drive_at (drives s) d) (snd (hw s))" "1 \<le> n" "1 \<le> len"
      "span 0x7c00 512 \<inter> D = {}"
  obtains br s1 where "handle_13 env junk (boot_regs 0x80) s = (br, s1)" "\<not> cf br"
    "\<And>i. i < 512 \<Longrightarrow> fst (hw s1) (0x7c00 + of_nat i) = img i"
proof -
  let ?dr = "drive_at (drives s) d" and ?r = "boot_regs 0x80"
  define s0 where "s0 = s\<lparr>disk_interrupt_flag := 0\<rparr>"
  let ?op = "\<lparr>op_lba = 0, op_buf = 0x7c00, op_drive = ?dr, op_count = 1, op_command = CMD_READ\<rparr>"
  have g: "0 < unat (heads (lchs ?dr))" "0 < unat (cylinders (lchs ?dr))" "0 < unat (spt (lchs ?dr))"
    using assms(5) by (auto simp: capacity_def)
  obtain m h where mh: "hw s = (m, h)" by (cases "hw s")
  obtain op' m' h' where op: "process_op (env_drv env) ?op (m, h) = ((DISK_RET_SUCCESS, op'), m', h')"
    "op_count op' = 1" "\<And>i. i < 512 \<Longrightarrow> m' (0x7c00 + of_nat i) = img i"
  proof (rule reads_blocks_atD[OF rd(1)[unfolded mh snd_conv], of ?op m])
    fix op' m' h'
    assume "process_op (env_drv env) ?op (m, h) = ((DISK_RET_SUCCESS, op'), m', h')" "op_count op' = op_count ?op"
      "\<And>i. i < 512 * unat (op_count ?op) \<Longrightarrow> m' (op_buf ?op + of_nat i) = img (512 * unat (op_lba ?op) + i)"
    then show ?thesis by (intro that) simp_all
  qed (use rd(2-4) in simp_all)
  have h13: "handle_13 env junk ?r s = basic_access env d CMD_READ ?r s0"
    using assms(2,3) by (simp add: handle_13_def handle_legacy_disk_def legacy_drive_def EXTSTART_HD_def EXTSTART_CD_def
        getDrive_def CONFIG_MAX_EXTDRIVE_def d_def disk_13_def disk_1302_def s0_def Let_def)
  have geo: "fillLCHS d s0 = lchs ?dr" using assms(4) by (simp add: fillLCHS_def s0_def)
  have ac: "basic_access env d CMD_READ ?r s0 =
      disk_ret DISK_RET_SUCCESS (set_al 1 ?r) (s0\<lparr>hw := (m', h')\<rparr>)"
    using g op(1,2) mh unfolding basic_access_def geo
    by (simp add: chs_cylinder_def word_le_nat_alt word_less_nat_alt not_le chs_lba_def MAKE_FLATPTR_def
        send_op_def send_disk_op_def s0_def Let_def)
  show ?thesis
    by (rule that[OF h13[unfolded ac disk_ret_def]])
       (simp_all add: DISK_RET_SUCCESS_def disk_status_def op(3))
qed

lemma boot_entry_hard_disk:
  assumes "ie_type ie = IPL_TYPE_HARDDISK" "active (cdemu s) = 0" "idmap (drives s) EXTTYPE_HD ! 0 \<notin> {0, cdemu_drive s}"
    "0 < capacity (lchs (drive_at (drives s) (idmap (drives s) EXTTYPE_HD ! 0)))"
    "reads_blocks_at 512 n img len D (process_op (env_drv (be_disk env))) (drive_at (drives s) (idmap (drives s) EXTTYPE_HD ! 0)) (snd (hw s))"
    "1 \<le> n" "1 \<le> len" "span 0x7c00 512 \<inter> D = {}"
  obtains d br where "\<And>i. i < 512 \<Longrightarrow> fst (hw d) (0x7c00 + of_nat i) = img i" "r_dl br = 0x80" "r_ax br = 0xaa55"
    "boot_entry env seq p ie s =
       (if img 510 = 0x55 \<and> img 511 = 0xaa
        then case be_entry env 0 0x7c00 br d of None \<Rightarrow> Inl (Runs 0 0x7c00 br d) | Some d1 \<Rightarrow> Inr d1
        else Inr d)"
proof -
  obtain r1 d where h: "handle_13 (be_disk env) (be_junk env) (boot_regs 0x80) s = (r1, d)" "\<not> cf r1"
    and m: "\<And>i. i < 512 \<Longrightarrow> fst (hw d) (0x7c00 + of_nat i) = img i"
    using assms(3) by (auto intro: int13_first_sector[OF assms(2) _ _ assms(4-8), of "be_junk env"])
  let ?br = "set_ax 0xaa55 (set_dl 0x80 (zero_regs\<lparr>r_flags := F_IF\<rparr>))"
  have sig: "(le_word (far_read (fst (hw d)) 0x7c0 0x1fe 2) :: u16) = MBR_SIGNATURE \<longleftrightarrow> img 510 = 0x55 \<and> img 511 = 0xaa"
    unfolding far_read_signature MBR_SIGNATURE_def le_word_2 using m[of 510] m[of 511] by simp
  have br: "r_dl ?br = 0x80" "r_ax ?br = 0xaa55" by (simp_all add: reg_defs)
  show ?thesis
  proof (rule that[OF m br])
    show "boot_entry env seq p ie s =
       (if img 510 = 0x55 \<and> img 511 = 0xaa
        then case be_entry env 0 0x7c00 ?br d of None \<Rightarrow> Inl (Runs 0 0x7c00 ?br d) | Some d1 \<Rightarrow> Inr d1
        else Inr d)"
      using assms(1) h sig unfolding boot_entry_def boot_disk_def Let_def boot_regs_def[symmetric]
      by (auto simp: call_boot_entry_def ipl_type_defs Let_def)
  qed simp_all
qed

text \<open>C34.
  Booting from a hard disk. When the hard disk comes first in the boot order, no drive is emulated and
  the driver of the drive reads its sectors, interrupt 19h loads the first sector to 7C00h and jumps to it
  with the drive number in \<open>DL\<close> if the sector ends with the signature; without the signature, or when the
  loaded code returns, the next device of the order is tried.
\<close>

theorem boots_from_hard_disk:
  fixes s :: "'d boot"
  defines "d0 \<equiv> idmap (drives (bdisk s)) EXTTYPE_HD ! 0"
  assumes "bevcount (ipl s) \<le> 8" "unat (bootorder (ipl s)) < 2 ^ 16" "boot_list (ipl s) = b # rest"
    and "ie_type (bev (ipl s) ! b) = IPL_TYPE_HARDDISK"
    and "active (cdemu (bdisk s)) = 0" "d0 \<notin> {0, cdemu_drive (bdisk s)}"
    and "0 < capacity (lchs (drive_at (drives (bdisk s)) d0))"
    and "reads_blocks_at 512 n img len D (process_op (env_drv (be_disk env))) (drive_at (drives (bdisk s)) d0) (snd (hw (bdisk s)))"
    and "1 \<le> n" "1 \<le> len" "span 0x7c00 512 \<inter> D = {}"
  shows "\<exists>d br. (\<forall>i < 512. fst (hw d) (0x7c00 + of_nat i) = img i) \<and> r_dl br = 0x80 \<and> r_ax br = 0xaa55
     \<and> map_boot_end bdisk (handle_19 env s) =
         (if img 510 = 0x55 \<and> img 511 = 0xaa
          then case be_entry env 0 0x7c00 br d of None \<Rightarrow> Runs 0 0x7c00 br d | Some d1 \<Rightarrow> try_all env (ipl s) 1 rest d1
          else try_all env (ipl s) 1 rest d)"
proof -
  have "unat (bootorder (ipl s)) < 16 ^ 7" using assms(3) by simp
  then have z: "digit (bootorder (ipl s)) 7 = 0" unfolding digit_def by simp
  obtain d br where r: "\<And>i. i < 512 \<Longrightarrow> fst (hw d) (0x7c00 + of_nat i) = img i" "r_dl br = 0x80" "r_ax br = 0xaa55"
    "boot_entry env 0 (ipl s) (bev (ipl s) ! b) (bdisk s) =
       (if img 510 = 0x55 \<and> img 511 = 0xaa
        then case be_entry env 0 0x7c00 br d of None \<Rightarrow> Inl (Runs 0 0x7c00 br d) | Some d1 \<Rightarrow> Inr d1
        else Inr d)"
    by (rule boot_entry_hard_disk[OF assms(5-)[unfolded d0_def], where seq = 0 and p = "ipl s"]) (assumption | rule that)+
  show ?thesis
    by (rule exI[of _ d], rule exI[of _ br])
       (use r in \<open>auto simp: handle_19_tries[OF assms(2) z] assms(4) split: option.split\<close>)
qed

lemma interactive_bootmenu_order:
  assumes "interactive_bootmenu show keys ds p = Some (q, ls)" "unat (bootorder p) < 2 ^ 12" "bevcount p \<le> 8"
  shows "bevcount q = bevcount p \<and> unat (bootorder q) < 2 ^ 16"
proof -
  have find: "find_bev sc n j = Some (b, c) \<Longrightarrow> b < n + length sc" for sc n j b c
    by (induction sc arbitrary: n j) (auto split: if_splits, fastforce)
  have len: "show_all ds p ies mp = (sc, lines, mp') \<Longrightarrow> length sc = length ies" for ies mp sc lines mp'
    by (induction ies arbitrary: mp sc lines mp') (auto split: prod.splits)
  have keys: "menu_keys sc mp p ks = Some q \<Longrightarrow> q = p \<or> (\<exists>b c. b < length sc \<and> q = take_choice b c p)" for sc mp ks q
    by (induction ks) (auto split: if_splits dest: find[where n = 0, simplified])
  obtain sc lines mp where sa: "show_all ds p (take (bevcount p) (bev p)) 1 = (sc, lines, mp)" by (metis prod_cases3)
  have "q = p \<or> (\<exists>ks. menu_keys sc mp p ks = Some q)"
    using assms(1) sa unfolding interactive_bootmenu_def by (auto split: if_splits option.splits list.splits)
  moreover have "length sc \<le> bevcount p" using len[OF sa] by simp
  ultimately consider "q = p" | b c where "b < bevcount p" "q = take_choice b c p" 
    by (meson keys less_le_trans)
  then show ?thesis
  proof cases
    case (2 b c)
    then have "unat (bootorder q) = 16 * unat (bootorder p) + (b + 1)"
      using push_digit[OF assms(2), of "b + 1"] assms(3) by (simp add: take_choice_def)
    then show ?thesis using 2 assms(2,3) by (simp add: take_choice_def)
  qed (use assms in simp)
qed

lemma boot_entry_no_bad_shift: "boot_entry env q p ie d \<noteq> Inl Bad_shift"
  by (auto simp: boot_entry_def boot_disk_def boot_cdrom_def call_boot_entry_def Let_def
      split: prod.splits option.splits if_splits)

lemma try_all_no_bad_shift: "try_all env p n is d \<noteq> Bad_shift"
  by (induction "is" arbitrary: n d) (auto simp: boot_entry_no_bad_shift split: sum.split)

text \<open>C25.
  The boot sequence. After any registration of devices and whatever is pressed in the boot menu,
  interrupt 19h, with the invocations of interrupt 18h that follow failed attempts, tries the devices
  named by the digits of the boot order, in that order and each once, stops with the first whose
  code keeps the machine, and reports that there is no bootable device after the last; the boot
  order is never shifted by its width or more.
\<close>

theorem boot_tries_in_order:
  assumes "ipl s = fold (register at) rs (ipl (boot_setup nv s0))" "boot_prep env show keys s = Some s'"
  shows "map_boot_end bdisk (handle_19 env s') = try_all env (ipl s') 0 (boot_list (ipl s')) (bdisk s')
    \<and> handle_19 env s' \<noteq> Bad_shift"
proof -
  have ok: "ipl_ok (ipl s)" using register_all_ok[of at rs nv s0] assms(1) by simp
  obtain p ls where p: "interactive_bootmenu show keys (drives (bdisk s)) (ipl s) = Some (p, ls)" "ipl s' = p"
    using assms(2) by (auto simp: boot_prep_def Let_def split: option.splits)
  have "bevcount (ipl s') \<le> 8" "unat (bootorder (ipl s')) < 2 ^ 16"
    using interactive_bootmenu_order[OF p(1)] ok p(2) by (simp_all add: ipl_ok_def IPL_SIZE_def)
  then have "map_boot_end bdisk (handle_19 env s') = try_all env (ipl s') 0 (boot_list (ipl s')) (bdisk s')"
    by (intro handle_19_tries) (simp_all add: digit_def)
  then show ?thesis using try_all_no_bad_shift by (metis boot_end.map(4))
qed

section \<open>The order of the hard disks\<close>

text \<open>Within a run of internal drives, the table is in the order of driver and controller number.\<close>

definition bcv_sorted :: "(addr \<Rightarrow> drive_s) \<Rightarrow> ipl_s \<Rightarrow> bool" where
  "bcv_sorted at p \<longleftrightarrow> (\<forall>i j. i < j \<and> j < bcvcount p \<and> (\<forall>k. i \<le> k \<and> k \<le> j \<longrightarrow> ie_type (bcv p ! k) = BCV_TYPE_INTERNAL)
     \<longrightarrow> \<not> drive_before (at (unat (ie_vector (bcv p ! j)))) (at (unat (ie_vector (bcv p ! i)))))"

lemma shift_in_nth:
  assumes "pos \<le> en" "en < length m" "i < length m"
  shows "shift_in pos en x m ! i = (if i < pos then m ! i else if i = pos then x else if i \<le> en then m ! (i - 1) else m ! i)"
  using assms by (auto simp: shift_in_def nth_append nth_Cons' min_def)

lemma bcv_pos_spec:
  "(\<forall>k. bcv_pos at es d n \<le> k \<and> k < n \<longrightarrow> ie_type (es ! k) = BCV_TYPE_INTERNAL \<and> \<not> drive_before (at (unat (ie_vector (es ! k)))) d)
   \<and> (0 < bcv_pos at es d n \<longrightarrow> ie_type (es ! (bcv_pos at es d n - 1)) \<noteq> BCV_TYPE_INTERNAL
        \<or> drive_before (at (unat (ie_vector (es ! (bcv_pos at es d n - 1))))) d)"
  by (induction n) (auto simp: less_Suc_eq)

text \<open>The drives in front of the place, back to the last other entry, do not come after the new drive.\<close>

lemma run_before_new:
  assumes "bcv_sorted at p" "i < bcv_pos at (bcv p) d (bcvcount p)"
    and low: "\<And>k. i \<le> k \<Longrightarrow> k < bcv_pos at (bcv p) d (bcvcount p) \<Longrightarrow> ie_type (bcv p ! k) = BCV_TYPE_INTERNAL"
  shows "\<not> drive_before d (at (unat (ie_vector (bcv p ! i))))"
proof -
  let ?at = "\<lambda>k. at (unat (ie_vector (bcv p ! k)))"
  define pos where "pos = bcv_pos at (bcv p) d (bcvcount p)"
  have pos: "i < pos" "pos \<le> bcvcount p" using assms(2) bcv_pos_le by (simp_all add: pos_def)
  have b: "drive_before (?at (pos - 1)) d"
    using bcv_pos_spec[of at "bcv p" d "bcvcount p", folded pos_def] low[of "pos - 1", folded pos_def] pos(1) by auto
  have "\<not> drive_before (?at (pos - 1)) (?at i)"
  proof (cases "i = pos - 1")
    case False
    then show ?thesis using assms(1) low[folded pos_def] pos unfolding bcv_sorted_def
      by (elim allE[of _ i] allE[of _ "pos - 1"]) auto
  qed (simp add: drive_before_irrefl)
  then show ?thesis using drive_before_trans[OF b] by blast
qed

lemma add_bcv_internal_sorted:
  assumes "bcv_sorted at p" "length (bcv p) = IPL_SIZE" "d < 2 ^ 32"
  shows "bcv_sorted at (add_bcv_internal at d p)"
proof (cases "bcvcount p \<ge> IPL_SIZE")
  case True
  then show ?thesis using assms(1) by (simp add: add_bcv_internal_def)
next
  case False
  let ?n = "bcvcount p" and ?es = "bcv p" and ?q = "add_bcv_internal at d p"
  let ?at = "\<lambda>e. at (unat (ie_vector e))"
  define pos where "pos = bcv_pos at ?es (at d) ?n"
  note spec = bcv_pos_spec[of at ?es "at d" ?n, folded pos_def]
  have pos: "pos \<le> ?n" unfolding pos_def by (rule bcv_pos_le)
  define e where "e = (?es ! pos)\<lparr>ie_type := BCV_TYPE_INTERNAL, ie_vector := of_nat d, ie_description := Own ''''\<rparr>"
  have ate: "?at e = at d" using assms(3) by (simp add: e_def unat_of_nat)
  have q: "bcv ?q = shift_in pos ?n e ?es" "bcvcount ?q = Suc ?n"
    using False by (simp_all add: add_bcv_internal_def Let_def pos_def e_def)
  have nth: "bcv ?q ! i = (if i < pos then ?es ! i else if i = pos then e else ?es ! (i - 1))" if "i \<le> ?n" for i
    unfolding q(1) using shift_in_nth[OF pos, of ?es i e] that False assms(2) by auto
  have old: "\<not> drive_before (?at (?es ! j)) (?at (?es ! i))"
    if "i < j" "j < ?n" "\<forall>k. i \<le> k \<and> k \<le> j \<longrightarrow> ie_type (?es ! k) = BCV_TYPE_INTERNAL" for i j
    using assms(1) that unfolding bcv_sorted_def by blast
  have "\<not> drive_before (?at (bcv ?q ! j)) (?at (bcv ?q ! i))"
    if ij: "i < j" "j < Suc ?n" and run: "\<forall>k. i \<le> k \<and> k \<le> j \<longrightarrow> ie_type (bcv ?q ! k) = BCV_TYPE_INTERNAL" for i j
  proof -
    have low: "ie_type (?es ! k) = BCV_TYPE_INTERNAL" if "i \<le> k" "k \<le> j" "k < pos" for k
      using run that nth[of k] ij(2) by (metis less_Suc_eq_le order_trans)
    have high: "ie_type (?es ! k) = BCV_TYPE_INTERNAL" if "pos \<le> k" "k < ?n" for k
      using spec that by blast
    consider "j < pos" | "j = pos" | "i < pos" "pos < j" | "i = pos" | "pos < i" using ij by linarith
    then show ?thesis
    proof cases
      case 1
      then show ?thesis using old[of i j] nth[of i] nth[of j] ij low pos by simp
    next
      case 2
      have "\<not> drive_before (at d) (?at (?es ! i))"
        unfolding pos_def by (rule run_before_new[OF assms(1)]) (use low 2 ij pos_def in auto)
      then show ?thesis using nth[of i] nth[of j] 2 ij pos ate by simp
    next
      case 3
      have "\<forall>k. i \<le> k \<and> k \<le> j - 1 \<longrightarrow> ie_type (?es ! k) = BCV_TYPE_INTERNAL"
      proof (intro allI impI)
        fix k assume "i \<le> k \<and> k \<le> j - 1"
        then show "ie_type (?es ! k) = BCV_TYPE_INTERNAL" using low[of k] high[of k] ij(2) 3 by (cases "k < pos") auto
      qed
      then show ?thesis using old[of i "j - 1"] nth[of i] nth[of j] ij 3 by auto
    next
      case 4
      then have "\<not> drive_before (?at (?es ! (j - 1))) (at d)"
        using spec[THEN conjunct1, rule_format, of "j - 1"] ij by (cases j) auto
      then show ?thesis using nth[of i] nth[of j] 4 ij ate by simp
    next
      case 5
      then have "\<not> drive_before (?at (?es ! (j - 1))) (?at (?es ! (i - 1)))"
        by (intro old) (use ij 5 high in auto)
      then show ?thesis using nth[of i] nth[of j] 5 ij by simp
    qed
  qed
  then show ?thesis unfolding bcv_sorted_def q(2) by blast
qed

lemma register_sorted:
  assumes "bcv_sorted at p" "ipl_ok p" "\<And>d. r = Add_bcv_internal d \<Longrightarrow> d < 2 ^ 32"
  shows "bcv_sorted at (register at r p)"
proof (cases r)
  case (Add_bcv seg ip desc)
  have "bcv_sorted at (add_bcv seg ip desc p)"
    unfolding bcv_sorted_def
  proof (intro allI impI)
    fix i j
    assume a: "i < j \<and> j < bcvcount (add_bcv seg ip desc p)
      \<and> (\<forall>k. i \<le> k \<and> k \<le> j \<longrightarrow> ie_type (bcv (add_bcv seg ip desc p) ! k) = BCV_TYPE_INTERNAL)"
    then have "ie_type (bcv (add_bcv seg ip desc p) ! j) = BCV_TYPE_INTERNAL" by simp
    then have "j < bcvcount p" using a[THEN conjunct2, THEN conjunct1] assms(2)
      by (auto simp: add_bcv_def rom_entry_def ipl_ok_def bcv_type_defs less_Suc_eq split: if_splits)
    then show "\<not> drive_before (at (unat (ie_vector (bcv (add_bcv seg ip desc p) ! j))))
        (at (unat (ie_vector (bcv (add_bcv seg ip desc p) ! i))))"
      using assms(1) a unfolding bcv_sorted_def
      by (elim allE[of _ i] allE[of _ j]) (auto simp: add_bcv_def nth_list_update split: if_splits)
  qed
  then show ?thesis using Add_bcv by simp
next
  case (Add_bcv_internal d)
  then show ?thesis using add_bcv_internal_sorted[OF assms(1) _ assms(3)] assms(2) by (simp add: ipl_ok_def)
qed (use assms(1) in \<open>simp add: add_bev_def bcv_sorted_def\<close>)

text \<open>C26.
  The table of connection vectors stays sorted. In whatever order drives are found and option ROMs
  register vectors, the drives of the firmware between two vectors of option ROMs are in the order of
  their driver and controller number, the table never exceeds its 8 entries, and the entries for
  floppy, hard disk and compact disc keep their places.
\<close>

theorem bcv_table_sorted:
  assumes "\<And>d. Add_bcv_internal d \<in> set rs \<Longrightarrow> d < 2 ^ 32"
  shows "bcv_sorted at (fold (register at) rs (ipl (boot_setup nv s)))
    \<and> ipl_ok (fold (register at) rs (ipl (boot_setup nv s)))"
  using assms
proof (induction rs rule: rev_induct)
  case Nil
  then show ?case using boot_setup_ok[of nv s] by (simp add: bcv_sorted_def boot_setup_def)
next
  case (snoc r rs)
  have "bcv_sorted at (fold (register at) rs (ipl (boot_setup nv s)))" using snoc by simp
  then have "bcv_sorted at (register at r (fold (register at) rs (ipl (boot_setup nv s))))"
    by (rule register_sorted) (use register_all_ok[of at rs nv s] snoc.prems in auto)
  then show ?case using register_all_ok[of at "rs @ [r]" nv s] by simp
qed

section \<open>Instances\<close>

text \<open>
  A machine with one hard disk, whose driver reads every sector, and a boot order that names floppy
  and hard disk; the sectors of the disk end with the signature.
\<close>

definition ex_image :: "nat \<Rightarrow> u8" where
  "ex_image i = (if i mod 512 = 510 then 0x55 else if i mod 512 = 511 then 0xaa else of_nat i)"

definition ex_bdisk :: "(memory \<times> unit) disk" where
  "ex_bdisk = \<lparr>floppy_last_status = 0, disk_last_status = 0, disk_interrupt_flag = 0,
     drives = \<lparr>floppycount = 0, cdcount = 0, hdcount = 0, idmap = (\<lambda>_. replicate 16 0),
       drive_at = (\<lambda>a. ex_drive\<lparr>cntl_id := of_nat a, lchs := \<lparr>heads = 16, cylinders = 1024, spt = 63\<rparr>\<rparr>),
       equipment_list_flags = 0, floppy_harddisk_info = 0, fdpt = undefined, fdpt_vector = Map.empty\<rparr>,
     cdemu = \<lparr>emulated_drive = 0, ilba = 0, buffer_segment = 0, load_segment = 0, sector_count = 0, active = 0,
       media = 0, emulated_extdrive = 0, cd_lchs = zero_chs\<rparr>,
     cdemu_drive = 9, cdrom_locks = replicate 16 0, dpte = undefined, int13ext = undefined, int13dpt = undefined,
     eltorito = undefined, hw = (\<lambda>_. 0, ())\<rparr>"

definition ex_boot_env :: "unit boot_env" where
  "ex_boot_env = \<lparr>be_disk = \<lparr>env_drv = ideal_reader 512 ex_image, env_eject = (\<lambda>_. (0, False)), env_ata = undefined,
       env_param_table = 0, env_ebda_seg = 0, env_dpte_offset = 0\<rparr>,
     be_junk = undefined, be_cmd = undefined, be_khz = 0, be_info = 0, be_sense = 0, be_buf = 0, be_tsc = (\<lambda>_. []),
     be_bcv = (\<lambda>seg ip d. d), be_entry = (\<lambda>seg ip br d. None)\<rparr>"

definition ex_cmos :: "u8 \<Rightarrow> u8" where
  "ex_cmos r = (if r = CMOS_BIOS_BOOTFLAG2 then 0x21 else 0)"

definition ex_boot0 :: "unit boot" where
  "ex_boot0 = boot_setup ex_cmos \<lparr>ipl = undefined, boot_sequence = 0, bdisk = ex_bdisk\<rparr>"

definition ex_at :: "addr \<Rightarrow> drive_s" where
  "ex_at a = drive_at (drives ex_bdisk) a"

text \<open>Two drives that are found in the wrong order.\<close>

definition ex_boot :: "unit boot" where
  "ex_boot = ex_boot0\<lparr>ipl := fold (register ex_at) [Add_bcv_internal 7, Add_bcv_internal 5] (ipl ex_boot0)\<rparr>"

lemma ex_boot_ipl:
  "ipl ex_boot = \<lparr>bev = [own_entry IPL_TYPE_FLOPPY ''Floppy'', own_entry IPL_TYPE_HARDDISK ''Hard Disk'',
      own_entry IPL_TYPE_CDROM ''CD-Rom''] @ replicate 5 zero_entry,
    bcv = [own_entry BCV_TYPE_INTERNAL ''''\<lparr>ie_vector := 5\<rparr>, own_entry BCV_TYPE_INTERNAL ''''\<lparr>ie_vector := 7\<rparr>]
      @ replicate 6 zero_entry, bevcount = 3, bcvcount = 2, bootorder = 0x21, checkfloppysig = True\<rparr>"
proof -
  have r: "replicate 8 x = [x, x, x, x, x, x, x, x]" "replicate 5 x = [x, x, x, x, x]" "replicate 6 x = [x, x, x, x, x, x]"
    for x :: ipl_entry_s by (simp_all add: numeral_eq_Suc)
  show ?thesis
    by (simp add: r ex_boot_def ex_boot0_def boot_setup_def ex_cmos_def CMOS_BIOS_BOOTFLAG1_def CMOS_BIOS_BOOTFLAG2_def
        add_bcv_internal_def IPL_SIZE_def bcv_type_defs zero_entry_def own_entry_def shift_in_def ex_at_def ex_bdisk_def
        drive_before_def Let_def)
qed

lemma ex_boot_menu:
  "show_all (drives (bdisk ex_boot)) (ipl ex_boot) (take (bevcount (ipl ex_boot)) (bev (ipl ex_boot))) 1
    = ([0, 2, 0], [(1, Show_disk 5), (2, Show_disk 7)], 3)"
  by (simp add: ex_boot_ipl menu_show_eq item_count_def item_text_def own_entry_def ipl_type_defs bcv_type_defs upt_rec)
     (simp add: ex_boot_def ex_boot0_def boot_setup_def ex_bdisk_def)

lemma ex_boot_list: "boot_list (ipl ex_boot) = [0, 1]"
  by (simp add: boot_list_def ex_boot_ipl digit_def upt_rec)

lemma ex_boot_drives: "bdisk ex_boot = ex_bdisk"
  by (simp add: ex_boot_def ex_boot0_def boot_setup_def)

theorem menu_choice_boots_first_witness:
  "\<exists>s'. boot_prep ex_boot_env True [- 1, 0x86, - 1, 3] ex_boot = Some s' \<and> boot_list (ipl s') = [1, 0, 1]
    \<and> idmap (drives (bdisk s')) EXTTYPE_HD ! 0 = 7"
proof -
  have i: "ipl ex_boot = fold (register ex_at) [Add_bcv_internal 7, Add_bcv_internal 5]
      (ipl (boot_setup ex_cmos \<lparr>ipl = undefined, boot_sequence = 0, bdisk = ex_bdisk\<rparr>))"
    by (simp add: ex_boot_def ex_boot0_def)
  obtain s' b c where r: "boot_prep ex_boot_env True [- 1, 0x86, - 1, 3] ex_boot = Some s'" "b < 3"
    "c < item_count (drives ex_bdisk) (ipl ex_boot) (bev (ipl ex_boot) ! b)"
    "(2, Show_disk 7) = (2, item_text (drives ex_bdisk) (ipl ex_boot) (bev (ipl ex_boot) ! b) c)"
    "boot_list (ipl s') = [b, 0, 1]"
    "b = 1 \<and> ie_type (bcv (ipl ex_boot) ! c) = BCV_TYPE_INTERNAL
       \<longrightarrow> idmap (drives (bdisk s')) EXTTYPE_HD ! 0 = unat (ie_vector (bcv (ipl ex_boot) ! c))"
    using menu_choice_boots_first[OF i, of "[- 1, 0x86, - 1, 3]" "[- 1, 3]" 2 "[]", OF _ _ ex_boot_menu, of ex_boot_env]
    by (auto simp: ex_boot_list ex_boot_drives ex_boot_ipl[THEN arg_cong, of bevcount] ex_boot_env_def roms_add_drives_def ex_bdisk_def CONFIG_MAX_EXTDRIVE_def)
  have ty: "ie_type (bev (ipl ex_boot) ! 0) = IPL_TYPE_FLOPPY" "ie_type (bev (ipl ex_boot) ! 1) = IPL_TYPE_HARDDISK"
    "ie_type (bev (ipl ex_boot) ! 2) = IPL_TYPE_CDROM" by (simp_all add: ex_boot_ipl own_entry_def)
  have "b \<noteq> 0" using r(4) ty by (intro notI) (simp add: item_text_def)
  moreover have "b \<noteq> 2" using r(4) ty by (intro notI) (simp add: item_text_def ipl_type_defs)
  ultimately have b: "b = 1" using r(2) by simp
  then have "c < 2" using r(3) ty by (simp add: item_count_def ipl_type_defs) (simp add: ex_boot_ipl)
  moreover have "c \<noteq> 0"
  proof
    assume "c = 0"
    then have "item_text (drives ex_bdisk) (ipl ex_boot) (bev (ipl ex_boot) ! b) c = Show_disk 5"
      using b ty by (simp add: item_text_def ipl_type_defs) (simp add: ex_boot_ipl own_entry_def)
    then show False using r(4) by simp
  qed
  ultimately have "c = 1" by simp
  then show ?thesis using r(1,5,6) b by (auto simp: ex_boot_ipl own_entry_def)
qed

theorem boot_tries_in_order_witness:
  "\<exists>s'. boot_prep ex_boot_env False [] ex_boot = Some s'
    \<and> map_boot_end bdisk (handle_19 ex_boot_env s') = try_all ex_boot_env (ipl ex_boot) 0 [0, 1] (bdisk s')"
proof -
  have i: "ipl ex_boot = fold (register ex_at) [Add_bcv_internal 7, Add_bcv_internal 5]
      (ipl (boot_setup ex_cmos \<lparr>ipl = undefined, boot_sequence = 0, bdisk = ex_bdisk\<rparr>))"
    by (simp add: ex_boot_def ex_boot0_def)
  obtain s' where s: "boot_prep ex_boot_env False [] ex_boot = Some s'" "ipl s' = ipl ex_boot"
    by (simp add: boot_prep_def interactive_bootmenu_def Let_def)
  show ?thesis using boot_tries_in_order[OF i s(1)] s ex_boot_list by auto
qed

theorem bcv_table_sorted_witness:
  "bcv_sorted ex_at (ipl ex_boot) \<and> ipl_ok (ipl ex_boot)"
proof -
  let ?rs = "[Add_bcv_internal 7, Add_bcv_internal 5]"
  have "d < 2 ^ 32" if "Add_bcv_internal d \<in> set ?rs" for d using that by auto
  from bcv_table_sorted[of ?rs ex_at ex_cmos "\<lparr>ipl = undefined, boot_sequence = 0, bdisk = ex_bdisk\<rparr>", OF this]
  show ?thesis by (simp add: ex_boot_def ex_boot0_def)
qed

text \<open>The same machine with the first drive in place and the hard disk first in the order.\<close>

definition ex_hd_boot :: "unit boot" where
  "ex_hd_boot = ex_boot\<lparr>ipl := (ipl ex_boot)\<lparr>bootorder := 2\<rparr>,
     bdisk := ex_bdisk\<lparr>drives := (drives ex_bdisk)\<lparr>idmap := (\<lambda>_. 5 # replicate 15 0)\<rparr>\<rparr>\<rparr>"

theorem boots_from_hard_disk_witness:
  "\<exists>d br. fst (hw d) (0x7c00 + of_nat 510) = 0x55
    \<and> map_boot_end bdisk (handle_19 ex_boot_env ex_hd_boot) = Runs 0 0x7c00 br d"
proof -
  let ?dr = "drive_at (drives (bdisk ex_hd_boot)) (idmap (drives (bdisk ex_hd_boot)) EXTTYPE_HD ! 0)"
  have l: "boot_list (ipl ex_hd_boot) = 1 # []"
    by (simp add: boot_list_def ex_hd_boot_def ex_boot_ipl digit_def upt_rec)
  have rd: "reads_blocks_at 512 64 ex_image 1000 {} (process_op (env_drv (be_disk ex_boot_env))) ?dr (snd (hw (bdisk ex_hd_boot)))"
    using ideal_reader_reads[of ?dr 512 64 ex_image 1000]
    by (simp add: reads_blocks_def ex_boot_env_def ex_hd_boot_def ex_bdisk_def ex_drive_def)
  have t: "bevcount (ipl ex_hd_boot) \<le> 8" "unat (bootorder (ipl ex_hd_boot)) < 2 ^ 16"
    "ie_type (bev (ipl ex_hd_boot) ! 1) = IPL_TYPE_HARDDISK"
    by (simp_all add: ex_hd_boot_def ex_boot_ipl own_entry_def)
  have h: "active (cdemu (bdisk ex_hd_boot)) = 0"
    "idmap (drives (bdisk ex_hd_boot)) EXTTYPE_HD ! 0 \<notin> {0, cdemu_drive (bdisk ex_hd_boot)}" "0 < capacity (lchs ?dr)"
    by (simp_all add: ex_hd_boot_def ex_bdisk_def capacity_def)
  have e: "be_entry ex_boot_env seg ip br d = None" for seg ip br d by (simp add: ex_boot_env_def)
  have i: "ex_image 510 = 0x55" "ex_image 511 = 0xaa" by (simp_all add: ex_image_def)
  obtain d br where r: "\<forall>i < 512. fst (hw d) (0x7c00 + of_nat i) = ex_image i"
    "map_boot_end bdisk (handle_19 ex_boot_env ex_hd_boot) = Runs 0 0x7c00 br d"
    using boots_from_hard_disk[OF t(1,2) l t(3) h rd] unfolding e i by auto
  then show ?thesis using r(1)[rule_format, of 510] i(1) by (intro exI[of _ d] exI[of _ br]) simp
qed

end
