(* ===== verification/Output.thy ===== *)
theory Output
  imports Bios_Util
begin

text \<open>
  \<open>bios/seabios/src/output.c\<close>: formatted output. The output functions are written over a state \<open>'s\<close>
  and the function \<open>putc\<close> that the action of the call holds; the instances are the debug port, the
  screen, and a buffer in memory (\<open>snprintf\<close>). A format is a string without its terminating zero;
  arguments are numbers or strings, and \<open>None\<close> stands for a call that takes an argument which was not
  passed or is of the other kind. The serial debug output is disabled in the configuration.
\<close>

datatype va_arg = Num u32 | Str string

section \<open>Numbers and strings\<close>

definition puts :: "(char \<Rightarrow> 's \<Rightarrow> 's) \<Rightarrow> string \<Rightarrow> 's \<Rightarrow> 's" where
  "puts putc cs s = fold putc cs s"

text \<open>The loop of \<open>putuint\<close>; \<open>acc\<close> holds the characters already stored, from \<open>d + 1\<close> on.\<close>

fun putuint_loop :: "nat \<Rightarrow> string \<Rightarrow> string" where
  "putuint_loop val acc =
     (let acc' = char_of (val mod 10 + 48) # acc; val' = val div 10
      in if val' = 0 then acc' else putuint_loop val' acc')"

declare putuint_loop.simps [simp del]

definition putuint :: "(char \<Rightarrow> 's \<Rightarrow> 's) \<Rightarrow> u32 \<Rightarrow> 's \<Rightarrow> 's" where
  "putuint putc val s = puts putc (putuint_loop (unat val) []) s"

definition hexchar :: "u32 \<Rightarrow> char" where
  "hexchar val = char_of (unat (if val \<le> 9 then 0x30 + val else 0x61 + val - 10))"

definition putsinglehex :: "(char \<Rightarrow> 's \<Rightarrow> 's) \<Rightarrow> u32 \<Rightarrow> 's \<Rightarrow> 's" where
  "putsinglehex putc val s = putc (hexchar val) s"

definition puthex_width :: "u32 \<Rightarrow> int" where
  "puthex_width val =
     (let (w1, t1) = (if val > 0xffff then (1 + 4, drop_bit 16 val) else (1, val));
          (w2, t2) = (if t1 > 0xff then (w1 + 2, drop_bit 8 t1) else (w1, t1))
      in if t2 > 0xf then w2 + 1 else w2)"

text \<open>The \<open>switch\<close> of \<open>puthex\<close> falls through from the case of the width down to case 1.\<close>

definition puthex_cases :: "int \<Rightarrow> nat" where
  "puthex_cases width = (if width \<in> {1..7} then nat width else 8)"

definition puthex :: "(char \<Rightarrow> 's \<Rightarrow> 's) \<Rightarrow> u32 \<Rightarrow> int \<Rightarrow> 's \<Rightarrow> 's" where
  "puthex putc val width s =
     (let w = (if width = 0 then puthex_width val else width)
      in fold (\<lambda>i. putsinglehex putc (drop_bit (4 * i) val AND 0xf)) (rev [0..<puthex_cases w]) s)"

definition isdigit :: "char \<Rightarrow> bool" where
  "isdigit c = ((of_nat (of_char c) :: u8) - 0x30 < 10)"

section \<open>Formats\<close>

fun scan_width :: "string \<Rightarrow> int \<Rightarrow> int \<times> string" where
  "scan_width (c # n) w = (if isdigit c then scan_width n (w * 10 + of_char c - 48) else (w, c # n))"
| "scan_width [] w = (w, [])"

lemma scan_width_length: "length (snd (scan_width n w)) \<le> length n"
  by (induction n w rule: scan_width.induct) auto

definition skip_l :: "string \<Rightarrow> string" where
  "skip_l n = (case n of c # n' \<Rightarrow> if c = CHR ''l'' then n' else n | [] \<Rightarrow> [])"

lemma skip_l_length: "length (skip_l n) \<le> length n"
  by (auto simp: skip_l_def split: list.split)

definition take_num :: "va_arg list \<Rightarrow> (u32 \<times> va_arg list) option" where
  "take_num args = (case args of Num v # as \<Rightarrow> Some (v, as) | _ \<Rightarrow> None)"

definition take_str :: "va_arg list \<Rightarrow> (string \<times> va_arg list) option" where
  "take_str args = (case args of Str v # as \<Rightarrow> Some (v, as) | _ \<Rightarrow> None)"

definition put_int :: "(char \<Rightarrow> 's \<Rightarrow> 's) \<Rightarrow> u32 \<Rightarrow> 's \<Rightarrow> 's" where
  "put_int putc val s =
     (if sint val < 0 then putuint putc (- val) (putc (CHR ''-'') s) else putuint putc val s)"

text \<open>
  One conversion, after the \<open>%\<close>: \<open>rest\<close> is the format after it. The result is the format to continue
  with, the remaining arguments and the state.
\<close>

definition conversion ::
  "(char \<Rightarrow> 's \<Rightarrow> 's) \<Rightarrow> string \<Rightarrow> va_arg list \<Rightarrow> 's \<Rightarrow> (string \<times> va_arg list \<times> 's) option" where
  "conversion putc rest args s =
     (let (width, n0) = scan_width rest 0; n = skip_l n0 in
      case n of
        [] \<Rightarrow> Some (rest, args, putc (CHR ''%'') s)
      | c # r \<Rightarrow>
          if c = CHR ''%'' then Some (r, args, putc (CHR ''%'') s)
          else if c = CHR ''d'' then map_option (\<lambda>(v, as). (r, as, put_int putc v s)) (take_num args)
          else if c = CHR ''u'' then map_option (\<lambda>(v, as). (r, as, putuint putc v s)) (take_num args)
          else if c = CHR ''p'' then
            map_option (\<lambda>(v, as). (r, as, puthex putc v 8 (putc (CHR ''x'') (putc (CHR ''0'') s)))) (take_num args)
          else if c = CHR ''x'' then map_option (\<lambda>(v, as). (r, as, puthex putc v width s)) (take_num args)
          else if c = CHR ''c'' then map_option (\<lambda>(v, as). (r, as, putc (char_of (unat v)) s)) (take_num args)
          else if c = CHR ''.'' then
            (case r of [] \<Rightarrow> Some (r, args, s)
             | c2 # r2 \<Rightarrow> if c2 \<noteq> CHR ''s'' then Some (r, args, s)
                         else map_option (\<lambda>(v, as). (r2, as, puts putc v s)) (take_str args))
          else if c = CHR ''s'' then map_option (\<lambda>(v, as). (r, as, puts putc v s)) (take_str args)
          else Some (rest, args, putc (CHR ''%'') s))"

lemma conversion_length:
  assumes "conversion putc rest args s = Some (r, as, s')"
  shows "length r \<le> length rest"
proof -
  obtain w n0 where w: "scan_width rest 0 = (w, n0)" by fastforce
  have "length (skip_l n0) \<le> length rest" using scan_width_length[of rest 0] skip_l_length[of n0] w by simp
  then show ?thesis using assms
    by (auto simp: conversion_def w split: list.splits if_splits)
qed

function bvprintf :: "(char \<Rightarrow> 's \<Rightarrow> 's) \<Rightarrow> string \<Rightarrow> va_arg list \<Rightarrow> 's \<Rightarrow> 's option" where
  "bvprintf putc [] args s = Some s"
| "bvprintf putc (c # rest) args s =
     (if c \<noteq> CHR ''%'' then bvprintf putc rest args (putc c s)
      else case conversion putc rest args s of
             None \<Rightarrow> None
           | Some (r, as, s') \<Rightarrow> bvprintf putc r as s')"
  by pat_completeness auto
termination
  by (relation "measure (\<lambda>(putc, fmt, args, s). length fmt)") (auto dest: conversion_length)

section \<open>Where the characters go\<close>

text \<open>The debug port (402h) and the screen (interrupt 10h, function 0Eh).\<close>

record console =
  debug_port :: string
  screen :: string

definition putc_debug :: "char \<Rightarrow> console \<Rightarrow> console" where
  "putc_debug c s = s\<lparr>debug_port := debug_port s @ [c]\<rparr>"

definition screenc :: "char \<Rightarrow> console \<Rightarrow> console" where
  "screenc c s = s\<lparr>screen := screen s @ [c]\<rparr>"

definition putc_screen :: "char \<Rightarrow> console \<Rightarrow> console" where
  "putc_screen c s0 =
     (let s = putc_debug c s0; s1 = (if c = CHR 0x0A then screenc (CHR 0x0D) s else s) in screenc c s1)"

definition printf :: "string \<Rightarrow> va_arg list \<Rightarrow> console \<Rightarrow> console option" where
  "printf fmt args s = bvprintf putc_screen fmt args s"

definition dprintf :: "string \<Rightarrow> va_arg list \<Rightarrow> console \<Rightarrow> console option" where
  "dprintf fmt args s = bvprintf putc_debug fmt args s"

text \<open>A buffer: the next position, the end, and memory.\<close>

record snprintfinfo =
  si_str :: u32
  si_end :: u32
  si_mem :: memory

definition putc_str :: "char \<Rightarrow> snprintfinfo \<Rightarrow> snprintfinfo" where
  "putc_str c i =
     (if si_str i \<ge> si_end i then i
      else i\<lparr>si_mem := (si_mem i)(si_str i := of_nat (of_char c)), si_str := si_str i + 1\<rparr>)"

definition snprintf :: "u32 \<Rightarrow> u32 \<Rightarrow> string \<Rightarrow> va_arg list \<Rightarrow> memory \<Rightarrow> (u32 \<times> memory) option" where
  "snprintf str sz fmt args m =
     (if sz = 0 then Some (0, m)
      else map_option (\<lambda>i.
             let e = (if si_str i \<ge> si_end i then si_end i - 1 else si_str i)
             in (e - str, (si_mem i)(e := 0)))
           (bvprintf putc_str fmt args \<lparr>si_str = str, si_end = str + sz, si_mem = m\<rparr>))"

text \<open>\<open>hexdump\<close> of a list of words.\<close>

fun hexdump_loop :: "u32 list \<Rightarrow> nat \<Rightarrow> console \<Rightarrow> console" where
  "hexdump_loop [] count s = s"
| "hexdump_loop (d # ds) count s =
     hexdump_loop ds (Suc count) (puthex putc_debug d 8
       (if count mod 8 = 0
        then putc_debug (CHR '':'') (puthex putc_debug (of_nat (count * 4)) 8 (putc_debug (CHR 0x0A) s))
        else putc_debug (CHR '' '') s))"

definition hexdump :: "u32 list \<Rightarrow> console \<Rightarrow> console" where
  "hexdump ds s = putc_debug (CHR 0x0A) (hexdump_loop ds 0 s)"

section \<open>The text of a format\<close>

text \<open>Output into a list of characters: the text that a format stands for.\<close>

definition format :: "string \<Rightarrow> va_arg list \<Rightarrow> string option" where
  "format fmt args = bvprintf (\<lambda>c cs. cs @ [c]) fmt args []"

definition puthex_str :: "u32 \<Rightarrow> int \<Rightarrow> string" where
  "puthex_str val width = map (\<lambda>i. hexchar (drop_bit (4 * i) val AND 0xf))
     (rev [0..<puthex_cases (if width = 0 then puthex_width val else width)])"

lemma fold_snoc [simp]: "fold (\<lambda>c cs. cs @ [c]) xs acc = acc @ xs"
  by (induction xs arbitrary: acc) simp_all

definition int_str :: "u32 \<Rightarrow> string" where
  "int_str v = (if sint v < 0 then CHR ''-'' # putuint_loop (unat (- v)) [] else putuint_loop (unat v) [])"

lemma put_folds:
  "puts putc cs s = fold putc cs s" "putuint putc v s = fold putc (putuint_loop (unat v) []) s"
  "put_int putc v s = fold putc (int_str v) s"
  by (simp_all add: puts_def putuint_def put_int_def int_str_def)

lemma puthex_fold: "puthex putc val width s = fold putc (puthex_str val width) s"
proof -
  have "putsinglehex putc = (\<lambda>v. putc (hexchar v))" by (intro ext) (simp add: putsinglehex_def)
  then show ?thesis by (simp add: puthex_def puthex_str_def fold_map comp_def Let_def)
qed

lemma conversion_fold:
  "conversion putc rest args s =
     map_option (\<lambda>(r, as, cs). (r, as, fold putc cs s)) (conversion (\<lambda>c cs. cs @ [c]) rest args [])"
proof -
  obtain w n0 where w: "scan_width rest 0 = (w, n0)" by fastforce
  show ?thesis
  proof (cases "skip_l n0")
    case Nil
    then show ?thesis by (simp add: conversion_def w)
  next
    case (Cons c r)
    show ?thesis unfolding conversion_def w Let_def prod.case Cons list.case
      by (cases r) (simp_all add: put_folds puthex_fold option.map_comp comp_def split_def)
  qed
qed

lemma map_option_append: "map_option ((@) xs) (map_option ((@) ys) z) = map_option ((@) (xs @ ys)) z"
  by (cases z) simp_all

lemma bvprintf_snoc:
  "bvprintf (\<lambda>c cs. cs @ [c]) fmt args acc = map_option ((@) acc) (bvprintf (\<lambda>c cs. cs @ [c]) fmt args [])"
proof (induction "length fmt" arbitrary: fmt args acc rule: less_induct)
  case less
  show ?case
  proof (cases fmt)
    case (Cons c rest)
    show ?thesis
    proof (cases "c = CHR ''%''")
      case False
      have "bvprintf (\<lambda>c cs. cs @ [c]) rest args x = map_option ((@) x) (bvprintf (\<lambda>c cs. cs @ [c]) rest args [])" for x
        by (rule less) (simp add: Cons)
      from this[of "acc @ [c]"] this[of "[c]"] show ?thesis using Cons False by (simp add: map_option_append)
    next
      case True
      show ?thesis
      proof (cases "conversion (\<lambda>c cs. cs @ [c]) rest args []")
        case None
        then show ?thesis using Cons True conversion_fold[of "\<lambda>c cs. cs @ [c]" rest args acc] by simp
      next
        case (Some z)
        obtain r as cs where z: "z = (r, as, cs)" using prod_cases3 by blast
        have "length r < length fmt" using conversion_length[OF Some[unfolded z]] Cons by simp
        then have ih: "bvprintf (\<lambda>c cs. cs @ [c]) r as x = map_option ((@) x) (bvprintf (\<lambda>c cs. cs @ [c]) r as [])" for x
          by (rule less)
        show ?thesis using Cons True Some z conversion_fold[of "\<lambda>c cs. cs @ [c]" rest args acc] ih[of "acc @ cs"] ih[of cs]
          by (simp add: map_option_append)
      qed
    qed
  qed simp
qed

text \<open>Every output function produces the same text.\<close>

lemma bvprintf_format: "bvprintf putc fmt args s = map_option (\<lambda>cs. fold putc cs s) (format fmt args)"
proof (induction "length fmt" arbitrary: fmt args s rule: less_induct)
  case less
  show ?case
  proof (cases fmt)
    case (Cons c rest)
    show ?thesis
    proof (cases "c = CHR ''%''")
      case False
      then show ?thesis using Cons less[of rest args "putc c s"] bvprintf_snoc[of rest args "[c]"]
        by (simp add: format_def option.map_comp comp_def)
    next
      case True
      show ?thesis
      proof (cases "conversion (\<lambda>c cs. cs @ [c]) rest args []")
        case None
        then show ?thesis using Cons True conversion_fold[of putc rest args s] by (simp add: format_def)
      next
        case (Some z)
        obtain r as cs where z: "z = (r, as, cs)" using prod_cases3 by blast
        have "length r < length fmt" using conversion_length[OF Some[unfolded z]] Cons by simp
        from less[OF this, of as "fold putc cs s"] show ?thesis
          using Cons True Some z conversion_fold[of putc rest args s] bvprintf_snoc[of r as cs]
          by (simp add: format_def option.map_comp comp_def)
      qed
    qed
  qed (simp add: format_def)
qed

section \<open>Numbers\<close>

text \<open>The value of a numeral, in base 10 or 16.\<close>

definition digit_value :: "char \<Rightarrow> nat" where
  "digit_value c = (let n = of_char c in if n \<ge> 97 then n - 87 else n - 48)"

definition numeral_value :: "nat \<Rightarrow> string \<Rightarrow> nat" where
  "numeral_value b cs = foldl (\<lambda>n c. b * n + digit_value c) 0 cs"

lemma digit_value_dec: "d < 10 \<Longrightarrow> digit_value (char_of (d + 48 :: nat)) = d"
  by (simp add: digit_value_def Let_def)

lemma putuint_loop_spec:
  "\<exists>cs. putuint_loop v acc = cs @ acc \<and> numeral_value 10 cs = v \<and> (\<forall>c \<in> set cs. c \<in> set ''0123456789'') \<and> cs \<noteq> []
     \<and> (hd cs = CHR ''0'' \<longrightarrow> v = 0) \<and> (v < 10 ^ n \<longrightarrow> 0 < n \<longrightarrow> length cs \<le> n)"
proof (induction v acc arbitrary: n rule: putuint_loop.induct)
  case (1 v acc)
  let ?c = "char_of (v mod 10 + 48 :: nat) :: char"
  have dig: "d < 10 \<Longrightarrow> (char_of (d + 48 :: nat) :: char) \<in> set ''0123456789''" for d :: nat
  proof -
    assume "d < 10"
    then have "d \<in> {0, 1, 2, 3, 4, 5, 6, 7, 8, 9}" by auto
    then show ?thesis by (elim insertE) (simp_all add: char_of_def bit_0)
  qed
  have c: "digit_value ?c = v mod 10" "?c \<in> set ''0123456789''" using digit_value_dec[of "v mod 10"] dig[of "v mod 10"] by simp_all
  show ?case
  proof (cases "v div 10 = 0")
    case True
    then have v: "v < 10" by simp
    have "?c = CHR ''0'' \<Longrightarrow> v = 0" using c(1) v by (simp add: digit_value_def)
    then show ?thesis using True v c by (intro exI[of _ "[?c]"]) (simp add: putuint_loop.simps numeral_value_def)
  next
    case False
    obtain cs where cs: "putuint_loop (v div 10) (?c # acc) = cs @ ?c # acc" "numeral_value 10 cs = v div 10"
      "\<forall>c \<in> set cs. c \<in> set ''0123456789''" "cs \<noteq> []" "hd cs = CHR ''0'' \<longrightarrow> v div 10 = 0"
      "v div 10 < 10 ^ (n - 1) \<longrightarrow> 0 < n - 1 \<longrightarrow> length cs \<le> n - 1"
      using 1[OF refl refl False, of "n - 1"] by auto
    have "numeral_value 10 (cs @ [?c]) = v" using cs(2) c(1) by (simp add: numeral_value_def)
    moreover have "length (cs @ [?c]) \<le> n" if lt: "v < 10 ^ n" and pos: "0 < n"
    proof -
      obtain k where k: "n = Suc k" using pos by (cases n) auto
      have "v div 10 < 10 ^ k" using lt unfolding k by (intro div_less_iff_less_mult[THEN iffD2]) (simp_all add: mult.commute)
      moreover have "0 < k" using calculation False by (cases k) auto
      ultimately show ?thesis using cs(6) k by simp
    qed
    ultimately show ?thesis using False cs c
      by (intro exI[of _ "cs @ [?c]"]) (simp add: putuint_loop.simps[of v acc] Let_def)
  qed
qed

lemma foldl_numeral: "foldl (\<lambda>n c. b * n + digit_value c) a cs = a * b ^ length cs + numeral_value b cs"
proof (induction cs arbitrary: a)
  case (Cons c cs)
  show ?case using Cons[of "b * a + digit_value c"] Cons[of "digit_value c"]
    by (simp add: numeral_value_def algebra_simps)
qed (simp add: numeral_value_def)

lemma hexchar_value: "unat x < 16 \<Longrightarrow> digit_value (hexchar x) = unat x"
proof -
  assume x: "unat x < 16"
  show "digit_value (hexchar x) = unat x"
  proof (cases "x \<le> 9")
    case True
    then have "unat x \<le> 9" by (simp add: word_le_nat_alt)
    moreover have "unat (0x30 + x) = 48 + unat x" using x by (subst unat_add_nowrap) simp_all
    ultimately show ?thesis using True by (simp add: hexchar_def digit_value_def Let_def)
  next
    case False
    then have gt: "9 < unat x" by (simp add: word_le_nat_alt)
    have "unat (0x57 + x) = 87 + unat x" using x by (subst unat_add_nowrap) simp_all
    moreover have "0x61 + x - 10 = 0x57 + x" by simp
    ultimately have "unat (0x61 + x - 10) = 87 + unat x" by simp
    then show ?thesis using False gt x by (simp add: hexchar_def digit_value_def Let_def)
  qed
qed

lemma unat_nibble: "unat (drop_bit (4 * i) v AND 0xf) = unat v div 16 ^ i mod 16" for v :: u32
proof -
  have "(0xf :: u32) = mask 4" by (simp add: mask_eq_exp_minus_1)
  then have "unat (drop_bit (4 * i) v AND 0xf) = take_bit 4 (unat (drop_bit (4 * i) v))"
    by (simp only: take_bit_eq_mask[symmetric] unsigned_take_bit_eq)
  also have "\<dots> = unat v div 2 ^ (4 * i) mod 2 ^ 4" by (simp only: take_bit_eq_mod unat_drop_bit_div)
  finally show ?thesis by (simp add: power_mult)
qed

lemma numeral_value_hex:
  "numeral_value 16 (map (\<lambda>i. hexchar (drop_bit (4 * i) v AND 0xf)) (rev [0..<k])) = unat v mod 16 ^ k" for v :: u32
proof (induction k)
  case (Suc k)
  let ?f = "\<lambda>i. hexchar (drop_bit (4 * i) v AND 0xf)"
  have "numeral_value 16 (map ?f (rev [0..<Suc k])) = digit_value (?f k) * 16 ^ k + numeral_value 16 (map ?f (rev [0..<k]))"
    using foldl_numeral[of 16 "digit_value (?f k)" "map ?f (rev [0..<k])"] by (simp add: numeral_value_def)
  also have "digit_value (?f k) = unat v div 16 ^ k mod 16" using hexchar_value[of "drop_bit (4 * k) v AND 0xf"] by (simp add: unat_nibble)
  finally have "numeral_value 16 (map ?f (rev [0..<Suc k])) = 16 ^ k * (unat v div 16 ^ k mod 16) + unat v mod 16 ^ k"
    unfolding Suc by (simp only: mult.commute)
  then show ?case unfolding power_Suc2 mod_mult2_eq .
qed (simp add: numeral_value_def)

lemma puthex_width_fits:
  "1 \<le> puthex_width v" "puthex_width v \<le> 8" "unat v < 16 ^ nat (puthex_width v)"
  "puthex_width v > 1 \<Longrightarrow> 16 ^ nat (puthex_width v - 1) \<le> unat v"
proof -
  have d16: "unat (drop_bit 16 v) = unat v div 65536" and d8: "unat (drop_bit 8 v) = unat v div 256"
    and d24: "unat (drop_bit 24 v) = unat v div 16777216"
    using unat_drop_bit_div[of 16 v] unat_drop_bit_div[of 8 v] unat_drop_bit_div[of 24 v] by simp_all
  have b: "unat v < 4294967296" using unat_lt_2p[of v] by simp
  have g: "(unat v div 65536 > 255) = (unat v \<ge> 16777216)" "(unat v div 16777216 > 15) = (unat v \<ge> 268435456)"
    "(unat v div 65536 > 15) = (unat v \<ge> 1048576)" "(unat v div 256 > 15) = (unat v \<ge> 4096)"
    by (auto simp: not_le[symmetric] less_eq_div_iff_mult_less_eq Suc_le_eq[symmetric])
  show "1 \<le> puthex_width v" "puthex_width v \<le> 8" by (simp_all add: puthex_width_def Let_def)
  show "unat v < 16 ^ nat (puthex_width v)" "puthex_width v > 1 \<Longrightarrow> 16 ^ nat (puthex_width v - 1) \<le> unat v"
    using b by (auto simp: puthex_width_def Let_def word_less_nat_alt d16 d8 d24 g split: if_splits)
qed

lemma puthex_str_minimal:
  "numeral_value 16 (puthex_str v 0) = unat v" "length (puthex_str v 0) = nat (puthex_width v)"
  "v \<noteq> 0 \<Longrightarrow> hd (puthex_str v 0) \<noteq> CHR ''0''"
proof -
  note w = puthex_width_fits[of v]
  have k: "puthex_cases (puthex_width v) = nat (puthex_width v)" using w(1,2) by (auto simp: puthex_cases_def)
  have s: "puthex_str v 0 = map (\<lambda>i. hexchar (drop_bit (4 * i) v AND 0xf)) (rev [0..<nat (puthex_width v)])"
    by (simp add: puthex_str_def k)
  show "numeral_value 16 (puthex_str v 0) = unat v" unfolding s numeral_value_hex using w(3) by simp
  show "length (puthex_str v 0) = nat (puthex_width v)" by (simp add: s)
  assume v: "v \<noteq> 0"
  define k where "k = nat (puthex_width v) - 1"
  have nk: "nat (puthex_width v) = Suc k" using w(1) by (simp add: k_def)
  have "hd (puthex_str v 0) = hexchar (drop_bit (4 * k) v AND 0xf)" by (simp add: s nk)
  then have d: "digit_value (hd (puthex_str v 0)) = unat v div 16 ^ k mod 16"
    using hexchar_value[of "drop_bit (4 * k) v AND 0xf"] by (simp add: unat_nibble)
  have "16 ^ k \<le> unat v"
  proof (cases "k = 0")
    case True
    have "0 < unat v" using v by (simp add: word_eq_iff_unat)
    with True show ?thesis by simp
  next
    case False
    then have "puthex_width v > 1" "nat (puthex_width v - 1) = k" using nk by simp_all
    then show ?thesis using w(4) by simp
  qed
  moreover have "unat v < 16 ^ k * 16" using w(3) unfolding nk by simp
  ultimately have "0 < unat v div 16 ^ k" "unat v div 16 ^ k < 16"
    by (simp_all add: div_greater_zero_iff div_less_iff_less_mult mult.commute)
  then have "digit_value (hd (puthex_str v 0)) \<noteq> 0" unfolding d by simp
  then show "hd (puthex_str v 0) \<noteq> CHR ''0''" by (auto simp: digit_value_def)
qed

lemma format_number:
  "format ''%u'' [Num v] = Some (putuint_loop (unat v) [])" "format ''%d'' [Num v] = Some (int_str v)"
  "format ''%x'' [Num v] = Some (puthex_str v 0)"
  by (simp_all add: format_def conversion_def isdigit_def skip_l_def take_num_def put_folds puthex_fold)

text \<open>
  Printed numbers can be read back: \<open>%u\<close> and \<open>%x\<close> print a decimal and a hexadecimal numeral of
  the value without leading zeros, of at most 10 and 8 digits (so that the buffer of \<open>putuint\<close> is
  large enough), and \<open>%d\<close> prints the signed value with a minus sign, down to the least one.
\<close>

theorem printed_numbers_read_back:
  "\<exists>t x d. format ''%u'' [Num v] = Some t \<and> format ''%x'' [Num v] = Some x \<and> format ''%d'' [Num v] = Some d
     \<and> numeral_value 10 t = unat v \<and> length t \<le> 10 \<and> (v \<noteq> 0 \<longrightarrow> hd t \<noteq> CHR ''0'')
     \<and> numeral_value 16 x = unat v \<and> length x \<le> 8 \<and> (v \<noteq> 0 \<longrightarrow> hd x \<noteq> CHR ''0'')
     \<and> (if sint v < 0 then hd d = CHR ''-'' \<and> int (numeral_value 10 (tl d)) = - sint v
        else int (numeral_value 10 d) = sint v)"
proof -
  have b: "unat v < 4294967296" using unat_lt_2p[of v] by simp
  have u: "numeral_value 10 (putuint_loop n []) = n" "n < 10 ^ 10 \<Longrightarrow> length (putuint_loop n []) \<le> 10"
    "n \<noteq> 0 \<Longrightarrow> hd (putuint_loop n []) \<noteq> CHR ''0''" for n
    using putuint_loop_spec[of n "[]" 10] by auto
  have neg: "int (unat (- v)) = - sint v" if "sint v < 0"
  proof -
    have "sint v \<ge> - (2 ^ 31)" using sint_greater_eq[of v] by simp
    moreover have "- v = word_of_int (- sint v)" by (simp only: of_int_minus of_int_sint scast_id)
    then have "uint (- v) = - sint v mod 2 ^ 32" by (simp only: uint_word_of_int) simp
    ultimately have "uint (- v) = - sint v" using that by simp
    then show ?thesis by simp
  qed
  have pos: "int (unat v) = sint v" if "\<not> sint v < 0"
  proof -
    have "sint v < 2 ^ 31" using sint_less[of v] by simp
    moreover have "uint (word_of_int (sint v) :: u32) = sint v mod 2 ^ 32" unfolding uint_word_of_int by simp
    then have "uint v = sint v mod 2 ^ 32" unfolding of_int_sint scast_id .
    ultimately have "uint v = sint v" using that by simp
    then show ?thesis by simp
  qed
  have "hd (int_str v) = CHR ''-'' \<and> int (numeral_value 10 (tl (int_str v))) = - sint v" if "sint v < 0"
    using that neg u(1) by (simp add: int_str_def)
  moreover have "int (numeral_value 10 (int_str v)) = sint v" if "\<not> sint v < 0"
    using that pos u(1) by (simp add: int_str_def)
  moreover have "v \<noteq> 0 \<Longrightarrow> unat v \<noteq> 0" by (simp add: word_eq_iff_unat)
  ultimately show ?thesis unfolding format_number
    using u[of "unat v"] b puthex_str_minimal[of v] puthex_width_fits(2)[of v] by auto
qed

theorem printed_numbers_read_back_witness:
  "\<exists>t d. format ''%u'' [Num 0x80000000] = Some t \<and> format ''%d'' [Num 0x80000000] = Some d
     \<and> numeral_value 10 t = 2147483648 \<and> hd t \<noteq> CHR ''0'' \<and> int (numeral_value 10 (tl d)) = 2147483648"
  using printed_numbers_read_back[of "0x80000000"] by auto

section \<open>Formatting into a buffer\<close>

text \<open>After the characters \<open>cs\<close>, at most \<open>n\<close> of them are in the buffer at \<open>p\<close>.\<close>

lemma putc_str_fold:
  assumes "unat p + n < 2 ^ 32"
  shows "si_str (fold putc_str cs \<lparr>si_str = p, si_end = p + of_nat n, si_mem = m\<rparr>) = p + of_nat (min (length cs) n)
    \<and> si_end (fold putc_str cs \<lparr>si_str = p, si_end = p + of_nat n, si_mem = m\<rparr>) = p + of_nat n
    \<and> (\<forall>i < min (length cs) n. si_mem (fold putc_str cs \<lparr>si_str = p, si_end = p + of_nat n, si_mem = m\<rparr>) (p + of_nat i)
        = of_nat (of_char (cs ! i)))
    \<and> (\<forall>a. (\<forall>i < min (length cs) n. a \<noteq> p + of_nat i) \<longrightarrow>
        si_mem (fold putc_str cs \<lparr>si_str = p, si_end = p + of_nat n, si_mem = m\<rparr>) a = m a)"
proof (induction cs rule: rev_induct)
  case (snoc c cs)
  let ?s = "fold putc_str cs \<lparr>si_str = p, si_end = p + of_nat n, si_mem = m\<rparr>"
  have u: "unat (p + of_nat i) = unat p + i" if "i \<le> n" for i
    using that assms by (subst unat_add_nowrap) (simp_all add: unat_of_nat_32)
  have ne: "p + of_nat i \<noteq> p + of_nat j" if "i < j" "j \<le> n" for i j
    using u[of i] u[of j] that by (metis add_left_cancel less_imp_le_nat less_irrefl_nat order_trans)
  show ?case
  proof (cases "length cs < n")
    case True
    note s = snoc.IH[THEN conjunct1] snoc.IH[THEN conjunct2, THEN conjunct1]
    note c = snoc.IH[THEN conjunct2, THEN conjunct2, THEN conjunct1, rule_format]
    note fr = snoc.IH[THEN conjunct2, THEN conjunct2, THEN conjunct2, rule_format]
    have l: "min (length cs) n = length cs" "min (length (cs @ [c])) n = Suc (length cs)" using True by simp_all
    have lt: "\<not> si_str ?s \<ge> si_end ?s"
      unfolding s l(1) using True u[of "length cs"] u[of n] by (simp add: word_le_nat_alt)
    have f: "fold putc_str (cs @ [c]) \<lparr>si_str = p, si_end = p + of_nat n, si_mem = m\<rparr>
        = ?s\<lparr>si_mem := (si_mem ?s)(p + of_nat (length cs) := of_nat (of_char c)), si_str := p + of_nat (length cs) + 1\<rparr>"
      using lt unfolding fold_append comp_apply fold_simps putc_str_def if_not_P[OF lt] s(1) l(1) by simp
    have "((si_mem ?s)(p + of_nat (length cs) := of_nat (of_char c))) (p + of_nat i) = of_nat (of_char ((cs @ [c]) ! i))"
      if "i < Suc (length cs)" for i
    proof (cases "i = length cs")
      case False
      then show ?thesis using that ne[of i "length cs"] True c[of i] by (simp add: nth_append l(1))
    qed simp
    moreover have "((si_mem ?s)(p + of_nat (length cs) := of_nat (of_char c))) a = m a"
      if "\<forall>i < Suc (length cs). a \<noteq> p + of_nat i" for a
      using that fr[of a] by (simp add: l(1))
    ultimately show ?thesis unfolding f l(2) by (simp add: s algebra_simps)
  next
    case False
    then have "si_str ?s \<ge> si_end ?s" using snoc by simp
    then have f: "fold putc_str (cs @ [c]) \<lparr>si_str = p, si_end = p + of_nat n, si_mem = m\<rparr> = ?s" by (simp add: putc_str_def)
    show ?thesis unfolding f using snoc False by (simp add: nth_append min_def)
  qed
qed simp

lemma snprintf_spec:
  assumes "0 < unat sz" "unat str + unat sz < 2 ^ 32" "format fmt args = Some cs"
  defines "k \<equiv> min (length cs) (unat sz - 1)"
  shows "\<exists>m'. snprintf str sz fmt args m = Some (of_nat k, m')
    \<and> (\<forall>i < k. m' (str + of_nat i) = of_nat (of_char (cs ! i))) \<and> m' (str + of_nat k) = 0
    \<and> (\<forall>a. (\<forall>i < unat sz. a \<noteq> str + of_nat i) \<longrightarrow> m' a = m a)"
proof -
  let ?n = "unat sz" and ?l = "min (length cs) (unat sz)"
  let ?s = "fold putc_str cs \<lparr>si_str = str, si_end = str + of_nat ?n, si_mem = m\<rparr>"
  have u: "unat (str + of_nat i) = unat str + i" if "i \<le> ?n" for i
    using that assms(2) by (subst unat_add_nowrap) (simp_all add: unat_of_nat_32)
  have ne: "str + of_nat i \<noteq> str + of_nat j" if "i < j" "j \<le> ?n" for i j
    using u[of i] u[of j] that by (metis add_left_cancel less_imp_le_nat less_irrefl_nat order_trans)
  note f = putc_str_fold[OF assms(2), of cs m]
  have e: "(if si_str ?s \<ge> si_end ?s then si_end ?s - 1 else si_str ?s) = str + of_nat k"
  proof (cases "length cs < ?n")
    case True
    then have "\<not> si_str ?s \<ge> si_end ?s" using f u[of "length cs"] u[of ?n] by (simp add: word_le_nat_alt)
    moreover have "k = length cs" "min (length cs) ?n = length cs" using True by (simp_all add: k_def)
    ultimately show ?thesis using f by (simp only: if_False)
  next
    case False
    then have m: "k = ?n - 1" "min (length cs) ?n = ?n" by (simp_all add: k_def)
    have "str + of_nat ?n - 1 = str + of_nat k" using assms(1) unfolding m(1) by (simp add: of_nat_diff)
    moreover have "si_str ?s = si_end ?s" "si_end ?s = str + of_nat ?n" using f unfolding m(2) by simp_all
    ultimately show ?thesis by simp
  qed
  have s: "snprintf str sz fmt args m = Some (of_nat k, (si_mem ?s)(str + of_nat k := 0))"
  proof -
    have "sz \<noteq> 0" using assms(1) by auto
    moreover have n: "of_nat ?n = sz" by simp
    ultimately show ?thesis unfolding snprintf_def bvprintf_format assms(3) option.map Let_def e[unfolded n] n by simp
  qed
  have k: "k < ?n" "k \<le> ?l" using assms(1) by (auto simp: k_def)
  have "((si_mem ?s)(str + of_nat k := 0)) (str + of_nat i) = of_nat (of_char (cs ! i))" if "i < k" for i
    using f that k ne[of i k] by simp
  moreover have "((si_mem ?s)(str + of_nat k := 0)) a = m a" if "\<forall>i < ?n. a \<noteq> str + of_nat i" for a
    using f that k by auto
  ultimately show ?thesis using s by auto
qed

text \<open>
  C19. \<open>snprintf\<close> stays within its buffer: it stores the text of the format, cut to one less than the
  size, and a zero after it, returns the number of characters stored, and changes no other byte.
\<close>

theorem snprintf_truncates:
  assumes "0 < unat sz" "unat str + unat sz < 2 ^ 32" "format fmt args = Some cs"
  defines "k \<equiv> min (length cs) (unat sz - 1)"
  shows "\<exists>m'. snprintf str sz fmt args m = Some (of_nat k, m')
    \<and> (\<forall>i < k. m' (str + of_nat i) = of_nat (of_char (cs ! i))) \<and> m' (str + of_nat k) = 0
    \<and> (\<forall>a. (\<forall>i < unat sz. a \<noteq> str + of_nat i) \<longrightarrow> m' a = m a)"
  using snprintf_spec[OF assms(1-3)] by (simp add: k_def)

theorem snprintf_truncates_witness:
  "\<exists>m'. snprintf 0x1000 4 ''%d%%'' [Num 12345] (\<lambda>_. 0xff) = Some (3, m')
     \<and> m' 0x1000 = 0x31 \<and> m' 0x1002 = 0x33 \<and> m' 0x1003 = 0 \<and> m' 0x1004 = 0xff"
proof -
  have f: "format ''%d%%'' [Num 12345] = Some ''12345%''"
    by (simp add: format_def conversion_def isdigit_def skip_l_def take_num_def put_folds int_str_def putuint_loop.simps char_of_def bit_0)
  obtain m' where m: "snprintf 0x1000 4 ''%d%%'' [Num 12345] (\<lambda>_. 0xff) = Some (of_nat 3, m')"
    "\<forall>i < 3. m' (0x1000 + of_nat i) = of_nat (of_char (''12345%'' ! i))" "m' (0x1000 + of_nat 3) = 0"
    "\<forall>a. (\<forall>i < 4. a \<noteq> 0x1000 + of_nat i) \<longrightarrow> m' a = 0xff"
    using snprintf_truncates[of 4 "0x1000" "''%d%%''" "[Num 12345]" "''12345%''" "\<lambda>_. 0xff"] f by auto
  have "m' 0x1000 = 0x31" "m' 0x1002 = 0x33" using m(2)[rule_format, of 0] m(2)[rule_format, of 2] by simp_all
  moreover have "m' 0x1004 = 0xff"
  proof (rule m(4)[rule_format])
    fix i :: nat assume "i < 4"
    then have "i \<in> {0, 1, 2, 3}" by auto
    then show "(0x1004 :: u32) \<noteq> 0x1000 + of_nat i" by auto
  qed
  ultimately show ?thesis using m(1,3) by auto
qed

end
