(* ===== verification/Mouse.thy ===== *)
theory Mouse
  imports Bios_Util Bregs
begin

text \<open>
  \<open>bios/seabios/src/mouse.c\<close>: function C2h of interrupt 15h and the assembly of mouse packets. The
  commands to the auxiliary device (\<open>aux_command\<close> of \<open>ps2port.c\<close>) are a parameter \<open>aux\<close>: it takes the
  control byte kept in the extended BIOS data area, the command, the parameter bytes and the state of the device, and returns whether it failed and the
  bytes received. The call of the guest's handler is recorded with its arguments.
\<close>

definition RET_EINVFUNCTION :: u8 where "RET_EINVFUNCTION = 0x01"
definition RET_EINVINPUT :: u8 where "RET_EINVINPUT = 0x02"
definition RET_EINTERFACE :: u8 where "RET_EINTERFACE = 0x03"
definition RET_ENEEDRESEND :: u8 where "RET_ENEEDRESEND = 0x04"
definition RET_ENOHANDLER :: u8 where "RET_ENOHANDLER = 0x05"

definition I8042_CTR_AUXINT :: u8 where "I8042_CTR_AUXINT = 0x02"
definition I8042_CTR_AUXDIS :: u8 where "I8042_CTR_AUXDIS = 0x20"

definition PSMOUSE_CMD_SETSCALE11 :: u16 where "PSMOUSE_CMD_SETSCALE11 = 0x00e6"
definition PSMOUSE_CMD_SETSCALE21 :: u16 where "PSMOUSE_CMD_SETSCALE21 = 0x00e7"
definition PSMOUSE_CMD_SETRES :: u16 where "PSMOUSE_CMD_SETRES = 0x10e8"
definition PSMOUSE_CMD_GETINFO :: u16 where "PSMOUSE_CMD_GETINFO = 0x03e9"
definition PSMOUSE_CMD_GETID :: u16 where "PSMOUSE_CMD_GETID = 0x02f2"
definition PSMOUSE_CMD_SETRATE :: u16 where "PSMOUSE_CMD_SETRATE = 0x10f3"
definition PSMOUSE_CMD_ENABLE :: u16 where "PSMOUSE_CMD_ENABLE = 0x00f4"
definition PSMOUSE_CMD_DISABLE :: u16 where "PSMOUSE_CMD_DISABLE = 0x00f5"
definition PSMOUSE_CMD_RESET_BAT :: u16 where "PSMOUSE_CMD_RESET_BAT = 0x02ff"

record handler_call =
  hc_func :: "u16 \<times> u16"
  hc_status :: u16
  hc_X :: u16
  hc_Y :: u16

record 'd mouse =
  equipment_list_flags :: u16
  ps2ctr :: u8
  mouse_flag1 :: u8
  mouse_flag2 :: u8
  mouse_data :: "u8 list"
  far_call_pointer :: "u16 \<times> u16"
  handler_calls :: "handler_call list"
  aux_dev :: 'd

type_synonym 'd aux = "u8 \<Rightarrow> u16 \<Rightarrow> u8 list \<Rightarrow> 'd \<Rightarrow> bool \<times> u8 list \<times> 'd"

definition send_aux :: "'d aux \<Rightarrow> u16 \<Rightarrow> u8 list \<Rightarrow> 'd mouse \<Rightarrow> bool \<times> u8 list \<times> 'd mouse" where
  "send_aux aux cmd p s = (let (fail, out, d) = aux (ps2ctr s) cmd p (aux_dev s) in (fail, out, s\<lparr>aux_dev := d\<rparr>))"

definition status_ret :: "bool \<Rightarrow> bregs \<Rightarrow> bregs" where
  "status_ret fail r = (if fail then set_code_invalid RET_ENEEDRESEND r else set_code_success r)"

section \<open>Commands\<close>

definition mouse_setup :: "'d mouse \<Rightarrow> 'd mouse" where
  "mouse_setup s = s\<lparr>equipment_list_flags := equipment_list_flags s OR 0x04\<rparr>"

definition disable_mouse :: "'d aux \<Rightarrow> 'd mouse \<Rightarrow> bool \<times> 'd mouse" where
  "disable_mouse aux s =
     (let s1 = s\<lparr>ps2ctr := (ps2ctr s OR I8042_CTR_AUXDIS) AND NOT I8042_CTR_AUXINT\<rparr>;
          (fail, _, s2) = send_aux aux PSMOUSE_CMD_DISABLE [] s1
      in (fail, s2))"

definition mouse_15c20000 :: "'d aux \<Rightarrow> bregs \<Rightarrow> 'd mouse \<Rightarrow> bregs \<times> 'd mouse" where
  "mouse_15c20000 aux r s = (let (fail, s1) = disable_mouse aux s in (status_ret fail r, s1))"

definition mouse_15c20001 :: "'d aux \<Rightarrow> bregs \<Rightarrow> 'd mouse \<Rightarrow> bregs \<times> 'd mouse" where
  "mouse_15c20001 aux r s =
     (if mouse_flag2 s AND 0x80 = 0 then (set_code_invalid RET_ENOHANDLER r, s)
      else
        let s1 = s\<lparr>ps2ctr := (ps2ctr s AND NOT I8042_CTR_AUXDIS) OR I8042_CTR_AUXINT\<rparr>;
            (fail, _, s2) = send_aux aux PSMOUSE_CMD_ENABLE [] s1
        in (status_ret fail r, s2))"

definition mouse_15c200XX :: "bregs \<Rightarrow> 'd mouse \<Rightarrow> bregs \<times> 'd mouse" where
  "mouse_15c200XX r s = (set_code_invalid RET_EINVFUNCTION r, s)"

definition mouse_15c200 :: "'d aux \<Rightarrow> bregs \<Rightarrow> 'd mouse \<Rightarrow> bregs \<times> 'd mouse" where
  "mouse_15c200 aux r s =
     (if r_bh r = 0x00 then mouse_15c20000 aux r s
      else if r_bh r = 0x01 then mouse_15c20001 aux r s
      else mouse_15c200XX r s)"

definition mouse_15c201 :: "'d aux \<Rightarrow> bregs \<Rightarrow> 'd mouse \<Rightarrow> bregs \<times> 'd mouse" where
  "mouse_15c201 aux r s =
     (let (fail, param, s1) = send_aux aux PSMOUSE_CMD_RESET_BAT [] s in
      if fail then (set_code_invalid RET_ENEEDRESEND r, s1)
      else (set_code_success (set_bh (param ! 1) (set_bl (param ! 0) r)), s1))"

definition sample_rates :: "u8 list" where
  "sample_rates = [10, 20, 40, 60, 80, 100, 200]"

definition mouse_15c202 :: "'d aux \<Rightarrow> bregs \<Rightarrow> 'd mouse \<Rightarrow> bregs \<times> 'd mouse" where
  "mouse_15c202 aux r s =
     (if unat (r_bh r) \<ge> length sample_rates then (set_code_invalid RET_EINVINPUT r, s)
      else let (fail, _, s1) = send_aux aux PSMOUSE_CMD_SETRATE [sample_rates ! unat (r_bh r)] s in (status_ret fail r, s1))"

definition mouse_15c203 :: "'d aux \<Rightarrow> bregs \<Rightarrow> 'd mouse \<Rightarrow> bregs \<times> 'd mouse" where
  "mouse_15c203 aux r s =
     (if r_bh r \<ge> 4 then (set_code_invalid RET_EINVINPUT r, s)
      else let (fail, _, s1) = send_aux aux PSMOUSE_CMD_SETRES [r_bh r] s in (status_ret fail r, s1))"

definition mouse_15c204 :: "'d aux \<Rightarrow> bregs \<Rightarrow> 'd mouse \<Rightarrow> bregs \<times> 'd mouse" where
  "mouse_15c204 aux r s =
     (let (fail, param, s1) = send_aux aux PSMOUSE_CMD_GETID [] s in
      if fail then (set_code_invalid RET_ENEEDRESEND r, s1)
      else (set_code_success (set_bh (param ! 0) r), s1))"

definition mouse_15c205 :: "'d aux \<Rightarrow> bregs \<Rightarrow> 'd mouse \<Rightarrow> bregs \<times> 'd mouse" where
  "mouse_15c205 aux r s =
     (if r_bh r \<noteq> 3 then (set_code_invalid RET_EINTERFACE r, s)
      else mouse_15c201 aux r (s\<lparr>mouse_flag1 := 0x00, mouse_flag2 := r_bh r\<rparr>))"

definition mouse_15c20600 :: "'d aux \<Rightarrow> bregs \<Rightarrow> 'd mouse \<Rightarrow> bregs \<times> 'd mouse" where
  "mouse_15c20600 aux r s =
     (let (fail, param, s1) = send_aux aux PSMOUSE_CMD_GETINFO [] s in
      if fail then (set_code_invalid RET_ENEEDRESEND r, s1)
      else (set_code_success (set_dl (param ! 2) (set_cl (param ! 1) (set_bl (param ! 0) r))), s1))"

definition mouse_15c20601 :: "'d aux \<Rightarrow> bregs \<Rightarrow> 'd mouse \<Rightarrow> bregs \<times> 'd mouse" where
  "mouse_15c20601 aux r s =
     (let (fail, _, s1) = send_aux aux PSMOUSE_CMD_SETSCALE11 [] s in (status_ret fail r, s1))"

definition mouse_15c20602 :: "'d aux \<Rightarrow> bregs \<Rightarrow> 'd mouse \<Rightarrow> bregs \<times> 'd mouse" where
  "mouse_15c20602 aux r s =
     (let (fail, _, s1) = send_aux aux PSMOUSE_CMD_SETSCALE21 [] s in (status_ret fail r, s1))"

definition mouse_15c206XX :: "bregs \<Rightarrow> 'd mouse \<Rightarrow> bregs \<times> 'd mouse" where
  "mouse_15c206XX r s = (set_code_invalid RET_EINVFUNCTION r, s)"

definition mouse_15c206 :: "'d aux \<Rightarrow> bregs \<Rightarrow> 'd mouse \<Rightarrow> bregs \<times> 'd mouse" where
  "mouse_15c206 aux r s =
     (if r_bh r = 0x00 then mouse_15c20600 aux r s
      else if r_bh r = 0x01 then mouse_15c20601 aux r s
      else if r_bh r = 0x02 then mouse_15c20602 aux r s
      else mouse_15c206XX r s)"

definition mouse_15c207 :: "'d aux \<Rightarrow> bregs \<Rightarrow> 'd mouse \<Rightarrow> bregs \<times> 'd mouse" where
  "mouse_15c207 aux r s =
     (let farptr = (r_es r, r_bx r); flags2 = mouse_flag2 s;
          (f, s1) = (if farptr = (0, 0) then
                       (if flags2 AND 0x80 \<noteq> 0 then (flags2 AND NOT 0x80, snd (disable_mouse aux s)) else (flags2, s))
                     else (flags2 OR 0x80, s))
      in (set_code_success r, s1\<lparr>mouse_flag2 := f, far_call_pointer := farptr\<rparr>))"

definition mouse_15c2XX :: "bregs \<Rightarrow> 'd mouse \<Rightarrow> bregs \<times> 'd mouse" where
  "mouse_15c2XX r s = (set_code_invalid RET_EINVFUNCTION r, s)"

definition handle_15c2 :: "'d aux \<Rightarrow> bregs \<Rightarrow> 'd mouse \<Rightarrow> bregs \<times> 'd mouse" where
  "handle_15c2 aux r s =
     (let f = r_al r in
      if f = 0x00 then mouse_15c200 aux r s
      else if f = 0x01 then mouse_15c201 aux r s
      else if f = 0x02 then mouse_15c202 aux r s
      else if f = 0x03 then mouse_15c203 aux r s
      else if f = 0x04 then mouse_15c204 aux r s
      else if f = 0x05 then mouse_15c205 aux r s
      else if f = 0x06 then mouse_15c206 aux r s
      else if f = 0x07 then mouse_15c207 aux r s
      else mouse_15c2XX r s)"

section \<open>Packets\<close>

definition process_mouse :: "u8 \<Rightarrow> 'd mouse \<Rightarrow> 'd mouse" where
  "process_mouse data s =
     (if mouse_flag2 s AND 0x80 = 0 then s
      else
        let package_count = mouse_flag2 s AND 0x07;
            index = unat (mouse_flag1 s AND 0x07);
            s1 = s\<lparr>mouse_data := (mouse_data s)[index := data]\<rparr>
        in if index + 1 < unat package_count then s1\<lparr>mouse_flag1 := mouse_flag1 s1 + 1\<rparr>
           else
             let call = \<lparr>hc_func = far_call_pointer s1, hc_status = ucast (mouse_data s1 ! 0),
                         hc_X = ucast (mouse_data s1 ! 1), hc_Y = ucast (mouse_data s1 ! 2)\<rparr>
             in s1\<lparr>mouse_flag1 := 0, handler_calls := handler_calls s1 @ [call]\<rparr>)"

section \<open>Properties\<close>

definition packet_call :: "u16 \<times> u16 \<Rightarrow> u8 \<times> u8 \<times> u8 \<Rightarrow> handler_call" where
  "packet_call func p = (case p of (a, b, c) \<Rightarrow> \<lparr>hc_func = func, hc_status = ucast a, hc_X = ucast b, hc_Y = ucast c\<rparr>)"

definition packet_bytes :: "u8 \<times> u8 \<times> u8 \<Rightarrow> u8 list" where
  "packet_bytes p = (case p of (a, b, c) \<Rightarrow> [a, b, c])"

lemma one_packet:
  assumes "mouse_flag2 s = 0x83" "mouse_flag1 s = 0" "length (mouse_data s) = 8"
  shows "\<exists>d. length d = 8 \<and> fold process_mouse (packet_bytes p) s
    = s\<lparr>mouse_data := d, handler_calls := handler_calls s @ [packet_call (far_call_pointer s) p]\<rparr>"
proof -
  obtain a b c where p: "p = (a, b, c)" using prod_cases3 by blast
  obtain x0 x1 x2 xs where m: "mouse_data s = x0 # x1 # x2 # xs"
    using assms(3) by (auto simp: length_Suc_conv numeral_eq_Suc)
  show ?thesis using assms
    by (intro exI[of _ "a # b # c # xs"]) (simp add: p m packet_bytes_def packet_call_def process_mouse_def Let_def)
qed

text \<open>
  With a handler installed and packets of three bytes, any sequence of packets from the mouse
  calls the handler once per packet, in order, with the status, X and Y of that packet, and leaves
  the assembly ready for the next one.
\<close>

theorem mouse_packets_delivered:
  assumes "mouse_flag2 s = 0x83" "mouse_flag1 s = 0" "length (mouse_data s) = 8"
  shows "\<exists>d. length d = 8 \<and> fold process_mouse (concat (map packet_bytes ps)) s
    = s\<lparr>mouse_data := d, handler_calls := handler_calls s @ map (packet_call (far_call_pointer s)) ps\<rparr>"
  using assms
proof (induction ps arbitrary: s)
  case Nil
  then show ?case by (intro exI[of _ "mouse_data s"]) simp
next
  case (Cons p ps)
  obtain d where d: "length d = 8" "fold process_mouse (packet_bytes p) s
    = s\<lparr>mouse_data := d, handler_calls := handler_calls s @ [packet_call (far_call_pointer s) p]\<rparr>"
    using one_packet[OF Cons.prems] by blast
  from Cons.IH[of "s\<lparr>mouse_data := d, handler_calls := handler_calls s @ [packet_call (far_call_pointer s) p]\<rparr>"]
  show ?case using Cons.prems d by (simp add: fold_append)
qed

definition ex_mouse :: "unit mouse" where
  "ex_mouse = \<lparr>equipment_list_flags = 0, ps2ctr = 0, mouse_flag1 = 0, mouse_flag2 = 0, mouse_data = replicate 8 0, far_call_pointer = (0, 0),
     handler_calls = [], aux_dev = ()\<rparr>"

text \<open>
  A guest that initialises the mouse with three-byte packets and installs a handler reaches the
  state that the packets need.
\<close>

lemma init_install_ready:
  assumes "r_al r = 5" "r_bh r = 3" "r_al q = 7" "(r_es q, r_bx q) \<noteq> (0, 0)"
  shows "let s' = snd (handle_15c2 aux q (snd (handle_15c2 aux r s)))
    in mouse_flag2 s' = 0x83 \<and> mouse_flag1 s' = 0 \<and> far_call_pointer s' = (r_es q, r_bx q)"
  using assms by (auto simp: handle_15c2_def mouse_15c205_def mouse_15c201_def mouse_15c207_def send_aux_def
      Let_def split: prod.split)

theorem mouse_packets_delivered_witness:
  "\<exists>d. fold process_mouse [9, 1, 2, 8, 3, 4] (ex_mouse\<lparr>mouse_flag2 := 0x83, far_call_pointer := (0x1000, 0x20)\<rparr>)
    = ex_mouse\<lparr>mouse_flag2 := 0x83, far_call_pointer := (0x1000, 0x20), mouse_data := d,
        handler_calls := [\<lparr>hc_func = (0x1000, 0x20), hc_status = 9, hc_X = 1, hc_Y = 2\<rparr>,
                          \<lparr>hc_func = (0x1000, 0x20), hc_status = 8, hc_X = 3, hc_Y = 4\<rparr>]\<rparr>"
  using mouse_packets_delivered[of "ex_mouse\<lparr>mouse_flag2 := 0x83, far_call_pointer := (0x1000, 0x20)\<rparr>" "[(9, 1, 2), (8, 3, 4)]"]
  by (auto simp: ex_mouse_def packet_bytes_def packet_call_def)

end
