(* ===== verification/Ps2port.thy ===== *)
theory Ps2port
  imports Kbd Mouse Clock
begin

text \<open>
  \<open>bios/seabios/src/ps2port.c\<close>: commands to the keyboard controller and, through it, to the keyboard
  and the mouse, the two hardware interrupts, and the initialisation of the keyboard. The controller
  with its devices is a parameter: what reading and writing a port does to its state, the time stamp
  counter, and what happens to it while the code waits (\<open>udelay\<close>) or yields. The results 0 and -1 of
  the source are \<open>False\<close> and \<open>True\<close> (failed); a buffer that a command fills is passed and returned; the
  loop of \<open>ps2_recvbyte\<close> that never ends is \<open>None\<close>.
\<close>

record 'd kbc =
  kb_inb :: "u16 \<Rightarrow> 'd \<Rightarrow> u8 \<times> 'd"
  kb_outb :: "u8 \<Rightarrow> u16 \<Rightarrow> 'd \<Rightarrow> 'd"
  kb_udelay :: "'d \<Rightarrow> 'd"
  kb_yield :: "'d \<Rightarrow> 'd"
  kb_tsc :: "'d \<Rightarrow> u64"
  kb_khz :: u32

definition PORT_PS2_DATA :: u16 where "PORT_PS2_DATA = 0x0060"
definition PORT_PS2_STATUS :: u16 where "PORT_PS2_STATUS = 0x0064"
definition I8042_STR_AUXDATA :: u8 where "I8042_STR_AUXDATA = 0x20"
definition I8042_STR_IBF :: u8 where "I8042_STR_IBF = 0x02"
definition I8042_STR_OBF :: u8 where "I8042_STR_OBF = 0x01"
definition I8042_CTR_KBDINT :: u8 where "I8042_CTR_KBDINT = 0x01"
definition I8042_CTR_KBDDIS :: u8 where "I8042_CTR_KBDDIS = 0x10"
definition I8042_CTR_XLATE :: u8 where "I8042_CTR_XLATE = 0x40"
definition I8042_CMD_CTL_WCTR :: u16 where "I8042_CMD_CTL_WCTR = 0x1060"
definition I8042_CMD_CTL_TEST :: u16 where "I8042_CMD_CTL_TEST = 0x01aa"
definition I8042_CMD_KBD_TEST :: u16 where "I8042_CMD_KBD_TEST = 0x01ab"
definition I8042_CMD_AUX_SEND :: u16 where "I8042_CMD_AUX_SEND = 0x10d4"
definition ATKBD_CMD_SSCANSET :: u16 where "ATKBD_CMD_SSCANSET = 0x10f0"
definition ATKBD_CMD_GETID :: u16 where "ATKBD_CMD_GETID = 0x02f2"
definition ATKBD_CMD_ENABLE :: u16 where "ATKBD_CMD_ENABLE = 0x00f4"
definition ATKBD_CMD_RESET_DIS :: u16 where "ATKBD_CMD_RESET_DIS = 0x00f5"
definition ATKBD_CMD_RESET_BAT :: u16 where "ATKBD_CMD_RESET_BAT = 0x02ff"
definition I8042_CTL_TIMEOUT :: nat where "I8042_CTL_TIMEOUT = 10000"
definition I8042_BUFFER_SIZE :: nat where "I8042_BUFFER_SIZE = 16"
definition PS2_RET_ACK :: u8 where "PS2_RET_ACK = 0xfa"
definition PS2_RET_NAK :: u8 where "PS2_RET_NAK = 0xfe"

section \<open>The controller\<close>

fun i8042_wait :: "'d kbc \<Rightarrow> (u8 \<Rightarrow> bool) \<Rightarrow> nat \<Rightarrow> 'd \<Rightarrow> bool \<times> 'd" where
  "i8042_wait M ready 0 d = (True, d)"
| "i8042_wait M ready (Suc n) d =
     (let (status, d1) = kb_inb M PORT_PS2_STATUS d in
      if ready status then (False, d1) else i8042_wait M ready n (kb_udelay M d1))"

definition i8042_wait_read :: "'d kbc \<Rightarrow> 'd \<Rightarrow> bool \<times> 'd" where
  "i8042_wait_read M d = i8042_wait M (\<lambda>status. status AND I8042_STR_OBF \<noteq> 0) I8042_CTL_TIMEOUT d"

definition i8042_wait_write :: "'d kbc \<Rightarrow> 'd \<Rightarrow> bool \<times> 'd" where
  "i8042_wait_write M d = i8042_wait M (\<lambda>status. status AND I8042_STR_IBF = 0) I8042_CTL_TIMEOUT d"

fun flush_loop :: "'d kbc \<Rightarrow> nat \<Rightarrow> 'd \<Rightarrow> bool \<times> 'd" where
  "flush_loop M 0 d = (True, d)"
| "flush_loop M (Suc n) d =
     (let (status, d1) = kb_inb M PORT_PS2_STATUS d in
      if status AND I8042_STR_OBF = 0 then (False, d1)
      else let (data, d2) = kb_inb M PORT_PS2_DATA (kb_udelay M d1) in flush_loop M n d2)"

definition i8042_flush :: "'d kbc \<Rightarrow> 'd \<Rightarrow> bool \<times> 'd" where
  "i8042_flush M d = flush_loop M I8042_BUFFER_SIZE d"

definition cmd_receive :: "u16 \<Rightarrow> nat" where "cmd_receive command = unat (drop_bit 8 command AND 0xf)"
definition cmd_send :: "u16 \<Rightarrow> nat" where "cmd_send command = unat (drop_bit 12 command AND 0xf)"

text \<open>The loops over the parameters: bytes sent to the data port, and bytes received into the buffer.\<close>

fun send_params :: "'d kbc \<Rightarrow> u8 list \<Rightarrow> 'd \<Rightarrow> bool \<times> 'd" where
  "send_params M [] d = (False, d)"
| "send_params M (c # cs) d =
     (let (fail, d1) = i8042_wait_write M d in
      if fail then (True, d1) else send_params M cs (kb_outb M c PORT_PS2_DATA d1))"

fun receive_params :: "'d kbc \<Rightarrow> nat list \<Rightarrow> u8 list \<Rightarrow> 'd \<Rightarrow> bool \<times> u8 list \<times> 'd" where
  "receive_params M [] param d = (False, param, d)"
| "receive_params M (i # is) param d =
     (let (fail, d1) = i8042_wait_read M d in
      if fail then (True, param, d1)
      else let (c, d2) = kb_inb M PORT_PS2_DATA d1 in receive_params M is (param[i := c]) d2)"

definition i8042_command :: "'d kbc \<Rightarrow> u16 \<Rightarrow> u8 list \<Rightarrow> 'd \<Rightarrow> bool \<times> u8 list \<times> 'd" where
  "i8042_command M command param d =
     (let (fail, d1) = i8042_wait_write M d in
      if fail then (True, param, d1)
      else
        let d2 = kb_outb M (ucast command) PORT_PS2_STATUS d1;
            (fail, d3) = send_params M (map ((!) param) [0..<cmd_send command]) d2
        in if fail then (True, param, d3)
           else receive_params M [0..<cmd_receive command] param d3)"

definition i8042_kbd_write :: "'d kbc \<Rightarrow> u8 \<Rightarrow> 'd \<Rightarrow> bool \<times> 'd" where
  "i8042_kbd_write M c d =
     (let (fail, d1) = i8042_wait_write M d in (fail, if fail then d1 else kb_outb M c PORT_PS2_DATA d1))"

definition i8042_aux_write :: "'d kbc \<Rightarrow> u8 \<Rightarrow> 'd \<Rightarrow> bool \<times> 'd" where
  "i8042_aux_write M c d = (let (fail, _, d1) = i8042_command M I8042_CMD_AUX_SEND [c] d in (fail, d1))"

section \<open>Devices\<close>

text \<open>One turn of the loop of \<open>ps2_recvbyte\<close>: the byte, or \<open>None\<close> if the device did not send one.\<close>

definition recv_turn :: "'d kbc \<Rightarrow> bool \<Rightarrow> bool \<Rightarrow> 'd \<Rightarrow> u8 option \<times> 'd" where
  "recv_turn M aux needack d =
     (let (status, d1) = kb_inb M PORT_PS2_STATUS d in
      if status AND I8042_STR_OBF \<noteq> 0 then
        let (data, d2) = kb_inb M PORT_PS2_DATA d1 in
        if (status AND I8042_STR_AUXDATA \<noteq> 0) = aux \<and> (\<not> needack \<or> data = PS2_RET_ACK \<or> data = PS2_RET_NAK)
        then (Some data, d2) else (None, d2)
      else (None, d1))"

partial_function (option) recv_loop :: "'d kbc \<Rightarrow> bool \<Rightarrow> bool \<Rightarrow> u64 \<Rightarrow> 'd \<Rightarrow> (u8 option \<times> 'd) option" where
  "recv_loop M aux needack end_time d =
     (case recv_turn M aux needack d of
        (Some data, d1) \<Rightarrow> Some (Some data, d1)
      | (None, d1) \<Rightarrow>
          if check_time (kb_tsc M d1) end_time then Some (None, d1)
          else recv_loop M aux needack end_time (kb_yield M d1))"

definition ps2_recvbyte :: "'d kbc \<Rightarrow> bool \<Rightarrow> bool \<Rightarrow> u32 \<Rightarrow> 'd \<Rightarrow> (u8 option \<times> 'd) option" where
  "ps2_recvbyte M aux needack timeout d =
     recv_loop M aux needack (calc_future_tsc (kb_tsc M d) (kb_khz M) timeout) d"

definition ps2_sendbyte :: "'d kbc \<Rightarrow> bool \<Rightarrow> u8 \<Rightarrow> u32 \<Rightarrow> 'd \<Rightarrow> (bool \<times> 'd) option" where
  "ps2_sendbyte M aux command timeout d =
     (let (fail, d1) = (if aux then i8042_aux_write M command d else i8042_kbd_write M command d) in
      if fail then Some (True, d1)
      else map_option (\<lambda>(r, d2). (r \<noteq> Some PS2_RET_ACK, d2)) (ps2_recvbyte M aux True timeout d1))"

fun ps2_send_params :: "'d kbc \<Rightarrow> bool \<Rightarrow> u8 list \<Rightarrow> 'd \<Rightarrow> (bool \<times> 'd) option" where
  "ps2_send_params M aux [] d = Some (False, d)"
| "ps2_send_params M aux (c # cs) d =
     (case ps2_sendbyte M aux c 200 d of
        None \<Rightarrow> None
      | Some (fail, d1) \<Rightarrow> if fail then Some (True, d1) else ps2_send_params M aux cs d1)"

fun ps2_receive_params :: "'d kbc \<Rightarrow> bool \<Rightarrow> nat list \<Rightarrow> u8 list \<Rightarrow> 'd \<Rightarrow> (bool \<times> u8 list \<times> 'd) option" where
  "ps2_receive_params M aux [] param d = Some (False, param, d)"
| "ps2_receive_params M aux (i # is) param d =
     (case ps2_recvbyte M aux False 500 d of
        None \<Rightarrow> None
      | Some (None, d1) \<Rightarrow> Some (True, param, d1)
      | Some (Some c, d1) \<Rightarrow> ps2_receive_params M aux is (param[i := c]) d1)"

definition two_byte_id :: "u8 \<Rightarrow> bool" where
  "two_byte_id b \<longleftrightarrow> b = 0xab \<or> b = 0xac \<or> b = 0x2b \<or> b = 0x5d \<or> b = 0x60 \<or> b = 0x47"

text \<open>The three ways in which \<open>ps2_command\<close> talks to the device, up to the label \<open>fail\<close>.\<close>

definition ps2_reset :: "'d kbc \<Rightarrow> bool \<Rightarrow> u16 \<Rightarrow> u8 list \<Rightarrow> 'd \<Rightarrow> (bool \<times> u8 list \<times> 'd) option" where
  "ps2_reset M aux command param d =
     (case ps2_sendbyte M aux (ucast command) 1000 d of
        None \<Rightarrow> None
      | Some (True, d1) \<Rightarrow> Some (True, param, d1)
      | Some (False, d1) \<Rightarrow>
          (case ps2_recvbyte M aux False 4000 d1 of
             None \<Rightarrow> None
           | Some (None, d2) \<Rightarrow> Some (True, param, d2)
           | Some (Some c, d2) \<Rightarrow>
               (case ps2_recvbyte M aux False 100 d2 of
                  None \<Rightarrow> None
                | Some (r, d3) \<Rightarrow> Some (False, param[0 := c, 1 := (case r of None \<Rightarrow> 0 | Some b \<Rightarrow> b)], d3))))"

definition ps2_getid :: "'d kbc \<Rightarrow> bool \<Rightarrow> u16 \<Rightarrow> u8 list \<Rightarrow> 'd \<Rightarrow> (bool \<times> u8 list \<times> 'd) option" where
  "ps2_getid M aux command param d =
     (case ps2_sendbyte M aux (ucast command) 200 d of
        None \<Rightarrow> None
      | Some (True, d1) \<Rightarrow> Some (True, param, d1)
      | Some (False, d1) \<Rightarrow>
          (case ps2_recvbyte M aux False 500 d1 of
             None \<Rightarrow> None
           | Some (None, d2) \<Rightarrow> Some (True, param, d2)
           | Some (Some c, d2) \<Rightarrow>
               if two_byte_id c then
                 (case ps2_recvbyte M aux False 500 d2 of
                    None \<Rightarrow> None
                  | Some (None, d3) \<Rightarrow> Some (True, param[0 := c], d3)
                  | Some (Some b, d3) \<Rightarrow> Some (False, param[0 := c, 1 := b], d3))
               else Some (False, param[0 := c, 1 := 0], d2)))"

definition ps2_plain :: "'d kbc \<Rightarrow> bool \<Rightarrow> u16 \<Rightarrow> u8 list \<Rightarrow> 'd \<Rightarrow> (bool \<times> u8 list \<times> 'd) option" where
  "ps2_plain M aux command param d =
     (case ps2_sendbyte M aux (ucast command) 200 d of
        None \<Rightarrow> None
      | Some (True, d1) \<Rightarrow> Some (True, param, d1)
      | Some (False, d1) \<Rightarrow>
          (case ps2_send_params M aux (map ((!) param) [0..<cmd_send command]) d1 of
             None \<Rightarrow> None
           | Some (True, d2) \<Rightarrow> Some (True, param, d2)
           | Some (False, d2) \<Rightarrow> ps2_receive_params M aux [0..<cmd_receive command] param d2))"

definition ps2_talk :: "'d kbc \<Rightarrow> bool \<Rightarrow> u16 \<Rightarrow> u8 list \<Rightarrow> 'd \<Rightarrow> (bool \<times> u8 list \<times> 'd) option" where
  "ps2_talk M aux command param d =
     (if command = ATKBD_CMD_RESET_BAT then ps2_reset M aux command param d
      else if command = ATKBD_CMD_GETID then ps2_getid M aux command param d
      else ps2_plain M aux command param d)"

definition wctr :: "'d kbc \<Rightarrow> u8 \<Rightarrow> 'd \<Rightarrow> bool \<times> 'd" where
  "wctr M c d = (let (fail, _, d1) = i8042_command M I8042_CMD_CTL_WCTR [c] d in (fail, d1))"

definition ps2_command :: "'d kbc \<Rightarrow> bool \<Rightarrow> u8 \<Rightarrow> u16 \<Rightarrow> u8 list \<Rightarrow> 'd \<Rightarrow> (bool \<times> u8 list \<times> 'd) option" where
  "ps2_command M aux ctr command param d =
     (let newctr = (ctr OR I8042_CTR_AUXDIS OR I8042_CTR_KBDDIS) AND NOT (I8042_CTR_KBDINT OR I8042_CTR_AUXINT);
          (fail, d1) = wctr M newctr d
      in if fail then Some (True, param, d1)
         else
           let newctr1 = (if aux then newctr AND NOT I8042_CTR_AUXDIS else newctr AND NOT I8042_CTR_KBDDIS);
               (fail2, d2) = wctr M newctr1 (kb_yield M d1)
           in case (if fail2 then Some (True, param, d2) else ps2_talk M aux command param d2) of
                None \<Rightarrow> None
              | Some (ret, param', d3) \<Rightarrow>
                  let (ret2, d4) = wctr M ctr d3 in Some (ret2 \<or> ret, param', d4))"

definition kbd_command :: "'d kbc \<Rightarrow> u8 \<Rightarrow> u16 \<Rightarrow> u8 list \<Rightarrow> 'd \<Rightarrow> (bool \<times> u8 list \<times> 'd) option" where
  "kbd_command M ctr command param d = ps2_command M False ctr command param d"

definition aux_command :: "'d kbc \<Rightarrow> u8 \<Rightarrow> u16 \<Rightarrow> u8 list \<Rightarrow> 'd \<Rightarrow> (bool \<times> u8 list \<times> 'd) option" where
  "aux_command M ctr command param d = ps2_command M True ctr command param d"

section \<open>Interrupts\<close>

definition eoi1 :: "'d kbc \<Rightarrow> 'd \<Rightarrow> 'd" where "eoi1 M d = kb_outb M 0x20 0x20 d"
definition eoi2 :: "'d kbc \<Rightarrow> 'd \<Rightarrow> 'd" where "eoi2 M d = eoi1 M (kb_outb M 0x20 0xa0 d)"

definition handle_74 :: "'d kbc \<Rightarrow> 'd mouse \<Rightarrow> 'd mouse" where
  "handle_74 M s =
     (let (v, d1) = kb_inb M PORT_PS2_STATUS (aux_dev s) in
      if v AND (I8042_STR_OBF OR I8042_STR_AUXDATA) \<noteq> I8042_STR_OBF OR I8042_STR_AUXDATA
      then s\<lparr>aux_dev := eoi2 M d1\<rparr>
      else
        let (data, d2) = kb_inb M PORT_PS2_DATA d1;
            s1 = s\<lparr>aux_dev := d2\<rparr>;
            s2 = (if ps2ctr s1 AND I8042_CTR_AUXINT = 0 then s1 else process_mouse data s1)
        in s2\<lparr>aux_dev := eoi2 M (aux_dev s2)\<rparr>)"

definition handle_09 :: "'d kbc \<Rightarrow> (u8 \<Rightarrow> bool \<times> u32) \<Rightarrow> u8 \<Rightarrow> kbd \<times> 'd \<Rightarrow> key_result option \<times> 'd" where
  "handle_09 M filter_key ctr kd =
     (let (k, d) = kd; (v, d1) = kb_inb M PORT_PS2_STATUS d in
      if v AND I8042_STR_AUXDATA \<noteq> 0 then (None, eoi1 M d1)
      else
        let (c, d2) = kb_inb M PORT_PS2_DATA d1 in
        if ctr AND I8042_CTR_KBDINT = 0 then (None, eoi1 M d2)
        else (Some (process_key filter_key c k), eoi1 M d2))"

section \<open>Setup\<close>

text \<open>\<open>keyboard_init\<close>: the result is the control byte kept in the extended BIOS data area; \<open>param\<close> is its local buffer.\<close>

definition keyboard_enable :: "'d kbc \<Rightarrow> u8 list \<Rightarrow> u8 \<times> 'd \<Rightarrow> (u8 \<times> 'd) option" where
  "keyboard_enable M param cd =
     (let (ctr, d) = cd in
      case kbd_command M ctr ATKBD_CMD_RESET_DIS param d of
        None \<Rightarrow> None
      | Some (True, _, d1) \<Rightarrow> Some (ctr, d1)
      | Some (False, _, d1) \<Rightarrow>
          (case kbd_command M ctr ATKBD_CMD_SSCANSET (param[0 := 0x02]) d1 of
             None \<Rightarrow> None
           | Some (True, _, d2) \<Rightarrow> Some (ctr, d2)
           | Some (False, p, d2) \<Rightarrow>
               let ctr1 = I8042_CTR_AUXDIS OR I8042_CTR_XLATE OR I8042_CTR_KBDINT
               in map_option (\<lambda>(_, _, d3). (ctr1, d3)) (kbd_command M ctr1 ATKBD_CMD_ENABLE p d2)))"

definition keyboard_init :: "'d kbc \<Rightarrow> u8 list \<Rightarrow> u8 \<times> 'd \<Rightarrow> (u8 \<times> 'd) option" where
  "keyboard_init M param cd =
     (let (ctr, d) = cd; (fail, d1) = i8042_flush M d in
      if fail then Some (ctr, d1)
      else
        let (fail, p1, d2) = i8042_command M I8042_CMD_CTL_TEST param d1 in
        if fail \<or> p1 ! 0 \<noteq> 0x55 then Some (ctr, d2)
        else
          let (fail, p2, d3) = i8042_command M I8042_CMD_KBD_TEST p1 d2 in
          if fail \<or> p2 ! 0 \<noteq> 0x00 then Some (ctr, d3)
          else
            let ctr1 = I8042_CTR_KBDDIS OR I8042_CTR_AUXDIS in
            case kbd_command M ctr1 ATKBD_CMD_RESET_BAT p2 d3 of
              None \<Rightarrow> None
            | Some (fail, p3, d4) \<Rightarrow>
                if fail \<or> p3 ! 0 \<noteq> 0xaa then Some (ctr1, d4)
                else keyboard_enable M p3 (ctr1, d4))"

section \<open>Commands return\<close>

text \<open>
  What the commands rely on. Command 60h and the byte that follows it set the control byte, and nothing else does; the
  controller may refuse bytes for as long as it likes. The time does not go back, it advances while the code yields, and
  no single access takes years. \<open>ctl\<close> is the control byte, \<open>pend\<close> says that command 60h awaits its byte, and \<open>now\<close> is the time.
\<close>

definition kbc_laws :: "'d kbc \<Rightarrow> ('d \<Rightarrow> u8) \<Rightarrow> ('d \<Rightarrow> bool) \<Rightarrow> ('d \<Rightarrow> nat) \<Rightarrow> bool" where
  "kbc_laws M ctl pend now \<longleftrightarrow>
     (\<forall>p d. pend (snd (kb_inb M p d)) = pend d \<and> now d \<le> now (snd (kb_inb M p d)) \<and> now (snd (kb_inb M p d)) \<le> now d + 2 ^ 60)
   \<and> (\<forall>d. pend (kb_udelay M d) = pend d)
   \<and> (\<forall>d. pend (kb_outb M 0x60 PORT_PS2_STATUS d))
   \<and> (\<forall>c d. pend d \<longrightarrow> ctl (kb_outb M c PORT_PS2_DATA d) = c)
   \<and> (\<forall>d. kb_tsc M d = of_nat (now d))
   \<and> (\<forall>d. now d < now (kb_yield M d) \<and> now (kb_yield M d) \<le> now d + 2 ^ 60)"

lemma kbc_lawsD:
  assumes "kbc_laws M ctl pend now"
  shows "pend (snd (kb_inb M p d)) = pend d" "now d \<le> now (snd (kb_inb M p d))" "now (snd (kb_inb M p d)) \<le> now d + 2 ^ 60"
    "pend (kb_udelay M d) = pend d" "pend (kb_outb M 0x60 PORT_PS2_STATUS d)" "pend e \<Longrightarrow> ctl (kb_outb M c PORT_PS2_DATA e) = c"
    "kb_tsc M d = of_nat (now d)" "now d < now (kb_yield M d)" "now (kb_yield M d) \<le> now d + 2 ^ 60"
  using assms by (simp_all add: kbc_laws_def)

lemma wait_pend: "kbc_laws M ctl pend now \<Longrightarrow> pend (snd (i8042_wait M ready n d)) = pend d"
  by (induction n arbitrary: d) (simp_all add: kbc_lawsD split_beta Let_def)

text \<open>Writing the control byte sets it, unless the controller does not accept a byte in time.\<close>

lemma wctr_sets:
  assumes "kbc_laws M ctl pend now"
  shows "fst (wctr M c d) \<or> ctl (snd (wctr M c d)) = c" "\<forall>e. \<not> fst (i8042_wait_write M e) \<Longrightarrow> \<not> fst (wctr M c d)"
proof -
  have "cmd_send I8042_CMD_CTL_WCTR = 1" "cmd_receive I8042_CMD_CTL_WCTR = 0" "(ucast I8042_CMD_CTL_WCTR :: u8) = 0x60"
    by (simp_all add: cmd_send_def cmd_receive_def I8042_CMD_CTL_WCTR_def)
  note w = wctr_def i8042_command_def this
  let ?d2 = "snd (i8042_wait_write M (kb_outb M 0x60 PORT_PS2_STATUS (snd (i8042_wait_write M d))))"
  have "pend ?d2" using kbc_lawsD(5)[OF assms] wait_pend[OF assms] by (simp add: i8042_wait_write_def)
  then show "fst (wctr M c d) \<or> ctl (snd (wctr M c d)) = c" using kbc_lawsD(6)[OF assms] by (simp add: w split_beta Let_def)
  show "\<not> fst (wctr M c d)" if "\<forall>e. \<not> fst (i8042_wait_write M e)" using that by (simp add: w split_beta Let_def)
qed

lemma recv_turn_now:
  assumes "kbc_laws M ctl pend now"
  shows "now d \<le> now (snd (recv_turn M aux needack d))" "now (snd (recv_turn M aux needack d)) \<le> now d + 2 ^ 61"
proof -
  let ?d1 = "snd (kb_inb M PORT_PS2_STATUS d)"
  note l = kbc_lawsD(2,3)[OF assms, where d = d and p = PORT_PS2_STATUS] kbc_lawsD(2,3)[OF assms, where d = ?d1 and p = PORT_PS2_DATA]
  show "now d \<le> now (snd (recv_turn M aux needack d))" "now (snd (recv_turn M aux needack d)) \<le> now d + 2 ^ 61"
    using l by (simp_all add: recv_turn_def split_beta Let_def)
qed

lemma recv_loop_returns:
  assumes "kbc_laws M ctl pend now" "now d \<le> t + 2 ^ 62"
  shows "\<exists>r. recv_loop M aux needack (of_nat t) d = Some r"
  using assms(2)
proof (induction "t + 2 ^ 62 - now d" arbitrary: d rule: less_induct)
  case less
  obtain r d1 where r: "recv_turn M aux needack d = (r, d1)" by fastforce
  have n: "now d \<le> now d1" "now d1 \<le> now d + 2 ^ 61" using recv_turn_now [OF assms(1), where d = d and aux = aux and needack = needack] r by simp_all
  show ?case
  proof (cases "r \<noteq> None \<or> t < now d1")
    case True
    then show ?thesis using less.prems n sint_diff_pos [of t "now d1"]
      by (subst recv_loop.simps) (auto simp: r check_time_def kbc_lawsD(7) [OF assms(1)] split: option.split)
  next
    case False
    have "\<exists>r. recv_loop M aux needack (of_nat t) (kb_yield M d1) = Some r"
      using False less.prems kbc_lawsD(8,9) [OF assms(1), of d1] n by (intro less.hyps) auto
    then show ?thesis using False by (subst recv_loop.simps) (simp add: r)
  qed
qed

lemma recvbyte_returns:
  assumes "kbc_laws M ctl pend now"
  shows "ps2_recvbyte M aux needack timeout d \<noteq> None"
proof -
  have "calc_future_tsc (kb_tsc M d) (kb_khz M) timeout = of_nat (now d + unat (kb_khz M) * unat timeout)"
    by (simp add: calc_future_tsc_def kbc_lawsD(7) [OF assms])
  then show ?thesis using recv_loop_returns [OF assms, of d "now d + unat (kb_khz M) * unat timeout"]
    by (simp add: ps2_recvbyte_def)
qed

lemma sendbyte_returns: "kbc_laws M ctl pend now \<Longrightarrow> ps2_sendbyte M aux c timeout d \<noteq> None"
  using recvbyte_returns [of M ctl pend now] by (simp add: ps2_sendbyte_def Let_def split_beta del: not_None_eq)

lemma send_params_returns: "kbc_laws M ctl pend now \<Longrightarrow> ps2_send_params M aux cs d \<noteq> None"
  by (induction cs arbitrary: d) (use sendbyte_returns [of M ctl pend now] in \<open>auto split: option.split\<close>)

lemma receive_params_returns: "kbc_laws M ctl pend now \<Longrightarrow> ps2_receive_params M aux is param d \<noteq> None"
  by (induction "is" arbitrary: param d) (use recvbyte_returns [of M ctl pend now] in \<open>auto split: option.split\<close>)

lemma talk_returns:
  assumes "kbc_laws M ctl pend now"
  shows "ps2_talk M aux command param d \<noteq> None"
proof -
  note ret = recvbyte_returns [OF assms] sendbyte_returns [OF assms] send_params_returns [OF assms] receive_params_returns [OF assms]
  have "ps2_reset M aux command param d \<noteq> None"
    by (simp add: ps2_reset_def ret del: not_None_eq split: option.split prod.split bool.split)
  moreover have "ps2_getid M aux command param d \<noteq> None"
    by (simp add: ps2_getid_def ret del: not_None_eq split: option.split prod.split bool.split)
  moreover have "ps2_plain M aux command param d \<noteq> None"
    by (simp add: ps2_plain_def ret del: not_None_eq split: option.split prod.split bool.split)
  ultimately show ?thesis unfolding ps2_talk_def by presburger
qed


text \<open>A controller to which no device answers, and which is busy for some polls after every byte that is written.\<close>

record silent =
  sl_ctl :: u8
  sl_pend :: bool
  sl_busy :: u8
  sl_now :: nat

definition silent_kbc :: "silent kbc" where
  "silent_kbc = \<lparr>kb_inb = (\<lambda>p d. if p = PORT_PS2_STATUS \<and> sl_busy d \<noteq> 0 then (I8042_STR_IBF, d\<lparr>sl_busy := sl_busy d - 1, sl_now := sl_now d + 3\<rparr>) else (0, d)),
     kb_outb = (\<lambda>c p d. if p = PORT_PS2_STATUS then d\<lparr>sl_pend := c = 0x60, sl_busy := 5\<rparr>
        else if p = PORT_PS2_DATA then d\<lparr>sl_ctl := if sl_pend d then c else sl_ctl d, sl_pend := False, sl_busy := 5\<rparr> else d),
     kb_udelay = (\<lambda>d. d\<lparr>sl_now := sl_now d + 50000\<rparr>), kb_yield = (\<lambda>d. d\<lparr>sl_now := sl_now d + 1000\<rparr>), kb_tsc = (\<lambda>d. of_nat (sl_now d)), kb_khz = 1000000\<rparr>"

lemma silent_accepts: "unat (sl_busy d) < n \<Longrightarrow> \<not> fst (i8042_wait silent_kbc (\<lambda>status. status AND I8042_STR_IBF = 0) n d)"
proof (induction n arbitrary: d)
  case (Suc n)
  show ?case
  proof (cases "sl_busy d = 0")
    case False
    then have "0 < unat (sl_busy d)" by (simp add: unat_gt_0)
    then have "unat (sl_busy d - 1) < n" using Suc.prems False by (simp add: unat_minus_one)
    then show ?thesis using Suc.IH[of "kb_udelay silent_kbc (snd (kb_inb silent_kbc PORT_PS2_STATUS d))"] False
      by (simp add: silent_kbc_def I8042_STR_IBF_def)
  qed (simp add: silent_kbc_def)
qed simp


section \<open>Mouse interrupts\<close>

text \<open>The bytes that \<open>n\<close> mouse interrupts read, if each finds a byte of the mouse, and the controller after them.\<close>

definition mouse_status :: "u8 \<Rightarrow> bool" where
  "mouse_status v \<longleftrightarrow> v AND (I8042_STR_OBF OR I8042_STR_AUXDATA) = I8042_STR_OBF OR I8042_STR_AUXDATA"

fun irq_bytes :: "'d kbc \<Rightarrow> nat \<Rightarrow> 'd \<Rightarrow> u8 list option" where
  "irq_bytes M 0 d = Some []"
| "irq_bytes M (Suc n) d =
     (let (v, d1) = kb_inb M PORT_PS2_STATUS d; (c, d2) = kb_inb M PORT_PS2_DATA d1
      in if mouse_status v then map_option ((#) c) (irq_bytes M n (eoi2 M d2)) else None)"

lemma process_mouse_dev [simp]:
  "process_mouse c (s\<lparr>aux_dev := d\<rparr>) = (process_mouse c s)\<lparr>aux_dev := d\<rparr>" "ps2ctr (process_mouse c s) = ps2ctr s"
  by (simp_all add: process_mouse_def Let_def)

lemma irq_bytes_process:
  assumes "irq_bytes M n (aux_dev s) = Some bs" "ps2ctr s AND I8042_CTR_AUXINT \<noteq> 0"
  shows "\<exists>d. (handle_74 M ^^ n) s = (fold process_mouse bs s)\<lparr>aux_dev := d\<rparr>"
  using assms
proof (induction n arbitrary: s bs)
  case 0
  then show ?case by (intro exI [of _ "aux_dev s"]) simp
next
  case (Suc n)
  obtain v d1 where v: "kb_inb M PORT_PS2_STATUS (aux_dev s) = (v, d1)" by fastforce
  obtain c d2 where c: "kb_inb M PORT_PS2_DATA d1 = (c, d2)" by fastforce
  obtain bs' where st: "mouse_status v" "irq_bytes M n (eoi2 M d2) = Some bs'" "bs = c # bs'"
    using Suc.prems(1) by (auto simp: v c split: if_splits)
  let ?s = "(process_mouse c s)\<lparr>aux_dev := eoi2 M d2\<rparr>"
  have "handle_74 M s = ?s" using st(1) Suc.prems(2) by (simp add: handle_74_def v c mouse_status_def)
  moreover obtain d where "(handle_74 M ^^ n) ?s = (fold process_mouse bs' ?s)\<lparr>aux_dev := d\<rparr>"
    using Suc.IH [of ?s bs'] st(2) Suc.prems(2) by auto
  moreover have "fold process_mouse xs (t\<lparr>aux_dev := e\<rparr>) = (fold process_mouse xs t)\<lparr>aux_dev := e\<rparr>" for xs e and t :: "'a mouse"
    by (induction xs arbitrary: t) simp_all
  ultimately show ?case using st(3) by (intro exI [of _ d]) (simp add: funpow_swap1)
qed

text \<open>
  C23. Mouse packets that arrive through interrupt 74h reach the guest: if the interrupts read the bytes
  of the packets \<open>ps\<close> in order, the handler that the guest installed is called once per packet, in
  order, with its status, X and Y.
\<close>

theorem mouse_interrupts_deliver_packets:
  assumes "irq_bytes M (3 * length ps) (aux_dev s) = Some (concat (map packet_bytes ps))"
    and "ps2ctr s AND I8042_CTR_AUXINT \<noteq> 0" "mouse_flag2 s = 0x83" "mouse_flag1 s = 0" "length (mouse_data s) = 8"
  shows "handler_calls ((handle_74 M ^^ (3 * length ps)) s) = handler_calls s @ map (packet_call (far_call_pointer s)) ps"
proof -
  obtain d where "(handle_74 M ^^ (3 * length ps)) s = (fold process_mouse (concat (map packet_bytes ps)) s)\<lparr>aux_dev := d\<rparr>"
    using irq_bytes_process [OF assms(1,2)] by blast
  moreover obtain e where "fold process_mouse (concat (map packet_bytes ps)) s
      = s\<lparr>mouse_data := e, handler_calls := handler_calls s @ map (packet_call (far_call_pointer s)) ps\<rparr>"
    using mouse_packets_delivered [OF assms(3-5), of ps] by blast
  ultimately show ?thesis by simp
qed

text \<open>A controller whose data port yields the bytes of a list.\<close>

definition list_kbc :: "u8 list kbc" where
  "list_kbc = \<lparr>kb_inb = (\<lambda>p d. if p = PORT_PS2_STATUS then (0x21, d) else (hd d, tl d)), kb_outb = (\<lambda>c p d. d),
     kb_udelay = id, kb_yield = id, kb_tsc = (\<lambda>d. 0), kb_khz = 1\<rparr>"

definition ex_mouse74 :: "u8 list mouse" where
  "ex_mouse74 = \<lparr>equipment_list_flags = 0, ps2ctr = 0x47, mouse_flag1 = 0, mouse_flag2 = 0x83, mouse_data = replicate 8 0,
     far_call_pointer = (0x1000, 0x20), handler_calls = [], aux_dev = [9, 1, 2, 8, 3, 4]\<rparr>"

theorem mouse_interrupts_deliver_packets_witness:
  "handler_calls ((handle_74 list_kbc ^^ 6) ex_mouse74)
     = [\<lparr>hc_func = (0x1000, 0x20), hc_status = 9, hc_X = 1, hc_Y = 2\<rparr>, \<lparr>hc_func = (0x1000, 0x20), hc_status = 8, hc_X = 3, hc_Y = 4\<rparr>]"
proof -
  have six: "(6 :: nat) = Suc (Suc (Suc (Suc (Suc (Suc 0)))))" by simp
  have "irq_bytes list_kbc 6 [9, 1, 2, 8, 3, 4] = Some [9, 1, 2, 8, 3, 4]"
    unfolding six by (simp add: list_kbc_def mouse_status_def I8042_STR_OBF_def I8042_STR_AUXDATA_def PORT_PS2_STATUS_def
        PORT_PS2_DATA_def eoi2_def eoi1_def)
  then show ?thesis
    using mouse_interrupts_deliver_packets [of list_kbc "[(9, 1, 2), (8, 3, 4)]" ex_mouse74]
    by (simp add: ex_mouse74_def packet_bytes_def packet_call_def I8042_CTR_AUXINT_def)
qed

end
