(* ===== verification/Serial.thy ===== *)
theory Serial
  imports Bios_Util Bregs "HOL-Library.Sublist"
begin

text \<open>
  \<open>bios/seabios/src/serial.c\<close>: detection of the serial and parallel ports, and interrupts 14h and
  17h. The machine is a parameter: what reading and writing an input or output port does to the
  state of the devices, the low half of the tick counter of the BIOS data area, and the passing of
  time while the code yields. A wait that never ends is \<open>None\<close>.
\<close>

record 'd machine =
  inb :: "u16 \<Rightarrow> 'd \<Rightarrow> u8 \<times> 'd"
  outb :: "u8 \<Rightarrow> u16 \<Rightarrow> 'd \<Rightarrow> 'd"
  timer_low :: "'d \<Rightarrow> u16"
  yield :: "'d \<Rightarrow> 'd"

record serial_bda =
  port_com :: "u16 list"
  port_lpt :: "u16 list"
  com_timeout :: "u8 list"
  lpt_timeout :: "u8 list"
  equipment :: u16

definition PORT_SERIAL1 :: u16 where "PORT_SERIAL1 = 0x03f8"
definition PORT_SERIAL2 :: u16 where "PORT_SERIAL2 = 0x02f8"
definition PORT_SERIAL3 :: u16 where "PORT_SERIAL3 = 0x03e8"
definition PORT_SERIAL4 :: u16 where "PORT_SERIAL4 = 0x02e8"
definition PORT_LPT1 :: u16 where "PORT_LPT1 = 0x0378"
definition PORT_LPT2 :: u16 where "PORT_LPT2 = 0x0278"
definition SEROFF_DATA :: u16 where "SEROFF_DATA = 0"
definition SEROFF_DLL :: u16 where "SEROFF_DLL = 0"
definition SEROFF_IER :: u16 where "SEROFF_IER = 1"
definition SEROFF_DLH :: u16 where "SEROFF_DLH = 1"
definition SEROFF_IIR :: u16 where "SEROFF_IIR = 2"
definition SEROFF_LCR :: u16 where "SEROFF_LCR = 3"
definition SEROFF_LSR :: u16 where "SEROFF_LSR = 5"
definition SEROFF_MSR :: u16 where "SEROFF_MSR = 6"

section \<open>The tick timer\<close>

record tick_timer_s =
  last_tick :: u16
  remaining :: u16

definition initTickTimer :: "'d machine \<Rightarrow> u16 \<Rightarrow> 'd \<Rightarrow> tick_timer_s" where
  "initTickTimer M count d = \<lparr>last_tick = timer_low M d, remaining = count\<rparr>"

text \<open>The field that \<open>checkTickTimer\<close> counts down is \<open>last_tick\<close>, as in the source.\<close>

definition checkTickTimer :: "'d machine \<Rightarrow> 'd \<Rightarrow> tick_timer_s \<Rightarrow> bool \<times> tick_timer_s" where
  "checkTickTimer M d tt =
     (let timer = timer_low M d in
      if last_tick tt \<noteq> timer then
        let tt1 = tt\<lparr>last_tick := timer - 1\<rparr> in (last_tick tt1 = 0, tt1)
      else (False, tt))"

text \<open>
  The loop that the three waiting handlers share: it reads port \<open>p\<close> until the byte is \<open>ready\<close> (the
  result starts with \<open>True\<close>) or the timer expires, and yields in between.
\<close>

partial_function (option) poll_port ::
    "'d machine \<Rightarrow> u16 \<Rightarrow> (u8 \<Rightarrow> bool) \<Rightarrow> tick_timer_s \<Rightarrow> 'd \<Rightarrow> (bool \<times> u8 \<times> 'd) option" where
  "poll_port M p ready tt d =
     (let (v, d1) = inb M p d in
      if ready v then Some (True, v, d1)
      else
        let (expired, tt1) = checkTickTimer M d1 tt in
        if expired then Some (False, v, d1)
        else poll_port M p ready tt1 (yield M d1))"

section \<open>Serial ports\<close>

definition detect_serial :: "'d machine \<Rightarrow> u16 \<Rightarrow> u8 \<Rightarrow> nat \<Rightarrow> serial_bda \<times> 'd \<Rightarrow> nat \<times> serial_bda \<times> 'd" where
  "detect_serial M port timeout count bd =
     (let (b, d) = bd; d1 = outb M 0x02 (port + SEROFF_IER) d; (ier, d2) = inb M (port + SEROFF_IER) d1 in
      if ier \<noteq> 0x02 then (0, b, d2)
      else
        let (iir, d3) = inb M (port + SEROFF_IIR) d2 in
        if iir AND 0x3f \<noteq> 0x02 then (0, b, d3)
        else (1, b\<lparr>port_com := (port_com b)[count := port], com_timeout := (com_timeout b)[count := timeout]\<rparr>,
              outb M 0x00 (port + SEROFF_IER) d3))"

definition serial_setup :: "'d machine \<Rightarrow> serial_bda \<times> 'd \<Rightarrow> serial_bda \<times> 'd" where
  "serial_setup M bd0 =
     (let (n1, bd1) = detect_serial M PORT_SERIAL1 0x0a 0 bd0;
          (n2, bd2) = detect_serial M PORT_SERIAL2 0x0a n1 bd1;
          (n3, bd3) = detect_serial M PORT_SERIAL3 0x0a (n1 + n2) bd2;
          (n4, b, d) = detect_serial M PORT_SERIAL4 0x0a (n1 + n2 + n3) bd3;
          count = of_nat (n1 + n2 + n3 + n4)
      in (b\<lparr>equipment := (equipment b AND 0xf1ff) OR push_bit 9 count\<rparr>, d))"

text \<open>\<open>getComAddr\<close>: the address, or 0 with the carry flag set.\<close>

definition getComAddr :: "serial_bda \<Rightarrow> bregs \<Rightarrow> u16 \<times> bregs" where
  "getComAddr b r =
     (if r_dx r \<ge> 4 then (0, set_invalid r)
      else let addr = port_com b ! unat (r_dx r) in (addr, if addr = 0 then set_invalid r else r))"

definition handle_1400 :: "'d machine \<Rightarrow> serial_bda \<Rightarrow> bregs \<times> 'd \<Rightarrow> bregs \<times> 'd" where
  "handle_1400 M b rd =
     (let (r, d) = rd; (addr, r1) = getComAddr b r in
      if addr = 0 then (r1, d)
      else
        let (lcr, d1) = inb M (addr + SEROFF_LCR) d;
            d2 = outb M (lcr OR 0x80) (addr + SEROFF_LCR) d1;
            d3 = (if r_al r1 AND 0xE0 = 0 then outb M 0x04 (addr + SEROFF_DLH) (outb M 0x17 (addr + SEROFF_DLL) d2)
                  else
                    let val16 = drop_bit (unat (drop_bit 5 (r_al r1 AND 0xE0))) (0x600 :: u16)
                    in outb M (ucast (drop_bit 8 val16)) (addr + SEROFF_DLH)
                         (outb M (ucast (val16 AND 0xFF)) (addr + SEROFF_DLL) d2));
            d4 = outb M (r_al r1 AND 0x1F) (addr + SEROFF_LCR) d3;
            (lsr, d5) = inb M (addr + SEROFF_LSR) d4;
            (msr, d6) = inb M (addr + SEROFF_MSR) d5
        in (set_success (set_al msr (set_ah lsr r1)), d6))"

definition handle_1401 :: "'d machine \<Rightarrow> serial_bda \<Rightarrow> bregs \<times> 'd \<Rightarrow> (bregs \<times> 'd) option" where
  "handle_1401 M b rd =
     (let (r, d) = rd; (addr, r1) = getComAddr b r in
      if addr = 0 then Some (r1, d)
      else
        let tt = initTickTimer M (ucast (com_timeout b ! unat (r_dx r1))) d
        in map_option (\<lambda>(ok, lsr, d1).
             if ok then (set_success (set_ah lsr r1), outb M (r_al r1) (addr + SEROFF_DATA) d1)
             else (set_success (set_ah (lsr OR 0x80) r1), d1))
           (poll_port M (addr + SEROFF_LSR) (\<lambda>lsr. lsr AND 0x60 = 0x60) tt d))"

definition handle_1402 :: "'d machine \<Rightarrow> serial_bda \<Rightarrow> bregs \<times> 'd \<Rightarrow> (bregs \<times> 'd) option" where
  "handle_1402 M b rd =
     (let (r, d) = rd; (addr, r1) = getComAddr b r in
      if addr = 0 then Some (r1, d)
      else
        let tt = initTickTimer M (ucast (com_timeout b ! unat (r_dx r1))) d
        in map_option (\<lambda>(ok, lsr, d1).
             if ok then let (c, d2) = inb M (addr + SEROFF_DATA) d1 in (set_success (set_ah lsr (set_al c r1)), d2)
             else (set_success (set_ah (lsr OR 0x80) r1), d1))
           (poll_port M (addr + SEROFF_LSR) (\<lambda>lsr. lsr AND 0x01 \<noteq> 0) tt d))"

definition handle_1403 :: "'d machine \<Rightarrow> serial_bda \<Rightarrow> bregs \<times> 'd \<Rightarrow> bregs \<times> 'd" where
  "handle_1403 M b rd =
     (let (r, d) = rd; (addr, r1) = getComAddr b r in
      if addr = 0 then (r1, d)
      else
        let (lsr, d1) = inb M (addr + SEROFF_LSR) d; (msr, d2) = inb M (addr + SEROFF_MSR) d1
        in (set_success (set_al msr (set_ah lsr r1)), d2))"

definition handle_14XX :: "bregs \<Rightarrow> bregs" where
  "handle_14XX r = set_invalid r"

definition handle_14 :: "'d machine \<Rightarrow> serial_bda \<Rightarrow> bregs \<times> 'd \<Rightarrow> (bregs \<times> 'd) option" where
  "handle_14 M b rd =
     (let f = r_ah (fst rd) in
      if f = 0x00 then Some (handle_1400 M b rd)
      else if f = 0x01 then handle_1401 M b rd
      else if f = 0x02 then handle_1402 M b rd
      else if f = 0x03 then Some (handle_1403 M b rd)
      else Some (apfst handle_14XX rd))"

section \<open>Parallel ports\<close>

definition detect_parport :: "'d machine \<Rightarrow> u16 \<Rightarrow> u8 \<Rightarrow> nat \<Rightarrow> serial_bda \<times> 'd \<Rightarrow> nat \<times> serial_bda \<times> 'd" where
  "detect_parport M port timeout count bd =
     (let (b, d) = bd; (v, d1) = inb M (port + 2) d;
          d2 = outb M (v AND 0xdf) (port + 2) d1;
          d3 = outb M 0xaa port d2;
          (w, d4) = inb M port d3
      in if w \<noteq> 0xaa then (0, b, d4)
         else (1, b\<lparr>port_lpt := (port_lpt b)[count := port], lpt_timeout := (lpt_timeout b)[count := timeout]\<rparr>, d4))"

definition lpt_setup :: "'d machine \<Rightarrow> serial_bda \<times> 'd \<Rightarrow> serial_bda \<times> 'd" where
  "lpt_setup M bd0 =
     (let (n1, bd1) = detect_parport M PORT_LPT1 0x14 0 bd0;
          (n2, b, d) = detect_parport M PORT_LPT2 0x14 n1 bd1;
          count = of_nat (n1 + n2)
      in (b\<lparr>equipment := (equipment b AND 0x3fff) OR push_bit 14 count\<rparr>, d))"

definition getLptAddr :: "serial_bda \<Rightarrow> bregs \<Rightarrow> u16 \<times> bregs" where
  "getLptAddr b r =
     (if r_dx r \<ge> 3 then (0, set_invalid r)
      else let addr = port_lpt b ! unat (r_dx r) in (addr, if addr = 0 then set_invalid r else r))"

definition handle_1700 :: "'d machine \<Rightarrow> serial_bda \<Rightarrow> bregs \<times> 'd \<Rightarrow> (bregs \<times> 'd) option" where
  "handle_1700 M b rd =
     (let (r, d) = rd; (addr, r1) = getLptAddr b r in
      if addr = 0 then Some (r1, d)
      else
        let tt = initTickTimer M (ucast (lpt_timeout b ! unat (r_dx r1))) d;
            d1 = outb M (r_al r1) addr d;
            (val8, d2) = inb M (addr + 2) d1;
            d3 = outb M (val8 OR 0x01) (addr + 2) d2;
            d4 = outb M (val8 AND NOT 0x01) (addr + 2) d3
        in map_option (\<lambda>(ok, v, d5).
             (set_success (set_ah (if ok then v XOR 0x48 else (v XOR 0x48) OR 0x01) r1), d5))
           (poll_port M (addr + 1) (\<lambda>v. v AND 0x40 = 0) tt d4))"

definition handle_1701 :: "'d machine \<Rightarrow> serial_bda \<Rightarrow> bregs \<times> 'd \<Rightarrow> bregs \<times> 'd" where
  "handle_1701 M b rd =
     (let (r, d) = rd; (addr, r1) = getLptAddr b r in
      if addr = 0 then (r1, d)
      else
        let (val8, d1) = inb M (addr + 2) d;
            d2 = outb M (val8 AND NOT 0x04) (addr + 2) d1;
            d3 = outb M (val8 OR 0x04) (addr + 2) d2;
            (v, d4) = inb M (addr + 1) d3
        in (set_success (set_ah (v XOR 0x48) r1), d4))"

definition handle_1702 :: "'d machine \<Rightarrow> serial_bda \<Rightarrow> bregs \<times> 'd \<Rightarrow> bregs \<times> 'd" where
  "handle_1702 M b rd =
     (let (r, d) = rd; (addr, r1) = getLptAddr b r in
      if addr = 0 then (r1, d)
      else let (v, d1) = inb M (addr + 1) d in (set_success (set_ah (v XOR 0x48) r1), d1))"

definition handle_17XX :: "bregs \<Rightarrow> bregs" where
  "handle_17XX r = set_invalid r"

definition handle_17 :: "'d machine \<Rightarrow> serial_bda \<Rightarrow> bregs \<times> 'd \<Rightarrow> (bregs \<times> 'd) option" where
  "handle_17 M b rd =
     (let f = r_ah (fst rd) in
      if f = 0x00 then handle_1700 M b rd
      else if f = 0x01 then Some (handle_1701 M b rd)
      else if f = 0x02 then Some (handle_1702 M b rd)
      else Some (apfst handle_17XX rd))"

section \<open>Waiting\<close>

text \<open>
  The state of the devices when a loop that polls port \<open>p\<close> starts its turn \<open>k\<close>, the byte that it reads
  there, and the tick counter that it then sees.
\<close>

definition turn :: "'d machine \<Rightarrow> u16 \<Rightarrow> 'd \<Rightarrow> 'd" where
  "turn M p d = yield M (snd (inb M p d))"

definition poll :: "'d machine \<Rightarrow> u16 \<Rightarrow> 'd \<Rightarrow> nat \<Rightarrow> u8" where
  "poll M p d k = fst (inb M p ((turn M p ^^ k) d))"

definition tick :: "'d machine \<Rightarrow> u16 \<Rightarrow> 'd \<Rightarrow> nat \<Rightarrow> u16" where
  "tick M p d k = timer_low M (snd (inb M p ((turn M p ^^ k) d)))"

definition polled :: "'d machine \<Rightarrow> u16 \<Rightarrow> 'd \<Rightarrow> nat \<Rightarrow> 'd" where
  "polled M p d k = snd (inb M p ((turn M p ^^ k) d))"

lemmas poll_defs = poll_def tick_def polled_def

lemma poll_simps:
  "poll M p d 0 = fst (inb M p d)" "poll M p (turn M p d) k = poll M p d (Suc k)"
  "tick M p d 0 = timer_low M (snd (inb M p d))" "tick M p (turn M p d) k = tick M p d (Suc k)"
  "polled M p d 0 = snd (inb M p d)" "polled M p (turn M p d) k = polled M p d (Suc k)"
  by (simp_all add: poll_defs funpow_swap1)

text \<open>A timer only expires when the counter reads 1, whatever number of ticks it was made for.\<close>

lemma checkTickTimer_expires: "fst (checkTickTimer M d tt) \<Longrightarrow> timer_low M d = 1"
  by (auto simp: checkTickTimer_def Let_def split: if_splits)

lemma poll_port_step:
  "poll_port M p ready tt d =
     (if ready (poll M p d 0) then Some (True, poll M p d 0, polled M p d 0)
      else if fst (checkTickTimer M (polled M p d 0) tt) then Some (False, poll M p d 0, polled M p d 0)
      else poll_port M p ready (snd (checkTickTimer M (polled M p d 0) tt)) (turn M p d))"
  by (subst poll_port.simps) (simp add: poll_simps turn_def split_beta Let_def)

lemma poll_port_ready:
  assumes "ready (poll M p d n)" "\<And>k. k < n \<Longrightarrow> \<not> ready (poll M p d k) \<and> tick M p d k \<noteq> 1"
  shows "poll_port M p ready tt d = Some (True, poll M p d n, polled M p d n)"
  using assms
proof (induction n arbitrary: d tt)
  case 0
  then show ?case by (subst poll_port_step) simp
next
  case (Suc n)
  have "\<not> ready (poll M p d 0)" "tick M p d 0 \<noteq> 1" using Suc.prems(2) by auto
  moreover from this have "\<not> fst (checkTickTimer M (polled M p d 0) tt)"
    using checkTickTimer_expires by (fastforce simp: poll_defs)
  moreover have "poll_port M p ready tt' (turn M p d) = Some (True, poll M p (turn M p d) n, polled M p (turn M p d) n)" for tt'
    using Suc.prems by (intro Suc.IH) (simp_all add: poll_simps)
  ultimately show ?case by (subst poll_port_step) (simp add: poll_simps)
qed

lemma poll_port_returns:
  "poll_port M p ready tt d = Some y \<Longrightarrow> \<exists>k. ready (poll M p d k) \<or> tick M p d k = 1"
proof (induction rule: poll_port.raw_induct [rotated, consumes 1, case_names step])
  case (step f M p ready tt d y)
  obtain v d1 where v: "inb M p d = (v, d1)" by fastforce
  obtain e tt1 where e: "checkTickTimer M d1 tt = (e, tt1)" by fastforce
  consider "ready v" | "e" | "f M p ready tt1 (yield M d1) = Some y"
    using step(2) by (auto simp: v e split: if_splits)
  then show ?case
  proof cases
    case 1
    then show ?thesis by (intro exI [of _ 0]) (simp add: poll_simps v)
  next
    case 2
    then have "timer_low M d1 = 1" using checkTickTimer_expires [of M d1 tt] by (simp add: e)
    then show ?thesis by (intro exI [of _ 0]) (simp add: poll_simps v)
  next
    case 3
    moreover have "yield M d1 = turn M p d" by (simp add: turn_def v)
    ultimately show ?thesis using step(1) [of M p ready tt1 "turn M p d" y] by (auto simp: poll_simps)
  qed
qed

lemma getComAddr_present:
  "r_dx r < 4 \<Longrightarrow> port_com b ! unat (r_dx r) = addr \<Longrightarrow> addr \<noteq> 0 \<Longrightarrow> getComAddr b r = (addr, r)"
  by (auto simp: getComAddr_def Let_def)

section \<open>Detection\<close>

text \<open>The ports \<open>ps\<close> fill the first entries of the tables.\<close>

definition found :: "u16 list \<Rightarrow> serial_bda \<Rightarrow> serial_bda \<Rightarrow> bool" where
  "found ps b0 b \<longleftrightarrow> port_com b = ps @ drop (length ps) (port_com b0)
     \<and> com_timeout b = replicate (length ps) 0x0a @ drop (length ps) (com_timeout b0)
     \<and> equipment b = equipment b0"

lemma put_next: "length ps < length xs \<Longrightarrow> (ps @ drop (length ps) xs)[length ps := x] = ps @ x # drop (Suc (length ps)) xs"
  by (simp add: list_update_append Cons_nth_drop_Suc [symmetric])

lemma detect_serial_found:
  assumes "found ps b0 b" "length ps < length (port_com b0)" "length ps < length (com_timeout b0)"
    "detect_serial M port 0x0a (length ps) (b, d) = (n, b', d')"
  shows "\<exists>qs. subseq qs [port] \<and> n = length qs \<and> found (ps @ qs) b0 b'"
proof (cases n)
  case 0
  then have "b' = b" using assms(4) by (auto simp: detect_serial_def Let_def split: prod.splits if_splits)
  then show ?thesis using assms(1) 0 by (intro exI [of _ "[]"]) simp
next
  case (Suc k)
  then have "n = 1" "b' = b\<lparr>port_com := (port_com b)[length ps := port], com_timeout := (com_timeout b)[length ps := 0x0a]\<rparr>"
    using assms(4) by (auto simp: detect_serial_def Let_def split: prod.splits if_splits)
  then show ?thesis using assms(1-3) put_next [of "replicate (length ps) 0x0a" "com_timeout b0" "0x0a"]
    by (intro exI [of _ "[port]"]) (simp add: found_def put_next replicate_append_same [symmetric])
qed

lemma equipment_count:
  fixes e c :: u16
  assumes "c \<le> 4"
  shows "drop_bit 9 ((e AND 0xf1ff) OR push_bit 9 c) AND 7 = c" "((e AND 0xf1ff) OR push_bit 9 c) AND 0xf1ff = e AND 0xf1ff"
proof -
  have m: "(0xf1ff :: u16) = NOT (push_bit 9 (mask 3))" "(7 :: u16) = mask 3" by (simp_all add: mask_eq_decr_exp push_bit_eq_mult)
  have "unat c < 2 ^ 3" using assms by (simp add: word_le_nat_alt)
  then have c: "c = take_bit 3 c" by (simp add: word_eq_iff_unat unsigned_take_bit_eq take_bit_nat_eq_self)
  show "drop_bit 9 ((e AND 0xf1ff) OR push_bit 9 c) AND 7 = c" unfolding m
    by (subst (2) c, subst c, rule bit_eqI) (auto simp: bit_simps)
  show "((e AND 0xf1ff) OR push_bit 9 c) AND 0xf1ff = e AND 0xf1ff" unfolding m
    by (subst c, rule bit_eqI) (auto simp: bit_simps)
qed

section \<open>Properties\<close>

text \<open>
  A byte written with function 01h of interrupt 14h goes to the data port once the transmitter
  is empty, however long that takes: the handler waits through any number of polls at which it is
  not (provided that the tick counter does not read 1 at one of them), writes the byte once, and
  returns the line status in AH with the carry flag clear.
\<close>

theorem serial_write_waits_for_ready:
  fixes M :: "'d machine"
  assumes "r_ah r = 0x01" "r_dx r < 4" "port_com b ! unat (r_dx r) = addr" "addr \<noteq> 0"
    and "\<And>k. k < n \<Longrightarrow> poll M (addr + SEROFF_LSR) d k AND 0x60 \<noteq> 0x60 \<and> tick M (addr + SEROFF_LSR) d k \<noteq> 1"
    and "poll M (addr + SEROFF_LSR) d n AND 0x60 = 0x60"
  shows "\<exists>r'. handle_14 M b (r, d) = Some (r', outb M (r_al r) (addr + SEROFF_DATA) (polled M (addr + SEROFF_LSR) d n))
    \<and> r_ah r' = poll M (addr + SEROFF_LSR) d n \<and> r_al r' = r_al r \<and> \<not> cf r'"
proof -
  have "poll_port M (addr + SEROFF_LSR) (\<lambda>lsr. lsr AND 0x60 = 0x60) tt d
      = Some (True, poll M (addr + SEROFF_LSR) d n, polled M (addr + SEROFF_LSR) d n)" for tt
    using assms(5,6) by (intro poll_port_ready) simp_all
  then show ?thesis using assms(1-4)
    by (simp add: handle_14_def handle_1401_def getComAddr_present set_success_def) (simp add: reg_defs)
qed

text \<open>
  The time-out of a serial port has no effect: while the device is not ready and the low half
  of the tick counter does not read 1, writing to the port and reading from it never return,
  for every time-out stored in the BIOS data area.
\<close>

theorem com_timeout_ignored:
  fixes M :: "'d machine"
  assumes "r_ah r \<in> {1, 2}" "r_dx r < 4" "port_com b ! unat (r_dx r) = addr" "addr \<noteq> 0"
    and "\<And>k. poll M (addr + SEROFF_LSR) d k AND 0x61 = 0 \<and> tick M (addr + SEROFF_LSR) d k \<noteq> 1"
  shows "handle_14 M (b\<lparr>com_timeout := t\<rparr>) (r, d) = None"
proof -
  have never: "poll_port M (addr + SEROFF_LSR) ready tt d = None" if "\<And>v. v AND 0x61 = 0 \<Longrightarrow> \<not> ready v" for ready tt
    using poll_port_returns [of M "addr + SEROFF_LSR" ready tt d] that assms(5)
    by (cases "poll_port M (addr + SEROFF_LSR) ready tt d") auto
  have zero: "v AND m = 0" if "v AND 0x61 = 0" "m AND 0x61 = m" for v m :: u8
    using that by (metis and.assoc and.commute and_zero_eq)
  have "poll_port M (addr + SEROFF_LSR) (\<lambda>lsr. lsr AND 0x60 = 0x60) tt d = None" for tt
    using zero [of _ "0x60"] by (intro never) force
  moreover have "poll_port M (addr + SEROFF_LSR) (\<lambda>lsr. lsr AND 0x01 \<noteq> 0) tt d = None" for tt
    using zero [of _ "0x01"] by (intro never) simp
  ultimately show ?thesis using assms(1-4)
    by (auto simp: handle_14_def handle_1401_def handle_1402_def getComAddr_present [of _ "b\<lparr>com_timeout := t\<rparr>"])
qed

text \<open>
  \<open>serial_setup\<close> stores the ports that answer, in the order of the four standard addresses and
  without gaps, and writes their number into bits 9 to 11 of the equipment word, keeping the others.
\<close>

theorem serial_setup_found:
  assumes "length (port_com b) = 4" "length (com_timeout b) = 4" "serial_setup M (b, d) = (b', d')"
  shows "\<exists>ps. subseq ps [PORT_SERIAL1, PORT_SERIAL2, PORT_SERIAL3, PORT_SERIAL4]
    \<and> port_com b' = ps @ drop (length ps) (port_com b)
    \<and> com_timeout b' = replicate (length ps) 0x0a @ drop (length ps) (com_timeout b)
    \<and> drop_bit 9 (equipment b') AND 7 = of_nat (length ps)
    \<and> equipment b' AND 0xf1ff = equipment b AND 0xf1ff"
proof -
  have b0: "found [] b b" by (simp add: found_def)
  obtain n1 b1 d1 where s1: "detect_serial M PORT_SERIAL1 0x0a 0 (b, d) = (n1, b1, d1)" by (metis prod_cases3)
  obtain n2 b2 d2 where s2: "detect_serial M PORT_SERIAL2 0x0a n1 (b1, d1) = (n2, b2, d2)" by (metis prod_cases3)
  obtain n3 b3 d3 where s3: "detect_serial M PORT_SERIAL3 0x0a (n1 + n2) (b2, d2) = (n3, b3, d3)" by (metis prod_cases3)
  obtain n4 b4 d4 where s4: "detect_serial M PORT_SERIAL4 0x0a (n1 + n2 + n3) (b3, d3) = (n4, b4, d4)" by (metis prod_cases3)
  obtain p1 where p1: "subseq p1 [PORT_SERIAL1]" "n1 = length p1" "found p1 b b1"
    using detect_serial_found [OF b0, of M PORT_SERIAL1 d n1 b1 d1] s1 assms(1,2) by auto
  obtain p2 where p2: "subseq p2 [PORT_SERIAL2]" "n2 = length p2" "found (p1 @ p2) b b2"
    using detect_serial_found [OF p1(3), of M PORT_SERIAL2 d1 n2 b2 d2] s2 assms(1,2) p1(2) list_emb_length [OF p1(1)] by auto
  obtain p3 where p3: "subseq p3 [PORT_SERIAL3]" "n3 = length p3" "found ((p1 @ p2) @ p3) b b3"
    using detect_serial_found [OF p2(3), of M PORT_SERIAL3 d2 n3 b3 d3] s3 assms(1,2) p1(2) p2(2)
      list_emb_length [OF p1(1)] list_emb_length [OF p2(1)] by auto
  obtain p4 where p4: "subseq p4 [PORT_SERIAL4]" "n4 = length p4" "found (((p1 @ p2) @ p3) @ p4) b b4"
    using detect_serial_found [OF p3(3), of M PORT_SERIAL4 d3 n4 b4 d4] s4 assms(1,2) p1(2) p2(2) p3(2)
      list_emb_length [OF p1(1)] list_emb_length [OF p2(1)] list_emb_length [OF p3(1)] by (auto simp: add.assoc)
  let ?ps = "((p1 @ p2) @ p3) @ p4"
  have sub: "subseq ?ps [PORT_SERIAL1, PORT_SERIAL2, PORT_SERIAL3, PORT_SERIAL4]"
    using list_emb_append_mono [OF list_emb_append_mono [OF list_emb_append_mono [OF p1(1) p2(1)] p3(1)] p4(1)] by simp
  then have n: "length ?ps \<le> 4" using list_emb_length by fastforce
  have small: "(of_nat n :: u16) \<le> 4" if "n \<le> 4" for n
    using that by (simp add: word_le_nat_alt unsigned_of_nat take_bit_nat_eq_self)
  have "b' = b4\<lparr>equipment := (equipment b4 AND 0xf1ff) OR push_bit 9 (of_nat (n1 + n2 + n3 + n4))\<rparr>"
    using assms(3) by (simp add: serial_setup_def s1 s2 s3 s4)
  then show ?thesis using sub p1(2) p2(2) p3(2) p4(2,3) equipment_count [OF small [OF n], of "equipment b"]
    by (intro exI [of _ ?ps]) (simp add: found_def add.assoc)
qed

text \<open>A machine whose devices count their polls: the transmitter of the first port is empty from the third poll on.\<close>

definition ex_machine :: "nat machine" where
  "ex_machine = \<lparr>inb = (\<lambda>p d. (if p = 0x3fd then (if d \<ge> 2 then 0x60 else 0) else 0xff, d)), outb = (\<lambda>v p d. d),
     timer_low = (\<lambda>d. 7), yield = Suc\<rparr>"

definition ex_bda :: serial_bda where
  "ex_bda = \<lparr>port_com = [0x3f8, 0, 0, 0], port_lpt = [0, 0, 0], com_timeout = [0x0a, 0, 0, 0],
     lpt_timeout = [0, 0, 0, 0], equipment = 0x200\<rparr>"

definition ex_serial_regs :: "u8 \<Rightarrow> bregs" where
  "ex_serial_regs ah = \<lparr>r_ds = 0, r_es = 0, r_edi = 0, r_esi = 0, r_ebp = 0, r_ebx = 0, r_edx = 0, r_ecx = 0,
     r_eax = push_bit 8 (ucast ah) OR 0x41, r_flags = 0\<rparr>"

lemma ex_machine_turns: "(turn ex_machine p ^^ k) d = d + k"
  by (induction k) (simp_all add: turn_def ex_machine_def)

theorem serial_write_waits_for_ready_witness:
  "\<exists>r'. handle_14 ex_machine ex_bda (ex_serial_regs 1, 0) = Some (r', 2) \<and> r_ah r' = 0x60 \<and> r_al r' = 0x41 \<and> \<not> cf r'"
proof -
  have "poll ex_machine 0x3fd 0 k AND 0x60 \<noteq> 0x60 \<and> tick ex_machine 0x3fd 0 k \<noteq> 1" if "k < 2" for k
    unfolding poll_def tick_def ex_machine_turns using that by (simp add: ex_machine_def)
  moreover have "poll ex_machine 0x3fd 0 2 = 0x60" "polled ex_machine 0x3fd 0 2 = 2"
    unfolding poll_def polled_def ex_machine_turns by (simp_all add: ex_machine_def)
  moreover have "r_ah (ex_serial_regs 1) = 1" "r_dx (ex_serial_regs 1) = 0" "r_al (ex_serial_regs 1) = 0x41"
      "port_com ex_bda ! 0 = 0x3f8" "outb ex_machine v p d = d" for v p d
    by (simp_all add: ex_serial_regs_def reg_defs lo8_def hi8_def lo16_def ex_machine_def ex_bda_def)
  ultimately show ?thesis
    using serial_write_waits_for_ready [of "ex_serial_regs 1" ex_bda "0x3f8" 2 ex_machine 0]
    by (simp add: SEROFF_LSR_def)
qed

theorem com_timeout_ignored_witness:
  "handle_14 (ex_machine\<lparr>inb := \<lambda>p d. (0, d)\<rparr>) (ex_bda\<lparr>com_timeout := [1, 1, 1, 1]\<rparr>) (ex_serial_regs 1, 0) = None"
proof -
  have "poll (ex_machine\<lparr>inb := \<lambda>p d. (0, d)\<rparr>) p 0 k AND 0x61 = 0 \<and> tick (ex_machine\<lparr>inb := \<lambda>p d. (0, d)\<rparr>) p 0 k \<noteq> 1" for p k
    by (simp add: poll_def tick_def ex_machine_def)
  then show ?thesis
    using com_timeout_ignored [of "ex_serial_regs 1" ex_bda "0x3f8" "ex_machine\<lparr>inb := \<lambda>p d. (0, d)\<rparr>" 0 "[1, 1, 1, 1]"]
    by (simp add: ex_bda_def ex_serial_regs_def reg_defs hi8_def lo16_def)
qed

theorem serial_setup_found_witness:
  "\<exists>ps. subseq ps [PORT_SERIAL1, PORT_SERIAL2, PORT_SERIAL3, PORT_SERIAL4]
    \<and> port_com (fst (serial_setup ex_machine (ex_bda, 0))) = ps @ drop (length ps) (port_com ex_bda)"
  using serial_setup_found [of ex_bda ex_machine 0 "fst (serial_setup ex_machine (ex_bda, 0))" "snd (serial_setup ex_machine (ex_bda, 0))"]
  by (auto simp: ex_bda_def)

end
