(* ===== verification/Pci.thy ===== *)
theory Pci
  imports Bios_Util
begin

text \<open>
  \<open>bios/seabios/src/pci.c\<close> and \<open>pci.h\<close>: access to the configuration space, the enumeration of the
  devices (\<open>pci_next\<close>, \<open>foreachpci\<close>) and the searches built on it.

  The configuration space is that of the PCI specification: an address register that selects a
  device and an aligned register of 32 bits, and a data register through which bytes, words or long
  words of the selected register are read and written. \<open>pci_cfg\<close> holds the registers and \<open>pci_wmask\<close>
  which of their bits can be written; an absent device reads as ones. A device number is a natural
  number where the source has an \<open>int\<close>, and \<open>None\<close> where it has -1. The two additional roots are
  disabled in the configuration.
\<close>

unbundle bit_operations_syntax

section \<open>Registers\<close>

definition PCI_VENDOR_ID :: u32 where "PCI_VENDOR_ID = 0x00"
definition PCI_DEVICE_ID :: u32 where "PCI_DEVICE_ID = 0x02"
definition PCI_COMMAND :: u32 where "PCI_COMMAND = 0x04"
definition PCI_CLASS_DEVICE :: u32 where "PCI_CLASS_DEVICE = 0x0a"
definition PCI_HEADER_TYPE :: u32 where "PCI_HEADER_TYPE = 0x0e"
definition PCI_PRIMARY_BUS :: u32 where "PCI_PRIMARY_BUS = 0x18"
definition PCI_BRIDGE_CONTROL :: u32 where "PCI_BRIDGE_CONTROL = 0x3e"
definition PCI_COMMAND_IO :: u16 where "PCI_COMMAND_IO = 0x1"
definition PCI_COMMAND_MEMORY :: u16 where "PCI_COMMAND_MEMORY = 0x2"
definition PCI_HEADER_TYPE_BRIDGE :: u8 where "PCI_HEADER_TYPE_BRIDGE = 1"
definition PCI_HEADER_TYPE_CARDBUS :: u8 where "PCI_HEADER_TYPE_CARDBUS = 2"
definition PCI_BRIDGE_CTL_VGA :: u8 where "PCI_BRIDGE_CTL_VGA = 0x08"
definition PCI_CLASS_DISPLAY_VGA :: u16 where "PCI_CLASS_DISPLAY_VGA = 0x0300"

lemmas pci_reg_defs = PCI_VENDOR_ID_def PCI_DEVICE_ID_def PCI_COMMAND_def PCI_CLASS_DEVICE_def PCI_HEADER_TYPE_def
  PCI_PRIMARY_BUS_def PCI_BRIDGE_CONTROL_def

definition pci_bdf_to_bus :: "u16 \<Rightarrow> u8" where "pci_bdf_to_bus bdf = ucast (drop_bit 8 bdf)"
definition pci_bdf_to_devfn :: "u16 \<Rightarrow> u8" where "pci_bdf_to_devfn bdf = ucast (bdf AND 0xff)"
definition pci_bdf_to_busdev :: "u16 \<Rightarrow> u16" where "pci_bdf_to_busdev bdf = bdf AND NOT 0x07"
definition pci_bdf_to_dev :: "u16 \<Rightarrow> u8" where "pci_bdf_to_dev bdf = ucast (drop_bit 3 bdf AND 0x1f)"
definition pci_bdf_to_fn :: "u16 \<Rightarrow> u8" where "pci_bdf_to_fn bdf = ucast (bdf AND 0x07)"
definition pci_to_bdf :: "u16 \<Rightarrow> u16 \<Rightarrow> u16 \<Rightarrow> u16" where
  "pci_to_bdf bus dev fn = push_bit 8 bus OR push_bit 3 dev OR fn"

section \<open>Configuration space\<close>

record pci =
  pci_cmd :: u32
  pci_cfg :: "u16 \<Rightarrow> u32 \<Rightarrow> u32"
  pci_wmask :: "u16 \<Rightarrow> u32 \<Rightarrow> u32"

definition latched_bdf :: "u32 \<Rightarrow> u16" where "latched_bdf v = ucast (drop_bit 8 v)"
definition latched_reg :: "u32 \<Rightarrow> u32" where "latched_reg v = v AND 0xfc"

text \<open>The write of the address register, and reads and writes of the data register at a byte offset.\<close>

definition outl_cmd :: "u32 \<Rightarrow> 'a pci_scheme \<Rightarrow> 'a pci_scheme" where
  "outl_cmd v s = s\<lparr>pci_cmd := v\<rparr>"

definition in_data :: "u32 \<Rightarrow> 'a pci_scheme \<Rightarrow> u32" where
  "in_data off s = drop_bit (8 * unat off) (pci_cfg s (latched_bdf (pci_cmd s)) (latched_reg (pci_cmd s)))"

definition out_data :: "u32 \<Rightarrow> u32 \<Rightarrow> u32 \<Rightarrow> 'a pci_scheme \<Rightarrow> 'a pci_scheme" where
  "out_data enable v off s =
     (let b = latched_bdf (pci_cmd s); g = latched_reg (pci_cmd s);
          wm = pci_wmask s b g AND push_bit (8 * unat off) enable;
          new = (pci_cfg s b g AND NOT wm) OR (push_bit (8 * unat off) v AND wm)
      in s\<lparr>pci_cfg := (pci_cfg s)(b := (pci_cfg s b)(g := new))\<rparr>)"

definition pci_address :: "u16 \<Rightarrow> u32 \<Rightarrow> u32" where
  "pci_address bdf addr = 0x80000000 OR push_bit 8 (ucast bdf) OR (addr AND 0xfc)"

definition pci_config_writel :: "u16 \<Rightarrow> u32 \<Rightarrow> u32 \<Rightarrow> 'a pci_scheme \<Rightarrow> 'a pci_scheme" where
  "pci_config_writel bdf addr val s = out_data 0xffffffff val 0 (outl_cmd (pci_address bdf addr) s)"

definition pci_config_writew :: "u16 \<Rightarrow> u32 \<Rightarrow> u16 \<Rightarrow> 'a pci_scheme \<Rightarrow> 'a pci_scheme" where
  "pci_config_writew bdf addr val s = out_data 0xffff (ucast val) (addr AND 2) (outl_cmd (pci_address bdf addr) s)"

definition pci_config_writeb :: "u16 \<Rightarrow> u32 \<Rightarrow> u8 \<Rightarrow> 'a pci_scheme \<Rightarrow> 'a pci_scheme" where
  "pci_config_writeb bdf addr val s = out_data 0xff (ucast val) (addr AND 3) (outl_cmd (pci_address bdf addr) s)"

definition pci_config_readl :: "u16 \<Rightarrow> u32 \<Rightarrow> 'a pci_scheme \<Rightarrow> u32 \<times> 'a pci_scheme" where
  "pci_config_readl bdf addr s = (let s1 = outl_cmd (pci_address bdf addr) s in (in_data 0 s1, s1))"

definition pci_config_readw :: "u16 \<Rightarrow> u32 \<Rightarrow> 'a pci_scheme \<Rightarrow> u16 \<times> 'a pci_scheme" where
  "pci_config_readw bdf addr s = (let s1 = outl_cmd (pci_address bdf addr) s in (ucast (in_data (addr AND 2) s1), s1))"

definition pci_config_readb :: "u16 \<Rightarrow> u32 \<Rightarrow> 'a pci_scheme \<Rightarrow> u8 \<times> 'a pci_scheme" where
  "pci_config_readb bdf addr s = (let s1 = outl_cmd (pci_address bdf addr) s in (ucast (in_data (addr AND 3) s1), s1))"

definition pci_config_maskw :: "u16 \<Rightarrow> u32 \<Rightarrow> u16 \<Rightarrow> u16 \<Rightarrow> 'a pci_scheme \<Rightarrow> 'a pci_scheme" where
  "pci_config_maskw bdf addr off on s =
     (let (val, s1) = pci_config_readw bdf addr s in pci_config_writew bdf addr ((val AND NOT off) OR on) s1)"

lemma latched_address [simp]:
  "latched_bdf (pci_address bdf addr) = bdf" "latched_reg (pci_address bdf addr) = addr AND 0xfc"
proof -
  have m: "(0xfc :: u32) = push_bit 2 (mask 6)" by (simp add: mask_eq_decr_exp push_bit_eq_mult)
  have "ucast (drop_bit 8 (push_bit 8 (ucast bdf :: u32))) = bdf"
    by (rule bit_eqI) (auto simp: bit_simps dest: bit_imp_le_length)
  moreover have "(ucast (drop_bit 8 (addr AND 0xfc)) :: u16) = 0" unfolding m
    by (rule bit_eqI) (auto simp: bit_simps)
  moreover have z: "(ucast (drop_bit 8 (0x80000000 :: u32)) :: u16) = 0" by (simp add: word_eq_iff_unat)
  ultimately show "latched_bdf (pci_address bdf addr) = bdf"
    unfolding latched_bdf_def pci_address_def drop_bit_or unsigned_or_eq z by simp
  have "push_bit 8 (ucast bdf) AND (0xfc :: u32) = 0" unfolding m
    by (rule bit_eqI) (auto simp: bit_simps)
  then show "latched_reg (pci_address bdf addr) = addr AND 0xfc"
    by (simp add: latched_reg_def pci_address_def bit.conj_disj_distrib2 and.assoc)
qed

lemma pci_config_read:
  "pci_config_readl bdf addr s = (pci_cfg s bdf (addr AND 0xfc), s\<lparr>pci_cmd := pci_address bdf addr\<rparr>)"
  "pci_config_readw bdf addr s
     = (ucast (drop_bit (8 * unat (addr AND 2)) (pci_cfg s bdf (addr AND 0xfc))), s\<lparr>pci_cmd := pci_address bdf addr\<rparr>)"
  "pci_config_readb bdf addr s
     = (ucast (drop_bit (8 * unat (addr AND 3)) (pci_cfg s bdf (addr AND 0xfc))), s\<lparr>pci_cmd := pci_address bdf addr\<rparr>)"
  by (simp_all add: pci_config_readl_def pci_config_readw_def pci_config_readb_def in_data_def outl_cmd_def Let_def)

section \<open>Enumeration\<close>

function pci_next_loop :: "nat \<Rightarrow> nat \<Rightarrow> 'a pci_scheme \<Rightarrow> nat option \<times> 'a pci_scheme" where
  "pci_next_loop bdf bound s =
     (if bdf \<ge> bound then (None, s)
      else
        let (v, s1) = pci_config_readw (of_nat bdf) PCI_VENDOR_ID s in
        if v \<noteq> 0x0000 \<and> v \<noteq> 0xffff then (Some bdf, s1)
        else pci_next_loop (if pci_bdf_to_fn (of_nat bdf) = 0 then bdf + 8 else bdf + 1) bound s1)"
  by pat_completeness auto
termination by (relation "measure (\<lambda>(bdf, bound, s). bound - bdf)") auto

declare pci_next_loop.simps [simp del]

definition bridge_type :: "u8 \<Rightarrow> bool" where
  "bridge_type v \<longleftrightarrow> v = PCI_HEADER_TYPE_BRIDGE \<or> v = PCI_HEADER_TYPE_CARDBUS"

text \<open>\<open>pci_next\<close> returns the device and the new value of \<open>*pmax\<close>.\<close>

definition pci_next :: "nat \<Rightarrow> nat \<Rightarrow> 'a pci_scheme \<Rightarrow> (nat \<times> nat) option \<times> 'a pci_scheme" where
  "pci_next bdf bound s =
     (let (bdf1, s1) =
        (if pci_bdf_to_fn (of_nat bdf) = 1 then
           let (h, s1) = pci_config_readb (of_nat (bdf - 1)) PCI_HEADER_TYPE s
           in (if h AND 0x80 = 0 then bdf + 7 else bdf, s1)
         else (bdf, s));
        (found, s2) = pci_next_loop bdf1 bound s1
      in case found of
        None \<Rightarrow> (None, s2)
      | Some b \<Rightarrow>
          let (v, s3) = pci_config_readb (of_nat b) PCI_HEADER_TYPE s2 in
          if bridge_type (v AND 0x7f) then
            let (w, s4) = pci_config_readl (of_nat b) PCI_PRIMARY_BUS s3;
                newmax = unat (w AND 0xff00) + 0x0100
            in (Some (b, if newmax > bound then newmax else bound), s4)
          else (Some (b, bound), s3))"

lemma unat_and_ff00: "unat ((w :: u32) AND 0xff00) \<le> 0xff00"
  using unat_and_le2 [of "0xff00" w] by (simp add: and.commute)

text \<open>What the enumeration reads from the registers of a device.\<close>

definition present :: "'a pci_scheme \<Rightarrow> nat \<Rightarrow> bool" where
  "present s b \<longleftrightarrow> (let v = ucast (pci_cfg s (of_nat b) 0) :: u16 in v \<noteq> 0x0000 \<and> v \<noteq> 0xffff)"

definition header :: "'a pci_scheme \<Rightarrow> nat \<Rightarrow> u8" where
  "header s b = ucast (drop_bit 16 (pci_cfg s (of_nat b) 0x0c))"

definition multifunction :: "'a pci_scheme \<Rightarrow> nat \<Rightarrow> bool" where
  "multifunction s b \<longleftrightarrow> header s b AND 0x80 \<noteq> 0"

definition bridge :: "'a pci_scheme \<Rightarrow> nat \<Rightarrow> bool" where
  "bridge s b \<longleftrightarrow> bridge_type (header s b AND 0x7f)"

definition bus_end :: "'a pci_scheme \<Rightarrow> nat \<Rightarrow> nat" where
  "bus_end s b = unat (pci_cfg s (of_nat b) 0x18 AND 0xff00) + 0x0100"

lemmas cfg_views = present_def header_def multifunction_def bridge_def bus_end_def

lemma views_cmd [simp]:
  "present (s\<lparr>pci_cmd := c\<rparr>) = present s" "header (s\<lparr>pci_cmd := c\<rparr>) = header s"
  "multifunction (s\<lparr>pci_cmd := c\<rparr>) = multifunction s" "bridge (s\<lparr>pci_cmd := c\<rparr>) = bridge s"
  "bus_end (s\<lparr>pci_cmd := c\<rparr>) = bus_end s"
  by (simp_all add: fun_eq_iff cfg_views)

lemma cmd_ex [simp]: "\<exists>c. s\<lparr>pci_cmd := d\<rparr> = s\<lparr>pci_cmd := c\<rparr>" "\<exists>c. s = s\<lparr>pci_cmd := c\<rparr>"
  by (rule exI [of _ d], simp, rule exI [of _ "pci_cmd s"], simp)

lemma fn_mod8: "pci_bdf_to_fn (of_nat b) = of_nat (b mod 8)"
proof -
  have m: "(0x07 :: u16) = mask 3" by (simp add: mask_eq_decr_exp)
  have "unat (take_bit 3 (of_nat b :: u16)) = b mod 8"
    unfolding unsigned_take_bit_eq unfolding unsigned_of_nat take_bit_eq_mod by (simp add: mod_mod_cancel)
  then show ?thesis unfolding pci_bdf_to_fn_def m take_bit_eq_mask [symmetric]
    by (metis of_nat_unat ucast_eq unsigned_of_nat unat_ucast_fits)
qed

lemma fn_cases: "pci_bdf_to_fn (of_nat b) = 0 \<longleftrightarrow> b mod 8 = 0" "pci_bdf_to_fn (of_nat b) = 1 \<longleftrightarrow> b mod 8 = 1"
proof -
  have u: "unat (of_nat (b mod 8) :: u8) = b mod 8" by (simp add: unsigned_of_nat take_bit_eq_mod)
  show "pci_bdf_to_fn (of_nat b) = 0 \<longleftrightarrow> b mod 8 = 0" "pci_bdf_to_fn (of_nat b) = 1 \<longleftrightarrow> b mod 8 = 1"
    unfolding fn_mod8 word_eq_iff_unat u by simp_all
qed

lemma read_views:
  "pci_config_readw (of_nat b) PCI_VENDOR_ID s = (ucast (pci_cfg s (of_nat b) 0), s\<lparr>pci_cmd := pci_address (of_nat b) PCI_VENDOR_ID\<rparr>)"
  "pci_config_readb (of_nat b) PCI_HEADER_TYPE s = (header s b, s\<lparr>pci_cmd := pci_address (of_nat b) PCI_HEADER_TYPE\<rparr>)"
  "pci_config_readl (of_nat b) PCI_PRIMARY_BUS s = (pci_cfg s (of_nat b) 0x18, s\<lparr>pci_cmd := pci_address (of_nat b) PCI_PRIMARY_BUS\<rparr>)"
  by (simp_all add: pci_config_read pci_reg_defs header_def)

text \<open>The search for the next device over what it reads.\<close>

function next_present :: "(nat \<Rightarrow> bool) \<Rightarrow> nat \<Rightarrow> nat \<Rightarrow> nat option" where
  "next_present P b n =
     (if b \<ge> n then None else if P b then Some b else next_present P (if b mod 8 = 0 then b + 8 else b + 1) n)"
  by pat_completeness auto
termination by (relation "measure (\<lambda>(P, b, n). n - b)") auto

declare next_present.simps [simp del]

lemma pci_next_loop_eq: "\<exists>c. pci_next_loop b n s = (next_present (present s) b n, s\<lparr>pci_cmd := c\<rparr>)"
proof (induction b n s rule: pci_next_loop.induct)
  case (1 b n s)
  let ?s = "s\<lparr>pci_cmd := pci_address (of_nat b) PCI_VENDOR_ID\<rparr>" and ?v = "ucast (pci_cfg s (of_nat b) 0) :: u16"
  have v: "(?v \<noteq> 0 \<and> ?v \<noteq> 0xffff) = present s b" by (simp add: present_def Let_def)
  consider "n \<le> b" | "b < n" "present s b" | "b < n" "\<not> present s b" by linarith
  then show ?case
  proof cases
    case 1
    then show ?thesis
      by (intro exI [of _ "pci_cmd s"]) (simp add: pci_next_loop.simps [of b] next_present.simps [of _ b])
  next
    case 2
    then show ?thesis
      by (subst pci_next_loop.simps, subst next_present.simps) (simp add: read_views v)
  next
    case 3
    then show ?thesis using "1.IH" [of "(?v, ?s)" ?v ?s]
      by (subst pci_next_loop.simps, subst next_present.simps) (auto simp: read_views v fn_cases)
  qed
qed

definition after_single :: "'a pci_scheme \<Rightarrow> nat \<Rightarrow> nat" where
  "after_single s b = (if b mod 8 = 1 \<and> \<not> multifunction s (b - 1) then b + 7 else b)"

lemma pci_next_eq:
  "\<exists>c. pci_next b n s =
     (map_option (\<lambda>x. (x, if bridge s x then max n (bus_end s x) else n)) (next_present (present s) (after_single s b) n),
      s\<lparr>pci_cmd := c\<rparr>)"
proof -
  have "\<exists>c. (if b mod 8 = 1 then
           let (h, s1) = pci_config_readb (of_nat (b - 1)) PCI_HEADER_TYPE s
           in (if h AND 0x80 = 0 then b + 7 else b, s1)
         else (b, s)) = (after_single s b, s\<lparr>pci_cmd := c\<rparr>)"
    unfolding read_views after_single_def multifunction_def by simp
  then obtain c where c: "(if b mod 8 = 1 then
           let (h, s1) = pci_config_readb (of_nat (b - 1)) PCI_HEADER_TYPE s
           in (if h AND 0x80 = 0 then b + 7 else b, s1)
         else (b, s)) = (after_single s b, s\<lparr>pci_cmd := c\<rparr>)" ..
  obtain c' where "pci_next_loop (after_single s b) n (s\<lparr>pci_cmd := c\<rparr>)
      = (next_present (present s) (after_single s b) n, s\<lparr>pci_cmd := c'\<rparr>)"
    using pci_next_loop_eq [of "after_single s b" n "s\<lparr>pci_cmd := c\<rparr>"] by auto
  then show ?thesis unfolding pci_next_def fn_cases c
    by (auto simp: Let_def read_views bridge_def bus_end_def max_def split: option.split)
qed

lemma next_present_bounds: "next_present P b n = Some x \<Longrightarrow> b \<le> x \<and> x < n \<and> P x"
  by (induction P b n rule: next_present.induct) (subst (asm) (2) next_present.simps, fastforce split: if_splits)

lemma pci_next_bounds:
  assumes "pci_next b n s = (Some (x, m), s')"
  shows "b \<le> x \<and> x < n \<and> n \<le> m \<and> m \<le> max n 0x10000"
proof -
  have "next_present (present s) (after_single s b) n = Some x" "m = (if bridge s x then max n (bus_end s x) else n)"
    using assms pci_next_eq [of b n s] by (cases "next_present (present s) (after_single s b) n"; auto)+
  moreover have "b \<le> after_single s b" by (simp add: after_single_def)
  moreover have "bus_end s x \<le> 0x10000" using unat_and_ff00 [of "pci_cfg s (of_nat x) 0x18"] by (simp add: bus_end_def)
  ultimately show ?thesis using next_present_bounds [of "present s" "after_single s b" n x] by auto
qed

text \<open>The loop \<open>foreachpci (bdf, max) body\<close>.\<close>

function foreachpci_from :: "(nat \<Rightarrow> 'a pci_scheme \<Rightarrow> 'a pci_scheme) \<Rightarrow> nat \<Rightarrow> nat \<Rightarrow> 'a pci_scheme \<Rightarrow> 'a pci_scheme" where
  "foreachpci_from body b n s =
     (case pci_next b n s of
        (None, s1) \<Rightarrow> s1
      | (Some (x, m), s1) \<Rightarrow> foreachpci_from body (x + 1) m (body x s1))"
  by pat_completeness auto
termination
  by (relation "measure (\<lambda>(body, b, n, s). max n 0x10000 - b)") (auto dest!: pci_next_bounds [OF sym] simp: max_def split: if_splits)

definition foreachpci :: "(nat \<Rightarrow> 'a pci_scheme \<Rightarrow> 'a pci_scheme) \<Rightarrow> 'a pci_scheme \<Rightarrow> 'a pci_scheme" where
  "foreachpci body s = foreachpci_from body 0 0x0100 s"

text \<open>The same loop with a body that returns the device when a test on it holds.\<close>

function find_pci_from :: "(nat \<Rightarrow> 'a pci_scheme \<Rightarrow> bool \<times> 'a pci_scheme) \<Rightarrow> nat \<Rightarrow> nat \<Rightarrow> 'a pci_scheme \<Rightarrow> nat option \<times> 'a pci_scheme" where
  "find_pci_from test b n s =
     (case pci_next b n s of
        (None, s1) \<Rightarrow> (None, s1)
      | (Some (x, m), s1) \<Rightarrow>
          (case test x s1 of (hit, s2) \<Rightarrow> if hit then (Some x, s2) else find_pci_from test (x + 1) m s2))"
  by pat_completeness auto
termination
  by (relation "measure (\<lambda>(test, b, n, s). max n 0x10000 - b)") (auto dest!: pci_next_bounds [OF sym] simp: max_def split: if_splits)

declare foreachpci_from.simps [simp del] find_pci_from.simps [simp del]

definition pci_find_device :: "u16 \<Rightarrow> u16 \<Rightarrow> 'a pci_scheme \<Rightarrow> nat option \<times> 'a pci_scheme" where
  "pci_find_device vendid devid s =
     (let id = push_bit 16 (ucast devid) OR ucast vendid in
      find_pci_from (\<lambda>bdf s. let (v, s1) = pci_config_readl (of_nat bdf) PCI_VENDOR_ID s in (v = id, s1)) 0 0x0100 s)"

definition pci_find_class :: "u16 \<Rightarrow> 'a pci_scheme \<Rightarrow> nat option \<times> 'a pci_scheme" where
  "pci_find_class classid s =
     find_pci_from (\<lambda>bdf s. let (v, s1) = pci_config_readw (of_nat bdf) PCI_CLASS_DEVICE s in (v = classid, s1)) 0 0x0100 s"

text \<open>\<open>pci_find_vga\<close>: one turn of its loop ends the search (\<open>Inl\<close>) or gives the next device and bound.\<close>

definition find_vga_turn :: "nat \<Rightarrow> nat \<Rightarrow> 'a pci_scheme \<Rightarrow> (nat option + nat \<times> nat) \<times> 'a pci_scheme" where
  "find_vga_turn bdf bound s =
     (if bdf \<ge> bound then (Inl None, s)
      else
        let (cls, s1) = pci_config_readw (of_nat bdf) PCI_CLASS_DEVICE s in
        if cls = 0x0000 \<or> cls = 0xffff then
          (Inr (if pci_bdf_to_fn (of_nat bdf) = 0 then bdf + 8 else bdf + 1, bound), s1)
        else
          let (hit, s2) = (if cls = PCI_CLASS_DISPLAY_VGA then
                             let (cmd, s2) = pci_config_readw (of_nat bdf) PCI_COMMAND s1
                             in (cmd AND PCI_COMMAND_IO \<noteq> 0 \<and> cmd AND PCI_COMMAND_MEMORY \<noteq> 0, s2)
                           else (False, s1))
          in if hit then (Inl (Some bdf), s2)
             else
               let (hdr, s3) = pci_config_readb (of_nat bdf) PCI_HEADER_TYPE s2;
                   (vga, s4) = (if bridge_type (hdr AND 0x7f) then
                                  let (ctrl, s4) = pci_config_readb (of_nat bdf) PCI_BRIDGE_CONTROL s3
                                  in (ctrl AND PCI_BRIDGE_CTL_VGA \<noteq> 0, s4)
                                else (False, s3))
               in if vga then
                    let (pbus, s5) = pci_config_readl (of_nat bdf) PCI_PRIMARY_BUS s4; b = unat (pbus AND 0xff00)
                    in (Inr (b, b + 0x100), s5)
                  else
                    (Inr (if pci_bdf_to_fn (of_nat bdf) = 0 \<and> hdr AND 0x80 = 0 then bdf + 8 else bdf + 1, bound), s4))"

partial_function (option) find_vga_loop :: "nat \<Rightarrow> nat \<Rightarrow> 'a pci_scheme \<Rightarrow> (nat option \<times> 'a pci_scheme) option" where
  "find_vga_loop bdf bound s =
     (case find_vga_turn bdf bound s of
        (Inl r, s1) \<Rightarrow> Some (r, s1)
      | (Inr (b, n), s1) \<Rightarrow> find_vga_loop b n s1)"

definition pci_find_vga :: "'a pci_scheme \<Rightarrow> (nat option \<times> 'a pci_scheme) option" where
  "pci_find_vga s = find_vga_loop 0x0000 0x0100 s"

section \<open>What is enumerated\<close>

text \<open>
  A device is visible if it answers and is function 0, or if it answers and function 0 of the same
  slot answers and has the multi-function bit.
\<close>

definition visible :: "'a pci_scheme \<Rightarrow> nat \<Rightarrow> bool" where
  "visible s b \<longleftrightarrow> present s b \<and> (b mod 8 = 0 \<or> present s (b - b mod 8) \<and> multifunction s (b - b mod 8))"

definition open_slot :: "'a pci_scheme \<Rightarrow> nat \<Rightarrow> bool" where
  "open_slot s b \<longleftrightarrow> b mod 8 = 0 \<or> present s (b - b mod 8) \<and> multifunction s (b - b mod 8)"

lemma slot_Suc: "(b :: nat) mod 8 \<noteq> 0 \<Longrightarrow> Suc b mod 8 \<noteq> 0 \<Longrightarrow> Suc b - Suc b mod 8 = b - b mod 8"
  by (simp add: mod_Suc split: if_splits)

lemma same_slot: "(b :: nat) mod 8 = 0 \<Longrightarrow> b \<le> y \<Longrightarrow> y < b + 8 \<Longrightarrow> y mod 8 = y - b"
proof -
  assume b: "b mod 8 = 0" "b \<le> y" "y < b + 8"
  have "(b + (y - b)) mod 8 = (y - b) mod 8" using b(1) by (metis mod_add_left_eq add_0)
  then show ?thesis using b by simp
qed

lemma next_present_visible:
  assumes "open_slot s b"
  shows "case next_present (present s) b n of
      None \<Rightarrow> \<forall>y. b \<le> y \<and> y < n \<longrightarrow> \<not> visible s y
    | Some x \<Rightarrow> visible s x \<and> (\<forall>y. b \<le> y \<and> y < x \<longrightarrow> \<not> visible s y)"
  using assms
proof (induction "present s" b n rule: next_present.induct)
  case (1 b n)
  consider "n \<le> b" | "b < n" "present s b" | "b < n" "\<not> present s b" "b mod 8 = 0" | "b < n" "\<not> present s b" "b mod 8 \<noteq> 0"
    by linarith
  then show ?case
  proof cases
    case 1
    then show ?thesis by (subst next_present.simps) auto
  next
    case 2
    then show ?thesis using "1.prems" by (subst next_present.simps) (auto simp: visible_def open_slot_def)
  next
    case 3
    have skip: "\<not> visible s y" if "b \<le> y" "y < b + 8" for y
      using same_slot [OF 3(3) that] 3(2,3) that(1) by (cases "y = b") (auto simp: visible_def)
    have "open_slot s (b + 8)" using 3 by (simp add: open_slot_def)
    then show ?thesis using 1(1) 3 skip
      by (subst next_present.simps) (auto split: option.splits, (meson not_le)+)
  next
    case 4
    have "open_slot s (b + 1)" using "1.prems" 4(3) slot_Suc [OF 4(3)] by (auto simp: open_slot_def)
    moreover have "\<not> visible s b" using 4(2) by (simp add: visible_def)
    ultimately show ?thesis using 1(1) 4
      by (subst next_present.simps) (auto split: option.splits, (metis le_antisym not_less_eq_eq)+)
  qed
qed

text \<open>A position at which a loop may stand: the start, or just after a visible device.\<close>

definition scan_pos :: "'a pci_scheme \<Rightarrow> nat \<Rightarrow> bool" where
  "scan_pos s b \<longleftrightarrow> b = 0 \<or> visible s (b - 1)"

lemma after_single_open:
  assumes "scan_pos s b"
  shows "open_slot s (after_single s b)" "\<And>y. b \<le> y \<Longrightarrow> y < after_single s b \<Longrightarrow> \<not> visible s y"
proof -
  show "open_slot s (after_single s b)"
  proof (cases "b mod 8 = 0 \<or> b mod 8 = 1")
    case True
    then consider "b mod 8 = 0" | a where "b = Suc a" "a mod 8 = 0" by (cases b) (auto simp: mod_Suc split: if_splits)
    then show ?thesis
    proof cases
      case 1
      then show ?thesis by (simp add: after_single_def open_slot_def)
    next
      case (2 a)
      then have "Suc a mod 8 = 1" "(Suc a + 7) mod 8 = 0" by (simp_all add: mod_Suc)
      then show ?thesis using assms 2 by (auto simp: after_single_def open_slot_def scan_pos_def visible_def)
    qed
  next
    case False
    then obtain a where a: "b = Suc a" "a mod 8 \<noteq> 0" by (cases b) (auto simp: mod_Suc split: if_splits)
    then show ?thesis using assms False slot_Suc [OF a(2)]
      by (simp add: after_single_def open_slot_def scan_pos_def visible_def)
  qed
  fix y assume y: "b \<le> y" "y < after_single s b"
  then have b: "b mod 8 = 1" "\<not> multifunction s (b - 1)" "y < b + 7" by (simp_all add: after_single_def split: if_splits)
  have "b \<noteq> 0" using b(1) by (cases b) auto
  moreover from this have "(b - 1) mod 8 = 0" using b(1) by (cases b) (auto simp: mod_Suc split: if_splits)
  ultimately have "y mod 8 \<noteq> 0" "y - y mod 8 = b - 1" using same_slot [of "b - 1" y] b(3) y(1) by simp_all
  then show "\<not> visible s y" using b(2) by (simp add: visible_def)
qed

lemma pci_next_visible:
  assumes "scan_pos s b" "pci_next b n s = (r, s')"
  shows "\<exists>c. s' = s\<lparr>pci_cmd := c\<rparr>"
    and "r = None \<Longrightarrow> filter (visible s) [b..<n] = []"
    and "r = Some (x, m) \<Longrightarrow> b \<le> x \<and> x < n \<and> visible s x \<and> filter (visible s) [b..<x] = []
      \<and> m = (if bridge s x then max n (bus_end s x) else n)"
proof -
  let ?a = "after_single s b"
  obtain c where c: "pci_next b n s =
     (map_option (\<lambda>x. (x, if bridge s x then max n (bus_end s x) else n)) (next_present (present s) ?a n), s\<lparr>pci_cmd := c\<rparr>)"
    using pci_next_eq by blast
  then show "\<exists>c. s' = s\<lparr>pci_cmd := c\<rparr>" using assms(2) by simp
  note vis = next_present_visible [OF after_single_open(1) [OF assms(1)], of n] after_single_open(2) [OF assms(1)]
  have le: "b \<le> ?a" by (simp add: after_single_def)
  show "filter (visible s) [b..<n] = []" if "r = None"
    using that assms(2) c vis by (auto simp: filter_empty_conv not_le split: option.splits) (meson not_le)
  show "b \<le> x \<and> x < n \<and> visible s x \<and> filter (visible s) [b..<x] = []
      \<and> m = (if bridge s x then max n (bus_end s x) else n)" if "r = Some (x, m)"
  proof -
    have x: "next_present (present s) ?a n = Some x" "m = (if bridge s x then max n (bus_end s x) else n)"
      using that assms(2) c by auto
    then show ?thesis using vis next_present_bounds [OF x(1)] le
      by (auto simp: filter_empty_conv not_le) (meson not_le)
  qed
qed

text \<open>
  The bound that the enumeration from \<open>b\<close> with bound \<open>n\<close> ends with: the least one that covers the buses
  behind every visible bridge below it.
\<close>

definition covers_buses :: "'a pci_scheme \<Rightarrow> nat \<Rightarrow> nat \<Rightarrow> bool" where
  "covers_buses s b M \<longleftrightarrow> (\<forall>y. b \<le> y \<and> y < M \<and> visible s y \<and> bridge s y \<longrightarrow> bus_end s y \<le> M)"

definition bus_limit :: "'a pci_scheme \<Rightarrow> nat \<Rightarrow> nat \<Rightarrow> nat" where
  "bus_limit s b n = (LEAST M. n \<le> M \<and> covers_buses s b M)"

lemma bus_end_le: "bus_end s x \<le> 0x10000"
  using unat_and_ff00 [of "pci_cfg s (of_nat x) 0x18"] by (simp add: bus_end_def)

lemma bus_limit_props:
  "n \<le> bus_limit s b n" "covers_buses s b (bus_limit s b n)" "bus_limit s b n \<le> max n 0x10000"
proof -
  have top: "n \<le> max n 0x10000 \<and> covers_buses s b (max n 0x10000)"
    using bus_end_le [of s] by (simp add: covers_buses_def le_max_iff_disj)
  show "n \<le> bus_limit s b n" "covers_buses s b (bus_limit s b n)"
    unfolding bus_limit_def using LeastI [where P = "\<lambda>M. n \<le> M \<and> covers_buses s b M", OF top] by simp_all
  show "bus_limit s b n \<le> max n 0x10000"
    unfolding bus_limit_def by (rule Least_le [where P = "\<lambda>M. n \<le> M \<and> covers_buses s b M", OF top])
qed

lemma bus_limit_no_bridge: "(\<And>y. y < n \<Longrightarrow> visible s y \<Longrightarrow> \<not> bridge s y) \<Longrightarrow> bus_limit s b n = n"
  unfolding bus_limit_def by (rule Least_equality) (auto simp: covers_buses_def)

lemma bus_limit_step:
  assumes "b \<le> x" "x < n" "visible s x" "filter (visible s) [b..<x] = []"
  shows "bus_limit s b n = bus_limit s (x + 1) (if bridge s x then max n (bus_end s x) else n)" (is "_ = bus_limit s _ ?m")
    "filter (visible s) [b..<bus_limit s b n] = x # filter (visible s) [x + 1..<bus_limit s b n]"
proof -
  have none: "\<not> visible s y" if "b \<le> y" "y < x" for y using assms(4) that by (simp add: filter_empty_conv)
  have cov: "n \<le> M \<and> covers_buses s b M \<longleftrightarrow> ?m \<le> M \<and> covers_buses s (x + 1) M" for M
  proof
    assume M: "n \<le> M \<and> covers_buses s b M"
    then have "x < M" using assms(2) by simp
    then show "?m \<le> M \<and> covers_buses s (x + 1) M" using M assms(1,3) by (simp add: covers_buses_def)
  next
    assume M: "?m \<le> M \<and> covers_buses s (x + 1) M"
    have "bus_end s y \<le> M" if "b \<le> y" "y < M" "visible s y" "bridge s y" for y
    proof (cases "y = x")
      case True
      then show ?thesis using M that(4) by simp
    next
      case False
      then have "x + 1 \<le> y" using none that(1,3) by fastforce
      then show ?thesis using M that unfolding covers_buses_def by blast
    qed
    then show "n \<le> M \<and> covers_buses s b M" using M by (simp add: covers_buses_def split: if_splits)
  qed
  then show "bus_limit s b n = bus_limit s (x + 1) ?m" by (simp add: bus_limit_def)
  have "x < bus_limit s b n" using bus_limit_props(1) [of n s b] assms(2) by simp
  then have "[b..<bus_limit s b n] = [b..<x] @ x # [x + 1..<bus_limit s b n]"
    using upt_add_eq_append [of b x "bus_limit s b n - x"] assms(1) by (simp add: upt_conv_Cons)
  then show "filter (visible s) [b..<bus_limit s b n] = x # filter (visible s) [x + 1..<bus_limit s b n]"
    using assms(3,4) by simp
qed

text \<open>At the end of the enumeration there is nothing left below the bound, which is then the limit.\<close>

lemma bus_limit_end: "filter (visible s) [b..<n] = [] \<Longrightarrow> bus_limit s b n = n"
  unfolding bus_limit_def by (rule Least_equality) (auto simp: covers_buses_def filter_empty_conv)

text \<open>Two states that the enumeration cannot tell apart.\<close>

definition same_enum :: "'a pci_scheme \<Rightarrow> 'a pci_scheme \<Rightarrow> bool" where
  "same_enum s t \<longleftrightarrow> present t = present s \<and> header t = header s \<and> (\<forall>b. bridge s b \<longrightarrow> bus_end t b = bus_end s b)"

lemma same_enum_views:
  assumes "same_enum s t"
  shows "visible t = visible s" "scan_pos t = scan_pos s" "bridge t = bridge s" "bus_limit t = bus_limit s"
proof -
  have e: "present t = present s" "multifunction t = multifunction s" "bridge t = bridge s"
      "\<And>b. bridge s b \<Longrightarrow> bus_end t b = bus_end s b"
    using assms by (simp_all add: same_enum_def multifunction_def bridge_def fun_eq_iff)
  then have v: "visible t = visible s" by (simp add: fun_eq_iff visible_def)
  with e show "visible t = visible s" "scan_pos t = scan_pos s" "bridge t = bridge s" "bus_limit t = bus_limit s"
    by (simp_all add: fun_eq_iff scan_pos_def bus_limit_def covers_buses_def cong: conj_cong)
qed

lemma same_enum_simps [simp]: "same_enum s s" "same_enum s (s\<lparr>pci_cmd := c\<rparr>)"
  by (simp_all add: same_enum_def)

lemma same_enum_trans: "same_enum s t \<Longrightarrow> same_enum t u \<Longrightarrow> same_enum s u"
  by (simp add: same_enum_def bridge_def)

text \<open>
  The rule for the loop: an invariant over the devices visited so far, kept by every body that
  leaves the enumeration alone, holds at the end for all visible devices, in order.
\<close>

lemma foreachpci_from_rule:
  assumes "scan_pos s b" "I ds s"
    and cmd: "\<And>ds t c. I ds t \<Longrightarrow> I ds (t\<lparr>pci_cmd := c\<rparr>)"
    and body: "\<And>ds x t. I ds t \<Longrightarrow> same_enum s t \<Longrightarrow> visible s x \<Longrightarrow> x < bus_limit s b n \<Longrightarrow> \<forall>y\<in>set ds. y < x
      \<Longrightarrow> I (ds @ [x]) (body x t) \<and> same_enum t (body x t)"
    and "\<forall>y\<in>set ds. y < b"
  shows "I (ds @ filter (visible s) [b..<bus_limit s b n]) (foreachpci_from body b n s)
    \<and> same_enum s (foreachpci_from body b n s)"
  using assms
proof (induction body b n s arbitrary: ds rule: foreachpci_from.induct)
  case (1 body b n s)
  obtain r s1 where r: "pci_next b n s = (r, s1)" by fastforce
  note nx = pci_next_visible [OF "1.prems"(1) r]
  obtain c where c: "s1 = s\<lparr>pci_cmd := c\<rparr>" using nx(1) by blast
  show ?case
  proof (cases r)
    case None
    have "I ds s1" using "1.prems"(2,3) c by simp
    then show ?thesis using nx(2) [OF None] r None c by (simp add: bus_limit_end foreachpci_from.simps [of body b])
  next
    case (Some p)
    obtain x m where p: "p = (x, m)" by fastforce
    have x: "b \<le> x" "x < n" "visible s x" "filter (visible s) [b..<x] = []"
        "m = (if bridge s x then max n (bus_end s x) else n)"
      using nx(3) [of x m] Some p by blast+
    let ?t = "body x s1"
    have "x < bus_limit s b n" "\<forall>y\<in>set ds. y < x"
      using x(1,2) "1.prems"(5) bus_limit_props(1) [of n s b] by auto
    then have t: "I (ds @ [x]) ?t" "same_enum s ?t"
      using "1.prems"(4) [OF "1.prems"(3) [OF "1.prems"(2)], of c x] c x(3)
      by (auto intro: same_enum_trans [OF same_enum_simps(2)])
    note tv = same_enum_views [OF t(2)]
    have "I ((ds @ [x]) @ filter (visible ?t) [x + 1..<bus_limit ?t (x + 1) m]) (foreachpci_from body (x + 1) m ?t)
        \<and> same_enum ?t (foreachpci_from body (x + 1) m ?t)"
    proof (rule "1.IH" [OF r [symmetric]])
      show "scan_pos ?t (x + 1)" using x(3) tv by (simp add: scan_pos_def)
      show "I (ds @ [y]) (body y u) \<and> same_enum u (body y u)"
        if "I ds u" "same_enum ?t u" "visible ?t y" "y < bus_limit ?t (x + 1) m" "\<forall>z\<in>set ds. z < y" for ds y u
        using "1.prems"(4) that tv same_enum_trans [OF t(2)] bus_limit_step(1) [OF x(1-4)] x(5) by simp
    qed (use t(1) Some p "1.prems"(3,5) x(1) in auto)
    then show ?thesis using bus_limit_step [OF x(1-4)] x(5) tv r Some p same_enum_trans [OF t(2)]
      by (simp add: foreachpci_from.simps [of body b])
  qed
qed

lemma find_pci_from_eq:
  assumes "scan_pos s b" "\<And>x t. \<exists>c. test x t = (Q (pci_cfg t) x, t\<lparr>pci_cmd := c\<rparr>)"
  shows "\<exists>c. find_pci_from test b n s
    = (List.find (Q (pci_cfg s)) (filter (visible s) [b..<bus_limit s b n]), s\<lparr>pci_cmd := c\<rparr>)"
  using assms
proof (induction test b n s rule: find_pci_from.induct)
  case (1 test b n s)
  obtain r s1 where r: "pci_next b n s = (r, s1)" by fastforce
  note nx = pci_next_visible [OF "1.prems"(1) r]
  obtain c where c: "s1 = s\<lparr>pci_cmd := c\<rparr>" using nx(1) by blast
  show ?case
  proof (cases r)
    case None
    then show ?thesis using nx(2) [OF None] r c by (simp add: bus_limit_end find_pci_from.simps [of test b])
  next
    case (Some p)
    obtain x m where p: "p = (x, m)" by fastforce
    have x: "b \<le> x" "x < n" "visible s x" "filter (visible s) [b..<x] = []"
        "m = (if bridge s x then max n (bus_end s x) else n)"
      using nx(3) [of x m] Some p by blast+
    obtain d where d: "test x s1 = (Q (pci_cfg s) x, s\<lparr>pci_cmd := d\<rparr>)"
      using "1.prems"(2) [of x s1] c by auto
    let ?t = "s\<lparr>pci_cmd := d\<rparr>"
    note tv = same_enum_views [OF same_enum_simps(2) [of s d]]
    show ?thesis
    proof (cases "Q (pci_cfg s) x")
      case True
      then show ?thesis using bus_limit_step [OF x(1-4)] r Some p d by (simp add: find_pci_from.simps [of test b])
    next
      case False
      have "\<exists>c. find_pci_from test (x + 1) m ?t
          = (List.find (Q (pci_cfg ?t)) (filter (visible ?t) [x + 1..<bus_limit ?t (x + 1) m]), ?t\<lparr>pci_cmd := c\<rparr>)"
      proof (rule "1.IH" [OF r [symmetric]])
        show "scan_pos ?t (x + 1)" using x(3) tv by (simp add: scan_pos_def)
      qed (use Some p d False "1.prems"(2) in auto)
      then show ?thesis using bus_limit_step [OF x(1-4)] x(5) tv r Some p d False
        by (simp add: find_pci_from.simps [of test b])
    qed
  qed
qed

section \<open>Properties\<close>

definition pci_id :: "'a pci_scheme \<Rightarrow> nat \<Rightarrow> u32" where
  "pci_id s b = pci_cfg s (of_nat b) 0"

text \<open>
  C20. \<open>pci_find_device\<close> returns the first device with the given vendor and device numbers among the
  visible devices of all buses that can be reached through bridges from bus 0, or none if there is no
  such device; it changes nothing but the address register.
\<close>

theorem pci_find_device_correct:
  "\<exists>r c. pci_find_device vendid devid s = (r, s\<lparr>pci_cmd := c\<rparr>)
    \<and> r = List.find (\<lambda>b. pci_id s b = push_bit 16 (ucast devid) OR ucast vendid) (filter (visible s) [0..<bus_limit s 0 0x100])"
proof -
  let ?id = "push_bit 16 (ucast devid) OR ucast vendid :: u32"
  have "\<exists>c. (\<lambda>bdf s. let (v, s1) = pci_config_readl (of_nat bdf) PCI_VENDOR_ID s in (v = ?id, s1)) x t
      = ((\<lambda>cfg b. cfg (of_nat b) 0 = ?id) (pci_cfg t) x, t\<lparr>pci_cmd := c\<rparr>)" for x and t :: "'a pci_scheme"
    by (simp add: pci_config_read pci_reg_defs)
  from find_pci_from_eq [where b = 0 and n = "0x100" and s = s, OF _ this]
  show ?thesis by (auto simp: pci_find_device_def pci_id_def scan_pos_def)
qed

text \<open>The registers that \<open>pci_find_vga\<close> looks at.\<close>

definition dev_class :: "'a pci_scheme \<Rightarrow> nat \<Rightarrow> u16" where
  "dev_class s b = ucast (drop_bit 16 (pci_cfg s (of_nat b) 0x08))"

definition vga_active :: "'a pci_scheme \<Rightarrow> nat \<Rightarrow> bool" where
  "vga_active s b \<longleftrightarrow> dev_class s b = PCI_CLASS_DISPLAY_VGA
     \<and> bit (pci_cfg s (of_nat b) 0x04) 0 \<and> bit (pci_cfg s (of_nat b) 0x04) 1"

definition vga_bridge :: "'a pci_scheme \<Rightarrow> nat \<Rightarrow> bool" where
  "vga_bridge s b \<longleftrightarrow> bridge s b \<and> (ucast (drop_bit 16 (pci_cfg s (of_nat b) 0x3c)) :: u8) AND PCI_BRIDGE_CTL_VGA \<noteq> 0"

lemma read_vga:
  "pci_config_readw (of_nat b) PCI_CLASS_DEVICE s = (dev_class s b, s\<lparr>pci_cmd := pci_address (of_nat b) PCI_CLASS_DEVICE\<rparr>)"
  "pci_config_readw (of_nat b) PCI_COMMAND s = (ucast (pci_cfg s (of_nat b) 0x04), s\<lparr>pci_cmd := pci_address (of_nat b) PCI_COMMAND\<rparr>)"
  "pci_config_readb (of_nat b) PCI_BRIDGE_CONTROL s
     = (ucast (drop_bit 16 (pci_cfg s (of_nat b) 0x3c)), s\<lparr>pci_cmd := pci_address (of_nat b) PCI_BRIDGE_CONTROL\<rparr>)"
  by (simp_all add: pci_config_read pci_reg_defs dev_class_def)

lemma command_bits:
  "ucast (w :: u32) AND PCI_COMMAND_IO \<noteq> 0 \<longleftrightarrow> bit w 0" "ucast (w :: u32) AND PCI_COMMAND_MEMORY \<noteq> 0 \<longleftrightarrow> bit w 1"
proof -
  have "ucast w AND (2 :: u16) = (if bit w 1 then 2 else 0)"
    by (rule bit_eqI) (auto simp: bit_simps bit_2_iff)
  moreover have "ucast w AND (1 :: u16) = (if bit w 0 then 1 else 0)"
    by (rule bit_eqI) (auto simp: bit_simps bit_1_iff intro: gr0I)
  ultimately show "ucast w AND PCI_COMMAND_IO \<noteq> 0 \<longleftrightarrow> bit w 0" "ucast w AND PCI_COMMAND_MEMORY \<noteq> 0 \<longleftrightarrow> bit w 1"
    by (simp_all add: PCI_COMMAND_IO_def PCI_COMMAND_MEMORY_def)
qed

lemma find_vga_turn_cases:
  obtains c where "find_vga_turn b n s = (Inl None, s\<lparr>pci_cmd := c\<rparr>)" "n \<le> b"
  | c where "find_vga_turn b n s = (Inl (Some b), s\<lparr>pci_cmd := c\<rparr>)" "b < n" "vga_active s b"
  | c where "find_vga_turn b n s = (Inr (bus_end s b - 0x100, bus_end s b), s\<lparr>pci_cmd := c\<rparr>)" "b < n" "vga_bridge s b"
  | c b' where "find_vga_turn b n s = (Inr (b', n), s\<lparr>pci_cmd := c\<rparr>)" "b < n" "b < b'"
proof -
  let ?c = "pci_address (of_nat b)" and ?p = "\<lambda>c. s\<lparr>pci_cmd := pci_address (of_nat b) c\<rparr>"
  have act: "(if dev_class s b = PCI_CLASS_DISPLAY_VGA then
        let (cmd, s2) = pci_config_readw (of_nat b) PCI_COMMAND (?p PCI_CLASS_DEVICE)
        in (cmd AND PCI_COMMAND_IO \<noteq> 0 \<and> cmd AND PCI_COMMAND_MEMORY \<noteq> 0, s2) else (False, ?p PCI_CLASS_DEVICE))
      = (vga_active s b, if dev_class s b = PCI_CLASS_DISPLAY_VGA then ?p PCI_COMMAND else ?p PCI_CLASS_DEVICE)"
    unfolding read_vga by (simp add: vga_active_def command_bits)
  consider "n \<le> b" | "b < n" "dev_class s b \<in> {0, 0xffff}" | "b < n" "dev_class s b \<notin> {0, 0xffff}" by fastforce
  then show thesis
  proof cases
    case 1
    then show thesis by (intro that(1) [of "pci_cmd s"]) (simp_all add: find_vga_turn_def)
  next
    case 2
    then show thesis by (intro that(4) [of "if b mod 8 = 0 then b + 8 else b + 1" "?c PCI_CLASS_DEVICE"])
        (auto simp: find_vga_turn_def read_vga fn_cases)
  next
    case 3
    define s2 where "s2 = (if dev_class s b = PCI_CLASS_DISPLAY_VGA then ?p PCI_COMMAND else ?p PCI_CLASS_DEVICE)"
    have s2: "header s2 b = header s b" "\<And>c. s2\<lparr>pci_cmd := c\<rparr> = s\<lparr>pci_cmd := c\<rparr>" by (simp_all add: s2_def)
    have turn: "find_vga_turn b n s = (if vga_active s b then (Inl (Some b), s2)
        else if vga_bridge s b then (Inr (bus_end s b - 0x100, bus_end s b), ?p PCI_PRIMARY_BUS)
        else (Inr (if b mod 8 = 0 \<and> header s b AND 0x80 = 0 then b + 8 else b + 1, n),
              if bridge s b then ?p PCI_BRIDGE_CONTROL else ?p PCI_HEADER_TYPE))"
      using 3 unfolding find_vga_turn_def read_vga(1) Let_def case_prod_conv act [unfolded Let_def] s2_def [symmetric]
      by (simp add: read_views read_vga s2 fn_cases bridge_def vga_bridge_def bus_end_def)
    show thesis
    proof (cases "vga_active s b \<or> vga_bridge s b")
      case True
      then show thesis using that(2,3) turn 3(1) s2(2) [of "pci_cmd s2"] by (cases "vga_active s b") auto
    next
      case False
      then show thesis using turn 3(1) that(4) by (cases "bridge s b") auto
    qed
  qed
qed

text \<open>
  \<open>pci_find_vga\<close> returns, if every bridge that forwards VGA accesses has a secondary bus above its
  own bus, and a device that it returns is a VGA device with input and output and memory accesses enabled.
\<close>

theorem pci_find_vga_returns:
  assumes "\<And>b. b < 0x10000 \<Longrightarrow> vga_bridge s b \<Longrightarrow> b < bus_end s b - 0x100"
  shows "\<exists>r c. pci_find_vga s = Some (r, s\<lparr>pci_cmd := c\<rparr>) \<and> (\<forall>x. r = Some x \<longrightarrow> vga_active s x)"
proof -
  have "\<exists>r d. find_vga_loop b n (s\<lparr>pci_cmd := c\<rparr>) = Some (r, s\<lparr>pci_cmd := d\<rparr>) \<and> (\<forall>x. r = Some x \<longrightarrow> vga_active s x)"
    if "n \<le> 0x10000" for b n c
    using that
  proof (induction "0x10000 - b" arbitrary: b n c rule: less_induct)
    case less
    have act: "vga_active (s\<lparr>pci_cmd := c\<rparr>) b = vga_active s b" "vga_bridge (s\<lparr>pci_cmd := c\<rparr>) b = vga_bridge s b"
      by (simp_all add: vga_active_def vga_bridge_def dev_class_def)
    show ?case
    proof (rule find_vga_turn_cases [of b n "s\<lparr>pci_cmd := c\<rparr>"], goal_cases)
      case (3 d)
      then have "b < bus_end s b - 0x100" using assms less.prems act by simp
      then show ?case using less.hyps [of "bus_end s b - 0x100" "bus_end s b" d] less.prems bus_end_le [of s b] 3
        by (subst find_vga_loop.simps) simp
    next
      case (4 d b')
      then show ?case using less.hyps [of b' n d] less.prems by (subst find_vga_loop.simps) simp
    qed (subst find_vga_loop.simps, use act in force)+
  qed
  from this [of "0x100" 0 "pci_cmd s"] show ?thesis by (simp add: pci_find_vga_def)
qed

definition ex_pci :: pci where
  "ex_pci = \<lparr>pci_cmd = 0,
     pci_cfg = (\<lambda>b r. if b = 0x10 then (if r = 0 then 0x00b81013 else if r = 0x04 then 3 else if r = 0x08 then 0x03000000 else 0)
                      else 0xffffffff),
     pci_wmask = (\<lambda>b r. 0)\<rparr>"

lemma ex_pci_no_bridge: "\<not> bridge ex_pci b"
  by (simp add: ex_pci_def cfg_views bridge_type_def PCI_HEADER_TYPE_BRIDGE_def PCI_HEADER_TYPE_CARDBUS_def)

theorem pci_find_vga_returns_witness:
  "\<exists>r c. pci_find_vga ex_pci = Some (r, ex_pci\<lparr>pci_cmd := c\<rparr>) \<and> (\<forall>x. r = Some x \<longrightarrow> vga_active ex_pci x)"
  by (rule pci_find_vga_returns) (simp add: vga_bridge_def ex_pci_no_bridge)

end
