(* ===== verification/Pciinit.thy ===== *)
theory Pciinit
  imports Pci
begin

text \<open>
  \<open>bios/seabios/src/pciinit.c\<close>: the assignment of addresses and interrupts to the PCI devices.
\<close>

definition PCI_ROM_SLOT :: nat where "PCI_ROM_SLOT = 6"
definition PCI_NUM_REGIONS :: nat where "PCI_NUM_REGIONS = 7"
definition PCI_BASE_ADDRESS_0 :: u32 where "PCI_BASE_ADDRESS_0 = 0x10"
definition PCI_ROM_ADDRESS :: u32 where "PCI_ROM_ADDRESS = 0x30"
definition PCI_ROM_ADDRESS_MASK :: u32 where "PCI_ROM_ADDRESS_MASK = NOT 0x7ff"
definition PCI_BASE_ADDRESS_SPACE_IO :: u32 where "PCI_BASE_ADDRESS_SPACE_IO = 0x01"
definition PCI_BASE_ADDRESS_IO_MASK :: u32 where "PCI_BASE_ADDRESS_IO_MASK = NOT 0x03"
definition PCI_BASE_ADDRESS_MEM_MASK :: u32 where "PCI_BASE_ADDRESS_MEM_MASK = NOT 0x0f"
definition PCI_INTERRUPT_LINE :: u32 where "PCI_INTERRUPT_LINE = 0x3c"
definition PCI_INTERRUPT_PIN :: u32 where "PCI_INTERRUPT_PIN = 0x3d"
definition PCI_VENDOR_ID_INTEL :: u16 where "PCI_VENDOR_ID_INTEL = 0x8086"
definition PCI_VENDOR_ID_IBM :: u16 where "PCI_VENDOR_ID_IBM = 0x1014"
definition PCI_VENDOR_ID_APPLE :: u16 where "PCI_VENDOR_ID_APPLE = 0x106b"
definition PCI_DEVICE_ID_INTEL_82371SB_0 :: u16 where "PCI_DEVICE_ID_INTEL_82371SB_0 = 0x7000"
definition PCI_DEVICE_ID_INTEL_82371SB_1 :: u16 where "PCI_DEVICE_ID_INTEL_82371SB_1 = 0x7010"
definition PCI_DEVICE_ID_INTEL_82371AB_0 :: u16 where "PCI_DEVICE_ID_INTEL_82371AB_0 = 0x7110"
definition PCI_DEVICE_ID_INTEL_82371AB :: u16 where "PCI_DEVICE_ID_INTEL_82371AB = 0x7111"
definition PCI_DEVICE_ID_INTEL_82371AB_3 :: u16 where "PCI_DEVICE_ID_INTEL_82371AB_3 = 0x7113"
definition PCI_CLASS_STORAGE_IDE :: u16 where "PCI_CLASS_STORAGE_IDE = 0x0101"
definition PCI_CLASS_SYSTEM_PIC :: u16 where "PCI_CLASS_SYSTEM_PIC = 0x0800"
definition PORT_ATA1_CMD_BASE :: u32 where "PORT_ATA1_CMD_BASE = 0x01f0"
definition PORT_ATA1_CTRL_BASE :: u32 where "PORT_ATA1_CTRL_BASE = 0x03f4"
definition PORT_ATA2_CMD_BASE :: u32 where "PORT_ATA2_CMD_BASE = 0x0170"
definition PORT_ATA2_CTRL_BASE :: u32 where "PORT_ATA2_CTRL_BASE = 0x0374"
definition PORT_ACPI_PM_BASE :: u32 where "PORT_ACPI_PM_BASE = 0xb000"
definition PORT_SMB_BASE :: u32 where "PORT_SMB_BASE = 0xb100"
definition BUILD_PCIMEM_START :: u32 where "BUILD_PCIMEM_START = 0xf0000000"

record pciinit = pci +
  pci_bios_io_addr :: u32
  pci_bios_mem_addr :: u32
  elcr_out :: "(u16 \<times> u8) list"

definition pci_irqs :: "u8 list" where "pci_irqs = [10, 10, 11, 11]"

definition region_ofs :: "nat \<Rightarrow> u32" where
  "region_ofs i = (if i = PCI_ROM_SLOT then PCI_ROM_ADDRESS else PCI_BASE_ADDRESS_0 + of_nat i * 4)"

definition pci_set_io_region_addr :: "nat \<Rightarrow> nat \<Rightarrow> u32 \<Rightarrow> pciinit \<Rightarrow> pciinit" where
  "pci_set_io_region_addr bdf region_num addr s =
     (let ofs = region_ofs region_num; (old_addr, s1) = pci_config_readl (of_nat bdf) ofs s
      in pci_config_writel (of_nat bdf) ofs addr s1)"

definition pci_slot_get_pirq :: "nat \<Rightarrow> int \<Rightarrow> nat" where
  "pci_slot_get_pirq bdf irq_num =
     (let slot_addend = uint (pci_bdf_to_dev (of_nat bdf)) - 1 in nat ((irq_num + slot_addend) AND 3))"

text \<open>The interrupt routing of the bridge: the two bytes of level triggers, and the routing registers.\<close>

definition bridge_irq :: "nat \<Rightarrow> nat \<Rightarrow> u8 list \<times> pciinit \<Rightarrow> u8 list \<times> pciinit" where
  "bridge_irq bdf i es =
     (let (elcr, s) = es; irq = pci_irqs ! i; k = unat (drop_bit 3 irq)
      in (elcr[k := elcr ! k OR push_bit (unat (irq AND 7)) 1], pci_config_writeb (of_nat bdf) (0x60 + of_nat i) irq s))"

definition pci_bios_init_bridges :: "nat \<Rightarrow> pciinit \<Rightarrow> pciinit" where
  "pci_bios_init_bridges bdf s =
     (let (vendor_id, s1) = pci_config_readw (of_nat bdf) PCI_VENDOR_ID s;
          (device_id, s2) = pci_config_readw (of_nat bdf) PCI_DEVICE_ID s1
      in if vendor_id = PCI_VENDOR_ID_INTEL
            \<and> (device_id = PCI_DEVICE_ID_INTEL_82371SB_0 \<or> device_id = PCI_DEVICE_ID_INTEL_82371AB_0) then
           let (elcr, s3) = fold (bridge_irq bdf) [0..<4] ([0x00, 0x00], s2)
           in s3\<lparr>elcr_out := elcr_out s3 @ [(0x4d0, elcr ! 0), (0x4d1, elcr ! 1)]\<rparr>
         else s2)"

text \<open>
  One turn of the loop over the regions of a device: the bits that can be written are read back, with
  the mask that fits the register, and the register restored; then the address is assigned.
\<close>

definition probe_region :: "nat \<Rightarrow> nat \<Rightarrow> pciinit \<Rightarrow> u32 \<times> u32 \<times> pciinit" where
  "probe_region bdf i s =
     (let ofs = region_ofs i;
          (old, s1) = pci_config_readl (of_nat bdf) ofs s;
          (mask, s2) =
            (if i = PCI_ROM_SLOT then
               (PCI_ROM_ADDRESS_MASK, pci_config_writel (of_nat bdf) ofs PCI_ROM_ADDRESS_MASK s1)
             else
               (if old AND PCI_BASE_ADDRESS_SPACE_IO \<noteq> 0 then PCI_BASE_ADDRESS_IO_MASK else PCI_BASE_ADDRESS_MEM_MASK,
                pci_config_writel (of_nat bdf) ofs 0xffffffff s1));
          (val, s3) = pci_config_readl (of_nat bdf) ofs s2
      in (val, mask, pci_config_writel (of_nat bdf) ofs old s3))"

definition init_region :: "nat \<Rightarrow> nat \<Rightarrow> pciinit \<Rightarrow> pciinit" where
  "init_region bdf i s =
     (let (val, mask, s4) = probe_region bdf i s in
      if val \<noteq> 0 then
        let size = NOT (val AND mask) + 1 in
        if val AND PCI_BASE_ADDRESS_SPACE_IO \<noteq> 0 then
          let paddr = ALIGN (pci_bios_io_addr s4) size;
              s5 = pci_set_io_region_addr bdf i paddr (s4\<lparr>pci_bios_io_addr := paddr\<rparr>)
          in s5\<lparr>pci_bios_io_addr := paddr + size\<rparr>
        else
          let paddr = ALIGN (pci_bios_mem_addr s4) size;
              s5 = pci_set_io_region_addr bdf i paddr (s4\<lparr>pci_bios_mem_addr := paddr\<rparr>)
          in s5\<lparr>pci_bios_mem_addr := paddr + size\<rparr>
      else s4)"

definition default_map :: "nat \<Rightarrow> pciinit \<Rightarrow> pciinit" where
  "default_map bdf s = fold (init_region bdf) [0..<PCI_NUM_REGIONS] s"

definition map_device :: "nat \<Rightarrow> u16 \<Rightarrow> u16 \<Rightarrow> u16 \<Rightarrow> pciinit \<Rightarrow> pciinit" where
  "map_device bdf cls vendor_id device_id s =
     (if cls = PCI_CLASS_STORAGE_IDE then
        if vendor_id = PCI_VENDOR_ID_INTEL
           \<and> (device_id = PCI_DEVICE_ID_INTEL_82371SB_1 \<or> device_id = PCI_DEVICE_ID_INTEL_82371AB) then
          default_map bdf (pci_config_writew (of_nat bdf) 0x42 0x8000 (pci_config_writew (of_nat bdf) 0x40 0x8000 s))
        else
          pci_set_io_region_addr bdf 3 PORT_ATA2_CTRL_BASE (pci_set_io_region_addr bdf 2 PORT_ATA2_CMD_BASE
            (pci_set_io_region_addr bdf 1 PORT_ATA1_CTRL_BASE (pci_set_io_region_addr bdf 0 PORT_ATA1_CMD_BASE s)))
      else if cls = PCI_CLASS_SYSTEM_PIC then
        if vendor_id = PCI_VENDOR_ID_IBM \<and> (device_id = 0x0046 \<or> device_id = 0xFFFF)
        then pci_set_io_region_addr bdf 0 (0x80800000 + 0x00040000) s else s
      else if cls = 0xff00 then
        if vendor_id = PCI_VENDOR_ID_APPLE \<and> (device_id = 0x0017 \<or> device_id = 0x0022)
        then pci_set_io_region_addr bdf 0 0x80800000 s else s
      else default_map bdf s)"

definition map_interrupt :: "nat \<Rightarrow> pciinit \<Rightarrow> pciinit" where
  "map_interrupt bdf s =
     (let (pin, s1) = pci_config_readb (of_nat bdf) PCI_INTERRUPT_PIN s in
      if pin \<noteq> 0 then
        pci_config_writeb (of_nat bdf) PCI_INTERRUPT_LINE (pci_irqs ! pci_slot_get_pirq bdf (uint pin - 1)) s1
      else s1)"

definition init_piix4_pm :: "nat \<Rightarrow> pciinit \<Rightarrow> pciinit" where
  "init_piix4_pm bdf s =
     (let s1 = pci_config_writeb (of_nat bdf) PCI_INTERRUPT_LINE 9 s;
          s2 = pci_config_writel (of_nat bdf) 0x40 (PORT_ACPI_PM_BASE OR 1) s1;
          s3 = pci_config_writeb (of_nat bdf) 0x80 0x01 s2;
          s4 = pci_config_writel (of_nat bdf) 0x90 (PORT_SMB_BASE OR 1) s3
      in pci_config_writeb (of_nat bdf) 0xd2 0x09 s4)"

definition pci_bios_init_device :: "nat \<Rightarrow> pciinit \<Rightarrow> pciinit" where
  "pci_bios_init_device bdf s =
     (let (cls, s1) = pci_config_readw (of_nat bdf) PCI_CLASS_DEVICE s;
          (vendor_id, s2) = pci_config_readw (of_nat bdf) PCI_VENDOR_ID s1;
          (device_id, s3) = pci_config_readw (of_nat bdf) PCI_DEVICE_ID s2;
          s4 = map_device bdf cls vendor_id device_id s3;
          s5 = pci_config_maskw (of_nat bdf) PCI_COMMAND 0 (PCI_COMMAND_IO OR PCI_COMMAND_MEMORY) s4;
          s6 = map_interrupt bdf s5
      in if vendor_id = PCI_VENDOR_ID_INTEL \<and> device_id = PCI_DEVICE_ID_INTEL_82371AB_3
         then init_piix4_pm bdf s6 else s6)"

definition pci_setup :: "pciinit \<Rightarrow> pciinit" where
  "pci_setup s =
     (let s1 = s\<lparr>pci_bios_io_addr := 0xc000, pci_bios_mem_addr := BUILD_PCIMEM_START\<rparr>
      in foreachpci pci_bios_init_device (foreachpci pci_bios_init_bridges s1))"

section \<open>Registers that are written\<close>

text \<open>The state \<open>t\<close> differs from \<open>s\<close> only in registers \<open>G\<close> of device \<open>b\<close>, and not in the allocation.\<close>

definition writes_only :: "u16 \<Rightarrow> u32 set \<Rightarrow> pciinit \<Rightarrow> pciinit \<Rightarrow> bool" where
  "writes_only b G s t \<longleftrightarrow> pci_wmask t = pci_wmask s \<and> pci_bios_io_addr t = pci_bios_io_addr s
     \<and> pci_bios_mem_addr t = pci_bios_mem_addr s
     \<and> (\<forall>y r. y \<noteq> b \<or> r \<notin> G \<longrightarrow> pci_cfg t y r = pci_cfg s y r)"

lemma all_ones: "(0xffffffff :: u32) = - 1"
  by simp

lemma pci_config_write:
  "pci_config_writel b a v s = s\<lparr>pci_cmd := pci_address b a, pci_cfg := (pci_cfg s)(b := (pci_cfg s b)(a AND 0xfc :=
      (pci_cfg s b (a AND 0xfc) AND NOT (pci_wmask s b (a AND 0xfc))) OR (v AND pci_wmask s b (a AND 0xfc))))\<rparr>"
  unfolding pci_config_writel_def all_ones by (simp add: out_data_def outl_cmd_def Let_def)

lemma write_writes_only:
  "writes_only b {a AND 0xfc} s (pci_config_writel b a v s)"
  "writes_only b {a AND 0xfc} s (pci_config_writew b a w s)"
  "writes_only b {a AND 0xfc} s (pci_config_writeb b a x s)"
  by (simp_all add: writes_only_def pci_config_writel_def pci_config_writew_def pci_config_writeb_def out_data_def
      outl_cmd_def Let_def)

lemma read_writes_only:
  "pci_config_readl b a s = (v, t) \<Longrightarrow> writes_only c G s t"
  "pci_config_readw b a s = (w, t) \<Longrightarrow> writes_only c G s t"
  "pci_config_readb b a s = (x, t) \<Longrightarrow> writes_only c G s t"
  by (auto simp: writes_only_def pci_config_read)

lemma writes_only_trans:
  "writes_only b G s t \<Longrightarrow> writes_only b H t u \<Longrightarrow> writes_only b (G \<union> H) s u"
  by (simp add: writes_only_def)

lemma writes_only_mono: "writes_only b G s t \<Longrightarrow> G \<subseteq> H \<Longrightarrow> writes_only b H s t"
  unfolding writes_only_def by blast

lemma writes_only_refl [simp]: "writes_only b G s s"
  by (simp add: writes_only_def)

section \<open>One region\<close>

text \<open>
  A base address register that the PCI specification allows for a region of \<open>2 ^ k\<close> bytes: the
  address bits are writable, the bits below them are fixed, and all of these but the type bits are zero.
\<close>

definition bar_shape :: "nat \<Rightarrow> u32 \<Rightarrow> u32 \<Rightarrow> nat \<Rightarrow> bool \<Rightarrow> bool" where
  "bar_shape i w v k io \<longleftrightarrow> k < 32 \<and>
     (if i = PCI_ROM_SLOT then \<not> io \<and> 11 \<le> k \<and> w = NOT (mask k) OR 1 \<and> v AND NOT w = 0
      else (io \<longleftrightarrow> bit v 0) \<and> (if io then 2 else 4) \<le> k \<and> w = NOT (mask k) \<and> take_bit k v < (if io then 4 else 16))"

lemma and_one_iff: "(x :: u32) AND 1 \<noteq> 0 \<longleftrightarrow> bit x 0"
proof -
  have "x AND 1 = (if bit x 0 then 1 else 0)" by (rule bit_eqI) (auto simp: bit_simps bit_1_iff intro: gr0I)
  then show ?thesis by simp
qed

lemma unat_pow2_32: "m < 32 \<Longrightarrow> unat (2 ^ m :: u32) = 2 ^ m"
  using unat_of_nat_32 [of "2 ^ m"] power_strict_increasing [of m 32 "2 :: nat"] by simp

lemma take_bit_small:
  assumes "take_bit k (v :: u32) < 2 ^ m" "m < 32"
  shows "n < k \<Longrightarrow> m \<le> n \<Longrightarrow> \<not> bit v n"
proof -
  assume n: "n < k" "m \<le> n"
  have "unat (2 ^ m :: u32) = 2 ^ m" by (rule unat_pow2_32 [OF assms(2)])
  then have "unat (take_bit k v) < 2 ^ m" using assms(1) by (simp add: word_less_nat_alt)
  also have "\<dots> \<le> 2 ^ n" using n(2) by (simp add: power_increasing)
  finally have "\<not> bit (unat (take_bit k v)) n" by (simp add: bit_iff_odd)
  then show "\<not> bit v n" using n(1) by (auto simp: bit_simps dest: bit_imp_le_length)
qed

lemma mask_consts:
  "PCI_ROM_ADDRESS_MASK = NOT (mask 11)" "PCI_BASE_ADDRESS_IO_MASK = NOT (mask 2)" "PCI_BASE_ADDRESS_MEM_MASK = NOT (mask 4)"
  by (simp_all add: PCI_ROM_ADDRESS_MASK_def PCI_BASE_ADDRESS_IO_MASK_def PCI_BASE_ADDRESS_MEM_MASK_def mask_eq_decr_exp)

lemma probe_bar:
  assumes "bar_shape i w v k io"
  defines "out \<equiv> (if i = PCI_ROM_SLOT then PCI_ROM_ADDRESS_MASK else 0xffffffff)"
    and "m \<equiv> (if i = PCI_ROM_SLOT then PCI_ROM_ADDRESS_MASK
               else if v AND PCI_BASE_ADDRESS_SPACE_IO \<noteq> 0 then PCI_BASE_ADDRESS_IO_MASK else PCI_BASE_ADDRESS_MEM_MASK)"
    and "val \<equiv> (v AND NOT w) OR ((if i = PCI_ROM_SLOT then PCI_ROM_ADDRESS_MASK else 0xffffffff) AND w)"
  shows "val \<noteq> 0" "val AND PCI_BASE_ADDRESS_SPACE_IO \<noteq> 0 \<longleftrightarrow> io" "NOT (val AND m) + 1 = 2 ^ k"
    "(val AND NOT w) OR (v AND w) = v"
proof -
  have k: "k < 32" using assms(1) by (simp add: bar_shape_def)
  have "\<exists>M u. m = NOT (mask M) \<and> M \<le> k \<and> val = NOT (mask k) OR (u AND mask M) \<and> (bit val 0 \<longleftrightarrow> io)"
  proof (cases "i = PCI_ROM_SLOT")
    case True
    then have w: "w = NOT (mask k) OR 1" "v AND NOT w = 0" "11 \<le> k" "\<not> io"
      using assms(1) unfolding bar_shape_def if_P [OF True] by blast+
    have "val = NOT (mask 11) AND (NOT (mask k) OR 1)" using True w(1,2) by (simp add: val_def mask_consts)
    also have "\<dots> = NOT (mask k)" by (rule bit_eqI) (use w(3) in \<open>auto simp: bit_simps bit_1_iff\<close>)
    finally show ?thesis using True w(3,4) k by (intro exI [of _ 11] exI [of _ 0]) (simp add: m_def mask_consts bit_simps)
  next
    case False
    define M where "M = (if io then 2 else 4 :: nat)"
    have w: "io \<longleftrightarrow> bit v 0" "M \<le> k" "w = NOT (mask k)" "take_bit k v < 2 ^ M"
      using assms(1) False by (auto simp: bar_shape_def M_def split: if_splits)
    have "\<And>n. n < k \<Longrightarrow> M \<le> n \<Longrightarrow> \<not> bit v n" using take_bit_small [OF w(4)] by (simp add: M_def split: if_splits)
    then have "val = NOT (mask k) OR (v AND mask M)"
      unfolding val_def w(3) using False w(2) unfolding all_ones
      by (intro bit_eqI) (auto simp: bit_simps, meson not_le)
    moreover have "m = NOT (mask M)" using False w(1) by (simp add: m_def mask_consts PCI_BASE_ADDRESS_SPACE_IO_def and_one_iff M_def)
    moreover from calculation have "bit val 0 \<longleftrightarrow> io" using w(1,2) by (auto simp: bit_simps M_def)
    ultimately show ?thesis using w(2) by (intro exI [of _ M] exI [of _ v]) simp
  qed
  then obtain M u where M: "m = NOT (mask M)" "M \<le> k" "val = NOT (mask k) OR (u AND mask M)" "bit val 0 \<longleftrightarrow> io"
    by blast
  have "bit val 31" using k M(3) by (simp add: bit_simps)
  then show "val \<noteq> 0" by auto
  show "val AND PCI_BASE_ADDRESS_SPACE_IO \<noteq> 0 \<longleftrightarrow> io" using M(4) by (simp add: PCI_BASE_ADDRESS_SPACE_IO_def and_one_iff)
  have "val AND m = NOT (mask k)" unfolding M(1,3) by (rule bit_eqI) (use M(2) in \<open>auto simp: bit_simps\<close>)
  then show "NOT (val AND m) + 1 = 2 ^ k" by (simp add: mask_eq_decr_exp)
  show "(val AND NOT w) OR (v AND w) = v"
    unfolding val_def by (rule bit_eqI) (auto simp: bit_simps)
qed

lemma region_ofs_and: "i < 7 \<Longrightarrow> region_ofs i AND 0xfc = region_ofs i"
  by (auto simp: region_ofs_def PCI_ROM_SLOT_def PCI_ROM_ADDRESS_def PCI_BASE_ADDRESS_0_def less_Suc_eq numeral_eq_Suc)

text \<open>What the probe reads, and that it leaves the register as it was.\<close>

lemma probe_region_eq:
  fixes s :: pciinit and b :: nat
  assumes "i < 7"
  defines "g \<equiv> region_ofs i"
  defines "w \<equiv> pci_wmask s (of_nat b) g" and "v \<equiv> pci_cfg s (of_nat b) g"
  defines "val \<equiv> (v AND NOT w) OR ((if i = PCI_ROM_SLOT then PCI_ROM_ADDRESS_MASK else 0xffffffff) AND w)"
  shows "probe_region b i s = (val,
      if i = PCI_ROM_SLOT then PCI_ROM_ADDRESS_MASK
      else if v AND PCI_BASE_ADDRESS_SPACE_IO \<noteq> 0 then PCI_BASE_ADDRESS_IO_MASK else PCI_BASE_ADDRESS_MEM_MASK,
      s\<lparr>pci_cmd := pci_address (of_nat b) g,
        pci_cfg := (pci_cfg s)(of_nat b := (pci_cfg s (of_nat b))(g := (val AND NOT w) OR (v AND w)))\<rparr>)"
proof -
  have g: "g AND 0xfc = g" using region_ofs_and [OF assms(1)] by (simp add: g_def)
  show ?thesis
    unfolding probe_region_def pci_config_read pci_config_write Let_def case_prod_conv g_def [symmetric] g
    by (cases "i = PCI_ROM_SLOT") (simp_all add: val_def v_def w_def)
qed

lemma init_region_eq:
  fixes s :: pciinit and b :: nat
  assumes "i < 7" "bar_shape i w v k io"
    and w: "pci_wmask s (of_nat b) (region_ofs i) = w" and v: "pci_cfg s (of_nat b) (region_ofs i) = v"
  defines "addr \<equiv> ALIGN (if io then pci_bios_io_addr s else pci_bios_mem_addr s) (2 ^ k)"
  shows "\<exists>c. init_region b i s = s\<lparr>pci_cmd := c,
      pci_cfg := (pci_cfg s)(of_nat b := (pci_cfg s (of_nat b))(region_ofs i := (v AND NOT w) OR (addr AND w))),
      pci_bios_io_addr := (if io then addr + 2 ^ k else pci_bios_io_addr s),
      pci_bios_mem_addr := (if io then pci_bios_mem_addr s else addr + 2 ^ k)\<rparr>"
proof -
  note p = probe_bar [OF assms(2)]
  have "probe_region b i s = (fst (probe_region b i s), fst (snd (probe_region b i s)), s\<lparr>pci_cmd := pci_address (of_nat b) (region_ofs i)\<rparr>)"
    unfolding probe_region_eq [OF assms(1)] w v p(4) by (simp add: v [symmetric])
  moreover have "fst (probe_region b i s) \<noteq> 0" "fst (probe_region b i s) AND PCI_BASE_ADDRESS_SPACE_IO \<noteq> 0 \<longleftrightarrow> io"
      "NOT (fst (probe_region b i s) AND fst (snd (probe_region b i s))) + 1 = 2 ^ k"
    unfolding probe_region_eq [OF assms(1)] w v fst_conv snd_conv using p(1-3) by blast+
  ultimately obtain val m where *: "probe_region b i s = (val, m, s\<lparr>pci_cmd := pci_address (of_nat b) (region_ofs i)\<rparr>)"
      "val \<noteq> 0" "val AND PCI_BASE_ADDRESS_SPACE_IO \<noteq> 0 \<longleftrightarrow> io" "NOT (val AND m) + 1 = 2 ^ k"
    by blast
  show ?thesis
    unfolding init_region_def *(1) Let_def case_prod_conv *(4) if_P [OF *(2)] *(3)
    by (cases io; intro exI [of _ "pci_address (of_nat b) (region_ofs i)"]) (simp_all add: pci_set_io_region_addr_def pci_config_read pci_config_write
        region_ofs_and [OF assms(1)] w v addr_def Let_def)
qed

lemma init_region_unimplemented:
  assumes "i < 7" "pci_wmask s (of_nat b) (region_ofs i) = 0" "pci_cfg s (of_nat b) (region_ofs i) = 0"
  shows "init_region b i s = s\<lparr>pci_cmd := pci_address (of_nat b) (region_ofs i)\<rparr>"
  using assms(2,3) by (simp add: init_region_def probe_region_eq [OF assms(1)] fun_upd_idem)

section \<open>Addresses\<close>

lemma align_up:
  fixes cur :: u32
  assumes "k < 32" "unat cur + 2 * 2 ^ k < 2 ^ 32"
  defines "addr \<equiv> ALIGN cur (2 ^ k)"
  shows "unat cur \<le> unat addr" "unat addr < unat cur + 2 ^ k" "2 ^ k dvd unat addr" "unat (addr + 2 ^ k) = unat addr + 2 ^ k"
proof -
  have p: "unat (2 ^ k :: u32) = 2 ^ k" by (rule unat_pow2_32 [OF assms(1)])
  have "unat (2 ^ k - 1 :: u32) = 2 ^ k - 1" using p by (simp add: unat_diff_nowrap word_le_nat_alt)
  then have u: "unat (cur + (2 ^ k - 1)) = unat cur + (2 ^ k - 1)"
    using assms(2) by (subst unat_add_nowrap) simp_all
  note a = addr_def [unfolded ALIGN_eq_ALIGN_DOWN]
  show d: "2 ^ k dvd unat addr" unfolding a by (rule ALIGN_DOWN_dvd)
  have "unat cur + (2 ^ k - 1) < unat addr + 2 ^ k" unfolding a using unat_ALIGN_DOWN_gt [of "cur + (2 ^ k - 1)" k] u by simp
  then show "unat cur \<le> unat addr" by simp
  show lt: "unat addr < unat cur + 2 ^ k" unfolding a
    using unat_ALIGN_DOWN_le [of "cur + (2 ^ k - 1)" k] one_le_power [of "2 :: nat" k] unfolding u by linarith
  show "unat (addr + 2 ^ k) = unat addr + 2 ^ k"
    using lt assms(2) p by (subst unat_add_nowrap) simp_all
qed

text \<open>The address that a base address register holds.\<close>

definition bar_base :: "nat \<Rightarrow> u32 \<Rightarrow> u32" where
  "bar_base i v = v AND (if i = PCI_ROM_SLOT then PCI_ROM_ADDRESS_MASK
     else if bit v 0 then PCI_BASE_ADDRESS_IO_MASK else PCI_BASE_ADDRESS_MEM_MASK)"

lemma bar_base_assigned:
  assumes "bar_shape i w v k io" "2 ^ k dvd unat addr"
  defines "v' \<equiv> (v AND NOT w) OR (addr AND w)"
  shows "bar_base i v' = addr" "bar_shape i w v' k io"
proof -
  have "take_bit k addr = 0" using assms(2) by (simp add: word_eq_iff_unat unsigned_take_bit_eq take_bit_eq_0_iff)
  then have low: "\<not> bit addr n" if "n < k" for n using that by (metis bit_0_eq bit_take_bit_iff bot_apply bot_bool_def)
  then have hi: "k \<le> n" if "bit addr n" for n using that not_le by blast
  have "bar_base i v' = addr \<and> bar_shape i w v' k io"
  proof (cases "i = PCI_ROM_SLOT")
    case True
    then have w: "w = NOT (mask k) OR 1" "v AND NOT w = 0" "11 \<le> k" "\<not> io" "k < 32"
      using assms(1) unfolding bar_shape_def if_P [OF True] by blast+
    have "v' = addr AND (NOT (mask k) OR 1)" unfolding v'_def w(2) using w(1) by simp
    also have "\<dots> = addr" by (rule bit_eqI) (use low [of 0] w(3) in \<open>auto simp: bit_simps bit_1_iff dest: hi\<close>)
    finally have "v' = addr" .
    moreover have "addr AND NOT w = 0" using \<open>v' = addr\<close> v'_def w(2)
      by (metis and.assoc and.commute bit.conj_cancel_right bit.conj_zero_right or.left_neutral)
    moreover have "addr AND NOT (mask 11) = addr" by (rule bit_eqI) (use w(3) in \<open>auto simp: bit_simps dest: hi\<close>)
    ultimately show ?thesis using True w(1,3-5) by (simp add: bar_base_def bar_shape_def mask_consts)
  next
    case False
    define M where "M = (if io then 2 else 4 :: nat)"
    have w: "io \<longleftrightarrow> bit v 0" "M \<le> k" "w = NOT (mask k)" "take_bit k v < 2 ^ M" "k < 32"
      using assms(1) False by (auto simp: bar_shape_def M_def split: if_splits)
    have zero: "\<And>n. n < k \<Longrightarrow> M \<le> n \<Longrightarrow> \<not> bit v n" using take_bit_small [OF w(4)] by (simp add: M_def split: if_splits)
    have v': "bit v' n \<longleftrightarrow> (if n < k then bit v n else bit addr n)" for n
      unfolding v'_def w(3) by (auto simp: bit_simps not_less dest: bit_imp_le_length low)
    have "0 < k" using w(2) by (simp add: M_def split: if_splits)
    then have b0: "bit v' 0 \<longleftrightarrow> io" using v' w(1) by simp
    have "take_bit k v' = take_bit k v" by (rule bit_eqI) (auto simp: bit_simps v')
    moreover have "v' AND NOT (mask M) = addr"
      by (rule bit_eqI) (use w(2) zero low in \<open>auto simp: bit_simps v', (meson not_le)\<close>)
    ultimately show ?thesis using False w(2-5) b0
      by (auto simp: bar_base_def bar_shape_def mask_consts M_def split: if_splits)
  qed
  then show "bar_base i v' = addr" "bar_shape i w v' k io" by blast+
qed

section \<open>Allocation\<close>

text \<open>
  The regions of the machine: \<open>K x i\<close> is the binary logarithm of the size of region \<open>i\<close> of device \<open>x\<close> and
  whether it is in the input/output space, or \<open>None\<close> if the device does not have it.
\<close>

type_synonym regions = "nat \<Rightarrow> nat \<Rightarrow> (nat \<times> bool) option"

definition bar_ok :: "regions \<Rightarrow> nat \<Rightarrow> nat \<Rightarrow> pciinit \<Rightarrow> bool" where
  "bar_ok K x i s \<longleftrightarrow>
     (case K x i of
        None \<Rightarrow> pci_wmask s (of_nat x) (region_ofs i) = 0 \<and> pci_cfg s (of_nat x) (region_ofs i) = 0
      | Some (k, io) \<Rightarrow> bar_shape i (pci_wmask s (of_nat x) (region_ofs i)) (pci_cfg s (of_nat x) (region_ofs i)) k io)"

definition base :: "pciinit \<Rightarrow> nat \<times> nat \<Rightarrow> nat" where
  "base s p = unat (bar_base (snd p) (pci_cfg s (of_nat (fst p)) (region_ofs (snd p))))"

definition cur_addr :: "bool \<Rightarrow> pciinit \<Rightarrow> nat" where
  "cur_addr io s = unat (if io then pci_bios_io_addr s else pci_bios_mem_addr s)"

definition start_addr :: "bool \<Rightarrow> nat" where
  "start_addr io = (if io then 0xc000 else 0xf0000000)"

text \<open>The space that a region may use up, alignment included.\<close>

definition cost :: "regions \<Rightarrow> bool \<Rightarrow> nat \<times> nat \<Rightarrow> nat" where
  "cost K io p = (case K (fst p) (snd p) of Some (k, io') \<Rightarrow> if io' = io then 2 * 2 ^ k else 0 | None \<Rightarrow> 0)"

definition disjoint_regions :: "regions \<Rightarrow> pciinit \<Rightarrow> nat \<times> nat \<Rightarrow> nat \<times> nat \<Rightarrow> bool" where
  "disjoint_regions K s p q \<longleftrightarrow>
     (\<forall>k l io. K (fst p) (snd p) = Some (k, io) \<and> K (fst q) (snd q) = Some (l, io)
        \<longrightarrow> base s p + 2 ^ k \<le> base s q \<or> base s q + 2 ^ l \<le> base s p)"

definition placed :: "regions \<Rightarrow> pciinit \<Rightarrow> nat \<times> nat \<Rightarrow> bool" where
  "placed K s p \<longleftrightarrow>
     (\<forall>k io. K (fst p) (snd p) = Some (k, io)
        \<longrightarrow> start_addr io \<le> base s p \<and> base s p + 2 ^ k \<le> cur_addr io s \<and> 2 ^ k dvd base s p)"

definition alloc_inv :: "regions \<Rightarrow> nat set \<Rightarrow> (nat \<times> nat) list \<Rightarrow> pciinit \<Rightarrow> bool" where
  "alloc_inv K D P s \<longleftrightarrow> (\<forall>x\<in>D. \<forall>i<7. bar_ok K x i s) \<and> distinct P \<and> (\<forall>p\<in>set P. placed K s p)
     \<and> (\<forall>p\<in>set P. \<forall>q\<in>set P. p \<noteq> q \<longrightarrow> disjoint_regions K s p q)
     \<and> (\<forall>io. start_addr io \<le> cur_addr io s \<and> cur_addr io s \<le> start_addr io + sum_list (map (cost K io) P))"

lemma bar_ok_cong:
  assumes "pci_wmask t = pci_wmask s" "pci_cfg t (of_nat y) (region_ofs j) = pci_cfg s (of_nat y) (region_ofs j)"
  shows "bar_ok K y j t = bar_ok K y j s"
  unfolding bar_ok_def assms by (rule refl)

lemma alloc_inv_cong:
  assumes "alloc_inv K D P s" "set P \<subseteq> D \<times> {..<7}" "pci_wmask t = pci_wmask s"
    "pci_bios_io_addr t = pci_bios_io_addr s" "pci_bios_mem_addr t = pci_bios_mem_addr s"
    and "\<And>y j. y \<in> D \<Longrightarrow> j < 7 \<Longrightarrow> pci_cfg t (of_nat y) (region_ofs j) = pci_cfg s (of_nat y) (region_ofs j)"
  shows "alloc_inv K D P t"
proof -
  have b: "base t p = base s p" if "p \<in> set P" for p using that assms(2,6) by (force simp: base_def)
  have c: "cur_addr io t = cur_addr io s" for io using assms(4,5) by (simp add: cur_addr_def)
  have "bar_ok K y j t = bar_ok K y j s" if "y \<in> D" "j < 7" for y j
    by (rule bar_ok_cong [OF assms(3) assms(6) [OF that]])
  then show ?thesis using assms(1) by (simp add: alloc_inv_def placed_def disjoint_regions_def b c)
qed

lemma region_ofs_inj: "i < 7 \<Longrightarrow> j < 7 \<Longrightarrow> region_ofs i = region_ofs j \<longleftrightarrow> i = j"
proof -
  assume "i < 7" "j < 7"
  have "region_ofs i = of_nat (if i = 6 then 48 else 16 + i * 4)" for i
    by (simp add: region_ofs_def PCI_ROM_SLOT_def PCI_ROM_ADDRESS_def PCI_BASE_ADDRESS_0_def)
  then show ?thesis using \<open>i < 7\<close> \<open>j < 7\<close> of_nat_32_eq_iff by (auto simp del: of_nat_add of_nat_mult split: if_splits)
qed

lemma of_nat_16_inj: "x < 0x10000 \<Longrightarrow> y < 0x10000 \<Longrightarrow> (of_nat x :: u16) = of_nat y \<longleftrightarrow> x = y"
  by (simp add: word_eq_iff_unat unsigned_of_nat take_bit_nat_eq_self)

text \<open>The step of the allocation over the facts that a region was assigned the next aligned address.\<close>

lemma alloc_step:
  assumes "alloc_inv K D P s" "K x i = Some (k, io)" "(x, i) \<notin> set P"
    and b: "\<And>p. p \<in> set P \<Longrightarrow> base t p = base s p" "base t (x, i) = a"
    and a: "cur_addr io s \<le> a" "2 ^ k dvd a" "a < cur_addr io s + 2 ^ k"
    and c: "cur_addr io t = a + 2 ^ k" "cur_addr (\<not> io) t = cur_addr (\<not> io) s"
    and ok: "\<forall>y\<in>D. \<forall>j<7. bar_ok K y j t"
  shows "alloc_inv K D (P @ [(x, i)]) t"
proof -
  have s: "\<And>p. p \<in> set P \<Longrightarrow> placed K s p" "\<And>io. start_addr io \<le> cur_addr io s"
      "\<And>io. cur_addr io s \<le> start_addr io + sum_list (map (cost K io) P)" "distinct P"
      "\<And>p q. p \<in> set P \<Longrightarrow> q \<in> set P \<Longrightarrow> p \<noteq> q \<Longrightarrow> disjoint_regions K s p q"
    using assms(1) by (auto simp: alloc_inv_def)
  have le: "cur_addr io' s \<le> cur_addr io' t" for io' using a(1) c by (cases "io' = io") auto
  have "placed K t p" if "p \<in> set P" for p
    using s(1) [OF that] le order_trans unfolding placed_def b(1) [OF that] by blast
  moreover have "placed K t (x, i)" using assms(2) s(2) [of io] a c(1) by (simp add: placed_def b(2))
  moreover have "disjoint_regions K t p q" if "p \<in> set P" "q \<in> set P" "p \<noteq> q" for p q
    using s(5) [OF that] by (simp add: disjoint_regions_def b(1) that)
  moreover have new: "disjoint_regions K t p (x, i)" if "p \<in> set P" for p
    using s(1) [OF that] assms(2) a(1) by (auto simp: disjoint_regions_def placed_def b that)
  moreover have "disjoint_regions K t (x, i) p" if "p \<in> set P" for p
    using new [OF that] by (auto simp: disjoint_regions_def)
  moreover have "cur_addr io' t \<le> start_addr io' + sum_list (map (cost K io') (P @ [(x, i)]))" for io'
    using s(3) [of io'] a(3) c assms(2) by (cases "io' = io") (auto simp: cost_def)
  moreover have "start_addr io' \<le> cur_addr io' t" for io' by (rule order_trans [OF s(2) le])
  ultimately show ?thesis using s(4) assms(3) ok unfolding alloc_inv_def by auto
qed

lemma init_region_alloc:
  assumes "alloc_inv K D P s" "D \<subseteq> {..<0x10000}" "set P \<subseteq> D \<times> {..<7}" "x \<in> D" "i < 7" "(x, i) \<notin> set P"
    and "\<And>io. start_addr io + sum_list (map (cost K io) (P @ [(x, i)])) < 2 ^ 32"
  shows "alloc_inv K D (P @ [(x, i)]) (init_region x i s)"
proof -
  let ?w = "pci_wmask s (of_nat x) (region_ofs i)" and ?v = "pci_cfg s (of_nat x) (region_ofs i)"
  have ok: "bar_ok K x i s" using assms(1,4,5) by (simp add: alloc_inv_def)
  show ?thesis
  proof (cases "K x i")
    case None
    then have "init_region x i s = s\<lparr>pci_cmd := pci_address (of_nat x) (region_ofs i)\<rparr>"
      using ok by (intro init_region_unimplemented [OF assms(5)]) (simp_all add: bar_ok_def)
    then have "alloc_inv K D P (init_region x i s)" using alloc_inv_cong [OF assms(1,3)] by simp
    then show ?thesis using None assms(6) by (auto simp: alloc_inv_def placed_def disjoint_regions_def cost_def)
  next
    case (Some kio)
    then obtain k io where K: "K x i = Some (k, io)" by (cases kio) auto
    have shape: "bar_shape i ?w ?v k io" using ok K by (simp add: bar_ok_def)
    let ?cur = "if io then pci_bios_io_addr s else pci_bios_mem_addr s"
    define addr where "addr = ALIGN ?cur (2 ^ k)"
    have "cur_addr io s \<le> start_addr io + sum_list (map (cost K io) P)" using assms(1) by (simp add: alloc_inv_def)
    then have "unat ?cur + 2 * 2 ^ k < 2 ^ 32" using assms(7) [of io] K by (simp add: cost_def cur_addr_def)
    moreover have "k < 32" using shape by (simp add: bar_shape_def)
    ultimately have a: "unat ?cur \<le> unat addr" "unat addr < unat ?cur + 2 ^ k" "2 ^ k dvd unat addr"
        "unat (addr + 2 ^ k) = unat addr + 2 ^ k"
      using align_up unfolding addr_def by blast+
    define v' where "v' = (?v AND NOT ?w) OR (addr AND ?w)"
    define t where "t = init_region x i s"
    obtain c where t: "t = s\<lparr>pci_cmd := c,
        pci_cfg := (pci_cfg s)(of_nat x := (pci_cfg s (of_nat x))(region_ofs i := v')),
        pci_bios_io_addr := (if io then addr + 2 ^ k else pci_bios_io_addr s),
        pci_bios_mem_addr := (if io then pci_bios_mem_addr s else addr + 2 ^ k)\<rparr>"
      using init_region_eq [OF assms(5) shape refl refl] unfolding addr_def v'_def t_def by blast
    have other: "pci_cfg t (of_nat y) (region_ofs j) = pci_cfg s (of_nat y) (region_ofs j)"
      if "y \<in> D" "j < 7" "(y, j) \<noteq> (x, i)" for y j
      using that assms(2,4,5) of_nat_16_inj [of y x] region_ofs_inj [of j i] by (auto simp: t)
    have "bar_ok K y j t" if "y \<in> D" "j < 7" for y j
    proof (cases "(y, j) = (x, i)")
      case True
      then show ?thesis using K bar_base_assigned(2) [OF shape a(3)] by (simp add: bar_ok_def t v'_def)
    next
      case False
      have "bar_ok K y j s" using assms(1) that by (simp add: alloc_inv_def)
      moreover have "pci_wmask t = pci_wmask s" by (simp add: t)
      ultimately show ?thesis using bar_ok_cong other [OF that False] by blast
    qed
    moreover have "base t p = base s p" if "p \<in> set P" for p
    proof -
      have "fst p \<in> D" "snd p < 7" "p \<noteq> (x, i)" using that assms(3,6) by auto
      then show ?thesis using other [of "fst p" "snd p"] by (simp add: base_def)
    qed
    moreover have "base t (x, i) = unat addr" using bar_base_assigned(1) [OF shape a(3)] by (simp add: base_def t v'_def)
    ultimately show ?thesis unfolding t_def [symmetric] using a
      by (intro alloc_step [OF assms(1) K assms(6), of t "unat addr"]) (auto simp: cur_addr_def t)
  qed
qed

section \<open>Devices\<close>

text \<open>The registers that say what a device is do not change.\<close>

definition keeps :: "pciinit \<Rightarrow> pciinit \<Rightarrow> bool" where
  "keeps s t \<longleftrightarrow> pci_wmask t = pci_wmask s \<and> (\<forall>y r. r \<in> {0x00, 0x08, 0x0c} \<longrightarrow> pci_cfg t y r = pci_cfg s y r)"

definition dev_keeps :: "u16 \<Rightarrow> pciinit \<Rightarrow> pciinit \<Rightarrow> bool" where
  "dev_keeps b s t \<longleftrightarrow> keeps s t \<and> (\<forall>y r. y \<noteq> b \<longrightarrow> pci_cfg t y r = pci_cfg s y r)"

lemma keeps_trans: "keeps s t \<Longrightarrow> keeps t u \<Longrightarrow> keeps s u"
  by (simp add: keeps_def)

lemma keeps_refl [simp]: "keeps s s" "keeps s (s\<lparr>pci_cmd := c\<rparr>)"
  by (simp_all add: keeps_def)

lemma dev_keeps_trans: "dev_keeps b s t \<Longrightarrow> dev_keeps b t u \<Longrightarrow> dev_keeps b s u"
  by (simp add: dev_keeps_def keeps_def)

lemma dev_keeps_refl [simp]: "dev_keeps b s s"
  by (simp add: dev_keeps_def)

lemma writes_only_keeps: "writes_only b G s t \<Longrightarrow> G \<inter> {0x00, 0x08, 0x0c} = {} \<Longrightarrow> dev_keeps b s t"
  unfolding writes_only_def dev_keeps_def keeps_def by blast

lemma region_ofs_other:
  assumes "i < 7"
  shows "region_ofs i \<notin> {0x00, 0x04, 0x08, 0x0c, 0x3c, 0x40, 0x60, 0x80, 0x90, 0xd0}"
proof -
  have "i = 0 \<or> i = 1 \<or> i = 2 \<or> i = 3 \<or> i = 4 \<or> i = 5 \<or> i = 6" using assms by linarith
  then show ?thesis by (auto simp: region_ofs_def PCI_ROM_SLOT_def PCI_ROM_ADDRESS_def PCI_BASE_ADDRESS_0_def)
qed

lemma region_ofs_disjoint:
  "G \<subseteq> {0x00, 0x04, 0x08, 0x0c, 0x3c, 0x40, 0x60, 0x80, 0x90, 0xd0} \<Longrightarrow> G \<inter> region_ofs ` {..<7} = {}"
proof -
  assume G: "G \<subseteq> {0x00, 0x04, 0x08, 0x0c, 0x3c, 0x40, 0x60, 0x80, 0x90, 0xd0}"
  have "region_ofs i \<notin> G" if "i < 7" for i using region_ofs_other [OF that] G by (meson subsetD)
  then show ?thesis by blast
qed

lemma set_region_writes_only:
  "i < 7 \<Longrightarrow> writes_only (of_nat b) {region_ofs i} s (pci_set_io_region_addr b i a s)"
  using write_writes_only(1) [of "of_nat b" "region_ofs i" "s\<lparr>pci_cmd := pci_address (of_nat b) (region_ofs i)\<rparr>" a]
  by (simp add: pci_set_io_region_addr_def pci_config_read region_ofs_and writes_only_def Let_def)

lemma init_region_frame:
  assumes "i < 7"
  shows "pci_wmask (init_region b i s) = pci_wmask s"
    "y \<noteq> of_nat b \<or> r \<noteq> region_ofs i \<Longrightarrow> pci_cfg (init_region b i s) y r = pci_cfg s y r"
  using set_region_writes_only [OF assms, of b] unfolding writes_only_def
  by (auto simp: init_region_def probe_region_eq [OF assms] Let_def split: if_splits)

lemma init_region_keeps: "i < 7 \<Longrightarrow> dev_keeps (of_nat b) s (init_region b i s)"
  unfolding dev_keeps_def keeps_def using region_ofs_other [of i] by (intro conjI allI impI init_region_frame) auto

lemma alloc_writes_only:
  assumes "alloc_inv K D P s" "set P \<subseteq> D \<times> {..<7}" "writes_only b G s t"
    and "b \<notin> of_nat ` D \<or> G \<inter> region_ofs ` {..<7} = {}"
  shows "alloc_inv K D P t"
proof (rule alloc_inv_cong [OF assms(1,2)])
  show "pci_cfg t (of_nat y) (region_ofs j) = pci_cfg s (of_nat y) (region_ofs j)" if "y \<in> D" "j < 7" for y j
  proof -
    have "of_nat y \<noteq> b \<or> region_ofs j \<notin> G" using that assms(4) by auto
    then show ?thesis using assms(3) unfolding writes_only_def by blast
  qed
qed (use assms(3) in \<open>simp_all add: writes_only_def\<close>)

lemma budget:
  fixes D :: "nat set" and Q :: "(nat \<times> nat) list"
  assumes "finite D" "set Q \<subseteq> D \<times> {..<7}" "distinct Q" "a + (\<Sum>p\<in>D \<times> {..<7}. f p) < (m :: nat)"
  shows "a + sum_list (map f Q) < m"
proof -
  have "sum_list (map f Q) = sum f (set Q)" using assms(3) by (rule sum_list_distinct_conv_sum_set)
  also have "\<dots> \<le> (\<Sum>p\<in>D \<times> {..<7}. f p)" using assms(1,2) by (intro sum_mono2) auto
  finally show ?thesis using assms(4) by linarith
qed

lemma default_map_alloc:
  assumes "alloc_inv K D P s" "D \<subseteq> {..<0x10000}" "set P \<subseteq> D \<times> {..<7}" "x \<in> D" "x \<notin> fst ` set P"
    and "\<And>io. start_addr io + (\<Sum>p\<in>D \<times> {..<7}. cost K io p) < 2 ^ 32"
  shows "alloc_inv K D (P @ map (Pair x) [0..<7]) (default_map x s) \<and> dev_keeps (of_nat x) s (default_map x s)"
proof -
  have fin: "finite D" using assms(2) finite_subset by blast
  have "alloc_inv K D (P @ map (Pair x) [0..<n]) (fold (init_region x) [0..<n] s) \<and> dev_keeps (of_nat x) s (fold (init_region x) [0..<n] s)"
    if "n \<le> 7" for n
    using that
  proof (induction n)
    case 0
    then show ?case using assms(1) by simp
  next
    case (Suc n)
    let ?P = "P @ map (Pair x) [0..<n]" and ?s = "fold (init_region x) [0..<n] s"
    have inv: "alloc_inv K D ?P ?s" "dev_keeps (of_nat x) s ?s" using Suc by simp_all
    have P: "set ?P \<subseteq> D \<times> {..<7}" "(x, n) \<notin> set ?P" using assms(3-5) Suc.prems by force+
    have "distinct (?P @ [(x, n)])" using inv(1) P(2) by (simp add: alloc_inv_def)
    then have "start_addr io + sum_list (map (cost K io) (?P @ [(x, n)])) < 2 ^ 32" for io
      using P(1) assms(4) Suc.prems by (intro budget [OF fin _ _ assms(6)]) auto
    then have "alloc_inv K D (?P @ [(x, n)]) (init_region x n ?s)"
      using Suc.prems by (intro init_region_alloc [OF inv(1) assms(2) P(1) assms(4) _ P(2)]) auto
    then show ?case using dev_keeps_trans [OF inv(2) init_region_keeps [of n x ?s]] Suc.prems by simp
  qed
  from this [of 7] show ?thesis by (simp add: default_map_def PCI_NUM_REGIONS_def)
qed


text \<open>The devices whose regions are assigned by the default mapping.\<close>

definition vendor :: "'a pci_scheme \<Rightarrow> nat \<Rightarrow> u16" where "vendor s x = ucast (pci_cfg s (of_nat x) 0)"
definition device :: "'a pci_scheme \<Rightarrow> nat \<Rightarrow> u16" where "device s x = ucast (drop_bit 16 (pci_cfg s (of_nat x) 0))"

definition default_mapped :: "'a pci_scheme \<Rightarrow> nat \<Rightarrow> bool" where
  "default_mapped s x \<longleftrightarrow> dev_class s x \<noteq> PCI_CLASS_SYSTEM_PIC \<and> dev_class s x \<noteq> 0xff00
     \<and> (dev_class s x = PCI_CLASS_STORAGE_IDE \<longrightarrow> vendor s x = PCI_VENDOR_ID_INTEL
          \<and> (device s x = PCI_DEVICE_ID_INTEL_82371SB_1 \<or> device s x = PCI_DEVICE_ID_INTEL_82371AB))"

lemma keeps_views:
  assumes "keeps s t"
  shows "dev_class t = dev_class s" "vendor t = vendor s" "device t = device s" "default_mapped t = default_mapped s"
    "present t = present s" "header t = header s" "bridge t = bridge s"
proof -
  show e: "dev_class t = dev_class s" "vendor t = vendor s" "device t = device s" "present t = present s" "header t = header s"
    using assms by (simp_all add: fun_eq_iff keeps_def dev_class_def vendor_def device_def present_def header_def)
  then show "default_mapped t = default_mapped s" "bridge t = bridge s"
    by (simp_all add: fun_eq_iff default_mapped_def bridge_def)
qed

lemma read_ids:
  "pci_config_readw (of_nat x) PCI_VENDOR_ID s = (vendor s x, s\<lparr>pci_cmd := pci_address (of_nat x) PCI_VENDOR_ID\<rparr>)"
  "pci_config_readw (of_nat x) PCI_DEVICE_ID s = (device s x, s\<lparr>pci_cmd := pci_address (of_nat x) PCI_DEVICE_ID\<rparr>)"
  by (simp_all add: pci_config_read pci_reg_defs vendor_def device_def)

lemma maskw_writes_only: "writes_only b {a AND 0xfc} s (pci_config_maskw b a off on s)"
  using write_writes_only(2) [of b a "s\<lparr>pci_cmd := pci_address b a\<rparr>"]
  by (simp add: pci_config_maskw_def pci_config_read writes_only_def)

lemma map_interrupt_writes_only: "writes_only (of_nat x) {0x3c} s (map_interrupt x s)"
  using write_writes_only(3) [of "of_nat x" PCI_INTERRUPT_LINE "s\<lparr>pci_cmd := pci_address (of_nat x) PCI_INTERRUPT_PIN\<rparr>"]
  by (simp add: map_interrupt_def pci_config_read PCI_INTERRUPT_LINE_def writes_only_def)

lemma writes_only_compose:
  "writes_only b G s t \<Longrightarrow> writes_only b H t u \<Longrightarrow> G \<subseteq> L \<Longrightarrow> H \<subseteq> L \<Longrightarrow> writes_only b L s u"
  using writes_only_trans [of b G s t H u] writes_only_mono [of b "G \<union> H" s u L] by blast

lemma init_piix4_pm_writes_only: "writes_only (of_nat x) {0x3c, 0x40, 0x80, 0x90, 0xd0} s (init_piix4_pm x s)"
proof -
  let ?b = "of_nat x :: u16" and ?G = "{0x3c, 0x40, 0x80, 0x90, 0xd0} :: u32 set"
  define s1 where "s1 = pci_config_writeb ?b PCI_INTERRUPT_LINE 9 s"
  define s2 where "s2 = pci_config_writel ?b 0x40 (PORT_ACPI_PM_BASE OR 1) s1"
  define s3 where "s3 = pci_config_writeb ?b 0x80 0x01 s2"
  define s4 where "s4 = pci_config_writel ?b 0x90 (PORT_SMB_BASE OR 1) s3"
  have "writes_only ?b ?G s s1" unfolding s1_def
    by (rule writes_only_mono [OF write_writes_only(3)]) (simp add: PCI_INTERRUPT_LINE_def)
  then have "writes_only ?b ?G s s2" unfolding s2_def by (rule writes_only_compose [OF _ write_writes_only(1)]) auto
  then have "writes_only ?b ?G s s3" unfolding s3_def by (rule writes_only_compose [OF _ write_writes_only(3)]) auto
  then have "writes_only ?b ?G s s4" unfolding s4_def by (rule writes_only_compose [OF _ write_writes_only(1)]) auto
  then have "writes_only ?b ?G s (pci_config_writeb ?b 0xd2 0x09 s4)"
    by (rule writes_only_compose [OF _ write_writes_only(3)]) auto
  then show ?thesis by (simp add: init_piix4_pm_def s1_def s2_def s3_def s4_def)
qed

text \<open>What follows the mapping of a device.\<close>

definition finish_device :: "nat \<Rightarrow> pciinit \<Rightarrow> pciinit \<Rightarrow> pciinit" where
  "finish_device x s0 s =
     (let s6 = map_interrupt x (pci_config_maskw (of_nat x) PCI_COMMAND 0 (PCI_COMMAND_IO OR PCI_COMMAND_MEMORY) s)
      in if vendor s0 x = PCI_VENDOR_ID_INTEL \<and> device s0 x = PCI_DEVICE_ID_INTEL_82371AB_3 then init_piix4_pm x s6 else s6)"

lemma finish_device_writes_only: "writes_only (of_nat x) {0x04, 0x3c, 0x40, 0x80, 0x90, 0xd0} s (finish_device x s0 s)"
proof -
  define s5 where "s5 = pci_config_maskw (of_nat x) PCI_COMMAND 0 (PCI_COMMAND_IO OR PCI_COMMAND_MEMORY) s"
  have "writes_only (of_nat x) {0x04} s s5"
    using maskw_writes_only [of "of_nat x" PCI_COMMAND s] by (simp add: s5_def PCI_COMMAND_def)
  then have s6: "writes_only (of_nat x) {0x04, 0x3c} s (map_interrupt x s5)"
    by (rule writes_only_compose [OF _ map_interrupt_writes_only]) auto
  then have "writes_only (of_nat x) {0x04, 0x3c, 0x40, 0x80, 0x90, 0xd0} s (init_piix4_pm x (map_interrupt x s5))"
    by (rule writes_only_compose [OF _ init_piix4_pm_writes_only]) auto
  then show ?thesis using writes_only_mono [OF s6] by (simp add: finish_device_def s5_def [symmetric] Let_def)
qed

lemma init_device_eq:
  "\<exists>c. pci_bios_init_device x s = finish_device x s (map_device x (dev_class s x) (vendor s x) (device s x) (s\<lparr>pci_cmd := c\<rparr>))"
proof -
  have "\<And>c. vendor (s\<lparr>pci_cmd := c\<rparr>) x = vendor s x" "\<And>c. device (s\<lparr>pci_cmd := c\<rparr>) x = device s x"
    by (simp_all add: vendor_def device_def)
  then show ?thesis unfolding pci_bios_init_device_def finish_device_def read_vga(1) read_ids Let_def case_prod_conv
    by (intro exI [of _ "pci_address (of_nat x) PCI_DEVICE_ID"]) simp
qed

lemma map_special_writes_only:
  assumes "\<not> default_mapped s x"
  shows "writes_only (of_nat x) (region_ofs ` {..<7}) t (map_device x (dev_class s x) (vendor s x) (device s x) t)"
proof -
  have w: "writes_only (of_nat x) (region_ofs ` {..<7}) t (pci_set_io_region_addr x i a u)"
    if "writes_only (of_nat x) (region_ofs ` {..<7}) t u" "i < 7" for i a u
    using that by (intro writes_only_compose [OF that(1) set_region_writes_only]) auto
  note w4 = w [OF w [OF w [OF w [OF writes_only_refl]]]]
  consider "dev_class s x = PCI_CLASS_STORAGE_IDE" "\<not> (vendor s x = PCI_VENDOR_ID_INTEL
          \<and> (device s x = PCI_DEVICE_ID_INTEL_82371SB_1 \<or> device s x = PCI_DEVICE_ID_INTEL_82371AB))"
    | "dev_class s x = PCI_CLASS_SYSTEM_PIC" | "dev_class s x = 0xff00"
    using assms unfolding default_mapped_def by blast
  then show ?thesis
  proof cases
    case 1
    show ?thesis unfolding map_device_def if_P [OF 1(1)] if_not_P [OF 1(2)] by (rule w4) simp_all
  next
    case 2
    then show ?thesis by (simp add: map_device_def PCI_CLASS_SYSTEM_PIC_def PCI_CLASS_STORAGE_IDE_def w)
  next
    case 3
    then show ?thesis by (simp add: map_device_def PCI_CLASS_SYSTEM_PIC_def PCI_CLASS_STORAGE_IDE_def w)
  qed
qed

lemma map_device_alloc:
  fixes c :: u32
  assumes inv: "alloc_inv K D P s" "set P \<subseteq> D \<times> {..<7}" and D: "D \<subseteq> {..<0x10000}" and x: "x < 0x10000" "x \<notin> fst ` set P"
    and def: "x \<in> D \<longleftrightarrow> default_mapped s x"
    and bud: "\<And>io. start_addr io + (\<Sum>p\<in>D \<times> {..<7}. cost K io p) < 2 ^ 32"
  defines "t \<equiv> map_device x (dev_class s x) (vendor s x) (device s x) (s\<lparr>pci_cmd := c\<rparr>)"
  shows "alloc_inv K D (P @ (if x \<in> D then map (Pair x) [0..<7] else [])) t \<and> dev_keeps (of_nat x) s t"
proof (cases "x \<in> D")
  case True
  let ?s = "s\<lparr>pci_cmd := c\<rparr>" and ?b = "of_nat x :: u16"
  obtain s' where s': "t = default_map x s'" "writes_only ?b {0x40} s s'"
  proof (cases "dev_class s x = PCI_CLASS_STORAGE_IDE")
    case ide: True
    have "writes_only ?b {0x40} ?s (pci_config_writew ?b 0x42 0x8000 (pci_config_writew ?b 0x40 0x8000 ?s))"
      by (rule writes_only_compose [OF write_writes_only(2) write_writes_only(2)]) auto
    then have "writes_only ?b {0x40} s (pci_config_writew ?b 0x42 0x8000 (pci_config_writew ?b 0x40 0x8000 ?s))"
      by (simp add: writes_only_def)
    moreover have "t = default_map x (pci_config_writew ?b 0x42 0x8000 (pci_config_writew ?b 0x40 0x8000 ?s))"
      using ide True def by (simp add: t_def map_device_def default_mapped_def)
    ultimately show thesis using that by blast
  next
    case False
    have "t = default_map x ?s" using False True def by (simp add: t_def map_device_def default_mapped_def)
    moreover have "writes_only ?b {0x40} s ?s" by (simp add: writes_only_def)
    ultimately show thesis using that by blast
  qed
  have "alloc_inv K D P s'" using region_ofs_other by (intro alloc_writes_only [OF inv s'(2)]) auto
  then have "alloc_inv K D (P @ map (Pair x) [0..<7]) t \<and> dev_keeps (of_nat x) s' t"
    unfolding s'(1) by (rule default_map_alloc [OF _ D inv(2) True x(2) bud])
  then show ?thesis using True dev_keeps_trans [OF writes_only_keeps [OF s'(2)]] by simp
next
  case False
  have "writes_only (of_nat x) (region_ofs ` {..<7}) s t"
    using map_special_writes_only [of s x "s\<lparr>pci_cmd := c\<rparr>"] False def unfolding t_def by (simp add: writes_only_def)
  moreover have "of_nat x \<notin> (of_nat ` D :: u16 set)" using False D x(1) of_nat_16_inj [of x] by auto
  moreover have "region_ofs ` {..<7} \<inter> {0x00, 0x08, 0x0c} = {}" using region_ofs_other by fastforce
  ultimately show ?thesis using False alloc_writes_only [OF inv] writes_only_keeps by simp
qed

lemma init_device_alloc:
  assumes inv: "alloc_inv K D P s" "set P \<subseteq> D \<times> {..<7}" and D: "D \<subseteq> {..<0x10000}" and x: "x < 0x10000" "x \<notin> fst ` set P"
    and def: "x \<in> D \<longleftrightarrow> default_mapped s x"
    and bud: "\<And>io. start_addr io + (\<Sum>p\<in>D \<times> {..<7}. cost K io p) < 2 ^ 32"
  shows "alloc_inv K D (P @ (if x \<in> D then map (Pair x) [0..<7] else [])) (pci_bios_init_device x s)
    \<and> dev_keeps (of_nat x) s (pci_bios_init_device x s)"
proof -
  let ?P = "P @ (if x \<in> D then map (Pair x) [0..<7] else [])"
  obtain c where c: "pci_bios_init_device x s
      = finish_device x s (map_device x (dev_class s x) (vendor s x) (device s x) (s\<lparr>pci_cmd := c\<rparr>))" (is "_ = finish_device x s ?t")
    using init_device_eq by blast
  have t: "alloc_inv K D ?P ?t" "dev_keeps (of_nat x) s ?t" using map_device_alloc [OF inv D x def bud] by blast+
  have P: "set ?P \<subseteq> D \<times> {..<7}" using inv(2) by auto
  have "{0x04, 0x3c, 0x40, 0x80, 0x90, 0xd0} \<inter> region_ofs ` {..<7} = {}" by (rule region_ofs_disjoint) simp
  then have "alloc_inv K D ?P (finish_device x s ?t)"
    by (intro alloc_writes_only [OF t(1) P finish_device_writes_only] disjI2)
  moreover have "dev_keeps (of_nat x) ?t (finish_device x s ?t)" by (rule writes_only_keeps [OF finish_device_writes_only]) simp
  ultimately show ?thesis unfolding c using dev_keeps_trans t(2) by blast
qed

lemma init_bridges_writes_only: "writes_only (of_nat x) {0x60} s (pci_bios_init_bridges x s)"
proof -
  let ?b = "of_nat x :: u16"
  have step: "writes_only ?b {0x60} s (snd (bridge_irq x i es))" if "writes_only ?b {0x60} s (snd es)" "i < 4" for i es
  proof -
    have "i = 0 \<or> i = 1 \<or> i = 2 \<or> i = 3" using that(2) by linarith
    then have "(0x60 + of_nat i :: u32) AND 0xfc = 0x60" by auto
    then show ?thesis using writes_only_compose [OF that(1) write_writes_only(3) [of ?b "0x60 + of_nat i" "snd es"]]
      by (simp add: bridge_irq_def split_beta Let_def)
  qed
  have "writes_only ?b {0x60} s (snd (fold (bridge_irq x) [0..<n] es))" if "writes_only ?b {0x60} s (snd es)" "n \<le> 4" for n es
    using that by (induction n) (auto intro: step)
  note loop = this
  have cmd: "writes_only ?b {0x60} s (s\<lparr>pci_cmd := c\<rparr>)" for c by (simp add: writes_only_def)
  have elcr: "writes_only ?b {0x60} s (u\<lparr>elcr_out := e\<rparr>) = writes_only ?b {0x60} s u" for u e by (simp add: writes_only_def)
  show ?thesis
    unfolding pci_bios_init_bridges_def read_ids split_beta Let_def fst_conv snd_conv if_distrib elcr
    by (simp add: cmd loop)
qed

section \<open>The whole setup\<close>

lemma dev_keeps_enum:
  assumes "dev_keeps (of_nat x) s t" "\<not> bridge s x"
  shows "same_enum s t"
proof -
  have k: "keeps s t" "\<And>y r. y \<noteq> of_nat x \<Longrightarrow> pci_cfg t y r = pci_cfg s y r" using assms(1) by (simp_all add: dev_keeps_def)
  have "bus_end t b = bus_end s b" if "bridge s b" for b
  proof -
    have "(of_nat b :: u16) \<noteq> of_nat x" using that assms(2) by (auto simp: bridge_def header_def)
    then show ?thesis using k(2) by (simp add: bus_end_def)
  qed
  then show ?thesis using keeps_views [OF k(1)] by (simp add: same_enum_def)
qed

text \<open>The regions of the devices visited, in the order in which they are assigned.\<close>

definition visited_regions :: "nat set \<Rightarrow> nat list \<Rightarrow> (nat \<times> nat) list" where
  "visited_regions D ds = concat (map (\<lambda>x. if x \<in> D then map (Pair x) [0..<7] else []) ds)"

lemma visited_regions_set: "set (visited_regions D ds) = (D \<inter> set ds) \<times> {..<7}"
  by (auto simp: visited_regions_def)

lemma foreachpci_no_bridge_rule:
  assumes nb: "\<And>b. b < 0x100 \<Longrightarrow> visible s b \<Longrightarrow> \<not> bridge s b" and "I [] s"
    and cmd: "\<And>ds t c. I ds t \<Longrightarrow> I ds (t\<lparr>pci_cmd := c\<rparr>)"
    and body: "\<And>ds x t. I ds t \<Longrightarrow> same_enum s t \<Longrightarrow> visible s x \<Longrightarrow> x < 0x100 \<Longrightarrow> x \<notin> set ds
      \<Longrightarrow> I (ds @ [x]) (body x t) \<and> dev_keeps (of_nat x) t (body x t)"
  shows "I (filter (visible s) [0..<0x100]) (foreachpci body s) \<and> same_enum s (foreachpci body s)"
proof -
  have lim: "bus_limit s 0 0x100 = 0x100" using nb by (rule bus_limit_no_bridge)
  have "I ([] @ filter (visible s) [0..<bus_limit s 0 0x100]) (foreachpci_from body 0 0x100 s)
      \<and> same_enum s (foreachpci_from body 0 0x100 s)"
  proof (rule foreachpci_from_rule)
    show "I (ds @ [x]) (body x t) \<and> same_enum t (body x t)"
      if "I ds t" "same_enum s t" "visible s x" "x < bus_limit s 0 0x100" "\<forall>y\<in>set ds. y < x" for ds x t
    proof -
      have "x < 0x100" "x \<notin> set ds" using that(4,5) lim by auto
      moreover have "\<not> bridge t x" using nb that(2,3) calculation(1) same_enum_views(3) [OF that(2)] by simp
      ultimately show ?thesis using body [OF that(1-3)] dev_keeps_enum by blast
    qed
  qed (use assms(2,3) in \<open>simp_all add: scan_pos_def\<close>)
  then show ?thesis unfolding lim foreachpci_def by simp
qed

lemma setup_regions:
  fixes s :: pciinit
  assumes nb: "\<And>b. b < 0x100 \<Longrightarrow> visible s b \<Longrightarrow> \<not> bridge s b"
    and D: "D = {x. x < 0x100 \<and> visible s x \<and> default_mapped s x}"
    and ok: "\<And>x i. x \<in> D \<Longrightarrow> i < 7 \<Longrightarrow> bar_ok K x i s"
    and bud: "\<And>io. start_addr io + (\<Sum>p\<in>D \<times> {..<7}. cost K io p) < 2 ^ 32"
  shows "\<exists>P. set P = D \<times> {..<7} \<and> alloc_inv K D P (pci_setup s)"
proof -
  let ?s = "s\<lparr>pci_bios_io_addr := 0xc000, pci_bios_mem_addr := BUILD_PCIMEM_START\<rparr>"
  define t where "t = foreachpci pci_bios_init_bridges ?s"
  have D16: "D \<subseteq> {..<0x10000}" using D by auto
  have v: "visible ?s = visible s" "bridge ?s = bridge s" "default_mapped ?s = default_mapped s"
    by (simp_all add: fun_eq_iff visible_def cfg_views default_mapped_def dev_class_def vendor_def device_def)
  have "alloc_inv K D [] ?s" using ok bar_ok_cong [of ?s s]
    by (auto simp: alloc_inv_def cur_addr_def start_addr_def BUILD_PCIMEM_START_def)
  then have "alloc_inv K D [] t \<and> keeps ?s t \<and> same_enum ?s t" (is "?I t \<and> _ \<and> _")
  proof -
    assume init: "alloc_inv K D [] ?s"
    have "(\<lambda>ds t. ?I t \<and> keeps ?s t) (filter (visible ?s) [0..<0x100]) t \<and> same_enum ?s t"
      unfolding t_def
    proof (rule foreachpci_no_bridge_rule)
      show "(\<lambda>ds t. ?I t \<and> keeps ?s t) ds (u\<lparr>pci_cmd := c\<rparr>)" if "(\<lambda>ds t. ?I t \<and> keeps ?s t) ds u" for ds u c
        using that alloc_inv_cong [of K D "[]" u "u\<lparr>pci_cmd := c\<rparr>"] keeps_trans [of ?s u] by simp
      show "(\<lambda>ds t. ?I t \<and> keeps ?s t) (ds @ [x]) (pci_bios_init_bridges x u) \<and> dev_keeps (of_nat x) u (pci_bios_init_bridges x u)"
        if "(\<lambda>ds t. ?I t \<and> keeps ?s t) ds u" for ds x u
      proof -
        have "dev_keeps (of_nat x) u (pci_bios_init_bridges x u)"
          by (rule writes_only_keeps [OF init_bridges_writes_only]) simp
        moreover have "?I (pci_bios_init_bridges x u)"
          using that region_ofs_other by (intro alloc_writes_only [OF _ _ init_bridges_writes_only]) auto
        ultimately show ?thesis using that keeps_trans [of ?s u] by (simp add: dev_keeps_def)
      qed
    qed (use init nb v in auto)
    then show ?thesis by simp
  qed
  then have t: "alloc_inv K D [] t" "keeps ?s t" "visible t = visible s" "bridge t = bridge s" "default_mapped t = default_mapped s"
    using same_enum_views [of ?s t] keeps_views [of ?s t] v by auto
  let ?J = "\<lambda>ds u. alloc_inv K D (visited_regions D ds) u \<and> keeps t u"
  have "?J (filter (visible t) [0..<0x100]) (foreachpci pci_bios_init_device t) \<and> same_enum t (foreachpci pci_bios_init_device t)"
  proof (rule foreachpci_no_bridge_rule)
    show "?J ds (u\<lparr>pci_cmd := c\<rparr>)" if "?J ds u" for ds u c
      using that alloc_inv_cong [of K D "visited_regions D ds" u "u\<lparr>pci_cmd := c\<rparr>"] keeps_trans [of t u]
      by (auto simp: visited_regions_set)
    show "?J (ds @ [x]) (pci_bios_init_device x u) \<and> dev_keeps (of_nat x) u (pci_bios_init_device x u)"
      if "?J ds u" "visible t x" "x < 0x100" "x \<notin> set ds" for ds x u
    proof -
      have "x \<in> D \<longleftrightarrow> default_mapped u x" using that(1-3) t keeps_views(4) [of t u] D by simp
      moreover have "x \<notin> fst ` set (visited_regions D ds)" using that(4) by (auto simp: visited_regions_set)
      ultimately have "alloc_inv K D (visited_regions D ds @ (if x \<in> D then map (Pair x) [0..<7] else [])) (pci_bios_init_device x u)
          \<and> dev_keeps (of_nat x) u (pci_bios_init_device x u)"
        using that(1,3) by (intro init_device_alloc [OF _ _ D16 _ _ _ bud]) (auto simp: visited_regions_set)
      then show ?thesis using that(1) keeps_trans [of t u] by (simp add: visited_regions_def dev_keeps_def)
    qed
  qed (use t nb in \<open>auto simp: visited_regions_def\<close>)
  then have "alloc_inv K D (visited_regions D (filter (visible t) [0..<0x100])) (pci_setup s)"
    by (simp add: pci_setup_def t_def Let_def)
  moreover have "set (visited_regions D (filter (visible t) [0..<0x100])) = D \<times> {..<7}"
    using D t(3) by (auto simp: visited_regions_set)
  ultimately show ?thesis by blast
qed

text \<open>The ends of the two windows: all 64K ports, and memory up to the last byte of the 32-bit space.\<close>

definition space_end :: "bool \<Rightarrow> nat" where
  "space_end io = (if io then 0x10000 else 2 ^ 32 - 1)"

text \<open>
  C21. After \<open>pci_setup\<close> on a machine without bridges and without 64-bit base address registers, every region of every
  device that is mapped by default starts at a multiple of its size and lies in the window from port C000h or from
  address F0000000h to the end of its space, and no two regions of one space overlap, provided that twice the sizes
  of the regions fit there. \<open>K\<close> is the list of the regions that the devices have, in registers as the PCI
  specification lays them out.
\<close>

theorem pci_setup_regions_disjoint:
  fixes s :: pciinit
  assumes "\<And>b. b < 0x100 \<Longrightarrow> visible s b \<Longrightarrow> \<not> bridge s b"
    and "D = {x. x < 0x100 \<and> visible s x \<and> default_mapped s x}"
    and "\<And>x i. x \<in> D \<Longrightarrow> i < 7 \<Longrightarrow> bar_ok K x i s"
    and "\<And>io. start_addr io + (\<Sum>p\<in>D \<times> {..<7}. cost K io p) \<le> space_end io"
    and "x \<in> D" "i < 7" "K x i = Some (k, io)"
  shows "start_addr io \<le> base (pci_setup s) (x, i) \<and> base (pci_setup s) (x, i) + 2 ^ k \<le> space_end io \<and> 2 ^ k dvd base (pci_setup s) (x, i)
    \<and> (\<forall>y j l. y \<in> D \<and> j < 7 \<and> (y, j) \<noteq> (x, i) \<and> K y j = Some (l, io)
         \<longrightarrow> base (pci_setup s) (x, i) + 2 ^ k \<le> base (pci_setup s) (y, j) \<or> base (pci_setup s) (y, j) + 2 ^ l \<le> base (pci_setup s) (x, i))"
proof -
  have "start_addr io + (\<Sum>p\<in>D \<times> {..<7}. cost K io p) < 2 ^ 32" for io using assms(4)[of io] by (auto simp: space_end_def split: if_splits)
  then obtain P where P: "set P = D \<times> {..<7}" "alloc_inv K D P (pci_setup s)" using setup_regions [OF assms(1-3)] by blast
  have "sum_list (map (cost K io) P) = (\<Sum>p\<in>D \<times> {..<7}. cost K io p)"
    using P by (simp add: alloc_inv_def sum_list_distinct_conv_sum_set)
  then have "cur_addr io (pci_setup s) \<le> space_end io" using P(2) assms(4)[of io] by (simp add: alloc_inv_def) (metis le_trans)
  moreover have "placed K (pci_setup s) (x, i)" using P assms(5,6) by (simp add: alloc_inv_def)
  moreover have "disjoint_regions K (pci_setup s) (x, i) (y, j)" if "y \<in> D" "j < 7" "(y, j) \<noteq> (x, i)" for y j
    using P that assms(5,6) by (simp add: alloc_inv_def) (metis lessThan_iff mem_Sigma_iff)
  ultimately show ?thesis using assms(7) by (auto simp: disjoint_regions_def placed_def)
qed

text \<open>A machine with one device: a memory region of 32M, 32 ports, and a memory region of 4K.\<close>

definition ex_init :: pciinit where
  "ex_init = \<lparr>pci_cmd = 0,
     pci_cfg = (\<lambda>b r. if b = 0x10 then (if r = 0 then 0x00b81013 else if r = 0x08 then 0x03000000 else
                          if r = 0x10 then 0x08 else if r = 0x14 then 0x01 else 0)
                      else 0xffffffff),
     pci_wmask = (\<lambda>b r. if b = 0x10 then (if r = 0x10 then NOT (mask 25) else if r = 0x14 then NOT (mask 5) else
                            if r = 0x18 then NOT (mask 12) else 0) else 0),
     pci_bios_io_addr = 0, pci_bios_mem_addr = 0, elcr_out = []\<rparr>"

definition ex_regions :: regions where
  "ex_regions x i = (if x \<noteq> 0x10 then None else if i = 0 then Some (25, False) else if i = 1 then Some (5, True)
     else if i = 2 then Some (12, False) else None)"

lemma ex_init_visible: "b < 0x100 \<Longrightarrow> visible ex_init b \<Longrightarrow> b = 0x10"
  using of_nat_16_inj [of b "0x10"] by (auto simp: visible_def present_def ex_init_def split: if_splits)

lemma ex_init_device: "visible ex_init 0x10" "default_mapped ex_init 0x10" "\<not> bridge ex_init 0x10"
  by (simp_all add: visible_def present_def ex_init_def default_mapped_def dev_class_def PCI_CLASS_SYSTEM_PIC_def
      PCI_CLASS_STORAGE_IDE_def bridge_def header_def bridge_type_def PCI_HEADER_TYPE_BRIDGE_def PCI_HEADER_TYPE_CARDBUS_def)

lemma ex_init_devices: "{x. x < 0x100 \<and> visible ex_init x \<and> default_mapped ex_init x} = {0x10}"
  using ex_init_visible ex_init_device by auto

lemma region_ofs_values:
  "region_ofs 0 = 0x10" "region_ofs (Suc 0) = 0x14" "region_ofs 2 = 0x18" "region_ofs 3 = 0x1c" "region_ofs 4 = 0x20"
  "region_ofs 5 = 0x24" "region_ofs 6 = 0x30"
  by (simp_all add: region_ofs_def PCI_ROM_SLOT_def PCI_ROM_ADDRESS_def PCI_BASE_ADDRESS_0_def)

lemma ex_init_bars: "i < 7 \<Longrightarrow> bar_ok ex_regions 0x10 i ex_init"
proof -
  assume "i < 7"
  then consider "i = 0" | "i = 1" | "i = 2" | "i = 3" | "i = 4" | "i = 5" | "i = 6" by linarith
  then show ?thesis
  proof cases
    case 1
    then show ?thesis by (simp add: bar_ok_def ex_regions_def ex_init_def region_ofs_values bar_shape_def PCI_ROM_SLOT_def)
  next
    case 2
    then show ?thesis by (simp add: bar_ok_def ex_regions_def ex_init_def region_ofs_values bar_shape_def PCI_ROM_SLOT_def)
  next
    case 3
    then show ?thesis by (simp add: bar_ok_def ex_regions_def ex_init_def region_ofs_values bar_shape_def PCI_ROM_SLOT_def)
  qed (simp_all add: bar_ok_def ex_regions_def ex_init_def region_ofs_values)
qed

theorem pci_setup_regions_disjoint_witness:
  "0xf0000000 \<le> base (pci_setup ex_init) (0x10, 0) \<and> 2 ^ 25 dvd base (pci_setup ex_init) (0x10, 0)
    \<and> (base (pci_setup ex_init) (0x10, 0) + 2 ^ 25 \<le> base (pci_setup ex_init) (0x10, 2)
      \<or> base (pci_setup ex_init) (0x10, 2) + 2 ^ 12 \<le> base (pci_setup ex_init) (0x10, 0))"
proof -
  have "\<not> bridge ex_init b" if "b < 0x100" "visible ex_init b" for b
    using ex_init_visible [OF that] ex_init_device(3) by simp
  moreover have "start_addr io + (\<Sum>p\<in>{0x10} \<times> {..<7}. cost ex_regions io p) \<le> space_end io" for io
    by (cases io) (simp_all add: space_end_def sum.cartesian_product [symmetric] lessThan_nat_numeral lessThan_Suc start_addr_def cost_def ex_regions_def)
  ultimately have r: "start_addr False \<le> base (pci_setup ex_init) (0x10, 0)" "2 ^ 25 dvd base (pci_setup ex_init) (0x10, 0)"
    "\<forall>y j l. y \<in> {0x10} \<and> j < 7 \<and> (y, j) \<noteq> (0x10, 0) \<and> ex_regions y j = Some (l, False)
         \<longrightarrow> base (pci_setup ex_init) (0x10, 0) + 2 ^ 25 \<le> base (pci_setup ex_init) (y, j) \<or> base (pci_setup ex_init) (y, j) + 2 ^ l \<le> base (pci_setup ex_init) (0x10, 0)"
    using pci_setup_regions_disjoint [of ex_init "{0x10}" ex_regions "0x10" 0 25 False] ex_init_devices ex_init_bars
    by (auto simp: ex_regions_def)
  have "ex_regions 0x10 2 = Some (12, False)" by (simp add: ex_regions_def)
  then show ?thesis using r(1,2) r(3)[rule_format, of "0x10" 2 12] by (simp add: start_addr_def)
qed

text \<open>
  The upper half of a 64-bit base address register is taken for a region of 16 ports: if all bits
  of register \<open>i\<close> are writable and zero, as in such a half, it is set to the next free port address,
  which moves the region of the lower half above 4G.
\<close>

theorem upper_half_gets_port_address:
  fixes s :: pciinit
  assumes "i < 6" "pci_wmask s (of_nat b) (region_ofs i) = 0xffffffff" "pci_cfg s (of_nat b) (region_ofs i) = 0"
  shows "pci_cfg (init_region b i s) (of_nat b) (region_ofs i) = ALIGN (pci_bios_io_addr s) 16
    \<and> pci_bios_io_addr (init_region b i s) = ALIGN (pci_bios_io_addr s) 16 + 16
    \<and> pci_bios_mem_addr (init_region b i s) = pci_bios_mem_addr s"
proof -
  have i: "i < 7" "i \<noteq> PCI_ROM_SLOT" using assms(1) by (simp_all add: PCI_ROM_SLOT_def)
  show ?thesis using assms(2,3) i
    unfolding all_ones by (simp add: init_region_def probe_region_eq [OF i(1)] all_ones pci_set_io_region_addr_def pci_config_read
        pci_config_write region_ofs_and PCI_BASE_ADDRESS_SPACE_IO_def PCI_BASE_ADDRESS_MEM_MASK_def Let_def)
qed

theorem upper_half_gets_port_address_witness:
  "pci_cfg (init_region 0x10 1 (ex_init\<lparr>pci_cfg := \<lambda>b r. 0, pci_wmask := \<lambda>b r. 0xffffffff, pci_bios_io_addr := 0xc004\<rparr>)) 0x10 0x14 = 0xc010"
  using upper_half_gets_port_address [of 1 "ex_init\<lparr>pci_cfg := \<lambda>b r. 0, pci_wmask := \<lambda>b r. 0xffffffff, pci_bios_io_addr := 0xc004\<rparr>" "0x10"]
  by (simp add: region_ofs_values ALIGN_def)

end
