(* ===== verification/Vgatables.thy ===== *)
theory Vgatables
  imports Prelude
begin

text \<open>
  \<open>bios/seabios/vgasrc/vgatables.c\<close> and \<open>vgatables.h\<close>: the video parameter table and the list of video
  modes. The palettes are data in the ROM image; a mode names its palette by number, and the place of
  the palette in the image is left to the linker.
\<close>

section \<open>Constants\<close>

definition VGAREG_ACTL_ADDRESS :: u16 where "VGAREG_ACTL_ADDRESS = 0x3c0"
definition VGAREG_ACTL_WRITE_DATA :: u16 where "VGAREG_ACTL_WRITE_DATA = 0x3c0"
definition VGAREG_ACTL_READ_DATA :: u16 where "VGAREG_ACTL_READ_DATA = 0x3c1"
definition VGAREG_WRITE_MISC_OUTPUT :: u16 where "VGAREG_WRITE_MISC_OUTPUT = 0x3c2"
definition VGAREG_SEQU_ADDRESS :: u16 where "VGAREG_SEQU_ADDRESS = 0x3c4"
definition VGAREG_SEQU_DATA :: u16 where "VGAREG_SEQU_DATA = 0x3c5"
definition VGAREG_PEL_MASK :: u16 where "VGAREG_PEL_MASK = 0x3c6"
definition VGAREG_DAC_STATE :: u16 where "VGAREG_DAC_STATE = 0x3c7"
definition VGAREG_DAC_READ_ADDRESS :: u16 where "VGAREG_DAC_READ_ADDRESS = 0x3c7"
definition VGAREG_DAC_WRITE_ADDRESS :: u16 where "VGAREG_DAC_WRITE_ADDRESS = 0x3c8"
definition VGAREG_DAC_DATA :: u16 where "VGAREG_DAC_DATA = 0x3c9"
definition VGAREG_READ_FEATURE_CTL :: u16 where "VGAREG_READ_FEATURE_CTL = 0x3ca"
definition VGAREG_READ_MISC_OUTPUT :: u16 where "VGAREG_READ_MISC_OUTPUT = 0x3cc"
definition VGAREG_GRDC_ADDRESS :: u16 where "VGAREG_GRDC_ADDRESS = 0x3ce"
definition VGAREG_GRDC_DATA :: u16 where "VGAREG_GRDC_DATA = 0x3cf"
definition VGAREG_MDA_CRTC_ADDRESS :: u16 where "VGAREG_MDA_CRTC_ADDRESS = 0x3b4"
definition VGAREG_VGA_CRTC_ADDRESS :: u16 where "VGAREG_VGA_CRTC_ADDRESS = 0x3d4"
definition VGAREG_ACTL_RESET :: u16 where "VGAREG_ACTL_RESET = 0x3da"

lemmas vgareg_defs = VGAREG_ACTL_ADDRESS_def VGAREG_ACTL_WRITE_DATA_def VGAREG_ACTL_READ_DATA_def VGAREG_WRITE_MISC_OUTPUT_def VGAREG_SEQU_ADDRESS_def VGAREG_SEQU_DATA_def VGAREG_PEL_MASK_def VGAREG_DAC_STATE_def VGAREG_DAC_READ_ADDRESS_def VGAREG_DAC_WRITE_ADDRESS_def VGAREG_DAC_DATA_def VGAREG_READ_FEATURE_CTL_def VGAREG_READ_MISC_OUTPUT_def VGAREG_GRDC_ADDRESS_def VGAREG_GRDC_DATA_def VGAREG_MDA_CRTC_ADDRESS_def VGAREG_VGA_CRTC_ADDRESS_def VGAREG_ACTL_RESET_def

definition SEG_GRAPH :: u16 where "SEG_GRAPH = 0xA000"
definition SEG_CTEXT :: u16 where "SEG_CTEXT = 0xB800"
definition SEG_MTEXT :: u16 where "SEG_MTEXT = 0xB000"

definition TEXT :: u8 where "TEXT = 0x80"
definition CTEXT :: u8 where "CTEXT = 0x80"
definition MTEXT :: u8 where "MTEXT = 0x81"
definition CGA :: u8 where "CGA = 0x02"
definition PLANAR1 :: u8 where "PLANAR1 = 0x03"
definition PLANAR4 :: u8 where "PLANAR4 = 0x04"
definition LINEAR8 :: u8 where "LINEAR8 = 0x05"

lemmas memmodel_defs = TEXT_def CTEXT_def MTEXT_def CGA_def PLANAR1_def PLANAR4_def LINEAR8_def

section \<open>Tables\<close>

record VideoParam_s =
  twidth :: u8
  theightm1 :: u8
  vp_cheight :: u8
  slength :: u16
  sequ_regs :: "u8 list"
  miscreg :: u8
  crtc_regs :: "u8 list"
  actl_regs :: "u8 list"
  grdc_regs :: "u8 list"

record vgamode_s =
  svgamode :: u8
  vparam :: VideoParam_s
  memmodel :: u8
  pixbits :: u8
  sstart :: u16
  pelmask :: u8
  dac :: nat
  dacsize :: u16

text \<open>The defined entries of \<open>video_param_table\<close>, by their index.\<close>

definition vparam_04 :: VideoParam_s where
  "vparam_04 = \<lparr>twidth = 40, theightm1 = 24, vp_cheight = 8, slength = 0x0800, sequ_regs = [9, 3, 0, 2], miscreg = 0x63,
     crtc_regs = [0x2d, 0x27, 0x28, 0x90, 0x2b, 0x80, 0xbf, 0x1f, 0, 0xc1, 0, 0, 0, 0, 0, 0, 0x9c, 0x8e, 0x8f, 0x14, 0, 0x96, 0xb9, 0xa2, 0xff],
     actl_regs = [0, 0x13, 0x15, 0x17, 2, 4, 6, 7, 0x10, 0x11, 0x12, 0x13, 0x14, 0x15, 0x16, 0x17, 1, 0, 3, 0],
     grdc_regs = [0, 0, 0, 0, 0, 0x30, 0xf, 0xf, 0xff]\<rparr>"

definition vparam_05 :: VideoParam_s where
  "vparam_05 = \<lparr>twidth = 40, theightm1 = 24, vp_cheight = 8, slength = 0x0800, sequ_regs = [9, 3, 0, 2], miscreg = 0x63,
     crtc_regs = [0x2d, 0x27, 0x28, 0x90, 0x2b, 0x80, 0xbf, 0x1f, 0, 0xc1, 0, 0, 0, 0, 0, 0, 0x9c, 0x8e, 0x8f, 0x14, 0, 0x96, 0xb9, 0xa2, 0xff],
     actl_regs = [0, 0x13, 0x15, 0x17, 2, 4, 6, 7, 0x10, 0x11, 0x12, 0x13, 0x14, 0x15, 0x16, 0x17, 1, 0, 3, 0],
     grdc_regs = [0, 0, 0, 0, 0, 0x30, 0xf, 0xf, 0xff]\<rparr>"

definition vparam_06 :: VideoParam_s where
  "vparam_06 = \<lparr>twidth = 80, theightm1 = 24, vp_cheight = 8, slength = 0x1000, sequ_regs = [1, 1, 0, 6], miscreg = 0x63,
     crtc_regs = [0x5f, 0x4f, 0x50, 0x82, 0x54, 0x80, 0xbf, 0x1f, 0, 0xc1, 0, 0, 0, 0, 0, 0, 0x9c, 0x8e, 0x8f, 0x28, 0, 0x96, 0xb9, 0xc2, 0xff],
     actl_regs = [0, 0x17, 0x17, 0x17, 0x17, 0x17, 0x17, 0x17, 0x17, 0x17, 0x17, 0x17, 0x17, 0x17, 0x17, 0x17, 1, 0, 1, 0],
     grdc_regs = [0, 0, 0, 0, 0, 0, 0xd, 0xf, 0xff]\<rparr>"

definition vparam_07 :: VideoParam_s where
  "vparam_07 = \<lparr>twidth = 80, theightm1 = 24, vp_cheight = 16, slength = 0x1000, sequ_regs = [0, 3, 0, 2], miscreg = 0x66,
     crtc_regs = [0x5f, 0x4f, 0x50, 0x82, 0x55, 0x81, 0xbf, 0x1f, 0, 0x4f, 0xd, 0xe, 0, 0, 0, 0, 0x9c, 0x8e, 0x8f, 0x28, 0xf, 0x96, 0xb9, 0xa3, 0xff],
     actl_regs = [0, 8, 8, 8, 8, 8, 8, 8, 0x10, 0x18, 0x18, 0x18, 0x18, 0x18, 0x18, 0x18, 0xe, 0, 0xf, 8],
     grdc_regs = [0, 0, 0, 0, 0, 0x10, 0xa, 0xf, 0xff]\<rparr>"

definition vparam_0d :: VideoParam_s where
  "vparam_0d = \<lparr>twidth = 40, theightm1 = 24, vp_cheight = 8, slength = 0x2000, sequ_regs = [9, 0xf, 0, 6], miscreg = 0x63,
     crtc_regs = [0x2d, 0x27, 0x28, 0x90, 0x2b, 0x80, 0xbf, 0x1f, 0, 0xc0, 0, 0, 0, 0, 0, 0, 0x9c, 0x8e, 0x8f, 0x14, 0, 0x96, 0xb9, 0xe3, 0xff],
     actl_regs = [0, 1, 2, 3, 4, 5, 6, 7, 0x10, 0x11, 0x12, 0x13, 0x14, 0x15, 0x16, 0x17, 1, 0, 0xf, 0],
     grdc_regs = [0, 0, 0, 0, 0, 0, 5, 0xf, 0xff]\<rparr>"

definition vparam_0e :: VideoParam_s where
  "vparam_0e = \<lparr>twidth = 80, theightm1 = 24, vp_cheight = 8, slength = 0x4000, sequ_regs = [1, 0xf, 0, 6], miscreg = 0x63,
     crtc_regs = [0x5f, 0x4f, 0x50, 0x82, 0x54, 0x80, 0xbf, 0x1f, 0, 0xc0, 0, 0, 0, 0, 0, 0, 0x9c, 0x8e, 0x8f, 0x28, 0, 0x96, 0xb9, 0xe3, 0xff],
     actl_regs = [0, 1, 2, 3, 4, 5, 6, 7, 0x10, 0x11, 0x12, 0x13, 0x14, 0x15, 0x16, 0x17, 1, 0, 0xf, 0],
     grdc_regs = [0, 0, 0, 0, 0, 0, 5, 0xf, 0xff]\<rparr>"

definition vparam_11 :: VideoParam_s where
  "vparam_11 = \<lparr>twidth = 80, theightm1 = 24, vp_cheight = 14, slength = 0x8000, sequ_regs = [1, 0xf, 0, 6], miscreg = 0xa3,
     crtc_regs = [0x5f, 0x4f, 0x50, 0x82, 0x54, 0x80, 0xbf, 0x1f, 0, 0x40, 0, 0, 0, 0, 0, 0, 0x83, 0x85, 0x5d, 0x28, 0xf, 0x63, 0xba, 0xe3, 0xff],
     actl_regs = [0, 8, 0, 0, 0x18, 0x18, 0, 0, 0, 8, 0, 0, 0, 0x18, 0, 0, 1, 0, 1, 0],
     grdc_regs = [0, 0, 0, 0, 0, 0, 5, 0xf, 0xff]\<rparr>"

definition vparam_12 :: VideoParam_s where
  "vparam_12 = \<lparr>twidth = 80, theightm1 = 24, vp_cheight = 14, slength = 0x8000, sequ_regs = [1, 0xf, 0, 6], miscreg = 0xa3,
     crtc_regs = [0x5f, 0x4f, 0x50, 0x82, 0x54, 0x80, 0xbf, 0x1f, 0, 0x40, 0, 0, 0, 0, 0, 0, 0x83, 0x85, 0x5d, 0x28, 0xf, 0x63, 0xba, 0xe3, 0xff],
     actl_regs = [0, 1, 2, 3, 4, 5, 0x14, 7, 0x38, 0x39, 0x3a, 0x3b, 0x3c, 0x3d, 0x3e, 0x3f, 1, 0, 0xf, 0],
     grdc_regs = [0, 0, 0, 0, 0, 0, 5, 0xf, 0xff]\<rparr>"

definition vparam_17 :: VideoParam_s where
  "vparam_17 = \<lparr>twidth = 40, theightm1 = 24, vp_cheight = 16, slength = 0x0800, sequ_regs = [8, 3, 0, 2], miscreg = 0x67,
     crtc_regs = [0x2d, 0x27, 0x28, 0x90, 0x2b, 0xa0, 0xbf, 0x1f, 0, 0x4f, 0xd, 0xe, 0, 0, 0, 0, 0x9c, 0x8e, 0x8f, 0x14, 0x1f, 0x96, 0xb9, 0xa3, 0xff],
     actl_regs = [0, 1, 2, 3, 4, 5, 0x14, 7, 0x38, 0x39, 0x3a, 0x3b, 0x3c, 0x3d, 0x3e, 0x3f, 0xc, 0, 0xf, 8],
     grdc_regs = [0, 0, 0, 0, 0, 0x10, 0xe, 0xf, 0xff]\<rparr>"

definition vparam_18 :: VideoParam_s where
  "vparam_18 = \<lparr>twidth = 80, theightm1 = 24, vp_cheight = 16, slength = 0x1000, sequ_regs = [0, 3, 0, 2], miscreg = 0x67,
     crtc_regs = [0x5f, 0x4f, 0x50, 0x82, 0x55, 0x81, 0xbf, 0x1f, 0, 0x4f, 0xd, 0xe, 0, 0, 0, 0, 0x9c, 0x8e, 0x8f, 0x28, 0x1f, 0x96, 0xb9, 0xa3, 0xff],
     actl_regs = [0, 1, 2, 3, 4, 5, 0x14, 7, 0x38, 0x39, 0x3a, 0x3b, 0x3c, 0x3d, 0x3e, 0x3f, 0xc, 0, 0xf, 8],
     grdc_regs = [0, 0, 0, 0, 0, 0x10, 0xe, 0xf, 0xff]\<rparr>"

definition vparam_19 :: VideoParam_s where
  "vparam_19 = \<lparr>twidth = 80, theightm1 = 24, vp_cheight = 16, slength = 0x1000, sequ_regs = [0, 3, 0, 2], miscreg = 0x66,
     crtc_regs = [0x5f, 0x4f, 0x50, 0x82, 0x55, 0x81, 0xbf, 0x1f, 0, 0x4f, 0xd, 0xe, 0, 0, 0, 0, 0x9c, 0x8e, 0x8f, 0x28, 0xf, 0x96, 0xb9, 0xa3, 0xff],
     actl_regs = [0, 8, 8, 8, 8, 8, 8, 8, 0x10, 0x18, 0x18, 0x18, 0x18, 0x18, 0x18, 0x18, 0xe, 0, 0xf, 8],
     grdc_regs = [0, 0, 0, 0, 0, 0x10, 0xa, 0xf, 0xff]\<rparr>"

definition vparam_1a :: VideoParam_s where
  "vparam_1a = \<lparr>twidth = 80, theightm1 = 29, vp_cheight = 16, slength = 0x0000, sequ_regs = [1, 0xf, 0, 6], miscreg = 0xe3,
     crtc_regs = [0x5f, 0x4f, 0x50, 0x82, 0x54, 0x80, 0xb, 0x3e, 0, 0x40, 0, 0, 0, 0, 0, 0, 0xea, 0x8c, 0xdf, 0x28, 0, 0xe7, 4, 0xe3, 0xff],
     actl_regs = [0, 0x3f, 0, 0x3f, 0, 0x3f, 0, 0x3f, 0, 0x3f, 0, 0x3f, 0, 0x3f, 0, 0x3f, 1, 0, 0xf, 0],
     grdc_regs = [0, 0, 0, 0, 0, 0, 5, 0xf, 0xff]\<rparr>"

definition vparam_1b :: VideoParam_s where
  "vparam_1b = \<lparr>twidth = 80, theightm1 = 29, vp_cheight = 16, slength = 0x0000, sequ_regs = [1, 0xf, 0, 6], miscreg = 0xe3,
     crtc_regs = [0x5f, 0x4f, 0x50, 0x82, 0x54, 0x80, 0xb, 0x3e, 0, 0x40, 0, 0, 0, 0, 0, 0, 0xea, 0x8c, 0xdf, 0x28, 0, 0xe7, 4, 0xe3, 0xff],
     actl_regs = [0, 1, 2, 3, 4, 5, 0x14, 7, 0x38, 0x39, 0x3a, 0x3b, 0x3c, 0x3d, 0x3e, 0x3f, 1, 0, 0xf, 0],
     grdc_regs = [0, 0, 0, 0, 0, 0, 5, 0xf, 0xff]\<rparr>"

definition vparam_1c :: VideoParam_s where
  "vparam_1c = \<lparr>twidth = 40, theightm1 = 24, vp_cheight = 8, slength = 0x0000, sequ_regs = [1, 0xf, 0, 0xe], miscreg = 0x63,
     crtc_regs = [0x5f, 0x4f, 0x50, 0x82, 0x54, 0x80, 0xbf, 0x1f, 0, 0x41, 0, 0, 0, 0, 0, 0, 0x9c, 0x8e, 0x8f, 0x28, 0x40, 0x96, 0xb9, 0xa3, 0xff],
     actl_regs = [0, 1, 2, 3, 4, 5, 6, 7, 8, 9, 0xa, 0xb, 0xc, 0xd, 0xe, 0xf, 0x41, 0, 0xf, 0],
     grdc_regs = [0, 0, 0, 0, 0, 0x40, 5, 0xf, 0xff]\<rparr>"

definition vparam_1d :: VideoParam_s where
  "vparam_1d = \<lparr>twidth = 100, theightm1 = 36, vp_cheight = 16, slength = 0x0000, sequ_regs = [1, 0xf, 0, 6], miscreg = 0xe3,
     crtc_regs = [0x7f, 0x63, 0x63, 0x83, 0x6b, 0x1b, 0x72, 0xf0, 0, 0x60, 0, 0, 0, 0, 0, 0, 0x59, 0x8d, 0x57, 0x32, 0, 0x57, 0x73, 0xe3, 0xff],
     actl_regs = [0, 1, 2, 3, 4, 5, 0x14, 7, 0x38, 0x39, 0x3a, 0x3b, 0x3c, 0x3d, 0x3e, 0x3f, 1, 0, 0xf, 0],
     grdc_regs = [0, 0, 0, 0, 0, 0, 5, 0xf, 0xff]\<rparr>"

lemmas vparam_defs = vparam_04_def vparam_05_def vparam_06_def vparam_07_def vparam_0d_def vparam_0e_def vparam_11_def vparam_12_def vparam_17_def vparam_18_def vparam_19_def vparam_1a_def vparam_1b_def vparam_1c_def vparam_1d_def

definition palette_size :: "nat \<Rightarrow> u16" where
  "palette_size p = (if p = 3 then 768 else 192)"

definition mode_entry :: "u8 \<Rightarrow> VideoParam_s \<Rightarrow> u8 \<Rightarrow> u8 \<Rightarrow> u16 \<Rightarrow> nat \<Rightarrow> vgamode_s" where
  "mode_entry md vp model bits seg pal =
     \<lparr>svgamode = md, vparam = vp, memmodel = model, pixbits = bits, sstart = seg, pelmask = 0xff, dac = pal, dacsize = palette_size pal\<rparr>"

definition vga_modes :: "vgamode_s list" where
  "vga_modes = [
     mode_entry 0x00 vparam_17 CTEXT 4 SEG_CTEXT 2,
     mode_entry 0x01 vparam_17 CTEXT 4 SEG_CTEXT 2,
     mode_entry 0x02 vparam_18 CTEXT 4 SEG_CTEXT 2,
     mode_entry 0x03 vparam_18 CTEXT 4 SEG_CTEXT 2,
     mode_entry 0x04 vparam_04 CGA 2 SEG_CTEXT 1,
     mode_entry 0x05 vparam_05 CGA 2 SEG_CTEXT 1,
     mode_entry 0x06 vparam_06 CGA 1 SEG_CTEXT 1,
     mode_entry 0x07 vparam_07 MTEXT 4 SEG_MTEXT 0,
     mode_entry 0x0d vparam_0d PLANAR4 4 SEG_GRAPH 1,
     mode_entry 0x0e vparam_0e PLANAR4 4 SEG_GRAPH 1,
     mode_entry 0x0f vparam_11 PLANAR1 1 SEG_GRAPH 0,
     mode_entry 0x10 vparam_12 PLANAR4 4 SEG_GRAPH 2,
     mode_entry 0x11 vparam_1a PLANAR1 1 SEG_GRAPH 2,
     mode_entry 0x12 vparam_1b PLANAR4 4 SEG_GRAPH 2,
     mode_entry 0x13 vparam_1c LINEAR8 8 SEG_GRAPH 3,
     mode_entry 0x6a vparam_1d PLANAR4 4 SEG_GRAPH 2]"

fun find_mode :: "vgamode_s list \<Rightarrow> u8 \<Rightarrow> vgamode_s option" where
  "find_mode [] md = None"
| "find_mode (m # ms) md = (if svgamode m = md then Some m else find_mode ms md)"

definition find_vga_entry :: "u8 \<Rightarrow> vgamode_s option" where
  "find_vga_entry md = find_mode vga_modes md"

text \<open>The start of a page, in the units of the display controller and in bytes.\<close>

definition SCREEN_IO_START :: "u32 \<Rightarrow> u32 \<Rightarrow> u32 \<Rightarrow> u32" where
  "SCREEN_IO_START x y p = (((x * y) OR 0x00ff) + 1) * p"

definition SCREEN_MEM_START :: "u32 \<Rightarrow> u32 \<Rightarrow> u32 \<Rightarrow> u32" where
  "SCREEN_MEM_START x y p = SCREEN_IO_START (x * 2) y p"

section \<open>Properties\<close>

lemma find_mode_mem: "find_mode ms md = Some m \<Longrightarrow> m \<in> set ms \<and> svgamode m = md"
  by (induction ms) (auto split: if_splits)

lemmas find_vga_entryD = find_mode_mem[of vga_modes, folded find_vga_entry_def]

text \<open>What the code relies on in a mode: the sizes of the register arrays and of the screen.\<close>

definition mode_ok :: "vgamode_s \<Rightarrow> bool" where
  "mode_ok m \<longleftrightarrow> length (sequ_regs (vparam m)) = 4 \<and> length (crtc_regs (vparam m)) = 25
     \<and> length (actl_regs (vparam m)) = 20 \<and> length (grdc_regs (vparam m)) = 9
     \<and> 40 \<le> unat (twidth (vparam m)) \<and> unat (twidth (vparam m)) \<le> 100 \<and> unat (theightm1 (vparam m)) \<le> 36
     \<and> 24 \<le> unat (theightm1 (vparam m)) \<and> vp_cheight (vparam m) \<in> {8, 14, 16}
     \<and> (memmodel m AND TEXT \<noteq> 0 \<longrightarrow> memmodel m \<in> {CTEXT, MTEXT} \<and> sstart m \<in> {SEG_CTEXT, SEG_MTEXT} \<and> theightm1 (vparam m) = 24
          \<and> ucast (slength (vparam m)) = SCREEN_MEM_START (ucast (twidth (vparam m))) 25 1 \<and> unat (slength (vparam m)) * 8 \<le> 0x8000)"

lemma vga_modes_all_ok: "list_all mode_ok vga_modes"
  unfolding vga_modes_def by (simp add: mode_ok_def mode_entry_def vparam_defs memmodel_defs SEG_GRAPH_def SEG_CTEXT_def
      SEG_MTEXT_def SCREEN_MEM_START_def SCREEN_IO_START_def)

text \<open>
  The tables of video modes are well formed: every mode that the search finds has all its register
  values and a screen between 40 by 25 and 100 by 37 characters, and in the text modes the size of a
  page in the table is the distance of two pages that the cursor and character addresses are computed
  with, with eight pages in the 32K of the text buffer.
\<close>

theorem find_vga_entry_ok:
  "find_vga_entry md = Some m \<Longrightarrow> mode_ok m \<and> svgamode m = md"
  using find_vga_entryD vga_modes_all_ok by (auto simp: list_all_iff)

theorem find_vga_entry_ok_witness:
  "\<exists>m. find_vga_entry 3 = Some m \<and> mode_ok m \<and> sstart m = 0xB800"
proof -
  have "find_vga_entry 3 = Some (mode_entry 3 vparam_18 CTEXT 4 SEG_CTEXT 2)"
    by (simp add: find_vga_entry_def vga_modes_def mode_entry_def)
  then show ?thesis using find_vga_entry_ok[of 3] by (auto simp: mode_entry_def SEG_CTEXT_def)
qed

end
