(* ===== verification/Vgaio.thy ===== *)
theory Vgaio
  imports Vgatables Clock "HOL-Library.State_Monad"
begin

text \<open>
  \<open>bios/seabios/vgasrc/vgaio.c\<close>: access to the registers of the display adapter.

  The adapter and the memory are behind a bus, which is a parameter: input and output of bytes and
  words at ports, and reading and writing of a byte of memory, each of which may change the state
  \<open>'h\<close> of the hardware. The functions are written in the state monad, over the variables of the
  BIOS data area and the interrupt vectors that the video BIOS uses, and the hardware.
\<close>

section \<open>State\<close>

record 'h bus =
  b_inb :: "u16 \<Rightarrow> 'h \<Rightarrow> u8 \<times> 'h"
  b_outb :: "u8 \<Rightarrow> u16 \<Rightarrow> 'h \<Rightarrow> 'h"
  b_inw :: "u16 \<Rightarrow> 'h \<Rightarrow> u16 \<times> 'h"
  b_outw :: "u16 \<Rightarrow> u16 \<Rightarrow> 'h \<Rightarrow> 'h"
  b_rd :: "u32 \<Rightarrow> 'h \<Rightarrow> u8 \<times> 'h"
  b_wr :: "u32 \<Rightarrow> u8 \<Rightarrow> 'h \<Rightarrow> 'h"

text \<open>A far pointer: segment and offset.\<close>

type_synonym segoff = "u16 \<times> u16"

record vga_bda =
  video_mode :: u8
  video_cols :: u16
  video_pagesize :: u16
  video_pagestart :: u16
  cursor_pos :: "u16 list"
  cursor_type :: u16
  video_page :: u8
  crtc_address :: u16
  video_msr :: u8
  video_pal :: u8
  video_rows :: u8
  char_height :: u16
  video_ctl :: u8
  video_switches :: u8
  modeset_ctl :: u8
  dcc_index :: u8
  video_savetable :: segoff
  v_equipment :: u16
  ivt_10 :: segoff
  ivt_1f :: segoff
  ivt_43 :: segoff

record 'h vga =
  vbda :: vga_bda
  vhw :: 'h

type_synonym ('h, 'a) vio = "('h vga, 'a) state"

definition on_hw :: "('h \<Rightarrow> 'a \<times> 'h) \<Rightarrow> ('h, 'a) vio" where
  "on_hw f = State (\<lambda>s. let (v, h) = f (vhw s) in (v, s\<lparr>vhw := h\<rparr>))"

definition vinb :: "'h bus \<Rightarrow> u16 \<Rightarrow> ('h, u8) vio" where "vinb b port = on_hw (b_inb b port)"
definition vinw :: "'h bus \<Rightarrow> u16 \<Rightarrow> ('h, u16) vio" where "vinw b port = on_hw (b_inw b port)"
definition voutb :: "'h bus \<Rightarrow> u8 \<Rightarrow> u16 \<Rightarrow> ('h, unit) vio" where "voutb b v port = on_hw (\<lambda>h. ((), b_outb b v port h))"
definition voutw :: "'h bus \<Rightarrow> u16 \<Rightarrow> u16 \<Rightarrow> ('h, unit) vio" where "voutw b v port = on_hw (\<lambda>h. ((), b_outw b v port h))"

text \<open>\<open>GET_FARVAR\<close> and \<open>SET_FARVAR\<close>, for bytes and words.\<close>

definition get_far :: "'h bus \<Rightarrow> u16 \<Rightarrow> u16 \<Rightarrow> ('h, u8) vio" where
  "get_far b seg off = on_hw (b_rd b (far_addr seg off))"

definition set_far :: "'h bus \<Rightarrow> u16 \<Rightarrow> u16 \<Rightarrow> u8 \<Rightarrow> ('h, unit) vio" where
  "set_far b seg off v = on_hw (\<lambda>h. ((), b_wr b (far_addr seg off) v h))"

definition get_far16 :: "'h bus \<Rightarrow> u16 \<Rightarrow> u16 \<Rightarrow> ('h, u16) vio" where
  "get_far16 b seg off = do {
     lo \<leftarrow> get_far b seg off;
     hi \<leftarrow> get_far b seg (off + 1);
     State_Monad.return (ucast lo OR push_bit 8 (ucast hi))
   }"

definition set_far16 :: "'h bus \<Rightarrow> u16 \<Rightarrow> u16 \<Rightarrow> u16 \<Rightarrow> ('h, unit) vio" where
  "set_far16 b seg off v = do {
     set_far b seg off (ucast v);
     set_far b seg (off + 1) (ucast (drop_bit 8 v))
   }"

definition GET_BDA :: "(vga_bda \<Rightarrow> 'a) \<Rightarrow> ('h, 'a) vio" where
  "GET_BDA f = State (\<lambda>s. (f (vbda s), s))"

definition SET_BDA :: "(vga_bda \<Rightarrow> vga_bda) \<Rightarrow> ('h, unit) vio" where
  "SET_BDA f = State (\<lambda>s. ((), s\<lparr>vbda := f (vbda s)\<rparr>))"

text \<open>A loop over a list of indices.\<close>

fun for_each :: "'i list \<Rightarrow> ('i \<Rightarrow> ('s, unit) state) \<Rightarrow> ('s, unit) state" where
  "for_each [] body = State_Monad.return ()"
| "for_each (i # is) body = do { body i; for_each is body }"

definition do_when :: "bool \<Rightarrow> ('s, unit) state \<Rightarrow> ('s, unit) state" where
  "do_when c m = (if c then m else State_Monad.return ())"

section \<open>Attribute control\<close>

definition actl_reset :: "'h bus \<Rightarrow> ('h, u8) vio" where
  "actl_reset b = vinb b VGAREG_ACTL_RESET"

definition vgahw_screen_disable :: "'h bus \<Rightarrow> ('h, unit) vio" where
  "vgahw_screen_disable b = do { actl_reset b; voutb b 0x00 VGAREG_ACTL_ADDRESS }"

definition vgahw_screen_enable :: "'h bus \<Rightarrow> ('h, unit) vio" where
  "vgahw_screen_enable b = do { actl_reset b; voutb b 0x20 VGAREG_ACTL_ADDRESS }"

definition vgahw_set_border_color :: "'h bus \<Rightarrow> u8 \<Rightarrow> ('h, unit) vio" where
  "vgahw_set_border_color b color = do {
     actl_reset b;
     voutb b 0x00 VGAREG_ACTL_ADDRESS;
     let v0 = color AND 0x0f;
     let v1 = (if v0 AND 0x08 \<noteq> 0 then v0 + 0x08 else v0);
     voutb b v1 VGAREG_ACTL_WRITE_DATA;
     for_each [1, 2, 3] (\<lambda>i. do {
       voutb b i VGAREG_ACTL_ADDRESS;
       cur \<leftarrow> vinb b VGAREG_ACTL_READ_DATA;
       voutb b ((cur AND 0xef) OR (color AND 0x10)) VGAREG_ACTL_WRITE_DATA
     });
     voutb b 0x20 VGAREG_ACTL_ADDRESS
   }"

definition vgahw_set_overscan_border_color :: "'h bus \<Rightarrow> u8 \<Rightarrow> ('h, unit) vio" where
  "vgahw_set_overscan_border_color b color = do {
     actl_reset b;
     voutb b 0x11 VGAREG_ACTL_ADDRESS;
     voutb b color VGAREG_ACTL_WRITE_DATA;
     voutb b 0x20 VGAREG_ACTL_ADDRESS
   }"

definition vgahw_get_overscan_border_color :: "'h bus \<Rightarrow> ('h, u8) vio" where
  "vgahw_get_overscan_border_color b = do {
     actl_reset b;
     voutb b 0x11 VGAREG_ACTL_ADDRESS;
     v \<leftarrow> vinb b VGAREG_ACTL_READ_DATA;
     actl_reset b;
     voutb b 0x20 VGAREG_ACTL_ADDRESS;
     State_Monad.return v
   }"

definition vgahw_set_palette :: "'h bus \<Rightarrow> u8 \<Rightarrow> ('h, unit) vio" where
  "vgahw_set_palette b palid = do {
     actl_reset b;
     for_each [1, 2, 3] (\<lambda>i. do {
       voutb b i VGAREG_ACTL_ADDRESS;
       v \<leftarrow> vinb b VGAREG_ACTL_READ_DATA;
       voutb b ((v AND 0xfe) OR (palid AND 0x01)) VGAREG_ACTL_WRITE_DATA
     });
     voutb b 0x20 VGAREG_ACTL_ADDRESS
   }"

definition vgahw_set_single_palette_reg :: "'h bus \<Rightarrow> u8 \<Rightarrow> u8 \<Rightarrow> ('h, unit) vio" where
  "vgahw_set_single_palette_reg b reg val = do {
     actl_reset b;
     voutb b reg VGAREG_ACTL_ADDRESS;
     voutb b val VGAREG_ACTL_WRITE_DATA;
     voutb b 0x20 VGAREG_ACTL_ADDRESS
   }"

definition vgahw_get_single_palette_reg :: "'h bus \<Rightarrow> u8 \<Rightarrow> ('h, u8) vio" where
  "vgahw_get_single_palette_reg b reg = do {
     actl_reset b;
     voutb b reg VGAREG_ACTL_ADDRESS;
     v \<leftarrow> vinb b VGAREG_ACTL_READ_DATA;
     actl_reset b;
     voutb b 0x20 VGAREG_ACTL_ADDRESS;
     State_Monad.return v
   }"

definition vgahw_set_all_palette_reg :: "'h bus \<Rightarrow> u16 \<Rightarrow> u16 \<Rightarrow> ('h, unit) vio" where
  "vgahw_set_all_palette_reg b seg data_far = do {
     actl_reset b;
     for_each [0..<0x10] (\<lambda>i. do {
       voutb b (of_nat i) VGAREG_ACTL_ADDRESS;
       val \<leftarrow> get_far b seg (data_far + of_nat i);
       voutb b val VGAREG_ACTL_WRITE_DATA
     });
     voutb b 0x11 VGAREG_ACTL_ADDRESS;
     val \<leftarrow> get_far b seg (data_far + 0x10);
     voutb b val VGAREG_ACTL_WRITE_DATA;
     voutb b 0x20 VGAREG_ACTL_ADDRESS
   }"

definition vgahw_get_all_palette_reg :: "'h bus \<Rightarrow> u16 \<Rightarrow> u16 \<Rightarrow> ('h, unit) vio" where
  "vgahw_get_all_palette_reg b seg data_far = do {
     for_each [0..<0x10] (\<lambda>i. do {
       actl_reset b;
       voutb b (of_nat i) VGAREG_ACTL_ADDRESS;
       v \<leftarrow> vinb b VGAREG_ACTL_READ_DATA;
       set_far b seg (data_far + of_nat i) v
     });
     actl_reset b;
     voutb b 0x11 VGAREG_ACTL_ADDRESS;
     v \<leftarrow> vinb b VGAREG_ACTL_READ_DATA;
     set_far b seg (data_far + 0x10) v;
     actl_reset b;
     voutb b 0x20 VGAREG_ACTL_ADDRESS
   }"

definition vgahw_toggle_intensity :: "'h bus \<Rightarrow> u8 \<Rightarrow> ('h, unit) vio" where
  "vgahw_toggle_intensity b flag = do {
     actl_reset b;
     voutb b 0x10 VGAREG_ACTL_ADDRESS;
     cur \<leftarrow> vinb b VGAREG_ACTL_READ_DATA;
     voutb b ((cur AND 0xf7) OR push_bit 3 (flag AND 0x01)) VGAREG_ACTL_WRITE_DATA;
     voutb b 0x20 VGAREG_ACTL_ADDRESS
   }"

definition vgahw_select_video_dac_color_page :: "'h bus \<Rightarrow> u8 \<Rightarrow> u8 \<Rightarrow> ('h, unit) vio" where
  "vgahw_select_video_dac_color_page b flag data = do {
     actl_reset b;
     voutb b 0x10 VGAREG_ACTL_ADDRESS;
     val \<leftarrow> vinb b VGAREG_ACTL_READ_DATA;
     if flag AND 0x01 = 0 then do {
       voutb b ((val AND 0x7f) OR push_bit 7 data) VGAREG_ACTL_WRITE_DATA;
       voutb b 0x20 VGAREG_ACTL_ADDRESS
     } else do {
       actl_reset b;
       voutb b 0x14 VGAREG_ACTL_ADDRESS;
       voutb b ((if val AND 0x80 = 0 then push_bit 2 data else data) AND 0x0f) VGAREG_ACTL_WRITE_DATA;
       voutb b 0x20 VGAREG_ACTL_ADDRESS
     }
   }"

definition vgahw_read_video_dac_state :: "'h bus \<Rightarrow> ('h, u8 \<times> u8) vio" where
  "vgahw_read_video_dac_state b = do {
     actl_reset b;
     voutb b 0x10 VGAREG_ACTL_ADDRESS;
     v \<leftarrow> vinb b VGAREG_ACTL_READ_DATA;
     let val1 = drop_bit 7 v;
     actl_reset b;
     voutb b 0x14 VGAREG_ACTL_ADDRESS;
     w \<leftarrow> vinb b VGAREG_ACTL_READ_DATA;
     let val2 = (if val1 AND 0x01 = 0 then drop_bit 2 (w AND 0x0f) else w AND 0x0f);
     actl_reset b;
     voutb b 0x20 VGAREG_ACTL_ADDRESS;
     State_Monad.return (val1, val2)
   }"

section \<open>DAC control\<close>

fun set_dac_loop :: "'h bus \<Rightarrow> u16 \<Rightarrow> u16 \<Rightarrow> nat \<Rightarrow> ('h, unit) vio" where
  "set_dac_loop b seg data_far 0 = State_Monad.return ()"
| "set_dac_loop b seg data_far (Suc n) = do {
     r \<leftarrow> get_far b seg data_far; voutb b r VGAREG_DAC_DATA;
     g \<leftarrow> get_far b seg (data_far + 1); voutb b g VGAREG_DAC_DATA;
     l \<leftarrow> get_far b seg (data_far + 2); voutb b l VGAREG_DAC_DATA;
     set_dac_loop b seg (data_far + 3) n
   }"

definition vgahw_set_dac_regs :: "'h bus \<Rightarrow> u16 \<Rightarrow> u16 \<Rightarrow> u8 \<Rightarrow> nat \<Rightarrow> ('h, unit) vio" where
  "vgahw_set_dac_regs b seg data_far start count = do {
     voutb b start VGAREG_DAC_WRITE_ADDRESS; set_dac_loop b seg data_far count }"

fun get_dac_loop :: "'h bus \<Rightarrow> u16 \<Rightarrow> u16 \<Rightarrow> nat \<Rightarrow> ('h, unit) vio" where
  "get_dac_loop b seg data_far 0 = State_Monad.return ()"
| "get_dac_loop b seg data_far (Suc n) = do {
     r \<leftarrow> vinb b VGAREG_DAC_DATA; set_far b seg data_far r;
     g \<leftarrow> vinb b VGAREG_DAC_DATA; set_far b seg (data_far + 1) g;
     l \<leftarrow> vinb b VGAREG_DAC_DATA; set_far b seg (data_far + 2) l;
     get_dac_loop b seg (data_far + 3) n
   }"

definition vgahw_get_dac_regs :: "'h bus \<Rightarrow> u16 \<Rightarrow> u16 \<Rightarrow> u8 \<Rightarrow> nat \<Rightarrow> ('h, unit) vio" where
  "vgahw_get_dac_regs b seg data_far start count = do {
     voutb b start VGAREG_DAC_READ_ADDRESS; get_dac_loop b seg data_far count }"

definition vgahw_set_pel_mask :: "'h bus \<Rightarrow> u8 \<Rightarrow> ('h, unit) vio" where
  "vgahw_set_pel_mask b val = voutb b val VGAREG_PEL_MASK"

definition vgahw_get_pel_mask :: "'h bus \<Rightarrow> ('h, u8) vio" where
  "vgahw_get_pel_mask b = vinb b VGAREG_PEL_MASK"

text \<open>\<open>struct saveDACcolors\<close>: mode at 0, address at 1, mask at 2, 768 colour bytes at 3, colour select at 771.\<close>

definition vgahw_save_dac_state :: "'h bus \<Rightarrow> u16 \<Rightarrow> u16 \<Rightarrow> ('h, unit) vio" where
  "vgahw_save_dac_state b seg info = do {
     v \<leftarrow> vinb b VGAREG_DAC_STATE; set_far b seg info v;
     v \<leftarrow> vinb b VGAREG_DAC_WRITE_ADDRESS; set_far b seg (info + 1) v;
     v \<leftarrow> vinb b VGAREG_PEL_MASK; set_far b seg (info + 2) v;
     vgahw_get_dac_regs b seg (info + 3) 0 256;
     set_far b seg (info + 771) 0
   }"

definition vgahw_restore_dac_state :: "'h bus \<Rightarrow> u16 \<Rightarrow> u16 \<Rightarrow> ('h, unit) vio" where
  "vgahw_restore_dac_state b seg info = do {
     v \<leftarrow> get_far b seg (info + 2); voutb b v VGAREG_PEL_MASK;
     vgahw_set_dac_regs b seg (info + 3) 0 256;
     v \<leftarrow> get_far b seg (info + 1); voutb b v VGAREG_DAC_WRITE_ADDRESS
   }"

section \<open>Memory control\<close>

definition index_value :: "u8 \<Rightarrow> u8 \<Rightarrow> u16" where
  "index_value index value = push_bit 8 (ucast value) OR ucast index"

definition vgahw_sequ_write :: "'h bus \<Rightarrow> u8 \<Rightarrow> u8 \<Rightarrow> ('h, unit) vio" where
  "vgahw_sequ_write b index value = voutw b (index_value index value) VGAREG_SEQU_ADDRESS"

definition vgahw_grdc_write :: "'h bus \<Rightarrow> u8 \<Rightarrow> u8 \<Rightarrow> ('h, unit) vio" where
  "vgahw_grdc_write b index value = voutw b (index_value index value) VGAREG_GRDC_ADDRESS"

definition vgahw_set_text_block_specifier :: "'h bus \<Rightarrow> u8 \<Rightarrow> ('h, unit) vio" where
  "vgahw_set_text_block_specifier b spec = voutw b (push_bit 8 (ucast spec) OR 0x03) VGAREG_SEQU_ADDRESS"

definition get_font_access :: "'h bus \<Rightarrow> ('h, unit) vio" where
  "get_font_access b = do {
     voutw b 0x0100 VGAREG_SEQU_ADDRESS;
     voutw b 0x0402 VGAREG_SEQU_ADDRESS;
     voutw b 0x0704 VGAREG_SEQU_ADDRESS;
     voutw b 0x0300 VGAREG_SEQU_ADDRESS;
     voutw b 0x0204 VGAREG_GRDC_ADDRESS;
     voutw b 0x0005 VGAREG_GRDC_ADDRESS;
     voutw b 0x0406 VGAREG_GRDC_ADDRESS
   }"

definition release_font_access :: "'h bus \<Rightarrow> ('h, unit) vio" where
  "release_font_access b = do {
     voutw b 0x0100 VGAREG_SEQU_ADDRESS;
     voutw b 0x0302 VGAREG_SEQU_ADDRESS;
     voutw b 0x0304 VGAREG_SEQU_ADDRESS;
     voutw b 0x0300 VGAREG_SEQU_ADDRESS;
     m \<leftarrow> vinw b VGAREG_READ_MISC_OUTPUT;
     let v = (if m AND 0x01 \<noteq> 0 then 0x0e else 0x0a);
     voutw b (push_bit 8 v OR 0x06) VGAREG_GRDC_ADDRESS;
     voutw b 0x0004 VGAREG_GRDC_ADDRESS;
     voutw b 0x1005 VGAREG_GRDC_ADDRESS
   }"

section \<open>CRTC registers\<close>

definition get_crtc :: "('h, u16) vio" where "get_crtc = GET_BDA crtc_address"

definition crtc_pair :: "'h bus \<Rightarrow> u8 \<Rightarrow> u8 \<Rightarrow> u8 \<Rightarrow> u8 \<Rightarrow> ('h, unit) vio" where
  "crtc_pair b i v j w = do {
     crtc_addr \<leftarrow> get_crtc;
     voutb b i crtc_addr; voutb b v (crtc_addr + 1);
     voutb b j crtc_addr; voutb b w (crtc_addr + 1)
   }"

definition vgahw_set_cursor_shape :: "'h bus \<Rightarrow> u8 \<Rightarrow> u8 \<Rightarrow> ('h, unit) vio" where
  "vgahw_set_cursor_shape b start en = crtc_pair b 0x0a start 0x0b en"

definition vgahw_set_active_page :: "'h bus \<Rightarrow> u16 \<Rightarrow> ('h, unit) vio" where
  "vgahw_set_active_page b address = crtc_pair b 0x0c (ucast (drop_bit 8 (address AND 0xff00))) 0x0d (ucast (address AND 0x00ff))"

definition vgahw_set_cursor_pos :: "'h bus \<Rightarrow> u16 \<Rightarrow> ('h, unit) vio" where
  "vgahw_set_cursor_pos b address = crtc_pair b 0x0e (ucast (drop_bit 8 (address AND 0xff00))) 0x0f (ucast (address AND 0x00ff))"

definition vgahw_set_scan_lines :: "'h bus \<Rightarrow> u8 \<Rightarrow> ('h, unit) vio" where
  "vgahw_set_scan_lines b lines = do {
     crtc_addr \<leftarrow> get_crtc;
     voutb b 0x09 crtc_addr;
     r9 \<leftarrow> vinb b (crtc_addr + 1);
     voutb b ((r9 AND 0xe0) OR (lines - 1)) (crtc_addr + 1)
   }"

definition vgahw_get_vde :: "'h bus \<Rightarrow> ('h, u16) vio" where
  "vgahw_get_vde b = do {
     crtc_addr \<leftarrow> get_crtc;
     voutb b 0x12 crtc_addr;
     vde \<leftarrow> vinb b (crtc_addr + 1);
     voutb b 0x07 crtc_addr;
     ovl \<leftarrow> vinb b (crtc_addr + 1);
     State_Monad.return (ucast vde + (push_bit 7 (ucast (ovl AND 0x02)) + push_bit 3 (ucast (ovl AND 0x40)) + 1))
   }"

section \<open>Save, restore and set the state\<close>

text \<open>
  \<open>struct saveVideoHardware\<close>: the indices at 0, 1, 2 and 3, feature control at 4, sequencer at 5 and 9,
  CRTC at 10, attributes at 35, graphics at 55, the CRTC address at 64, the latches at 66.
\<close>

definition save_regs :: "'h bus \<Rightarrow> u16 \<Rightarrow> u16 \<Rightarrow> u16 \<Rightarrow> u16 \<Rightarrow> nat list \<Rightarrow> ('h, unit) vio" where
  "save_regs b seg dest addr dat is = for_each is (\<lambda>i. do {
     voutb b (of_nat i) addr;
     v \<leftarrow> vinb b dat;
     set_far b seg (dest + of_nat i) v
   })"

definition vgahw_save_state :: "'h bus \<Rightarrow> u16 \<Rightarrow> u16 \<Rightarrow> ('h, unit) vio" where
  "vgahw_save_state b seg info = do {
     crtc_addr \<leftarrow> get_crtc;
     v \<leftarrow> vinb b VGAREG_SEQU_ADDRESS; set_far b seg info v;
     v \<leftarrow> vinb b crtc_addr; set_far b seg (info + 1) v;
     v \<leftarrow> vinb b VGAREG_GRDC_ADDRESS; set_far b seg (info + 2) v;
     actl_reset b;
     ar_index \<leftarrow> vinb b VGAREG_ACTL_ADDRESS; set_far b seg (info + 3) ar_index;
     v \<leftarrow> vinb b VGAREG_READ_FEATURE_CTL; set_far b seg (info + 4) v;
     save_regs b seg (info + 4) VGAREG_SEQU_ADDRESS VGAREG_SEQU_DATA [1, 2, 3, 4];
     voutb b 0 VGAREG_SEQU_ADDRESS;
     v \<leftarrow> vinb b VGAREG_SEQU_DATA; set_far b seg (info + 9) v;
     save_regs b seg (info + 10) crtc_addr (crtc_addr + 1) [0..<25];
     for_each [0..<20] (\<lambda>i. do {
       actl_reset b;
       voutb b (of_nat i OR (ar_index AND 0x20)) VGAREG_ACTL_ADDRESS;
       v \<leftarrow> vinb b VGAREG_ACTL_READ_DATA;
       set_far b seg (info + 35 + of_nat i) v
     });
     actl_reset b;
     save_regs b seg (info + 55) VGAREG_GRDC_ADDRESS VGAREG_GRDC_DATA [0..<9];
     set_far16 b seg (info + 64) crtc_addr;
     for_each [0..<4] (\<lambda>i. set_far b seg (info + 66 + of_nat i) 0)
   }"

definition restore_regs :: "'h bus \<Rightarrow> u16 \<Rightarrow> u16 \<Rightarrow> u16 \<Rightarrow> u16 \<Rightarrow> nat list \<Rightarrow> ('h, unit) vio" where
  "restore_regs b seg src addr dat is = for_each is (\<lambda>i. do {
     voutb b (of_nat i) addr;
     v \<leftarrow> get_far b seg (src + of_nat i);
     voutb b v dat
   })"

definition vgahw_restore_state :: "'h bus \<Rightarrow> u16 \<Rightarrow> u16 \<Rightarrow> ('h, unit) vio" where
  "vgahw_restore_state b seg info = do {
     actl_reset b;
     crtc_addr \<leftarrow> get_far16 b seg (info + 64);
     restore_regs b seg (info + 4) VGAREG_SEQU_ADDRESS VGAREG_SEQU_DATA [1, 2, 3, 4];
     voutb b 0 VGAREG_SEQU_ADDRESS;
     v \<leftarrow> get_far b seg (info + 9); voutb b v VGAREG_SEQU_DATA;
     voutw b 0x0011 crtc_addr;
     restore_regs b seg (info + 10) crtc_addr (crtc_addr + 1) (filter (\<lambda>i. i \<noteq> 0x11) [0..<25]);
     m \<leftarrow> vinb b VGAREG_READ_MISC_OUTPUT;
     voutb b (if crtc_addr = VGAREG_VGA_CRTC_ADDRESS then (m AND NOT 0x01) OR 0x01 else m AND NOT 0x01)
       VGAREG_WRITE_MISC_OUTPUT;
     voutb b 0x11 crtc_addr;
     v \<leftarrow> get_far b seg (info + 10 + 0x11); voutb b v (crtc_addr + 1);
     ar_index \<leftarrow> get_far b seg (info + 3);
     actl_reset b;
     for_each [0..<20] (\<lambda>i. do {
       voutb b (of_nat i OR (ar_index AND 0x20)) VGAREG_ACTL_ADDRESS;
       v \<leftarrow> get_far b seg (info + 35 + of_nat i);
       voutb b v VGAREG_ACTL_WRITE_DATA
     });
     voutb b ar_index VGAREG_ACTL_ADDRESS;
     actl_reset b;
     restore_regs b seg (info + 55) VGAREG_GRDC_ADDRESS VGAREG_GRDC_DATA [0..<9];
     v \<leftarrow> get_far b seg info; voutb b v VGAREG_SEQU_ADDRESS;
     v \<leftarrow> get_far b seg (info + 1); voutb b v crtc_addr;
     v \<leftarrow> get_far b seg (info + 2); voutb b v VGAREG_GRDC_ADDRESS;
     v \<leftarrow> get_far b seg (info + 4); voutb b v (crtc_addr - 0x4 + 0xa)
   }"

text \<open>Writing an array of values to indexed registers, from an index on.\<close>

definition write_regs :: "'h bus \<Rightarrow> u16 \<Rightarrow> u16 \<Rightarrow> nat \<Rightarrow> u8 list \<Rightarrow> ('h, unit) vio" where
  "write_regs b addr dat from vs = for_each [0..<length vs] (\<lambda>i. do {
     voutb b (of_nat (from + i)) addr;
     voutb b (vs ! i) dat
   })"

definition vgahw_set_mode :: "'h bus \<Rightarrow> VideoParam_s \<Rightarrow> ('h, unit) vio" where
  "vgahw_set_mode b vp = do {
     actl_reset b;
     write_regs b VGAREG_ACTL_ADDRESS VGAREG_ACTL_WRITE_DATA 0 (take 0x14 (actl_regs vp));
     voutb b 0x14 VGAREG_ACTL_ADDRESS;
     voutb b 0x00 VGAREG_ACTL_WRITE_DATA;
     voutb b 0 VGAREG_SEQU_ADDRESS;
     voutb b 0x03 VGAREG_SEQU_DATA;
     write_regs b VGAREG_SEQU_ADDRESS VGAREG_SEQU_DATA 1 (take 4 (sequ_regs vp));
     write_regs b VGAREG_GRDC_ADDRESS VGAREG_GRDC_DATA 0 (take 9 (grdc_regs vp));
     let crtc_addr = (if miscreg vp AND 1 = 0 then VGAREG_MDA_CRTC_ADDRESS else VGAREG_VGA_CRTC_ADDRESS);
     voutw b 0x0011 crtc_addr;
     write_regs b crtc_addr (crtc_addr + 1) 0 (take 0x19 (crtc_regs vp));
     voutb b (miscreg vp) VGAREG_WRITE_MISC_OUTPUT;
     voutb b 0x20 VGAREG_ACTL_ADDRESS;
     actl_reset b;
     State_Monad.return ()
   }"

definition vgahw_enable_video_addressing :: "'h bus \<Rightarrow> u8 \<Rightarrow> ('h, unit) vio" where
  "vgahw_enable_video_addressing b disable = do {
     let v = (if disable AND 1 \<noteq> 0 then 0x00 else 0x02);
     m \<leftarrow> vinb b VGAREG_READ_MISC_OUTPUT;
     voutb b (v OR (m AND NOT 0x02)) VGAREG_WRITE_MISC_OUTPUT
   }"

definition vgahw_init :: "'h bus \<Rightarrow> ('h, unit) vio" where
  "vgahw_init b = do {
     voutb b 0xc3 VGAREG_WRITE_MISC_OUTPUT;
     voutb b 0x04 VGAREG_SEQU_ADDRESS;
     voutb b 0x02 VGAREG_SEQU_DATA
   }"

end
