(* ===== verification/Vgafb.thy ===== *)
theory Vgafb
  imports Vgaio
begin

text \<open>
  \<open>bios/seabios/vgasrc/vgafb.c\<close>: scrolling, characters, pixels and fonts in the frame buffer. Pointers
  into a segment are 16-bit offsets, of which the string instructions use no more.
\<close>

section \<open>Data\<close>

record cursorpos =
  cp_x :: u8
  cp_y :: u8
  cp_page :: u8

record carattr =
  ca_car :: u8
  ca_attr :: u8
  ca_use_attr :: bool

text \<open>
  The image of the video ROM: its segment, and the offsets of the fonts, palettes and tables that the
  linker chose; with the place of a colour triple on the stack.
\<close>

record vga_rom =
  rom_seg :: u16
  font8 :: u16
  font14 :: u16
  font16 :: u16
  font14alt :: u16
  font16alt :: u16
  rom_palette :: "nat \<Rightarrow> u16"
  rom_black :: u16
  rom_save_table :: u16
  rom_param_table :: u16
  rom_static_functionality :: u16
  rom_entry_10 :: u16
  rom_header_size :: u16
  rom_header_checksum :: u16
  stack_seg :: u16
  stack_rgb :: u16

section \<open>String instructions\<close>

fun memcpy_loop :: "'h bus \<Rightarrow> u16 \<Rightarrow> u16 \<Rightarrow> u16 \<Rightarrow> u16 \<Rightarrow> nat \<Rightarrow> ('h, unit) vio" where
  "memcpy_loop b d_seg d s_seg src 0 = State_Monad.return ()"
| "memcpy_loop b d_seg d s_seg src (Suc n) = do {
     v \<leftarrow> get_far b s_seg src; set_far b d_seg d v;
     memcpy_loop b d_seg (d + 1) s_seg (src + 1) n
   }"

definition vmemcpy_far :: "'h bus \<Rightarrow> u16 \<Rightarrow> u16 \<Rightarrow> u16 \<Rightarrow> u16 \<Rightarrow> u32 \<Rightarrow> ('h, unit) vio" where
  "vmemcpy_far b d_seg d s_seg src len = memcpy_loop b d_seg d s_seg src (unat (ucast len :: u16))"

fun memset_far_loop :: "'h bus \<Rightarrow> u16 \<Rightarrow> u16 \<Rightarrow> u8 \<Rightarrow> nat \<Rightarrow> ('h, unit) vio" where
  "memset_far_loop b seg d v 0 = State_Monad.return ()"
| "memset_far_loop b seg d v (Suc n) = do { set_far b seg d v; memset_far_loop b seg (d + 1) v n }"

definition vmemset_far :: "'h bus \<Rightarrow> u16 \<Rightarrow> u16 \<Rightarrow> u8 \<Rightarrow> u32 \<Rightarrow> ('h, unit) vio" where
  "vmemset_far b seg d v len = memset_far_loop b seg d v (unat (ucast len :: u16))"

fun memset16_loop :: "'h bus \<Rightarrow> u16 \<Rightarrow> u16 \<Rightarrow> u16 \<Rightarrow> nat \<Rightarrow> ('h, unit) vio" where
  "memset16_loop b seg d v 0 = State_Monad.return ()"
| "memset16_loop b seg d v (Suc n) = do { set_far16 b seg d v; memset16_loop b seg (d + 2) v n }"

definition vmemset16_far :: "'h bus \<Rightarrow> u16 \<Rightarrow> u16 \<Rightarrow> u16 \<Rightarrow> u32 \<Rightarrow> ('h, unit) vio" where
  "vmemset16_far b seg d v len = memset16_loop b seg d v (unat (ucast (len div 2) :: u16))"

section \<open>Screen scrolling\<close>

fun memcpy_stride :: "'h bus \<Rightarrow> u16 \<Rightarrow> u16 \<Rightarrow> u16 \<Rightarrow> u32 \<Rightarrow> u16 \<Rightarrow> nat \<Rightarrow> ('h, u16) vio" where
  "memcpy_stride b seg dst src copylen stride 0 = State_Monad.return dst"
| "memcpy_stride b seg dst src copylen stride (Suc lines) = do {
     vmemcpy_far b seg dst seg src copylen;
     memcpy_stride b seg (dst + stride) (src + stride) copylen stride lines
   }"

fun memset_stride :: "'h bus \<Rightarrow> u16 \<Rightarrow> u16 \<Rightarrow> u8 \<Rightarrow> u32 \<Rightarrow> u16 \<Rightarrow> nat \<Rightarrow> ('h, unit) vio" where
  "memset_stride b seg dst val setlen stride 0 = State_Monad.return ()"
| "memset_stride b seg dst val setlen stride (Suc lines) = do {
     vmemset_far b seg dst val setlen;
     memset_stride b seg (dst + stride) val setlen stride lines
   }"

fun memset16_stride :: "'h bus \<Rightarrow> u16 \<Rightarrow> u16 \<Rightarrow> u16 \<Rightarrow> u32 \<Rightarrow> u16 \<Rightarrow> nat \<Rightarrow> ('h, unit) vio" where
  "memset16_stride b seg dst val setlen stride 0 = State_Monad.return ()"
| "memset16_stride b seg dst val setlen stride (Suc lines) = do {
     vmemset16_far b seg dst val setlen;
     memset16_stride b seg (dst + stride) val setlen stride lines
   }"

text \<open>
  The number of columns and rows of a window, which are C integers; the places where the copy
  starts, with the direction in the sign of the stride.
\<close>

definition win_cols :: "cursorpos \<Rightarrow> cursorpos \<Rightarrow> int" where
  "win_cols ul lr = uint (cp_x lr) - uint (cp_x ul) + 1"

definition win_rows :: "cursorpos \<Rightarrow> cursorpos \<Rightarrow> int" where
  "win_rows ul lr = uint (cp_y lr) - uint (cp_y ul) + 1"

definition scroll_places :: "int \<Rightarrow> u16 \<Rightarrow> u16 \<Rightarrow> u16 \<Rightarrow> u16 \<Rightarrow> cursorpos \<Rightarrow> cursorpos \<Rightarrow> nat \<times> u16 \<times> u16 \<times> u16" where
  "scroll_places nblines base cheight stride colw ul lr =
     (if nblines \<ge> 0 then
        let dest = base + ucast (cp_y ul) * cheight * stride + ucast (cp_x ul) * colw
        in (nat nblines, dest, dest + of_int nblines * cheight * stride, stride)
      else
        let dest = base + ucast (cp_y lr) * cheight * stride + ucast (cp_x ul) * colw
        in (nat (- nblines), dest, dest - of_int (- nblines) * cheight * stride, - stride))"

definition scroll_pl4 :: "'h bus \<Rightarrow> vgamode_s \<Rightarrow> int \<Rightarrow> int \<Rightarrow> cursorpos \<Rightarrow> cursorpos \<Rightarrow> ('h, unit) vio" where
  "scroll_pl4 b vmode nblines attr ul lr = do {
     let cheight = vp_cheight (vparam vmode);
     vcols \<leftarrow> GET_BDA video_cols;
     let (n, dest, src, stride) = scroll_places nblines 0 (ucast cheight) vcols 1 ul lr;
     let cols = (of_int (win_cols ul lr) :: u32);
     let rows = win_rows ul lr;
     dest1 \<leftarrow> (if int n < rows then do {
         vgahw_grdc_write b 0x05 0x01;
         memcpy_stride b SEG_GRAPH dest src cols stride (nat ((rows - int n) * uint cheight))
       } else State_Monad.return dest);
     vgahw_grdc_write b 0x05 0x02;
     memset_stride b SEG_GRAPH dest1 (of_int (if attr < 0 then 0 else attr)) cols stride (n * unat cheight);
     vgahw_grdc_write b 0x05 0x00
   }"

definition scroll_cga :: "'h bus \<Rightarrow> vgamode_s \<Rightarrow> int \<Rightarrow> int \<Rightarrow> cursorpos \<Rightarrow> cursorpos \<Rightarrow> ('h, unit) vio" where
  "scroll_cga b vmode nblines attr ul lr = do {
     let cheight = vp_cheight (vparam vmode);
     let bpp = pixbits vmode;
     vcols \<leftarrow> GET_BDA video_cols;
     let (n, dest, src, stride) = scroll_places nblines 0 (ucast cheight) (vcols * ucast bpp) (ucast bpp) ul lr;
     let cols = (of_int (win_cols ul lr * uint bpp) :: u32);
     let rows = win_rows ul lr;
     dest1 \<leftarrow> (if int n < rows then do {
         let lines = nat ((rows - int n) * uint cheight div 2);
         memcpy_stride b SEG_CTEXT (dest + 0x2000) (src + 0x2000) cols stride lines;
         memcpy_stride b SEG_CTEXT dest src cols stride lines
       } else State_Monad.return dest);
     let v = (of_int (if attr < 0 then 0 else attr) :: u8);
     memset_stride b SEG_CTEXT (dest1 + 0x2000) v cols stride (n * unat cheight div 2);
     memset_stride b SEG_CTEXT dest1 v cols stride (n * unat cheight div 2)
   }"

definition scroll_text :: "'h bus \<Rightarrow> vgamode_s \<Rightarrow> int \<Rightarrow> int \<Rightarrow> cursorpos \<Rightarrow> cursorpos \<Rightarrow> ('h, unit) vio" where
  "scroll_text b vmode nblines attr ul lr = do {
     vrows \<leftarrow> GET_BDA video_rows;
     nbcols \<leftarrow> GET_BDA video_cols;
     let nbrows = (ucast vrows + 1 :: u16);
     let base = (ucast (SCREEN_MEM_START (ucast nbcols) (ucast nbrows) (ucast (cp_page ul))) :: u16);
     let (n, dest, src, stride) = scroll_places nblines base 1 (nbcols * 2) 2 ul lr;
     let cols = (of_int (win_cols ul lr * 2) :: u32);
     let rows = win_rows ul lr;
     let seg = sstart vmode;
     dest1 \<leftarrow> (if int n < rows then memcpy_stride b seg dest src cols stride (nat (rows - int n))
              else State_Monad.return dest);
     let v = (of_int ((if attr < 0 then 0x07 else attr) * 256 + 0x20) :: u16);
     memset16_stride b seg dest1 v cols stride n
   }"

definition vgafb_scroll :: "'h bus \<Rightarrow> int \<Rightarrow> int \<Rightarrow> cursorpos \<Rightarrow> cursorpos \<Rightarrow> ('h, unit) vio" where
  "vgafb_scroll b nblines attr ul lr = do {
     md \<leftarrow> GET_BDA video_mode;
     case find_vga_entry md of None \<Rightarrow> State_Monad.return ()
     | Some vmode \<Rightarrow>
         if memmodel vmode \<in> {CTEXT, MTEXT} then scroll_text b vmode nblines attr ul lr
         else if memmodel vmode \<in> {PLANAR4, PLANAR1} then scroll_pl4 b vmode nblines attr ul lr
         else if memmodel vmode = CGA then scroll_cga b vmode nblines attr ul lr
         else State_Monad.return ()
   }"

definition clear_screen :: "'h bus \<Rightarrow> vgamode_s \<Rightarrow> ('h, unit) vio" where
  "clear_screen b vmode =
     (if memmodel vmode \<in> {CTEXT, MTEXT} then vmemset16_far b (sstart vmode) 0 0x0720 (32 * 1024)
      else if memmodel vmode = CGA then vmemset16_far b (sstart vmode) 0 0x0000 (32 * 1024)
      else vmemset16_far b (sstart vmode) 0 0x0000 (64 * 1024))"

section \<open>Reading and writing characters\<close>

definition glyph :: "'h bus \<Rightarrow> vga_rom \<Rightarrow> u16 \<Rightarrow> u16 \<Rightarrow> ('h, u8) vio" where
  "glyph b rom font off = get_far b (rom_seg rom) (font + off)"

definition write_gfx_char_pl4 :: "'h bus \<Rightarrow> vga_rom \<Rightarrow> vgamode_s \<Rightarrow> cursorpos \<Rightarrow> carattr \<Rightarrow> ('h, unit) vio" where
  "write_gfx_char_pl4 b rom vmode cp ca = do {
     nbcols \<leftarrow> GET_BDA video_cols;
     if ucast (cp_x cp) \<ge> nbcols then State_Monad.return ()
     else do {
       let cheight = vp_cheight (vparam vmode);
       let font = (if cheight = 14 then font14 rom else if cheight = 16 then font16 rom else font8 rom);
       let a = ucast (cp_x cp) + ucast (cp_y cp) * ucast cheight * nbcols;
       let src = ucast (ca_car ca) * ucast cheight;
       vgahw_sequ_write b 0x02 0x0f;
       vgahw_grdc_write b 0x05 0x02;
       vgahw_grdc_write b 0x03 (if ca_attr ca AND 0x80 \<noteq> 0 then 0x18 else 0x00);
       for_each [0..<unat cheight] (\<lambda>i. do {
         let dest = a + of_nat i * nbcols;
         for_each [0..<8] (\<lambda>j. do {
           let mk = (drop_bit j 0x80 :: u8);
           vgahw_grdc_write b 0x08 mk;
           get_far b SEG_GRAPH dest;
           g \<leftarrow> glyph b rom font (src + of_nat i);
           set_far b SEG_GRAPH dest (if g AND mk \<noteq> 0 then ca_attr ca AND 0x0f else 0x00)
         })
       });
       vgahw_grdc_write b 0x08 0xff;
       vgahw_grdc_write b 0x05 0x00;
       vgahw_grdc_write b 0x03 0x00
     }
   }"

text \<open>The bits of a byte of the CGA frame buffer, from the bits of a glyph.\<close>

fun cga_bits :: "('h, u8) vio \<Rightarrow> u8 \<Rightarrow> u8 \<Rightarrow> nat list \<Rightarrow> u8 \<Rightarrow> u8 \<Rightarrow> ('h, u8) vio" where
  "cga_bits gl attr pm [] mk data = State_Monad.return data"
| "cga_bits gl attr pm (sh # shs) mk data = do {
     g \<leftarrow> gl;
     let bits = push_bit sh (attr AND pm);
     cga_bits gl attr pm shs (drop_bit 1 mk)
       (if g AND mk \<noteq> 0 then (if attr AND 0x80 \<noteq> 0 then data XOR bits else data OR bits) else data)
   }"

definition cga_byte :: "'h bus \<Rightarrow> u16 \<Rightarrow> ('h, u8) vio \<Rightarrow> u8 \<Rightarrow> u8 \<Rightarrow> nat list \<Rightarrow> u8 \<Rightarrow> ('h, unit) vio" where
  "cga_byte b dest gl attr pm shs mk = do {
     data \<leftarrow> (if attr AND 0x80 \<noteq> 0 then get_far b SEG_CTEXT dest else State_Monad.return 0);
     v \<leftarrow> cga_bits gl attr pm shs mk data;
     set_far b SEG_CTEXT dest v
   }"

definition write_gfx_char_cga :: "'h bus \<Rightarrow> vga_rom \<Rightarrow> vgamode_s \<Rightarrow> cursorpos \<Rightarrow> carattr \<Rightarrow> ('h, unit) vio" where
  "write_gfx_char_cga b rom vmode cp ca = do {
     nbcols \<leftarrow> GET_BDA video_cols;
     if ucast (cp_x cp) \<ge> nbcols then State_Monad.return ()
     else do {
       let bpp = pixbits vmode;
       let a = ucast (cp_x cp) * ucast bpp + ucast (cp_y cp) * 320;
       let src = ucast (ca_car ca) * 8;
       for_each [0..<8] (\<lambda>i. do {
         let dest = a + of_nat (i div 2) * 80 + (if odd i then 0x2000 else 0);
         let gl = glyph b rom (font8 rom) (src + of_nat i);
         if bpp = 1 then cga_byte b dest gl (ca_attr ca) 0x01 [7, 6, 5, 4, 3, 2, 1, 0] 0x80
         else do {
           cga_byte b dest gl (ca_attr ca) 0x03 [6, 4, 2, 0] 0x80;
           cga_byte b (dest + 1) gl (ca_attr ca) 0x03 [6, 4, 2, 0] 0x08
         }
       })
     }
   }"

definition write_gfx_char_lin :: "'h bus \<Rightarrow> vga_rom \<Rightarrow> vgamode_s \<Rightarrow> cursorpos \<Rightarrow> carattr \<Rightarrow> ('h, unit) vio" where
  "write_gfx_char_lin b rom vmode cp ca = do {
     nbcols \<leftarrow> GET_BDA video_cols;
     if ucast (cp_x cp) \<ge> nbcols then State_Monad.return ()
     else do {
       let a = ucast (cp_x cp) * 8 + ucast (cp_y cp) * nbcols * 64;
       let src = ucast (ca_car ca) * 8;
       for_each [0..<8] (\<lambda>i. do {
         let dest = a + of_nat i * nbcols * 8;
         for_each [0..<8] (\<lambda>j. do {
           g \<leftarrow> glyph b rom (font8 rom) (src + of_nat i);
           set_far b SEG_GRAPH (dest + of_nat j) (if g AND drop_bit j 0x80 \<noteq> 0 then ca_attr ca else 0x00)
         })
       })
     }
   }"

text \<open>The address of a character in a text page.\<close>

definition text_address :: "u16 \<Rightarrow> u16 \<Rightarrow> cursorpos \<Rightarrow> u16" where
  "text_address nbcols nbrows cp =
     ucast (SCREEN_MEM_START (ucast nbcols) (ucast nbrows) (ucast (cp_page cp)))
       + (ucast (cp_x cp) + ucast (cp_y cp) * nbcols) * 2"

definition write_text_char :: "'h bus \<Rightarrow> vgamode_s \<Rightarrow> cursorpos \<Rightarrow> carattr \<Rightarrow> ('h, unit) vio" where
  "write_text_char b vmode cp ca = do {
     vrows \<leftarrow> GET_BDA video_rows;
     nbcols \<leftarrow> GET_BDA video_cols;
     let a = text_address nbcols (ucast vrows + 1) cp;
     if ca_use_attr ca
     then set_far16 b (sstart vmode) a (push_bit 8 (ucast (ca_attr ca)) OR ucast (ca_car ca))
     else set_far b (sstart vmode) a (ca_car ca)
   }"

definition vgafb_write_char :: "'h bus \<Rightarrow> vga_rom \<Rightarrow> cursorpos \<Rightarrow> carattr \<Rightarrow> ('h, unit) vio" where
  "vgafb_write_char b rom cp ca = do {
     md \<leftarrow> GET_BDA video_mode;
     case find_vga_entry md of None \<Rightarrow> State_Monad.return ()
     | Some vmode \<Rightarrow>
         if memmodel vmode \<in> {CTEXT, MTEXT} then write_text_char b vmode cp ca
         else if memmodel vmode \<in> {PLANAR4, PLANAR1} then write_gfx_char_pl4 b rom vmode cp ca
         else if memmodel vmode = CGA then write_gfx_char_cga b rom vmode cp ca
         else if memmodel vmode = LINEAR8 then write_gfx_char_lin b rom vmode cp ca
         else State_Monad.return ()
   }"

definition vgafb_read_char :: "'h bus \<Rightarrow> cursorpos \<Rightarrow> ('h, carattr) vio" where
  "vgafb_read_char b cp = do {
     md \<leftarrow> GET_BDA video_mode;
     let fail = State_Monad.return \<lparr>ca_car = 0, ca_attr = 0, ca_use_attr = False\<rparr>;
     case find_vga_entry md of None \<Rightarrow> fail
     | Some vmode \<Rightarrow>
         if memmodel vmode AND TEXT = 0 then fail
         else do {
           vrows \<leftarrow> GET_BDA video_rows;
           nbcols \<leftarrow> GET_BDA video_cols;
           v \<leftarrow> get_far16 b (sstart vmode) (text_address nbcols (ucast vrows + 1) cp);
           State_Monad.return \<lparr>ca_car = ucast v, ca_attr = ucast (drop_bit 8 v), ca_use_attr = False\<rparr>
         }
   }"

section \<open>Reading and writing pixels\<close>

definition cga_row :: "u16 \<Rightarrow> u16" where
  "cga_row y = drop_bit 1 y * 80 + (if y AND 1 \<noteq> 0 then 0x2000 else 0)"

definition vgafb_write_pixel :: "'h bus \<Rightarrow> u8 \<Rightarrow> u16 \<Rightarrow> u16 \<Rightarrow> ('h, unit) vio" where
  "vgafb_write_pixel b color x y = do {
     md \<leftarrow> GET_BDA video_mode;
     cols \<leftarrow> GET_BDA video_cols;
     case find_vga_entry md of None \<Rightarrow> State_Monad.return ()
     | Some vmode \<Rightarrow>
         if memmodel vmode AND TEXT \<noteq> 0 then State_Monad.return ()
         else if memmodel vmode \<in> {PLANAR4, PLANAR1} then do {
           let a = x div 8 + y * cols;
           vgahw_grdc_write b 0x08 (drop_bit (unat (x AND 0x07)) 0x80);
           vgahw_grdc_write b 0x05 0x02;
           get_far b SEG_GRAPH a;
           do_when (color AND 0x80 \<noteq> 0) (vgahw_grdc_write b 0x03 0x18);
           set_far b SEG_GRAPH a color;
           vgahw_grdc_write b 0x08 0xff;
           vgahw_grdc_write b 0x05 0x00;
           vgahw_grdc_write b 0x03 0x00
         }
         else if memmodel vmode = CGA then do {
           let a = (if pixbits vmode = 2 then drop_bit 2 x else drop_bit 3 x) + cga_row y;
           data \<leftarrow> get_far b SEG_CTEXT a;
           let sh = (if pixbits vmode = 2 then (3 - unat (x AND 0x03)) * 2 else 7 - unat (x AND 0x07));
           let pm = (if pixbits vmode = 2 then 0x03 else 0x01);
           let attr = push_bit sh (color AND pm);
           set_far b SEG_CTEXT a
             (if color AND 0x80 \<noteq> 0 then data XOR attr else (data AND NOT (push_bit sh pm)) OR attr)
         }
         else if memmodel vmode = LINEAR8 then set_far b SEG_GRAPH (x + y * (cols * 8)) color
         else State_Monad.return ()
   }"

fun read_planes :: "'h bus \<Rightarrow> u16 \<Rightarrow> u8 \<Rightarrow> nat list \<Rightarrow> u8 \<Rightarrow> ('h, u8) vio" where
  "read_planes b a mk [] attr = State_Monad.return attr"
| "read_planes b a mk (i # is) attr = do {
     vgahw_grdc_write b 0x04 (of_nat i);
     data \<leftarrow> get_far b SEG_GRAPH a;
     read_planes b a mk is (if data AND mk > 0 then attr OR push_bit i 0x01 else attr)
   }"

definition vgafb_read_pixel :: "'h bus \<Rightarrow> u16 \<Rightarrow> u16 \<Rightarrow> ('h, u8) vio" where
  "vgafb_read_pixel b x y = do {
     md \<leftarrow> GET_BDA video_mode;
     cols \<leftarrow> GET_BDA video_cols;
     case find_vga_entry md of None \<Rightarrow> State_Monad.return 0
     | Some vmode \<Rightarrow>
         if memmodel vmode AND TEXT \<noteq> 0 then State_Monad.return 0
         else if memmodel vmode \<in> {PLANAR4, PLANAR1}
         then read_planes b (x div 8 + y * cols) (drop_bit (unat (x AND 0x07)) 0x80) [0..<4] 0x00
         else if memmodel vmode = CGA then do {
           data \<leftarrow> get_far b SEG_CTEXT (drop_bit 2 x + cga_row y);
           State_Monad.return (if pixbits vmode = 2 then drop_bit ((3 - unat (x AND 0x03)) * 2) data AND 0x03
             else drop_bit (7 - unat (x AND 0x07)) data AND 0x01)
         }
         else if memmodel vmode = LINEAR8 then get_far b SEG_GRAPH (x + y * (cols * 8))
         else State_Monad.return 0
   }"

section \<open>Fonts\<close>

definition vgafb_load_font :: "'h bus \<Rightarrow> u16 \<Rightarrow> u16 \<Rightarrow> u16 \<Rightarrow> u16 \<Rightarrow> u8 \<Rightarrow> u8 \<Rightarrow> ('h, unit) vio" where
  "vgafb_load_font b seg src count start destflags fontsize = do {
     get_font_access b;
     let blockaddr = push_bit 14 (ucast (destflags AND 0x03)) + push_bit 11 (ucast (destflags AND 0x04));
     let dest = blockaddr + start * 32;
     for_each [0..<unat count] (\<lambda>i.
       vmemcpy_far b SEG_GRAPH (dest + of_nat i * 32) seg (src + of_nat i * ucast fontsize) (ucast fontsize));
     release_font_access b
   }"

end
