(* ===== verification/Vga.thy ===== *)
theory Vga
  imports Vgafb Bregs
begin

text \<open>
  \<open>bios/seabios/vgasrc/vga.c\<close>: interrupt 10h, the video services, and the initialisation of the video
  BIOS. The build has neither VBE nor Cirrus support.
\<close>

section \<open>Helper functions\<close>

text \<open>
  The intensity that the loop computes from the three colours is not used: the colours are written
  back as they were read.
\<close>

definition perform_gray_scale_summing :: "'h bus \<Rightarrow> vga_rom \<Rightarrow> u16 \<Rightarrow> u16 \<Rightarrow> ('h, unit) vio" where
  "perform_gray_scale_summing b rom start count = do {
     vgahw_screen_disable b;
     for_each [unat start..<unat start + unat count] (\<lambda>i. do {
       vgahw_get_dac_regs b (stack_seg rom) (stack_rgb rom) (of_nat i) 1;
       vgahw_set_dac_regs b (stack_seg rom) (stack_rgb rom) (of_nat i) 1
     });
     vgahw_screen_enable b
   }"

definition scaled :: "u8 \<Rightarrow> u16 \<Rightarrow> nat" where
  "scaled v cheight = (unat v + 1) * unat cheight div 8"

definition set_cursor_shape :: "'h bus \<Rightarrow> u8 \<Rightarrow> u8 \<Rightarrow> ('h, unit) vio" where
  "set_cursor_shape b start0 end0 = do {
     let start = start0 AND 0x3f;
     let en = end0 AND 0x1f;
     SET_BDA (\<lambda>d. d\<lparr>cursor_type := push_bit 8 (ucast start) + ucast en\<rparr>);
     ctl \<leftarrow> GET_BDA modeset_ctl;
     cheight \<leftarrow> GET_BDA char_height;
     if ctl AND 0x01 \<noteq> 0 \<and> cheight > 8 \<and> en < 8 \<and> start < 0x20
     then vgahw_set_cursor_shape b
            (if unat en \<noteq> unat start + 1 then of_nat (scaled start cheight) - 1 else of_nat (scaled en cheight) - 2)
            (of_nat (scaled en cheight) - 1)
     else vgahw_set_cursor_shape b start en
   }"

definition get_cursor_shape :: "u8 \<Rightarrow> ('h, u16) vio" where
  "get_cursor_shape page = (if page > 7 then State_Monad.return 0 else GET_BDA cursor_type)"

definition set_cursor_pos :: "'h bus \<Rightarrow> cursorpos \<Rightarrow> ('h, unit) vio" where
  "set_cursor_pos b cp =
     (if cp_page cp > 7 then State_Monad.return ()
      else do {
        SET_BDA (\<lambda>d. d\<lparr>cursor_pos := (cursor_pos d)[unat (cp_page cp) := push_bit 8 (ucast (cp_y cp)) OR ucast (cp_x cp)]\<rparr>);
        current \<leftarrow> GET_BDA video_page;
        nbcols \<leftarrow> GET_BDA video_cols;
        vrows \<leftarrow> GET_BDA video_rows;
        if cp_page cp \<noteq> current then State_Monad.return ()
        else vgahw_set_cursor_pos b
               (ucast (SCREEN_IO_START (ucast nbcols) (ucast vrows + 1) (ucast (cp_page cp)))
                + ucast (cp_x cp) + ucast (cp_y cp) * nbcols)
      })"

definition get_cursor_pos :: "u8 \<Rightarrow> ('h, cursorpos) vio" where
  "get_cursor_pos page0 = do {
     current \<leftarrow> GET_BDA video_page;
     let page = (if page0 = 0xff then current else page0);
     if page > 7 then State_Monad.return \<lparr>cp_x = 0, cp_y = 0, cp_page = 0xfe\<rparr>
     else do {
       ps \<leftarrow> GET_BDA cursor_pos;
       let xy = ps ! unat page;
       State_Monad.return \<lparr>cp_x = ucast xy, cp_y = ucast (drop_bit 8 xy), cp_page = page\<rparr>
     }
   }"

definition set_active_page :: "'h bus \<Rightarrow> u8 \<Rightarrow> ('h, unit) vio" where
  "set_active_page b page = do {
     md \<leftarrow> GET_BDA video_mode;
     case (if page > 7 then None else find_vga_entry md) of None \<Rightarrow> State_Monad.return ()
     | Some vmode \<Rightarrow> do {
         cp \<leftarrow> get_cursor_pos page;
         nbcols \<leftarrow> GET_BDA video_cols;
         vrows \<leftarrow> GET_BDA video_rows;
         do_when (memmodel vmode AND TEXT \<noteq> 0)
           (SET_BDA (\<lambda>d. d\<lparr>video_pagestart := ucast (SCREEN_MEM_START (ucast nbcols) (ucast vrows + 1) (ucast page))\<rparr>));
         vgahw_set_active_page b
           (if memmodel vmode AND TEXT \<noteq> 0 then ucast (SCREEN_IO_START (ucast nbcols) (ucast vrows + 1) (ucast page))
            else ucast page * slength (vparam vmode));
         SET_BDA (\<lambda>d. d\<lparr>video_page := page\<rparr>);
         set_cursor_pos b cp
       }
   }"

text \<open>The division by the height of a character stops the processor when the height is 0.\<close>

definition set_scan_lines :: "'h bus \<Rightarrow> u8 \<Rightarrow> ('h, unit result) vio" where
  "set_scan_lines b lines = do {
     vgahw_set_scan_lines b lines;
     (if lines = 8 then set_cursor_shape b 0x06 0x07 else set_cursor_shape b (lines - 4) (lines - 3));
     SET_BDA (\<lambda>d. d\<lparr>char_height := ucast lines\<rparr>);
     vde \<leftarrow> vgahw_get_vde b;
     if lines = 0 then State_Monad.return (Inl Div_by_zero)
     else do {
       let rows = (ucast (vde div ucast lines) :: u8);
       SET_BDA (\<lambda>d. d\<lparr>video_rows := rows - 1, video_pagesize := ucast rows * video_cols d * 2\<rparr>);
       State_Monad.return (Inr ())
     }
   }"

section \<open>Character writing\<close>

definition scroll_one :: "'h bus \<Rightarrow> u16 \<Rightarrow> u16 \<Rightarrow> u8 \<Rightarrow> ('h, unit) vio" where
  "scroll_one b nbrows nbcols page =
     vgafb_scroll b 1 (- 1) \<lparr>cp_x = 0, cp_y = 0, cp_page = page\<rparr>
       \<lparr>cp_x = ucast (nbcols - 1), cp_y = ucast (nbrows - 1), cp_page = page\<rparr>"

text \<open>A tabulator: spaces up to the next multiple of 8, or to the end of the line.\<close>

function tab_loop :: "'h bus \<Rightarrow> vga_rom \<Rightarrow> u16 \<Rightarrow> carattr \<Rightarrow> cursorpos \<Rightarrow> ('h, cursorpos) vio" where
  "tab_loop b rom nbcols ca cp = do {
     vgafb_write_char b rom cp (ca\<lparr>ca_car := 0x20\<rparr>);
     let cp1 = cp\<lparr>cp_x := cp_x cp + 1\<rparr>;
     if ucast (cp_x cp1) < nbcols \<and> cp_x cp1 mod 8 \<noteq> 0 then tab_loop b rom nbcols ca cp1
     else State_Monad.return cp1
   }"
  by pat_completeness auto
termination
proof (relation "measure (\<lambda>(b, rom, n, ca, cp). 8 - unat (cp_x cp mod 8))")
  fix b :: "'h bus" and rom n ca cp cp1
  assume c: "cp1 = cp\<lparr>cp_x := cp_x cp + 1\<rparr>" "ucast (cp_x cp1) < n \<and> cp_x cp1 mod 8 \<noteq> 0"
  let ?x = "cp_x cp"
  have m: "unat (x mod 8) = unat x mod 8" for x :: u8 by (simp add: unat_mod)
  have s: "unat (?x + 1) = (unat ?x + 1) mod 256" by (simp add: unat_word_ariths)
  have e: "unat (?x + 1) mod 8 = (unat ?x + 1) mod 8" unfolding s by (rule mod_mod_cancel) simp
  have "(unat ?x + 1) mod 8 \<noteq> 0" unfolding e[symmetric] using c m[of "?x + 1"] by (auto simp: word_eq_iff_unat)
  then have "unat (?x + 1) mod 8 = unat ?x mod 8 + 1" unfolding e by (simp add: mod_Suc split: if_splits)
  moreover have "unat ?x mod 8 < 8" by simp
  ultimately show "((b, rom, n, ca, cp1), b, rom, n, ca, cp) \<in> measure (\<lambda>(b, rom, n, ca, cp). 8 - unat (cp_x cp mod 8))"
    using c(1) by (simp add: m)
qed simp

declare tab_loop.simps [simp del]

text \<open>The character and the new position, before it is wrapped.\<close>

definition put_char :: "'h bus \<Rightarrow> vga_rom \<Rightarrow> u16 \<Rightarrow> carattr \<Rightarrow> cursorpos \<Rightarrow> ('h, cursorpos) vio" where
  "put_char b rom nbcols ca cp =
     (if ca_car ca = 7 then State_Monad.return cp
      else if ca_car ca = 8 then State_Monad.return (if cp_x cp > 0 then cp\<lparr>cp_x := cp_x cp - 1\<rparr> else cp)
      else if ca_car ca = 13 then State_Monad.return (cp\<lparr>cp_x := 0\<rparr>)
      else if ca_car ca = 10 then State_Monad.return (cp\<lparr>cp_y := cp_y cp + 1\<rparr>)
      else if ca_car ca = 9 then tab_loop b rom nbcols ca cp
      else do { vgafb_write_char b rom cp ca; State_Monad.return (cp\<lparr>cp_x := cp_x cp + 1\<rparr>) })"

definition write_teletype :: "'h bus \<Rightarrow> vga_rom \<Rightarrow> carattr \<Rightarrow> cursorpos \<Rightarrow> ('h, cursorpos) vio" where
  "write_teletype b rom ca cp0 = do {
     vrows \<leftarrow> GET_BDA video_rows;
     nbcols \<leftarrow> GET_BDA video_cols;
     let nbrows = ucast vrows + 1;
     cp1 \<leftarrow> put_char b rom nbcols ca cp0;
     let cp2 = (if ucast (cp_x cp1) = nbcols then cp1\<lparr>cp_x := 0, cp_y := cp_y cp1 + 1\<rparr> else cp1);
     if ucast (cp_y cp2) < nbrows then State_Monad.return cp2
     else do {
       scroll_one b nbrows nbcols (cp_page cp2);
       State_Monad.return (cp2\<lparr>cp_y := cp_y cp2 - 1\<rparr>)
     }
   }"

fun write_attr_string :: "'h bus \<Rightarrow> vga_rom \<Rightarrow> nat \<Rightarrow> u16 \<Rightarrow> u16 \<Rightarrow> cursorpos \<Rightarrow> ('h, cursorpos) vio" where
  "write_attr_string b rom 0 seg off cp = State_Monad.return cp"
| "write_attr_string b rom (Suc count) seg off cp = do {
     car \<leftarrow> get_far b seg off;
     attr \<leftarrow> get_far b seg (off + 1);
     cp1 \<leftarrow> write_teletype b rom \<lparr>ca_car = car, ca_attr = attr, ca_use_attr = True\<rparr> cp;
     write_attr_string b rom count seg (off + 2) cp1
   }"

fun write_string :: "'h bus \<Rightarrow> vga_rom \<Rightarrow> u8 \<Rightarrow> nat \<Rightarrow> u16 \<Rightarrow> u16 \<Rightarrow> cursorpos \<Rightarrow> ('h, cursorpos) vio" where
  "write_string b rom attr 0 seg off cp = State_Monad.return cp"
| "write_string b rom attr (Suc count) seg off cp = do {
     car \<leftarrow> get_far b seg off;
     cp1 \<leftarrow> write_teletype b rom \<lparr>ca_car = car, ca_attr = attr, ca_use_attr = True\<rparr> cp;
     write_string b rom attr count seg (off + 1) cp1
   }"

section \<open>Save and restore the BIOS variables\<close>

text \<open>
  The layout of \<open>struct saveBDAstate\<close>, which is not packed: a byte before a word is followed by a
  byte of padding, and the far pointers are at multiples of 4.
\<close>

definition set_segoff :: "'h bus \<Rightarrow> u16 \<Rightarrow> u16 \<Rightarrow> segoff \<Rightarrow> ('h, unit) vio" where
  "set_segoff b seg off p = do { set_far16 b seg off (snd p); set_far16 b seg (off + 2) (fst p) }"

definition get_segoff :: "'h bus \<Rightarrow> u16 \<Rightarrow> u16 \<Rightarrow> ('h, segoff) vio" where
  "get_segoff b seg off = do { ofs \<leftarrow> get_far16 b seg off; sg \<leftarrow> get_far16 b seg (off + 2); State_Monad.return (sg, ofs) }"

definition save_bda_state :: "'h bus \<Rightarrow> u16 \<Rightarrow> u16 \<Rightarrow> ('h, unit) vio" where
  "save_bda_state b seg info = do {
     d \<leftarrow> GET_BDA (\<lambda>d. d);
     set_far b seg info (video_mode d);
     set_far16 b seg (info + 2) (video_cols d);
     set_far16 b seg (info + 4) (video_pagesize d);
     set_far16 b seg (info + 6) (crtc_address d);
     set_far b seg (info + 8) (video_rows d);
     set_far16 b seg (info + 10) (char_height d);
     set_far b seg (info + 12) (video_ctl d);
     set_far b seg (info + 13) (video_switches d);
     set_far b seg (info + 14) (modeset_ctl d);
     set_far16 b seg (info + 16) (cursor_type d);
     for_each [0..<8] (\<lambda>i. set_far16 b seg (info + 18 + 2 * of_nat i) (cursor_pos d ! i));
     set_far16 b seg (info + 34) (video_pagestart d);
     set_far b seg (info + 36) (video_page d);
     set_segoff b seg (info + 40) (ivt_1f d);
     set_segoff b seg (info + 44) (ivt_43 d)
   }"

definition restore_bda_state :: "'h bus \<Rightarrow> u16 \<Rightarrow> u16 \<Rightarrow> ('h, unit) vio" where
  "restore_bda_state b seg info = do {
     v \<leftarrow> get_far b seg info; SET_BDA (\<lambda>d. d\<lparr>video_mode := v\<rparr>);
     v \<leftarrow> get_far16 b seg (info + 2); SET_BDA (\<lambda>d. d\<lparr>video_cols := v\<rparr>);
     v \<leftarrow> get_far16 b seg (info + 4); SET_BDA (\<lambda>d. d\<lparr>video_pagesize := v\<rparr>);
     v \<leftarrow> get_far16 b seg (info + 6); SET_BDA (\<lambda>d. d\<lparr>crtc_address := v\<rparr>);
     v \<leftarrow> get_far b seg (info + 8); SET_BDA (\<lambda>d. d\<lparr>video_rows := v\<rparr>);
     v \<leftarrow> get_far16 b seg (info + 10); SET_BDA (\<lambda>d. d\<lparr>char_height := v\<rparr>);
     v \<leftarrow> get_far b seg (info + 12); SET_BDA (\<lambda>d. d\<lparr>video_ctl := v\<rparr>);
     v \<leftarrow> get_far b seg (info + 13); SET_BDA (\<lambda>d. d\<lparr>video_switches := v\<rparr>);
     v \<leftarrow> get_far b seg (info + 14); SET_BDA (\<lambda>d. d\<lparr>modeset_ctl := v\<rparr>);
     v \<leftarrow> get_far16 b seg (info + 16); SET_BDA (\<lambda>d. d\<lparr>cursor_type := v\<rparr>);
     for_each [0..<8] (\<lambda>i. do {
       w \<leftarrow> get_far16 b seg (info + 18 + 2 * of_nat i);
       SET_BDA (\<lambda>d. d\<lparr>cursor_pos := (cursor_pos d)[i := w]\<rparr>)
     });
     v \<leftarrow> get_far16 b seg (info + 34); SET_BDA (\<lambda>d. d\<lparr>video_pagestart := v\<rparr>);
     v \<leftarrow> get_far b seg (info + 36); SET_BDA (\<lambda>d. d\<lparr>video_page := v\<rparr>);
     p \<leftarrow> get_segoff b seg (info + 40); SET_BDA (\<lambda>d. d\<lparr>ivt_1f := p\<rparr>);
     p \<leftarrow> get_segoff b seg (info + 44); SET_BDA (\<lambda>d. d\<lparr>ivt_43 := p\<rparr>)
   }"

section \<open>The functions of interrupt 10h\<close>

definition bp_of :: "bregs \<Rightarrow> u16" where "bp_of r = lo16 (r_ebp r)"
definition di_of :: "bregs \<Rightarrow> u16" where "di_of r = lo16 (r_edi r)"
definition set_bp :: "u16 \<Rightarrow> bregs \<Rightarrow> bregs" where "set_bp v r = r\<lparr>r_ebp := put_lo16 v (r_ebp r)\<rparr>"

text \<open>A function that leaves the registers alone.\<close>

definition keep_regs :: "('h, unit) vio \<Rightarrow> bregs \<Rightarrow> ('h, bregs) vio" where
  "keep_regs m r = do { m; State_Monad.return r }"

definition handle_1001 :: "'h bus \<Rightarrow> bregs \<Rightarrow> ('h, bregs) vio" where
  "handle_1001 b r = keep_regs (set_cursor_shape b (r_ch r) (r_cl r)) r"

definition handle_1002 :: "'h bus \<Rightarrow> bregs \<Rightarrow> ('h, bregs) vio" where
  "handle_1002 b r = keep_regs (set_cursor_pos b \<lparr>cp_x = r_dl r, cp_y = r_dh r, cp_page = r_bh r\<rparr>) r"

definition handle_1003 :: "bregs \<Rightarrow> ('h, bregs) vio" where
  "handle_1003 r = do {
     shape \<leftarrow> get_cursor_shape (r_bh r);
     cp \<leftarrow> get_cursor_pos (r_bh r);
     State_Monad.return (set_dh (cp_y cp) (set_dl (cp_x cp) (set_cx shape r)))
   }"

definition handle_1004 :: "bregs \<Rightarrow> ('h, bregs) vio" where
  "handle_1004 r = State_Monad.return (set_ax 0 (set_bx 0 (set_cx 0 (set_dx 0 r))))"

definition handle_1005 :: "'h bus \<Rightarrow> bregs \<Rightarrow> ('h, bregs) vio" where
  "handle_1005 b r = keep_regs (set_active_page b (r_al r)) r"

definition verify_scroll :: "'h bus \<Rightarrow> bregs \<Rightarrow> int \<Rightarrow> ('h, unit) vio" where
  "verify_scroll b r dir = do {
     page \<leftarrow> GET_BDA video_page;
     vrows \<leftarrow> GET_BDA video_rows;
     nbcols \<leftarrow> GET_BDA video_cols;
     let nbrows = (ucast vrows + 1 :: u16);
     let ul = \<lparr>cp_x = r_cl r, cp_y = r_ch r, cp_page = page\<rparr>;
     let lry = (if ucast (r_dh r) \<ge> nbrows then ucast (nbrows - 1) else r_dh r);
     let lrx = (if ucast (r_dl r) \<ge> nbcols then ucast (nbcols - 1) else r_dl r);
     let lr = \<lparr>cp_x = lrx, cp_y = lry, cp_page = page\<rparr>;
     if cp_x ul > lrx \<or> cp_y ul > lry then State_Monad.return ()
     else do {
       let n = (if r_al r = 0 \<or> uint (r_al r) > win_rows ul lr then win_rows ul lr else uint (r_al r));
       vgafb_scroll b (dir * n) (uint (r_bh r)) ul lr
     }
   }"

definition handle_1006 :: "'h bus \<Rightarrow> bregs \<Rightarrow> ('h, bregs) vio" where
  "handle_1006 b r = keep_regs (verify_scroll b r 1) r"

definition handle_1007 :: "'h bus \<Rightarrow> bregs \<Rightarrow> ('h, bregs) vio" where
  "handle_1007 b r = keep_regs (verify_scroll b r (- 1)) r"

definition handle_1008 :: "'h bus \<Rightarrow> bregs \<Rightarrow> ('h, bregs) vio" where
  "handle_1008 b r = do {
     cp \<leftarrow> get_cursor_pos (r_bh r);
     ca \<leftarrow> vgafb_read_char b cp;
     State_Monad.return (set_ah (ca_attr ca) (set_al (ca_car ca) r))
   }"

fun write_chars_loop :: "'h bus \<Rightarrow> vga_rom \<Rightarrow> carattr \<Rightarrow> nat \<Rightarrow> cursorpos \<Rightarrow> ('h, unit) vio" where
  "write_chars_loop b rom ca 0 cp = State_Monad.return ()"
| "write_chars_loop b rom ca (Suc n) cp = do {
     vgafb_write_char b rom cp ca;
     write_chars_loop b rom ca n (cp\<lparr>cp_x := cp_x cp + 1\<rparr>)
   }"

definition write_chars :: "'h bus \<Rightarrow> vga_rom \<Rightarrow> u8 \<Rightarrow> carattr \<Rightarrow> u16 \<Rightarrow> ('h, unit) vio" where
  "write_chars b rom page ca count = do {
     cp \<leftarrow> get_cursor_pos page;
     write_chars_loop b rom ca (unat count) cp
   }"

definition handle_1009 :: "'h bus \<Rightarrow> vga_rom \<Rightarrow> bregs \<Rightarrow> ('h, bregs) vio" where
  "handle_1009 b rom r =
     keep_regs (write_chars b rom (r_bh r) \<lparr>ca_car = r_al r, ca_attr = r_bl r, ca_use_attr = True\<rparr> (r_cx r)) r"

definition handle_100a :: "'h bus \<Rightarrow> vga_rom \<Rightarrow> bregs \<Rightarrow> ('h, bregs) vio" where
  "handle_100a b rom r =
     keep_regs (write_chars b rom (r_bh r) \<lparr>ca_car = r_al r, ca_attr = r_bl r, ca_use_attr = False\<rparr> (r_cx r)) r"

definition handle_100b00 :: "'h bus \<Rightarrow> bregs \<Rightarrow> ('h, bregs) vio" where
  "handle_100b00 b r = keep_regs (vgahw_set_border_color b (r_bl r)) r"

definition handle_100b01 :: "'h bus \<Rightarrow> bregs \<Rightarrow> ('h, bregs) vio" where
  "handle_100b01 b r = keep_regs (vgahw_set_palette b (r_bl r)) r"

definition handle_100b :: "'h bus \<Rightarrow> bregs \<Rightarrow> ('h, bregs) vio" where
  "handle_100b b r =
     (if r_bh r = 0x00 then handle_100b00 b r else if r_bh r = 0x01 then handle_100b01 b r else State_Monad.return r)"

definition handle_100c :: "'h bus \<Rightarrow> bregs \<Rightarrow> ('h, bregs) vio" where
  "handle_100c b r = keep_regs (vgafb_write_pixel b (r_al r) (r_cx r) (r_dx r)) r"

definition handle_100d :: "'h bus \<Rightarrow> bregs \<Rightarrow> ('h, bregs) vio" where
  "handle_100d b r = do { v \<leftarrow> vgafb_read_pixel b (r_cx r) (r_dx r); State_Monad.return (set_al v r) }"

definition handle_100e :: "'h bus \<Rightarrow> vga_rom \<Rightarrow> bregs \<Rightarrow> ('h, bregs) vio" where
  "handle_100e b rom r = do {
     cp \<leftarrow> get_cursor_pos 0xff;
     cp1 \<leftarrow> write_teletype b rom \<lparr>ca_car = r_al r, ca_attr = r_bl r, ca_use_attr = False\<rparr> cp;
     set_cursor_pos b cp1;
     State_Monad.return r
   }"

definition handle_100f :: "bregs \<Rightarrow> ('h, bregs) vio" where
  "handle_100f r = do {
     d \<leftarrow> GET_BDA (\<lambda>d. d);
     State_Monad.return (set_ah (ucast (video_cols d)) (set_al (video_mode d OR (video_ctl d AND 0x80)) (set_bh (video_page d) r)))
   }"

subsection \<open>Palette registers\<close>

definition handle_101000 :: "'h bus \<Rightarrow> bregs \<Rightarrow> ('h, bregs) vio" where
  "handle_101000 b r =
     keep_regs (if r_bl r > 0x14 then State_Monad.return () else vgahw_set_single_palette_reg b (r_bl r) (r_bh r)) r"

definition handle_101001 :: "'h bus \<Rightarrow> bregs \<Rightarrow> ('h, bregs) vio" where
  "handle_101001 b r = keep_regs (vgahw_set_overscan_border_color b (r_bh r)) r"

definition handle_101002 :: "'h bus \<Rightarrow> bregs \<Rightarrow> ('h, bregs) vio" where
  "handle_101002 b r = keep_regs (vgahw_set_all_palette_reg b (r_es r) (r_dx r)) r"

definition handle_101003 :: "'h bus \<Rightarrow> bregs \<Rightarrow> ('h, bregs) vio" where
  "handle_101003 b r = keep_regs (vgahw_toggle_intensity b (r_bl r)) r"

definition handle_101007 :: "'h bus \<Rightarrow> bregs \<Rightarrow> ('h, bregs) vio" where
  "handle_101007 b r =
     (if r_bl r > 0x14 then State_Monad.return r
      else do { v \<leftarrow> vgahw_get_single_palette_reg b (r_bl r); State_Monad.return (set_bh v r) })"

definition handle_101008 :: "'h bus \<Rightarrow> bregs \<Rightarrow> ('h, bregs) vio" where
  "handle_101008 b r = do { v \<leftarrow> vgahw_get_overscan_border_color b; State_Monad.return (set_bh v r) }"

definition handle_101009 :: "'h bus \<Rightarrow> bregs \<Rightarrow> ('h, bregs) vio" where
  "handle_101009 b r = keep_regs (vgahw_get_all_palette_reg b (r_es r) (r_dx r)) r"

text \<open>The triple of colours is an array on the stack.\<close>

definition handle_101010 :: "'h bus \<Rightarrow> vga_rom \<Rightarrow> bregs \<Rightarrow> ('h, bregs) vio" where
  "handle_101010 b rom r = do {
     set_far b (stack_seg rom) (stack_rgb rom) (r_dh r);
     set_far b (stack_seg rom) (stack_rgb rom + 1) (r_ch r);
     set_far b (stack_seg rom) (stack_rgb rom + 2) (r_cl r);
     vgahw_set_dac_regs b (stack_seg rom) (stack_rgb rom) (ucast (r_bx r)) 1;
     State_Monad.return r
   }"

definition handle_101012 :: "'h bus \<Rightarrow> bregs \<Rightarrow> ('h, bregs) vio" where
  "handle_101012 b r = keep_regs (vgahw_set_dac_regs b (r_es r) (r_dx r) (ucast (r_bx r)) (unat (r_cx r))) r"

definition handle_101013 :: "'h bus \<Rightarrow> bregs \<Rightarrow> ('h, bregs) vio" where
  "handle_101013 b r = keep_regs (vgahw_select_video_dac_color_page b (r_bl r) (r_bh r)) r"

definition handle_101015 :: "'h bus \<Rightarrow> vga_rom \<Rightarrow> bregs \<Rightarrow> ('h, bregs) vio" where
  "handle_101015 b rom r = do {
     vgahw_get_dac_regs b (stack_seg rom) (stack_rgb rom) (ucast (r_bx r)) 1;
     c0 \<leftarrow> get_far b (stack_seg rom) (stack_rgb rom);
     c1 \<leftarrow> get_far b (stack_seg rom) (stack_rgb rom + 1);
     c2 \<leftarrow> get_far b (stack_seg rom) (stack_rgb rom + 2);
     State_Monad.return (set_cl c2 (set_ch c1 (set_dh c0 r)))
   }"

definition handle_101017 :: "'h bus \<Rightarrow> bregs \<Rightarrow> ('h, bregs) vio" where
  "handle_101017 b r = keep_regs (vgahw_get_dac_regs b (r_es r) (r_dx r) (ucast (r_bx r)) (unat (r_cx r))) r"

definition handle_101018 :: "'h bus \<Rightarrow> bregs \<Rightarrow> ('h, bregs) vio" where
  "handle_101018 b r = keep_regs (vgahw_set_pel_mask b (r_bl r)) r"

definition handle_101019 :: "'h bus \<Rightarrow> bregs \<Rightarrow> ('h, bregs) vio" where
  "handle_101019 b r = do { v \<leftarrow> vgahw_get_pel_mask b; State_Monad.return (set_bl v r) }"

definition handle_10101a :: "'h bus \<Rightarrow> bregs \<Rightarrow> ('h, bregs) vio" where
  "handle_10101a b r = do { (pmode, curpage) \<leftarrow> vgahw_read_video_dac_state b; State_Monad.return (set_bh curpage (set_bl pmode r)) }"

definition handle_10101b :: "'h bus \<Rightarrow> vga_rom \<Rightarrow> bregs \<Rightarrow> ('h, bregs) vio" where
  "handle_10101b b rom r = keep_regs (perform_gray_scale_summing b rom (r_bx r) (r_cx r)) r"

definition handle_1010 :: "'h bus \<Rightarrow> vga_rom \<Rightarrow> bregs \<Rightarrow> ('h, bregs) vio" where
  "handle_1010 b rom r =
     (let f = r_al r in
      if f = 0x00 then handle_101000 b r
      else if f = 0x01 then handle_101001 b r
      else if f = 0x02 then handle_101002 b r
      else if f = 0x03 then handle_101003 b r
      else if f = 0x07 then handle_101007 b r
      else if f = 0x08 then handle_101008 b r
      else if f = 0x09 then handle_101009 b r
      else if f = 0x10 then handle_101010 b rom r
      else if f = 0x12 then handle_101012 b r
      else if f = 0x13 then handle_101013 b r
      else if f = 0x15 then handle_101015 b rom r
      else if f = 0x17 then handle_101017 b r
      else if f = 0x18 then handle_101018 b r
      else if f = 0x19 then handle_101019 b r
      else if f = 0x1a then handle_10101a b r
      else if f = 0x1b then handle_10101b b rom r
      else State_Monad.return r)"

subsection \<open>Fonts\<close>

text \<open>A function that can stop with a fault.\<close>

definition scan_lines_regs :: "'h bus \<Rightarrow> u8 \<Rightarrow> bregs \<Rightarrow> ('h, bregs result) vio" where
  "scan_lines_regs b lines r = do { x \<leftarrow> set_scan_lines b lines; State_Monad.return (map_sum (\<lambda>e. e) (\<lambda>_. r) x) }"

definition ok_regs :: "('h, bregs) vio \<Rightarrow> ('h, bregs result) vio" where
  "ok_regs m = do { r \<leftarrow> m; State_Monad.return (Inr r) }"

definition handle_101100 :: "'h bus \<Rightarrow> bregs \<Rightarrow> ('h, bregs) vio" where
  "handle_101100 b r = keep_regs (vgafb_load_font b (r_es r) (bp_of r) (r_cx r) (r_dx r) (r_bl r) (r_bh r)) r"

definition handle_101101 :: "'h bus \<Rightarrow> vga_rom \<Rightarrow> bregs \<Rightarrow> ('h, bregs) vio" where
  "handle_101101 b rom r = keep_regs (vgafb_load_font b (rom_seg rom) (font14 rom) 0x100 0 (r_bl r) 14) r"

definition handle_101102 :: "'h bus \<Rightarrow> vga_rom \<Rightarrow> bregs \<Rightarrow> ('h, bregs) vio" where
  "handle_101102 b rom r = keep_regs (vgafb_load_font b (rom_seg rom) (font8 rom) 0x100 0 (r_bl r) 8) r"

definition handle_101103 :: "'h bus \<Rightarrow> bregs \<Rightarrow> ('h, bregs) vio" where
  "handle_101103 b r = keep_regs (vgahw_set_text_block_specifier b (r_bl r)) r"

definition handle_101104 :: "'h bus \<Rightarrow> vga_rom \<Rightarrow> bregs \<Rightarrow> ('h, bregs) vio" where
  "handle_101104 b rom r = keep_regs (vgafb_load_font b (rom_seg rom) (font16 rom) 0x100 0 (r_bl r) 16) r"

definition handle_101110 :: "'h bus \<Rightarrow> bregs \<Rightarrow> ('h, bregs result) vio" where
  "handle_101110 b r = do { handle_101100 b r; scan_lines_regs b (r_bh r) r }"

definition handle_101111 :: "'h bus \<Rightarrow> vga_rom \<Rightarrow> bregs \<Rightarrow> ('h, bregs result) vio" where
  "handle_101111 b rom r = do { handle_101101 b rom r; scan_lines_regs b 14 r }"

definition handle_101112 :: "'h bus \<Rightarrow> vga_rom \<Rightarrow> bregs \<Rightarrow> ('h, bregs result) vio" where
  "handle_101112 b rom r = do { handle_101102 b rom r; scan_lines_regs b 8 r }"

definition handle_101114 :: "'h bus \<Rightarrow> vga_rom \<Rightarrow> bregs \<Rightarrow> ('h, bregs result) vio" where
  "handle_101114 b rom r = do { handle_101104 b rom r; scan_lines_regs b 16 r }"

definition font_pointer :: "vga_rom \<Rightarrow> vga_bda \<Rightarrow> u8 \<Rightarrow> segoff option" where
  "font_pointer rom d f =
     (if f = 0x00 then Some (ivt_1f d)
      else if f = 0x01 then Some (ivt_43 d)
      else if f = 0x02 then Some (rom_seg rom, font14 rom)
      else if f = 0x03 then Some (rom_seg rom, font8 rom)
      else if f = 0x04 then Some (rom_seg rom, font8 rom + 128 * 8)
      else if f = 0x05 then Some (rom_seg rom, font14alt rom)
      else if f = 0x06 then Some (rom_seg rom, font16 rom)
      else if f = 0x07 then Some (rom_seg rom, font16alt rom)
      else None)"

definition handle_101130 :: "vga_rom \<Rightarrow> bregs \<Rightarrow> ('h, bregs) vio" where
  "handle_101130 rom r = do {
     d \<leftarrow> GET_BDA (\<lambda>d. d);
     State_Monad.return (case font_pointer rom d (r_bh r) of None \<Rightarrow> r
       | Some (sg, off) \<Rightarrow> set_dx (ucast (video_rows d)) (set_cx (char_height d AND 0xff) (set_bp off (r\<lparr>r_es := sg\<rparr>))))
   }"

definition handle_1011 :: "'h bus \<Rightarrow> vga_rom \<Rightarrow> bregs \<Rightarrow> ('h, bregs result) vio" where
  "handle_1011 b rom r =
     (let f = r_al r in
      if f = 0x00 then ok_regs (handle_101100 b r)
      else if f = 0x01 then ok_regs (handle_101101 b rom r)
      else if f = 0x02 then ok_regs (handle_101102 b rom r)
      else if f = 0x03 then ok_regs (handle_101103 b r)
      else if f = 0x04 then ok_regs (handle_101104 b rom r)
      else if f = 0x10 then handle_101110 b r
      else if f = 0x11 then handle_101111 b rom r
      else if f = 0x12 then handle_101112 b rom r
      else if f = 0x14 then handle_101114 b rom r
      else if f = 0x30 then ok_regs (handle_101130 rom r)
      else State_Monad.return (Inr r))"

subsection \<open>Set mode\<close>

definition int_regs :: "u32 \<Rightarrow> u32 \<Rightarrow> bregs" where
  "int_regs eax ebx = \<lparr>r_ds = 0, r_es = 0, r_edi = 0, r_esi = 0, r_ebp = 0, r_ebx = ebx, r_edx = 0, r_ecx = 0, r_eax = eax, r_flags = 0\<rparr>"

text \<open>The palette of a mode, unless bit 3 of the control byte says to leave the palette alone.\<close>

definition load_palette :: "'h bus \<Rightarrow> vga_rom \<Rightarrow> vgamode_s \<Rightarrow> u8 \<Rightarrow> ('h, unit) vio" where
  "load_palette b rom vmode ctl = do_when (ctl AND 0x08 = 0) (do {
     vgahw_set_pel_mask b (pelmask vmode);
     let palsize = unat (dacsize vmode div 3);
     vgahw_set_dac_regs b (rom_seg rom) (rom_palette rom (dac vmode)) 0 palsize;
     for_each [palsize..<0x100] (\<lambda>i. vgahw_set_dac_regs b (rom_seg rom) (rom_black rom) (of_nat i) 1);
     do_when (ctl AND 0x02 = 0x02) (perform_gray_scale_summing b rom 0x00 0x100)
   })"

text \<open>The variables that describe the mode.\<close>

definition mode_bda :: "vga_rom \<Rightarrow> vgamode_s \<Rightarrow> u8 \<Rightarrow> u8 \<Rightarrow> vga_bda \<Rightarrow> vga_bda" where
  "mode_bda rom vmode md noclearmem d =
     d\<lparr>video_mode := md, video_cols := ucast (twidth (vparam vmode)), video_pagesize := slength (vparam vmode),
       crtc_address := (if memmodel vmode = MTEXT then VGAREG_MDA_CRTC_ADDRESS else VGAREG_VGA_CRTC_ADDRESS),
       video_rows := theightm1 (vparam vmode), char_height := ucast (vp_cheight (vparam vmode)),
       video_ctl := 0x60 OR noclearmem, video_switches := 0xF9, modeset_ctl := modeset_ctl d AND 0x7f,
       dcc_index := 0x08, video_savetable := (rom_seg rom, rom_save_table rom), video_msr := 0x00, video_pal := 0x00\<rparr>"

definition font_vectors :: "vga_rom \<Rightarrow> u8 \<Rightarrow> vga_bda \<Rightarrow> vga_bda" where
  "font_vectors rom cheight d =
     (let d1 = d\<lparr>ivt_1f := (rom_seg rom, font8 rom + 128 * 8)\<rparr> in
      if cheight = 8 then d1\<lparr>ivt_43 := (rom_seg rom, font8 rom)\<rparr>
      else if cheight = 14 then d1\<lparr>ivt_43 := (rom_seg rom, font14 rom)\<rparr>
      else if cheight = 16 then d1\<lparr>ivt_43 := (rom_seg rom, font16 rom)\<rparr>
      else d1)"

definition handle_1000 :: "'h bus \<Rightarrow> vga_rom \<Rightarrow> bregs \<Rightarrow> ('h, bregs) vio" where
  "handle_1000 b rom r = do {
     let noclearmem = r_al r AND 0x80;
     let md = r_al r AND 0x7f;
     let r1 = set_al (if md > 7 then 0x20 else if md = 6 then 0x3f else 0x30) r;
     case find_vga_entry md of None \<Rightarrow> State_Monad.return r1
     | Some vmode \<Rightarrow> do {
         ctl \<leftarrow> GET_BDA modeset_ctl;
         load_palette b rom vmode ctl;
         vgahw_set_mode b (vparam vmode);
         do_when (noclearmem = 0x00) (clear_screen b vmode);
         SET_BDA (mode_bda rom vmode md noclearmem);
         do_when (memmodel vmode AND TEXT \<noteq> 0) (set_cursor_shape b 0x06 0x07);
         for_each [0..<8] (\<lambda>i. set_cursor_pos b \<lparr>cp_x = 0, cp_y = 0, cp_page = of_nat i\<rparr>);
         set_active_page b 0x00;
         do_when (memmodel vmode AND TEXT \<noteq> 0) (do {
           handle_1011 b rom (int_regs 0x1104 0);
           handle_1011 b rom (int_regs 0x1103 0);
           State_Monad.return ()
         });
         SET_BDA (font_vectors rom (vp_cheight (vparam vmode)));
         State_Monad.return r1
       }
   }"

subsection \<open>Alternate functions\<close>

definition handle_101210 :: "bregs \<Rightarrow> ('h, bregs) vio" where
  "handle_101210 r = do {
     d \<leftarrow> GET_BDA (\<lambda>d. d);
     State_Monad.return (set_cx (ucast (video_switches d) AND 0x0f)
       (set_bx (if crtc_address d = VGAREG_MDA_CRTC_ADDRESS then 0x0103 else 0x0003) r))
   }"

definition handle_101230 :: "bregs \<Rightarrow> ('h, bregs) vio" where
  "handle_101230 r = do {
     SET_BDA (\<lambda>d. let mctl = modeset_ctl d; vswt = video_switches d in
       if r_al r = 0x00 then d\<lparr>modeset_ctl := (mctl AND NOT 0x10) OR 0x80, video_switches := (vswt AND NOT 0x0f) OR 0x08\<rparr>
       else if r_al r = 0x01 then d\<lparr>modeset_ctl := mctl AND NOT 0x90, video_switches := (vswt AND NOT 0x0f) OR 0x09\<rparr>
       else if r_al r = 0x02 then d\<lparr>modeset_ctl := (mctl AND NOT 0x80) OR 0x10, video_switches := (vswt AND NOT 0x0f) OR 0x09\<rparr>
       else d);
     State_Monad.return (set_al 0x12 r)
   }"

definition handle_101231 :: "bregs \<Rightarrow> ('h, bregs) vio" where
  "handle_101231 r = do {
     SET_BDA (\<lambda>d. d\<lparr>video_ctl := (video_ctl d AND NOT 0x08) OR push_bit 3 (r_al r AND 0x01)\<rparr>);
     State_Monad.return (set_al 0x12 r)
   }"

definition handle_101232 :: "'h bus \<Rightarrow> bregs \<Rightarrow> ('h, bregs) vio" where
  "handle_101232 b r = do { vgahw_enable_video_addressing b (r_al r); State_Monad.return (set_al 0x12 r) }"

definition handle_101233 :: "bregs \<Rightarrow> ('h, bregs) vio" where
  "handle_101233 r = do {
     SET_BDA (\<lambda>d. d\<lparr>modeset_ctl := ((push_bit 1 (r_al r) AND 0x02) XOR 0x02) OR (modeset_ctl d AND NOT 0x02)\<rparr>);
     State_Monad.return (set_al 0x12 r)
   }"

definition handle_101234 :: "bregs \<Rightarrow> ('h, bregs) vio" where
  "handle_101234 r = do {
     SET_BDA (\<lambda>d. d\<lparr>modeset_ctl := ((r_al r AND 0x01) XOR 0x01) OR (modeset_ctl d AND NOT 0x01)\<rparr>);
     State_Monad.return (set_al 0x12 r)
   }"

definition handle_101235 :: "bregs \<Rightarrow> ('h, bregs) vio" where "handle_101235 r = State_Monad.return (set_al 0x12 r)"
definition handle_101236 :: "bregs \<Rightarrow> ('h, bregs) vio" where "handle_101236 r = State_Monad.return (set_al 0x12 r)"

definition handle_1012 :: "'h bus \<Rightarrow> bregs \<Rightarrow> ('h, bregs) vio" where
  "handle_1012 b r =
     (let f = r_bl r in
      if f = 0x10 then handle_101210 r
      else if f = 0x30 then handle_101230 r
      else if f = 0x31 then handle_101231 r
      else if f = 0x32 then handle_101232 b r
      else if f = 0x33 then handle_101233 r
      else if f = 0x34 then handle_101234 r
      else if f = 0x35 then handle_101235 r
      else if f = 0x36 then handle_101236 r
      else State_Monad.return r)"

definition handle_1013 :: "'h bus \<Rightarrow> vga_rom \<Rightarrow> bregs \<Rightarrow> ('h, bregs) vio" where
  "handle_1013 b rom r = do {
     cp \<leftarrow> (if r_dh r = 0xff then get_cursor_pos (r_bh r)
           else State_Monad.return \<lparr>cp_x = r_dl r, cp_y = r_dh r, cp_page = r_bh r\<rparr>);
     cp1 \<leftarrow> (if r_al r AND 2 \<noteq> 0 then write_attr_string b rom (unat (r_cx r)) (r_es r) (bp_of r) cp
            else write_string b rom (r_bl r) (unat (r_cx r)) (r_es r) (bp_of r) cp);
     do_when (r_al r AND 1 \<noteq> 0) (set_cursor_pos b cp1);
     State_Monad.return r
   }"

subsection \<open>Display information and state\<close>

definition handle_101a00 :: "bregs \<Rightarrow> ('h, bregs) vio" where
  "handle_101a00 r = do { i \<leftarrow> GET_BDA dcc_index; State_Monad.return (set_al 0x1a (set_bx (ucast i) r)) }"

definition handle_101a01 :: "bregs \<Rightarrow> ('h, bregs) vio" where
  "handle_101a01 r = do { SET_BDA (\<lambda>d. d\<lparr>dcc_index := r_bl r\<rparr>); State_Monad.return (set_al 0x1a r) }"

definition handle_101a :: "bregs \<Rightarrow> ('h, bregs) vio" where
  "handle_101a r = (if r_al r = 0x00 then handle_101a00 r else if r_al r = 0x01 then handle_101a01 r else State_Monad.return r)"

text \<open>
  \<open>struct funcInfo\<close> is not packed: a byte of padding puts the number of colours at offset 40, and what
  follows one byte further than in the table of the VGA BIOS. The copies from the BIOS data area are
  the bytes of the variables at 49h to 66h and at 84h to 86h.
\<close>

definition store_bytes :: "'h bus \<Rightarrow> u16 \<Rightarrow> u16 \<Rightarrow> u8 list \<Rightarrow> ('h, unit) vio" where
  "store_bytes b seg off vs = for_each [0..<length vs] (\<lambda>i. set_far b seg (off + of_nat i) (vs ! i))"

definition bda_0x49 :: "vga_bda \<Rightarrow> u8 list" where
  "bda_0x49 d = [video_mode d] @ le_bytes 2 (video_cols d) @ le_bytes 2 (video_pagesize d) @ le_bytes 2 (video_pagestart d)
     @ concat (map (le_bytes 2) (cursor_pos d)) @ le_bytes 2 (cursor_type d) @ [video_page d] @ le_bytes 2 (crtc_address d)
     @ [video_msr d, video_pal d]"

definition bda_0x84 :: "vga_bda \<Rightarrow> u8 list" where
  "bda_0x84 d = [video_rows d] @ le_bytes 2 (char_height d)"

definition funcInfo_size :: u32 where "funcInfo_size = 66"
definition funcInfo_colors :: u16 where "funcInfo_colors = 40"
definition funcInfo_pages :: u16 where "funcInfo_pages = 42"
definition funcInfo_scan_lines :: u16 where "funcInfo_scan_lines = 43"
definition funcInfo_video_mem :: u16 where "funcInfo_video_mem = 50"

definition handle_101b :: "'h bus \<Rightarrow> vga_rom \<Rightarrow> bregs \<Rightarrow> ('h, bregs) vio" where
  "handle_101b b rom r = do {
     let seg = r_es r;
     let info = di_of r;
     vmemset_far b seg info 0 funcInfo_size;
     set_far16 b seg info (rom_static_functionality rom);
     set_far16 b seg (info + 2) (rom_seg rom);
     d \<leftarrow> GET_BDA (\<lambda>d. d);
     store_bytes b seg (info + 4) (bda_0x49 d);
     store_bytes b seg (info + 34) (bda_0x84 d);
     set_far b seg (info + 37) (dcc_index d);
     set_far16 b seg (info + funcInfo_colors) 16;
     set_far b seg (info + funcInfo_pages) 8;
     set_far b seg (info + funcInfo_scan_lines) 2;
     set_far b seg (info + funcInfo_video_mem) 3;
     State_Monad.return (set_al 0x1B r)
   }"

definition saveVideoHardware_size :: u16 where "saveVideoHardware_size = 70"
definition saveBDAstate_size :: u16 where "saveBDAstate_size = 48"
definition saveDACcolors_size :: u16 where "saveDACcolors_size = 772"

definition handle_101c00 :: "bregs \<Rightarrow> ('h, bregs) vio" where
  "handle_101c00 r =
     State_Monad.return (set_al 0x1c (set_bx ((if r_cx r AND 1 \<noteq> 0 then saveVideoHardware_size else 0)
       + (if r_cx r AND 2 \<noteq> 0 then saveBDAstate_size else 0) + (if r_cx r AND 4 \<noteq> 0 then saveDACcolors_size else 0)) r))"

text \<open>Where the second and the third part of the saved state are.\<close>

definition bda_part :: "bregs \<Rightarrow> u16" where
  "bda_part r = r_bx r + (if r_cx r AND 1 \<noteq> 0 then saveVideoHardware_size else 0)"

definition dac_part :: "bregs \<Rightarrow> u16" where
  "dac_part r = bda_part r + (if r_cx r AND 2 \<noteq> 0 then saveBDAstate_size else 0)"

definition handle_101c01 :: "'h bus \<Rightarrow> bregs \<Rightarrow> ('h, bregs) vio" where
  "handle_101c01 b r = do {
     do_when (r_cx r AND 1 \<noteq> 0) (vgahw_save_state b (r_es r) (r_bx r));
     do_when (r_cx r AND 2 \<noteq> 0) (save_bda_state b (r_es r) (bda_part r));
     do_when (r_cx r AND 4 \<noteq> 0) (vgahw_save_dac_state b (r_es r) (dac_part r));
     State_Monad.return (set_al 0x1c r)
   }"

definition handle_101c02 :: "'h bus \<Rightarrow> bregs \<Rightarrow> ('h, bregs) vio" where
  "handle_101c02 b r = do {
     do_when (r_cx r AND 1 \<noteq> 0) (vgahw_restore_state b (r_es r) (r_bx r));
     do_when (r_cx r AND 2 \<noteq> 0) (restore_bda_state b (r_es r) (bda_part r));
     do_when (r_cx r AND 4 \<noteq> 0) (vgahw_restore_dac_state b (r_es r) (dac_part r));
     State_Monad.return (set_al 0x1c r)
   }"

definition handle_101c :: "'h bus \<Rightarrow> bregs \<Rightarrow> ('h, bregs) vio" where
  "handle_101c b r =
     (if r_al r = 0x00 then handle_101c00 r else if r_al r = 0x01 then handle_101c01 b r
      else if r_al r = 0x02 then handle_101c02 b r else State_Monad.return r)"

definition handle_104fXX :: "bregs \<Rightarrow> ('h, bregs) vio" where
  "handle_104fXX r = State_Monad.return (set_ax 0x0100 r)"

definition handle_104f :: "bregs \<Rightarrow> ('h, bregs) vio" where "handle_104f r = handle_104fXX r"

section \<open>The entry points\<close>

definition handle_10 :: "'h bus \<Rightarrow> vga_rom \<Rightarrow> bregs \<Rightarrow> ('h, bregs result) vio" where
  "handle_10 b rom r =
     (let f = r_ah r in
      if f = 0x00 then ok_regs (handle_1000 b rom r)
      else if f = 0x01 then ok_regs (handle_1001 b r)
      else if f = 0x02 then ok_regs (handle_1002 b r)
      else if f = 0x03 then ok_regs (handle_1003 r)
      else if f = 0x04 then ok_regs (handle_1004 r)
      else if f = 0x05 then ok_regs (handle_1005 b r)
      else if f = 0x06 then ok_regs (handle_1006 b r)
      else if f = 0x07 then ok_regs (handle_1007 b r)
      else if f = 0x08 then ok_regs (handle_1008 b r)
      else if f = 0x09 then ok_regs (handle_1009 b rom r)
      else if f = 0x0a then ok_regs (handle_100a b rom r)
      else if f = 0x0b then ok_regs (handle_100b b r)
      else if f = 0x0c then ok_regs (handle_100c b r)
      else if f = 0x0d then ok_regs (handle_100d b r)
      else if f = 0x0e then ok_regs (handle_100e b rom r)
      else if f = 0x0f then ok_regs (handle_100f r)
      else if f = 0x10 then ok_regs (handle_1010 b rom r)
      else if f = 0x11 then handle_1011 b rom r
      else if f = 0x12 then ok_regs (handle_1012 b r)
      else if f = 0x13 then ok_regs (handle_1013 b rom r)
      else if f = 0x1a then ok_regs (handle_101a r)
      else if f = 0x1b then ok_regs (handle_101b b rom r)
      else if f = 0x1c then ok_regs (handle_101c b r)
      else if f = 0x4f then ok_regs (handle_104f r)
      else State_Monad.return (Inr r))"

definition init_bios_area :: "('h, unit) vio" where
  "init_bios_area = SET_BDA (\<lambda>d. d\<lparr>v_equipment := (v_equipment d AND 0xffcf) OR 0x20, char_height := 0x10, video_ctl := 0x60,
     video_switches := 0xf9, modeset_ctl := 0x51, video_msr := 0x09\<rparr>)"

fun checksum_far :: "'h bus \<Rightarrow> u16 \<Rightarrow> u16 \<Rightarrow> nat \<Rightarrow> u8 \<Rightarrow> ('h, u8) vio" where
  "checksum_far b seg off 0 acc = State_Monad.return acc"
| "checksum_far b seg off (Suc n) acc = do { v \<leftarrow> get_far b seg off; checksum_far b seg (off + 1) n (acc + v) }"

definition vga_post :: "'h bus \<Rightarrow> vga_rom \<Rightarrow> ('h, unit) vio" where
  "vga_post b rom = do {
     vgahw_init b;
     init_bios_area;
     SET_BDA (\<lambda>d. d\<lparr>ivt_10 := (rom_seg rom, rom_entry_10 rom)\<rparr>);
     set_far16 b (rom_seg rom) (rom_save_table rom) (rom_param_table rom);
     set_far16 b (rom_seg rom) (rom_save_table rom + 2) (rom_seg rom);
     set_far b (rom_seg rom) (rom_header_checksum rom) 0;
     n \<leftarrow> get_far b (rom_seg rom) (rom_header_size rom);
     total \<leftarrow> checksum_far b (rom_seg rom) 0 (unat n * 512) 0;
     set_far b (rom_seg rom) (rom_header_checksum rom) (- total)
   }"

end
