(* ===== verification/Vga_Rows.thy ===== *)
theory Vga_Rows
  imports Vga
begin

text \<open>
  The text buffer as memory: for a bus whose text buffer behaves as memory, what the string instructions
  of \<open>vgafb.c\<close> do to its rows, and which rows scrolling a window copies and fills.
\<close>

section \<open>The text buffer as memory\<close>

definition TEXT_SIZE :: nat where "TEXT_SIZE = 0x8000"

text \<open>
  What is asked of the bus: the 32K of the text buffer at a segment read as they were written, and
  neither reading them nor an access to a port changes them. \<open>mem\<close> is the content.
\<close>

definition text_ram :: "'h bus \<Rightarrow> ('h \<Rightarrow> memory) \<Rightarrow> u16 \<Rightarrow> bool" where
  "text_ram b mem seg \<longleftrightarrow>
     (\<forall>h i. i < TEXT_SIZE \<longrightarrow> b_rd b (far_addr seg (of_nat i)) h = (mem h (far_addr seg (of_nat i)), h))
     \<and> (\<forall>h i j v. i < TEXT_SIZE \<and> j < TEXT_SIZE \<longrightarrow> mem (b_wr b (far_addr seg (of_nat i)) v h) (far_addr seg (of_nat j))
           = (if j = i then v else mem h (far_addr seg (of_nat j))))
     \<and> (\<forall>h v p j. j < TEXT_SIZE \<longrightarrow> mem (b_outb b v p h) (far_addr seg (of_nat j)) = mem h (far_addr seg (of_nat j)))"

definition tview :: "('h \<Rightarrow> memory) \<Rightarrow> u16 \<Rightarrow> 'h vga \<Rightarrow> nat \<Rightarrow> u8" where
  "tview mem seg s i = (if i < TEXT_SIZE then mem (vhw s) (far_addr seg (of_nat i)) else 0)"

text \<open>An action that transforms the content and leaves the BIOS variables alone.\<close>

definition acts :: "('h \<Rightarrow> memory) \<Rightarrow> u16 \<Rightarrow> ('h, 'a) vio \<Rightarrow> ('h vga \<Rightarrow> 'a) \<Rightarrow> ((nat \<Rightarrow> u8) \<Rightarrow> nat \<Rightarrow> u8) \<Rightarrow> bool" where
  "acts mem seg m r f \<longleftrightarrow> (\<forall>s. fst (run_state m s) = r s \<and> vbda (snd (run_state m s)) = vbda s
     \<and> tview mem seg (snd (run_state m s)) = f (tview mem seg s))"

lemma run_on_hw [simp]: "run_state (on_hw f) s = (fst (f (vhw s)), s\<lparr>vhw := snd (f (vhw s))\<rparr>)"
  by (simp add: on_hw_def split_beta Let_def)

lemma run_BDA [simp]:
  "run_state (GET_BDA g) s = (g (vbda s), s)" "run_state (SET_BDA u) s = ((), s\<lparr>vbda := u (vbda s)\<rparr>)"
  by (simp_all add: GET_BDA_def SET_BDA_def)

lemma tview_bda [simp]: "tview mem seg (s\<lparr>vbda := d\<rparr>) = tview mem seg s"
  by (simp add: tview_def fun_eq_iff)

lemma get_far_text:
  assumes "text_ram b mem seg" "i < TEXT_SIZE"
  shows "run_state (get_far b seg (of_nat i)) s = (tview mem seg s i, s)"
  using assms by (simp add: get_far_def text_ram_def tview_def)

lemma acts_set_far:
  assumes "text_ram b mem seg" "i < TEXT_SIZE"
  shows "acts mem seg (set_far b seg (of_nat i) v) (\<lambda>_. ()) (\<lambda>t. t(i := v))"
  using assms unfolding acts_def set_far_def text_ram_def by (auto simp: tview_def fun_eq_iff)

lemma acts_return: "acts mem seg (State_Monad.return x) (\<lambda>_. x) (\<lambda>t. t)"
  by (simp add: acts_def)

lemma acts_bind:
  assumes "acts mem seg m (\<lambda>_. x) f" "acts mem seg (k x) (\<lambda>_. y) g"
  shows "acts mem seg (State_Monad.bind m k) (\<lambda>_. y) (\<lambda>t. g (f t))"
  using assms unfolding acts_def by (simp add: split_beta)

lemma of_nat_Suc16: "(of_nat i :: u16) + 1 = of_nat (i + 1)" "(of_nat i :: u16) + 2 = of_nat (i + 2)"
  by simp_all

lemma acts_set_far16:
  assumes "text_ram b mem seg" "i + 1 < TEXT_SIZE"
  shows "acts mem seg (set_far16 b seg (of_nat i) v) (\<lambda>_. ()) (\<lambda>t. t(i := ucast v, i + 1 := ucast (drop_bit 8 v)))"
  unfolding set_far16_def of_nat_Suc16
  by (rule acts_bind[OF acts_set_far acts_set_far]) (use assms in auto)

text \<open>Copying and filling a row.\<close>

definition copy_row :: "nat \<Rightarrow> nat \<Rightarrow> nat \<Rightarrow> (nat \<Rightarrow> u8) \<Rightarrow> nat \<Rightarrow> u8" where
  "copy_row d src n t i = (if d \<le> i \<and> i < d + n then t (src + (i - d)) else t i)"

definition fill_row :: "nat \<Rightarrow> u16 \<Rightarrow> nat \<Rightarrow> (nat \<Rightarrow> u8) \<Rightarrow> nat \<Rightarrow> u8" where
  "fill_row d v n t i = (if d \<le> i \<and> i < d + n then (if even (i - d) then ucast v else ucast (drop_bit 8 v)) else t i)"

lemma acts_copy_byte:
  assumes "text_ram b mem seg" "d < TEXT_SIZE" "src < TEXT_SIZE"
  shows "acts mem seg (State_Monad.bind (get_far b seg (of_nat src)) (set_far b seg (of_nat d))) (\<lambda>_. ()) (\<lambda>t. t(d := t src))"
  unfolding acts_def
proof (intro allI)
  fix s
  show "fst (run_state (State_Monad.bind (get_far b seg (of_nat src)) (set_far b seg (of_nat d))) s) = () \<and>
     vbda (snd (run_state (State_Monad.bind (get_far b seg (of_nat src)) (set_far b seg (of_nat d))) s)) = vbda s \<and>
     tview mem seg (snd (run_state (State_Monad.bind (get_far b seg (of_nat src)) (set_far b seg (of_nat d))) s))
       = (tview mem seg s)(d := tview mem seg s src)"
    using acts_set_far[OF assms(1,2), of "tview mem seg s src"] get_far_text[OF assms(1,3)]
    by (simp add: acts_def)
qed

lemma acts_memcpy_loop:
  assumes "text_ram b mem seg" "d + n \<le> TEXT_SIZE" "src + n \<le> TEXT_SIZE" "d \<le> src \<or> src + n \<le> d"
  shows "acts mem seg (memcpy_loop b seg (of_nat d) seg (of_nat src) n) (\<lambda>_. ()) (copy_row d src n)"
  using assms(2-4)
proof (induction n arbitrary: d src)
  case 0
  have "copy_row d src 0 = (\<lambda>t. t)" by (intro ext) (auto simp: copy_row_def)
  then show ?case by (simp add: acts_return)
next
  case (Suc n)
  have ih: "acts mem seg (memcpy_loop b seg (of_nat (d + 1)) seg (of_nat (src + 1)) n) (\<lambda>_. ()) (copy_row (d + 1) (src + 1) n)"
    by (rule Suc.IH) (use Suc.prems in auto)
  have first: "acts mem seg (State_Monad.bind (get_far b seg (of_nat src)) (set_far b seg (of_nat d))) (\<lambda>_. ()) (\<lambda>t. t(d := t src))"
    by (rule acts_copy_byte[OF assms(1)]) (use Suc.prems in auto)
  have eq: "copy_row (d + 1) (src + 1) n (t(d := t src)) = copy_row d src (Suc n) t" for t
  proof
    fix i
    have "src + 1 + (i - (d + 1)) = src + (i - d)" if "d + 1 \<le> i" using that by simp
    then show "copy_row (d + 1) (src + 1) n (t(d := t src)) i = copy_row d src (Suc n) t i"
      using Suc.prems(3) by (cases "i = d") (auto simp: copy_row_def simp del: One_nat_def)
  qed
  show ?case using acts_bind[OF first, of "\<lambda>_. memcpy_loop b seg (of_nat (d + 1)) seg (of_nat (src + 1)) n" "()", OF ih]
    unfolding eq by (simp add: add.commute)
qed

lemma acts_memset16_loop:
  assumes "text_ram b mem seg" "d + 2 * n \<le> TEXT_SIZE"
  shows "acts mem seg (memset16_loop b seg (of_nat d) v n) (\<lambda>_. ()) (fill_row d v (2 * n))"
  using assms(2)
proof (induction n arbitrary: d)
  case 0
  have "fill_row d v 0 = (\<lambda>t. t)" by (intro ext) (auto simp: fill_row_def)
  then show ?case by (simp add: acts_return)
next
  case (Suc n)
  have ih: "acts mem seg (memset16_loop b seg (of_nat (d + 2)) v n) (\<lambda>_. ()) (fill_row (d + 2) v (2 * n))"
    by (rule Suc.IH) (use Suc.prems in auto)
  have first: "acts mem seg (set_far16 b seg (of_nat d) v) (\<lambda>_. ()) (\<lambda>t. t(d := ucast v, d + 1 := ucast (drop_bit 8 v)))"
    by (rule acts_set_far16[OF assms(1)]) (use Suc.prems in auto)
  have eq: "fill_row (d + 2) v (2 * n) (t(d := ucast v, d + 1 := ucast (drop_bit 8 v))) = fill_row d v (2 * Suc n) t" for t
  proof
    fix i
    consider "i < d" | "i = d" | "i = d + 1" | "d + 2 \<le> i" by linarith
    then show "fill_row (d + 2) v (2 * n) (t(d := ucast v, d + 1 := ucast (drop_bit 8 v))) i = fill_row d v (2 * Suc n) t i"
      by cases (auto simp: fill_row_def even_diff_nat)
  qed
  show ?case using acts_bind[OF first, of "\<lambda>_. memset16_loop b seg (of_nat (d + 2)) v n" "()", OF ih]
    unfolding eq by (simp add: add.commute)
qed

section \<open>Rows\<close>

text \<open>Pointers that move by a stride, and the offsets that they denote.\<close>

fun strided :: "u16 \<Rightarrow> u16 \<Rightarrow> nat list \<Rightarrow> bool" where
  "strided p w [] = True"
| "strided p w (d # ds) = (p = of_nat d \<and> strided (p + w) w ds)"

lemma strided_map:
  assumes "\<And>k. k < n \<Longrightarrow> p + of_nat k * w = of_nat (f k)"
  shows "strided p w (map f [0..<n])"
  using assms
proof (induction n arbitrary: p f)
  case (Suc n)
  have "strided (p + w) w (map (\<lambda>k. f (Suc k)) [0..<n])"
    by (rule Suc.IH) (use Suc.prems[of "Suc k" for k] in \<open>simp add: algebra_simps\<close>)
  moreover have "map f [0..<Suc n] = f 0 # map (\<lambda>k. f (Suc k)) [0..<n]"
    by (simp add: upt_conv_Cons[of 0 "Suc n"] map_Suc_upt[symmetric] comp_def del: upt_Suc)
  ultimately show ?case using Suc.prems[of 0] by simp
qed simp

definition copy_rows :: "nat \<Rightarrow> (nat \<times> nat) list \<Rightarrow> (nat \<Rightarrow> u8) \<Rightarrow> nat \<Rightarrow> u8" where
  "copy_rows n rs = fold (\<lambda>(d, src). copy_row d src n) rs"

definition fill_rows :: "nat \<Rightarrow> u16 \<Rightarrow> nat list \<Rightarrow> (nat \<Rightarrow> u8) \<Rightarrow> nat \<Rightarrow> u8" where
  "fill_rows n v ds = fold (\<lambda>d. fill_row d v n) ds"

lemma ucast_len: "n < 65536 \<Longrightarrow> unat (ucast (of_nat n :: u32) :: u16) = n"
  by (simp add: unat_ucast_mod unat_of_nat)

lemma acts_memcpy_stride:
  assumes "text_ram b mem seg" "n < 65536"
    and "\<And>d src. (d, src) \<in> set rs \<Longrightarrow> d + n \<le> TEXT_SIZE \<and> src + n \<le> TEXT_SIZE \<and> (d \<le> src \<or> src + n \<le> d)"
    and "strided p w (map fst rs)" "strided q w (map snd rs)"
  shows "acts mem seg (memcpy_stride b seg p q (of_nat n) w (length rs)) (\<lambda>_. p + of_nat (length rs) * w) (copy_rows n rs)"
  using assms(3-5)
proof (induction rs arbitrary: p q)
  case Nil
  have "copy_rows n [] = (\<lambda>t. t)" by (simp add: copy_rows_def fun_eq_iff)
  then show ?case using acts_return[of mem seg p] by simp
next
  case (Cons r rs)
  obtain d src where r: "r = (d, src)" by (cases r)
  have p: "p = of_nat d" "q = of_nat src" using Cons.prems(2,3) r by simp_all
  have row: "acts mem seg (vmemcpy_far b seg p seg q (of_nat n)) (\<lambda>_. ()) (copy_row d src n)"
    unfolding vmemcpy_far_def ucast_len[OF assms(2)] p
    by (rule acts_memcpy_loop[OF assms(1)]) (use Cons.prems(1)[of d src] r in auto)
  have ih: "acts mem seg (memcpy_stride b seg (p + w) (q + w) (of_nat n) w (length rs))
      (\<lambda>_. p + w + of_nat (length rs) * w) (copy_rows n rs)"
    by (rule Cons.IH) (use Cons.prems in auto)
  have "copy_rows n (r # rs) = (\<lambda>t. copy_rows n rs (copy_row d src n t))" by (simp add: copy_rows_def r comp_def)
  then show ?case
    using acts_bind[OF row, of "\<lambda>_. memcpy_stride b seg (p + w) (q + w) (of_nat n) w (length rs)", OF ih]
    by (simp add: algebra_simps)
qed

lemma acts_memset16_stride:
  assumes "text_ram b mem seg" "n < 65536" "\<And>d. d \<in> set ds \<Longrightarrow> d + 2 * n \<le> TEXT_SIZE" "strided p w ds"
  shows "acts mem seg (memset16_stride b seg p v (of_nat (2 * n)) w (length ds)) (\<lambda>_. ()) (fill_rows (2 * n) v ds)"
  using assms(3,4)
proof (induction ds arbitrary: p)
  case Nil
  have "fill_rows (2 * n) v [] = (\<lambda>t. t)" by (simp add: fill_rows_def fun_eq_iff)
  then show ?case using acts_return by simp
next
  case (Cons d ds)
  have p: "p = of_nat d" using Cons.prems(2) by simp
  have "unat (of_nat (2 * n) :: u32) = 2 * n" using assms(2) by (simp only: unat_of_nat) simp
  then have half: "(of_nat (2 * n) :: u32) div 2 = of_nat n" using assms(2)
    by (simp only: word_eq_iff_unat unat_div_distrib) (simp add: unat_of_nat)
  have row: "acts mem seg (vmemset16_far b seg p v (of_nat (2 * n))) (\<lambda>_. ()) (fill_row d v (2 * n))"
    unfolding vmemset16_far_def half ucast_len[OF assms(2)] p
    by (rule acts_memset16_loop[OF assms(1)]) (use Cons.prems(1)[of d] in auto)
  have ih: "acts mem seg (memset16_stride b seg (p + w) v (of_nat (2 * n)) w (length ds)) (\<lambda>_. ()) (fill_rows (2 * n) v ds)"
    by (rule Cons.IH) (use Cons.prems in auto)
  have "fill_rows (2 * n) v (d # ds) = (\<lambda>t. fill_rows (2 * n) v ds (fill_row d v (2 * n) t))" by (simp add: fill_rows_def comp_def)
  then show ?case
    using acts_bind[OF row, of "\<lambda>_. memset16_stride b seg (p + w) v (of_nat (2 * n)) w (length ds)", OF ih] by simp
qed

text \<open>What the rows hold afterwards, when no row is written before it is read.\<close>

definition apart :: "nat \<Rightarrow> nat \<Rightarrow> nat \<Rightarrow> bool" where
  "apart n a c \<longleftrightarrow> a + n \<le> c \<or> c + n \<le> a"

lemma copy_rows_other:
  "(\<And>d src. (d, src) \<in> set rs \<Longrightarrow> i < d \<or> d + n \<le> i) \<Longrightarrow> copy_rows n rs t i = t i"
proof (induction rs arbitrary: t)
  case (Cons r rs)
  obtain d src where r: "r = (d, src)" by (cases r)
  have "copy_row d src n t i = t i" using Cons.prems[of d src] r by (auto simp: copy_row_def)
  moreover have "copy_rows n rs (copy_row d src n t) i = copy_row d src n t i"
    by (rule Cons.IH) (use Cons.prems in auto)
  ultimately show ?case by (simp add: copy_rows_def r)
qed (simp add: copy_rows_def)

lemma copy_rows_at:
  assumes "sorted_wrt (\<lambda>r r'. apart n (fst r) (fst r') \<and> apart n (fst r) (snd r')) rs" "(d, src) \<in> set rs" "j < n"
  shows "copy_rows n rs t (d + j) = t (src + j)"
  using assms(1,2)
proof (induction rs arbitrary: t)
  case (Cons r rs)
  obtain d0 s0 where r: "r = (d0, s0)" by (cases r)
  have step: "copy_rows n (r # rs) t = copy_rows n rs (copy_row d0 s0 n t)" by (simp add: copy_rows_def r)
  show ?case
  proof (cases "(d, src) \<in> set rs")
    case True
    then have "copy_rows n rs (copy_row d0 s0 n t) (d + j) = copy_row d0 s0 n t (src + j)"
      using Cons.IH Cons.prems(1) by simp
    moreover have "apart n d0 src" using Cons.prems(1) True r by force
    ultimately show ?thesis using step assms(3) by (auto simp: copy_row_def apart_def)
  next
    case False
    then have e: "d0 = d" "s0 = src" using Cons.prems(2) r by auto
    have "copy_rows n rs (copy_row d0 s0 n t) (d + j) = copy_row d0 s0 n t (d + j)"
    proof (rule copy_rows_other)
      fix d' src' assume "(d', src') \<in> set rs"
      then have "apart n d d'" using Cons.prems(1) r e by force
      then show "d + j < d' \<or> d' + n \<le> d + j" using assms(3) by (auto simp: apart_def)
    qed
    then show ?thesis using step e assms(3) by (simp add: copy_row_def)
  qed
qed simp

lemma fill_rows_other: "(\<And>d. d \<in> set ds \<Longrightarrow> i < d \<or> d + n \<le> i) \<Longrightarrow> fill_rows n v ds t i = t i"
proof (induction ds arbitrary: t)
  case (Cons d ds)
  have "fill_row d v n t i = t i" using Cons.prems[of d] by (auto simp: fill_row_def)
  moreover have "fill_rows n v ds (fill_row d v n t) i = fill_row d v n t i"
    by (rule Cons.IH) (use Cons.prems in auto)
  ultimately show ?case by (simp add: fill_rows_def)
qed (simp add: fill_rows_def)

lemma fill_rows_at:
  assumes "sorted_wrt (apart n) ds" "d \<in> set ds" "j < n"
  shows "fill_rows n v ds t (d + j) = (if even j then ucast v else ucast (drop_bit 8 v))"
  using assms(1,2)
proof (induction ds arbitrary: t)
  case (Cons e ds)
  have step: "fill_rows n v (e # ds) t = fill_rows n v ds (fill_row e v n t)" by (simp add: fill_rows_def)
  show ?case
  proof (cases "d \<in> set ds")
    case True
    then show ?thesis using Cons.IH Cons.prems(1) step by simp
  next
    case False
    then have "e = d" using Cons.prems(2) by simp
    moreover have "fill_rows n v ds (fill_row e v n t) (d + j) = fill_row e v n t (d + j)"
    proof (rule fill_rows_other)
      fix d' assume "d' \<in> set ds"
      then have "apart n d d'" using Cons.prems(1) \<open>e = d\<close> by simp
      then show "d + j < d' \<or> d' + n \<le> d + j" using assms(3) by (auto simp: apart_def)
    qed
    ultimately show ?thesis using step assms(3) by (simp add: fill_row_def)
  qed
qed simp

section \<open>Cells\<close>

text \<open>The size of a page, and the offset of a cell in the text buffer.\<close>

definition psize :: "nat \<Rightarrow> nat \<Rightarrow> nat" where
  "psize cols rows = (2 * cols * rows OR 255) + 1"

definition caddr :: "nat \<Rightarrow> nat \<Rightarrow> nat \<Rightarrow> nat \<Rightarrow> nat \<Rightarrow> nat" where
  "caddr cols rows q x y = q * psize cols rows + (y * cols + x) * 2"

lemma or_ge_nat: "n \<le> n OR (m::nat)"
proof -
  have "int n \<le> int n OR int m" by (simp add: or_greater_eq)
  then show ?thesis unfolding of_nat_or_eq[symmetric] by simp
qed

lemma psize_ge: "2 * cols * rows < psize cols rows"
  using or_ge_nat[of "2 * cols * rows" 255] by (simp add: psize_def)

lemma grid_lt: "x < cols \<Longrightarrow> y < rows \<Longrightarrow> y * cols + x < rows * (cols::nat)"
proof -
  assume "x < cols" "y < rows"
  then have "y * cols + x < Suc y * cols" by simp
  also have "\<dots> \<le> rows * cols" using \<open>y < rows\<close> by (intro mult_le_mono1) simp
  finally show ?thesis .
qed

lemma caddr_lt:
  assumes "x < cols" "y < rows" "(q + 1) * psize cols rows \<le> TEXT_SIZE"
  shows "caddr cols rows q x y + 1 < TEXT_SIZE"
  using grid_lt[OF assms(1,2)] psize_ge[of cols rows] assms(3) by (simp add: caddr_def algebra_simps)

lemma div_mod_unique: "a * n + r = c * n + s \<Longrightarrow> r < n \<Longrightarrow> s < (n::nat) \<Longrightarrow> a = c \<and> r = s"
  by (metis add.commute add_diff_cancel_left' div_less div_mult_self1 mod_less mod_mult_self1 not_less_zero plus_nat.add_0 gr0I)

lemma caddr_inj:
  assumes "x < cols" "y < rows" "e < 2" "x' < cols" "y' < rows" "e' < 2"
    and "caddr cols rows q x y + e = caddr cols rows q' x' y' + e'"
  shows "q = q' \<and> x = x' \<and> y = y' \<and> e = e'"
proof -
  have l: "(y * cols + x) * 2 + e < psize cols rows" "(y' * cols + x') * 2 + e' < psize cols rows"
    using grid_lt[OF assms(1,2)] grid_lt[OF assms(4,5)] psize_ge[of cols rows] assms(3,6) by (simp_all add: algebra_simps)
  have "q = q' \<and> (y * cols + x) * 2 + e = (y' * cols + x') * 2 + e'"
    by (rule div_mod_unique[OF _ l]) (use assms(7) in \<open>simp add: caddr_def\<close>)
  then have q: "q = q'" "(y * cols + x) * 2 + e = (y' * cols + x') * 2 + e'" by simp_all
  have g: "y * cols + x = y' * cols + x'" "e = e'" using div_mod_unique[OF q(2)] assms(3,6) by simp_all
  then show ?thesis using div_mod_unique[OF g(1)] assms(1,4) q by simp
qed

text \<open>The rows of a window, and which cells are in them.\<close>

definition row_at :: "nat \<Rightarrow> nat \<Rightarrow> nat \<Rightarrow> nat \<Rightarrow> nat \<Rightarrow> nat" where
  "row_at cols rows q ux y = caddr cols rows q ux y"

lemma in_row_iff:
  assumes "x < cols" "y < rows" "e < 2" "y' < rows" "ux + w \<le> cols"
  shows "row_at cols rows q ux y' \<le> caddr cols rows q' x y + e \<and> caddr cols rows q' x y + e < row_at cols rows q ux y' + 2 * w
    \<longleftrightarrow> q' = q \<and> y = y' \<and> ux \<le> x \<and> x < ux + w"
    (is "?L \<longleftrightarrow> ?R")
proof
  assume L: ?L
  then obtain m where m: "caddr cols rows q' x y + e = row_at cols rows q ux y' + m" "m < 2 * w"
    by (metis le_iff_add nat_add_left_cancel_less)
  have "row_at cols rows q ux y' + m = caddr cols rows q (ux + m div 2) y' + m mod 2"
    by (simp add: row_at_def caddr_def algebra_simps)
  with m(1) have "caddr cols rows q' x y + e = caddr cols rows q (ux + m div 2) y' + m mod 2" by simp
  moreover have "ux + m div 2 < cols" "m mod 2 < 2" "m div 2 < w" using m(2) assms(5) by auto
  ultimately show ?R using caddr_inj[of x cols y rows e "ux + m div 2" y' "m mod 2" q' q] assms by auto
next
  assume ?R
  then show ?L using assms(3) by (auto simp: row_at_def caddr_def)
qed

lemma row_apart: "y \<noteq> y' \<Longrightarrow> ux + w \<le> cols \<Longrightarrow> apart (2 * w) (row_at cols rows q ux y) (row_at cols rows q ux y')"
proof -
  assume y: "y \<noteq> y'" and w: "ux + w \<le> cols"
  have s: "y1 * cols + cols \<le> y2 * cols" if "y1 < y2" for y1 y2 :: nat
    using mult_le_mono1[of "Suc y1" y2 cols] that by simp
  show ?thesis
  proof (cases "y < y'")
    case True
    then show ?thesis using s[OF True] w by (simp add: apart_def row_at_def caddr_def)
  next
    case False
    then have "y' < y" using y by simp
    then show ?thesis using s[of y' y] w by (simp add: apart_def row_at_def caddr_def)
  qed
qed

lemma row_le: "y < rows \<Longrightarrow> ux + w \<le> cols \<Longrightarrow> 0 < w \<Longrightarrow> (q + 1) * psize cols rows \<le> TEXT_SIZE \<Longrightarrow> row_at cols rows q ux y + 2 * w \<le> TEXT_SIZE"
  using caddr_lt[of "ux + (w - 1)" cols y rows q] by (cases w) (simp_all add: row_at_def caddr_def algebra_simps)

section \<open>Scrolling\<close>

text \<open>The specification: what a window of the screen holds after scrolling up or down by \<open>n\<close> lines.\<close>

type_synonym cell = "u8 \<times> u8"

definition scroll_up :: "nat \<Rightarrow> cell \<Rightarrow> nat \<times> nat \<Rightarrow> nat \<times> nat \<Rightarrow> (nat \<Rightarrow> nat \<Rightarrow> cell) \<Rightarrow> nat \<Rightarrow> nat \<Rightarrow> cell" where
  "scroll_up n blank ul lr c x y =
     (if fst ul \<le> x \<and> x \<le> fst lr \<and> snd ul \<le> y \<and> y \<le> snd lr
      then (if y + n \<le> snd lr then c x (y + n) else blank) else c x y)"

definition scroll_down :: "nat \<Rightarrow> cell \<Rightarrow> nat \<times> nat \<Rightarrow> nat \<times> nat \<Rightarrow> (nat \<Rightarrow> nat \<Rightarrow> cell) \<Rightarrow> nat \<Rightarrow> nat \<Rightarrow> cell" where
  "scroll_down n blank ul lr c x y =
     (if fst ul \<le> x \<and> x \<le> fst lr \<and> snd ul \<le> y \<and> y \<le> snd lr
      then (if snd ul + n \<le> y then c x (y - n) else blank) else c x y)"

definition tcell :: "(nat \<Rightarrow> u8) \<Rightarrow> nat \<Rightarrow> nat \<Rightarrow> nat \<Rightarrow> nat \<Rightarrow> nat \<Rightarrow> cell" where
  "tcell t cols rows q x y = (t (caddr cols rows q x y), t (caddr cols rows q x y + 1))"

text \<open>
  Copying rows \<open>F y\<close> to rows \<open>y\<close> of a window, when no row is read after it was written; and filling
  rows of a window.
\<close>

lemma copy_rows_cells:
  assumes rows: "\<forall>y\<in>set gs. y < rows" and w: "ux + w \<le> cols"
    and ord: "sorted_wrt (\<lambda>a c. a \<noteq> c \<and> a \<noteq> F c) gs" and xy: "x < cols" "y < rows"
  shows "tcell (copy_rows (2 * w) (map (\<lambda>y. (row_at cols rows q ux y, row_at cols rows q ux (F y))) gs) t) cols rows q' x y =
     (if q' = q \<and> y \<in> set gs \<and> ux \<le> x \<and> x < ux + w then tcell t cols rows q x (F y) else tcell t cols rows q' x y)"
proof -
  let ?R = "row_at cols rows q ux" and ?a = "caddr cols rows q' x y"
  let ?cs = "map (\<lambda>y. (?R y, ?R (F y))) gs"
  have "copy_rows (2 * w) ?cs t (?a + e) =
      (if q' = q \<and> y \<in> set gs \<and> ux \<le> x \<and> x < ux + w then t (caddr cols rows q x (F y) + e) else t (?a + e))"
    if e: "e < 2" for e
  proof (cases "q' = q \<and> y \<in> set gs \<and> ux \<le> x \<and> x < ux + w")
    case True
    then have off: "caddr cols rows q x z + e = ?R z + (2 * (x - ux) + e)" for z
      by (simp add: row_at_def caddr_def algebra_simps)
    have "sorted_wrt (\<lambda>r r'. apart (2 * w) (fst r) (fst r') \<and> apart (2 * w) (fst r) (snd r')) ?cs"
      unfolding sorted_wrt_map by (rule sorted_wrt_mono_rel[OF _ ord]) (use row_apart[OF _ w] in auto)
    then have "copy_rows (2 * w) ?cs t (?R y + (2 * (x - ux) + e)) = t (?R (F y) + (2 * (x - ux) + e))"
      by (rule copy_rows_at) (use True e in auto)
    then show ?thesis using True by (simp add: off add.assoc)
  next
    case False
    have "copy_rows (2 * w) ?cs t (?a + e) = t (?a + e)"
    proof (rule copy_rows_other)
      fix d src assume "(d, src) \<in> set ?cs"
      then obtain z where z: "z \<in> set gs" "d = ?R z" by auto
      show "?a + e < d \<or> d + 2 * w \<le> ?a + e" using in_row_iff[OF xy e rows[THEN bspec, OF z(1)] w, of q q'] False z by auto
    qed
    then show ?thesis unfolding if_not_P[OF False] .
  qed
  from this[of 0] this[of 1] show ?thesis by (auto simp: tcell_def)
qed

lemma fill_rows_cells:
  assumes rows: "\<forall>y\<in>set hs. y < rows" and w: "ux + w \<le> cols" and "distinct hs" and xy: "x < cols" "y < rows"
  shows "tcell (fill_rows (2 * w) v (map (row_at cols rows q ux) hs) t) cols rows q' x y =
     (if q' = q \<and> y \<in> set hs \<and> ux \<le> x \<and> x < ux + w then (ucast v, ucast (drop_bit 8 v)) else tcell t cols rows q' x y)"
proof -
  let ?R = "row_at cols rows q ux" and ?a = "caddr cols rows q' x y"
  have "fill_rows (2 * w) v (map ?R hs) t (?a + e) =
      (if q' = q \<and> y \<in> set hs \<and> ux \<le> x \<and> x < ux + w then (if even e then ucast v else ucast (drop_bit 8 v)) else t (?a + e))"
    if e: "e < 2" for e
  proof (cases "q' = q \<and> y \<in> set hs \<and> ux \<le> x \<and> x < ux + w")
    case True
    then have off: "?a + e = ?R y + (2 * (x - ux) + e)" by (simp add: row_at_def caddr_def algebra_simps)
    have "sorted_wrt (apart (2 * w)) (map ?R hs)" unfolding sorted_wrt_map sorted_wrt_iff_nth_less
      using assms(3) row_apart[OF _ w] by (auto simp: nth_eq_iff_index_eq)
    then show ?thesis unfolding if_P[OF True] off using fill_rows_at[of "2 * w" "map ?R hs" "?R y"] True e by auto
  next
    case False
    have "fill_rows (2 * w) v (map ?R hs) t (?a + e) = t (?a + e)"
    proof (rule fill_rows_other)
      fix d assume "d \<in> set (map ?R hs)"
      then obtain z where z: "z \<in> set hs" "d = ?R z" by auto
      show "?a + e < d \<or> d + 2 * w \<le> ?a + e" using in_row_iff[OF xy e rows[THEN bspec, OF z(1)] w, of q q'] False z by auto
    qed
    then show ?thesis unfolding if_not_P[OF False] .
  qed
  from this[of 0] this[of 1] show ?thesis by (auto simp: tcell_def)
qed

text \<open>Offsets as words.\<close>

lemma ucast_of_nat_32_16: "(ucast (of_nat n :: u32) :: u16) = of_nat n"
proof -
  have "n mod 2 ^ 32 mod 2 ^ 16 = n mod 2 ^ 16" by (rule mod_mod_cancel) (simp add: le_imp_power_dvd)
  then show ?thesis by (simp only: word_eq_iff_unat unat_ucast_mod unat_of_nat) simp
qed

lemma page_base:
  assumes "cols * rows < 2 ^ 30"
  shows "(ucast (SCREEN_MEM_START (of_nat cols) (of_nat rows) (of_nat q)) :: u16) = of_nat (q * psize cols rows)"
proof -
  have "unat (of_nat (cols * 2 * rows) :: u32) = cols * 2 * rows" using assms by (simp only: unat_of_nat) simp
  then have "unat ((of_nat (cols * 2 * rows) :: u32) OR 0xff) = cols * 2 * rows OR 255" by (simp add: unsigned_or_eq)
  then have "(of_nat (cols * 2 * rows) :: u32) OR 0xff = of_nat (cols * 2 * rows OR 255)"
    by (metis of_nat_unat ucast_id)
  then have "SCREEN_MEM_START (of_nat cols) (of_nat rows) (of_nat q) = of_nat ((cols * 2 * rows OR 255) * q + q)"
    by (simp add: SCREEN_MEM_START_def SCREEN_IO_START_def algebra_simps)
  then show ?thesis unfolding ucast_of_nat_32_16[symmetric] psize_def by (simp only: ucast_of_nat_32_16) (simp add: algebra_simps)
qed

text \<open>The columns and rows of the screen in the BIOS variables.\<close>

definition tcols :: "vga_bda \<Rightarrow> nat" where "tcols d = unat (video_cols d)"
definition trows :: "vga_bda \<Rightarrow> nat" where "trows d = unat (video_rows d) + 1"

lemma row_word:
  assumes "cols = tcols d" "rows = trows d" "cols < 1024"
  shows "ucast (SCREEN_MEM_START (ucast (video_cols d)) (ucast (ucast (video_rows d) + 1 :: u16)) (ucast (p :: u8)))
      + ucast (y :: u8) * 1 * (video_cols d * 2) + ucast (x :: u8) * 2
    = (of_nat (row_at cols rows (unat p) (unat x) (unat y)) :: u16)"
proof -
  have r: "rows \<le> 256" using unat_lt_2p[of "video_rows d"] assms(2) by (simp add: trows_def)
  have c: "(ucast (video_cols d) :: u32) = of_nat cols" "video_cols d = of_nat cols"
    using unat_lt_2p[of "video_cols d"] by (simp_all add: assms(1) tcols_def)
  have v: "(ucast (ucast (video_rows d) + 1 :: u16) :: u32) = of_nat rows"
  proof -
    have "unat (ucast (video_rows d) + 1 :: u16) = rows"
      using unat_lt_2p[of "video_rows d"] by (subst unat_add_nowrap) (simp_all add: unat_ucast_mod assms(2) trows_def)
    moreover have "(ucast z :: u32) = of_nat (unat z)" for z :: u16 by simp
    ultimately show ?thesis by metis
  qed
  have b: "(ucast p :: u32) = of_nat (unat p)" "(ucast y :: u16) = of_nat (unat y)" "(ucast x :: u16) = of_nat (unat x)"
    by simp_all
  have "cols * rows < 2 ^ 30" using assms(3) r mult_strict_mono'[of cols 1024 rows 257] by simp
  from page_base[OF this, of "unat p"]
  have base: "(ucast (SCREEN_MEM_START (ucast (video_cols d)) (ucast (ucast (video_rows d) + 1 :: u16)) (ucast p)) :: u16)
      = of_nat (unat p * psize cols rows)" by (simp only: c(1) v b(1))
  have "of_nat (unat p * psize cols rows) + of_nat (unat y) * 1 * (of_nat cols * 2) + of_nat (unat x) * 2
      = (of_nat (row_at cols rows (unat p) (unat x) (unat y)) :: u16)" by (simp add: row_at_def caddr_def algebra_simps)
  then show ?thesis unfolding base b(2,3) by (simp only: c(2))
qed

text \<open>
  Scrolling a text window by a number of lines that is not 0 and not more than the height of the window:
  which rows are copied and which are filled. \<open>D\<close> is the direction.
\<close>

definition scroll_gs :: "bool \<Rightarrow> nat \<Rightarrow> nat \<Rightarrow> nat \<Rightarrow> nat list" where
  "scroll_gs up n uy ly = map (\<lambda>k. if up then uy + k else ly - k) [0..<(ly - uy + 1) - n]"

definition scroll_hs :: "bool \<Rightarrow> nat \<Rightarrow> nat \<Rightarrow> nat \<Rightarrow> nat list" where
  "scroll_hs up n uy ly = map (\<lambda>k. if up then uy + ((ly - uy + 1) - n) + k else ly - ((ly - uy + 1) - n) - k) [0..<n]"

definition scroll_F :: "bool \<Rightarrow> nat \<Rightarrow> nat \<Rightarrow> nat" where
  "scroll_F up n y = (if up then y + n else y - n)"

lemma set_scroll_gs:
  "uy \<le> ly \<Longrightarrow> n \<le> ly - uy + 1 \<Longrightarrow> y \<in> set (scroll_gs up n uy ly) \<longleftrightarrow> (if up then uy \<le> y \<and> y + n \<le> ly else uy + n \<le> y \<and> y \<le> ly)"
proof -
  assume a: "uy \<le> ly" "n \<le> ly - uy + 1"
  have "y \<in> (\<lambda>k. uy + k) ` {0..<(ly - uy + 1) - n} \<longleftrightarrow> uy \<le> y \<and> y + n \<le> ly"
  proof
    assume "uy \<le> y \<and> y + n \<le> ly"
    then show "y \<in> (\<lambda>k. uy + k) ` {0..<(ly - uy + 1) - n}" using a by (intro image_eqI[of _ _ "y - uy"]) auto
  qed (use a in auto)
  moreover have "y \<in> (\<lambda>k. ly - k) ` {0..<(ly - uy + 1) - n} \<longleftrightarrow> uy + n \<le> y \<and> y \<le> ly"
  proof
    assume "uy + n \<le> y \<and> y \<le> ly"
    then show "y \<in> (\<lambda>k. ly - k) ` {0..<(ly - uy + 1) - n}" using a by (intro image_eqI[of _ _ "ly - y"]) auto
  qed (use a in auto)
  ultimately show ?thesis unfolding scroll_gs_def by (cases up) simp_all
qed

lemma set_scroll_hs:
  "uy \<le> ly \<Longrightarrow> n \<le> ly - uy + 1 \<Longrightarrow> y \<in> set (scroll_hs up n uy ly) \<longleftrightarrow> uy \<le> y \<and> y \<le> ly \<and> (if up then ly < y + n else y < uy + n)"
proof -
  assume a: "uy \<le> ly" "n \<le> ly - uy + 1"
  have "y \<in> (\<lambda>k. uy + ((ly - uy + 1) - n) + k) ` {0..<n} \<longleftrightarrow> uy \<le> y \<and> y \<le> ly \<and> ly < y + n"
  proof
    assume "uy \<le> y \<and> y \<le> ly \<and> ly < y + n"
    then show "y \<in> (\<lambda>k. uy + ((ly - uy + 1) - n) + k) ` {0..<n}"
      using a by (intro image_eqI[of _ _ "y - (uy + ((ly - uy + 1) - n))"]) auto
  qed (use a in auto)
  moreover have "y \<in> (\<lambda>k. ly - ((ly - uy + 1) - n) - k) ` {0..<n} \<longleftrightarrow> uy \<le> y \<and> y \<le> ly \<and> y < uy + n"
  proof
    assume "uy \<le> y \<and> y \<le> ly \<and> y < uy + n"
    then show "y \<in> (\<lambda>k. ly - ((ly - uy + 1) - n) - k) ` {0..<n}"
      using a by (intro image_eqI[of _ _ "ly - ((ly - uy + 1) - n) - y"]) auto
  qed (use a in auto)
  ultimately show ?thesis unfolding scroll_hs_def by (cases up) simp_all
qed

lemma scroll_order:
  assumes "uy \<le> ly" "0 < n" "n \<le> ly - uy + 1"
  shows "sorted_wrt (\<lambda>a c. a \<noteq> c \<and> a \<noteq> scroll_F up n c) (scroll_gs up n uy ly)" "distinct (scroll_hs up n uy ly)"
  using assms by (auto simp: scroll_gs_def scroll_hs_def scroll_F_def sorted_wrt_iff_nth_less distinct_conv_nth)

lemma row_shift: "(of_nat (row_at cols rows q ux (y + k)) :: u16) = of_nat (row_at cols rows q ux y) + of_nat k * (of_nat cols * 2)"
  by (simp add: row_at_def caddr_def algebra_simps)

lemma row_shift_back: "k \<le> y \<Longrightarrow> (of_nat (row_at cols rows q ux (y - k)) :: u16) = of_nat (row_at cols rows q ux y) - of_nat k * (of_nat cols * 2)"
  using row_shift[of cols rows q ux "y - k" k] by simp

definition scroll_dest :: "nat \<Rightarrow> nat \<Rightarrow> nat \<Rightarrow> nat \<Rightarrow> bool \<Rightarrow> nat \<Rightarrow> nat \<Rightarrow> u16" where
  "scroll_dest cols rows q ux up uy ly = of_nat (row_at cols rows q ux (if up then uy else ly))"

definition scroll_step :: "nat \<Rightarrow> bool \<Rightarrow> u16" where
  "scroll_step cols up = (if up then of_nat cols * 2 else - (of_nat cols * 2))"

lemma scroll_strided:
  assumes "uy \<le> ly" "0 < n" "n \<le> ly - uy + 1"
  shows "strided (scroll_dest cols rows q ux up uy ly) (scroll_step cols up) (map (row_at cols rows q ux) (scroll_gs up n uy ly))"
    and "strided (scroll_dest cols rows q ux up uy ly + of_nat n * scroll_step cols up) (scroll_step cols up)
        (map (\<lambda>y. row_at cols rows q ux (scroll_F up n y)) (scroll_gs up n uy ly))"
    and "strided (scroll_dest cols rows q ux up uy ly + of_nat ((ly - uy + 1) - n) * scroll_step cols up) (scroll_step cols up)
        (map (row_at cols rows q ux) (scroll_hs up n uy ly))"
proof -
  have d: "ly - n - k = ly - (n + k)" "ly - ((ly - uy + 1) - n) - k = ly - (((ly - uy + 1) - n) + k)" for k by simp_all
  note defs = scroll_gs_def scroll_hs_def scroll_F_def scroll_dest_def scroll_step_def map_map comp_def
  note up = row_at_def caddr_def
  show "strided (scroll_dest cols rows q ux up uy ly) (scroll_step cols up) (map (row_at cols rows q ux) (scroll_gs up n uy ly))"
  proof (cases up)
    case True
    then show ?thesis unfolding defs by (simp only: if_True, intro strided_map) (simp add: up algebra_simps)
  next
    case False
    then show ?thesis unfolding defs by (simp only: if_False, intro strided_map) (use assms in \<open>simp add: row_shift_back\<close>)
  qed
  show "strided (scroll_dest cols rows q ux up uy ly + of_nat n * scroll_step cols up) (scroll_step cols up)
        (map (\<lambda>y. row_at cols rows q ux (scroll_F up n y)) (scroll_gs up n uy ly))"
  proof (cases up)
    case True
    then show ?thesis unfolding defs by (simp only: if_True, intro strided_map) (simp add: up algebra_simps)
  next
    case False
    then show ?thesis unfolding defs
      by (simp only: if_False, intro strided_map) (use assms in \<open>simp add: row_shift_back diff_diff_left algebra_simps del: of_nat_diff\<close>)
  qed
  show "strided (scroll_dest cols rows q ux up uy ly + of_nat ((ly - uy + 1) - n) * scroll_step cols up) (scroll_step cols up)
        (map (row_at cols rows q ux) (scroll_hs up n uy ly))"
  proof (cases up)
    case True
    then show ?thesis unfolding defs by (simp only: if_True, intro strided_map) (simp only: add.assoc row_shift, simp only: of_nat_add algebra_simps)
  next
    case False
    then show ?thesis unfolding defs d(2)
      by (simp only: if_False, intro strided_map, subst row_shift_back) (use assms in \<open>simp, simp only: of_nat_add algebra_simps, simp add: algebra_simps\<close>)
  qed
qed

text \<open>Copying and then filling the rows of a window.\<close>

lemma acts_scroll:
  assumes ram: "text_ram b mem seg" and win: "ux + w \<le> cols" "0 < w" "uy \<le> ly" "ly < rows" "cols < 1024"
    and n: "0 < n" "n \<le> ly - uy + 1" and q: "(q + 1) * psize cols rows \<le> TEXT_SIZE"
  shows "acts mem seg
     (State_Monad.bind (memcpy_stride b seg (scroll_dest cols rows q ux up uy ly)
         (scroll_dest cols rows q ux up uy ly + of_nat n * scroll_step cols up) (of_nat (2 * w)) (scroll_step cols up) ((ly - uy + 1) - n))
       (\<lambda>d1. memset16_stride b seg d1 v (of_nat (2 * w)) (scroll_step cols up) n)) (\<lambda>_. ())
     (\<lambda>t. fill_rows (2 * w) v (map (row_at cols rows q ux) (scroll_hs up n uy ly))
            (copy_rows (2 * w) (map (\<lambda>y. (row_at cols rows q ux y, row_at cols rows q ux (scroll_F up n y))) (scroll_gs up n uy ly)) t))"
proof -
  let ?R = "row_at cols rows q ux" and ?F = "scroll_F up n"
  let ?rs = "map (\<lambda>y. (?R y, ?R (?F y))) (scroll_gs up n uy ly)" and ?hs = "map ?R (scroll_hs up n uy ly)"
  have len: "length ?rs = (ly - uy + 1) - n" "length ?hs = n" by (simp_all add: scroll_gs_def scroll_hs_def)
  have rows: "y < rows \<and> ?F y < rows \<and> (if up then y \<le> ?F y else ?F y < y)" if "y \<in> set (scroll_gs up n uy ly)" for y
    using that win n unfolding set_scroll_gs[OF win(3) n(2)] by (auto simp: scroll_F_def split: if_splits)
  have copy: "acts mem seg (memcpy_stride b seg (scroll_dest cols rows q ux up uy ly)
      (scroll_dest cols rows q ux up uy ly + of_nat n * scroll_step cols up) (of_nat (2 * w)) (scroll_step cols up) (length ?rs))
    (\<lambda>_. scroll_dest cols rows q ux up uy ly + of_nat (length ?rs) * scroll_step cols up) (copy_rows (2 * w) ?rs)"
  proof (rule acts_memcpy_stride[OF ram])
    fix d src assume "(d, src) \<in> set ?rs"
    then obtain y where y: "y \<in> set (scroll_gs up n uy ly)" "d = ?R y" "src = ?R (?F y)" by auto
    have "d \<le> src \<or> src + 2 * w \<le> d"
    proof (cases up)
      case True
      then show ?thesis using rows[OF y(1)] y(2,3) by (simp add: row_at_def caddr_def)
    next
      case False
      then have "?F y < y" using rows[OF y(1)] by simp
      then show ?thesis using row_apart[of "?F y" y ux w cols rows q] win y(2,3) mult_le_mono1[OF less_imp_le[OF \<open>?F y < y\<close>], of cols]
        by (auto simp: apart_def row_at_def caddr_def)
    qed
    then show "d + 2 * w \<le> TEXT_SIZE \<and> src + 2 * w \<le> TEXT_SIZE \<and> (d \<le> src \<or> src + 2 * w \<le> d)"
      using rows[OF y(1)] row_le[OF _ win(1,2) q] y(2,3) by simp
  qed (use win scroll_strided[OF win(3) n] in \<open>simp_all add: comp_def\<close>)
  have fill: "acts mem seg (memset16_stride b seg (scroll_dest cols rows q ux up uy ly + of_nat (length ?rs) * scroll_step cols up) v
      (of_nat (2 * w)) (scroll_step cols up) (length ?hs)) (\<lambda>_. ()) (fill_rows (2 * w) v ?hs)"
    unfolding len(1)
    by (rule acts_memset16_stride[OF ram _ _ scroll_strided(3)[OF win(3) n]])
      (use win row_le[OF _ win(1,2) q] in \<open>auto simp: set_scroll_hs[OF win(3) n(2)]\<close>)
  show ?thesis using acts_bind[OF copy, of "\<lambda>d1. memset16_stride b seg d1 v (of_nat (2 * w)) (scroll_step cols up) n" "()"] fill
    unfolding len by simp
qed

end
