(* ===== verification/Vga_Text.thy ===== *)
theory Vga_Text
  imports Vga_Rows
begin

text \<open>
  The text screen. The pages of the text buffer are grids of cells; scrolling a window, writing and
  reading a character, and the teletype output of interrupt 10h act on the grids as a terminal does.
\<close>

section \<open>The screen\<close>

text \<open>
  The BIOS variables of a text mode, whose lines and columns have numbers that fit the bytes of a cursor
  position; a page that is within the buffer; the cells of every page.
\<close>

definition text_screen :: "vga_bda \<Rightarrow> vgamode_s \<Rightarrow> bool" where
  "text_screen d vm \<longleftrightarrow> find_vga_entry (video_mode d) = Some vm \<and> memmodel vm \<in> {CTEXT, MTEXT}
     \<and> 0 < tcols d \<and> tcols d < 256 \<and> trows d < 256"

definition page_fits :: "vga_bda \<Rightarrow> u8 \<Rightarrow> bool" where
  "page_fits d p \<longleftrightarrow> (unat p + 1) * psize (tcols d) (trows d) \<le> TEXT_SIZE"

definition screen :: "('h \<Rightarrow> memory) \<Rightarrow> vgamode_s \<Rightarrow> 'h vga \<Rightarrow> nat \<Rightarrow> nat \<Rightarrow> nat \<Rightarrow> cell" where
  "screen mem vm s q x y = (if x < tcols (vbda s) \<and> y < trows (vbda s)
     then tcell (tview mem (sstart vm) s) (tcols (vbda s)) (trows (vbda s)) q x y else (0, 0))"

definition scrolled :: "int \<Rightarrow> cell \<Rightarrow> cursorpos \<Rightarrow> cursorpos \<Rightarrow> (nat \<Rightarrow> nat \<Rightarrow> cell) \<Rightarrow> nat \<Rightarrow> nat \<Rightarrow> cell" where
  "scrolled n blank ul lr =
     (if 0 < n then scroll_up (nat n) blank (unat (cp_x ul), unat (cp_y ul)) (unat (cp_x lr), unat (cp_y lr))
      else scroll_down (nat (- n)) blank (unat (cp_x ul), unat (cp_y ul)) (unat (cp_x lr), unat (cp_y lr)))"

lemma blank_word:
  "ucast (of_int (a * 256 + 0x20) :: u16) = (0x20 :: u8)"
  "ucast (drop_bit 8 (of_int (a * 256 + 0x20) :: u16)) = (of_int a :: u8)"
proof -
  have u: "uint (of_int z :: u16) = z mod 65536" "uint (of_int z :: u8) = z mod 256" for z
    by (simp_all add: uint_word_of_int)
  have m: "z mod 65536 mod 256 = z mod 256" for z :: int by (rule mod_mod_cancel) simp
  show "ucast (of_int (a * 256 + 0x20) :: u16) = (0x20 :: u8)"
    by (simp only: word_uint_eq_iff unsigned_ucast_eq u) (simp add: take_bit_eq_mod m)
  have "(a * 256 + 32) mod 65536 div 256 mod 256 = a mod 256"
    using zmod_zmult2_eq[of 256 "a * 256 + 32" 256] by simp
  then show "ucast (drop_bit 8 (of_int (a * 256 + 0x20) :: u16)) = (of_int a :: u8)"
    by (simp only: word_uint_eq_iff unsigned_ucast_eq u unsigned_drop_bit_eq) (simp add: take_bit_eq_mod drop_bit_eq_div)
qed

lemma scroll_text_runs:
  assumes scr: "tcols (vbda s) < 256" and win: "cp_x ul \<le> cp_x lr" "cp_y ul \<le> cp_y lr" "unat (cp_x lr) < tcols (vbda s)"
    and n: "nb \<noteq> 0" "\<bar>nb\<bar> \<le> win_rows ul lr"
  shows "run_state (scroll_text b vm nb attr ul lr) s =
    (let cols = tcols (vbda s); D = scroll_dest cols (trows (vbda s)) (unat (cp_page ul)) (unat (cp_x ul)) (0 < nb) (unat (cp_y ul)) (unat (cp_y lr));
         W = scroll_step cols (0 < nb); n = nat \<bar>nb\<bar>; w = unat (cp_x lr) - unat (cp_x ul) + 1 in
     run_state (State_Monad.bind (memcpy_stride b (sstart vm) D (D + of_nat n * W) (of_nat (2 * w)) W ((unat (cp_y lr) - unat (cp_y ul) + 1) - n))
       (\<lambda>d1. memset16_stride b (sstart vm) d1 (of_int ((if attr < 0 then 0x07 else attr) * 256 + 0x20)) (of_nat (2 * w)) W n)) s)"
proof -
  let ?d = "vbda s" and ?h = "unat (cp_y lr) - unat (cp_y ul) + 1" and ?w = "unat (cp_x lr) - unat (cp_x ul) + 1"
  let ?D = "scroll_dest (tcols ?d) (trows ?d) (unat (cp_page ul)) (unat (cp_x ul)) (0 < nb) (unat (cp_y ul)) (unat (cp_y lr))"
  let ?W = "scroll_step (tcols ?d) (0 < nb)"
  have le: "unat (cp_x ul) \<le> unat (cp_x lr)" "unat (cp_y ul) \<le> unat (cp_y lr)" using win(1,2) by (simp_all add: word_le_nat_alt)
  have h: "win_rows ul lr = int ?h" and w: "win_cols ul lr * 2 = int (2 * ?w)"
    using le unfolding win_rows_def win_cols_def uint_nat by auto
  have cols: "video_cols ?d * 2 = of_nat (tcols ?d) * 2" by (simp add: tcols_def)
  have row: "ucast (SCREEN_MEM_START (ucast (video_cols ?d)) (ucast (ucast (video_rows ?d) + 1 :: u16)) (ucast (cp_page ul)))
      + ucast y * 1 * (video_cols ?d * 2) + ucast (cp_x ul) * 2
    = (of_nat (row_at (tcols ?d) (trows ?d) (unat (cp_page ul)) (unat (cp_x ul)) (unat y)) :: u16)" for y :: u8
    by (rule row_word) (use scr in simp_all)
  have places: "scroll_places nb (ucast (SCREEN_MEM_START (ucast (video_cols ?d)) (ucast (ucast (video_rows ?d) + 1 :: u16)) (ucast (cp_page ul))))
      1 (video_cols ?d * 2) 2 ul lr = (nat \<bar>nb\<bar>, ?D, ?D + of_nat (nat \<bar>nb\<bar>) * ?W, ?W)"
  proof (cases "0 < nb")
    case True
    then show ?thesis unfolding scroll_places_def row by (simp add: scroll_dest_def scroll_step_def cols Let_def)
  next
    case False
    then have "nb < 0" using n(1) by simp
    then show ?thesis unfolding scroll_places_def row by (simp add: scroll_dest_def scroll_step_def cols Let_def)
  qed
  have len: "nat (win_rows ul lr - int (nat \<bar>nb\<bar>)) = ?h - nat \<bar>nb\<bar>" unfolding h using n(2) by (simp add: nat_diff_distrib)
  have no: "?h - nat \<bar>nb\<bar> = 0" if "\<not> int (nat \<bar>nb\<bar>) < win_rows ul lr"
    using that n(2) unfolding h by simp
  show ?thesis
  proof (cases "int (nat \<bar>nb\<bar>) < win_rows ul lr")
    case True
    then show ?thesis unfolding scroll_text_def Let_def by (simp only: run_state_bind run_BDA split_beta fst_conv snd_conv places prod.case if_True len w of_int_of_nat_eq) 
  next
    case False
    then show ?thesis unfolding scroll_text_def Let_def by (simp only: run_state_bind run_BDA split_beta fst_conv snd_conv places prod.case if_False no[OF False] memcpy_stride.simps w of_int_of_nat_eq)
  qed
qed

lemma scroll_rows_cells:
  assumes w: "ux + w \<le> cols" "0 < w" and y: "uy \<le> ly" "ly < rows" and n: "0 < n" "n \<le> ly - uy + 1" and xy: "x < cols" "y < rows"
  shows "tcell (fill_rows (2 * w) v (map (row_at cols rows q ux) (scroll_hs up n uy ly))
       (copy_rows (2 * w) (map (\<lambda>y. (row_at cols rows q ux y, row_at cols rows q ux (scroll_F up n y))) (scroll_gs up n uy ly)) t))
     cols rows q' x y =
    (if q' = q then (if up then scroll_up else scroll_down) n (ucast v, ucast (drop_bit 8 v)) (ux, uy) (ux + w - 1, ly) (tcell t cols rows q) x y
     else tcell t cols rows q' x y)"
proof -
  have gs: "\<forall>y\<in>set (scroll_gs up n uy ly). y < rows" using y(2) by (auto simp: set_scroll_gs[OF y(1) n(2)] split: if_splits)
  have hs: "\<forall>y\<in>set (scroll_hs up n uy ly). y < rows" using y(2) by (auto simp: set_scroll_hs[OF y(1) n(2)])
  have win: "ux \<le> x \<and> x < ux + w \<longleftrightarrow> ux \<le> x \<and> x \<le> ux + w - 1" using w(2) by auto
  show ?thesis
    unfolding fill_rows_cells[OF hs w(1) scroll_order(2)[OF y(1) n] xy] copy_rows_cells[OF gs w(1) scroll_order(1)[OF y(1) n] xy]
      set_scroll_gs[OF y(1) n(2)] set_scroll_hs[OF y(1) n(2)] win
    using n by (cases up; cases "q' = q"; cases "ux \<le> x"; cases "x \<le> ux + w - 1"; cases "uy \<le> y"; cases "y \<le> ly")
      (simp_all add: scroll_up_def scroll_down_def scroll_F_def not_le)
qed

lemma grid_eqI: "(\<And>q x y. f q x y = g q x y) \<Longrightarrow> f = g" by (intro ext)

lemma vgafb_scroll_screen:
  assumes ram: "text_ram b mem (sstart vm)" and scr: "text_screen (vbda s) vm" and q: "page_fits (vbda s) (cp_page ul)"
    and win: "cp_x ul \<le> cp_x lr" "cp_y ul \<le> cp_y lr" "unat (cp_x lr) < tcols (vbda s)" "unat (cp_y lr) < trows (vbda s)"
    and n: "nb \<noteq> 0" "\<bar>nb\<bar> \<le> win_rows ul lr"
    and s': "s' = snd (run_state (vgafb_scroll b nb attr ul lr) s)"
  shows "vbda s' = vbda s"
    and "screen mem vm s' = (screen mem vm s)(unat (cp_page ul) :=
           scrolled nb (0x20, if attr < 0 then 0x07 else of_int attr) ul lr (screen mem vm s (unat (cp_page ul))))"
proof -
  let ?d = "vbda s" and ?up = "0 < nb" and ?n = "nat \<bar>nb\<bar>" and ?ux = "unat (cp_x ul)" and ?uy = "unat (cp_y ul)" and ?ly = "unat (cp_y lr)"
  let ?w = "unat (cp_x lr) - unat (cp_x ul) + 1" and ?p = "unat (cp_page ul)" and ?v = "of_int ((if attr < 0 then 0x07 else attr) * 256 + 0x20) :: u16"
  let ?cols = "tcols ?d" and ?rows = "trows ?d" and ?a = "if attr < 0 then 0x07 else attr"
  have le: "?ux \<le> unat (cp_x lr)" "?uy \<le> ?ly" using win(1,2) by (simp_all add: word_le_nat_alt)
  have h: "win_rows ul lr = int (?ly - ?uy + 1)" using le unfolding win_rows_def uint_nat by auto
  have m: "0 < ?n" "?n \<le> ?ly - ?uy + 1" using n unfolding h by auto
  have w: "?ux + ?w \<le> ?cols" using le win(3) by simp
  have cols: "?cols < 256" using scr by (simp add: text_screen_def)
  have "vgafb_scroll b nb attr ul lr = State_Monad.bind (GET_BDA video_mode) (\<lambda>md. case find_vga_entry md of None \<Rightarrow> State_Monad.return ()
     | Some vmode \<Rightarrow>
         if memmodel vmode \<in> {CTEXT, MTEXT} then scroll_text b vmode nb attr ul lr
         else if memmodel vmode \<in> {PLANAR4, PLANAR1} then scroll_pl4 b vmode nb attr ul lr
         else if memmodel vmode = CGA then scroll_cga b vmode nb attr ul lr
         else State_Monad.return ())" by (simp add: vgafb_scroll_def)
  then have run: "run_state (vgafb_scroll b nb attr ul lr) s = run_state (scroll_text b vm nb attr ul lr) s"
    using scr by (simp add: text_screen_def)
  note A = acts_scroll[where q = ?p and v = ?v and up = ?up, OF ram w _ le(2) win(4) _ m, unfolded acts_def, rule_format]
  have act: "vbda s' = ?d" "tview mem (sstart vm) s' = fill_rows (2 * ?w) ?v (map (row_at ?cols ?rows ?p ?ux) (scroll_hs ?up ?n ?uy ?ly))
      (copy_rows (2 * ?w) (map (\<lambda>y. (row_at ?cols ?rows ?p ?ux y, row_at ?cols ?rows ?p ?ux (scroll_F ?up ?n y))) (scroll_gs ?up ?n ?uy ?ly))
        (tview mem (sstart vm) s))"
    unfolding s' run scroll_text_runs[OF cols win(1-3) n] Let_def
    using A[of s] q cols by (simp_all add: page_fits_def)
  show "vbda s' = vbda s" by (rule act)
  show "screen mem vm s' = (screen mem vm s)(?p := scrolled nb (0x20, if attr < 0 then 0x07 else of_int attr) ul lr (screen mem vm s ?p))"
  proof (intro grid_eqI)
    fix q x y
    show "screen mem vm s' q x y = ((screen mem vm s)(?p := scrolled nb (0x20, if attr < 0 then 0x07 else of_int attr) ul lr (screen mem vm s ?p))) q x y"
    proof (cases "x < ?cols \<and> y < ?rows")
      case True
      have b: "(if attr < 0 then 0x07 else of_int attr) = (of_int ?a :: u8)" by simp
      have u: "?ux + ?w - 1 = unat (cp_x lr)" and w0: "0 < ?w" using le by simp_all
      have c: "tcell (tview mem (sstart vm) s') ?cols ?rows q x y =
          (if q = ?p then scrolled nb (0x20, of_int ?a) ul lr (tcell (tview mem (sstart vm) s) ?cols ?rows ?p) x y
           else tcell (tview mem (sstart vm) s) ?cols ?rows q x y)"
        unfolding act(2) scroll_rows_cells[OF w w0 le(2) win(4) m True[THEN conjunct1] True[THEN conjunct2]] u blank_word
        by (cases ?up) (simp_all add: scrolled_def)
      show ?thesis unfolding screen_def act(1) c b using True win(3,4)
        by (cases "q = ?p"; cases ?up) (simp_all add: scrolled_def scroll_up_def scroll_down_def less_imp_diff_less)
    next
      case False
      then have z: "screen mem vm s' q x y = (0, 0)" "screen mem vm s q' x y = (0, 0)" for q' by (auto simp: screen_def act(1))
      have out: "\<not> (x \<le> unat (cp_x lr) \<and> y \<le> unat (cp_y lr))" using False win(3,4) by linarith
      then have "scrolled nb c ul lr (screen mem vm s ?p) x y = screen mem vm s ?p x y" for c
        by (auto simp: scrolled_def scroll_up_def scroll_down_def)
      then show ?thesis using z by simp
    qed
  qed
qed

text \<open>
  Interrupt 10h, functions 06h and 07h: the window that the registers name, with its lower right corner
  brought into the screen; the number of lines, where 0 and what is more than the window has are all of
  its lines.
\<close>

definition scroll_window :: "vga_bda \<Rightarrow> bregs \<Rightarrow> cursorpos \<times> cursorpos" where
  "scroll_window d r =
     (\<lparr>cp_x = r_cl r, cp_y = r_ch r, cp_page = video_page d\<rparr>,
      \<lparr>cp_x = of_nat (min (unat (r_dl r)) (tcols d - 1)), cp_y = of_nat (min (unat (r_dh r)) (trows d - 1)), cp_page = video_page d\<rparr>)"

definition scroll_spec :: "vga_bda \<Rightarrow> bregs \<Rightarrow> int \<Rightarrow> (nat \<Rightarrow> nat \<Rightarrow> cell) \<Rightarrow> nat \<Rightarrow> nat \<Rightarrow> cell" where
  "scroll_spec d r dir =
     (let (ul, lr) = scroll_window d r; n = (if r_al r = 0 then win_rows ul lr else min (uint (r_al r)) (win_rows ul lr))
      in if cp_x ul \<le> cp_x lr \<and> cp_y ul \<le> cp_y lr then scrolled (dir * n) (0x20, r_bh r) ul lr else (\<lambda>c. c))"

lemma window_words:
  assumes "text_screen d vm"
  shows "(if ucast (r_dh r) \<ge> (ucast (video_rows d) + 1 :: u16) then ucast ((ucast (video_rows d) + 1 :: u16) - 1) else r_dh r)
      = (of_nat (min (unat (r_dh r)) (trows d - 1)) :: u8)"
    and "(if ucast (r_dl r) \<ge> video_cols d then ucast (video_cols d - 1) else r_dl r)
      = (of_nat (min (unat (r_dl r)) (tcols d - 1)) :: u8)"
proof -
  have t: "tcols d < 256" "0 < tcols d" "trows d < 256" using assms by (simp_all add: text_screen_def)
  have r: "unat (ucast (video_rows d) + 1 :: u16) = trows d"
    using unat_lt_2p[of "video_rows d"] by (subst unat_add_nowrap) (simp_all add: unat_ucast_mod trows_def)
  have u: "unat (ucast z :: u16) = unat z" for z :: u8 using unat_lt_2p[of z] by (simp add: unat_ucast_mod)
  have n: "z = of_nat (unat z)" for z :: u8 by simp
  have c: "unat (ucast (video_cols d - 1) :: u8) = tcols d - 1"
    using t unfolding unat_ucast_mod by (subst unat_sub) (simp_all add: word_le_nat_alt tcols_def)
  have b: "(ucast (ucast z :: u16) :: u8) = z" for z :: u8 using unat_lt_2p[of z] by (simp add: word_eq_iff_unat unat_ucast_mod)
  show "(if ucast (r_dh r) \<ge> (ucast (video_rows d) + 1 :: u16) then ucast ((ucast (video_rows d) + 1 :: u16) - 1) else r_dh r)
      = (of_nat (min (unat (r_dh r)) (trows d - 1)) :: u8)"
    unfolding word_le_nat_alt r u by (auto simp: min_def trows_def b)
  show "(if ucast (r_dl r) \<ge> video_cols d then ucast (video_cols d - 1) else r_dl r)
      = (of_nat (min (unat (r_dl r)) (tcols d - 1)) :: u8)"
    unfolding word_le_nat_alt u using t c by (auto simp: min_def tcols_def word_eq_iff_unat unat_of_nat)
qed

lemma verify_scroll_screen:
  assumes ram: "text_ram b mem (sstart vm)" and scr: "text_screen (vbda s) vm" and q: "page_fits (vbda s) (video_page (vbda s))"
    and dir: "dir = 1 \<or> dir = - 1" and s': "s' = snd (run_state (verify_scroll b r dir) s)"
  shows "vbda s' = vbda s"
    and "screen mem vm s' = (screen mem vm s)(unat (video_page (vbda s)) := scroll_spec (vbda s) r dir (screen mem vm s (unat (video_page (vbda s)))))"
proof -
  obtain ul lr where win: "scroll_window (vbda s) r = (ul, lr)" by fastforce
  let ?n = "if r_al r = 0 then win_rows ul lr else min (uint (r_al r)) (win_rows ul lr)"
  have u: "ul = \<lparr>cp_x = r_cl r, cp_y = r_ch r, cp_page = video_page (vbda s)\<rparr>"
    and l: "lr = \<lparr>cp_x = of_nat (min (unat (r_dl r)) (tcols (vbda s) - 1)), cp_y = of_nat (min (unat (r_dh r)) (trows (vbda s) - 1)), cp_page = video_page (vbda s)\<rparr>"
    using win by (simp_all add: scroll_window_def)
  have n: "(if r_al r = 0 \<or> uint (r_al r) > win_rows ul lr then win_rows ul lr else uint (r_al r)) = ?n" by simp
  have run: "run_state (verify_scroll b r dir) s =
     (if cp_x ul \<le> cp_x lr \<and> cp_y ul \<le> cp_y lr then run_state (vgafb_scroll b (dir * ?n) (uint (r_bh r)) ul lr) s else ((), s))"
    unfolding verify_scroll_def Let_def run_state_bind run_BDA split_beta fst_conv snd_conv window_words[OF scr] u[symmetric] l[symmetric] n
    by (simp add: u l not_less[symmetric])
  have "vbda s' = vbda s \<and> screen mem vm s' = (screen mem vm s)(unat (video_page (vbda s)) := scroll_spec (vbda s) r dir (screen mem vm s (unat (video_page (vbda s)))))"
  proof (cases "cp_x ul \<le> cp_x lr \<and> cp_y ul \<le> cp_y lr")
    case True
    have al: "r_al r \<noteq> 0 \<Longrightarrow> 0 < uint (r_al r)" by (simp add: word_gt_0_no uint_0_iff less_le)
    have "cp_y ul \<le> cp_y lr" using True by simp
    then have "1 \<le> win_rows ul lr" by (simp add: win_rows_def word_le_def)
    then have m: "dir * ?n \<noteq> 0" "\<bar>dir * ?n\<bar> \<le> win_rows ul lr" using dir al by (auto simp: min_def)
    have t: "tcols (vbda s) < 256" "0 < tcols (vbda s)" "trows (vbda s) < 256" "0 < trows (vbda s)"
      using scr by (simp_all add: text_screen_def trows_def)
    have c: "unat (cp_x lr) < tcols (vbda s)" "unat (cp_y lr) < trows (vbda s)" using t by (simp_all add: l unat_of_nat)
    have p: "cp_page ul = video_page (vbda s)" by (simp add: u)
    have "s' = snd (run_state (vgafb_scroll b (dir * ?n) (uint (r_bh r)) ul lr) s)" using True by (simp add: s' run)
    note V = vgafb_scroll_screen[OF ram scr _ _ _ c m this, unfolded p, OF q]
    show ?thesis using V True by (simp add: scroll_spec_def win Let_def)
  next
    case False
    have "s' = s" unfolding s' run if_not_P[OF False] by simp
    then show ?thesis unfolding scroll_spec_def win Let_def prod.case if_not_P[OF False] by simp
  qed
  then show "vbda s' = vbda s"
    and "screen mem vm s' = (screen mem vm s)(unat (video_page (vbda s)) := scroll_spec (vbda s) r dir (screen mem vm s (unat (video_page (vbda s)))))"
    by simp_all
qed

text \<open>
  C28. Interrupt 10h, functions 06h and 07h, scroll a window of the page that is shown: in a text mode
  every line of the window moves up or down by the number of lines in AL, the lines that become free are
  blank with the attribute in BH, and AL = 0 (or more lines than the window has) clears the window. The
  window is cut to the screen, and an empty window changes nothing. The cells outside of the window, the
  other pages, the BIOS variables and the registers stay as they were.
\<close>

theorem scroll_functions_scroll:
  assumes ram: "text_ram b mem (sstart vm)" and scr: "text_screen (vbda s) vm" and q: "page_fits (vbda s) (video_page (vbda s))"
    and up: "run_state (handle_1006 b r) s = (ru, su)" and down: "run_state (handle_1007 b r) s = (rd, sd)"
  defines "p \<equiv> unat (video_page (vbda s))"
  shows "screen mem vm su = (screen mem vm s)(p := scroll_spec (vbda s) r 1 (screen mem vm s p)) \<and> vbda su = vbda s \<and> ru = r
    \<and> screen mem vm sd = (screen mem vm s)(p := scroll_spec (vbda s) r (- 1) (screen mem vm s p)) \<and> vbda sd = vbda s \<and> rd = r"
proof -
  have u: "su = snd (run_state (verify_scroll b r 1) s)" "ru = r" and d: "sd = snd (run_state (verify_scroll b r (- 1)) s)" "rd = r"
    using up down by (auto simp: handle_1006_def handle_1007_def keep_regs_def split_beta)
  show ?thesis using verify_scroll_screen[OF ram scr q _ u(1)] verify_scroll_screen[OF ram scr q _ d(1)] u(2) d(2) by (simp add: p_def)
qed

section \<open>Characters\<close>

definition put_cell :: "nat \<Rightarrow> nat \<Rightarrow> cell \<Rightarrow> (nat \<Rightarrow> nat \<Rightarrow> cell) \<Rightarrow> nat \<Rightarrow> nat \<Rightarrow> cell" where
  "put_cell x y c g = g(x := (g x)(y := c))"

definition on_screen :: "vga_bda \<Rightarrow> cursorpos \<Rightarrow> bool" where
  "on_screen d cp \<longleftrightarrow> unat (cp_x cp) < tcols d \<and> unat (cp_y cp) < trows d \<and> page_fits d (cp_page cp)"

abbreviation cell_at :: "vga_bda \<Rightarrow> cursorpos \<Rightarrow> nat" where
  "cell_at d cp \<equiv> caddr (tcols d) (trows d) (unat (cp_page cp)) (unat (cp_x cp)) (unat (cp_y cp))"

lemma text_address_cell:
  assumes "tcols d < 256"
  shows "text_address (video_cols d) (ucast (video_rows d) + 1) cp = of_nat (cell_at d cp)"
  using row_word[OF refl refl, of d "cp_page cp" "cp_y cp" "cp_x cp"] assms
  by (simp add: text_address_def row_at_def algebra_simps)

lemma cell_at_lt: "on_screen d cp \<Longrightarrow> cell_at d cp + 1 < TEXT_SIZE"
  by (rule caddr_lt) (simp_all add: on_screen_def page_fits_def)

lemma screen_write:
  assumes "on_screen (vbda s) cp" "vbda s' = vbda s"
    and "tview mem (sstart vm) s' = (tview mem (sstart vm) s)(cell_at (vbda s) cp := v, cell_at (vbda s) cp + 1 := w)"
  shows "screen mem vm s' = (screen mem vm s)(unat (cp_page cp) :=
    put_cell (unat (cp_x cp)) (unat (cp_y cp)) (v, w) (screen mem vm s (unat (cp_page cp))))"
proof (intro grid_eqI)
  fix q x y
  let ?d = "vbda s" and ?px = "unat (cp_x cp)" and ?py = "unat (cp_y cp)" and ?pp = "unat (cp_page cp)"
  have b: "?px < tcols ?d" "?py < trows ?d" using assms(1) by (simp_all add: on_screen_def)
  have e: "caddr (tcols ?d) (trows ?d) q x y + i = cell_at ?d cp + j \<longleftrightarrow> q = ?pp \<and> x = ?px \<and> y = ?py \<and> i = j"
    if "x < tcols ?d" "y < trows ?d" "i < 2" "j < 2" for i j
    using caddr_inj[of x "tcols ?d" y "trows ?d" i ?px ?py j q ?pp] that b by auto
  show "screen mem vm s' q x y = ((screen mem vm s)(?pp := put_cell ?px ?py (v, w) (screen mem vm s ?pp))) q x y"
  proof (cases "x < tcols ?d \<and> y < trows ?d")
    case True
    then show ?thesis using e[of 0 0] e[of 0 1] e[of 1 0] e[of 1 1] b
      by (auto simp: screen_def assms(2,3) tcell_def put_cell_def)
  qed (use b in \<open>auto simp: screen_def assms(2) put_cell_def\<close>)
qed

definition written :: "carattr \<Rightarrow> cell \<Rightarrow> cell" where
  "written ca c = (ca_car ca, if ca_use_attr ca then ca_attr ca else snd c)"

lemma attr_word: "ucast (push_bit 8 (ucast a) OR ucast c :: u16) = (c :: u8)"
    "ucast (drop_bit 8 (push_bit 8 (ucast a) OR ucast c :: u16)) = (a :: u8)"
  by (rule bit_word_eqI, auto simp: bit_simps dest: bit_imp_le_length)+

lemma vgafb_write_char_screen:
  assumes ram: "text_ram b mem (sstart vm)" and scr: "text_screen (vbda s) vm" and cp: "on_screen (vbda s) cp"
    and s': "s' = snd (run_state (vgafb_write_char b rom cp ca) s)"
  shows "vbda s' = vbda s"
    and "screen mem vm s' = (screen mem vm s)(unat (cp_page cp) := put_cell (unat (cp_x cp)) (unat (cp_y cp))
       (written ca (screen mem vm s (unat (cp_page cp)) (unat (cp_x cp)) (unat (cp_y cp)))) (screen mem vm s (unat (cp_page cp))))"
proof -
  let ?d = "vbda s" and ?a = "cell_at (vbda s) cp"
  have run: "run_state (vgafb_write_char b rom cp ca) s = run_state (write_text_char b vm cp ca) s"
    using scr by (simp add: vgafb_write_char_def text_screen_def)
  have "tcols ?d < 256" using scr by (simp add: text_screen_def)
  note a = text_address_cell[OF this, of cp]
  let ?t = "tview mem (sstart vm) s"
  have act: "vbda s' = ?d \<and> tview mem (sstart vm) s' = ?t(?a := ca_car ca, ?a + 1 := if ca_use_attr ca then ca_attr ca else ?t (?a + 1))"
  proof (cases "ca_use_attr ca")
    case True
    then show ?thesis
      using acts_set_far16[OF ram cell_at_lt[OF cp], of "push_bit 8 (ucast (ca_attr ca)) OR ucast (ca_car ca)", unfolded attr_word]
      by (simp add: s' run write_text_char_def a acts_def)
  next
    case False
    then show ?thesis using acts_set_far[OF ram, of ?a "ca_car ca"] cell_at_lt[OF cp]
      by (simp add: s' run write_text_char_def a acts_def fun_eq_iff)
  qed
  then show "vbda s' = vbda s" by simp
  have "snd (screen mem vm s (unat (cp_page cp)) (unat (cp_x cp)) (unat (cp_y cp))) = ?t (?a + 1)"
    using cp by (simp add: screen_def on_screen_def tcell_def)
  then show "screen mem vm s' = (screen mem vm s)(unat (cp_page cp) := put_cell (unat (cp_x cp)) (unat (cp_y cp))
       (written ca (screen mem vm s (unat (cp_page cp)) (unat (cp_x cp)) (unat (cp_y cp)))) (screen mem vm s (unat (cp_page cp))))"
    using screen_write[OF cp, of s'] act by (simp add: written_def)
qed

lemma vgafb_read_char_screen:
  assumes ram: "text_ram b mem (sstart vm)" and scr: "text_screen (vbda s) vm" and cp: "on_screen (vbda s) cp"
  shows "run_state (vgafb_read_char b cp) s =
    (let c = screen mem vm s (unat (cp_page cp)) (unat (cp_x cp)) (unat (cp_y cp)) in (\<lparr>ca_car = fst c, ca_attr = snd c, ca_use_attr = False\<rparr>, s))"
proof -
  let ?d = "vbda s" and ?a = "cell_at (vbda s) cp" and ?t = "tview mem (sstart vm) s"
  have "tcols ?d < 256" using scr by (simp add: text_screen_def)
  note a = text_address_cell[OF this, of cp]
  have m: "memmodel vm AND TEXT \<noteq> 0" using scr by (auto simp: text_screen_def CTEXT_def MTEXT_def TEXT_def)
  have lt: "?a < TEXT_SIZE" "?a + 1 < TEXT_SIZE" using cell_at_lt[OF cp] by simp_all
  have "run_state (get_far16 b (sstart vm) (of_nat ?a)) s = (push_bit 8 (ucast (?t (?a + 1))) OR ucast (?t ?a), s)"
    unfolding get_far16_def of_nat_Suc16 using get_far_text[OF ram lt(1)] get_far_text[OF ram lt(2)]
    by (simp add: or.commute)
  then show ?thesis using scr m cp
    by (simp add: vgafb_read_char_def text_screen_def a attr_word(1) attr_word(2)[simplified] screen_def on_screen_def tcell_def)
qed

section \<open>Teletype output\<close>

text \<open>
  The specification, a terminal with a cursor: the bell does nothing, the backspace stops at the left
  margin, a tabulator writes spaces up to the next multiple of 8, and any other character is written.
  The cursor moves to the next line after the last column, and the screen scrolls at the last line.
\<close>

type_synonym terminal = "(nat \<Rightarrow> nat \<Rightarrow> cell) \<times> nat \<times> nat"

definition tab_to :: "nat \<Rightarrow> nat \<Rightarrow> nat" where
  "tab_to cols x = min cols ((x div 8 + 1) * 8)"

definition fill_cells :: "nat \<Rightarrow> nat \<Rightarrow> nat \<Rightarrow> carattr \<Rightarrow> (nat \<Rightarrow> nat \<Rightarrow> cell) \<Rightarrow> nat \<Rightarrow> nat \<Rightarrow> cell" where
  "fill_cells x x' y ca g i j = (if j = y \<and> x \<le> i \<and> i < x' then written ca (g i j) else g i j)"

definition term_char :: "nat \<Rightarrow> carattr \<Rightarrow> terminal \<Rightarrow> terminal" where
  "term_char cols ca = (\<lambda>(g, x, y).
     if ca_car ca = 7 then (g, x, y)
     else if ca_car ca = 8 then (g, x - 1, y)
     else if ca_car ca = 13 then (g, 0, y)
     else if ca_car ca = 10 then (g, x, y + 1)
     else if ca_car ca = 9 then (fill_cells x (tab_to cols x) y (ca\<lparr>ca_car := 0x20\<rparr>) g, tab_to cols x, y)
     else (put_cell x y (written ca (g x y)) g, x + 1, y))"

definition term_wrap :: "nat \<Rightarrow> terminal \<Rightarrow> terminal" where
  "term_wrap cols = (\<lambda>(g, x, y). if x = cols then (g, 0, y + 1) else (g, x, y))"

definition term_scroll :: "nat \<Rightarrow> nat \<Rightarrow> terminal \<Rightarrow> terminal" where
  "term_scroll cols rows = (\<lambda>(g, x, y). if y < rows then (g, x, y) else (scroll_up 1 (0x20, 0x07) (0, 0) (cols - 1, rows - 1) g, x, y - 1))"

definition teletype :: "nat \<Rightarrow> nat \<Rightarrow> carattr \<Rightarrow> terminal \<Rightarrow> terminal" where
  "teletype cols rows ca t = term_scroll cols rows (term_wrap cols (term_char cols ca t))"

text \<open>The terminal that a page and a position are, and the actions that transform it.\<close>

definition term_of :: "('h \<Rightarrow> memory) \<Rightarrow> vgamode_s \<Rightarrow> 'h vga \<Rightarrow> cursorpos \<Rightarrow> terminal" where
  "term_of mem vm s cp = (screen mem vm s (unat (cp_page cp)), unat (cp_x cp), unat (cp_y cp))"

definition term_step :: "('h \<Rightarrow> memory) \<Rightarrow> vgamode_s \<Rightarrow> 'h vga \<Rightarrow> cursorpos \<Rightarrow> cursorpos \<times> 'h vga \<Rightarrow> terminal \<Rightarrow> bool" where
  "term_step mem vm s cp r t \<longleftrightarrow> vbda (snd r) = vbda s \<and> cp_page (fst r) = cp_page cp \<and> term_of mem vm (snd r) (fst r) = t
     \<and> (\<forall>q. q \<noteq> unat (cp_page cp) \<longrightarrow> screen mem vm (snd r) q = screen mem vm s q)"

lemma succ_byte: "unat x < 255 \<Longrightarrow> unat (x + 1) = unat (x :: u8) + 1"
  by (subst unat_add_nowrap) simp_all

text \<open>Writing a character several times along a line.\<close>

lemma write_chars_loop_screen:
  assumes ram: "text_ram b mem (sstart vm)"
  shows "text_screen (vbda s) vm \<Longrightarrow> on_screen (vbda s) cp \<Longrightarrow> unat (cp_x cp) + n \<le> tcols (vbda s) \<Longrightarrow>
    (let s' = snd (run_state (write_chars_loop b rom ca n cp) s) in vbda s' = vbda s \<and>
       screen mem vm s' = (screen mem vm s)(unat (cp_page cp) :=
         fill_cells (unat (cp_x cp)) (unat (cp_x cp) + n) (unat (cp_y cp)) ca (screen mem vm s (unat (cp_page cp)))))"
proof (induction n arbitrary: s cp)
  case 0
  have "fill_cells x x y ca g = g" for x y g by (auto simp: fill_cells_def fun_eq_iff)
  then show ?case by simp
next
  case (Suc n)
  let ?cp = "cp\<lparr>cp_x := cp_x cp + 1\<rparr>" and ?x = "unat (cp_x cp)" and ?y = "unat (cp_y cp)" and ?p = "unat (cp_page cp)"
  obtain s1 where s1: "s1 = snd (run_state (vgafb_write_char b rom cp ca) s)" by simp
  note w = vgafb_write_char_screen[OF ram Suc.prems(1,2) s1]
  have run: "snd (run_state (write_chars_loop b rom ca (Suc n) cp) s) = snd (run_state (write_chars_loop b rom ca n ?cp) s1)"
    by (simp add: s1 split_beta)
  show ?case
  proof (cases n)
    case 0
    have "fill_cells ?x (?x + 1) ?y ca g = put_cell ?x ?y (written ca (g ?x ?y)) g" for g
      by (auto simp: fill_cells_def put_cell_def fun_eq_iff)
    then show ?thesis unfolding run using w 0 by (simp add: fun_upd_def)
  next
    case (Suc k)
    have "?x < 255" using Suc.prems Suc \<open>text_screen (vbda s) vm\<close> by (simp add: text_screen_def)
    then have x1: "unat (cp_x cp + 1) = ?x + 1" by (rule succ_byte)
    have f: "fill_cells (?x + 1) (?x + 1 + n) ?y ca (put_cell ?x ?y (written ca (g ?x ?y)) g) = fill_cells ?x (?x + Suc n) ?y ca g" for g
      by (auto simp: fill_cells_def put_cell_def fun_eq_iff)
    show ?thesis unfolding run using Suc.IH[of s1 ?cp] Suc.prems Suc w f[of "screen mem vm s ?p"]
      by (simp add: x1 on_screen_def Let_def fun_upd_def cong: if_cong)
  qed
qed

text \<open>The position of the cursor of a page.\<close>

definition page_pos :: "vga_bda \<Rightarrow> u8 \<Rightarrow> cursorpos" where
  "page_pos d p = \<lparr>cp_x = ucast (cursor_pos d ! unat p), cp_y = ucast (drop_bit 8 (cursor_pos d ! unat p)), cp_page = p\<rparr>"

lemma get_page_pos: "p \<le> 7 \<Longrightarrow> run_state (get_cursor_pos p) s = (page_pos (vbda s) p, s)"
proof -
  assume p: "p \<le> 7"
  then have "p \<noteq> 0xff" by (auto simp: word_le_nat_alt)
  then show ?thesis using p by (simp add: get_cursor_pos_def page_pos_def Let_def not_less[symmetric])
qed

text \<open>
  C27. What functions 09h and 0Ah of interrupt 10h write, function 08h reads back: in a text mode, after a
  character is written at the cursor of a page (once, or several times along the line), reading the
  character at the cursor gives that character in AL; the attribute in AH is the one that was written
  by function 09h, and the one that the cell had before function 0Ah. Reading changes nothing else.
\<close>

theorem write_char_read_back:
  assumes ram: "text_ram b mem (sstart vm)" and scr: "text_screen (vbda s) vm" and p: "r_bh r \<le> 7"
    and on: "on_screen (vbda s) (page_pos (vbda s) (r_bh r))"
    and n: "0 < r_cx r" "unat (cp_x (page_pos (vbda s) (r_bh r))) + unat (r_cx r) \<le> tcols (vbda s)"
    and s9: "run_state (handle_1009 b rom r) s = (r9, s9)" and sa: "run_state (handle_100a b rom r) s = (ra, sa)"
    and old: "run_state (handle_1008 b r) s = (r0, s0)"
  shows "run_state (handle_1008 b r) s9 = (set_ah (r_bl r) (set_al (r_al r) r), s9)
    \<and> run_state (handle_1008 b r) sa = (set_ah (r_ah r0) (set_al (r_al r) r), sa)"
proof -
  let ?cp = "page_pos (vbda s) (r_bh r)" and ?n = "unat (r_cx r)"
  let ?x = "unat (cp_x ?cp)" and ?y = "unat (cp_y ?cp)" and ?p = "unat (cp_page ?cp)"
  have "run_state (handle_1009 b rom r) s = (r, snd (run_state (write_chars_loop b rom \<lparr>ca_car = r_al r, ca_attr = r_bl r, ca_use_attr = True\<rparr> ?n ?cp) s))"
    "run_state (handle_100a b rom r) s = (r, snd (run_state (write_chars_loop b rom \<lparr>ca_car = r_al r, ca_attr = r_bl r, ca_use_attr = False\<rparr> ?n ?cp) s))"
    by (simp_all add: handle_1009_def handle_100a_def keep_regs_def write_chars_def split_beta get_page_pos[OF p])
  then have loop: "s9 = snd (run_state (write_chars_loop b rom \<lparr>ca_car = r_al r, ca_attr = r_bl r, ca_use_attr = True\<rparr> ?n ?cp) s)"
    "sa = snd (run_state (write_chars_loop b rom \<lparr>ca_car = r_al r, ca_attr = r_bl r, ca_use_attr = False\<rparr> ?n ?cp) s)"
    using s9 sa by simp_all
  have n0: "0 < ?n" using n(1) by (simp add: word_less_nat_alt)
  note L = write_chars_loop_screen[OF ram scr on n(2), of rom]
  have w: "vbda s9 = vbda s" "vbda sa = vbda s" "screen mem vm s9 ?p ?x ?y = (r_al r, r_bl r)"
    "screen mem vm sa ?p ?x ?y = (r_al r, snd (screen mem vm s ?p ?x ?y))"
    using L[of "\<lparr>ca_car = r_al r, ca_attr = r_bl r, ca_use_attr = True\<rparr>"] L[of "\<lparr>ca_car = r_al r, ca_attr = r_bl r, ca_use_attr = False\<rparr>"] n0
    unfolding loop by (simp_all add: Let_def fill_cells_def written_def)
  have rd: "run_state (handle_1008 b r) t = (let c = screen mem vm t ?p ?x ?y in (set_ah (snd c) (set_al (fst c) r), t))"
    if t: "vbda t = vbda s" for t
    using get_page_pos[OF p, where s = t] vgafb_read_char_screen[OF ram, of t ?cp] scr on
    by (simp add: handle_1008_def t Let_def)
  have "r_ah r0 = snd (screen mem vm s ?p ?x ?y)" using old unfolding rd[OF refl] by (auto simp: Let_def r_ah_def set_ah_def)
  then show ?thesis using rd[OF w(1)] rd[OF w(2)] w(3,4) by (simp add: Let_def)
qed

lemma tab_to_stop:
  assumes "x < cols" "\<not> (x + 1 < cols \<and> (x + 1) mod 8 \<noteq> 0)"
  shows "tab_to cols x = x + 1"
proof -
  have "x + 1 \<le> (x div 8 + 1) * 8" by presburger
  moreover have "(x + 1) mod 8 = 0 \<Longrightarrow> (x div 8 + 1) * 8 = x + 1" by presburger
  ultimately show ?thesis using assms by (auto simp: tab_to_def min_def)
qed

lemma tab_loop_step:
  assumes ram: "text_ram b mem (sstart vm)" and scr: "text_screen (vbda s) vm" and cp: "on_screen (vbda s) cp"
    and nb: "nbcols = video_cols (vbda s)"
  shows "term_step mem vm s cp (run_state (tab_loop b rom nbcols ca cp) s)
     (fill_cells (unat (cp_x cp)) (tab_to (tcols (vbda s)) (unat (cp_x cp))) (unat (cp_y cp)) (ca\<lparr>ca_car := 0x20\<rparr>)
        (screen mem vm s (unat (cp_page cp))), tab_to (tcols (vbda s)) (unat (cp_x cp)), unat (cp_y cp))"
  using ram scr cp nb
proof (induction b rom nbcols ca cp arbitrary: s rule: tab_loop.induct)
  case (1 b rom nbcols ca cp)
  let ?d = "vbda s" and ?cp = "cp\<lparr>cp_x := cp_x cp + 1\<rparr>" and ?ca = "ca\<lparr>ca_car := 0x20\<rparr>"
  let ?x = "unat (cp_x cp)" and ?y = "unat (cp_y cp)" and ?p = "unat (cp_page cp)"
  let ?more = "ucast (cp_x ?cp) < nbcols \<and> cp_x ?cp mod 8 \<noteq> 0"
  obtain s1 where s1: "s1 = snd (run_state (vgafb_write_char b rom cp ?ca) s)" by simp
  note w = vgafb_write_char_screen[OF "1.prems"(1-3) s1]
  have x: "?x < tcols ?d" "tcols ?d < 256" using "1.prems"(2,3) by (simp_all add: on_screen_def text_screen_def)
  then have x1: "unat (cp_x cp + 1) = ?x + 1" by (intro succ_byte) simp
  have more: "?more \<longleftrightarrow> ?x + 1 < tcols ?d \<and> (?x + 1) mod 8 \<noteq> 0"
    using x x1 "1.prems"(4) by (simp add: word_less_nat_alt unat_ucast_mod tcols_def word_eq_iff_unat unat_mod)
  have run: "run_state (tab_loop b rom nbcols ca cp) s = (if ?more then run_state (tab_loop b rom nbcols ca ?cp) s1 else (?cp, s1))"
    by (subst tab_loop.simps) (simp add: s1 Let_def split_beta)
  have one: "fill_cells ?x (?x + 1) ?y ?ca (screen mem vm s ?p) = screen mem vm s1 ?p"
    unfolding w by (auto simp: fill_cells_def put_cell_def fun_eq_iff)
  show ?case
  proof (cases ?more)
    case True
    have "(?x + 1) div 8 = ?x div 8" using True more by (simp add: div_Suc mod_Suc split: if_splits)
    then have t: "tab_to (tcols ?d) (?x + 1) = tab_to (tcols ?d) ?x" by (simp add: tab_to_def)
    have "?x + 1 \<le> tab_to (tcols ?d) ?x" using x by (simp add: tab_to_def) 
    then have f: "fill_cells (?x + 1) (tab_to (tcols ?d) ?x) ?y ?ca (screen mem vm s1 ?p) = fill_cells ?x (tab_to (tcols ?d) ?x) ?y ?ca (screen mem vm s ?p)"
      unfolding one[symmetric] by (auto simp: fill_cells_def fun_eq_iff)
    have "term_step mem vm s1 ?cp (run_state (tab_loop b rom nbcols ca ?cp) s1)
      (fill_cells (?x + 1) (tab_to (tcols ?d) (?x + 1)) ?y ?ca (screen mem vm s1 ?p), tab_to (tcols ?d) (?x + 1), ?y)"
      using "1.IH"[OF refl True "1.prems"(1), of s1] "1.prems"(2-4) True more by (simp add: w x1 on_screen_def)
    then show ?thesis unfolding run if_P[OF True] t f using w by (simp add: term_step_def)
  next
    case False
    then have "tab_to (tcols ?d) ?x = ?x + 1" unfolding more by (rule tab_to_stop[OF x(1)])
    then show ?thesis unfolding run if_not_P[OF False] using w one by (simp add: term_step_def term_of_def x1)
  qed
qed

lemma tab_to_le: "x < cols \<Longrightarrow> tab_to cols x \<le> cols" by (simp add: tab_to_def)

lemma put_char_step:
  assumes ram: "text_ram b mem (sstart vm)" and scr: "text_screen (vbda s) vm" and cp: "on_screen (vbda s) cp"
  shows "term_step mem vm s cp (run_state (put_char b rom (video_cols (vbda s)) ca cp) s) (term_char (tcols (vbda s)) ca (term_of mem vm s cp))"
proof -
  have x: "unat (cp_x cp) < tcols (vbda s)" "tcols (vbda s) < 256" "unat (cp_y cp) < trows (vbda s)" "trows (vbda s) < 256"
    using scr cp by (simp_all add: on_screen_def text_screen_def)
  then have "unat (cp_x cp) < 255" "unat (cp_y cp) < 255" by linarith+
  note s = this[THEN succ_byte]
  have p: "cp_x cp > 0 \<Longrightarrow> unat (cp_x cp - 1) = unat (cp_x cp) - 1" by (simp add: unat_sub word_le_nat_alt word_less_nat_alt)
  have z: "\<not> cp_x cp > 0 \<Longrightarrow> unat (cp_x cp) = 0" by (simp add: word_less_nat_alt)
  consider "ca_car ca \<in> {7, 8, 13, 10}" | "ca_car ca = 9" | "ca_car ca \<notin> {7, 8, 13, 10, 9}" by blast
  then show ?thesis
  proof cases
    case 1
    then show ?thesis by (auto simp: put_char_def term_step_def term_char_def term_of_def s p z)
  next
    case 2
    then show ?thesis using tab_loop_step[OF ram scr cp refl, of rom ca] by (simp add: put_char_def term_char_def term_of_def)
  next
    case 3
    then have "run_state (put_char b rom (video_cols (vbda s)) ca cp) s = (cp\<lparr>cp_x := cp_x cp + 1\<rparr>, snd (run_state (vgafb_write_char b rom cp ca) s))"
      by (simp add: put_char_def split_beta)
    then show ?thesis using 3 vgafb_write_char_screen[OF ram scr cp refl, of rom ca]
      by (simp add: term_step_def term_char_def term_of_def s)
  qed
qed

text \<open>The cursor of the terminal stays on its screen.\<close>

lemma teletype_cursor:
  assumes "x < cols" "y < rows" "teletype cols rows ca (g, x, y) = (g', x', y')"
  shows "x' < cols \<and> y' < rows"
proof -
  obtain g1 x1 y1 where 1: "term_char cols ca (g, x, y) = (g1, x1, y1)" by (cases "term_char cols ca (g, x, y)")
  have "x1 \<le> cols" "y1 \<le> rows" "x1 = cols \<Longrightarrow> y1 < rows"
    using assms(1,2) 1 tab_to_le[OF assms(1)] by (auto simp: term_char_def split: if_splits)
  then show ?thesis using assms 1 by (auto simp: teletype_def term_wrap_def term_scroll_def split: if_splits)
qed

lemma scroll_one_step:
  assumes ram: "text_ram b mem (sstart vm)" and scr: "text_screen (vbda s) vm" and p: "page_fits (vbda s) page"
    and s': "s' = snd (run_state (scroll_one b (ucast (video_rows (vbda s)) + 1) (video_cols (vbda s)) page) s)"
  shows "vbda s' = vbda s"
    and "screen mem vm s' = (screen mem vm s)(unat page :=
       scroll_up 1 (0x20, 0x07) (0, 0) (tcols (vbda s) - 1, trows (vbda s) - 1) (screen mem vm s (unat page)))"
proof -
  let ?d = "vbda s" and ?ul = "\<lparr>cp_x = 0, cp_y = 0, cp_page = page\<rparr>"
  let ?lr = "\<lparr>cp_x = ucast (video_cols (vbda s) - 1), cp_y = ucast ((ucast (video_rows (vbda s)) + 1 :: u16) - 1), cp_page = page\<rparr>"
  have t: "0 < tcols ?d" "tcols ?d < 256" using scr by (simp_all add: text_screen_def)
  have x: "unat (ucast (video_cols ?d - 1) :: u8) = tcols ?d - 1"
    using t unfolding unat_ucast_mod by (subst unat_sub) (simp_all add: word_le_nat_alt tcols_def)
  have y: "unat (ucast (ucast (video_rows ?d) :: u16) :: u8) = trows ?d - 1"
    using unat_lt_2p[of "video_rows ?d"] by (simp add: unat_ucast_mod trows_def)
  have h: "win_rows ?ul ?lr = int (trows ?d)" unfolding win_rows_def uint_nat by (simp add: y trows_def)
  have s1: "s' = snd (run_state (vgafb_scroll b 1 (- 1) ?ul ?lr) s)" by (simp add: s' scroll_one_def)
  have n: "(1 :: int) \<noteq> 0" "\<bar>1 :: int\<bar> \<le> win_rows ?ul ?lr" unfolding h by (simp_all add: trows_def)
  have w: "unat (cp_x ?lr) < tcols ?d" "unat (cp_y ?lr) < trows ?d" using t by (simp_all add: x y trows_def)
  note V = vgafb_scroll_screen[OF ram scr _ _ _ w n s1]
  show "vbda s' = vbda s" using V(1) p by simp
  show "screen mem vm s' = (screen mem vm s)(unat page :=
       scroll_up 1 (0x20, 0x07) (0, 0) (tcols (vbda s) - 1, trows (vbda s) - 1) (screen mem vm s (unat page)))"
    using V(2) p by (simp add: scrolled_def x y)
qed

lemma write_teletype_step:
  assumes ram: "text_ram b mem (sstart vm)" and scr: "text_screen (vbda s) vm" and cp: "on_screen (vbda s) cp"
  shows "term_step mem vm s cp (run_state (write_teletype b rom ca cp) s) (teletype (tcols (vbda s)) (trows (vbda s)) ca (term_of mem vm s cp))"
proof -
  let ?d = "vbda s"
  obtain cp1 s1 where r1: "run_state (put_char b rom (video_cols ?d) ca cp) s = (cp1, s1)" by fastforce
  obtain g x y where t1: "term_char (tcols ?d) ca (term_of mem vm s cp) = (g, x, y)" by (cases "term_char (tcols ?d) ca (term_of mem vm s cp)")
  have P: "vbda s1 = ?d" "cp_page cp1 = cp_page cp" "screen mem vm s1 (unat (cp_page cp)) = g" "unat (cp_x cp1) = x" "unat (cp_y cp1) = y"
      "\<forall>q. q \<noteq> unat (cp_page cp) \<longrightarrow> screen mem vm s1 q = screen mem vm s q"
    using put_char_step[OF ram scr cp, of rom ca] unfolding r1 t1 by (auto simp: term_step_def term_of_def)
  let ?cp2 = "if ucast (cp_x cp1) = video_cols ?d then cp1\<lparr>cp_x := 0, cp_y := cp_y cp1 + 1\<rparr> else cp1"
  have x0: "unat (cp_x cp) < tcols ?d" "unat (cp_y cp) < trows ?d" "tcols ?d < 256" "trows ?d < 256"
    using scr cp by (simp_all add: on_screen_def text_screen_def)
  have b: "x \<le> tcols ?d" "y \<le> trows ?d" "x = tcols ?d \<Longrightarrow> y < trows ?d"
    using t1 x0 tab_to_le[OF x0(1)] by (auto simp: term_char_def term_of_def split: if_splits)
  have e: "ucast (cp_x cp1) = video_cols ?d \<longleftrightarrow> x = tcols ?d"
    using P(4) unat_lt_2p[of "cp_x cp1"] by (auto simp: word_eq_iff_unat unat_ucast_mod tcols_def)
  have sy: "x = tcols ?d \<Longrightarrow> unat (cp_y cp1 + 1) = y + 1" using b x0 P(5) by (intro succ_byte[of "cp_y cp1", unfolded P(5)]) linarith
  obtain y2 x2 where t2: "term_wrap (tcols ?d) (g, x, y) = (g, x2, y2)" by (cases "x = tcols ?d") (auto simp: term_wrap_def)
  have c2: "unat (cp_x ?cp2) = x2" "unat (cp_y ?cp2) = y2" "cp_page ?cp2 = cp_page cp" "y2 \<le> trows ?d"
    using t2 P b sy unfolding e by (auto simp: term_wrap_def split: if_splits)
  have r: "unat (ucast (video_rows ?d) + 1 :: u16) = trows ?d"
    using unat_lt_2p[of "video_rows ?d"] by (subst unat_add_nowrap) (simp_all add: unat_ucast_mod trows_def)
  have u: "unat (ucast z :: u16) = unat z" for z :: u8 using unat_lt_2p[of z] by (simp add: unat_ucast_mod)
  have fit: "ucast (cp_y ?cp2) < (ucast (video_rows ?d) + 1 :: u16) \<longleftrightarrow> y2 < trows ?d"
    unfolding word_less_nat_alt r u c2 ..
  let ?s3 = "snd (run_state (scroll_one b (ucast (video_rows ?d) + 1) (video_cols ?d) (cp_page cp)) s1)"
  have run: "run_state (write_teletype b rom ca cp) s =
      (if y2 < trows ?d then (?cp2, s1) else (?cp2\<lparr>cp_y := cp_y ?cp2 - 1\<rparr>, ?s3))"
    unfolding write_teletype_def Let_def run_state_bind run_BDA split_beta fst_conv snd_conv r1 fit c2(3) by (simp add: split_beta)
  have tt: "teletype (tcols ?d) (trows ?d) ca (term_of mem vm s cp) = term_scroll (tcols ?d) (trows ?d) (g, x2, y2)"
    by (simp add: teletype_def t1 t2)
  show ?thesis
  proof (cases "y2 < trows ?d")
    case True
    then show ?thesis unfolding run tt if_P[OF True] using P c2 by (simp only: term_step_def term_of_def term_scroll_def) simp
  next
    case False
    have "scr1": "text_screen (vbda s1) vm" "page_fits (vbda s1) (cp_page cp)" using scr cp P(1) by (simp_all add: on_screen_def)
    note S = scroll_one_step[OF ram scr1 refl, unfolded P(1,3)]
    have "1 \<le> cp_y ?cp2" using c2 False by (simp add: word_le_nat_alt trows_def)
    then have "unat (cp_y ?cp2 - 1) = y2 - 1" using c2(2) by (simp add: unat_sub)
    then show ?thesis unfolding run tt if_not_P[OF False] using P c2 S False
      by (simp only: term_step_def term_of_def term_scroll_def) simp
  qed
qed

text \<open>
  The terminal of the page that is shown, with the cursor position that the BIOS variables hold; and
  when there is one.
\<close>

definition cursor_word :: "u8 \<Rightarrow> u8 \<Rightarrow> u16" where
  "cursor_word x y = push_bit 8 (ucast y) OR ucast x"

definition tty_pos :: "vga_bda \<Rightarrow> cursorpos" where
  "tty_pos d = page_pos d (video_page d)"

definition tty :: "('h \<Rightarrow> memory) \<Rightarrow> vgamode_s \<Rightarrow> 'h vga \<Rightarrow> terminal" where
  "tty mem vm s = term_of mem vm s (tty_pos (vbda s))"

definition tty_ok :: "vga_bda \<Rightarrow> vgamode_s \<Rightarrow> bool" where
  "tty_ok d vm \<longleftrightarrow> text_screen d vm \<and> video_page d \<le> 7 \<and> length (cursor_pos d) = 8 \<and> on_screen d (tty_pos d)"

lemma voutb_text:
  assumes "text_ram b mem seg"
  shows "acts mem seg (voutb b v p) (\<lambda>_. ()) (\<lambda>t. t)"
  using assms by (auto simp: acts_def voutb_def text_ram_def tview_def)

lemma crtc_pair_text:
  assumes "text_ram b mem seg"
  shows "vbda (snd (run_state (crtc_pair b i v j w) s)) = vbda s"
    and "tview mem seg (snd (run_state (crtc_pair b i v j w) s)) = tview mem seg s"
  using voutb_text[OF assms] unfolding crtc_pair_def get_crtc_def by (simp_all add: acts_def split_beta)

lemma cursor_frame [simp]:
  "text_screen (d\<lparr>cursor_pos := l\<rparr>) vm = text_screen d vm" "on_screen (d\<lparr>cursor_pos := l\<rparr>) cp = on_screen d cp"
  by (simp_all add: text_screen_def on_screen_def page_fits_def tcols_def trows_def)

lemma screen_cursor: "screen mem vm (s\<lparr>vbda := (vbda s)\<lparr>cursor_pos := l\<rparr>\<rparr>) = screen mem vm s"
  by (simp add: screen_def tcols_def trows_def fun_eq_iff)

lemma screen_cong: "vbda s' = vbda s \<Longrightarrow> tview mem (sstart vm) s' = tview mem (sstart vm) s \<Longrightarrow> screen mem vm s' = screen mem vm s"
  by (intro grid_eqI) (simp add: screen_def)

lemma set_cursor_pos_screen:
  assumes ram: "text_ram b mem (sstart vm)" and p: "cp_page cp \<le> 7" and s': "s' = snd (run_state (set_cursor_pos b cp) s)"
  shows "vbda s' = (vbda s)\<lparr>cursor_pos := (cursor_pos (vbda s))[unat (cp_page cp) := cursor_word (cp_x cp) (cp_y cp)]\<rparr>"
    and "screen mem vm s' = screen mem vm s"
proof -
  let ?s1 = "s\<lparr>vbda := (vbda s)\<lparr>cursor_pos := (cursor_pos (vbda s))[unat (cp_page cp) := cursor_word (cp_x cp) (cp_y cp)]\<rparr>\<rparr>"
  have np: "\<not> cp_page cp > 7" using p by simp
  have "vbda s' = vbda ?s1 \<and> tview mem (sstart vm) s' = tview mem (sstart vm) ?s1"
    unfolding s' set_cursor_pos_def if_not_P[OF np] vgahw_set_cursor_pos_def
    using crtc_pair_text[OF ram] by (simp add: cursor_word_def split_beta)
  then show "vbda s' = (vbda s)\<lparr>cursor_pos := (cursor_pos (vbda s))[unat (cp_page cp) := cursor_word (cp_x cp) (cp_y cp)]\<rparr>"
    "screen mem vm s' = screen mem vm s" using screen_cong[of s' ?s1 mem vm] screen_cursor[where s = s and mem = mem and vm = vm] by simp_all
qed

text \<open>
  C29. Interrupt 10h, function 0Eh, is the terminal: in a text mode whose page is within the text buffer
  and whose cursor is on the screen, writing a character to the page that is shown does to the cells and
  to the cursor what the terminal of the specification does. The registers, the cells of the other pages
  and the other BIOS variables stay as they were, and the cursor is on the screen again, so that the
  next character can follow.
\<close>

theorem teletype_is_terminal:
  assumes ram: "text_ram b mem (sstart vm)" and ok: "tty_ok (vbda s) vm"
    and run: "run_state (handle_100e b rom r) s = (r', s')"
  shows "tty mem vm s' = teletype (tcols (vbda s)) (trows (vbda s)) \<lparr>ca_car = r_al r, ca_attr = r_bl r, ca_use_attr = False\<rparr> (tty mem vm s)
    \<and> tty_ok (vbda s') vm \<and> r' = r
    \<and> (\<forall>q. q \<noteq> unat (video_page (vbda s)) \<longrightarrow> screen mem vm s' q = screen mem vm s q)
    \<and> vbda s' = (vbda s)\<lparr>cursor_pos := cursor_pos (vbda s')\<rparr>"
proof -
  let ?d = "vbda s" and ?cp = "tty_pos (vbda s)" and ?ca = "\<lparr>ca_car = r_al r, ca_attr = r_bl r, ca_use_attr = False\<rparr>"
  have scr: "text_screen ?d vm" and cp: "on_screen ?d ?cp" and p: "video_page ?d \<le> 7" "length (cursor_pos ?d) = 8"
    using ok by (simp_all add: tty_ok_def)
  have "video_page ?d \<noteq> 0xff" using p(1) by (auto simp: word_le_nat_alt)
  then have get: "run_state (get_cursor_pos 0xff) s = (?cp, s)"
    using p by (simp add: get_cursor_pos_def tty_pos_def page_pos_def Let_def not_less[symmetric])
  obtain cp1 s1 where r1: "run_state (write_teletype b rom ?ca ?cp) s = (cp1, s1)" by fastforce
  have W: "vbda s1 = ?d" "cp_page cp1 = video_page ?d" "term_of mem vm s1 cp1 = teletype (tcols ?d) (trows ?d) ?ca (tty mem vm s)"
    "\<forall>q. q \<noteq> unat (video_page ?d) \<longrightarrow> screen mem vm s1 q = screen mem vm s q"
    using write_teletype_step[OF ram scr cp, of rom ?ca] unfolding r1 by (simp_all add: term_step_def tty_def tty_pos_def page_pos_def)
  have s': "r' = r" "s' = snd (run_state (set_cursor_pos b cp1) s1)"
    using run by (simp_all add: handle_100e_def get r1 split_beta)
  have "cp_page cp1 \<le> 7" using p W(2) by simp
  note C = set_cursor_pos_screen[OF ram this s'(2)]
  have "unat (video_page ?d) < 8" using p(1) by (simp add: word_le_nat_alt)
  then have pos: "tty_pos (vbda s') = cp1"
    unfolding C(1) tty_pos_def page_pos_def cursor_word_def using p(2) W(1,2) by (simp add: attr_word(1) attr_word(2)[simplified])
  have "unat (cp_x cp1) < tcols ?d \<and> unat (cp_y cp1) < trows ?d"
    by (rule teletype_cursor[OF _ _ W(3)[unfolded tty_def term_of_def, symmetric]]) (use cp in \<open>simp_all add: on_screen_def\<close>)
  then have on: "on_screen ?d cp1" using cp W(2) by (simp add: on_screen_def tty_pos_def page_pos_def)
  have t: "tty mem vm s' = teletype (tcols ?d) (trows ?d) ?ca (tty mem vm s)"
    using W(3) C(2) pos by (simp add: tty_def term_of_def)
  obtain l where l: "vbda s' = ?d\<lparr>cursor_pos := l\<rparr>" "length l = 8" using C(1) W(1) p(2) by simp
  have "tty_ok (vbda s') vm" using scr on p(1) l(2) unfolding tty_ok_def pos unfolding l(1) by simp
  then show ?thesis using t W(4) C(2) s'(1) l(1) by simp
qed

section \<open>A machine whose bus is memory\<close>

lemma lo_zero: "lo8 0 = 0" "hi8 0 = 0" by (simp_all add: lo8_def hi8_def)

definition ram_bus :: "memory bus" where
  "ram_bus = \<lparr>b_inb = \<lambda>p m. (0, m), b_outb = \<lambda>v p m. m, b_inw = \<lambda>p m. (0, m), b_outw = \<lambda>v p m. m,
     b_rd = \<lambda>a m. (m a, m), b_wr = \<lambda>a v m. m(a := v)\<rparr>"

lemma far_addr_inj:
  assumes "i < TEXT_SIZE" "j < TEXT_SIZE" "far_addr seg (of_nat i) = far_addr seg (of_nat j)"
  shows "i = j"
proof -
  have "(ucast (of_nat i :: u16) :: u32) = ucast (of_nat j :: u16)" using assms(3) by (simp add: far_addr_def)
  then have "unat (ucast (of_nat i :: u16) :: u32) = unat (ucast (of_nat j :: u16) :: u32)" by simp
  then show ?thesis using assms(1,2) by (simp add: unat_ucast_mod unat_of_nat TEXT_SIZE_def)
qed

lemma ram_bus_text: "text_ram ram_bus (\<lambda>m. m) seg"
  using far_addr_inj[of _ _ seg] by (auto simp: text_ram_def ram_bus_def)

text \<open>The BIOS variables of the 80 by 25 text mode, and an empty screen.\<close>

definition mode3_bda :: vga_bda where
  "mode3_bda = \<lparr>video_mode = 3, video_cols = 80, video_pagesize = 4096, video_pagestart = 0, cursor_pos = replicate 8 0, cursor_type = 0x0607,
     video_page = 0, crtc_address = 0x3d4, video_msr = 0x29, video_pal = 0x30, video_rows = 24, char_height = 16, video_ctl = 0x60,
     video_switches = 0xf9, modeset_ctl = 0x51, dcc_index = 8, video_savetable = (0, 0), v_equipment = 0x20, ivt_10 = (0, 0),
     ivt_1f = (0, 0), ivt_43 = (0, 0)\<rparr>"

definition mode3 :: vgamode_s where "mode3 = mode_entry 3 vparam_18 CTEXT 4 SEG_CTEXT 2"

lemma mode3_screen: "text_screen mode3_bda mode3"
  by (simp add: text_screen_def mode3_bda_def mode3_def find_vga_entry_def vga_modes_def mode_entry_def tcols_def trows_def)

lemma mode3_page: "page_fits mode3_bda 0"
  by (simp add: page_fits_def psize_def tcols_def trows_def mode3_bda_def TEXT_SIZE_def)

lemma mode3_tty: "tty_ok mode3_bda mode3"
  using mode3_screen mode3_page by (simp add: tty_ok_def on_screen_def tty_pos_def page_pos_def) (simp add: mode3_bda_def tcols_def trows_def)

lemma mode3_pos: "on_screen mode3_bda (page_pos mode3_bda 0)"
  using mode3_page by (simp add: on_screen_def page_pos_def) (simp add: mode3_bda_def tcols_def trows_def)

definition mode3_state :: "memory vga" where
  "mode3_state = \<lparr>vbda = mode3_bda, vhw = (\<lambda>a. ucast a)\<rparr>"

definition some_rom :: vga_rom where
  "some_rom = \<lparr>rom_seg = 0xc000, font8 = 0x1000, font14 = 0x2000, font16 = 0x3000, font14alt = 0, font16alt = 0, rom_palette = (\<lambda>_. 0),
     rom_black = 0, rom_save_table = 0, rom_param_table = 0, rom_static_functionality = 0, rom_entry_10 = 0, rom_header_size = 0,
     rom_header_checksum = 0, stack_seg = 0, stack_rgb = 0\<rparr>"

theorem scroll_functions_scroll_witness:
  "\<exists>s'. run_state (handle_1006 ram_bus (set_dh 24 (set_dl 79 (set_al 1 (set_bh 7 (int_regs 0 0)))))) mode3_state = (set_dh 24 (set_dl 79 (set_al 1 (set_bh 7 (int_regs 0 0)))), s')
     \<and> screen (\<lambda>m. m) mode3 s' 0 5 3 = screen (\<lambda>m. m) mode3 mode3_state 0 5 4
     \<and> screen (\<lambda>m. m) mode3 s' 0 5 24 = (0x20, 0x07)"
proof -
  let ?r = "set_dh 24 (set_dl 79 (set_al 1 (set_bh 7 (int_regs 0 0))))"
  obtain ru su rd sd where run: "run_state (handle_1006 ram_bus ?r) mode3_state = (ru, su)" "run_state (handle_1007 ram_bus ?r) mode3_state = (rd, sd)"
    by (metis surj_pair)
  have bda: "vbda mode3_state = mode3_bda" "video_page mode3_bda = 0" by (simp_all add: mode3_state_def mode3_bda_def)
  have r: "r_al ?r = 1" "r_cl ?r = 0" "r_ch ?r = 0" "r_dl ?r = 79" "r_dh ?r = 24" "r_bh ?r = 7" by (simp_all add: reg_defs int_regs_def lo_zero)
  have d: "tcols mode3_bda = 80" "trows mode3_bda = 25" by (simp_all add: tcols_def trows_def mode3_bda_def)
  have sp: "scroll_spec mode3_bda ?r 1 = scroll_up 1 (0x20, 7) (0, 0) (79, 24)"
    by (simp add: scroll_spec_def scroll_window_def r d win_rows_def Let_def scrolled_def word_le_nat_alt)
  have "screen (\<lambda>m. m) mode3 su 0 = scroll_spec mode3_bda ?r 1 (screen (\<lambda>m. m) mode3 mode3_state 0)" "ru = ?r"
    using scroll_functions_scroll[OF ram_bus_text _ _ run, of mode3] mode3_screen mode3_page by (simp_all add: bda)
  then show ?thesis using run(1) by (simp add: sp scroll_up_def)
qed

theorem write_char_read_back_witness:
  "\<exists>s9. run_state (handle_1009 ram_bus some_rom (set_al 0x41 (set_bl 0x1e (set_cx 3 (int_regs 0 0))))) mode3_state
       = (set_al 0x41 (set_bl 0x1e (set_cx 3 (int_regs 0 0))), s9)
     \<and> run_state (handle_1008 ram_bus (set_al 0x41 (set_bl 0x1e (set_cx 3 (int_regs 0 0))))) s9
       = (set_ah 0x1e (set_al 0x41 (set_al 0x41 (set_bl 0x1e (set_cx 3 (int_regs 0 0))))), s9)"
proof -
  let ?r = "set_al 0x41 (set_bl 0x1e (set_cx 3 (int_regs 0 0)))"
  obtain s9 ra sa r0 s0 where run: "run_state (handle_1009 ram_bus some_rom ?r) mode3_state = (?r, s9)"
      "run_state (handle_100a ram_bus some_rom ?r) mode3_state = (ra, sa)" "run_state (handle_1008 ram_bus ?r) mode3_state = (r0, s0)"
    by (cases "run_state (handle_100a ram_bus some_rom ?r) mode3_state", cases "run_state (handle_1008 ram_bus ?r) mode3_state")
      (auto simp: handle_1009_def keep_regs_def split_beta)
  have bda: "vbda mode3_state = mode3_bda" by (simp add: mode3_state_def)
  have r: "r_al ?r = 0x41" "r_bl ?r = 0x1e" "r_bh ?r = 0" "r_cx ?r = 3" by (simp_all add: reg_defs int_regs_def lo_zero)
  have x: "unat (cp_x (page_pos mode3_bda 0)) = 0" "tcols mode3_bda = 80" by (simp_all add: page_pos_def mode3_bda_def tcols_def)
  show ?thesis using run(1) write_char_read_back[OF ram_bus_text _ _ _ _ _ run, of mode3] mode3_screen mode3_pos
    by (simp add: bda r x)
qed

theorem teletype_is_terminal_witness:
  "\<exists>s'. run_state (handle_100e ram_bus some_rom (set_al 0x41 (int_regs 0 0))) mode3_state = (set_al 0x41 (int_regs 0 0), s')
     \<and> snd (tty (\<lambda>m. m) mode3 s') = (1, 0) \<and> fst (fst (tty (\<lambda>m. m) mode3 s') 0 0) = 0x41 \<and> tty_ok (vbda s') mode3"
proof -
  let ?r = "set_al 0x41 (int_regs 0 0)"
  obtain r' s' where run: "run_state (handle_100e ram_bus some_rom ?r) mode3_state = (r', s')" by fastforce
  have bda: "vbda mode3_state = mode3_bda" by (simp add: mode3_state_def)
  have r: "r_al ?r = 0x41" "r_bl ?r = 0" by (simp_all add: reg_defs int_regs_def lo_zero)
  have d: "tcols mode3_bda = 80" "trows mode3_bda = 25" by (simp_all add: tcols_def trows_def mode3_bda_def)
  obtain g where g: "tty (\<lambda>m. m) mode3 mode3_state = (g, 0, 0)"
    by (simp add: tty_def term_of_def bda tty_pos_def page_pos_def) (simp add: mode3_bda_def)
  show ?thesis using run teletype_is_terminal[OF ram_bus_text _ run, of mode3] mode3_tty
    by (simp add: bda r d g teletype_def term_char_def term_wrap_def term_scroll_def put_cell_def written_def)
qed

end
