(* ===== verification/Ata.thy ===== *)
theory Ata
  imports Cdrom Clock "HOL-Library.Monad_Syntax"
begin

text \<open>
  \<open>bios/seabios/src/ata.c\<close>, \<open>ata.h\<close>: the register protocol of the ATA and ATAPI drives. The ports of the
  machine with what is behind them are a parameter, with the time stamp counter and with what happens
  while the code waits or yields. A wait returns the status byte, or \<open>None\<close> for the -1 of a time-out; a
  loop that never ends is \<open>None\<close> of the outer option. Codes are the integers of the source. The string
  instructions of the flat-pointer macros access consecutive addresses.
\<close>

record 'd ports =
  p_inb :: "u16 \<Rightarrow> 'd \<Rightarrow> u8 \<times> 'd"
  p_outb :: "u8 \<Rightarrow> u16 \<Rightarrow> 'd \<Rightarrow> 'd"
  p_inw :: "u16 \<Rightarrow> 'd \<Rightarrow> u16 \<times> 'd"
  p_outw :: "u16 \<Rightarrow> u16 \<Rightarrow> 'd \<Rightarrow> 'd"
  p_outl :: "u32 \<Rightarrow> u16 \<Rightarrow> 'd \<Rightarrow> 'd"
  p_ndelay :: "u32 \<Rightarrow> 'd \<Rightarrow> 'd"
  p_yield :: "'d \<Rightarrow> 'd"
  p_tsc :: "'d \<Rightarrow> u64"
  p_khz :: u32

section \<open>Data\<close>

record ata_channel_s =
  iobase1 :: u16
  iobase2 :: u16
  iomaster :: u16
  ch_irq :: u8
  chanid :: u8
  pci_bdf :: "nat option"

record atadrive_s =
  ad_drive :: drive_s
  ad_chan :: ata_channel_s
  ad_slave :: bool

definition DISK_RET_EBADTRACK :: u8 where "DISK_RET_EBADTRACK = 0x0c"
definition DISK_RET_ENOTREADY :: u8 where "DISK_RET_ENOTREADY = 0xAA"
definition IDE_TIMEOUT :: u32 where "IDE_TIMEOUT = 32000"
definition ATA_CB_ERR :: u16 where "ATA_CB_ERR = 1"
definition ATA_CB_FR :: u16 where "ATA_CB_FR = 1"
definition ATA_CB_SC :: u16 where "ATA_CB_SC = 2"
definition ATA_CB_SN :: u16 where "ATA_CB_SN = 3"
definition ATA_CB_CL :: u16 where "ATA_CB_CL = 4"
definition ATA_CB_CH :: u16 where "ATA_CB_CH = 5"
definition ATA_CB_DH :: u16 where "ATA_CB_DH = 6"
definition ATA_CB_STAT :: u16 where "ATA_CB_STAT = 7"
definition ATA_CB_CMD :: u16 where "ATA_CB_CMD = 7"
definition ATA_CB_ASTAT :: u16 where "ATA_CB_ASTAT = 2"
definition ATA_CB_DC :: u16 where "ATA_CB_DC = 2"
definition ATA_CB_DH_DEV0 :: u8 where "ATA_CB_DH_DEV0 = 0xa0"
definition ATA_CB_DH_DEV1 :: u8 where "ATA_CB_DH_DEV1 = 0xb0"
definition ATA_CB_DH_LBA :: u8 where "ATA_CB_DH_LBA = 0x40"
definition ATA_CB_STAT_BSY :: u8 where "ATA_CB_STAT_BSY = 0x80"
definition ATA_CB_STAT_RDY :: u8 where "ATA_CB_STAT_RDY = 0x40"
definition ATA_CB_STAT_DF :: u8 where "ATA_CB_STAT_DF = 0x20"
definition ATA_CB_STAT_DRQ :: u8 where "ATA_CB_STAT_DRQ = 0x08"
definition ATA_CB_STAT_ERR :: u8 where "ATA_CB_STAT_ERR = 0x01"
definition ATA_CB_DC_HD15 :: u8 where "ATA_CB_DC_HD15 = 0x08"
definition ATA_CB_DC_SRST :: u8 where "ATA_CB_DC_SRST = 0x04"
definition ATA_CB_DC_NIEN :: u8 where "ATA_CB_DC_NIEN = 0x02"
definition ATA_CMD_READ_SECTORS :: u8 where "ATA_CMD_READ_SECTORS = 0x20"
definition ATA_CMD_READ_SECTORS_EXT :: u8 where "ATA_CMD_READ_SECTORS_EXT = 0x24"
definition ATA_CMD_READ_DMA_EXT :: u8 where "ATA_CMD_READ_DMA_EXT = 0x25"
definition ATA_CMD_WRITE_SECTORS :: u8 where "ATA_CMD_WRITE_SECTORS = 0x30"
definition ATA_CMD_WRITE_SECTORS_EXT :: u8 where "ATA_CMD_WRITE_SECTORS_EXT = 0x34"
definition ATA_CMD_WRITE_DMA_EXT :: u8 where "ATA_CMD_WRITE_DMA_EXT = 0x35"
definition ATA_CMD_PACKET :: u8 where "ATA_CMD_PACKET = 0xA0"
definition ATA_CMD_IDENTIFY_PACKET_DEVICE :: u8 where "ATA_CMD_IDENTIFY_PACKET_DEVICE = 0xA1"
definition ATA_CMD_READ_DMA :: u8 where "ATA_CMD_READ_DMA = 0xC8"
definition ATA_CMD_WRITE_DMA :: u8 where "ATA_CMD_WRITE_DMA = 0xCA"
definition ATA_CMD_IDENTIFY_DEVICE :: u8 where "ATA_CMD_IDENTIFY_DEVICE = 0xEC"

lemmas ata_cb_defs = ATA_CB_ERR_def ATA_CB_FR_def ATA_CB_SC_def ATA_CB_SN_def ATA_CB_CL_def ATA_CB_CH_def ATA_CB_DH_def
  ATA_CB_STAT_def ATA_CB_CMD_def ATA_CB_ASTAT_def ATA_CB_DC_def
lemmas ata_stat_defs = ATA_CB_STAT_BSY_def ATA_CB_STAT_RDY_def ATA_CB_STAT_DF_def ATA_CB_STAT_DRQ_def ATA_CB_STAT_ERR_def
lemmas ata_cmd_defs = ATA_CMD_READ_SECTORS_def ATA_CMD_READ_SECTORS_EXT_def ATA_CMD_READ_DMA_EXT_def ATA_CMD_WRITE_SECTORS_def
  ATA_CMD_WRITE_SECTORS_EXT_def ATA_CMD_WRITE_DMA_EXT_def ATA_CMD_PACKET_def ATA_CMD_IDENTIFY_PACKET_DEVICE_def
  ATA_CMD_READ_DMA_def ATA_CMD_WRITE_DMA_def ATA_CMD_IDENTIFY_DEVICE_def

section \<open>Helper functions\<close>

partial_function (option) await_loop :: "'d ports \<Rightarrow> u8 \<Rightarrow> u8 \<Rightarrow> u16 \<Rightarrow> u64 \<Rightarrow> 'd \<Rightarrow> (u8 option \<times> 'd) option" where
  "await_loop M mk flags base end_time d =
     (let (status, d1) = p_inb M (base + ATA_CB_STAT) d in
      if status AND mk = flags then Some (Some status, d1)
      else if check_time (p_tsc M d1) end_time then Some (None, d1)
      else await_loop M mk flags base end_time (p_yield M d1))"

definition await_ide :: "'d ports \<Rightarrow> u8 \<Rightarrow> u8 \<Rightarrow> u16 \<Rightarrow> u16 \<Rightarrow> 'd \<Rightarrow> (u8 option \<times> 'd) option" where
  "await_ide M mk flags base timeout d =
     await_loop M mk flags base (calc_future_tsc (p_tsc M d) (p_khz M) (ucast timeout)) d"

definition await_not_bsy :: "'d ports \<Rightarrow> u16 \<Rightarrow> 'd \<Rightarrow> (u8 option \<times> 'd) option" where
  "await_not_bsy M base d = await_ide M ATA_CB_STAT_BSY 0 base (ucast IDE_TIMEOUT) d"

definition await_rdy :: "'d ports \<Rightarrow> u16 \<Rightarrow> 'd \<Rightarrow> (u8 option \<times> 'd) option" where
  "await_rdy M base d = await_ide M ATA_CB_STAT_RDY ATA_CB_STAT_RDY base (ucast IDE_TIMEOUT) d"

definition pause_await_not_bsy :: "'d ports \<Rightarrow> u16 \<Rightarrow> u16 \<Rightarrow> 'd \<Rightarrow> (u8 option \<times> 'd) option" where
  "pause_await_not_bsy M base1 base2 d = await_not_bsy M base1 (snd (p_inb M (base2 + ATA_CB_ASTAT) d))"

definition ndelay_await_not_bsy :: "'d ports \<Rightarrow> u16 \<Rightarrow> 'd \<Rightarrow> (u8 option \<times> 'd) option" where
  "ndelay_await_not_bsy M base1 d = await_not_bsy M base1 (p_ndelay M 400 d)"

text \<open>Changing to the second device: \<open>True\<close> if it was selected before the time limit.\<close>

partial_function (option) select_slave :: "'d ports \<Rightarrow> u16 \<Rightarrow> u64 \<Rightarrow> 'd \<Rightarrow> (bool \<times> 'd) option" where
  "select_slave M base1 end_time d = do {
     (status, d1) \<leftarrow> ndelay_await_not_bsy M base1 (p_outb M ATA_CB_DH_DEV1 (base1 + ATA_CB_DH) d);
     if status = None then Some (False, d1)
     else let (dh, d2) = p_inb M (base1 + ATA_CB_DH) d1 in
       if dh = ATA_CB_DH_DEV1 then Some (True, d2)
       else if check_time (p_tsc M d2) end_time then Some (False, d2)
       else select_slave M base1 end_time d2
   }"

definition ata_reset_select :: "'d ports \<Rightarrow> atadrive_s \<Rightarrow> 'd \<Rightarrow> (bool \<times> 'd) option" where
  "ata_reset_select M ad d =
     (let base1 = iobase1 (ad_chan ad) in
      if ad_slave ad then select_slave M base1 (calc_future_tsc (p_tsc M d) (p_khz M) IDE_TIMEOUT) d
      else Some (True, p_outb M ATA_CB_DH_DEV0 (base1 + ATA_CB_DH) d))"

definition ata_reset :: "'d ports \<Rightarrow> atadrive_s \<Rightarrow> 'd \<Rightarrow> 'd option" where
  "ata_reset M ad d =
     (let base1 = iobase1 (ad_chan ad); base2 = iobase2 (ad_chan ad);
          d1 = p_ndelay M 5000 (p_outb M (ATA_CB_DC_HD15 OR ATA_CB_DC_NIEN OR ATA_CB_DC_SRST) (base2 + ATA_CB_DC) d);
          d2 = p_ndelay M 2000000 (p_outb M (ATA_CB_DC_HD15 OR ATA_CB_DC_NIEN) (base2 + ATA_CB_DC) d1);
          finish = (\<lambda>d. Some (p_outb M ATA_CB_DC_HD15 (base2 + ATA_CB_DC) d))
      in do {
        (status, d3) \<leftarrow> await_not_bsy M base1 d2;
        if status = None then finish d3
        else do {
          (selected, d4) \<leftarrow> ata_reset_select M ad d3;
          if \<not> selected \<or> d_type (ad_drive ad) \<noteq> DTYPE_ATA then finish d4
          else do { (status, d5) \<leftarrow> await_rdy M base1 d4; finish d5 }
        }
      })"

definition isready :: "'d ports \<Rightarrow> atadrive_s \<Rightarrow> 'd \<Rightarrow> u8 \<times> 'd" where
  "isready M ad d =
     (let (status, d1) = p_inb M (iobase1 (ad_chan ad) + ATA_CB_STAT) d in
      (if status AND (ATA_CB_STAT_BSY OR ATA_CB_STAT_RDY) = ATA_CB_STAT_RDY then DISK_RET_SUCCESS else DISK_RET_ENOTREADY, d1))"

text \<open>
  Requests to a drive: \<open>ad\<close> is the ATA drive that contains the drive of the request (\<open>container_of\<close>). The
  state has the memory and the machine.
\<close>

type_synonym 'd dstate = "memory \<times> 'd"

definition process_ata_misc_op :: "'d ports \<Rightarrow> atadrive_s \<Rightarrow> disk_op_s \<Rightarrow> 'd dstate \<Rightarrow> ((u8 \<times> disk_op_s) \<times> 'd dstate) option" where
  "process_ata_misc_op M ad op s =
     (let c = op_command op in
      if c = CMD_RESET then do { d \<leftarrow> ata_reset M ad (snd s); Some ((DISK_RET_SUCCESS, op), fst s, d) }
      else if c = CMD_ISREADY then let (r, d) = isready M ad (snd s) in Some ((r, op), fst s, d)
      else if c \<in> {CMD_FORMAT, CMD_VERIFY, CMD_SEEK} then Some ((DISK_RET_SUCCESS, op), s)
      else Some ((DISK_RET_EPARAM, op\<lparr>op_count := 0\<rparr>), s))"

section \<open>Commands\<close>

record ata_pio_command =
  feature :: u8
  sector_count :: u8
  lba_low :: u8
  lba_mid :: u8
  lba_high :: u8
  device :: u8
  command :: u8
  feature2 :: u8
  sector_count2 :: u8
  lba_low2 :: u8
  lba_mid2 :: u8
  lba_high2 :: u8

definition zero_command :: ata_pio_command where
  "zero_command = \<lparr>feature = 0, sector_count = 0, lba_low = 0, lba_mid = 0, lba_high = 0, device = 0, command = 0,
     feature2 = 0, sector_count2 = 0, lba_low2 = 0, lba_mid2 = 0, lba_high2 = 0\<rparr>"

definition write_regs5 :: "'d ports \<Rightarrow> u16 \<Rightarrow> u8 \<Rightarrow> u8 \<Rightarrow> u8 \<Rightarrow> u8 \<Rightarrow> u8 \<Rightarrow> 'd \<Rightarrow> 'd" where
  "write_regs5 M base fr sc sn cl chi d =
     p_outb M chi (base + ATA_CB_CH) (p_outb M cl (base + ATA_CB_CL) (p_outb M sn (base + ATA_CB_SN)
       (p_outb M sc (base + ATA_CB_SC) (p_outb M fr (base + ATA_CB_FR) d))))"

definition send_cmd :: "'d ports \<Rightarrow> atadrive_s \<Rightarrow> ata_pio_command \<Rightarrow> 'd \<Rightarrow> (int \<times> 'd) option" where
  "send_cmd M ad cmd d =
     (let base1 = iobase1 (ad_chan ad) in do {
        (status, d1) \<leftarrow> await_not_bsy M base1 d;
        if status = None then Some (- 1, d1)
        else do {
          let newdh = (device cmd AND NOT ATA_CB_DH_DEV1) OR (if ad_slave ad then ATA_CB_DH_DEV1 else ATA_CB_DH_DEV0);
          let (olddh, d2) = p_inb M (base1 + ATA_CB_DH) d1;
          let d3 = p_outb M newdh (base1 + ATA_CB_DH) d2;
          (status, d4) \<leftarrow> (if (olddh XOR newdh) AND 0x10 \<noteq> 0 then ndelay_await_not_bsy M base1 d3 else Some (Some 0, d3));
          if status = None then Some (- 1, d4)
          else do {
            let d5 = (if command cmd AND NOT 0x11 = ATA_CMD_READ_SECTORS_EXT
                      then write_regs5 M base1 (feature2 cmd) (sector_count2 cmd) (lba_low2 cmd) (lba_mid2 cmd) (lba_high2 cmd) d4 else d4);
            let d6 = write_regs5 M base1 (feature cmd) (sector_count cmd) (lba_low cmd) (lba_mid cmd) (lba_high cmd) d5;
            Some (0, p_outb M (command cmd) (base1 + ATA_CB_CMD) d6)
          }
        }
      })"

text \<open>The error register is read only for the debug output; the read is kept, since a port is read.\<close>

definition ata_wait_data :: "'d ports \<Rightarrow> u16 \<Rightarrow> 'd \<Rightarrow> (int \<times> 'd) option" where
  "ata_wait_data M base1 d = do {
     (status, d1) \<leftarrow> ndelay_await_not_bsy M base1 d;
     case status of None \<Rightarrow> Some (- 1, d1)
     | Some st \<Rightarrow>
         if st AND ATA_CB_STAT_ERR \<noteq> 0 then Some (- 4, snd (p_inb M (base1 + ATA_CB_ERR) d1))
         else if st AND ATA_CB_STAT_DRQ = 0 then Some (- 5, d1)
         else Some (0, d1)
   }"

definition irq_off :: "'d ports \<Rightarrow> atadrive_s \<Rightarrow> 'd \<Rightarrow> 'd" where
  "irq_off M ad d = p_outb M (ATA_CB_DC_HD15 OR ATA_CB_DC_NIEN) (iobase2 (ad_chan ad) + ATA_CB_DC) d"

definition irq_on :: "'d ports \<Rightarrow> atadrive_s \<Rightarrow> 'd \<Rightarrow> 'd" where
  "irq_on M ad d = p_outb M ATA_CB_DC_HD15 (iobase2 (ad_chan ad) + ATA_CB_DC) d"

definition ata_cmd_nondata :: "'d ports \<Rightarrow> atadrive_s \<Rightarrow> ata_pio_command \<Rightarrow> 'd \<Rightarrow> (int \<times> 'd) option" where
  "ata_cmd_nondata M ad cmd d =
     (let base1 = iobase1 (ad_chan ad); finish = (\<lambda>r d. Some (r, irq_on M ad d)) in do {
        (ret, d1) \<leftarrow> send_cmd M ad cmd (irq_off M ad d);
        if ret \<noteq> 0 then finish ret d1
        else do {
          (status, d2) \<leftarrow> ndelay_await_not_bsy M base1 d1;
          case status of None \<Rightarrow> finish (- 1) d2
          | Some st \<Rightarrow>
              if st AND ATA_CB_STAT_ERR \<noteq> 0 then finish (- 4) (snd (p_inb M (base1 + ATA_CB_ERR) d2))
              else if st AND ATA_CB_STAT_DRQ \<noteq> 0 then finish (- 5) d2
              else finish (uint st) d2
        }
      })"

section \<open>PIO transfers\<close>

fun insw_fl :: "'d ports \<Rightarrow> u16 \<Rightarrow> u32 \<Rightarrow> nat \<Rightarrow> 'd dstate \<Rightarrow> 'd dstate" where
  "insw_fl M port p 0 s = s"
| "insw_fl M port p (Suc n) s =
     (let (v, d) = p_inw M port (snd s)
      in insw_fl M port (p + 2) n ((fst s)(p := ucast v, p + 1 := ucast (drop_bit 8 v)), d))"

fun outsw_fl :: "'d ports \<Rightarrow> u16 \<Rightarrow> u32 \<Rightarrow> nat \<Rightarrow> memory \<Rightarrow> 'd \<Rightarrow> 'd" where
  "outsw_fl M port p 0 m d = d"
| "outsw_fl M port p (Suc n) m d =
     outsw_fl M port (p + 2) n m (p_outw M (ucast (m p) OR push_bit 8 (ucast (m (p + 1)))) port d)"

text \<open>
  The 32-bit code above uses flat addresses. The 16-bit code reaches the buffer through the segment register
  ES, whose 16 bits hold bits 4 to 19 of the address; the index counts up from the offset below 16.
\<close>

definition insw_es :: "'d ports \<Rightarrow> u16 \<Rightarrow> u32 \<Rightarrow> nat \<Rightarrow> 'd dstate \<Rightarrow> 'd dstate" where
  "insw_es M port p n s = insw_fl M port (far_addr (FLATPTR_TO_SEG p) (FLATPTR_TO_OFFSET p)) n s"

definition outsw_es :: "'d ports \<Rightarrow> u16 \<Rightarrow> u32 \<Rightarrow> nat \<Rightarrow> memory \<Rightarrow> 'd \<Rightarrow> 'd" where
  "outsw_es M port p n m d = outsw_fl M port (far_addr (FLATPTR_TO_SEG p) (FLATPTR_TO_OFFSET p)) n m d"

text \<open>Both builds move the same words for a buffer below 1M; above, the 16-bit code uses the address modulo 1M.\<close>

lemma transfer_es:
  "insw_es M port p n s = insw_fl M port (p AND 0xfffff) n s" "outsw_es M port p n m d = outsw_fl M port (p AND 0xfffff) n m d"
  by (simp_all only: insw_es_def outsw_es_def far_addr_wraps)

lemma transfer_es_flat:
  assumes "unat p < 2 ^ 20"
  shows "insw_es M port p n s = insw_fl M port p n s" "outsw_es M port p n m d = outsw_fl M port p n m d"
  using far_addr_flat[of p 1 0] assms by (simp_all add: insw_es_def outsw_es_def)

text \<open>The loop of \<open>ata_pio_transfer\<close>: the code, the blocks that are left, and the last status.\<close>

partial_function (option) pio_loop ::
  "'d ports \<Rightarrow> ata_channel_s \<Rightarrow> bool \<Rightarrow> nat \<Rightarrow> int \<Rightarrow> u32 \<Rightarrow> 'd dstate \<Rightarrow> ((int \<times> int \<times> u8) \<times> 'd dstate) option" where
  "pio_loop M ch iswrite blocksize count buf s = do {
     let s1 = (if iswrite then (fst s, outsw_fl M (iobase1 ch) buf (blocksize div 2) (fst s) (snd s))
               else insw_fl M (iobase1 ch) buf (blocksize div 2) s);
     (status, d) \<leftarrow> pause_await_not_bsy M (iobase1 ch) (iobase2 ch) (snd s1);
     case status of None \<Rightarrow> Some ((- 1, count, 0), fst s1, d)
     | Some st \<Rightarrow>
         if count - 1 = 0 then Some ((0, 0, st), fst s1, d)
         else if st AND (ATA_CB_STAT_BSY OR ATA_CB_STAT_DRQ OR ATA_CB_STAT_ERR) \<noteq> ATA_CB_STAT_DRQ
         then Some ((- 6, count - 1, st), fst s1, d)
         else pio_loop M ch iswrite blocksize (count - 1) (buf + of_nat blocksize) (fst s1, d)
   }"

definition ata_pio_transfer ::
  "'d ports \<Rightarrow> atadrive_s \<Rightarrow> disk_op_s \<Rightarrow> bool \<Rightarrow> nat \<Rightarrow> 'd dstate \<Rightarrow> ((int \<times> disk_op_s) \<times> 'd dstate) option" where
  "ata_pio_transfer M ad op iswrite blocksize s = do {
     ((ret, left, st), s1) \<leftarrow> pio_loop M (ad_chan ad) iswrite blocksize (uint (op_count op)) (op_buf op) s;
     if ret \<noteq> 0 then Some ((ret, op\<lparr>op_count := op_count op - of_int left\<rparr>), s1)
     else
       let st1 = st AND (ATA_CB_STAT_BSY OR ATA_CB_STAT_DF OR ATA_CB_STAT_DRQ OR ATA_CB_STAT_ERR);
           st2 = (if iswrite then st1 else st1 AND NOT ATA_CB_STAT_DF)
       in Some ((if st2 \<noteq> 0 then - 7 else 0, op), s1)
   }"

section \<open>DMA transfers\<close>

text \<open>
  \<open>CONFIG_ATA_DMA\<close> is an argument: the configuration of the repository switches it off. The descriptors
  are built in the extra stack of the EBDA, here at the flat address \<open>prd\<close>.
\<close>

definition BM_CMD :: u16 where "BM_CMD = 0"
definition BM_CMD_MEMWRITE :: u8 where "BM_CMD_MEMWRITE = 0x08"
definition BM_CMD_START :: u8 where "BM_CMD_START = 0x01"
definition BM_STATUS :: u16 where "BM_STATUS = 2"
definition BM_STATUS_IRQ :: u8 where "BM_STATUS_IRQ = 0x04"
definition BM_STATUS_ERROR :: u8 where "BM_STATUS_ERROR = 0x02"
definition BM_STATUS_ACTIVE :: u8 where "BM_STATUS_ACTIVE = 0x01"
definition BM_TABLE :: u16 where "BM_TABLE = 4"

type_synonym sff_dma_prd = "u32 \<times> u32"

text \<open>The descriptors that are built before the loop ends, and whether it ended with all bytes covered.\<close>

definition prd_count :: "u32 \<Rightarrow> u32 \<Rightarrow> u32" where
  "prd_count dest bytes =
     (let count = (if bytes > 0x10000 then 0x10000 else bytes); mx = 0x10000 - (dest AND 0xffff)
      in if count > mx then mx else count)"

fun build_prd :: "nat \<Rightarrow> u32 \<Rightarrow> u32 \<Rightarrow> sff_dma_prd list \<times> bool" where
  "build_prd 0 dest bytes = ([], bytes = 0)"
| "build_prd (Suc n) dest bytes =
     (if bytes = 0 then ([], True)
      else
        let count = prd_count dest bytes; bytes1 = bytes - count;
            count1 = (if bytes1 = 0 then count OR 0x80000000 else count);
            (ds, complete) = build_prd n (dest + count1) bytes1
        in ((dest, count1) # ds, complete))"

fun store_prd :: "u32 \<Rightarrow> sff_dma_prd list \<Rightarrow> memory \<Rightarrow> memory" where
  "store_prd p [] m = m"
| "store_prd p ((b, c) # ds) m = store_prd (p + 8) ds (put_bytes (p + 4) (le_bytes 4 c) (put_bytes p (le_bytes 4 b) m))"

text \<open>The result is whether the transfer was set up (0 in the source).\<close>

definition ata_try_dma :: "bool \<Rightarrow> u32 \<Rightarrow> 'd ports \<Rightarrow> atadrive_s \<Rightarrow> disk_op_s \<Rightarrow> bool \<Rightarrow> u32 \<Rightarrow> 'd dstate \<Rightarrow> bool \<times> 'd dstate" where
  "ata_try_dma conf_dma prd M ad op iswrite blocksize s =
     (let dest = op_buf op; master = iomaster (ad_chan ad); bytes = ucast (op_count op) * blocksize in
      if \<not> conf_dma \<or> dest AND 1 \<noteq> 0 \<or> master = 0 \<or> bytes = 0 then (False, s)
      else
        let (ds, complete) = build_prd 16 dest bytes; m = store_prd prd ds (fst s) in
        if \<not> complete then (False, m, snd s)
        else
          let (cmd, d1) = p_inb M (master + BM_CMD) (p_outl M prd (master + BM_TABLE) (snd s));
              oldcmd = cmd AND NOT (BM_CMD_MEMWRITE OR BM_CMD_START);
              d2 = p_outb M (oldcmd OR (if iswrite then 0x00 else BM_CMD_MEMWRITE)) (master + BM_CMD) d1;
              d3 = p_outb M (BM_STATUS_ERROR OR BM_STATUS_IRQ) (master + BM_STATUS) d2
          in (True, m, d3))"

partial_function (option) dma_loop :: "'d ports \<Rightarrow> u16 \<Rightarrow> u64 \<Rightarrow> 'd \<Rightarrow> (u8 \<times> 'd) option" where
  "dma_loop M master end_time d =
     (let (status, d1) = p_inb M (master + BM_STATUS) d in
      if status AND BM_STATUS_IRQ \<noteq> 0 \<or> check_time (p_tsc M d1) end_time then Some (status, d1)
      else dma_loop M master end_time (p_yield M d1))"

definition ata_dma_transfer :: "'d ports \<Rightarrow> atadrive_s \<Rightarrow> disk_op_s \<Rightarrow> 'd dstate \<Rightarrow> ((int \<times> disk_op_s) \<times> 'd dstate) option" where
  "ata_dma_transfer M ad op s =
     (let master = iomaster (ad_chan ad); base1 = iobase1 (ad_chan ad); base2 = iobase2 (ad_chan ad);
          (oldcmd, d1) = p_inb M (master + BM_CMD) (snd s);
          d2 = p_outb M (oldcmd OR BM_CMD_START) (master + BM_CMD) d1
      in do {
        (status, d3) \<leftarrow> dma_loop M master (calc_future_tsc (p_tsc M d2) (p_khz M) IDE_TIMEOUT) d2;
        let d4 = p_outb M (oldcmd AND NOT BM_CMD_START) (master + BM_CMD) d3;
        (idestatus, d5) \<leftarrow> pause_await_not_bsy M base1 base2 d4;
        if status AND (BM_STATUS_IRQ OR BM_STATUS_ACTIVE) = BM_STATUS_IRQ \<and>
           (case idestatus of None \<Rightarrow> False
            | Some st \<Rightarrow> st AND (ATA_CB_STAT_BSY OR ATA_CB_STAT_DF OR ATA_CB_STAT_DRQ OR ATA_CB_STAT_ERR) = 0)
        then Some ((0, op), fst s, d5)
        else Some ((- 1, op\<lparr>op_count := 0\<rparr>), fst s,
               snd (p_inb M (base1 + ATA_CB_ERR) (snd (p_inb M (base2 + ATA_CB_ASTAT) d5))))
      })"

section \<open>Hard drives\<close>

definition ata_pio_cmd_data ::
  "'d ports \<Rightarrow> atadrive_s \<Rightarrow> disk_op_s \<Rightarrow> bool \<Rightarrow> ata_pio_command \<Rightarrow> 'd dstate \<Rightarrow> ((int \<times> disk_op_s) \<times> 'd dstate) option" where
  "ata_pio_cmd_data M ad op iswrite cmd s =
     (let finish = (\<lambda>r op (m, d). Some ((r, op), m, irq_on M ad d)) in do {
        (ret, d1) \<leftarrow> send_cmd M ad cmd (irq_off M ad (snd s));
        if ret \<noteq> 0 then finish ret op (fst s, d1)
        else do {
          (ret, d2) \<leftarrow> ata_wait_data M (iobase1 (ad_chan ad)) d1;
          if ret \<noteq> 0 then finish ret op (fst s, d2)
          else do {
            ((ret, op1), s3) \<leftarrow> ata_pio_transfer M ad op iswrite 512 (fst s, d2);
            finish ret op1 s3
          }
        }
      })"

definition ata_dma_cmd_data ::
  "'d ports \<Rightarrow> atadrive_s \<Rightarrow> disk_op_s \<Rightarrow> ata_pio_command \<Rightarrow> 'd dstate \<Rightarrow> ((int \<times> disk_op_s) \<times> 'd dstate) option" where
  "ata_dma_cmd_data M ad op cmd s = do {
     (ret, d1) \<leftarrow> send_cmd M ad cmd (snd s);
     if ret \<noteq> 0 then Some ((ret, op), fst s, d1)
     else ata_dma_transfer M ad op (fst s, d1)
   }"

text \<open>The command for a request: with 48-bit addresses where 28 bits, or 8 bits for the count, are too few.\<close>

definition rw_command :: "u64 \<Rightarrow> u16 \<Rightarrow> bool \<Rightarrow> bool \<Rightarrow> ata_pio_command" where
  "rw_command lba count usepio iswrite =
     (let ext = (count \<ge> 0x100 \<or> lba + ucast count \<ge> 0x10000000); lba1 = (if ext then lba AND 0xffffff else lba) in
      zero_command\<lparr>
        sector_count2 := (if ext then ucast (drop_bit 8 count) else 0),
        lba_low2 := (if ext then ucast (drop_bit 24 lba) else 0),
        lba_mid2 := (if ext then ucast (drop_bit 32 lba) else 0),
        lba_high2 := (if ext then ucast (drop_bit 40 lba) else 0),
        command :=
          (if ext then
             (if usepio then if iswrite then ATA_CMD_WRITE_SECTORS_EXT else ATA_CMD_READ_SECTORS_EXT
              else if iswrite then ATA_CMD_WRITE_DMA_EXT else ATA_CMD_READ_DMA_EXT)
           else
             (if usepio then if iswrite then ATA_CMD_WRITE_SECTORS else ATA_CMD_READ_SECTORS
              else if iswrite then ATA_CMD_WRITE_DMA else ATA_CMD_READ_DMA)),
        sector_count := ucast count,
        lba_low := ucast lba1, lba_mid := ucast (drop_bit 8 lba1), lba_high := ucast (drop_bit 16 lba1),
        device := (ucast (drop_bit 24 lba1) AND 0xf) OR ATA_CB_DH_LBA\<rparr>)"

definition ata_readwrite ::
  "bool \<Rightarrow> u32 \<Rightarrow> 'd ports \<Rightarrow> atadrive_s \<Rightarrow> disk_op_s \<Rightarrow> bool \<Rightarrow> 'd dstate \<Rightarrow> ((u8 \<times> disk_op_s) \<times> 'd dstate) option" where
  "ata_readwrite conf_dma prd M ad op iswrite s =
     (let (usedma, s1) = ata_try_dma conf_dma prd M ad op iswrite 512 s;
          cmd = rw_command (op_lba op) (op_count op) (\<not> usedma) iswrite
      in do {
        ((ret, op1), s2) \<leftarrow> (if usedma then ata_dma_cmd_data M ad op cmd s1 else ata_pio_cmd_data M ad op iswrite cmd s1);
        Some ((if ret \<noteq> 0 then DISK_RET_EBADTRACK else DISK_RET_SUCCESS, op1), s2)
      })"

definition process_ata_op ::
  "bool \<Rightarrow> u32 \<Rightarrow> 'd ports \<Rightarrow> atadrive_s \<Rightarrow> disk_op_s \<Rightarrow> 'd dstate \<Rightarrow> ((u8 \<times> disk_op_s) \<times> 'd dstate) option" where
  "process_ata_op conf_dma prd M ad op s =
     (if op_command op = CMD_READ then ata_readwrite conf_dma prd M ad op False s
      else if op_command op = CMD_WRITE then ata_readwrite conf_dma prd M ad op True s
      else process_ata_misc_op M ad op s)"

section \<open>Packet commands\<close>

definition CDROM_CDB_SIZE :: nat where "CDROM_CDB_SIZE = 12"

text \<open>The words of a command block, which is sent from the stack; \<open>cdb\<close> are its bytes.\<close>

fun send_words :: "'d ports \<Rightarrow> u16 \<Rightarrow> u8 list \<Rightarrow> 'd \<Rightarrow> 'd" where
  "send_words M port (b0 # b1 # bs) d = send_words M port bs (p_outw M (ucast b0 OR push_bit 8 (ucast b1)) port d)"
| "send_words M port bs d = d"

definition packet_command :: "u16 \<Rightarrow> ata_pio_command" where
  "packet_command blocksize =
     zero_command\<lparr>lba_mid := ucast blocksize, lba_high := ucast (drop_bit 8 blocksize), command := ATA_CMD_PACKET\<rparr>"

text \<open>From the command block to the end of the transfer.\<close>

definition atapi_transfer ::
  "'d ports \<Rightarrow> atadrive_s \<Rightarrow> disk_op_s \<Rightarrow> u8 list \<Rightarrow> u16 \<Rightarrow> 'd dstate \<Rightarrow> ((int \<times> disk_op_s) \<times> 'd dstate) option" where
  "atapi_transfer M ad op cdb blocksize s =
     (let base1 = iobase1 (ad_chan ad); base2 = iobase2 (ad_chan ad) in do {
        (status, d) \<leftarrow> pause_await_not_bsy M base1 base2 (send_words M base1 (take CDROM_CDB_SIZE cdb) (snd s));
        case status of None \<Rightarrow> Some ((- 1, op), fst s, d)
        | Some st \<Rightarrow>
            if st AND ATA_CB_STAT_ERR \<noteq> 0 then Some ((- 2, op), fst s, snd (p_inb M (base1 + ATA_CB_ERR) d))
            else if st AND ATA_CB_STAT_DRQ = 0 then Some ((- 3, op), fst s, d)
            else ata_pio_transfer M ad op False (unat blocksize) (fst s, d)
      })"

definition atapi_cmd_data ::
  "'d ports \<Rightarrow> atadrive_s \<Rightarrow> disk_op_s \<Rightarrow> u8 list \<Rightarrow> u16 \<Rightarrow> 'd dstate \<Rightarrow> ((u8 \<times> disk_op_s) \<times> 'd dstate) option" where
  "atapi_cmd_data M ad op cdb blocksize s =
     (let finish = (\<lambda>r op (m, d). Some ((if r \<noteq> (0 :: int) then DISK_RET_EBADTRACK else DISK_RET_SUCCESS, op), m, irq_on M ad d)) in do {
        (ret, d1) \<leftarrow> send_cmd M ad (packet_command blocksize) (irq_off M ad (snd s));
        if ret \<noteq> 0 then finish ret op (fst s, d1)
        else do {
          (ret, d2) \<leftarrow> ata_wait_data M (iobase1 (ad_chan ad)) d1;
          if ret \<noteq> 0 then finish ret op (fst s, d2)
          else do {
            ((ret, op1), s3) \<leftarrow> atapi_transfer M ad op cdb blocksize (fst s, d2);
            finish ret op1 s3
          }
        }
      })"

text \<open>\<open>rd\<close> is \<open>cdb_read\<close> with the packet drivers.\<close>

definition process_atapi_op ::
  "'d ports \<Rightarrow> atadrive_s \<Rightarrow> (disk_op_s \<Rightarrow> 'd dstate \<Rightarrow> ((u8 \<times> disk_op_s) \<times> 'd dstate) option) \<Rightarrow> disk_op_s \<Rightarrow> 'd dstate \<Rightarrow> ((u8 \<times> disk_op_s) \<times> 'd dstate) option" where
  "process_atapi_op M ad rd op s =
     (if op_command op = CMD_READ then rd op s
      else if op_command op \<in> {CMD_FORMAT, CMD_WRITE} then Some ((DISK_RET_EWRITEPROTECT, op), s)
      else process_ata_misc_op M ad op s)"

end
