(* ===== verification/Ata_Disk.thy ===== *)
theory Ata_Disk
  imports Ata
begin

text \<open>
  Hard drives behind the ATA driver. The documented behaviour of a drive is stated on a view of the
  machine (the command block registers, the phase of the command, and the medium); over every machine with
  that behaviour the driver reads and writes the sectors of the medium.
\<close>

section \<open>The behaviour of a drive\<close>

text \<open>
  The registers for count and address hold two bytes each, the last one written and the one before. A
  command that moves data is in progress until all its bytes are moved: the bytes that are still to be
  read, or the place of the next byte that is written and the number of bytes to come.
\<close>

datatype ata_phase = Idle | Reading "u8 list" | Writing nat nat

record ata_view =
  v_dh :: u8
  v_sc :: "u8 \<times> u8"
  v_sn :: "u8 \<times> u8"
  v_cl :: "u8 \<times> u8"
  v_chi :: "u8 \<times> u8"
  v_phase :: ata_phase
  v_img :: "nat \<Rightarrow> u8"

definition lba28 :: "ata_view \<Rightarrow> nat" where
  "lba28 v = unat (fst (v_sn v)) + 2 ^ 8 * unat (fst (v_cl v)) + 2 ^ 16 * unat (fst (v_chi v)) + 2 ^ 24 * unat (v_dh v AND 0xf)"

definition lba48 :: "ata_view \<Rightarrow> nat" where
  "lba48 v = unat (fst (v_sn v)) + 2 ^ 8 * unat (fst (v_cl v)) + 2 ^ 16 * unat (fst (v_chi v))
     + 2 ^ 24 * unat (snd (v_sn v)) + 2 ^ 32 * unat (snd (v_cl v)) + 2 ^ 40 * unat (snd (v_chi v))"

definition count8 :: "ata_view \<Rightarrow> nat" where
  "count8 v = (if fst (v_sc v) = 0 then 256 else unat (fst (v_sc v)))"

definition count16 :: "ata_view \<Rightarrow> nat" where
  "count16 v = (let n = unat (fst (v_sc v)) + 2 ^ 8 * unat (snd (v_sc v)) in if n = 0 then 65536 else n)"

definition image_bytes :: "(nat \<Rightarrow> u8) \<Rightarrow> nat \<Rightarrow> nat \<Rightarrow> u8 list" where
  "image_bytes img a n = map (\<lambda>i. img (a + i)) [0..<n]"

definition reading :: "u8 list \<Rightarrow> ata_phase" where "reading bs = (if bs = [] then Idle else Reading bs)"
definition writing :: "nat \<Rightarrow> nat \<Rightarrow> ata_phase" where "writing a n = (if n = 0 then Idle else Writing a n)"

definition exec :: "nat \<Rightarrow> u8 \<Rightarrow> ata_view \<Rightarrow> ata_view option" where
  "exec len c v =
     (let small = (lba28 v, count8 v); big = (lba48 v, count16 v);
          start = (\<lambda>(a, n) ph. if a + n \<le> len then Some (v\<lparr>v_phase := ph (512 * a) (512 * n)\<rparr>) else None)
      in if v_dh v AND ATA_CB_DH_LBA = 0 then None
         else if c = ATA_CMD_READ_SECTORS then start small (\<lambda>a n. reading (image_bytes (v_img v) a n))
         else if c = ATA_CMD_READ_SECTORS_EXT then start big (\<lambda>a n. reading (image_bytes (v_img v) a n))
         else if c = ATA_CMD_WRITE_SECTORS then start small writing
         else if c = ATA_CMD_WRITE_SECTORS_EXT then start big writing
         else None)"

text \<open>
  What is asked of a machine: while the drive is selected it becomes ready within the time limit, without a
  fault, and requests data exactly during a transfer; the registers hold what was written to them; a
  command with an address on the medium is executed; the data port moves the next word; reading the
  alternate status, waiting, and the interrupt bit of the device control register change nothing.
\<close>

text \<open>The machine after \<open>n\<close> readings of the status, with what happens when the code yields after each.\<close>

fun polled :: "'d ports \<Rightarrow> u16 \<Rightarrow> nat \<Rightarrow> 'd \<Rightarrow> 'd" where
  "polled M base 0 d = d"
| "polled M base (Suc n) d = polled M base n (p_yield M (snd (p_inb M (base + ATA_CB_STAT) d)))"

definition answers :: "'d ports \<Rightarrow> ata_channel_s \<Rightarrow> ('d \<Rightarrow> ata_view) \<Rightarrow> bool" where
  "answers M ch view \<longleftrightarrow> (\<forall>d. \<exists>n.
     let status = (\<lambda>i. p_inb M (iobase1 ch + ATA_CB_STAT) (polled M (iobase1 ch) i d)); (st, d') = status n in
     (\<forall>i<n. fst (status i) AND ATA_CB_STAT_BSY \<noteq> 0
        \<and> \<not> check_time (p_tsc M (snd (status i))) (calc_future_tsc (p_tsc M d) (p_khz M) IDE_TIMEOUT))
     \<and> view d' = view d
     \<and> st AND (ATA_CB_STAT_BSY OR ATA_CB_STAT_DF OR ATA_CB_STAT_ERR) = 0 \<and> (st AND ATA_CB_STAT_DRQ \<noteq> 0 \<longleftrightarrow> v_phase (view d) \<noteq> Idle))"

definition quiet :: "'d ports \<Rightarrow> ata_channel_s \<Rightarrow> ('d \<Rightarrow> ata_view) \<Rightarrow> bool" where
  "quiet M ch view \<longleftrightarrow> (\<forall>d n. view (p_ndelay M n d) = view d) \<and> (\<forall>d. view (snd (p_inb M (iobase2 ch + ATA_CB_ASTAT) d)) = view d)
     \<and> (\<forall>d v. v AND ATA_CB_DC_SRST = 0 \<longrightarrow> view (p_outb M v (iobase2 ch + ATA_CB_DC) d) = view d)"

definition registers :: "'d ports \<Rightarrow> ata_channel_s \<Rightarrow> ('d \<Rightarrow> ata_view) \<Rightarrow> bool" where
  "registers M ch view \<longleftrightarrow> (\<forall>d. fst (p_inb M (iobase1 ch + ATA_CB_DH) d) = v_dh (view d) \<and> view (snd (p_inb M (iobase1 ch + ATA_CB_DH) d)) = view d)
     \<and> (\<forall>d v. v_phase (view d) = Idle \<longrightarrow>
           view (p_outb M v (iobase1 ch + ATA_CB_DH) d) = (view d)\<lparr>v_dh := v\<rparr>
         \<and> view (p_outb M v (iobase1 ch + ATA_CB_FR) d) = view d
         \<and> view (p_outb M v (iobase1 ch + ATA_CB_SC) d) = (view d)\<lparr>v_sc := (v, fst (v_sc (view d)))\<rparr>
         \<and> view (p_outb M v (iobase1 ch + ATA_CB_SN) d) = (view d)\<lparr>v_sn := (v, fst (v_sn (view d)))\<rparr>
         \<and> view (p_outb M v (iobase1 ch + ATA_CB_CL) d) = (view d)\<lparr>v_cl := (v, fst (v_cl (view d)))\<rparr>
         \<and> view (p_outb M v (iobase1 ch + ATA_CB_CH) d) = (view d)\<lparr>v_chi := (v, fst (v_chi (view d)))\<rparr>)"

definition executes :: "'d ports \<Rightarrow> ata_channel_s \<Rightarrow> bool \<Rightarrow> nat \<Rightarrow> ('d \<Rightarrow> ata_view) \<Rightarrow> bool" where
  "executes M ch slave len view \<longleftrightarrow> (\<forall>d c v'. v_phase (view d) = Idle \<and> (v_dh (view d) AND 0x10 \<noteq> 0) = slave \<and> exec len c (view d) = Some v'
     \<longrightarrow> view (p_outb M c (iobase1 ch + ATA_CB_CMD) d) = v')"

definition transfers :: "'d ports \<Rightarrow> ata_channel_s \<Rightarrow> ('d \<Rightarrow> ata_view) \<Rightarrow> bool" where
  "transfers M ch view \<longleftrightarrow>
     (\<forall>d b0 b1 bs. v_phase (view d) = Reading (b0 # b1 # bs) \<longrightarrow>
        fst (p_inw M (iobase1 ch) d) = ucast b0 OR push_bit 8 (ucast b1)
        \<and> view (snd (p_inw M (iobase1 ch) d)) = (view d)\<lparr>v_phase := reading bs\<rparr>)
     \<and> (\<forall>d a n w. v_phase (view d) = Writing a (Suc (Suc n)) \<longrightarrow>
        view (p_outw M w (iobase1 ch) d)
          = (view d)\<lparr>v_img := (v_img (view d))(a := ucast w, Suc a := ucast (drop_bit 8 w)), v_phase := writing (a + 2) n\<rparr>)"

definition hard_drive :: "'d ports \<Rightarrow> ata_channel_s \<Rightarrow> bool \<Rightarrow> nat \<Rightarrow> ('d \<Rightarrow> ata_view) \<Rightarrow> bool" where
  "hard_drive M ch slave len view \<longleftrightarrow> answers M ch view \<and> quiet M ch view \<and> registers M ch view \<and> executes M ch slave len view \<and> transfers M ch view"

section \<open>Moving data\<close>

lemma transfers_inD:
  "transfers M ch view \<Longrightarrow> v_phase (view d) = Reading (b0 # b1 # bs) \<Longrightarrow>
     fst (p_inw M (iobase1 ch) d) = ucast b0 OR push_bit 8 (ucast b1) \<and> view (snd (p_inw M (iobase1 ch) d)) = (view d)\<lparr>v_phase := reading bs\<rparr>"
  by (simp add: transfers_def)

lemma transfers_outD:
  "transfers M ch view \<Longrightarrow> v_phase (view d) = Writing a (Suc (Suc n)) \<Longrightarrow>
     view (p_outw M w (iobase1 ch) d)
       = (view d)\<lparr>v_img := (v_img (view d))(a := ucast w, Suc a := ucast (drop_bit 8 w)), v_phase := writing (a + 2) n\<rparr>"
  by (simp add: transfers_def)

lemma word_of_bytes: "ucast (ucast b0 OR push_bit 8 (ucast b1) :: u16) = (b0 :: u8)"
    "ucast (drop_bit 8 (ucast b0 OR push_bit 8 (ucast b1) :: u16)) = (b1 :: u8)"
  by (rule bit_word_eqI, auto simp: bit_simps dest: bit_imp_le_length)+

lemma insw_reads:
  assumes "transfers M ch view" "length bs = 2 * n" "v_phase (view d) = reading (bs @ rest)"
  shows "\<exists>d'. insw_fl M (iobase1 ch) p n (m, d) = (put_bytes p bs m, d') \<and> view d' = (view d)\<lparr>v_phase := reading rest\<rparr>"
  using assms(2,3)
proof (induction n arbitrary: bs p m d)
  case 0
  then have "view d = (view d)\<lparr>v_phase := reading rest\<rparr>" by simp
  then show ?case using 0 by auto
next
  case (Suc n)
  then obtain b0 b1 cs where bs: "bs = b0 # b1 # cs" by (metis length_Suc_conv mult_Suc_right numeral_2_eq_2 plus_nat.simps(2))
  have len: "length cs = 2 * n" using Suc.prems(1) by (simp add: bs)
  have ph: "v_phase (view d) = Reading (b0 # b1 # (cs @ rest))" using Suc.prems(2) by (simp add: bs reading_def)
  obtain v d1 where r: "p_inw M (iobase1 ch) d = (v, d1)" by fastforce
  have v: "v = ucast b0 OR push_bit 8 (ucast b1)" "view d1 = (view d)\<lparr>v_phase := reading (cs @ rest)\<rparr>"
    using transfers_inD[OF assms(1) ph] r by simp_all
  define m1 where "m1 = m(p := b0, p + 1 := b1)"
  have step: "insw_fl M (iobase1 ch) p (Suc n) (m, d) = insw_fl M (iobase1 ch) (p + 2) n (m1, d1)"
    unfolding insw_fl.simps m1_def by (simp only: r v(1) Let_def prod.case snd_conv fst_conv word_of_bytes)
  obtain d' where d': "insw_fl M (iobase1 ch) (p + 2) n (m1, d1) = (put_bytes (p + 2) cs m1, d')"
    "view d' = (view d1)\<lparr>v_phase := reading rest\<rparr>"
    using Suc.IH[OF len, of d1 "p + 2" m1] v(2) by auto
  have "put_bytes p bs m = put_bytes (p + 2) cs m1" by (simp add: bs m1_def add.assoc)
  then show ?case unfolding step using d' by (simp add: v(2))
qed

text \<open>A medium with some bytes replaced.\<close>

definition put_image :: "nat \<Rightarrow> u8 list \<Rightarrow> (nat \<Rightarrow> u8) \<Rightarrow> nat \<Rightarrow> u8" where
  "put_image a bs img i = (if a \<le> i \<and> i < a + length bs then bs ! (i - a) else img i)"

lemma put_image_nil [simp]: "put_image a [] img = img"
  by (rule ext) (auto simp: put_image_def)

lemma put_image_step: "put_image a (b0 # b1 # bs) img = put_image (Suc (Suc a)) bs (img(a := b0, Suc a := b1))"
proof
  fix i
  consider "i < a" | "i = a" | "i = Suc a" | "Suc (Suc a) \<le> i" by linarith
  then show "put_image a (b0 # b1 # bs) img i = put_image (Suc (Suc a)) bs (img(a := b0, Suc a := b1)) i"
  proof cases
    case 4
    then have "i - a = Suc (Suc (i - Suc (Suc a)))" by simp
    then show ?thesis using 4 by (auto simp: put_image_def)
  qed (auto simp: put_image_def)
qed

lemma put_image_append: "put_image (a + length xs) ys (put_image a xs img) = put_image a (xs @ ys) img"
  by (rule ext) (auto simp: put_image_def nth_append)

lemma outsw_writes:
  assumes "transfers M ch view" "v_phase (view d) = writing a (2 * n + k)"
  shows "view (outsw_fl M (iobase1 ch) p n m d) = (view d)\<lparr>v_phase := writing (a + 2 * n) k, v_img := put_image a (mem_bytes m p (2 * n)) (v_img (view d))\<rparr>"
  using assms(2)
proof (induction n arbitrary: a p d)
  case 0
  then show ?case by (simp add: mem_bytes_def)
next
  case (Suc n)
  let ?w = "ucast (m p) OR push_bit 8 (ucast (m (p + 1))) :: u16" and ?d = "p_outw M (ucast (m p) OR push_bit 8 (ucast (m (p + 1)))) (iobase1 ch) d"
  have "v_phase (view d) = Writing a (Suc (Suc (2 * n + k)))" using Suc.prems by (simp add: writing_def)
  from transfers_outD[OF assms(1) this, of ?w]
  have v: "view ?d = (view d)\<lparr>v_img := (v_img (view d))(a := m p, Suc a := m (p + 1)), v_phase := writing (a + 2) (2 * n + k)\<rparr>"
    unfolding word_of_bytes .
  have "view (outsw_fl M (iobase1 ch) (p + 2) n m ?d)
      = (view ?d)\<lparr>v_phase := writing (a + 2 + 2 * n) k, v_img := put_image (a + 2) (mem_bytes m (p + 2) (2 * n)) (v_img (view ?d))\<rparr>"
    by (rule Suc.IH) (simp add: v)
  then show ?case by (simp add: v mem_bytes_step put_image_step)
qed

text \<open>Waiting for the drive.\<close>

lemma await_loop_polls:
  assumes "\<forall>i<n. fst (p_inb M (base + ATA_CB_STAT) (polled M base i d)) AND mk \<noteq> flags
      \<and> \<not> check_time (p_tsc M (snd (p_inb M (base + ATA_CB_STAT) (polled M base i d)))) end_time"
    and "p_inb M (base + ATA_CB_STAT) (polled M base n d) = (st, d')" "st AND mk = flags"
  shows "await_loop M mk flags base end_time d = Some (Some st, d')"
  using assms
proof (induction n arbitrary: d)
  case 0
  then show ?case by (subst await_loop.simps) simp
next
  case (Suc n)
  let ?d = "p_yield M (snd (p_inb M (base + ATA_CB_STAT) d))"
  have "await_loop M mk flags base end_time ?d = Some (Some st, d')"
  proof (rule Suc.IH)
    show "\<forall>i<n. fst (p_inb M (base + ATA_CB_STAT) (polled M base i ?d)) AND mk \<noteq> flags
      \<and> \<not> check_time (p_tsc M (snd (p_inb M (base + ATA_CB_STAT) (polled M base i ?d)))) end_time"
      using Suc.prems(1) by (metis Suc_less_eq polled.simps(2))
  qed (use Suc.prems in simp_all)
  moreover have "fst (p_inb M (base + ATA_CB_STAT) d) AND mk \<noteq> flags" "\<not> check_time (p_tsc M (snd (p_inb M (base + ATA_CB_STAT) d))) end_time"
    using Suc.prems(1) by (metis polled.simps(1) zero_less_Suc)+
  ultimately show ?case by (subst await_loop.simps) (simp add: case_prod_beta Let_def)
qed

lemma answersD:
  assumes "hard_drive M ch slave len view"
  shows "\<exists>st d'. await_not_bsy M (iobase1 ch) d = Some (Some st, d') \<and> view d' = view d
    \<and> st AND (ATA_CB_STAT_BSY OR ATA_CB_STAT_DF OR ATA_CB_STAT_ERR) = 0 \<and> (st AND ATA_CB_STAT_DRQ \<noteq> 0 \<longleftrightarrow> v_phase (view d) \<noteq> Idle)"
proof -
  have "answers M ch view" using assms by (simp add: hard_drive_def)
  then obtain n st d' where
    n: "\<forall>i<n. fst (p_inb M (iobase1 ch + ATA_CB_STAT) (polled M (iobase1 ch) i d)) AND ATA_CB_STAT_BSY \<noteq> 0
        \<and> \<not> check_time (p_tsc M (snd (p_inb M (iobase1 ch + ATA_CB_STAT) (polled M (iobase1 ch) i d)))) (calc_future_tsc (p_tsc M d) (p_khz M) IDE_TIMEOUT)"
      "p_inb M (iobase1 ch + ATA_CB_STAT) (polled M (iobase1 ch) n d) = (st, d')" "view d' = view d"
      "st AND (ATA_CB_STAT_BSY OR ATA_CB_STAT_DF OR ATA_CB_STAT_ERR) = 0" "st AND ATA_CB_STAT_DRQ \<noteq> 0 \<longleftrightarrow> v_phase (view d) \<noteq> Idle"
    unfolding answers_def Let_def case_prod_beta by (metis prod.collapse)
  have "st AND ATA_CB_STAT_BSY = 0" using n(4) by (simp add: bit.conj_disj_distrib or_eq_0_iff)
  moreover have "ucast (ucast IDE_TIMEOUT :: u16) = IDE_TIMEOUT" by (simp add: IDE_TIMEOUT_def)
  ultimately show ?thesis using await_loop_polls[OF n(1,2)] n(3-) by (auto simp: await_not_bsy_def await_ide_def)
qed

lemma quietD:
  assumes "hard_drive M ch slave len view"
  shows "view (p_ndelay M n d) = view d" "view (snd (p_inb M (iobase2 ch + ATA_CB_ASTAT) d)) = view d"
    "ad_chan ad = ch \<Longrightarrow> view (irq_off M ad d) = view d" "ad_chan ad = ch \<Longrightarrow> view (irq_on M ad d) = view d"
  using assms by (simp_all add: hard_drive_def quiet_def irq_off_def irq_on_def ATA_CB_DC_HD15_def ATA_CB_DC_NIEN_def ATA_CB_DC_SRST_def)

lemma drq_bit: "st AND ATA_CB_STAT_DRQ = (if bit st 3 then ATA_CB_STAT_DRQ else 0)"
proof -
  have "bit (8 :: u8) n \<longleftrightarrow> n = 3" if "n < 8" for n
  proof -
    have "n \<in> set [0..<8]" using that by simp
    then show ?thesis by (auto simp: upt_rec)
  qed
  then show ?thesis unfolding ATA_CB_STAT_DRQ_def by (auto intro!: bit_word_eqI simp: bit_and_iff)
qed

lemma status_last:
  assumes "st AND (ATA_CB_STAT_BSY OR ATA_CB_STAT_DF OR ATA_CB_STAT_ERR) = 0" "st AND ATA_CB_STAT_DRQ = 0"
  shows "st AND (ATA_CB_STAT_BSY OR ATA_CB_STAT_DF OR ATA_CB_STAT_DRQ OR ATA_CB_STAT_ERR) = 0"
  using assms by (simp add: bit.conj_disj_distrib or_eq_0_iff)

lemma status_more:
  assumes "st AND (ATA_CB_STAT_BSY OR ATA_CB_STAT_DF OR ATA_CB_STAT_ERR) = 0" "st AND ATA_CB_STAT_DRQ \<noteq> 0"
  shows "st AND (ATA_CB_STAT_BSY OR ATA_CB_STAT_DRQ OR ATA_CB_STAT_ERR) = ATA_CB_STAT_DRQ" "st AND ATA_CB_STAT_ERR = 0"
  using assms drq_bit[of st] by (auto simp: bit.conj_disj_distrib or_eq_0_iff split: if_splits)

lemma pause_waits:
  assumes "hard_drive M ch slave len view"
  shows "\<exists>st d'. pause_await_not_bsy M (iobase1 ch) (iobase2 ch) d = Some (Some st, d') \<and> view d' = view d
    \<and> st AND (ATA_CB_STAT_BSY OR ATA_CB_STAT_DF OR ATA_CB_STAT_ERR) = 0 \<and> (st AND ATA_CB_STAT_DRQ \<noteq> 0 \<longleftrightarrow> v_phase (view d) \<noteq> Idle)"
  using answersD[OF assms, of "snd (p_inb M (iobase2 ch + ATA_CB_ASTAT) d)"] quietD(2)[OF assms, of d]
  by (metis pause_await_not_bsy_def)

text \<open>A block is moved; then the transfer ends, or the drive asks for the next block.\<close>

lemma pio_step:
  assumes drive: "hard_drive M ch slave len view" and move: "(if iswrite then (m, outsw_fl M (iobase1 ch) buf 256 m d) else insw_fl M (iobase1 ch) buf 256 (m, d)) = (m1, d1)"
    and ph: "v_phase (view d1) = Idle \<longleftrightarrow> n = 0"
  shows "\<exists>st d'. view d' = view d1
    \<and> pio_loop M ch iswrite 512 (int (Suc n)) buf (m, d) =
       (if n = 0 then Some ((0, 0, st), m1, d') else pio_loop M ch iswrite 512 (int n) (buf + 512) (m1, d'))
    \<and> (n = 0 \<longrightarrow> st AND (ATA_CB_STAT_BSY OR ATA_CB_STAT_DF OR ATA_CB_STAT_DRQ OR ATA_CB_STAT_ERR) = 0)"
proof -
  obtain st d' where w: "pause_await_not_bsy M (iobase1 ch) (iobase2 ch) d1 = Some (Some st, d')" "view d' = view d1"
    "st AND (ATA_CB_STAT_BSY OR ATA_CB_STAT_DF OR ATA_CB_STAT_ERR) = 0" "st AND ATA_CB_STAT_DRQ \<noteq> 0 \<longleftrightarrow> v_phase (view d1) \<noteq> Idle"
    using pause_waits[OF drive] by blast
  have "pio_loop M ch iswrite 512 (int (Suc n)) buf (m, d) =
      (if int n = 0 then Some ((0, 0, st), m1, d')
       else if st AND (ATA_CB_STAT_BSY OR ATA_CB_STAT_DRQ OR ATA_CB_STAT_ERR) \<noteq> ATA_CB_STAT_DRQ then Some ((- 6, int n, st), m1, d')
       else pio_loop M ch iswrite 512 (int n) (buf + 512) (m1, d'))"
  proof (cases iswrite)
    case True
    then have "m1 = m" "d1 = outsw_fl M (iobase1 ch) buf 256 m d" using move by auto
    then show ?thesis using True w(1) by (subst pio_loop.simps) (simp add: Let_def)
  next
    case False
    then have "insw_fl M (iobase1 ch) buf 256 (m, d) = (m1, d1)" using move by simp
    then show ?thesis using False w(1) by (subst pio_loop.simps) (simp add: Let_def)
  qed
  then show ?thesis using w(2-4) ph status_last[OF w(3)] status_more(1)[OF w(3)] by (intro exI[of _ st] exI[of _ d']) auto
qed

lemma pio_reads:
  assumes drive: "hard_drive M ch slave len view"
  shows "length bs = 512 * Suc n \<Longrightarrow> v_phase (view d) = reading bs \<Longrightarrow>
    \<exists>st d'. pio_loop M ch False 512 (int (Suc n)) buf (m, d) = Some ((0, 0, st), put_bytes buf bs m, d')
      \<and> view d' = (view d)\<lparr>v_phase := Idle\<rparr> \<and> st AND (ATA_CB_STAT_BSY OR ATA_CB_STAT_DF OR ATA_CB_STAT_DRQ OR ATA_CB_STAT_ERR) = 0"
proof (induction n arbitrary: bs buf m d)
  case (0 bs)
  have tr: "transfers M ch view" using drive by (simp add: hard_drive_def)
  obtain d1 where i: "insw_fl M (iobase1 ch) buf 256 (m, d) = (put_bytes buf bs m, d1)" "view d1 = (view d)\<lparr>v_phase := reading []\<rparr>"
    using insw_reads[OF tr, of bs 256 d "[]"] 0 by auto
  obtain st d' where "view d' = view d1" "pio_loop M ch False 512 (int (Suc 0)) buf (m, d) = Some ((0, 0, st), put_bytes buf bs m, d')"
      "st AND (ATA_CB_STAT_BSY OR ATA_CB_STAT_DF OR ATA_CB_STAT_DRQ OR ATA_CB_STAT_ERR) = 0"
    using pio_step[OF drive, of False m buf d "put_bytes buf bs m" d1 0] i by (auto simp: reading_def)
  then show ?case using i(2) by (auto simp: reading_def)
next
  case (Suc n bs)
  have tr: "transfers M ch view" using drive by (simp add: hard_drive_def)
  let ?x = "take 512 bs" and ?y = "drop 512 bs"
  obtain d1 where i: "insw_fl M (iobase1 ch) buf 256 (m, d) = (put_bytes buf ?x m, d1)" "view d1 = (view d)\<lparr>v_phase := reading ?y\<rparr>"
    using insw_reads[OF tr, of ?x 256 d ?y] Suc.prems by auto
  have y: "length ?y = 512 * Suc n" using Suc.prems(1) by simp
  then have "?y \<noteq> []" by auto
  then obtain st d' where s: "view d' = view d1" "pio_loop M ch False 512 (int (Suc (Suc n))) buf (m, d) = pio_loop M ch False 512 (int (Suc n)) (buf + 512) (put_bytes buf ?x m, d')"
    using pio_step[OF drive, of False m buf d "put_bytes buf ?x m" d1 "Suc n"] i by (auto simp: reading_def)
  have "put_bytes buf bs m = put_bytes (buf + 512) ?y (put_bytes buf ?x m)"
    using put_bytes_append[of buf ?x ?y m] Suc.prems(1) by simp
  then show ?case using Suc.IH[OF y, of d' "buf + 512" "put_bytes buf ?x m"] i(2) s by simp
qed

lemma pio_writes:
  assumes drive: "hard_drive M ch slave len view"
  shows "v_phase (view d) = writing a (512 * Suc n) \<Longrightarrow>
    \<exists>st d'. pio_loop M ch True 512 (int (Suc n)) buf (m, d) = Some ((0, 0, st), m, d')
      \<and> view d' = (view d)\<lparr>v_phase := Idle, v_img := put_image a (mem_bytes m buf (512 * Suc n)) (v_img (view d))\<rparr>
      \<and> st AND (ATA_CB_STAT_BSY OR ATA_CB_STAT_DF OR ATA_CB_STAT_DRQ OR ATA_CB_STAT_ERR) = 0"
proof (induction n arbitrary: a buf d)
  case (0 a)
  have tr: "transfers M ch view" using drive by (simp add: hard_drive_def)
  let ?d = "outsw_fl M (iobase1 ch) buf 256 m d"
  have ov: "view ?d = (view d)\<lparr>v_phase := writing (a + 512) 0, v_img := put_image a (mem_bytes m buf 512) (v_img (view d))\<rparr>"
    using outsw_writes[OF tr, of d a 256 0 buf m] 0 by simp
  obtain st d' where "view d' = view ?d" "pio_loop M ch True 512 (int (Suc 0)) buf (m, d) = Some ((0, 0, st), m, d')"
      "st AND (ATA_CB_STAT_BSY OR ATA_CB_STAT_DF OR ATA_CB_STAT_DRQ OR ATA_CB_STAT_ERR) = 0"
    using pio_step[OF drive, of True m buf d m ?d 0] ov by (auto simp: writing_def)
  then show ?case using ov by (auto simp: writing_def)
next
  case (Suc n a)
  have tr: "transfers M ch view" using drive by (simp add: hard_drive_def)
  let ?d = "outsw_fl M (iobase1 ch) buf 256 m d"
  have ov: "view ?d = (view d)\<lparr>v_phase := writing (a + 512) (512 * Suc n), v_img := put_image a (mem_bytes m buf 512) (v_img (view d))\<rparr>"
    using outsw_writes[OF tr, of d a 256 "512 * Suc n" buf m] Suc.prems by (simp add: algebra_simps)
  obtain st d' where s: "view d' = view ?d" "pio_loop M ch True 512 (int (Suc (Suc n))) buf (m, d) = pio_loop M ch True 512 (int (Suc n)) (buf + 512) (m, d')"
    using pio_step[OF drive, of True m buf d m ?d "Suc n"] ov by (auto simp: writing_def)
  have "put_image (a + 512) (mem_bytes m (buf + 512) (512 * Suc n)) (put_image a (mem_bytes m buf 512) (v_img (view d)))
      = put_image a (mem_bytes m buf (512 * Suc (Suc n))) (v_img (view d))"
    using put_image_append[of a "mem_bytes m buf 512"] mem_bytes_append[of m buf 512 "512 * Suc n"] by simp
  then show ?case using Suc.IH[of d' "a + 512" "buf + 512"] ov s by simp
qed

section \<open>Sending a command\<close>

definition set_regs5 :: "u8 \<Rightarrow> u8 \<Rightarrow> u8 \<Rightarrow> u8 \<Rightarrow> ata_view \<Rightarrow> ata_view" where
  "set_regs5 sc sn cl chi v = v\<lparr>v_sc := (sc, fst (v_sc v)), v_sn := (sn, fst (v_sn v)), v_cl := (cl, fst (v_cl v)), v_chi := (chi, fst (v_chi v))\<rparr>"

lemma registersD:
  assumes "hard_drive M ch slave len view" "v_phase (view d) = Idle"
  shows "view (p_outb M v (iobase1 ch + ATA_CB_DH) d) = (view d)\<lparr>v_dh := v\<rparr>"
    "view (p_outb M v (iobase1 ch + ATA_CB_FR) d) = view d"
    "view (p_outb M v (iobase1 ch + ATA_CB_SC) d) = (view d)\<lparr>v_sc := (v, fst (v_sc (view d)))\<rparr>"
    "view (p_outb M v (iobase1 ch + ATA_CB_SN) d) = (view d)\<lparr>v_sn := (v, fst (v_sn (view d)))\<rparr>"
    "view (p_outb M v (iobase1 ch + ATA_CB_CL) d) = (view d)\<lparr>v_cl := (v, fst (v_cl (view d)))\<rparr>"
    "view (p_outb M v (iobase1 ch + ATA_CB_CH) d) = (view d)\<lparr>v_chi := (v, fst (v_chi (view d)))\<rparr>"
  using assms unfolding hard_drive_def registers_def by blast+

lemma write_regs5_view:
  assumes "hard_drive M ch slave len view" "v_phase (view d) = Idle"
  shows "view (write_regs5 M (iobase1 ch) fr sc sn cl chi d) = set_regs5 sc sn cl chi (view d)"
  using assms(2) by (simp add: write_regs5_def set_regs5_def registersD[OF assms(1)])

text \<open>The registers when the command byte is written.\<close>

definition newdh :: "bool \<Rightarrow> u8 \<Rightarrow> u8" where
  "newdh slave dev = (dev AND NOT ATA_CB_DH_DEV1) OR (if slave then ATA_CB_DH_DEV1 else ATA_CB_DH_DEV0)"

definition cmd_view :: "bool \<Rightarrow> ata_pio_command \<Rightarrow> ata_view \<Rightarrow> ata_view" where
  "cmd_view slave cmd v =
     (let v1 = v\<lparr>v_dh := newdh slave (device cmd)\<rparr>;
          v2 = (if command cmd AND NOT 0x11 = ATA_CMD_READ_SECTORS_EXT
                then set_regs5 (sector_count2 cmd) (lba_low2 cmd) (lba_mid2 cmd) (lba_high2 cmd) v1 else v1)
      in set_regs5 (sector_count cmd) (lba_low cmd) (lba_mid cmd) (lba_high cmd) v2)"

lemma cmd_view_simps [simp]:
  "v_phase (cmd_view slave cmd v) = v_phase v" "v_img (cmd_view slave cmd v) = v_img v" "v_dh (cmd_view slave cmd v) = newdh slave (device cmd)"
  by (simp_all add: cmd_view_def set_regs5_def Let_def)

lemma newdh_slave: "(newdh slave dev AND 0x10 \<noteq> 0) = slave"
proof -
  have "newdh slave dev AND 0x10 = (if slave then 0x10 else 0)"
    by (simp add: newdh_def bit.conj_disj_distrib2 ATA_CB_DH_DEV0_def ATA_CB_DH_DEV1_def and.assoc)
  then show ?thesis by simp
qed

lemma executesD:
  "hard_drive M ch slave len view \<Longrightarrow> v_phase (view d) = Idle \<Longrightarrow> (v_dh (view d) AND 0x10 \<noteq> 0) = slave \<Longrightarrow> exec len c (view d) = Some v' \<Longrightarrow>
     view (p_outb M c (iobase1 ch + ATA_CB_CMD) d) = v'"
  by (simp add: hard_drive_def executes_def)

lemma send_cmd_sends:
  assumes drive: "hard_drive M ch slave len view" and ad: "ad_chan ad = ch" "ad_slave ad = slave"
    and idle: "v_phase (view d) = Idle" and ex: "exec len (command cmd) (cmd_view slave cmd (view d)) = Some v'"
  shows "\<exists>d'. send_cmd M ad cmd d = Some (0, d') \<and> view d' = v'"
proof -
  let ?b = "iobase1 ch" and ?ext = "command cmd AND NOT 0x11 = ATA_CMD_READ_SECTORS_EXT" and ?dh = "newdh slave (device cmd)"
  obtain st d1 where w1: "await_not_bsy M ?b d = Some (Some st, d1)" "view d1 = view d" using answersD[OF drive] by blast
  obtain olddh d2 where r: "p_inb M (?b + ATA_CB_DH) d1 = (olddh, d2)" by fastforce
  have v2: "view d2 = view d" using drive w1(2) r unfolding hard_drive_def registers_def by (metis snd_conv)
  let ?d3 = "p_outb M ?dh (?b + ATA_CB_DH) d2"
  have v3: "view ?d3 = (view d)\<lparr>v_dh := ?dh\<rparr>" using registersD(1)[OF drive, of d2 ?dh] idle v2 by simp
  obtain st4 d4 where w4: "(if (olddh XOR ?dh) AND 0x10 \<noteq> 0 then ndelay_await_not_bsy M ?b ?d3 else Some (Some 0, ?d3)) = Some (Some st4, d4)" "view d4 = view ?d3"
  proof (cases "(olddh XOR ?dh) AND 0x10 \<noteq> 0")
    case True
    obtain st4 d4 where "await_not_bsy M ?b (p_ndelay M 400 ?d3) = Some (Some st4, d4)" "view d4 = view (p_ndelay M 400 ?d3)" using answersD[OF drive] by blast
    then show ?thesis using that True quietD(1)[OF drive] by (simp add: ndelay_await_not_bsy_def)
  qed (use that in simp)
  let ?d5 = "if ?ext then write_regs5 M ?b (feature2 cmd) (sector_count2 cmd) (lba_low2 cmd) (lba_mid2 cmd) (lba_high2 cmd) d4 else d4"
  let ?d6 = "write_regs5 M ?b (feature cmd) (sector_count cmd) (lba_low cmd) (lba_mid cmd) (lba_high cmd) ?d5"
  have i4: "v_phase (view d4) = Idle" using w4(2) v3 idle by simp
  have v5: "view ?d5 = (if ?ext then set_regs5 (sector_count2 cmd) (lba_low2 cmd) (lba_mid2 cmd) (lba_high2 cmd) (view d4) else view d4)"
    using write_regs5_view[OF drive i4] by simp
  have "v_phase (view ?d5) = Idle" using v5 i4 by (simp add: set_regs5_def)
  from write_regs5_view[OF drive this] have v6: "view ?d6 = cmd_view slave cmd (view d)"
    unfolding v5 by (simp add: cmd_view_def w4(2) v3 Let_def)
  have ex6: "view (p_outb M (command cmd) (?b + ATA_CB_CMD) ?d6) = v'"
    by (rule executesD[OF drive]) (simp_all only: v6 cmd_view_simps idle newdh_slave ex)
  have "send_cmd M ad cmd d = Some (0, p_outb M (command cmd) (?b + ATA_CB_CMD) ?d6)"
    unfolding send_cmd_def Let_def newdh_def[symmetric] ad
    by (simp only: w1(1) r w4(1) bind.bind_lunit prod.case option.distinct if_False)
  then show ?thesis using ex6 by blast
qed

section \<open>The registers name the sectors of a request\<close>

lemma byte_of: "unat (ucast (drop_bit k w) :: u8) = unat w div 2 ^ k mod 256" for w :: "'a::len word"
  by (simp add: unat_ucast_mod unat_drop_bit_div)

lemma byte_low: "unat (ucast w :: u8) = unat w mod 256" for w :: "'a::len word"
  by (simp add: unat_ucast_mod)

lemma split_byte: "a mod 2 ^ (k + 8) = a mod 2 ^ k + 2 ^ k * (a div 2 ^ k mod 256)" for a :: nat
  using mod_mult2_eq[of a "2 ^ k" "2 ^ 8"] by (simp add: power_add)

lemma bytes_28: "a < 2 ^ 28 \<Longrightarrow> a mod 256 + 2 ^ 8 * (a div 2 ^ 8 mod 256) + 2 ^ 16 * (a div 2 ^ 16 mod 256) + 2 ^ 24 * (a div 2 ^ 24) = a" for a :: nat
proof -
  assume "a < 2 ^ 28"
  have e: "16777216 * (a div 16777216) + a mod 16777216 = a" by (rule mult_div_mod_eq)
  have "a mod 16777216 = a mod 256 + 256 * (a div 256 mod 256) + 65536 * (a div 65536 mod 256)"
    using split_byte[of a 8] split_byte[of a 16] by simp
  with e have "a mod 256 + 256 * (a div 256 mod 256) + 65536 * (a div 65536 mod 256) + 16777216 * (a div 16777216) = a" by linarith
  then show ?thesis by simp
qed

lemma bytes_48: "a < 2 ^ 48 \<Longrightarrow> a mod 256 + 2 ^ 8 * (a div 2 ^ 8 mod 256) + 2 ^ 16 * (a div 2 ^ 16 mod 256)
    + 2 ^ 24 * (a div 2 ^ 24 mod 256) + 2 ^ 32 * (a div 2 ^ 32 mod 256) + 2 ^ 40 * (a div 2 ^ 40 mod 256) = a" for a :: nat
  using split_byte[of a 8] split_byte[of a 16] split_byte[of a 24] split_byte[of a 32] split_byte[of a 40] by simp

lemma low24: "unat (lba AND 0xffffff) = unat lba mod 2 ^ 24" for lba :: u64
proof -
  have "lba AND 0xffffff = take_bit 24 lba" by (simp add: take_bit_eq_mask mask_numeral)
  then show ?thesis by (simp only: unsigned_take_bit_eq) (simp add: take_bit_eq_mod)
qed

lemma mod24_div: "a mod 2 ^ 24 mod 256 = a mod 256" "a mod 2 ^ 24 div 2 ^ 8 mod 256 = a div 2 ^ 8 mod 256"
    "a mod 2 ^ 24 div 2 ^ 16 mod 256 = a div 2 ^ 16 mod 256" for a :: nat
proof -
  have "a mod (2 ^ k * 2 ^ j) div 2 ^ k = a div 2 ^ k mod 2 ^ j" for k j
    by (simp add: mod_mult2_eq)
  from this[of 8 16] this[of 16 8] show "a mod 2 ^ 24 div 2 ^ 8 mod 256 = a div 2 ^ 8 mod 256" "a mod 2 ^ 24 div 2 ^ 16 mod 256 = a div 2 ^ 16 mod 256"
    by (simp_all add: mod_mod_cancel)
  show "a mod 2 ^ 24 mod 256 = a mod 256" by (rule mod_mod_cancel) simp
qed

text \<open>Whether a request needs the extended commands.\<close>

definition needs_ext :: "u64 \<Rightarrow> u16 \<Rightarrow> bool" where
  "needs_ext lba count \<longleftrightarrow> count \<ge> 0x100 \<or> lba + ucast count \<ge> 0x10000000"

lemma needs_ext_iff:
  assumes "unat lba + unat count \<le> 2 ^ 48"
  shows "needs_ext lba count \<longleftrightarrow> 256 \<le> unat count \<or> 2 ^ 28 \<le> unat lba + unat count"
proof -
  have "unat (ucast count :: u64) = unat count" using unat_lt_2p[of count] by (simp add: unat_ucast_mod)
  then have "unat (lba + ucast count) = unat lba + unat count" using assms by (subst unat_add_nowrap) simp_all
  then show ?thesis by (simp add: needs_ext_def word_le_nat_alt)
qed

lemma newdh_bits: "newdh slave dev AND 0xf = dev AND 0xf" "newdh slave dev AND ATA_CB_DH_LBA = dev AND ATA_CB_DH_LBA"
  by (simp_all add: newdh_def bit.conj_disj_distrib2 ATA_CB_DH_DEV0_def ATA_CB_DH_DEV1_def ATA_CB_DH_LBA_def and.assoc)

lemma rw_command_fields:
  fixes lba :: u64 and count :: u16 and iswrite :: bool
  defines "cmd \<equiv> rw_command lba count True iswrite" and "a \<equiv> unat lba" and "n \<equiv> unat count"
  shows "command cmd = (if needs_ext lba count then if iswrite then ATA_CMD_WRITE_SECTORS_EXT else ATA_CMD_READ_SECTORS_EXT
           else if iswrite then ATA_CMD_WRITE_SECTORS else ATA_CMD_READ_SECTORS)"
    and "unat (sector_count cmd) = n mod 256" "unat (lba_low cmd) = a mod 256" "unat (lba_mid cmd) = a div 2 ^ 8 mod 256"
    "unat (lba_high cmd) = a div 2 ^ 16 mod 256" "device cmd AND ATA_CB_DH_LBA \<noteq> 0"
    and "needs_ext lba count \<Longrightarrow> unat (sector_count2 cmd) = n div 2 ^ 8 \<and> unat (lba_low2 cmd) = a div 2 ^ 24 mod 256
        \<and> unat (lba_mid2 cmd) = a div 2 ^ 32 mod 256 \<and> unat (lba_high2 cmd) = a div 2 ^ 40 mod 256"
    and "\<not> needs_ext lba count \<Longrightarrow> unat (device cmd AND 0xf) = a div 2 ^ 24 mod 16"
proof -
  note d = cmd_def rw_command_def Let_def zero_command_def needs_ext_def[symmetric]
  show "command cmd = (if needs_ext lba count then if iswrite then ATA_CMD_WRITE_SECTORS_EXT else ATA_CMD_READ_SECTORS_EXT
           else if iswrite then ATA_CMD_WRITE_SECTORS else ATA_CMD_READ_SECTORS)" by (simp add: d)
  show "unat (sector_count cmd) = n mod 256" by (simp add: d byte_low n_def)
  let ?l = "if needs_ext lba count then lba AND 0xffffff else lba"
  have c: "lba_low cmd = ucast ?l" "lba_mid cmd = ucast (drop_bit 8 ?l)" "lba_high cmd = ucast (drop_bit 16 ?l)" by (simp_all add: d)
  have ul: "unat ?l mod 256 = a mod 256" "unat ?l div 2 ^ 8 mod 256 = a div 2 ^ 8 mod 256" "unat ?l div 2 ^ 16 mod 256 = a div 2 ^ 16 mod 256"
    by (cases "needs_ext lba count"; simp only: if_True if_False low24 mod24_div a_def)+
  show "unat (lba_low cmd) = a mod 256" by (simp only: c byte_low ul)
  show "unat (lba_mid cmd) = a div 2 ^ 8 mod 256" "unat (lba_high cmd) = a div 2 ^ 16 mod 256" by (simp_all only: c byte_of ul)
  have f: "(x AND 0xf OR ATA_CB_DH_LBA) AND ATA_CB_DH_LBA = ATA_CB_DH_LBA" "(x AND 0xf OR ATA_CB_DH_LBA) AND 0xf = x AND 0xf" for x
    by (simp_all add: bit.conj_disj_distrib2 ATA_CB_DH_LBA_def and.assoc)
  show "device cmd AND ATA_CB_DH_LBA \<noteq> 0" by (simp add: d f) (simp add: ATA_CB_DH_LBA_def)
  have nlt: "n < 65536" using unat_lt_2p[of count] by (simp add: n_def)
  have "n div 256 mod 256 = n div 256" using nlt by simp
  then show "needs_ext lba count \<Longrightarrow> unat (sector_count2 cmd) = n div 2 ^ 8 \<and> unat (lba_low2 cmd) = a div 2 ^ 24 mod 256
        \<and> unat (lba_mid2 cmd) = a div 2 ^ 32 mod 256 \<and> unat (lba_high2 cmd) = a div 2 ^ 40 mod 256"
    by (simp add: d byte_of a_def n_def)
  have m: "unat (x AND 0xf) = unat x mod 16" for x :: u8
  proof -
    have "x AND 0xf = take_bit 4 x" by (simp add: take_bit_eq_mask mask_numeral)
    then show ?thesis by (simp only: unsigned_take_bit_eq) (simp add: take_bit_eq_mod)
  qed
  have "a div 2 ^ 24 mod 256 mod 16 = a div 2 ^ 24 mod 16" by (rule mod_mod_cancel) simp
  then show "\<not> needs_ext lba count \<Longrightarrow> unat (device cmd AND 0xf) = a div 2 ^ 24 mod 16"
    by (simp add: d f m byte_of a_def)
qed

definition rw_phase :: "bool \<Rightarrow> (nat \<Rightarrow> u8) \<Rightarrow> nat \<Rightarrow> nat \<Rightarrow> ata_phase" where
  "rw_phase iswrite img a n = (if iswrite then writing a n else reading (image_bytes img a n))"

lemma exec_rw:
  fixes lba :: u64 and count :: u16 and iswrite :: bool
  defines "cmd \<equiv> rw_command lba count True iswrite"
  assumes n: "0 < unat count" and fits: "unat lba + unat count \<le> len" and len: "len \<le> 2 ^ 48"
  shows "exec len (command cmd) (cmd_view slave cmd v)
    = Some ((cmd_view slave cmd v)\<lparr>v_phase := rw_phase iswrite (v_img v) (512 * unat lba) (512 * unat count)\<rparr>)"
proof -
  let ?w = "cmd_view slave cmd v"
  have total: "unat lba + unat count \<le> 2 ^ 48" using fits len by linarith
  note ext = needs_ext_iff[OF total]
  note F = rw_command_fields[of lba count iswrite, folded cmd_def]
  have lba: "v_dh ?w AND ATA_CB_DH_LBA \<noteq> 0" using F(6) by (simp add: newdh_bits)
  have regs: "fst (v_sc ?w) = sector_count cmd" "fst (v_sn ?w) = lba_low cmd" "fst (v_cl ?w) = lba_mid cmd" "fst (v_chi ?w) = lba_high cmd"
    by (simp_all add: cmd_view_def set_regs5_def Let_def)
  show ?thesis
  proof (cases "needs_ext lba count")
    case True
    then have c: "command cmd = (if iswrite then ATA_CMD_WRITE_SECTORS_EXT else ATA_CMD_READ_SECTORS_EXT)" using F(1) by simp
    then have x: "command cmd AND NOT 0x11 = ATA_CMD_READ_SECTORS_EXT" by (simp add: ata_cmd_defs)
    have regs2: "snd (v_sc ?w) = sector_count2 cmd" "snd (v_sn ?w) = lba_low2 cmd" "snd (v_cl ?w) = lba_mid2 cmd" "snd (v_chi ?w) = lba_high2 cmd"
      unfolding cmd_view_def Let_def if_P[OF x] by (simp_all add: set_regs5_def)
    have a: "lba48 ?w = unat lba" unfolding lba48_def regs regs2 F(3-5) using F(7)[OF True] bytes_48[of "unat lba"] total n by simp
    have "count16 ?w = unat count" unfolding count16_def regs regs2 F(2) using F(7)[OF True] n by simp
    then show ?thesis using lba a fits c by (cases iswrite) (simp_all add: exec_def rw_phase_def ata_cmd_defs)
  next
    case False
    then have s: "unat count < 256" "unat lba < 2 ^ 28" using ext n by auto
    have c: "command cmd = (if iswrite then ATA_CMD_WRITE_SECTORS else ATA_CMD_READ_SECTORS)" using F(1) False by simp
    have "unat (sector_count cmd) = unat count" unfolding F(2) using s by simp
    then have cn: "count8 ?w = unat count" unfolding count8_def regs using n by (auto simp: word_eq_iff_unat)
    have "unat lba div 2 ^ 24 mod 16 = unat lba div 2 ^ 24" using s(2) by simp
    then have a: "lba28 ?w = unat lba"
      unfolding lba28_def regs F(3-5) cmd_view_simps newdh_bits F(8)[OF False] using bytes_28[OF s(2)] by simp
    show ?thesis using lba a cn fits c by (cases iswrite) (simp_all add: exec_def rw_phase_def ata_cmd_defs)
  qed
qed

section \<open>Requests\<close>

lemma wait_data_ok:
  assumes drive: "hard_drive M ch slave len view" and ph: "v_phase (view d) \<noteq> Idle"
  shows "\<exists>d'. ata_wait_data M (iobase1 ch) d = Some (0, d') \<and> view d' = view d"
proof -
  obtain st d' where w: "await_not_bsy M (iobase1 ch) (p_ndelay M 400 d) = Some (Some st, d')" "view d' = view (p_ndelay M 400 d)"
    "st AND (ATA_CB_STAT_BSY OR ATA_CB_STAT_DF OR ATA_CB_STAT_ERR) = 0" "st AND ATA_CB_STAT_DRQ \<noteq> 0 \<longleftrightarrow> v_phase (view (p_ndelay M 400 d)) \<noteq> Idle"
    using answersD[OF drive] by blast
  then have "st AND ATA_CB_STAT_DRQ \<noteq> 0" using ph quietD(1)[OF drive] by simp
  then show ?thesis using w quietD(1)[OF drive] status_more(2)[OF w(3)]
    by (simp add: ata_wait_data_def ndelay_await_not_bsy_def)
qed

lemma length_image_bytes [simp]: "length (image_bytes img a n) = n"
  by (simp add: image_bytes_def)

text \<open>What a request does: the memory and the medium afterwards.\<close>

definition disk_read :: "u64 \<Rightarrow> u16 \<Rightarrow> u32 \<Rightarrow> (nat \<Rightarrow> u8) \<Rightarrow> memory \<Rightarrow> memory" where
  "disk_read lba count buf img m = put_bytes buf (image_bytes img (512 * unat lba) (512 * unat count)) m"

definition disk_write :: "u64 \<Rightarrow> u16 \<Rightarrow> u32 \<Rightarrow> memory \<Rightarrow> (nat \<Rightarrow> u8) \<Rightarrow> nat \<Rightarrow> u8" where
  "disk_write lba count buf m img = put_image (512 * unat lba) (mem_bytes m buf (512 * unat count)) img"

lemma pio_transfer_ok:
  assumes drive: "hard_drive M ch slave len view" and ad: "ad_chan ad = ch" and n: "0 < unat (op_count op)"
    and ph: "v_phase (view d) = rw_phase iswrite (v_img (view d)) (512 * unat (op_lba op)) (512 * unat (op_count op))"
  shows "\<exists>d'. ata_pio_transfer M ad op iswrite 512 (m, d)
       = Some ((0, op), if iswrite then m else disk_read (op_lba op) (op_count op) (op_buf op) (v_img (view d)) m, d')
     \<and> view d' = (view d)\<lparr>v_phase := Idle, v_img := if iswrite then disk_write (op_lba op) (op_count op) (op_buf op) m (v_img (view d)) else v_img (view d)\<rparr>"
proof -
  obtain k where k: "unat (op_count op) = Suc k" using n gr0_conv_Suc by blast
  have cnt: "uint (op_count op) = int (Suc k)" using k by (metis uint_nat)
  let ?bs = "image_bytes (v_img (view d)) (512 * unat (op_lba op)) (512 * Suc k)"
  show ?thesis
  proof (cases iswrite)
    case True
    then have "v_phase (view d) = writing (512 * unat (op_lba op)) (512 * Suc k)" using ph k by (simp add: rw_phase_def)
    from pio_writes[OF drive this, of "op_buf op" m] obtain st d'
      where "pio_loop M ch True 512 (int (Suc k)) (op_buf op) (m, d) = Some ((0, 0, st), m, d')"
        "view d' = (view d)\<lparr>v_phase := Idle, v_img := put_image (512 * unat (op_lba op)) (mem_bytes m (op_buf op) (512 * Suc k)) (v_img (view d))\<rparr>"
        "st AND (ATA_CB_STAT_BSY OR ATA_CB_STAT_DF OR ATA_CB_STAT_DRQ OR ATA_CB_STAT_ERR) = 0" by blast
    then show ?thesis using True by (simp add: ata_pio_transfer_def cnt ad disk_write_def k Let_def)
  next
    case False
    then have "v_phase (view d) = reading ?bs" using ph k by (simp add: rw_phase_def)
    from pio_reads[OF drive _ this, of k "op_buf op" m] obtain st d'
      where p: "pio_loop M ch False 512 (int (Suc k)) (op_buf op) (m, d) = Some ((0, 0, st), put_bytes (op_buf op) ?bs m, d')"
        "view d' = (view d)\<lparr>v_phase := Idle\<rparr>"
        "st AND (ATA_CB_STAT_BSY OR ATA_CB_STAT_DF OR ATA_CB_STAT_DRQ OR ATA_CB_STAT_ERR) = 0" by auto
    show ?thesis using False p unfolding ata_pio_transfer_def cnt ad disk_read_def k by (simp add: Let_def)
  qed
qed

lemma pio_cmd_data_ok:
  assumes drive: "hard_drive M ch slave len view" and len: "len \<le> 2 ^ 48" and ad: "ad_chan ad = ch" "ad_slave ad = slave"
    and n: "0 < unat (op_count op)" and fits: "unat (op_lba op) + unat (op_count op) \<le> len" and idle: "v_phase (view d) = Idle"
  shows "\<exists>d'. ata_pio_cmd_data M ad op iswrite (rw_command (op_lba op) (op_count op) True iswrite) (m, d)
       = Some ((0, op), if iswrite then m else disk_read (op_lba op) (op_count op) (op_buf op) (v_img (view d)) m, d')
     \<and> v_phase (view d') = Idle
     \<and> v_img (view d') = (if iswrite then disk_write (op_lba op) (op_count op) (op_buf op) m (v_img (view d)) else v_img (view d))"
proof -
  let ?cmd = "rw_command (op_lba op) (op_count op) True iswrite" and ?d0 = "irq_off M ad d"
  let ?v = "(cmd_view slave ?cmd (view d))\<lparr>v_phase := rw_phase iswrite (v_img (view d)) (512 * unat (op_lba op)) (512 * unat (op_count op))\<rparr>"
  have v0: "view ?d0 = view d" using quietD(3)[OF drive ad(1)] .
  have "exec len (command ?cmd) (cmd_view slave ?cmd (view ?d0)) = Some ?v" unfolding v0 by (rule exec_rw[OF n fits len])
  from send_cmd_sends[OF drive ad _ this] idle v0 obtain d1 where d1: "send_cmd M ad ?cmd ?d0 = Some (0, d1)" "view d1 = ?v" by auto
  have "image_bytes (v_img (view d)) (512 * unat (op_lba op)) (512 * unat (op_count op)) \<noteq> []" using n by (simp flip: length_0_conv)
  then have "v_phase (view d1) \<noteq> Idle" using n by (simp add: d1 rw_phase_def reading_def writing_def)
  from wait_data_ok[OF drive this] obtain d2 where d2: "ata_wait_data M (iobase1 ch) d1 = Some (0, d2)" "view d2 = view d1" by blast
  have "v_phase (view d2) = rw_phase iswrite (v_img (view d2)) (512 * unat (op_lba op)) (512 * unat (op_count op))" "v_img (view d2) = v_img (view d)"
    by (simp_all add: d2 d1)
  with pio_transfer_ok[OF drive ad(1) n this(1), of m] obtain d3
    where d3: "ata_pio_transfer M ad op iswrite 512 (m, d2)
       = Some ((0, op), if iswrite then m else disk_read (op_lba op) (op_count op) (op_buf op) (v_img (view d)) m, d3)"
     "view d3 = (view d2)\<lparr>v_phase := Idle, v_img := if iswrite then disk_write (op_lba op) (op_count op) (op_buf op) m (v_img (view d)) else v_img (view d)\<rparr>"
    by auto
  show ?thesis using d1(1) d2(1) d3 quietD(4)[OF drive ad(1), of d3] by (simp add: ata_pio_cmd_data_def ad(1) Let_def)
qed

lemma ata_request:
  assumes drive: "hard_drive M ch slave len view" and len: "len \<le> 2 ^ 48" and ad: "ad_chan ad = ch" "ad_slave ad = slave"
    and dma: "\<not> conf_dma \<or> iomaster ch = 0"
    and op: "op_command op \<in> {CMD_READ, CMD_WRITE}" "0 < unat (op_count op)" "unat (op_lba op) + unat (op_count op) \<le> len"
    and idle: "v_phase (view d) = Idle"
  shows "\<exists>d'. process_ata_op conf_dma prd M ad op (m, d)
       = Some ((DISK_RET_SUCCESS, op), if op_command op = CMD_READ then disk_read (op_lba op) (op_count op) (op_buf op) (v_img (view d)) m else m, d')
     \<and> v_phase (view d') = Idle
     \<and> v_img (view d') = (if op_command op = CMD_WRITE then disk_write (op_lba op) (op_count op) (op_buf op) m (v_img (view d)) else v_img (view d))"
proof -
  have td: "ata_try_dma conf_dma prd M ad op iswrite 512 (m, d) = (False, m, d)" for iswrite
    using dma ad by (auto simp: ata_try_dma_def Let_def)
  have c: "CMD_READ \<noteq> CMD_WRITE" by (simp add: CMD_READ_def CMD_WRITE_def)
  show ?thesis using op(1) pio_cmd_data_ok[OF drive len ad op(2,3) idle, of "op_command op = CMD_WRITE" m] c c[symmetric]
    by (auto simp: process_ata_op_def ata_readwrite_def td)
qed

text \<open>
  C30. The ATA driver reads and writes the medium. Over every machine whose drive has the documented
  behaviour, a request for sectors of the medium returns success; a read fills the buffer with the bytes
  of exactly those sectors and a write puts the bytes of the buffer there, whatever the count (up to 65535)
  and however large the address (28 or 48 bits); no other memory and no other byte of the medium changes,
  and the drive is idle again.
\<close>

theorem ata_moves_sectors:
  assumes drive: "hard_drive M ch slave len view" and len: "len \<le> 2 ^ 48" and ad: "ad_chan ad = ch" "ad_slave ad = slave"
    and dma: "\<not> conf_dma \<or> iomaster ch = 0"
    and op: "op_command op \<in> {CMD_READ, CMD_WRITE}" "0 < unat (op_count op)" "unat (op_lba op) + unat (op_count op) \<le> len"
    and idle: "v_phase (view d) = Idle"
  shows "\<exists>d'. process_ata_op conf_dma prd M ad op (m, d)
       = Some ((DISK_RET_SUCCESS, op), if op_command op = CMD_READ then disk_read (op_lba op) (op_count op) (op_buf op) (v_img (view d)) m else m, d')
     \<and> v_phase (view d') = Idle
     \<and> v_img (view d') = (if op_command op = CMD_WRITE then disk_write (op_lba op) (op_count op) (op_buf op) m (v_img (view d)) else v_img (view d))"
  by (rule ata_request[OF assms])

text \<open>A drive of sixteen sectors, which is never busy: the first drive of the first channel.\<close>

definition ide_status :: "ata_view \<Rightarrow> u8" where
  "ide_status v = (if v_phase v = Idle then 0x40 else 0x48)"

definition ide_out :: "u8 \<Rightarrow> u16 \<Rightarrow> ata_view \<Rightarrow> ata_view" where
  "ide_out b port v =
     (if port = 0x1f2 then v\<lparr>v_sc := (b, fst (v_sc v))\<rparr>
      else if port = 0x1f3 then v\<lparr>v_sn := (b, fst (v_sn v))\<rparr>
      else if port = 0x1f4 then v\<lparr>v_cl := (b, fst (v_cl v))\<rparr>
      else if port = 0x1f5 then v\<lparr>v_chi := (b, fst (v_chi v))\<rparr>
      else if port = 0x1f6 then v\<lparr>v_dh := b\<rparr>
      else if port = 0x1f7 then (case exec 16 b v of None \<Rightarrow> v | Some v' \<Rightarrow> v')
      else v)"

definition ide_inw :: "ata_view \<Rightarrow> u16 \<times> ata_view" where
  "ide_inw v = (case v_phase v of Reading (b0 # b1 # bs) \<Rightarrow> (ucast b0 OR push_bit 8 (ucast b1), v\<lparr>v_phase := reading bs\<rparr>) | _ \<Rightarrow> (0, v))"

definition ide_outw :: "u16 \<Rightarrow> ata_view \<Rightarrow> ata_view" where
  "ide_outw w v = (case v_phase v of
       Writing a (Suc (Suc n)) \<Rightarrow> v\<lparr>v_img := (v_img v)(a := ucast w, Suc a := ucast (drop_bit 8 w)), v_phase := writing (a + 2) n\<rparr>
     | _ \<Rightarrow> v)"

definition ide :: "ata_view ports" where
  "ide = \<lparr>p_inb = (\<lambda>port v. (if port = 0x1f6 then v_dh v else ide_status v, v)), p_outb = ide_out,
     p_inw = (\<lambda>_. ide_inw), p_outw = (\<lambda>w _. ide_outw w), p_outl = (\<lambda>_ _ v. v), p_ndelay = (\<lambda>_ v. v), p_yield = (\<lambda>v. v),
     p_tsc = (\<lambda>_. 0), p_khz = 1000\<rparr>"

definition ide_channel :: ata_channel_s where
  "ide_channel = \<lparr>iobase1 = 0x1f0, iobase2 = 0x3f4, iomaster = 0, ch_irq = 14, chanid = 0, pci_bdf = None\<rparr>"

lemma ide_is_hard_drive: "hard_drive ide ide_channel False 16 (\<lambda>v. v)"
proof -
  have "answers ide ide_channel (\<lambda>v. v)"
    unfolding answers_def by (rule allI, rule exI[of _ 0]) (simp add: ide_def ide_channel_def ide_status_def ata_cb_defs ata_stat_defs)
  moreover have "quiet ide ide_channel (\<lambda>v. v)" by (simp add: quiet_def ide_def ide_channel_def ide_out_def ata_cb_defs)
  moreover have "registers ide ide_channel (\<lambda>v. v)" by (simp add: registers_def ide_def ide_channel_def ide_out_def ata_cb_defs)
  moreover have "executes ide ide_channel False 16 (\<lambda>v. v)" by (simp add: executes_def ide_def ide_channel_def ide_out_def ata_cb_defs)
  moreover have "transfers ide ide_channel (\<lambda>v. v)" by (simp add: transfers_def ide_def ide_inw_def ide_outw_def)
  ultimately show ?thesis by (simp add: hard_drive_def)
qed

definition ide_drive :: drive_s where
  "ide_drive = \<lparr>d_type = DTYPE_ATA, floppy_type = 0, lchs = \<lparr>heads = 1, cylinders = 1, spt = 16\<rparr>, sectors = 16, cntl_id = 0, removable = 0,
     translation = 0, blksize = 512, pchs = \<lparr>heads = 1, cylinders = 1, spt = 16\<rparr>\<rparr>"

definition ide_view :: ata_view where
  "ide_view = \<lparr>v_dh = 0, v_sc = (0, 0), v_sn = (0, 0), v_cl = (0, 0), v_chi = (0, 0), v_phase = Idle, v_img = (\<lambda>i. if i < 512 then 0 else 0xe5)\<rparr>"

text \<open>The second sector of that drive is read to 0x7c00: the last byte there is the last byte of the sector.\<close>

theorem ata_moves_sectors_witness:
  "let op = \<lparr>op_lba = 1, op_buf = 0x7c00, op_drive = ide_drive, op_count = 1, op_command = CMD_READ\<rparr>;
       ad = \<lparr>ad_drive = ide_drive, ad_chan = ide_channel, ad_slave = False\<rparr>
   in \<exists>m' d'. process_ata_op False 0 ide ad op (\<lambda>_. 0, ide_view) = Some ((DISK_RET_SUCCESS, op), m', d')
        \<and> v_phase d' = Idle \<and> m' (0x7c00 + of_nat 511) = 0xe5"
proof -
  define op where "op = \<lparr>op_lba = 1, op_buf = 0x7c00, op_drive = ide_drive, op_count = 1, op_command = CMD_READ\<rparr>"
  define ad where "ad = \<lparr>ad_drive = ide_drive, ad_chan = ide_channel, ad_slave = False\<rparr>"
  have "\<exists>d'. process_ata_op False 0 ide ad op (\<lambda>_. 0, ide_view)
       = Some ((DISK_RET_SUCCESS, op), if op_command op = CMD_READ then disk_read (op_lba op) (op_count op) (op_buf op) (v_img ide_view) (\<lambda>_. 0) else (\<lambda>_. 0), d')
     \<and> v_phase d' = Idle
     \<and> v_img d' = (if op_command op = CMD_WRITE then disk_write (op_lba op) (op_count op) (op_buf op) (\<lambda>_. 0) (v_img ide_view) else v_img ide_view)"
    by (rule ata_moves_sectors[OF ide_is_hard_drive]) (simp_all add: op_def ad_def ide_channel_def ide_view_def)
  moreover have "disk_read (op_lba op) (op_count op) (op_buf op) (v_img ide_view) (\<lambda>_. 0) (0x7c00 + of_nat 511) = 0xe5"
    unfolding disk_read_def op_def disk_op_s.simps by (subst put_bytes_at) (simp_all add: image_bytes_def ide_view_def)
  moreover have "op_command op = CMD_READ" by (simp add: op_def)
  ultimately show ?thesis unfolding Let_def op_def[symmetric] ad_def[symmetric] by auto
qed

end
