(* ===== verification/Ata_Boot.thy ===== *)
theory Ata_Boot
  imports Boot Ata_Disk
begin

text \<open>
  From interrupt 19h down to the ports: the boot services, the disk services, the block layer and the ATA
  driver together, over a machine whose drive has the documented behaviour.
\<close>

text \<open>The driver of the block layer is the ATA driver wherever that returns.\<close>

definition drives_ata :: "'d driver \<Rightarrow> u32 \<Rightarrow> 'd ports \<Rightarrow> atadrive_s \<Rightarrow> bool" where
  "drives_ata drv prd M ad \<longleftrightarrow> (\<forall>op s r. op_drive op = ad_drive ad \<and> process_ata_op False prd M ad op s = Some r \<longrightarrow> drv DTYPE_ATA op s = r)"

lemma ata_reads_blocks:
  assumes drive: "hard_drive M (ad_chan ad) (ad_slave ad) len view" and len: "len \<le> 2 ^ 48"
    and drv: "drives_ata drv prd M ad" "d_type (ad_drive ad) = DTYPE_ATA" and idle: "v_phase (view h) = Idle"
  shows "reads_blocks_at 512 n (v_img (view h)) len {} (process_op drv) (ad_drive ad) h"
  unfolding reads_blocks_at_def
proof (intro allI impI, elim conjE)
  fix op :: disk_op_s and m
  assume a: "op_drive op = ad_drive ad" "op_command op = CMD_READ" "0 < unat (op_count op)"
    "unat (op_lba op) + unat (op_count op) \<le> len" "unat (op_buf op) + 512 * unat (op_count op) \<le> 2 ^ 20"
  let ?img = "v_img (view h)" and ?n = "512 * unat (op_count op)"
  let ?bs = "image_bytes ?img (512 * unat (op_lba op)) ?n"
  obtain d' where p: "process_ata_op False prd M ad op (m, h) = Some ((DISK_RET_SUCCESS, op), put_bytes (op_buf op) ?bs m, d')"
    using ata_request[OF drive len refl refl, of False op h prd m] a idle by (auto simp: disk_read_def)
  then have "process_op drv op (m, h) = ((DISK_RET_SUCCESS, op), put_bytes (op_buf op) ?bs m, d')"
    using drv a(1) by (simp add: process_op_def drives_ata_def DTYPE_ATA_def)
  moreover have "put_bytes (op_buf op) ?bs m (op_buf op + of_nat i) = ?img (512 * unat (op_lba op) + i)" if "i < ?n" for i
    using that a(5) by (subst put_bytes_at) (simp_all add: image_bytes_def)
  moreover have "put_bytes (op_buf op) ?bs m x = m x" if "x \<notin> span (op_buf op) ?n" for x
    by (rule put_bytes_other) (use that in \<open>auto simp: span_iff\<close>)
  ultimately show "\<exists>op' m' h'. process_op drv op (m, h) = ((DISK_RET_SUCCESS, op'), m', h')
        \<and> op_count op' = op_count op \<and> op_lba op' = op_lba op \<and> op_drive op' = ad_drive ad \<and> op_command op' = CMD_READ
        \<and> (\<forall>i < ?n. m' (op_buf op + of_nat i) = ?img (512 * unat (op_lba op) + i))
        \<and> (\<forall>x. x \<notin> {} \<union> span (op_buf op) ?n \<longrightarrow> m' x = m x)"
    using a(1,2) by simp
qed

text \<open>
  C32. Booting from an ATA drive. When the hard disk comes first in the boot order, no drive is emulated and
  the first hard disk is an ATA drive with the documented behaviour, interrupt 19h loads the first sector of
  its medium to 7C00h, through interrupt 13h, the block layer and the ports of the drive, and jumps to it with
  the drive number in \<open>DL\<close> if the sector ends with the signature; without the signature, or when the loaded
  code returns, the next device of the order is tried.
\<close>

theorem boots_from_ata_drive:
  fixes s :: "'d boot" and view :: "'d \<Rightarrow> ata_view"
  defines "d0 \<equiv> idmap (drives (bdisk s)) EXTTYPE_HD ! 0" and "img \<equiv> v_img (view (snd (hw (bdisk s))))"
  assumes ord: "bevcount (ipl s) \<le> 8" "unat (bootorder (ipl s)) < 2 ^ 16" "boot_list (ipl s) = b # rest"
      "ie_type (bev (ipl s) ! b) = IPL_TYPE_HARDDISK"
    and disk: "active (cdemu (bdisk s)) = 0" "d0 \<notin> {0, cdemu_drive (bdisk s)}" "0 < capacity (lchs (drive_at (drives (bdisk s)) d0))"
    and drv: "ad_drive ad = drive_at (drives (bdisk s)) d0" "d_type (ad_drive ad) = DTYPE_ATA" "drives_ata (env_drv (be_disk env)) prd M ad"
    and drive: "hard_drive M (ad_chan ad) (ad_slave ad) len view" "1 \<le> len" "len \<le> 2 ^ 48" "v_phase (view (snd (hw (bdisk s)))) = Idle"
  shows "\<exists>d br. (\<forall>i < 512. fst (hw d) (0x7c00 + of_nat i) = img i) \<and> r_dl br = 0x80 \<and> r_ax br = 0xaa55
     \<and> map_boot_end bdisk (handle_19 env s) =
         (if img 510 = 0x55 \<and> img 511 = 0xaa
          then case be_entry env 0 0x7c00 br d of None \<Rightarrow> Runs 0 0x7c00 br d | Some d1 \<Rightarrow> try_all env (ipl s) 1 rest d1
          else try_all env (ipl s) 1 rest d)"
proof -
  have "reads_blocks_at 512 1 img len {} (process_op (env_drv (be_disk env))) (drive_at (drives (bdisk s)) d0) (snd (hw (bdisk s)))"
    unfolding img_def drv(1)[symmetric] by (rule ata_reads_blocks[OF drive(1,3) drv(3,2) drive(4)])
  from boots_from_hard_disk[OF ord disk[unfolded d0_def] this[unfolded d0_def]] drive(2) show ?thesis by simp
qed

text \<open>
  A machine whose only drive is the one of sixteen sectors, with a boot sector; the loaded code keeps the
  machine.
\<close>

definition ex_ide_boot :: "ata_view boot" where
  "ex_ide_boot = \<lparr>ipl = (ipl ex_boot)\<lparr>bootorder := 2\<rparr>, boot_sequence = 0, bdisk =
    \<lparr>floppy_last_status = 0, disk_last_status = 0, disk_interrupt_flag = 0,
     drives = (drives ex_bdisk)\<lparr>idmap := (\<lambda>_. 5 # replicate 15 0), drive_at := (\<lambda>_. ide_drive)\<rparr>,
     cdemu = cdemu ex_bdisk, cdemu_drive = 9, cdrom_locks = replicate 16 0, dpte = undefined, int13ext = undefined, int13dpt = undefined,
     eltorito = undefined, hw = (\<lambda>_. 0, ide_view\<lparr>v_img := ex_image\<rparr>)\<rparr>\<rparr>"

definition ex_ide :: atadrive_s where
  "ex_ide = \<lparr>ad_drive = ide_drive, ad_chan = ide_channel, ad_slave = False\<rparr>"

definition ex_ide_env :: "ata_view boot_env" where
  "ex_ide_env = \<lparr>be_disk = \<lparr>env_drv = (\<lambda>t op s. case process_ata_op False 0 ide ex_ide op s of None \<Rightarrow> ((DISK_RET_EPARAM, op), s) | Some r \<Rightarrow> r),
       env_eject = (\<lambda>_. (0, False)), env_ata = undefined, env_param_table = 0, env_ebda_seg = 0, env_dpte_offset = 0\<rparr>,
     be_junk = undefined, be_cmd = undefined, be_khz = 0, be_info = 0, be_sense = 0, be_buf = 0, be_tsc = (\<lambda>_. []),
     be_bcv = (\<lambda>seg ip d. d), be_entry = (\<lambda>seg ip br d. None)\<rparr>"

theorem boots_from_ata_drive_witness:
  "\<exists>d br. fst (hw d) (0x7c00 + of_nat 510) = 0x55 \<and> map_boot_end bdisk (handle_19 ex_ide_env ex_ide_boot) = Runs 0 0x7c00 br d"
proof -
  have l: "boot_list (ipl ex_ide_boot) = 1 # []" by (simp add: boot_list_def ex_ide_boot_def ex_boot_ipl digit_def upt_rec)
  have t: "bevcount (ipl ex_ide_boot) \<le> 8" "unat (bootorder (ipl ex_ide_boot)) < 2 ^ 16" "ie_type (bev (ipl ex_ide_boot) ! 1) = IPL_TYPE_HARDDISK"
    by (simp_all add: ex_ide_boot_def ex_boot_ipl own_entry_def)
  have h: "active (cdemu (bdisk ex_ide_boot)) = 0" "idmap (drives (bdisk ex_ide_boot)) EXTTYPE_HD ! 0 \<notin> {0, cdemu_drive (bdisk ex_ide_boot)}"
    "0 < capacity (lchs (drive_at (drives (bdisk ex_ide_boot)) (idmap (drives (bdisk ex_ide_boot)) EXTTYPE_HD ! 0)))"
    by (simp_all add: ex_ide_boot_def ex_bdisk_def capacity_def ide_drive_def)
  have a: "ad_drive ex_ide = drive_at (drives (bdisk ex_ide_boot)) (idmap (drives (bdisk ex_ide_boot)) EXTTYPE_HD ! 0)" "d_type (ad_drive ex_ide) = DTYPE_ATA"
    "drives_ata (env_drv (be_disk ex_ide_env)) 0 ide ex_ide"
    by (simp_all add: ex_ide_boot_def ex_ide_def ex_ide_env_def ide_drive_def drives_ata_def)
  have d: "hard_drive ide (ad_chan ex_ide) (ad_slave ex_ide) 16 (\<lambda>v. v)" using ide_is_hard_drive by (simp add: ex_ide_def)
  have e: "be_entry ex_ide_env seg ip br d = None" for seg ip br d by (simp add: ex_ide_env_def)
  have v: "v_phase (snd (hw (bdisk ex_ide_boot))) = Idle" "v_img (snd (hw (bdisk ex_ide_boot))) = ex_image" "ex_image 510 = 0x55" "ex_image 511 = 0xaa"
    by (simp_all add: ex_ide_boot_def ide_view_def ex_image_def)
  obtain d br where r: "\<forall>i < 512. fst (hw d) (0x7c00 + of_nat i) = ex_image i"
    "map_boot_end bdisk (handle_19 ex_ide_env ex_ide_boot) = Runs 0 0x7c00 br d"
    using boots_from_ata_drive[OF t(1,2) l t(3) h a d _ _ v(1)] unfolding e v by auto
  then show ?thesis using r(1)[rule_format, of 510] v(3) by (intro exI[of _ d] exI[of _ br]) simp
qed

end
