(* ===== verification/Ata_Dma.thy ===== *)
theory Ata_Dma
  imports Ata
begin

text \<open>
  What a table of descriptors means to the bus master: from an address on, each region starts where the one
  before ended, has a positive length, stays within a 64 KiB page, and exactly the last has the end mark.
\<close>

fun prd_covers :: "nat \<Rightarrow> nat \<Rightarrow> sff_dma_prd list \<Rightarrow> bool" where
  "prd_covers a n [] \<longleftrightarrow> n = 0"
| "prd_covers a n ((b, c) # ds) \<longleftrightarrow>
     (let k = unat (c AND 0x7fffffff) in
      unat b = a \<and> 0 < k \<and> k \<le> n \<and> a mod 0x10000 + k \<le> 0x10000 \<and> (bit c 31 \<longleftrightarrow> ds = []) \<and> prd_covers (a + k) (n - k) ds)"

lemma low16: "unat (w AND 0xffff) = unat w mod 0x10000" for w :: u32
proof -
  have "w AND 0xffff = take_bit 16 w" by (simp add: take_bit_eq_mask mask_numeral)
  then show ?thesis by (simp only: unsigned_take_bit_eq) (simp add: take_bit_eq_mod)
qed

lemma unat_prd_count: "unat (prd_count dest bytes) = min (unat bytes) (0x10000 - unat dest mod 0x10000)"
proof -
  have m: "unat (0x10000 - (dest AND 0xffff)) = 0x10000 - unat dest mod 0x10000"
    by (subst unat_sub) (simp_all add: word_le_nat_alt low16 less_imp_le)
  have le: "0x10000 - unat dest mod 0x10000 \<le> 0x10000" by simp
  show ?thesis unfolding prd_count_def Let_def by (simp only: word_less_nat_alt if_distrib[of unat] m low16) (use le in \<open>auto simp: min_def\<close>)
qed

lemma prd_flag:
  fixes c :: u32
  assumes "unat c \<le> 0x10000"
  shows "(c OR 0x80000000) AND 0x7fffffff = c" "c AND 0x7fffffff = c" "bit (c OR 0x80000000) 31" "\<not> bit c 31"
proof -
  have hi: "\<not> bit c i" if "17 \<le> i" for i
  proof -
    have "unat c < 2 ^ i" using assms power_increasing[OF that, of "2::nat"] by simp
    then have "\<not> bit (unat c) i" by (simp add: bit_iff_odd)
    then show ?thesis using bit_imp_le_length[of c i] by (auto simp: bit_unsigned_iff)
  qed
  have "(0x7fffffff :: u32) = mask 31" by (simp add: mask_numeral)
  then have b: "bit (0x7fffffff :: u32) i \<longleftrightarrow> i < 31" for i by (simp only: bit_mask_iff) auto
  have b2: "bit (0x80000000 :: u32) i \<longleftrightarrow> i = 31" for i
    using bit_exp_iff[of 31 i, where 'a=u32] by auto
  have low: "n < 31" if "bit c n" for n using hi[of n] that by linarith
  show "c AND 0x7fffffff = c" by (rule bit_word_eqI) (use low in \<open>auto simp only: bit_and_iff b\<close>)
  show "(c OR 0x80000000) AND 0x7fffffff = c" by (rule bit_word_eqI) (use low in \<open>auto simp only: bit_and_iff bit_or_iff b b2\<close>)
  show "bit (c OR 0x80000000) 31" by (simp add: bit_simps b2)
  show "\<not> bit c 31" using hi by simp
qed

lemma build_prd_empty: "build_prd n dest 0 = ([], True)"
  by (cases n) simp_all

text \<open>The number of 64 KiB pages that a region reaches into, after the first one.\<close>

definition pages_crossed :: "u32 \<Rightarrow> u32 \<Rightarrow> nat" where
  "pages_crossed dest bytes = (unat dest + unat bytes - 1) div 0x10000 - unat dest div 0x10000"

lemma prd_count_last:
  assumes "unat (prd_count dest bytes) = unat bytes"
  shows "pages_crossed dest bytes = 0"
proof -
  have "unat dest mod 0x10000 + unat bytes - 1 < 0x10000" using assms unat_prd_count[of dest bytes] mod_less_divisor[of "0x10000" "unat dest"] by linarith
  then have "(unat dest + unat bytes - 1) div 0x10000 \<le> unat dest div 0x10000" using mult_div_mod_eq[of "0x10000" "unat dest"] by linarith
  then show ?thesis by (simp add: pages_crossed_def)
qed

lemma prd_count_more:
  assumes "unat dest + unat bytes \<le> 2 ^ 32" and more: "unat (prd_count dest bytes) < unat bytes"
  defines "c \<equiv> prd_count dest bytes"
  shows "unat (dest + c) = unat dest + unat c" "pages_crossed dest bytes = Suc (pages_crossed (dest + c) (bytes - c))"
proof -
  note cv = unat_prd_count[of dest bytes, folded c_def] and more = more[folded c_def]
  have full: "unat c = 0x10000 - unat dest mod 0x10000" using cv more by linarith
  show d: "unat (dest + c) = unat dest + unat c" using assms(1) more by (subst unat_add_nowrap) simp_all
  let ?q = "unat dest div 0x10000"
  have q: "unat dest + unat c = 0x10000 * Suc ?q" using full mult_div_mod_eq[of "0x10000" "unat dest"] by (simp only: mult_Suc_right)
  then have page: "(unat dest + unat c) div 0x10000 = Suc ?q" by simp
  have "Suc ?q \<le> (unat dest + unat bytes - 1) div 0x10000"
    using div_le_mono[of "unat dest + unat c" "unat dest + unat bytes - 1" "0x10000"] more page by simp
  moreover have "unat (bytes - c) = unat bytes - unat c" using more by (simp add: unat_sub word_le_nat_alt)
  ultimately show "pages_crossed dest bytes = Suc (pages_crossed (dest + c) (bytes - c))"
    using more by (simp add: pages_crossed_def d page Suc_diff_le[symmetric] del: Suc_diff_Suc)
qed

lemma build_prd_spec:
  assumes "unat dest + unat bytes \<le> 2 ^ 32" "0 < unat bytes"
  shows "\<exists>ds. build_prd n dest bytes = (ds, pages_crossed dest bytes < n) \<and> length ds \<le> n
    \<and> (pages_crossed dest bytes < n \<longrightarrow> prd_covers (unat dest) (unat bytes) ds)"
  using assms
proof (induction n arbitrary: dest bytes)
  case 0
  then show ?case by (auto simp: unat_gt_0)
next
  case (Suc n)
  define c where "c = prd_count dest bytes"
  note cv = unat_prd_count[of dest bytes, folded c_def]
  have nz: "bytes \<noteq> 0" using Suc.prems(2) by auto
  have cpos: "0 < unat c" using Suc.prems(2) by (simp add: cv)
  have cle: "unat c \<le> unat bytes" "unat c \<le> 0x10000" "unat dest mod 0x10000 + unat c \<le> 0x10000"
    using cv mod_less_divisor[of "0x10000" "unat dest"] by linarith+
  note flag = prd_flag[OF cle(2)]
  have left: "unat (bytes - c) = unat bytes - unat c" using cle(1) by (simp add: unat_sub word_le_nat_alt)
  show ?case
  proof (cases "bytes - c = 0")
    case True
    then have eq: "unat bytes = unat c" using left cle(1) by simp
    have "build_prd (Suc n) dest bytes = ([(dest, c OR 0x80000000)], True)"
      unfolding build_prd.simps c_def[symmetric] Let_def True by (simp add: nz build_prd_empty)
    then show ?thesis using prd_count_last[of dest bytes, folded c_def] eq cpos cle flag by simp
  next
    case False
    then have "unat (bytes - c) \<noteq> 0" by (simp add: unat_eq_zero)
    then have more: "unat c < unat bytes" using left by simp
    note step = prd_count_more[OF Suc.prems(1), folded c_def, OF more]
    obtain ds where ds: "build_prd n (dest + c) (bytes - c) = (ds, pages_crossed (dest + c) (bytes - c) < n)" "length ds \<le> n"
        "pages_crossed (dest + c) (bytes - c) < n \<longrightarrow> prd_covers (unat dest + unat c) (unat bytes - unat c) ds"
      using Suc.IH[of "dest + c" "bytes - c"] Suc.prems more by (auto simp: step(1) left)
    have "ds \<noteq> []" if "pages_crossed (dest + c) (bytes - c) < n" using ds(3) that more by auto
    moreover have "build_prd (Suc n) dest bytes = ((dest, c) # ds, pages_crossed dest bytes < Suc n)"
      unfolding build_prd.simps c_def[symmetric] Let_def if_not_P[OF False] if_not_P[OF nz] ds(1) step(2) by simp
    ultimately show ?thesis using cpos cle flag ds step(2) by simp
  qed
qed

text \<open>
  C31. The descriptor table of a DMA transfer. For a buffer of at least one byte within the address space, the
  table is reported complete exactly when the buffer touches at most sixteen 64 KiB pages; then its at most
  sixteen regions lie one after another, cover exactly the bytes of the buffer, none crosses a page, and
  exactly the last has the end mark.
\<close>

theorem dma_table_covers_buffer:
  assumes "unat dest + unat bytes \<le> 2 ^ 32" "0 < unat bytes"
  shows "\<exists>ds. build_prd 16 dest bytes = (ds, pages_crossed dest bytes < 16) \<and> length ds \<le> 16
    \<and> (pages_crossed dest bytes < 16 \<longrightarrow> prd_covers (unat dest) (unat bytes) ds)"
  using build_prd_spec[OF assms] .

text \<open>A buffer of a mebibyte that starts in the middle of a page needs seventeen regions and is refused.\<close>

theorem dma_table_covers_buffer_witness:
  "\<exists>ds. build_prd 16 0x18000 0x10000 = (ds, True) \<and> prd_covers 0x18000 0x10000 ds
    \<and> \<not> snd (build_prd 16 0x18000 0x100000)"
  using dma_table_covers_buffer[of "0x18000" "0x10000"] dma_table_covers_buffer[of "0x18000" "0x100000"] by (auto simp: pages_crossed_def)

end
