(* ===== verification/Pmm_Client.thy ===== *)
theory Pmm_Client
  imports Pmm
begin

text \<open>
  What the code that allocates memory relies on: the helper functions of \<open>bios/seabios/src/util.h\<close>, and the
  effect of the allocator on the set of blocks that are handed out.
\<close>

definition malloc_fseg :: "u32 \<Rightarrow> pmm \<Rightarrow> u32 \<times> pmm" where
  "malloc_fseg sz s = pmm_malloc ZoneFSeg PMM_DEFAULT_HANDLE sz MALLOC_MIN_ALIGN s"

definition malloc_tmphigh :: "u32 \<Rightarrow> pmm \<Rightarrow> u32 \<times> pmm" where
  "malloc_tmphigh sz s = pmm_malloc ZoneTmpHigh PMM_DEFAULT_HANDLE sz MALLOC_MIN_ALIGN s"

definition malloc_tmp :: "u32 \<Rightarrow> pmm \<Rightarrow> u32 \<times> pmm" where
  "malloc_tmp sz s =
     (let (p, s1) = malloc_tmphigh sz s
      in if p \<noteq> 0 then (p, s1) else pmm_malloc ZoneTmpLow PMM_DEFAULT_HANDLE sz MALLOC_MIN_ALIGN s1)"

definition memalign_tmphigh :: "u32 \<Rightarrow> u32 \<Rightarrow> pmm \<Rightarrow> u32 \<times> pmm" where
  "memalign_tmphigh align sz s = pmm_malloc ZoneTmpHigh PMM_DEFAULT_HANDLE sz align s"

definition THREADSTACKSIZE :: u32 where "THREADSTACKSIZE = 4096"

section \<open>The blocks that are handed out\<close>

definition live :: "pmm \<Rightarrow> u32 set" where "live s = p_data ` set (PMMAllocs s)"

definition alloc_ok :: "pmm \<Rightarrow> bool" where "alloc_ok s \<longleftrightarrow> pmm_inv s \<and> 0 \<notin> live s"

text \<open>A block is apart from the memory in which the extended BIOS data area lies.\<close>

definition off_ebda :: "u32 \<Rightarrow> nat \<Rightarrow> bool" where
  "off_ebda p n \<longleftrightarrow> unat p + n < 2 ^ 32 \<and> (unat p + n \<le> 0x90000 \<or> 0xa0000 \<le> unat p)"

lemma malloc_step:
  assumes "alloc_ok s" "req_ok sz k" "z \<noteq> ZoneLow" "pmm_malloc z handle sz (2 ^ k) s = (p, s')"
  shows "alloc_ok s' \<and> (if p = 0 then live s' = live s else p \<notin> live s \<and> live s' = insert p (live s) \<and> off_ebda p (unat sz))"
proof -
  have inv: "pmm_inv s" using assms(1) by (simp add: alloc_ok_def)
  show ?thesis
  proof (rule pmm_malloc_cases[OF inv assms(2), of z handle])
    show "z = ZoneLow \<longrightarrow> low_ok sz k" using assms(3) by simp
  next
    fix s'' assume "pmm_malloc z handle sz (2 ^ k) s = (0, s'')" "pmm_inv s''" "PMMAllocs s'' = PMMAllocs s"
    then show ?thesis using assms(1,4) by (auto simp: alloc_ok_def live_def)
  next
    fix zi i t
    let ?s = "(set_cur z (p_data i) t)\<lparr>PMMAllocs := i # PMMAllocs s\<rparr>"
    assume e: "pmm_malloc z handle sz (2 ^ k) s = (p_data i, ?s)" "p_data i \<noteq> 0"
      and z: "unat (zbottom z t) \<le> unat (p_data i)" "unat (p_data i) + unat sz \<le> unat (zcur z t)"
      and t: "holds t ((unat (p_info i), unat (zcur zi s)) # blocks (PMMAllocs s))"
      and h: "holds (set_cur z (p_data i) t) (blocks (i # PMMAllocs s))"
    have r: "p = p_data i" "s' = ?s" using e(1) assms(4) by auto
    have "p_data i \<notin> live s"
    proof
      assume "p_data i \<in> live s"
      then obtain j where j: "j \<in> set (PMMAllocs s)" "p_data j = p_data i" by (auto simp: live_def)
      let ?b = "(unat (p_data i), unat (p_olddata i))" and ?c = "(unat (p_data j), unat (p_olddata j))"
      have c: "?c \<in> set (blocks (PMMAllocs s))" using j(1) by (auto simp: blocks_def node_blocks_def)
      then have "sep ?b ?c" "fst ?b < snd ?b" "fst ?c < snd ?c" using h by (auto simp: holds_def node_blocks_def)
      then show False using j(2) by (auto simp: sep_def)
    qed
    moreover have "off_ebda (p_data i) (unat sz)"
    proof -
      have "unat (zcur z t) \<le> unat (ztop z t)" "unat (ztop z t) \<le> 0x90000 \<or> 0xa0000 \<le> unat (zbottom z t)"
        using t assms(3) by (auto simp: holds_def zones_ok_def)
      then show ?thesis using z unat_lt_2p[of "ztop z t"] by (auto simp: off_ebda_def)
    qed
    moreover have "pmm_inv ?s" using h by (simp add: pmm_inv_def)
    ultimately show ?thesis using assms(1) e(2) by (auto simp: r alloc_ok_def live_def)
  qed
qed

lemma free_step:
  assumes "alloc_ok s"
  shows "alloc_ok (snd (pmm_free d s))" "live s - {d} \<subseteq> live (snd (pmm_free d s))" "live (snd (pmm_free d s)) \<subseteq> live s"
proof -
  obtain ret s' where f: "pmm_free d s = (ret, s')" by fastforce
  from pmm_free_spec[of s d] assms have r: "pmm_inv s'" and
    c: "s' = s \<or> (\<exists>xs i ys. PMMAllocs s = xs @ i # ys \<and> p_data i = d \<and>
         map (\<lambda>i. (p_data i, p_handle i)) (PMMAllocs s') = map (\<lambda>i. (p_data i, p_handle i)) (xs @ ys))"
    by (auto simp: f alloc_ok_def split: if_splits)
  have "map p_data l = map p_data l'" if "map (\<lambda>i. (p_data i, p_handle i)) l = map (\<lambda>i. (p_data i, p_handle i)) l'" for l l'
    using arg_cong[OF that, of "map fst"] by (simp add: comp_def)
  note ids = this
  have "live s' \<subseteq> live s \<and> live s - {d} \<subseteq> live s'"
  proof (cases "s' = s")
    case False
    then obtain xs i ys where x: "PMMAllocs s = xs @ i # ys" "p_data i = d"
        "map (\<lambda>i. (p_data i, p_handle i)) (PMMAllocs s') = map (\<lambda>i. (p_data i, p_handle i)) (xs @ ys)" using c by blast
    have "set (map p_data (PMMAllocs s')) = set (map p_data (xs @ ys))" by (rule arg_cong[OF ids[OF x(3)]])
    then have "live s' = p_data ` set (xs @ ys)" by (simp only: live_def list.set_map)
    then show ?thesis using x by (auto simp: live_def)
  qed simp
  then show "alloc_ok (snd (pmm_free d s))" "live s - {d} \<subseteq> live (snd (pmm_free d s))" "live (snd (pmm_free d s)) \<subseteq> live s" using r assms by (auto simp: f alloc_ok_def)
qed

lemma malloc_tmp_step:
  assumes "alloc_ok s" "req_ok sz 4" "malloc_tmp sz s = (p, s')"
  shows "alloc_ok s' \<and> (if p = 0 then live s' = live s else p \<notin> live s \<and> live s' = insert p (live s) \<and> off_ebda p (unat sz))"
proof -
  obtain q t where h: "pmm_malloc ZoneTmpHigh PMM_DEFAULT_HANDLE sz MALLOC_MIN_ALIGN s = (q, t)" by fastforce
  note th = malloc_step[where k = 4, folded min_align, OF assms(1,2) _ h]
  show ?thesis
  proof (cases "q = 0")
    case True
    then have t: "alloc_ok t" "live t = live s" using th by simp_all
    have "pmm_malloc ZoneTmpLow PMM_DEFAULT_HANDLE sz MALLOC_MIN_ALIGN t = (p, s')"
      using assms(3) True h by (simp add: malloc_tmp_def malloc_tmphigh_def)
    from malloc_step[where k = 4, folded min_align, OF t(1) assms(2) _ this] show ?thesis unfolding t(2) by simp
  next
    case False
    then show ?thesis using assms(3) h th by (auto simp: malloc_tmp_def malloc_tmphigh_def)
  qed
qed

lemma bottom_simps [simp]:
  "zbottom z' (snd (zone_malloc z sz align s)) = zbottom z' s" "zbottom z' (snd (zone_free p old s)) = zbottom z' s"
  "zbottom z' (snd (snd (pmm_info s))) = zbottom z' s"
proof -
  show m: "zbottom z' (snd (zone_malloc z sz align s)) = zbottom z' s" for z sz align s by (simp add: zone_malloc_def Let_def)
  show "zbottom z' (snd (zone_free p old s)) = zbottom z' s" by (simp add: zone_free_def split: option.split)
  show "zbottom z' (snd (snd (pmm_info s))) = zbottom z' s" by (simp add: pmm_info_def Let_def case_prod_beta m)
qed

lemma zone_malloc_above: "fst (zone_malloc z sz align s) \<noteq> 0 \<Longrightarrow> zbottom z s \<le> fst (zone_malloc z sz align s)"
  by (auto simp: zone_malloc_def Let_def split: if_splits)

lemma pmm_malloc_bottom:
  assumes "z \<noteq> ZoneLow"
  shows "zbottom z' (snd (pmm_malloc z handle sz align s)) = zbottom z' s"
    "fst (pmm_malloc z handle sz align s) \<noteq> 0 \<Longrightarrow> zbottom z s \<le> fst (pmm_malloc z handle sz align s)"
proof -
  show "zbottom z' (snd (pmm_malloc z handle sz align s)) = zbottom z' s" using assms by (simp add: pmm_malloc_def Let_def case_prod_beta)
  let ?s1 = "snd (snd (pmm_info s))"
  have "fst (pmm_malloc z handle sz align s) = (if fst (pmm_info s) = 0 then 0 else fst (zone_malloc z sz align ?s1))"
    using assms by (simp add: pmm_malloc_def Let_def case_prod_beta)
  then show "fst (pmm_malloc z handle sz align s) \<noteq> 0 \<Longrightarrow> zbottom z s \<le> fst (pmm_malloc z handle sz align s)"
    using zone_malloc_above[of z sz align ?s1] by (auto split: if_splits)
qed

lemma pmm_free_bottom: "zbottom z (snd (pmm_free d s)) = zbottom z s"
proof -
  have f: "zbottom z (pmm_free_data p old s) = zbottom z s" for p old s by (simp add: pmm_free_data_def Let_def case_prod_beta)
  show ?thesis by (simp add: pmm_free_def f split: option.split)
qed

end
