(* ===== verification/Ata_Init.thy ===== *)
theory Ata_Init
  imports Pmm_Client Pciinit Output Boot Ata
begin

text \<open>
  \<open>bios/seabios/src/ata.c\<close>: the detection of the drives and the set-up of the controllers. The state has
  the allocator with the memory, the maps of the drives, the table of boot devices, and the machine behind
  the ports. A drive is created at the address that the allocator returns; \<open>su_ata\<close> holds what an
  \<open>atadrive_s\<close> has besides its \<open>drive_s\<close>: channel, slave bit, and the address of the description. The
  detection of a channel runs on a stack of its own where threads are configured and there is memory for
  it; the detection of one channel runs to its end before that of the next starts. Debug output is left out.
\<close>

record 'd post_state =
  su_pmm :: pmm
  su_drives :: drives_s
  su_ipl :: ipl_s
  su_ata :: "addr \<Rightarrow> ata_channel_s \<times> bool \<times> u32"
  su_dev :: 'd
  su_control :: u8
  su_ivt :: "nat \<Rightarrow> u32"

text \<open>
  What the code runs with: the ports, the non-volatile memory, \<open>CONFIG_THREADS\<close>, the time limit, and where the
  compiler puts the buffer of the detection: its address on the main stack, and its offset in the stack of a
  thread.
\<close>

record 'd init_env =
  en_ports :: "'d ports"
  en_cmos :: "nat \<Rightarrow> u8"
  en_threads :: bool
  en_buffer :: u32
  en_frame :: u32
  en_spinup :: u64

definition MAXDESCSIZE :: u32 where "MAXDESCSIZE = 80"
definition MAXMODEL :: nat where "MAXMODEL = 40"
definition sizeof_atadrive_s :: u32 where "sizeof_atadrive_s = 44"
definition sizeof_ata_channel_s :: u32 where "sizeof_ata_channel_s = 12"

definition ram_set :: "memory \<Rightarrow> pmm \<Rightarrow> pmm" where "ram_set m s = s\<lparr>ram := m\<rparr>"

section \<open>Identification\<close>

definition send_ata_identity :: "'d ports \<Rightarrow> atadrive_s \<Rightarrow> u32 \<Rightarrow> u8 \<Rightarrow> 'd dstate \<Rightarrow> (int \<times> 'd dstate) option" where
  "send_ata_identity M ad buffer c s = do {
     let op = \<lparr>op_lba = 1, op_buf = buffer, op_drive = ad_drive ad, op_count = 1, op_command = 0\<rparr>;
     ((ret, _), s1) \<leftarrow> ata_pio_cmd_data M ad op False (zero_command\<lparr>command := c\<rparr>) (memset (fst s) buffer 0 512, snd s);
     Some (ret, s1)
   }"

text \<open>The words of the identity, which the device puts into the buffer.\<close>

definition word_at :: "memory \<Rightarrow> u32 \<Rightarrow> nat \<Rightarrow> u16" where
  "word_at m buffer i = ucast (m (buffer + of_nat (2 * i))) OR push_bit 8 (ucast (m (buffer + of_nat (2 * i) + 1)))"

fun version_loop :: "u16 \<Rightarrow> nat \<Rightarrow> nat" where
  "version_loop w 0 = 0"
| "version_loop w (Suc v) = (if bit w (Suc v) then Suc v else version_loop w v)"

definition extract_version :: "(nat \<Rightarrow> u16) \<Rightarrow> nat" where
  "extract_version buf = version_loop (buf 80) 15"

definition ntohs :: "u16 \<Rightarrow> u16" where
  "ntohs w = push_bit 8 w OR drop_bit 8 w"

fun trim_model :: "nat \<Rightarrow> u8 list \<Rightarrow> u8 list" where
  "trim_model 0 bs = bs"
| "trim_model (Suc i) bs = (if bs ! Suc i = 0x20 then trim_model i (bs[Suc i := 0]) else bs)"

text \<open>The bytes of the model's name, with the final zero; as a text they end at the first zero.\<close>

definition extract_model :: "(nat \<Rightarrow> u16) \<Rightarrow> u8 list" where
  "extract_model buf = trim_model (MAXMODEL - 1) (concat (map (\<lambda>i. w16 (ntohs (buf (27 + i)))) [0..<MAXMODEL div 2]) @ [0])"

definition c_string :: "u8 list \<Rightarrow> string" where
  "c_string bs = map (\<lambda>b. char_of (unat b)) (takeWhile (\<lambda>b. b \<noteq> 0) bs)"

definition set_drive :: "addr \<Rightarrow> drive_s \<Rightarrow> 'd post_state \<Rightarrow> 'd post_state" where
  "set_drive p dr s = s\<lparr>su_drives := (su_drives s)\<lparr>drive_at := (drive_at (su_drives s))(p := dr)\<rparr>\<rparr>"

text \<open>The address of the new drive, 0 when there is no memory.\<close>

definition init_atadrive :: "atadrive_s \<Rightarrow> (nat \<Rightarrow> u16) \<Rightarrow> 'd post_state \<Rightarrow> u32 \<times> 'd post_state" where
  "init_atadrive dummy buf s =
     (let (desc, p1) = malloc_tmp MAXDESCSIZE (su_pmm s); (adrive, p2) = malloc_fseg sizeof_atadrive_s p1 in
      if adrive = 0 \<or> desc = 0 then (0, s\<lparr>su_pmm := snd (pmm_free adrive (snd (pmm_free desc p2)))\<rparr>)
      else
        let slave = ad_slave dummy; ch = ad_chan dummy;
            dr = zero_drive\<lparr>cntl_id := ucast (chanid ch) * 2 + (if slave then 1 else 0), removable := (if buf 0 AND 0x80 \<noteq> 0 then 1 else 0)\<rparr>
        in (adrive, set_drive (unat adrive) dr (s\<lparr>su_pmm := p2, su_ata := (su_ata s)(unat adrive := (ch, slave, desc))\<rparr>)))"

text \<open>\<open>snprintf\<close> into the description of a drive.\<close>

definition describe :: "u32 \<Rightarrow> string \<Rightarrow> va_arg list \<Rightarrow> 'd post_state \<Rightarrow> 'd post_state" where
  "describe adrive fmt args s =
     (case snprintf (snd (snd (su_ata s (unat adrive)))) MAXDESCSIZE fmt args (ram (su_pmm s)) of None \<Rightarrow> s
      | Some (_, m) \<Rightarrow> s\<lparr>su_pmm := ram_set m (su_pmm s)\<rparr>)"

definition desc_args :: "u32 \<Rightarrow> (nat \<Rightarrow> u16) \<Rightarrow> 'd post_state \<Rightarrow> va_arg list" where
  "desc_args adrive buf s =
     (let (ch, slave, desc) = su_ata s (unat adrive)
      in [Num (ucast (chanid ch)), Num (if slave then 1 else 0), Str (c_string (extract_model buf)), Num (of_nat (extract_version buf))])"

text \<open>The rest of \<open>init_drive_atapi\<close> and \<open>init_drive_ata\<close> once there is memory for the drive.\<close>

definition register_atapi :: "u32 \<Rightarrow> (nat \<Rightarrow> u16) \<Rightarrow> 'd post_state \<Rightarrow> 'd post_state" where
  "register_atapi adrive buf s2 =
     (let a = unat adrive; iscd = (drop_bit 8 (buf 0) AND 0x1f = 0x05);
          s3 = set_drive a ((drive_at (su_drives s2) a)\<lparr>d_type := DTYPE_ATAPI, blksize := 2048, sectors := - 1\<rparr>) s2;
          s4 = describe adrive ''ata%d-%d: %s ATAPI-%d %s'' (desc_args adrive buf s3 @ [Str (if iscd then ''CD-Rom/DVD-Rom'' else ''Device'')]) s3
      in if iscd then s4\<lparr>su_drives := map_cd_drive a (su_drives s4)\<rparr> else s4)"

definition init_drive_atapi :: "'d init_env \<Rightarrow> atadrive_s \<Rightarrow> 'd post_state \<Rightarrow> (u32 \<times> 'd post_state) option" where
  "init_drive_atapi env dummy s = do {
     (ret, m, d) \<leftarrow> send_ata_identity (en_ports env) dummy (en_buffer env) ATA_CMD_IDENTIFY_PACKET_DEVICE (ram (su_pmm s), su_dev s);
     let s1 = s\<lparr>su_pmm := ram_set m (su_pmm s), su_dev := d\<rparr>;
     let buf = word_at m (en_buffer env);
     if ret \<noteq> 0 then Some (0, s1)
     else let (adrive, s2) = init_atadrive dummy buf s1 in if adrive = 0 then Some (0, s2) else Some (adrive, register_atapi adrive buf s2)
   }"

definition identity_sectors :: "(nat \<Rightarrow> u16) \<Rightarrow> u64" where
  "identity_sectors buf =
     (if bit (buf 83) 10 then ucast (buf 100) OR push_bit 16 (ucast (buf 101)) OR push_bit 32 (ucast (buf 102)) OR push_bit 48 (ucast (buf 103))
      else ucast (buf 60) OR push_bit 16 (ucast (buf 61)))"

definition adjusted_size :: "u64 \<Rightarrow> u64 \<times> char" where
  "adjusted_size secs = (let adjsize = drop_bit 11 secs in if adjsize \<ge> 2 ^ 16 then (drop_bit 10 adjsize, CHR ''G'') else (adjsize, CHR ''M''))"

definition register_ata :: "'d init_env \<Rightarrow> u32 \<Rightarrow> (nat \<Rightarrow> u16) \<Rightarrow> 'd post_state \<Rightarrow> 'd post_state" where
  "register_ata env adrive buf s2 =
     (let a = unat adrive; secs = identity_sectors buf;
          s3 = set_drive a ((drive_at (su_drives s2) a)\<lparr>d_type := DTYPE_ATA, blksize := 512,
            pchs := \<lparr>heads = buf 3, cylinders = buf 1, spt = buf 6\<rparr>, sectors := secs\<rparr>) s2;
          s4 = describe adrive ''ata%d-%d: %s ATA-%d Hard-Disk (%u %ciBytes)''
            (desc_args adrive buf s3 @ [Num (ucast (fst (adjusted_size secs))), Num (of_nat (of_char (snd (adjusted_size secs))))]) s3;
          s5 = set_drive a (setup_translation (en_cmos env) (drive_at (su_drives s4) a)) s4
      in s5\<lparr>su_ipl := add_bcv_internal (drive_at (su_drives s5)) a (su_ipl s5)\<rparr>)"

definition init_drive_ata :: "'d init_env \<Rightarrow> atadrive_s \<Rightarrow> 'd post_state \<Rightarrow> (u32 \<times> 'd post_state) option" where
  "init_drive_ata env dummy s = do {
     (ret, m, d) \<leftarrow> send_ata_identity (en_ports env) dummy (en_buffer env) ATA_CMD_IDENTIFY_DEVICE (ram (su_pmm s), su_dev s);
     let s1 = s\<lparr>su_pmm := ram_set m (su_pmm s), su_dev := d\<rparr>;
     let buf = word_at m (en_buffer env);
     if ret \<noteq> 0 then Some (0, s1)
     else let (adrive, s2) = init_atadrive dummy buf s1 in if adrive = 0 then Some (0, s2) else Some (adrive, register_ata env adrive buf s2)
   }"

section \<open>Detection\<close>

text \<open>The status, or \<open>None\<close> for the -1 of a time-out.\<close>

partial_function (option) powerup_await_non_bsy :: "'d ports \<Rightarrow> u64 \<Rightarrow> u16 \<Rightarrow> u8 \<Rightarrow> 'd \<Rightarrow> (u8 option \<times> 'd) option" where
  "powerup_await_non_bsy M spinup iobase orstatus d =
     (let (status, d1) = p_inb M (iobase + ATA_CB_STAT) d in
      if status AND ATA_CB_STAT_BSY = 0 then Some (Some status, d1)
      else if orstatus OR status = 0xff then Some (Some 0xff, d1)
      else if check_time (p_tsc M d1) spinup then Some (None, d1)
      else powerup_await_non_bsy M spinup iobase (orstatus OR status) (p_yield M d1))"

text \<open>Selecting a device and looking whether its registers hold what is written: whether there is something.\<close>

definition probe :: "'d init_env \<Rightarrow> ata_channel_s \<Rightarrow> bool \<Rightarrow> 'd \<Rightarrow> (bool \<times> 'd) option" where
  "probe env ch slave d =
     (let M = en_ports env; iobase = iobase1 ch; newdh = (if slave then ATA_CB_DH_DEV1 else ATA_CB_DH_DEV0) in do {
        (status, d1) \<leftarrow> powerup_await_non_bsy M (en_spinup env) iobase 0 d;
        if status = None then Some (False, d1)
        else do {
          (status, d2) \<leftarrow> powerup_await_non_bsy M (en_spinup env) iobase 0 (p_ndelay M 400 (p_outb M newdh (iobase + ATA_CB_DH) d1));
          if status = None then Some (False, d2)
          else
            let (dh, d3) = p_inb M (iobase + ATA_CB_DH) (p_outb M newdh (iobase + ATA_CB_DH) d2);
                (sc, d4) = p_inb M (iobase + ATA_CB_SC) (p_outb M 0xaa (iobase + ATA_CB_SN) (p_outb M 0x55 (iobase + ATA_CB_SC) d3));
                (sn, d5) = p_inb M (iobase + ATA_CB_SN) d4
            in Some (sc = 0x55 \<and> sn = 0xaa \<and> dh = newdh, d5)
        }
      })"

text \<open>An ATAPI drive, and otherwise an ATA drive; the address is 0 if there is none.\<close>

definition identify :: "'d init_env \<Rightarrow> atadrive_s \<Rightarrow> 'd post_state \<Rightarrow> (u32 \<times> 'd post_state) option" where
  "identify env dummy s =
     (let M = en_ports env; iobase = iobase1 (ad_chan dummy) in do {
        (adrive, s1) \<leftarrow> init_drive_atapi env dummy s;
        if adrive \<noteq> 0 then Some (adrive, s1)
        else
          let (st, d1) = p_inb M (iobase + ATA_CB_STAT) (su_dev s1); s2 = s1\<lparr>su_dev := d1\<rparr> in
          if st = 0 then Some (0, s2)
          else do {
            (ret, d2) \<leftarrow> await_rdy M iobase d1;
            let s3 = s2\<lparr>su_dev := d2\<rparr>;
            (if ret = None then Some (0, s3) else init_drive_ata env dummy s3)
          }
      })"

text \<open>One turn of the loop: whether the channel was reset, and whether the loop ends.\<close>

definition detect_slave :: "'d init_env \<Rightarrow> ata_channel_s \<Rightarrow> bool \<Rightarrow> bool \<Rightarrow> 'd post_state \<Rightarrow> ((bool \<times> bool) \<times> 'd post_state) option" where
  "detect_slave env ch slave didreset s =
     (let M = en_ports env; dummy = \<lparr>ad_drive = zero_drive, ad_chan = ch, ad_slave = slave\<rparr> in do {
        (found, d1) \<leftarrow> probe env ch slave (su_dev s);
        if \<not> found then Some ((didreset, False), s\<lparr>su_dev := d1\<rparr>)
        else do {
          d2 \<leftarrow> (if didreset then Some d1 else ata_reset M dummy d1);
          (adrive, s2) \<leftarrow> identify env dummy (s\<lparr>su_dev := d2\<rparr>);
          let resetresult = word_at (ram (su_pmm s2)) (en_buffer env) 93;
          Some ((True, adrive \<noteq> 0 \<and> \<not> slave \<and> resetresult AND 0xdf61 = 0x4041), s2)
        }
      })"

definition ata_detect :: "'d init_env \<Rightarrow> ata_channel_s \<Rightarrow> 'd post_state \<Rightarrow> 'd post_state option" where
  "ata_detect env ch s = do {
     ((didreset, fin), s1) \<leftarrow> detect_slave env ch False False s;
     if fin then Some s1
     else do { (_, s2) \<leftarrow> detect_slave env ch True didreset s1; Some s2 }
   }"

section \<open>Controllers\<close>

text \<open>
  \<open>run_thread (ata_detect, chan)\<close>: the detection on a new stack, which is released when the detection has
  ended, or on the current one.
\<close>

definition run_ata_detect :: "'d init_env \<Rightarrow> ata_channel_s \<Rightarrow> 'd post_state \<Rightarrow> 'd post_state option" where
  "run_ata_detect env ch s =
     (if \<not> en_threads env then ata_detect env ch s
      else
        let (thread, p) = memalign_tmphigh THREADSTACKSIZE THREADSTACKSIZE (su_pmm s); s1 = s\<lparr>su_pmm := p\<rparr> in
        if thread = 0 then ata_detect env ch s1
        else do {
          s2 \<leftarrow> ata_detect (env\<lparr>en_buffer := thread + en_frame env\<rparr>) ch s1;
          Some (s2\<lparr>su_pmm := snd (pmm_free thread (su_pmm s2))\<rparr>)
        })"

definition init_controller :: "'d init_env \<Rightarrow> u8 \<Rightarrow> nat option \<Rightarrow> u8 \<Rightarrow> u32 \<Rightarrow> u32 \<Rightarrow> u32 \<Rightarrow> 'd post_state \<Rightarrow> 'd post_state option" where
  "init_controller env chan bdf irq port1 port2 master s =
     (let (p, s1) = malloc_fseg sizeof_ata_channel_s (su_pmm s); s2 = s\<lparr>su_pmm := s1\<rparr> in
      if p = 0 then Some s2
      else run_ata_detect env \<lparr>iobase1 = ucast port1, iobase2 = ucast port2, iomaster = ucast master, ch_irq = irq, chanid = chan, pci_bdf = bdf\<rparr> s2)"

definition IRQ_ATA1 :: u8 where "IRQ_ATA1 = 14"
definition IRQ_ATA2 :: u8 where "IRQ_ATA2 = 15"
definition PORT_PIC2_DATA :: u16 where "PORT_PIC2_DATA = 0x00a1"
definition PCI_CLASS_PROG :: u32 where "PCI_CLASS_PROG = 0x09"
definition PCI_COMMAND_MASTER :: u16 where "PCI_COMMAND_MASTER = 0x4"

text \<open>
  The state of the scan over the PCI devices: the number of controllers and of devices so far, and the
  state of the set-up, \<open>None\<close> once a detection did not end.
\<close>

record 'd ata_scan = pci +
  sc_count :: nat
  sc_pcicount :: nat
  sc_setup :: "'d post_state option"

definition scan_controller :: "'d init_env \<Rightarrow> nat option \<Rightarrow> u8 \<Rightarrow> u32 \<Rightarrow> u32 \<Rightarrow> u32 \<Rightarrow> 'd ata_scan \<Rightarrow> 'd ata_scan" where
  "scan_controller env bdf irq port1 port2 master c =
     c\<lparr>sc_setup := (sc_setup c \<bind> init_controller env (of_nat (sc_count c)) bdf irq port1 port2 master), sc_count := sc_count c + 1\<rparr>"

text \<open>The ports of a channel: from two base address registers in native mode, and the fixed ones otherwise.\<close>

definition channel_ports :: "bool \<Rightarrow> u16 \<Rightarrow> u32 \<Rightarrow> u8 \<Rightarrow> u8 \<Rightarrow> u32 \<Rightarrow> u32 \<Rightarrow> 'd ata_scan \<Rightarrow> (u8 \<times> u32 \<times> u32) \<times> 'd ata_scan" where
  "channel_ports native bdf bar pciirq irq port1 port2 c =
     (if native then
        let (b1, c1) = pci_config_readl bdf bar c; (b2, c2) = pci_config_readl bdf (bar + 4) c1
        in ((pciirq, b1 AND NOT 3, b2 AND NOT 3), c2)
      else ((irq, port1, port2), c))"

definition ata_scan_body :: "bool \<Rightarrow> 'd init_env \<Rightarrow> nat \<Rightarrow> 'd ata_scan \<Rightarrow> 'd ata_scan" where
  "ata_scan_body conf_dma env x c0 =
     (let bdf = of_nat x; c1 = c0\<lparr>sc_pcicount := sc_pcicount c0 + 1\<rparr>; (cls, c2) = pci_config_readw bdf PCI_CLASS_DEVICE c1 in
      if cls \<noteq> PCI_CLASS_STORAGE_IDE then c2
      else
        let (pciirq, c3) = pci_config_readb bdf PCI_INTERRUPT_LINE c2;
            (prog_if, c4) = pci_config_readb bdf PCI_CLASS_PROG c3;
            (master, c5) =
              (if conf_dma \<and> prog_if AND 0x80 \<noteq> 0 then
                 let (bar, c) = pci_config_readl bdf (PCI_BASE_ADDRESS_0 + 16) c4
                 in if bar AND PCI_BASE_ADDRESS_SPACE_IO \<noteq> 0
                    then (bar AND PCI_BASE_ADDRESS_IO_MASK, pci_config_maskw bdf PCI_COMMAND 0 PCI_COMMAND_MASTER c) else (0, c)
               else (0, c4));
            ((irq1, p1, p2), c6) = channel_ports (prog_if AND 1 \<noteq> 0) bdf PCI_BASE_ADDRESS_0 pciirq IRQ_ATA1 PORT_ATA1_CMD_BASE PORT_ATA1_CTRL_BASE c5;
            c7 = scan_controller env (Some x) irq1 p1 p2 master c6;
            ((irq2, p3, p4), c8) = channel_ports (prog_if AND 4 \<noteq> 0) bdf (PCI_BASE_ADDRESS_0 + 8) pciirq IRQ_ATA2 PORT_ATA2_CMD_BASE PORT_ATA2_CTRL_BASE c7
        in scan_controller env (Some x) irq2 p3 p4 (if master \<noteq> 0 then master + 8 else 0) c8)"

definition ata_init :: "bool \<Rightarrow> 'd init_env \<Rightarrow> pci \<Rightarrow> 'd post_state \<Rightarrow> 'd ata_scan" where
  "ata_init conf_dma env p s =
     (let c = foreachpci (ata_scan_body conf_dma env) (pci.extend p (ata_scan.fields 0 0 (Some s))) in
      if sc_pcicount c = 0 then
        c\<lparr>sc_setup := (sc_setup c \<bind> init_controller env 0 None IRQ_ATA1 PORT_ATA1_CMD_BASE PORT_ATA1_CTRL_BASE 0)
            \<bind> init_controller env 1 None IRQ_ATA2 PORT_ATA2_CMD_BASE PORT_ATA2_CTRL_BASE 0\<rparr>
      else c)"

text \<open>The second interrupt controller is unmasked for line 14, and the vector 76h is set to \<open>entry\<close>.\<close>

definition enable_hwirq14 :: "'d ports \<Rightarrow> u32 \<Rightarrow> 'd post_state \<Rightarrow> 'd post_state" where
  "enable_hwirq14 M entry s =
     (let (v, d) = p_inb M PORT_PIC2_DATA (su_dev s)
      in s\<lparr>su_dev := p_outb M (v AND NOT 0x40) PORT_PIC2_DATA d, su_ivt := (su_ivt s)(0x76 := entry)\<rparr>)"

definition ata_setup :: "bool \<Rightarrow> 'd init_env \<Rightarrow> u32 \<Rightarrow> pci \<Rightarrow> 'd post_state \<Rightarrow> 'd post_state option" where
  "ata_setup conf_dma env0 entry_76 p s =
     (let M = en_ports env0; env = env0\<lparr>en_spinup := calc_future_tsc (p_tsc M (su_dev s)) (p_khz M) IDE_TIMEOUT\<rparr> in
      map_option (\<lambda>s1. enable_hwirq14 M entry_76 (s1\<lparr>su_control := 0xc0\<rparr>)) (sc_setup (ata_init conf_dma env p s)))"

end
