(* ===== verification/Ata_Wait.thy ===== *)
theory Ata_Wait
  imports Ata
begin

text \<open>
  The waits of \<open>bios/seabios/src/ata.c\<close> end. The time stamp counter of the machine is a clock that does not
  stand still while the code waits; then every wait of the driver ends, at the latest with its time-out,
  whatever the devices do.
\<close>

section \<open>The clock\<close>

text \<open>
  \<open>now\<close> is the time that has passed in a state of the machine, of which the counter shows 64 bits. No access
  takes longer than \<open>2 ^ 56\<close> ticks (more than half a year at 4 GHz), and waiting and yielding take time.
\<close>

definition clock_laws :: "'d ports \<Rightarrow> ('d \<Rightarrow> nat) \<Rightarrow> bool" where
  "clock_laws M now \<longleftrightarrow> (\<forall>d. p_tsc M d = of_nat (now d))
     \<and> (\<forall>p d. now d \<le> now (snd (p_inb M p d)) \<and> now (snd (p_inb M p d)) \<le> now d + 2 ^ 56)
     \<and> (\<forall>v p d. now d \<le> now (p_outb M v p d) \<and> now (p_outb M v p d) \<le> now d + 2 ^ 56)
     \<and> (\<forall>n d. 0 < n \<longrightarrow> now d < now (p_ndelay M n d) \<and> now (p_ndelay M n d) \<le> now d + 2 ^ 56)
     \<and> (\<forall>d. now d < now (p_yield M d) \<and> now (p_yield M d) \<le> now d + 2 ^ 56)"

lemma clock_lawsD:
  assumes "clock_laws M now"
  shows "p_tsc M d = of_nat (now d)" "now d \<le> now (snd (p_inb M p d))" "now (snd (p_inb M p d)) \<le> now d + 2 ^ 56"
    "now d \<le> now (p_outb M v p d)" "now (p_outb M v p d) \<le> now d + 2 ^ 56"
    "0 < n \<Longrightarrow> now d < now (p_ndelay M n d)" "0 < n \<Longrightarrow> now (p_ndelay M n d) \<le> now d + 2 ^ 56"
    "now d < now (p_yield M d)" "now (p_yield M d) \<le> now d + 2 ^ 56"
  using assms unfolding clock_laws_def by blast+

lemma time_is_up: "clock_laws M now \<Longrightarrow> t < now d \<Longrightarrow> now d < t + 2 ^ 63 \<Longrightarrow> check_time (p_tsc M d) (of_nat t)"
  using sint_diff_pos[of t "now d"] by (simp add: check_time_def clock_lawsD(1))

text \<open>Every end time is ahead on the clock: the counter wraps.\<close>

lemma end_time_ahead:
  fixes e :: u64
  obtains t where "e = of_nat t" "n \<le> t"
proof
  show "e = of_nat (n + unat (e - of_nat n))" by simp
qed simp

lemma future_tsc:
  assumes "clock_laws M now"
  shows "calc_future_tsc (p_tsc M d) (p_khz M) msecs = of_nat (now d + unat (p_khz M) * unat msecs)"
  by (simp add: calc_future_tsc_def clock_lawsD(1)[OF assms])

section \<open>The loops\<close>

lemma await_loop_ends:
  assumes M: "clock_laws M now" and d: "now d \<le> t + 2 ^ 57"
  shows "\<exists>r d'. await_loop M mk flags base (of_nat t) d = Some (r, d') \<and> now d \<le> now d' \<and> now d' \<le> t + 2 ^ 58"
  using d
proof (induction "t + 2 ^ 57 - now d" arbitrary: d rule: less_induct)
  case less
  obtain st d1 where r: "p_inb M (base + ATA_CB_STAT) d = (st, d1)" by fastforce
  have n: "now d \<le> now d1" "now d1 \<le> now d + 2 ^ 56" using clock_lawsD(2,3)[OF M, where d = d and p = "base + ATA_CB_STAT"] r by simp_all
  show ?case
  proof (cases "st AND mk = flags \<or> t < now d1")
    case True
    then have "await_loop M mk flags base (of_nat t) d = Some (if st AND mk = flags then Some st else None, d1)"
      using less.prems n time_is_up[OF M, of t d1] by (subst await_loop.simps) (auto simp: r)
    then show ?thesis using n less.prems by auto
  next
    case False
    have y: "now d1 < now (p_yield M d1)" "now (p_yield M d1) \<le> now d1 + 2 ^ 56" by (rule clock_lawsD(8,9)[OF M])+
    have "\<exists>r d'. await_loop M mk flags base (of_nat t) (p_yield M d1) = Some (r, d') \<and> now (p_yield M d1) \<le> now d' \<and> now d' \<le> t + 2 ^ 58"
      by (rule less.hyps) (use False y n in auto)
    moreover have "await_loop M mk flags base (of_nat t) d = (if check_time (p_tsc M d1) (of_nat t) then Some (None, d1) else await_loop M mk flags base (of_nat t) (p_yield M d1))"
      using False by (subst await_loop.simps) (simp add: r)
    ultimately show ?thesis using y n False by (cases "check_time (p_tsc M d1) (of_nat t)") (auto intro: order.trans)
  qed
qed

lemma await_ide_ends:
  assumes "clock_laws M now"
  shows "\<exists>r d'. await_ide M mk flags base timeout d = Some (r, d') \<and> now d \<le> now d' \<and> now d' \<le> now d + 2 ^ 59"
proof -
  let ?t = "now d + unat (p_khz M) * unat (ucast timeout :: u32)"
  have "unat (p_khz M) * unat (ucast timeout :: u32) \<le> 2 ^ 32 * 2 ^ 16"
    using unat_lt_2p[of "p_khz M"] unat_lt_2p[of timeout] by (intro mult_le_mono) (simp_all add: unat_ucast_fits)
  moreover from await_loop_ends[OF assms, of d ?t mk flags base] obtain r d' where
    "await_loop M mk flags base (of_nat ?t) d = Some (r, d')" "now d \<le> now d'" "now d' \<le> ?t + 2 ^ 58" by fastforce
  ultimately show ?thesis unfolding await_ide_def future_tsc[OF assms] by (intro exI[of _ r] exI[of _ d']) simp
qed

lemma await_returns:
  assumes "clock_laws M now"
  shows "await_not_bsy M base d \<noteq> None" "await_rdy M base d \<noteq> None" "pause_await_not_bsy M base base2 d \<noteq> None" "ndelay_await_not_bsy M base d \<noteq> None"
proof -
  have "await_ide M mk flags base timeout d \<noteq> None" for mk flags timeout d using await_ide_ends[OF assms, of mk flags base timeout d] by auto
  then show "await_not_bsy M base d \<noteq> None" "await_rdy M base d \<noteq> None" "pause_await_not_bsy M base base2 d \<noteq> None" "ndelay_await_not_bsy M base d \<noteq> None"
    unfolding await_not_bsy_def await_rdy_def pause_await_not_bsy_def ndelay_await_not_bsy_def by blast+
qed

lemma select_slave_ends:
  assumes M: "clock_laws M now" and d: "now d \<le> t + 2 ^ 61"
  shows "select_slave M base (of_nat t) d \<noteq> None"
  using d
proof (induction "t + 2 ^ 61 - now d" arbitrary: d rule: less_induct)
  case less
  let ?d0 = "p_outb M ATA_CB_DH_DEV1 (base + ATA_CB_DH) d" and ?d1 = "p_ndelay M 400 (p_outb M ATA_CB_DH_DEV1 (base + ATA_CB_DH) d)"
  have n1: "now d < now ?d1" "now ?d1 \<le> now d + 2 ^ 57"
    using clock_lawsD(4,5)[OF M, where d = d and v = ATA_CB_DH_DEV1 and p = "base + ATA_CB_DH"] clock_lawsD(6,7)[OF M, where d = ?d0 and n = 400] by simp_all
  obtain r d2 where r: "ndelay_await_not_bsy M base ?d0 = Some (r, d2)" "now ?d1 \<le> now d2" "now d2 \<le> now ?d1 + 2 ^ 59"
    using await_ide_ends[OF M, of ATA_CB_STAT_BSY 0 base "ucast IDE_TIMEOUT" ?d1] unfolding ndelay_await_not_bsy_def await_not_bsy_def by auto
  obtain dh d3 where dh: "p_inb M (base + ATA_CB_DH) d2 = (dh, d3)" by fastforce
  have n3: "now d2 \<le> now d3" "now d3 \<le> now d2 + 2 ^ 56" using clock_lawsD(2,3)[OF M, where d = d2 and p = "base + ATA_CB_DH"] dh by simp_all
  show ?case
  proof (cases "r = None \<or> dh = ATA_CB_DH_DEV1 \<or> t < now d3")
    case True
    then show ?thesis using time_is_up[OF M, of t d3] n1 r n3 less.prems by (subst select_slave.simps) (auto simp: r(1) dh)
  next
    case False
    have "select_slave M base (of_nat t) d3 \<noteq> None" by (rule less.hyps) (use False n1 r(2) n3 in auto)
    then show ?thesis using False by (subst select_slave.simps) (auto simp: r(1) dh)
  qed
qed

section \<open>Commands\<close>

lemma ata_reset_returns:
  assumes M: "clock_laws M now"
  shows "ata_reset M ad d \<noteq> None"
proof -
  note w = await_returns[OF M]
  have "select_slave M base (calc_future_tsc (p_tsc M e) (p_khz M) IDE_TIMEOUT) e \<noteq> None" for base e
    unfolding future_tsc[OF M] by (rule select_slave_ends[OF M]) simp
  then have "ata_reset_select M ad e \<noteq> None" for e by (simp add: ata_reset_select_def Let_def del: not_None_eq)
  then show ?thesis using w by (simp add: ata_reset_def Let_def bind_eq_None_conv split_beta del: not_None_eq)
qed

lemma send_cmd_returns:
  assumes "clock_laws M now"
  shows "send_cmd M ad cmd d \<noteq> None"
  using await_returns[OF assms] by (simp add: send_cmd_def Let_def bind_eq_None_conv split_beta del: not_None_eq)

lemma ata_wait_data_returns:
  assumes "clock_laws M now"
  shows "ata_wait_data M base d \<noteq> None"
  using await_returns[OF assms] by (simp add: ata_wait_data_def Let_def bind_eq_None_conv split_beta del: not_None_eq split: option.split)

lemma pio_loop_returns:
  assumes "clock_laws M now" "0 < count"
  shows "pio_loop M ch iswrite blocksize count buf s \<noteq> None"
  using assms(2)
proof (induction "nat count" arbitrary: count buf s rule: less_induct)
  case less
  then have rest: "pio_loop M ch iswrite blocksize (count - 1) (buf + of_nat blocksize) s1 \<noteq> None" if "count - 1 \<noteq> 0" for s1
    using that by (intro less.hyps) auto
  define s1 where "s1 = (if iswrite then (fst s, outsw_fl M (iobase1 ch) buf (blocksize div 2) (fst s) (snd s)) else insw_fl M (iobase1 ch) buf (blocksize div 2) s)"
  obtain status d where "pause_await_not_bsy M (iobase1 ch) (iobase2 ch) (snd s1) = Some (status, d)" using await_returns(3)[OF assms(1)] by fastforce
  then show ?case using rest
    by (subst pio_loop.simps) (simp only: s1_def[symmetric] Let_def bind.simps prod.case, auto split: option.split)
qed

text \<open>A transfer of at least one sector returns.\<close>

lemma ata_pio_cmd_data_returns:
  assumes M: "clock_laws M now" and c: "op_count op \<noteq> 0"
  shows "ata_pio_cmd_data M ad op iswrite cmd s \<noteq> None"
proof -
  have "0 < uint (op_count op)" using c by (metis order_le_less uint_0_iff unsigned_greater_eq)
  then have "ata_pio_transfer M ad op iswrite 512 s \<noteq> None" for s
    using pio_loop_returns[OF M] by (simp add: ata_pio_transfer_def Let_def bind_eq_None_conv split_beta del: not_None_eq)
  then show ?thesis using send_cmd_returns[OF M] ata_wait_data_returns[OF M]
    by (simp add: ata_pio_cmd_data_def Let_def bind_eq_None_conv split_beta del: not_None_eq)
qed

end
