(* ===== verification/Ata_Detect.thy ===== *)
theory Ata_Detect
  imports Ata_Init Ata_Wait
begin

text \<open>
  The detection of the ATA drives against the allocator and the tables of the drives: an invariant that
  holds whatever the devices answer.
\<close>

section \<open>Memory that the driver leaves alone\<close>

lemma insw_fl_other:
  assumes "x \<notin> span p (2 * n)"
  shows "fst (insw_fl M port p n s) x = fst s x"
  using assms
proof (induction n arbitrary: p s)
  case (Suc n)
  obtain v d where r: "p_inw M port (snd s) = (v, d)" by fastforce
  have i: "x \<noteq> p + of_nat i" if "i < 2 * Suc n" for i using Suc.prems that by (auto simp: span_iff)
  have "x \<notin> span (p + 2) (2 * n)"
  proof
    assume "x \<in> span (p + 2) (2 * n)"
    then obtain j where "j < 2 * n" "x = p + of_nat (j + 2)" by (auto simp: span_iff algebra_simps)
    then show False using i[of "j + 2"] by simp
  qed
  then show ?case using Suc.IH i[of 0] i[of 1] r by simp
qed simp

lemma memset_outside:
  assumes "x \<notin> span p n"
  shows "memset m p c n x = m x"
  unfolding memset_def using assms
proof (induction n arbitrary: m)
  case (Suc n)
  then have "x \<noteq> p + of_nat n" "x \<notin> span p n" by (auto simp: span_iff)
  then show ?case using Suc.IH by simp
qed simp

lemma pio_loop_one:
  assumes "pio_loop M ch False 512 1 buf s = Some (r, s')" "x \<notin> span buf 512"
  shows "fst s' x = fst s x"
proof -
  let ?s = "insw_fl M (iobase1 ch) buf 256 s"
  obtain status d where w: "pause_await_not_bsy M (iobase1 ch) (iobase2 ch) (snd ?s) = Some (status, d)"
    using assms(1) by (subst (asm) pio_loop.simps) (auto simp: Let_def bind_eq_Some_conv)
  have "s' = (fst ?s, d)" using assms(1) w by (subst (asm) pio_loop.simps) (simp add: Let_def split: option.splits)
  then show ?thesis using insw_fl_other[of x buf 256] assms(2) by simp
qed

lemma pio_transfer_other:
  assumes "ata_pio_transfer M ad op False 512 s = Some (r, s')" "op_count op = 1" "x \<notin> span (op_buf op) 512"
  shows "fst s' x = fst s x"
proof -
  obtain q where "pio_loop M (ad_chan ad) False 512 1 (op_buf op) s = Some (q, s')"
    using assms(1,2) by (auto simp: ata_pio_transfer_def Let_def bind_eq_Some_conv split: if_splits)
  then show ?thesis using assms(3) by (rule pio_loop_one)
qed

lemma pio_cmd_data_other:
  assumes "ata_pio_cmd_data M ad op False cmd s = Some (r, s')" "op_count op = 1" "x \<notin> span (op_buf op) 512"
  shows "fst s' x = fst s x"
proof -
  have "fst s' = fst s \<or> (\<exists>q d1 d2. ata_pio_transfer M ad op False 512 (fst s, d1) = Some (q, fst s', d2))"
    using assms(1) by (fastforce simp: ata_pio_cmd_data_def Let_def bind_eq_Some_conv split: if_splits)
  then show ?thesis using pio_transfer_other[OF _ assms(2,3)] by fastforce
qed

lemma send_ata_identity_other:
  assumes "send_ata_identity M ad buffer c s = Some (ret, s')" "x \<notin> span buffer 512"
  shows "fst s' x = fst s x"
proof -
  let ?op = "\<lparr>op_lba = 1, op_buf = buffer, op_drive = ad_drive ad, op_count = 1, op_command = 0\<rparr>"
  obtain op where "ata_pio_cmd_data M ad ?op False (zero_command\<lparr>command := c\<rparr>) (memset (fst s) buffer 0 512, snd s) = Some ((ret, op), s')"
    using assms(1) by (auto simp: send_ata_identity_def bind_eq_Some_conv)
  from pio_cmd_data_other[OF this, of x] assms(2) show ?thesis by (simp add: memset_outside)
qed

lemma snprintf_other:
  assumes "snprintf str sz fmt args m = Some (n, m')" "0 < unat sz" "unat str + unat sz < 2 ^ 32" "x \<notin> span str (unat sz)"
  shows "m' x = m x"
proof (cases "format fmt args")
  case None
  then have "snprintf str sz fmt args m = None" using assms(2) by (auto simp: snprintf_def bvprintf_format unat_gt_0)
  then show ?thesis using assms(1) by simp
next
  case (Some cs)
  from snprintf_spec[OF assms(2,3) Some, of m] assms(1,4) show ?thesis by (auto simp: span_iff)
qed

section \<open>The allocator\<close>

lemma ebda_pos_bounds: "pmm_inv s \<Longrightarrow> 0x90000 \<le> unat (ebda_pos s) \<and> unat (ebda_pos s) < 0xa0000"
  unfolding pmm_inv_def holds_def zones_ok_def by (elim conjE) (smt (verit, best) le_less_trans less_le_trans add_lessD1 less_add_same_cancel1 mult_pos_pos zero_less_numeral order_less_le_trans)

lemma off_ebda_span:
  assumes "off_ebda p n" "0x90000 \<le> unat x" "unat x < 0xa0000"
  shows "x \<notin> span p n"
proof
  assume "x \<in> span p n"
  then obtain i where i: "i < n" "x = p + of_nat i" by (auto simp: span_iff)
  then have "unat x = unat p + i" using assms(1) unfolding off_ebda_def by (simp add: unat_add_nowrap unat_of_nat_32)
  then show False using assms i(1) unfolding off_ebda_def by linarith
qed

text \<open>Memory that is written off the area keeps the invariant.\<close>

lemma alloc_ok_ram:
  assumes "alloc_ok s" "\<forall>x. x \<notin> span p n \<longrightarrow> m x = ram s x" "off_ebda p n"
  shows "alloc_ok (ram_set m s)" "live (ram_set m s) = live s"
proof -
  have "m (ebda_pos s) = ram s (ebda_pos s)" using assms ebda_pos_bounds[of s] off_ebda_span[OF assms(3)] by (auto simp: alloc_ok_def)
  then have "ebda_size (ram_set m s) = ebda_size s" by (simp add: ebda_size_def ebda_pos_def ram_set_def)
  moreover have "zcur z (ram_set m s) = zcur z s" "zbottom z (ram_set m s) = zbottom z s" "ztop z (ram_set m s) = ztop z s"
    "ebda_pos (ram_set m s) = ebda_pos s" "PMMAllocs (ram_set m s) = PMMAllocs s" for z
    by (simp_all add: zcur_def zbottom_def ztop_def ebda_pos_def ram_set_def)
  ultimately show "alloc_ok (ram_set m s)" "live (ram_set m s) = live s"
    using assms(1) by (simp_all add: alloc_ok_def pmm_inv_def holds_def zones_ok_def in_zone_def live_def)
qed

section \<open>The tables\<close>

abbreviation drive_order :: "(addr \<Rightarrow> drive_s) \<Rightarrow> addr \<Rightarrow> addr \<Rightarrow> bool" where
  "drive_order at a b \<equiv> \<not> drive_before (at b) (at a)"

text \<open>
  The tables refer to drives at addresses of \<open>L\<close> only; the connection vectors and the compact disc drives
  are in their order, and the counts are in range.
\<close>

definition tables_ok :: "addr set \<Rightarrow> drives_s \<Rightarrow> ipl_s \<Rightarrow> bool" where
  "tables_ok L D I \<longleftrightarrow> ipl_ok I \<and> unused_zero I \<and> bcv_sorted (drive_at D) I
     \<and> (\<forall>k < bcvcount I. ie_type (bcv I ! k) = BCV_TYPE_INTERNAL \<longrightarrow> unat (ie_vector (bcv I ! k)) \<in> L)
     \<and> length (idmap D EXTTYPE_CD) = CONFIG_MAX_EXTDRIVE \<and> unat (cdcount D) \<le> CONFIG_MAX_EXTDRIVE
     \<and> sorted_wrt (drive_order (drive_at D)) (take (unat (cdcount D)) (idmap D EXTTYPE_CD))
     \<and> set (take (unat (cdcount D)) (idmap D EXTTYPE_CD)) \<subseteq> L"

lemma tables_ok_mono: "tables_ok L D I \<Longrightarrow> L \<subseteq> L' \<Longrightarrow> tables_ok L' D I"
  by (auto simp: tables_ok_def)

lemma tables_ok_new_drive:
  assumes "tables_ok L D I" "a \<notin> L"
  shows "tables_ok L (D\<lparr>drive_at := (drive_at D)(a := dr)\<rparr>) I"
proof -
  let ?at = "(drive_at D)(a := dr)"
  have same: "?at x = drive_at D x" if "x \<in> L" for x using that assms(2) by auto
  have L: "\<forall>k < bcvcount I. ie_type (bcv I ! k) = BCV_TYPE_INTERNAL \<longrightarrow> unat (ie_vector (bcv I ! k)) \<in> L"
    using assms(1) by (simp add: tables_ok_def)
  have "bcv_sorted ?at I" unfolding bcv_sorted_def
  proof (intro allI impI, elim conjE)
    fix i j
    assume a: "i < j" "j < bcvcount I" "\<forall>k. i \<le> k \<and> k \<le> j \<longrightarrow> ie_type (bcv I ! k) = BCV_TYPE_INTERNAL"
    then have "unat (ie_vector (bcv I ! i)) \<in> L" "unat (ie_vector (bcv I ! j)) \<in> L" using L by auto
    moreover have "\<not> drive_before (drive_at D (unat (ie_vector (bcv I ! j)))) (drive_at D (unat (ie_vector (bcv I ! i))))"
      using assms(1) a unfolding tables_ok_def bcv_sorted_def by blast
    ultimately show "\<not> drive_before (?at (unat (ie_vector (bcv I ! j)))) (?at (unat (ie_vector (bcv I ! i))))" using assms(2) by auto
  qed
  moreover have "sorted_wrt (drive_order ?at) (take (unat (cdcount D)) (idmap D EXTTYPE_CD))"
  proof (rule sorted_wrt_mono_rel)
    show "sorted_wrt (drive_order (drive_at D)) (take (unat (cdcount D)) (idmap D EXTTYPE_CD))" using assms(1) by (simp add: tables_ok_def)
  next
    fix x y
    assume "x \<in> set (take (unat (cdcount D)) (idmap D EXTTYPE_CD))" "y \<in> set (take (unat (cdcount D)) (idmap D EXTTYPE_CD))"
      "drive_order (drive_at D) x y"
    moreover have "set (take (unat (cdcount D)) (idmap D EXTTYPE_CD)) \<subseteq> L" using assms(1) by (simp add: tables_ok_def)
    ultimately show "drive_order ?at x y" using same by (metis subsetD)
  qed
  ultimately show ?thesis using assms(1) by (simp add: tables_ok_def)
qed

lemma tables_ok_bcv:
  assumes "tables_ok L D I" "a \<in> L" "a < 2 ^ 32"
  shows "tables_ok L D (add_bcv_internal (drive_at D) a I)"
proof -
  let ?I = "add_bcv_internal (drive_at D) a I"
  have I: "ipl_ok I" "unused_zero I" "bcv_sorted (drive_at D) I" using assms(1) by (simp_all add: tables_ok_def)
  have ok: "ipl_ok ?I" "unused_zero ?I" using register_ok[OF I(1,2), of "drive_at D" "Add_bcv_internal a"] by simp_all
  have sorted: "bcv_sorted (drive_at D) ?I"
    using add_bcv_internal_sorted[OF I(3) _ assms(3)] I(1) by (simp add: ipl_ok_def)
  have "unat (ie_vector (bcv ?I ! k)) \<in> L" if k: "k < bcvcount ?I" "ie_type (bcv ?I ! k) = BCV_TYPE_INTERNAL" for k
  proof (cases "bcvcount I \<ge> IPL_SIZE")
    case True
    then show ?thesis using assms(1) k by (simp add: add_bcv_internal_def tables_ok_def)
  next
    case False
    define pos where "pos = bcv_pos (drive_at D) (bcv I) (drive_at D a) (bcvcount I)"
    define e where "e = (bcv I ! pos)\<lparr>ie_type := BCV_TYPE_INTERNAL, ie_vector := of_nat a, ie_description := Own ''''\<rparr>"
    have q: "bcv ?I = shift_in pos (bcvcount I) e (bcv I)" "bcvcount ?I = Suc (bcvcount I)"
      using False by (simp_all add: add_bcv_internal_def Let_def pos_def e_def)
    have pos: "pos \<le> bcvcount I" unfolding pos_def by (rule bcv_pos_le)
    have len: "bcvcount I < length (bcv I)" using False I(1) by (simp add: ipl_ok_def)
    have nth: "bcv ?I ! k = (if k < pos then bcv I ! k else if k = pos then e else bcv I ! (k - 1))"
      using shift_in_nth[OF pos len, of k e] k(1) len q by auto
    have "unat (ie_vector e) = a" using assms(3) by (simp add: e_def unat_of_nat)
    moreover have "unat (ie_vector (bcv I ! j)) \<in> L" if "j < bcvcount I" "ie_type (bcv I ! j) = BCV_TYPE_INTERNAL" for j
      using assms(1) that by (simp add: tables_ok_def)
    ultimately show ?thesis using k q(2) nth pos assms(2) by (auto split: if_splits)
  qed
  then show ?thesis using assms(1) ok sorted by (simp add: tables_ok_def)
qed

lemma tables_ok_cd:
  assumes "tables_ok L D I" "a \<in> L"
  shows "tables_ok L (map_cd_drive a D) I"
proof (cases "unat (cdcount D) \<ge> CONFIG_MAX_EXTDRIVE")
  case True
  then have "map_cd_drive a D = D" by (simp add: map_cd_drive_def add_ordered_drive_def)
  then show ?thesis using assms(1) by simp
next
  case False
  obtain m n where r: "add_ordered_drive (drive_at D) (idmap D EXTTYPE_CD) (cdcount D) a = (m, n)" by fastforce
  have "unat n = Suc (unat (cdcount D))" if "n = cdcount D + 1"
    using False that by (simp add: unat_add_nowrap CONFIG_MAX_EXTDRIVE_def)
  then show ?thesis
    using assms False add_ordered_drive_sorted[of "idmap D EXTTYPE_CD" "cdcount D" "drive_at D" a] r
    by (auto simp: tables_ok_def map_cd_drive_def)
qed

section \<open>Every operation keeps the invariant\<close>

text \<open>
  \<open>X\<close> are blocks that are in use for a while only, as the stack of a thread: the tables do not refer to them.
\<close>

definition post_in :: "u32 set \<Rightarrow> 'd post_state \<Rightarrow> bool" where
  "post_in X s \<longleftrightarrow> alloc_ok (su_pmm s) \<and> X \<subseteq> live (su_pmm s) \<and> tables_ok (unat ` (live (su_pmm s) - X)) (su_drives s) (su_ipl s)"

text \<open>Blocks stay allocated, and the drives there keep what is known of them.\<close>

definition keeps_in :: "u32 set \<Rightarrow> 'd post_state \<Rightarrow> 'd post_state \<Rightarrow> bool" where
  "keeps_in X s s' \<longleftrightarrow> (post_in X s \<longrightarrow> post_in X s' \<and> live (su_pmm s) \<subseteq> live (su_pmm s')
     \<and> (\<forall>p\<in>live (su_pmm s). drive_at (su_drives s') (unat p) = drive_at (su_drives s) (unat p) \<and> su_ata s' (unat p) = su_ata s (unat p)))"

abbreviation post_ok :: "'d post_state \<Rightarrow> bool" where "post_ok \<equiv> post_in {}"
abbreviation post_keeps :: "'d post_state \<Rightarrow> 'd post_state \<Rightarrow> bool" where "post_keeps \<equiv> keeps_in {}"

lemma post_keeps_refl [simp]: "keeps_in X s s"
  by (simp add: keeps_in_def)

lemma post_keeps_trans: "keeps_in X s t \<Longrightarrow> keeps_in X t u \<Longrightarrow> keeps_in X s u"
  unfolding keeps_in_def by (metis subset_trans subsetD)

lemma post_keeps_dev [simp]: "keeps_in X s (s\<lparr>su_dev := d\<rparr>)"
  by (simp add: keeps_in_def post_in_def)

lemma post_keeps_ram:
  assumes "\<forall>x. x \<notin> span p n \<longrightarrow> m x = ram (su_pmm s) x" "off_ebda p n"
  shows "keeps_in X s (s\<lparr>su_pmm := ram_set m (su_pmm s)\<rparr>)"
  using alloc_ok_ram[OF _ assms] by (auto simp: keeps_in_def post_in_def)

text \<open>A new drive: its address is fresh, the description has its own block, and the tables are as before.\<close>

definition new_drive :: "u32 set \<Rightarrow> u32 \<Rightarrow> 'd post_state \<Rightarrow> 'd post_state \<Rightarrow> bool" where
  "new_drive X p s s' \<longleftrightarrow> alloc_ok (su_pmm s') \<and> insert p (live (su_pmm s)) \<subseteq> live (su_pmm s') \<and> p \<notin> live (su_pmm s)
     \<and> tables_ok (unat ` (live (su_pmm s) - X)) (su_drives s') (su_ipl s')
     \<and> (\<forall>q. q \<noteq> p \<longrightarrow> drive_at (su_drives s') (unat q) = drive_at (su_drives s) (unat q) \<and> su_ata s' (unat q) = su_ata s (unat q))
     \<and> off_ebda (snd (snd (su_ata s' (unat p)))) (unat MAXDESCSIZE)"

lemma unat_image_iff [simp]: "unat p \<in> unat ` L \<longleftrightarrow> p \<in> L"
  by (auto simp: word_unat_eq_iff[symmetric])

text \<open>The two blocks of a drive, for its description and for its record, which are released again if one of them is missing.\<close>

lemma drive_blocks:
  assumes ok: "alloc_ok q" and d: "malloc_tmp MAXDESCSIZE q = (desc, p1)" and a: "malloc_fseg sz p1 = (ad, p2)" and sz: "req_ok sz 4"
  shows "ad = 0 \<or> desc = 0 \<Longrightarrow> alloc_ok (snd (pmm_free ad (snd (pmm_free desc p2)))) \<and> live q \<subseteq> live (snd (pmm_free ad (snd (pmm_free desc p2))))"
    and "ad \<noteq> 0 \<Longrightarrow> desc \<noteq> 0 \<Longrightarrow> alloc_ok p2 \<and> ad \<notin> live q \<and> insert ad (live q) \<subseteq> live p2 \<and> off_ebda desc (unat MAXDESCSIZE)"
proof -
  have "req_ok MAXDESCSIZE 4" by (simp add: req_ok_def MAXDESCSIZE_def)
  note sd = malloc_tmp_step[OF ok this d]
  then have "alloc_ok p1" by simp
  from malloc_step[where k = 4, folded min_align, OF this sz _ a[unfolded malloc_fseg_def]] have sa: "alloc_ok p2" "if ad = 0 then live p2 = live p1 else ad \<notin> live p1 \<and> live p2 = insert ad (live p1)"
    by (auto split: if_splits)
  let ?q = "snd (pmm_free ad (snd (pmm_free desc p2)))"
  have "live q \<subseteq> live ?q"
  proof
    fix x assume x: "x \<in> live q"
    then have "x \<noteq> 0" using ok by (auto simp: alloc_ok_def)
    moreover have "x \<noteq> desc" using sd x calculation by (auto split: if_splits)
    moreover have "x \<in> live p1" "x \<in> live p2" using x sd sa by (auto split: if_splits)
    moreover have "x \<noteq> ad" using sa calculation by (auto split: if_splits)
    ultimately show "x \<in> live ?q" using free_step[OF sa(1), of desc] free_step(2)[OF free_step(1)[OF sa(1), of desc], of ad] by blast
  qed
  then show "alloc_ok ?q \<and> live q \<subseteq> live ?q" using free_step(1) sa(1) by blast
  show "alloc_ok p2 \<and> ad \<notin> live q \<and> insert ad (live q) \<subseteq> live p2 \<and> off_ebda desc (unat MAXDESCSIZE)" if "ad \<noteq> 0" "desc \<noteq> 0"
    using that sd sa by (auto split: if_splits)
qed

lemma new_drive_made:
  assumes ok: "post_in X s" and a: "alloc_ok p2" "ad \<notin> live (su_pmm s)" "insert ad (live (su_pmm s)) \<subseteq> live p2" "off_ebda desc (unat MAXDESCSIZE)"
  shows "new_drive X ad s (set_drive (unat ad) dr (s\<lparr>su_pmm := p2, su_ata := (su_ata s)(unat ad := (ch, slave, desc))\<rparr>))"
proof -
  have "tables_ok (unat ` (live (su_pmm s) - X)) (su_drives s) (su_ipl s)" using ok by (simp add: post_in_def)
  from tables_ok_new_drive[OF this, of "unat ad" dr] show ?thesis
    using a by (auto simp: new_drive_def set_drive_def word_unat_eq_iff[symmetric])
qed

lemma post_keeps_released: "alloc_ok q \<Longrightarrow> live (su_pmm s) \<subseteq> live q \<Longrightarrow> keeps_in X s (s\<lparr>su_pmm := q\<rparr>)"
  using tables_ok_mono[of "unat ` (live (su_pmm s) - X)" "su_drives s" "su_ipl s" "unat ` (live q - X)"] by (auto simp: keeps_in_def post_in_def image_mono)

lemma init_atadrive_new:
  assumes "post_in X s" "init_atadrive dummy buf s = (p, s')"
  shows "if p = 0 then keeps_in X s s' else new_drive X p s s'"
proof -
  obtain desc p1 where d: "malloc_tmp MAXDESCSIZE (su_pmm s) = (desc, p1)" by fastforce
  obtain ad p2 where a: "malloc_fseg sizeof_atadrive_s p1 = (ad, p2)" by fastforce
  have "alloc_ok (su_pmm s)" "req_ok sizeof_atadrive_s 4" using assms(1) by (simp_all add: post_in_def req_ok_def sizeof_atadrive_s_def)
  note blocks = drive_blocks[OF this(1) d a this(2)]
  show ?thesis
  proof (cases "ad = 0 \<or> desc = 0")
    case True
    then have "p = 0" "s' = s\<lparr>su_pmm := snd (pmm_free ad (snd (pmm_free desc p2)))\<rparr>" using assms(2) d a by (simp_all add: init_atadrive_def)
    then show ?thesis using post_keeps_released[of _ s] blocks(1)[OF True] by simp
  next
    case False
    then have ne: "ad \<noteq> 0" "desc \<noteq> 0" by auto
    obtain dr where dr: "init_atadrive dummy buf s = (ad, set_drive (unat ad) dr (s\<lparr>su_pmm := p2, su_ata := (su_ata s)(unat ad := (ad_chan dummy, ad_slave dummy, desc))\<rparr>))"
      using ne d a by (simp add: init_atadrive_def Let_def)
    have "new_drive X ad s (set_drive (unat ad) dr (s\<lparr>su_pmm := p2, su_ata := (su_ata s)(unat ad := (ad_chan dummy, ad_slave dummy, desc))\<rparr>))"
      by (rule new_drive_made[OF assms(1)]) (use blocks(2)[OF ne] in simp_all)
    then show ?thesis using ne dr assms(2) by simp
  qed
qed

text \<open>What happens to the new drive until it is entered into a table.\<close>

lemma new_drive_set: "new_drive X p s t \<Longrightarrow> new_drive X p s (set_drive (unat p) dr t)"
  using tables_ok_new_drive[of "unat ` (live (su_pmm s) - X)" "su_drives t" "su_ipl t" "unat p" dr]
  by (auto simp: new_drive_def set_drive_def word_unat_eq_iff[symmetric])

lemma describe_keeps:
  assumes "off_ebda (snd (snd (su_ata s (unat p)))) (unat MAXDESCSIZE)"
  shows "\<exists>q. describe p fmt args s = s\<lparr>su_pmm := q\<rparr> \<and> (alloc_ok (su_pmm s) \<longrightarrow> alloc_ok q) \<and> live q = live (su_pmm s)"
proof (cases "snprintf (snd (snd (su_ata s (unat p)))) MAXDESCSIZE fmt args (ram (su_pmm s))")
  case (Some a)
  obtain n m where a: "a = (n, m)" by fastforce
  have "\<forall>x. x \<notin> span (snd (snd (su_ata s (unat p)))) (unat MAXDESCSIZE) \<longrightarrow> m x = ram (su_pmm s) x"
    using snprintf_other[OF Some[unfolded a]] assms by (simp add: off_ebda_def MAXDESCSIZE_def)
  from alloc_ok_ram[OF _ this assms] show ?thesis
    using Some a by (intro exI[of _ "ram_set m (su_pmm s)"]) (auto simp: describe_def live_def ram_set_def)
next
  case None
  then show ?thesis by (intro exI[of _ "su_pmm s"]) (simp add: describe_def)
qed

lemma new_drive_describe: "new_drive X p s t \<Longrightarrow> new_drive X p s (describe p fmt args t)"
  using describe_keeps[of t p fmt args] by (auto simp: new_drive_def)

lemma new_drive_entered:
  assumes "post_in X s" "new_drive X p s t"
  shows "keeps_in X s t" "keeps_in X s (t\<lparr>su_drives := map_cd_drive (unat p) (su_drives t)\<rparr>)"
    "keeps_in X s (t\<lparr>su_ipl := add_bcv_internal (drive_at (su_drives t)) (unat p) (su_ipl t)\<rparr>)"
proof -
  let ?L = "unat ` (live (su_pmm t) - X)"
  have n: "tables_ok (unat ` (live (su_pmm s) - X)) (su_drives t) (su_ipl t)" "insert p (live (su_pmm s)) \<subseteq> live (su_pmm t)"
    using assms(2) by (simp_all add: new_drive_def)
  have ok: "tables_ok ?L (su_drives t) (su_ipl t)" by (rule tables_ok_mono[OF n(1)]) (use n(2) in blast)
  have p: "unat p \<in> ?L" "unat p < 2 ^ 32" using assms unat_lt_2p[of p] by (auto simp: new_drive_def post_in_def)
  have at: "drive_at (map_cd_drive a D) = drive_at D" for a D by (simp add: map_cd_drive_def split: prod.split)
  have fresh: "p \<notin> live (su_pmm s)" and others: "\<forall>q. q \<noteq> p \<longrightarrow> drive_at (su_drives t) (unat q) = drive_at (su_drives s) (unat q) \<and> su_ata t (unat q) = su_ata s (unat q)"
    using assms(2) unfolding new_drive_def by blast+
  have "q \<noteq> p" if "q \<in> live (su_pmm s)" for q using that fresh by auto
  then have "\<forall>q\<in>live (su_pmm s). drive_at (su_drives t) (unat q) = drive_at (su_drives s) (unat q) \<and> su_ata t (unat q) = su_ata s (unat q)"
    using others by simp
  note pre = this n(2) assms(2)[unfolded new_drive_def, THEN conjunct1]
  show "keeps_in X s t" using ok pre by (auto simp: keeps_in_def post_in_def)
  show "keeps_in X s (t\<lparr>su_drives := map_cd_drive (unat p) (su_drives t)\<rparr>)"
    using tables_ok_cd[OF ok p(1)] pre by (auto simp: keeps_in_def post_in_def at)
  show "keeps_in X s (t\<lparr>su_ipl := add_bcv_internal (drive_at (su_drives t)) (unat p) (su_ipl t)\<rparr>)"
    using tables_ok_bcv[OF ok p] pre by (auto simp: keeps_in_def post_in_def)
qed

text \<open>The buffer of the detection is apart from the extended BIOS data area, and inside the stack of a thread.\<close>

definition env_ok :: "'d init_env \<Rightarrow> bool" where
  "env_ok env \<longleftrightarrow> off_ebda (en_buffer env) 512 \<and> unat (en_frame env) + 512 \<le> unat THREADSTACKSIZE"

lemma identity_keeps:
  assumes "env_ok env" "send_ata_identity M ad (en_buffer env) c (ram (su_pmm s), d0) = Some (ret, m, d)"
  shows "keeps_in X s (s\<lparr>su_pmm := ram_set m (su_pmm s), su_dev := d\<rparr>)"
proof -
  have "off_ebda (en_buffer env) 512" using assms(1) by (simp add: env_ok_def)
  moreover have "\<forall>x. x \<notin> span (en_buffer env) 512 \<longrightarrow> m x = ram (su_pmm s) x" using send_ata_identity_other[OF assms(2)] by simp
  ultimately have "keeps_in X s (s\<lparr>su_pmm := ram_set m (su_pmm s)\<rparr>)" by (intro post_keeps_ram)
  then show ?thesis using post_keeps_trans post_keeps_dev by fastforce
qed

lemma post_keepsI: "(post_in X s \<Longrightarrow> keeps_in X s t) \<Longrightarrow> keeps_in X s t"
  by (simp add: keeps_in_def)

lemma post_keeps_ok: "keeps_in X s t \<Longrightarrow> post_in X s \<Longrightarrow> post_in X t"
  by (simp add: keeps_in_def)

lemma register_keeps:
  assumes "post_in X s" "new_drive X p s t"
  shows "keeps_in X s (register_atapi p buf t)" "keeps_in X s (register_ata env p buf t)"
proof -
  note n = new_drive_describe[OF new_drive_set[OF assms(2)]]
  show "keeps_in X s (register_atapi p buf t)" unfolding register_atapi_def Let_def
    by (simp only: new_drive_entered[OF assms(1) n] split: if_split) simp
  show "keeps_in X s (register_ata env p buf t)" unfolding register_ata_def Let_def
    by (rule new_drive_entered(3)[OF assms(1) new_drive_set[OF n]])
qed

text \<open>Both initialisations have the same shape.\<close>

lemma init_drive_keeps:
  assumes env: "env_ok env" "send_ata_identity M dummy (en_buffer env) c (ram (su_pmm s), d0) = Some (ret, m, d)"
    and reg: "\<And>t p u buf. post_in X t \<Longrightarrow> new_drive X p t u \<Longrightarrow> keeps_in X t (reg p buf u)"
    and res: "(let s1 = s\<lparr>su_pmm := ram_set m (su_pmm s), su_dev := d\<rparr>; buf = word_at m (en_buffer env) in
       if ret \<noteq> 0 then Some (0, s1)
       else let (adrive, s2) = init_atadrive dummy buf s1 in if adrive = 0 then Some (0, s2) else Some (adrive, reg adrive buf s2)) = Some (p, s')"
  shows "keeps_in X s s'"
proof (rule post_keepsI)
  assume ok: "post_in X s"
  define s1 where "s1 = s\<lparr>su_pmm := ram_set m (su_pmm s), su_dev := d\<rparr>"
  define buf where "buf = word_at m (en_buffer env)"
  have k1: "keeps_in X s s1" unfolding s1_def by (rule identity_keeps[OF env])
  note ok1 = post_keeps_ok[OF k1 ok]
  obtain adrive s2 where a: "init_atadrive dummy buf s1 = (adrive, s2)" by fastforce
  note new = init_atadrive_new[OF ok1 a]
  note r = res[folded s1_def buf_def, unfolded Let_def s1_def[symmetric] buf_def[symmetric] a prod.case]
  consider "s' = s1" | "adrive = 0" "s' = s2" | "adrive \<noteq> 0" "s' = reg adrive buf s2" using r by (cases "ret \<noteq> 0"; cases "adrive = 0") auto
  then have "keeps_in X s1 s'" using new reg[OF ok1] by cases simp_all
  then show "keeps_in X s s'" by (rule post_keeps_trans[OF k1])
qed

lemma init_drive_atapi_keeps:
  assumes "env_ok env" "init_drive_atapi env dummy s = Some (p, s')"
  shows "keeps_in X s s'"
proof -
  obtain ret m d where i: "send_ata_identity (en_ports env) dummy (en_buffer env) ATA_CMD_IDENTIFY_PACKET_DEVICE (ram (su_pmm s), su_dev s) = Some (ret, m, d)"
    using assms(2) by (auto simp: init_drive_atapi_def bind_eq_Some_conv)
  show ?thesis
    by (rule init_drive_keeps[where reg = register_atapi and p = p, OF assms(1) i register_keeps(1)]) (use assms(2) in \<open>simp_all add: init_drive_atapi_def i Let_def\<close>)
qed

lemma init_drive_ata_keeps:
  assumes "env_ok env" "init_drive_ata env dummy s = Some (p, s')"
  shows "keeps_in X s s'"
proof -
  obtain ret m d where i: "send_ata_identity (en_ports env) dummy (en_buffer env) ATA_CMD_IDENTIFY_DEVICE (ram (su_pmm s), su_dev s) = Some (ret, m, d)"
    using assms(2) by (auto simp: init_drive_ata_def bind_eq_Some_conv)
  show ?thesis
    by (rule init_drive_keeps[where reg = "register_ata env" and p = p, OF assms(1) i register_keeps(2)]) (use assms(2) in \<open>simp_all add: init_drive_ata_def i Let_def\<close>)
qed

lemma identify_keeps:
  assumes "env_ok env" "identify env dummy s = Some (p, s')"
  shows "keeps_in X s s'"
proof -
  obtain p1 s1 where a: "init_drive_atapi env dummy s = Some (p1, s1)" using assms(2) by (auto simp: identify_def Let_def bind_eq_Some_conv)
  have k: "keeps_in X s s1" by (rule init_drive_atapi_keeps[OF assms(1) a])
  obtain st d1 where st: "p_inb (en_ports env) (iobase1 (ad_chan dummy) + ATA_CB_STAT) (su_dev s1) = (st, d1)" by fastforce
  show ?thesis
  proof (cases "p1 \<noteq> 0 \<or> st = 0")
    case True
    then have "s' = s1 \<or> s' = s1\<lparr>su_dev := d1\<rparr>" using assms(2) a st by (auto simp: identify_def Let_def split: if_splits)
    then show ?thesis using k post_keeps_trans[OF k post_keeps_dev] by auto
  next
    case False
    then obtain ret d2 where w: "await_rdy (en_ports env) (iobase1 (ad_chan dummy)) d1 = Some (ret, d2)"
      using assms(2) a st by (auto simp: identify_def Let_def bind_eq_Some_conv)
    have k2: "keeps_in X s (s1\<lparr>su_dev := d2\<rparr>)" by (rule post_keeps_trans[OF k post_keeps_dev])
    have "(if ret = None then Some (0, s1\<lparr>su_dev := d2\<rparr>) else init_drive_ata env dummy (s1\<lparr>su_dev := d2\<rparr>)) = Some (p, s')"
      using assms(2) a st w False by (simp add: identify_def Let_def)
    then show ?thesis using k2 post_keeps_trans[OF k2 init_drive_ata_keeps[OF assms(1)]] by (cases "ret = None") auto
  qed
qed

lemma detect_slave_keeps:
  assumes "env_ok env" "detect_slave env ch slave didreset s = Some (r, s')"
  shows "keeps_in X s s'"
proof -
  let ?dummy = "\<lparr>ad_drive = zero_drive, ad_chan = ch, ad_slave = slave\<rparr>"
  obtain found d1 where f: "probe env ch slave (su_dev s) = Some (found, d1)" using assms(2) by (auto simp: detect_slave_def Let_def bind_eq_Some_conv)
  show ?thesis
  proof (cases found)
    case True
    obtain d2 where d2: "(if didreset then Some d1 else ata_reset (en_ports env) ?dummy d1) = Some d2"
      using assms(2) f True by (auto simp: detect_slave_def Let_def bind_eq_Some_conv)
    obtain adrive s2 where i: "identify env ?dummy (s\<lparr>su_dev := d2\<rparr>) = Some (adrive, s2)" "s' = s2"
      using assms(2) f True d2 by (auto simp: detect_slave_def Let_def bind_eq_Some_conv)
    then show ?thesis using post_keeps_trans[OF post_keeps_dev identify_keeps[OF assms(1)]] by blast
  next
    case False
    then have "s' = s\<lparr>su_dev := d1\<rparr>" using assms(2) f by (simp add: detect_slave_def Let_def)
    then show ?thesis by simp
  qed
qed

lemma ata_detect_keeps:
  assumes "env_ok env" "ata_detect env ch s = Some s'"
  shows "keeps_in X s s'"
  using assms(2) detect_slave_keeps[OF assms(1)] post_keeps_trans
  unfolding ata_detect_def by (auto simp: bind_eq_Some_conv split: if_splits) blast

text \<open>A thread runs on a block that the tables do not refer to, and its buffer is inside that block.\<close>

lemma thread_stack:
  assumes ok: "post_ok s" and env: "env_ok env" and m: "memalign_tmphigh THREADSTACKSIZE THREADSTACKSIZE (su_pmm s) = (thread, q)"
  shows "thread = 0 \<Longrightarrow> post_keeps s (s\<lparr>su_pmm := q\<rparr>)"
    and "thread \<noteq> 0 \<Longrightarrow> env_ok (env\<lparr>en_buffer := thread + en_frame env\<rparr>) \<and> post_in {thread} (s\<lparr>su_pmm := q\<rparr>)
      \<and> thread \<notin> live (su_pmm s) \<and> live (su_pmm s) \<subseteq> live q"
proof -
  have pm: "pmm_malloc ZoneTmpHigh PMM_DEFAULT_HANDLE THREADSTACKSIZE (2 ^ 12) (su_pmm s) = (thread, q)"
    using m by (simp add: memalign_tmphigh_def THREADSTACKSIZE_def)
  have al: "alloc_ok (su_pmm s)" using ok by (simp add: post_in_def)
  have r: "alloc_ok q" "if thread = 0 then live q = live (su_pmm s) else thread \<notin> live (su_pmm s) \<and> live q = insert thread (live (su_pmm s)) \<and> off_ebda thread (unat THREADSTACKSIZE)"
    using malloc_step[OF al _ _ pm] by (auto simp: req_ok_def THREADSTACKSIZE_def)
  show "post_keeps s (s\<lparr>su_pmm := q\<rparr>)" if "thread = 0" using that r by (intro post_keeps_released) auto
  show "env_ok (env\<lparr>en_buffer := thread + en_frame env\<rparr>) \<and> post_in {thread} (s\<lparr>su_pmm := q\<rparr>) \<and> thread \<notin> live (su_pmm s) \<and> live (su_pmm s) \<subseteq> live q"
    if "thread \<noteq> 0"
  proof -
    have l: "live q = insert thread (live (su_pmm s))" "thread \<notin> live (su_pmm s)" "off_ebda thread (unat THREADSTACKSIZE)" using that r(2) by simp_all
    then have "live q - {thread} = live (su_pmm s)" by auto
    then have "post_in {thread} (s\<lparr>su_pmm := q\<rparr>)" using ok r(1) l(1) by (simp add: post_in_def)
    moreover have "unat (thread + en_frame env) = unat thread + unat (en_frame env)"
      using l(3) env by (intro unat_add_nowrap) (simp add: env_ok_def off_ebda_def)
    ultimately show ?thesis using l env by (auto simp: env_ok_def off_ebda_def)
  qed
qed

lemma run_ata_detect_keeps:
  assumes ok: "post_ok s" and env: "env_ok env" and r: "run_ata_detect env ch s = Some s'"
  shows "post_keeps s s'"
proof -
  obtain thread q where m: "memalign_tmphigh THREADSTACKSIZE THREADSTACKSIZE (su_pmm s) = (thread, q)" by fastforce
  note st = thread_stack[OF ok env m]
  let ?s1 = "s\<lparr>su_pmm := q\<rparr>"
  consider "ata_detect env ch s = Some s'" | "thread = 0" "ata_detect env ch ?s1 = Some s'"
    | s2 where "thread \<noteq> 0" "ata_detect (env\<lparr>en_buffer := thread + en_frame env\<rparr>) ch ?s1 = Some s2" "s' = s2\<lparr>su_pmm := snd (pmm_free thread (su_pmm s2))\<rparr>"
    using r m by (auto simp: run_ata_detect_def Let_def bind_eq_Some_conv split: if_splits)
  then show ?thesis
  proof cases
    case 3
    have k: "keeps_in {thread} ?s1 s2" by (rule ata_detect_keeps[OF _ 3(2)]) (use st(2)[OF 3(1)] in blast)
    then have k2: "post_in {thread} s2" "live q \<subseteq> live (su_pmm s2)"
        "\<forall>p\<in>live q. drive_at (su_drives s2) (unat p) = drive_at (su_drives s) (unat p) \<and> su_ata s2 (unat p) = su_ata s (unat p)"
      using st(2)[OF 3(1)] by (simp_all add: keeps_in_def)
    have al: "alloc_ok (su_pmm s2)" using k2(1) by (simp add: post_in_def)
    note f = free_step[OF al, of thread]
    have "tables_ok (unat ` live (snd (pmm_free thread (su_pmm s2)))) (su_drives s2) (su_ipl s2)"
      by (rule tables_ok_mono[of "unat ` (live (su_pmm s2) - {thread})"]) (use k2(1) f(2) in \<open>auto simp: post_in_def\<close>)
    then have "post_ok s'" using f(1) 3(3) by (simp add: post_in_def)
    moreover have "live (su_pmm s) \<subseteq> live (su_pmm s')" using st(2)[OF 3(1)] k2(2) f(2) 3(3) by auto
    ultimately show ?thesis using k2(3) st(2)[OF 3(1)] 3(3) by (auto simp: keeps_in_def)
  qed (use ata_detect_keeps[OF env] post_keeps_trans[OF st(1)] in blast)+
qed

lemma init_controller_keeps:
  assumes "env_ok env" "init_controller env chan bdf irq port1 port2 master s = Some s'"
  shows "post_keeps s s'"
proof -
  obtain p q where a: "malloc_fseg sizeof_ata_channel_s (su_pmm s) = (p, q)" by fastforce
  have "post_keeps s (s\<lparr>su_pmm := q\<rparr>)"
  proof (rule post_keepsI)
    assume ok: "post_ok s"
    then have "alloc_ok (su_pmm s)" by (simp add: post_in_def)
    from malloc_step[where k = 4, folded min_align, OF this _ _ a[unfolded malloc_fseg_def]] have r: "alloc_ok q" "live (su_pmm s) \<subseteq> live q"
      by (auto simp: req_ok_def sizeof_ata_channel_s_def split: if_splits)
    then show "post_keeps s (s\<lparr>su_pmm := q\<rparr>)"
      using ok tables_ok_mono[of _ _ _ "unat ` live q"] by (auto simp: keeps_in_def post_in_def image_mono)
  qed
  moreover have "s' = s\<lparr>su_pmm := q\<rparr> \<or> (\<exists>ch. run_ata_detect env ch (s\<lparr>su_pmm := q\<rparr>) = Some s')"
    using assms(2) a by (auto simp: init_controller_def Let_def split: if_splits)
  moreover have "keeps_in {} (s\<lparr>su_pmm := q\<rparr>) s'" if "run_ata_detect env ch (s\<lparr>su_pmm := q\<rparr>) = Some s'" for ch
    by (rule post_keepsI) (rule run_ata_detect_keeps[OF _ assms(1) that])
  ultimately show ?thesis using post_keeps_trans by metis
qed

section \<open>The whole set-up\<close>

definition scan_keeps :: "'d post_state \<Rightarrow> 'd ata_scan \<Rightarrow> bool" where
  "scan_keeps s c \<longleftrightarrow> (\<forall>s'. sc_setup c = Some s' \<longrightarrow> post_keeps s s')"

lemma pci_config_keeps [simp]:
  "sc_setup (snd (pci_config_readl bdf a c)) = sc_setup c" "sc_setup (snd (pci_config_readw bdf a c)) = sc_setup c"
  "sc_setup (snd (pci_config_readb bdf a c)) = sc_setup c" "sc_setup (pci_config_maskw bdf a off on c) = sc_setup c"
  by (simp_all add: pci_config_readl_def pci_config_readw_def pci_config_readb_def pci_config_maskw_def pci_config_writew_def
      outl_cmd_def out_data_def Let_def split: prod.split)

lemma scan_controller_keeps:
  "env_ok env \<Longrightarrow> scan_keeps s c \<Longrightarrow> scan_keeps s (scan_controller env bdf irq port1 port2 master c)"
  using init_controller_keeps post_keeps_trans by (fastforce simp: scan_keeps_def scan_controller_def bind_eq_Some_conv)

lemma channel_ports_setup [simp]: "sc_setup (snd (channel_ports native bdf bar pciirq irq port1 port2 c)) = sc_setup c"
  by (simp add: channel_ports_def Let_def case_prod_beta)

lemma ata_scan_body_keeps:
  assumes "env_ok env" "scan_keeps s c"
  shows "scan_keeps s (ata_scan_body conf_dma env x c)"
proof -
  have same: "sc_setup c1 = sc_setup c2 \<Longrightarrow> scan_keeps s c1 \<longleftrightarrow> scan_keeps s c2" for c1 c2 by (simp add: scan_keeps_def)
  have ports: "scan_keeps s (snd (channel_ports native bdf bar pciirq irq port1 port2 c1)) \<longleftrightarrow> scan_keeps s c1" for native bdf bar pciirq irq port1 port2 c1
    by (rule same) simp
  have reads: "scan_keeps s (snd (pci_config_readl bdf a c1)) \<longleftrightarrow> scan_keeps s c1" "scan_keeps s (snd (pci_config_readw bdf a c1)) \<longleftrightarrow> scan_keeps s c1"
    "scan_keeps s (snd (pci_config_readb bdf a c1)) \<longleftrightarrow> scan_keeps s c1" "scan_keeps s (pci_config_maskw bdf a off on c1) \<longleftrightarrow> scan_keeps s c1" for bdf a off on c1
    by (rule same, simp)+
  have "scan_keeps s (c\<lparr>sc_pcicount := n\<rparr>)" for n using assms(2) by (simp add: scan_keeps_def)
  note base = this and step = scan_controller_keeps[OF assms(1)]
  show ?thesis unfolding ata_scan_body_def Let_def case_prod_beta
    by (auto simp: reads ports base intro!: step)
qed

lemma foreachpci_keeps:
  assumes "env_ok env"
  shows "scan_keeps s c \<Longrightarrow> scan_keeps s (foreachpci_from (ata_scan_body conf_dma env) b n c)"
proof (induction "ata_scan_body conf_dma env" b n c rule: foreachpci_from.induct)
  case (1 b n c)
  obtain r v where r: "pci_next b n c = (r, c\<lparr>pci_cmd := v\<rparr>)" using pci_next_eq[of b n c] by blast
  have k: "scan_keeps s (c\<lparr>pci_cmd := v\<rparr>)" using "1.prems" by (simp add: scan_keeps_def)
  show ?case
  proof (cases r)
    case None
    then show ?thesis using k r by (subst foreachpci_from.simps) simp
  next
    case (Some xm)
    obtain x m where xm: "xm = (x, m)" by fastforce
    have "scan_keeps s (foreachpci_from (ata_scan_body conf_dma env) (x + 1) m (ata_scan_body conf_dma env x (c\<lparr>pci_cmd := v\<rparr>)))"
      by (rule "1.hyps"[OF r[symmetric] Some xm[symmetric] ata_scan_body_keeps[OF assms k]])
    then show ?thesis using r Some xm by (subst foreachpci_from.simps) simp
  qed
qed

lemma ata_init_keeps:
  assumes "env_ok env" "sc_setup (ata_init conf_dma env p s) = Some s'"
  shows "post_keeps s s'"
proof -
  let ?c = "foreachpci (ata_scan_body conf_dma env) (pci.extend p (ata_scan.fields 0 0 (Some s)))"
  have c: "scan_keeps s ?c" unfolding foreachpci_def
    by (rule foreachpci_keeps[OF assms(1)]) (simp add: scan_keeps_def pci.defs ata_scan.defs)
  show ?thesis
  proof (cases "sc_pcicount ?c = 0")
    case True
    then obtain s1 s2 where "sc_setup ?c = Some s1" and
        i: "init_controller env 0 None IRQ_ATA1 PORT_ATA1_CMD_BASE PORT_ATA1_CTRL_BASE 0 s1 = Some s2"
        "init_controller env 1 None IRQ_ATA2 PORT_ATA2_CMD_BASE PORT_ATA2_CTRL_BASE 0 s2 = Some s'"
      using assms(2) by (auto simp: ata_init_def Let_def bind_eq_Some_conv)
    then show ?thesis using c post_keeps_trans[OF _ post_keeps_trans[OF i[THEN init_controller_keeps[OF assms(1)]]]] by (simp add: scan_keeps_def)
  next
    case False
    then show ?thesis using assms(2) c by (simp add: ata_init_def Let_def scan_keeps_def)
  qed
qed

section \<open>The set-up returns\<close>

lemma send_ata_identity_returns:
  assumes "clock_laws M now"
  shows "send_ata_identity M ad buffer c s \<noteq> None"
  using ata_pio_cmd_data_returns[OF assms] by (simp add: send_ata_identity_def bind_eq_None_conv split_beta del: not_None_eq)

lemma init_drive_returns:
  assumes "clock_laws (en_ports env) now"
  shows "init_drive_atapi env dummy s \<noteq> None" "init_drive_ata env dummy s \<noteq> None"
  using send_ata_identity_returns[OF assms]
  by (simp_all add: init_drive_atapi_def init_drive_ata_def Let_def bind_eq_None_conv split_beta del: not_None_eq)

lemma powerup_ends:
  assumes M: "clock_laws M now" and d: "now d \<le> t + 2 ^ 57"
  shows "powerup_await_non_bsy M (of_nat t) iobase orstatus d \<noteq> None"
  using d
proof (induction "t + 2 ^ 57 - now d" arbitrary: d orstatus rule: less_induct)
  case less
  obtain st d1 where r: "p_inb M (iobase + ATA_CB_STAT) d = (st, d1)" by fastforce
  have n: "now d \<le> now d1" "now d1 \<le> now d + 2 ^ 56" using clock_lawsD(2,3)[OF M, where d = d and p = "iobase + ATA_CB_STAT"] r by simp_all
  show ?case
  proof (cases "t < now d1")
    case True
    then have "check_time (p_tsc M d1) (of_nat t)" using n less.prems by (intro time_is_up[OF M]) auto
    then show ?thesis by (subst powerup_await_non_bsy.simps) (simp add: r)
  next
    case False
    have "powerup_await_non_bsy M (of_nat t) iobase (orstatus OR st) (p_yield M d1) \<noteq> None"
      by (rule less.hyps) (use False n clock_lawsD(8,9)[OF M, of d1] in auto)
    then show ?thesis by (subst powerup_await_non_bsy.simps) (auto simp: r)
  qed
qed

lemma powerup_returns:
  assumes "clock_laws M now"
  shows "powerup_await_non_bsy M spinup iobase orstatus d \<noteq> None"
proof -
  obtain t where "spinup = of_nat t" "now d \<le> t" by (rule end_time_ahead)
  then show ?thesis using powerup_ends[OF assms, of d t] by simp
qed

lemma ata_detect_returns:
  assumes M: "clock_laws (en_ports env) now"
  shows "ata_detect env ch s \<noteq> None"
proof -
  have "probe env ch slave d \<noteq> None" for slave d
    using powerup_returns[OF M] by (simp add: probe_def Let_def bind_eq_None_conv split_beta del: not_None_eq)
  moreover have "identify env dummy s \<noteq> None" for dummy s
    using init_drive_returns[OF M] await_returns(2)[OF M] by (simp add: identify_def Let_def bind_eq_None_conv split_beta del: not_None_eq)
  ultimately have "detect_slave env ch slave didreset s \<noteq> None" for slave didreset s
    using ata_reset_returns[OF M] by (simp add: detect_slave_def Let_def bind_eq_None_conv split_beta del: not_None_eq)
  then show ?thesis by (simp add: ata_detect_def bind_eq_None_conv split_beta del: not_None_eq)
qed

lemma init_controller_returns:
  assumes "clock_laws (en_ports env) now"
  shows "init_controller env chan bdf irq port1 port2 master s \<noteq> None"
proof -
  have "ata_detect env ch s \<noteq> None" "ata_detect (env\<lparr>en_buffer := b\<rparr>) ch s \<noteq> None" for ch b s
    by (rule ata_detect_returns, use assms in simp)+
  then have "run_ata_detect env ch s \<noteq> None" for ch s
    by (simp add: run_ata_detect_def Let_def bind_eq_None_conv split_beta del: not_None_eq)
  then show ?thesis by (simp add: init_controller_def Let_def split_beta del: not_None_eq)
qed

lemma ata_scan_body_returns:
  assumes "clock_laws (en_ports env) now" "sc_setup c \<noteq> None"
  shows "sc_setup (ata_scan_body conf_dma env x c) \<noteq> None"
proof -
  have s: "sc_setup (scan_controller env bdf irq port1 port2 master c) = None \<longleftrightarrow> sc_setup c = None" for bdf irq port1 port2 master c
    using init_controller_returns[OF assms(1)] by (cases "sc_setup c") (simp_all add: scan_controller_def del: not_None_eq)
  show ?thesis using assms(2) unfolding ata_scan_body_def Let_def case_prod_beta by (simp add: s del: not_None_eq)
qed

lemma foreachpci_returns:
  assumes "clock_laws (en_ports env) now"
  shows "sc_setup c \<noteq> None \<Longrightarrow> sc_setup (foreachpci_from (ata_scan_body conf_dma env) b n c) \<noteq> None"
proof (induction "ata_scan_body conf_dma env" b n c rule: foreachpci_from.induct)
  case (1 b n c)
  obtain r v where r: "pci_next b n c = (r, c\<lparr>pci_cmd := v\<rparr>)" using pci_next_eq[of b n c] by blast
  have k: "sc_setup (c\<lparr>pci_cmd := v\<rparr>) \<noteq> None" using "1.prems" by simp
  show ?case
  proof (cases r)
    case None
    then show ?thesis using k r by (subst foreachpci_from.simps) simp
  next
    case (Some xm)
    obtain x m where xm: "xm = (x, m)" by fastforce
    have "sc_setup (foreachpci_from (ata_scan_body conf_dma env) (x + 1) m (ata_scan_body conf_dma env x (c\<lparr>pci_cmd := v\<rparr>))) \<noteq> None"
      by (rule "1.hyps"[OF r[symmetric] Some xm[symmetric] ata_scan_body_returns[OF assms k]])
    then show ?thesis using r Some xm by (subst foreachpci_from.simps) simp
  qed
qed

lemma ata_setup_returns:
  assumes "clock_laws (en_ports env) now"
  shows "ata_setup conf_dma env entry_76 p s \<noteq> None"
proof -
  define env1 where "env1 = env\<lparr>en_spinup := calc_future_tsc (p_tsc (en_ports env) (su_dev s)) (p_khz (en_ports env)) IDE_TIMEOUT\<rparr>"
  have M: "clock_laws (en_ports env1) now" using assms by (simp add: env1_def)
  have "sc_setup (foreachpci (ata_scan_body conf_dma env1) (pci.extend p (ata_scan.fields 0 0 (Some s)))) \<noteq> None"
    unfolding foreachpci_def by (rule foreachpci_returns[OF M]) (simp add: pci.defs ata_scan.defs)
  then have "sc_setup (ata_init conf_dma env1 p s) \<noteq> None"
    using init_controller_returns[OF M] by (simp add: ata_init_def Let_def bind_eq_None_conv del: not_None_eq)
  then show ?thesis by (auto simp: ata_setup_def Let_def env1_def)
qed

text \<open>
  A machine with an IDE controller on the PCI bus and one disk. The registers keep what is written; a command
  makes a block of 256 words ready, and the status asks for data until it is read. The clock runs while the
  code waits. The firmware knows one drive already, a compact disc drive.
\<close>

record ex_dev =
  x_now :: nat
  x_reg :: "u16 \<Rightarrow> u8"
  x_left :: nat

definition ex_ports :: "ex_dev ports" where
  "ex_ports = \<lparr>p_inb = (\<lambda>port d. (if port = 0x1f7 then (if x_left d = 0 then 0x50 else 0x58) else x_reg d port, d)),
     p_outb = (\<lambda>v port d. if port = 0x1f7 then d\<lparr>x_left := 256\<rparr> else d\<lparr>x_reg := (x_reg d)(port := v)\<rparr>),
     p_inw = (\<lambda>_ d. (0, d\<lparr>x_left := x_left d - 1\<rparr>)), p_outw = (\<lambda>_ _ d. d), p_outl = (\<lambda>_ _ d. d),
     p_ndelay = (\<lambda>_ d. d\<lparr>x_now := x_now d + 1\<rparr>), p_yield = (\<lambda>d. d\<lparr>x_now := x_now d + 1\<rparr>), p_tsc = (\<lambda>d. of_nat (x_now d)), p_khz = 1000\<rparr>"

definition ex_env :: "ex_dev init_env" where
  "ex_env = \<lparr>en_ports = ex_ports, en_cmos = (\<lambda>_. 0), en_threads = True, en_buffer = 0x6000, en_frame = 0xc00, en_spinup = 0\<rparr>"

definition ex_ide :: pci where
  "ex_ide = \<lparr>pci_cmd = 0, pci_cfg = (\<lambda>b r. if b = 9 then (if r = 0 then 0x70108086 else if r = 0x08 then 0x01010000 else 0) else 0xffffffff), pci_wmask = (\<lambda>_ _. 0)\<rparr>"

definition ex_post :: "ex_dev post_state" where
  "ex_post = \<lparr>su_pmm = snd (pmm_malloc ZoneHigh 7 0x100 (2 ^ 4) ex_pmm), su_drives = map_cd_drive 0x7ffff00 (drives ex_bdisk), su_ipl = ipl ex_boot0,
     su_ata = (\<lambda>_. (undefined, False, 0)), su_dev = \<lparr>x_now = 0, x_reg = (\<lambda>_. 0), x_left = 0\<rparr>, su_control = 0, su_ivt = (\<lambda>_. 0)\<rparr>"

lemma ex_post_ok: "post_ok ex_post" "live (su_pmm ex_post) = {0x7ffff00}"
proof -
  let ?q = "snd (pmm_malloc ZoneHigh 7 0x100 (2 ^ 4) ex_pmm)"
  have a: "alloc_ok ex_pmm" using ex_pmm_inv by (simp add: alloc_ok_def live_def ex_pmm_zones)
  have m: "pmm_malloc ZoneHigh 7 0x100 (2 ^ 4) ex_pmm = (0x7ffff00, ?q)" using ex_malloc by (metis prod.collapse)
  from malloc_step[OF a _ _ m] have q: "alloc_ok ?q" "live ?q = {0x7ffff00}" by (simp_all add: req_ok_def live_def ex_pmm_zones)
  have "tables_ok {0x7ffff00} (drives ex_bdisk) (ipl ex_boot0)"
    using boot_setup_ok[of ex_cmos "\<lparr>ipl = undefined, boot_sequence = 0, bdisk = ex_bdisk\<rparr>"]
    by (simp add: tables_ok_def ex_boot0_def ex_bdisk_def bcv_sorted_def boot_setup_def CONFIG_MAX_EXTDRIVE_def)
  then have "tables_ok {0x7ffff00} (su_drives ex_post) (su_ipl ex_post)" using tables_ok_cd[of "{0x7ffff00}" _ _ "0x7ffff00"] by (simp add: ex_post_def)
  then show "post_ok ex_post" using q by (simp add: post_in_def ex_post_def)
  show "live (su_pmm ex_post) = {0x7ffff00}" using q by (simp add: ex_post_def)
qed


end
