(* ===== verification/Stacks.thy ===== *)
theory Stacks
  imports Pmm_Client
begin

text \<open>
  \<open>bios/seabios/src/stacks.c\<close>: cooperative threads on a ring of \<open>thread_info\<close> records, with the allocator
  of \<open>Pmm\<close> for their stacks, and the mutexes. What a saved stack holds is the list of the frames that are
  still to run, the innermost first; \<open>code\<close> tells what a frame does until the next call of this interface,
  over a \<open>world\<close> that stands for everything else. A pointer to the field \<open>next\<close> of a record is the address
  of the record, since \<open>next\<close> is its first field.
\<close>

section \<open>Threads\<close>

datatype 'c frame = Code 'c | Waiting 'c | Locking nat 'c

datatype 'c action =
    Yield 'c
  | Run_thread 'c 'c
  | Wait_threads 'c
  | Mutex_lock nat 'c
  | Mutex_unlock nat 'c
  | Return

record 'c thread_info =
  t_next :: u32
  stackpos :: "'c frame list"
  t_pprev :: u32

record ('c, 'w) threads =
  info :: "u32 \<Rightarrow> 'c thread_info"
  running :: u32
  frames :: "'c frame list"
  isLocked :: "nat \<Rightarrow> bool"
  CanPreempt :: bool
  th_pmm :: pmm
  world :: 'w

definition thread_setup :: "u32 \<Rightarrow> ('c, 'w) threads \<Rightarrow> ('c, 'w) threads" where
  "thread_setup main s = s\<lparr>info := (info s)(main := \<lparr>t_next = main, stackpos = [], t_pprev = main\<rparr>), CanPreempt := False\<rparr>"

definition getCurThread :: "u32 \<Rightarrow> u32 \<Rightarrow> u32" where
  "getCurThread main esp = (if esp \<le> BUILD_STACK_ADDR then main else ALIGN_DOWN esp THREADSTACKSIZE)"

definition switch_next :: "('c, 'w) threads \<Rightarrow> ('c, 'w) threads" where
  "switch_next s =
     (let cur = running s; nxt = t_next (info s cur) in
      if cur = nxt then s
      else s\<lparr>info := (info s)(cur := (info s cur)\<lparr>stackpos := frames s\<rparr>), running := nxt, frames := stackpos (info s nxt)\<rparr>)"

definition yield :: "u32 \<Rightarrow> ('w \<Rightarrow> 'w) \<Rightarrow> ('c, 'w) threads \<Rightarrow> ('c, 'w) threads" where
  "yield main check_irqs s = switch_next (if running s = main then s\<lparr>world := check_irqs (world s)\<rparr> else s)"

definition end_thread :: "u32 \<Rightarrow> ('c, 'w) threads \<Rightarrow> ('c, 'w) threads" where
  "end_thread old s =
     (let t = info s old;
          i1 = (info s)(t_next t := (info s (t_next t))\<lparr>t_pprev := t_pprev t\<rparr>);
          i2 = i1(t_pprev t := (i1 (t_pprev t))\<lparr>t_next := t_next (i1 old)\<rparr>)
      in s\<lparr>info := i2, th_pmm := snd (pmm_free old (th_pmm s))\<rparr>)"

text \<open>The code after the call in \<open>run_thread\<close>: the thread continues on the stack of the next one.\<close>

definition leave_thread :: "('c, 'w) threads \<Rightarrow> ('c, 'w) threads" where
  "leave_thread s = (let old = running s; nxt = t_next (info s old) in end_thread old (s\<lparr>running := nxt, frames := stackpos (info s nxt)\<rparr>))"

definition run_thread :: "'c \<Rightarrow> ('c, 'w) threads \<Rightarrow> ('c, 'w) threads" where
  "run_thread func s =
     (let (thread, p) = memalign_tmphigh THREADSTACKSIZE THREADSTACKSIZE (th_pmm s); s1 = s\<lparr>th_pmm := p\<rparr> in
      if thread = 0 then s1\<lparr>frames := Code func # frames s\<rparr>
      else
        let cur = running s;
            i1 = (info s)(thread := \<lparr>t_next = cur, stackpos = [], t_pprev = t_pprev (info s cur)\<rparr>);
            i2 = i1(cur := (i1 cur)\<lparr>t_pprev := thread\<rparr>);
            i3 = i2(t_pprev (i2 thread) := (i2 (t_pprev (i2 thread)))\<lparr>t_next := thread\<rparr>)
        in s1\<lparr>info := i3(cur := (i3 cur)\<lparr>stackpos := frames s\<rparr>), running := thread, frames := [Code func]\<rparr>)"

text \<open>
  One step of the running thread, \<open>None\<close> when the main thread has returned. The loops of
  \<open>wait_threads\<close> and \<open>mutex_lock\<close> are frames that test their condition and yield.
\<close>

fun step :: "u32 \<Rightarrow> ('w \<Rightarrow> 'w) \<Rightarrow> ('c \<Rightarrow> 'w \<Rightarrow> 'c action \<times> 'w) \<Rightarrow> ('c, 'w) threads \<Rightarrow> ('c, 'w) threads option" where
  "step main irqs code s =
     (case frames s of
        [] \<Rightarrow> if running s = main then None else Some (leave_thread s)
      | Waiting c # cs \<Rightarrow>
          if t_next (info s main) \<noteq> main then Some (yield main irqs s) else Some (s\<lparr>frames := Code c # cs\<rparr>)
      | Locking m c # cs \<Rightarrow>
          if isLocked s m then Some (yield main irqs s) else Some (s\<lparr>isLocked := (isLocked s)(m := True), frames := Code c # cs\<rparr>)
      | Code c # cs \<Rightarrow>
          let (a, w) = code c (world s); s1 = s\<lparr>world := w\<rparr> in
          case a of
            Yield c1 \<Rightarrow> Some (yield main irqs (s1\<lparr>frames := Code c1 # cs\<rparr>))
          | Run_thread f c1 \<Rightarrow> Some (run_thread f (s1\<lparr>frames := Code c1 # cs\<rparr>))
          | Wait_threads c1 \<Rightarrow> Some (s1\<lparr>frames := Waiting c1 # cs\<rparr>)
          | Mutex_lock m c1 \<Rightarrow> Some (s1\<lparr>frames := Locking m c1 # cs\<rparr>)
          | Mutex_unlock m c1 \<Rightarrow> Some (s1\<lparr>isLocked := (isLocked s1)(m := False), frames := Code c1 # cs\<rparr>)
          | Return \<Rightarrow> Some (s1\<lparr>frames := cs\<rparr>))"

text \<open>Preemption by the real time clock is disabled by \<open>CONFIG_THREAD_OPTIONROMS\<close>; what is left of it:\<close>

definition finish_preempt :: "u32 \<Rightarrow> ('w \<Rightarrow> 'w) \<Rightarrow> ('c, 'w) threads \<Rightarrow> ('c, 'w) threads" where
  "finish_preempt main irqs s = yield main irqs s"

text \<open>A stack pointer inside the block of a thread names that thread; the main thread runs on the stack below \<open>BUILD_STACK_ADDR\<close>.\<close>

lemma getCurThread_spec:
  shows "esp \<le> BUILD_STACK_ADDR \<Longrightarrow> getCurThread main esp = main"
    and "BUILD_STACK_ADDR < esp \<Longrightarrow> 4096 dvd unat t \<Longrightarrow> unat t \<le> unat esp \<Longrightarrow> unat esp < unat t + 4096 \<Longrightarrow> getCurThread main esp = t"
proof -
  assume *: "BUILD_STACK_ADDR < esp" "4096 dvd unat t" "unat t \<le> unat esp" "unat esp < unat t + 4096"
  then obtain q where q: "unat t = 4096 * q" by (auto elim: dvdE)
  have "unat (ALIGN_DOWN esp (2 ^ 12)) = unat esp - unat esp mod 2 ^ 12" by (rule unat_ALIGN_DOWN)
  also have "unat esp div 2 ^ 12 = q" using * q by (intro div_nat_eqI) simp_all
  then have "unat esp - unat esp mod 2 ^ 12 = unat t" using q by (simp add: minus_mod_eq_mult_div)
  finally show "getCurThread main esp = t" using *(1) by (auto simp: getCurThread_def THREADSTACKSIZE_def word_unat_eq_iff)
qed (simp add: getCurThread_def)

section \<open>The ring\<close>

text \<open>
  The threads in the order in which they run, the running one first: each points to the next one and back to
  the one before, around the ring. The stacks of all but the main thread are allocated; the record of the
  main thread lies below the zone of the stacks.
\<close>

definition ring :: "u32 \<Rightarrow> ('c, 'w) threads \<Rightarrow> u32 list \<Rightarrow> bool" where
  "ring main s ts \<longleftrightarrow> distinct ts \<and> ts \<noteq> [] \<and> hd ts = running s \<and> main \<in> set ts
     \<and> alloc_ok (th_pmm s) \<and> set ts - {main} \<subseteq> live (th_pmm s) \<and> main \<notin> live (th_pmm s)
     \<and> unat main < unat (zbottom ZoneTmpHigh (th_pmm s))
     \<and> map (\<lambda>t. t_next (info s t)) ts = rotate1 ts \<and> map (\<lambda>t. t_pprev (info s t)) (rotate1 ts) = ts"

text \<open>The threads with the frames that they have to run.\<close>

definition view :: "('c, 'w) threads \<Rightarrow> u32 list \<Rightarrow> (u32 \<times> 'c frame list) list" where
  "view s ts = map (\<lambda>t. (t, if t = running s then frames s else stackpos (info s t))) ts"

text \<open>What the scheduler is meant to do with that list.\<close>

datatype 'c schedule = Same "'c frame list" | Switch "'c frame list" | Spawn "'c frame list" 'c | Leave

fun scheduled :: "'c schedule \<Rightarrow> (u32 \<times> 'c frame list) list \<Rightarrow> (u32 \<times> 'c frame list) list \<Rightarrow> bool" where
  "scheduled (Same fs) ((t, _) # ts) us \<longleftrightarrow> us = (t, fs) # ts"
| "scheduled (Switch fs) ((t, _) # ts) us \<longleftrightarrow> us = ts @ [(t, fs)]"
| "scheduled (Spawn fs f) ((t, _) # ts) us \<longleftrightarrow>
     (\<exists>n. n \<notin> fst ` set ((t, fs) # ts) \<and> us = (n, [Code f]) # (t, fs) # ts) \<or> us = (t, Code f # fs) # ts"
| "scheduled Leave (_ # ts) us \<longleftrightarrow> us = ts"
| "scheduled _ [] us \<longleftrightarrow> False"

lemma ringI:
  assumes "distinct ts" "ts \<noteq> []" "hd ts = running s" "main \<in> set ts" "alloc_ok (th_pmm s)" "set ts - {main} \<subseteq> live (th_pmm s)"
    "main \<notin> live (th_pmm s)" "unat main < unat (zbottom ZoneTmpHigh (th_pmm s))"
    "map (\<lambda>t. t_next (info s t)) ts = rotate1 ts" "map (\<lambda>t. t_pprev (info s t)) (rotate1 ts) = ts"
  shows "ring main s ts"
  using assms by (simp add: ring_def)

lemma ringD:
  assumes "ring main s ts"
  shows "distinct ts" "hd ts = running s" "main \<in> set ts" "alloc_ok (th_pmm s)" "set ts - {main} \<subseteq> live (th_pmm s)"
    "main \<notin> live (th_pmm s)" "unat main < unat (zbottom ZoneTmpHigh (th_pmm s))"
    "map (\<lambda>t. t_next (info s t)) ts = rotate1 ts" "map (\<lambda>t. t_pprev (info s t)) (rotate1 ts) = ts"
  using assms by (simp_all add: ring_def)

lemma ring_next:
  assumes "ring main s (x # xs)"
  shows "t_next (info s x) = hd (xs @ [x])" "t_pprev (info s x) = last (x # xs)" "running s = x"
proof -
  have m: "t_next (info s x) # map (\<lambda>t. t_next (info s t)) xs = xs @ [x]" "map (\<lambda>t. t_pprev (info s t)) (xs @ [x]) = x # xs"
    using assms by (auto simp: ring_def)
  show "t_next (info s x) = hd (xs @ [x])" using m(1) by (metis list.sel(1))
  show "t_pprev (info s x) = last (x # xs)" using arg_cong[OF m(2), of last] by simp
  show "running s = x" using assms by (simp add: ring_def)
qed

text \<open>Steps that do not touch the ring.\<close>

lemma ring_same:
  assumes "ring main s ts" "info s' = info s" "running s' = running s" "th_pmm s' = th_pmm s"
  shows "ring main s' ts"
  using assms by (simp add: ring_def)

lemma switch_ring:
  assumes "ring main s (x # xs)"
  shows "ring main (switch_next s) (xs @ [x]) \<and> view (switch_next s) (xs @ [x]) = tl (view s (x # xs)) @ [(x, frames s)]"
proof (cases xs)
  case Nil
  then have "switch_next s = s" using ring_next[OF assms] by (simp add: switch_next_def)
  then show ?thesis using assms Nil ring_next[OF assms] by (simp add: view_def)
next
  case (Cons y ys)
  have d: "distinct (x # xs)" using assms by (auto simp: ring_def)
  have y: "t_next (info s x) = y" "x \<noteq> y" using ring_next[OF assms] d Cons by auto
  let ?i = "(info s)(x := (info s x)\<lparr>stackpos := frames s\<rparr>)"
  have s: "switch_next s = s\<lparr>info := ?i, running := y, frames := stackpos (info s y)\<rparr>"
    using ring_next[OF assms] y by (simp add: switch_next_def Let_def)
  have f: "t_next (?i t) = t_next (info s t)" "t_pprev (?i t) = t_pprev (info s t)" for t by auto
  have m: "map (\<lambda>t. t_next (info s t)) (x # xs) = xs @ [x]" "map (\<lambda>t. t_pprev (info s t)) (xs @ [x]) = x # xs" using assms by (auto simp: ring_def)
  have "map (\<lambda>t. t_next (?i t)) (xs @ [x]) = rotate1 (xs @ [x])" "map (\<lambda>t. t_pprev (?i t)) (rotate1 (xs @ [x])) = xs @ [x]"
    unfolding f rotate1_map[symmetric] using arg_cong[OF m(1), of rotate1] arg_cong[OF m(2), of rotate1] by simp_all
  moreover have "set (xs @ [x]) = set (x # xs)" "distinct (xs @ [x])" "hd (xs @ [x]) = y" using d Cons by auto
  ultimately have "ring main (switch_next s) (xs @ [x])" unfolding s
    by (intro ringI) (use ringD(3-7)[OF assms] in \<open>simp_all del: set_append list.set list.map map_append distinct_append\<close>)
  moreover have "view (switch_next s) (xs @ [x]) = tl (view s (x # xs)) @ [(x, frames s)]"
    using d ring_next(3)[OF assms] Cons y(2) by (auto simp: view_def s)
  ultimately show ?thesis ..
qed

lemma map_upd_last: "distinct (us @ [l]) \<Longrightarrow> map (f(l := v)) (us @ [l]) = map f us @ [v]"
  by simp

lemma spawn_ring:
  assumes r: "ring main s (x # xs)" and m: "memalign_tmphigh THREADSTACKSIZE THREADSTACKSIZE (th_pmm s) = (n, p)" "n \<noteq> 0"
  shows "ring main (run_thread f s) (n # x # xs) \<and> view (run_thread f s) (n # x # xs) = (n, [Code f]) # view s (x # xs) \<and> n \<notin> set (x # xs)"
proof -
  have al: "alloc_ok (th_pmm s)" and live: "set (x # xs) - {main} \<subseteq> live (th_pmm s)" and d: "distinct (x # xs)" and main: "main \<notin> live (th_pmm s)" "main \<in> set (x # xs)"
    using r by (auto simp: ring_def)
  have "THREADSTACKSIZE = 2 ^ 12" by (simp add: THREADSTACKSIZE_def)
  then have pm: "pmm_malloc ZoneTmpHigh PMM_DEFAULT_HANDLE THREADSTACKSIZE (2 ^ 12) (th_pmm s) = (n, p)" using m(1) by (simp add: memalign_tmphigh_def)
  note bottom = pmm_malloc_bottom[where z = ZoneTmpHigh and handle = PMM_DEFAULT_HANDLE and sz = THREADSTACKSIZE and align = "2 ^ 12" and s = "th_pmm s", unfolded pm fst_conv snd_conv]
  have b: "zbottom ZoneTmpHigh p = zbottom ZoneTmpHigh (th_pmm s)" "n \<noteq> main" using bottom m(2) ringD(7)[OF r] by (auto simp: word_le_nat_alt)
  have p: "alloc_ok p" "n \<notin> live (th_pmm s)" "live p = insert n (live (th_pmm s))"
    using malloc_step[OF al _ _ pm] m(2) by (auto simp: req_ok_def THREADSTACKSIZE_def)
  have new: "n \<notin> set (x # xs)" using p(2) live b(2) by auto
  obtain us l where us: "x # xs = us @ [l]" by (metis rev_exhaust list.distinct(1))
  have px: "t_pprev (info s x) = l" "running s = x" using ring_next[OF r] us by auto
  have l: "l \<in> set (x # xs)" "l \<noteq> n" using us new by auto
  define i where "i = info (run_thread f s)"
  have s': "run_thread f s = s\<lparr>th_pmm := p, info := i, running := n, frames := [Code f]\<rparr>"
    using m(1,2) px unfolding i_def by (simp add: run_thread_def Let_def)
  have i: "t_next (i t) = (if t = n then x else if t = l then n else t_next (info s t))"
    "t_pprev (i t) = (if t = n then l else if t = x then n else t_pprev (info s t))"
    "t \<noteq> n \<Longrightarrow> stackpos (i t) = (if t = x then frames s else stackpos (info s t))" for t
    using m(1,2) px l new unfolding i_def by (cases "t = n"; cases "t = x"; cases "t = l"; cases "x = l"; simp add: run_thread_def Let_def)+
  have nx: "map (\<lambda>t. t_next (info s t)) (us @ [l]) = xs @ [x]" "map (\<lambda>t. t_pprev (info s t)) (xs @ [x]) = x # xs"
    using r unfolding us[symmetric] by (auto simp: ring_def)
  have "map (\<lambda>t. t_next (i t)) (us @ [l]) = xs @ [n]"
  proof -
    have "map (\<lambda>t. t_next (i t)) us = map (\<lambda>t. t_next (info s t)) us" using d us new by (auto simp: i)
    moreover have "map (\<lambda>t. t_next (info s t)) us = xs" using nx(1) by simp
    ultimately show ?thesis using l by (simp add: i)
  qed
  moreover have "map (\<lambda>t. t_pprev (i t)) (xs @ [n]) = us @ [l]"
  proof -
    have "map (\<lambda>t. t_pprev (i t)) xs = map (\<lambda>t. t_pprev (info s t)) xs" using d new by (auto simp: i)
    moreover have "map (\<lambda>t. t_pprev (info s t)) xs = us" using nx(2) us by simp
    ultimately show ?thesis by (simp add: i)
  qed
  ultimately have "map (\<lambda>t. t_next (i t)) (x # xs) = xs @ [n]" "map (\<lambda>t. t_pprev (i t)) (xs @ [n]) = x # xs" unfolding us .
  then have "map (\<lambda>t. t_next (i t)) (n # x # xs) = rotate1 (n # x # xs)" "map (\<lambda>t. t_pprev (i t)) (rotate1 (n # x # xs)) = n # x # xs"
    using new i(1)[of n] i(2)[of x] by auto
  then have "ring main (run_thread f s) (n # x # xs)" unfolding s'
    by (intro ringI) (use d new p live main b ringD(7)[OF r] in auto)
  moreover have "view (run_thread f s) (n # x # xs) = (n, [Code f]) # view s (x # xs)"
    using new d px(2) by (auto simp: view_def s' i)
  ultimately show ?thesis using new by simp
qed

lemma leave_ring:
  assumes r: "ring main s (x # y # xs)" and x: "x \<noteq> main"
  shows "ring main (leave_thread s) (y # xs) \<and> view (leave_thread s) (y # xs) = tl (view s (x # y # xs))"
proof -
  have al: "alloc_ok (th_pmm s)" and live: "set (x # y # xs) - {main} \<subseteq> live (th_pmm s)" and d: "distinct (x # y # xs)"
    and main: "main \<notin> live (th_pmm s)" "main \<in> set (x # y # xs)"
    using r by (auto simp: ring_def)
  obtain us l where us: "y # xs = us @ [l]" by (metis rev_exhaust list.distinct(1))
  have px: "t_next (info s x) = y" "t_pprev (info s x) = l" "running s = x"
    using ring_next[OF r] arg_cong[OF us, of last] by simp_all
  have "l \<in> set (y # xs)" unfolding us by simp
  then have l: "l \<noteq> x" "x \<noteq> y" using d by auto
  let ?q = "snd (pmm_free x (th_pmm s))"
  define i where "i = info (leave_thread s)"
  have s': "leave_thread s = s\<lparr>running := y, frames := stackpos (info s y), info := i, th_pmm := ?q\<rparr>"
    using px unfolding i_def by (simp add: leave_thread_def end_thread_def Let_def)
  have i: "t \<noteq> x \<Longrightarrow> t_next (i t) = (if t = l then y else t_next (info s t))"
    "t \<noteq> x \<Longrightarrow> t_pprev (i t) = (if t = y then l else t_pprev (info s t))" "t \<noteq> x \<Longrightarrow> stackpos (i t) = stackpos (info s t)" for t
    using px l unfolding i_def by (cases "t = y"; cases "t = l"; cases "y = l"; simp add: leave_thread_def end_thread_def Let_def)+
  have nx: "map (\<lambda>t. t_next (info s t)) (x # us @ [l]) = us @ [l] @ [x]" "map (\<lambda>t. t_pprev (info s t)) (y # xs @ [x]) = x # us @ [l]"
    using r unfolding append.assoc[symmetric] us[symmetric] by (auto simp: ring_def)
  have "map (\<lambda>t. t_next (i t)) (us @ [l]) = xs @ [y]"
  proof -
    have "map (\<lambda>t. t_next (i t)) us = map (\<lambda>t. t_next (info s t)) us"
    proof (rule map_cong[OF refl])
      fix t assume "t \<in> set us"
      then have "t \<noteq> x" "t \<noteq> l" using d us by (auto simp: distinct_append dest: arg_cong[of _ _ set])
      then show "t_next (i t) = t_next (info s t)" by (simp add: i)
    qed
    moreover have "y # map (\<lambda>t. t_next (info s t)) us = us @ [l]" using nx(1) px by simp
    then have "map (\<lambda>t. t_next (info s t)) us = xs" unfolding us[symmetric] by simp
    ultimately show ?thesis using l by (simp add: i)
  qed
  moreover have "map (\<lambda>t. t_pprev (i t)) (xs @ [y]) = us @ [l]"
  proof -
    have "map (\<lambda>t. t_pprev (i t)) xs = map (\<lambda>t. t_pprev (info s t)) xs"
    proof (rule map_cong[OF refl])
      fix t assume "t \<in> set xs"
      then have "t \<noteq> x" "t \<noteq> y" using d by auto
      then show "t_pprev (i t) = t_pprev (info s t)" by (simp add: i)
    qed
    moreover have "map (\<lambda>t. t_pprev (info s t)) xs = us" using nx(2) px by simp
    ultimately show ?thesis using i(2)[of y] l by simp
  qed
  moreover have "alloc_ok ?q" "set (y # xs) - {main} \<subseteq> live ?q" "main \<notin> live ?q"
    using free_step[OF al, of x] live d main by (blast, auto)
  ultimately have "ring main (leave_thread s) (y # xs)" unfolding s' us[symmetric]
    by (intro ringI) (use d main x ringD(7)[OF r] in \<open>auto simp: pmm_free_bottom\<close>)
  moreover have "view (leave_thread s) (y # xs) = tl (view s (x # y # xs))"
  proof -
    have "(t, if t = y then stackpos (info s y) else stackpos (i t)) = (t, if t = x then frames s else stackpos (info s t))" if "t \<in> set (y # xs)" for t
      using that d i(3)[of t] by auto
    then have "map (\<lambda>t. (t, if t = y then stackpos (info s y) else stackpos (i t))) (y # xs)
        = map (\<lambda>t. (t, if t = x then frames s else stackpos (info s t))) (y # xs)" by (rule map_cong[OF refl])
    moreover have "view (leave_thread s) (y # xs) = map (\<lambda>t. (t, if t = y then stackpos (info s y) else stackpos (i t))) (y # xs)"
      unfolding view_def s' by simp
    moreover have "tl (view s (x # y # xs)) = map (\<lambda>t. (t, if t = x then frames s else stackpos (info s t))) (y # xs)"
      unfolding view_def px(3) by simp
    ultimately show ?thesis by (simp only:)
  qed
  ultimately show ?thesis ..
qed

section \<open>The scheduler\<close>

text \<open>What a step asks of the scheduler.\<close>

definition request :: "u32 \<Rightarrow> ('c \<Rightarrow> 'w \<Rightarrow> 'c action \<times> 'w) \<Rightarrow> ('c, 'w) threads \<Rightarrow> 'c schedule" where
  "request main code s =
     (case frames s of
        [] \<Rightarrow> Leave
      | Waiting c # cs \<Rightarrow> if t_next (info s main) \<noteq> main then Switch (Waiting c # cs) else Same (Code c # cs)
      | Locking m c # cs \<Rightarrow> if isLocked s m then Switch (Locking m c # cs) else Same (Code c # cs)
      | Code c # cs \<Rightarrow>
          (case fst (code c (world s)) of
             Yield c1 \<Rightarrow> Switch (Code c1 # cs)
           | Run_thread f c1 \<Rightarrow> Spawn (Code c1 # cs) f
           | Wait_threads c1 \<Rightarrow> Same (Waiting c1 # cs)
           | Mutex_lock m c1 \<Rightarrow> Same (Locking m c1 # cs)
           | Mutex_unlock m c1 \<Rightarrow> Same (Code c1 # cs)
           | Return \<Rightarrow> Same cs))"

lemma view_frames:
  assumes "ring main s (x # xs)" "info s' = info s" "running s' = running s"
  shows "view s' (x # xs) = (x, frames s') # tl (view s (x # xs))"
  using ringD(1)[OF assms(1)] ring_next(3)[OF assms(1)] assms(2,3) by (auto simp: view_def)

lemma yield_ring:
  assumes "ring main s (x # xs)" "info s1 = info s" "running s1 = running s" "th_pmm s1 = th_pmm s"
  shows "ring main (yield main irqs s1) (xs @ [x]) \<and> view (yield main irqs s1) (xs @ [x]) = tl (view s (x # xs)) @ [(x, frames s1)]"
proof -
  let ?s = "if running s1 = main then s1\<lparr>world := irqs (world s1)\<rparr> else s1"
  have r: "ring main ?s (x # xs)" by (rule ring_same[OF assms(1)]) (simp_all add: assms)
  have "view ?s (x # xs) = (x, frames ?s) # tl (view s (x # xs))" by (rule view_frames[OF assms(1)]) (simp_all add: assms)
  moreover have "frames ?s = frames s1" by simp
  ultimately show ?thesis using switch_ring[OF r] unfolding yield_def by simp
qed

lemma run_thread_ring:
  assumes r: "ring main s (x # xs)"
  shows "\<exists>us. ring main (run_thread f s) us \<and> (us = x # xs \<and> view (run_thread f s) us = (x, Code f # frames s) # tl (view s (x # xs))
      \<or> (\<exists>n. n \<notin> set (x # xs) \<and> us = n # x # xs \<and> view (run_thread f s) us = (n, [Code f]) # view s (x # xs)))"
proof -
  obtain n p where m: "memalign_tmphigh THREADSTACKSIZE THREADSTACKSIZE (th_pmm s) = (n, p)" by fastforce
  show ?thesis
  proof (cases "n = 0")
    case True
    have pm: "pmm_malloc ZoneTmpHigh PMM_DEFAULT_HANDLE THREADSTACKSIZE (2 ^ 12) (th_pmm s) = (n, p)" using m by (simp add: memalign_tmphigh_def THREADSTACKSIZE_def)
    have p: "alloc_ok p" "live p = live (th_pmm s)" "zbottom ZoneTmpHigh p = zbottom ZoneTmpHigh (th_pmm s)"
      using malloc_step[OF ringD(4)[OF r] _ _ pm] True pmm_malloc_bottom[where z = ZoneTmpHigh and handle = PMM_DEFAULT_HANDLE and sz = THREADSTACKSIZE and align = "2 ^ 12" and s = "th_pmm s"] pm
      by (auto simp: req_ok_def THREADSTACKSIZE_def)
    have s': "run_thread f s = s\<lparr>th_pmm := p, frames := Code f # frames s\<rparr>" using m True by (simp add: run_thread_def)
    have "ring main (run_thread f s) (x # xs)" using r p by (auto simp: ring_def s')
    moreover have "view (run_thread f s) (x # xs) = (x, Code f # frames s) # tl (view s (x # xs))"
      using view_frames[OF r, of "run_thread f s"] by (simp add: s')
    ultimately show ?thesis by blast
  next
    case False
    then show ?thesis using spawn_ring[OF r m] by blast
  qed
qed

text \<open>Every step of the code is the step of the scheduler that it asks for.\<close>

lemma step_scheduled:
  assumes r: "ring main s ts" and st: "step main irqs code s = Some s'"
  shows "\<exists>us. ring main s' us \<and> scheduled (request main code s) (view s ts) (view s' us)"
proof -
  obtain x xs where ts: "ts = x # xs" using r by (cases ts) (auto simp: ring_def)
  note r = r[unfolded ts] and x = ring_next(3)[OF r[unfolded ts]]
  have v: "view s ts = (x, frames s) # tl (view s (x # xs))" by (simp add: view_def ts x)
  have same: ?thesis if "request main code s = Same fs" "info s' = info s" "running s' = running s" "th_pmm s' = th_pmm s" "frames s' = fs" for fs
    using ring_same[OF r that(2-4)] view_frames[OF r that(2,3)] that(1,5) by (intro exI[of _ "x # xs"]) (simp add: v)
  have switch: ?thesis if "request main code s = Switch fs" "info s1 = info s" "running s1 = running s" "th_pmm s1 = th_pmm s" "frames s1 = fs"
      "s' = yield main irqs s1" for fs s1
    using yield_ring[OF r that(2-4), of irqs] that(1,5,6) by (intro exI[of _ "xs @ [x]"]) (simp add: v)
  show ?thesis
  proof (cases "frames s")
    case Nil
    then have nm: "x \<noteq> main" "s' = leave_thread s" using st x by (auto split: if_splits)
    then obtain y ys where "xs = y # ys" using ringD(3)[OF r] by (cases xs) auto
    then show ?thesis using leave_ring[of main s x y ys] r nm Nil by (intro exI[of _ xs]) (simp add: request_def v)
  next
    case (Cons f cs)
    show ?thesis
    proof (cases f)
      case (Waiting c)
      show ?thesis
      proof (cases "t_next (info s main) \<noteq> main")
        case True
        show ?thesis by (rule switch[of "Waiting c # cs" s]) (use st Cons Waiting True in \<open>simp_all add: request_def\<close>)
      next
        case False
        show ?thesis by (rule same[of "Code c # cs"]) (use st Cons Waiting False in \<open>auto simp: request_def\<close>)
      qed
    next
      case (Locking m c)
      show ?thesis
      proof (cases "isLocked s m")
        case True
        show ?thesis by (rule switch[of "Locking m c # cs" s]) (use st Cons Locking True in \<open>simp_all add: request_def\<close>)
      next
        case False
        show ?thesis by (rule same[of "Code c # cs"]) (use st Cons Locking False in \<open>auto simp: request_def\<close>)
      qed
    next
      case (Code c)
      obtain a w where a: "code c (world s) = (a, w)" by fastforce
      show ?thesis
      proof (cases a)
        case (Yield c1)
        show ?thesis
          by (rule switch[of "Code c1 # cs" "s\<lparr>world := w, frames := Code c1 # cs\<rparr>"]) (use st Cons Code a Yield in \<open>auto simp: request_def\<close>)
      next
        case (Run_thread g c1)
        let ?s = "s\<lparr>world := w, frames := Code c1 # cs\<rparr>"
        have s': "s' = run_thread g ?s" and q: "request main code s = Spawn (Code c1 # cs) g" using st Cons Code a Run_thread by (auto simp: request_def)
        have r1: "ring main ?s (x # xs)" by (rule ring_same[OF r]) simp_all
        have v1: "view ?s (x # xs) = (x, Code c1 # cs) # tl (view s (x # xs))" using view_frames[OF r, of ?s] by simp
        have "fst ` set ((x, Code c1 # cs) # tl (view s (x # xs))) = set (x # xs)" by (simp add: view_def image_image)
        then show ?thesis using run_thread_ring[OF r1, of g] unfolding s' q v v1 by fastforce
      next
        case (Wait_threads c1)
        show ?thesis by (rule same[of "Waiting c1 # cs"]) (use st Cons Code a Wait_threads in \<open>auto simp: request_def\<close>)
      next
        case (Mutex_lock m c1)
        show ?thesis by (rule same[of "Locking m c1 # cs"]) (use st Cons Code a Mutex_lock in \<open>auto simp: request_def\<close>)
      next
        case (Mutex_unlock m c1)
        show ?thesis by (rule same[of "Code c1 # cs"]) (use st Cons Code a Mutex_unlock in \<open>auto simp: request_def\<close>)
      next
        case Return
        show ?thesis by (rule same[of cs]) (use st Cons Code a Return in \<open>auto simp: request_def\<close>)
      qed
    qed
  qed
qed

text \<open>The states that the code reaches after \<open>thread_setup\<close>.\<close>

inductive reached :: "u32 \<Rightarrow> ('w \<Rightarrow> 'w) \<Rightarrow> ('c \<Rightarrow> 'w \<Rightarrow> 'c action \<times> 'w) \<Rightarrow> ('c, 'w) threads \<Rightarrow> ('c, 'w) threads \<Rightarrow> bool"
  for main irqs code s0 where
  start: "reached main irqs code s0 (thread_setup main s0)"
| more: "reached main irqs code s0 s \<Longrightarrow> step main irqs code s = Some s' \<Longrightarrow> reached main irqs code s0 s'"

text \<open>
  The main thread runs on the initial stack, its record is not part of a block of the allocator, and it
  lies below the zone of the thread stacks.
\<close>

definition started :: "u32 \<Rightarrow> ('c, 'w) threads \<Rightarrow> bool" where
  "started main s0 \<longleftrightarrow> running s0 = main \<and> alloc_ok (th_pmm s0) \<and> main \<notin> live (th_pmm s0) \<and> unat main < unat (zbottom ZoneTmpHigh (th_pmm s0))"

lemma setup_ring: "started main s0 \<Longrightarrow> ring main (thread_setup main s0) [main]"
  by (intro ringI) (simp_all add: started_def thread_setup_def)

lemma reached_ring:
  assumes "reached main irqs code s0 s" "started main s0"
  shows "\<exists>ts. ring main s ts"
  using assms
proof (induction rule: reached.induct)
  case (more s s')
  then show ?case using step_scheduled by blast
qed (use setup_ring in blast)

text \<open>
  C34. The threads of the firmware are scheduled in turn. In every state that the code reaches, the records of
  the threads form one ring that contains the main thread; a thread that yields, waits for a mutex or for the
  other threads goes to the end of the order and the next one continues where it stopped; a new thread
  runs at once and before its creator, or as a call of the creator when there is no memory; a thread that
  returns leaves the ring, and every other step stays in the same thread and changes no other.
\<close>

theorem threads_round_robin:
  assumes "started main s0" "reached main irqs code s0 s" "step main irqs code s = Some s'"
  shows "\<exists>ts us. ring main s ts \<and> ring main s' us \<and> scheduled (request main code s) (view s ts) (view s' us)"
  using reached_ring[OF assms(2,1)] step_scheduled[OF _ assms(3)] by blast

section \<open>Waiting\<close>

definition ahead :: "u32 \<Rightarrow> u32 list \<Rightarrow> nat" where
  "ahead t ts = length (takeWhile (\<lambda>u. u \<noteq> t) ts)"

fun switches :: "'c schedule \<Rightarrow> nat" where
  "switches (Switch fs) = 1" | "switches Leave = 1" | "switches r = 0"

fun spawns :: "'c schedule \<Rightarrow> nat" where
  "spawns (Spawn fs f) = 1" | "spawns r = 0"

text \<open>The switches and the creations of threads in \<open>n\<close> steps, if \<open>t\<close> does not run in that time.\<close>

fun waits :: "u32 \<Rightarrow> ('w \<Rightarrow> 'w) \<Rightarrow> ('c \<Rightarrow> 'w \<Rightarrow> 'c action \<times> 'w) \<Rightarrow> u32 \<Rightarrow> nat \<Rightarrow> ('c, 'w) threads \<Rightarrow> (nat \<times> nat) option" where
  "waits main irqs code t 0 s = (if running s = t then None else Some (0, 0))"
| "waits main irqs code t (Suc n) s =
     (if running s = t then None
      else case step main irqs code s of None \<Rightarrow> None
           | Some s' \<Rightarrow> map_option (\<lambda>(a, b). (a + switches (request main code s), b + spawns (request main code s))) (waits main irqs code t n s'))"

lemma fst_view [simp]: "map fst (view s ts) = ts"
  by (simp add: view_def comp_def)

lemma ahead_append: "t \<in> set xs \<Longrightarrow> ahead t (xs @ ys) = ahead t xs"
  by (induction xs) (auto simp: ahead_def)

lemma scheduled_ahead:
  assumes "scheduled r v w" "t \<in> set (map fst v)" "hd (map fst v) \<noteq> t"
  shows "t \<in> set (map fst w) \<and> ahead t (map fst w) + switches r \<le> ahead t (map fst v) + spawns r"
proof -
  obtain x fs v' where v: "v = (x, fs) # v'" using assms(2) by (cases v) auto
  have t: "t \<in> set (map fst v')" "x \<noteq> t" using assms(2,3) v by auto
  have "\<And>fs. map fst (v' @ [(x, fs)]) = map fst v' @ [x]" by simp
  then show ?thesis using assms(1) t ahead_append[OF t(1)] unfolding v
    by (cases r) (auto simp: ahead_def)
qed

lemma waits_bounded:
  assumes "ring main s ts" "t \<in> set ts" "waits main irqs code t n s = Some (a, b)"
  shows "a < ahead t ts + b"
  using assms
proof (induction n arbitrary: s ts a b)
  case 0
  then have "hd ts \<noteq> t" "ts \<noteq> []" using ringD(2)[OF "0.prems"(1)] by (auto split: if_splits)
  then show ?case using 0 by (cases ts) (auto simp: ahead_def split: if_splits)
next
  case (Suc n)
  let ?r = "request main code s"
  obtain s' a' b' where s': "step main irqs code s = Some s'" "running s \<noteq> t" "waits main irqs code t n s' = Some (a', b')"
      "a = a' + switches ?r" "b = b' + spawns ?r"
    using Suc.prems(3) by (auto split: if_splits option.splits)
  obtain us where us: "ring main s' us" "scheduled ?r (view s ts) (view s' us)" using step_scheduled[OF Suc.prems(1) s'(1)] by blast
  have "hd ts \<noteq> t" using ringD(2)[OF Suc.prems(1)] s'(2) by simp
  then have "t \<in> set us \<and> ahead t us + switches ?r \<le> ahead t ts + spawns ?r" using scheduled_ahead[OF us(2), of t] Suc.prems(2) by simp
  then show ?case using Suc.IH[OF us(1) _ s'(3)] s'(4,5) by linarith
qed

text \<open>
  C35. No thread is passed over. As long as a thread does not run, the number of switches is less than the number
  of threads ahead of it in the ring plus the number of threads that are created meanwhile.
\<close>

theorem thread_waiting_bounded:
  assumes "started main s0" "reached main irqs code s0 s"
  shows "\<exists>ts. ring main s ts \<and> (\<forall>t\<in>set ts. \<forall>n a b. waits main irqs code t n s = Some (a, b) \<longrightarrow> a < ahead t ts + b)"
  using reached_ring[OF assms(2,1)] waits_bounded by blast

text \<open>A main thread that starts a thread and waits for it, and a thread that yields once.\<close>

definition ex_code :: "nat \<Rightarrow> unit \<Rightarrow> nat action \<times> unit" where
  "ex_code c w = (if c = 0 then Run_thread 2 1 else if c = 1 then Wait_threads 9 else if c = 2 then Yield 3 else Return, w)"

definition ex_threads :: "(nat, unit) threads" where
  "ex_threads = \<lparr>info = (\<lambda>_. \<lparr>t_next = 0, stackpos = [], t_pprev = 0\<rparr>), running = 0xf1000, frames = [Code 0], isLocked = (\<lambda>_. False), CanPreempt = True,
     th_pmm = ex_pmm, world = ()\<rparr>"

lemma ex_threads_started: "started 0xf1000 ex_threads"
  using ex_pmm_inv by (simp add: started_def ex_threads_def alloc_ok_def live_def ex_pmm_zones)

theorem threads_round_robin_witness:
  "\<exists>s'. step 0xf1000 (\<lambda>w. w) ex_code (thread_setup 0xf1000 ex_threads) = Some s' \<and> (\<exists>us. ring 0xf1000 s' us)"
proof -
  let ?s = "thread_setup 0xf1000 ex_threads"
  have "step 0xf1000 (\<lambda>w. w) ex_code ?s = Some (run_thread 2 (?s\<lparr>frames := [Code 1]\<rparr>))"
    by (simp add: thread_setup_def ex_threads_def ex_code_def)
  then show ?thesis using threads_round_robin[OF ex_threads_started reached.start, of "\<lambda>w. w" ex_code] by blast
qed

theorem thread_waiting_bounded_witness:
  "\<exists>s' ts. step 0xf1000 (\<lambda>w. w) ex_code (thread_setup 0xf1000 ex_threads) = Some s' \<and> ring 0xf1000 s' ts
     \<and> (\<forall>t\<in>set ts. \<forall>n a b. waits 0xf1000 (\<lambda>w. w) ex_code t n s' = Some (a, b) \<longrightarrow> a < ahead t ts + b)"
proof -
  let ?s = "thread_setup 0xf1000 ex_threads"
  have st: "step 0xf1000 (\<lambda>w. w) ex_code ?s = Some (run_thread 2 (?s\<lparr>frames := [Code 1]\<rparr>))"
    by (simp add: thread_setup_def ex_threads_def ex_code_def)
  show ?thesis using thread_waiting_bounded[OF ex_threads_started reached.more[OF reached.start st]] st by blast
qed

end
