(* ===== verification/Floppy.thy ===== *)
theory Floppy
  imports Ata_Disk
begin

text \<open>
  \<open>bios/seabios/src/floppy.c\<close>: the driver of the floppy controller, with its interrupt handlers. The ports
  of the machine are a parameter, as in \<open>Ata\<close>; memory is behind them, since the controller moves data by DMA.
  \<open>irqs\<close> tells which interrupts are pending when the code yields: those of the controller and of the timer
  are handled by the code of this file. A loop that never ends is \<open>None\<close>. The variables of the BIOS data
  area are the fields of the state, with their names there shortened by \<open>floppy\<close>.
\<close>

section \<open>Data\<close>

definition FLOPPY_SIZE_CODE :: u8 where "FLOPPY_SIZE_CODE = 0x02"
definition FLOPPY_DATALEN :: u8 where "FLOPPY_DATALEN = 0xff"
definition FLOPPY_MOTOR_TICKS :: u8 where "FLOPPY_MOTOR_TICKS = 37"
definition FLOPPY_FILLBYTE :: u8 where "FLOPPY_FILLBYTE = 0xf6"
definition FLOPPY_GAPLEN :: u8 where "FLOPPY_GAPLEN = 0x1B"
definition FLOPPY_FORMAT_GAPLEN :: u8 where "FLOPPY_FORMAT_GAPLEN = 0x6c"
definition FRS_TIMEOUT :: u8 where "FRS_TIMEOUT = 0x80"
definition FMS_MEDIA_DRIVE_ESTABLISHED :: u8 where "FMS_MEDIA_DRIVE_ESTABLISHED = 0x10"
definition PORT_DMA_ADDR_2 :: u16 where "PORT_DMA_ADDR_2 = 0x0004"
definition PORT_DMA_CNT_2 :: u16 where "PORT_DMA_CNT_2 = 0x0005"
definition PORT_DMA1_MASK_REG :: u16 where "PORT_DMA1_MASK_REG = 0x000a"
definition PORT_DMA1_MODE_REG :: u16 where "PORT_DMA1_MODE_REG = 0x000b"
definition PORT_DMA1_CLEAR_FF_REG :: u16 where "PORT_DMA1_CLEAR_FF_REG = 0x000c"
definition PORT_DMA_PAGE_2 :: u16 where "PORT_DMA_PAGE_2 = 0x0081"
definition PORT_FD_DOR :: u16 where "PORT_FD_DOR = 0x03f2"
definition PORT_FD_STATUS :: u16 where "PORT_FD_STATUS = 0x03f4"
definition PORT_FD_DATA :: u16 where "PORT_FD_DATA = 0x03f5"
definition DISK_RET_EBOUNDARY :: u8 where "DISK_RET_EBOUNDARY = 0x09"
definition DISK_RET_ECONTROLLER :: u8 where "DISK_RET_ECONTROLLER = 0x20"
definition DISK_RET_ETIMEOUT :: u8 where "DISK_RET_ETIMEOUT = 0x80"

lemmas fd_port_defs = PORT_DMA_ADDR_2_def PORT_DMA_CNT_2_def PORT_DMA1_MASK_REG_def PORT_DMA1_MODE_REG_def
  PORT_DMA1_CLEAR_FF_REG_def PORT_DMA_PAGE_2_def PORT_FD_DOR_def PORT_FD_STATUS_def PORT_FD_DATA_def

record floppy_dbt_s =
  specify1 :: u8
  specify2 :: u8
  shutoff_ticks :: u8
  bps_code :: u8
  dbt_sectors :: u8
  interblock_len :: u8
  data_len :: u8
  gap_len :: u8
  fill_byte :: u8
  settle_time :: u8
  startup_time :: u8

record floppy_ext_dbt_s =
  dbt :: floppy_dbt_s
  max_track :: u8
  data_rate :: u8
  drive_type :: u8

definition diskette_param_table :: floppy_dbt_s where
  "diskette_param_table = \<lparr>specify1 = 0xAF, specify2 = 0x02, shutoff_ticks = FLOPPY_MOTOR_TICKS, bps_code = FLOPPY_SIZE_CODE, dbt_sectors = 18,
     interblock_len = FLOPPY_GAPLEN, data_len = FLOPPY_DATALEN, gap_len = FLOPPY_FORMAT_GAPLEN, fill_byte = FLOPPY_FILLBYTE, settle_time = 0x0F,
     startup_time = 0x08\<rparr>"

definition diskette_param_table2 :: floppy_ext_dbt_s where
  "diskette_param_table2 = \<lparr>dbt = \<lparr>specify1 = 0xAF, specify2 = 0x02, shutoff_ticks = FLOPPY_MOTOR_TICKS, bps_code = FLOPPY_SIZE_CODE, dbt_sectors = 18,
     interblock_len = FLOPPY_GAPLEN, data_len = FLOPPY_DATALEN, gap_len = FLOPPY_FORMAT_GAPLEN, fill_byte = FLOPPY_FILLBYTE, settle_time = 0x0F,
     startup_time = 0x08\<rparr>, max_track = 79, data_rate = 0, drive_type = 4\<rparr>"

record floppyinfo_s =
  fi_chs :: chs_s
  config_data :: u8
  media_state :: u8

definition FloppyInfo :: "floppyinfo_s list" where
  "FloppyInfo = map (\<lambda>((h, c, n), cd, ms). \<lparr>fi_chs = \<lparr>heads = h, cylinders = c, spt = n\<rparr>, config_data = cd, media_state = ms\<rparr>)
     [((0, 0, 0), 0x00, 0x00),
      ((2, 40, 9), 0x00, 0x25),
      ((2, 80, 15), 0x00, 0x25),
      ((2, 80, 9), 0x00, 0x17),
      ((2, 80, 18), 0x00, 0x17),
      ((2, 80, 36), 0xCC, 0xD7),
      ((1, 40, 8), 0x00, 0x27),
      ((1, 40, 9), 0x00, 0x27),
      ((2, 40, 8), 0x00, 0x27)]"

record 'd floppy =
  fd_recalibration_status :: u8
  fd_motor_counter :: u8
  fd_return_status :: "u8 list"
  fd_track :: "u8 list"
  fd_last_data_rate :: u8
  fd_media_state :: "u8 list"
  fd_dev :: 'd

datatype irq = Irq_timer | Irq_floppy

text \<open>The types are numbered from 1; the products are computed as \<open>int\<close>.\<close>

fun find_floppy_from :: "nat \<Rightarrow> floppyinfo_s list \<Rightarrow> u32 \<Rightarrow> int" where
  "find_floppy_from i [] sz = -1"
| "find_floppy_from i (f # fs) sz =
     (let c = fi_chs f in
      if ucast (cylinders c) * ucast (heads c) * ucast (spt c) * 512 = sz then int i else find_floppy_from (Suc i) fs sz)"

definition find_floppy_type :: "u32 \<Rightarrow> int" where
  "find_floppy_type sz = find_floppy_from 1 (tl FloppyInfo) sz"

section \<open>Interrupts\<close>

partial_function (option) poll_status :: "'d ports \<Rightarrow> u8 \<Rightarrow> 'd \<Rightarrow> 'd option" where
  "poll_status M v d = (let (st, d1) = p_inb M PORT_FD_STATUS d in if st AND 0xc0 = v then Some d1 else poll_status M v d1)"

partial_function (option) drain_result :: "'d ports \<Rightarrow> 'd \<Rightarrow> 'd option" where
  "drain_result M d =
     (let d1 = snd (p_inb M PORT_FD_DATA d); (st, d2) = p_inb M PORT_FD_STATUS d1
      in if st AND 0xc0 = 0xc0 then drain_result M d2 else Some d2)"

definition handle_0e :: "'d ports \<Rightarrow> 'd floppy \<Rightarrow> 'd floppy option" where
  "handle_0e M s = do {
     let (st, d1) = p_inb M PORT_FD_STATUS (fd_dev s);
     d2 \<leftarrow> (if st AND 0xc0 \<noteq> 0xc0 then do { d \<leftarrow> poll_status M 0xc0 (p_outb M 0x08 PORT_FD_DATA d1); drain_result M d } else Some d1);
     Some (s\<lparr>fd_recalibration_status := fd_recalibration_status s OR FRS_TIMEOUT, fd_dev := p_outb M 0x20 0x20 d2\<rparr>)
   }"

definition motor_tick :: "'d ports \<Rightarrow> 'd floppy \<Rightarrow> 'd floppy" where
  "motor_tick M s =
     (let fcount = fd_motor_counter s in
      if fcount \<noteq> 0 then
        let s1 = s\<lparr>fd_motor_counter := fcount - 1\<rparr> in
        if fcount - 1 = 0 then let (v, d) = p_inb M PORT_FD_DOR (fd_dev s1) in s1\<lparr>fd_dev := p_outb M (v AND 0xcf) PORT_FD_DOR d\<rparr> else s1
      else s)"

text \<open>What happens while the code yields.\<close>

fun handle_irqs :: "'d ports \<Rightarrow> irq list \<Rightarrow> 'd floppy \<Rightarrow> 'd floppy option" where
  "handle_irqs M [] s = Some s"
| "handle_irqs M (Irq_timer # qs) s = handle_irqs M qs (motor_tick M s)"
| "handle_irqs M (Irq_floppy # qs) s = do { s1 \<leftarrow> handle_0e M s; handle_irqs M qs s1 }"

definition floppy_yield :: "'d ports \<Rightarrow> ('d \<Rightarrow> irq list \<times> 'd) \<Rightarrow> 'd floppy \<Rightarrow> 'd floppy option" where
  "floppy_yield M irqs s = (let (qs, d) = irqs (fd_dev s) in handle_irqs M qs (s\<lparr>fd_dev := d\<rparr>))"

section \<open>Low-level access\<close>

definition floppy_reset_controller :: "'d ports \<Rightarrow> 'd \<Rightarrow> 'd option" where
  "floppy_reset_controller M d =
     (let (val8, d1) = p_inb M PORT_FD_DOR d
      in poll_status M 0x80 (p_outb M (val8 OR 0x04) PORT_FD_DOR (p_outb M (val8 AND NOT 0x04) PORT_FD_DOR d1)))"

partial_function (option) wait_floppy_irq :: "'d ports \<Rightarrow> ('d \<Rightarrow> irq list \<times> 'd) \<Rightarrow> 'd floppy \<Rightarrow> (int \<times> 'd floppy) option" where
  "wait_floppy_irq M irqs s =
     (if fd_motor_counter s = 0 then Some (-1, s)
      else
        let v = fd_recalibration_status s in
        if v AND FRS_TIMEOUT \<noteq> 0 then Some (0, s\<lparr>fd_recalibration_status := v AND NOT FRS_TIMEOUT\<rparr>)
        else do { s1 \<leftarrow> floppy_yield M irqs s; wait_floppy_irq M irqs s1 })"

definition floppy_prepare_controller :: "'d ports \<Rightarrow> ('d \<Rightarrow> irq list \<times> 'd) \<Rightarrow> u8 \<Rightarrow> 'd floppy \<Rightarrow> 'd floppy option" where
  "floppy_prepare_controller M irqs floppyid s = do {
     let (v, d1) = p_inb M PORT_FD_DOR (fd_dev s);
     let prev_reset = v AND 0x04;
     let dor = ((if floppyid \<noteq> 0 then 0x20 else 0x10) OR 0x0c) OR floppyid;
     d2 \<leftarrow> poll_status M 0x80 (p_outb M dor PORT_FD_DOR d1);
     let s1 = s\<lparr>fd_recalibration_status := fd_recalibration_status s AND NOT FRS_TIMEOUT, fd_motor_counter := FLOPPY_MOTOR_TICKS, fd_dev := d2\<rparr>;
     if prev_reset = 0 then do { (_, s2) \<leftarrow> wait_floppy_irq M irqs s1; Some s2 } else Some s1
   }"

fun send_bytes :: "'d ports \<Rightarrow> u8 list \<Rightarrow> 'd \<Rightarrow> 'd" where
  "send_bytes M [] d = d"
| "send_bytes M (b # bs) d = send_bytes M bs (p_outb M b PORT_FD_DATA d)"

definition floppy_pio :: "'d ports \<Rightarrow> ('d \<Rightarrow> irq list \<times> 'd) \<Rightarrow> u8 list \<Rightarrow> 'd floppy \<Rightarrow> (int \<times> 'd floppy) option" where
  "floppy_pio M irqs cmd s = do {
     s1 \<leftarrow> floppy_prepare_controller M irqs (cmd ! 1 AND 1) s;
     (ret, s2) \<leftarrow> wait_floppy_irq M irqs (s1\<lparr>fd_dev := send_bytes M cmd (fd_dev s1)\<rparr>);
     if ret \<noteq> 0 then do { d \<leftarrow> floppy_reset_controller M (fd_dev s2); Some (-1, s2\<lparr>fd_dev := d\<rparr>) } else Some (0, s2)
   }"

fun read_status :: "'d ports \<Rightarrow> nat \<Rightarrow> 'd \<Rightarrow> u8 list \<times> 'd" where
  "read_status M 0 d = ([], d)"
| "read_status M (Suc n) d = (let (v, d1) = p_inb M PORT_FD_DATA d; (vs, d2) = read_status M n d1 in (v # vs, d2))"

text \<open>The programming of the DMA controller for the transfer of a command.\<close>

definition program_dma :: "'d ports \<Rightarrow> u32 \<Rightarrow> u16 \<Rightarrow> u8 \<Rightarrow> 'd \<Rightarrow> 'd" where
  "program_dma M addr en mode_register d =
     (let d1 = p_outb M 0x00 PORT_DMA1_CLEAR_FF_REG (p_outb M 0x06 PORT_DMA1_MASK_REG d);
          d2 = p_outb M (ucast (drop_bit 8 addr)) PORT_DMA_ADDR_2 (p_outb M (ucast addr) PORT_DMA_ADDR_2 d1);
          d3 = p_outb M 0x00 PORT_DMA1_CLEAR_FF_REG d2;
          d4 = p_outb M (ucast (drop_bit 8 en)) PORT_DMA_CNT_2 (p_outb M (ucast en) PORT_DMA_CNT_2 d3);
          d5 = p_outb M mode_register PORT_DMA1_MODE_REG d4
      in p_outb M 0x02 PORT_DMA1_MASK_REG (p_outb M (ucast (drop_bit 16 addr)) PORT_DMA_PAGE_2 d5))"

text \<open>The code, and the bytes of the command, which the status bytes overwrite.\<close>

definition floppy_cmd :: "'d ports \<Rightarrow> ('d \<Rightarrow> irq list \<times> 'd) \<Rightarrow> disk_op_s \<Rightarrow> u16 \<Rightarrow> u8 list \<Rightarrow> 'd floppy \<Rightarrow> ((u8 \<times> u8 list) \<times> 'd floppy) option" where
  "floppy_cmd M irqs op count cmd s =
     (let addr = op_buf op; en = count - 1; last_addr = addr + ucast en in
      if drop_bit 16 addr \<noteq> drop_bit 16 last_addr then Some ((DISK_RET_EBOUNDARY, cmd), s)
      else do {
        let mode_register = (if cmd ! 0 = 0xe6 then 0x46 else 0x4a);
        (ret, s1) \<leftarrow> floppy_pio M irqs cmd (s\<lparr>fd_dev := program_dma M addr en mode_register (fd_dev s)\<rparr>);
        if ret \<noteq> 0 then Some ((DISK_RET_ETIMEOUT, cmd), s1)
        else do {
          let (st, d1) = p_inb M PORT_FD_STATUS (fd_dev s1);
          if st AND 0xc0 \<noteq> 0xc0 then Some ((DISK_RET_ECONTROLLER, cmd), s1\<lparr>fd_dev := d1\<rparr>)
          else let (vs, d2) = read_status M 7 d1
               in Some ((DISK_RET_SUCCESS, vs @ drop 7 cmd), s1\<lparr>fd_return_status := vs @ drop 7 (fd_return_status s1), fd_dev := d2\<rparr>)
        }
      })"

section \<open>Media sense\<close>

definition set_diskette_current_cyl :: "u8 \<Rightarrow> u8 \<Rightarrow> 'd floppy \<Rightarrow> 'd floppy" where
  "set_diskette_current_cyl floppyid cyl s = s\<lparr>fd_track := (fd_track s)[unat floppyid := cyl]\<rparr>"

definition floppy_drive_recal :: "'d ports \<Rightarrow> ('d \<Rightarrow> irq list \<times> 'd) \<Rightarrow> u8 \<Rightarrow> 'd floppy \<Rightarrow> 'd floppy option" where
  "floppy_drive_recal M irqs floppyid s = do {
     (_, s1) \<leftarrow> floppy_pio M irqs [0x07, floppyid] s;
     Some (set_diskette_current_cyl floppyid 0
       (s1\<lparr>fd_recalibration_status := fd_recalibration_status s1 OR push_bit (unat floppyid) 1\<rparr>))
   }"

definition floppy_media_sense :: "drive_s \<Rightarrow> 'd floppy \<Rightarrow> u8 \<times> 'd floppy" where
  "floppy_media_sense drive s =
     (let fi = FloppyInfo ! unat (floppy_type drive); floppyid = ucast (cntl_id drive) :: u8
      in (DISK_RET_SUCCESS, s\<lparr>fd_last_data_rate := config_data fi, fd_media_state := (fd_media_state s)[unat floppyid := media_state fi]\<rparr>))"

definition check_recal_drive :: "'d ports \<Rightarrow> ('d \<Rightarrow> irq list \<times> 'd) \<Rightarrow> drive_s \<Rightarrow> 'd floppy \<Rightarrow> (u8 \<times> 'd floppy) option" where
  "check_recal_drive M irqs drive s =
     (let floppyid = ucast (cntl_id drive) :: u8 in
      if fd_recalibration_status s AND push_bit (unat floppyid) 1 \<noteq> 0 \<and> fd_media_state s ! unat floppyid AND FMS_MEDIA_DRIVE_ESTABLISHED \<noteq> 0
      then Some (DISK_RET_SUCCESS, s)
      else do { s1 \<leftarrow> floppy_drive_recal M irqs floppyid s; Some (floppy_media_sense drive s1) })"

section \<open>Requests\<close>

text \<open>Track, sector and head of the first sector of a request.\<close>

definition lba2chs :: "disk_op_s \<Rightarrow> u8 \<times> u8 \<times> u8" where
  "lba2chs op =
     (let g = lchs (op_drive op); tmp = ucast (op_lba op) + 1 :: u32; nlspt = ucast (spt g); nlh = ucast (heads g);
          sector = ucast (tmp mod nlspt); tmp1 = tmp div nlspt; head = ucast (tmp1 mod nlh)
      in (ucast (tmp1 div nlh), sector, head))"

definition floppy_reset :: "disk_op_s \<Rightarrow> 'd floppy \<Rightarrow> (u8 \<times> disk_op_s) \<times> 'd floppy" where
  "floppy_reset op s = ((DISK_RET_SUCCESS, op), set_diskette_current_cyl (ucast (cntl_id (op_drive op))) 0 s)"

definition rw_bytes :: "u8 \<Rightarrow> disk_op_s \<Rightarrow> u8 list" where
  "rw_bytes c op =
     (let (track, sector, head) = lba2chs op
      in [c, push_bit 2 head OR ucast (cntl_id (op_drive op)), track, head, sector, FLOPPY_SIZE_CODE,
          sector + ucast (op_count op) - 1, FLOPPY_GAPLEN, FLOPPY_DATALEN])"

definition floppy_read :: "'d ports \<Rightarrow> ('d \<Rightarrow> irq list \<times> 'd) \<Rightarrow> disk_op_s \<Rightarrow> 'd floppy \<Rightarrow> ((u8 \<times> disk_op_s) \<times> 'd floppy) option" where
  "floppy_read M irqs op s = do {
     let fail = (\<lambda>res s. Some ((res, op\<lparr>op_count := 0\<rparr>), s));
     (res, s1) \<leftarrow> check_recal_drive M irqs (op_drive op) s;
     if res \<noteq> 0 then fail res s1
     else do {
       ((res, data), s2) \<leftarrow> floppy_cmd M irqs op (op_count op * 512) (rw_bytes 0xe6 op) s1;
       if res \<noteq> 0 then fail res s2
       else if data ! 0 AND 0xc0 \<noteq> 0 then fail DISK_RET_ECONTROLLER s2
       else Some ((DISK_RET_SUCCESS, op), set_diskette_current_cyl (ucast (cntl_id (op_drive op))) (fst (lba2chs op)) s2)
     }
   }"

definition floppy_write :: "'d ports \<Rightarrow> ('d \<Rightarrow> irq list \<times> 'd) \<Rightarrow> disk_op_s \<Rightarrow> 'd floppy \<Rightarrow> ((u8 \<times> disk_op_s) \<times> 'd floppy) option" where
  "floppy_write M irqs op s = do {
     let fail = (\<lambda>res s. Some ((res, op\<lparr>op_count := 0\<rparr>), s));
     (res, s1) \<leftarrow> check_recal_drive M irqs (op_drive op) s;
     if res \<noteq> 0 then fail res s1
     else do {
       ((res, data), s2) \<leftarrow> floppy_cmd M irqs op (op_count op * 512) (rw_bytes 0xc5 op) s1;
       if res \<noteq> 0 then fail res s2
       else if data ! 0 AND 0xc0 \<noteq> 0 then fail (if data ! 1 AND 0x02 \<noteq> 0 then DISK_RET_EWRITEPROTECT else DISK_RET_ECONTROLLER) s2
       else Some ((DISK_RET_SUCCESS, op), set_diskette_current_cyl (ucast (cntl_id (op_drive op))) (fst (lba2chs op)) s2)
     }
   }"

definition floppy_verify :: "'d ports \<Rightarrow> ('d \<Rightarrow> irq list \<times> 'd) \<Rightarrow> disk_op_s \<Rightarrow> 'd floppy \<Rightarrow> ((u8 \<times> disk_op_s) \<times> 'd floppy) option" where
  "floppy_verify M irqs op s = do {
     (res, s1) \<leftarrow> check_recal_drive M irqs (op_drive op) s;
     if res \<noteq> 0 then Some ((res, op\<lparr>op_count := 0\<rparr>), s1)
     else Some ((DISK_RET_SUCCESS, op), set_diskette_current_cyl (ucast (cntl_id (op_drive op))) (fst (lba2chs op)) s1)
   }"

definition floppy_format :: "'d ports \<Rightarrow> ('d \<Rightarrow> irq list \<times> 'd) \<Rightarrow> disk_op_s \<Rightarrow> 'd floppy \<Rightarrow> ((u8 \<times> disk_op_s) \<times> 'd floppy) option" where
  "floppy_format M irqs op s = do {
     (ret, s1) \<leftarrow> check_recal_drive M irqs (op_drive op) s;
     if ret \<noteq> 0 then Some ((ret, op), s1)
     else do {
       let head = (ucast (op_lba op) :: u8);
       let floppyid = (ucast (cntl_id (op_drive op)) :: u8);
       ((ret, data), s2) \<leftarrow> floppy_cmd M irqs op (op_count op * 4)
         [0x4d, push_bit 2 head OR floppyid, FLOPPY_SIZE_CODE, ucast (op_count op), FLOPPY_FORMAT_GAPLEN, FLOPPY_FILLBYTE] s1;
       if ret \<noteq> 0 then Some ((ret, op), s2)
       else if data ! 0 AND 0xc0 \<noteq> 0 then Some ((if data ! 1 AND 0x02 \<noteq> 0 then DISK_RET_EWRITEPROTECT else DISK_RET_ECONTROLLER, op), s2)
       else Some ((DISK_RET_SUCCESS, op), set_diskette_current_cyl floppyid 0 s2)
     }
   }"

definition process_floppy_op :: "'d ports \<Rightarrow> ('d \<Rightarrow> irq list \<times> 'd) \<Rightarrow> disk_op_s \<Rightarrow> 'd floppy \<Rightarrow> ((u8 \<times> disk_op_s) \<times> 'd floppy) option" where
  "process_floppy_op M irqs op s =
     (if op_command op = CMD_RESET then Some (floppy_reset op s)
      else if op_command op = CMD_READ then floppy_read M irqs op s
      else if op_command op = CMD_WRITE then floppy_write M irqs op s
      else if op_command op = CMD_VERIFY then floppy_verify M irqs op s
      else if op_command op = CMD_FORMAT then floppy_format M irqs op s
      else Some ((DISK_RET_EPARAM, op\<lparr>op_count := 0\<rparr>), s))"

section \<open>The position of a sector\<close>

lemma div_mod_add: "(0::nat) < n \<Longrightarrow> x < n \<Longrightarrow> (q * n + x) div n = q \<and> (q * n + x) mod n = x"
  by (simp add: div_mult_self3)

text \<open>The values as natural numbers, from the address plus one.\<close>

lemma lba2chs_div:
  fixes op :: disk_op_s
  defines "g \<equiv> lchs (op_drive op)"
  assumes "unat (ucast (op_lba op) + 1 :: u32) = N"
  obtains x y z :: u32 where "lba2chs op = (ucast x, ucast y, ucast z)" "unat x = N div unat (spt g) div unat (heads g)"
    "unat y = N mod unat (spt g)" "unat z = N div unat (spt g) mod unat (heads g)"
proof
  let ?tmp = "ucast (op_lba op) + 1 :: u32" and ?s = "ucast (spt g) :: u32" and ?h = "ucast (heads g) :: u32"
  show "lba2chs op = (ucast (?tmp div ?s div ?h), ucast (?tmp mod ?s), ucast (?tmp div ?s mod ?h))"
    by (simp add: lba2chs_def Let_def g_def)
qed (simp_all add: unat_div unat_mod assms unat_ucast_16_32)

lemma ucast_8_eq: "unat (w :: u32) = unat (v :: u16) \<Longrightarrow> ucast w = (ucast v :: u8)"
  by (simp add: word_unat_eq_iff unat_ucast_mod)

text \<open>
  C37. The track, sector and head that the driver sends are the position that the sector address was computed from,
  for every sector but the last one of a track: that one becomes sector 0, which does not exist, on the next track.
\<close>

theorem lba2chs_position:
  fixes c h t :: u16 and op :: disk_op_s
  defines "g \<equiv> lchs (op_drive op)"
  assumes chs: "c < cylinders g" "h < heads g" "0 < t" "t \<le> spt g" and cap: "capacity g < 2 ^ 32"
    and lba: "op_lba op = ucast (chs_lba c h t g)"
  shows "lba2chs op = (if t < spt g then (ucast c, ucast t, ucast h) else if h + 1 < heads g then (ucast c, 0, ucast (h + 1)) else (ucast (c + 1), 0, 0))"
proof -
  let ?S = "unat (spt g)" and ?H = "unat (heads g)" and ?q = "unat c * unat (heads g) + unat h"
  have u: "unat c < unat (cylinders g)" "unat h < ?H" "0 < unat t" "unat t \<le> ?S" using chs by (simp_all add: word_less_nat_alt word_le_nat_alt)
  note l = unat_chs_lba[OF u cap]
  have "(ucast (ucast w :: u64) :: u32) = w" for w :: u32 by transfer simp
  then have "unat (ucast (op_lba op) :: u32) = ?q * ?S + unat t - 1" using l(1) by (simp add: lba)
  then have "unat (ucast (op_lba op) + 1 :: u32) = ?q * ?S + unat t" using l(2) cap u(3) by (subst unat_add_nowrap) simp_all
  then obtain x y z :: u32 where m: "lba2chs op = (ucast x, ucast y, ucast z)" and
      v: "unat x = (?q * ?S + unat t) div ?S div ?H" "unat y = (?q * ?S + unat t) mod ?S" "unat z = (?q * ?S + unat t) div ?S mod ?H"
    unfolding g_def by (rule lba2chs_div)
  have inc: "unat (c + 1) = unat c + 1" "unat (h + 1) = unat h + 1"
    using u(1,2) unat_lt_2p[of "cylinders g"] unat_lt_2p[of "heads g"] by (subst unat_add_nowrap; simp)+
  show ?thesis
  proof (cases "t < spt g")
    case True
    then have "unat x = unat c" "unat y = unat t" "unat z = unat h"
      using div_mod_add[of ?S "unat t" ?q] div_mod_add[of ?H "unat h" "unat c"] u(2) unfolding v by (simp_all add: word_less_nat_alt)
    then show ?thesis using True by (simp add: m ucast_8_eq)
  next
    case False
    then have "unat t = ?S" using u(4) by (simp add: word_less_nat_alt)
    then have "?q * ?S + unat t = (unat c * ?H + (unat h + 1)) * ?S" by simp
    then have w: "unat x = (unat c * ?H + (unat h + 1)) div ?H" "unat y = unat (0::u16)" "unat z = (unat c * ?H + (unat h + 1)) mod ?H"
      using u(3,4) unfolding v by simp_all
    show ?thesis
    proof (cases "h + 1 < heads g")
      case True
      then have "unat x = unat c" "unat z = unat (h + 1)"
        using div_mod_add[of ?H "unat h + 1" "unat c"] unfolding w by (simp_all add: word_less_nat_alt inc)
      then show ?thesis using False True ucast_8_eq[OF w(2)] by (simp add: m ucast_8_eq)
    next
      case F: False
      then have "unat c * ?H + (unat h + 1) = (unat c + 1) * ?H" using u(2) by (simp add: word_less_nat_alt inc)
      then have "unat x = unat (c + 1)" "unat z = unat (0::u16)" using u(2) unfolding w inc by simp_all
      then show ?thesis using False F ucast_8_eq[OF w(2)] ucast_8_eq[of z 0] by (simp add: m ucast_8_eq)
    qed
  qed
qed

text \<open>Sectors 17 and 18 of the first track of a diskette of 1.44 MB.\<close>

theorem lba2chs_position_witness:
  "let g = \<lparr>heads = 2, cylinders = 80, spt = 18\<rparr>;
       op = (\<lambda>t. \<lparr>op_lba = ucast (chs_lba 0 0 t g), op_buf = 0, op_drive = zero_drive\<lparr>lchs := g\<rparr>, op_count = 1, op_command = CMD_READ\<rparr>)
   in lba2chs (op 17) = (0, 17, 0) \<and> lba2chs (op 18) = (0, 0, 1)"
proof -
  let ?g = "\<lparr>heads = 2, cylinders = 80, spt = 18\<rparr>"
  let ?op = "\<lambda>t. \<lparr>op_lba = ucast (chs_lba 0 0 t ?g), op_buf = 0, op_drive = zero_drive\<lparr>lchs := ?g\<rparr>, op_count = 1, op_command = CMD_READ\<rparr>"
  have "capacity ?g < 2 ^ 32" by (simp add: capacity_def)
  then show ?thesis using lba2chs_position[of 0 "?op 17" 0 17] lba2chs_position[of 0 "?op 18" 0 18] by simp
qed

end
