(* ===== verification/Floppy_Disk.thy ===== *)
theory Floppy_Disk
  imports Floppy
begin

text \<open>
  Diskettes behind the floppy driver. The documented behaviour of the controller and of the DMA channel is
  stated on a view of the machine; over every machine with that behaviour the driver moves the sectors of
  the medium; and as long as the timer ticks the driver does not wait for ever for an interrupt.
\<close>

section \<open>Waiting ends\<close>

text \<open>The machine after \<open>n\<close> times yielding without an interrupt.\<close>

definition passed :: "('d \<Rightarrow> irq list \<times> 'd) \<Rightarrow> nat \<Rightarrow> 'd \<Rightarrow> 'd" where
  "passed irqs n d = ((\<lambda>d. snd (irqs d)) ^^ n) d"

lemma passed_simps [simp]: "passed irqs 0 d = d" "passed irqs (Suc n) d = passed irqs n (snd (irqs d))"
  by (simp_all add: passed_def funpow_Suc_right del: funpow.simps(2))

lemma motor_tick_simps [simp]:
  "fd_motor_counter (motor_tick M s) = fd_motor_counter s - (if fd_motor_counter s = 0 then 0 else 1)"
  "fd_recalibration_status (motor_tick M s) = fd_recalibration_status s"
  by (simp_all add: motor_tick_def Let_def case_prod_beta)

lemma motor_tick_dev: "1 < fd_motor_counter s \<Longrightarrow> motor_tick M s = s\<lparr>fd_motor_counter := fd_motor_counter s - 1\<rparr>"
  by (auto simp: motor_tick_def Let_def word_less_nat_alt)

lemma handle_0e_simps:
  assumes "handle_0e M s = Some s'"
  shows "fd_recalibration_status s' = fd_recalibration_status s OR FRS_TIMEOUT" "fd_motor_counter s' = fd_motor_counter s"
  using assms by (auto simp: handle_0e_def Let_def bind_eq_Some_conv case_prod_beta)

text \<open>Handling interrupts: the flag is set by an interrupt of the controller, and the counter never grows.\<close>

lemma handle_irqs_progress:
  assumes "handle_irqs M qs s = Some s'"
  shows "fd_motor_counter s' \<le> fd_motor_counter s
    \<and> (Irq_timer \<in> set qs \<longrightarrow> fd_motor_counter s \<noteq> 0 \<longrightarrow> fd_motor_counter s' < fd_motor_counter s)
    \<and> (Irq_floppy \<in> set qs \<or> fd_recalibration_status s AND FRS_TIMEOUT \<noteq> 0 \<longrightarrow> fd_recalibration_status s' AND FRS_TIMEOUT \<noteq> 0)"
  using assms
proof (induction qs arbitrary: s)
  case (Cons q qs)
  show ?case
  proof (cases q)
    case Irq_timer
    have c: "fd_motor_counter (motor_tick M s) \<le> fd_motor_counter s" "fd_motor_counter s \<noteq> 0 \<Longrightarrow> fd_motor_counter (motor_tick M s) < fd_motor_counter s"
      by (simp_all add: word_less_nat_alt word_le_nat_alt unat_minus_one unat_gt_0)
    have "handle_irqs M qs (motor_tick M s) = Some s'" using Cons.prems Irq_timer by simp
    note ih = Cons.IH[OF this]
    have "fd_motor_counter s' \<le> fd_motor_counter s" using ih c(1) by (meson order.trans)
    moreover have "fd_motor_counter s' < fd_motor_counter s" if "fd_motor_counter s \<noteq> 0" using ih c(2)[OF that] by (meson order.strict_trans1)
    ultimately show ?thesis using ih Irq_timer by simp
  next
    case Irq_floppy
    obtain s1 where s1: "handle_0e M s = Some s1" "handle_irqs M qs s1 = Some s'"
      using Cons.prems Irq_floppy by (auto simp: bind_eq_Some_conv)
    have "fd_recalibration_status s1 AND FRS_TIMEOUT \<noteq> 0"
      using handle_0e_simps(1)[OF s1(1)] by (simp add: FRS_TIMEOUT_def bit.conj_disj_distrib2)
    then show ?thesis using Cons.IH[OF s1(2)] handle_0e_simps(2)[OF s1(1)] Irq_floppy by auto
  qed
qed simp

lemma handle_timer_irqs: "Irq_floppy \<notin> set qs \<Longrightarrow> handle_irqs M qs s \<noteq> None"
proof (induction qs arbitrary: s)
  case (Cons q qs)
  then show ?case by (cases q) auto
qed simp

text \<open>Where the handler of the controller's interrupt returns whenever the controller raises it.\<close>

definition handled_irqs :: "'d ports \<Rightarrow> ('d \<Rightarrow> irq list \<times> 'd) \<Rightarrow> bool" where
  "handled_irqs M irqs \<longleftrightarrow> (\<forall>s. Irq_floppy \<in> set (fst (irqs (fd_dev s))) \<longrightarrow> floppy_yield M irqs s \<noteq> None)"

lemma yield_returns: "handled_irqs M irqs \<Longrightarrow> floppy_yield M irqs s \<noteq> None"
  using handle_timer_irqs[of "fst (irqs (fd_dev s))" M] by (auto simp: handled_irqs_def floppy_yield_def case_prod_beta)

definition ended :: "(int \<times> 'd floppy) option \<Rightarrow> bool" where
  "ended w \<longleftrightarrow> (\<exists>r s'. w = Some (r, s') \<and> (r = 0 \<and> fd_recalibration_status s' AND FRS_TIMEOUT = 0 \<or> r = -1 \<and> fd_motor_counter s' = 0))"

lemma wait_done: "fd_motor_counter s = 0 \<or> fd_recalibration_status s AND FRS_TIMEOUT \<noteq> 0 \<Longrightarrow> ended (wait_floppy_irq M irqs s)"
  by (auto simp: ended_def wait_floppy_irq.simps[of M irqs s] Let_def and.assoc)

lemma wait_step:
  assumes handler: "handled_irqs M irqs" and wait: "fd_motor_counter s \<noteq> 0" "fd_recalibration_status s AND FRS_TIMEOUT = 0"
  obtains (progress) s' where "wait_floppy_irq M irqs s = wait_floppy_irq M irqs s'"
      "fd_recalibration_status s' AND FRS_TIMEOUT \<noteq> 0 \<or> unat (fd_motor_counter s') < unat (fd_motor_counter s)"
  | (quiet) "wait_floppy_irq M irqs s = wait_floppy_irq M irqs (s\<lparr>fd_dev := snd (irqs (fd_dev s))\<rparr>)" "fst (irqs (fd_dev s)) = []"
proof -
  obtain qs d where q: "irqs (fd_dev s) = (qs, d)" by fastforce
  obtain s' where h: "handle_irqs M qs (s\<lparr>fd_dev := d\<rparr>) = Some s'"
    using yield_returns[OF handler, of s] by (auto simp: floppy_yield_def q)
  then have s': "handle_irqs M qs (s\<lparr>fd_dev := d\<rparr>) = Some s'"
      "Irq_timer \<in> set qs \<Longrightarrow> fd_motor_counter s' < fd_motor_counter s"
      "Irq_floppy \<in> set qs \<Longrightarrow> fd_recalibration_status s' AND FRS_TIMEOUT \<noteq> 0"
    using handle_irqs_progress[OF h] wait by auto
  have w: "wait_floppy_irq M irqs s = wait_floppy_irq M irqs s'"
    using wait s'(1) by (simp add: wait_floppy_irq.simps[of M irqs s] floppy_yield_def q Let_def)
  show ?thesis
  proof (cases qs)
    case Nil
    then show ?thesis using quiet w s'(1) q by simp
  next
    case (Cons q1 qs')
    then have "Irq_timer \<in> set qs \<or> Irq_floppy \<in> set qs" by (cases q1) auto
    then show ?thesis using progress[OF w] s'(2,3) by (auto simp: word_less_nat_alt)
  qed
qed

text \<open>
  C38. The driver does not wait for an interrupt of the controller without end. If interrupts keep arriving, of
  the controller or only of the timer, and whenever the controller raises its interrupt the handler
  \<open>handle_0e\<close> returns, then \<open>wait_floppy_irq\<close> returns: 0, with the interrupt consumed, or -1 when the motor has
  been switched off.
\<close>

theorem floppy_wait_ends:
  assumes handler: "handled_irqs M irqs" and alive: "\<And>d. \<exists>n. fst (irqs (passed irqs n d)) \<noteq> []"
  shows "ended (wait_floppy_irq M irqs s)"
proof (induction "unat (fd_motor_counter s)" arbitrary: s rule: less_induct)
  case less
  obtain n where "fst (irqs (passed irqs n (fd_dev s))) \<noteq> []" using alive by blast
  then show ?case
    using less
  proof (induction n arbitrary: s)
    case (Suc n)
    then show ?case
    proof (cases "fd_motor_counter s = 0 \<or> fd_recalibration_status s AND FRS_TIMEOUT \<noteq> 0")
      case False
      then have w: "fd_motor_counter s \<noteq> 0" "fd_recalibration_status s AND FRS_TIMEOUT = 0" by auto
      show ?thesis
        by (rule wait_step[OF handler w]) (use Suc.IH Suc.prems wait_done in fastforce)+
    qed (use wait_done in blast)
  next
    case 0
    then show ?case
    proof (cases "fd_motor_counter s = 0 \<or> fd_recalibration_status s AND FRS_TIMEOUT \<noteq> 0")
      case False
      then have w: "fd_motor_counter s \<noteq> 0" "fd_recalibration_status s AND FRS_TIMEOUT = 0" by auto
      show ?thesis
        by (rule wait_step[OF handler w]) (use 0 wait_done in fastforce)+
    qed (use wait_done in blast)
  qed
qed

section \<open>The behaviour of the controller\<close>

text \<open>
  The controller collects the bytes of a command, executes it, and offers the bytes of the result. The DMA
  channel has an address and a count that are written byte by byte, with a flip-flop, a page, a mode and a
  mask. \<open>c_img\<close> are the media of the drives, \<open>c_mem\<close> is memory.
\<close>

datatype fdc_phase = Command "u8 list" | Busy "u8 list" | Results "u8 list"

record fdc_view =
  c_dor :: u8
  c_phase :: fdc_phase
  c_flip :: bool
  c_addr :: u16
  c_count :: u16
  c_page :: u8
  c_mode :: u8
  c_masked :: bool
  c_img :: "u8 \<Rightarrow> nat \<Rightarrow> u8"
  c_mem :: memory

definition put_half :: "bool \<Rightarrow> u8 \<Rightarrow> u16 \<Rightarrow> u16" where
  "put_half high b w = (if high then (w AND 0x00ff) OR push_bit 8 (ucast b) else (w AND 0xff00) OR ucast b)"

definition dma_out :: "u8 \<Rightarrow> u16 \<Rightarrow> fdc_view \<Rightarrow> fdc_view" where
  "dma_out b port v =
     (if port = PORT_DMA1_MASK_REG then v\<lparr>c_masked := (if b AND 3 = 2 then b AND 4 \<noteq> 0 else c_masked v)\<rparr>
      else if port = PORT_DMA1_CLEAR_FF_REG then v\<lparr>c_flip := False\<rparr>
      else if port = PORT_DMA_ADDR_2 then v\<lparr>c_addr := put_half (c_flip v) b (c_addr v), c_flip := \<not> c_flip v\<rparr>
      else if port = PORT_DMA_CNT_2 then v\<lparr>c_count := put_half (c_flip v) b (c_count v), c_flip := \<not> c_flip v\<rparr>
      else if port = PORT_DMA1_MODE_REG then v\<lparr>c_mode := (if b AND 3 = 2 then b else c_mode v)\<rparr>
      else if port = PORT_DMA_PAGE_2 then v\<lparr>c_page := b\<rparr>
      else v)"

definition dma_ports :: "u16 set" where
  "dma_ports = {PORT_DMA1_MASK_REG, PORT_DMA1_CLEAR_FF_REG, PORT_DMA_ADDR_2, PORT_DMA_CNT_2, PORT_DMA1_MODE_REG, PORT_DMA_PAGE_2}"

text \<open>Where the data of the channel is, and how many bytes there are.\<close>

definition dma_start :: "fdc_view \<Rightarrow> u32" where "dma_start v = push_bit 16 (ucast (c_page v)) + ucast (c_addr v)"
definition dma_size :: "fdc_view \<Rightarrow> nat" where "dma_size v = unat (c_count v) + 1"

definition command_size :: "u8 \<Rightarrow> nat" where
  "command_size c = (if c = 0x07 then 2 else if c = 0x08 then 1 else if c = 0x4d then 6 else 9)"

text \<open>
  What the commands that the driver uses to move data do when they are in order: the drive is selected and
  its motor runs, the first and the last sector are on one track of the medium, the channel is enabled
  with the right direction for exactly the bytes of the sectors, and the data stays in one page of 64 KiB. The
  recalibration has no effect on the medium.
\<close>

definition in_order :: "(u8 \<Rightarrow> chs_s) \<Rightarrow> u8 list \<Rightarrow> fdc_view \<Rightarrow> bool" where
  "in_order geo cs v \<longleftrightarrow>
     (let dr = cs ! 1 AND 3; track = unat (cs ! 2); head = unat (cs ! 3); sector = unat (cs ! 4); eot = unat (cs ! 6); g = geo dr in
      cs ! 0 \<in> {0xe6, 0xc5} \<and> dr \<in> {0, 1} \<and> c_dor v AND 3 = dr \<and> c_dor v AND (if dr = 0 then 0x10 else 0x20) \<noteq> 0
      \<and> cs ! 1 = push_bit 2 (cs ! 3) OR dr \<and> cs ! 5 = FLOPPY_SIZE_CODE
      \<and> track < unat (cylinders g) \<and> head < unat (heads g) \<and> 1 \<le> sector \<and> sector \<le> eot \<and> eot \<le> unat (spt g)
      \<and> \<not> c_masked v \<and> c_mode v = (if cs ! 0 = 0xe6 then 0x46 else 0x4a)
      \<and> dma_size v = 512 * (eot + 1 - sector) \<and> unat (c_addr v) + dma_size v \<le> 2 ^ 16)"

definition moved :: "(u8 \<Rightarrow> chs_s) \<Rightarrow> u8 list \<Rightarrow> fdc_view \<Rightarrow> fdc_view" where
  "moved geo cs v =
     (let dr = cs ! 1 AND 3; g = geo dr;
          place = 512 * ((unat (cs ! 2) * unat (heads g) + unat (cs ! 3)) * unat (spt g) + unat (cs ! 4) - 1) in
      if cs ! 0 = 0xe6 then v\<lparr>c_mem := put_bytes (dma_start v) (image_bytes (c_img v dr) place (dma_size v)) (c_mem v)\<rparr>
      else v\<lparr>c_img := (c_img v)(dr := put_image place (mem_bytes (c_mem v) (dma_start v) (dma_size v)) (c_img v dr))\<rparr>)"

text \<open>
  The registers of the machine: the status tells the phase, immediately when there is a result and after some
  readings when a command is expected; the interrupt controller is not part of the view.
\<close>

definition fdc_registers :: "'d ports \<Rightarrow> ('d \<Rightarrow> fdc_view) \<Rightarrow> bool" where
  "fdc_registers M view \<longleftrightarrow>
     (\<forall>d. fst (p_inb M PORT_FD_DOR d) = c_dor (view d) \<and> view (snd (p_inb M PORT_FD_DOR d)) = view d)
     \<and> (\<forall>d b. c_dor (view d) AND 4 \<noteq> 0 \<and> b AND 4 \<noteq> 0 \<longrightarrow> view (p_outb M b PORT_FD_DOR d) = (view d)\<lparr>c_dor := b\<rparr>)
     \<and> (\<forall>d b. \<forall>port\<in>dma_ports. view (p_outb M b port d) = dma_out b port (view d))
     \<and> (\<forall>d. view (p_outb M 0x20 0x20 d) = view d)
     \<and> (\<forall>d. view (snd (p_inb M PORT_FD_STATUS d)) = view d)"

definition fdc_status :: "'d ports \<Rightarrow> ('d \<Rightarrow> fdc_view) \<Rightarrow> bool" where
  "fdc_status M view \<longleftrightarrow>
     (\<forall>d rs. c_phase (view d) = Results rs \<longrightarrow> fst (p_inb M PORT_FD_STATUS d) AND 0xc0 = 0xc0)
     \<and> (\<forall>d bs. c_phase (view d) = Command bs \<longrightarrow> fst (p_inb M PORT_FD_STATUS d) AND 0xc0 \<noteq> 0xc0
         \<and> (\<exists>n. fst (p_inb M PORT_FD_STATUS (((\<lambda>d. snd (p_inb M PORT_FD_STATUS d)) ^^ n) d)) AND 0xc0 = 0x80))"

definition fdc_data :: "'d ports \<Rightarrow> ('d \<Rightarrow> fdc_view) \<Rightarrow> bool" where
  "fdc_data M view \<longleftrightarrow>
     (\<forall>d r rs. c_phase (view d) = Results (r # rs) \<longrightarrow> fst (p_inb M PORT_FD_DATA d) = r
         \<and> view (snd (p_inb M PORT_FD_DATA d)) = (view d)\<lparr>c_phase := if rs = [] then Command [] else Results rs\<rparr>)
     \<and> (\<forall>d. c_phase (view d) = Command [] \<longrightarrow> (\<exists>r0 r1. view (p_outb M 0x08 PORT_FD_DATA d) = (view d)\<lparr>c_phase := Results [r0, r1]\<rparr>))
     \<and> (\<forall>d bs b. c_phase (view d) = Command bs \<and> hd (bs @ [b]) \<noteq> 0x08 \<longrightarrow>
          view (p_outb M b PORT_FD_DATA d) = (view d)\<lparr>c_phase := (if length bs + 1 < command_size (hd (bs @ [b])) then Command else Busy) (bs @ [b])\<rparr>)"

text \<open>A command in progress ends with an interrupt before the motor is switched off.\<close>

definition ticks :: "irq list \<Rightarrow> nat" where "ticks qs = length (filter (\<lambda>q. q = Irq_timer) qs)"

definition fdc_interrupts :: "('d \<Rightarrow> irq list \<times> 'd) \<Rightarrow> ('d \<Rightarrow> fdc_view) \<Rightarrow> (fdc_view \<Rightarrow> bool) \<Rightarrow> 'd \<Rightarrow> bool" where
  "fdc_interrupts irqs view fin d \<longleftrightarrow> (\<exists>n ts us. let at = (\<lambda>i. passed irqs i d) in
     (\<forall>i<n. Irq_floppy \<notin> set (fst (irqs (at i)))) \<and> fst (irqs (at n)) = ts @ Irq_floppy # us \<and> Irq_floppy \<notin> set (ts @ us)
     \<and> (\<Sum>i\<le>n. ticks (fst (irqs (at i)))) < unat FLOPPY_MOTOR_TICKS \<and> fin (view (at (Suc n))))"

definition fdc_executes :: "('d \<Rightarrow> irq list \<times> 'd) \<Rightarrow> (u8 \<Rightarrow> chs_s) \<Rightarrow> ('d \<Rightarrow> fdc_view) \<Rightarrow> bool" where
  "fdc_executes irqs geo view \<longleftrightarrow>
     (\<forall>d b. c_phase (view d) = Busy [0x07, b] \<longrightarrow> fdc_interrupts irqs view (\<lambda>v. v = (view d)\<lparr>c_phase := Command []\<rparr>) d)
     \<and> (\<forall>d cs. c_phase (view d) = Busy cs \<and> length cs = 9 \<and> in_order geo cs (view d) \<longrightarrow>
          fdc_interrupts irqs view (\<lambda>v. \<exists>r rs. length rs = 6 \<and> r AND 0xc0 = 0 \<and> v = (moved geo cs (view d))\<lparr>c_phase := Results (r # rs)\<rparr>) d)"

definition floppy_drives :: "'d ports \<Rightarrow> ('d \<Rightarrow> irq list \<times> 'd) \<Rightarrow> (u8 \<Rightarrow> chs_s) \<Rightarrow> ('d \<Rightarrow> fdc_view) \<Rightarrow> bool" where
  "floppy_drives M irqs geo view \<longleftrightarrow> fdc_registers M view \<and> fdc_status M view \<and> fdc_data M view \<and> fdc_executes irqs geo view"

section \<open>One command\<close>

lemma poll_ok:
  assumes r: "fdc_registers M view"
  shows "fst (p_inb M PORT_FD_STATUS (((\<lambda>d. snd (p_inb M PORT_FD_STATUS d)) ^^ n) d)) AND 0xc0 = w \<Longrightarrow>
    \<exists>d'. poll_status M w d = Some d' \<and> view d' = view d"
proof (induction n arbitrary: d)
  case 0
  then show ?case using r by (simp add: poll_status.simps[of M w d] fdc_registers_def case_prod_beta)
next
  case (Suc n)
  let ?d = "snd (p_inb M PORT_FD_STATUS d)"
  have v: "view ?d = view d" using r by (simp add: fdc_registers_def)
  have "fst (p_inb M PORT_FD_STATUS (((\<lambda>d. snd (p_inb M PORT_FD_STATUS d)) ^^ n) ?d)) AND 0xc0 = w"
    using Suc.prems by (simp add: funpow_Suc_right del: funpow.simps(2))
  then obtain d' where "poll_status M w ?d = Some d'" "view d' = view d" using Suc.IH v by force
  then show ?case using v by (cases "fst (p_inb M PORT_FD_STATUS d) AND 0xc0 = w") (simp_all add: poll_status.simps[of M w d] case_prod_beta)
qed

lemma poll_command:
  assumes "floppy_drives M irqs geo view" "c_phase (view d) = Command bs"
  shows "\<exists>d'. poll_status M 0x80 d = Some d' \<and> view d' = view d"
proof -
  obtain n where "fst (p_inb M PORT_FD_STATUS (((\<lambda>d. snd (p_inb M PORT_FD_STATUS d)) ^^ n) d)) AND 0xc0 = 0x80"
    using assms unfolding floppy_drives_def fdc_status_def by blast
  then show ?thesis using poll_ok[of M view n d] assms(1) by (simp add: floppy_drives_def)
qed

lemma timers_ok:
  assumes "Irq_floppy \<notin> set qs" "ticks qs < unat (fd_motor_counter s)"
  shows "\<exists>c. handle_irqs M qs s = Some (s\<lparr>fd_motor_counter := c\<rparr>) \<and> unat c = unat (fd_motor_counter s) - ticks qs"
  using assms
proof (induction qs arbitrary: s)
  case Nil
  then show ?case by (auto simp: ticks_def intro!: exI[of _ "fd_motor_counter s"])
next
  case (Cons q qs)
  then have q: "q = Irq_timer" "ticks (q # qs) = Suc (ticks qs)" by (cases q; simp add: ticks_def)+
  then have "1 < fd_motor_counter s" using Cons.prems(2) by (simp add: word_less_nat_alt)
  note t = motor_tick_dev[OF this, of M]
  have u: "unat (fd_motor_counter s - 1) = unat (fd_motor_counter s) - 1" using Cons.prems(2) by (subst unat_minus_one) auto
  then have "ticks qs < unat (fd_motor_counter s - 1)" using Cons.prems(2) q by simp
  then show ?case using Cons.IH[of "s\<lparr>fd_motor_counter := fd_motor_counter s - 1\<rparr>"] Cons.prems(1) q t u by auto
qed

lemma handle_irqs_append: "handle_irqs M (qs @ rs) s = do { s1 \<leftarrow> handle_irqs M qs s; handle_irqs M rs s1 }"
proof (induction qs arbitrary: s)
  case (Cons q qs)
  then show ?case by (cases q; cases "handle_0e M s") simp_all
qed simp

lemma ticks_append: "ticks (qs @ rs) = ticks qs + ticks rs"
  by (simp add: ticks_def)

lemma flag_set: "(r OR FRS_TIMEOUT) AND FRS_TIMEOUT \<noteq> 0"
  by (simp add: FRS_TIMEOUT_def bit.conj_disj_distrib2)

lemma flag_cleared: "r AND FRS_TIMEOUT = 0 \<Longrightarrow> (r OR FRS_TIMEOUT) AND NOT FRS_TIMEOUT = r"
  by (rule bit_word_eqI) (auto simp: bit_simps bit_eq_iff)

text \<open>Waiting for a command: what the handler makes of the final state of the command.\<close>

lemma wait_ok:
  assumes i: "fdc_interrupts irqs view fin (fd_dev s)" and c: "fd_motor_counter s = FLOPPY_MOTOR_TICKS" "fd_recalibration_status s AND FRS_TIMEOUT = 0"
    and h: "\<And>s1. fin (view (fd_dev s1)) \<Longrightarrow>
      \<exists>d. handle_0e M s1 = Some (s1\<lparr>fd_recalibration_status := fd_recalibration_status s1 OR FRS_TIMEOUT, fd_dev := d\<rparr>) \<and> post (view d)"
  shows "\<exists>m d. wait_floppy_irq M irqs s = Some (0, s\<lparr>fd_motor_counter := m, fd_dev := d\<rparr>) \<and> post (view d)"
proof -
  obtain n ts us where n: "\<And>i. i < n \<Longrightarrow> Irq_floppy \<notin> set (fst (irqs (passed irqs i (fd_dev s))))"
    "fst (irqs (passed irqs n (fd_dev s))) = ts @ Irq_floppy # us" "Irq_floppy \<notin> set (ts @ us)"
    "(\<Sum>i\<le>n. ticks (fst (irqs (passed irqs i (fd_dev s))))) < unat (fd_motor_counter s)" "fin (view (passed irqs (Suc n) (fd_dev s)))"
    using i unfolding fdc_interrupts_def Let_def c(1) by blast
  then show ?thesis
    using c(2)
  proof (induction n arbitrary: s)
    case 0
    obtain d where q: "irqs (fd_dev s) = (ts @ Irq_floppy # us, d)" using "0.prems"(2) by (cases "irqs (fd_dev s)") auto
    have t: "ticks ts + ticks us < unat (fd_motor_counter s)" "fin (view d)" using "0.prems" by (simp_all add: q ticks_def)
    let ?s0 = "s\<lparr>fd_dev := d\<rparr>"
    obtain c1 where c1: "handle_irqs M ts ?s0 = Some (?s0\<lparr>fd_motor_counter := c1\<rparr>)" "unat c1 = unat (fd_motor_counter s) - ticks ts"
      using timers_ok[of ts ?s0 M] "0.prems"(3) t by auto
    let ?s1 = "?s0\<lparr>fd_motor_counter := c1\<rparr>"
    obtain e where e: "handle_0e M ?s1 = Some (?s1\<lparr>fd_recalibration_status := fd_recalibration_status s OR FRS_TIMEOUT, fd_dev := e\<rparr>)" "post (view e)"
      using h[of ?s1] t by auto
    let ?s2 = "?s1\<lparr>fd_recalibration_status := fd_recalibration_status s OR FRS_TIMEOUT, fd_dev := e\<rparr>"
    obtain c2 where c2: "handle_irqs M us ?s2 = Some (?s2\<lparr>fd_motor_counter := c2\<rparr>)" "unat c2 = unat c1 - ticks us"
      using timers_ok[of us ?s2 M] "0.prems"(3) t(1) c1(2) by force
    have pos: "fd_motor_counter s \<noteq> 0" "c2 \<noteq> 0" using t(1) c1(2) c2(2) by auto
    have y: "floppy_yield M irqs s = Some (?s2\<lparr>fd_motor_counter := c2\<rparr>)"
      using c1(1) e(1) c2(1) by (simp add: floppy_yield_def q handle_irqs_append)
    have fl: "(fd_recalibration_status s OR FRS_TIMEOUT) AND FRS_TIMEOUT \<noteq> 0" "(fd_recalibration_status s OR FRS_TIMEOUT) AND NOT FRS_TIMEOUT = fd_recalibration_status s"
      using flag_set flag_cleared[OF "0.prems"(6)] by auto
    define t where "t = ?s2\<lparr>fd_motor_counter := c2\<rparr>"
    have t: "fd_motor_counter t = c2" "fd_recalibration_status t = fd_recalibration_status s OR FRS_TIMEOUT"
        "t\<lparr>fd_recalibration_status := fd_recalibration_status s\<rparr> = s\<lparr>fd_motor_counter := c2, fd_dev := e\<rparr>"
      by (simp_all add: t_def)
    have "wait_floppy_irq M irqs s = wait_floppy_irq M irqs t"
      using pos "0.prems"(6) by (simp add: wait_floppy_irq.simps[of M irqs s] y[folded t_def] Let_def)
    also have "\<dots> = Some (0, s\<lparr>fd_motor_counter := c2, fd_dev := e\<rparr>)"
      unfolding wait_floppy_irq.simps[of M irqs t] t(1,2) fl(2) t(3) Let_def using pos(2) fl(1) by (simp only: if_False if_True simp_thms)
    finally show ?case using e(2) by blast
  next
    case (Suc n)
    obtain qs d where q: "irqs (fd_dev s) = (qs, d)" by fastforce
    have fl: "Irq_floppy \<notin> set qs" using Suc.prems(1)[of 0] by (simp add: q)
    have sum: "(\<Sum>i\<le>Suc n. ticks (fst (irqs (passed irqs i (fd_dev s))))) = ticks qs + (\<Sum>i\<le>n. ticks (fst (irqs (passed irqs i d))))"
      unfolding sum.atMost_Suc_shift by (simp add: q)
    then have "ticks qs < unat (fd_motor_counter s)" using Suc.prems(4) by linarith
    then obtain c where c: "handle_irqs M qs (s\<lparr>fd_dev := d\<rparr>) = Some (s\<lparr>fd_dev := d, fd_motor_counter := c\<rparr>)" "unat c = unat (fd_motor_counter s) - ticks qs"
      using timers_ok[OF fl, of "s\<lparr>fd_dev := d\<rparr>" M] by auto
    let ?s = "s\<lparr>fd_dev := d, fd_motor_counter := c\<rparr>"
    have pos: "fd_motor_counter s \<noteq> 0" using Suc.prems(4) by auto
    have w: "wait_floppy_irq M irqs s = wait_floppy_irq M irqs ?s"
      using pos Suc.prems(6) c(1) by (simp add: wait_floppy_irq.simps[of M irqs s] floppy_yield_def q Let_def)
    have "\<exists>m e. wait_floppy_irq M irqs ?s = Some (0, ?s\<lparr>fd_motor_counter := m, fd_dev := e\<rparr>) \<and> post (view e)"
    proof (rule Suc.IH)
      show "Irq_floppy \<notin> set (fst (irqs (passed irqs i (fd_dev ?s))))" if "i < n" for i using Suc.prems(1)[of "Suc i"] that q by simp
      show "(\<Sum>i\<le>n. ticks (fst (irqs (passed irqs i (fd_dev ?s))))) < unat (fd_motor_counter ?s)" using Suc.prems(4) unfolding sum by (simp add: c(2))
    qed (use Suc.prems q in simp_all)
    then show ?case unfolding w by auto
  qed
qed

lemma drain_two:
  assumes m: "floppy_drives M irqs geo view" and p: "c_phase (view d) = Results [r0, r1]"
  shows "\<exists>d'. drain_result M d = Some d' \<and> view d' = (view d)\<lparr>c_phase := Command []\<rparr>"
proof -
  let ?in = "\<lambda>d. snd (p_inb M PORT_FD_DATA d)" and ?st = "\<lambda>d. p_inb M PORT_FD_STATUS d"
  have s: "view (snd (?st d)) = view d" for d using m by (simp add: floppy_drives_def fdc_registers_def)
  have v1: "view (?in d) = (view d)\<lparr>c_phase := Results [r1]\<rparr>" using m p by (simp add: floppy_drives_def fdc_data_def)
  then have f1: "fst (?st (?in d)) AND 0xc0 = 0xc0" using m by (simp add: floppy_drives_def fdc_status_def)
  let ?d = "snd (?st (?in d))"
  have v2: "view (?in ?d) = (view d)\<lparr>c_phase := Command []\<rparr>" using m v1 s[of "?in d"] by (simp add: floppy_drives_def fdc_data_def)
  then have "fst (?st (?in ?d)) AND 0xc0 \<noteq> 0xc0" using m by (simp add: floppy_drives_def fdc_status_def)
  then have "drain_result M d = Some (snd (?st (?in ?d)))"
    using f1 by (simp add: drain_result.simps[of M d] drain_result.simps[of M ?d] case_prod_beta)
  then show ?thesis using s v2 by simp
qed

lemma handler_results:
  assumes m: "floppy_drives M irqs geo view" and p: "c_phase (view (fd_dev s)) = Results rs"
  shows "\<exists>d. handle_0e M s = Some (s\<lparr>fd_recalibration_status := fd_recalibration_status s OR FRS_TIMEOUT, fd_dev := d\<rparr>) \<and> view d = view (fd_dev s)"
proof -
  have "fst (p_inb M PORT_FD_STATUS (fd_dev s)) AND 0xc0 = 0xc0" using m p by (simp add: floppy_drives_def fdc_status_def)
  moreover have "view (p_outb M 0x20 0x20 (snd (p_inb M PORT_FD_STATUS (fd_dev s)))) = view (fd_dev s)"
    using m by (simp add: floppy_drives_def fdc_registers_def)
  ultimately show ?thesis
    by (intro exI[of _ "p_outb M 0x20 0x20 (snd (p_inb M PORT_FD_STATUS (fd_dev s)))"]) (simp add: handle_0e_def case_prod_beta Let_def)
qed

lemma handler_senses:
  assumes m: "floppy_drives M irqs geo view" and p: "c_phase (view (fd_dev s)) = Command []"
  shows "\<exists>d. handle_0e M s = Some (s\<lparr>fd_recalibration_status := fd_recalibration_status s OR FRS_TIMEOUT, fd_dev := d\<rparr>) \<and> view d = view (fd_dev s)"
proof -
  let ?d1 = "snd (p_inb M PORT_FD_STATUS (fd_dev s))"
  have r: "fdc_registers M view" using m by (simp add: floppy_drives_def)
  have v1: "view ?d1 = view (fd_dev s)" and f: "fst (p_inb M PORT_FD_STATUS (fd_dev s)) AND 0xc0 \<noteq> 0xc0"
    using m p by (simp_all add: floppy_drives_def fdc_registers_def fdc_status_def)
  obtain r0 r1 where v2: "view (p_outb M 0x08 PORT_FD_DATA ?d1) = (view (fd_dev s))\<lparr>c_phase := Results [r0, r1]\<rparr>"
    using m p v1 unfolding floppy_drives_def fdc_data_def by (metis v1)
  have "fst (p_inb M PORT_FD_STATUS (p_outb M 0x08 PORT_FD_DATA ?d1)) AND 0xc0 = 0xc0" using m v2 by (simp add: floppy_drives_def fdc_status_def)
  then obtain d2 where d2: "poll_status M 0xc0 (p_outb M 0x08 PORT_FD_DATA ?d1) = Some d2" "view d2 = (view (fd_dev s))\<lparr>c_phase := Results [r0, r1]\<rparr>"
    using poll_ok[OF r, of 0] v2 by fastforce
  then obtain d3 where d3: "drain_result M d2 = Some d3" "view d3 = view (fd_dev s)" using drain_two[OF m, of d2 r0 r1] p by auto
  have "view (p_outb M 0x20 0x20 d3) = view d3" using r by (simp add: fdc_registers_def)
  then show ?thesis using f d2(1) d3 by (intro exI[of _ "p_outb M 0x20 0x20 d3"]) (simp add: handle_0e_def case_prod_beta Let_def)
qed

lemma data_out:
  assumes "floppy_drives M irqs geo view" "c_phase (view d) = Command bs" "hd (bs @ [b]) \<noteq> 0x08"
  shows "view (p_outb M b PORT_FD_DATA d) = (view d)\<lparr>c_phase := (if length bs + 1 < command_size (hd (bs @ [b])) then Command else Busy) (bs @ [b])\<rparr>"
  using assms by (simp add: floppy_drives_def fdc_data_def)

lemma send_bytes_ok:
  assumes m: "floppy_drives M irqs geo view" and p: "c_phase (view d) = Command bs" and b: "bs @ cs \<noteq> []" "hd (bs @ cs) \<noteq> 0x08" "cs \<noteq> []"
    and l: "length (bs @ cs) = command_size (hd (bs @ cs))"
  shows "view (send_bytes M cs d) = (view d)\<lparr>c_phase := Busy (bs @ cs)\<rparr>"
  using p b l
proof (induction cs arbitrary: bs d)
  case (Cons c cs)
  have h: "hd (bs @ [c]) = hd (bs @ c # cs)" by (cases bs) auto
  have v: "view (p_outb M c PORT_FD_DATA d) = (view d)\<lparr>c_phase := (if length bs + 1 < command_size (hd (bs @ [c])) then Command else Busy) (bs @ [c])\<rparr>"
    by (rule data_out[OF m Cons.prems(1)]) (use Cons.prems(3) in \<open>simp only: h not_False_eq_True\<close>)
  show ?case
  proof (cases cs)
    case Nil
    then show ?thesis using v Cons.prems(5) by simp
  next
    case (Cons c2 cs2)
    have "length bs + 1 < command_size (hd (bs @ [c]))" using Cons.prems(5) unfolding h by (simp add: Cons)
    then have v1: "view (p_outb M c PORT_FD_DATA d) = (view d)\<lparr>c_phase := Command (bs @ [c])\<rparr>" using v by simp
    then have "view (send_bytes M cs (p_outb M c PORT_FD_DATA d)) = (view (p_outb M c PORT_FD_DATA d))\<lparr>c_phase := Busy ((bs @ [c]) @ cs)\<rparr>"
      by (intro Cons.IH) (use Cons.prems Cons in simp_all)
    then show ?thesis using v1 by simp
  qed
qed simp

definition motor_on :: "u8 \<Rightarrow> u8" where
  "motor_on fid = ((if fid \<noteq> 0 then 0x20 else 0x10) OR 0x0c) OR fid"

lemma motor_on_bits: "fid \<in> {0, 1} \<Longrightarrow> motor_on fid AND 4 \<noteq> 0 \<and> motor_on fid AND 3 = fid \<and> motor_on fid AND (if fid = 0 then 0x10 else 0x20) \<noteq> 0"
  by (auto simp: motor_on_def)

lemma and_1_cases: "(x::u8) AND 1 \<in> {0, 1}"
  by (cases "odd x") (simp_all add: and_one_eq odd_iff_mod_2_eq_one even_iff_mod_2_eq_zero)

lemma prepare_ok:
  assumes m: "floppy_drives M irqs geo view" and p: "c_phase (view (fd_dev s)) = Command []" "c_dor (view (fd_dev s)) AND 4 \<noteq> 0" and id: "fid \<in> {0, 1}"
  shows "\<exists>d. floppy_prepare_controller M irqs fid s
       = Some (s\<lparr>fd_recalibration_status := fd_recalibration_status s AND NOT FRS_TIMEOUT, fd_motor_counter := FLOPPY_MOTOR_TICKS, fd_dev := d\<rparr>)
     \<and> view d = (view (fd_dev s))\<lparr>c_dor := motor_on fid\<rparr>"
proof -
  have r: "fdc_registers M view" using m by (simp add: floppy_drives_def)
  let ?d1 = "snd (p_inb M PORT_FD_DOR (fd_dev s))"
  have v1: "view ?d1 = view (fd_dev s)" "fst (p_inb M PORT_FD_DOR (fd_dev s)) = c_dor (view (fd_dev s))" using r by (simp_all add: fdc_registers_def)
  have v2: "view (p_outb M (motor_on fid) PORT_FD_DOR ?d1) = (view (fd_dev s))\<lparr>c_dor := motor_on fid\<rparr>"
    using r p(2) motor_on_bits[OF id] v1(1) by (simp add: fdc_registers_def)
  then obtain d2 where "poll_status M 0x80 (p_outb M (motor_on fid) PORT_FD_DOR ?d1) = Some d2" "view d2 = (view (fd_dev s))\<lparr>c_dor := motor_on fid\<rparr>"
    using poll_command[OF m, of "p_outb M (motor_on fid) PORT_FD_DOR ?d1" "[]"] p(1) by auto
  then show ?thesis using v1(2) p(2)
    by (intro exI[of _ d2]) (simp add: floppy_prepare_controller_def case_prod_beta Let_def motor_on_def)
qed

lemma pio_ok:
  assumes m: "floppy_drives M irqs geo view" and p: "c_phase (view (fd_dev s)) = Command []" "c_dor (view (fd_dev s)) AND 4 \<noteq> 0"
    and cmd: "length cmd = command_size (hd cmd)" "hd cmd \<noteq> 0x08" "cmd \<noteq> []"
    and ex: "\<And>d. view d = (view (fd_dev s))\<lparr>c_dor := motor_on (cmd ! 1 AND 1), c_phase := Busy cmd\<rparr> \<Longrightarrow> fdc_interrupts irqs view fin d"
    and h: "\<And>s1. fin (view (fd_dev s1)) \<Longrightarrow>
      \<exists>d. handle_0e M s1 = Some (s1\<lparr>fd_recalibration_status := fd_recalibration_status s1 OR FRS_TIMEOUT, fd_dev := d\<rparr>) \<and> post (view d)"
  shows "\<exists>m d. floppy_pio M irqs cmd s = Some (0, s\<lparr>fd_recalibration_status := fd_recalibration_status s AND NOT FRS_TIMEOUT, fd_motor_counter := m, fd_dev := d\<rparr>)
    \<and> post (view d)"
proof -
  let ?id = "cmd ! 1 AND 1"
  let ?s = "\<lambda>m d. s\<lparr>fd_recalibration_status := fd_recalibration_status s AND NOT FRS_TIMEOUT, fd_motor_counter := m, fd_dev := d\<rparr>"
  obtain d where d: "floppy_prepare_controller M irqs ?id s = Some (?s FLOPPY_MOTOR_TICKS d)" "view d = (view (fd_dev s))\<lparr>c_dor := motor_on ?id\<rparr>"
    using prepare_ok[OF m p and_1_cases] by blast
  let ?d1 = "send_bytes M cmd d"
  have "view ?d1 = (view d)\<lparr>c_phase := Busy cmd\<rparr>" using send_bytes_ok[OF m, of d "[]" cmd] d(2) p(1) cmd by simp
  then have i: "fdc_interrupts irqs view fin ?d1" using ex d(2) by simp
  have z: "(fd_recalibration_status s AND NOT FRS_TIMEOUT) AND FRS_TIMEOUT = 0" by (simp add: and.assoc)
  obtain m' e where w: "wait_floppy_irq M irqs (?s FLOPPY_MOTOR_TICKS ?d1) = Some (0, (?s FLOPPY_MOTOR_TICKS ?d1)\<lparr>fd_motor_counter := m', fd_dev := e\<rparr>)" "post (view e)"
    using wait_ok[of irqs view fin "?s FLOPPY_MOTOR_TICKS ?d1" M post] i z h by auto
  have "floppy_pio M irqs cmd s = Some (0, ?s m' e)" using d(1) w(1) by (simp add: floppy_pio_def)
  then show ?thesis using w(2) by blast
qed

lemma recal_ok:
  assumes m: "floppy_drives M irqs geo view" and p: "c_phase (view (fd_dev s)) = Command []" "c_dor (view (fd_dev s)) AND 4 \<noteq> 0"
    and id: "ucast (cntl_id drive) \<in> {0, 1 :: u8}"
  shows "\<exists>s1 x. check_recal_drive M irqs drive s = Some (DISK_RET_SUCCESS, s1) \<and> x AND 4 \<noteq> 0 \<and> view (fd_dev s1) = (view (fd_dev s))\<lparr>c_dor := x\<rparr>"
proof -
  let ?id = "ucast (cntl_id drive) :: u8" and ?v = "view (fd_dev s)"
  have a: "?id AND 1 = ?id" using id by auto
  have same: "?v\<lparr>c_dor := x, c_phase := Command []\<rparr> = ?v\<lparr>c_dor := x\<rparr>" for x using p(1) by (cases ?v) simp
  have i: "fdc_interrupts irqs view (\<lambda>v. v = (view d)\<lparr>c_phase := Command []\<rparr>) d" if "c_phase (view d) = Busy [0x07, ?id]" for d
    using m that unfolding floppy_drives_def fdc_executes_def by blast
  have "\<exists>n d. floppy_pio M irqs [0x07, ?id] s = Some (0, s\<lparr>fd_recalibration_status := fd_recalibration_status s AND NOT FRS_TIMEOUT, fd_motor_counter := n, fd_dev := d\<rparr>)
      \<and> view d = ?v\<lparr>c_dor := motor_on ?id\<rparr>"
  proof (rule pio_ok[OF m p, where fin = "\<lambda>v. v = ?v\<lparr>c_dor := motor_on ?id\<rparr>"])
    show "fdc_interrupts irqs view (\<lambda>v. v = ?v\<lparr>c_dor := motor_on ?id\<rparr>) d"
      if "view d = ?v\<lparr>c_dor := motor_on ([0x07, ?id] ! 1 AND 1), c_phase := Busy [0x07, ?id]\<rparr>" for d
      using i[of d] that a by (simp add: same)
    show "\<exists>d. handle_0e M s1 = Some (s1\<lparr>fd_recalibration_status := fd_recalibration_status s1 OR FRS_TIMEOUT, fd_dev := d\<rparr>) \<and> view d = ?v\<lparr>c_dor := motor_on ?id\<rparr>"
      if "view (fd_dev s1) = ?v\<lparr>c_dor := motor_on ?id\<rparr>" for s1
      using handler_senses[OF m, of s1] that p(1) by simp
  qed (simp_all add: command_size_def)
  then obtain s1 where s1: "floppy_drive_recal M irqs ?id s = Some s1" "view (fd_dev s1) = ?v\<lparr>c_dor := motor_on ?id\<rparr>"
    by (force simp: floppy_drive_recal_def set_diskette_current_cyl_def)
  show ?thesis
  proof (cases "fd_recalibration_status s AND push_bit (unat ?id) 1 \<noteq> 0 \<and> fd_media_state s ! unat ?id AND FMS_MEDIA_DRIVE_ESTABLISHED \<noteq> 0")
    case True
    then show ?thesis using p(2) by (intro exI[of _ s] exI[of _ "c_dor ?v"]) (simp add: check_recal_drive_def Let_def)
  next
    case False
    then have "check_recal_drive M irqs drive s = Some (floppy_media_sense drive s1)" using s1(1) unfolding check_recal_drive_def Let_def if_not_P[OF False] by simp
    then show ?thesis using s1(2) motor_on_bits[OF id] by (force simp: floppy_media_sense_def Let_def)
  qed
qed

section \<open>Requests\<close>

lemma put_half_both: "put_half True (ucast (drop_bit 8 a)) (put_half False (ucast a) w) = ucast (a :: 'a::len word)"
proof -
  have ff: "(0x00ff :: u16) = mask 8" "(0xff00 :: u16) = NOT (mask 8)" by (simp_all add: mask_eq_exp_minus_1)
  show ?thesis unfolding put_half_def ff by (rule bit_word_eqI) (auto simp: bit_simps)
qed

lemma program_dma_ok:
  assumes "fdc_registers M view"
  shows "view (program_dma M addr en mode d) = (view d)\<lparr>c_masked := False, c_flip := False, c_addr := ucast addr, c_count := en,
    c_mode := (if mode AND 3 = 2 then mode else c_mode (view d)), c_page := ucast (drop_bit 16 addr)\<rparr>"
proof -
  have o: "port \<in> dma_ports \<Longrightarrow> view (p_outb M b port d) = dma_out b port (view d)" for port b d using assms by (simp add: fdc_registers_def)
  have e: "ucast en = en" by simp
  show ?thesis
    using put_half_both[of addr "c_addr (view d)"] put_half_both[of en "c_count (view d)"]
    by (simp add: program_dma_def Let_def o dma_ports_def) (simp add: dma_out_def fd_port_defs)
qed

lemma read_status_ok:
  assumes m: "floppy_drives M irqs geo view"
  shows "c_phase (view d) = Results rs \<Longrightarrow> rs \<noteq> [] \<Longrightarrow>
    \<exists>d'. read_status M (length rs) d = (rs, d') \<and> view d' = (view d)\<lparr>c_phase := Command []\<rparr>"
proof (induction rs arbitrary: d)
  case (Cons r rs)
  have d: "fst (p_inb M PORT_FD_DATA d) = r"
      "view (snd (p_inb M PORT_FD_DATA d)) = (view d)\<lparr>c_phase := if rs = [] then Command [] else Results rs\<rparr>"
    using m Cons.prems(1) by (simp_all add: floppy_drives_def fdc_data_def)
  show ?case
  proof (cases "rs = []")
    case False
    then show ?thesis using Cons.IH[of "snd (p_inb M PORT_FD_DATA d)"] d by (auto simp: case_prod_beta)
  qed (use d in \<open>simp add: case_prod_beta\<close>)
qed simp

lemma floppy_cmd_ok:
  assumes m: "floppy_drives M irqs geo view" and p: "c_phase (view (fd_dev s)) = Command []" "c_dor (view (fd_dev s)) AND 4 \<noteq> 0"
    and cmd: "length cmd = 9" "hd cmd \<in> {0xe6, 0xc5}" and page: "drop_bit 16 (op_buf op) = drop_bit 16 (op_buf op + ucast (count - 1))"
  defines "v \<equiv> (view (fd_dev s))\<lparr>c_dor := motor_on (cmd ! 1 AND 1), c_masked := False, c_flip := False, c_addr := ucast (op_buf op), c_count := count - 1,
    c_mode := (if hd cmd = 0xe6 then 0x46 else 0x4a), c_page := ucast (drop_bit 16 (op_buf op))\<rparr>"
  assumes o: "in_order geo cmd v"
  shows "\<exists>r rs s'. floppy_cmd M irqs op count cmd s = Some ((DISK_RET_SUCCESS, r # rs), s') \<and> r AND 0xc0 = 0
     \<and> view (fd_dev s') = moved geo cmd v"
proof -
  let ?d0 = "program_dma M (op_buf op) (count - 1) (if cmd ! 0 = 0xe6 then 0x46 else 0x4a) (fd_dev s)"
  have hd0: "hd cmd = cmd ! 0" using cmd(1) by (cases cmd) auto
  have r: "fdc_registers M view" using m by (simp add: floppy_drives_def)
  have v0: "(view ?d0)\<lparr>c_dor := motor_on (cmd ! 1 AND 1)\<rparr> = v" "c_phase (view ?d0) = Command []" "c_dor (view ?d0) AND 4 \<noteq> 0"
    using program_dma_ok[OF r] p by (simp_all add: v_def hd0)
  let ?fin = "\<lambda>w. \<exists>r rs. length rs = 6 \<and> r AND 0xc0 = 0 \<and> w = (moved geo cmd v)\<lparr>c_phase := Results (r # rs)\<rparr>"
  have mv: "moved geo cmd (v\<lparr>c_phase := ph\<rparr>) = (moved geo cmd v)\<lparr>c_phase := ph\<rparr>" "in_order geo cmd (v\<lparr>c_phase := ph\<rparr>) = in_order geo cmd v" for ph
    by (simp_all add: moved_def in_order_def dma_size_def dma_start_def Let_def)
  have "\<exists>n d. floppy_pio M irqs cmd (s\<lparr>fd_dev := ?d0\<rparr>)
      = Some (0, (s\<lparr>fd_dev := ?d0\<rparr>)\<lparr>fd_recalibration_status := fd_recalibration_status (s\<lparr>fd_dev := ?d0\<rparr>) AND NOT FRS_TIMEOUT, fd_motor_counter := n, fd_dev := d\<rparr>)
      \<and> ?fin (view d)"
  proof (rule pio_ok[OF m, where fin = ?fin])
    show "fdc_interrupts irqs view ?fin d"
      if d: "view d = (view (fd_dev (s\<lparr>fd_dev := ?d0\<rparr>)))\<lparr>c_dor := motor_on (cmd ! 1 AND 1), c_phase := Busy cmd\<rparr>" for d
    proof -
      have vd: "view d = v\<lparr>c_phase := Busy cmd\<rparr>" using d v0(1) by simp
      then have "in_order geo cmd (view d)" "c_phase (view d) = Busy cmd" using o mv by simp_all
      then have "fdc_interrupts irqs view (\<lambda>w. \<exists>r rs. length rs = 6 \<and> r AND 0xc0 = 0 \<and> w = (moved geo cmd (view d))\<lparr>c_phase := Results (r # rs)\<rparr>) d"
        using m cmd(1) unfolding floppy_drives_def fdc_executes_def by blast
      then show ?thesis by (simp add: vd mv)
    qed
    show "\<exists>d. handle_0e M s1 = Some (s1\<lparr>fd_recalibration_status := fd_recalibration_status s1 OR FRS_TIMEOUT, fd_dev := d\<rparr>) \<and> ?fin (view d)"
      if f: "?fin (view (fd_dev s1))" for s1
    proof -
      obtain rs where "c_phase (view (fd_dev s1)) = Results rs" using f by auto
      then show ?thesis using handler_results[OF m, of s1 rs] f by metis
    qed
  qed (use v0 cmd in \<open>auto simp: command_size_def\<close>)
  then obtain n d rr rs where d: "floppy_pio M irqs cmd (s\<lparr>fd_dev := ?d0\<rparr>)
      = Some (0, s\<lparr>fd_recalibration_status := fd_recalibration_status s AND NOT FRS_TIMEOUT, fd_motor_counter := n, fd_dev := d\<rparr>)"
      "length rs = 6" "rr AND 0xc0 = 0" "view d = (moved geo cmd v)\<lparr>c_phase := Results (rr # rs)\<rparr>" by auto
  have st: "fst (p_inb M PORT_FD_STATUS d) AND 0xc0 = 0xc0" "view (snd (p_inb M PORT_FD_STATUS d)) = view d"
    using m d(4) by (simp_all add: floppy_drives_def fdc_registers_def fdc_status_def)
  then obtain d' where d': "read_status M 7 (snd (p_inb M PORT_FD_STATUS d)) = (rr # rs, d')" "view d' = (view d)\<lparr>c_phase := Command []\<rparr>"
    using read_status_ok[OF m, of "snd (p_inb M PORT_FD_STATUS d)" "rr # rs"] d(2,4) by auto
  have "c_phase (moved geo cmd v) = Command []" using p(1) by (simp add: moved_def Let_def v_def)
  then have "view d' = moved geo cmd v" using d'(2) d(4) by (cases "moved geo cmd v") simp
  then show ?thesis using d(1,3) st(1) d'(1) page unfolding floppy_cmd_def Let_def by (auto simp: case_prod_beta)
qed

lemma lba2chs_inside:
  fixes op :: disk_op_s
  defines "g \<equiv> lchs (op_drive op)" and "L \<equiv> unat (op_lba op)"
  assumes g: "unat (spt g) < 2 ^ 8" "unat (heads g) < 2 ^ 8" "unat (cylinders g) \<le> 2 ^ 8" and L: "L < capacity g" "L mod unat (spt g) + 1 < unat (spt g)"
  obtains track sector head where "lba2chs op = (track, sector, head)" "unat sector = L mod unat (spt g) + 1"
    "unat head < unat (heads g)" "unat track < unat (cylinders g)" "L = (unat track * unat (heads g) + unat head) * unat (spt g) + unat sector - 1"
proof -
  let ?S = "unat (spt g)" and ?H = "unat (heads g)" and ?C = "unat (cylinders g)"
  have pos: "0 < ?S" "0 < ?H" using L(1) by (auto simp: capacity_def intro!: Nat.gr0I)
  have cap: "L < ?C * (?H * ?S)" using L(1) by (simp add: capacity_def algebra_simps)
  have "?H * ?S \<le> 2 ^ 8 * 2 ^ 8" using g by (intro mult_le_mono) simp_all
  then have "?C * (?H * ?S) \<le> 2 ^ 8 * (2 ^ 8 * 2 ^ 8)" using g by (intro mult_le_mono) simp_all
  then have b: "L < 2 ^ 24" using cap by simp
  then have "unat (ucast (op_lba op) :: u32) = L" unfolding L_def by (subst unat_ucast_fits) simp_all
  then have "unat (ucast (op_lba op) + 1 :: u32) = Suc L" using b by (subst unat_add_nowrap) simp_all
  then obtain x y z :: u32 where r: "lba2chs op = (ucast x, ucast y, ucast z)" and
      v: "unat x = Suc L div ?S div ?H" "unat y = Suc L mod ?S" "unat z = Suc L div ?S mod ?H"
    unfolding g_def by (rule lba2chs_div)
  have dm: "Suc L div ?S = L div ?S" "Suc L mod ?S = Suc (L mod ?S)" using L(2) pos by (simp_all add: div_Suc mod_Suc)
  have "L < (?C * ?H) * ?S" using cap by (simp add: algebra_simps)
  then have "L div ?S < ?C * ?H" by (simp add: less_mult_imp_div_less)
  then have tr: "L div ?S div ?H < ?C" by (simp add: less_mult_imp_div_less)
  have u: "unat (ucast x :: u8) = L div ?S div ?H" "unat (ucast y :: u8) = L mod ?S + 1" "unat (ucast z :: u8) = L div ?S mod ?H"
    unfolding unat_ucast_mod v dm using tr g L(2) mod_less_divisor[OF pos(2), of "L div ?S"] by (simp_all del: mod_less_divisor)
  show thesis
  proof (rule that[OF r])
    show "L = (unat (ucast x :: u8) * ?H + unat (ucast z :: u8)) * ?S + unat (ucast y :: u8) - 1" unfolding u by simp
  qed (use u tr pos in simp_all)
qed

lemma dma_buffer:
  fixes buf :: u32 and count :: u16
  assumes c: "0 < unat count" and b: "unat buf mod 2 ^ 16 + 512 * unat count \<le> 2 ^ 16" "unat buf < 2 ^ 24"
  shows "unat (count * 512 - 1) = 512 * unat count - 1" "drop_bit 16 buf = drop_bit 16 (buf + ucast (count * 512 - 1))"
    "push_bit 16 (ucast (ucast (drop_bit 16 buf) :: u8)) + ucast (ucast buf :: u16) = buf"
proof -
  let ?n = "512 * unat count"
  have n: "0 < ?n" "?n \<le> 2 ^ 16" using assms by linarith+
  have "count * 512 - 1 = word_of_nat (?n - 1)" using n(1) by (simp add: of_nat_diff)
  then have "unat (count * 512 - 1) = (?n - 1) mod 2 ^ 16" by (simp add: unat_of_nat)
  then show e: "unat (count * 512 - 1) = ?n - 1" using n by simp
  let ?q = "unat buf div 2 ^ 16" and ?r = "unat buf mod 2 ^ 16"
  have s: "unat buf = ?q * 2 ^ 16 + ?r" by simp
  have eu: "unat (ucast (count * 512 - 1) :: u32) = ?n - 1" using e by (simp add: unat_ucast_16_32)
  have "unat (buf + ucast (count * 512 - 1)) = unat buf + (?n - 1)" using b(2) n eu by (subst unat_add_nowrap) simp_all
  then have "unat (buf + ucast (count * 512 - 1)) = ?q * 2 ^ 16 + (?r + (?n - 1))" using s by linarith
  moreover have "?r + (?n - 1) < 2 ^ 16" using b(1) n by linarith
  ultimately have "unat (buf + ucast (count * 512 - 1)) div 2 ^ 16 = ?q" using div_mod_add[of "2 ^ 16" "?r + (?n - 1)" ?q] by simp
  then show "drop_bit 16 buf = drop_bit 16 (buf + ucast (count * 512 - 1))" by (simp add: word_unat_eq_iff drop_bit_eq_div unat_div)
  have q: "?q < 2 ^ 8" using b(2) by simp
  show "push_bit 16 (ucast (ucast (drop_bit 16 buf) :: u8)) + ucast (ucast buf :: u16) = buf"
  proof (rule word_unat_eq_iff[THEN iffD2])
    have a: "unat (ucast (ucast (drop_bit 16 buf) :: u8) :: u32) = ?q"
      using q by (simp add: unat_ucast_mod unat_div drop_bit_eq_div)
    have p: "unat (push_bit 16 (ucast (ucast (drop_bit 16 buf) :: u8)) :: u32) = ?q * 2 ^ 16"
      using q a by (simp add: push_bit_eq_mult unat_mult_nowrap)
    have r: "unat (ucast (ucast buf :: u16) :: u32) = ?r" by (simp add: unat_ucast_mod)
    show "unat (push_bit 16 (ucast (ucast (drop_bit 16 buf) :: u8)) + ucast (ucast buf :: u16) :: u32) = unat buf"
      using q by (subst unat_add_nowrap) (simp_all add: p r)
  qed
qed

text \<open>A request that stays inside one track of the medium and does not begin with the last sector of the track.\<close>

definition inside_track :: "(u8 \<Rightarrow> chs_s) \<Rightarrow> disk_op_s \<Rightarrow> bool" where
  "inside_track geo op \<longleftrightarrow>
     (let g = lchs (op_drive op); n = unat (op_count op); L = unat (op_lba op); fid = ucast (cntl_id (op_drive op)) in
      fid \<in> {0, 1} \<and> geo fid = g \<and> unat (spt g) < 2 ^ 8 \<and> unat (heads g) < 2 ^ 8 \<and> unat (cylinders g) \<le> 2 ^ 8
      \<and> 0 < n \<and> L < capacity g \<and> L mod unat (spt g) + n \<le> unat (spt g) \<and> L mod unat (spt g) + 1 < unat (spt g)
      \<and> unat (op_buf op) mod 2 ^ 16 + 512 * n \<le> 2 ^ 16 \<and> unat (op_buf op) < 2 ^ 24)"

lemma head_id_bits: "fid \<in> {0, 1} \<Longrightarrow> (push_bit 2 h OR fid) AND 3 = (fid :: u8) \<and> (push_bit 2 h OR fid) AND 1 = fid"
proof -
  assume f: "fid \<in> {0, 1}"
  have m: "(3::u8) = mask 2" "(1::u8) = mask 1" by (simp_all add: mask_eq_exp_minus_1)
  have "push_bit 2 h AND 3 = 0" "push_bit 2 h AND 1 = 0" unfolding m by (rule bit_word_eqI, auto simp: bit_simps)+
  then show ?thesis using f by (auto simp: bit.conj_disj_distrib2)
qed

lemma rw_in_order:
  fixes op :: disk_op_s and v :: fdc_view
  defines "fid \<equiv> ucast (cntl_id (op_drive op)) :: u8" and "buf \<equiv> op_buf op" and "n \<equiv> unat (op_count op)"
  assumes i: "inside_track geo op" and c: "c \<in> {0xe6, 0xc5}"
    and v: "c_dor v = motor_on fid" "\<not> c_masked v" "c_addr v = ucast buf" "c_count v = op_count op * 512 - 1" "c_page v = ucast (drop_bit 16 buf)"
      "c_mode v = (if c = 0xe6 then 0x46 else 0x4a)"
  shows "in_order geo (rw_bytes c op) v" "rw_bytes c op ! 1 AND 1 = fid"
    "c = 0xe6 \<Longrightarrow> moved geo (rw_bytes c op) v = v\<lparr>c_mem := disk_read (op_lba op) (op_count op) buf (c_img v fid) (c_mem v)\<rparr>"
    "c = 0xc5 \<Longrightarrow> moved geo (rw_bytes c op) v = v\<lparr>c_img := (c_img v)(fid := disk_write (op_lba op) (op_count op) buf (c_mem v) (c_img v fid))\<rparr>"
proof -
  let ?g = "lchs (op_drive op)" and ?L = "unat (op_lba op)"
  have fid: "fid \<in> {0, 1}" "geo fid = ?g" and g: "unat (spt ?g) < 2 ^ 8" "unat (heads ?g) < 2 ^ 8" "unat (cylinders ?g) \<le> 2 ^ 8"
    and n: "0 < n" "?L mod unat (spt ?g) + n \<le> unat (spt ?g)" and L: "?L < capacity ?g" "?L mod unat (spt ?g) + 1 < unat (spt ?g)"
    and b: "unat buf mod 2 ^ 16 + 512 * n \<le> 2 ^ 16" "unat buf < 2 ^ 24"
    using i unfolding inside_track_def Let_def fid_def n_def buf_def by auto
  obtain track sector head where t: "lba2chs op = (track, sector, head)" "unat sector = ?L mod unat (spt ?g) + 1"
    "unat head < unat (heads ?g)" "unat track < unat (cylinders ?g)" "?L = (unat track * unat (heads ?g) + unat head) * unat (spt ?g) + unat sector - 1"
    using lba2chs_inside[OF g L] by blast
  note d = dma_buffer[OF n(1)[unfolded n_def] b[unfolded n_def], folded n_def]
  define cs where "cs = rw_bytes c op"
  have cs: "cs ! 0 = c" "cs ! 1 = push_bit 2 head OR fid" "cs ! 2 = track" "cs ! 3 = head" "cs ! 4 = sector" "cs ! 5 = FLOPPY_SIZE_CODE"
    "cs ! 6 = sector + ucast (op_count op) - 1"
    by (simp_all add: cs_def rw_bytes_def t(1) fid_def)
  have dr: "cs ! 1 AND 3 = fid" "cs ! 1 AND 1 = fid" unfolding cs using head_id_bits[OF fid(1)] by auto
  then show "rw_bytes c op ! 1 AND 1 = fid" by (simp add: cs_def)
  have "unat (ucast (op_count op) :: u8) = n" unfolding n_def using n g(1) by (subst unat_ucast_fits) (simp_all add: n_def)
  then have "unat (ucast (op_count op) - 1 :: u8) = n - 1" using n(1) by (subst unat_minus_one) auto
  then have "unat (sector + (ucast (op_count op) - 1)) = unat sector + (n - 1)" using n g(1) t(2) by (subst unat_add_nowrap) simp_all
  then have eot: "unat (cs ! 6) = unat sector + n - 1" unfolding cs using n(1) by (simp add: add_diff_eq)
  have ord: "1 \<le> unat sector" "unat sector \<le> unat sector + n - 1" "unat sector + n - 1 \<le> unat (spt ?g)" using n t(2) by simp_all
  have size: "dma_size v = 512 * n" using d(1) n(1) by (simp add: dma_size_def v)
  have start: "dma_start v = buf" using d(3) by (simp add: dma_start_def v)
  have "unat (c_addr v) = unat buf mod 2 ^ 16" by (simp add: v unat_ucast_mod)
  then show "in_order geo (rw_bytes c op) v"
    using c t(3,4) eot ord cs(2) b(1) size motor_on_bits[OF fid(1)] fid unfolding in_order_def Let_def cs_def[symmetric] dr by (simp add: cs v)
  have place: "512 * ((unat (cs ! 2) * unat (heads ?g) + unat (cs ! 3)) * unat (spt ?g) + unat (cs ! 4) - 1) = 512 * ?L"
    using t(5) by (simp add: cs)
  show "moved geo (rw_bytes c op) v = v\<lparr>c_mem := disk_read (op_lba op) (op_count op) buf (c_img v fid) (c_mem v)\<rparr>" if "c = 0xe6"
    unfolding moved_def Let_def cs_def[symmetric] dr fid(2) place start size disk_read_def n_def[symmetric] using that cs(1) by simp
  show "moved geo (rw_bytes c op) v = v\<lparr>c_img := (c_img v)(fid := disk_write (op_lba op) (op_count op) buf (c_mem v) (c_img v fid))\<rparr>" if "c = 0xc5"
    unfolding moved_def Let_def cs_def[symmetric] dr fid(2) place start size disk_write_def n_def[symmetric] using that cs(1) by simp
qed

text \<open>
  C36. The floppy driver reads and writes the medium. Over every machine whose controller has the documented
  behaviour, a request for sectors inside one track, not from its last sector on, with a buffer inside a page of 64 KiB
  returns success, whether the drive has to be recalibrated first or not; a read fills the buffer with the bytes
  of exactly those sectors, a write puts the bytes of the buffer there, nothing else of memory and of the media changes, and
  the controller is ready for the next command.
\<close>

theorem floppy_moves_sectors:
  fixes fid :: u8
  assumes m: "floppy_drives M irqs geo view" and p: "c_phase (view (fd_dev s)) = Command []" "c_dor (view (fd_dev s)) AND 4 \<noteq> 0"
    and op: "op_command op \<in> {CMD_READ, CMD_WRITE}" "inside_track geo op" and fid: "fid = ucast (cntl_id (op_drive op))"
  shows "\<exists>s'. process_floppy_op M irqs op s = Some ((DISK_RET_SUCCESS, op), s')
    \<and> c_phase (view (fd_dev s')) = Command [] \<and> c_dor (view (fd_dev s')) AND 4 \<noteq> 0
    \<and> c_mem (view (fd_dev s')) = (if op_command op = CMD_READ then disk_read (op_lba op) (op_count op) (op_buf op) (c_img (view (fd_dev s)) fid) (c_mem (view (fd_dev s)))
        else c_mem (view (fd_dev s)))
    \<and> c_img (view (fd_dev s')) = (if op_command op = CMD_WRITE then (c_img (view (fd_dev s)))(fid := disk_write (op_lba op) (op_count op) (op_buf op)
        (c_mem (view (fd_dev s))) (c_img (view (fd_dev s)) fid)) else c_img (view (fd_dev s)))"
proof -
  define c :: u8 where "c = (if op_command op = CMD_READ then 0xe6 else 0xc5)"
  have f01: "ucast (cntl_id (op_drive op)) \<in> {0, 1 :: u8}" and n: "0 < unat (op_count op)"
    and b: "unat (op_buf op) mod 2 ^ 16 + 512 * unat (op_count op) \<le> 2 ^ 16" "unat (op_buf op) < 2 ^ 24"
    using op(2) by (simp_all add: inside_track_def Let_def)
  obtain s1 x where s1: "check_recal_drive M irqs (op_drive op) s = Some (DISK_RET_SUCCESS, s1)" "x AND 4 \<noteq> 0"
      "view (fd_dev s1) = (view (fd_dev s))\<lparr>c_dor := x\<rparr>"
    using recal_ok[OF m p f01] by blast
  define v where "v = (view (fd_dev s1))\<lparr>c_dor := motor_on (rw_bytes c op ! 1 AND 1), c_masked := False, c_flip := False, c_addr := ucast (op_buf op),
    c_count := op_count op * 512 - 1, c_mode := (if hd (rw_bytes c op) = 0xe6 then 0x46 else 0x4a), c_page := ucast (drop_bit 16 (op_buf op))\<rparr>"
  have c: "c \<in> {0xe6, 0xc5}" "hd (rw_bytes c op) = c" "length (rw_bytes c op) = 9" by (auto simp: c_def rw_bytes_def case_prod_beta Let_def)
  have a: "rw_bytes c op ! 1 AND 1 = fid" using head_id_bits[OF f01] by (simp add: rw_bytes_def case_prod_beta Let_def fid)
  have vf: "c_dor v = motor_on fid" "\<not> c_masked v" "c_addr v = ucast (op_buf op)" "c_count v = op_count op * 512 - 1" "c_page v = ucast (drop_bit 16 (op_buf op))"
      "c_mode v = (if c = 0xe6 then 0x46 else 0x4a)" "c_phase v = Command []" "c_img v = c_img (view (fd_dev s))" "c_mem v = c_mem (view (fd_dev s))"
    using a by (simp_all add: v_def c(2) s1(3) p(1))
  note r = rw_in_order[OF op(2) c(1) vf(1)[unfolded fid] vf(2-6), folded fid]
  have "\<exists>r rs s'. floppy_cmd M irqs op (op_count op * 512) (rw_bytes c op) s1 = Some ((DISK_RET_SUCCESS, r # rs), s') \<and> r AND 0xc0 = 0
     \<and> view (fd_dev s') = moved geo (rw_bytes c op) v"
    unfolding v_def by (rule floppy_cmd_ok[OF m]) (use s1 p c dma_buffer(2)[OF n b] r(1)[unfolded v_def] in simp_all)
  then obtain rr rs s2 where s2: "floppy_cmd M irqs op (op_count op * 512) (rw_bytes c op) s1 = Some ((DISK_RET_SUCCESS, rr # rs), s2)" "rr AND 0xc0 = 0"
    "view (fd_dev s2) = moved geo (rw_bytes c op) v" by blast
  have ne: "CMD_READ \<noteq> CMD_WRITE" "CMD_READ \<noteq> CMD_RESET" "CMD_WRITE \<noteq> CMD_RESET" by (simp_all add: CMD_READ_def CMD_WRITE_def CMD_RESET_def)
  let ?s = "set_diskette_current_cyl fid (fst (lba2chs op)) s2"
  have "process_floppy_op M irqs op s = Some ((DISK_RET_SUCCESS, op), ?s)"
    using op(1) s1(1) s2(1,2) ne by (auto simp: process_floppy_op_def floppy_read_def floppy_write_def Let_def c_def fid DISK_RET_SUCCESS_def)
  moreover have "fd_dev ?s = fd_dev s2" by (simp add: set_diskette_current_cyl_def)
  ultimately show ?thesis using op(1) s2(3) r(3,4) motor_on_bits[OF f01, folded fid] ne vf by (auto simp: c_def)
qed

section \<open>Concrete machines\<close>

definition idle_floppy :: "'d \<Rightarrow> 'd floppy" where
  "idle_floppy d = \<lparr>fd_recalibration_status = 0, fd_motor_counter = 37, fd_return_status = replicate 7 0, fd_track = [0, 0], fd_last_data_rate = 0,
     fd_media_state = replicate 4 0, fd_dev = d\<rparr>"

text \<open>Two drives of 1.44 MB behind a controller that ends a command as soon as the code yields.\<close>

definition ex_geo :: "u8 \<Rightarrow> chs_s" where "ex_geo fid = \<lparr>heads = 2, cylinders = 80, spt = 18\<rparr>"

definition ex_fdc_in :: "u16 \<Rightarrow> fdc_view \<Rightarrow> u8 \<times> fdc_view" where
  "ex_fdc_in port v =
     (if port = PORT_FD_DOR then (c_dor v, v)
      else if port = PORT_FD_STATUS then (case c_phase v of Results _ \<Rightarrow> 0xc0 | Command _ \<Rightarrow> 0x80 | Busy _ \<Rightarrow> 0x10, v)
      else case c_phase v of Results (r # rs) \<Rightarrow> (r, v\<lparr>c_phase := if rs = [] then Command [] else Results rs\<rparr>) | _ \<Rightarrow> (0, v))"

definition ex_fdc_out :: "u8 \<Rightarrow> u16 \<Rightarrow> fdc_view \<Rightarrow> fdc_view" where
  "ex_fdc_out b port v =
     (if port = PORT_FD_DOR then v\<lparr>c_dor := b\<rparr>
      else if port = PORT_FD_DATA then (case c_phase v of
          Command bs \<Rightarrow> if bs = [] \<and> b = 0x08 then v\<lparr>c_phase := Results [0x20, 0]\<rparr>
            else v\<lparr>c_phase := (if length bs + 1 < command_size (hd (bs @ [b])) then Command else Busy) (bs @ [b])\<rparr>
        | _ \<Rightarrow> v)
      else dma_out b port v)"

definition ex_fdc :: "fdc_view ports" where
  "ex_fdc = \<lparr>p_inb = ex_fdc_in, p_outb = ex_fdc_out, p_inw = (\<lambda>_ d. (0, d)), p_outw = (\<lambda>_ _ d. d), p_outl = (\<lambda>_ _ d. d),
     p_ndelay = (\<lambda>_ d. d), p_yield = (\<lambda>d. d), p_tsc = (\<lambda>_. 0), p_khz = 1000\<rparr>"

definition ex_irqs :: "fdc_view \<Rightarrow> irq list \<times> fdc_view" where
  "ex_irqs v = (case c_phase v of
      Busy cs \<Rightarrow> ([Irq_floppy], if length cs = 9 then (moved ex_geo cs v)\<lparr>c_phase := Results (replicate 7 0)\<rparr> else v\<lparr>c_phase := Command []\<rparr>)
    | _ \<Rightarrow> ([Irq_timer], v))"

lemma ex_fdc_drives: "floppy_drives ex_fdc ex_irqs ex_geo (\<lambda>v. v)"
proof -
  have "fdc_registers ex_fdc (\<lambda>v. v)"
    by (auto simp: fdc_registers_def ex_fdc_def ex_fdc_in_def ex_fdc_out_def dma_ports_def fd_port_defs dma_out_def)
  moreover have "fdc_status ex_fdc (\<lambda>v. v)"
    unfolding fdc_status_def by (auto simp: ex_fdc_def ex_fdc_in_def fd_port_defs intro!: exI[of _ 0])
  moreover have "fdc_data ex_fdc (\<lambda>v. v)"
    by (auto simp: fdc_data_def ex_fdc_def ex_fdc_in_def ex_fdc_out_def fd_port_defs)
  moreover have "fdc_executes ex_irqs ex_geo (\<lambda>v. v)"
  proof -
    have i: "fdc_interrupts ex_irqs (\<lambda>v. v) fin d" if "c_phase d = Busy cs" "fin (snd (ex_irqs d))" for fin d cs
      unfolding fdc_interrupts_def Let_def using that
      by (intro exI[of _ 0] exI[of _ "[]"]) (simp add: ex_irqs_def ticks_def FLOPPY_MOTOR_TICKS_def)
    have r: "replicate 7 (0::u8) = 0 # replicate 6 0" by (simp add: numeral_eq_Suc)
    show ?thesis unfolding fdc_executes_def
    proof (intro conjI allI impI)
      show "fdc_interrupts ex_irqs (\<lambda>v. v) (\<lambda>v. v = d\<lparr>c_phase := Command []\<rparr>) d" if "c_phase d = Busy [7, b]" for d b
        by (rule i[OF that]) (simp add: ex_irqs_def that)
      show "fdc_interrupts ex_irqs (\<lambda>v. v) (\<lambda>v. \<exists>r rs. length rs = 6 \<and> r AND 0xc0 = 0 \<and> v = (moved ex_geo cs d)\<lparr>c_phase := Results (r # rs)\<rparr>) d"
        if "c_phase d = Busy cs \<and> length cs = 9 \<and> in_order ex_geo cs d" for d cs
        by (rule i[of d cs]) (use that in simp, intro exI[of _ 0] exI[of _ "replicate 6 0"], use that in \<open>simp add: ex_irqs_def r\<close>)
    qed
  qed
  ultimately show ?thesis by (simp add: floppy_drives_def)
qed

text \<open>
  Its handler returns in the state the controller raises the interrupt in, although not from every state: while
  a command is executed the status stays busy.
\<close>

lemma ex_drain:
  assumes "c_phase d = Results rs" "rs \<noteq> []"
  shows "drain_result ex_fdc d = Some (d\<lparr>c_phase := Command []\<rparr>)"
  using assms
proof (induction rs arbitrary: d)
  case (Cons r rs)
  have ports: "PORT_FD_DATA \<noteq> PORT_FD_DOR" "PORT_FD_STATUS \<noteq> PORT_FD_DOR" "PORT_FD_DATA \<noteq> PORT_FD_STATUS" by (simp_all add: fd_port_defs)
  show ?case
  proof (cases rs)
    case Nil
    then show ?thesis using Cons.prems ports by (subst drain_result.simps) (simp add: ex_fdc_def ex_fdc_in_def)
  next
    case (Cons r' rs')
    have "drain_result ex_fdc d = drain_result ex_fdc (d\<lparr>c_phase := Results rs\<rparr>)"
      using Cons.prems Cons ports by (subst drain_result.simps) (simp add: ex_fdc_def ex_fdc_in_def)
    then show ?thesis using Cons.IH[of "d\<lparr>c_phase := Results rs\<rparr>"] Cons by simp
  qed
qed simp

lemma ex_handled: "handled_irqs ex_fdc ex_irqs"
proof -
  have ports: "PORT_FD_DATA \<noteq> PORT_FD_DOR" "PORT_FD_STATUS \<noteq> PORT_FD_DOR" "PORT_FD_DATA \<noteq> PORT_FD_STATUS" by (simp_all add: fd_port_defs)
  have r: "handle_0e ex_fdc s \<noteq> None" if "c_phase (fd_dev s) = Results (replicate 7 0)" for s
    using that ports by (simp add: handle_0e_def ex_fdc_def ex_fdc_in_def)
  have c: "handle_0e ex_fdc s \<noteq> None" if "c_phase (fd_dev s) = Command []" for s
  proof -
    let ?d = "(fd_dev s)\<lparr>c_phase := Results [0x20, 0]\<rparr>"
    have "poll_status ex_fdc 0xc0 ?d = Some ?d" using ports by (subst poll_status.simps) (simp add: ex_fdc_def ex_fdc_in_def)
    moreover have "p_inb ex_fdc PORT_FD_STATUS (fd_dev s) = (0x80, fd_dev s)" "p_outb ex_fdc 8 PORT_FD_DATA (fd_dev s) = ?d"
      using that ports by (simp_all add: ex_fdc_def ex_fdc_in_def ex_fdc_out_def)
    ultimately show ?thesis by (simp add: handle_0e_def ex_drain[of ?d "[0x20, 0]"])
  qed
  show ?thesis
    unfolding handled_irqs_def floppy_yield_def
  proof (intro allI impI)
    fix s :: "fdc_view floppy"
    assume "Irq_floppy \<in> set (fst (ex_irqs (fd_dev s)))"
    then obtain cs where "c_phase (fd_dev s) = Busy cs" by (auto simp: ex_irqs_def split: fdc_phase.splits)
    then show "(let (qs, d) = ex_irqs (fd_dev s) in handle_irqs ex_fdc qs (s\<lparr>fd_dev := d\<rparr>)) \<noteq> None"
      using r[of "s\<lparr>fd_dev := (moved ex_geo cs (fd_dev s))\<lparr>c_phase := Results (replicate 7 0)\<rparr>\<rparr>"] c[of "s\<lparr>fd_dev := (fd_dev s)\<lparr>c_phase := Command []\<rparr>\<rparr>"]
      by (auto simp: ex_irqs_def Let_def)
  qed
qed

definition ex_floppy_drive :: drive_s where
  "ex_floppy_drive = zero_drive\<lparr>d_type := DTYPE_FLOPPY, floppy_type := 4, lchs := ex_geo 0, sectors := - 1, blksize := 512\<rparr>"

definition ex_fdc_view :: fdc_view where
  "ex_fdc_view = \<lparr>c_dor = 0x0c, c_phase = Command [], c_flip = True, c_addr = 0, c_count = 0, c_page = 0, c_mode = 0, c_masked = True,
     c_img = (\<lambda>_ i. if i < 512 then 0xe5 else 0), c_mem = (\<lambda>_. 0)\<rparr>"

text \<open>The driver waits while the drive is recalibrated: the interrupt arrives, \<open>handle_0e\<close> runs and the wait ends with 0.\<close>

theorem floppy_wait_ends_witness:
  "ended (wait_floppy_irq ex_fdc ex_irqs (idle_floppy (ex_fdc_view\<lparr>c_phase := Busy [7, 0]\<rparr>)))
    \<and> Irq_floppy \<in> set (fst (ex_irqs (ex_fdc_view\<lparr>c_phase := Busy [7, 0]\<rparr>))) \<and> handle_0e ex_fdc (idle_floppy ex_fdc_view) \<noteq> None"
proof (intro conjI)
  show "ended (wait_floppy_irq ex_fdc ex_irqs (idle_floppy (ex_fdc_view\<lparr>c_phase := Busy [7, 0]\<rparr>)))"
  proof (rule floppy_wait_ends[OF ex_handled])
    show "\<exists>n. fst (ex_irqs (passed ex_irqs n d)) \<noteq> []" for d
      by (intro exI[of _ 0]) (auto simp: ex_irqs_def split: fdc_phase.splits)
  qed
  show "Irq_floppy \<in> set (fst (ex_irqs (ex_fdc_view\<lparr>c_phase := Busy [7, 0]\<rparr>)))" by (simp add: ex_irqs_def)
  let ?v = "ex_fdc_view\<lparr>c_phase := Busy [7, 0]\<rparr>"
  have "Irq_floppy \<in> set (fst (ex_irqs ?v))" "snd (ex_irqs ?v) = ex_fdc_view" by (simp_all add: ex_irqs_def ex_fdc_view_def)
  then show "handle_0e ex_fdc (idle_floppy ex_fdc_view) \<noteq> None"
    using yield_returns[OF ex_handled, of "idle_floppy ?v"] by (auto simp: floppy_yield_def ex_irqs_def idle_floppy_def ex_fdc_view_def bind_eq_Some_conv split: if_splits)
qed

text \<open>The first sector is read to 7C00h from a drive that has not been used before.\<close>

theorem floppy_moves_sectors_witness:
  "let op = \<lparr>op_lba = 0, op_buf = 0x7c00, op_drive = ex_floppy_drive, op_count = 1, op_command = CMD_READ\<rparr>
   in \<exists>s'. process_floppy_op ex_fdc ex_irqs op (idle_floppy ex_fdc_view) = Some ((DISK_RET_SUCCESS, op), s') \<and> c_mem (fd_dev s') (0x7c00 + of_nat 511) = 0xe5"
proof -
  define op where "op = \<lparr>op_lba = 0, op_buf = 0x7c00, op_drive = ex_floppy_drive, op_count = 1, op_command = CMD_READ\<rparr>"
  have "\<exists>s'. process_floppy_op ex_fdc ex_irqs op (idle_floppy ex_fdc_view) = Some ((DISK_RET_SUCCESS, op), s')
    \<and> c_phase (fd_dev s') = Command [] \<and> c_dor (fd_dev s') AND 4 \<noteq> 0
    \<and> c_mem (fd_dev s') = (if op_command op = CMD_READ then disk_read (op_lba op) (op_count op) (op_buf op) (c_img (fd_dev (idle_floppy ex_fdc_view)) 0) (c_mem (fd_dev (idle_floppy ex_fdc_view)))
        else c_mem (fd_dev (idle_floppy ex_fdc_view)))
    \<and> c_img (fd_dev s') = (if op_command op = CMD_WRITE then (c_img (fd_dev (idle_floppy ex_fdc_view)))(0 := disk_write (op_lba op) (op_count op) (op_buf op)
        (c_mem (fd_dev (idle_floppy ex_fdc_view))) (c_img (fd_dev (idle_floppy ex_fdc_view)) 0)) else c_img (fd_dev (idle_floppy ex_fdc_view)))"
    by (rule floppy_moves_sectors[OF ex_fdc_drives])
       (simp_all add: idle_floppy_def ex_fdc_view_def op_def ex_floppy_drive_def inside_track_def ex_geo_def zero_drive_def capacity_def Let_def)
  moreover have "disk_read (op_lba op) (op_count op) (op_buf op) (c_img ex_fdc_view 0) (c_mem ex_fdc_view) (0x7c00 + of_nat 511) = 0xe5"
    unfolding disk_read_def op_def disk_op_s.simps by (subst put_bytes_at) (simp_all add: image_bytes_def ex_fdc_view_def)
  moreover have "op_command op = CMD_READ" "fd_dev (idle_floppy ex_fdc_view) = ex_fdc_view" by (simp_all add: op_def idle_floppy_def)
  ultimately show ?thesis unfolding Let_def op_def[symmetric] by auto
qed

end
