(* ===== verification/Floppy_Init.thy ===== *)
theory Floppy_Init
  imports Ata_Detect Floppy
begin

text \<open>
  \<open>bios/seabios/src/floppy.c\<close>: the floppy drives are created from the types that the non-volatile memory
  names, in the state of the set-up that \<open>Ata_Init\<close> introduces.
\<close>

definition sizeof_drive_s :: u32 where "sizeof_drive_s = 36"
definition CMOS_FLOPPY_DRIVE_TYPE :: nat where "CMOS_FLOPPY_DRIVE_TYPE = 0x10"
definition PORT_PIC1_DATA :: u16 where "PORT_PIC1_DATA = 0x0021"

definition addFloppy :: "u32 \<Rightarrow> int \<Rightarrow> u8 \<Rightarrow> 'd post_state \<Rightarrow> u32 \<times> 'd post_state" where
  "addFloppy floppyid ftype driver s =
     (if ftype \<le> 0 \<or> ftype \<ge> int (length FloppyInfo) then (0, s)
      else
        let (desc, p1) = malloc_tmp MAXDESCSIZE (su_pmm s); (drive, p2) = malloc_fseg sizeof_drive_s p1 in
        if drive = 0 \<or> desc = 0 then (0, s\<lparr>su_pmm := snd (pmm_free drive (snd (pmm_free desc p2)))\<rparr>)
        else
          let a = unat drive; (ch, slave, _) = su_ata s a;
              dr = zero_drive\<lparr>cntl_id := floppyid, d_type := driver, blksize := 512, floppy_type := of_int ftype, sectors := - 1,
                lchs := fi_chs (FloppyInfo ! nat ftype)\<rparr>;
              s1 = set_drive a dr (s\<lparr>su_pmm := p2, su_ata := (su_ata s)(a := (ch, slave, desc))\<rparr>);
              s2 = describe drive ''drive %c'' [Num (0x41 + floppyid)] s1
          in (drive, s2\<lparr>su_drives := map_floppy_drive a (su_drives s2)\<rparr>))"

text \<open>The first interrupt controller is unmasked for line 6, and the vector 0Eh is set to \<open>entry\<close>.\<close>

definition enable_hwirq6 :: "'d ports \<Rightarrow> u32 \<Rightarrow> 'd post_state \<Rightarrow> 'd post_state" where
  "enable_hwirq6 M entry s =
     (let (v, d) = p_inb M PORT_PIC1_DATA (su_dev s)
      in s\<lparr>su_dev := p_outb M (v AND NOT 0x40) PORT_PIC1_DATA d, su_ivt := (su_ivt s)(0x0e := entry)\<rparr>)"

definition floppy_setup :: "'d init_env \<Rightarrow> u32 \<Rightarrow> 'd post_state \<Rightarrow> 'd post_state" where
  "floppy_setup env entry_0e s =
     (let type = en_cmos env CMOS_FLOPPY_DRIVE_TYPE;
          s1 = (if type AND 0xf0 \<noteq> 0 then snd (addFloppy 0 (uint (drop_bit 4 type)) DTYPE_FLOPPY s) else s);
          s2 = (if type AND 0x0f \<noteq> 0 then snd (addFloppy 1 (uint (type AND 0x0f)) DTYPE_FLOPPY s1) else s1)
      in enable_hwirq6 (en_ports env) entry_0e (s2\<lparr>su_dev := p_outb (en_ports env) 0x02 PORT_DMA1_MASK_REG (su_dev s2)\<rparr>))"

text \<open>
  What the driver relies on: the number of the drive, and a geometry from the table, which fits the bytes of
  a command.
\<close>

definition floppy_ok :: "drive_s \<Rightarrow> bool" where
  "floppy_ok dr \<longleftrightarrow> d_type dr = DTYPE_FLOPPY \<and> cntl_id dr \<in> {0, 1} \<and> floppy_type dr \<in> {1..8} \<and> lchs dr = fi_chs (FloppyInfo ! unat (floppy_type dr))
     \<and> unat (spt (lchs dr)) < 2 ^ 8 \<and> unat (heads (lchs dr)) \<le> 2 \<and> unat (cylinders (lchs dr)) \<le> 2 ^ 8 \<and> 0 < capacity (lchs dr)"

definition floppies_ok :: "'d post_state \<Rightarrow> bool" where
  "floppies_ok s \<longleftrightarrow> post_ok s \<and> length (idmap (su_drives s) EXTTYPE_FLOPPY) = CONFIG_MAX_EXTDRIVE
     \<and> unat (floppycount (su_drives s)) \<le> CONFIG_MAX_EXTDRIVE
     \<and> sorted_wrt (drive_order (drive_at (su_drives s))) (take (unat (floppycount (su_drives s))) (idmap (su_drives s) EXTTYPE_FLOPPY))
     \<and> (\<forall>a \<in> set (take (unat (floppycount (su_drives s))) (idmap (su_drives s) EXTTYPE_FLOPPY)).
          a \<in> unat ` live (su_pmm s) \<and> floppy_ok (drive_at (su_drives s) a))"

lemma length_FloppyInfo [simp]: "length FloppyInfo = 9"
  by (simp add: FloppyInfo_def)

lemma floppy_types_ok:
  assumes "0 < ftype" "ftype < 9" "floppyid \<in> {0, 1}"
  shows "floppy_ok (zero_drive\<lparr>cntl_id := floppyid, d_type := DTYPE_FLOPPY, blksize := 512, floppy_type := of_int ftype, sectors := - 1,
    lchs := fi_chs (FloppyInfo ! nat ftype)\<rparr>)"
proof -
  have "ftype \<in> {1, 2, 3, 4, 5, 6, 7, 8}" using assms(1,2) by auto
  then show ?thesis using assms(3) by (auto simp: floppy_ok_def FloppyInfo_def capacity_def)
qed

lemma floppies_keep:
  assumes "floppies_ok s" "post_keeps s t" "su_drives t = (su_drives s)\<lparr>drive_at := at\<rparr>"
  shows "floppies_ok t"
proof -
  let ?xs = "take (unat (floppycount (su_drives s))) (idmap (su_drives s) EXTTYPE_FLOPPY)"
  have k: "post_ok t" "live (su_pmm s) \<subseteq> live (su_pmm t)" "\<And>p. p \<in> live (su_pmm s) \<Longrightarrow> at (unat p) = drive_at (su_drives s) (unat p)"
    using assms by (auto simp: keeps_in_def floppies_ok_def)
  have x: "at a = drive_at (su_drives s) a" "a \<in> unat ` live (su_pmm t)" "floppy_ok (at a)" if "a \<in> set ?xs" for a
  proof -
    have "a \<in> unat ` live (su_pmm s)" "floppy_ok (drive_at (su_drives s) a)" using assms(1) that by (auto simp: floppies_ok_def)
    then show "at a = drive_at (su_drives s) a" "a \<in> unat ` live (su_pmm t)" "floppy_ok (at a)" using k by auto
  qed
  have "sorted_wrt (drive_order at) ?xs"
  proof (rule sorted_wrt_mono_rel)
    show "sorted_wrt (drive_order (drive_at (su_drives s))) ?xs" using assms(1) by (simp add: floppies_ok_def)
    show "drive_order at a b" if "a \<in> set ?xs" "b \<in> set ?xs" "drive_order (drive_at (su_drives s)) a b" for a b
      using that x(1) by simp
  qed
  then show ?thesis using assms(1,3) k(1) x by (simp add: floppies_ok_def)
qed

lemma map_floppy_ok:
  assumes "floppies_ok s" "p \<in> live (su_pmm s)" "floppy_ok (drive_at (su_drives s) (unat p))"
  shows "floppies_ok (s\<lparr>su_drives := map_floppy_drive (unat p) (su_drives s)\<rparr>)"
proof -
  let ?D = "su_drives s" and ?t = "s\<lparr>su_drives := map_floppy_drive (unat p) (su_drives s)\<rparr>"
  obtain m n where r: "add_ordered_drive (drive_at ?D) (idmap ?D EXTTYPE_FLOPPY) (floppycount ?D) (unat p) = (m, n)" by fastforce
  have D: "drive_at (map_floppy_drive (unat p) ?D) = drive_at ?D" "cdcount (map_floppy_drive (unat p) ?D) = cdcount ?D"
    "idmap (map_floppy_drive (unat p) ?D) = (idmap ?D)(EXTTYPE_FLOPPY := m)" "floppycount (map_floppy_drive (unat p) ?D) = n"
    by (simp_all add: map_floppy_drive_def r Let_def)
  have post: "post_ok ?t" using assms(1) D by (simp add: floppies_ok_def post_in_def tables_ok_def)
  show ?thesis
  proof (cases "unat (floppycount ?D) \<ge> CONFIG_MAX_EXTDRIVE")
    case True
    then have "m = idmap ?D EXTTYPE_FLOPPY" "n = floppycount ?D" using r by (simp_all add: add_ordered_drive_def)
    then show ?thesis using assms(1) post D by (simp add: floppies_ok_def)
  next
    case False
    have n: "unat n = Suc (unat (floppycount ?D))" if "n = floppycount ?D + 1" using False that by (simp add: unat_add_nowrap CONFIG_MAX_EXTDRIVE_def)
    obtain xs ys where xy: "n = floppycount ?D + 1" "length m = CONFIG_MAX_EXTDRIVE" "take (unat (floppycount ?D)) (idmap ?D EXTTYPE_FLOPPY) = xs @ ys"
      "take (unat n) m = xs @ unat p # ys" "sorted_wrt (drive_order (drive_at ?D)) (take (unat n) m)"
      using add_ordered_drive_sorted[of "idmap ?D EXTTYPE_FLOPPY" "floppycount ?D" "drive_at ?D" "unat p"] assms(1) False r
      by (auto simp: floppies_ok_def)
    have "\<forall>a \<in> set (xs @ ys). a \<in> unat ` live (su_pmm s) \<and> floppy_ok (drive_at ?D a)" using assms(1) xy(3) by (simp add: floppies_ok_def)
    then show ?thesis using post D xy n False assms(2,3) by (auto simp: floppies_ok_def)
  qed
qed

lemma describe_drives [simp]: "su_drives (describe p fmt args s) = su_drives s"
  by (simp add: describe_def split: option.split)

lemma addFloppy_ok:
  assumes ok: "floppies_ok s" and id: "floppyid \<in> {0, 1}"
  shows "floppies_ok (snd (addFloppy floppyid ftype DTYPE_FLOPPY s)) \<and> post_keeps s (snd (addFloppy floppyid ftype DTYPE_FLOPPY s))"
proof (cases "ftype \<le> 0 \<or> ftype \<ge> 9")
  case True
  then show ?thesis using ok by (simp add: addFloppy_def)
next
  case False
  have post: "post_ok s" using ok by (simp add: floppies_ok_def)
  obtain desc p1 where d: "malloc_tmp MAXDESCSIZE (su_pmm s) = (desc, p1)" by fastforce
  obtain ad p2 where a: "malloc_fseg sizeof_drive_s p1 = (ad, p2)" by fastforce
  have "alloc_ok (su_pmm s)" "req_ok sizeof_drive_s 4" using post by (simp_all add: post_in_def req_ok_def sizeof_drive_s_def)
  note blocks = drive_blocks[OF this(1) d a this(2)]
  show ?thesis
  proof (cases "ad = 0 \<or> desc = 0")
    case True
    let ?t = "s\<lparr>su_pmm := snd (pmm_free ad (snd (pmm_free desc p2)))\<rparr>"
    have "post_keeps s ?t" by (rule post_keeps_released) (use blocks(1)[OF True] in auto)
    moreover have "floppies_ok ?t" by (rule floppies_keep[OF ok calculation, of "drive_at (su_drives s)"]) simp
    ultimately show ?thesis using True False d a by (simp add: addFloppy_def Let_def)
  next
    case ne0: False
    then have ne: "ad \<noteq> 0" "desc \<noteq> 0" by auto
    obtain ch slave x where c: "su_ata s (unat ad) = (ch, slave, x)" by (cases "su_ata s (unat ad)") auto
    define dr where "dr = zero_drive\<lparr>cntl_id := floppyid, d_type := DTYPE_FLOPPY, blksize := 512, floppy_type := of_int ftype, sectors := - 1,
      lchs := fi_chs (FloppyInfo ! nat ftype)\<rparr>"
    define s1 where "s1 = set_drive (unat ad) dr (s\<lparr>su_pmm := p2, su_ata := (su_ata s)(unat ad := (ch, slave, desc))\<rparr>)"
    define s2 where "s2 = describe ad ''drive %c'' [Num (0x41 + floppyid)] s1"
    have r: "addFloppy floppyid ftype DTYPE_FLOPPY s = (ad, s2\<lparr>su_drives := map_floppy_drive (unat ad) (su_drives s2)\<rparr>)"
      using False ne d a c by (simp add: addFloppy_def Let_def s2_def s1_def dr_def)
    have n1: "new_drive {} ad s s1" unfolding s1_def by (rule new_drive_made[OF post]) (use blocks(2)[OF ne] in simp_all)
    then have n2: "new_drive {} ad s s2" unfolding s2_def by (rule new_drive_describe)
    then have k2: "post_keeps s s2" by (rule new_drive_entered(1)[OF post])
    have D2: "su_drives s2 = (su_drives s)\<lparr>drive_at := (drive_at (su_drives s))(unat ad := dr)\<rparr>" by (simp add: s2_def s1_def set_drive_def)
    have f2: "floppies_ok s2" by (rule floppies_keep[OF ok k2 D2])
    have "floppy_ok dr" unfolding dr_def by (rule floppy_types_ok) (use False id in auto)
    then have "floppies_ok (s2\<lparr>su_drives := map_floppy_drive (unat ad) (su_drives s2)\<rparr>)"
      by (intro map_floppy_ok[OF f2]) (use n2 in \<open>auto simp: new_drive_def D2\<close>)
    moreover have "post_keeps s2 (s2\<lparr>su_drives := map_floppy_drive (unat ad) (su_drives s2)\<rparr>)"
      using calculation by (simp add: keeps_in_def floppies_ok_def map_floppy_drive_def Let_def case_prod_beta)
    ultimately show ?thesis using post_keeps_trans[OF k2] by (simp add: r)
  qed
qed

text \<open>
  C39. The set-up of the floppy drives. Whatever types the non-volatile memory names and however little memory is
  left, \<open>floppy_setup\<close> keeps the allocator and the tables consistent and the drives that were there unchanged;
  every floppy drive in the map is allocated, is in its place in the order, and has a number and a geometry for
  which the commands of the driver are exact.
\<close>

theorem floppy_setup_consistent:
  assumes "floppies_ok s"
  shows "floppies_ok (floppy_setup env entry_0e s) \<and> live (su_pmm s) \<subseteq> live (su_pmm (floppy_setup env entry_0e s))
    \<and> (\<forall>q\<in>live (su_pmm s). drive_at (su_drives (floppy_setup env entry_0e s)) (unat q) = drive_at (su_drives s) (unat q))"
proof -
  let ?type = "en_cmos env CMOS_FLOPPY_DRIVE_TYPE"
  define s1 where "s1 = (if ?type AND 0xf0 \<noteq> 0 then snd (addFloppy 0 (uint (drop_bit 4 ?type)) DTYPE_FLOPPY s) else s)"
  define s2 where "s2 = (if ?type AND 0x0f \<noteq> 0 then snd (addFloppy 1 (uint (?type AND 0x0f)) DTYPE_FLOPPY s1) else s1)"
  have k1: "floppies_ok s1 \<and> post_keeps s s1" using addFloppy_ok[OF assms, of 0] assms by (simp add: s1_def)
  then have k2: "floppies_ok s2 \<and> post_keeps s1 s2" using addFloppy_ok[of s1 1] by (simp add: s2_def)
  have f: "su_pmm (floppy_setup env entry_0e s) = su_pmm s2" "su_drives (floppy_setup env entry_0e s) = su_drives s2" "su_ipl (floppy_setup env entry_0e s) = su_ipl s2"
    by (simp_all add: floppy_setup_def Let_def s1_def s2_def enable_hwirq6_def case_prod_beta)
  have "post_keeps s s2" using k1 k2 post_keeps_trans by blast
  moreover have "post_ok s" using assms by (simp add: floppies_ok_def)
  ultimately show ?thesis using k2 by (simp add: floppies_ok_def post_in_def keeps_in_def f)
qed

lemma ex_post_floppies: "floppies_ok ex_post"
  using ex_post_ok(1)
  by (simp add: floppies_ok_def ex_post_def ex_bdisk_def map_cd_drive_def add_ordered_drive_def CONFIG_MAX_EXTDRIVE_def case_prod_beta)

theorem floppy_setup_consistent_witness: "floppies_ok (floppy_setup (ex_env\<lparr>en_cmos := (\<lambda>_. 0x49)\<rparr>) 0 ex_post)"
  using floppy_setup_consistent[OF ex_post_floppies] by blast

end
