(* ===== verification/Pcibios.thy ===== *)
theory Pcibios
  imports Pci Cdrom Pmm
begin

text \<open>
  \<open>bios/seabios/src/pcibios.c\<close> and \<open>pirtable.c\<close>: the PCI services of interrupt 1Ah, function B1h, and the table
  of interrupt routing. The state is the configuration space with memory; \<open>pb_count\<close> is the local
  variable \<open>count\<close> of the two searches. The table is read in the segment of the firmware; the address of the 32-bit entry
  point is an argument, since the linker chooses it.
\<close>

section \<open>The routing table\<close>

record link_info =
  link :: u8
  bitmap :: u16

record pir_slot =
  ps_bus :: u8
  ps_dev :: u8
  ps_links :: "link_info list"
  slot_nr :: u8
  ps_reserved :: u8

record pir_header =
  pir_signature :: u32
  pir_version :: u16
  pir_size :: u16
  router_bus :: u8
  router_devfunc :: u8
  exclusive_irqs :: u16
  compatible_devid :: u32
  miniport_data :: u32
  pir_reserved :: "u8 list"
  pir_checksum :: u8

record pir_table =
  pir :: pir_header
  slots :: "pir_slot list"

definition PIR_SIGNATURE :: u32 where "PIR_SIGNATURE = 0x52495024"

text \<open>Their bytes in memory.\<close>

definition slot_bytes :: "pir_slot \<Rightarrow> u8 list" where
  "slot_bytes p = [ps_bus p, ps_dev p] @ concat (map (\<lambda>l. link l # le_bytes 2 (bitmap l)) (ps_links p)) @ [slot_nr p, ps_reserved p]"

definition header_bytes :: "pir_header \<Rightarrow> u8 list" where
  "header_bytes h = le_bytes 4 (pir_signature h) @ le_bytes 2 (pir_version h) @ le_bytes 2 (pir_size h) @ [router_bus h, router_devfunc h]
     @ le_bytes 2 (exclusive_irqs h) @ le_bytes 4 (compatible_devid h) @ le_bytes 4 (miniport_data h) @ pir_reserved h @ [pir_checksum h]"

definition pir_bytes :: "pir_table \<Rightarrow> u8 list" where
  "pir_bytes t = header_bytes (pir t) @ concat (map slot_bytes (slots t))"

definition sizeof_pir_header :: u16 where "sizeof_pir_header = 32"
definition sizeof_pir_table :: u16 where "sizeof_pir_table = 32 + 6 * 16"

definition pir_links :: "u8 list \<Rightarrow> link_info list" where
  "pir_links ls = map (\<lambda>l. \<lparr>link = l, bitmap = 0xdef8\<rparr>) ls"

definition PIR_TABLE :: pir_table where
  "PIR_TABLE =
     \<lparr>pir = \<lparr>pir_signature = 0, pir_version = 0x0100, pir_size = sizeof_pir_table, router_bus = 0, router_devfunc = 0x08, exclusive_irqs = 0,
        compatible_devid = 0x122e8086, miniport_data = 0, pir_reserved = replicate 11 0, pir_checksum = 0\<rparr>,
      slots = map (\<lambda>(d, ls, n). \<lparr>ps_bus = 0, ps_dev = push_bit 3 d, ps_links = pir_links ls, slot_nr = n, ps_reserved = 0\<rparr>)
        [(1, [0x60, 0x61, 0x62, 0x63], 0),
         (2, [0x61, 0x62, 0x63, 0x60], 1),
         (3, [0x62, 0x63, 0x60, 0x61], 2),
         (4, [0x63, 0x60, 0x61, 0x62], 3),
         (5, [0x60, 0x61, 0x62, 0x63], 4),
         (6, [0x61, 0x62, 0x63, 0x60], 5)]\<rparr>"

definition create_pirtable :: "pir_table \<Rightarrow> pir_table" where
  "create_pirtable t =
     (let t1 = t\<lparr>pir := (pir t)\<lparr>pir_signature := PIR_SIGNATURE\<rparr>\<rparr>
      in t1\<lparr>pir := (pir t1)\<lparr>pir_checksum := pir_checksum (pir t1) - checksum (pir_bytes t1)\<rparr>\<rparr>)"

text \<open>The header of the 32-bit services.\<close>

record bios32_s =
  b32_signature :: u32
  b32_entry :: u32
  b32_version :: u8
  b32_length :: u8
  b32_checksum :: u8
  b32_reserved :: "u8 list"

definition bios32_bytes :: "bios32_s \<Rightarrow> u8 list" where
  "bios32_bytes b = le_bytes 4 (b32_signature b) @ le_bytes 4 (b32_entry b) @ [b32_version b, b32_length b, b32_checksum b] @ b32_reserved b"

definition BIOS32HEADER :: bios32_s where
  "BIOS32HEADER = \<lparr>b32_signature = 0x5f32335f, b32_entry = 0, b32_version = 0, b32_length = 1, b32_checksum = 0, b32_reserved = replicate 5 0\<rparr>"

definition bios32_setup :: "u32 \<Rightarrow> bios32_s \<Rightarrow> bios32_s" where
  "bios32_setup entry b =
     (let b1 = b\<lparr>b32_entry := entry\<rparr> in b1\<lparr>b32_checksum := b32_checksum b1 - checksum (bios32_bytes b1)\<rparr>)"

section \<open>Services\<close>

record pcibios = pci +
  pb_mem :: memory
  pb_count :: nat

definition RET_FUNC_NOT_SUPPORTED :: u8 where "RET_FUNC_NOT_SUPPORTED = 0x81"
definition RET_DEVICE_NOT_FOUND :: u8 where "RET_DEVICE_NOT_FOUND = 0x86"
definition RET_BUFFER_TOO_SMALL :: u8 where "RET_BUFFER_TOO_SMALL = 0x89"
definition PCI_CLASS_REVISION :: u32 where "PCI_CLASS_REVISION = 0x08"
definition SEG_BIOS :: u16 where "SEG_BIOS = 0xf000"

text \<open>The empty loop over the devices: the bound that it ends with.\<close>

function pci_max_from :: "nat \<Rightarrow> nat \<Rightarrow> 'a pci_scheme \<Rightarrow> nat \<times> 'a pci_scheme" where
  "pci_max_from b n s =
     (case pci_next b n s of
        (None, s1) \<Rightarrow> (n, s1)
      | (Some (x, m), s1) \<Rightarrow> pci_max_from (x + 1) m s1)"
  by pat_completeness auto
termination
  by (relation "measure (\<lambda>(b, n, s). max n 0x10000 - b)") (auto dest!: pci_next_bounds [OF sym] simp: max_def split: if_splits)

declare pci_max_from.simps [simp del]

definition handle_1ab101 :: "u32 \<Rightarrow> bregs \<Rightarrow> pcibios \<Rightarrow> bregs \<times> pcibios" where
  "handle_1ab101 pcibios32_entry r s =
     (let (mx, s1) = pci_max_from 0 0x0100 s;
          r1 = set_cl (pci_bdf_to_bus (of_nat (mx - 1))) (set_bx 0x0210 (set_al 0x01 r))
      in (set_code_success (r1\<lparr>r_edx := 0x20494350, r_edi := pcibios32_entry + BUILD_BIOS_ADDR\<rparr>), s1))"

text \<open>The test of the two searches: a device that matches, after as many as \<open>count\<close> says.\<close>

definition counted :: "(u32 \<Rightarrow> bool) \<Rightarrow> u32 \<Rightarrow> nat \<Rightarrow> pcibios \<Rightarrow> bool \<times> pcibios" where
  "counted P reg bdf s =
     (let (v, s1) = pci_config_readl (of_nat bdf) reg s in
      if \<not> P v then (False, s1)
      else if pb_count s1 \<noteq> 0 then (False, s1\<lparr>pb_count := pb_count s1 - 1\<rparr>)
      else (True, s1))"

definition search_result :: "bregs \<Rightarrow> nat option \<times> pcibios \<Rightarrow> bregs \<times> pcibios" where
  "search_result r res = (case res of
      (Some bdf, s1) \<Rightarrow> (set_code_success (set_bx (of_nat bdf) r), s1)
    | (None, s1) \<Rightarrow> (set_code_invalid RET_DEVICE_NOT_FOUND r, s1))"

definition handle_1ab102 :: "bregs \<Rightarrow> pcibios \<Rightarrow> bregs \<times> pcibios" where
  "handle_1ab102 r s =
     (let id = push_bit 16 (ucast (r_cx r)) OR ucast (r_dx r); count = unat (lo16 (r_esi r))
      in search_result r (find_pci_from (counted (\<lambda>v. v = id) PCI_VENDOR_ID) 0 0x0100 (s\<lparr>pb_count := count\<rparr>)))"

definition handle_1ab103 :: "bregs \<Rightarrow> pcibios \<Rightarrow> bregs \<times> pcibios" where
  "handle_1ab103 r s =
     (let count = unat (lo16 (r_esi r)); classprog = r_ecx r
      in search_result r (find_pci_from (counted (\<lambda>v. drop_bit 8 v = classprog) PCI_CLASS_REVISION) 0 0x0100 (s\<lparr>pb_count := count\<rparr>)))"

definition handle_1ab108 :: "bregs \<Rightarrow> pcibios \<Rightarrow> bregs \<times> pcibios" where
  "handle_1ab108 r s = (let (v, s1) = pci_config_readb (r_bx r) (ucast (lo16 (r_edi r))) s in (set_code_success (set_cl v r), s1))"

definition handle_1ab109 :: "bregs \<Rightarrow> pcibios \<Rightarrow> bregs \<times> pcibios" where
  "handle_1ab109 r s = (let (v, s1) = pci_config_readw (r_bx r) (ucast (lo16 (r_edi r))) s in (set_code_success (set_cx v r), s1))"

definition handle_1ab10a :: "bregs \<Rightarrow> pcibios \<Rightarrow> bregs \<times> pcibios" where
  "handle_1ab10a r s = (let (v, s1) = pci_config_readl (r_bx r) (ucast (lo16 (r_edi r))) s in (set_code_success (r\<lparr>r_ecx := v\<rparr>), s1))"

definition handle_1ab10b :: "bregs \<Rightarrow> pcibios \<Rightarrow> bregs \<times> pcibios" where
  "handle_1ab10b r s = (set_code_success r, pci_config_writeb (r_bx r) (ucast (lo16 (r_edi r))) (r_cl r) s)"

definition handle_1ab10c :: "bregs \<Rightarrow> pcibios \<Rightarrow> bregs \<times> pcibios" where
  "handle_1ab10c r s = (set_code_success r, pci_config_writew (r_bx r) (ucast (lo16 (r_edi r))) (r_cx r) s)"

definition handle_1ab10d :: "bregs \<Rightarrow> pcibios \<Rightarrow> bregs \<times> pcibios" where
  "handle_1ab10d r s = (set_code_success r, pci_config_writel (r_bx r) (ucast (lo16 (r_edi r))) (r_ecx r) s)"

definition handle_1ab10e :: "u16 \<Rightarrow> bregs \<Rightarrow> pcibios \<Rightarrow> bregs \<times> pcibios" where
  "handle_1ab10e PirOffset r s =
     (if PirOffset = 0 then (set_code_invalid RET_FUNC_NOT_SUPPORTED r, s)
      else
        let param = lo16 (r_edi r); es = r_es r; m = pb_mem s;
            bufsize = le_word (far_read m es param 2) :: u16;
            pirsize = le_word (far_read m SEG_BIOS (PirOffset + 6) 2) - sizeof_pir_header;
            m1 = far_write m es param (le_bytes 2 pirsize) in
        if bufsize < pirsize then (set_code_invalid RET_BUFFER_TOO_SMALL r, s\<lparr>pb_mem := m1\<rparr>)
        else
          let buf_far = le_word (far_read m1 es (param + 2) 2); buf_seg = le_word (far_read m1 es (param + 4) 2);
              m2 = memcpy_far m1 buf_seg buf_far SEG_BIOS (PirOffset + sizeof_pir_header) (unat pirsize)
          in (set_code_success (set_bx (le_word (far_read m2 SEG_BIOS (PirOffset + 10) 2)) r), s\<lparr>pb_mem := m2\<rparr>))"

definition handle_1ab1XX :: "bregs \<Rightarrow> pcibios \<Rightarrow> bregs \<times> pcibios" where
  "handle_1ab1XX r s = (set_code_invalid RET_FUNC_NOT_SUPPORTED r, s)"

definition handle_1ab1 :: "u32 \<Rightarrow> u16 \<Rightarrow> bregs \<Rightarrow> pcibios \<Rightarrow> bregs \<times> pcibios" where
  "handle_1ab1 pcibios32_entry PirOffset r s =
     (let al = r_al r in
      if al = 0x01 then handle_1ab101 pcibios32_entry r s
      else if al = 0x02 then handle_1ab102 r s
      else if al = 0x03 then handle_1ab103 r s
      else if al = 0x08 then handle_1ab108 r s
      else if al = 0x09 then handle_1ab109 r s
      else if al = 0x0a then handle_1ab10a r s
      else if al = 0x0b then handle_1ab10b r s
      else if al = 0x0c then handle_1ab10c r s
      else if al = 0x0d then handle_1ab10d r s
      else if al = 0x0e then handle_1ab10e PirOffset r s
      else handle_1ab1XX r s)"

section \<open>Searches\<close>

lemma pci_max_from_eq:
  assumes "scan_pos s b"
  shows "\<exists>c. pci_max_from b n s = (bus_limit s b n, s\<lparr>pci_cmd := c\<rparr>)"
  using assms
proof (induction b n s rule: pci_max_from.induct)
  case (1 b n s)
  obtain r s1 where r: "pci_next b n s = (r, s1)" by fastforce
  note nx = pci_next_visible [OF "1.prems" r]
  obtain c where c: "s1 = s\<lparr>pci_cmd := c\<rparr>" using nx(1) by blast
  show ?case
  proof (cases r)
    case None
    then show ?thesis using nx(2) [OF None] r c by (simp add: bus_limit_end pci_max_from.simps [of b])
  next
    case (Some p)
    obtain x m where p: "p = (x, m)" by fastforce
    have x: "b \<le> x" "x < n" "visible s x" "filter (visible s) [b..<x] = []" "m = (if bridge s x then max n (bus_end s x) else n)"
      using nx(3) [of x m] Some p by blast+
    note tv = same_enum_views [OF same_enum_simps(2) [of s c]]
    have "scan_pos s1 (x + 1)" using x(3) tv by (simp add: scan_pos_def c)
    from "1.IH" [OF r [symmetric] Some p [symmetric] this] show ?thesis
      using bus_limit_step(1) [OF x(1-4)] x(5) r Some p tv by (auto simp: pci_max_from.simps [of b] c)
  qed
qed

text \<open>The match with a given number in a list, counted from 0.\<close>

definition nth_match :: "('a \<Rightarrow> bool) \<Rightarrow> nat \<Rightarrow> 'a list \<Rightarrow> 'a option" where
  "nth_match P k xs = (let ys = filter P xs in if k < length ys then Some (ys ! k) else None)"

lemma nth_match_Cons: "nth_match P k (x # xs) = (if P x then (if k = 0 then Some x else nth_match P (k - 1) xs) else nth_match P k xs)"
  by (cases k) (simp_all add: nth_match_def Let_def)

text \<open>A search changes the address register and its counter only.\<close>

definition unchanged :: "pcibios \<Rightarrow> pcibios \<Rightarrow> bool" where
  "unchanged s t \<longleftrightarrow> pci_cfg t = pci_cfg s \<and> pci_wmask t = pci_wmask s \<and> pb_mem t = pb_mem s"

lemma find_counted:
  assumes "scan_pos s b"
  shows "fst (find_pci_from (counted P reg) b n s)
      = nth_match (\<lambda>x. P (pci_cfg s (of_nat x) (reg AND 0xfc))) (pb_count s) (filter (visible s) [b..<bus_limit s b n])
    \<and> unchanged s (snd (find_pci_from (counted P reg) b n s))"
  using assms
proof (induction "counted P reg" b n s rule: find_pci_from.induct)
  case (1 b n s)
  obtain r s1 where r: "pci_next b n s = (r, s1)" by fastforce
  note nx = pci_next_visible [OF "1.prems" r]
  obtain c where c: "s1 = s\<lparr>pci_cmd := c\<rparr>" using nx(1) by blast
  show ?case
  proof (cases r)
    case None
    then show ?thesis using nx(2) [OF None] r c
      by (simp add: bus_limit_end find_pci_from.simps [of _ b] nth_match_def unchanged_def)
  next
    case (Some p)
    obtain x m where p: "p = (x, m)" by fastforce
    have x: "b \<le> x" "x < n" "visible s x" "filter (visible s) [b..<x] = []" "m = (if bridge s x then max n (bus_end s x) else n)"
      using nx(3) [of x m] Some p by blast+
    obtain hit s2 where t: "counted P reg x s1 = (hit, s2)" by fastforce
    let ?Q = "P (pci_cfg s (of_nat x) (reg AND 0xfc))"
    have z: "s\<lparr>pci_cmd := d, pb_count := pb_count s\<rparr> = s\<lparr>pci_cmd := d\<rparr>" for d by simp
    let ?s2 = "s\<lparr>pci_cmd := pci_address (of_nat x) reg, pb_count := if ?Q \<and> pb_count s \<noteq> 0 then pb_count s - 1 else pb_count s\<rparr>"
    have "counted P reg x s1 = (?Q \<and> pb_count s = 0, ?s2)" by (simp add: counted_def pci_config_read c z)
    then have h: "hit = (?Q \<and> pb_count s = 0)" and d: "s2 = ?s2" using t by simp_all
    have e: "same_enum s s2" unfolding d by (simp add: same_enum_def fun_eq_iff cfg_views)
    note tv = same_enum_views [OF e]
    note step = bus_limit_step [OF x(1-4), folded x(5)]
    show ?thesis
    proof (cases hit)
      case True
      then show ?thesis using h step r Some p t d by (simp add: find_pci_from.simps [of _ b] nth_match_Cons unchanged_def)
    next
      case False
      have "scan_pos s2 (x + 1)" using x(3) tv by (simp add: scan_pos_def)
      from "1.hyps" [OF r [symmetric] Some p [symmetric] t [symmetric] False this] show ?thesis
        using False h step r Some p t tv d by (auto simp: find_pci_from.simps [of _ b] nth_match_Cons unchanged_def split: if_splits)
    qed
  qed
qed

lemma scan_start [simp]: "scan_pos s 0"
  by (simp add: scan_pos_def)

lemma views_count [simp]:
  "visible (s\<lparr>pb_count := k\<rparr>) = visible s" "bus_limit (s\<lparr>pb_count := k\<rparr>) = bus_limit s"
proof -
  have "same_enum s (s\<lparr>pb_count := k\<rparr>)" by (simp add: same_enum_def fun_eq_iff cfg_views)
  then show "visible (s\<lparr>pb_count := k\<rparr>) = visible s" "bus_limit (s\<lparr>pb_count := k\<rparr>) = bus_limit s" by (simp_all add: same_enum_views)
qed

lemma nth_match_Some: "nth_match P k xs = Some x \<Longrightarrow> x \<in> set xs \<and> P x"
  using nth_mem [of k "filter P xs"] by (auto simp: nth_match_def Let_def split: if_splits)

section \<open>Properties\<close>

text \<open>What the caller looks for: the identification of a device, or its class with the programming interface.\<close>

definition wanted :: "bregs \<Rightarrow> pcibios \<Rightarrow> nat \<Rightarrow> bool" where
  "wanted r s x \<longleftrightarrow>
     (if r_al r = 0x02 then pci_cfg s (of_nat x) 0 = push_bit 16 (ucast (r_cx r)) OR ucast (r_dx r)
      else drop_bit 8 (pci_cfg s (of_nat x) 8) = r_ecx r)"

text \<open>
  C40. The searches of the PCI services (functions 02h and 03h). \<open>BX\<close> is the device with number \<open>SI\<close>, from 0, among the devices
  with the given identification or class on all buses that can be reached, in the order of their addresses, with the carry flag clear
  and \<open>AH\<close> zero; if there are not as many, the carry flag is set and \<open>AH\<close> is the code for a missing device. Configuration space and memory
  are unchanged.
\<close>

theorem pcibios_finds_devices:
  assumes "r_al r \<in> {0x02, 0x03}" "handle_1ab1 entry PirOffset r s = (r', s')"
  shows "(case nth_match (wanted r s) (unat (lo16 (r_esi r))) (filter (visible s) [0..<bus_limit s 0 0x100]) of
      Some b \<Rightarrow> \<not> Bregs.cf r' \<and> r_ah r' = 0 \<and> unat (r_bx r') = b
    | None \<Rightarrow> Bregs.cf r' \<and> r_ah r' = RET_DEVICE_NOT_FOUND) \<and> unchanged s s'"
proof -
  define P where "P = (if r_al r = 0x02 then (\<lambda>v. v = push_bit 16 (ucast (r_cx r)) OR ucast (r_dx r)) else (\<lambda>v :: u32. drop_bit 8 v = r_ecx r))"
  define reg where "reg = (if r_al r = 0x02 then PCI_VENDOR_ID else PCI_CLASS_REVISION)"
  let ?s = "s\<lparr>pb_count := unat (lo16 (r_esi r))\<rparr>"
  let ?res = "find_pci_from (counted P reg) 0 0x100 ?s"
  have h: "handle_1ab1 entry PirOffset r s = search_result r ?res"
    using assms(1) by (auto simp: handle_1ab1_def handle_1ab102_def handle_1ab103_def P_def reg_def Let_def)
  have w: "(\<lambda>x. P (pci_cfg s (of_nat x) (reg AND 0xfc))) = wanted r s"
    by (auto simp: fun_eq_iff wanted_def P_def reg_def PCI_VENDOR_ID_def PCI_CLASS_REVISION_def)
  have f: "fst ?res = nth_match (wanted r s) (unat (lo16 (r_esi r))) (filter (visible s) [0..<bus_limit s 0 0x100])" "unchanged s (snd ?res)"
    using find_counted [of ?s 0 P reg "0x100"] w by (simp_all add: unchanged_def)
  have b: "b < 2 ^ 16" if "fst ?res = Some b" for b
  proof -
    have "b < bus_limit s 0 0x100" using nth_match_Some [OF f(1) [symmetric, unfolded that]] by auto
    then show ?thesis using bus_limit_props(3) [of s 0 "0x100"] by simp
  qed
  have regs: "r_bx (set_cf c q) = r_bx q" "r_ah (set_ah v q) = v" "r_bx (set_ah v q) = r_bx q" "r_bx (set_bx w q) = w" for c v w q
    by (simp_all add: set_cf_def reg_defs)
  show ?thesis using assms(2) f b unfolding h
    by (auto simp: search_result_def set_code_success_def set_code_invalid_def regs unat_of_nat case_prod_beta split: option.splits)
qed

text \<open>The last bus that function 01h reports is the last one that can be reached.\<close>

lemma pcibios_last_bus:
  assumes "r_al r = 0x01"
  shows "r_cl (fst (handle_1ab1 entry PirOffset r s)) = pci_bdf_to_bus (of_nat (bus_limit s 0 0x100 - 1))"
proof -
  obtain c where "pci_max_from 0 0x100 s = (bus_limit s 0 0x100, s\<lparr>pci_cmd := c\<rparr>)" using pci_max_from_eq [of s 0] by fastforce
  then show ?thesis using assms by (simp add: handle_1ab1_def handle_1ab101_def set_code_success_def reg_defs)
qed

text \<open>The check sums of the two tables are zero, and the routing table has the size that it says.\<close>

lemma pirtable_checksum: "checksum (pir_bytes (create_pirtable t)) = 0"
  by (simp add: create_pirtable_def pir_bytes_def header_bytes_def Let_def)

lemma pirtable_size: "length (pir_bytes (create_pirtable PIR_TABLE)) = unat (pir_size (pir (create_pirtable PIR_TABLE)))"
  by (simp add: create_pirtable_def pir_bytes_def header_bytes_def slot_bytes_def PIR_TABLE_def pir_links_def sizeof_pir_table_def Let_def)

lemma bios32_checksum: "checksum (bios32_bytes (bios32_setup entry b)) = 0"
  by (simp add: bios32_setup_def bios32_bytes_def Let_def)

text \<open>Two network cards of the same kind; the second one is asked for.\<close>

definition ex_nics :: pcibios where
  "ex_nics = \<lparr>pci_cmd = 0, pci_cfg = (\<lambda>b g. if b \<in> {0, 24, 32} then (if g = 0 then (if b = 0 then 0x12378086 else 0x813910ec) else 0) else 0xffffffff),
     pci_wmask = (\<lambda>_ _. 0), pb_mem = (\<lambda>_. 0), pb_count = 0\<rparr>"

theorem pcibios_finds_devices_witness:
  "let r = \<lparr>r_ds = 0, r_es = 0, r_edi = 0, r_esi = 1, r_ebp = 0, r_ebx = 0, r_edx = 0x10ec, r_ecx = 0x8139, r_eax = 0xb102, r_flags = 1\<rparr>;
       r' = fst (handle_1ab1 0 0 r ex_nics)
   in \<not> Bregs.cf r' \<and> unat (r_bx r') = 32"
proof -
  define r :: bregs where "r = \<lparr>r_ds = 0, r_es = 0, r_edi = 0, r_esi = 1, r_ebp = 0, r_ebx = 0, r_edx = 0x10ec, r_ecx = 0x8139, r_eax = 0xb102, r_flags = 1\<rparr>"
  have p: "present ex_nics b \<longleftrightarrow> b \<in> {0, 24, 32}" if "b < 0x100" for b
  proof -
    have "of_nat b \<in> {0, 24, 32 :: u16} \<longleftrightarrow> b \<in> {0, 24, 32}" using that by (auto simp: word_eq_iff_unat unat_of_nat)
    then show ?thesis by (auto simp: present_def ex_nics_def Let_def)
  qed
  have v: "visible ex_nics b \<longleftrightarrow> b \<in> {0, 24, 32}" if "b < 0x100" for b
    using p [OF that] p [of "b - b mod 8"] that by (auto simp: visible_def multifunction_def header_def ex_nics_def)
  have "bus_limit ex_nics 0 0x100 = 0x100"
    by (rule bus_limit_no_bridge) (use v in \<open>auto simp: bridge_def header_def ex_nics_def bridge_type_def PCI_HEADER_TYPE_BRIDGE_def PCI_HEADER_TYPE_CARDBUS_def\<close>)
  moreover have "filter (visible ex_nics) [0..<0x100] = filter (\<lambda>b. b \<in> {0, 24, 32}) [0..<0x100]" by (rule filter_cong) (use v in auto)
  moreover have "filter (\<lambda>b. b \<in> {0, 24, 32}) [0..<0x100] = [0, 24, 32 :: nat]"
    by (rule sorted_distinct_set_unique) (auto simp del: upt.simps simp: sorted_wrt_filter)
  moreover have "wanted r ex_nics 0 = False" "wanted r ex_nics 24" "wanted r ex_nics 32"
    by (simp_all add: wanted_def r_def ex_nics_def reg_defs lo8_def lo16_def push_bit_eq_mult)
  ultimately have m: "nth_match (wanted r ex_nics) (unat (lo16 (r_esi r))) (filter (visible ex_nics) [0..<bus_limit ex_nics 0 0x100]) = Some 32"
    by (simp add: nth_match_def r_def lo16_def)
  have "r_al r \<in> {0x02, 0x03}" by (simp add: r_def reg_defs lo8_def)
  from pcibios_finds_devices [OF this, of 0 0 ex_nics "fst (handle_1ab1 0 0 r ex_nics)" "snd (handle_1ab1 0 0 r ex_nics)"] m
  show ?thesis unfolding Let_def r_def [symmetric] by simp
qed

end
