(* ===== verification/Spec2Isabelle.thy ===== *)
theory Spec2Isabelle
  imports Coremu_Delivery Coremu_Signal Pmm Kbd Boot Output Ps2port Serial Pciinit Vga_Text Ata_Boot Ata_Dma Ata_Detect Stacks Floppy_Disk Floppy_Init Pcibios
begin

text \<open>
  COREMU is a library that runs the virtual processors of a full-system emulator as threads of the
  host. A core (\<open>CMCore\<close>) has a queue of pending interrupts: any thread appends to it, only the thread
  of the core removes from it, and a signal tells the core to look. The repository also holds the
  firmware that the emulated machine boots with (SeaBIOS). This development models the library and
  the services of the firmware, one theory per component, and proves that they do what their callers
  rely on.

  \<^bold>\<open>COREMU\<close> (\<open>src/main\<close>, \<open>src/incl\<close>)

  \<^item> \<open>Prelude\<close>: the result type \<open>error + 'a\<close>, C arithmetic, and lemmas on words shared by all theories.
  \<^item> \<open>Atomic\<close>: the compare-and-exchange, fetch-and-add and bit operations of \<open>atomic-template.h\<close> and
    \<open>coremu-atomic.h\<close>, each as one step on a memory cell, and the spin lock.
  \<^item> \<open>Queue_Spec\<close>: the contract of a queue as the locale \<open>fifo_queue\<close> (a representation relation to lists),
    with what any such queue gives its client, and linked chains of nodes.
  \<^item> \<open>Lock_Queue\<close> (\<open>lock-queue.c\<close>): the queue with a spin lock over an explicit heap of nodes. Its operations
    as calls interpret \<open>fifo_queue\<close>; \<open>lq_reachable\<close> interleaves any number of producers with the consumer,
    one memory access per step. First in, first out, memory safety and the counter are shown for every interleaving.
  \<^item> \<open>MS_Queue\<close> (\<open>ms-queue.c\<close>): the lock-free queue of Michael and Scott, with counted pointers, the helping
    steps and the signal mask; it interprets \<open>fifo_queue\<close> too. Two faults of the code are theorems:
    the mask is not restored when the queue is empty, and a node can be read after it was freed.
  \<^item> \<open>Coremu_Utils\<close> (\<open>utils.c\<close>, \<open>malloc-helper.c\<close>), \<open>Coremu\<close> (\<open>core.c\<close>, \<open>hw.c\<close>, \<open>sched.c\<close>, \<open>intr.c\<close>): the state of
    the whole library as a record, the operations of cores, scheduling and interrupts over a queue given
    by its operations, and the locale \<open>intr_delivery\<close> with the lemmas on delivery.
  \<^item> \<open>Coremu_Delivery\<close>: the interpretations of that locale by both queues, and the properties that span
    components: every interrupt sent is handled once and in order, also those that the handler sends
    meanwhile, and a signal is sent exactly when it is needed.
  \<^item> \<open>Coremu_Signal\<close> (\<open>intr.c\<close> again): \<open>coremu_send_signal\<close> and the signal handler with every memory access as a
    step, for any number of senders; the calls of \<open>Coremu\<close> are the runs that nothing interrupts. With one sender
    at a time the adaptive threshold stays in its range; with two senders it does not, which is a theorem.

  \<^bold>\<open>Firmware\<close> (\<open>src/bios/seabios/src\<close>)

  \<^item> \<open>E820\<close> (\<open>memmap.c\<close>): the memory map; \<open>add_e820\<close> against the function from addresses to types.
  \<^item> \<open>Bios_Util\<close> (\<open>util.c\<close>, \<open>types.h\<close>, \<open>farptr.h\<close>): alignment, check sums, copying and strings over a memory of
    bytes, with flat and with segmented addresses.
  \<^item> \<open>Pmm\<close> (\<open>pmm.c\<close>): the allocator of five zones, the move of the extended BIOS data area, and the
    PMM interface, in the 16-bit and the 32-bit build, with the invariant that live blocks are apart and inside
    their zones. That a request for more low memory than there is breaks this invariant is a theorem.
  \<^item> \<open>Bregs\<close> (\<open>bregs.h\<close>): the registers of an interrupt handler.
  \<^item> \<open>Block\<close>, \<open>Disk\<close>, \<open>Cdrom\<close> (\<open>block.c\<close>, \<open>disk.c\<close>, \<open>cdrom.c\<close>, \<open>blockcmd.c\<close>): drives and their logical
    geometry, interrupt 13h, and a disk emulated by an image on a compact disc.
  \<^item> \<open>Kbd\<close>, \<open>Mouse\<close>, \<open>Ps2port\<close> (\<open>kbd.c\<close>, \<open>mouse.c\<close>, \<open>ps2port.c\<close>): the keyboard buffer (an interpretation of
    the locale \<open>bounded_fifo\<close>), the translation of scan codes, mouse packets, and the commands to the
    controller with their time-outs; the interrupt handlers in \<open>Ps2port\<close> call the other two.
  \<^item> \<open>Clock\<close>, \<open>System\<close>, \<open>Serial\<close> (\<open>clock.c\<close>, \<open>system.c\<close>, \<open>serial.c\<close>): ticks, the real time clock, timed waits,
    interrupt 15h with the memory map as a guest reads it, and the serial and parallel ports.
  \<^item> \<open>Ata\<close>, \<open>Ata_Disk\<close>, \<open>Ata_Dma\<close> (\<open>ata.c\<close>): the register protocol of a channel over ports that are a parameter;
    the requests to a drive, with programmed transfers and with a table of descriptors for bus mastering. For
    ports that behave like a drive the sectors asked for are moved, and the table covers the buffer exactly.
  \<^item> \<open>Ata_Boot\<close>, \<open>Ata_Init\<close>, \<open>Ata_Detect\<close>: \<open>Disk\<close> and \<open>Boot\<close> with that driver in the place of the parameter, so that a
    boot sector comes from the sectors of a drive; the identification and registration of the drives on all
    channels that the PCI scan finds, each on a stack of its own, with the invariant that the tables refer to
    live records of the allocator. \<open>Ata_Wait\<close>: every wait of the driver ends when the clock runs, whatever the
    devices do.
  \<^item> \<open>Floppy\<close>, \<open>Floppy_Disk\<close>, \<open>Floppy_Init\<close> (\<open>floppy.c\<close>): the commands, the waits for the interrupt and the motor
    time-out, the requests to a floppy drive, and its creation. That the last
    sector of a track is sent to the drive as sector 0 of the next one is a theorem.
  \<^item> \<open>Pmm_Client\<close>: what a component that allocates memory relies on, from the invariant of \<open>Pmm\<close>.
  \<^item> \<open>Stacks\<close> (\<open>stacks.c\<close>): the ring of threads, their creation, switching and end, and the mutexes. Threads that
    yield run in turn, and a thread waits for at most one turn of every other.
  \<^item> \<open>Output\<close> (\<open>output.c\<close>): formats, numbers, and \<open>snprintf\<close> into memory.
  \<^item> \<open>Pci\<close>, \<open>Pciinit\<close> (\<open>pci.c\<close>, \<open>pciinit.c\<close>): the enumeration of the devices against a specification of what
    is visible on the buses reached through bridges, and the assignment of disjoint addresses.
  \<^item> \<open>Pcibios\<close> (\<open>pcibios.c\<close>, \<open>pirtable.c\<close>): the PCI services of interrupt 1Ah, equivalent to a search of the list of
    visible devices, and the routing table with its check sum.
  \<^item> \<open>Boot\<close> (\<open>boot.c\<close>): the registration of boot devices, the boot menu, the connection vectors, and
    interrupts 18h and 19h over the drives of \<open>Disk\<close> and \<open>Cdrom\<close>. The boot sequence refines the list of the
    devices that the boot order names; the device picked in the menu is the one that is tried first.

  \<^bold>\<open>VGA firmware\<close> (\<open>src/bios/seabios/vgasrc\<close>), in the state monad over a bus of ports and memory

  \<^item> \<open>Vgatables\<close>, \<open>Vgaio\<close>, \<open>Vgafb\<close>, \<open>Vga\<close>: one theory per source file of that name; every function of interrupt
    10h, with the registers of the adapter behind the bus.
  \<^item> \<open>Vga_Rows\<close>, \<open>Vga_Text\<close>: for a bus whose text buffer is memory, the pages of the buffer are grids of cells.
    Scrolling moves exactly the window, characters are read back as they were written, and teletype output
    refines a terminal with a cursor.

  \<^bold>\<open>Conventions.\<close> Machine integers are words of their width, so that arithmetic wraps as in C; \<open>int\<close> is used
  where the source counts without reaching its limits. Memory is a function from addresses to bytes, or a
  map from addresses to nodes where the code allocates. Errors, null dereferences and failed assertions
  are values of a sum or option type. Hardware (ports, devices, the clock), the emulator's callbacks and
  the guest's interrupt handlers are not code of the repository: they are parameters, and a theorem that
  relies on them says so in its hypotheses and has a witness with a concrete instance.
  Loops are structural where the code bounds them. Where they poll, they are \<open>partial_function\<close>s or take
  the list of the values read, and \<open>None\<close> means that the loop still waits; theorems about such loops say
  when they return. The retry loops of the lock-free queue take fuel, and two turns are shown to be enough
  for a call that is not interrupted; the loop that drains a queue needs one turn more than it serves
  interrupts.

  \<^bold>\<open>Not modelled.\<close> The USB stack, whose behaviour is that of host controllers working on shared memory; the
  tables of \<open>acpi.c\<close>, \<open>smbios.c\<close> and \<open>mptable.c\<close>, mostly constants; the order of the set-up calls and the loading of
  option ROMs (\<open>post.c\<close>, \<open>optionroms.c\<close>); the mode switches in assembly language (\<open>call32\<close> and \<open>stack_hop\<close> of
  \<open>stacks.c\<close>), \<open>smp.c\<close>, \<open>smm.c\<close> and \<open>mtrr.c\<close>, which program the processor; the power management and PnP
  services; code that the configuration disables (\<open>coreboot.c\<close>, \<open>lzmadecode.c\<close>, \<open>ramdisk.c\<close>, \<open>clext.c\<close>); the fonts
  and palettes of the VGA firmware; and the command-line tools of COREMU. Debug output is left out except in
  \<open>Output\<close>. Relaxed memory order is not modelled: a step of the concurrent models is one atomic access, in
  the order of the source. The threads of the firmware are modelled in \<open>Stacks\<close>; the drivers run without
  interleaving, one channel after the other. The ATA driver is that of the 32-bit build; for buffers below 1M
  the transfers of the 16-bit build are shown to be the same.
\<close>

end
